(* ===== verification/Prelude.thy ===== *)
theory Prelude
  imports Main "HOL-Library.Word" "HOL-Library.Code_Target_Nat"
begin

text \<open>
  What every component shares: the error codes of \<^verbatim>\<open>libx/x/base/error.h\<close>, the
  outcome oracle that stands for \<^verbatim>\<open>malloc\<close>/\<^verbatim>\<open>realloc\<close>, \<^verbatim>\<open>size_t\<close> arithmetic with its
  wrap-around written out, decimal rendering for \<^verbatim>\<open>snprintf\<close>, and the generic lemmas on
  lists the component proofs use.
\<close>

section \<open>Collections of facts\<close>

named_theorems frame_simps "a field an operation does not write is unchanged"
named_theorems inv_intros "an operation keeps a component's invariant"

section \<open>Error codes\<close>

datatype xErrno =
    xErrno_Ok | xErrno_Unknown | xErrno_InvalidArg | xErrno_NoMemory
  | xErrno_InvalidState | xErrno_SysError | xErrno_NotFound | xErrno_AlreadyExists
  | xErrno_Cancelled | xErrno_NotSupported | xErrno_DnsNotFound | xErrno_DnsTempFail
  | xErrno_DnsError | xErrno_Timeout | xErrno_Again | xErrno_Busy
  | xErrno_Pending | xErrno_PromptTooLong

text \<open>The integer a code has in C: its position in the enumeration.\<close>

fun xErrno_code :: "xErrno \<Rightarrow> nat" where
  "xErrno_code xErrno_Ok = 0"
| "xErrno_code xErrno_Unknown = 1"
| "xErrno_code xErrno_InvalidArg = 2"
| "xErrno_code xErrno_NoMemory = 3"
| "xErrno_code xErrno_InvalidState = 4"
| "xErrno_code xErrno_SysError = 5"
| "xErrno_code xErrno_NotFound = 6"
| "xErrno_code xErrno_AlreadyExists = 7"
| "xErrno_code xErrno_Cancelled = 8"
| "xErrno_code xErrno_NotSupported = 9"
| "xErrno_code xErrno_DnsNotFound = 10"
| "xErrno_code xErrno_DnsTempFail = 11"
| "xErrno_code xErrno_DnsError = 12"
| "xErrno_code xErrno_Timeout = 13"
| "xErrno_code xErrno_Again = 14"
| "xErrno_code xErrno_Busy = 15"
| "xErrno_code xErrno_Pending = 16"
| "xErrno_code xErrno_PromptTooLong = 17"

section \<open>Allocation outcomes\<close>

text \<open>
  An allocation either succeeds or fails, and the program sees only which. An oracle lists
  the outcomes of the allocations to come, in the order the code makes them; when it is used
  up every further allocation succeeds. A theorem over all oracles covers every pattern of
  allocation failure.
\<close>

type_synonym allocs = "bool list"

fun draw :: "allocs \<Rightarrow> bool \<times> allocs" where
  "draw [] = (True, [])"
| "draw (b # bs) = (b, bs)"

section \<open>\<^verbatim>\<open>size_t\<close>\<close>

text \<open>
  Sizes are natural numbers below \<open>SIZE_LIM\<close>, on a 64-bit target. Where an argument of the
  caller can make a sum or a difference leave that range, the model uses \<open>size_add\<close>,
  \<open>size_sub\<close> and \<open>size_mul\<close>, which wrap.
\<close>

definition SIZE_LIM :: nat where
  "SIZE_LIM = 2 ^ 64"

definition SIZE_MAX :: nat where
  "SIZE_MAX = 2 ^ 64 - 1"

definition size_add :: "nat \<Rightarrow> nat \<Rightarrow> nat" where
  "size_add a b = (a + b) mod SIZE_LIM"

definition size_sub :: "nat \<Rightarrow> nat \<Rightarrow> nat" where
  "size_sub a b = (if b \<le> a then a - b else (SIZE_LIM - (b - a) mod SIZE_LIM) mod SIZE_LIM)"

definition size_mul :: "nat \<Rightarrow> nat \<Rightarrow> nat" where
  "size_mul a b = (a * b) mod SIZE_LIM"

lemma size_add_small: "a + b < SIZE_LIM \<Longrightarrow> size_add a b = a + b"
  by (simp add: size_add_def)

lemma size_mul_small: "a * b < SIZE_LIM \<Longrightarrow> size_mul a b = a * b"
  by (simp add: size_mul_def)

lemma size_sub_le: "b \<le> a \<Longrightarrow> size_sub a b = a - b"
  by (simp add: size_sub_def)

section \<open>Decimal rendering\<close>

text \<open>\<open>dec n\<close> is what \<^verbatim>\<open>%zu\<close> prints for \<open>n\<close>.\<close>

definition digit :: "nat \<Rightarrow> char" where
  "digit d = char_of (48 + d)"

fun dec :: "nat \<Rightarrow> string" where
  "dec n = (if n < 10 then [digit n] else dec (n div 10) @ [digit (n mod 10)])"

declare dec.simps [simp del]

lemma dec_small: "n < 10 \<Longrightarrow> dec n = [digit n]"
  by (subst dec.simps) simp

lemma dec_step: "\<not> n < 10 \<Longrightarrow> dec n = dec (n div 10) @ [digit (n mod 10)]"
  by (subst dec.simps) simp

lemma length_dec_pos: "0 < length (dec n)"
  by (cases "n < 10") (simp_all add: dec_small dec_step)

lemma length_dec_le: "n < 10 ^ Suc k \<Longrightarrow> length (dec n) \<le> Suc k"
proof (induction k arbitrary: n)
  case 0
  then show ?case by (simp add: dec_small)
next
  case (Suc k)
  show ?case
  proof (cases "n < 10")
    case True
    then show ?thesis by (simp add: dec_small)
  next
    case False
    from Suc.prems have "n div 10 < 10 ^ Suc k"
      by (simp add: div_less_iff_less_mult mult.commute)
    then have "length (dec (n div 10)) \<le> Suc k" by (rule Suc.IH)
    with False show ?thesis by (simp add: dec_step)
  qed
qed

section \<open>Lists\<close>

text \<open>C string prefix test: \<^verbatim>\<open>strncmp (s, p, strlen (p)) == 0\<close>.\<close>

definition has_prefix :: "string \<Rightarrow> string \<Rightarrow> bool" where
  "has_prefix p s \<longleftrightarrow> take (length p) s = p"

lemma has_prefix_append [simp]: "has_prefix p (p @ s)"
  by (simp add: has_prefix_def)

lemma filter_take_drop:
  "length (filter P (take n xs)) + length (filter P (drop n xs)) = length (filter P xs)"
proof -
  have "length (filter P (take n xs @ drop n xs)) = length (filter P xs)" by simp
  then show ?thesis by (simp only: filter_append length_append)
qed

end
