(* ===== verification/XArray.thy ===== *)
theory XArray
  imports Prelude
begin

text \<open>
  \<^verbatim>\<open>libx/x/base/array.c\<close>: the growable array every history, tool-call list and message buffer
  of the agent is kept in. The model keeps the elements and the capacity; the retain and
  release callbacks only move ownership of heap strings and have no counterpart on values.
\<close>

section \<open>State and growth\<close>

record 'a xArray =
  elems :: "'a list"
  cap :: nat

definition ARRAY_DEFAULT_CAP :: nat where
  "ARRAY_DEFAULT_CAP = 8"

text \<open>The doubling loop \<^verbatim>\<open>while (cap < needed) cap *= 2\<close>.\<close>

function arr_double :: "nat \<Rightarrow> nat \<Rightarrow> nat" where
  "arr_double c needed = (if 0 < c \<and> c < needed then arr_double (2 * c) needed else c)"
  by pat_completeness auto
termination
  by (relation "measure (\<lambda>(c, needed). needed - c)") auto

declare arr_double.simps [simp del]

definition arr_next_cap :: "nat \<Rightarrow> nat \<Rightarrow> nat" where
  "arr_next_cap current needed =
     (let c = (if current \<noteq> 0 then current else ARRAY_DEFAULT_CAP)
      in if SIZE_MAX div 2 < needed then SIZE_MAX else arr_double c needed)"

text \<open>
  \<^verbatim>\<open>arr_grow\<close>: no call to \<^verbatim>\<open>realloc\<close> when the capacity is enough, otherwise one, whose outcome
  the oracle gives.
\<close>

definition arr_grow :: "allocs \<Rightarrow> 'a xArray \<Rightarrow> nat \<Rightarrow> xErrno \<times> 'a xArray \<times> allocs" where
  "arr_grow m a needed =
     (if needed \<le> cap a then (xErrno_Ok, a, m)
      else let newcap = arr_next_cap (cap a) needed; (ok, m') = draw m
           in if ok then (xErrno_Ok, a\<lparr>cap := newcap\<rparr>, m') else (xErrno_NoMemory, a, m'))"

text \<open>
  The byte count \<^verbatim>\<open>sizeof (struct xArray_) + newcap * elem_size\<close> handed to \<^verbatim>\<open>realloc\<close>, in
  \<^verbatim>\<open>size_t\<close> arithmetic. The header is six words: three sizes and three callback pointers.
\<close>

definition ARRAY_HEADER :: nat where
  "ARRAY_HEADER = 48"

definition arr_alloc_bytes :: "nat \<Rightarrow> nat \<Rightarrow> nat" where
  "arr_alloc_bytes elem_size newcap = size_add ARRAY_HEADER (size_mul newcap elem_size)"

section \<open>Operations\<close>

definition xArrayCreate :: "allocs \<Rightarrow> nat \<Rightarrow> nat \<Rightarrow> 'a xArray option \<times> allocs" where
  "xArrayCreate m elem_size initial_cap =
     (if elem_size = 0 then (None, m)
      else let c = (if initial_cap = 0 then ARRAY_DEFAULT_CAP else initial_cap);
               (ok, m') = draw m
           in if ok then (Some \<lparr>elems = [], cap = c\<rparr>, m') else (None, m'))"

definition xArrayReset :: "'a xArray \<Rightarrow> 'a xArray" where
  "xArrayReset a = a\<lparr>elems := []\<rparr>"

text \<open>
  \<^verbatim>\<open>xArrayPush\<close> returns a zeroed slot that the caller fills at once; \<open>x\<close> is the value the
  caller leaves in it. False is the NULL return.
\<close>

definition xArrayPush :: "allocs \<Rightarrow> 'a xArray \<Rightarrow> 'a \<Rightarrow> bool \<times> 'a xArray \<times> allocs" where
  "xArrayPush m a x =
     (case arr_grow m a (length (elems a) + 1) of (err, a', m') \<Rightarrow>
        if err \<noteq> xErrno_Ok then (False, a, m')
        else (True, a'\<lparr>elems := elems a' @ [x]\<rparr>, m'))"

definition xArrayPop :: "'a xArray \<Rightarrow> xErrno \<times> 'a xArray" where
  "xArrayPop a =
     (if elems a = [] then (xErrno_InvalidState, a)
      else (xErrno_Ok, a\<lparr>elems := butlast (elems a)\<rparr>))"

text \<open>\<open>z\<close> is the zeroed element that fills the new slots of a growing resize.\<close>

definition xArrayResize :: "allocs \<Rightarrow> 'a \<Rightarrow> 'a xArray \<Rightarrow> nat \<Rightarrow> xErrno \<times> 'a xArray \<times> allocs" where
  "xArrayResize m z a new_len =
     (if new_len < length (elems a) then (xErrno_Ok, a\<lparr>elems := take new_len (elems a)\<rparr>, m)
      else case (if cap a < new_len then arr_grow m a new_len else (xErrno_Ok, a, m)) of
        (err, a', m') \<Rightarrow>
          if err \<noteq> xErrno_Ok then (err, a, m')
          else (xErrno_Ok,
                a'\<lparr>elems := elems a' @ replicate (new_len - length (elems a')) z\<rparr>, m'))"

definition xArrayRemoveRange :: "'a xArray \<Rightarrow> nat \<Rightarrow> nat \<Rightarrow> xErrno \<times> 'a xArray" where
  "xArrayRemoveRange a start count =
     (if count = 0 then (xErrno_Ok, a)
      else if length (elems a) < size_add start count then (xErrno_InvalidArg, a)
      else (xErrno_Ok, a\<lparr>elems := take start (elems a) @ drop (start + count) (elems a)\<rparr>))"

definition xArrayInsert :: "allocs \<Rightarrow> 'a xArray \<Rightarrow> nat \<Rightarrow> 'a \<Rightarrow> xErrno \<times> 'a xArray \<times> allocs" where
  "xArrayInsert m a idx x =
     (if length (elems a) < idx then (xErrno_InvalidArg, a, m)
      else case arr_grow m a (length (elems a) + 1) of (err, a', m') \<Rightarrow>
        if err \<noteq> xErrno_Ok then (err, a, m')
        else (xErrno_Ok, a'\<lparr>elems := take idx (elems a') @ [x] @ drop idx (elems a')\<rparr>, m'))"

definition xArrayAt :: "'a xArray \<Rightarrow> nat \<Rightarrow> 'a option" where
  "xArrayAt a idx = (if idx < length (elems a) then Some (elems a ! idx) else None)"

definition xArrayLen :: "'a xArray \<Rightarrow> nat" where
  "xArrayLen a = length (elems a)"

text \<open>The linear search with the caller's equality; None is \<^verbatim>\<open>ARRAY_NPOS\<close>.\<close>

fun arr_find_from :: "('a \<Rightarrow> bool) \<Rightarrow> nat \<Rightarrow> 'a list \<Rightarrow> nat option" where
  "arr_find_from p i [] = None"
| "arr_find_from p i (x # xs) = (if p x then Some i else arr_find_from p (Suc i) xs)"

definition xArrayFind :: "'a xArray \<Rightarrow> ('a \<Rightarrow> bool) \<Rightarrow> nat option" where
  "xArrayFind a p = arr_find_from p 0 (elems a)"

section \<open>Growth terminates at a sufficient capacity\<close>

lemma arr_double_ge: "0 < c \<Longrightarrow> needed \<le> arr_double c needed"
proof (induction c needed rule: arr_double.induct)
  case (1 c needed)
  then show ?case by (cases "c < needed") (simp_all add: arr_double.simps [of c needed])
qed

lemma arr_double_mono: "c \<le> arr_double c needed"
proof (induction c needed rule: arr_double.induct)
  case (1 c needed)
  then show ?case
    by (cases "0 < c \<and> c < needed") (auto simp: arr_double.simps [of c needed])
qed

lemma arr_double_less: "c < needed \<Longrightarrow> arr_double c needed < 2 * needed"
proof (induction c needed rule: arr_double.induct)
  case (1 c needed)
  show ?case
  proof (cases "0 < c \<and> 2 * c < needed")
    case True
    with 1 show ?thesis by (simp add: arr_double.simps [of c needed])
  next
    case False
    with 1(2) show ?thesis
      by (auto simp: arr_double.simps [of c needed] arr_double.simps [of "2 * c" needed])
  qed
qed

lemma arr_next_cap_ge: "needed \<le> SIZE_MAX \<Longrightarrow> needed \<le> arr_next_cap current needed"
  by (auto simp: arr_next_cap_def Let_def ARRAY_DEFAULT_CAP_def intro: arr_double_ge)

lemma arr_next_cap_le:
  assumes "current \<le> SIZE_MAX"
  shows "arr_next_cap current needed \<le> SIZE_MAX"
proof -
  define c where "c = (if current \<noteq> 0 then current else ARRAY_DEFAULT_CAP)"
  have c: "c \<le> SIZE_MAX" using assms by (simp add: c_def SIZE_MAX_def ARRAY_DEFAULT_CAP_def)
  have "arr_double c needed \<le> SIZE_MAX" if "\<not> SIZE_MAX div 2 < needed"
  proof (cases "c < needed")
    case True
    then have "arr_double c needed < 2 * needed" by (rule arr_double_less)
    with that show ?thesis by linarith
  next
    case False
    then show ?thesis using c by (simp add: arr_double.simps [of c needed])
  qed
  then show ?thesis by (simp add: arr_next_cap_def Let_def c_def)
qed

section \<open>What the operations do to the elements\<close>

lemma arr_grow_elems: "arr_grow m a n = (e, a', m') \<Longrightarrow> elems a' = elems a"
  by (auto simp: arr_grow_def Let_def split: if_splits prod.splits)

lemma arr_grow_err: "arr_grow m a n = (e, a', m') \<Longrightarrow> e = xErrno_Ok \<or> e = xErrno_NoMemory"
  by (auto simp: arr_grow_def Let_def split: if_splits prod.splits)

lemma xArrayPush_elems:
  "xArrayPush m a x = (ok, a', m') \<Longrightarrow> elems a' = (if ok then elems a @ [x] else elems a)"
  by (auto simp: xArrayPush_def dest: arr_grow_elems split: if_splits prod.splits)

lemma xArrayPush_fail: "xArrayPush m a x = (False, a', m') \<Longrightarrow> a' = a"
  by (auto simp: xArrayPush_def split: if_splits prod.splits)

lemma xArrayPush_no_failure: "fst (xArrayPush [] a x)"
  by (simp add: xArrayPush_def arr_grow_def Let_def)

lemma xArrayPop_elems:
  "elems (snd (xArrayPop a)) = butlast (elems a)"
  by (simp add: xArrayPop_def)

lemma xArrayInsert_elems:
  "xArrayInsert m a i x = (e, a', m') \<Longrightarrow>
   elems a' = (if e = xErrno_Ok then take i (elems a) @ [x] @ drop i (elems a) else elems a)"
  by (auto simp: xArrayInsert_def dest: arr_grow_elems split: if_splits prod.splits)

lemma xArrayRemoveRange_elems:
  "start + count \<le> length (elems a) \<Longrightarrow> length (elems a) < SIZE_LIM \<Longrightarrow>
   elems (snd (xArrayRemoveRange a start count)) =
     take start (elems a) @ drop (start + count) (elems a)"
  by (auto simp: xArrayRemoveRange_def size_add_small)

lemma arr_find_from_Some: "arr_find_from p i xs = Some j \<Longrightarrow> i \<le> j \<and> j - i < length xs \<and> p (xs ! (j - i))"
proof (induction xs arbitrary: i)
  case Nil
  then show ?case by simp
next
  case (Cons x xs)
  show ?case
  proof (cases "p x")
    case True
    with Cons.prems show ?thesis by simp
  next
    case False
    with Cons.prems have "arr_find_from p (Suc i) xs = Some j" by simp
    with Cons.IH [of "Suc i"] obtain d where "j - i = Suc d" "j - Suc i = d"
      by (metis Suc_diff_le diff_Suc_Suc)
    with Cons.IH [of "Suc i"] \<open>arr_find_from p (Suc i) xs = Some j\<close> show ?thesis by auto
  qed
qed

text \<open>Removing one element that is there never meets the range check.\<close>

lemma xArrayRemoveRange_one:
  "i < length (elems a) \<Longrightarrow>
   elems (snd (xArrayRemoveRange a i 1)) = take i (elems a) @ drop (Suc i) (elems a)"
proof -
  assume "i < length (elems a)"
  then have "size_add i 1 \<le> length (elems a)"
    using le_trans [OF mod_less_eq_dividend [of "Suc i" SIZE_LIM] Suc_leI] by (simp add: size_add_def)
  then show ?thesis by (simp add: xArrayRemoveRange_def)
qed

section \<open>The contract of a growable sequence\<close>

text \<open>
  What the agent relies on: a push adds its element at the end or leaves the sequence as it
  was, it cannot fail when no allocation does, and a pop removes the last element. Pushing a
  batch and popping back to a checkpoint are stated over the contract alone.
\<close>

locale growable =
  fixes items :: "'s \<Rightarrow> 'a list"
    and push :: "allocs \<Rightarrow> 's \<Rightarrow> 'a \<Rightarrow> bool \<times> 's \<times> allocs"
    and pop :: "'s \<Rightarrow> 's"
  assumes push_items: "push m s x = (ok, s', m') \<Longrightarrow> items s' = (if ok then items s @ [x] else items s)"
    and push_total: "\<exists>s'. push [] s x = (True, s', [])"
    and pop_items: "items (pop s) = butlast (items s)"
begin

fun push_all :: "allocs \<Rightarrow> 's \<Rightarrow> 'a list \<Rightarrow> 's \<times> allocs" where
  "push_all m s [] = (s, m)"
| "push_all m s (x # xs) =
     (case push m s x of (ok, s1, m1) \<Rightarrow> if ok then push_all m1 s1 xs else (s1, m1))"

lemma push_all_prefix:
  "push_all m s xs = (s', m') \<Longrightarrow> \<exists>k \<le> length xs. items s' = items s @ take k xs"
proof (induction xs arbitrary: m s)
  case Nil
  then show ?case by simp
next
  case (Cons x xs)
  obtain ok s1 m1 where p: "push m s x = (ok, s1, m1)" by (metis prod_cases3)
  show ?case
  proof (cases ok)
    case True
    with Cons p obtain k where k: "k \<le> length xs" "items s' = items s1 @ take k xs" by auto
    with True push_items [OF p] show ?thesis by (intro exI [of _ "Suc k"]) simp
  next
    case False
    with Cons.prems p push_items [OF p] show ?thesis by (intro exI [of _ 0]) simp
  qed
qed

lemma push_all_total: "\<exists>s'. push_all [] s xs = (s', []) \<and> items s' = items s @ xs"
proof (induction xs arbitrary: s)
  case Nil
  then show ?case by simp
next
  case (Cons x xs)
  obtain s1 where p: "push [] s x = (True, s1, [])" using push_total by blast
  with Cons.IH [of s1] push_items [OF p] show ?case by auto
qed

function pop_to :: "nat \<Rightarrow> 's \<Rightarrow> 's" where
  "pop_to n s = (if n < length (items s) then pop_to n (pop s) else s)"
  by pat_completeness auto
termination
  by (relation "measure (\<lambda>(n, s). length (items s))") (auto simp: pop_items)

declare pop_to.simps [simp del]

lemma pop_to_items: "items (pop_to n s) = take n (items s)"
proof (induction n s rule: pop_to.induct)
  case (1 n s)
  show ?case
  proof (cases "n < length (items s)")
    case True
    then have "take n (butlast (items s)) = take n (items s)" by (simp add: take_butlast)
    with True 1 show ?thesis by (simp add: pop_to.simps [of n s] pop_items)
  next
    case False
    then show ?thesis by (simp add: pop_to.simps [of n s])
  qed
qed

text \<open>Rolling a batch back restores the items.\<close>

lemma pop_to_push_all: "push_all m s xs = (s', m') \<Longrightarrow> items (pop_to (length (items s)) s') = items s"
  using push_all_prefix [of m s xs s' m'] by (auto simp: pop_to_items)

end

interpretation arr: growable elems xArrayPush "\<lambda>a. snd (xArrayPop a)"
proof
  fix m s x ok s' m'
  assume "xArrayPush m s x = (ok, s', m')"
  then show "elems s' = (if ok then elems s @ [x] else elems s)" by (rule xArrayPush_elems)
next
  fix s x
  show "\<exists>s'. xArrayPush [] s x = (True, s', [])" by (auto simp: xArrayPush_def arr_grow_def Let_def)
next
  fix s
  show "elems (snd (xArrayPop s)) = butlast (elems s)" by (rule xArrayPop_elems)
qed

end
