(* ===== verification/Message.thy ===== *)
theory Message
  imports XArray
begin

text \<open>
  The conversation data of the agent (\<^verbatim>\<open>message.h\<close>, \<^verbatim>\<open>turn_private.h\<close>) and the code that
  \<^verbatim>\<open>query.c\<close> and \<^verbatim>\<open>session.c\<close> share word for word: appending an entry to a turn array,
  copying an incoming message into entries, and folding entries back into the messages a
  provider receives.
\<close>

section \<open>Data\<close>

datatype xAgentRole =
    xAgentRole_System | xAgentRole_User | xAgentRole_Assistant
  | xAgentRole_Tool | xAgentRole_Summary

datatype xAgentSessionEntryKind =
    xAgentSessionEntry_Text | xAgentSessionEntry_ToolUse
  | xAgentSessionEntry_ToolResult | xAgentSessionEntry_Thinking

text \<open>
  A content block: the tag and the active member of the union. A pointer that may be NULL is
  an option. Text: bytes and length; ToolUse: id, name, arguments; ToolResult: id, output,
  output length, error flag; Thinking: bytes and length.
\<close>

datatype xAgentContent =
    xAgentContent_Text "string option" nat
  | xAgentContent_ToolUse "string option" "string option" "string option"
  | xAgentContent_ToolResult "string option" "string option" nat int
  | xAgentContent_Thinking "string option" nat

record xAgentMessage =
  role :: xAgentRole
  contents :: "xAgentContent list"

record xAgentSessionMsg =
  m_role :: xAgentRole
  m_kind :: xAgentSessionEntryKind
  m_text :: "string option"
  m_text_len :: nat
  m_tool_use_id :: "string option"
  m_tool_use_name :: "string option"
  m_tool_use_args :: "string option"
  m_tool_result_id :: "string option"
  m_tool_result_output :: "string option"
  m_tool_result_output_len :: nat
  m_tool_result_is_error :: int
  m_created_at_ms :: nat

text \<open>What \<^verbatim>\<open>memset (slot, 0, ...)\<close> leaves: the first role, the first kind, NULL, 0.\<close>

definition zero_msg :: xAgentSessionMsg where
  "zero_msg = \<lparr>m_role = xAgentRole_System, m_kind = xAgentSessionEntry_Text,
     m_text = None, m_text_len = 0, m_tool_use_id = None, m_tool_use_name = None,
     m_tool_use_args = None, m_tool_result_id = None, m_tool_result_output = None,
     m_tool_result_output_len = 0, m_tool_result_is_error = 0, m_created_at_ms = 0\<rparr>"

section \<open>String copies\<close>

definition strlen :: "string \<Rightarrow> nat" where
  "strlen s = length (takeWhile (\<lambda>c. c \<noteq> CHR 0x00) s)"

definition dup_bytes :: "allocs \<Rightarrow> string option \<Rightarrow> nat \<Rightarrow> string option \<times> allocs" where
  "dup_bytes m src len =
     (case src of None \<Rightarrow> (None, m)
      | Some s \<Rightarrow> let (ok, m') = draw m in (if ok then Some (take len s) else None, m'))"

definition dup_cstr :: "allocs \<Rightarrow> string option \<Rightarrow> string option \<times> allocs" where
  "dup_cstr m src =
     (case src of None \<Rightarrow> (None, m) | Some s \<Rightarrow> dup_bytes m (Some s) (strlen s))"

definition or_empty :: "string option \<Rightarrow> string" where
  "or_empty s = (case s of None \<Rightarrow> '''' | Some t \<Rightarrow> t)"

section \<open>Appending one entry\<close>

text \<open>
  Each function pushes a zeroed slot, fills it, and pops it again when a copy fails, so the
  array is either extended by one complete entry or left as it was.
\<close>

type_synonym msgs = "xAgentSessionMsg xArray"

text \<open>Writing through the pointer \<^verbatim>\<open>xArrayPush\<close> returned.\<close>

definition set_slot :: "'a xArray \<Rightarrow> 'a \<Rightarrow> 'a xArray" where
  "set_slot a x = a\<lparr>elems := butlast (elems a) @ [x]\<rparr>"

definition msg_push :: "allocs \<Rightarrow> nat \<Rightarrow> msgs \<Rightarrow> bool \<times> msgs \<times> allocs" where
  "msg_push m now a = xArrayPush m a (zero_msg\<lparr>m_created_at_ms := now\<rparr>)"

definition turn_buf_append_text ::
  "allocs \<Rightarrow> nat \<Rightarrow> msgs \<Rightarrow> xAgentRole \<Rightarrow> string option \<Rightarrow> nat \<Rightarrow> xErrno \<times> msgs \<times> allocs" where
  "turn_buf_append_text m now a r txt len =
     (case msg_push m now a of (ok, a1, m1) \<Rightarrow>
        if \<not> ok then (xErrno_NoMemory, a1, m1)
        else let slot = zero_msg\<lparr>m_created_at_ms := now, m_role := r,
                          m_kind := xAgentSessionEntry_Text\<rparr>
             in if 0 < len then
                  (case dup_bytes m1 txt len of
                     (None, m2) \<Rightarrow> (xErrno_NoMemory, snd (xArrayPop a1), m2)
                   | (Some b, m2) \<Rightarrow>
                       (xErrno_Ok, set_slot a1 (slot\<lparr>m_text := Some b, m_text_len := len\<rparr>), m2))
                else (xErrno_Ok, set_slot a1 slot, m1))"

definition turn_buf_append_thinking ::
  "allocs \<Rightarrow> nat \<Rightarrow> msgs \<Rightarrow> string option \<Rightarrow> nat \<Rightarrow> xErrno \<times> msgs \<times> allocs" where
  "turn_buf_append_thinking m now a txt len =
     (case msg_push m now a of (ok, a1, m1) \<Rightarrow>
        if \<not> ok then (xErrno_NoMemory, a1, m1)
        else let slot = zero_msg\<lparr>m_created_at_ms := now, m_role := xAgentRole_Assistant,
                          m_kind := xAgentSessionEntry_Thinking\<rparr>
             in if 0 < len then
                  (case dup_bytes m1 txt len of
                     (None, m2) \<Rightarrow> (xErrno_NoMemory, snd (xArrayPop a1), m2)
                   | (Some b, m2) \<Rightarrow>
                       (xErrno_Ok, set_slot a1 (slot\<lparr>m_text := Some b, m_text_len := len\<rparr>), m2))
                else (xErrno_Ok, set_slot a1 slot, m1))"

definition turn_buf_append_tool_use ::
  "allocs \<Rightarrow> nat \<Rightarrow> msgs \<Rightarrow> string option \<Rightarrow> string option \<Rightarrow> string option \<Rightarrow>
   xErrno \<times> msgs \<times> allocs" where
  "turn_buf_append_tool_use m now a tid name args =
     (case msg_push m now a of (ok, a1, m1) \<Rightarrow>
        if \<not> ok then (xErrno_NoMemory, a1, m1)
        else let (i, m2) = dup_cstr m1 (Some (or_empty tid));
                 (n, m3) = dup_cstr m2 (Some (or_empty name));
                 (g, m4) = dup_cstr m3 (Some (case args of None \<Rightarrow> ''{}'' | Some s \<Rightarrow> s))
             in if i = None \<or> n = None \<or> g = None
                then (xErrno_NoMemory, snd (xArrayPop a1), m4)
                else (xErrno_Ok,
                      set_slot a1 (zero_msg\<lparr>m_created_at_ms := now,
                        m_role := xAgentRole_Assistant, m_kind := xAgentSessionEntry_ToolUse,
                        m_tool_use_id := i, m_tool_use_name := n, m_tool_use_args := g\<rparr>), m4))"

text \<open>
  The copy of a tool's output and its length: a positive length is taken as given, otherwise
  the output is a C string.
\<close>

definition dup_output ::
  "allocs \<Rightarrow> string option \<Rightarrow> nat \<Rightarrow> string option \<times> nat \<times> allocs" where
  "dup_output m out out_len =
     (if 0 < out_len then (let (b, m') = dup_bytes m out out_len in (b, out_len, m'))
      else case out of
        Some s \<Rightarrow> (let (b, m') = dup_cstr m (Some s) in (b, strlen s, m'))
      | None \<Rightarrow> (let (b, m') = dup_cstr m (Some '''') in (b, 0, m')))"

definition turn_buf_append_tool_result ::
  "allocs \<Rightarrow> nat \<Rightarrow> msgs \<Rightarrow> string option \<Rightarrow> string option \<Rightarrow> nat \<Rightarrow> int \<Rightarrow>
   xErrno \<times> msgs \<times> allocs" where
  "turn_buf_append_tool_result m now a tid out out_len is_error =
     (case msg_push m now a of (ok, a1, m1) \<Rightarrow>
        if \<not> ok then (xErrno_NoMemory, a1, m1)
        else let (i, m2) = dup_cstr m1 (Some (or_empty tid));
                 (output, len, m3) = dup_output m2 out out_len
             in if i = None \<or> output = None
                then (xErrno_NoMemory, snd (xArrayPop a1), m3)
                else (xErrno_Ok,
                      set_slot a1 (zero_msg\<lparr>m_created_at_ms := now,
                        m_role := xAgentRole_Tool, m_kind := xAgentSessionEntry_ToolResult,
                        m_tool_result_id := i, m_tool_result_output := output,
                        m_tool_result_output_len := len,
                        m_tool_result_is_error := is_error\<rparr>), m3))"

section \<open>Copying a message into entries\<close>

text \<open>Total length of the text blocks, and their bytes in order.\<close>

fun text_total :: "xAgentContent list \<Rightarrow> nat" where
  "text_total [] = 0"
| "text_total (xAgentContent_Text t n # cs) = n + text_total cs"
| "text_total (_ # cs) = text_total cs"

fun text_bytes :: "xAgentContent list \<Rightarrow> string" where
  "text_bytes [] = ''''"
| "text_bytes (xAgentContent_Text t n # cs) = take n (or_empty t) @ text_bytes cs"
| "text_bytes (_ # cs) = text_bytes cs"

text \<open>
  The System/User branch, which \<^verbatim>\<open>session.c\<close> repeats as \<^verbatim>\<open>history_append_user_msg\<close>: every
  text block concatenated into one Text entry. The copy buffer is allocated before the slot.
\<close>

definition append_concat ::
  "allocs \<Rightarrow> nat \<Rightarrow> msgs \<Rightarrow> xAgentMessage \<Rightarrow> xErrno \<times> msgs \<times> allocs" where
  "append_concat m now a msg =
     (if text_total (contents msg) = 0 then turn_buf_append_text m now a (role msg) None 0
      else let (ok, m1) = draw m
           in if \<not> ok then (xErrno_NoMemory, a, m1)
              else case msg_push m1 now a of (ok2, a2, m2) \<Rightarrow>
                if \<not> ok2 then (xErrno_NoMemory, a2, m2)
                else (xErrno_Ok,
                      set_slot a2 (zero_msg\<lparr>m_created_at_ms := now, m_role := role msg,
                        m_kind := xAgentSessionEntry_Text,
                        m_text := Some (text_bytes (contents msg)),
                        m_text_len := text_total (contents msg)\<rparr>), m2))"

definition append_assistant_block ::
  "allocs \<Rightarrow> nat \<Rightarrow> msgs \<Rightarrow> xAgentContent \<Rightarrow> xErrno \<times> msgs \<times> allocs" where
  "append_assistant_block m now a c =
     (case c of
        xAgentContent_Text t n \<Rightarrow> turn_buf_append_text m now a xAgentRole_Assistant t n
      | xAgentContent_Thinking t n \<Rightarrow> turn_buf_append_thinking m now a t n
      | xAgentContent_ToolUse i nm g \<Rightarrow> turn_buf_append_tool_use m now a i nm g
      | xAgentContent_ToolResult i out n e \<Rightarrow> (xErrno_Ok, a, m))"

fun append_assistant_blocks ::
  "allocs \<Rightarrow> nat \<Rightarrow> msgs \<Rightarrow> xAgentContent list \<Rightarrow> xErrno \<times> msgs \<times> allocs" where
  "append_assistant_blocks m now a [] = (xErrno_Ok, a, m)"
| "append_assistant_blocks m now a (c # cs) =
     (case append_assistant_block m now a c of
        (rc, a1, m1) \<Rightarrow>
          if rc \<noteq> xErrno_Ok then (rc, a1, m1) else append_assistant_blocks m1 now a1 cs)"

fun append_tool_blocks ::
  "allocs \<Rightarrow> nat \<Rightarrow> msgs \<Rightarrow> xAgentContent list \<Rightarrow> xErrno \<times> msgs \<times> allocs" where
  "append_tool_blocks m now a [] = (xErrno_Ok, a, m)"
| "append_tool_blocks m now a (xAgentContent_ToolResult i out n e # cs) =
     (case turn_buf_append_tool_result m now a i out n e of
        (rc, a1, m1) \<Rightarrow>
          if rc \<noteq> xErrno_Ok then (rc, a1, m1) else append_tool_blocks m1 now a1 cs)"
| "append_tool_blocks m now a (_ # cs) = append_tool_blocks m now a cs"

definition turn_buf_append_message ::
  "allocs \<Rightarrow> nat \<Rightarrow> msgs \<Rightarrow> xAgentMessage \<Rightarrow> xErrno \<times> msgs \<times> allocs" where
  "turn_buf_append_message m now a msg =
     (if role msg = xAgentRole_Assistant then append_assistant_blocks m now a (contents msg)
      else if role msg = xAgentRole_Tool then append_tool_blocks m now a (contents msg)
      else append_concat m now a msg)"

section \<open>Folding entries into messages\<close>

text \<open>
  The block written for an Assistant entry (a ToolResult kind under that role matches no case
  and leaves the zeroed block) and for any other entry.
\<close>

definition assistant_block :: "xAgentSessionMsg \<Rightarrow> xAgentContent" where
  "assistant_block e =
     (case m_kind e of
        xAgentSessionEntry_Text \<Rightarrow> xAgentContent_Text (Some (or_empty (m_text e))) (m_text_len e)
      | xAgentSessionEntry_Thinking \<Rightarrow>
          xAgentContent_Thinking (Some (or_empty (m_text e))) (m_text_len e)
      | xAgentSessionEntry_ToolUse \<Rightarrow>
          xAgentContent_ToolUse (m_tool_use_id e) (m_tool_use_name e) (m_tool_use_args e)
      | xAgentSessionEntry_ToolResult \<Rightarrow> xAgentContent_Text None 0)"

definition other_block :: "xAgentSessionMsg \<Rightarrow> xAgentContent" where
  "other_block e =
     (if m_kind e = xAgentSessionEntry_ToolResult
      then xAgentContent_ToolResult (m_tool_result_id e) (m_tool_result_output e)
             (m_tool_result_output_len e) (m_tool_result_is_error e)
      else xAgentContent_Text (Some (or_empty (m_text e))) (m_text_len e))"

abbreviation is_assistant :: "xAgentSessionMsg \<Rightarrow> bool" where
  "is_assistant e \<equiv> m_role e = xAgentRole_Assistant"

text \<open>Pass 1 of the builders: how many messages and how many blocks to allocate.\<close>

function view_count :: "xAgentSessionMsg list \<Rightarrow> nat \<times> nat" where
  "view_count [] = (0, 0)"
| "view_count (e # es) =
     (if is_assistant e then
        (let run = takeWhile is_assistant (e # es);
             (nm, nb) = view_count (dropWhile is_assistant es)
         in (1 + nm, length run + nb))
      else (let (nm, nb) = view_count es in (1 + nm, 1 + nb)))"
  by pat_completeness auto
termination
  by (relation "measure length") (auto simp: le_imp_less_Suc length_dropWhile_le)

text \<open>Pass 2: one message per maximal run of Assistant entries, one per other entry.\<close>

function fold_entries :: "xAgentSessionMsg list \<Rightarrow> xAgentMessage list" where
  "fold_entries [] = []"
| "fold_entries (e # es) =
     (if is_assistant e then
        \<lparr>role = xAgentRole_Assistant,
         contents = map assistant_block (takeWhile is_assistant (e # es))\<rparr>
        # fold_entries (dropWhile is_assistant es)
      else \<lparr>role = m_role e, contents = [other_block e]\<rparr> # fold_entries es)"
  by pat_completeness auto
termination
  by (relation "measure length") (auto simp: le_imp_less_Suc length_dropWhile_le)


section \<open>What an append leaves in the array\<close>

text \<open>The entry each function builds when no allocation fails.\<close>

definition text_entry :: "nat \<Rightarrow> xAgentRole \<Rightarrow> string option \<Rightarrow> nat \<Rightarrow> xAgentSessionMsg" where
  "text_entry now r t len = zero_msg\<lparr>m_created_at_ms := now, m_role := r,
     m_kind := xAgentSessionEntry_Text,
     m_text := (if 0 < len then Some (take len (or_empty t)) else None), m_text_len := len\<rparr>"

definition thinking_entry :: "nat \<Rightarrow> string option \<Rightarrow> nat \<Rightarrow> xAgentSessionMsg" where
  "thinking_entry now t len = zero_msg\<lparr>m_created_at_ms := now,
     m_role := xAgentRole_Assistant, m_kind := xAgentSessionEntry_Thinking,
     m_text := (if 0 < len then Some (take len (or_empty t)) else None), m_text_len := len\<rparr>"

definition cstr :: "string \<Rightarrow> string" where
  "cstr s = take (strlen s) s"

definition tool_use_entry ::
  "nat \<Rightarrow> string option \<Rightarrow> string option \<Rightarrow> string option \<Rightarrow> xAgentSessionMsg" where
  "tool_use_entry now i n g = zero_msg\<lparr>m_created_at_ms := now,
     m_role := xAgentRole_Assistant, m_kind := xAgentSessionEntry_ToolUse,
     m_tool_use_id := Some (cstr (or_empty i)), m_tool_use_name := Some (cstr (or_empty n)),
     m_tool_use_args := Some (cstr (case g of None \<Rightarrow> ''{}'' | Some s \<Rightarrow> s))\<rparr>"

definition tool_result_entry ::
  "nat \<Rightarrow> string option \<Rightarrow> string option \<Rightarrow> nat \<Rightarrow> int \<Rightarrow> xAgentSessionMsg" where
  "tool_result_entry now i out len is_error = zero_msg\<lparr>m_created_at_ms := now,
     m_role := xAgentRole_Tool, m_kind := xAgentSessionEntry_ToolResult,
     m_tool_result_id := Some (cstr (or_empty i)),
     m_tool_result_output := Some (if 0 < len then take len (or_empty out) else cstr (or_empty out)),
     m_tool_result_output_len := (if 0 < len then len else strlen (or_empty out)),
     m_tool_result_is_error := is_error\<rparr>"

text \<open>
  \<open>grows a r xs\<close>: the result \<open>r\<close> of an append to \<open>a\<close> is either success with exactly \<open>xs\<close>
  added or an allocation failure with the elements unchanged.
\<close>

definition grows :: "'a xArray \<Rightarrow> xErrno \<times> 'a xArray \<times> allocs \<Rightarrow> 'a list \<Rightarrow> bool" where
  "grows a r xs \<longleftrightarrow>
     (case r of (e, a', _) \<Rightarrow>
        (e = xErrno_Ok \<and> elems a' = elems a @ xs) \<or> (e = xErrno_NoMemory \<and> elems a' = elems a))"

lemma growsD:
  "grows a (e, a', m) xs \<Longrightarrow> e = xErrno_Ok \<Longrightarrow> elems a' = elems a @ xs"
  "grows a (e, a', m) xs \<Longrightarrow> e \<noteq> xErrno_Ok \<Longrightarrow> e = xErrno_NoMemory \<and> elems a' = elems a"
  by (auto simp: grows_def)

lemma msg_push_elems:
  "msg_push m now a = (ok, a', m') \<Longrightarrow>
   elems a' = (if ok then elems a @ [zero_msg\<lparr>m_created_at_ms := now\<rparr>] else elems a)"
  by (auto simp: msg_push_def dest: xArrayPush_elems)

lemma dup_bytes_Some: "dup_bytes m t len = (Some b, m') \<Longrightarrow> b = take len (or_empty t)"
  by (auto simp: dup_bytes_def or_empty_def Let_def split: option.splits prod.splits if_splits)

lemma dup_cstr_Some: "dup_cstr m (Some s) = (Some b, m') \<Longrightarrow> b = cstr s"
  by (auto simp: dup_cstr_def cstr_def or_empty_def dest!: dup_bytes_Some)

lemma grows_append_text: "grows a (turn_buf_append_text m now a r t len) [text_entry now r t len]"
proof -
  obtain ok a1 m1 where push: "msg_push m now a = (ok, a1, m1)"
    by (cases "msg_push m now a") auto
  obtain d m2 where dup: "dup_bytes m1 t len = (d, m2)"
    by (cases "dup_bytes m1 t len") auto
  show ?thesis
    using msg_push_elems [OF push] push dup
    by (auto simp: turn_buf_append_text_def grows_def set_slot_def xArrayPop_elems text_entry_def
          zero_msg_def dest: dup_bytes_Some split: option.splits)
qed

lemma grows_append_thinking:
  "grows a (turn_buf_append_thinking m now a t len) [thinking_entry now t len]"
proof -
  obtain ok a1 m1 where push: "msg_push m now a = (ok, a1, m1)"
    by (cases "msg_push m now a") auto
  obtain d m2 where dup: "dup_bytes m1 t len = (d, m2)"
    by (cases "dup_bytes m1 t len") auto
  show ?thesis
    using msg_push_elems [OF push] push dup
    by (auto simp: turn_buf_append_thinking_def grows_def set_slot_def xArrayPop_elems
          thinking_entry_def zero_msg_def dest: dup_bytes_Some split: option.splits)
qed

lemma grows_append_tool_use:
  "grows a (turn_buf_append_tool_use m now a i n g) [tool_use_entry now i n g]"
proof -
  obtain ok a1 m1 where push: "msg_push m now a = (ok, a1, m1)"
    by (cases "msg_push m now a") auto
  obtain d2 m2 where d2: "dup_cstr m1 (Some (or_empty i)) = (d2, m2)" by fastforce
  obtain d3 m3 where d3: "dup_cstr m2 (Some (or_empty n)) = (d3, m3)" by fastforce
  obtain d4 m4 where
    d4: "dup_cstr m3 (Some (case g of None \<Rightarrow> ''{}'' | Some s \<Rightarrow> s)) = (d4, m4)" by fastforce
  show ?thesis
    using msg_push_elems [OF push] push d2 d3 d4
    by (auto simp: turn_buf_append_tool_use_def grows_def set_slot_def xArrayPop_elems
          tool_use_entry_def dest!: dup_cstr_Some)
qed

lemma strlen_Nil [simp]: "strlen '''' = 0"
  by (simp add: strlen_def)

lemma dup_output_Some:
  assumes "dup_output m out n = (Some b, len, m')"
  shows "b = (if 0 < n then take n (or_empty out) else cstr (or_empty out))"
    and "len = (if 0 < n then n else strlen (or_empty out))"
proof -
  have "b = take n (or_empty out) \<and> len = n" if "0 < n"
    using assms that
    by (cases "dup_bytes m out n") (auto simp: dup_output_def dest: dup_bytes_Some)
  moreover have "b = cstr (or_empty out) \<and> len = strlen (or_empty out)" if "n = 0"
  proof (cases out)
    case None
    then show ?thesis using assms that
      by (cases "dup_cstr m (Some '''')")
        (auto simp: dup_output_def or_empty_def dest!: dup_cstr_Some)
  next
    case (Some s)
    then show ?thesis using assms that
      by (cases "dup_cstr m (Some s)") (auto simp: dup_output_def or_empty_def dest!: dup_cstr_Some)
  qed
  ultimately show "b = (if 0 < n then take n (or_empty out) else cstr (or_empty out))"
    and "len = (if 0 < n then n else strlen (or_empty out))"
    by (cases "0 < n"; simp)+
qed

lemma grows_append_tool_result:
  "grows a (turn_buf_append_tool_result m now a i out len e) [tool_result_entry now i out len e]"
proof -
  obtain ok a1 m1 where push: "msg_push m now a = (ok, a1, m1)"
    by (cases "msg_push m now a") auto
  obtain d2 m2 where d2: "dup_cstr m1 (Some (or_empty i)) = (d2, m2)" by fastforce
  obtain d3 n m3 where d3: "dup_output m2 out len = (d3, n, m3)"
    by (cases "dup_output m2 out len") auto
  note parts = push d2 d3 msg_push_elems [OF push]
  show ?thesis
  proof (cases "ok \<and> d2 \<noteq> None \<and> d3 \<noteq> None")
    case False
    then show ?thesis using parts
      by (auto simp: turn_buf_append_tool_result_def grows_def xArrayPop_elems)
  next
    case True
    then obtain s2 s3 where s: "d2 = Some s2" "d3 = Some s3" and ok: ok by auto
    have "s2 = cstr (or_empty i)" using d2 s(1) by (simp add: dup_cstr_Some)
    moreover note dup_output_Some [OF d3 [unfolded s(2)]]
    ultimately show ?thesis using parts ok s
      by (simp add: turn_buf_append_tool_result_def grows_def set_slot_def tool_result_entry_def)
  qed
qed

lemma grows_append_concat:
  "grows a (append_concat m now a msg)
     [zero_msg\<lparr>m_created_at_ms := now, m_role := role msg, m_kind := xAgentSessionEntry_Text,
        m_text := (if text_total (contents msg) = 0 then None else Some (text_bytes (contents msg))),
        m_text_len := text_total (contents msg)\<rparr>]"
proof (cases "text_total (contents msg) = 0")
  case True
  then show ?thesis
    using grows_append_text [of a m now "role msg" None 0]
    by (simp add: append_concat_def text_entry_def)
next
  case False
  obtain ok m1 where d: "draw m = (ok, m1)" by fastforce
  obtain ok2 a2 m2 where push: "msg_push m1 now a = (ok2, a2, m2)"
    by (cases "msg_push m1 now a") auto
  show ?thesis
    using False msg_push_elems [OF push] d push
    by (auto simp: append_concat_def grows_def set_slot_def)
qed

end
