(* ===== verification/View.thy ===== *)
theory View
  imports Message
begin

text \<open>
  The lemmas of \<^verbatim>\<open>Message\<close>: the two passes of the message builders agree, folding keeps every
  block in order, and copying a folded conversation back into entries (what \<^verbatim>\<open>xAgentQueryRun\<close>
  does with the view \<^verbatim>\<open>session.c\<close> built) restores the entries.
\<close>

section \<open>The two passes of the view builders\<close>

definition entry_block :: "xAgentSessionMsg \<Rightarrow> xAgentContent" where
  "entry_block e = (if is_assistant e then assistant_block e else other_block e)"

lemma map_entry_block_run:
  "map entry_block (takeWhile is_assistant es) = map assistant_block (takeWhile is_assistant es)"
  by (induction es) (auto simp: entry_block_def)

lemma fold_entries_blocks: "concat (map contents (fold_entries es)) = map entry_block es"
proof (induction es rule: fold_entries.induct)
  case 1
  then show ?case by simp
next
  case (2 e es)
  show ?case
  proof (cases "is_assistant e")
    case True
    have "map entry_block es =
        map entry_block (takeWhile is_assistant es) @ map entry_block (dropWhile is_assistant es)"
      by (metis map_append takeWhile_dropWhile_id)
    with 2 True show ?thesis by (simp add: entry_block_def [of e] map_entry_block_run)
  next
    case False
    with 2 show ?thesis by (simp add: entry_block_def)
  qed
qed

lemma view_count_fold:
  "view_count es = (length (fold_entries es), length (concat (map contents (fold_entries es))))"
proof (induction es rule: view_count.induct)
  case 1
  then show ?case by simp
next
  case (2 e es)
  then show ?case by (cases "is_assistant e") auto
qed

lemma fold_entries_Nil_iff [simp]: "fold_entries es = [] \<longleftrightarrow> es = []"
  by (cases es) auto

text \<open>No two neighbouring messages both have the Assistant role.\<close>

fun no_adjacent_assistant :: "xAgentMessage list \<Rightarrow> bool" where
  "no_adjacent_assistant (a # b # ms) =
     (\<not> (role a = xAgentRole_Assistant \<and> role b = xAgentRole_Assistant)
      \<and> no_adjacent_assistant (b # ms))"
| "no_adjacent_assistant _ = True"

lemma fold_entries_head:
  "fold_entries es = msg # ms \<Longrightarrow> role msg = m_role (hd es)"
  by (cases es) (auto split: if_splits)

lemma fold_entries_no_adjacent: "no_adjacent_assistant (fold_entries es)"
proof (induction es rule: fold_entries.induct)
  case 1
  then show ?case by simp
next
  case (2 e es)
  show ?case
  proof (cases "is_assistant e")
    case True
    show ?thesis
    proof (cases "fold_entries (dropWhile is_assistant es)")
      case Nil
      with True show ?thesis by (simp only: fold_entries.simps if_True no_adjacent_assistant.simps simp_thms)
    next
      case (Cons msg ms)
      then have "dropWhile is_assistant es \<noteq> []"
        by (metis fold_entries.simps(1) list.distinct(1))
      then have "\<not> is_assistant (hd (dropWhile is_assistant es))" by (rule hd_dropWhile)
      with fold_entries_head [OF Cons] have "role msg \<noteq> xAgentRole_Assistant" by simp
      with 2 True Cons show ?thesis by simp
    qed
  next
    case False
    with 2 show ?thesis by (cases "fold_entries es") auto
  qed
qed

section \<open>Well-formed entries\<close>

text \<open>
  The shape the append functions give an entry of each kind: a text of exactly the recorded
  length, C strings without NUL, and the role that goes with the kind.
\<close>

definition text_ok :: "xAgentSessionMsg \<Rightarrow> bool" where
  "text_ok e \<longleftrightarrow> m_text e = None \<and> m_text_len e = 0 \<or>
     0 < m_text_len e \<and> (\<exists>t. m_text e = Some t \<and> length t = m_text_len e)"

definition cstr_ok :: "string option \<Rightarrow> bool" where
  "cstr_ok s \<longleftrightarrow> (case s of None \<Rightarrow> False | Some t \<Rightarrow> strlen t = length t)"

definition no_text :: "xAgentSessionMsg \<Rightarrow> bool" where
  "no_text e \<longleftrightarrow> m_text e = None \<and> m_text_len e = 0"

definition no_use :: "xAgentSessionMsg \<Rightarrow> bool" where
  "no_use e \<longleftrightarrow> m_tool_use_id e = None \<and> m_tool_use_name e = None \<and> m_tool_use_args e = None"

definition no_result :: "xAgentSessionMsg \<Rightarrow> bool" where
  "no_result e \<longleftrightarrow> m_tool_result_id e = None \<and> m_tool_result_output e = None \<and>
     m_tool_result_output_len e = 0 \<and> m_tool_result_is_error e = 0"

definition wf_entry :: "xAgentSessionMsg \<Rightarrow> bool" where
  "wf_entry e \<longleftrightarrow>
     (case m_kind e of
        xAgentSessionEntry_Text \<Rightarrow>
          m_role e \<noteq> xAgentRole_Tool \<and> text_ok e \<and> no_use e \<and> no_result e
      | xAgentSessionEntry_Thinking \<Rightarrow>
          m_role e = xAgentRole_Assistant \<and> text_ok e \<and> no_use e \<and> no_result e
      | xAgentSessionEntry_ToolUse \<Rightarrow>
          m_role e = xAgentRole_Assistant \<and> no_text e \<and> no_result e \<and>
          cstr_ok (m_tool_use_id e) \<and> cstr_ok (m_tool_use_name e) \<and> cstr_ok (m_tool_use_args e)
      | xAgentSessionEntry_ToolResult \<Rightarrow>
          m_role e = xAgentRole_Tool \<and> no_text e \<and> no_use e \<and> cstr_ok (m_tool_result_id e) \<and>
          (\<exists>out. m_tool_result_output e = Some out \<and> length out = m_tool_result_output_len e))"

lemmas wf_entry_defs = wf_entry_def text_ok_def no_text_def no_use_def no_result_def cstr_ok_def

lemma strlen_le: "strlen s \<le> length s"
  by (simp add: strlen_def length_takeWhile_le)

lemma cstr_takeWhile: "cstr s = takeWhile (\<lambda>c. c \<noteq> CHR 0x00) s"
  unfolding cstr_def strlen_def by (rule takeWhile_eq_take [symmetric])

lemma strlen_cstr [simp]: "strlen (cstr s) = length (cstr s)"
proof -
  have "takeWhile P (takeWhile P xs) = takeWhile P xs" for P and xs :: string
    by (auto simp: takeWhile_eq_all_conv dest: set_takeWhileD)
  then show ?thesis by (simp add: cstr_takeWhile strlen_def)
qed

lemma length_cstr [simp]: "length (cstr s) = strlen s"
  by (simp add: cstr_def strlen_le)

lemma cstr_id: "strlen s = length s \<Longrightarrow> cstr s = s"
  by (simp add: cstr_def)

lemma wf_text_entry [inv_intros]:
  "r \<noteq> xAgentRole_Tool \<Longrightarrow> len \<le> length (or_empty t) \<Longrightarrow> wf_entry (text_entry now r t len)"
  by (simp add: wf_entry_defs text_entry_def zero_msg_def)

lemma wf_thinking_entry [inv_intros]:
  "len \<le> length (or_empty t) \<Longrightarrow> wf_entry (thinking_entry now t len)"
  by (simp add: wf_entry_defs thinking_entry_def zero_msg_def)

lemma wf_tool_use_entry [inv_intros]: "wf_entry (tool_use_entry now i n g)"
  by (simp add: wf_entry_defs tool_use_entry_def zero_msg_def)

lemma wf_tool_result_entry [inv_intros]:
  "len \<le> length (or_empty out) \<Longrightarrow> wf_entry (tool_result_entry now i out len e)"
  by (simp add: wf_entry_defs tool_result_entry_def zero_msg_def)

section \<open>Copying a view back\<close>

text \<open>The entries the copy of one message consists of.\<close>

fun block_entries :: "nat \<Rightarrow> xAgentContent \<Rightarrow> xAgentSessionMsg list" where
  "block_entries now (xAgentContent_Text t n) = [text_entry now xAgentRole_Assistant t n]"
| "block_entries now (xAgentContent_Thinking t n) = [thinking_entry now t n]"
| "block_entries now (xAgentContent_ToolUse i nm g) = [tool_use_entry now i nm g]"
| "block_entries now (xAgentContent_ToolResult i out n e) = []"

fun result_entries :: "nat \<Rightarrow> xAgentContent \<Rightarrow> xAgentSessionMsg list" where
  "result_entries now (xAgentContent_ToolResult i out n e) = [tool_result_entry now i out n e]"
| "result_entries now _ = []"

definition concat_entry :: "nat \<Rightarrow> xAgentMessage \<Rightarrow> xAgentSessionMsg" where
  "concat_entry now msg = zero_msg\<lparr>m_created_at_ms := now, m_role := role msg,
     m_kind := xAgentSessionEntry_Text,
     m_text := (if text_total (contents msg) = 0 then None else Some (text_bytes (contents msg))),
     m_text_len := text_total (contents msg)\<rparr>"

definition message_entries :: "nat \<Rightarrow> xAgentMessage \<Rightarrow> xAgentSessionMsg list" where
  "message_entries now msg =
     (if role msg = xAgentRole_Assistant then concat (map (block_entries now) (contents msg))
      else if role msg = xAgentRole_Tool then concat (map (result_entries now) (contents msg))
      else [concat_entry now msg])"

lemma grows_append_assistant_block:
  "grows a (append_assistant_block m now a c) (block_entries now c)"
  by (cases c) (simp_all add: append_assistant_block_def grows_append_text
      grows_append_thinking grows_append_tool_use, simp add: grows_def)

lemma append_assistant_blocks_ok:
  "append_assistant_blocks m now a cs = (xErrno_Ok, a', m') \<Longrightarrow>
   elems a' = elems a @ concat (map (block_entries now) cs)"
proof (induction cs arbitrary: m a)
  case Nil
  then show ?case by simp
next
  case (Cons c cs)
  obtain rc a1 m1 where step: "append_assistant_block m now a c = (rc, a1, m1)"
    by (cases "append_assistant_block m now a c") auto
  with Cons.prems have rc: "rc = xErrno_Ok"
    and rest: "append_assistant_blocks m1 now a1 cs = (xErrno_Ok, a', m')"
    by (auto split: if_splits)
  have "elems a1 = elems a @ block_entries now c"
    using grows_append_assistant_block [of a m now c] rc by (simp add: step growsD)
  with Cons.IH [OF rest] show ?case by simp
qed

lemma append_tool_blocks_ok:
  "append_tool_blocks m now a cs = (xErrno_Ok, a', m') \<Longrightarrow>
   elems a' = elems a @ concat (map (result_entries now) cs)"
proof (induction m now a cs rule: append_tool_blocks.induct)
  case (2 m now a i out n e cs)
  obtain rc a1 m1 where step: "turn_buf_append_tool_result m now a i out n e = (rc, a1, m1)"
    by (cases "turn_buf_append_tool_result m now a i out n e") auto
  from 2(2) step have "rc = xErrno_Ok" by (auto split: if_splits)
  moreover have "elems a1 = elems a @ [tool_result_entry now i out n e]"
    using calculation grows_append_tool_result [of a m now i out n e] step
    by (simp add: growsD)
  ultimately show ?case using 2 step by simp
qed auto

lemma turn_buf_append_message_ok:
  assumes "turn_buf_append_message m now a msg = (xErrno_Ok, a', m')"
  shows "elems a' = elems a @ message_entries now msg"
proof -
  have "grows a (append_concat m now a msg) [concat_entry now msg]"
    unfolding concat_entry_def by (rule grows_append_concat)
  with assms append_assistant_blocks_ok append_tool_blocks_ok show ?thesis
    by (auto simp: turn_buf_append_message_def message_entries_def dest: growsD split: if_splits)
qed

text \<open>With no allocation failure every message is copied.\<close>

lemma draw_none [simp]: "draw [] = (True, [])"
  by simp

lemma msg_push_none: "\<exists>a'. msg_push [] now a = (True, a', [])"
  by (auto simp: msg_push_def xArrayPush_def arr_grow_def Let_def)

text \<open>Restamping: the copies carry the time of the copy.\<close>

definition restamp :: "nat \<Rightarrow> xAgentSessionMsg \<Rightarrow> xAgentSessionMsg" where
  "restamp now e = e\<lparr>m_created_at_ms := now\<rparr>"

lemma block_entries_restore:
  assumes "wf_entry e" and "is_assistant e"
  shows "block_entries now (assistant_block e) = [restamp now e]"
proof -
  have "block_entries now (assistant_block e) = [e\<lparr>m_created_at_ms := now\<rparr>]"
    using assms
    by (cases e; cases "m_kind e")
      (auto simp: wf_entry_defs assistant_block_def text_entry_def thinking_entry_def
        tool_use_entry_def zero_msg_def or_empty_def cstr_id split: option.splits)
  then show ?thesis by (simp add: restamp_def)
qed

lemma message_entries_other:
  assumes "wf_entry e" and "\<not> is_assistant e"
  shows "message_entries now \<lparr>role = m_role e, contents = [other_block e]\<rparr> = [restamp now e]"
proof -
  have "message_entries now \<lparr>role = m_role e, contents = [other_block e]\<rparr>
      = [e\<lparr>m_created_at_ms := now\<rparr>]"
    using assms
    by (cases e; cases "m_kind e")
      (auto simp: wf_entry_defs other_block_def message_entries_def concat_entry_def
        tool_result_entry_def zero_msg_def or_empty_def cstr_id split: option.splits)
  then show ?thesis by (simp add: restamp_def)
qed

text \<open>Copying the folded view restores the conversation, entry by entry.\<close>

lemma message_entries_fold:
  "\<forall>e \<in> set es. wf_entry e \<Longrightarrow>
   concat (map (message_entries now) (fold_entries es)) = map (restamp now) es"
proof (induction es rule: fold_entries.induct)
  case 1
  then show ?case by simp
next
  case (2 e es)
  show ?case
  proof (cases "is_assistant e")
    case True
    define run where "run = takeWhile is_assistant (e # es)"
    have "\<forall>x \<in> set run. wf_entry x \<and> is_assistant x"
      using 2(3) by (auto simp: run_def dest: set_takeWhileD)
    then have "concat (map (block_entries now) (map assistant_block run)) = map (restamp now) run"
      by (induction run) (auto simp: block_entries_restore)
    then have here: "message_entries now
         \<lparr>role = xAgentRole_Assistant, contents = map assistant_block run\<rparr> = map (restamp now) run"
      by (simp add: message_entries_def)
    have "\<forall>x \<in> set (dropWhile is_assistant es). wf_entry x"
      using 2(3) by (auto dest: set_dropWhileD)
    with 2(1) True have rest:
      "concat (map (message_entries now) (fold_entries (dropWhile is_assistant es)))
        = map (restamp now) (dropWhile is_assistant es)" by simp
    have "map (restamp now) es = map (restamp now) (takeWhile is_assistant es)
        @ map (restamp now) (dropWhile is_assistant es)"
      by (metis map_append takeWhile_dropWhile_id)
    with here rest True show ?thesis by (simp add: run_def)
  next
    case False
    with 2 show ?thesis by (simp add: message_entries_other)
  qed
qed

text \<open>The fold does not look at the time stamps.\<close>

lemma fold_entries_restamp: "fold_entries (map (restamp now) es) = fold_entries es"
proof (induction es rule: fold_entries.induct)
  case 1
  then show ?case by simp
next
  case (2 e es)
  have blocks: "assistant_block (restamp now x) = assistant_block x" "other_block (restamp now x) = other_block x"
    "m_role (restamp now x) = m_role x" for x
    by (cases "m_kind x"; simp add: restamp_def assistant_block_def other_block_def)+
  have tw: "takeWhile is_assistant (map (restamp now) xs) = map (restamp now) (takeWhile is_assistant xs)"
    and dw: "dropWhile is_assistant (map (restamp now) xs) = map (restamp now) (dropWhile is_assistant xs)" for xs
    by (induction xs) (auto simp: blocks)
  from 2 show ?case by (auto simp: blocks tw dw comp_def)
qed

lemma fold_copied_view:
  "\<forall>e \<in> set es. wf_entry e \<Longrightarrow>
   fold_entries (concat (map (message_entries now) (fold_entries es))) = fold_entries es"
  by (simp add: message_entries_fold fold_entries_restamp)

end
