(* ===== verification/Budget.thy ===== *)
theory Budget
  imports View
begin

text \<open>
  \<^verbatim>\<open>libx/x/agent/budget.c\<close>: the coarse token estimator and the search for the k-th user turn,
  with the bounds the budget gate and the compaction of \<^verbatim>\<open>session.c\<close> rely on.
\<close>

definition XAGENT_BUDGET_PER_MSG_TOKENS :: nat where
  "XAGENT_BUDGET_PER_MSG_TOKENS = 8"

definition XAGENT_BUDGET_BYTES_PER_TOKEN :: nat where
  "XAGENT_BUDGET_BYTES_PER_TOKEN = 4"

definition XAGENT_BUDGET_DEFAULT_MAX_TOKENS :: nat where
  "XAGENT_BUDGET_DEFAULT_MAX_TOKENS = 128000"

section \<open>The estimator\<close>

definition payload_bytes :: "xAgentSessionMsg \<Rightarrow> nat" where
  "payload_bytes m =
     (case m_kind m of
        xAgentSessionEntry_Text \<Rightarrow> m_text_len m
      | xAgentSessionEntry_Thinking \<Rightarrow> m_text_len m
      | xAgentSessionEntry_ToolUse \<Rightarrow>
          (case m_tool_use_name m of None \<Rightarrow> 0 | Some s \<Rightarrow> strlen s) +
          (case m_tool_use_args m of None \<Rightarrow> 0 | Some s \<Rightarrow> strlen s)
      | xAgentSessionEntry_ToolResult \<Rightarrow> m_tool_result_output_len m)"

definition ai_budget_estimate_tokens :: "xAgentSessionMsg list \<Rightarrow> nat" where
  "ai_budget_estimate_tokens msgs =
     sum_list (map payload_bytes msgs) div XAGENT_BUDGET_BYTES_PER_TOKEN
     + length msgs * XAGENT_BUDGET_PER_MSG_TOKENS"

section \<open>The k-th user turn\<close>

abbreviation is_user :: "xAgentSessionMsg \<Rightarrow> bool" where
  "is_user e \<equiv> m_role e = xAgentRole_User"

fun find_user_from :: "nat \<Rightarrow> nat \<Rightarrow> nat \<Rightarrow> xAgentSessionMsg list \<Rightarrow> nat option" where
  "find_user_from i seen k [] = None"
| "find_user_from i seen k (m # ms) =
     (if is_user m then (if seen = k then Some i else find_user_from (Suc i) (Suc seen) k ms)
      else find_user_from (Suc i) seen k ms)"

text \<open>None is \<^verbatim>\<open>XAGENT_BUDGET_NO_SUCH_TURN\<close>.\<close>

definition ai_budget_find_user_turn :: "xAgentSessionMsg list \<Rightarrow> nat \<Rightarrow> nat option" where
  "ai_budget_find_user_turn msgs k = find_user_from 0 0 k msgs"

definition user_count :: "xAgentSessionMsg list \<Rightarrow> nat" where
  "user_count msgs = length (filter is_user msgs)"

lemma find_user_from_Some:
  "find_user_from i seen k ms = Some j \<Longrightarrow> seen \<le> k \<Longrightarrow>
   i \<le> j \<and> j - i < length ms \<and> is_user (ms ! (j - i)) \<and> user_count (take (j - i) ms) = k - seen"
proof (induction ms arbitrary: i seen)
  case Nil
  then show ?case by simp
next
  case (Cons m ms)
  show ?case
  proof (cases "is_user m \<and> seen = k")
    case True
    with Cons.prems show ?thesis by (simp add: user_count_def)
  next
    case False
    define seen' where "seen' = (if is_user m then Suc seen else seen)"
    from False Cons.prems have step: "find_user_from (Suc i) seen' k ms = Some j"
      and le: "seen' \<le> k" by (auto simp: seen'_def split: if_splits)
    from Cons.IH [OF step le] obtain d where "j - i = Suc d" "j - Suc i = d"
      by (metis Suc_diff_le diff_Suc_Suc)
    with Cons.IH [OF step le] Cons.prems(2) le False show ?thesis
      by (auto simp: seen'_def user_count_def split: if_splits)
  qed
qed

lemma find_user_turn_Some:
  assumes "ai_budget_find_user_turn ms k = Some j"
  shows "j < length ms" and "is_user (ms ! j)" and "user_count (take j ms) = k"
  using find_user_from_Some [of 0 0 k ms j] assms by (simp_all add: ai_budget_find_user_turn_def)

lemma find_user_from_None:
  "seen \<le> k \<Longrightarrow> find_user_from i seen k ms = None \<longleftrightarrow> seen + user_count ms \<le> k"
proof (induction ms arbitrary: i seen)
  case Nil
  then show ?case by (simp add: user_count_def)
next
  case (Cons m ms)
  then show ?case by (auto simp: user_count_def)
qed

lemma find_user_turn_None: "ai_budget_find_user_turn ms k = None \<longleftrightarrow> user_count ms \<le> k"
  using find_user_from_None [of 0 k 0 ms] by (simp add: ai_budget_find_user_turn_def)

lemma user_count_append [simp]: "user_count (xs @ ys) = user_count xs + user_count ys"
  by (simp add: user_count_def)

lemma user_count_take_mono: "i \<le> j \<Longrightarrow> user_count (take i ms) \<le> user_count (take j ms)"
  by (metis le_add1 le_iff_add take_add user_count_append)

text \<open>A later turn is found at a later index.\<close>

lemma find_user_turn_mono:
  assumes "ai_budget_find_user_turn ms k = Some i" and "ai_budget_find_user_turn ms l = Some j"
    and "k < l"
  shows "i < j"
  using find_user_turn_Some(3) [OF assms(1)] find_user_turn_Some(3) [OF assms(2)] assms(3)
    user_count_take_mono [of j i ms] by (metis linorder_not_less)

section \<open>Bounds of the estimate\<close>

lemma estimate_Nil [simp]: "ai_budget_estimate_tokens [] = 0"
  by (simp add: ai_budget_estimate_tokens_def)

lemma estimate_append_bounds:
  "ai_budget_estimate_tokens xs + ai_budget_estimate_tokens ys \<le> ai_budget_estimate_tokens (xs @ ys)"
  "ai_budget_estimate_tokens (xs @ ys) \<le> ai_budget_estimate_tokens xs + ai_budget_estimate_tokens ys + 1"
proof -
  have "a div 4 + b div 4 \<le> (a + b) div 4" "(a + b) div 4 \<le> a div 4 + b div 4 + 1" for a b :: nat
    by linarith+
  then show "ai_budget_estimate_tokens xs + ai_budget_estimate_tokens ys
      \<le> ai_budget_estimate_tokens (xs @ ys)"
    and "ai_budget_estimate_tokens (xs @ ys)
      \<le> ai_budget_estimate_tokens xs + ai_budget_estimate_tokens ys + 1"
    by (simp_all add: ai_budget_estimate_tokens_def XAGENT_BUDGET_BYTES_PER_TOKEN_def
        XAGENT_BUDGET_PER_MSG_TOKENS_def algebra_simps)
qed

end
