(* ===== verification/Query.thy ===== *)
theory Query
  imports Budget
begin

text \<open>
  \<^verbatim>\<open>libx/x/agent/query.c\<close>: one run of the provider/tool loop. A query is a record; each function
  of the file is a definition on it, with the same branches. What lies outside the program
  (the provider's answer to a submit, what a tool handler returns, whether the host answers a
  confirmation request at once) is a field of \<open>qenv\<close>, a function of everything that has
  happened so far. The callbacks the query fires and the calls it makes are recorded in
  \<open>trace\<close>, oldest first.
\<close>

section \<open>Data\<close>

datatype xAgentDoneReason =
    xAgentDoneReason_Completed | xAgentDoneReason_MaxTurns | xAgentDoneReason_PromptTooLong
  | xAgentDoneReason_Aborted | xAgentDoneReason_ModelError | xAgentDoneReason_ToolError
  | xAgentDoneReason_Stopped

datatype xAgentProviderStopReason =
    xAgentProviderStop_EndTurn | xAgentProviderStop_ToolUse | xAgentProviderStop_MaxTokens
  | xAgentProviderStop_StopSeq | xAgentProviderStop_PromptLong | xAgentProviderStop_Error
  | xAgentProviderStop_Cancelled

datatype xAgentToolDecision = xAgentToolDecision_Allow | xAgentToolDecision_Reject

datatype async_stage = XAGENT_ASYNC_STAGE_AWAITING_CONFIRM | XAGENT_ASYNC_STAGE_RUNNING

text \<open>Token usage; \<open>-1\<close> is "unknown".\<close>

record xAgentUsage =
  prompt_tokens :: int
  completion_tokens :: int
  total_tokens :: int

text \<open>What the query reads of a tool; \<open>t_has_cancel\<close>: an \<^verbatim>\<open>on_cancel_fn\<close> is set.\<close>

record xAgentTool =
  t_name :: string
  t_needs_confirm :: bool
  t_has_cancel :: bool

record xAgentQueryPending =
  p_id :: string
  p_name :: string
  p_args_json :: string

record xAgentQueryAsyncTool =
  a_tool :: xAgentTool
  a_id :: string
  a_name :: string
  a_args_json :: string
  a_stage :: async_stage
  a_resolver :: "nat option"

text \<open>
  A resolver lives on the heap under its handle; a freed one is absent. \<open>r_live\<close> is
  \<^verbatim>\<open>r->q != NULL\<close>.
\<close>

record xAgentToolConfirmResolver =
  r_live :: bool
  r_id :: string
  r_done :: bool

text \<open>Which callbacks of \<^verbatim>\<open>xAgentQueryCallbacks\<close> are set.\<close>

record xAgentQueryCallbacks =
  on_text :: bool
  on_thinking :: bool
  on_done :: bool
  on_error :: bool
  on_tool :: bool
  on_tool_confirm :: bool

datatype qevent =
    Ev_on_text string
  | Ev_on_thinking string
  | Ev_on_tool string bool
  | Ev_on_tool_confirm string string string nat
  | Ev_on_error xErrno string
  | Ev_on_done xAgentDoneReason "xAgentUsage option"
  | Ev_submit "xAgentMessage list"
  | Ev_invoke string string string
  | Ev_provider_cancel
  | Ev_tool_cancel string
  | Ev_use_after_free nat

record xAgentQuery =
  q_tools :: "xAgentTool option list"
  q_model :: "string option"
  q_max_tokens :: int
  q_max_turns :: int
  q_provider :: nat
  q_cbs :: xAgentQueryCallbacks
  inputs_arr :: msgs
  produced_arr :: msgs
  assist :: "string option"
  reasoning :: "string option"
  pending_arr :: "xAgentQueryPending xArray"
  async_pending_arr :: "xAgentQueryAsyncTool xArray"
  running :: bool
  cancelled :: bool
  turn :: int
  saw_usage :: bool
  usage :: xAgentUsage
  first_round_prompt_tokens :: int
  resolvers :: "nat \<Rightarrow> xAgentToolConfirmResolver option"
  next_resolver :: nat
  q_mem :: allocs
  trace :: "qevent list"

text \<open>
  The world around a query: the clock, the result of \<^verbatim>\<open>vtable->submit\<close>, the code and content
  a tool handler returns for a call (name, id, arguments), and the decision the host gives
  from inside \<^verbatim>\<open>on_tool_confirm\<close> (None: it answers later).
\<close>

record qenv =
  env_now :: "qevent list \<Rightarrow> nat"
  env_submit :: "qevent list \<Rightarrow> xErrno"
  env_invoke :: "qevent list \<Rightarrow> string \<Rightarrow> string \<Rightarrow> string \<Rightarrow> xErrno \<times> xAgentContent"
  env_confirm :: "qevent list \<Rightarrow> (xAgentToolDecision \<times> string option) option"

definition XAGENT_SESSION_DEFAULT_MAX_TURNS :: int where
  "XAGENT_SESSION_DEFAULT_MAX_TURNS = 16"

text \<open>A callback fires only when it is set.\<close>

definition emit :: "qevent \<Rightarrow> xAgentQuery \<Rightarrow> xAgentQuery" where
  "emit ev q = q\<lparr>trace := trace q @ [ev]\<rparr>"

definition fire :: "(xAgentQueryCallbacks \<Rightarrow> bool) \<Rightarrow> qevent \<Rightarrow> xAgentQuery \<Rightarrow> xAgentQuery" where
  "fire cb ev q = (if cb (q_cbs q) then emit ev q else q)"

section \<open>Confirmation resolvers\<close>

definition confirm_resolver_new :: "xAgentQuery \<Rightarrow> string \<Rightarrow> nat option \<times> xAgentQuery" where
  "confirm_resolver_new q tool_use_id =
     (let (ok, m1) = draw (q_mem q)
      in if \<not> ok then (None, q\<lparr>q_mem := m1\<rparr>)
         else case dup_cstr m1 (Some tool_use_id) of
             (None, m2) \<Rightarrow> (None, q\<lparr>q_mem := m2\<rparr>)
           | (Some i, m2) \<Rightarrow>
               (Some (next_resolver q),
                q\<lparr>q_mem := m2,
                  resolvers := (resolvers q)(next_resolver q \<mapsto> \<lparr>r_live = True, r_id = i, r_done = False\<rparr>),
                  next_resolver := Suc (next_resolver q)\<rparr>))"

definition confirm_resolver_free :: "nat \<Rightarrow> xAgentQuery \<Rightarrow> xAgentQuery" where
  "confirm_resolver_free h q = q\<lparr>resolvers := (resolvers q)(h := None)\<rparr>"

definition confirm_resolver_invalidate :: "nat option \<Rightarrow> xAgentQuery \<Rightarrow> xAgentQuery" where
  "confirm_resolver_invalidate h q =
     (case h of None \<Rightarrow> q
      | Some k \<Rightarrow> q\<lparr>resolvers := (resolvers q)(k := map_option (r_live_update (\<lambda>_. False)) (resolvers q k))\<rparr>)"

section \<open>Round-scoped accumulators\<close>

definition pending_reset :: "xAgentQuery \<Rightarrow> xAgentQuery" where
  "pending_reset q = q\<lparr>pending_arr := xArrayReset (pending_arr q)\<rparr>"

definition pending_append :: "xAgentQuery \<Rightarrow> string option \<Rightarrow> string option \<Rightarrow> string option \<Rightarrow>
    xErrno \<times> xAgentQuery" where
  "pending_append q i n g =
     (case xArrayPush (q_mem q) (pending_arr q) \<lparr>p_id = '''', p_name = '''', p_args_json = ''''\<rparr> of
        (ok, a1, m1) \<Rightarrow>
          if \<not> ok then (xErrno_NoMemory, q\<lparr>q_mem := m1\<rparr>)
          else let (i', m2) = dup_cstr m1 (Some (or_empty i));
                   (n', m3) = dup_cstr m2 (Some (or_empty n));
                   (g', m4) = dup_cstr m3 (Some (case g of None \<Rightarrow> ''{}'' | Some s \<Rightarrow> s))
               in if i' = None \<or> n' = None \<or> g' = None
                  then (xErrno_NoMemory, q\<lparr>pending_arr := snd (xArrayPop a1), q_mem := m4\<rparr>)
                  else (xErrno_Ok,
                        q\<lparr>pending_arr := set_slot a1
                            \<lparr>p_id = the i', p_name = the n', p_args_json = the g'\<rparr>,
                          q_mem := m4\<rparr>))"

text \<open>
  The buffer is created on the first chunk and every append may have to grow it; on either
  failure the chunk is dropped.
\<close>

definition buffer_append :: "allocs \<Rightarrow> string option \<Rightarrow> string \<Rightarrow> string option \<times> allocs" where
  "buffer_append m b chunk =
     (if chunk = '''' then (b, m)
      else case b of
          None \<Rightarrow> (let (ok, m1) = draw m
                   in if \<not> ok then (None, m1)
                      else let (ok2, m2) = draw m1 in (Some (if ok2 then chunk else ''''), m2))
        | Some s \<Rightarrow> (let (ok, m1) = draw m in (Some (if ok then s @ chunk else s), m1)))"

definition assist_append :: "xAgentQuery \<Rightarrow> string \<Rightarrow> xAgentQuery" where
  "assist_append q chunk =
     (let (b, m) = buffer_append (q_mem q) (assist q) chunk in q\<lparr>assist := b, q_mem := m\<rparr>)"

definition reasoning_append :: "xAgentQuery \<Rightarrow> string \<Rightarrow> xAgentQuery" where
  "reasoning_append q chunk =
     (let (b, m) = buffer_append (q_mem q) (reasoning q) chunk in q\<lparr>reasoning := b, q_mem := m\<rparr>)"

definition assist_reset :: "xAgentQuery \<Rightarrow> xAgentQuery" where
  "assist_reset q = q\<lparr>assist := map_option (\<lambda>_. '''') (assist q)\<rparr>"

definition reasoning_reset :: "xAgentQuery \<Rightarrow> xAgentQuery" where
  "reasoning_reset q = q\<lparr>reasoning := map_option (\<lambda>_. '''') (reasoning q)\<rparr>"

section \<open>Usage\<close>

definition fold_max :: "int \<Rightarrow> int \<Rightarrow> int" where
  "fold_max acc round =
     (if 0 \<le> round then (if acc < 0 then round else if round < acc then acc else round)
      else acc)"

definition fold_add :: "int \<Rightarrow> int \<Rightarrow> int" where
  "fold_add acc round =
     (if 0 \<le> round then (if acc < 0 then round else acc + round) else acc)"

definition usage_accumulate :: "xAgentUsage option \<Rightarrow> xAgentQuery \<Rightarrow> xAgentQuery" where
  "usage_accumulate round q =
     (case round of None \<Rightarrow> q
      | Some r \<Rightarrow>
          q\<lparr>saw_usage := True,
            usage := \<lparr>prompt_tokens = fold_max (prompt_tokens (usage q)) (prompt_tokens r),
                      completion_tokens = fold_add (completion_tokens (usage q)) (completion_tokens r),
                      total_tokens = fold_add (total_tokens (usage q)) (total_tokens r)\<rparr>,
            first_round_prompt_tokens :=
              (if turn q = 1 \<and> 0 \<le> prompt_tokens r \<and> first_round_prompt_tokens q < 0
               then prompt_tokens r else first_round_prompt_tokens q)\<rparr>)"

definition unknown_usage :: xAgentUsage where
  "unknown_usage = \<lparr>prompt_tokens = -1, completion_tokens = -1, total_tokens = -1\<rparr>"

section \<open>Submitting a round\<close>

text \<open>
  \<^verbatim>\<open>view_build\<close>: both arrays are always allocated, so both outcomes are drawn. None is an
  allocation failure.
\<close>

definition view_build :: "xAgentQuery \<Rightarrow> xErrno \<times> xAgentMessage list \<times> allocs" where
  "view_build q =
     (let es = elems (inputs_arr q) @ elems (produced_arr q)
      in if es = [] then (xErrno_InvalidArg, [], q_mem q)
         else let (ok1, m1) = draw (q_mem q); (ok2, m2) = draw m1
              in if ok1 \<and> ok2 then (xErrno_Ok, fold_entries es, m2)
                 else (xErrno_NoMemory, [], m2))"

definition submit_round :: "qenv \<Rightarrow> xAgentQuery \<Rightarrow> xErrno \<times> xAgentQuery" where
  "submit_round env q =
     (case view_build q of (rc, msgs, m) \<Rightarrow>
        if rc \<noteq> xErrno_Ok then (rc, q\<lparr>q_mem := m\<rparr>)
        else let q1 = pending_reset (reasoning_reset (assist_reset (q\<lparr>q_mem := m\<rparr>)));
                 q2 = emit (Ev_submit msgs) (q1\<lparr>turn := turn q1 + 1\<rparr>)
             in (env_submit env (trace q2), q2))"

section \<open>Finishing a run\<close>

definition query_finalize :: "xAgentDoneReason \<Rightarrow> xAgentQuery \<Rightarrow> xAgentQuery" where
  "query_finalize reason q =
     (if \<not> running q then q
      else fire on_done (Ev_on_done reason (if saw_usage q then Some (usage q) else None))
             (q\<lparr>running := False\<rparr>))"

text \<open>Report an error, then finish: the tail of every failing branch.\<close>

definition fail_run :: "xErrno \<Rightarrow> string \<Rightarrow> xAgentDoneReason \<Rightarrow> xAgentQuery \<Rightarrow> xAgentQuery" where
  "fail_run rc text reason q = query_finalize reason (fire on_error (Ev_on_error rc text) q)"

fun translate_terminal :: "xAgentProviderStopReason \<Rightarrow> bool \<Rightarrow> xAgentDoneReason" where
  "translate_terminal r user_cancel =
     (if user_cancel then xAgentDoneReason_Aborted
      else case r of
        xAgentProviderStop_EndTurn \<Rightarrow> xAgentDoneReason_Completed
      | xAgentProviderStop_MaxTokens \<Rightarrow> xAgentDoneReason_Completed
      | xAgentProviderStop_StopSeq \<Rightarrow> xAgentDoneReason_Stopped
      | xAgentProviderStop_PromptLong \<Rightarrow> xAgentDoneReason_PromptTooLong
      | xAgentProviderStop_Error \<Rightarrow> xAgentDoneReason_ModelError
      | xAgentProviderStop_Cancelled \<Rightarrow> xAgentDoneReason_Aborted
      | xAgentProviderStop_ToolUse \<Rightarrow> xAgentDoneReason_ToolError)"

section \<open>Tool calls\<close>

fun find_tool :: "xAgentTool option list \<Rightarrow> string \<Rightarrow> xAgentTool option" where
  "find_tool [] name = None"
| "find_tool (None # ts) name = find_tool ts name"
| "find_tool (Some t # ts) name = (if t_name t = name then Some t else find_tool ts name)"

text \<open>Append to \<open>produced_arr\<close> with the query's clock and allocator.\<close>

definition produce_tool_result ::
  "qenv \<Rightarrow> xAgentQuery \<Rightarrow> string \<Rightarrow> string \<Rightarrow> nat \<Rightarrow> int \<Rightarrow> xErrno \<times> xAgentQuery" where
  "produce_tool_result env q i out len is_error =
     (case turn_buf_append_tool_result (q_mem q) (env_now env (trace q)) (produced_arr q)
             (Some i) (Some out) len is_error of
        (rc, a, m) \<Rightarrow> (rc, q\<lparr>produced_arr := a, q_mem := m\<rparr>))"

text \<open>\<^verbatim>\<open>snprintf\<close> into \<^verbatim>\<open>err_buf[256]\<close>.\<close>

definition err_buf :: "string \<Rightarrow> string" where
  "err_buf s = take 255 s"

text \<open>
  Output, length and error flag of a handler's result: a zero length means the output is a C
  string.
\<close>

definition tool_output :: "xErrno \<Rightarrow> xAgentContent \<Rightarrow> string \<times> nat \<times> int" where
  "tool_output trc out =
     (if trc \<noteq> xErrno_Ok then
        (let s = err_buf (''tool handler returned error (xErrno='' @ dec (xErrno_code trc) @ '')'')
         in (s, length s, 1))
      else case out of
        xAgentContent_ToolResult i o' n e \<Rightarrow>
          (or_empty o', if n \<noteq> 0 then n else strlen (or_empty o'), if e \<noteq> 0 then 1 else 0)
      | _ \<Rightarrow> (let s = ''tool handler did not produce a tool_result'' in (s, length s, 1)))"

text \<open>Push an entry for a call that is now in flight (or waits for confirmation).\<close>

definition async_push ::
  "xAgentQuery \<Rightarrow> xAgentTool \<Rightarrow> string \<Rightarrow> string \<Rightarrow> string \<Rightarrow> async_stage \<Rightarrow> bool \<times> xAgentQuery" where
  "async_push q t i n g stage =
     (case xArrayPush (q_mem q) (async_pending_arr q)
             \<lparr>a_tool = t, a_id = '''', a_name = '''', a_args_json = '''', a_stage = stage,
              a_resolver = None\<rparr> of
        (ok, a1, m1) \<Rightarrow>
          if \<not> ok then (False, q\<lparr>q_mem := m1\<rparr>)
          else let (i', m2) = dup_cstr m1 (Some i); (n', m3) = dup_cstr m2 (Some n);
                   (g', m4) = dup_cstr m3 (Some g)
               in if i' = None \<or> n' = None \<or> g' = None
                  then (False, q\<lparr>async_pending_arr := snd (xArrayPop a1), q_mem := m4\<rparr>)
                  else (True,
                        q\<lparr>async_pending_arr := set_slot a1
                            \<lparr>a_tool = t, a_id = the i', a_name = the n', a_args_json = the g',
                             a_stage = stage, a_resolver = None\<rparr>,
                          q_mem := m4\<rparr>))"

definition invoke_tool_inline ::
  "qenv \<Rightarrow> xAgentQuery \<Rightarrow> xAgentTool \<Rightarrow> string \<Rightarrow> string \<Rightarrow> string \<Rightarrow> xErrno \<times> xAgentQuery" where
  "invoke_tool_inline env q t i n g =
     (let q1 = emit (Ev_invoke n i g) (fire on_tool (Ev_on_tool n True) q);
          (trc, out) = env_invoke env (trace q1) n i g
      in if trc = xErrno_Pending then
           (let (ok, q2) = async_push q1 t i n g XAGENT_ASYNC_STAGE_RUNNING
            in (if ok then xErrno_Ok else xErrno_NoMemory, q2))
         else let (txt, len, is_error) = tool_output trc out;
                  (rc, q2) = produce_tool_result env q1 i txt len is_error
              in (rc, fire on_tool (Ev_on_tool n False) q2))"

definition append_tool_error :: "qenv \<Rightarrow> xAgentQuery \<Rightarrow> string \<Rightarrow> string \<Rightarrow> xErrno \<times> xAgentQuery" where
  "append_tool_error env q i message = produce_tool_result env q i message (strlen message) 1"

definition register_confirm_pending ::
  "xAgentQuery \<Rightarrow> xAgentTool \<Rightarrow> string \<Rightarrow> string \<Rightarrow> string \<Rightarrow> nat option \<times> xAgentQuery" where
  "register_confirm_pending q t i n g =
     (case async_push q t i n g XAGENT_ASYNC_STAGE_AWAITING_CONFIRM of
        (False, q1) \<Rightarrow> (None, q1)
      | (True, q1) \<Rightarrow>
          (case confirm_resolver_new q1 i of
             (None, q2) \<Rightarrow> (None, q2\<lparr>async_pending_arr := snd (xArrayPop (async_pending_arr q2))\<rparr>)
           | (Some h, q2) \<Rightarrow>
               (Some h,
                q2\<lparr>async_pending_arr := set_slot (async_pending_arr q2)
                     ((last (elems (async_pending_arr q2)))\<lparr>a_resolver := Some h\<rparr>)\<rparr>)))"


text \<open>
  \<^verbatim>\<open>async_pending_remove\<close>: the first entry with the id leaves the array; its copy is handed
  back unless the allocation for it fails (then the entry is gone all the same).
\<close>

definition async_pending_remove :: "xAgentQuery \<Rightarrow> string \<Rightarrow> xAgentQueryAsyncTool option \<times> xAgentQuery" where
  "async_pending_remove q tool_use_id =
     (case arr_find_from (\<lambda>a. a_id a = tool_use_id) 0 (elems (async_pending_arr q)) of
        None \<Rightarrow> (None, q)
      | Some i \<Rightarrow>
          let a = elems (async_pending_arr q) ! i;
              q1 = q\<lparr>async_pending_arr := snd (xArrayRemoveRange (async_pending_arr q) i 1)\<rparr>;
              (ok, m) = draw (q_mem q1)
          in (if ok then Some a else None, q1\<lparr>q_mem := m\<rparr>))"

text \<open>
  The tail shared by an asynchronous completion and by both answers to a confirmation: when
  nothing is outstanding, finish a cancelled run or submit the next round.
\<close>

definition continue_if_idle :: "qenv \<Rightarrow> string \<Rightarrow> xAgentQuery \<Rightarrow> xAgentQuery" where
  "continue_if_idle env errmsg q =
     (if elems (async_pending_arr q) \<noteq> [] then q
      else if cancelled q then query_finalize xAgentDoneReason_Aborted q
      else case submit_round env q of (rc, q1) \<Rightarrow>
        if rc \<noteq> xErrno_Ok then fail_run rc errmsg xAgentDoneReason_ModelError q1 else q1)"

definition async_result :: "string \<Rightarrow> xAgentContent option \<Rightarrow> string \<times> nat \<times> int" where
  "async_result name result =
     (case result of
        Some (xAgentContent_ToolResult i o' n e) \<Rightarrow>
          (or_empty o', if n \<noteq> 0 then n else strlen (or_empty o'), if e \<noteq> 0 then 1 else 0)
      | Some (xAgentContent_Text t n) \<Rightarrow>
          (or_empty t, if n \<noteq> 0 then n else strlen (or_empty t), 0)
      | _ \<Rightarrow> (let s = err_buf (''async tool \"'' @ name @ ''\" on_done supplied no result'')
             in (s, length s, 1)))"

definition ai_query_async_tool_complete ::
  "qenv \<Rightarrow> xAgentQuery \<Rightarrow> string \<Rightarrow> xAgentContent option \<Rightarrow> xAgentQuery" where
  "ai_query_async_tool_complete env q tool_use_id result =
     (case async_pending_remove q tool_use_id of
        (None, q1) \<Rightarrow> q1
      | (Some a, q1) \<Rightarrow>
          let (txt, len, is_error) = async_result (a_name a) result;
              (rc, q2) = produce_tool_result env q1 (a_id a) txt len is_error;
              q3 = fire on_tool (Ev_on_tool (a_name a) False) q2
          in if rc \<noteq> xErrno_Ok
             then fail_run rc ''failed to record async tool_result in history''
                    xAgentDoneReason_ToolError q3
             else continue_if_idle env ''failed to submit follow-up after async tools'' q3)"

text \<open>
  \<^verbatim>\<open>xAgentToolConfirmResolve\<close>. A handle that was freed is not in \<open>resolvers\<close>: the C reads
  \<^verbatim>\<open>r->done\<close> from freed memory, recorded as \<open>Ev_use_after_free\<close>.
\<close>

definition xAgentToolConfirmResolve ::
  "qenv \<Rightarrow> nat \<Rightarrow> xAgentToolDecision \<Rightarrow> string option \<Rightarrow> xAgentQuery \<Rightarrow> xAgentQuery" where
  "xAgentToolConfirmResolve env h decision reason q =
     (case resolvers q h of
        None \<Rightarrow> emit (Ev_use_after_free h) q
      | Some r \<Rightarrow>
          if r_done r then q
          else if \<not> r_live r then confirm_resolver_free h q
          else case async_pending_remove q (r_id r) of
              (None, q1) \<Rightarrow> confirm_resolver_free h q1
            | (Some a, q1) \<Rightarrow>
                (case decision of
                   xAgentToolDecision_Reject \<Rightarrow>
                     let msg = (case reason of None \<Rightarrow> ''rejected by user''
                                | Some s \<Rightarrow> if s = '''' then ''rejected by user'' else s);
                         (rc, q2) = produce_tool_result env q1 (a_id a) msg (strlen msg) 1;
                         q3 = confirm_resolver_free h q2
                     in if rc \<noteq> xErrno_Ok
                        then fail_run rc ''failed to record rejected tool_result''
                               xAgentDoneReason_ToolError q3
                        else continue_if_idle env
                               ''failed to submit follow-up after rejected tool'' q3
                 | xAgentToolDecision_Allow \<Rightarrow>
                     let q2 = confirm_resolver_free h q1;
                         (rc, q3) = invoke_tool_inline env q2 (a_tool a) (a_id a) (a_name a)
                                      (a_args_json a)
                     in if rc \<noteq> xErrno_Ok
                        then fail_run rc ''failed to invoke confirmed tool''
                               xAgentDoneReason_ToolError q3
                        else continue_if_idle env
                               ''failed to submit follow-up after confirmed tool'' q3))"

text \<open>One iteration of the dispatch loop. \<open>on_tool_confirm\<close> may answer from inside the call.\<close>

definition dispatch_one :: "qenv \<Rightarrow> xAgentQuery \<Rightarrow> xAgentQueryPending \<Rightarrow> xErrno \<times> xAgentQuery" where
  "dispatch_one env q p =
     (case find_tool (q_tools q) (p_name p) of
        None \<Rightarrow>
          append_tool_error env q (p_id p)
            (err_buf (''tool \"'' @ p_name p @ ''\" is not registered on this agent''))
      | Some t \<Rightarrow>
          if t_needs_confirm t \<and> on_tool_confirm (q_cbs q) then
            (case register_confirm_pending q t (p_id p) (p_name p) (p_args_json p) of
               (None, q1) \<Rightarrow> (xErrno_NoMemory, q1)
             | (Some h, q1) \<Rightarrow>
                 let q2 = emit (Ev_on_tool_confirm (p_name p) (p_id p) (p_args_json p) h) q1
                 in (xErrno_Ok,
                     case env_confirm env (trace q2) of
                       None \<Rightarrow> q2
                     | Some (d, reason) \<Rightarrow> xAgentToolConfirmResolve env h d reason q2))
          else invoke_tool_inline env q t (p_id p) (p_name p) (p_args_json p))"

text \<open>
  The loop re-reads the length of \<^verbatim>\<open>pending_arr\<close> on every iteration. No iteration adds to that
  array, so the loop ends.
\<close>

named_theorems pending_simps "what an operation leaves in pending_arr"

lemma emit_pending [pending_simps]: "pending_arr (emit ev q) = pending_arr q"
  by (simp add: emit_def)

lemma fire_pending [pending_simps]: "pending_arr (fire cb ev q) = pending_arr q"
  by (simp add: fire_def emit_def)

lemma finalize_pending [pending_simps]: "pending_arr (query_finalize r q) = pending_arr q"
  by (simp add: query_finalize_def pending_simps)

lemma fail_run_pending [pending_simps]: "pending_arr (fail_run rc t r q) = pending_arr q"
  by (simp add: fail_run_def pending_simps)

lemma produce_pending [pending_simps]:
  "pending_arr (snd (produce_tool_result env q i out len e)) = pending_arr q"
  by (simp add: produce_tool_result_def split: prod.splits)

lemma async_push_pending [pending_simps]: "pending_arr (snd (async_push q t i n g st)) = pending_arr q"
  by (simp add: async_push_def Let_def split: prod.splits)

lemma invoke_pending [pending_simps]:
  "pending_arr (snd (invoke_tool_inline env q t i n g)) = pending_arr q"
proof -
  define q1 where "q1 = emit (Ev_invoke n i g) (fire on_tool (Ev_on_tool n True) q)"
  have q1: "pending_arr q1 = pending_arr q" by (simp add: q1_def pending_simps)
  obtain trc out where inv: "env_invoke env (trace q1) n i g = (trc, out)" by fastforce
  obtain out_text len e where res: "tool_output trc out = (out_text, len, e)"
    by (cases "tool_output trc out") auto
  show ?thesis
    using async_push_pending [of q1 t i n g XAGENT_ASYNC_STAGE_RUNNING]
      produce_pending [of env q1 i out_text len e]
    by (auto simp: invoke_tool_inline_def q1_def [symmetric] inv res q1 fire_pending
        split: prod.splits)
qed

lemma register_pending [pending_simps]:
  "pending_arr (snd (register_confirm_pending q t i n g)) = pending_arr q"
proof -
  obtain b q1 where push: "async_push q t i n g XAGENT_ASYNC_STAGE_AWAITING_CONFIRM = (b, q1)"
    by fastforce
  moreover have "pending_arr (snd (confirm_resolver_new q1 i)) = pending_arr q1"
    by (auto simp: confirm_resolver_new_def Let_def split: prod.splits option.splits)
  ultimately show ?thesis
    using async_push_pending [of q t i n g XAGENT_ASYNC_STAGE_AWAITING_CONFIRM]
    by (auto simp: register_confirm_pending_def split: bool.splits prod.splits option.splits)
qed

lemma submit_pending_le:
  "length (elems (pending_arr (snd (submit_round env q)))) \<le> length (elems (pending_arr q))"
  by (simp add: submit_round_def Let_def pending_simps pending_reset_def xArrayReset_def
      split: prod.splits)

lemma continue_pending_le:
  "length (elems (pending_arr (continue_if_idle env t q))) \<le> length (elems (pending_arr q))"
  using submit_pending_le [of env q]
  by (cases "submit_round env q") (simp add: continue_if_idle_def pending_simps)

lemma remove_pending [pending_simps]:
  "pending_arr (snd (async_pending_remove q i)) = pending_arr q"
  by (simp add: async_pending_remove_def Let_def split: option.splits prod.splits)

lemma resolver_free_pending [pending_simps]:
  "pending_arr (confirm_resolver_free h q) = pending_arr q"
  by (simp add: confirm_resolver_free_def)

lemma resolve_pending_le:
  "length (elems (pending_arr (xAgentToolConfirmResolve env h d reason q)))
     \<le> length (elems (pending_arr q))"
proof (cases "resolvers q h")
  case None
  then show ?thesis by (simp add: xAgentToolConfirmResolve_def pending_simps)
next
  case (Some r)
  obtain oa q1 where rem: "async_pending_remove q (r_id r) = (oa, q1)" by fastforce
  with remove_pending [of q "r_id r"] have q1: "pending_arr q1 = pending_arr q" by simp
  show ?thesis
  proof (cases oa)
    case None
    with Some rem q1 show ?thesis by (simp add: xAgentToolConfirmResolve_def pending_simps)
  next
    case a: (Some a)
    define msg where "msg = (case reason of None \<Rightarrow> ''rejected by user''
                                | Some s \<Rightarrow> if s = '''' then ''rejected by user'' else s)"
    obtain rc2 q2 where prod: "produce_tool_result env q1 (a_id a) msg (strlen msg) 1 = (rc2, q2)"
      by fastforce
    obtain rc3 q3 where inv: "invoke_tool_inline env (confirm_resolver_free h q1) (a_tool a) (a_id a)
        (a_name a) (a_args_json a) = (rc3, q3)" by fastforce
    have "pending_arr q2 = pending_arr q" "pending_arr q3 = pending_arr q"
      using produce_pending [of env q1 "a_id a" msg "strlen msg" 1] prod q1
        invoke_pending [of env "confirm_resolver_free h q1" "a_tool a" "a_id a" "a_name a" "a_args_json a"]
        inv by (simp_all add: pending_simps)
    with Some a rem q1 prod inv continue_pending_le show ?thesis
      by (cases d)
        (auto simp: xAgentToolConfirmResolve_def pending_simps Let_def msg_def [symmetric]
          intro: le_trans [OF continue_pending_le])
  qed
qed

lemma dispatch_one_pending_le:
  "length (elems (pending_arr (snd (dispatch_one env q p)))) \<le> length (elems (pending_arr q))"
proof (cases "find_tool (q_tools q) (p_name p)")
  case None
  then show ?thesis by (simp add: dispatch_one_def append_tool_error_def pending_simps)
next
  case (Some t)
  obtain oh q1 where reg:
    "register_confirm_pending q t (p_id p) (p_name p) (p_args_json p) = (oh, q1)" by fastforce
  have q1: "pending_arr q1 = pending_arr q"
    using register_pending [of q t "p_id p" "p_name p" "p_args_json p"] reg by simp
  show ?thesis
    by (auto simp: dispatch_one_def Some reg q1 pending_simps Let_def split: option.splits
        intro!: le_trans [OF resolve_pending_le])
qed

function dispatch_from :: "qenv \<Rightarrow> nat \<Rightarrow> xAgentQuery \<Rightarrow> xErrno \<times> xAgentQuery" where
  "dispatch_from env i q =
     (if i < length (elems (pending_arr q)) \<and> \<not> cancelled q then
        (case dispatch_one env q (elems (pending_arr q) ! i) of (rc, q1) \<Rightarrow>
           if rc \<noteq> xErrno_Ok then (rc, q1) else dispatch_from env (Suc i) q1)
      else (xErrno_Ok, q))"
  by pat_completeness auto
termination
proof (relation "measure (\<lambda>(env, i, q). length (elems (pending_arr q)) - i)", goal_cases)
  case 1
  then show ?case by simp
next
  case (2 env i q x rc)
  then show ?case
    using dispatch_one_pending_le [of env q "elems (pending_arr q) ! i"]
    by (cases "dispatch_one env q (elems (pending_arr q) ! i)") auto
qed

declare dispatch_from.simps [simp del]

definition dispatch_pending_tools :: "qenv \<Rightarrow> xAgentQuery \<Rightarrow> xErrno \<times> xAgentQuery" where
  "dispatch_pending_tools env q = dispatch_from env 0 q"


section \<open>The provider's callbacks\<close>

text \<open>
  \<^verbatim>\<open>commit_assistant_turn\<close>: thinking, then text, then the tool calls. The results of the appends
  are ignored, so an entry that cannot be allocated is missing from the turn.
\<close>

definition commit_text ::
  "qenv \<Rightarrow> (allocs \<Rightarrow> nat \<Rightarrow> msgs \<Rightarrow> string option \<Rightarrow> nat \<Rightarrow> xErrno \<times> msgs \<times> allocs) \<Rightarrow>
   string option \<Rightarrow> xAgentQuery \<Rightarrow> xAgentQuery" where
  "commit_text env app b q =
     (if or_empty b = '''' then q
      else case app (q_mem q) (env_now env (trace q)) (produced_arr q) b (length (or_empty b)) of
        (_, a, m) \<Rightarrow> q\<lparr>produced_arr := a, q_mem := m\<rparr>)"

fun commit_tool_uses :: "qenv \<Rightarrow> xAgentQueryPending list \<Rightarrow> xAgentQuery \<Rightarrow> xAgentQuery" where
  "commit_tool_uses env [] q = q"
| "commit_tool_uses env (p # ps) q =
     (case turn_buf_append_tool_use (q_mem q) (env_now env (trace q)) (produced_arr q)
             (Some (p_id p)) (Some (p_name p)) (Some (p_args_json p)) of
        (_, a, m) \<Rightarrow> commit_tool_uses env ps (q\<lparr>produced_arr := a, q_mem := m\<rparr>))"

definition commit_assistant_turn :: "qenv \<Rightarrow> xAgentQuery \<Rightarrow> xAgentQuery" where
  "commit_assistant_turn env q =
     (let q1 = commit_text env turn_buf_append_thinking (reasoning q) q;
          q2 = commit_text env (\<lambda>m now a. turn_buf_append_text m now a xAgentRole_Assistant)
                 (assist q1) q1
      in commit_tool_uses env (elems (pending_arr q2)) q2)"

definition turn_limit :: "xAgentQuery \<Rightarrow> int" where
  "turn_limit q = (if 0 < q_max_turns q then q_max_turns q else XAGENT_SESSION_DEFAULT_MAX_TURNS)"

definition handle_tool_loop_continuation :: "qenv \<Rightarrow> xAgentQuery \<Rightarrow> xAgentQuery" where
  "handle_tool_loop_continuation env q =
     (if turn_limit q \<le> turn q then query_finalize xAgentDoneReason_MaxTurns q
      else case dispatch_pending_tools env q of (drc, q1) \<Rightarrow>
        let q2 = pending_reset q1
        in if cancelled q2 then query_finalize xAgentDoneReason_Aborted q2
           else if drc \<noteq> xErrno_Ok
             then fail_run drc ''failed to record tool_result in history''
                    xAgentDoneReason_ToolError q2
           else if elems (async_pending_arr q2) \<noteq> [] then q2
           else case submit_round env q2 of (src, q3) \<Rightarrow>
             if src \<noteq> xErrno_Ok
             then fail_run src ''failed to submit follow-up tool round''
                    xAgentDoneReason_ModelError q3
             else q3)"

definition on_provider_text :: "string \<Rightarrow> xAgentQuery \<Rightarrow> xAgentQuery" where
  "on_provider_text chunk q =
     (if cancelled q then q else fire on_text (Ev_on_text chunk) (assist_append q chunk))"

definition on_provider_thinking :: "string \<Rightarrow> xAgentQuery \<Rightarrow> xAgentQuery" where
  "on_provider_thinking chunk q =
     (if cancelled q then q
      else fire on_thinking (Ev_on_thinking chunk) (reasoning_append q chunk))"

definition on_provider_tool_call :: "xAgentContent \<Rightarrow> xAgentQuery \<Rightarrow> xAgentQuery" where
  "on_provider_tool_call call q =
     (if cancelled q then q
      else case call of
        xAgentContent_ToolUse i n g \<Rightarrow> snd (pending_append q i n g)
      | _ \<Rightarrow> q)"

text \<open>\<open>errmsg\<close> is the message shown: the provider's, or \<^verbatim>\<open>xstrerror (err)\<close> when it gave none.\<close>

definition on_provider_done ::
  "qenv \<Rightarrow> xAgentProviderStopReason \<Rightarrow> xErrno \<Rightarrow> xAgentUsage option \<Rightarrow> string \<Rightarrow>
   xAgentQuery \<Rightarrow> xAgentQuery" where
  "on_provider_done env reason err round errmsg q =
     (if \<not> running q then q
      else let q1 = usage_accumulate round q;
               user_cancel = (reason = xAgentProviderStop_Cancelled \<or> cancelled q1);
               q2 = (if reason = xAgentProviderStop_Error \<and> err \<noteq> xErrno_Ok
                     then fire on_error (Ev_on_error err errmsg) q1 else q1);
               q3 = commit_assistant_turn env q2
           in if \<not> user_cancel \<and> reason = xAgentProviderStop_ToolUse \<and> elems (pending_arr q3) \<noteq> []
              then handle_tool_loop_continuation env q3
              else query_finalize (translate_terminal reason user_cancel) q3)"

section \<open>Life cycle\<close>

text \<open>
  \<open>qc_session\<close>: None for a standalone query, otherwise whether the session's \<^verbatim>\<open>query\<close> field is
  already set.
\<close>

record xAgentQueryConf =
  qc_provider :: "nat option"
  qc_tools :: "xAgentTool option list"
  qc_model :: "string option"
  qc_max_tokens :: int
  qc_max_turns :: int
  qc_cbs :: xAgentQueryCallbacks
  qc_session :: "bool option"

text \<open>
  The result of \<^verbatim>\<open>xAgentQueryCreate\<close>: NULL, a query, or the write \<^verbatim>\<open>s->query = q\<close> through a NULL
  session pointer.
\<close>

datatype create_result = Create_null | Create_ok xAgentQuery | Create_null_deref

fun draws :: "nat \<Rightarrow> allocs \<Rightarrow> bool \<times> allocs" where
  "draws 0 m = (True, m)"
| "draws (Suc n) m = (let (ok, m1) = draw m; (oks, m2) = draws n m1 in (ok \<and> oks, m2))"

definition fresh_query :: "xAgentQueryConf \<Rightarrow> nat \<Rightarrow> allocs \<Rightarrow> xAgentQuery" where
  "fresh_query conf provider m = \<lparr>q_tools = qc_tools conf, q_model = qc_model conf,
     q_max_tokens = qc_max_tokens conf, q_max_turns = qc_max_turns conf, q_provider = provider,
     q_cbs = qc_cbs conf, inputs_arr = \<lparr>elems = [], cap = 8\<rparr>,
     produced_arr = \<lparr>elems = [], cap = 8\<rparr>, assist = None, reasoning = None,
     pending_arr = \<lparr>elems = [], cap = 4\<rparr>, async_pending_arr = \<lparr>elems = [], cap = 4\<rparr>,
     running = False, cancelled = False, turn = 0, saw_usage = False, usage = unknown_usage,
     first_round_prompt_tokens = -1, resolvers = (\<lambda>_. None), next_resolver = 0, q_mem = m,
     trace = []\<rparr>"

text \<open>One draw for the query itself (the free list or \<^verbatim>\<open>calloc\<close>), one for each of four arrays.\<close>

definition xAgentQueryCreate :: "allocs \<Rightarrow> xAgentQueryConf \<Rightarrow> create_result \<times> allocs" where
  "xAgentQueryCreate m conf =
     (case qc_provider conf of
        None \<Rightarrow> (Create_null, m)
      | Some provider \<Rightarrow>
          if qc_session conf = Some True then (Create_null, m)
          else let (ok, m1) = draw m
               in if \<not> ok then (Create_null, m1)
                  else let (oks, m2) = draws 4 m1
                       in if \<not> oks then (Create_null, m2)
                          else if qc_session conf = None then (Create_null_deref, m2)
                          else (Create_ok (fresh_query conf provider m2), m2))"

fun copy_inputs :: "qenv \<Rightarrow> xAgentMessage list \<Rightarrow> xAgentQuery \<Rightarrow> xErrno \<times> xAgentQuery" where
  "copy_inputs env [] q = (xErrno_Ok, q)"
| "copy_inputs env (msg # msgs) q =
     (case turn_buf_append_message (q_mem q) (env_now env (trace q)) (inputs_arr q) msg of
        (rc, a, m) \<Rightarrow>
          if rc \<noteq> xErrno_Ok then (rc, q\<lparr>inputs_arr := xArrayReset a, q_mem := m\<rparr>)
          else copy_inputs env msgs (q\<lparr>inputs_arr := a, q_mem := m\<rparr>))"

definition xAgentQueryRun :: "qenv \<Rightarrow> xAgentMessage list \<Rightarrow> xAgentQuery \<Rightarrow> xErrno \<times> xAgentQuery" where
  "xAgentQueryRun env msgs q =
     (if msgs = [] then (xErrno_InvalidArg, q)
      else if running q \<or> 0 < turn q then (xErrno_Busy, q)
      else case copy_inputs env msgs q of (rc, q1) \<Rightarrow>
        if rc \<noteq> xErrno_Ok then (rc, q1)
        else case submit_round env (q1\<lparr>running := True\<rparr>) of (rc2, q2) \<Rightarrow>
          if rc2 \<noteq> xErrno_Ok then (rc2, q2\<lparr>running := False, turn := 0\<rparr>) else (rc2, q2))"

text \<open>
  Cancelling the outstanding calls: an entry still waiting for the host has its resolver
  invalidated, a running one has its cancel hook called. The entries stay in the array.
\<close>

fun cancel_async :: "xAgentQueryAsyncTool list \<Rightarrow> xAgentQuery \<Rightarrow> xAgentQuery" where
  "cancel_async [] q = q"
| "cancel_async (a # as) q =
     cancel_async as
       (if a_stage a = XAGENT_ASYNC_STAGE_AWAITING_CONFIRM
        then confirm_resolver_invalidate (a_resolver a) q
        else if t_has_cancel (a_tool a) then emit (Ev_tool_cancel (a_id a)) q else q)"

definition xAgentQueryCancel :: "xAgentQuery \<Rightarrow> xAgentQuery" where
  "xAgentQueryCancel q =
     (if \<not> running q then q
      else cancel_async (elems (async_pending_arr q))
             (emit Ev_provider_cancel (q\<lparr>cancelled := True\<rparr>)))"

text \<open>
  \<^verbatim>\<open>xAgentQueryDestroy\<close> up to the release of the arrays; releasing \<^verbatim>\<open>async_pending_arr\<close> invalidates
  the resolvers of its entries. The session's pointer is cleared by the caller's model.
\<close>

fun release_async :: "xAgentQueryAsyncTool list \<Rightarrow> xAgentQuery \<Rightarrow> xAgentQuery" where
  "release_async [] q = q"
| "release_async (a # as) q = release_async as (confirm_resolver_invalidate (a_resolver a) q)"

definition xAgentQueryDestroy :: "xAgentQuery \<Rightarrow> xAgentQuery" where
  "xAgentQueryDestroy q =
     (let q1 = (if running q
                then cancel_async (elems (async_pending_arr q))
                       (emit Ev_provider_cancel (q\<lparr>cancelled := True\<rparr>))
                else q);
          q2 = release_async (elems (async_pending_arr q1)) q1
      in q2\<lparr>assist := None, reasoning := None, pending_arr := xArrayReset (pending_arr q2),
            async_pending_arr := xArrayReset (async_pending_arr q2),
            inputs_arr := xArrayReset (inputs_arr q2),
            produced_arr := xArrayReset (produced_arr q2), running := False\<rparr>)"

section \<open>The query as a state machine\<close>

datatype qinput =
    In_text string
  | In_thinking string
  | In_tool_call xAgentContent
  | In_done xAgentProviderStopReason xErrno "xAgentUsage option" string
  | In_async_done string "xAgentContent option"
  | In_resolve nat xAgentToolDecision "string option"
  | In_cancel

fun query_step :: "qenv \<Rightarrow> xAgentQuery \<Rightarrow> qinput \<Rightarrow> xAgentQuery" where
  "query_step env q (In_text chunk) = on_provider_text chunk q"
| "query_step env q (In_thinking chunk) = on_provider_thinking chunk q"
| "query_step env q (In_tool_call call) = on_provider_tool_call call q"
| "query_step env q (In_done reason err round errmsg) = on_provider_done env reason err round errmsg q"
| "query_step env q (In_async_done i result) = ai_query_async_tool_complete env q i result"
| "query_step env q (In_resolve h d reason) = xAgentToolConfirmResolve env h d reason q"
| "query_step env q In_cancel = xAgentQueryCancel q"

definition query_run :: "qenv \<Rightarrow> xAgentQuery \<Rightarrow> qinput list \<Rightarrow> xAgentQuery" where
  "query_run env q ins = foldl (query_step env) q ins"

end
