(* ===== verification/QueryLoop.thy ===== *)
theory QueryLoop
  imports Query
begin

text \<open>
  The lemmas of \<^verbatim>\<open>Query\<close>. One relation, \<open>extends q q'\<close>, says what any operation may do to a query:
  add to the trace and to \<open>produced_arr\<close>, never remove; keep the configuration; finish at most
  once; count one turn per submit. Every operation is shown to be in it once, and the
  properties of whole runs follow by transitivity.
\<close>

section \<open>The extension relation\<close>

fun is_done :: "qevent \<Rightarrow> bool" where
  "is_done (Ev_on_done _ _) = True"
| "is_done _ = False"

fun is_submit :: "qevent \<Rightarrow> bool" where
  "is_submit (Ev_submit _) = True"
| "is_submit _ = False"

abbreviation n_done :: "qevent list \<Rightarrow> nat" where
  "n_done evs \<equiv> length (filter is_done evs)"

abbreviation n_submit :: "qevent list \<Rightarrow> nat" where
  "n_submit evs \<equiv> length (filter is_submit evs)"

definition same_conf :: "xAgentQuery \<Rightarrow> xAgentQuery \<Rightarrow> bool" where
  "same_conf q q' \<longleftrightarrow> q_tools q' = q_tools q \<and> q_cbs q' = q_cbs q \<and> q_max_turns q' = q_max_turns q
     \<and> q_max_tokens q' = q_max_tokens q \<and> q_model q' = q_model q \<and> q_provider q' = q_provider q
     \<and> inputs_arr q' = inputs_arr q"

definition extends :: "xAgentQuery \<Rightarrow> xAgentQuery \<Rightarrow> bool" where
  "extends q q' \<longleftrightarrow> same_conf q q' \<and>
     (\<exists>evs. trace q' = trace q @ evs \<and>
        n_done evs + of_bool (running q') \<le> of_bool (running q) \<and>
        turn q' = turn q + int (n_submit evs)) \<and>
     (\<exists>ps. elems (produced_arr q') = elems (produced_arr q) @ ps)"

lemma extends_refl [intro, simp]: "extends q q"
  by (simp add: extends_def same_conf_def)

lemma extends_trans [trans]:
  assumes "extends a b" and "extends b c"
  shows "extends a c"
proof -
  from assms(1) obtain e1 p1 where 1: "same_conf a b" "trace b = trace a @ e1"
    "n_done e1 + of_bool (running b) \<le> of_bool (running a)" "turn b = turn a + int (n_submit e1)"
    "elems (produced_arr b) = elems (produced_arr a) @ p1"
    unfolding extends_def by blast
  from assms(2) obtain e2 p2 where 2: "same_conf b c" "trace c = trace b @ e2"
    "n_done e2 + of_bool (running c) \<le> of_bool (running b)" "turn c = turn b + int (n_submit e2)"
    "elems (produced_arr c) = elems (produced_arr b) @ p2"
    unfolding extends_def by blast
  have "same_conf a c" using 1(1) 2(1) by (simp add: same_conf_def)
  moreover have "trace c = trace a @ (e1 @ e2)" using 1 2 by simp
  moreover have "n_done (e1 @ e2) + of_bool (running c) \<le> of_bool (running a)"
    using add_le_mono [OF 1(3) 2(3)] by simp
  moreover have "turn c = turn a + int (n_submit (e1 @ e2))" using 1(4) 2(4) by simp
  moreover have "elems (produced_arr c) = elems (produced_arr a) @ (p1 @ p2)" using 1(5) 2(5) by simp
  ultimately show ?thesis unfolding extends_def by blast
qed

text \<open>Changing only bookkeeping fields.\<close>

lemma extends_same:
  assumes "same_conf q q'" and "trace q' = trace q" and "running q' = running q"
    and "turn q' = turn q" and "produced_arr q' = produced_arr q"
  shows "extends q q'"
  using assms by (simp add: extends_def)

lemma extends_emit: "\<not> is_done ev \<Longrightarrow> \<not> is_submit ev \<Longrightarrow> extends q (emit ev q)"
  by (auto simp: extends_def same_conf_def emit_def)

lemma extends_fire: "\<not> is_done ev \<Longrightarrow> \<not> is_submit ev \<Longrightarrow> extends q (fire cb ev q)"
  by (simp add: fire_def extends_emit)

lemma extends_finalize: "extends q (query_finalize r q)"
  by (auto simp: query_finalize_def extends_def same_conf_def fire_def emit_def)

lemma extends_fail_run: "extends q (fail_run rc t r q)"
  unfolding fail_run_def
  by (rule extends_trans [OF extends_fire extends_finalize]) simp_all

lemma extends_produce: "extends q (snd (produce_tool_result env q i out len e))"
proof -
  obtain rc a m where app: "turn_buf_append_tool_result (q_mem q) (env_now env (trace q))
      (produced_arr q) (Some i) (Some out) len e = (rc, a, m)"
    by (cases "turn_buf_append_tool_result (q_mem q) (env_now env (trace q)) (produced_arr q)
      (Some i) (Some out) len e") auto
  have "\<exists>ps. elems a = elems (produced_arr q) @ ps"
    using grows_append_tool_result [of "produced_arr q" "q_mem q" "env_now env (trace q)" "Some i"
        "Some out" len e] app
    by (auto simp: grows_def)
  then show ?thesis by (simp add: produce_tool_result_def app extends_def same_conf_def)
qed

lemma extends_async_push: "extends q (snd (async_push q t i n g st))"
  by (rule extends_same)
    (simp_all add: async_push_def Let_def same_conf_def split: prod.splits)

lemma extends_resolver_new: "extends q (snd (confirm_resolver_new q i))"
  by (rule extends_same)
    (auto simp: confirm_resolver_new_def Let_def same_conf_def split: prod.splits option.splits)

lemma extends_resolver_free: "extends q (confirm_resolver_free h q)"
  by (rule extends_same) (simp_all add: confirm_resolver_free_def same_conf_def)

lemma extends_resolver_invalidate: "extends q (confirm_resolver_invalidate h q)"
  by (rule extends_same)
    (auto simp: confirm_resolver_invalidate_def same_conf_def split: option.splits)

lemma extends_pending_reset: "extends q (pending_reset q)"
  by (rule extends_same) (simp_all add: pending_reset_def same_conf_def)

lemma extends_async_remove: "extends q (snd (async_pending_remove q i))"
  by (rule extends_same)
    (simp_all add: async_pending_remove_def Let_def same_conf_def split: prod.splits option.splits)

lemma extends_submit: "extends q (snd (submit_round env q))"
  by (auto simp: submit_round_def extends_def same_conf_def Let_def emit_def pending_reset_def
      reasoning_reset_def assist_reset_def split: prod.splits)

lemma extends_continue: "extends q (continue_if_idle env t q)"
proof -
  obtain rc q1 where s: "submit_round env q = (rc, q1)" by fastforce
  with extends_submit [of q env] have "extends q q1" by simp
  moreover have "extends q1 (fail_run rc t xAgentDoneReason_ModelError q1)"
    by (rule extends_fail_run)
  ultimately show ?thesis
    by (auto simp: continue_if_idle_def s intro: extends_finalize extends_trans)
qed

text \<open>A result that is an error code and a query.\<close>

lemma extends_snd: "extends q (snd r) \<Longrightarrow> r = (x, q') \<Longrightarrow> extends q q'"
  by simp

lemma extends_invoke: "extends q (snd (invoke_tool_inline env q t i n g))"
proof -
  define q1 where "q1 = emit (Ev_invoke n i g) (fire on_tool (Ev_on_tool n True) q)"
  have q1: "extends q q1"
    unfolding q1_def by (rule extends_trans [OF extends_fire extends_emit]) simp_all
  obtain trc out where inv: "env_invoke env (trace q1) n i g = (trc, out)" by fastforce
  obtain out_text len e where res: "tool_output trc out = (out_text, len, e)"
    by (cases "tool_output trc out") auto
  have "extends q (snd (async_push q1 t i n g XAGENT_ASYNC_STAGE_RUNNING))"
    by (rule extends_trans [OF q1 extends_async_push])
  moreover have "extends q (fire on_tool (Ev_on_tool n False)
      (snd (produce_tool_result env q1 i out_text len e)))"
    by (rule extends_trans [OF q1 extends_trans [OF extends_produce extends_fire]]) simp_all
  ultimately show ?thesis
    by (auto simp: invoke_tool_inline_def q1_def [symmetric] inv res split: prod.splits)
qed

lemma extends_register: "extends q (snd (register_confirm_pending q t i n g))"
proof -
  obtain b q1 where push: "async_push q t i n g XAGENT_ASYNC_STAGE_AWAITING_CONFIRM = (b, q1)"
    by fastforce
  obtain oh q2 where new: "confirm_resolver_new q1 i = (oh, q2)" by fastforce
  have "extends q q1" by (rule extends_snd [OF extends_async_push push])
  moreover have "extends q1 q2" by (rule extends_snd [OF extends_resolver_new new])
  moreover have "extends q2 (q2\<lparr>async_pending_arr := a\<rparr>)" for a
    by (rule extends_same) (simp_all add: same_conf_def)
  ultimately show ?thesis
    by (auto simp: register_confirm_pending_def push new split: bool.splits option.splits
        intro: extends_trans)
qed

lemma extends_resolve: "extends q (xAgentToolConfirmResolve env h d reason q)"
proof (cases "resolvers q h")
  case None
  then show ?thesis by (simp add: xAgentToolConfirmResolve_def extends_emit)
next
  case (Some r)
  obtain oa q1 where rem: "async_pending_remove q (r_id r) = (oa, q1)" by fastforce
  then have q1: "extends q q1" by (rule extends_snd [OF extends_async_remove])
  show ?thesis
  proof (cases oa)
    case None
    with Some rem q1 show ?thesis
      by (auto simp: xAgentToolConfirmResolve_def intro: extends_trans extends_resolver_free)
  next
    case a: (Some a)
    define msg where "msg = (case reason of None \<Rightarrow> ''rejected by user''
                                | Some s \<Rightarrow> if s = '''' then ''rejected by user'' else s)"
    obtain rc2 q2 where prod: "produce_tool_result env q1 (a_id a) msg (strlen msg) 1 = (rc2, q2)"
      by fastforce
    obtain rc3 q3 where inv: "invoke_tool_inline env (confirm_resolver_free h q1) (a_tool a) (a_id a)
        (a_name a) (a_args_json a) = (rc3, q3)" by fastforce
    have "extends q q2" by (rule extends_trans [OF q1 extends_snd [OF extends_produce prod]])
    then have q2: "extends q (confirm_resolver_free h q2)"
      by (rule extends_trans [OF _ extends_resolver_free])
    have q3: "extends q q3"
      by (rule extends_trans [OF q1 extends_trans
            [OF extends_resolver_free extends_snd [OF extends_invoke inv]]])
    note outs = extends_trans [OF q2 extends_fail_run] extends_trans [OF q2 extends_continue]
      extends_trans [OF q3 extends_fail_run] extends_trans [OF q3 extends_continue]
    show ?thesis
      using Some a rem prod inv outs
      by (cases d)
        (auto simp: xAgentToolConfirmResolve_def Let_def msg_def [symmetric]
          intro: extends_resolver_free)
  qed
qed

lemma extends_dispatch_one: "extends q (snd (dispatch_one env q p))"
proof (cases "find_tool (q_tools q) (p_name p)")
  case None
  then show ?thesis by (simp add: dispatch_one_def append_tool_error_def extends_produce)
next
  case (Some t)
  obtain oh q1 where reg:
    "register_confirm_pending q t (p_id p) (p_name p) (p_args_json p) = (oh, q1)" by fastforce
  then have q1: "extends q q1" by (rule extends_snd [OF extends_register])
  have q2: "extends q (emit (Ev_on_tool_confirm a b c d) q1)" for a b c d
    by (rule extends_trans [OF q1 extends_emit]) simp_all
  show ?thesis
    using Some reg q1 q2 extends_trans [OF q2 extends_resolve]
    by (auto simp: dispatch_one_def Let_def split: option.splits intro: extends_invoke)
qed

lemma extends_dispatch_from: "extends q (snd (dispatch_from env i q))"
proof (induction env i q rule: dispatch_from.induct)
  case (1 env i q)
  obtain rc q1 where d: "dispatch_one env q (elems (pending_arr q) ! i) = (rc, q1)" by fastforce
  then have "extends q q1" by (rule extends_snd [OF extends_dispatch_one])
  with 1 d show ?case
    by (subst dispatch_from.simps) (auto intro: extends_trans)
qed

lemma extends_commit_tool_uses: "extends q (commit_tool_uses env ps q)"
proof (induction ps arbitrary: q)
  case Nil
  then show ?case by simp
next
  case (Cons p ps)
  obtain rc a m where app: "turn_buf_append_tool_use (q_mem q) (env_now env (trace q))
      (produced_arr q) (Some (p_id p)) (Some (p_name p)) (Some (p_args_json p)) = (rc, a, m)"
    by (metis prod_cases3)
  have "extends q (q\<lparr>produced_arr := a, q_mem := m\<rparr>)"
    using grows_append_tool_use [of "produced_arr q" "q_mem q" "env_now env (trace q)"
        "Some (p_id p)" "Some (p_name p)" "Some (p_args_json p)"] app
    by (auto simp: extends_def same_conf_def grows_def)
  with Cons.IH show ?case by (auto simp: app intro: extends_trans)
qed

lemma extends_commit_text:
  assumes "\<And>m now a t n. \<exists>x. grows a (app m now a t n) [x]"
  shows "extends q (commit_text env app b q)"
proof -
  obtain rc a m where app: "app (q_mem q) (env_now env (trace q)) (produced_arr q) b
      (length (or_empty b)) = (rc, a, m)" by (metis prod_cases3)
  have "\<exists>ps. elems a = elems (produced_arr q) @ ps"
    using assms [of "produced_arr q" "q_mem q" "env_now env (trace q)" b "length (or_empty b)"] app
    by (auto simp: grows_def)
  then show ?thesis by (simp add: commit_text_def app extends_def same_conf_def)
qed

lemma extends_commit: "extends q (commit_assistant_turn env q)"
  unfolding commit_assistant_turn_def Let_def
  by (intro extends_trans [OF extends_commit_text extends_trans [OF extends_commit_text
        extends_commit_tool_uses]])
    (blast intro: grows_append_thinking grows_append_text)+

lemma extends_continuation: "extends q (handle_tool_loop_continuation env q)"
proof -
  obtain drc q1 where disp: "dispatch_pending_tools env q = (drc, q1)" by fastforce
  define q2 where "q2 = pending_reset q1"
  have "extends q q1"
    by (rule extends_snd [OF extends_dispatch_from disp [unfolded dispatch_pending_tools_def]])
  then have q2: "extends q q2" unfolding q2_def by (rule extends_trans [OF _ extends_pending_reset])
  obtain src q3 where sub: "submit_round env q2 = (src, q3)" by fastforce
  have q3: "extends q q3" by (rule extends_trans [OF q2 extends_snd [OF extends_submit sub]])
  show ?thesis
    using q2 q3 disp sub extends_trans [OF q2 extends_finalize] extends_trans [OF q2 extends_fail_run]
      extends_trans [OF q3 extends_fail_run]
    by (auto simp: handle_tool_loop_continuation_def Let_def q2_def [symmetric]
        intro: extends_finalize)
qed

lemma extends_usage: "extends q (usage_accumulate u q)"
  by (rule extends_same) (auto simp: usage_accumulate_def same_conf_def split: option.splits)

lemma extends_provider_done: "extends q (on_provider_done env reason err u msg q)"
proof -
  define q2 where "q2 = (if reason = xAgentProviderStop_Error \<and> err \<noteq> xErrno_Ok
     then fire on_error (Ev_on_error err msg) (usage_accumulate u q) else usage_accumulate u q)"
  have "extends q q2"
    unfolding q2_def by (auto intro: extends_usage extends_trans [OF extends_usage extends_fire])
  then have q3: "extends q (commit_assistant_turn env q2)"
    by (rule extends_trans [OF _ extends_commit])
  show ?thesis
    using extends_trans [OF q3 extends_continuation] extends_trans [OF q3 extends_finalize]
    unfolding on_provider_done_def Let_def q2_def [symmetric] by simp
qed

lemma extends_cancel_async: "extends q (cancel_async as q)"
proof (induction as arbitrary: q)
  case Nil
  then show ?case by simp
next
  case (Cons a as)
  have "extends q (emit (Ev_tool_cancel (a_id a)) q)" by (rule extends_emit) simp_all
  with Cons.IH extends_resolver_invalidate [of q "a_resolver a"] show ?case
    by (auto intro: extends_trans)
qed

lemma extends_cancel: "extends q (xAgentQueryCancel q)"
proof -
  have "extends q (q\<lparr>cancelled := True\<rparr>)" by (rule extends_same) (simp_all add: same_conf_def)
  then have "extends q (emit Ev_provider_cancel (q\<lparr>cancelled := True\<rparr>))"
    by (rule extends_trans [OF _ extends_emit]) simp_all
  then show ?thesis
    by (auto simp: xAgentQueryCancel_def intro: extends_trans [OF _ extends_cancel_async])
qed

lemma extends_accumulate_text:
  "extends q (assist_append q chunk)" "extends q (reasoning_append q chunk)"
  by (rule extends_same; simp add: assist_append_def reasoning_append_def same_conf_def
      split: prod.splits)+

lemma extends_pending_append: "extends q (snd (pending_append q i n g))"
  by (rule extends_same) (simp_all add: pending_append_def Let_def same_conf_def split: prod.splits)

lemma extends_step: "extends q (query_step env q inp)"
proof (cases inp)
  case (In_async_done i result)
  obtain oa q1 where rem: "async_pending_remove q i = (oa, q1)" by fastforce
  then have q1: "extends q q1" by (rule extends_snd [OF extends_async_remove])
  show ?thesis
  proof (cases oa)
    case None
    with In_async_done rem q1 show ?thesis by (simp add: ai_query_async_tool_complete_def)
  next
    case (Some a)
    obtain out_text len e where res: "async_result (a_name a) result = (out_text, len, e)"
      by (cases "async_result (a_name a) result") auto
    obtain rc q2 where prod: "produce_tool_result env q1 (a_id a) out_text len e = (rc, q2)"
      by fastforce
    have "extends q q2" by (rule extends_trans [OF q1 extends_snd [OF extends_produce prod]])
    then have q3: "extends q (fire on_tool (Ev_on_tool (a_name a) False) q2)"
      by (rule extends_trans [OF _ extends_fire]) simp_all
    show ?thesis
      using In_async_done Some rem res prod extends_trans [OF q3 extends_fail_run]
        extends_trans [OF q3 extends_continue]
      by (simp add: ai_query_async_tool_complete_def Let_def)
  qed
qed (auto simp: on_provider_text_def on_provider_thinking_def on_provider_tool_call_def
      extends_provider_done extends_resolve extends_cancel extends_pending_append
      split: xAgentContent.splits
      intro: extends_trans [OF extends_accumulate_text(1) extends_fire]
        extends_trans [OF extends_accumulate_text(2) extends_fire])

lemma extends_run: "extends q (query_run env q ins)"
proof (induction ins arbitrary: q)
  case Nil
  then show ?case by (simp add: query_run_def)
next
  case (Cons i ins)
  from Cons.IH [of "query_step env q i"] show ?case
    by (simp add: query_run_def extends_trans [OF extends_step])
qed

section \<open>The turn limit\<close>

text \<open>The two numbers the limit is about; only a submit changes them.\<close>

definition turns :: "xAgentQuery \<Rightarrow> int \<times> int" where
  "turns q = (turn q, q_max_turns q)"

lemma turns_simps [frame_simps]:
  "turns (emit ev q) = turns q" "turns (fire cb ev q) = turns q"
  "turns (query_finalize r q) = turns q" "turns (fail_run rc t r q) = turns q"
  "turns (pending_reset q) = turns q" "turns (confirm_resolver_free h q) = turns q"
  "turns (usage_accumulate u q) = turns q" "turns (confirm_resolver_invalidate oh q) = turns q"
  "turns (assist_append q chunk) = turns q" "turns (reasoning_append q chunk) = turns q"
  by (simp_all add: turns_def emit_def fire_def query_finalize_def fail_run_def pending_reset_def
      confirm_resolver_free_def usage_accumulate_def confirm_resolver_invalidate_def
      assist_append_def reasoning_append_def split: option.split prod.split)

lemma turns_snd [frame_simps]:
  "turns (snd (produce_tool_result env q i out len e)) = turns q"
  "turns (snd (async_push q t i n g st)) = turns q"
  "turns (snd (async_pending_remove q i)) = turns q"
  "turns (snd (confirm_resolver_new q i)) = turns q"
  "turns (snd (pending_append q oi on og)) = turns q"
  by (simp_all add: turns_def produce_tool_result_def async_push_def async_pending_remove_def
      confirm_resolver_new_def pending_append_def Let_def split: option.split prod.split)

lemma turns_invoke [frame_simps]: "turns (snd (invoke_tool_inline env q t i n g)) = turns q"
proof -
  define q1 where "q1 = emit (Ev_invoke n i g) (fire on_tool (Ev_on_tool n True) q)"
  have q1: "turns q1 = turns q" by (simp add: q1_def frame_simps)
  obtain trc out where inv: "env_invoke env (trace q1) n i g = (trc, out)" by fastforce
  obtain out_text len e where res: "tool_output trc out = (out_text, len, e)"
    by (cases "tool_output trc out") auto
  show ?thesis
    using turns_snd(1) [of env q1 i out_text len e]
      turns_snd(2) [of q1 t i n g XAGENT_ASYNC_STAGE_RUNNING]
    by (auto simp: invoke_tool_inline_def q1_def [symmetric] inv res q1 turns_simps split: prod.splits)
qed

lemma turns_register [frame_simps]: "turns (snd (register_confirm_pending q t i n g)) = turns q"
proof -
  obtain b q1 where push: "async_push q t i n g XAGENT_ASYNC_STAGE_AWAITING_CONFIRM = (b, q1)"
    by fastforce
  have "turns (q2\<lparr>async_pending_arr := a\<rparr>) = turns q2" for q2 a by (simp add: turns_def)
  with turns_snd(2) [of q t i n g XAGENT_ASYNC_STAGE_AWAITING_CONFIRM] turns_snd(4) [of q1 i] push
  show ?thesis
    by (auto simp: register_confirm_pending_def split: bool.splits prod.splits option.splits)
qed

lemma turns_dispatch_one:
  "(\<And>tr. env_confirm env tr = None) \<Longrightarrow> turns (snd (dispatch_one env q p)) = turns q"
  using turns_register [of q _ "p_id p" "p_name p" "p_args_json p"]
  by (auto simp: dispatch_one_def append_tool_error_def Let_def turns_simps turns_snd turns_invoke
      split: option.split prod.split) (metis snd_conv)+

lemma turns_dispatch_from:
  "(\<And>tr. env_confirm env tr = None) \<Longrightarrow> turns (snd (dispatch_from env i q)) = turns q"
proof (induction env i q rule: dispatch_from.induct)
  case (1 env i q)
  then show ?case
    using turns_dispatch_one [of env q "elems (pending_arr q) ! i"]
    by (cases "dispatch_one env q (elems (pending_arr q) ! i)")
      (simp add: dispatch_from.simps [of env i q])
qed

lemma turns_commit_text: "turns (commit_text env app b q) = turns q"
  by (simp add: commit_text_def turns_def split: prod.split)

lemma turns_commit_uses: "turns (commit_tool_uses env ps q) = turns q"
proof (induction ps arbitrary: q)
  case (Cons p ps)
  show ?case
    using Cons.IH by (simp add: turns_def split: prod.split)
qed simp

lemma turns_commit [frame_simps]: "turns (commit_assistant_turn env q) = turns q"
  by (simp add: commit_assistant_turn_def Let_def turns_commit_text turns_commit_uses)

text \<open>Within the limit, and strictly below it while a call is outstanding.\<close>

definition turn_ok :: "xAgentQuery \<Rightarrow> bool" where
  "turn_ok q \<longleftrightarrow> turn q \<le> turn_limit q \<and> (elems (async_pending_arr q) \<noteq> [] \<longrightarrow> turn q < turn_limit q)"

lemma turn_limit_turns: "turns q' = turns q \<Longrightarrow> turn_limit q' = turn_limit q \<and> turn q' = turn q"
  by (simp add: turns_def turn_limit_def)

lemma turn_ok_below: "turns q' = turns q \<Longrightarrow> turn q < turn_limit q \<Longrightarrow> turn_ok q'"
  using turn_limit_turns [of q' q] by (simp add: turn_ok_def)

lemma turn_ok_same:
  "turn_ok q \<Longrightarrow> turns q' = turns q \<Longrightarrow> async_pending_arr q' = async_pending_arr q \<Longrightarrow> turn_ok q'"
  using turn_limit_turns [of q' q] by (simp add: turn_ok_def)

lemma turn_ok_simps [simp]:
  "turn_ok (emit ev q) = turn_ok q" "turn_ok (confirm_resolver_free h q) = turn_ok q"
  "turn_ok (confirm_resolver_invalidate oh q) = turn_ok q" "turn_ok (q\<lparr>cancelled := c\<rparr>) = turn_ok q"
  by (simp_all add: turn_ok_def turn_limit_def emit_def confirm_resolver_free_def
      confirm_resolver_invalidate_def split: option.split)

lemma turn_ok_submit:
  assumes "turn q < turn_limit q" and "elems (async_pending_arr q) = []"
  shows "turn_ok (snd (submit_round env q))"
  using assms
  by (auto simp: submit_round_def turn_ok_def turn_limit_def pending_reset_def reasoning_reset_def
      assist_reset_def emit_def Let_def split: prod.split)

lemma async_finalize: "async_pending_arr (query_finalize r q) = async_pending_arr q"
  by (simp add: query_finalize_def fire_def emit_def)

lemma async_fail: "async_pending_arr (fail_run rc t r q) = async_pending_arr q"
  by (simp add: fail_run_def async_finalize fire_def emit_def)

lemma turn_ok_continue:
  assumes "turn q < turn_limit q"
  shows "turn_ok (continue_if_idle env t q)"
proof -
  obtain rc q1 where sub: "submit_round env q = (rc, q1)" by fastforce
  have fail: "turn_ok (fail_run rc t xAgentDoneReason_ModelError q1)" if "turn_ok q1"
    by (rule turn_ok_same [OF that]) (simp_all add: frame_simps async_fail)
  have "turn_ok q" "turn_ok (query_finalize xAgentDoneReason_Aborted q)"
    by (rule turn_ok_below [OF _ assms], simp add: frame_simps)+
  with turn_ok_submit [OF assms, of env] fail sub show ?thesis
    by (simp add: continue_if_idle_def)
qed

lemma turn_ok_continuation:
  assumes "turn_ok q" and "\<And>tr. env_confirm env tr = None"
  shows "turn_ok (handle_tool_loop_continuation env q)"
proof (cases "turn q < turn_limit q")
  case False
  with assms(1) show ?thesis
    by (auto simp: handle_tool_loop_continuation_def intro: turn_ok_same simp: frame_simps async_finalize)
next
  case True
  obtain drc q1 where disp: "dispatch_pending_tools env q = (drc, q1)" by fastforce
  define q2 where "q2 = pending_reset q1"
  have t2: "turns q2 = turns q"
    using turns_dispatch_from [OF assms(2), of 0 q] disp
    by (simp add: q2_def frame_simps dispatch_pending_tools_def)
  obtain src q3 where sub: "submit_round env q2 = (src, q3)" by fastforce
  have q2: "turn_ok q2" "turn_ok (query_finalize r q2)" "turn_ok (fail_run rc t r q2)" for r rc t
    by (rule turn_ok_below [OF _ True], simp add: frame_simps t2)+
  have "turn_ok q3" if "elems (async_pending_arr q2) = []"
    using turn_ok_submit [OF _ that, of env] True turn_limit_turns [OF t2] sub by simp
  moreover have "turn_ok (fail_run src t r q3)" if "turn_ok q3" for t r
    by (rule turn_ok_same [OF that]) (simp_all add: frame_simps async_fail)
  ultimately show ?thesis
    using True q2 sub
    by (simp add: handle_tool_loop_continuation_def disp q2_def [symmetric] Let_def)
qed

lemma turn_ok_remove:
  assumes "turn_ok q" and "async_pending_remove q i = (oa, q')"
  shows "turn_ok q'" and "turns q' = turns q" and "oa \<noteq> None \<Longrightarrow> turn q < turn_limit q"
proof -
  show t: "turns q' = turns q" using turns_snd(3) [of q i] assms(2) by simp
  have "elems (async_pending_arr q) \<noteq> []" if "q' \<noteq> q \<or> oa \<noteq> None"
  proof
    assume "elems (async_pending_arr q) = []"
    with assms(2) have "(oa, q') = (None, q)" by (simp add: async_pending_remove_def)
    with that show False by simp
  qed
  with assms(1) have below: "turn q < turn_limit q" if "q' \<noteq> q \<or> oa \<noteq> None"
    using that by (simp add: turn_ok_def)
  then show "oa \<noteq> None \<Longrightarrow> turn q < turn_limit q" by simp
  from below assms(1) turn_ok_below [OF t] show "turn_ok q'" by blast
qed

lemma turn_ok_async_complete:
  assumes "turn_ok q"
  shows "turn_ok (ai_query_async_tool_complete env q i result)"
proof -
  obtain oa q1 where rem: "async_pending_remove q i = (oa, q1)" by fastforce
  note r = turn_ok_remove [OF assms rem]
  show ?thesis
  proof (cases oa)
    case None
    with r rem show ?thesis by (simp add: ai_query_async_tool_complete_def)
  next
    case (Some a)
    obtain out_text len e where res: "async_result (a_name a) result = (out_text, len, e)"
      by (cases "async_result (a_name a) result") auto
    obtain rc q2 where prod: "produce_tool_result env q1 (a_id a) out_text len e = (rc, q2)"
      by fastforce
    define q3 where "q3 = fire on_tool (Ev_on_tool (a_name a) False) q2"
    have t3: "turns q3 = turns q"
      using turns_snd(1) [of env q1 "a_id a" out_text len e] r(2) prod by (simp add: q3_def frame_simps)
    with r(3) Some turn_limit_turns [OF t3] have below: "turn q3 < turn_limit q3" by simp
    have "turn_ok (fail_run rc t re q3)" for t re
      by (rule turn_ok_below [OF _ below]) (simp add: frame_simps)
    with turn_ok_continue [OF below] show ?thesis
      by (simp add: ai_query_async_tool_complete_def rem Some res prod Let_def q3_def [symmetric])
  qed
qed

lemma turn_ok_resolve:
  assumes "turn_ok q"
  shows "turn_ok (xAgentToolConfirmResolve env h d reason q)"
proof (cases "resolvers q h")
  case None
  then show ?thesis
    using assms by (simp add: xAgentToolConfirmResolve_def)
next
  case (Some r)
  have free: "turn_ok (confirm_resolver_free h q')" if "turn_ok q'" for q'
    using that by simp
  obtain oa q1 where rem: "async_pending_remove q (r_id r) = (oa, q1)" by fastforce
  note rr = turn_ok_remove [OF assms rem]
  show ?thesis
  proof (cases oa)
    case None
    with rr rem Some free assms show ?thesis by (simp add: xAgentToolConfirmResolve_def)
  next
    case a: (Some a)
    define msg where "msg = (case reason of None \<Rightarrow> ''rejected by user''
                                | Some s \<Rightarrow> if s = '''' then ''rejected by user'' else s)"
    obtain rc2 q2 where prod: "produce_tool_result env q1 (a_id a) msg (strlen msg) 1 = (rc2, q2)"
      by fastforce
    obtain rc3 q3 where inv: "invoke_tool_inline env (confirm_resolver_free h q1) (a_tool a) (a_id a)
        (a_name a) (a_args_json a) = (rc3, q3)" by fastforce
    define q2' where "q2' = confirm_resolver_free h q2"
    have t: "turns q2' = turns q" "turns q3 = turns q"
      using turns_snd(1) [of env q1 "a_id a" msg "strlen msg" 1] prod rr(2)
        turns_invoke [of env "confirm_resolver_free h q1" "a_tool a" "a_id a" "a_name a" "a_args_json a"] inv
      by (simp_all add: q2'_def frame_simps)
    have below: "turn q2' < turn_limit q2'" "turn q3 < turn_limit q3"
      using rr(3) a turn_limit_turns [OF t(1)] turn_limit_turns [OF t(2)] by simp_all
    have "turn_ok (fail_run rc t re q2')" "turn_ok (fail_run rc t re q3)" for rc t re
      by (rule turn_ok_below [OF _ below(1)], simp add: frame_simps)
        (rule turn_ok_below [OF _ below(2)], simp add: frame_simps)
    note outs = this turn_ok_continue [OF below(1)] turn_ok_continue [OF below(2)]
    show ?thesis
      by (cases d)
        (simp_all add: xAgentToolConfirmResolve_def Let_def msg_def [symmetric] q2'_def [symmetric]
          Some a rem prod inv outs assms)
  qed
qed

lemma turn_ok_cancel_async: "turn_ok q \<Longrightarrow> turn_ok (cancel_async as q)"
proof (induction as arbitrary: q)
  case (Cons a as)
  from Cons.IH Cons.prems show ?case by simp
qed simp

lemma turn_ok_provider_done:
  assumes "turn_ok q" and "\<And>tr. env_confirm env tr = None"
  shows "turn_ok (on_provider_done env reason err u errmsg q)"
proof -
  define q2 where "q2 = (if reason = xAgentProviderStop_Error \<and> err \<noteq> xErrno_Ok
     then fire on_error (Ev_on_error err errmsg) (usage_accumulate u q) else usage_accumulate u q)"
  have async: "async_pending_arr (commit_tool_uses env ps q') = async_pending_arr q'"
    "async_pending_arr (commit_text env app b q') = async_pending_arr q'" for ps q' app b
    by (induction ps arbitrary: q') (auto simp: commit_text_def split: prod.split)
  have q2: "turns q2 = turns q" "async_pending_arr q2 = async_pending_arr q"
    by (simp_all add: q2_def frame_simps,
        simp_all add: usage_accumulate_def fire_def emit_def split: option.split)
  define q3 where "q3 = commit_assistant_turn env q2"
  have "turns q3 = turns q" using q2(1) by (simp add: q3_def frame_simps)
  moreover have "async_pending_arr q3 = async_pending_arr q"
    using q2(2) by (simp add: q3_def commit_assistant_turn_def Let_def async)
  ultimately have q3: "turn_ok q3" by (rule turn_ok_same [OF assms(1)])
  moreover have "turn_ok (query_finalize r q3)" for r
    by (rule turn_ok_same [OF q3]) (simp_all add: frame_simps async_finalize)
  ultimately show ?thesis
    using turn_ok_continuation [OF q3 assms(2)] assms(1)
    unfolding on_provider_done_def Let_def q2_def [symmetric] q3_def [symmetric] by simp
qed

lemma turn_ok_step:
  assumes "turn_ok q" and "\<And>tr. env_confirm env tr = None"
  shows "turn_ok (query_step env q inp)"
proof (cases inp)
  case In_cancel
  with assms(1) show ?thesis by (simp add: xAgentQueryCancel_def turn_ok_cancel_async)
qed (auto simp: assms turn_ok_async_complete turn_ok_resolve turn_ok_provider_done
    on_provider_text_def on_provider_thinking_def on_provider_tool_call_def
    split: xAgentContent.split intro!: turn_ok_same [OF assms(1)] simp: frame_simps,
    simp_all add: assist_append_def reasoning_append_def pending_append_def fire_def emit_def Let_def
    split: prod.split)

lemma turn_ok_run:
  "turn_ok q \<Longrightarrow> (\<And>tr. env_confirm env tr = None) \<Longrightarrow> turn_ok (query_run env q ins)"
proof (induction ins arbitrary: q)
  case (Cons i ins)
  then show ?case by (simp add: query_run_def turn_ok_step)
qed (simp add: query_run_def)

section \<open>The start of a run\<close>

lemma create_ok:
  "xAgentQueryCreate m conf = (Create_ok q, m') \<Longrightarrow> \<exists>pr m1. q = fresh_query conf pr m1"
  by (auto simp: xAgentQueryCreate_def Let_def split: option.splits if_splits prod.splits)

lemma copy_inputs_frame:
  "copy_inputs env ms q = (rc, q') \<Longrightarrow> \<exists>a m. q' = q\<lparr>inputs_arr := a, q_mem := m\<rparr>"
proof (induction ms arbitrary: q)
  case Nil
  then have "q' = q\<lparr>inputs_arr := inputs_arr q, q_mem := q_mem q\<rparr>" by simp
  then show ?case by blast
next
  case (Cons msg ms)
  obtain rc1 a m where app: "turn_buf_append_message (q_mem q) (env_now env (trace q)) (inputs_arr q) msg
      = (rc1, a, m)" by (metis prod_cases3)
  show ?case
  proof (cases "rc1 = xErrno_Ok")
    case True
    with Cons.prems app have "copy_inputs env ms (q\<lparr>inputs_arr := a, q_mem := m\<rparr>) = (rc, q')" by simp
    from Cons.IH [OF this] show ?thesis by auto
  next
    case False
    with Cons.prems app have "q' = q\<lparr>inputs_arr := xArrayReset a, q_mem := m\<rparr>" by simp
    then show ?thesis by blast
  qed
qed

text \<open>After the start the single \<^verbatim>\<open>on_done\<close> is still due, or the start has failed.\<close>

lemma run_done_budget:
  assumes "xAgentQueryCreate m conf = (Create_ok q, m')" and "xAgentQueryRun env msgs q = (rc, q1)"
  shows "n_done (trace q1) + of_bool (running q1) \<le> (1::nat)"
proof -
  obtain pr m1 where q: "q = fresh_query conf pr m1" using create_ok [OF assms(1)] by blast
  obtain rc1 q2 where c: "copy_inputs env msgs q = (rc1, q2)" by fastforce
  obtain rc2 q3 where s: "submit_round env (q2\<lparr>running := True\<rparr>) = (rc2, q3)" by fastforce
  from copy_inputs_frame [OF c] have q2: "trace q2 = []" "\<not> running q2"
    by (auto simp: q fresh_query_def)
  from extends_submit [of "q2\<lparr>running := True\<rparr>" env] s q2 have "n_done (trace q3) + of_bool (running q3) \<le> 1"
    by (auto simp: extends_def)
  with assms(2) c s q2 show ?thesis
    by (auto simp: xAgentQueryRun_def q fresh_query_def split: if_splits)
qed

lemma run_turn_ok:
  assumes "xAgentQueryCreate m conf = (Create_ok q, m')" and "xAgentQueryRun env msgs q = (xErrno_Ok, q1)"
  shows "turn_ok q1" and "turn q1 = int (n_submit (trace q1))" and "q_max_turns q1 = qc_max_turns conf"
proof -
  obtain pr m1 where q: "q = fresh_query conf pr m1" using create_ok [OF assms(1)] by blast
  obtain rc1 q2 where c: "copy_inputs env msgs q = (rc1, q2)" by fastforce
  obtain rc2 q3 where s: "submit_round env (q2\<lparr>running := True\<rparr>) = (rc2, q3)" by fastforce
  from assms(2) c s have q1: "q1 = q3" by (auto simp: xAgentQueryRun_def split: if_splits)
  from copy_inputs_frame [OF c] have q2: "trace q2 = []" "turn q2 = 0" "elems (async_pending_arr q2) = []"
    "q_max_turns q2 = qc_max_turns conf"
    by (auto simp: q fresh_query_def)
  have "turn (q2\<lparr>running := True\<rparr>) < turn_limit (q2\<lparr>running := True\<rparr>)"
    using q2(2) by (simp add: turn_limit_def XAGENT_SESSION_DEFAULT_MAX_TURNS_def)
  from turn_ok_submit [OF this, of env] s q2(3) show "turn_ok q1" by (simp add: q1)
  show "turn q1 = int (n_submit (trace q1))" and "q_max_turns q1 = qc_max_turns conf"
    using extends_submit [of "q2\<lparr>running := True\<rparr>" env] s q2 by (auto simp: extends_def same_conf_def q1)
qed

end
