(* ===== verification/QueryBalance.thy ===== *)
theory QueryBalance
  imports QueryLoop "HOL-Library.Multiset"
begin

text \<open>
  The protocol invariant of \<^verbatim>\<open>query.c\<close>: while a run is in progress, every tool call the model has
  made is either answered by a tool result of the same id or recorded as outstanding. It is an
  accounting of multisets of ids (\<open>gap\<close>), shown for each operation and then for every reachable
  state of a run in which no allocation fails, the host answers confirmations later, and the
  provider reports a round only while one is in progress.
\<close>

section \<open>Accounting of calls and answers\<close>

definition is_use :: "xAgentSessionMsg \<Rightarrow> bool" where
  "is_use e \<longleftrightarrow> m_role e = xAgentRole_Assistant \<and> m_kind e = xAgentSessionEntry_ToolUse"

definition is_result :: "xAgentSessionMsg \<Rightarrow> bool" where
  "is_result e \<longleftrightarrow> m_role e = xAgentRole_Tool \<and> m_kind e = xAgentSessionEntry_ToolResult"

definition use_ids :: "xAgentSessionMsg list \<Rightarrow> string multiset" where
  "use_ids es = mset (map (or_empty \<circ> m_tool_use_id) (filter is_use es))"

definition result_ids :: "xAgentSessionMsg list \<Rightarrow> string multiset" where
  "result_ids es = mset (map (or_empty \<circ> m_tool_result_id) (filter is_result es))"

lemma use_ids_append [simp]: "use_ids (xs @ ys) = use_ids xs + use_ids ys"
  by (simp add: use_ids_def)

lemma result_ids_append [simp]: "result_ids (xs @ ys) = result_ids xs + result_ids ys"
  by (simp add: result_ids_def)

text \<open>The entries the appends build.\<close>

lemma ids_text [simp]:
  "use_ids [text_entry now r t n] = {#}" "result_ids [text_entry now r t n] = {#}"
  by (simp_all add: use_ids_def result_ids_def is_use_def is_result_def text_entry_def)

lemma ids_thinking [simp]:
  "use_ids [thinking_entry now t n] = {#}" "result_ids [thinking_entry now t n] = {#}"
  by (simp_all add: use_ids_def result_ids_def is_use_def is_result_def thinking_entry_def)

lemma ids_tool_use [simp]:
  "use_ids [tool_use_entry now (Some i) n g] = {# cstr i #}"
  "result_ids [tool_use_entry now i' n g] = {#}"
  by (simp_all add: use_ids_def result_ids_def is_use_def is_result_def tool_use_entry_def or_empty_def)

lemma ids_tool_result [simp]:
  "use_ids [tool_result_entry now i' out n e] = {#}"
  "result_ids [tool_result_entry now (Some i) out n e] = {# cstr i #}"
  by (simp_all add: use_ids_def result_ids_def is_use_def is_result_def tool_result_entry_def or_empty_def)

text \<open>The same accounting on the messages a provider receives.\<close>

fun call_id :: "xAgentContent \<Rightarrow> string list" where
  "call_id (xAgentContent_ToolUse i n g) = [or_empty i]"
| "call_id _ = []"

fun answer_id :: "xAgentContent \<Rightarrow> string list" where
  "answer_id (xAgentContent_ToolResult i out n e) = [or_empty i]"
| "answer_id _ = []"

definition call_ids :: "xAgentMessage list \<Rightarrow> string list" where
  "call_ids msgs = concat (map call_id (concat (map contents (filter (\<lambda>m. role m = xAgentRole_Assistant) msgs))))"

definition answer_ids :: "xAgentMessage list \<Rightarrow> string list" where
  "answer_ids msgs = concat (map answer_id (concat (map contents (filter (\<lambda>m. role m = xAgentRole_Tool) msgs))))"

text \<open>Every call in the messages has an answer, and every answer a call.\<close>

definition all_answered :: "xAgentMessage list \<Rightarrow> bool" where
  "all_answered msgs \<longleftrightarrow> mset (call_ids msgs) = mset (answer_ids msgs)"

lemma call_id_block: "is_assistant e \<Longrightarrow> mset (call_id (assistant_block e)) = use_ids [e]"
  by (auto simp: assistant_block_def use_ids_def is_use_def or_empty_def
      split: xAgentSessionEntryKind.splits option.splits)

lemma call_ids_run:
  "\<forall>e \<in> set es. is_assistant e \<Longrightarrow>
   mset (concat (map call_id (map assistant_block es))) = use_ids es"
proof (induction es)
  case Nil
  then show ?case by (simp add: use_ids_def)
next
  case (Cons e es)
  then show ?case using call_id_block [of e] use_ids_append [of "[e]" es] by simp
qed

lemma use_ids_other: "\<not> is_assistant e \<Longrightarrow> use_ids (e # es) = use_ids es"
  by (simp add: use_ids_def is_use_def)

lemma result_ids_run: "\<forall>e \<in> set es. is_assistant e \<Longrightarrow> result_ids es = {#}"
  by (induction es) (auto simp: result_ids_def is_result_def)

lemma takeWhile_assistant: "\<forall>e \<in> set (takeWhile is_assistant es). is_assistant e"
  by (auto dest: set_takeWhileD)

lemma use_ids_split: "use_ids es = use_ids (takeWhile is_assistant es) + use_ids (dropWhile is_assistant es)"
  using use_ids_append [of "takeWhile is_assistant es" "dropWhile is_assistant es"] by simp

lemma result_ids_split: "result_ids es = result_ids (dropWhile is_assistant es)"
  using result_ids_append [of "takeWhile is_assistant es" "dropWhile is_assistant es"]
    result_ids_run [OF takeWhile_assistant, of es] by simp

lemma call_ids_fold: "mset (call_ids (fold_entries es)) = use_ids es"
proof (induction es rule: fold_entries.induct)
  case 1
  then show ?case by (simp add: call_ids_def use_ids_def)
next
  case (2 e es)
  show ?case
  proof (cases "is_assistant e")
    case True
    have "mset (call_ids (fold_entries (e # es)))
        = mset (concat (map call_id (map assistant_block (takeWhile is_assistant (e # es)))))
          + mset (call_ids (fold_entries (dropWhile is_assistant es)))"
      using True by (simp add: call_ids_def)
    also have "\<dots> = use_ids (takeWhile is_assistant (e # es)) + use_ids (dropWhile is_assistant es)"
      by (simp only: 2(1) [OF True] call_ids_run [OF takeWhile_assistant])
    also have "\<dots> = use_ids (e # es)" using True use_ids_split [of "e # es"] by simp
    finally show ?thesis .
  next
    case False
    with 2(2) show ?thesis by (simp add: call_ids_def use_ids_other)
  qed
qed

lemma answer_ids_fold: "mset (answer_ids (fold_entries es)) = result_ids es"
proof (induction es rule: fold_entries.induct)
  case 1
  then show ?case by (simp add: answer_ids_def result_ids_def)
next
  case (2 e es)
  show ?case
  proof (cases "is_assistant e")
    case True
    have "answer_ids (fold_entries (e # es)) = answer_ids (fold_entries (dropWhile is_assistant es))"
      using True by (simp add: answer_ids_def)
    with 2(1) [OF True] True show ?thesis using result_ids_split [of "e # es"] by simp
  next
    case False
    with 2(2) show ?thesis
      by (auto simp: answer_ids_def result_ids_def is_result_def other_block_def or_empty_def
          split: xAgentSessionEntryKind.splits option.splits)
  qed
qed

section \<open>Appends that cannot fail\<close>

lemma push_none: "\<exists>a'. xArrayPush [] a x = (True, a', []) \<and> elems a' = elems a @ [x]"
  by (auto simp: xArrayPush_def arr_grow_def Let_def)

lemma dup_none [simp]: "dup_cstr [] (Some s) = (Some (cstr s), [])"
  by (simp add: dup_cstr_def dup_bytes_def cstr_def)

lemma dup_bytes_none [simp]: "dup_bytes [] (Some s) n = (Some (take n s), [])"
  by (simp add: dup_bytes_def)

lemma tool_result_none:
  "\<exists>a'. turn_buf_append_tool_result [] now a (Some i) (Some out) len e = (xErrno_Ok, a', []) \<and>
     elems a' = elems a @ [tool_result_entry now (Some i) (Some out) len e]"
proof -
  obtain a' where push: "msg_push [] now a = (True, a', [])" using msg_push_none by blast
  have "fst (turn_buf_append_tool_result [] now a (Some i) (Some out) len e) = xErrno_Ok
      \<and> snd (snd (turn_buf_append_tool_result [] now a (Some i) (Some out) len e)) = []"
    by (simp add: turn_buf_append_tool_result_def push dup_output_def Let_def)
  with grows_append_tool_result [of a "[]" now "Some i" "Some out" len e] show ?thesis
    by (cases "turn_buf_append_tool_result [] now a (Some i) (Some out) len e")
      (auto simp: grows_def)
qed

lemma tool_use_none:
  "\<exists>a'. turn_buf_append_tool_use [] now a (Some i) (Some n) (Some g) = (xErrno_Ok, a', []) \<and>
     elems a' = elems a @ [tool_use_entry now (Some i) (Some n) (Some g)]"
proof -
  obtain a' where push: "msg_push [] now a = (True, a', [])" using msg_push_none by blast
  have "fst (turn_buf_append_tool_use [] now a (Some i) (Some n) (Some g)) = xErrno_Ok
      \<and> snd (snd (turn_buf_append_tool_use [] now a (Some i) (Some n) (Some g))) = []"
    by (simp add: turn_buf_append_tool_use_def push Let_def)
  with grows_append_tool_use [of a "[]" now "Some i" "Some n" "Some g"] show ?thesis
    by (cases "turn_buf_append_tool_use [] now a (Some i) (Some n) (Some g)")
      (auto simp: grows_def)
qed

lemma text_none:
  "\<exists>a'. turn_buf_append_text [] now a r (Some t) len = (xErrno_Ok, a', []) \<and>
     elems a' = elems a @ [text_entry now r (Some t) len]"
proof -
  obtain a' where push: "msg_push [] now a = (True, a', [])" using msg_push_none by blast
  have "fst (turn_buf_append_text [] now a r (Some t) len) = xErrno_Ok
      \<and> snd (snd (turn_buf_append_text [] now a r (Some t) len)) = []"
    by (simp add: turn_buf_append_text_def push Let_def)
  with grows_append_text [of a "[]" now r "Some t" len] show ?thesis
    by (cases "turn_buf_append_text [] now a r (Some t) len") (auto simp: grows_def)
qed

lemma thinking_none:
  "\<exists>a'. turn_buf_append_thinking [] now a (Some t) len = (xErrno_Ok, a', []) \<and>
     elems a' = elems a @ [thinking_entry now (Some t) len]"
proof -
  obtain a' where push: "msg_push [] now a = (True, a', [])" using msg_push_none by blast
  have "fst (turn_buf_append_thinking [] now a (Some t) len) = xErrno_Ok
      \<and> snd (snd (turn_buf_append_thinking [] now a (Some t) len)) = []"
    by (simp add: turn_buf_append_thinking_def push Let_def)
  with grows_append_thinking [of a "[]" now "Some t" len] show ?thesis
    by (cases "turn_buf_append_thinking [] now a (Some t) len") (auto simp: grows_def)
qed

section \<open>The gap between calls and answers\<close>

definition all_entries :: "xAgentQuery \<Rightarrow> xAgentSessionMsg list" where
  "all_entries q = elems (inputs_arr q) @ elems (produced_arr q)"

definition open_ids :: "xAgentQuery \<Rightarrow> string multiset" where
  "open_ids q = mset (map a_id (elems (async_pending_arr q)))"

text \<open>Ids are C strings, and no allocation fails.\<close>

definition clean :: "xAgentQuery \<Rightarrow> bool" where
  "clean q \<longleftrightarrow> q_mem q = [] \<and> (\<forall>p \<in> set (elems (pending_arr q)). cstr (p_id p) = p_id p) \<and>
     (\<forall>a \<in> set (elems (async_pending_arr q)). cstr (a_id a) = a_id a)"

text \<open>\<open>gap ids q\<close>: the calls \<open>ids\<close> are neither answered nor outstanding yet, every other call is.\<close>

definition gap :: "string multiset \<Rightarrow> xAgentQuery \<Rightarrow> bool" where
  "gap ids q \<longleftrightarrow> clean q \<and> use_ids (all_entries q) = result_ids (all_entries q) + open_ids q + ids"

text \<open>What no step of a dispatch touches.\<close>

definition submits :: "xAgentQuery \<Rightarrow> qevent list" where
  "submits q = filter is_submit (trace q)"

definition same_run :: "xAgentQuery \<Rightarrow> xAgentQuery \<Rightarrow> bool" where
  "same_run q q' \<longleftrightarrow> running q' = running q \<and> cancelled q' = cancelled q \<and> turn q' = turn q
     \<and> q_max_turns q' = q_max_turns q \<and> pending_arr q' = pending_arr q \<and> submits q' = submits q
     \<and> q_tools q' = q_tools q \<and> q_cbs q' = q_cbs q"

lemma same_run_refl [intro, simp]: "same_run q q"
  by (simp add: same_run_def)

lemma same_run_trans [trans]: "same_run a b \<Longrightarrow> same_run b c \<Longrightarrow> same_run a c"
  by (simp add: same_run_def)

lemmas gap_defs = gap_def clean_def all_entries_def open_ids_def

lemma gap_emit [simp]: "gap ids (emit ev q) = gap ids q"
  by (simp add: gap_defs emit_def)

lemma gap_fire [simp]: "gap ids (fire cb ev q) = gap ids q"
  by (simp add: fire_def)

lemma gap_mem: "gap ids q \<Longrightarrow> q_mem q = []"
  by (simp add: gap_defs)

lemma same_run_emit: "\<not> is_submit ev \<Longrightarrow> same_run q (emit ev q)"
  by (simp add: same_run_def emit_def submits_def)

lemma same_run_fire: "\<not> is_submit ev \<Longrightarrow> same_run q (fire cb ev q)"
  by (simp add: fire_def same_run_emit)

lemma gap_produce:
  assumes "gap (add_mset i ids) q" and "cstr i = i"
    and "produce_tool_result env q i out len e = (rc, q')"
  shows "rc = xErrno_Ok \<and> gap ids q' \<and> same_run q q' \<and> async_pending_arr q' = async_pending_arr q"
proof -
  obtain a' where a': "turn_buf_append_tool_result [] (env_now env (trace q)) (produced_arr q)
      (Some i) (Some out) len e = (xErrno_Ok, a', [])"
    "elems a' = elems (produced_arr q)
      @ [tool_result_entry (env_now env (trace q)) (Some i) (Some out) len e]"
    using tool_result_none by blast
  with assms gap_mem [OF assms(1)] have q': "rc = xErrno_Ok" "q' = q\<lparr>produced_arr := a', q_mem := []\<rparr>"
    by (simp_all add: produce_tool_result_def)
  have "gap ids q'"
    using assms(1,2) a'(2) by (simp add: q' gap_defs)
  then show ?thesis by (simp add: q' same_run_def submits_def)
qed

lemma gap_async_push:
  assumes "gap (add_mset i ids) q" and "cstr i = i" and "async_push q t i n g st = (ok, q')"
  shows "ok \<and> gap ids q' \<and> same_run q q'"
proof -
  define x where "x = \<lparr>a_tool = t, a_id = '''', a_name = '''', a_args_json = '''', a_stage = st,
    a_resolver = None\<rparr>"
  obtain a1 where push: "xArrayPush [] (async_pending_arr q) x = (True, a1, [])"
    "elems a1 = elems (async_pending_arr q) @ [x]"
    using push_none [of "async_pending_arr q" x] by auto
  define q2 where "q2 = q\<lparr>async_pending_arr := set_slot a1
       \<lparr>a_tool = t, a_id = i, a_name = cstr n, a_args_json = cstr g, a_stage = st, a_resolver = None\<rparr>,
       q_mem := []\<rparr>"
  have "async_push q t i n g st = (True, q2)"
    unfolding async_push_def gap_mem [OF assms(1)] x_def [symmetric] push(1) q2_def
    by (simp add: assms(2))
  with assms(3) have q': "ok" "q' = q2" by simp_all
  have "gap ids q'"
    using assms(1,2) push(2) unfolding gap_defs q'(2) q2_def by (simp add: set_slot_def)
  then show ?thesis using q' by (simp add: q2_def same_run_def submits_def)
qed

lemma gap_invoke:
  assumes "gap (add_mset i ids) q" and "cstr i = i" and "invoke_tool_inline env q t i n g = (rc, q')"
  shows "rc = xErrno_Ok \<and> gap ids q' \<and> same_run q q'"
proof -
  define q1 where "q1 = emit (Ev_invoke n i g) (fire on_tool (Ev_on_tool n True) q)"
  have q1: "gap (add_mset i ids) q1" "same_run q q1"
    using assms(1) same_run_trans [OF same_run_fire same_run_emit] by (simp_all add: q1_def)
  obtain trc out where inv: "env_invoke env (trace q1) n i g = (trc, out)" by fastforce
  obtain out_text len e where res: "tool_output trc out = (out_text, len, e)"
    by (cases "tool_output trc out") auto
  obtain ok q2 where push: "async_push q1 t i n g XAGENT_ASYNC_STAGE_RUNNING = (ok, q2)" by fastforce
  obtain rc3 q3 where prod: "produce_tool_result env q1 i out_text len e = (rc3, q3)" by fastforce
  note parts = gap_async_push [OF q1(1) assms(2) push] gap_produce [OF q1(1) assms(2) prod]
  have "same_run q (fire on_tool (Ev_on_tool n False) q3)"
    using parts(2) by (intro same_run_trans [OF q1(2) same_run_trans [OF _ same_run_fire]]) simp_all
  with parts assms(3) q1(2) show ?thesis
    by (auto simp: invoke_tool_inline_def q1_def [symmetric] inv res push prod
        intro: same_run_trans split: if_splits)
qed

lemma gap_remove:
  assumes "gap ids q" and "async_pending_remove q i = (oa, q')"
  shows "same_run q q' \<and>
    (case oa of
       None \<Rightarrow> q' = q
     | Some a \<Rightarrow> gap (add_mset (a_id a) ids) q' \<and> cstr (a_id a) = a_id a \<and>
         elems (async_pending_arr q) \<noteq> [])"
proof (cases "arr_find_from (\<lambda>a. a_id a = i) 0 (elems (async_pending_arr q))")
  case None
  with assms show ?thesis by (simp add: async_pending_remove_def)
next
  case (Some k)
  define as where "as = elems (async_pending_arr q)"
  from arr_find_from_Some [OF Some] have k: "k < length as" by (simp add: as_def)
  define q1 where "q1 = q\<lparr>async_pending_arr := snd (xArrayRemoveRange (async_pending_arr q) k 1),
    q_mem := []\<rparr>"
  have q': "oa = Some (as ! k)" "q' = q1"
    using assms Some gap_mem [OF assms(1)] by (simp_all add: async_pending_remove_def as_def q1_def)
  have rest: "elems (async_pending_arr q1) = take k as @ drop (Suc k) as"
    using xArrayRemoveRange_one [of k "async_pending_arr q"] k by (simp add: q1_def as_def)
  have split: "as = take k as @ as ! k # drop (Suc k) as"
    using k by (rule id_take_nth_drop)
  have "open_ids q = add_mset (a_id (as ! k)) (open_ids q1)"
    unfolding open_ids_def rest as_def [symmetric] by (subst split) simp
  moreover have "clean q1"
    using assms(1) set_take_subset [of k as] set_drop_subset [of "Suc k" as] rest
    by (auto simp: gap_def clean_def as_def q1_def)
  moreover have "all_entries q1 = all_entries q" by (simp add: all_entries_def q1_def)
  ultimately have "gap (add_mset (a_id (as ! k)) ids) q1"
    using assms(1) by (simp add: gap_def)
  moreover have "cstr (a_id (as ! k)) = a_id (as ! k)"
    using assms(1) k by (auto simp: gap_def clean_def as_def)
  moreover have "same_run q q1" by (simp add: q1_def same_run_def submits_def)
  ultimately show ?thesis using k by (auto simp: q' as_def)
qed

section \<open>Dispatch\<close>

lemma gap_register:
  assumes "gap (add_mset i ids) q" and "cstr i = i"
    and "register_confirm_pending q t i n g = (oh, q')"
  shows "oh \<noteq> None \<and> gap ids q' \<and> same_run q q'"
proof -
  obtain ok q1 where push: "async_push q t i n g XAGENT_ASYNC_STAGE_AWAITING_CONFIRM = (ok, q1)"
    by fastforce
  note q1 = gap_async_push [OF assms(1,2) push]
  define q2 where "q2 = q1\<lparr>q_mem := [],
      resolvers := (resolvers q1)(next_resolver q1 \<mapsto> \<lparr>r_live = True, r_id = i, r_done = False\<rparr>),
      next_resolver := Suc (next_resolver q1)\<rparr>"
  have "confirm_resolver_new q1 i = (Some (next_resolver q1), q2)"
    using q1 gap_mem [of ids q1] assms(2) by (simp add: confirm_resolver_new_def q2_def)
  then have q': "oh = Some (next_resolver q1)" "q' = q2\<lparr>async_pending_arr := set_slot (async_pending_arr q2)
       ((last (elems (async_pending_arr q2)))\<lparr>a_resolver := Some (next_resolver q1)\<rparr>)\<rparr>"
    using assms(3) push q1 unfolding register_confirm_pending_def by auto
  define as where "as = elems (async_pending_arr q1)"
  have "as \<noteq> []"
    using assms(3) push q1
    by (auto simp: async_push_def as_def set_slot_def Let_def split: prod.splits if_splits)
  then have as: "as = butlast as @ [last as]" by simp
  then have "mset (map a_id as) = mset (map a_id (butlast as @ [last as]))" by simp
  then have "mset (map a_id as) = mset (map a_id (butlast as)) + {# a_id (last as) #}" by simp
  moreover have "\<forall>a \<in> set (butlast as). cstr (a_id a) = a_id a" "cstr (a_id (last as)) = a_id (last as)"
    using q1 \<open>as \<noteq> []\<close> by (auto simp: gap_def clean_def as_def dest: in_set_butlastD)
  ultimately have "gap ids q'"
    using q1 unfolding gap_defs q' q2_def as_def by (simp add: set_slot_def)
  moreover have "same_run q q'"
    using q1 by (simp add: q' q2_def same_run_def submits_def)
  ultimately show ?thesis by (simp add: q')
qed

lemma gap_dispatch_one:
  assumes "gap (add_mset (p_id p) ids) q" and "cstr (p_id p) = p_id p"
    and "\<And>tr. env_confirm env tr = None" and "dispatch_one env q p = (rc, q')"
  shows "rc = xErrno_Ok \<and> gap ids q' \<and> same_run q q'"
proof (cases "find_tool (q_tools q) (p_name p)")
  case None
  then show ?thesis
    using assms gap_produce [OF assms(1,2)] by (auto simp: dispatch_one_def append_tool_error_def)
next
  case (Some t)
  obtain oh q1 where reg:
    "register_confirm_pending q t (p_id p) (p_name p) (p_args_json p) = (oh, q1)" by fastforce
  note parts = gap_register [OF assms(1,2) reg]
  have "same_run q (emit (Ev_on_tool_confirm a b c d) q1)" for a b c d
    by (rule same_run_trans [OF _ same_run_emit]) (simp_all add: parts)
  with Some reg parts assms(3,4) gap_invoke [OF assms(1,2)] show ?thesis
    by (auto simp: dispatch_one_def Let_def split: if_splits)
qed

lemma gap_dispatch_from:
  "gap (mset (map p_id (drop i (elems (pending_arr q))))) q \<Longrightarrow> \<not> cancelled q \<Longrightarrow>
   (\<And>tr. env_confirm env tr = None) \<Longrightarrow> dispatch_from env i q = (rc, q') \<Longrightarrow>
   rc = xErrno_Ok \<and> gap {#} q' \<and> same_run q q'"
proof (induction env i q rule: dispatch_from.induct)
  case (1 env i q)
  show ?case
  proof (cases "i < length (elems (pending_arr q))")
    case False
    with 1(2,3,5) show ?thesis by (simp add: dispatch_from.simps [of env i q])
  next
    case True
    define p where "p = elems (pending_arr q) ! i"
    obtain rc1 q1 where d: "dispatch_one env q p = (rc1, q1)" by fastforce
    have "drop i (elems (pending_arr q)) = p # drop (Suc i) (elems (pending_arr q))"
      using True by (simp add: p_def Cons_nth_drop_Suc)
    with 1(2) have g: "gap (add_mset (p_id p) (mset (map p_id (drop (Suc i) (elems (pending_arr q)))))) q"
      by simp
    have "cstr (p_id p) = p_id p"
      using 1(2) True by (auto simp: gap_def clean_def p_def)
    note one = gap_dispatch_one [OF g this 1(4) d]
    then have "pending_arr q1 = pending_arr q" "cancelled q1 = cancelled q"
      by (simp_all add: same_run_def)
    with one 1 True d have "rc = xErrno_Ok \<and> gap {#} q' \<and> same_run q1 q'"
      by (simp add: dispatch_from.simps [of env i q] p_def)
    with one show ?thesis by (blast intro: same_run_trans)
  qed
qed

section \<open>Submitting, committing, continuing\<close>

text \<open>The submits of a query carry only answered calls.\<close>

fun submit_ok :: "qevent \<Rightarrow> bool" where
  "submit_ok (Ev_submit msgs) = all_answered msgs"
| "submit_ok _ = True"

text \<open>
  The invariant between two inputs: nothing is outstanding once the run is over, during the run
  no call besides the outstanding ones is unanswered, and every submit so far was answered.
\<close>

definition sound :: "xAgentQuery \<Rightarrow> bool" where
  "sound q \<longleftrightarrow> clean q \<and> (running q \<longrightarrow> gap {#} q) \<and>
     (\<not> running q \<longrightarrow> elems (async_pending_arr q) = []) \<and> list_all submit_ok (submits q)"

lemma soundI_idle:
  assumes "clean q" and "\<not> running q" and "elems (async_pending_arr q) = []"
    and "list_all submit_ok (submits q)"
  shows "sound q"
  using assms by (simp add: sound_def)

lemma finalize_frame:
  "async_pending_arr (query_finalize r q) = async_pending_arr q"
  "submits (query_finalize r q) = submits q" "clean (query_finalize r q) = clean q"
  "\<not> running (query_finalize r q)"
  by (simp_all add: query_finalize_def fire_def emit_def submits_def clean_def)

lemma fail_frame:
  "async_pending_arr (fail_run rc t r q) = async_pending_arr q"
  "submits (fail_run rc t r q) = submits q" "clean (fail_run rc t r q) = clean q"
  "\<not> running (fail_run rc t r q)"
  by (simp_all add: fail_run_def finalize_frame, simp_all add: fire_def emit_def submits_def clean_def)

lemma sound_finalize:
  assumes "clean q" and "elems (async_pending_arr q) = []" and "list_all submit_ok (submits q)"
  shows "sound (query_finalize r q)" and "sound (fail_run rc t r q)"
  using assms by (auto intro!: soundI_idle simp: finalize_frame fail_frame)

lemma submit_sound:
  assumes "gap {#} q" and "elems (async_pending_arr q) = []" and "list_all submit_ok (submits q)"
    and "submit_round env q = (rc, q')"
  shows "gap {#} q'" and "elems (async_pending_arr q') = []" and "list_all submit_ok (submits q')"
    and "running q' = running q" and "cancelled q' = cancelled q"
proof -
  define es where "es = all_entries q"
  have bal: "use_ids es = result_ids es"
    using assms(1,2) by (simp add: gap_def open_ids_def es_def)
  have q': "q' = (if es = [] then q\<lparr>q_mem := []\<rparr>
     else emit (Ev_submit (fold_entries es))
       (q\<lparr>q_mem := [], assist := map_option (\<lambda>_. '''') (assist q),
          reasoning := map_option (\<lambda>_. '''') (reasoning q),
          pending_arr := xArrayReset (pending_arr q), turn := turn q + 1\<rparr>))"
    using assms(4) gap_mem [OF assms(1)]
    by (auto simp: submit_round_def view_build_def es_def all_entries_def pending_reset_def
        reasoning_reset_def assist_reset_def Let_def split: if_splits)
  show "gap {#} q'"
    using assms(1) unfolding q' by (auto simp: gap_defs xArrayReset_def emit_def)
  show "elems (async_pending_arr q') = []" using assms(2) by (simp add: q' emit_def)
  have "all_answered (fold_entries es)"
    by (simp add: all_answered_def call_ids_fold answer_ids_fold bal)
  then show "list_all submit_ok (submits q')" using assms(3) by (simp add: q' submits_def emit_def)
  show "running q' = running q" and "cancelled q' = cancelled q" by (simp_all add: q' emit_def)
qed

lemma sound_of_gap:
  assumes "gap {#} q" and "elems (async_pending_arr q) = []" and "list_all submit_ok (submits q)"
  shows "sound q"
  using assms by (simp add: sound_def gap_def)

lemma sound_continue:
  assumes "gap {#} q" and "running q" and "list_all submit_ok (submits q)"
  shows "sound (continue_if_idle env t q)"
proof (cases "elems (async_pending_arr q) = [] \<and> \<not> cancelled q")
  case True
  obtain rc q' where sub: "submit_round env q = (rc, q')" by fastforce
  note parts = submit_sound [OF assms(1) conjunct1 [OF True] assms(3) sub]
  then have "sound q'" by (simp add: sound_of_gap)
  moreover have "sound (fail_run rc t xAgentDoneReason_ModelError q')"
    using parts True by (intro sound_finalize) (simp_all add: gap_def)
  ultimately show ?thesis using True by (simp add: continue_if_idle_def sub)
next
  case False
  then show ?thesis
    using assms sound_finalize [of q]
    by (auto simp: continue_if_idle_def sound_def gap_def)
qed

text \<open>The commit of a round makes its pending calls unanswered.\<close>

lemma gap_commit_tool_uses:
  "gap ids q \<Longrightarrow> \<forall>p \<in> set ps. cstr (p_id p) = p_id p \<Longrightarrow>
   gap (ids + mset (map p_id ps)) (commit_tool_uses env ps q) \<and>
   same_run q (commit_tool_uses env ps q) \<and>
   async_pending_arr (commit_tool_uses env ps q) = async_pending_arr q"
proof (induction ps arbitrary: q ids)
  case Nil
  then show ?case by simp
next
  case (Cons p ps)
  obtain a' where a': "turn_buf_append_tool_use [] (env_now env (trace q)) (produced_arr q)
      (Some (p_id p)) (Some (p_name p)) (Some (p_args_json p)) = (xErrno_Ok, a', [])"
    "elems a' = elems (produced_arr q)
      @ [tool_use_entry (env_now env (trace q)) (Some (p_id p)) (Some (p_name p)) (Some (p_args_json p))]"
    using tool_use_none by blast
  define q1 where "q1 = q\<lparr>produced_arr := a', q_mem := []\<rparr>"
  have "gap (add_mset (p_id p) ids) q1"
    using Cons.prems a'(2) unfolding gap_defs q1_def by simp
  from Cons.IH [OF this] Cons.prems(2) have "gap (ids + mset (map p_id (p # ps))) (commit_tool_uses env ps q1)
      \<and> same_run q1 (commit_tool_uses env ps q1)
      \<and> async_pending_arr (commit_tool_uses env ps q1) = async_pending_arr q1"
    by simp
  moreover have "same_run q q1" by (simp add: q1_def same_run_def submits_def)
  ultimately show ?case
    using a'(1) gap_mem [OF Cons.prems(1)] by (auto simp: q1_def intro: same_run_trans)
qed

lemma gap_commit_text:
  assumes "\<And>now a t n. \<exists>a' e. app [] now a (Some t) n = (xErrno_Ok, a', []) \<and>
      elems a' = elems a @ [e] \<and> use_ids [e] = {#} \<and> result_ids [e] = {#}"
    and "gap ids q"
  shows "gap ids (commit_text env app b q) \<and> same_run q (commit_text env app b q) \<and>
    async_pending_arr (commit_text env app b q) = async_pending_arr q"
proof (cases "or_empty b = ''''")
  case True
  with assms(2) show ?thesis by (simp add: commit_text_def)
next
  case False
  then obtain t where b: "b = Some t" by (cases b) (auto simp: or_empty_def)
  obtain a' e where a': "app [] (env_now env (trace q)) (produced_arr q) (Some t) (length t) = (xErrno_Ok, a', [])"
    "elems a' = elems (produced_arr q) @ [e]" "use_ids [e] = {#}" "result_ids [e] = {#}"
    using assms(1) by blast
  have "commit_text env app b q = q\<lparr>produced_arr := a', q_mem := []\<rparr>"
    using False gap_mem [OF assms(2)] a'(1) by (simp add: commit_text_def b or_empty_def)
  moreover have "gap ids (q\<lparr>produced_arr := a', q_mem := []\<rparr>)"
    using assms(2) a'(2-) unfolding gap_defs by simp
  ultimately show ?thesis by (simp add: same_run_def submits_def)
qed

lemma gap_commit:
  assumes "gap {#} q"
  shows "gap (mset (map p_id (elems (pending_arr q)))) (commit_assistant_turn env q) \<and>
    same_run q (commit_assistant_turn env q) \<and>
    async_pending_arr (commit_assistant_turn env q) = async_pending_arr q"
proof -
  define q1 where "q1 = commit_text env turn_buf_append_thinking (reasoning q) q"
  define q2 where "q2 = commit_text env (\<lambda>m now a. turn_buf_append_text m now a xAgentRole_Assistant)
    (assist q1) q1"
  have q1: "gap {#} q1 \<and> same_run q q1 \<and> async_pending_arr q1 = async_pending_arr q"
    unfolding q1_def
  proof (rule gap_commit_text [OF _ assms])
    show "\<exists>a' e. turn_buf_append_thinking [] now a (Some t) n = (xErrno_Ok, a', []) \<and>
      elems a' = elems a @ [e] \<and> use_ids [e] = {#} \<and> result_ids [e] = {#}" for now a t n
      using thinking_none [of now a t n] ids_thinking by blast
  qed
  have q2: "gap {#} q2 \<and> same_run q1 q2 \<and> async_pending_arr q2 = async_pending_arr q1"
    unfolding q2_def
  proof (rule gap_commit_text [OF _ conjunct1 [OF q1]])
    show "\<exists>a' e. turn_buf_append_text [] now a xAgentRole_Assistant (Some t) n = (xErrno_Ok, a', []) \<and>
      elems a' = elems a @ [e] \<and> use_ids [e] = {#} \<and> result_ids [e] = {#}" for now a t n
      using text_none [of now a xAgentRole_Assistant t n] ids_text by blast
  qed
  have "\<forall>p \<in> set (elems (pending_arr q2)). cstr (p_id p) = p_id p"
    using q2 by (simp add: gap_def clean_def)
  from gap_commit_tool_uses [OF conjunct1 [OF q2] this, of env] q1 q2 show ?thesis
    by (auto simp: commit_assistant_turn_def Let_def q1_def [symmetric] q2_def [symmetric]
        same_run_def)
qed

section \<open>The protocol as a step relation\<close>

text \<open>
  One input at a time, with the one thing the provider interface promises: a round is reported
  done only while one is in flight, that is, while no tool call of this query is outstanding.
\<close>

inductive query_moves :: "qenv \<Rightarrow> xAgentQuery \<Rightarrow> xAgentQuery \<Rightarrow> bool" for env where
  move_text: "query_moves env q (on_provider_text chunk q)"
| move_thinking: "query_moves env q (on_provider_thinking chunk q)"
| move_tool_call: "query_moves env q (on_provider_tool_call call q)"
| move_done: "elems (async_pending_arr q) = [] \<Longrightarrow>
    query_moves env q (on_provider_done env reason err u errmsg q)"
| move_async: "query_moves env q (ai_query_async_tool_complete env q i result)"
| move_resolve: "query_moves env q (xAgentToolConfirmResolve env h d reason q)"
| move_cancel: "query_moves env q (xAgentQueryCancel q)"

inductive query_reaches :: "qenv \<Rightarrow> xAgentQuery \<Rightarrow> xAgentQuery \<Rightarrow> bool" for env where
  reach_refl: "query_reaches env q q"
| reach_step: "query_reaches env q q1 \<Longrightarrow> query_moves env q1 q2 \<Longrightarrow> query_reaches env q q2"

inductive_cases query_moves_cases: "query_moves env q q'"

lemma query_reaches_trans:
  "query_reaches env a b \<Longrightarrow> query_reaches env c a \<Longrightarrow> query_reaches env c b"
  by (induction rule: query_reaches.induct) (auto intro: query_reaches.intros)

text \<open>Updates of what the invariant does not mention.\<close>

lemma sound_same:
  assumes "sound q" and "same_run q q'" and "clean q'" and "async_pending_arr q' = async_pending_arr q"
    and "inputs_arr q' = inputs_arr q" and "produced_arr q' = produced_arr q"
  shows "sound q'"
  using assms by (auto simp: sound_def same_run_def gap_def open_ids_def all_entries_def)

lemma sound_clean: "sound q \<Longrightarrow> clean q"
  by (simp add: sound_def)

lemma clean_mem: "clean q \<Longrightarrow> q_mem q = []"
  by (simp add: clean_def)

lemma buffer_append_mem: "snd (buffer_append [] b chunk) = []"
  by (simp add: buffer_append_def split: option.split)

lemma frame_emit:
  "clean (emit ev q) = clean q" "async_pending_arr (emit ev q) = async_pending_arr q"
  "inputs_arr (emit ev q) = inputs_arr q" "produced_arr (emit ev q) = produced_arr q"
  by (simp_all add: emit_def clean_def)

lemma sound_emit: "\<not> is_submit ev \<Longrightarrow> sound q \<Longrightarrow> sound (emit ev q)"
  by (rule sound_same [OF _ same_run_emit]) (simp_all add: frame_emit sound_clean)

lemma sound_fire: "\<not> is_submit ev \<Longrightarrow> sound q \<Longrightarrow> sound (fire cb ev q)"
  by (simp add: fire_def sound_emit)

lemma sound_append:
  assumes "sound q"
  shows "sound (assist_append q chunk)" and "sound (reasoning_append q chunk)"
proof -
  obtain b m where r: "buffer_append [] (assist q) chunk = (b, m)" by fastforce
  with buffer_append_mem [of "assist q" chunk] have "m = []" by simp
  with r assms show "sound (assist_append q chunk)"
    using clean_mem [OF sound_clean [OF assms]]
    by (intro sound_same [OF assms])
      (simp_all add: assist_append_def same_run_def submits_def sound_def clean_def)
next
  obtain b m where r: "buffer_append [] (reasoning q) chunk = (b, m)" by fastforce
  with buffer_append_mem [of "reasoning q" chunk] have "m = []" by simp
  with r assms show "sound (reasoning_append q chunk)"
    using clean_mem [OF sound_clean [OF assms]]
    by (intro sound_same [OF assms])
      (simp_all add: reasoning_append_def same_run_def submits_def sound_def clean_def)
qed

lemma sound_pending_append:
  assumes "sound q"
  shows "sound (snd (pending_append q i n g))"
proof -
  define x where "x = \<lparr>p_id = '''', p_name = '''', p_args_json = ''''\<rparr>"
  obtain a1 where push: "xArrayPush [] (pending_arr q) x = (True, a1, [])"
    "elems a1 = elems (pending_arr q) @ [x]"
    using push_none [of "pending_arr q" x] by auto
  define y where "y = \<lparr>p_id = cstr (or_empty i), p_name = cstr (or_empty n),
    p_args_json = cstr (case g of None \<Rightarrow> ''{}'' | Some s \<Rightarrow> s)\<rparr>"
  define q' where "q' = q\<lparr>pending_arr := set_slot a1 y, q_mem := []\<rparr>"
  have q': "snd (pending_append q i n g) = q'"
    unfolding pending_append_def clean_mem [OF sound_clean [OF assms]] x_def [symmetric] push(1)
    by (simp add: q'_def y_def)
  have "cstr (cstr s) = cstr s" for s by (rule cstr_id) simp
  then have "clean q'"
    using sound_clean [OF assms] push(2) by (simp add: clean_def q'_def set_slot_def y_def ball_Un)
  moreover have "gap {#} q'" if "gap {#} q"
    using that \<open>clean q'\<close> by (simp add: gap_def open_ids_def all_entries_def q'_def)
  ultimately show ?thesis
    using assms unfolding q' by (simp add: sound_def q'_def submits_def)
qed

lemma sound_usage: "sound q \<Longrightarrow> sound (usage_accumulate u q)"
  by (rule sound_same [of q])
    (simp_all add: usage_accumulate_def same_run_def submits_def sound_def clean_def split: option.split)

lemma sound_continuation:
  assumes "gap (mset (map p_id (elems (pending_arr q)))) q" and "\<And>tr. env_confirm env tr = None"
    and "elems (async_pending_arr q) = []" and "running q" and "\<not> cancelled q"
    and "list_all submit_ok (submits q)"
  shows "sound (handle_tool_loop_continuation env q)"
proof -
  obtain rc q1 where disp: "dispatch_pending_tools env q = (rc, q1)" by fastforce
  have q1: "rc = xErrno_Ok" "gap {#} q1" "same_run q q1"
    using gap_dispatch_from [of 0 q env rc q1] assms(1,2,5) disp
    by (simp_all add: dispatch_pending_tools_def)
  define q2 where "q2 = pending_reset q1"
  have g2: "gap {#} q2" using q1(2) by (simp add: q2_def pending_reset_def xArrayReset_def gap_defs)
  have f2: "running q2" "\<not> cancelled q2" "list_all submit_ok (submits q2)"
    using q1(3) assms(4-6) by (simp_all add: q2_def pending_reset_def same_run_def submits_def)
  obtain src q3 where sub: "submit_round env q2 = (src, q3)" by fastforce
  show ?thesis
  proof (cases "elems (async_pending_arr q2) = []")
    case True
    note parts = submit_sound [OF g2 True f2(3) sub]
    have "sound q3" using parts by (simp add: sound_of_gap)
    moreover have "sound (fail_run src t xAgentDoneReason_ModelError q3)" for t
      using parts by (intro sound_finalize) (simp_all add: gap_def)
    moreover have "sound (query_finalize xAgentDoneReason_MaxTurns q)"
      using assms by (intro sound_finalize) (simp_all add: gap_def)
    ultimately show ?thesis
      using True f2 q1(1) sub
      by (simp add: handle_tool_loop_continuation_def disp q2_def [symmetric] Let_def)
  next
    case False
    then have "sound q2" using g2 f2 by (simp add: sound_def gap_def)
    moreover have "sound (query_finalize xAgentDoneReason_MaxTurns q)"
      using assms by (intro sound_finalize) (simp_all add: gap_def)
    ultimately show ?thesis
      using False f2 q1(1)
      by (simp add: handle_tool_loop_continuation_def disp q2_def [symmetric] Let_def)
  qed
qed

lemma sound_provider_done:
  assumes "sound q" and "elems (async_pending_arr q) = []" and "\<And>tr. env_confirm env tr = None"
  shows "sound (on_provider_done env reason err u errmsg q)"
proof (cases "running q")
  case False
  with assms(1) show ?thesis by (simp add: on_provider_done_def)
next
  case True
  define q2 where "q2 = (if reason = xAgentProviderStop_Error \<and> err \<noteq> xErrno_Ok
     then fire on_error (Ev_on_error err errmsg) (usage_accumulate u q) else usage_accumulate u q)"
  have u: "sound (usage_accumulate u q)" "same_run q (usage_accumulate u q)"
    "async_pending_arr (usage_accumulate u q) = async_pending_arr q"
    using sound_usage [OF assms(1)]
    by (simp_all add: usage_accumulate_def same_run_def submits_def split: option.split)
  then have q2: "sound q2" "same_run q q2" "async_pending_arr q2 = async_pending_arr q"
    unfolding q2_def
    by (auto simp: sound_fire intro: same_run_trans [OF _ same_run_fire],
        simp add: fire_def frame_emit)
  define q3 where "q3 = commit_assistant_turn env q2"
  from q2 True have "gap {#} q2" by (simp add: sound_def same_run_def)
  from gap_commit [OF this, of env]
  have q3: "gap (mset (map p_id (elems (pending_arr q3)))) q3" "same_run q2 q3"
    "async_pending_arr q3 = async_pending_arr q2"
    by (simp_all add: q3_def [symmetric]) (simp add: same_run_def)
  have f3: "elems (async_pending_arr q3) = []" "running q3" "cancelled q3 = cancelled q2"
    "list_all submit_ok (submits q3)"
    using q2 q3 assms(2) True by (simp_all add: same_run_def sound_def)
  have "cancelled (usage_accumulate u q) = cancelled q2"
    using u(2) q2(2) by (simp add: same_run_def)
  moreover have "sound (handle_tool_loop_continuation env q3)" if "\<not> cancelled q3"
    using that f3 q3(1) assms(3) by (intro sound_continuation) simp_all
  moreover have "sound (query_finalize r q3)" for r
    using q3(1) f3 by (intro sound_finalize) (simp_all add: gap_def)
  ultimately show ?thesis
    using True f3(3)
    unfolding on_provider_done_def Let_def q2_def [symmetric] q3_def [symmetric] by simp
qed

lemma running_if_outstanding: "sound q \<Longrightarrow> elems (async_pending_arr q) \<noteq> [] \<Longrightarrow> running q"
  by (auto simp: sound_def)

lemma sound_async_complete:
  assumes "sound q"
  shows "sound (ai_query_async_tool_complete env q i result)"
proof (cases "elems (async_pending_arr q) = []")
  case True
  then show ?thesis
    using assms by (simp add: ai_query_async_tool_complete_def async_pending_remove_def)
next
  case False
  with assms have run: "running q" "gap {#} q"
    using running_if_outstanding [OF assms] by (auto simp: sound_def)
  obtain oa q1 where rem: "async_pending_remove q i = (oa, q1)" by fastforce
  note r = gap_remove [OF run(2) rem]
  show ?thesis
  proof (cases oa)
    case None
    with r assms show ?thesis by (simp add: ai_query_async_tool_complete_def rem)
  next
    case (Some a)
    obtain out_text len e where res: "async_result (a_name a) result = (out_text, len, e)"
      by (cases "async_result (a_name a) result") auto
    obtain rc q2 where prod: "produce_tool_result env q1 (a_id a) out_text len e = (rc, q2)"
      by fastforce
    from r Some have q1: "gap (add_mset (a_id a) {#}) q1" "cstr (a_id a) = a_id a" "same_run q q1"
      by simp_all
    note p = gap_produce [OF q1(1,2) prod]
    define q3 where "q3 = fire on_tool (Ev_on_tool (a_name a) False) q2"
    have "same_run q2 q3" by (simp add: q3_def same_run_fire)
    then have "running q3" "list_all submit_ok (submits q3)" "gap {#} q3"
      using p q1(3) assms run by (simp_all add: same_run_def q3_def sound_def)
    then have "sound (continue_if_idle env t q3)" for t by (intro sound_continue)
    then show ?thesis
      using p by (simp add: ai_query_async_tool_complete_def rem Some res prod q3_def)
  qed
qed

lemma free_frame:
  "gap ids (confirm_resolver_free h q) = gap ids q" "same_run q (confirm_resolver_free h q)"
  "clean (confirm_resolver_free h q) = clean q"
  "async_pending_arr (confirm_resolver_free h q) = async_pending_arr q"
  by (simp_all add: confirm_resolver_free_def gap_defs same_run_def submits_def)

lemma sound_free: "sound q \<Longrightarrow> sound (confirm_resolver_free h q)"
  by (simp add: sound_def free_frame, simp add: confirm_resolver_free_def submits_def)

lemma sound_resolve:
  assumes "sound q"
  shows "sound (xAgentToolConfirmResolve env h d reason q)"
proof (cases "resolvers q h")
  case None
  with assms show ?thesis by (simp add: xAgentToolConfirmResolve_def sound_emit)
next
  case (Some r)
  show ?thesis
  proof (cases "elems (async_pending_arr q) = []")
    case True
    with Some assms show ?thesis
      by (simp add: xAgentToolConfirmResolve_def async_pending_remove_def sound_free)
  next
    case False
    with assms have run: "running q" "gap {#} q"
      using running_if_outstanding [OF assms] by (auto simp: sound_def)
    obtain oa q1 where rem: "async_pending_remove q (r_id r) = (oa, q1)" by fastforce
    note g = gap_remove [OF run(2) rem]
    show ?thesis
    proof (cases oa)
      case None
      with g Some rem assms show ?thesis
        by (simp add: xAgentToolConfirmResolve_def sound_free)
    next
      case a: (Some a)
      define msg where "msg = (case reason of None \<Rightarrow> ''rejected by user''
                                  | Some s \<Rightarrow> if s = '''' then ''rejected by user'' else s)"
      obtain rc2 q2 where prod: "produce_tool_result env q1 (a_id a) msg (strlen msg) 1 = (rc2, q2)"
        by fastforce
      obtain rc3 q3 where inv: "invoke_tool_inline env (confirm_resolver_free h q1) (a_tool a)
          (a_id a) (a_name a) (a_args_json a) = (rc3, q3)" by fastforce
      from g a have q1: "gap (add_mset (a_id a) {#}) q1" "cstr (a_id a) = a_id a" "same_run q q1"
        by simp_all
      from q1(1) have "gap (add_mset (a_id a) {#}) (confirm_resolver_free h q1)"
        by (simp add: free_frame)
      note i = gap_invoke [OF this q1(2) inv] and p = gap_produce [OF q1(1,2) prod]
      have q3: "gap {#} q3" "running q3" "list_all submit_ok (submits q3)"
        using i q1(3) free_frame(2) [of q1 h] assms run by (simp_all add: same_run_def sound_def)
      have q2: "gap {#} (confirm_resolver_free h q2)" "running (confirm_resolver_free h q2)"
        "list_all submit_ok (submits (confirm_resolver_free h q2))"
        using p q1(3) free_frame(2) [of q2 h] assms run
        by (simp_all add: free_frame(1) same_run_def sound_def)
      show ?thesis
        using Some a rem prod inv i p sound_continue [OF q2] sound_continue [OF q3] assms sound_free
        by (cases d) (simp_all add: xAgentToolConfirmResolve_def Let_def msg_def [symmetric])
    qed
  qed
qed

lemma sound_cancel_async: "sound q \<Longrightarrow> sound (cancel_async as q)"
proof (induction as arbitrary: q)
  case Nil
  then show ?case by simp
next
  case (Cons a as)
  have "sound (confirm_resolver_invalidate (a_resolver a) q)"
    using Cons.prems
    by (rule sound_same)
      (simp_all add: confirm_resolver_invalidate_def same_run_def submits_def sound_def clean_def Cons.prems
        sound_clean [OF Cons.prems, unfolded clean_def] split: option.split)
  with Cons show ?case by (simp add: sound_emit)
qed

lemma sound_cancel: "sound q \<Longrightarrow> sound (xAgentQueryCancel q)"
proof -
  assume q: "sound q"
  then have "sound (q\<lparr>cancelled := True\<rparr>)" by (simp add: sound_def gap_defs submits_def)
  then show ?thesis using q by (simp add: xAgentQueryCancel_def sound_cancel_async sound_emit)
qed

lemma sound_move:
  assumes "query_moves env q q'" and "sound q" and "\<And>tr. env_confirm env tr = None"
  shows "sound q'"
  using assms(1)
  by (elim query_moves_cases)
    (simp_all add: assms sound_provider_done sound_async_complete sound_resolve sound_cancel
      on_provider_text_def on_provider_thinking_def on_provider_tool_call_def sound_fire sound_append
      sound_pending_append split: xAgentContent.split)

lemma sound_reaches:
  "query_reaches env q q' \<Longrightarrow> sound q \<Longrightarrow> (\<And>tr. env_confirm env tr = None) \<Longrightarrow> sound q'"
  by (induction rule: query_reaches.induct) (auto intro: sound_move)

section \<open>The start of a run\<close>

lemma msg_push_mem: "msg_push [] now a = (ok, a', m) \<Longrightarrow> ok \<and> m = []"
  using msg_push_none [of now a] by auto

lemma append_mem:
  "snd (snd (turn_buf_append_text [] now a r t n)) = []"
  "snd (snd (turn_buf_append_thinking [] now a t n)) = []"
  "snd (snd (turn_buf_append_tool_use [] now a i nm g)) = []"
  "snd (snd (turn_buf_append_tool_result [] now a i out n e)) = []"
  "snd (snd (append_concat [] now a msg)) = []"
  by (auto simp: turn_buf_append_text_def turn_buf_append_thinking_def turn_buf_append_tool_use_def
      turn_buf_append_tool_result_def append_concat_def dup_bytes_def dup_output_def Let_def
      split: prod.split option.split dest!: msg_push_mem)

lemma append_blocks_mem:
  "snd (snd (append_assistant_blocks [] now a cs)) = []"
  "snd (snd (append_tool_blocks [] now a cs)) = []"
proof (induction cs arbitrary: a)
  case Nil
  case 1
  show ?case by simp
next
  case Nil
  case 2
  show ?case by simp
next
  case (Cons c cs)
  case 1
  have "snd (snd (append_assistant_block [] now a c)) = []"
    by (cases c) (simp_all add: append_assistant_block_def append_mem)
  with Cons.IH(1) show ?case
    by (cases "append_assistant_block [] now a c") auto
next
  case (Cons c cs)
  case 2
  show ?case
  proof (cases c)
    case (xAgentContent_ToolResult i out n e)
    with Cons.IH(2) append_mem(4) [of now a i out n e] show ?thesis
      by (cases "turn_buf_append_tool_result [] now a i out n e") auto
  qed (simp_all add: Cons.IH(2))
qed

lemma append_message_mem: "snd (snd (turn_buf_append_message [] now a msg)) = []"
  by (simp add: turn_buf_append_message_def append_blocks_mem append_mem)

lemma ids_block_entries:
  "use_ids (concat (map (block_entries now) cs)) = mset (map cstr (concat (map call_id cs)))"
  "result_ids (concat (map (block_entries now) cs)) = {#}"
proof (induction cs)
  case Nil
  case 1
  show ?case by (simp add: use_ids_def)
next
  case Nil
  case 2
  show ?case by (simp add: result_ids_def)
next
  case (Cons c cs)
  case 1
  have "use_ids (block_entries now c) = mset (map cstr (call_id c))"
    by (cases c) (simp_all, simp_all add: use_ids_def tool_use_entry_def is_use_def or_empty_def)
  with Cons show ?case by simp
next
  case (Cons c cs)
  case 2
  have "result_ids (block_entries now c) = {#}"
    by (cases c) (simp_all, simp_all add: result_ids_def)
  with Cons show ?case by simp
qed

lemma ids_result_entries:
  "result_ids (concat (map (result_entries now) cs)) = mset (map cstr (concat (map answer_id cs)))"
  "use_ids (concat (map (result_entries now) cs)) = {#}"
proof (induction cs)
  case Nil
  case 1
  show ?case by (simp add: result_ids_def)
next
  case Nil
  case 2
  show ?case by (simp add: use_ids_def)
next
  case (Cons c cs)
  case 1
  have "result_ids (result_entries now c) = mset (map cstr (answer_id c))"
    by (cases c) (simp_all add: result_ids_def tool_result_entry_def is_result_def or_empty_def)
  with Cons show ?case by simp
next
  case (Cons c cs)
  case 2
  have "use_ids (result_entries now c) = {#}"
    by (cases c) (simp_all, simp_all add: use_ids_def)
  with Cons show ?case by simp
qed

lemma ids_concat_entry:
  "role msg \<noteq> xAgentRole_Assistant \<Longrightarrow> use_ids [concat_entry now msg] = {#}"
  "result_ids [concat_entry now msg] = {#}"
  by (simp_all add: use_ids_def result_ids_def is_use_def is_result_def concat_entry_def)

lemma ids_messages:
  "use_ids (concat (map (message_entries now) ms)) = mset (map cstr (call_ids ms))"
  "result_ids (concat (map (message_entries now) ms)) = mset (map cstr (answer_ids ms))"
proof (induction ms)
  case Nil
  case 1
  show ?case by (simp add: use_ids_def call_ids_def)
next
  case Nil
  case 2
  show ?case by (simp add: result_ids_def answer_ids_def)
next
  case (Cons msg ms)
  case 1
  have "use_ids (message_entries now msg) = mset (map cstr (call_ids [msg]))"
    by (simp add: message_entries_def ids_block_entries ids_result_entries ids_concat_entry call_ids_def)
  moreover have "call_ids (msg # ms) = call_ids [msg] @ call_ids ms" by (simp add: call_ids_def)
  ultimately show ?case using Cons by simp
next
  case (Cons msg ms)
  case 2
  have "result_ids (message_entries now msg) = mset (map cstr (answer_ids [msg]))"
    by (simp add: message_entries_def ids_block_entries ids_result_entries ids_concat_entry answer_ids_def)
  moreover have "answer_ids (msg # ms) = answer_ids [msg] @ answer_ids ms" by (simp add: answer_ids_def)
  ultimately show ?case using Cons by simp
qed

lemma copy_inputs_ok:
  "copy_inputs env ms q = (xErrno_Ok, q') \<Longrightarrow> q_mem q = [] \<Longrightarrow>
   \<exists>a. q' = q\<lparr>inputs_arr := a, q_mem := []\<rparr> \<and>
     elems a = elems (inputs_arr q) @ concat (map (message_entries (env_now env (trace q))) ms)"
proof (induction ms arbitrary: q)
  case Nil
  then have "q' = q\<lparr>inputs_arr := inputs_arr q, q_mem := []\<rparr>" by simp
  then show ?case by fastforce
next
  case (Cons msg ms)
  obtain rc a m where app: "turn_buf_append_message [] (env_now env (trace q)) (inputs_arr q) msg
      = (rc, a, m)" by (metis prod_cases3)
  with append_message_mem [of "env_now env (trace q)" "inputs_arr q" msg] have m: "m = []" by simp
  define q1 where "q1 = q\<lparr>inputs_arr := a, q_mem := []\<rparr>"
  from Cons.prems app m have rc: "rc = xErrno_Ok" and rest: "copy_inputs env ms q1 = (xErrno_Ok, q')"
    by (auto simp: q1_def split: if_splits)
  have "elems a = elems (inputs_arr q) @ message_entries (env_now env (trace q)) msg"
    using app unfolding rc by (rule turn_buf_append_message_ok)
  with Cons.IH [OF rest] show ?case by (auto simp: q1_def)
qed

text \<open>A query created and started on an answered conversation satisfies the invariant.\<close>

lemma sound_run:
  assumes "xAgentQueryCreate [] conf = (Create_ok q0, m)"
    and "xAgentQueryRun env ms q0 = (xErrno_Ok, q)" and "all_answered ms"
  shows "sound q"
proof -
  obtain pr where q0: "q0 = fresh_query conf pr []"
  proof -
    assume that: "\<And>pr. q0 = fresh_query conf pr [] \<Longrightarrow> thesis"
    have "draws n [] = (True, [])" for n by (induction n) simp_all
    with assms(1) that show thesis
      by (auto simp: xAgentQueryCreate_def split: option.splits if_splits)
  qed
  have fresh: "q_mem q0 = []" "trace q0 = []" "elems (pending_arr q0) = []"
    "elems (async_pending_arr q0) = []" "elems (inputs_arr q0) = []" "elems (produced_arr q0) = []"
    "\<not> running q0" "turn q0 = 0"
    by (simp_all add: q0 fresh_query_def)
  obtain rc q1 where copy: "copy_inputs env ms q0 = (rc, q1)" by fastforce
  obtain src q2 where sub: "submit_round env (q1\<lparr>running := True\<rparr>) = (src, q2)" by fastforce
  from assms(2) fresh copy sub have ok: "rc = xErrno_Ok" "src = xErrno_Ok" "q = q2"
    by (auto simp: xAgentQueryRun_def split: if_splits)
  from copy_inputs_ok [OF copy [unfolded ok(1)] fresh(1)] obtain a where
    q1: "q1 = q0\<lparr>inputs_arr := a, q_mem := []\<rparr>"
    "elems a = concat (map (message_entries (env_now env (trace q0))) ms)"
    using fresh by auto
  have "mset (map cstr (call_ids ms)) = mset (map cstr (answer_ids ms))"
    using assms(3) unfolding all_answered_def mset_map by simp
  then have g: "gap {#} (q1\<lparr>running := True\<rparr>)"
    using fresh by (simp add: q1 gap_defs ids_messages)
  have "elems (async_pending_arr (q1\<lparr>running := True\<rparr>)) = []"
    "list_all submit_ok (submits (q1\<lparr>running := True\<rparr>))"
    using fresh by (simp_all add: q1 submits_def)
  with submit_sound [OF g this sub] show ?thesis unfolding ok(3) by (intro sound_of_gap)
qed

lemma submits_answered: "sound q \<Longrightarrow> list_all submit_ok (trace q)"
proof -
  assume "sound q"
  then have ok: "list_all submit_ok (filter is_submit (trace q))"
    by (simp add: sound_def submits_def)
  have "submit_ok ev" if "ev \<in> set (trace q)" for ev
    using ok that by (cases ev) (auto simp: list_all_iff)
  then show ?thesis by (simp add: list_all_iff)
qed

end
