(* ===== verification/Model.thy ===== *)
theory Model
  imports Message
begin

text \<open>
  \<^verbatim>\<open>libx/x/agent/model.c\<close>, the table from model ids to providers, and \<^verbatim>\<open>libx/x/agent/tool.c\<close>, the
  creation of a tool. The contract of the table is the locale \<open>id_table\<close>; the interpretation
  discharges it for the code's own lookup and insertion.
\<close>

section \<open>The registry\<close>

text \<open>Providers are handles. The temperature is copied verbatim; the model keeps its bits.\<close>

record xAgentModelSpec =
  ms_id :: "string option"
  ms_provider :: "nat option"
  ms_model :: "string option"
  ms_temperature :: nat
  ms_max_tokens :: int

record xAgentModelRegistry =
  reg_entries :: "xAgentModelSpec list"
  reg_cap :: nat

definition xAgentModelRegistryCreate :: "allocs \<Rightarrow> xAgentModelRegistry option \<times> allocs" where
  "xAgentModelRegistryCreate m =
     (let (ok, m1) = draw m in (if ok then Some \<lparr>reg_entries = [], reg_cap = 0\<rparr> else None, m1))"

definition id_matches :: "string \<Rightarrow> xAgentModelSpec \<Rightarrow> bool" where
  "id_matches i e \<longleftrightarrow> ms_id e = Some i"

text \<open>
  The order of the code: arguments, duplicates, growth (4, 8, 16, ...), then both string copies.
  A failed copy leaves the entries untouched, but the grown buffer stays.
\<close>

definition xAgentModelRegistryAdd ::
  "allocs \<Rightarrow> xAgentModelRegistry \<Rightarrow> xAgentModelSpec \<Rightarrow> xErrno \<times> xAgentModelRegistry \<times> allocs" where
  "xAgentModelRegistryAdd m r spec =
     (case ms_id spec of
        None \<Rightarrow> (xErrno_InvalidArg, r, m)
      | Some i \<Rightarrow>
          if i = '''' \<or> ms_provider spec = None then (xErrno_InvalidArg, r, m)
          else if list_ex (id_matches i) (reg_entries r) then (xErrno_AlreadyExists, r, m)
          else let full = (length (reg_entries r) = reg_cap r);
                   new_cap = (if reg_cap r \<noteq> 0 then reg_cap r * 2 else 4);
                   (ok, m1) = (if full then draw m else (True, m))
               in if \<not> ok then (xErrno_NoMemory, r, m1)
                  else let r1 = (if full then r\<lparr>reg_cap := new_cap\<rparr> else r);
                           (id_copy, m2) = dup_cstr m1 (Some i);
                           (model_copy, m3) = dup_cstr m2 (ms_model spec)
                       in if id_copy = None \<or> (ms_model spec \<noteq> None \<and> model_copy = None)
                          then (xErrno_NoMemory, r1, m3)
                          else (xErrno_Ok,
                                r1\<lparr>reg_entries := reg_entries r1 @
                                     [spec\<lparr>ms_id := id_copy, ms_model := model_copy\<rparr>]\<rparr>, m3))"

fun xAgentModelRegistryGet_from :: "xAgentModelSpec list \<Rightarrow> string \<Rightarrow> xAgentModelSpec option" where
  "xAgentModelRegistryGet_from [] i = None"
| "xAgentModelRegistryGet_from (e # es) i =
     (if id_matches i e then Some e else xAgentModelRegistryGet_from es i)"

definition xAgentModelRegistryGet :: "xAgentModelRegistry \<Rightarrow> string \<Rightarrow> xAgentModelSpec option" where
  "xAgentModelRegistryGet r i = xAgentModelRegistryGet_from (reg_entries r) i"

definition xAgentModelRegistryCount :: "xAgentModelRegistry \<Rightarrow> nat" where
  "xAgentModelRegistryCount r = length (reg_entries r)"

definition xAgentModelRegistryAt :: "xAgentModelRegistry \<Rightarrow> nat \<Rightarrow> xAgentModelSpec option" where
  "xAgentModelRegistryAt r idx = (if length (reg_entries r) \<le> idx then None else Some (reg_entries r ! idx))"

section \<open>Tool creation\<close>

text \<open>
  Only the name is required; the copies of description and schema may fail silently. A missing
  handler refuses the tool. The order of the draws is the order of the copies.
\<close>

record xAgentToolConf =
  tc_name :: "string option"
  tc_description :: "string option"
  tc_json_schema :: "string option"
  tc_has_handler :: bool
  tc_needs_confirm :: bool
  tc_has_cancel :: bool

record xAgentToolObj =
  to_name :: string
  to_description :: "string option"
  to_json_schema :: "string option"
  to_needs_confirm :: bool
  to_has_cancel :: bool

definition xAgentToolCreate :: "allocs \<Rightarrow> xAgentToolConf \<Rightarrow> xAgentToolObj option \<times> allocs" where
  "xAgentToolCreate m conf =
     (case tc_name conf of
        None \<Rightarrow> (None, m)
      | Some nm \<Rightarrow>
          if \<not> tc_has_handler conf then (None, m)
          else let (ok, m1) = draw m
               in if \<not> ok then (None, m1)
                  else let (n, m2) = dup_cstr m1 (Some nm);
                           (d, m3) = dup_cstr m2 (tc_description conf);
                           (j, m4) = dup_cstr m3 (tc_json_schema conf)
                       in (case n of
                             None \<Rightarrow> (None, m4)
                           | Some nm' \<Rightarrow>
                               (Some \<lparr>to_name = nm', to_description = d, to_json_schema = j,
                                  to_needs_confirm = tc_needs_confirm conf,
                                  to_has_cancel = tc_has_cancel conf\<rparr>, m4)))"

section \<open>The contract of an id table\<close>

text \<open>
  What a client of such a table relies on: an entry added under a fresh id is found under it,
  nothing else changes, an id in use is refused, and a refused addition changes no lookup.
\<close>

locale id_table =
  fixes look_up :: "'t \<Rightarrow> 'k \<Rightarrow> 'v option"
    and insert_as :: "'t \<Rightarrow> 'k \<Rightarrow> 'v \<Rightarrow> 't option"
  assumes found: "insert_as t k v = Some t' \<Longrightarrow> look_up t' k = Some v"
    and others: "insert_as t k v = Some t' \<Longrightarrow> k' \<noteq> k \<Longrightarrow> look_up t' k' = look_up t k'"
    and fresh: "insert_as t k v = Some t' \<Longrightarrow> look_up t k = None"
begin

fun insert_all :: "'t \<Rightarrow> ('k \<times> 'v) list \<Rightarrow> 't option" where
  "insert_all t [] = Some t"
| "insert_all t ((k, v) # kvs) =
     (case insert_as t k v of None \<Rightarrow> None | Some t' \<Rightarrow> insert_all t' kvs)"

lemma keeps_old: "insert_as t k v = Some t' \<Longrightarrow> look_up t k' = Some w \<Longrightarrow> look_up t' k' = Some w"
  using fresh others by (cases "k' = k") auto

lemma insert_all_keeps:
  "insert_all t kvs = Some t' \<Longrightarrow> look_up t k = Some v \<Longrightarrow> look_up t' k = Some v"
proof (induction kvs arbitrary: t)
  case Nil
  then show ?case by simp
next
  case (Cons kv kvs)
  obtain k0 v0 where kv: "kv = (k0, v0)" by fastforce
  with Cons.prems obtain t1 where t1: "insert_as t k0 v0 = Some t1" "insert_all t1 kvs = Some t'"
    by (auto split: option.splits)
  from Cons.IH [OF t1(2) keeps_old [OF t1(1) Cons.prems(2)]] show ?case .
qed

text \<open>After a batch of additions every one of them is found, and their keys were distinct.\<close>

lemma insert_all_found:
  "insert_all t kvs = Some t' \<Longrightarrow> (k, v) \<in> set kvs \<Longrightarrow> look_up t' k = Some v"
proof (induction kvs arbitrary: t)
  case Nil
  then show ?case by simp
next
  case (Cons kv kvs)
  obtain k0 v0 where kv: "kv = (k0, v0)" by fastforce
  with Cons.prems obtain t1 where t1: "insert_as t k0 v0 = Some t1" "insert_all t1 kvs = Some t'"
    by (auto split: option.splits)
  show ?case
  proof (cases "(k, v) = (k0, v0)")
    case True
    with found [OF t1(1)] insert_all_keeps [OF t1(2)] show ?thesis by simp
  next
    case False
    with Cons.prems kv Cons.IH [OF t1(2)] show ?thesis by auto
  qed
qed

lemma insert_all_distinct: "insert_all t kvs = Some t' \<Longrightarrow> distinct (map fst kvs)"
proof (induction kvs arbitrary: t)
  case Nil
  then show ?case by simp
next
  case (Cons kv kvs)
  obtain k0 v0 where kv: "kv = (k0, v0)" by fastforce
  with Cons.prems obtain t1 where t1: "insert_as t k0 v0 = Some t1" "insert_all t1 kvs = Some t'"
    by (auto split: option.splits)
  have out: "k0 \<noteq> k" if "(k, v) \<in> set kvs" "insert_all t2 kvs = Some t'" "look_up t2 k0 = Some v0"
    for k v t2 using that
  proof (induction kvs arbitrary: t2)
    case Nil
    then show ?case by simp
  next
    case (Cons a as)
    obtain ka va where a: "a = (ka, va)" by fastforce
    with Cons.prems obtain t3 where t3: "insert_as t2 ka va = Some t3" "insert_all t3 as = Some t'"
      by (auto split: option.splits)
    from fresh [OF t3(1)] Cons.prems(3) have "k0 \<noteq> ka" by auto
    with Cons a t3 keeps_old [OF t3(1)] show ?case by auto
  qed
  have "k0 \<notin> fst ` set kvs"
  proof
    assume "k0 \<in> fst ` set kvs"
    then obtain v where "(k0, v) \<in> set kvs" by auto
    from out [OF this t1(2) found [OF t1(1)]] show False by simp
  qed
  with Cons.IH [OF t1(2)] show ?case by (simp add: kv)
qed

end

section \<open>The registry provides the contract\<close>

text \<open>An addition in which nothing fails, seen through the ids.\<close>

definition registry_insert :: "xAgentModelRegistry \<Rightarrow> string \<Rightarrow> xAgentModelSpec \<Rightarrow> xAgentModelRegistry option" where
  "registry_insert r i spec =
     (if ms_id spec \<noteq> Some i \<or> strlen i \<noteq> length i \<or>
         (case ms_model spec of None \<Rightarrow> False | Some t \<Rightarrow> strlen t \<noteq> length t) then None
      else case xAgentModelRegistryAdd [] r spec of
        (rc, r', _) \<Rightarrow> if rc = xErrno_Ok then Some r' else None)"

lemma get_from_append:
  "xAgentModelRegistryGet_from (es @ fs) i =
     (case xAgentModelRegistryGet_from es i of None \<Rightarrow> xAgentModelRegistryGet_from fs i | Some e \<Rightarrow> Some e)"
  by (induction es) auto

lemma get_from_None: "xAgentModelRegistryGet_from es i = None \<longleftrightarrow> \<not> list_ex (id_matches i) es"
  by (induction es) auto

lemma get_from_Some: "xAgentModelRegistryGet_from es i = Some e \<Longrightarrow> e \<in> set es \<and> ms_id e = Some i"
  by (induction es) (auto simp: id_matches_def split: if_splits)

text \<open>What an addition does in every case, allocation failures included.\<close>

lemma registry_add_cases:
  assumes "xAgentModelRegistryAdd m r spec = (rc, r', m')"
  shows "(rc = xErrno_Ok \<and> (\<exists>i e. ms_id spec = Some i \<and> ms_provider spec \<noteq> None
            \<and> \<not> list_ex (id_matches i) (reg_entries r) \<and> reg_entries r' = reg_entries r @ [e]
            \<and> e = spec\<lparr>ms_id := Some (take (strlen i) i),
                      ms_model := map_option (\<lambda>t. take (strlen t) t) (ms_model spec)\<rparr>))
       \<or> (rc \<noteq> xErrno_Ok \<and> reg_entries r' = reg_entries r)"
  using assms
  by (auto simp: xAgentModelRegistryAdd_def dup_cstr_def dup_bytes_def Let_def
      split: option.splits if_splits prod.splits)

lemma registry_insert_Some:
  assumes "registry_insert r i spec = Some r'"
  shows "reg_entries r' = reg_entries r @ [spec]" and "ms_id spec = Some i"
    and "\<not> list_ex (id_matches i) (reg_entries r)"
proof -
  obtain rc r1 m1 where add: "xAgentModelRegistryAdd [] r spec = (rc, r1, m1)" by (metis prod_cases3)
  from assms add have ok: "rc = xErrno_Ok" "r' = r1" and i: "ms_id spec = Some i"
    "strlen i = length i" and t: "\<And>t. ms_model spec = Some t \<Longrightarrow> strlen t = length t"
    by (auto simp: registry_insert_def split: if_splits)
  have "map_option (\<lambda>t. take (strlen t) t) (ms_model spec) = ms_model spec"
    using t by (cases "ms_model spec") auto
  then have "spec\<lparr>ms_id := Some i, ms_model := map_option (\<lambda>t. take (strlen t) t) (ms_model spec)\<rparr> = spec"
    using i(1) by simp
  with registry_add_cases [OF add] ok i show "reg_entries r' = reg_entries r @ [spec]"
    and "ms_id spec = Some i" and "\<not> list_ex (id_matches i) (reg_entries r)"
    by (auto simp del: map_option_eq_Some)
qed

interpretation registry: id_table xAgentModelRegistryGet registry_insert
proof
  fix t k v t' k'
  assume "registry_insert t k v = Some t'"
  note parts = registry_insert_Some [OF this]
  show "xAgentModelRegistryGet t' k = Some v" and "xAgentModelRegistryGet t k = None"
    using parts
    by (simp_all add: xAgentModelRegistryGet_def get_from_append get_from_None id_matches_def
        split: option.split)
       (metis get_from_None option.distinct(1))
  assume "k' \<noteq> k"
  then show "xAgentModelRegistryGet t' k' = xAgentModelRegistryGet t k'"
    using parts
    by (simp add: xAgentModelRegistryGet_def get_from_append id_matches_def split: option.split)
qed

end
