(* ===== verification/Session.thy ===== *)
theory Session
  imports QueryBalance Model
begin

text \<open>
  \<^verbatim>\<open>libx/x/agent/session.c\<close>: the rolling conversation, the context-budget gate, the compaction of
  old turns into a summary, and the life of the one query a session runs at a time. The agent
  is the template the session reads its provider, tools and memory store from.
\<close>

section \<open>Data\<close>

record xAgent =
  ag_provider :: "nat option"
  ag_model :: "string option"
  ag_registry :: "xAgentModelRegistry option"
  ag_system_prompt :: "string option"
  ag_tools :: "xAgentTool option list"
  ag_max_turns :: int
  ag_max_tokens :: int
  ag_memory :: bool
  ag_enable_sidecar_query :: bool
  ag_session_seq :: nat

datatype xAgentBudgetPolicy =
  xAgentBudgetPolicy_Disabled | xAgentBudgetPolicy_Error | xAgentBudgetPolicy_Summarize

record xAgentBudgetConf =
  policy :: xAgentBudgetPolicy
  context_window :: nat
  context_preserve_head_turns :: nat
  context_preserve_tail_turns :: nat
  on_budget_event :: bool

datatype xAgentMemoryAppendReason =
  xAgentMemoryAppendReason_Compacted | xAgentMemoryAppendReason_Finalizing

datatype xAgentSidecarEvent = xAgentSidecarEvent_Started | xAgentSidecarEvent_Done

text \<open>
  What a session makes visible: its callbacks, its budget events (with the numbers they
  carry), and the batches it appends to the memory store.
\<close>

datatype sevent =
    Sev_on_text string
  | Sev_on_thinking string
  | Sev_on_tool string bool
  | Sev_on_tool_output string string
  | Sev_on_tool_confirm string string string nat
  | Sev_on_error xErrno string
  | Sev_on_done xAgentDoneReason "xAgentUsage option"
  | Sev_on_sidecar xAgentSidecarEvent
  | Sev_gate_passed nat nat nat int
  | Sev_compacting nat
  | Sev_compact_done bool nat nat
  | Sev_memory_append xAgentMemoryAppendReason "xAgentSessionMsg list"
  | Sev_on_finalizing

record xAgentSessionCallbacks =
  s_on_text :: bool
  s_on_thinking :: bool
  s_on_done :: bool
  s_on_error :: bool
  s_on_tool :: bool
  s_on_tool_output :: bool
  s_on_tool_confirm :: bool
  s_on_sidecar :: bool

text \<open>
  \<open>memory\<close> and \<open>on_finalizing\<close>: the pointer is set. \<open>session_id_copy\<close> is the key the store is
  written under. \<open>sidecar_idle_timer\<close>: a timer is armed. \<open>s_mem\<close> is the allocator's oracle,
  handed to the query while one is alive.
\<close>

record xAgentSession =
  s_cbs :: xAgentSessionCallbacks
  system_prompt :: "string option"
  s_model :: "string option"
  s_max_turns :: int
  s_max_tokens :: int
  provider_override :: "nat option"
  budget :: xAgentBudgetConf
  known_prompt_tokens :: int
  delta_entries :: nat
  last_gate_total :: nat
  last_first_round_prompt_tokens :: int
  overhead_tokens :: nat
  compacting :: bool
  compact_start_idx :: nat
  compact_end_idx :: nat
  last_compact_history_len :: nat
  pending_text :: "string option"
  memory :: bool
  session_id :: "string option"
  session_id_copy :: "string option"
  on_finalizing :: bool
  persisted_prefix :: nat
  history_arr :: msgs
  s_query :: "xAgentQuery option"
  sidecar :: "xAgentQuery option"
  sidecar_idle_timer :: bool
  sidecar_idle_ms :: nat
  sidecar_tool_use_id :: "string option"
  sidecar_output :: "(string option \<times> nat) xArray option"
  s_mem :: allocs
  s_trace :: "sevent list"

text \<open>
  The world of a session: the world of its queries, the wall clock, what the memory store
  returns for a key (and the incoming message), and what lies in memory behind the last entry
  of the history.
\<close>

record senv =
  env_query :: qenv
  env_wall :: "sevent list \<Rightarrow> nat"
  env_retrieve :: "string \<Rightarrow> xAgentMessage option \<Rightarrow> xAgentSessionMsg list"
  env_beyond :: "xAgentSessionMsg list"

definition semit :: "sevent \<Rightarrow> xAgentSession \<Rightarrow> xAgentSession" where
  "semit ev s = s\<lparr>s_trace := s_trace s @ [ev]\<rparr>"

definition sfire :: "(xAgentSessionCallbacks \<Rightarrow> bool) \<Rightarrow> sevent \<Rightarrow> xAgentSession \<Rightarrow> xAgentSession" where
  "sfire cb ev s = (if cb (s_cbs s) then semit ev s else s)"

definition budget_event :: "sevent \<Rightarrow> xAgentSession \<Rightarrow> xAgentSession" where
  "budget_event ev s = (if on_budget_event (budget s) then semit ev s else s)"

abbreviation history :: "xAgentSession \<Rightarrow> xAgentSessionMsg list" where
  "history s \<equiv> elems (history_arr s)"

section \<open>Appending to the history\<close>

text \<open>
  The four appends are those of the turn buffers, on the session's array with the session's
  clock and allocator.
\<close>

definition hist_put ::
  "xAgentSession \<Rightarrow> xErrno \<times> msgs \<times> allocs \<Rightarrow> xErrno \<times> xAgentSession" where
  "hist_put s r = (case r of (rc, a, m) \<Rightarrow> (rc, s\<lparr>history_arr := a, s_mem := m\<rparr>))"

definition ai_history_append_text ::
  "senv \<Rightarrow> xAgentSession \<Rightarrow> xAgentRole \<Rightarrow> string option \<Rightarrow> nat \<Rightarrow> xErrno \<times> xAgentSession" where
  "ai_history_append_text env s r t len =
     hist_put s (turn_buf_append_text (s_mem s) (env_wall env (s_trace s)) (history_arr s) r t len)"

definition ai_history_append_thinking ::
  "senv \<Rightarrow> xAgentSession \<Rightarrow> string option \<Rightarrow> nat \<Rightarrow> xErrno \<times> xAgentSession" where
  "ai_history_append_thinking env s t len =
     hist_put s (turn_buf_append_thinking (s_mem s) (env_wall env (s_trace s)) (history_arr s) t len)"

definition ai_history_append_tool_use ::
  "senv \<Rightarrow> xAgentSession \<Rightarrow> string option \<Rightarrow> string option \<Rightarrow> string option \<Rightarrow> xErrno \<times> xAgentSession" where
  "ai_history_append_tool_use env s i n g =
     hist_put s (turn_buf_append_tool_use (s_mem s) (env_wall env (s_trace s)) (history_arr s) i n g)"

definition ai_history_append_tool_result ::
  "senv \<Rightarrow> xAgentSession \<Rightarrow> string option \<Rightarrow> string option \<Rightarrow> nat \<Rightarrow> int \<Rightarrow> xErrno \<times> xAgentSession" where
  "ai_history_append_tool_result env s i out len e =
     hist_put s (turn_buf_append_tool_result (s_mem s) (env_wall env (s_trace s)) (history_arr s) i out len e)"

definition history_append_user_msg ::
  "senv \<Rightarrow> xAgentSession \<Rightarrow> xAgentMessage \<Rightarrow> xErrno \<times> xAgentSession" where
  "history_append_user_msg env s msg =
     hist_put s (append_concat (s_mem s) (env_wall env (s_trace s)) (history_arr s) msg)"

section \<open>The estimates of the budget gate\<close>

definition estimate_incoming_user_tokens :: "xAgentMessage \<Rightarrow> nat" where
  "estimate_incoming_user_tokens msg =
     text_total (contents msg) div XAGENT_BUDGET_BYTES_PER_TOKEN + XAGENT_BUDGET_PER_MSG_TOKENS"

definition session_budget_limit :: "xAgentSession \<Rightarrow> nat" where
  "session_budget_limit s =
     (if 0 < context_window (budget s) then context_window (budget s)
      else XAGENT_BUDGET_DEFAULT_MAX_TOKENS)"

text \<open>
  The incremental estimate reads \<open>delta_entries\<close> entries from \<open>delta_start\<close> on. When that count
  exceeds the length it reads past the array, into \<open>env_beyond\<close>.
\<close>

definition session_estimate_current :: "senv \<Rightarrow> xAgentSession \<Rightarrow> nat" where
  "session_estimate_current env s =
     (let known = nat (known_prompt_tokens s);
          base = (if overhead_tokens s < known then known - overhead_tokens s else 0);
          hist_len = length (history s);
          delta_start = (if delta_entries s < hist_len then hist_len - delta_entries s else 0)
      in if 0 \<le> known_prompt_tokens s \<and> 0 < delta_entries s
         then base + ai_budget_estimate_tokens
                (take (delta_entries s) (drop delta_start (history s @ env_beyond env)))
         else if 0 \<le> known_prompt_tokens s \<and> delta_entries s = 0 then base
         else ai_budget_estimate_tokens (history s))"

definition session_update_overhead_tokens :: "string option \<Rightarrow> xAgentSession \<Rightarrow> xAgentSession" where
  "session_update_overhead_tokens mem_text s =
     s\<lparr>overhead_tokens :=
        (case system_prompt s of
           None \<Rightarrow> 0
         | Some p \<Rightarrow> if strlen p = 0 then 0
                     else strlen p div XAGENT_BUDGET_BYTES_PER_TOKEN + XAGENT_BUDGET_PER_MSG_TOKENS)
        + (case mem_text of
             None \<Rightarrow> 0
           | Some t \<Rightarrow> strlen t div XAGENT_BUDGET_BYTES_PER_TOKEN + XAGENT_BUDGET_PER_MSG_TOKENS)\<rparr>"

definition effective_limit :: "xAgentSession \<Rightarrow> nat" where
  "effective_limit s =
     (let limit = session_budget_limit s;
          completion_reserve = (if 0 < s_max_tokens s then nat (s_max_tokens s) else 0)
      in if overhead_tokens s + completion_reserve < limit
         then limit - overhead_tokens s - completion_reserve else 0)"

section \<open>Trimming tool results\<close>

definition TRIM_PREFIX :: string where
  "TRIM_PREFIX = ''[result trimmed: ''"

definition trim_marker :: "nat \<Rightarrow> string" where
  "trim_marker n = ''[result trimmed: was '' @ dec n @ '' bytes]''"

definition trimmable :: "xAgentSessionMsg \<Rightarrow> bool" where
  "trimmable e \<longleftrightarrow> m_kind e = xAgentSessionEntry_ToolResult \<and> 0 < m_tool_result_output_len e \<and>
     (case m_tool_result_output e of None \<Rightarrow> False | Some out \<Rightarrow> \<not> has_prefix TRIM_PREFIX out)"

definition trim_entry :: "xAgentSessionMsg \<Rightarrow> xAgentSessionMsg" where
  "trim_entry e =
     (let mk = trim_marker (m_tool_result_output_len e)
      in e\<lparr>m_tool_result_output := Some mk, m_tool_result_output_len := length mk\<rparr>)"

text \<open>
  The loop runs from the last entry to the first; the argument is the reversed history. It
  returns the entries, how many were trimmed, the bytes freed (possibly negative), and the
  allocator.
\<close>

fun trim_from :: "allocs \<Rightarrow> xAgentSessionMsg list \<Rightarrow> xAgentSessionMsg list \<times> nat \<times> int \<times> allocs" where
  "trim_from m [] = ([], 0, 0, m)"
| "trim_from m (e # es) =
     (if trimmable e then
        (let (ok, m1) = draw m; (es', n, freed, m2) = trim_from m1 es
         in if ok
            then (trim_entry e # es', Suc n,
                  freed + int (m_tool_result_output_len e)
                    - int (m_tool_result_output_len (trim_entry e)), m2)
            else (e # es', n, freed, m2))
      else (let (es', n, freed, m1) = trim_from m es in (e # es', n, freed, m1)))"

definition session_trim_consumed_tool_results :: "xAgentSession \<Rightarrow> nat \<times> int \<times> xAgentSession" where
  "session_trim_consumed_tool_results s =
     (case trim_from (s_mem s) (rev (history s)) of
        (es, n, freed, m) \<Rightarrow>
          let s1 = s\<lparr>history_arr := (history_arr s)\<lparr>elems := rev es\<rparr>, s_mem := m\<rparr>
          in (n, freed,
              if 0 < n then s1\<lparr>known_prompt_tokens := -1, delta_entries := 0\<rparr> else s1))"

section \<open>Building the messages of a run\<close>

text \<open>\<^verbatim>\<open>%.*s\<close> with a precision: at most that many bytes, up to a NUL.\<close>

definition INT_MAX :: nat where
  "INT_MAX = 2147483647"

definition prec_str :: "nat \<Rightarrow> string \<Rightarrow> string" where
  "prec_str n t = cstr (take (min n INT_MAX) t)"

definition role_str :: "xAgentRole \<Rightarrow> string" where
  "role_str r =
     (case r of
        xAgentRole_System \<Rightarrow> ''system'' | xAgentRole_User \<Rightarrow> ''user''
      | xAgentRole_Assistant \<Rightarrow> ''assistant'' | xAgentRole_Tool \<Rightarrow> ''tool''
      | xAgentRole_Summary \<Rightarrow> ''?'')"

definition memory_line :: "xAgentSessionMsg \<Rightarrow> string" where
  "memory_line e =
     (case m_kind e of
        xAgentSessionEntry_Text \<Rightarrow>
          ''- '' @ role_str (m_role e) @ '': '' @ prec_str (m_text_len e) (or_empty (m_text e)) @ [CHR 0x0A]
      | xAgentSessionEntry_Thinking \<Rightarrow>
          ''- '' @ role_str (m_role e) @ '': '' @ prec_str (m_text_len e) (or_empty (m_text e)) @ [CHR 0x0A]
      | xAgentSessionEntry_ToolUse \<Rightarrow>
          ''- '' @ role_str (m_role e) @ '' (call '' @
          cstr (case m_tool_use_name e of None \<Rightarrow> ''?'' | Some n \<Rightarrow> n) @ '': '' @
          cstr (or_empty (m_tool_use_args e)) @ '')'' @ [CHR 0x0A]
      | xAgentSessionEntry_ToolResult \<Rightarrow>
          ''- '' @ role_str (m_role e) @ (if m_tool_result_is_error e \<noteq> 0 then '' [error]'' else '''') @
          '': '' @ prec_str (m_tool_result_output_len e) (or_empty (m_tool_result_output e)) @ [CHR 0x0A])"

text \<open>\<^verbatim>\<open>snprintf\<close> into \<open>cap\<close> bytes: what is written without the NUL, and the length reported back.\<close>

definition render_memory_entry :: "xAgentSessionMsg \<Rightarrow> nat \<Rightarrow> string" where
  "render_memory_entry e room =
     (let line = memory_line e in if room \<le> length line then take (room - 1) line else line)"

definition hits_cap :: "xAgentSessionMsg list \<Rightarrow> nat" where
  "hits_cap hits = 64 + sum_list (map (\<lambda>e. 64 + m_text_len e + m_tool_result_output_len e
     + (case m_tool_use_args e of None \<Rightarrow> 0 | Some g \<Rightarrow> strlen g)
     + (case m_tool_use_name e of None \<Rightarrow> 0 | Some n \<Rightarrow> strlen n)) hits)"

fun render_hits :: "nat \<Rightarrow> string \<Rightarrow> xAgentSessionMsg list \<Rightarrow> string" where
  "render_hits room acc [] = acc"
| "render_hits room acc (e # es) =
     (let acc' = acc @ render_memory_entry e (room - length acc)
      in if room \<le> length acc' + 1 then acc' else render_hits room acc' es)"

definition hits_header :: "nat \<Rightarrow> string" where
  "hits_header n = ''[retrieved memory: '' @ dec n @ '' entries]'' @ [CHR 0x0A]"

definition format_memory_hits :: "allocs \<Rightarrow> xAgentSessionMsg list \<Rightarrow> string option \<times> allocs" where
  "format_memory_hits m hits =
     (if hits = [] then (None, m)
      else let room = hits_cap hits; (ok, m1) = draw m; header = hits_header (length hits)
           in if \<not> ok \<or> room \<le> length header then (None, m1)
              else (Some (render_hits room header hits), m1))"

definition text_message :: "xAgentRole \<Rightarrow> string \<Rightarrow> xAgentMessage" where
  "text_message r t = \<lparr>role = r, contents = [xAgentContent_Text (Some t) (strlen t)]\<rparr>"

definition system_messages :: "string option \<Rightarrow> xAgentMessage list" where
  "system_messages p =
     (case p of None \<Rightarrow> []
      | Some t \<Rightarrow> if strlen t = 0 then [] else [text_message xAgentRole_System t])"

text \<open>
  \<^verbatim>\<open>sess_input_view_build\<close>: the messages, and the rendered memory block when there is one. An
  end index of 0 means the whole history.
\<close>

definition sess_input_view_build ::
  "xAgentSession \<Rightarrow> xAgentSessionMsg list \<Rightarrow> nat \<Rightarrow>
   xErrno \<times> xAgentMessage list \<times> string option \<times> xAgentSession" where
  "sess_input_view_build s hits hist_end =
     (let (mem_text, m1) = format_memory_hits (s_mem s) hits;
          es = (if hist_end \<noteq> 0 then take hist_end (history s) else history s);
          msgs = system_messages (system_prompt s)
                 @ (case mem_text of None \<Rightarrow> [] | Some t \<Rightarrow> [text_message xAgentRole_System t])
                 @ fold_entries es
      in if msgs = [] then (xErrno_InvalidArg, [], None, s\<lparr>s_mem := m1\<rparr>)
         else let (ok1, m2) = draw m1; (ok2, m3) = draw m2
              in if ok1 \<and> ok2 then (xErrno_Ok, msgs, mem_text, s\<lparr>s_mem := m3\<rparr>)
                 else (xErrno_NoMemory, [], None, s\<lparr>s_mem := m3\<rparr>))"

section \<open>The query of a session\<close>

text \<open>
  Creating, running and destroying the session's query. The allocator's oracle is the
  session's; a query works on a copy of it and hands it back.
\<close>

definition create_query :: "xAgentSession \<Rightarrow> xAgentQueryConf \<Rightarrow> xAgentQuery option \<times> xAgentSession" where
  "create_query s conf =
     (case xAgentQueryCreate (s_mem s) conf of
        (Create_ok q, m) \<Rightarrow> (Some q, s\<lparr>s_query := Some q, s_mem := m\<rparr>)
      | (_, m) \<Rightarrow> (None, s\<lparr>s_mem := m\<rparr>))"

definition run_query ::
  "senv \<Rightarrow> xAgentMessage list \<Rightarrow> xAgentQuery \<Rightarrow> xAgentSession \<Rightarrow> xErrno \<times> xAgentSession" where
  "run_query env msgs q s =
     (case xAgentQueryRun (env_query env) msgs (q\<lparr>q_mem := s_mem s\<rparr>) of
        (rc, q') \<Rightarrow> (rc, s\<lparr>s_query := Some q', s_mem := q_mem q'\<rparr>))"

definition destroy_query :: "xAgentSession \<Rightarrow> xAgentSession" where
  "destroy_query s = s\<lparr>s_query := None\<rparr>"

section \<open>The budget gate\<close>

definition gate_pass :: "nat \<Rightarrow> xAgentSession \<Rightarrow> xAgentSession" where
  "gate_pass estimated s =
     (let s1 = s\<lparr>last_compact_history_len := 0, last_gate_total := estimated\<rparr>
      in budget_event
           (Sev_gate_passed (session_budget_limit s1) estimated (effective_limit s1 - estimated)
              (last_first_round_prompt_tokens s1)) s1)"

text \<open>
  The range to compact: from the user turn after the preserved head to the first preserved
  tail turn (or the end). The sum of the two counts is \<^verbatim>\<open>size_t\<close> arithmetic on values of the
  caller.
\<close>

definition compact_range :: "xAgentBudgetConf \<Rightarrow> xAgentSessionMsg list \<Rightarrow> (nat \<times> nat) option" where
  "compact_range b es =
     (let users = user_count es;
          keep_head = context_preserve_head_turns b;
          keep_tail = context_preserve_tail_turns b
      in if users = 0 \<or> users \<le> size_add keep_head keep_tail then None
         else case ai_budget_find_user_turn es keep_head of
             None \<Rightarrow> None
           | Some compact_start \<Rightarrow>
               (case (if keep_tail = 0 then Some (length es)
                      else ai_budget_find_user_turn es (size_sub users keep_tail)) of
                  None \<Rightarrow> None
                | Some compact_end \<Rightarrow>
                    if compact_end \<le> compact_start then None
                    else Some (compact_start, compact_end)))"

definition save_pending :: "xAgentMessage \<Rightarrow> xAgentSession \<Rightarrow> xAgentSession" where
  "save_pending msg s =
     (if 0 < text_total (contents msg) then
        (let (ok, m) = draw (s_mem s)
         in s\<lparr>s_mem := m, pending_text := (if ok then Some (text_bytes (contents msg)) else pending_text s)\<rparr>)
      else s)"

definition XAGENT_SUMMARY_INSTRUCT_PROMPT :: "nat \<Rightarrow> string" where
  "XAGENT_SUMMARY_INSTRUCT_PROMPT keep =
     ''The conversation above has grown too long and must be compressed. '' @
     ''Please summarise the '' @ dec keep @ '' messages above so that the conversation '' @
     ''can continue with this summary in place of the originals. Be as '' @
     ''concise as possible while preserving all names, numbers, decisions '' @
     ''and key facts. Do NOT add any information that was not in the '' @
     ''original messages.''"

text \<open>\<^verbatim>\<open>snprintf\<close> into \<^verbatim>\<open>summary_instr[512]\<close>.\<close>

definition summary_instr :: "nat \<Rightarrow> string" where
  "summary_instr keep = take 511 (XAGENT_SUMMARY_INSTRUCT_PROMPT keep)"

definition compact_cbs :: xAgentQueryCallbacks where
  "compact_cbs = \<lparr>on_text = False, on_thinking = False, on_done = True, on_error = False,
     on_tool = False, on_tool_confirm = False\<rparr>"

definition compact_conf :: "xAgent \<Rightarrow> xAgentSession \<Rightarrow> xAgentQueryConf" where
  "compact_conf ag s = \<lparr>qc_provider = ag_provider ag, qc_tools = ag_tools ag, qc_model = s_model s,
     qc_max_tokens = 1024, qc_max_turns = 1, qc_cbs = compact_cbs,
     qc_session = Some (s_query s \<noteq> None)\<rparr>"

definition compact_launch ::
  "senv \<Rightarrow> xAgent \<Rightarrow> xAgentMessage \<Rightarrow> nat \<Rightarrow> nat \<Rightarrow> xAgentSession \<Rightarrow> xErrno \<times> xAgentSession" where
  "compact_launch env ag msg compact_start compact_end s =
     (let s1 = (save_pending msg s)\<lparr>compact_start_idx := compact_start, compact_end_idx := compact_end,
                  last_compact_history_len := length (history s)\<rparr>;
          s2 = budget_event (Sev_compacting compact_end) s1
      in case sess_input_view_build s2 [] compact_end of
           (vrc, view, _, s3) \<Rightarrow>
             if vrc \<noteq> xErrno_Ok then (xErrno_PromptTooLong, s3)
             else let (ok1, m1) = draw (s_mem s3); (ok2, m2) = draw m1; s4 = s3\<lparr>s_mem := m2\<rparr>
                  in if \<not> (ok1 \<and> ok2) then (xErrno_PromptTooLong, s4)
                     else case create_query s4 (compact_conf ag s4) of
                         (None, s5) \<Rightarrow> (xErrno_NoMemory, s5)
                       | (Some q, s5) \<Rightarrow>
                           (case run_query env
                                (view @ [text_message xAgentRole_User (summary_instr (compact_end - compact_start))])
                                q (s5\<lparr>compacting := True\<rparr>) of
                              (rc, s6) \<Rightarrow>
                                if rc \<noteq> xErrno_Ok
                                then (xErrno_PromptTooLong, destroy_query (s6\<lparr>compacting := False\<rparr>))
                                else (xErrno_Busy, s6)))"

definition session_enforce_budget ::
  "senv \<Rightarrow> xAgent \<Rightarrow> xAgentMessage \<Rightarrow> xAgentSession \<Rightarrow> xErrno \<times> xAgentSession" where
  "session_enforce_budget env ag msg s =
     (if policy (budget s) = xAgentBudgetPolicy_Disabled then (xErrno_Ok, s)
      else let incoming = estimate_incoming_user_tokens msg;
               estimated = session_estimate_current env s + incoming
           in if estimated \<le> effective_limit s then (xErrno_Ok, gate_pass estimated s)
              else let (_, _, s1) = session_trim_consumed_tool_results s;
                       estimated1 = session_estimate_current env s1 + incoming
                   in if estimated1 \<le> effective_limit s then (xErrno_Ok, gate_pass estimated1 s1)
                      else if policy (budget s1) = xAgentBudgetPolicy_Error then (xErrno_PromptTooLong, s1)
                      else case compact_range (budget s1) (history s1) of
                          None \<Rightarrow> (xErrno_PromptTooLong, s1)
                        | Some (compact_start, compact_end) \<Rightarrow>
                            if 0 < last_compact_history_len s1
                               \<and> length (history s1) \<le> last_compact_history_len s1
                            then (xErrno_PromptTooLong, s1)
                            else if compacting s1 then (xErrno_Busy, s1)
                            else compact_launch env ag msg compact_start compact_end s1)"

section \<open>Input\<close>

definition session_fwd_cbs :: "xAgentSession \<Rightarrow> xAgentQueryCallbacks" where
  "session_fwd_cbs s = \<lparr>on_text = True, on_thinking = True, on_done = True, on_error = True,
     on_tool = True, on_tool_confirm = s_on_tool_confirm (s_cbs s)\<rparr>"

definition session_conf :: "xAgent \<Rightarrow> xAgentSession \<Rightarrow> xAgentQueryConf" where
  "session_conf ag s = \<lparr>
     qc_provider = (case provider_override s of None \<Rightarrow> ag_provider ag | Some p \<Rightarrow> Some p),
     qc_tools = ag_tools ag, qc_model = s_model s, qc_max_tokens = s_max_tokens s,
     qc_max_turns = s_max_turns s, qc_cbs = session_fwd_cbs s,
     qc_session = Some (s_query s \<noteq> None)\<rparr>"

text \<open>The rollback loop: pop until the length is the checkpoint's.\<close>

function rollback :: "nat \<Rightarrow> xAgentSession \<Rightarrow> xAgentSession" where
  "rollback checkpoint s =
     (if checkpoint < length (history s)
      then rollback checkpoint (s\<lparr>history_arr := snd (xArrayPop (history_arr s))\<rparr>) else s)"
  by pat_completeness auto
termination
  by (relation "measure (\<lambda>(c, s). length (history s))") (auto simp: xArrayPop_elems)

declare rollback.simps [simp del]

definition memory_hits :: "senv \<Rightarrow> xAgent \<Rightarrow> xAgentMessage \<Rightarrow> xAgentSession \<Rightarrow> xAgentSessionMsg list" where
  "memory_hits env ag msg s =
     (case session_id s of
        None \<Rightarrow> []
      | Some i \<Rightarrow> if ag_memory ag then env_retrieve env i (Some msg) else [])"

text \<open>What follows the admission: append, build the view, create and run the query.\<close>

definition session_start ::
  "senv \<Rightarrow> xAgent \<Rightarrow> xAgentMessage \<Rightarrow> xAgentSessionMsg list \<Rightarrow> xAgentSession \<Rightarrow> xErrno \<times> xAgentSession" where
  "session_start env ag msg hits s =
     (let checkpoint = length (history s)
      in case history_append_user_msg env s msg of (rc, s1) \<Rightarrow>
        if rc \<noteq> xErrno_Ok then (rc, s1)
        else let s2 = s1\<lparr>delta_entries := delta_entries s1 + (length (history s1) - checkpoint)\<rparr>
             in case sess_input_view_build s2 hits 0 of (vrc, view, mem_text, s3) \<Rightarrow>
               if vrc \<noteq> xErrno_Ok then (vrc, rollback checkpoint s3)
               else let s4 = session_update_overhead_tokens mem_text s3
                    in case create_query s4 (session_conf ag s4) of
                        (None, s5) \<Rightarrow> (xErrno_NoMemory, rollback checkpoint s5)
                      | (Some q, s5) \<Rightarrow>
                          (case run_query env view q s5 of (rc2, s6) \<Rightarrow>
                             if rc2 \<noteq> xErrno_Ok then (rc2, rollback checkpoint (destroy_query s6))
                             else (xErrno_Ok, s6)))"

definition xAgentSessionInput ::
  "senv \<Rightarrow> xAgent \<Rightarrow> xAgentMessage \<Rightarrow> xAgentSession \<Rightarrow> xErrno \<times> xAgentSession" where
  "xAgentSessionInput env ag msg s =
     (if s_query s \<noteq> None \<or> compacting s then (xErrno_Busy, s)
      else case session_enforce_budget env ag msg s of (rc, s1) \<Rightarrow>
        if rc \<noteq> xErrno_Ok then (rc, s1)
        else session_start env ag msg (memory_hits env ag msg s) s1)"

section \<open>The end of a run\<close>

definition session_auto_retry_pending :: "senv \<Rightarrow> xAgent \<Rightarrow> xAgentSession \<Rightarrow> xAgentSession" where
  "session_auto_retry_pending env ag s =
     (case pending_text s of
        None \<Rightarrow> s
      | Some t \<Rightarrow>
          snd (xAgentSessionInput env ag
                 \<lparr>role = xAgentRole_User, contents = [xAgentContent_Text (Some t) (length t)]\<rparr>
                 (s\<lparr>pending_text := None\<rparr>)))"

text \<open>The bytes of the entries of one kind that have a text, in order.\<close>

definition kind_text :: "xAgentSessionEntryKind \<Rightarrow> xAgentSessionMsg \<Rightarrow> bool" where
  "kind_text k e \<longleftrightarrow> m_kind e = k \<and> m_text e \<noteq> None"

definition produced_bytes :: "xAgentSessionEntryKind \<Rightarrow> xAgentSessionMsg list \<Rightarrow> string" where
  "produced_bytes k es =
     concat (map (\<lambda>e. take (m_text_len e) (or_empty (m_text e))) (filter (kind_text k) es))"

definition produced_total :: "xAgentSessionEntryKind \<Rightarrow> xAgentSessionMsg list \<Rightarrow> nat" where
  "produced_total k es = sum_list (map m_text_len (filter (kind_text k) es))"

definition SUMMARY_PREFIX :: string where
  "SUMMARY_PREFIX = ''[summary] ''"

text \<open>
  The summary: the Text entries, or the Thinking entries when there is no Text entry at all.
  None when it is empty or cannot be allocated. The length is that of the buffer.
\<close>

definition summary_text :: "allocs \<Rightarrow> xAgentSessionMsg list \<Rightarrow> (string \<times> nat) option \<times> allocs" where
  "summary_text m produced =
     (let text_found = list_ex (kind_text xAgentSessionEntry_Text) produced;
          k = (if \<not> text_found \<and> 0 < produced_total xAgentSessionEntry_Thinking produced
               then xAgentSessionEntry_Thinking else xAgentSessionEntry_Text);
          n = produced_total k produced
      in if n = 0 then (None, m)
         else let (ok, m1) = draw m
              in (if ok then Some (SUMMARY_PREFIX @ produced_bytes k produced, length SUMMARY_PREFIX + n)
                  else None, m1))"

definition memory_append :: "xAgentMemoryAppendReason \<Rightarrow> xAgentSessionMsg list \<Rightarrow> xAgentSession \<Rightarrow> xAgentSession" where
  "memory_append reason es s =
     (if memory s \<and> session_id_copy s \<noteq> None \<and> es \<noteq> [] then semit (Sev_memory_append reason es) s else s)"

definition summary_entry :: "nat \<Rightarrow> string \<Rightarrow> nat \<Rightarrow> xAgentSessionMsg" where
  "summary_entry now t n = zero_msg\<lparr>m_role := xAgentRole_Summary, m_kind := xAgentSessionEntry_Text,
     m_text := Some t, m_text_len := n, m_created_at_ms := now\<rparr>"

text \<open>
  The splice: persist the part of the range that is not in the store yet, remove the range and
  move the persisted prefix back, insert the summary, persist it, and let the prefix cover it.
  False is the failed insertion.
\<close>

definition persist_evicted :: "xAgentSession \<Rightarrow> xAgentSession" where
  "persist_evicted s =
     (let st = compact_start_idx s; en = compact_end_idx s;
          skip_start = (if st < persisted_prefix s
                        then (if persisted_prefix s < en then persisted_prefix s else en) else st)
      in if st < en \<and> skip_start < en
         then memory_append xAgentMemoryAppendReason_Compacted
                (take (en - skip_start) (drop skip_start (history s))) s
         else s)"

definition evict :: "xAgentSession \<Rightarrow> xAgentSession" where
  "evict s =
     (let st = compact_start_idx s; en = compact_end_idx s;
          s1 = s\<lparr>history_arr := snd (xArrayRemoveRange (history_arr s) st (en - st))\<rparr>
      in if st < persisted_prefix s1
         then s1\<lparr>persisted_prefix := persisted_prefix s1
                - ((if persisted_prefix s1 < en then persisted_prefix s1 else en) - st)\<rparr>
         else s1)"

definition compact_splice :: "senv \<Rightarrow> string \<Rightarrow> nat \<Rightarrow> xAgentSession \<Rightarrow> bool \<times> xAgentSession" where
  "compact_splice env t n s =
     (let st = compact_start_idx s; s1 = evict (persist_evicted s)
      in case xArrayInsert (s_mem s1) (history_arr s1) st
                (summary_entry (env_wall env (s_trace s1)) t n) of
           (irc, a, m) \<Rightarrow>
             if irc \<noteq> xErrno_Ok then (False, s1\<lparr>history_arr := a, s_mem := m\<rparr>)
             else let s2 = memory_append xAgentMemoryAppendReason_Compacted [elems a ! st]
                             (s1\<lparr>history_arr := a, s_mem := m\<rparr>)
                  in (True, s2\<lparr>persisted_prefix :=
                       (if persisted_prefix s2 < st + 1 then st + 1 else persisted_prefix s2)\<rparr>))"

text \<open>
  \<^verbatim>\<open>sess_fwd_on_done\<close> of a compaction: everything up to the event, then the retry of the
  message that triggered it.
\<close>

definition compact_finish :: "senv \<Rightarrow> xAgentQuery \<Rightarrow> xAgentSession \<Rightarrow> xAgentSession" where
  "compact_finish env q s =
     (let (summary, m) = summary_text (s_mem s) (elems (produced_arr q));
          s0 = s\<lparr>s_mem := m\<rparr>;
          en = compact_end_idx s;
          (ok, s1) = (case summary of None \<Rightarrow> (False, s0) | Some (t, n) \<Rightarrow> compact_splice env t n s0);
          s2 = s1\<lparr>compacting := False, compact_start_idx := 0, compact_end_idx := 0\<rparr>;
          s3 = (if ok then s2\<lparr>known_prompt_tokens := -1, delta_entries := 0\<rparr> else s2);
          s4 = destroy_query s3
      in budget_event
           (Sev_compact_done ok
              (if ok then ai_budget_estimate_tokens (take 1 (history s4)) else 0) en) s4)"

definition compact_done :: "senv \<Rightarrow> xAgent \<Rightarrow> xAgentQuery \<Rightarrow> xAgentSession \<Rightarrow> xAgentSession" where
  "compact_done env ag q s = session_auto_retry_pending env ag (compact_finish env q s)"

text \<open>The produced entries move into the history one by one; an allocation failure stops there.\<close>

fun merge_produced :: "allocs \<Rightarrow> msgs \<Rightarrow> xAgentSessionMsg list \<Rightarrow> msgs \<times> allocs" where
  "merge_produced m a [] = (a, m)"
| "merge_produced m a (e # es) =
     (case xArrayPush m a e of
        (ok, a1, m1) \<Rightarrow> if ok then merge_produced m1 a1 es else (a1, m1))"

definition session_sidecar_cleanup :: "xAgentSession \<Rightarrow> xAgentSession" where
  "session_sidecar_cleanup s =
     s\<lparr>sidecar_idle_timer := False, sidecar := None, sidecar_tool_use_id := None,
       sidecar_output := None\<rparr>"

definition run_done ::
  "xAgentQuery \<Rightarrow> xAgentDoneReason \<Rightarrow> xAgentUsage option \<Rightarrow> xAgentSession \<Rightarrow> xAgentSession" where
  "run_done q reason u s =
     (let produced = elems (produced_arr q);
          s1 = (if u \<noteq> None \<and> 0 < first_round_prompt_tokens q
                then s\<lparr>known_prompt_tokens := first_round_prompt_tokens q, delta_entries := 0\<rparr> else s);
          s2 = s1\<lparr>last_first_round_prompt_tokens := first_round_prompt_tokens q, last_gate_total := 0\<rparr>;
          (a, m) = merge_produced (s_mem s2) (history_arr s2) produced;
          s3 = s2\<lparr>history_arr := a, s_mem := m, delta_entries := delta_entries s2 + length produced\<rparr>;
          s4 = sfire s_on_done (Sev_on_done reason u) s3
      in destroy_query (session_sidecar_cleanup s4))"

definition sess_fwd_on_done ::
  "senv \<Rightarrow> xAgent \<Rightarrow> xAgentQuery \<Rightarrow> xAgentDoneReason \<Rightarrow> xAgentUsage option \<Rightarrow> xAgentSession \<Rightarrow> xAgentSession" where
  "sess_fwd_on_done env ag q reason u s =
     (if compacting s then compact_done env ag q s else run_done q reason u s)"

section \<open>Forwarding\<close>

fun sess_forward :: "qevent \<Rightarrow> xAgentSession \<Rightarrow> xAgentSession" where
  "sess_forward (Ev_on_text chunk) s = sfire s_on_text (Sev_on_text chunk) s"
| "sess_forward (Ev_on_thinking chunk) s = sfire s_on_thinking (Sev_on_thinking chunk) s"
| "sess_forward (Ev_on_error e msg) s = sfire s_on_error (Sev_on_error e msg) s"
| "sess_forward (Ev_on_tool n started) s = sfire s_on_tool (Sev_on_tool n started) s"
| "sess_forward (Ev_on_tool_confirm n i g h) s = sfire s_on_tool_confirm (Sev_on_tool_confirm n i g h) s"
| "sess_forward _ s = s"

fun done_event :: "qevent list \<Rightarrow> (xAgentDoneReason \<times> xAgentUsage option) option" where
  "done_event [] = None"
| "done_event (Ev_on_done reason u # evs) = Some (reason, u)"
| "done_event (_ # evs) = done_event evs"

text \<open>
  One input of the query's state machine: the query takes its step, what it fired is forwarded
  in order, and when it finished, \<^verbatim>\<open>sess_fwd_on_done\<close> runs on the final query. A query calls
  \<^verbatim>\<open>on_done\<close> last, unless a host answers a confirmation from inside the callback; the worlds
  that do so are outside this composition.
\<close>

definition session_query_step :: "senv \<Rightarrow> xAgent \<Rightarrow> qinput \<Rightarrow> xAgentSession \<Rightarrow> xAgentSession" where
  "session_query_step env ag inp s =
     (case s_query s of
        None \<Rightarrow> s
      | Some q \<Rightarrow>
          let q' = query_step (env_query env) (q\<lparr>q_mem := s_mem s\<rparr>) inp;
              evs = drop (length (trace q)) (trace q');
              s1 = fold sess_forward evs (s\<lparr>s_query := Some q', s_mem := q_mem q'\<rparr>)
          in case done_event evs of
               None \<Rightarrow> s1
             | Some (reason, u) \<Rightarrow> sess_fwd_on_done env ag q' reason u s1)"

section \<open>Life cycle and settings\<close>

record xAgentSessionConf =
  sc_cbs :: xAgentSessionCallbacks
  sc_system_prompt :: "string option"
  sc_model :: "string option"
  sc_max_turns :: int
  sc_max_tokens :: int
  sc_budget :: xAgentBudgetConf
  sc_on_finalizing :: bool
  sc_memory :: bool
  sc_session_id :: "string option"
  sc_session_id_copy :: "string option"
  sc_sidecar_idle_ms :: nat

definition xAgentSessionCreate ::
  "allocs \<Rightarrow> xAgent \<Rightarrow> xAgentSessionConf \<Rightarrow> xAgentSession option \<times> allocs" where
  "xAgentSessionCreate m ag conf =
     (let (ok, m1) = draw m
      in if \<not> ok then (None, m1)
         else let src = (case sc_model conf of None \<Rightarrow> ag_model ag | Some t \<Rightarrow> Some t);
                  (model_copy, m2) = dup_cstr m1 src
              in if src \<noteq> None \<and> model_copy = None then (None, m2)
                 else case xArrayCreate m2 1 8 of
                     (None, m3) \<Rightarrow> (None, m3)
                   | (Some a, m3) \<Rightarrow>
                       (Some (session_update_overhead_tokens None
                          \<lparr>s_cbs = sc_cbs conf,
                           system_prompt = (case sc_system_prompt conf of
                                              None \<Rightarrow> ag_system_prompt ag | Some t \<Rightarrow> Some t),
                           s_model = model_copy,
                           s_max_turns = (if 0 < sc_max_turns conf then sc_max_turns conf else ag_max_turns ag),
                           s_max_tokens = (if 0 < sc_max_tokens conf then sc_max_tokens conf
                                           else ag_max_tokens ag),
                           provider_override = None, budget = sc_budget conf, known_prompt_tokens = -1,
                           delta_entries = 0, last_gate_total = 0, last_first_round_prompt_tokens = -1,
                           overhead_tokens = 0, compacting = False, compact_start_idx = 0,
                           compact_end_idx = 0, last_compact_history_len = 0, pending_text = None,
                           memory = sc_memory conf, session_id = sc_session_id conf,
                           session_id_copy = sc_session_id_copy conf,
                           on_finalizing = sc_on_finalizing conf, persisted_prefix = 0,
                           history_arr = a, s_query = None, sidecar = None,
                           sidecar_idle_timer = False, sidecar_idle_ms = sc_sidecar_idle_ms conf,
                           sidecar_tool_use_id = None, sidecar_output = None, s_mem = m3,
                           s_trace = []\<rparr>), m3))"

definition xAgentSessionCancel :: "xAgentSession \<Rightarrow> xAgentSession" where
  "xAgentSessionCancel s = s\<lparr>s_query := map_option xAgentQueryCancel (s_query s)\<rparr>"

definition xAgentSessionSetProvider :: "xAgentSession \<Rightarrow> nat option \<Rightarrow> xAgentSession" where
  "xAgentSessionSetProvider s p = s\<lparr>provider_override := p\<rparr>"

definition xAgentSessionSetModel ::
  "xAgent \<Rightarrow> xAgentSession \<Rightarrow> string option \<Rightarrow> xErrno \<times> xAgentSession" where
  "xAgentSessionSetModel ag s model_id =
     (case ag_registry ag of
        None \<Rightarrow> (xErrno_InvalidState, s)
      | Some reg \<Rightarrow>
          (case model_id of
             None \<Rightarrow> (let (mm, m) = dup_cstr (s_mem s) (ag_model ag)
                      in (xErrno_Ok, s\<lparr>provider_override := None, s_model := mm, s_mem := m\<rparr>))
           | Some i \<Rightarrow>
               (case xAgentModelRegistryGet reg i of
                  None \<Rightarrow> (xErrno_NotFound, s)
                | Some spec \<Rightarrow>
                    let (new_model, m) = dup_cstr (s_mem s) (ms_model spec)
                    in if ms_model spec \<noteq> None \<and> new_model = None
                       then (xErrno_NoMemory, s\<lparr>s_mem := m\<rparr>)
                       else (xErrno_Ok, s\<lparr>provider_override := ms_provider spec, s_model := new_model,
                                          s_mem := m\<rparr>))))"

definition xAgentSessionSetContextWindow :: "xAgentSession \<Rightarrow> nat \<Rightarrow> xAgentSession" where
  "xAgentSessionSetContextWindow s w = s\<lparr>budget := (budget s)\<lparr>context_window := w\<rparr>\<rparr>"

definition xAgentSessionSetBudget :: "xAgentSession \<Rightarrow> xAgentBudgetConf \<Rightarrow> xAgentSession" where
  "xAgentSessionSetBudget s conf = s\<lparr>budget := (budget s)\<lparr>context_window := context_window conf\<rparr>\<rparr>"

text \<open>
  \<^verbatim>\<open>xAgentSessionDestroy\<close> up to the release of the storage: the query and the sidecar go, the
  entries that are not in the store yet are appended, the hook runs once.
\<close>

definition xAgentSessionDestroy :: "xAgentSession \<Rightarrow> xAgentSession" where
  "xAgentSessionDestroy s =
     (let s1 = (case s_query s of None \<Rightarrow> s | Some q \<Rightarrow> destroy_query s);
          s2 = session_sidecar_cleanup s1;
          len = length (history s2);
          skip = (if persisted_prefix s2 < len then persisted_prefix s2 else len);
          s3 = (if memory s2 \<and> session_id_copy s2 \<noteq> None
                then (memory_append xAgentMemoryAppendReason_Finalizing (drop skip (history s2)) s2)
                       \<lparr>session_id_copy := None\<rparr>
                else s2);
          s4 = (if on_finalizing s3 then semit Sev_on_finalizing (s3\<lparr>on_finalizing := False\<rparr>) else s3)
      in s4\<lparr>history_arr := xArrayReset (history_arr s4), pending_text := None, s_model := None\<rparr>)"

end
