(* ===== verification/BudgetGate.thy ===== *)
theory BudgetGate
  imports Session
begin

text \<open>
  The budget gate of \<^verbatim>\<open>session.c\<close>: what trimming may change, which range a compaction takes, and
  what each verdict of the gate says about the session.
\<close>

section \<open>Trimming\<close>

text \<open>An entry after a trim pass: untouched, or a tool result whose output became the marker.\<close>

definition trimmed_to :: "xAgentSessionMsg \<Rightarrow> xAgentSessionMsg \<Rightarrow> bool" where
  "trimmed_to e e' \<longleftrightarrow> e' = e \<or> (trimmable e \<and> e' = trim_entry e)"

abbreviation trim_related :: "xAgentSessionMsg list \<Rightarrow> xAgentSessionMsg list \<Rightarrow> bool" where
  "trim_related \<equiv> list_all2 trimmed_to"

lemma trim_related_refl [simp]: "trim_related es es"
  by (simp add: list.rel_refl trimmed_to_def)

lemma trim_entry_fields [simp]:
  "m_role (trim_entry e) = m_role e" "m_kind (trim_entry e) = m_kind e"
  "m_text (trim_entry e) = m_text e" "m_text_len (trim_entry e) = m_text_len e"
  "m_tool_use_id (trim_entry e) = m_tool_use_id e" "m_tool_use_name (trim_entry e) = m_tool_use_name e"
  "m_tool_use_args (trim_entry e) = m_tool_use_args e" "m_tool_result_id (trim_entry e) = m_tool_result_id e"
  "m_tool_result_is_error (trim_entry e) = m_tool_result_is_error e"
  "m_created_at_ms (trim_entry e) = m_created_at_ms e"
  by (simp_all add: trim_entry_def Let_def)

lemma trimmed_to_fields:
  assumes "trimmed_to e e'"
  shows "m_role e' = m_role e" and "m_kind e' = m_kind e" and "m_text e' = m_text e"
    and "m_text_len e' = m_text_len e" and "m_tool_use_id e' = m_tool_use_id e"
    and "m_tool_result_id e' = m_tool_result_id e"
  using assms by (auto simp: trimmed_to_def)

lemma marker_prefix: "has_prefix TRIM_PREFIX (trim_marker n)"
  by (simp add: has_prefix_def TRIM_PREFIX_def trim_marker_def)

text \<open>The marker fits its buffer of 96 bytes for every \<^verbatim>\<open>size_t\<close>.\<close>

lemma marker_length: "n < SIZE_LIM \<Longrightarrow> length (trim_marker n) < 96"
proof -
  assume "n < SIZE_LIM"
  also have "(SIZE_LIM :: nat) \<le> 10 ^ Suc 19" by (simp add: SIZE_LIM_def)
  finally have "length (dec n) \<le> Suc 19" by (rule length_dec_le)
  then show ?thesis by (simp add: trim_marker_def)
qed

lemma trim_entry_not_trimmable: "\<not> trimmable (trim_entry e)"
  by (simp add: trimmable_def trim_entry_def Let_def marker_prefix)

lemma trim_from_related:
  "trim_from m es = (es', n, freed, m') \<Longrightarrow> trim_related es es' \<and> (n = 0 \<longrightarrow> es' = es)"
proof (induction es arbitrary: m es' n freed m')
  case Nil
  then show ?case by simp
next
  case (Cons e es)
  obtain ok m1 where d: "draw m = (ok, m1)" by fastforce
  obtain t k f m2 where r: "trim_from (if trimmable e then m1 else m) es = (t, k, f, m2)"
    by (metis prod_cases4)
  from Cons.IH [OF r] Cons.prems d r show ?case
    by (auto simp: trimmed_to_def split: if_splits)
qed

lemma trim_from_total: "trim_from [] es = (es', n, freed, m) \<Longrightarrow> m = [] \<and> list_all (\<lambda>e. \<not> trimmable e) es'"
proof (induction es arbitrary: es' n freed m)
  case Nil
  then show ?case by simp
next
  case (Cons e es)
  obtain t k f m2 where r: "trim_from [] es = (t, k, f, m2)" by (metis prod_cases4)
  from Cons.IH [OF r] Cons.prems r show ?case
    by (auto simp: trim_entry_not_trimmable split: if_splits)
qed

lemma trim_from_id: "list_all (\<lambda>e. \<not> trimmable e) es \<Longrightarrow> trim_from m es = (es, 0, 0, m)"
  by (induction es) auto

text \<open>What a trim pass leaves of a session.\<close>

lemma trim_session:
  assumes "session_trim_consumed_tool_results s = (n, freed, s')"
  shows "trim_related (history s) (history s')"
    and "n = 0 \<Longrightarrow> history s' = history s"
    and "s_query s' = s_query s" and "compacting s' = compacting s" and "budget s' = budget s"
    and "overhead_tokens s' = overhead_tokens s" and "s_max_tokens s' = s_max_tokens s"
    and "system_prompt s' = system_prompt s" and "persisted_prefix s' = persisted_prefix s"
    and "pending_text s' = pending_text s" and "s_trace s' = s_trace s"
    and "last_compact_history_len s' = last_compact_history_len s"
    and "cap (history_arr s') = cap (history_arr s)"
    and "compact_start_idx s' = compact_start_idx s" and "compact_end_idx s' = compact_end_idx s"
    and "memory s' = memory s" and "session_id_copy s' = session_id_copy s"
proof -
  obtain es k f m where t: "trim_from (s_mem s) (rev (history s)) = (es, k, f, m)"
    by (metis prod_cases4)
  note r = trim_from_related [OF t]
  then have "list_all2 trimmed_to (rev (rev (history s))) (rev es)" by (simp only: list_all2_rev)
  with r t assms show "trim_related (history s) (history s')"
    and "n = 0 \<Longrightarrow> history s' = history s"
    by (auto simp: session_trim_consumed_tool_results_def Let_def split: if_splits)
qed (use assms in \<open>auto simp: session_trim_consumed_tool_results_def Let_def split: prod.splits if_splits\<close>)

lemma trim_session_idempotent:
  assumes "s_mem s = []" and "session_trim_consumed_tool_results s = (n, freed, s')"
  shows "s_mem s' = []" and "session_trim_consumed_tool_results s' = (0, 0, s')"
proof -
  obtain es k f m where t: "trim_from [] (rev (history s)) = (es, k, f, m)" by (metis prod_cases4)
  note tot = trim_from_total [OF t]
  have h: "history s' = rev es" and mem: "s_mem s' = []"
    using assms t tot
    by (auto simp: session_trim_consumed_tool_results_def Let_def split: if_splits)
  show "s_mem s' = []" by (rule mem)
  have s': "s'\<lparr>history_arr := (history_arr s')\<lparr>elems := rev es\<rparr>, s_mem := []\<rparr> = s'"
    using h mem by (cases s'; cases "history_arr s'") simp
  show "session_trim_consumed_tool_results s' = (0, 0, s')"
    using tot trim_from_id [of es "[]"] s'
    unfolding session_trim_consumed_tool_results_def h mem rev_rev_ident by simp
qed

lemma trim_related_user_count: "trim_related es es' \<Longrightarrow> user_count es' = user_count es"
  by (induction rule: list_all2_induct) (auto simp: user_count_def dest: trimmed_to_fields(1))

lemma trim_related_ids:
  "trim_related es es' \<Longrightarrow> use_ids es' = use_ids es \<and> result_ids es' = result_ids es"
  by (induction rule: list_all2_induct)
    (auto simp: use_ids_def result_ids_def is_use_def is_result_def dest: trimmed_to_fields)

section \<open>The compacted range\<close>

definition conf_ok :: "xAgentBudgetConf \<Rightarrow> bool" where
  "conf_ok b \<longleftrightarrow> context_preserve_head_turns b < SIZE_LIM \<and> context_preserve_tail_turns b < SIZE_LIM"

lemma user_count_le: "user_count es \<le> length es"
  by (simp add: user_count_def)

lemma compact_range_Some:
  assumes "compact_range b es = Some (st, en)" and "conf_ok b" and "length es < SIZE_LIM"
  shows "st < en" and "en \<le> length es" and "is_user (es ! st)"
    and "user_count (take st es) = context_preserve_head_turns b"
    and "user_count (drop en es) = context_preserve_tail_turns b"
    and "en < length es \<Longrightarrow> is_user (es ! en)"
proof -
  let ?kt = "context_preserve_tail_turns b"
  from assms(1) have st: "ai_budget_find_user_turn es (context_preserve_head_turns b) = Some st"
    and en: "(if ?kt = 0 then Some (length es)
       else ai_budget_find_user_turn es (size_sub (user_count es) ?kt)) = Some en"
    and less: "st < en"
    by (auto simp: compact_range_def Let_def split: if_splits option.splits)
  note st' = find_user_turn_Some [OF st]
  show "st < en" by (rule less)
  show "is_user (es ! st)" and "user_count (take st es) = context_preserve_head_turns b"
    using st' by simp_all
  have split: "user_count (take en es) + user_count (drop en es) = user_count es"
    by (simp only: user_count_append [symmetric] append_take_drop_id)
  show "en \<le> length es" and "user_count (drop en es) = ?kt" and "en < length es \<Longrightarrow> is_user (es ! en)"
  proof (atomize (full), cases "?kt = 0")
    case True
    with en show "en \<le> length es \<and> user_count (drop en es) = ?kt \<and> (en < length es \<longrightarrow> is_user (es ! en))"
      by (simp add: user_count_def)
  next
    case False
    with en have f: "ai_budget_find_user_turn es (size_sub (user_count es) ?kt) = Some en" by simp
    then have lt: "size_sub (user_count es) ?kt < user_count es"
      using find_user_turn_None [of es "size_sub (user_count es) ?kt"] by (simp add: not_le [symmetric])
    have "?kt \<le> user_count es"
    proof (rule ccontr)
      assume no: "\<not> ?kt \<le> user_count es"
      have "?kt - user_count es < SIZE_LIM"
        by (rule le_less_trans [OF diff_le_self]) (use assms(2) in \<open>simp add: conf_ok_def\<close>)
      with no have "size_sub (user_count es) ?kt = SIZE_LIM - (?kt - user_count es)"
        by (simp add: size_sub_def)
      moreover have "?kt < SIZE_LIM" using assms(2) by (simp add: conf_ok_def)
      ultimately show False using lt no by linarith
    qed
    then have sub: "size_sub (user_count es) ?kt = user_count es - ?kt" by (rule size_sub_le)
    with find_user_turn_Some [OF f] split \<open>?kt \<le> user_count es\<close>
    show "en \<le> length es \<and> user_count (drop en es) = ?kt \<and> (en < length es \<longrightarrow> is_user (es ! en))"
      by simp
  qed
qed

section \<open>The verdicts of the gate\<close>

lemma budget_event_frame [frame_simps]:
  "history (budget_event ev s) = history s" "history_arr (budget_event ev s) = history_arr s"
  "s_query (budget_event ev s) = s_query s"
  "compacting (budget_event ev s) = compacting s" "budget (budget_event ev s) = budget s"
  "s_mem (budget_event ev s) = s_mem s" "system_prompt (budget_event ev s) = system_prompt s"
  "known_prompt_tokens (budget_event ev s) = known_prompt_tokens s"
  "delta_entries (budget_event ev s) = delta_entries s"
  "overhead_tokens (budget_event ev s) = overhead_tokens s"
  "s_max_tokens (budget_event ev s) = s_max_tokens s"
  "compact_start_idx (budget_event ev s) = compact_start_idx s"
  "compact_end_idx (budget_event ev s) = compact_end_idx s"
  "persisted_prefix (budget_event ev s) = persisted_prefix s"
  "pending_text (budget_event ev s) = pending_text s"
  by (simp_all add: budget_event_def semit_def)

lemma gate_pass_frame [frame_simps]:
  "history_arr (gate_pass est s) = history_arr s" "s_query (gate_pass est s) = s_query s"
  "compacting (gate_pass est s) = compacting s" "budget (gate_pass est s) = budget s"
  "s_mem (gate_pass est s) = s_mem s" "system_prompt (gate_pass est s) = system_prompt s"
  "known_prompt_tokens (gate_pass est s) = known_prompt_tokens s"
  "delta_entries (gate_pass est s) = delta_entries s"
  "overhead_tokens (gate_pass est s) = overhead_tokens s"
  "s_max_tokens (gate_pass est s) = s_max_tokens s"
  "persisted_prefix (gate_pass est s) = persisted_prefix s"
  by (simp_all add: gate_pass_def Let_def frame_simps)

lemma estimate_gate_pass: "session_estimate_current env (gate_pass est s) = session_estimate_current env s"
  by (simp add: session_estimate_current_def frame_simps Let_def)

lemma limit_gate_pass: "effective_limit (gate_pass est s) = effective_limit s"
  by (simp add: effective_limit_def session_budget_limit_def frame_simps Let_def)

text \<open>The launch of a compaction.\<close>

lemma create_query_frame:
  assumes "create_query s conf = (oq, s')"
  shows "s' = s\<lparr>s_query := (if oq = None then s_query s else oq), s_mem := s_mem s'\<rparr>"
    and "oq \<noteq> None \<Longrightarrow> qc_session conf \<noteq> Some True"
  using assms
  by (auto simp: create_query_def xAgentQueryCreate_def Let_def
      split: create_result.splits prod.splits option.splits if_splits)

lemma run_query_frame:
  "run_query env msgs q s = (rc, s') \<Longrightarrow> s_query s' \<noteq> None \<and> compacting s' = compacting s \<and>
   compact_start_idx s' = compact_start_idx s \<and> compact_end_idx s' = compact_end_idx s"
  by (auto simp: run_query_def split: prod.splits)

lemma view_build_frame:
  "sess_input_view_build s hits n = (rc, view, mt, s') \<Longrightarrow> s' = s\<lparr>s_mem := s_mem s'\<rparr>"
  by (auto simp: sess_input_view_build_def Let_def split: prod.splits if_splits)

text \<open>Fields a launch leaves alone, whatever its outcome.\<close>

definition kept :: "xAgentSession \<Rightarrow> xAgentSession \<Rightarrow> bool" where
  "kept s s' \<longleftrightarrow> history_arr s' = history_arr s \<and> budget s' = budget s \<and> system_prompt s' = system_prompt s
     \<and> persisted_prefix s' = persisted_prefix s \<and> s_cbs s' = s_cbs s \<and> s_model s' = s_model s
     \<and> memory s' = memory s \<and> session_id_copy s' = session_id_copy s \<and> overhead_tokens s' = overhead_tokens s
     \<and> known_prompt_tokens s' = known_prompt_tokens s \<and> delta_entries s' = delta_entries s
     \<and> s_max_turns s' = s_max_turns s \<and> s_max_tokens s' = s_max_tokens s"

lemma kept_refl [simp]: "kept s s"
  by (simp add: kept_def)

lemma kept_trans: "kept a b \<Longrightarrow> kept b c \<Longrightarrow> kept a c"
  by (simp add: kept_def)

lemma kept_save_pending: "kept s (save_pending msg s)"
  by (simp add: save_pending_def kept_def split: prod.split)

lemma kept_budget_event: "kept s (budget_event ev s)"
  by (simp add: budget_event_def semit_def kept_def)

lemma kept_query: "kept s (s\<lparr>s_query := q, s_mem := m\<rparr>)"
  by (simp add: kept_def)

lemma kept_create: "create_query s conf = (oq, s') \<Longrightarrow> kept s s'"
  by (auto simp: create_query_def kept_def split: create_result.splits prod.splits)

lemma kept_run: "run_query env msgs q s = (rc, s') \<Longrightarrow> kept s s'"
  by (auto simp: run_query_def kept_def split: prod.splits)

lemma kept_view: "sess_input_view_build s hits n = (rc, view, mt, s') \<Longrightarrow> kept s s'"
  by (auto simp: sess_input_view_build_def Let_def kept_def split: prod.splits if_splits)

definition idle :: "xAgentSession \<Rightarrow> bool" where
  "idle s \<longleftrightarrow> s_query s = None \<and> \<not> compacting s"

lemma compact_launch_cases:
  assumes "compact_launch env ag msg st en s = (rc, s')" and "idle s"
  shows "kept s s'"
    and "rc \<in> {xErrno_Busy, xErrno_PromptTooLong, xErrno_NoMemory}"
    and "rc = xErrno_Busy \<Longrightarrow> compacting s' \<and> s_query s' \<noteq> None \<and>
           compact_start_idx s' = st \<and> compact_end_idx s' = en"
    and "rc \<noteq> xErrno_Busy \<Longrightarrow> idle s'"
proof -
  define s1 where "s1 = (save_pending msg s)\<lparr>compact_start_idx := st, compact_end_idx := en,
    last_compact_history_len := length (history s)\<rparr>"
  define s2 where "s2 = budget_event (Sev_compacting en) s1"
  have k1: "kept s s1" using kept_save_pending [of s msg] by (simp add: s1_def kept_def)
  have k2: "kept s s2" unfolding s2_def by (rule kept_trans [OF k1 kept_budget_event])
  have i2: "idle s2" "compact_start_idx s2 = st" "compact_end_idx s2 = en"
    using assms(2)
    by (simp_all add: s2_def frame_simps s1_def idle_def save_pending_def split: prod.split)
  obtain vrc view mt s3 where v: "sess_input_view_build s2 [] en = (vrc, view, mt, s3)"
    by (metis prod_cases4)
  note s3 = view_build_frame [OF v] kept_trans [OF k2 kept_view [OF v]]
  have i3: "idle s3" "compact_start_idx s3 = st" "compact_end_idx s3 = en"
    using i2 by (subst s3(1), simp add: idle_def)+
  obtain ok1 m1 where d1: "draw (s_mem s3) = (ok1, m1)" by fastforce
  obtain ok2 m2 where d2: "draw m1 = (ok2, m2)" by fastforce
  define s4 where "s4 = s3\<lparr>s_mem := m2\<rparr>"
  have k4: "kept s s4" and i4: "idle s4" "compact_start_idx s4 = st" "compact_end_idx s4 = en"
    using s3(2) i3 by (simp_all add: s4_def kept_def idle_def)
  obtain oq s5 where c: "create_query s4 (compact_conf ag s4) = (oq, s5)" by fastforce
  note k5 = kept_trans [OF k4 kept_create [OF c]] and s5 = create_query_frame(1) [OF c]
  have i5: "oq = None \<Longrightarrow> idle s5" "compact_start_idx s5 = st" "compact_end_idx s5 = en" "\<not> compacting s5"
    using i4 by (subst s5, simp add: idle_def)+
  note parts = assms(1) v d1 d2 c i3 i4 i5
  have eq: "compact_launch env ag msg st en s =
    (if vrc \<noteq> xErrno_Ok then (xErrno_PromptTooLong, s3)
     else if \<not> (ok1 \<and> ok2) then (xErrno_PromptTooLong, s4)
     else case oq of None \<Rightarrow> (xErrno_NoMemory, s5)
     | Some q \<Rightarrow>
         (case run_query env (view @ [text_message xAgentRole_User (summary_instr (en - st))]) q
             (s5\<lparr>compacting := True\<rparr>) of
            (rc, s6) \<Rightarrow> if rc \<noteq> xErrno_Ok
              then (xErrno_PromptTooLong, destroy_query (s6\<lparr>compacting := False\<rparr>))
              else (xErrno_Busy, s6)))"
    by (simp add: compact_launch_def Let_def s1_def [symmetric] s2_def [symmetric] v d1 d2 s4_def [symmetric] c
        split: option.split prod.split)
  have "kept s s' \<and> rc \<in> {xErrno_Busy, xErrno_PromptTooLong, xErrno_NoMemory} \<and>
    (rc = xErrno_Busy \<longrightarrow> compacting s' \<and> s_query s' \<noteq> None \<and> compact_start_idx s' = st
        \<and> compact_end_idx s' = en) \<and> (rc \<noteq> xErrno_Busy \<longrightarrow> idle s')"
  proof (cases "vrc = xErrno_Ok \<and> ok1 \<and> ok2 \<and> oq \<noteq> None")
    case False
    with assms(1) eq s3(2) k4 k5 i3 i4 i5 show ?thesis by (auto split: if_splits option.splits)
  next
    case True
    then obtain q where q: "oq = Some q" by auto
    obtain rc6 s6 where r: "run_query env (view @ [text_message xAgentRole_User (summary_instr (en - st))]) q
        (s5\<lparr>compacting := True\<rparr>) = (rc6, s6)" by fastforce
    have k6: "kept s s6"
      using kept_run [OF r] k5 by (simp add: kept_def)
    from run_query_frame [OF r] have s6: "compacting s6" "s_query s6 \<noteq> None"
      "compact_start_idx s6 = st" "compact_end_idx s6 = en"
      using i5 by simp_all
    have "kept s (destroy_query (s6\<lparr>compacting := False\<rparr>))" "idle (destroy_query (s6\<lparr>compacting := False\<rparr>))"
      using k6 by (simp_all add: kept_def idle_def destroy_query_def)
    with True q r eq assms(1) k6 s6 show ?thesis by (auto split: if_splits)
  qed
  then show "kept s s'"
    and "rc \<in> {xErrno_Busy, xErrno_PromptTooLong, xErrno_NoMemory}"
    and "rc = xErrno_Busy \<Longrightarrow> compacting s' \<and> s_query s' \<noteq> None \<and>
           compact_start_idx s' = st \<and> compact_end_idx s' = en"
    and "rc \<noteq> xErrno_Busy \<Longrightarrow> idle s'" by auto
qed

text \<open>The fields the whole gate leaves alone; the history may be trimmed.\<close>

definition kept_conf :: "xAgentSession \<Rightarrow> xAgentSession \<Rightarrow> bool" where
  "kept_conf s s' \<longleftrightarrow> budget s' = budget s \<and> system_prompt s' = system_prompt s
     \<and> persisted_prefix s' = persisted_prefix s \<and> s_cbs s' = s_cbs s \<and> s_model s' = s_model s
     \<and> memory s' = memory s \<and> session_id_copy s' = session_id_copy s \<and> overhead_tokens s' = overhead_tokens s
     \<and> s_max_turns s' = s_max_turns s \<and> s_max_tokens s' = s_max_tokens s"

lemma kept_conf_refl [simp]: "kept_conf s s"
  by (simp add: kept_conf_def)

lemma kept_conf_trans: "kept_conf a b \<Longrightarrow> kept_conf b c \<Longrightarrow> kept_conf a c"
  by (simp add: kept_conf_def)

lemma kept_kept_conf: "kept s s' \<Longrightarrow> kept_conf s s'"
  by (simp add: kept_def kept_conf_def)

lemma kept_conf_gate_pass: "kept_conf s (gate_pass est s)"
  by (simp add: gate_pass_def Let_def budget_event_def semit_def kept_conf_def)

lemma kept_conf_trim: "session_trim_consumed_tool_results s = (n, freed, s') \<Longrightarrow> kept_conf s s'"
  by (auto simp: session_trim_consumed_tool_results_def Let_def kept_conf_def split: prod.splits if_splits)

lemma effective_limit_conf: "kept_conf s s' \<Longrightarrow> effective_limit s' = effective_limit s"
  by (simp add: kept_conf_def effective_limit_def session_budget_limit_def Let_def)

text \<open>The verdicts.\<close>

lemma enforce_cases:
  assumes "session_enforce_budget env ag msg s = (rc, s')" and "idle s"
  shows "kept_conf s s'" and "trim_related (history s) (history s')"
    and "rc = xErrno_Ok \<Longrightarrow> idle s'"
    and "rc = xErrno_Ok \<Longrightarrow> policy (budget s) \<noteq> xAgentBudgetPolicy_Disabled \<Longrightarrow>
      session_estimate_current env s' + estimate_incoming_user_tokens msg \<le> effective_limit s'"
    and "rc = xErrno_Busy \<Longrightarrow> compacting s' \<and> s_query s' \<noteq> None \<and>
      compact_range (budget s) (history s') = Some (compact_start_idx s', compact_end_idx s')"
    and "rc \<noteq> xErrno_Ok \<Longrightarrow> rc \<noteq> xErrno_Busy \<Longrightarrow> idle s' \<and> rc \<in> {xErrno_PromptTooLong, xErrno_NoMemory}"
    and "policy (budget s) = xAgentBudgetPolicy_Disabled \<Longrightarrow> rc = xErrno_Ok \<and> s' = s"
    and "policy (budget s) = xAgentBudgetPolicy_Error \<Longrightarrow> rc \<in> {xErrno_Ok, xErrno_PromptTooLong}"
proof -
  let ?in = "estimate_incoming_user_tokens msg"
  obtain n freed s1 where trim: "session_trim_consumed_tool_results s = (n, freed, s1)"
    by (metis prod_cases3)
  note t = trim_session [OF trim] and k1 = kept_conf_trim [OF trim]
  have i1: "idle s1" using assms(2) t(3,4) by (simp add: idle_def)
  define est where "est = session_estimate_current env s + ?in"
  define est1 where "est1 = session_estimate_current env s1 + ?in"
  have idle_pass: "idle (gate_pass e x) = idle x" for e x by (simp add: idle_def frame_simps)
  have pass: "kept_conf s (gate_pass est s) \<and> trim_related (history s) (history (gate_pass est s)) \<and>
     idle (gate_pass est s)"
    using assms(2) by (simp add: kept_conf_gate_pass idle_pass frame_simps)
  have pass1: "kept_conf s (gate_pass est1 s1) \<and> trim_related (history s) (history (gate_pass est1 s1)) \<and>
     idle (gate_pass est1 s1)"
    using i1 t(1) kept_conf_trans [OF k1 kept_conf_gate_pass] by (simp add: idle_pass frame_simps)
  have fits: "session_estimate_current env (gate_pass est s) + ?in \<le> effective_limit (gate_pass est s)"
    if "est \<le> effective_limit s"
    using that by (simp add: estimate_gate_pass limit_gate_pass est_def)
  have fits1: "session_estimate_current env (gate_pass est1 s1) + ?in \<le> effective_limit (gate_pass est1 s1)"
    if "est1 \<le> effective_limit s"
    using that effective_limit_conf [OF k1] by (simp add: estimate_gate_pass limit_gate_pass est1_def)
  have "kept_conf s s' \<and> trim_related (history s) (history s') \<and> (rc = xErrno_Ok \<longrightarrow> idle s') \<and>
    (rc = xErrno_Ok \<longrightarrow> policy (budget s) \<noteq> xAgentBudgetPolicy_Disabled \<longrightarrow>
      session_estimate_current env s' + ?in \<le> effective_limit s') \<and>
    (rc = xErrno_Busy \<longrightarrow> compacting s' \<and> s_query s' \<noteq> None \<and>
      compact_range (budget s) (history s') = Some (compact_start_idx s', compact_end_idx s')) \<and>
    (rc \<noteq> xErrno_Ok \<longrightarrow> rc \<noteq> xErrno_Busy \<longrightarrow> idle s' \<and> rc \<in> {xErrno_PromptTooLong, xErrno_NoMemory}) \<and>
    (policy (budget s) = xAgentBudgetPolicy_Disabled \<longrightarrow> rc = xErrno_Ok \<and> s' = s) \<and>
    (policy (budget s) = xAgentBudgetPolicy_Error \<longrightarrow> rc \<in> {xErrno_Ok, xErrno_PromptTooLong})"
  proof (cases "policy (budget s) = xAgentBudgetPolicy_Disabled \<or> est \<le> effective_limit s
      \<or> est1 \<le> effective_limit s \<or> policy (budget s) = xAgentBudgetPolicy_Error
      \<or> compact_range (budget s) (history s1) = None
      \<or> (0 < last_compact_history_len s1 \<and> length (history s1) \<le> last_compact_history_len s1)")
    case True
    then show ?thesis
      using assms pass pass1 fits fits1 i1 k1 t(1,5)
      by (auto simp: session_enforce_budget_def Let_def trim est_def [symmetric] est1_def [symmetric]
          split: if_splits option.splits)
  next
    case False
    then obtain st en where r: "compact_range (budget s) (history s1) = Some (st, en)" by auto
    from False have sum: "policy (budget s) \<noteq> xAgentBudgetPolicy_Disabled"
      "policy (budget s) \<noteq> xAgentBudgetPolicy_Error" by simp_all
    from False r assms i1 t(5) have launch: "compact_launch env ag msg st en s1 = (rc, s')"
      by (auto simp: session_enforce_budget_def Let_def trim est_def [symmetric] est1_def [symmetric] idle_def
          split: if_splits)
    note c = compact_launch_cases [OF launch i1]
    have "history s' = history s1" using c(1) by (simp add: kept_def)
    moreover have "kept_conf s s'" by (rule kept_conf_trans [OF k1 kept_kept_conf [OF c(1)]])
    ultimately show ?thesis using c(2-4) t(1) r sum by auto
  qed
  then show "kept_conf s s'" and "trim_related (history s) (history s')"
    and "rc = xErrno_Ok \<Longrightarrow> idle s'"
    and "rc = xErrno_Ok \<Longrightarrow> policy (budget s) \<noteq> xAgentBudgetPolicy_Disabled \<Longrightarrow>
      session_estimate_current env s' + estimate_incoming_user_tokens msg \<le> effective_limit s'"
    and "rc = xErrno_Busy \<Longrightarrow> compacting s' \<and> s_query s' \<noteq> None \<and>
      compact_range (budget s) (history s') = Some (compact_start_idx s', compact_end_idx s')"
    and "rc \<noteq> xErrno_Ok \<Longrightarrow> rc \<noteq> xErrno_Busy \<Longrightarrow> idle s' \<and> rc \<in> {xErrno_PromptTooLong, xErrno_NoMemory}"
    and "policy (budget s) = xAgentBudgetPolicy_Disabled \<Longrightarrow> rc = xErrno_Ok \<and> s' = s"
    and "policy (budget s) = xAgentBudgetPolicy_Error \<Longrightarrow> rc \<in> {xErrno_Ok, xErrno_PromptTooLong}"
    by blast+
qed

end
