(* ===== verification/SessionInv.thy ===== *)
theory SessionInv
  imports BudgetGate
begin

text \<open>
  The lemmas of \<^verbatim>\<open>Session\<close> past the gate: what an accepted input sends to the provider, what a
  refused one leaves behind, how a compaction rewrites the history, and the invariant of the
  session's states.
\<close>

section \<open>Rollback and merge\<close>

lemma rollback_pop_to: "rollback n s = s\<lparr>history_arr := arr.pop_to n (history_arr s)\<rparr>"
proof (induction n s rule: rollback.induct)
  case (1 n s)
  then show ?case
    by (cases "n < length (history s)")
      (simp_all add: rollback.simps [of n s] arr.pop_to.simps [of n "history_arr s"])
qed

lemma rollback_history: "history (rollback n s) = take n (history s)"
  by (simp add: rollback_pop_to arr.pop_to_items)

lemma merge_produced_push_all: "merge_produced m a es = arr.push_all m a es"
  by (induction es arbitrary: m a) (auto split: prod.split)

section \<open>What the provider receives\<close>

lemma copy_inputs_elems:
  "copy_inputs env ms q = (xErrno_Ok, q') \<Longrightarrow>
   \<exists>a m. q' = q\<lparr>inputs_arr := a, q_mem := m\<rparr> \<and>
     elems a = elems (inputs_arr q) @ concat (map (message_entries (env_now env (trace q))) ms)"
proof (induction ms arbitrary: q)
  case Nil
  then have "q' = q\<lparr>inputs_arr := inputs_arr q, q_mem := q_mem q\<rparr>" by simp
  then show ?case by fastforce
next
  case (Cons msg ms)
  obtain rc a m where app: "turn_buf_append_message (q_mem q) (env_now env (trace q)) (inputs_arr q) msg
      = (rc, a, m)" by (metis prod_cases3)
  define q1 where "q1 = q\<lparr>inputs_arr := a, q_mem := m\<rparr>"
  from Cons.prems app have rc: "rc = xErrno_Ok" and rest: "copy_inputs env ms q1 = (xErrno_Ok, q')"
    by (auto simp: q1_def split: if_splits)
  have "elems a = elems (inputs_arr q) @ message_entries (env_now env (trace q)) msg"
    using app unfolding rc by (rule turn_buf_append_message_ok)
  with Cons.IH [OF rest] show ?case by (auto simp: q1_def)
qed

text \<open>A started query has submitted exactly one round: the fold of what it copied.\<close>

lemma run_submits:
  assumes "xAgentQueryRun env ms q = (xErrno_Ok, q')" and "elems (produced_arr q) = []"
    and "elems (inputs_arr q) = []"
  shows "trace q' = trace q @ [Ev_submit (fold_entries
      (concat (map (message_entries (env_now env (trace q))) ms)))]"
    and "running q'" and "turn q' = turn q + 1"
proof -
  obtain rc q1 where c: "copy_inputs env ms q = (rc, q1)" by fastforce
  obtain rc2 q2 where s: "submit_round env (q1\<lparr>running := True\<rparr>) = (rc2, q2)" by fastforce
  from assms(1) c s have ok: "rc = xErrno_Ok" "rc2 = xErrno_Ok" "q' = q2"
    by (auto simp: xAgentQueryRun_def split: if_splits)
  from copy_inputs_elems [OF c [unfolded ok(1)]] obtain a m where
    q1: "q1 = q\<lparr>inputs_arr := a, q_mem := m\<rparr>"
    "elems a = concat (map (message_entries (env_now env (trace q))) ms)"
    using assms(3) by auto
  show "trace q' = trace q @ [Ev_submit (fold_entries
      (concat (map (message_entries (env_now env (trace q))) ms)))]"
    and "running q'" and "turn q' = turn q + 1"
    using s assms(2) ok
    by (auto simp: submit_round_def view_build_def q1 Let_def emit_def pending_reset_def
        reasoning_reset_def assist_reset_def split: prod.splits if_splits)
qed

lemma strlen_take: "strlen (take (strlen t) t) = strlen t"
  using strlen_cstr [of t] strlen_le [of t] by (simp add: cstr_def min_absorb2)

lemma fold_text_message:
  "fold_entries (message_entries now (text_message xAgentRole_System t) @ es) =
   text_message xAgentRole_System (cstr t) # fold_entries es"
  by (auto simp: text_message_def message_entries_def concat_entry_def other_block_def or_empty_def
      zero_msg_def cstr_def strlen_take)

text \<open>The messages of a session: its prompts, with what C reads of them, and the folded history.\<close>

definition provider_view :: "string option \<Rightarrow> string option \<Rightarrow> xAgentSessionMsg list \<Rightarrow> xAgentMessage list" where
  "provider_view p mem_text es =
     map (\<lambda>t. text_message xAgentRole_System (cstr t))
       ((case p of None \<Rightarrow> [] | Some t \<Rightarrow> if strlen t = 0 then [] else [t])
        @ (case mem_text of None \<Rightarrow> [] | Some t \<Rightarrow> [t]))
     @ fold_entries es"

lemma fold_text_messages:
  "fold_entries (concat (map (message_entries now) (map (text_message xAgentRole_System) ts @ ms))) =
   map (\<lambda>t. text_message xAgentRole_System (cstr t)) ts @ fold_entries (concat (map (message_entries now) ms))"
  by (induction ts) (simp_all add: fold_text_message comp_def del: fold_entries.simps)

lemma view_build_ok:
  assumes "sess_input_view_build s hits 0 = (xErrno_Ok, view, mt, s')"
    and "\<forall>e \<in> set (history s). wf_entry e"
  shows "fold_entries (concat (map (message_entries now) view)) = provider_view (system_prompt s) mt (history s)"
    and "view \<noteq> []" and "mt = fst (format_memory_hits (s_mem s) hits)"
proof -
  have view: "view = map (text_message xAgentRole_System)
       ((case system_prompt s of None \<Rightarrow> [] | Some t \<Rightarrow> if strlen t = 0 then [] else [t])
        @ (case mt of None \<Rightarrow> [] | Some t \<Rightarrow> [t])) @ fold_entries (history s)"
    using assms(1)
    by (auto simp: sess_input_view_build_def system_messages_def Let_def
        split: prod.splits if_splits option.splits)
  then show "fold_entries (concat (map (message_entries now) view))
      = provider_view (system_prompt s) mt (history s)"
    by (simp only: fold_text_messages provider_view_def fold_copied_view [OF assms(2)])
  show "view \<noteq> []" and "mt = fst (format_memory_hits (s_mem s) hits)"
    using assms(1) by (auto simp: sess_input_view_build_def Let_def split: prod.splits if_splits)
qed

section \<open>Starting a run\<close>

lemma create_query_fresh:
  "create_query s conf = (Some q, s') \<Longrightarrow>
   trace q = [] \<and> elems (inputs_arr q) = [] \<and> elems (produced_arr q) = [] \<and> turn q = 0 \<and> \<not> running q
   \<and> q_max_turns q = qc_max_turns conf \<and> q_cbs q = qc_cbs conf \<and> q_tools q = qc_tools conf
   \<and> qc_provider conf = Some (q_provider q) \<and> \<not> cancelled q \<and> elems (async_pending_arr q) = []"
  by (auto simp: create_query_def xAgentQueryCreate_def Let_def fresh_query_def
      split: create_result.splits prod.splits option.splits if_splits)

lemma history_append_user_msg_cases:
  assumes "history_append_user_msg env s msg = (rc, s')"
  shows "s' = s\<lparr>history_arr := history_arr s', s_mem := s_mem s'\<rparr>"
    and "rc = xErrno_Ok \<Longrightarrow> history s' = history s @ [concat_entry (env_wall env (s_trace s)) msg]"
    and "rc \<noteq> xErrno_Ok \<Longrightarrow> history s' = history s"
proof -
  obtain e a m where app: "append_concat (s_mem s) (env_wall env (s_trace s)) (history_arr s) msg = (e, a, m)"
    by (metis prod_cases3)
  with assms have r: "rc = e" "s' = s\<lparr>history_arr := a, s_mem := m\<rparr>"
    by (simp_all add: history_append_user_msg_def hist_put_def)
  then show "s' = s\<lparr>history_arr := history_arr s', s_mem := s_mem s'\<rparr>" by simp
  show "rc = xErrno_Ok \<Longrightarrow> history s' = history s @ [concat_entry (env_wall env (s_trace s)) msg]"
    and "rc \<noteq> xErrno_Ok \<Longrightarrow> history s' = history s"
    using grows_append_concat [of "history_arr s" "s_mem s" "env_wall env (s_trace s)" msg] app r
    by (auto simp: concat_entry_def dest: growsD)
qed

lemma rollback_frame:
  "s_query (rollback n s) = s_query s" "compacting (rollback n s) = compacting s"
  "budget (rollback n s) = budget s" "delta_entries (rollback n s) = delta_entries s"
  "system_prompt (rollback n s) = system_prompt s" "persisted_prefix (rollback n s) = persisted_prefix s"
  by (simp_all add: rollback_pop_to)

lemma overhead_frame:
  "history_arr (session_update_overhead_tokens t s) = history_arr s"
  "s_query (session_update_overhead_tokens t s) = s_query s"
  "compacting (session_update_overhead_tokens t s) = compacting s"
  "budget (session_update_overhead_tokens t s) = budget s"
  "s_mem (session_update_overhead_tokens t s) = s_mem s"
  "persisted_prefix (session_update_overhead_tokens t s) = persisted_prefix s"
  "delta_entries (session_update_overhead_tokens t s) = delta_entries s"
  by (simp_all add: session_update_overhead_tokens_def)

text \<open>
  The history after a start: the user's entry when it succeeds, unchanged when it fails. A
  successful start has submitted the session's view to the provider.
\<close>

lemma session_start_cases:
  assumes "session_start env ag msg hits s = (rc, s')" and "idle s"
  shows "rc = xErrno_Ok \<Longrightarrow> history s' = history s @ [concat_entry (env_wall env (s_trace s)) msg]"
    and "rc \<noteq> xErrno_Ok \<Longrightarrow> history s' = history s \<and> idle s'"
    and "rc = xErrno_Ok \<Longrightarrow> \<not> compacting s' \<and> (\<exists>q. s_query s' = Some q \<and> running q \<and> turn q = 1)"
    and "budget s' = budget s" and "persisted_prefix s' = persisted_prefix s"
    and "rc = xErrno_Ok \<Longrightarrow> \<forall>e \<in> set (history s'). wf_entry e \<Longrightarrow>
      \<exists>q mt. s_query s' = Some q \<and> trace q = [Ev_submit (provider_view (system_prompt s) mt (history s'))]
        \<and> (\<exists>m. mt = fst (format_memory_hits m hits))"
proof -
  obtain rc1 s1 where app: "history_append_user_msg env s msg = (rc1, s1)" by fastforce
  note h = history_append_user_msg_cases [OF app]
  define n where "n = length (history s)"
  define s2 where "s2 = s1\<lparr>delta_entries := delta_entries s1 + (length (history s1) - n)\<rparr>"
  have f1: "idle s1" "budget s1 = budget s" "persisted_prefix s1 = persisted_prefix s"
    "system_prompt s1 = system_prompt s"
    using assms(2) by (subst h(1), simp add: idle_def)+
  obtain vrc view mt s3 where v: "sess_input_view_build s2 hits 0 = (vrc, view, mt, s3)"
    by (metis prod_cases4)
  note k3 = kept_view [OF v]
  have i3: "idle s3"
    by (subst view_build_frame [OF v]) (use f1(1) in \<open>simp add: s2_def idle_def\<close>)
  have f3: "idle s3" "history s3 = history s1" "budget s3 = budget s" "persisted_prefix s3 = persisted_prefix s"
    using i3 k3 f1 by (simp_all add: kept_def s2_def)
  define s4 where "s4 = session_update_overhead_tokens mt s3"
  have f4: "idle s4" "history s4 = history s1" "budget s4 = budget s" "persisted_prefix s4 = persisted_prefix s"
    using f3 by (simp_all add: s4_def overhead_frame idle_def)
  obtain oq s5 where c: "create_query s4 (session_conf ag s4) = (oq, s5)" by fastforce
  have f5: "history s5 = history s1" "budget s5 = budget s" "persisted_prefix s5 = persisted_prefix s"
    "\<not> compacting s5" "oq = None \<Longrightarrow> idle s5"
    using f4 by (subst create_query_frame(1) [OF c], simp add: idle_def)+
  have eq: "session_start env ag msg hits s =
    (if rc1 \<noteq> xErrno_Ok then (rc1, s1)
     else if vrc \<noteq> xErrno_Ok then (vrc, rollback n s3)
     else case oq of None \<Rightarrow> (xErrno_NoMemory, rollback n s5)
     | Some q \<Rightarrow> (case run_query env view q s5 of (rc2, s6) \<Rightarrow>
         if rc2 \<noteq> xErrno_Ok then (rc2, rollback n (destroy_query s6)) else (xErrno_Ok, s6)))"
    by (simp add: session_start_def Let_def app n_def [symmetric] s2_def [symmetric] v s4_def [symmetric] c
        split: option.split prod.split)
  show "budget s' = budget s" "persisted_prefix s' = persisted_prefix s"
    using assms(1) eq f1 f3 f5
    by (auto simp: run_query_def rollback_frame destroy_query_def split: if_splits option.splits prod.splits)
  have undone: "history (rollback n x) = history s" if "history x = history s1" "rc1 = xErrno_Ok" for x
    using that h(2) by (simp add: rollback_history n_def)
  show "rc \<noteq> xErrno_Ok \<Longrightarrow> history s' = history s \<and> idle s'"
    using assms(1) eq f1 f3 f5 h(3) undone
    by (auto simp: run_query_def rollback_frame destroy_query_def idle_def
        split: if_splits option.splits prod.splits)
  assume "rc = xErrno_Ok"
  with assms(1) eq obtain q where ok: "rc1 = xErrno_Ok" "vrc = xErrno_Ok" "oq = Some q"
    and run: "run_query env view q s5 = (xErrno_Ok, s')"
    by (auto split: if_splits option.splits prod.splits)
  obtain q' where q': "xAgentQueryRun (env_query env) view (q\<lparr>q_mem := s_mem s5\<rparr>) = (xErrno_Ok, q')"
    "s' = s5\<lparr>s_query := Some q', s_mem := q_mem q'\<rparr>"
    using run by (auto simp: run_query_def split: prod.splits)
  note fresh = create_query_fresh [OF c [unfolded ok(3)]]
  note sub = run_submits [OF q'(1)]
  show hist: "history s' = history s @ [concat_entry (env_wall env (s_trace s)) msg]"
    using q'(2) f5(1) h(2) ok(1) by simp
  show "\<not> compacting s' \<and> (\<exists>q. s_query s' = Some q \<and> running q \<and> turn q = 1)"
    using q'(2) f5(4) sub fresh by simp
  assume wf: "\<forall>e \<in> set (history s'). wf_entry e"
  have h2: "history s2 = history s'" using h(2) ok(1) hist by (simp add: s2_def)
  have p2: "system_prompt s2 = system_prompt s" using f1(4) by (simp add: s2_def)
  note view = view_build_ok [OF v [unfolded ok(2)]]
  have "trace q' = [Ev_submit (provider_view (system_prompt s) mt (history s'))]"
    using sub(1) fresh view(1) wf h2 p2 by simp
  moreover have "\<exists>m. mt = fst (format_memory_hits m hits)" using view(3) wf h2 by auto
  ultimately show "\<exists>q mt. s_query s' = Some q \<and>
      trace q = [Ev_submit (provider_view (system_prompt s) mt (history s'))] \<and> (\<exists>m. mt = fst (format_memory_hits m hits))"
    using q'(2) by auto
qed

section \<open>Input\<close>

lemma input_busy: "\<not> idle s \<Longrightarrow> xAgentSessionInput env ag msg s = (xErrno_Busy, s)"
  by (simp add: xAgentSessionInput_def idle_def)

lemma trim_related_length: "trim_related xs ys \<Longrightarrow> length ys = length xs"
  by (simp add: list_all2_lengthD)

text \<open>
  The three outcomes of an input on an idle session: a run is started on the (possibly trimmed)
  history with the user's entry, a compaction is started, or the session is idle again with the
  (possibly trimmed) history.
\<close>

lemma input_cases:
  assumes "xAgentSessionInput env ag msg s = (rc, s')" and "idle s"
  shows "rc = xErrno_Ok \<Longrightarrow> \<exists>es e. trim_related (history s) es \<and> history s' = es @ [e] \<and>
      m_role e = role msg \<and> m_kind e = xAgentSessionEntry_Text \<and> m_text_len e = text_total (contents msg)
      \<and> or_empty (m_text e) = (if text_total (contents msg) = 0 then '''' else text_bytes (contents msg))"
    and "rc = xErrno_Ok \<Longrightarrow> \<not> compacting s' \<and> (\<exists>q. s_query s' = Some q \<and> running q \<and> turn q = 1)"
    and "rc \<noteq> xErrno_Ok \<Longrightarrow> trim_related (history s) (history s')"
    and "rc \<noteq> xErrno_Ok \<Longrightarrow> idle s' \<or> (rc = xErrno_Busy \<and> compacting s' \<and> s_query s' \<noteq> None \<and>
      compact_range (budget s) (history s') = Some (compact_start_idx s', compact_end_idx s'))"
    and "budget s' = budget s" and "persisted_prefix s' = persisted_prefix s"
proof -
  obtain grc s1 where g: "session_enforce_budget env ag msg s = (grc, s1)" by fastforce
  note gate = enforce_cases [OF g assms(2)]
  have eq: "(rc, s') = (if grc \<noteq> xErrno_Ok then (grc, s1)
      else session_start env ag msg (memory_hits env ag msg s) s1)"
    using assms g by (auto simp: xAgentSessionInput_def idle_def)
  have conf1: "budget s1 = budget s" "persisted_prefix s1 = persisted_prefix s"
    using gate(1) by (simp_all add: kept_conf_def)
  have "(rc = xErrno_Ok \<longrightarrow> (\<exists>es e. trim_related (history s) es \<and> history s' = es @ [e] \<and>
      m_role e = role msg \<and> m_kind e = xAgentSessionEntry_Text \<and> m_text_len e = text_total (contents msg)
      \<and> or_empty (m_text e) = (if text_total (contents msg) = 0 then '''' else text_bytes (contents msg)))) \<and>
    (rc = xErrno_Ok \<longrightarrow> \<not> compacting s' \<and> (\<exists>q. s_query s' = Some q \<and> running q \<and> turn q = 1)) \<and>
    (rc \<noteq> xErrno_Ok \<longrightarrow> trim_related (history s) (history s')) \<and>
    (rc \<noteq> xErrno_Ok \<longrightarrow> idle s' \<or> (rc = xErrno_Busy \<and> compacting s' \<and> s_query s' \<noteq> None \<and>
      compact_range (budget s) (history s') = Some (compact_start_idx s', compact_end_idx s'))) \<and>
    budget s' = budget s \<and> persisted_prefix s' = persisted_prefix s"
  proof (cases "grc = xErrno_Ok")
    case False
    with eq gate conf1 show ?thesis by auto
  next
    case True
    with eq have start: "session_start env ag msg (memory_hits env ag msg s) s1 = (rc, s')" by simp
    note st = session_start_cases [OF start gate(3) [OF True]]
    have entry: "m_role (concat_entry t msg) = role msg" "m_kind (concat_entry t msg) = xAgentSessionEntry_Text"
      "m_text_len (concat_entry t msg) = text_total (contents msg)"
      "or_empty (m_text (concat_entry t msg)) =
         (if text_total (contents msg) = 0 then '''' else text_bytes (contents msg))" for t
      by (simp_all add: concat_entry_def or_empty_def)
    show ?thesis
      using st gate(2) conf1 entry by (cases "rc = xErrno_Ok") auto
  qed
  then show "rc = xErrno_Ok \<Longrightarrow> \<exists>es e. trim_related (history s) es \<and> history s' = es @ [e] \<and>
      m_role e = role msg \<and> m_kind e = xAgentSessionEntry_Text \<and> m_text_len e = text_total (contents msg)
      \<and> or_empty (m_text e) = (if text_total (contents msg) = 0 then '''' else text_bytes (contents msg))"
    and "rc = xErrno_Ok \<Longrightarrow> \<not> compacting s' \<and> (\<exists>q. s_query s' = Some q \<and> running q \<and> turn q = 1)"
    and "rc \<noteq> xErrno_Ok \<Longrightarrow> trim_related (history s) (history s')"
    and "rc \<noteq> xErrno_Ok \<Longrightarrow> idle s' \<or> (rc = xErrno_Busy \<and> compacting s' \<and> s_query s' \<noteq> None \<and>
      compact_range (budget s) (history s') = Some (compact_start_idx s', compact_end_idx s'))"
    and "budget s' = budget s" and "persisted_prefix s' = persisted_prefix s"
    by blast+
qed

section \<open>The splice of a compaction\<close>

lemma memory_append_frame [frame_simps]:
  "history_arr (memory_append r es s) = history_arr s" "s_mem (memory_append r es s) = s_mem s"
  "persisted_prefix (memory_append r es s) = persisted_prefix s" "s_query (memory_append r es s) = s_query s"
  "compacting (memory_append r es s) = compacting s" "budget (memory_append r es s) = budget s"
  "pending_text (memory_append r es s) = pending_text s" "memory (memory_append r es s) = memory s"
  "session_id_copy (memory_append r es s) = session_id_copy s"
  by (simp_all add: memory_append_def semit_def)

lemma remove_range_split:
  assumes "st < en" and "en \<le> length (elems a)" and "length (elems a) < SIZE_LIM"
  shows "xArrayRemoveRange a st (en - st) = (xErrno_Ok, a\<lparr>elems := take st (elems a) @ drop en (elems a)\<rparr>)"
  using assms by (simp add: xArrayRemoveRange_def size_add_small)

text \<open>
  The removal frees at least one slot, so the insertion never has to grow the array and cannot
  fail: a summary once obtained is always spliced in.
\<close>

lemma compact_splice_ok:
  assumes "compact_start_idx s = st" and "compact_end_idx s = en" and "st < en"
    and "en \<le> length (history s)" and "length (history s) < SIZE_LIM"
    and "length (history s) \<le> cap (history_arr s)" and "compact_splice env t n s = (ok, s')"
  shows "ok" and "\<exists>now. history s' = take st (history s) @ [summary_entry now t n] @ drop en (history s)"
    and "s_mem s' = s_mem s" and "pending_text s' = pending_text s" and "budget s' = budget s"
    and "persisted_prefix s' = max (st + 1)
      (if st < persisted_prefix s then persisted_prefix s - (min (persisted_prefix s) en - st)
       else persisted_prefix s)"
    and "memory s \<Longrightarrow> session_id_copy s \<noteq> None \<Longrightarrow> \<exists>now evs. s_trace s' = s_trace s @ evs @
      [Sev_memory_append xAgentMemoryAppendReason_Compacted [summary_entry now t n]] \<and>
      evs = (let skip = (if st < persisted_prefix s then min (persisted_prefix s) en else st)
             in if skip < en
                then [Sev_memory_append xAgentMemoryAppendReason_Compacted
                       (take (en - skip) (drop skip (history s)))] else []) \<and>
      history s' = take st (history s) @ [summary_entry now t n] @ drop en (history s)"
proof -
  define skip where "skip = (if st < persisted_prefix s
    then (if persisted_prefix s < en then persisted_prefix s else en) else st)"
  define s1 where "s1 = persist_evicted s"
  have s1_eq: "s1 = (if st < en \<and> skip < en
    then memory_append xAgentMemoryAppendReason_Compacted (take (en - skip) (drop skip (history s))) s else s)"
    unfolding s1_def persist_evicted_def Let_def assms(1,2) skip_def by (rule refl)
  define a2 where "a2 = (history_arr s)\<lparr>elems := take st (history s) @ drop en (history s)\<rparr>"
  define s2 where "s2 = s1\<lparr>history_arr := a2\<rparr>"
  define s3 where "s3 = evict s1"
  have f1: "history_arr s1 = history_arr s" "s_mem s1 = s_mem s" "persisted_prefix s1 = persisted_prefix s"
    "pending_text s1 = pending_text s" "budget s1 = budget s" "memory s1 = memory s"
    "session_id_copy s1 = session_id_copy s" "compact_start_idx s1 = st" "compact_end_idx s1 = en"
    using assms(1,2) by (simp_all add: s1_eq memory_append_def semit_def)
  have rem: "snd (xArrayRemoveRange (history_arr s1) st (en - st)) = a2"
    using remove_range_split [OF assms(3-5)] by (simp add: f1 a2_def)
  have s3_eq: "s3 = (if st < persisted_prefix s2
    then s2\<lparr>persisted_prefix := persisted_prefix s2
           - ((if persisted_prefix s2 < en then persisted_prefix s2 else en) - st)\<rparr> else s2)"
    unfolding s3_def evict_def Let_def f1(8,9) rem s2_def by simp
  define now where "now = env_wall env (s_trace s3)"
  have st: "st \<le> length (take st (history s) @ drop en (history s))" using assms(3,4) by simp
  have room: "length (take st (history s) @ drop en (history s)) + 1 \<le> cap (history_arr s)"
    using assms(3,4,6) by simp
  have f3: "history_arr s3 = a2" "s_mem s3 = s_mem s"
    by (simp_all add: s3_eq s2_def f1)
  define a4 where "a4 = a2\<lparr>elems := take st (history s) @ [summary_entry now t n] @ drop en (history s)\<rparr>"
  have ins: "xArrayInsert (s_mem s3) (history_arr s3) st (summary_entry now t n) = (xErrno_Ok, a4, s_mem s)"
    using st room assms(3,4) by (simp add: xArrayInsert_def f3 arr_grow_def a2_def a4_def)
  have nth: "elems a4 ! st = summary_entry now t n"
    using assms(3,4) by (simp add: a4_def nth_append)
  define s4 where "s4 = memory_append xAgentMemoryAppendReason_Compacted [summary_entry now t n]
    (s3\<lparr>history_arr := a4, s_mem := s_mem s\<rparr>)"
  have eq: "compact_splice env t n s = (True, s4\<lparr>persisted_prefix :=
      (if persisted_prefix s4 < st + 1 then st + 1 else persisted_prefix s4)\<rparr>)"
    unfolding compact_splice_def Let_def assms(1) s1_def [symmetric] s3_def [symmetric]
      now_def [symmetric] ins
    by (simp add: nth s4_def)
  with assms(7) have s': "ok" "s' = s4\<lparr>persisted_prefix :=
      (if persisted_prefix s4 < st + 1 then st + 1 else persisted_prefix s4)\<rparr>" by simp_all
  show "ok" by (rule s'(1))
  have h: "history s' = take st (history s) @ [summary_entry now t n] @ drop en (history s)"
    by (simp add: s' s4_def frame_simps a4_def)
  then show "\<exists>now. history s' = take st (history s) @ [summary_entry now t n] @ drop en (history s)" by blast
  show "s_mem s' = s_mem s" and "pending_text s' = pending_text s" and "budget s' = budget s"
    by (simp_all add: s' s4_def frame_simps s3_eq s2_def f1)
  show "persisted_prefix s' = max (st + 1)
      (if st < persisted_prefix s then persisted_prefix s - (min (persisted_prefix s) en - st)
       else persisted_prefix s)"
    by (auto simp: s' s4_def frame_simps s3_eq s2_def f1 max_def min_def)
  assume mem: "memory s" "session_id_copy s \<noteq> None"
  define evs where "evs = (if skip < en
    then [Sev_memory_append xAgentMemoryAppendReason_Compacted (take (en - skip) (drop skip (history s)))] else [])"
  have "take (en - skip) (drop skip (history s)) \<noteq> []" if "skip < en" using that assms(4) by simp
  then have "s_trace s1 = s_trace s @ evs"
    using mem assms(3) by (auto simp: s1_eq evs_def memory_append_def semit_def)
  then have "s_trace s' = s_trace s @ evs @
      [Sev_memory_append xAgentMemoryAppendReason_Compacted [summary_entry now t n]]"
    using mem by (simp add: s' s4_def memory_append_def semit_def s3_eq s2_def f1)
  with h show "\<exists>now evs. s_trace s' = s_trace s @ evs @
      [Sev_memory_append xAgentMemoryAppendReason_Compacted [summary_entry now t n]] \<and>
      evs = (let skip = (if st < persisted_prefix s then min (persisted_prefix s) en else st)
             in if skip < en
                then [Sev_memory_append xAgentMemoryAppendReason_Compacted
                       (take (en - skip) (drop skip (history s)))] else []) \<and>
      history s' = take st (history s) @ [summary_entry now t n] @ drop en (history s)"
    unfolding evs_def skip_def Let_def min_def by (intro exI [of _ now]) (auto simp: not_less)
qed

section \<open>Capacity\<close>

definition cap_ok :: "'a xArray \<Rightarrow> bool" where
  "cap_ok a \<longleftrightarrow> length (elems a) \<le> cap a \<or> SIZE_MAX \<le> cap a"

lemma cap_ok_less: "cap_ok a \<Longrightarrow> length (elems a) < SIZE_LIM \<Longrightarrow> length (elems a) \<le> cap a"
  by (auto simp: cap_ok_def SIZE_MAX_def SIZE_LIM_def)

lemma cap_ok_grow: "arr_grow m a (length (elems a) + 1) = (e, a', m') \<Longrightarrow> cap_ok a \<Longrightarrow>
   e = xErrno_Ok \<Longrightarrow> length (elems a) + 1 \<le> cap a' \<or> SIZE_MAX \<le> cap a'"
proof -
  assume g: "arr_grow m a (length (elems a) + 1) = (e, a', m')" and "cap_ok a" "e = xErrno_Ok"
  then have "length (elems a) + 1 \<le> cap a' \<or> cap a' = arr_next_cap (cap a) (length (elems a) + 1)"
    by (auto simp: arr_grow_def Let_def split: if_splits prod.splits)
  moreover have "length (elems a) + 1 \<le> arr_next_cap c (length (elems a) + 1) \<or>
      SIZE_MAX \<le> arr_next_cap c (length (elems a) + 1)" for c
    using arr_next_cap_ge [of "length (elems a) + 1" c] by (auto simp: arr_next_cap_def Let_def)
  ultimately show ?thesis by metis
qed

lemma cap_ok_push: "xArrayPush m a x = (ok, a', m') \<Longrightarrow> cap_ok a \<Longrightarrow> cap_ok a'"
proof -
  assume p: "xArrayPush m a x = (ok, a', m')" and c: "cap_ok a"
  obtain e a1 m1 where g: "arr_grow m a (length (elems a) + 1) = (e, a1, m1)" by (metis prod_cases3)
  with p cap_ok_grow [OF g c] arr_grow_elems [OF g] c show ?thesis
    by (auto simp: xArrayPush_def cap_ok_def split: if_splits)
qed

lemma cap_ok_insert: "xArrayInsert m a i x = (e, a', m') \<Longrightarrow> cap_ok a \<Longrightarrow> cap_ok a'"
proof -
  assume p: "xArrayInsert m a i x = (e, a', m')" and c: "cap_ok a"
  obtain e1 a1 m1 where g: "arr_grow m a (length (elems a) + 1) = (e1, a1, m1)" by (metis prod_cases3)
  with p cap_ok_grow [OF g c] arr_grow_elems [OF g] c show ?thesis
    by (auto simp: xArrayInsert_def cap_ok_def split: if_splits)
qed

lemma cap_ok_shrink: "length xs \<le> length (elems a) \<Longrightarrow> cap_ok a \<Longrightarrow> cap_ok (a\<lparr>elems := xs\<rparr>)"
  by (auto simp: cap_ok_def)

lemma cap_ok_remove: "cap_ok a \<Longrightarrow> cap_ok (snd (xArrayRemoveRange a i n))"
  by (auto simp: xArrayRemoveRange_def intro: cap_ok_shrink)

lemma cap_ok_pop_to: "cap_ok a \<Longrightarrow> cap_ok (arr.pop_to n a)"
proof (induction n a rule: arr.pop_to.induct)
  case (1 n a)
  have "cap_ok (snd (xArrayPop a))"
    using 1(2) by (auto simp: xArrayPop_def intro: cap_ok_shrink)
  with 1 show ?case by (simp add: arr.pop_to.simps [of n a])
qed

section \<open>The end of a compaction\<close>

lemma compact_range_bounds: "compact_range b es = Some (st, en) \<Longrightarrow> st < en \<and> en \<le> length es"
  by (auto simp: compact_range_def Let_def split: if_splits option.splits dest: find_user_turn_Some(1))

lemma compact_finish_idle: "idle (compact_finish env q s)"
  by (simp add: compact_finish_def Let_def idle_def frame_simps destroy_query_def split: prod.split)

lemma compact_finish_none:
  assumes "summary_text (s_mem s) (elems (produced_arr q)) = (None, m)"
  shows "history_arr (compact_finish env q s) = history_arr s"
    and "known_prompt_tokens (compact_finish env q s) = known_prompt_tokens s"
    and "delta_entries (compact_finish env q s) = delta_entries s"
    and "persisted_prefix (compact_finish env q s) = persisted_prefix s"
    and "budget (compact_finish env q s) = budget s"
    and "pending_text (compact_finish env q s) = pending_text s"
  using assms by (simp_all add: compact_finish_def Let_def frame_simps destroy_query_def)

text \<open>Any splice, with or without room, keeps these.\<close>

lemma compact_splice_frame:
  assumes "compact_splice env t n s = (ok, s')"
  shows "budget s' = budget s" and "s_query s' = s_query s" and "pending_text s' = pending_text s"
    and "cap_ok (history_arr s) \<Longrightarrow> cap_ok (history_arr s')"
proof -
  have f: "budget (evict (persist_evicted s)) = budget s" "s_query (evict (persist_evicted s)) = s_query s"
    "pending_text (evict (persist_evicted s)) = pending_text s"
    "cap_ok (history_arr s) \<Longrightarrow> cap_ok (history_arr (evict (persist_evicted s)))"
    by (simp_all add: evict_def persist_evicted_def Let_def frame_simps cap_ok_remove)
  obtain e a m where ins: "xArrayInsert (s_mem (evict (persist_evicted s)))
      (history_arr (evict (persist_evicted s))) (compact_start_idx s)
      (summary_entry (env_wall env (s_trace (evict (persist_evicted s)))) t n) = (e, a, m)"
    by (metis prod_cases3)
  with assms f show "budget s' = budget s" and "s_query s' = s_query s" and "pending_text s' = pending_text s"
    by (auto simp: compact_splice_def Let_def frame_simps split: if_splits)
  show "cap_ok (history_arr s) \<Longrightarrow> cap_ok (history_arr s')"
    using assms f(4) ins cap_ok_insert [OF ins]
    by (auto simp: compact_splice_def Let_def frame_simps split: if_splits)
qed

lemma compact_finish_budget: "budget (compact_finish env q s) = budget s"
proof -
  obtain sm m where "summary_text (s_mem s) (elems (produced_arr q)) = (sm, m)" by fastforce
  then show ?thesis
    using compact_splice_frame(1)
    by (auto simp: compact_finish_def Let_def frame_simps destroy_query_def split: option.splits prod.splits)
qed

text \<open>A successful compaction.\<close>

lemma compact_finish_some:
  assumes "summary_text (s_mem s) (elems (produced_arr q)) = (Some (t, n), m)"
    and "compact_range (budget s) (history s) = Some (compact_start_idx s, compact_end_idx s)"
    and "length (history s) < SIZE_LIM" and "length (history s) \<le> cap (history_arr s)"
  shows "\<exists>now. history (compact_finish env q s) =
      take (compact_start_idx s) (history s) @ [summary_entry now t n] @ drop (compact_end_idx s) (history s)"
    and "known_prompt_tokens (compact_finish env q s) = -1" and "delta_entries (compact_finish env q s) = 0"
    and "pending_text (compact_finish env q s) = pending_text s"
proof -
  define s0 where "s0 = s\<lparr>s_mem := m\<rparr>"
  obtain ok s1 where sp: "compact_splice env t n s0 = (ok, s1)" by fastforce
  from compact_range_bounds [OF assms(2)] have r: "compact_start_idx s < compact_end_idx s"
    "compact_end_idx s \<le> length (history s)" by simp_all
  note ok = compact_splice_ok [OF _ _ r(1) _ _ _ sp, unfolded s0_def, simplified, OF r(2) assms(3,4)]
  show "\<exists>now. history (compact_finish env q s) =
      take (compact_start_idx s) (history s) @ [summary_entry now t n] @ drop (compact_end_idx s) (history s)"
    and "known_prompt_tokens (compact_finish env q s) = -1" and "delta_entries (compact_finish env q s) = 0"
    and "pending_text (compact_finish env q s) = pending_text s"
    using ok(1,2,4) assms(1) sp
    by (simp_all add: compact_finish_def Let_def s0_def frame_simps destroy_query_def)
qed

section \<open>Calls stay answered through a compaction\<close>

text \<open>
  In an answered log, everything before a user turn, and the whole, has every call answered.
\<close>

definition boundary :: "xAgentSessionMsg list \<Rightarrow> nat \<Rightarrow> bool" where
  "boundary es i \<longleftrightarrow> i = length es \<or> (i < length es \<and> is_user (es ! i))"

definition answered_log :: "xAgentSessionMsg list \<Rightarrow> bool" where
  "answered_log es \<longleftrightarrow> (\<forall>i \<le> length es. boundary es i \<longrightarrow> use_ids (take i es) = result_ids (take i es))"

lemma answered_logD: "answered_log es \<Longrightarrow> boundary es i \<Longrightarrow> use_ids (take i es) = result_ids (take i es)"
  by (auto simp: answered_log_def boundary_def)

lemma answered_between:
  assumes "answered_log es" and "boundary es i" and "boundary es j" and "i \<le> j"
  shows "use_ids (take (j - i) (drop i es)) = result_ids (take (j - i) (drop i es))"
proof -
  have "take j es = take i es @ take (j - i) (drop i es)"
    using assms(4) take_add [of i "j - i" es] by simp
  then have "use_ids (take j es) = use_ids (take i es) + use_ids (take (j - i) (drop i es))"
    and "result_ids (take j es) = result_ids (take i es) + result_ids (take (j - i) (drop i es))"
    by simp_all
  with answered_logD [OF assms(1,2)] answered_logD [OF assms(1,3)] show ?thesis by simp
qed

lemma summary_ids [simp]:
  "use_ids [summary_entry now t n] = {#}" "result_ids [summary_entry now t n] = {#}"
  by (simp_all add: use_ids_def result_ids_def is_use_def is_result_def summary_entry_def)

lemma answered_splice:
  assumes "answered_log es" and "boundary es st" and "boundary es en" and "st < en"
  shows "answered_log (take st es @ [summary_entry now t n] @ drop en es)"
proof -
  let ?sum = "summary_entry now t n"
  let ?es = "take st es @ [?sum] @ drop en es"
  have len: "st < length es" "en \<le> length es" using assms(2-4) by (auto simp: boundary_def)
  have "use_ids (take i ?es) = result_ids (take i ?es)" if "boundary ?es i" for i
  proof (cases "i \<le> st")
    case True
    then have t: "take i ?es = take i es" using len by simp
    have "i < length ?es" using True len by simp
    with that have user: "is_user (?es ! i)" by (auto simp: boundary_def)
    have "i \<noteq> st"
    proof
      assume "i = st"
      with user len show False by (simp add: nth_append summary_entry_def)
    qed
    with True user len have "boundary es i" by (simp add: boundary_def nth_append)
    from answered_logD [OF assms(1) this] show ?thesis by (simp only: t)
  next
    case False
    define k where "k = i - Suc st"
    have i: "i = Suc st + k" using False by (simp add: k_def)
    have t: "take i ?es = take st es @ [?sum] @ take k (drop en es)" using len by (simp add: i)
    have "boundary es (en + k)"
      using that len by (auto simp: boundary_def i nth_append)
    from answered_between [OF assms(1,3) this] have "use_ids (take k (drop en es)) = result_ids (take k (drop en es))"
      by simp
    with answered_logD [OF assms(1,2)] show ?thesis
      unfolding t use_ids_append result_ids_append summary_ids by simp
  qed
  then show ?thesis by (simp add: answered_log_def)
qed

lemma answered_trim: "answered_log es \<Longrightarrow> trim_related es es' \<Longrightarrow> answered_log es'"
proof -
  assume log: "answered_log es" and tr: "trim_related es es'"
  have len: "length es' = length es" using tr by (rule trim_related_length)
  have "use_ids (take i es') = result_ids (take i es')" if "boundary es' i" "i \<le> length es'" for i
  proof -
    have "i < length es \<Longrightarrow> m_role (es' ! i) = m_role (es ! i)"
      using tr by (simp add: list_all2_nthD trimmed_to_fields(1))
    with that len have "boundary es i" by (auto simp: boundary_def)
    moreover have "trim_related (take i es) (take i es')" using tr by (rule list_all2_takeI)
    ultimately show ?thesis using answered_logD [OF log] trim_related_ids by metis
  qed
  then show ?thesis by (simp add: answered_log_def)
qed

section \<open>The invariant of a session\<close>

definition session_inv :: "xAgentSession \<Rightarrow> bool" where
  "session_inv s \<longleftrightarrow> (s_query s = None \<longrightarrow> \<not> compacting s) \<and>
     (compacting s \<longrightarrow>
        compact_range (budget s) (history s) = Some (compact_start_idx s, compact_end_idx s)) \<and>
     cap_ok (history_arr s)"

section \<open>The session as a state machine\<close>

inductive session_moves :: "senv \<Rightarrow> xAgent \<Rightarrow> xAgentSession \<Rightarrow> xAgentSession \<Rightarrow> bool" for env ag where
  smove_input: "session_moves env ag s (snd (xAgentSessionInput env ag msg s))"
| smove_query: "session_moves env ag s (session_query_step env ag inp s)"
| smove_cancel: "session_moves env ag s (xAgentSessionCancel s)"
| smove_provider: "session_moves env ag s (xAgentSessionSetProvider s p)"
| smove_model: "session_moves env ag s (snd (xAgentSessionSetModel ag s mid))"
| smove_window: "session_moves env ag s (xAgentSessionSetContextWindow s w)"
| smove_budget: "session_moves env ag s (xAgentSessionSetBudget s b)"

inductive session_reaches :: "senv \<Rightarrow> xAgent \<Rightarrow> xAgentSession \<Rightarrow> xAgentSession \<Rightarrow> bool" for env ag where
  sreach_refl: "session_reaches env ag s s"
| sreach_step: "session_reaches env ag s s1 \<Longrightarrow> session_moves env ag s1 s2 \<Longrightarrow> session_reaches env ag s s2"

inductive_cases session_moves_cases: "session_moves env ag s s'"

lemma range_window: "compact_range (b\<lparr>context_window := w\<rparr>) es = compact_range b es"
  by (simp add: compact_range_def)

text \<open>The capacity through the operations that touch the history.\<close>

lemma cap_ok_hist_put:
  "\<lbrakk>\<And>rc a m. r = (rc, a, m) \<Longrightarrow> cap_ok a; hist_put s r = (rc, s')\<rbrakk> \<Longrightarrow> cap_ok (history_arr s')"
  by (auto simp: hist_put_def split: prod.splits)

lemma cap_ok_set_slot: "cap_ok a \<Longrightarrow> elems a \<noteq> [] \<Longrightarrow> cap_ok (set_slot a x)"
  unfolding set_slot_def by (rule cap_ok_shrink) (auto simp: Suc_leI)

lemma cap_ok_pop: "cap_ok a \<Longrightarrow> cap_ok (snd (xArrayPop a))"
  by (auto simp: xArrayPop_def intro: cap_ok_shrink)

lemma cap_ok_msg_push: "msg_push m now a = (ok, a', m') \<Longrightarrow> cap_ok a \<Longrightarrow> cap_ok a' \<and> (ok \<longrightarrow> elems a' \<noteq> [])"
  using msg_push_elems [of m now a ok a' m'] by (auto simp: msg_push_def dest: cap_ok_push)

lemma cap_ok_append_text: "turn_buf_append_text m now a r t n = (rc, a', m') \<Longrightarrow> cap_ok a \<Longrightarrow> cap_ok a'"
  by (cases "msg_push m now a")
    (auto simp: turn_buf_append_text_def Let_def split: if_splits option.splits prod.splits
      dest: cap_ok_msg_push intro: cap_ok_set_slot cap_ok_pop)

lemma cap_ok_append_concat: "append_concat m now a msg = (rc, a', m') \<Longrightarrow> cap_ok a \<Longrightarrow> cap_ok a'"
  by (auto simp: append_concat_def Let_def split: if_splits prod.splits
      dest: cap_ok_msg_push cap_ok_append_text intro: cap_ok_set_slot)

lemma cap_ok_merge: "merge_produced m a es = (a', m') \<Longrightarrow> cap_ok a \<Longrightarrow> cap_ok a'"
proof (induction es arbitrary: m a)
  case Nil
  then show ?case by simp
next
  case (Cons e es)
  obtain ok a1 m1 where p: "xArrayPush m a e = (ok, a1, m1)" by (metis prod_cases3)
  with Cons cap_ok_push [OF p Cons.prems(2)] show ?case by (auto split: if_splits)
qed

lemma cap_ok_rollback: "cap_ok (history_arr s) \<Longrightarrow> cap_ok (history_arr (rollback n s))"
  by (simp add: rollback_pop_to cap_ok_pop_to)

lemma cap_ok_start:
  assumes "session_start env ag msg hits s = (rc, s')" and "cap_ok (history_arr s)"
  shows "cap_ok (history_arr s')"
proof -
  obtain rc1 s1 where app: "history_append_user_msg env s msg = (rc1, s1)" by fastforce
  have c1: "cap_ok (history_arr s1)"
    using app assms(2) cap_ok_append_concat
    by (auto simp: history_append_user_msg_def hist_put_def split: prod.splits)
  define s2 where "s2 = s1\<lparr>delta_entries := delta_entries s1 + (length (history s1) - length (history s))\<rparr>"
  obtain vrc view mt s3 where v: "sess_input_view_build s2 hits 0 = (vrc, view, mt, s3)"
    by (metis prod_cases4)
  have c3: "cap_ok (history_arr s3)" using kept_view [OF v] c1 by (simp add: kept_def s2_def)
  define s4 where "s4 = session_update_overhead_tokens mt s3"
  obtain oq s5 where c: "create_query s4 (session_conf ag s4) = (oq, s5)" by fastforce
  have c5: "cap_ok (history_arr s5)"
    using kept_create [OF c] c3 by (simp add: kept_def s4_def overhead_frame)
  show ?thesis
    using assms(1) c1 c3 c5
    by (auto simp: session_start_def Let_def app s2_def [symmetric] v s4_def [symmetric] c run_query_def
        destroy_query_def intro: cap_ok_rollback split: if_splits option.splits prod.splits)
qed

lemma cap_ok_trim: "session_trim_consumed_tool_results s = (n, freed, s') \<Longrightarrow>
   cap_ok (history_arr s) \<Longrightarrow> cap_ok (history_arr s')"
  using trim_session(1,13) trim_related_length by (metis cap_ok_def)

lemma cap_ok_enforce:
  assumes "session_enforce_budget env ag msg s = (rc, s')" and "idle s" and "cap_ok (history_arr s)"
  shows "cap_ok (history_arr s')"
proof -
  obtain n freed s1 where trim: "session_trim_consumed_tool_results s = (n, freed, s1)"
    by (metis prod_cases3)
  have i1: "idle s1" using assms(2) trim_session(3,4) [OF trim] by (simp add: idle_def)
  have c1: "cap_ok (history_arr s1)" by (rule cap_ok_trim [OF trim assms(3)])
  have "history_arr s' \<in> {history_arr s, history_arr s1}"
  proof (cases "\<exists>st en. compact_launch env ag msg st en s1 = (rc, s')")
    case True
    then obtain st en where "compact_launch env ag msg st en s1 = (rc, s')" by blast
    from compact_launch_cases(1) [OF this i1] show ?thesis by (simp add: kept_def)
  next
    case False
    then show ?thesis
      using assms(1)
      by (auto simp: session_enforce_budget_def Let_def trim frame_simps split: if_splits option.splits)
  qed
  with assms(3) c1 show ?thesis by auto
qed

lemma inv_input:
  assumes "session_inv s"
  shows "session_inv (snd (xAgentSessionInput env ag msg s))"
proof (cases "idle s")
  case False
  with assms show ?thesis by (simp add: input_busy)
next
  case True
  obtain rc s' where i: "xAgentSessionInput env ag msg s = (rc, s')" by fastforce
  note c = input_cases [OF i True]
  obtain grc s1 where g: "session_enforce_budget env ag msg s = (grc, s1)" by fastforce
  have "cap_ok (history_arr s')"
    using i g True assms cap_ok_enforce [OF g True] cap_ok_start
    by (auto simp: xAgentSessionInput_def idle_def session_inv_def split: if_splits)
  moreover have "(s_query s' = None \<longrightarrow> \<not> compacting s') \<and> (compacting s' \<longrightarrow>
      compact_range (budget s') (history s') = Some (compact_start_idx s', compact_end_idx s'))"
    using c(2,4,5) by (cases "rc = xErrno_Ok") (auto simp: idle_def)
  ultimately show ?thesis by (simp add: i session_inv_def)
qed

lemma forward_frame:
  "s_query (fold sess_forward evs s) = s_query s \<and> compacting (fold sess_forward evs s) = compacting s \<and>
   budget (fold sess_forward evs s) = budget s \<and> history_arr (fold sess_forward evs s) = history_arr s \<and>
   compact_start_idx (fold sess_forward evs s) = compact_start_idx s \<and>
   compact_end_idx (fold sess_forward evs s) = compact_end_idx s \<and> s_mem (fold sess_forward evs s) = s_mem s \<and>
   pending_text (fold sess_forward evs s) = pending_text s \<and>
   persisted_prefix (fold sess_forward evs s) = persisted_prefix s"
proof (induction evs arbitrary: s)
  case Nil
  then show ?case by simp
next
  case (Cons ev evs)
  from Cons.IH [of "sess_forward ev s"] show ?case
    by (cases ev) (simp_all add: sfire_def semit_def)
qed

lemma run_done_frame:
  "idle (run_done q reason u s) = (\<not> compacting s)" "budget (run_done q reason u s) = budget s"
  "cap_ok (history_arr s) \<Longrightarrow> cap_ok (history_arr (run_done q reason u s))"
  by (auto simp: run_done_def Let_def idle_def destroy_query_def session_sidecar_cleanup_def sfire_def semit_def
      intro: cap_ok_merge split: prod.split)

lemma cap_ok_compact_finish:
  "cap_ok (history_arr s) \<Longrightarrow> cap_ok (history_arr (compact_finish env q s))"
  using compact_splice_frame(4)
  by (auto simp: compact_finish_def Let_def frame_simps destroy_query_def split: option.splits prod.splits)

lemma inv_idle: "idle s \<Longrightarrow> cap_ok (history_arr s) \<Longrightarrow> session_inv s"
  by (simp add: session_inv_def idle_def)

lemma inv_auto_retry: "session_inv s \<Longrightarrow> session_inv (session_auto_retry_pending env ag s)"
proof -
  assume "session_inv s"
  then have "session_inv (s\<lparr>pending_text := None\<rparr>)" by (simp add: session_inv_def)
  with \<open>session_inv s\<close> show ?thesis by (simp add: session_auto_retry_pending_def inv_input split: option.split)
qed

lemma inv_fwd_on_done: "session_inv s \<Longrightarrow> session_inv (sess_fwd_on_done env ag q reason u s)"
proof -
  assume s: "session_inv s"
  show ?thesis
  proof (cases "compacting s")
    case True
    have "session_inv (compact_finish env q s)"
      using s by (intro inv_idle compact_finish_idle cap_ok_compact_finish) (simp add: session_inv_def)
    then show ?thesis using True by (simp add: sess_fwd_on_done_def compact_done_def inv_auto_retry)
  next
    case False
    have "session_inv (run_done q reason u s)"
      using s False by (intro inv_idle) (simp_all add: run_done_frame session_inv_def)
    with False show ?thesis by (simp add: sess_fwd_on_done_def)
  qed
qed

lemma inv_query_step: "session_inv s \<Longrightarrow> session_inv (session_query_step env ag inp s)"
proof (cases "s_query s")
  case None
  assume "session_inv s"
  with None show ?thesis by (simp add: session_query_step_def)
next
  case (Some q)
  assume s: "session_inv s"
  define q' where "q' = query_step (env_query env) (q\<lparr>q_mem := s_mem s\<rparr>) inp"
  define s1 where "s1 = fold sess_forward (drop (length (trace q)) (trace q'))
    (s\<lparr>s_query := Some q', s_mem := q_mem q'\<rparr>)"
  have "session_inv s1" using s by (simp add: s1_def session_inv_def forward_frame)
  then show ?thesis
    by (auto simp: session_query_step_def Some Let_def q'_def [symmetric] s1_def [symmetric] inv_fwd_on_done
        split: option.split)
qed

lemma inv_moves: "session_moves env ag s s' \<Longrightarrow> session_inv s \<Longrightarrow> session_inv s'"
proof (elim session_moves_cases)
  fix mid
  assume "session_inv s" and "s' = snd (xAgentSessionSetModel ag s mid)"
  then show "session_inv s'"
    by (auto simp: xAgentSessionSetModel_def session_inv_def Let_def split: option.split prod.split)
qed (simp_all add: inv_input inv_query_step, auto simp: session_inv_def xAgentSessionCancel_def
    xAgentSessionSetProvider_def xAgentSessionSetContextWindow_def xAgentSessionSetBudget_def range_window)

lemma inv_reaches: "session_reaches env ag s s' \<Longrightarrow> session_inv s \<Longrightarrow> session_inv s'"
  by (induction rule: session_reaches.induct) (auto intro: inv_moves)

lemma inv_create: "xAgentSessionCreate m ag conf = (Some s, m') \<Longrightarrow> session_inv s \<and> idle s"
  by (auto simp: xAgentSessionCreate_def Let_def session_inv_def idle_def cap_ok_def xArrayCreate_def
      session_update_overhead_tokens_def split: prod.splits if_splits)

section \<open>Persisting a compaction\<close>

text \<open>What has gone to the memory store.\<close>

fun appended :: "sevent \<Rightarrow> xAgentSessionMsg list" where
  "appended (Sev_memory_append r es) = es"
| "appended _ = []"

definition stored :: "xAgentSession \<Rightarrow> xAgentSessionMsg list" where
  "stored s = concat (map appended (s_trace s))"

lemma compact_splice_stored:
  assumes "compact_start_idx s = st" and "compact_end_idx s = en" and "st < en"
    and "en \<le> length (history s)" and "length (history s) < SIZE_LIM"
    and "length (history s) \<le> cap (history_arr s)" and "memory s" and "session_id_copy s \<noteq> None"
    and "compact_splice env t n s = (ok, s')"
  shows "\<exists>now. history s' = take st (history s) @ [summary_entry now t n] @ drop en (history s) \<and>
    stored s' = stored s
      @ (let skip = (if st < persisted_prefix s then min (persisted_prefix s) en else st)
         in take (en - skip) (drop skip (history s))) @ [summary_entry now t n]"
proof -
  define skip where "skip = (if st < persisted_prefix s then min (persisted_prefix s) en else st)"
  from compact_splice_ok(7) [OF assms(1-6,9,7,8)] obtain now evs where
    tr: "s_trace s' = s_trace s @ evs @ [Sev_memory_append xAgentMemoryAppendReason_Compacted [summary_entry now t n]]"
    and evs: "evs = (if skip < en then [Sev_memory_append xAgentMemoryAppendReason_Compacted
        (take (en - skip) (drop skip (history s)))] else [])"
    and h: "history s' = take st (history s) @ [summary_entry now t n] @ drop en (history s)"
    by (auto simp: Let_def skip_def)
  have "concat (map appended evs) = take (en - skip) (drop skip (history s))" by (simp add: evs)
  with tr h show ?thesis by (intro exI [of _ now]) (simp add: stored_def skip_def Let_def)
qed

lemma compact_splice_prefix:
  assumes "compact_start_idx s = st" and "compact_end_idx s = en" and "st < en"
    and "en \<le> length (history s)" and "length (history s) < SIZE_LIM"
    and "length (history s) \<le> cap (history_arr s)" and "compact_splice env t n s = (ok, s')"
  shows "persisted_prefix s \<le> en \<Longrightarrow> drop (persisted_prefix s') (history s') = drop en (history s)"
    and "en < persisted_prefix s \<Longrightarrow> drop (persisted_prefix s') (history s') = drop (persisted_prefix s - 1) (history s)"
proof -
  note ok = compact_splice_ok [OF assms]
  obtain now where h: "history s' = take st (history s) @ [summary_entry now t n] @ drop en (history s)"
    using ok(2) by blast
  have len: "min (length (history s)) st = st" using assms(3,4) by simp
  show "drop (persisted_prefix s') (history s') = drop en (history s)" if "persisted_prefix s \<le> en"
  proof -
    have "persisted_prefix s' = st + 1" using ok(6) that assms(3) by (auto simp: max_def min_def)
    then show ?thesis by (simp add: h len)
  qed
  show "drop (persisted_prefix s') (history s') = drop (persisted_prefix s - 1) (history s)"
    if "en < persisted_prefix s"
  proof -
    define k where "k = persisted_prefix s - en - 1"
    have "persisted_prefix s' = st + 1 + k" using ok(6) that assms(3) by (auto simp: max_def min_def k_def)
    then have "drop (persisted_prefix s') (history s') = drop k (drop en (history s))" by (simp add: h len)
    with that show ?thesis by (simp add: k_def)
  qed
qed

section \<open>Well-formed histories\<close>

lemma wf_concat_entry:
  "role msg = xAgentRole_User \<Longrightarrow> length (text_bytes (contents msg)) = text_total (contents msg) \<Longrightarrow>
   wf_entry (concat_entry now msg)"
  by (simp add: wf_entry_defs concat_entry_def zero_msg_def)

lemma wf_trim: "wf_entry e \<Longrightarrow> trimmed_to e e' \<Longrightarrow> wf_entry e'"
  by (auto simp: trimmed_to_def wf_entry_defs trimmable_def trim_entry_def Let_def
      split: xAgentSessionEntryKind.splits)

lemma wf_trim_related: "trim_related es es' \<Longrightarrow> \<forall>e \<in> set es. wf_entry e \<Longrightarrow> \<forall>e \<in> set es'. wf_entry e"
  by (induction rule: list_all2_induct) (auto intro: wf_trim)

lemma session_start_prompt:
  assumes "session_start env ag msg hits s = (rc, s')"
  shows "system_prompt s' = system_prompt s"
proof -
  obtain rc1 s1 where app: "history_append_user_msg env s msg = (rc1, s1)" by fastforce
  have p1: "system_prompt s1 = system_prompt s"
    by (subst history_append_user_msg_cases(1) [OF app]) simp
  define s2 where "s2 = s1\<lparr>delta_entries := delta_entries s1 + (length (history s1) - length (history s))\<rparr>"
  obtain vrc view mt s3 where v: "sess_input_view_build s2 hits 0 = (vrc, view, mt, s3)"
    by (metis prod_cases4)
  have p3: "system_prompt s3 = system_prompt s" using kept_view [OF v] p1 by (simp add: kept_def s2_def)
  define s4 where "s4 = session_update_overhead_tokens mt s3"
  obtain oq s5 where c: "create_query s4 (session_conf ag s4) = (oq, s5)" by fastforce
  have p5: "system_prompt s5 = system_prompt s"
    using kept_create [OF c] p3 by (simp add: kept_def s4_def session_update_overhead_tokens_def)
  show ?thesis
    using assms p1 p3 p5
    by (auto simp: session_start_def Let_def app s2_def [symmetric] v s4_def [symmetric] c run_query_def
        destroy_query_def rollback_frame split: if_splits option.splits prod.splits)
qed

lemma run_done_history:
  "\<exists>k \<le> length (elems (produced_arr q)).
     history (run_done q reason u s) = history s @ take k (elems (produced_arr q)) \<and>
     (s_mem s = [] \<longrightarrow> k = length (elems (produced_arr q))) \<and> sidecar (run_done q reason u s) = None"
proof -
  define es where "es = elems (produced_arr q)"
  obtain a m where mg: "arr.push_all (s_mem s) (history_arr s) es = (a, m)" by fastforce
  have h: "history (run_done q reason u s) = elems a" "sidecar (run_done q reason u s) = None"
    using mg by (auto simp: run_done_def Let_def merge_produced_push_all es_def [symmetric] destroy_query_def
        session_sidecar_cleanup_def sfire_def semit_def)
  show ?thesis
  proof (cases "s_mem s = []")
    case True
    with mg arr.push_all_total [of "history_arr s" es] have "elems a = history s @ es" by auto
    with h True show ?thesis by (intro exI [of _ "length es"]) (simp add: es_def)
  next
    case False
    with arr.push_all_prefix [OF mg] h show ?thesis by (auto simp: es_def)
  qed
qed

end
