(* ===== verification/QueryFacts.thy ===== *)
theory QueryFacts
  imports QueryBalance
begin

text \<open>
  Further facts of \<^verbatim>\<open>Query\<close>: what the reported usage of a run is, and the life of a confirmation
  resolver, including the two situations in which the code mishandles it.
\<close>

section \<open>Usage\<close>

definition known :: "int list \<Rightarrow> int list" where
  "known xs = filter (\<lambda>x. 0 \<le> x) xs"

definition max_known :: "int list \<Rightarrow> int" where
  "max_known xs = (if known xs = [] then -1 else Max (set (known xs)))"

definition sum_known :: "int list \<Rightarrow> int" where
  "sum_known xs = (if known xs = [] then -1 else sum_list (known xs))"

lemma fold_max_known:
  "-1 \<le> acc \<Longrightarrow> fold (\<lambda>x a. fold_max a x) xs acc = (if known xs = [] then acc else max acc (Max (set (known xs))))"
proof (induction xs arbitrary: acc)
  case Nil
  then show ?case by (simp add: known_def)
next
  case (Cons x xs)
  show ?case
  proof (cases "0 \<le> x")
    case True
    then have "fold_max acc x = max acc x" using Cons.prems by (auto simp: fold_max_def max_def)
    moreover have k: "known (x # xs) = x # known xs" using True by (simp add: known_def)
    moreover have "-1 \<le> max acc x" using True by simp
    ultimately show ?thesis
      using Cons.IH [of "max acc x"]
      by (cases "known xs = []") (simp_all add: Max_insert max.assoc)
  next
    case False
    with Cons show ?thesis by (simp add: known_def fold_max_def)
  qed
qed

lemma known_nonneg: "\<forall>x \<in> set (known xs). 0 \<le> x"
  by (simp add: known_def)

lemma fold_max_all: "fold (\<lambda>x a. fold_max a x) xs (-1) = max_known xs"
proof (cases "known xs = []")
  case True
  then show ?thesis by (simp add: fold_max_known max_known_def)
next
  case False
  then have "0 \<le> Max (set (known xs))" using known_nonneg [of xs] by (simp add: Max_ge_iff) (metis list.set_intros(1) neq_Nil_conv)
  with False show ?thesis by (simp add: fold_max_known max_known_def)
qed

lemma fold_add_known: "0 \<le> acc \<Longrightarrow> fold (\<lambda>x a. fold_add a x) xs acc = acc + sum_list (known xs)"
  by (induction xs arbitrary: acc) (auto simp: known_def fold_add_def)

lemma fold_add_all: "fold (\<lambda>x a. fold_add a x) xs (-1) = sum_known xs"
proof (induction xs)
  case Nil
  then show ?case by (simp add: sum_known_def known_def)
next
  case (Cons x xs)
  show ?case
  proof (cases "0 \<le> x")
    case True
    then show ?thesis using fold_add_known [of x xs] by (simp add: fold_add_def sum_known_def known_def)
  next
    case False
    with Cons show ?thesis by (simp add: fold_add_def sum_known_def known_def)
  qed
qed

lemma usage_fold:
  "usage (fold (\<lambda>u q. usage_accumulate (Some u) q) us q) =
     \<lparr>prompt_tokens = fold (\<lambda>x a. fold_max a x) (map prompt_tokens us) (prompt_tokens (usage q)),
      completion_tokens = fold (\<lambda>x a. fold_add a x) (map completion_tokens us) (completion_tokens (usage q)),
      total_tokens = fold (\<lambda>x a. fold_add a x) (map total_tokens us) (total_tokens (usage q))\<rparr>"
  by (induction us arbitrary: q) (simp_all add: usage_accumulate_def)

section \<open>Resolvers\<close>

lemma resolvers_frame [frame_simps]:
  "resolvers (emit ev q) = resolvers q" "resolvers (fire cb ev q) = resolvers q"
  "resolvers (query_finalize r q) = resolvers q" "resolvers (fail_run rc t r q) = resolvers q"
  "resolvers (pending_reset q) = resolvers q"
  by (simp_all add: emit_def fire_def query_finalize_def fail_run_def pending_reset_def)

lemma resolvers_snd [frame_simps]:
  "resolvers (snd (produce_tool_result env q i out len e)) = resolvers q"
  "resolvers (snd (async_push q t i n g st)) = resolvers q"
  "resolvers (snd (async_pending_remove q i)) = resolvers q"
  by (simp_all add: produce_tool_result_def async_push_def async_pending_remove_def Let_def
      split: option.split prod.split)

lemma resolvers_submit: "resolvers (snd (submit_round env q)) = resolvers q"
  by (simp add: submit_round_def Let_def frame_simps reasoning_reset_def assist_reset_def split: prod.split)

lemma resolvers_continue [frame_simps]: "resolvers (continue_if_idle env t q) = resolvers q"
  using resolvers_submit [of env q]
  by (cases "submit_round env q") (simp add: continue_if_idle_def frame_simps)

lemma resolvers_invoke: "resolvers (snd (invoke_tool_inline env q t i n g)) = resolvers q"
proof -
  define q1 where "q1 = emit (Ev_invoke n i g) (fire on_tool (Ev_on_tool n True) q)"
  have q1: "resolvers q1 = resolvers q" by (simp add: q1_def frame_simps)
  obtain trc out where inv: "env_invoke env (trace q1) n i g = (trc, out)" by fastforce
  obtain out_text len e where res: "tool_output trc out = (out_text, len, e)"
    by (cases "tool_output trc out") auto
  show ?thesis
    using resolvers_snd(1) [of env q1 i out_text len e]
      resolvers_snd(2) [of q1 t i n g XAGENT_ASYNC_STAGE_RUNNING]
    by (auto simp: invoke_tool_inline_def q1_def [symmetric] inv res q1 resolvers_frame split: prod.splits)
qed

text \<open>An answer frees its resolver, whatever it leads to.\<close>

lemma resolve_frees:
  assumes "resolvers q h = Some r" and "\<not> r_done r"
  shows "resolvers (xAgentToolConfirmResolve env h d reason q) h = None"
proof -
  have free: "resolvers (confirm_resolver_free h q') h = None" for q'
    by (simp add: confirm_resolver_free_def)
  obtain oa q1 where rem: "async_pending_remove q (r_id r) = (oa, q1)" by fastforce
  show ?thesis
  proof (cases "oa = None \<or> \<not> r_live r")
    case True
    with assms rem free show ?thesis by (auto simp: xAgentToolConfirmResolve_def split: option.split)
  next
    case False
    then obtain a where a: "oa = Some a" by auto
    define msg where "msg = (case reason of None \<Rightarrow> ''rejected by user''
                                | Some s \<Rightarrow> if s = '''' then ''rejected by user'' else s)"
    obtain rc2 q2 where prod: "produce_tool_result env q1 (a_id a) msg (strlen msg) 1 = (rc2, q2)"
      by fastforce
    obtain rc3 q3 where inv: "invoke_tool_inline env (confirm_resolver_free h q1) (a_tool a) (a_id a)
        (a_name a) (a_args_json a) = (rc3, q3)" by fastforce
    have "resolvers q3 h = None"
      using resolvers_invoke [of env "confirm_resolver_free h q1" "a_tool a" "a_id a" "a_name a" "a_args_json a"]
        inv free [of q1] by simp
    with assms False a rem prod inv free show ?thesis
      by (cases d) (simp_all add: xAgentToolConfirmResolve_def Let_def msg_def [symmetric] frame_simps)
  qed
qed

section \<open>Cancelling a run that waits for the host\<close>

definition waiting :: "xAgentQuery \<Rightarrow> bool" where
  "waiting q \<longleftrightarrow> running q \<and> elems (async_pending_arr q) \<noteq> [] \<and>
     (\<forall>a \<in> set (elems (async_pending_arr q)). a_stage a = XAGENT_ASYNC_STAGE_AWAITING_CONFIRM)"

definition all_dead :: "xAgentQuery \<Rightarrow> bool" where
  "all_dead q \<longleftrightarrow> (\<forall>a \<in> set (elems (async_pending_arr q)). \<forall>h. a_resolver a = Some h \<longrightarrow>
     (case resolvers q h of None \<Rightarrow> True | Some r \<Rightarrow> \<not> r_live r))"

lemma cancel_async_frame:
  "async_pending_arr (cancel_async as q) = async_pending_arr q \<and> running (cancel_async as q) = running q"
proof (induction as arbitrary: q)
  case (Cons a as)
  have "async_pending_arr (confirm_resolver_invalidate oh q) = async_pending_arr q \<and>
      running (confirm_resolver_invalidate oh q) = running q" for oh
    by (simp add: confirm_resolver_invalidate_def split: option.split)
  with Cons.IH show ?case by (simp add: emit_def)
qed simp

lemma invalidate_keeps_dead:
  "(case resolvers q h of None \<Rightarrow> True | Some r \<Rightarrow> \<not> r_live r) \<Longrightarrow>
   (case resolvers (confirm_resolver_invalidate oh q) h of None \<Rightarrow> True | Some r \<Rightarrow> \<not> r_live r)"
  by (auto simp: confirm_resolver_invalidate_def split: option.splits if_splits)

lemma cancel_async_keeps_dead:
  "(case resolvers q h of None \<Rightarrow> True | Some r \<Rightarrow> \<not> r_live r) \<Longrightarrow>
   (case resolvers (cancel_async as q) h of None \<Rightarrow> True | Some r \<Rightarrow> \<not> r_live r)"
proof (induction as arbitrary: q)
  case (Cons a as)
  show ?case
    using Cons.IH [OF invalidate_keeps_dead [OF Cons.prems, of "a_resolver a"]] Cons.IH [OF Cons.prems]
      Cons.IH [of "emit (Ev_tool_cancel (a_id a)) q"] Cons.prems
    by (simp add: resolvers_frame)
qed simp

lemma cancel_async_dead:
  "\<forall>a \<in> set as. a_stage a = XAGENT_ASYNC_STAGE_AWAITING_CONFIRM \<Longrightarrow> a \<in> set as \<Longrightarrow> a_resolver a = Some h \<Longrightarrow>
   (case resolvers (cancel_async as q) h of None \<Rightarrow> True | Some r \<Rightarrow> \<not> r_live r)"
proof (induction as arbitrary: q)
  case (Cons b as)
  show ?case
  proof (cases "a = b")
    case True
    have "case resolvers (confirm_resolver_invalidate (Some h) q) h of None \<Rightarrow> True | Some r \<Rightarrow> \<not> r_live r"
      by (simp add: confirm_resolver_invalidate_def split: option.split)
    with True Cons.prems cancel_async_keeps_dead show ?thesis by simp
  next
    case False
    with Cons show ?thesis by simp
  qed
qed simp

text \<open>
  After the cancel every resolver of an outstanding call is dead, and answering a dead resolver
  only frees it: the run stays running with its calls outstanding.
\<close>

lemma cancel_waiting:
  assumes "waiting q"
  shows "running (xAgentQueryCancel q)" and "async_pending_arr (xAgentQueryCancel q) = async_pending_arr q"
    and "all_dead (xAgentQueryCancel q)"
proof -
  define q1 where "q1 = emit Ev_provider_cancel (q\<lparr>cancelled := True\<rparr>)"
  have eq: "xAgentQueryCancel q = cancel_async (elems (async_pending_arr q)) q1"
    using assms by (simp add: xAgentQueryCancel_def waiting_def q1_def)
  have f: "async_pending_arr q1 = async_pending_arr q" "running q1 = running q"
    by (simp_all add: q1_def emit_def)
  show "running (xAgentQueryCancel q)" and a: "async_pending_arr (xAgentQueryCancel q) = async_pending_arr q"
    using assms f by (simp_all add: eq cancel_async_frame waiting_def)
  show "all_dead (xAgentQueryCancel q)"
    unfolding all_dead_def a using assms cancel_async_dead by (auto simp: waiting_def eq)
qed

lemma resolve_dead:
  assumes "case resolvers q h of None \<Rightarrow> True | Some r \<Rightarrow> \<not> r_live r"
  shows "running (xAgentToolConfirmResolve env h d reason q) = running q"
    and "async_pending_arr (xAgentToolConfirmResolve env h d reason q) = async_pending_arr q"
    and "n_done (trace (xAgentToolConfirmResolve env h d reason q)) = n_done (trace q)"
  using assms
  by (auto simp: xAgentToolConfirmResolve_def emit_def confirm_resolver_free_def split: option.splits)

text \<open>
  What can still reach a run whose provider has finished its round and which is then cancelled: answers to
  confirmations it has asked for (outstanding or answered before), further cancels, late chunks and tool calls of the provider, and
  completions of tools that are not outstanding.
\<close>

inductive late_inputs :: "qenv \<Rightarrow> (nat \<Rightarrow> bool) \<Rightarrow> (string \<Rightarrow> bool) \<Rightarrow> xAgentQuery \<Rightarrow> xAgentQuery \<Rightarrow> bool" for env asked outstanding q where
  late_none: "late_inputs env asked outstanding q q"
| late_resolve: "late_inputs env asked outstanding q q1 \<Longrightarrow> asked h
    \<Longrightarrow> late_inputs env asked outstanding q (xAgentToolConfirmResolve env h d reason q1)"
| late_cancel: "late_inputs env asked outstanding q q1 \<Longrightarrow> late_inputs env asked outstanding q (xAgentQueryCancel q1)"
| late_text: "late_inputs env asked outstanding q q1 \<Longrightarrow> late_inputs env asked outstanding q (on_provider_text chunk q1)"
| late_thinking: "late_inputs env asked outstanding q q1 \<Longrightarrow> late_inputs env asked outstanding q (on_provider_thinking chunk q1)"
| late_tool_call: "late_inputs env asked outstanding q q1 \<Longrightarrow> late_inputs env asked outstanding q (on_provider_tool_call call q1)"
| late_complete: "late_inputs env asked outstanding q q1 \<Longrightarrow> \<not> outstanding i
    \<Longrightarrow> late_inputs env asked outstanding q (ai_query_async_tool_complete env q1 i result)"

definition call_of :: "xAgentQuery \<Rightarrow> nat \<Rightarrow> bool" where
  "call_of q h \<longleftrightarrow> resolvers q h = None \<or> (\<exists>a \<in> set (elems (async_pending_arr q)). a_resolver a = Some h)"

definition outstanding_id :: "xAgentQuery \<Rightarrow> string \<Rightarrow> bool" where
  "outstanding_id q i \<longleftrightarrow> (\<exists>a \<in> set (elems (async_pending_arr q)). a_id a = i)"

definition dead :: "xAgentQuery \<Rightarrow> nat \<Rightarrow> bool" where
  "dead q h \<longleftrightarrow> (case resolvers q h of None \<Rightarrow> True | Some r \<Rightarrow> \<not> r_live r)"

lemma cancel_async_done:
  "n_done (trace (cancel_async as q)) = n_done (trace q) \<and> cancelled (cancel_async as q) = cancelled q"
proof (induction as arbitrary: q)
  case (Cons a as)
  have "n_done (trace (confirm_resolver_invalidate oh q)) = n_done (trace q) \<and> cancelled (confirm_resolver_invalidate oh q) = cancelled q" for oh
    by (simp add: confirm_resolver_invalidate_def split: option.split)
  with Cons.IH show ?case by (simp add: emit_def)
qed simp

text \<open>What a cancelled run that waits keeps, and that every such input keeps it.\<close>

definition waits_cancelled :: "(nat \<Rightarrow> bool) \<Rightarrow> xAgentQuery \<Rightarrow> xAgentQuery \<Rightarrow> bool" where
  "waits_cancelled asked q q' \<longleftrightarrow> running q' \<and> cancelled q' \<and> async_pending_arr q' = async_pending_arr q
     \<and> n_done (trace q') = n_done (trace q) \<and> (\<forall>h. asked h \<longrightarrow> dead q' h)"

lemma cancel_keeps_waiting:
  assumes "waits_cancelled asked q q1"
  shows "waits_cancelled asked q (xAgentQueryCancel q1)"
proof -
  define q2 where "q2 = emit Ev_provider_cancel (q1\<lparr>cancelled := True\<rparr>)"
  have "dead (cancel_async as q2) h" if "asked h" for as h
    using assms that cancel_async_keeps_dead [of q2 h as] by (simp add: waits_cancelled_def dead_def q2_def emit_def)
  moreover have "n_done (trace q2) = n_done (trace q1)" "async_pending_arr q2 = async_pending_arr q1" "running q2 = running q1" "cancelled q2"
    by (simp_all add: q2_def emit_def)
  ultimately show ?thesis
    using assms cancel_async_frame [of _ q2] cancel_async_done [of _ q2]
    by (simp add: waits_cancelled_def xAgentQueryCancel_def q2_def [symmetric])
qed

lemma resolve_keeps_waiting:
  assumes "waits_cancelled asked q q1" "asked h"
  shows "waits_cancelled asked q (xAgentToolConfirmResolve env h d reason q1)"
proof -
  have "case resolvers q1 h of None \<Rightarrow> True | Some r \<Rightarrow> \<not> r_live r" using assms by (simp add: waits_cancelled_def dead_def)
  then have "xAgentToolConfirmResolve env h d reason q1 \<in> {q1, emit (Ev_use_after_free h) q1, confirm_resolver_free h q1}"
    by (auto simp: xAgentToolConfirmResolve_def split: option.splits)
  then show ?thesis
    using assms(1) by (auto simp: waits_cancelled_def dead_def emit_def confirm_resolver_free_def)
qed

lemma find_none: "\<forall>x \<in> set xs. \<not> P x \<Longrightarrow> arr_find_from P n xs = None"
  by (induction xs arbitrary: n) auto

lemma late_keeps_waiting:
  assumes "late_inputs env asked (outstanding_id q) q0 q'" "waits_cancelled asked q q0"
  shows "waits_cancelled asked q q'"
  using assms
proof (induction rule: late_inputs.induct)
  case (late_complete q1 i result)
  then have "async_pending_remove q1 i = (None, q1)"
    by (simp add: async_pending_remove_def waits_cancelled_def outstanding_id_def find_none)
  with late_complete show ?case by (simp add: ai_query_async_tool_complete_def)
next
  case late_text then show ?case by (simp add: waits_cancelled_def on_provider_text_def)
next
  case late_thinking then show ?case by (simp add: waits_cancelled_def on_provider_thinking_def)
next
  case late_tool_call then show ?case by (simp add: waits_cancelled_def on_provider_tool_call_def)
qed (simp_all add: resolve_keeps_waiting cancel_keeps_waiting)

lemma cancelled_waits:
  assumes "waiting q"
  shows "waits_cancelled (call_of q) q (xAgentQueryCancel q)"
proof -
  define q1 where "q1 = emit Ev_provider_cancel (q\<lparr>cancelled := True\<rparr>)"
  have eq: "xAgentQueryCancel q = cancel_async (elems (async_pending_arr q)) q1"
    using assms by (simp add: xAgentQueryCancel_def waiting_def q1_def)
  have q1: "n_done (trace q1) = n_done (trace q)" "cancelled q1" by (simp_all add: q1_def emit_def)
  note c = cancel_waiting [OF assms]
  have r1: "resolvers q1 = resolvers q" by (simp add: q1_def emit_def)
  have "dead (xAgentQueryCancel q) h" if "call_of q h" for h
  proof (cases "resolvers q h = None")
    case True then show ?thesis
      using cancel_async_keeps_dead [of q1 h "elems (async_pending_arr q)"] by (simp add: dead_def eq r1)
  next
    case False
    with that c(2,3) show ?thesis by (auto simp: call_of_def dead_def all_dead_def)
  qed
  then show ?thesis using c(1,2) q1 cancel_async_done [of "elems (async_pending_arr q)" q1] by (simp add: waits_cancelled_def eq)
qed

end
