(* ===== verification/Examples.thy ===== *)
theory Examples
  imports SessionInv QueryFacts
begin

text \<open>
  Small concrete worlds, queries and sessions. The witnesses of the properties and the worked
  defects evaluate the model on them.
\<close>

definition ex_cbs :: xAgentQueryCallbacks where
  "ex_cbs = \<lparr>on_text = False, on_thinking = False, on_done = True, on_error = True, on_tool = True,
     on_tool_confirm = True\<rparr>"

definition ex_tools :: "xAgentTool option list" where
  "ex_tools = [None, Some \<lparr>t_name = ''run'', t_needs_confirm = False, t_has_cancel = True\<rparr>,
     Some \<lparr>t_name = ''rm'', t_needs_confirm = True, t_has_cancel = False\<rparr>]"

definition ex_conf :: "int \<Rightarrow> xAgentQueryConf" where
  "ex_conf n = \<lparr>qc_provider = Some 1, qc_tools = ex_tools, qc_model = None, qc_max_tokens = 0,
     qc_max_turns = n, qc_cbs = ex_cbs, qc_session = Some False\<rparr>"

text \<open>\<open>run\<close> answers at once unless its arguments say otherwise; submits succeed.\<close>

definition ex_env :: qenv where
  "ex_env = \<lparr>env_now = (\<lambda>_. 0), env_submit = (\<lambda>_. xErrno_Ok),
     env_invoke = (\<lambda>_ n i g. if g = ''later'' then (xErrno_Pending, xAgentContent_Text None 0)
       else (xErrno_Ok, xAgentContent_ToolResult None (Some ''ok'') 0 0)),
     env_confirm = (\<lambda>_. None)\<rparr>"

definition user_says :: "string \<Rightarrow> xAgentMessage" where
  "user_says t = \<lparr>role = xAgentRole_User, contents = [xAgentContent_Text (Some t) (length t)]\<rparr>"

definition ex_query :: "int \<Rightarrow> xAgentQuery" where
  "ex_query n = fresh_query (ex_conf n) 1 []"

definition ex_started :: "int \<Rightarrow> xAgentQuery" where
  "ex_started n = snd (xAgentQueryRun ex_env [user_says ''hi''] (ex_query n))"

definition ex_call :: "string \<Rightarrow> string \<Rightarrow> string \<Rightarrow> qinput" where
  "ex_call i n g = In_tool_call (xAgentContent_ToolUse (Some i) (Some n) (Some g))"

definition ex_round :: qinput where
  "ex_round = In_done xAgentProviderStop_ToolUse xErrno_Ok
     (Some \<lparr>prompt_tokens = 10, completion_tokens = 2, total_tokens = 12\<rparr>) ''''"

definition ex_end :: qinput where
  "ex_end = In_done xAgentProviderStop_EndTurn xErrno_Ok
     (Some \<lparr>prompt_tokens = 15, completion_tokens = 3, total_tokens = 18\<rparr>) ''''"

lemma ex_create: "xAgentQueryCreate [] (ex_conf n) = (Create_ok (ex_query n), [])"
  by (simp add: xAgentQueryCreate_def ex_conf_def ex_query_def numeral_eq_Suc)

lemma ex_start: "xAgentQueryRun ex_env [user_says ''hi''] (ex_query n) =
    (fst (xAgentQueryRun ex_env [user_says ''hi''] (ex_query n)), ex_started n)"
  by (simp add: ex_started_def)

lemma ex_run_ok: "fst (xAgentQueryRun ex_env [user_says ''hi''] (ex_query n)) = xErrno_Ok"
  by (simp add: xAgentQueryRun_def ex_query_def fresh_query_def submit_round_def view_build_def
      turn_buf_append_message_def append_concat_def msg_push_def xArrayPush_def arr_grow_def user_says_def
      set_slot_def ex_env_def Let_def)

lemma ex_start_ok: "xAgentQueryRun ex_env [user_says ''hi''] (ex_query n) = (xErrno_Ok, ex_started n)"
  using ex_start [of n] by (simp only: ex_run_ok)

lemma ex_no_confirm: "env_confirm ex_env tr = None"
  by (simp add: ex_env_def)

definition ex_inputs :: "qinput list" where
  "ex_inputs = [ex_call ''a'' ''run'' ''now'', ex_round, In_text ''done'', ex_end, ex_end]"

text \<open>A run that waits for the host: one call of the tool that needs a confirmation.\<close>

definition ex_waiting :: xAgentQuery where
  "ex_waiting = query_run ex_env (ex_started 4) [ex_call ''a'' ''rm'' ''now'', ex_round]"

text \<open>A host that allows every call from inside the callback.\<close>

definition ex_env_sync :: qenv where
  "ex_env_sync = ex_env\<lparr>env_confirm := (\<lambda>_. Some (xAgentToolDecision_Allow, None))\<rparr>"

definition ex_entry :: xAgentQueryAsyncTool where
  "ex_entry = \<lparr>a_tool = \<lparr>t_name = ''rm'', t_needs_confirm = True, t_has_cancel = False\<rparr>, a_id = ''a'',
     a_name = ''rm'', a_args_json = ''now'', a_stage = XAGENT_ASYNC_STAGE_AWAITING_CONFIRM,
     a_resolver = Some 0\<rparr>"

lemma ex_waiting_state:
  "resolvers ex_waiting 0 = Some \<lparr>r_live = True, r_id = ''a'', r_done = False\<rparr>"
  "elems (async_pending_arr ex_waiting) = [ex_entry]" "running ex_waiting"
  by code_simp+

lemma ex_waiting_resolver:
  "resolvers ex_waiting 0 = Some \<lparr>r_live = True, r_id = ''a'', r_done = False\<rparr>"
  "\<not> r_done \<lparr>r_live = True, r_id = ''a'', r_done = False\<rparr>"
  by (simp_all add: ex_waiting_state)

lemma ex_waiting_waiting:
  "waiting ex_waiting" "ex_entry \<in> set (elems (async_pending_arr ex_waiting))" "a_resolver ex_entry = Some 0"
  by (simp_all add: waiting_def ex_waiting_state ex_entry_def)

section \<open>A session\<close>

definition ex_agent :: xAgent where
  "ex_agent = \<lparr>ag_provider = Some 1, ag_model = Some ''m'', ag_registry = None,
     ag_system_prompt = Some ''be brief'', ag_tools = ex_tools, ag_max_turns = 4, ag_max_tokens = 0,
     ag_memory = False, ag_enable_sidecar_query = False, ag_session_seq = 0\<rparr>"

definition ex_senv :: senv where
  "ex_senv = \<lparr>env_query = ex_env, env_wall = (\<lambda>_. 0), env_retrieve = (\<lambda>_ _. []), env_beyond = []\<rparr>"

text \<open>A provider that refuses every submit.\<close>

definition ex_senv_down :: senv where
  "ex_senv_down = ex_senv\<lparr>env_query := ex_env\<lparr>env_submit := (\<lambda>_. xErrno_SysError)\<rparr>\<rparr>"

definition ex_scbs :: xAgentSessionCallbacks where
  "ex_scbs = \<lparr>s_on_text = True, s_on_thinking = False, s_on_done = True, s_on_error = True,
     s_on_tool = False, s_on_tool_output = True, s_on_tool_confirm = False, s_on_sidecar = True\<rparr>"

definition ex_budget :: "xAgentBudgetPolicy \<Rightarrow> nat \<Rightarrow> xAgentBudgetConf" where
  "ex_budget p w = \<lparr>policy = p, context_window = w, context_preserve_head_turns = 1,
     context_preserve_tail_turns = 1, on_budget_event = True\<rparr>"

definition ex_sconf :: "xAgentBudgetConf \<Rightarrow> xAgentSessionConf" where
  "ex_sconf b = \<lparr>sc_cbs = ex_scbs, sc_system_prompt = None, sc_model = None, sc_max_turns = 0,
     sc_max_tokens = 0, sc_budget = b, sc_on_finalizing = True, sc_memory = True,
     sc_session_id = Some ''s'', sc_session_id_copy = Some ''s'', sc_sidecar_idle_ms = 0\<rparr>"

definition ex_session :: "xAgentBudgetConf \<Rightarrow> xAgentSession" where
  "ex_session b = the (fst (xAgentSessionCreate [] ex_agent (ex_sconf b)))"

text \<open>Say something and let the model answer with one text.\<close>

definition ex_turn :: "string \<Rightarrow> string \<Rightarrow> xAgentSession \<Rightarrow> xAgentSession" where
  "ex_turn t answer s =
     session_query_step ex_senv ex_agent ex_end
       (session_query_step ex_senv ex_agent (In_text answer)
         (snd (xAgentSessionInput ex_senv ex_agent (user_says t) s)))"

definition ex_disabled :: xAgentBudgetConf where
  "ex_disabled = ex_budget xAgentBudgetPolicy_Disabled 0"

definition ex_summarize :: xAgentBudgetConf where
  "ex_summarize = ex_budget xAgentBudgetPolicy_Summarize 60"

text \<open>
  Three turns of a session that summarizes; then the host shrinks the window, and the next input
  starts a compaction.
\<close>

definition ex_three :: xAgentSession where
  "ex_three = ex_turn ''three'' ''c'' (ex_turn ''two'' ''b'' (ex_turn ''one'' ''a'' (ex_session ex_summarize)))"

definition ex_compacting :: xAgentSession where
  "ex_compacting = snd (xAgentSessionInput ex_senv ex_agent (user_says ''four'')
     (xAgentSessionSetContextWindow ex_three 30))"

definition ex_summary :: xAgentQuery where
  "ex_summary = query_run ex_env (the (s_query ex_compacting)) [In_text ''sum'', ex_end]"

lemma ex_created: "xAgentSessionCreate [] ex_agent (ex_sconf b) = (Some (ex_session b), [])"
proof -
  have "fst (xAgentSessionCreate [] ex_agent (ex_sconf b)) \<noteq> None
      \<and> snd (xAgentSessionCreate [] ex_agent (ex_sconf b)) = []"
    by (simp add: xAgentSessionCreate_def ex_sconf_def ex_agent_def xArrayCreate_def Let_def dup_cstr_def
        dup_bytes_def)
  then show ?thesis
    by (cases "xAgentSessionCreate [] ex_agent (ex_sconf b)") (auto simp: ex_session_def)
qed

lemma ex_turn_reaches:
  assumes "session_reaches ex_senv ex_agent s0 s"
  shows "session_reaches ex_senv ex_agent s0 (ex_turn t answer s)"
  unfolding ex_turn_def
  by (rule sreach_step [OF sreach_step [OF sreach_step [OF assms smove_input] smove_query] smove_query])

lemma ex_compacting_reached: "session_reaches ex_senv ex_agent (ex_session ex_summarize) ex_compacting"
  unfolding ex_compacting_def ex_three_def
  by (rule sreach_step [OF sreach_step [OF ex_turn_reaches [OF ex_turn_reaches [OF ex_turn_reaches
        [OF sreach_refl]]] smove_window] smove_input])

lemma ex_three_idle: "idle ex_three"
proof -
  have "(let s = ex_three in s_query s = None \<and> \<not> compacting s)" by code_simp
  then show ?thesis by (simp add: idle_def Let_def)
qed

lemma ex_three_wf: "\<forall>e \<in> set (history ex_three). wf_entry e"
proof -
  have "history ex_three =
    [text_entry 0 xAgentRole_User (Some ''one'') 3, text_entry 0 xAgentRole_Assistant (Some ''a'') 1,
     text_entry 0 xAgentRole_User (Some ''two'') 3, text_entry 0 xAgentRole_Assistant (Some ''b'') 1,
     text_entry 0 xAgentRole_User (Some ''three'') 5, text_entry 0 xAgentRole_Assistant (Some ''c'') 1]"
    by code_simp
  then show ?thesis by (simp add: wf_text_entry or_empty_def)
qed

lemma ex_session_state:
  "s_query (ex_session b) = None" "\<not> compacting (ex_session b)" "history (ex_session b) = []"
  "budget (ex_session b) = b"
  by (simp_all add: ex_session_def xAgentSessionCreate_def ex_sconf_def ex_agent_def xArrayCreate_def Let_def
      dup_cstr_def dup_bytes_def session_update_overhead_tokens_def)

lemma ex_compacting_state:
  "compacting ex_compacting" "conf_ok (budget ex_compacting)" "length (history ex_compacting) < SIZE_LIM"
proof -
  have "(let s = ex_compacting in compacting s \<and> conf_ok (budget s) \<and> length (history s) < SIZE_LIM)"
    by code_simp
  then show "compacting ex_compacting" "conf_ok (budget ex_compacting)"
    "length (history ex_compacting) < SIZE_LIM"
    by (simp_all add: Let_def)
qed

lemma ex_summary_text:
  "summary_text (s_mem ex_compacting) (elems (produced_arr ex_summary)) = (Some (''[summary] sum'', 13), [])"
  by code_simp

text \<open>A session whose last turn ran a tool with a long answer.\<close>

definition ex_tool_session :: xAgentSession where
  "ex_tool_session = ex_three\<lparr>history_arr := \<lparr>elems = history ex_three
     @ [tool_use_entry 0 (Some ''a'') (Some ''run'') None,
        tool_result_entry 0 (Some ''a'') (Some (replicate 100 (CHR ''x''))) 100 0], cap = 8\<rparr>\<rparr>"

text \<open>A session about to splice the range from 2 to 4, with the first \<open>n\<close> entries in the store.\<close>

definition ex_primed :: "nat \<Rightarrow> xAgentSession" where
  "ex_primed n = ex_three\<lparr>persisted_prefix := n, compact_start_idx := 2, compact_end_idx := 4\<rparr>"

lemma ex_primed_fields:
  "persisted_prefix (ex_primed n) = n" "compact_start_idx (ex_primed n) = 2" "compact_end_idx (ex_primed n) = 4"
  by (simp_all add: ex_primed_def)

lemma ex_primed_state:
  "length (history (ex_primed n)) = 6" "6 \<le> cap (history_arr (ex_primed n))"
  "memory (ex_primed n)" "session_id_copy (ex_primed n) = Some ''s''"
proof -
  have "(let s = ex_three in length (history s) = 6 \<and> 6 \<le> cap (history_arr s) \<and> memory s
      \<and> session_id_copy s = Some ''s'')"
    by code_simp
  then show "length (history (ex_primed n)) = 6" "6 \<le> cap (history_arr (ex_primed n))"
    "memory (ex_primed n)" "session_id_copy (ex_primed n) = Some ''s''"
    by (simp_all add: ex_primed_def Let_def)
qed

lemma six_less: "(6 :: nat) < SIZE_LIM"
  by (simp add: SIZE_LIM_def)

end
