(* ===== verification/Sidecar.thy ===== *)
theory Sidecar
  imports SessionInv
begin

text \<open>
  The sidecar part of \<^verbatim>\<open>libx/x/agent/session.c\<close>: collecting the output of an asynchronous tool,
  the idle timer, and the second query that is to inspect a tool that went silent.
\<close>

section \<open>Collecting output\<close>

text \<open>
  \<^verbatim>\<open>sess_fwd_on_tool_output\<close>. A chunk whose copy cannot be allocated is kept with its length and
  no data. Arming the timer replaces the one that was armed.
\<close>

definition sidecar_collect :: "string option \<Rightarrow> string \<Rightarrow> xAgentSession \<Rightarrow> xAgentSession" where
  "sidecar_collect tool_use_id chunk s =
     (let (tid, m1) = (if sidecar_tool_use_id s = None
                       then dup_bytes (s_mem s) tool_use_id (strlen (or_empty tool_use_id))
                       else (sidecar_tool_use_id s, s_mem s));
          (acc, m2) = (case sidecar_output s of
                         None \<Rightarrow> xArrayCreate m1 1 16
                       | Some a \<Rightarrow> (Some a, m1));
          (acc', m3) = (case acc of
                          None \<Rightarrow> (None, m2)
                        | Some a \<Rightarrow>
                            (case xArrayPush m2 a (None, 0) of
                               (ok, a1, m) \<Rightarrow>
                                 if \<not> ok then (Some a1, m)
                                 else let (d, m') = dup_bytes m (Some chunk) (length chunk)
                                      in (Some (set_slot a1 (d, length chunk)), m')))
      in s\<lparr>sidecar_tool_use_id := tid, sidecar_output := acc', s_mem := m3,
           sidecar_idle_timer := True\<rparr>)"

definition sess_fwd_on_tool_output ::
  "xAgent \<Rightarrow> string option \<Rightarrow> string \<Rightarrow> string \<Rightarrow> xAgentSession \<Rightarrow> xAgentSession" where
  "sess_fwd_on_tool_output ag tool_use_id tool_name chunk s =
     (let s1 = sfire s_on_tool_output (Sev_on_tool_output tool_name chunk) s
      in if 0 < sidecar_idle_ms s1 \<and> ag_enable_sidecar_query ag \<and> s_query s1 \<noteq> None \<and> sidecar s1 = None
         then sidecar_collect tool_use_id chunk s1 else s1)"

section \<open>The query of the sidecar\<close>

definition XAGENT_SIDECAR_SYSTEM_PROMPT :: string where
  "XAGENT_SIDECAR_SYSTEM_PROMPT =
     ''You are a diagnostic assistant. A tool call is blocking the main '' @
     ''conversation because it has not produced output for a while. '' @
     ''You are given the conversation history above for context so you '' @
     ''can understand what the user asked and what the assistant was '' @
     ''doing. Analyse the tool output shown below and decide whether to '' @
     ''send input to the running command. If the command is waiting for '' @
     ''user input (e.g. a prompt, confirmation, or REPL), use the '' @
     ''shell_stdin tool to send the appropriate input. If the command '' @
     ''appears to be genuinely running (e.g. compiling, downloading), '' @
     ''respond with empty text '' @ [CHR 0xE2, CHR 0x80, CHR 0x94] @ '' no action is needed.''"

definition chunk_total :: "(string option \<times> nat) list \<Rightarrow> nat" where
  "chunk_total cs = sum_list (map snd cs)"

definition chunk_bytes :: "(string option \<times> nat) list \<Rightarrow> string" where
  "chunk_bytes cs = concat (map (\<lambda>(d, n). or_empty d) cs)"

text \<open>Concatenating the chunks: the buffer is allocated only when there is something to copy.\<close>

definition copy_chunks :: "allocs \<Rightarrow> (string option \<times> nat) list \<Rightarrow> bool \<times> allocs" where
  "copy_chunks m cs = (if 0 < chunk_total cs then draw m else (False, m))"

definition output_chunks :: "xAgentSession \<Rightarrow> (string option \<times> nat) list" where
  "output_chunks s = (case sidecar_output s of None \<Rightarrow> [] | Some a \<Rightarrow> elems a)"

text \<open>
  The user message. The copy into the message takes \<open>chunk_total\<close> bytes of the concatenation,
  which is shorter when a chunk has lost its data; \<open>rest\<close> is what lies behind it in the buffer.
\<close>

definition idle_text :: "string option \<Rightarrow> (string option \<times> nat) list \<Rightarrow> bool \<Rightarrow> string \<Rightarrow> string" where
  "idle_text tid cs copied rest =
     ''[idle tool] The following async tool call has produced no output '' @
     ''for a while. tool_use_id=\"'' @
     cstr (case tid of None \<Rightarrow> ''(unknown)'' | Some t \<Rightarrow> t) @
     ''\"'' @ [CHR 0x0A, CHR 0x0A] @ ''Last accumulated output:'' @ [CHR 0x0A] @
     (if copied \<and> 0 < chunk_total cs then take (chunk_total cs) (chunk_bytes cs @ rest) else '''')"

fun find_stdin_tool :: "xAgentTool option list \<Rightarrow> xAgentTool option" where
  "find_stdin_tool [] = None"
| "find_stdin_tool (None # ts) = find_stdin_tool ts"
| "find_stdin_tool (Some t # ts) = (if t_name t = ''shell_stdin'' then Some t else find_stdin_tool ts)"

definition skip_system :: "xAgentMessage list \<Rightarrow> xAgentMessage list" where
  "skip_system view =
     (case view of [] \<Rightarrow> [] | v # vs \<Rightarrow> if role v = xAgentRole_System then vs else view)"

definition sidecar_cbs :: xAgentQueryCallbacks where
  "sidecar_cbs = \<lparr>on_text = False, on_thinking = False, on_done = True, on_error = False,
     on_tool = False, on_tool_confirm = False\<rparr>"

definition sidecar_conf :: "xAgent \<Rightarrow> xAgentSession \<Rightarrow> xAgentQueryConf" where
  "sidecar_conf ag s = \<lparr>
     qc_provider = (case provider_override s of None \<Rightarrow> ag_provider ag | Some p \<Rightarrow> Some p),
     qc_tools = (case find_stdin_tool (ag_tools ag) of None \<Rightarrow> [] | Some t \<Rightarrow> [Some t]),
     qc_model = s_model s, qc_max_tokens = 256, qc_max_turns = 1, qc_cbs = sidecar_cbs,
     qc_session = Some (s_query s \<noteq> None)\<rparr>"

text \<open>
  \<^verbatim>\<open>session_sidecar_idle_timer_cb\<close> from the allocation of the user text on: the history view, the
  message array, the query.
\<close>

definition sidecar_launch ::
  "senv \<Rightarrow> xAgent \<Rightarrow> string \<Rightarrow> xAgentSession \<Rightarrow> xAgentSession" where
  "sidecar_launch env ag user_text s =
     (case sess_input_view_build s [] 0 of (vrc, view, _, s1) \<Rightarrow>
        if vrc \<noteq> xErrno_Ok then s1
        else let (ok1, m1) = draw (s_mem s1); (ok2, m2) = draw m1; s2 = s1\<lparr>s_mem := m2\<rparr>;
                 msgs = text_message xAgentRole_System XAGENT_SIDECAR_SYSTEM_PROMPT # skip_system view
                   @ [\<lparr>role = xAgentRole_User,
                       contents = [xAgentContent_Text (Some user_text) (length user_text)]\<rparr>]
             in if \<not> (ok1 \<and> ok2) then s2
                else case create_query s2 (sidecar_conf ag s2) of
                    (None, s3) \<Rightarrow> s3
                  | (Some q, s3) \<Rightarrow>
                      (case run_query env msgs q s3 of
                         (rc, s4) \<Rightarrow>
                           if rc \<noteq> xErrno_Ok then destroy_query s4
                           else sfire s_on_sidecar (Sev_on_sidecar xAgentSidecarEvent_Started)
                                  (s4\<lparr>sidecar := s_query s4\<rparr>)))"

definition session_sidecar_idle_timer_cb ::
  "senv \<Rightarrow> xAgent \<Rightarrow> string \<Rightarrow> xAgentSession \<Rightarrow> xAgentSession" where
  "session_sidecar_idle_timer_cb env ag rest s0 =
     (let s = s0\<lparr>sidecar_idle_timer := False\<rparr>
      in case s_query s of
           None \<Rightarrow> s
         | Some q \<Rightarrow>
             if compacting s \<or> sidecar s \<noteq> None \<or> elems (async_pending_arr q) = [] then s
             else let cs = output_chunks s; (copied, m1) = copy_chunks (s_mem s) cs;
                      (ok, m2) = draw m1; s1 = s\<lparr>s_mem := m2\<rparr>
                  in if \<not> ok then s1
                     else sidecar_launch env ag (idle_text (sidecar_tool_use_id s) cs copied rest) s1)"

text \<open>\<^verbatim>\<open>session_sidecar_on_done\<close> with the texts the sidecar produced.\<close>

definition sidecar_text :: "xAgentSessionMsg \<Rightarrow> bool" where
  "sidecar_text e \<longleftrightarrow> m_kind e = xAgentSessionEntry_Text \<and> m_text e \<noteq> None \<and> 0 < m_text_len e"

definition session_sidecar_on_done :: "xAgentQuery \<Rightarrow> xAgentSession \<Rightarrow> xAgentSession" where
  "session_sidecar_on_done q s =
     (let s1 = (if s_query s \<noteq> None
                then fold (\<lambda>e. sfire s_on_text (Sev_on_text (take (m_text_len e) (or_empty (m_text e)))))
                       (filter sidecar_text (elems (produced_arr q))) s
                else s)
      in session_sidecar_cleanup (sfire s_on_sidecar (Sev_on_sidecar xAgentSidecarEvent_Done) s1))"

section \<open>The sidecar never starts\<close>

text \<open>
  A second query is refused while the session's first one lives, and the idle timer starts a
  sidecar only while it lives.
\<close>

lemma create_refused: "qc_session conf = Some True \<Longrightarrow> xAgentQueryCreate m conf = (Create_null, m)"
  by (simp add: xAgentQueryCreate_def split: option.split)

lemma create_query_refused:
  assumes "s_query s \<noteq> None"
  shows "create_query s (sidecar_conf ag s) = (None, s)"
  using assms by (simp add: create_query_def create_refused sidecar_conf_def)

lemma view_build_keeps:
  "sess_input_view_build s hits n = (rc, view, mt, s') \<Longrightarrow> \<exists>m. s' = s\<lparr>s_mem := m\<rparr>"
  by (auto simp: sess_input_view_build_def Let_def split: prod.splits if_splits)

lemma sidecar_launch_nothing:
  assumes "s_query s \<noteq> None"
  shows "\<exists>m. sidecar_launch env ag t s = s\<lparr>s_mem := m\<rparr>"
proof -
  obtain rc view mt s1 where v: "sess_input_view_build s [] 0 = (rc, view, mt, s1)"
    by (metis prod_cases4)
  obtain m where s1: "s1 = s\<lparr>s_mem := m\<rparr>" using view_build_keeps [OF v] by blast
  have refused: "create_query (s\<lparr>s_mem := k\<rparr>) (sidecar_conf ag (s\<lparr>s_mem := k\<rparr>)) = (None, s\<lparr>s_mem := k\<rparr>)" for k
    using assms by (intro create_query_refused) simp
  obtain ok1 m1 where d1: "draw m = (ok1, m1)" by fastforce
  obtain ok2 m2 where d2: "draw m1 = (ok2, m2)" by fastforce
  have "sidecar_launch env ag t s = (if rc \<noteq> xErrno_Ok then s1 else s\<lparr>s_mem := m2\<rparr>)"
    using refused [of m2] by (simp add: sidecar_launch_def v s1 d1 d2 Let_def)
  then show ?thesis by (simp add: s1) blast
qed

text \<open>The timer leaves everything but itself and the allocator as it was: no query, no event.\<close>

lemma idle_timer_nothing:
  "\<exists>m. session_sidecar_idle_timer_cb env ag rest s = s\<lparr>sidecar_idle_timer := False, s_mem := m\<rparr>"
proof -
  define s' where "s' = s\<lparr>sidecar_idle_timer := False\<rparr>"
  have early: "\<exists>m. s' = s'\<lparr>s_mem := m\<rparr>" by (rule exI [of _ "s_mem s'"]) simp
  have "\<exists>m. session_sidecar_idle_timer_cb env ag rest s = s'\<lparr>s_mem := m\<rparr>"
  proof (cases "s_query s = None \<or> compacting s \<or> sidecar s \<noteq> None
      \<or> elems (async_pending_arr (the (s_query s))) = []")
    case True
    then have "session_sidecar_idle_timer_cb env ag rest s = s'"
      by (auto simp: session_sidecar_idle_timer_cb_def s'_def Let_def split: option.splits)
    with early show ?thesis by simp
  next
    case False
    then obtain q where q: "s_query s = Some q" and go: "\<not> compacting s" "sidecar s = None"
        "elems (async_pending_arr q) \<noteq> []"
      by auto
    obtain copied m1 where c: "copy_chunks (s_mem s) (output_chunks s') = (copied, m1)" by fastforce
    obtain ok m2 where d: "draw m1 = (ok, m2)" by fastforce
    define t where "t = idle_text (sidecar_tool_use_id s) (output_chunks s') copied rest"
    have eq: "session_sidecar_idle_timer_cb env ag rest s
        = (if \<not> ok then s'\<lparr>s_mem := m2\<rparr> else sidecar_launch env ag t (s'\<lparr>s_mem := m2\<rparr>))"
      using go c d by (simp add: session_sidecar_idle_timer_cb_def q s'_def t_def Let_def)
    have "\<exists>m. sidecar_launch env ag t (s'\<lparr>s_mem := m2\<rparr>) = (s'\<lparr>s_mem := m2\<rparr>)\<lparr>s_mem := m\<rparr>"
      using q by (intro sidecar_launch_nothing) (simp add: s'_def)
    with eq show ?thesis by auto
  qed
  then show ?thesis by (simp add: s'_def)
qed

end
