(* ===== verification/Agent.thy ===== *)
theory Agent
  imports SessionInv
begin

text \<open>
  \<^verbatim>\<open>libx/x/agent/agent.c\<close>: choosing the provider of an agent, creating its sessions, and priming a
  new session with what the memory store holds under its id.
\<close>

section \<open>Session ids\<close>

text \<open>\<^verbatim>\<open>%04x\<close> and \<^verbatim>\<open>%02x\<close>: lower-case hexadecimal, padded with zeros.\<close>

definition hex_digit :: "nat \<Rightarrow> char" where
  "hex_digit d = char_of (if d < 10 then 48 + d else 87 + d)"

fun hex_fixed :: "nat \<Rightarrow> nat \<Rightarrow> string" where
  "hex_fixed 0 n = ''''"
| "hex_fixed (Suc k) n = hex_fixed k (n div 16) @ [hex_digit (n mod 16)]"

text \<open>\<open>r\<close> is what \<^verbatim>\<open>rand ()\<close> returns.\<close>

definition gen_session_id :: "nat \<Rightarrow> nat \<Rightarrow> string" where
  "gen_session_id sequence r = ''s_'' @ hex_fixed 4 (sequence mod 65536) @ hex_fixed 2 (r mod 256)"

section \<open>Priming\<close>

definition prime_one :: "senv \<Rightarrow> xAgentSession \<Rightarrow> xAgentSessionMsg \<Rightarrow> xErrno \<times> xAgentSession" where
  "prime_one env s e =
     (case m_kind e of
        xAgentSessionEntry_Text \<Rightarrow> ai_history_append_text env s (m_role e) (m_text e) (m_text_len e)
      | xAgentSessionEntry_Thinking \<Rightarrow> ai_history_append_thinking env s (m_text e) (m_text_len e)
      | xAgentSessionEntry_ToolUse \<Rightarrow>
          ai_history_append_tool_use env s (m_tool_use_id e) (m_tool_use_name e) (m_tool_use_args e)
      | xAgentSessionEntry_ToolResult \<Rightarrow>
          ai_history_append_tool_result env s (m_tool_result_id e) (m_tool_result_output e)
            (m_tool_result_output_len e) (m_tool_result_is_error e))"

fun prime_entries :: "senv \<Rightarrow> xAgentSession \<Rightarrow> xAgentSessionMsg list \<Rightarrow> nat \<times> xAgentSession" where
  "prime_entries env s [] = (0, s)"
| "prime_entries env s (e # es) =
     (case prime_one env s e of (rc, s1) \<Rightarrow>
        if rc \<noteq> xErrno_Ok then (0, s1)
        else (case prime_entries env s1 es of (n, s2) \<Rightarrow> (Suc n, s2)))"

definition prime_session :: "senv \<Rightarrow> xAgentSessionMsg list \<Rightarrow> xAgentSession \<Rightarrow> xAgentSession" where
  "prime_session env hits s =
     (if hits = [] then s
      else case prime_entries env s hits of (primed, s1) \<Rightarrow> s1\<lparr>persisted_prefix := primed\<rparr>)"

section \<open>Creating a session\<close>

text \<open>
  The id the session is created under, whether it was generated, and the agent with its counter
  advanced.
\<close>

definition choose_session_id ::
  "nat \<Rightarrow> xAgent \<Rightarrow> xAgentSessionConf \<Rightarrow> string option \<times> bool \<times> xAgent" where
  "choose_session_id r ag conf =
     (if sc_session_id conf = None \<and> ag_memory ag
      then let ag' = ag\<lparr>ag_session_seq := ag_session_seq ag + 1\<rparr>
           in (Some (gen_session_id (ag_session_seq ag') r), True, ag')
      else (sc_session_id conf, False, ag))"

text \<open>
  A generated id lives in an array on the stack of \<^verbatim>\<open>xAgentCreateSession\<close>, and the session keeps a
  pointer to it; only \<^verbatim>\<open>session_id_copy\<close> is a copy. \<open>stack\<close> is what that place holds once the
  function has returned.
\<close>

definition xAgentCreateSession ::
  "senv \<Rightarrow> nat \<Rightarrow> string \<Rightarrow> allocs \<Rightarrow> xAgent \<Rightarrow> xAgentSessionConf \<Rightarrow>
   xAgentSession option \<times> xAgent \<times> allocs" where
  "xAgentCreateSession env r stack m ag conf =
     (case choose_session_id r ag conf of (i, generated, ag1) \<Rightarrow>
        let (copied, m1) = (if ag_memory ag1 \<and> i \<noteq> None then dup_cstr m i
                            else (sc_session_id_copy conf, m));
            effective = conf\<lparr>sc_session_id := i, sc_session_id_copy := copied,
                             sc_memory := (if ag_memory ag1 \<and> i \<noteq> None then True else sc_memory conf)\<rparr>
        in case xAgentSessionCreate m1 ag1 effective of
             (None, m2) \<Rightarrow> (None, ag1, m2)
           | (Some s, m2) \<Rightarrow>
               let s1 = (if ag_memory ag1 \<and> i \<noteq> None
                         then prime_session env (env_retrieve env (the i) None) s else s);
                   s2 = (if generated then s1\<lparr>session_id := Some stack\<rparr> else s1)
               in (Some s2, ag1, s_mem s2))"

section \<open>Creating an agent\<close>

text \<open>\<open>ac_tools\<close>: None is a NULL array.\<close>

record xAgentConf =
  ac_loop :: bool
  ac_provider :: "nat option"
  ac_model :: "string option"
  ac_model_registry :: "xAgentModelRegistry option"
  ac_default_model_id :: "string option"
  ac_system_prompt :: "string option"
  ac_tools :: "xAgentTool option list option"
  ac_tools_count :: nat
  ac_max_turns :: int
  ac_max_tokens :: int
  ac_default_session_conf :: "xAgentSessionConf option"
  ac_memory :: bool
  ac_enable_sidecar_query :: bool

text \<open>The provider and model of an agent; exactly one of the two ways to name them is accepted.\<close>

definition resolve_provider :: "xAgentConf \<Rightarrow> (nat option \<times> string option) option" where
  "resolve_provider conf =
     (case (ac_provider conf, ac_model_registry conf) of
        (Some p, None) \<Rightarrow> Some (Some p, ac_model conf)
      | (None, Some reg) \<Rightarrow>
          (case ac_default_model_id conf of
             None \<Rightarrow> None
           | Some i \<Rightarrow>
               if strlen i = 0 then None
               else case xAgentModelRegistryGet reg i of
                   None \<Rightarrow> None
                 | Some spec \<Rightarrow> Some (ms_provider spec, ms_model spec))
      | _ \<Rightarrow> None)"

text \<open>An agent with its built-in session.\<close>

record xAgentObj =
  ao_agent :: xAgent
  ao_default_session :: "xAgentSession option"

definition new_agent :: "xAgentConf \<Rightarrow> nat option \<Rightarrow> string option \<Rightarrow> xAgent" where
  "new_agent conf p mdl = \<lparr>ag_provider = p, ag_model = mdl, ag_registry = ac_model_registry conf,
     ag_system_prompt = ac_system_prompt conf,
     ag_tools = take (ac_tools_count conf) (case ac_tools conf of None \<Rightarrow> [] | Some ts \<Rightarrow> ts),
     ag_max_turns = ac_max_turns conf, ag_max_tokens = ac_max_tokens conf, ag_memory = ac_memory conf,
     ag_enable_sidecar_query = ac_enable_sidecar_query conf, ag_session_seq = 0\<rparr>"

definition xAgentCreate ::
  "senv \<Rightarrow> nat \<Rightarrow> string \<Rightarrow> allocs \<Rightarrow> xAgentConf \<Rightarrow> xAgentObj option \<times> allocs" where
  "xAgentCreate env r stack m conf =
     (if \<not> ac_loop conf then (None, m)
      else case resolve_provider conf of
          None \<Rightarrow> (None, m)
        | Some (p, mdl) \<Rightarrow>
            if 0 < ac_tools_count conf \<and> ac_tools conf = None then (None, m)
            else let (ok, m1) = draw m; ag = new_agent conf p mdl
                 in if \<not> ok then (None, m1)
                    else case ac_default_session_conf conf of
                        None \<Rightarrow> (Some \<lparr>ao_agent = ag, ao_default_session = None\<rparr>, m1)
                      | Some dsconf \<Rightarrow>
                          (case xAgentCreateSession env r stack m1 ag (dsconf\<lparr>sc_session_id := Some ''default''\<rparr>) of
                             (s, ag1, m2) \<Rightarrow> (Some \<lparr>ao_agent = ag1, ao_default_session = s\<rparr>, m2)))"

definition xAgentDestroy :: "xAgentObj \<Rightarrow> xAgentSession option" where
  "xAgentDestroy a = map_option xAgentSessionDestroy (ao_default_session a)"

definition xAgentDefaultSession :: "xAgentObj \<Rightarrow> xAgentSession option" where
  "xAgentDefaultSession a = ao_default_session a"

section \<open>What priming leaves\<close>

text \<open>The entry a stored entry becomes: its copy with the time of the copy.\<close>

definition primed_entry :: "nat \<Rightarrow> xAgentSessionMsg \<Rightarrow> xAgentSessionMsg" where
  "primed_entry now e =
     (case m_kind e of
        xAgentSessionEntry_Text \<Rightarrow> text_entry now (m_role e) (m_text e) (m_text_len e)
      | xAgentSessionEntry_Thinking \<Rightarrow> thinking_entry now (m_text e) (m_text_len e)
      | xAgentSessionEntry_ToolUse \<Rightarrow>
          tool_use_entry now (m_tool_use_id e) (m_tool_use_name e) (m_tool_use_args e)
      | xAgentSessionEntry_ToolResult \<Rightarrow>
          tool_result_entry now (m_tool_result_id e) (m_tool_result_output e)
            (m_tool_result_output_len e) (m_tool_result_is_error e))"

lemma primed_entry_wf: "wf_entry e \<Longrightarrow> primed_entry now e = restamp now e"
  by (cases e; cases "m_kind e")
    (auto simp: wf_entry_defs primed_entry_def restamp_def text_entry_def thinking_entry_def
      tool_use_entry_def tool_result_entry_def zero_msg_def or_empty_def cstr_id split: option.splits)

lemma hist_put_grows:
  assumes "grows (history_arr s) r [e]" and "hist_put s r = (rc, s')"
  shows "rc = xErrno_Ok \<Longrightarrow> history s' = history s @ [e]"
    and "rc \<noteq> xErrno_Ok \<Longrightarrow> history s' = history s" and "s_trace s' = s_trace s"
    and "persisted_prefix s' = persisted_prefix s"
  using assms by (auto simp: hist_put_def grows_def split: prod.splits)

lemma prime_one_grows:
  "\<exists>r. prime_one env s e = hist_put s r \<and>
     grows (history_arr s) r [primed_entry (env_wall env (s_trace s)) e]"
  by (cases "m_kind e";
    simp add: prime_one_def primed_entry_def ai_history_append_text_def ai_history_append_thinking_def
      ai_history_append_tool_use_def ai_history_append_tool_result_def del: split_paired_Ex;
    intro exI conjI, rule refl,
    rule grows_append_text grows_append_thinking grows_append_tool_use grows_append_tool_result)

lemma prime_entries_history:
  assumes "prime_entries env s es = (n, s')"
  shows "n \<le> length es \<and> s_trace s' = s_trace s \<and>
    history s' = history s @ map (primed_entry (env_wall env (s_trace s))) (take n es)"
  using assms
proof (induction es arbitrary: s n s')
  case Nil
  then show ?case by simp
next
  case (Cons e es)
  obtain r where r: "prime_one env s e = hist_put s r"
    and g: "grows (history_arr s) r [primed_entry (env_wall env (s_trace s)) e]"
    using prime_one_grows by blast
  obtain rc s1 where p: "hist_put s r = (rc, s1)" by fastforce
  note one = hist_put_grows [OF g p]
  show ?case
  proof (cases "rc = xErrno_Ok")
    case False
    with Cons.prems r p one show ?thesis by simp
  next
    case True
    obtain k s2 where rest: "prime_entries env s1 es = (k, s2)" by fastforce
    with Cons.prems r p True have "n = Suc k" "s' = s2" by simp_all
    with Cons.IH [OF rest] one True show ?thesis by simp
  qed
qed

lemma prime_entries_conf:
  assumes "prime_entries env s es = (n, s')"
  shows "memory s' = memory s \<and> session_id_copy s' = session_id_copy s \<and> session_id s' = session_id s"
  using assms
proof (induction es arbitrary: s n s')
  case Nil
  then show ?case by simp
next
  case (Cons e es)
  obtain r where r: "prime_one env s e = hist_put s r" using prime_one_grows by blast
  obtain rc s1 where p: "hist_put s r = (rc, s1)" by fastforce
  then have keep: "memory s1 = memory s \<and> session_id_copy s1 = session_id_copy s \<and> session_id s1 = session_id s"
    by (auto simp: hist_put_def split: prod.splits)
  obtain k s2 where rest: "prime_entries env s1 es = (k, s2)" by fastforce
  with Cons.prems r p Cons.IH [OF rest] keep show ?case by (cases "rc = xErrno_Ok") auto
qed

lemma prime_session_prefix:
  assumes "history s = []" and "persisted_prefix s = 0"
  shows "persisted_prefix (prime_session env es s) = length (history (prime_session env es s))"
    and "s_trace (prime_session env es s) = s_trace s"
    and "\<exists>n \<le> length es. history (prime_session env es s)
           = map (primed_entry (env_wall env (s_trace s))) (take n es)"
    and "memory (prime_session env es s) = memory s"
    and "session_id_copy (prime_session env es s) = session_id_copy s"
proof -
  obtain n s1 where p: "prime_entries env s es = (n, s1)" by fastforce
  note h = prime_entries_history [OF p]
  show "persisted_prefix (prime_session env es s) = length (history (prime_session env es s))"
    "s_trace (prime_session env es s) = s_trace s"
    "\<exists>n \<le> length es. history (prime_session env es s)
       = map (primed_entry (env_wall env (s_trace s))) (take n es)"
    "memory (prime_session env es s) = memory s"
    "session_id_copy (prime_session env es s) = session_id_copy s"
    using h prime_entries_conf [OF p] assms p by (auto simp: prime_session_def intro: exI [of _ n])
qed

lemma prime_session_id: "session_id (prime_session env es s) = session_id s"
proof -
  obtain n s1 where p: "prime_entries env s es = (n, s1)" by fastforce
  from prime_entries_conf [OF p] show ?thesis by (simp add: prime_session_def p)
qed

lemma hex_digit_not_nul: "hex_digit (d mod 16) \<noteq> CHR 0x00"
proof -
  have "d mod 16 < 16" by simp
  then have "of_char (hex_digit (d mod 16)) \<noteq> (0 :: nat)" by (simp add: hex_digit_def)
  moreover have "of_char (CHR 0x00) = (0 :: nat)" by simp
  ultimately show ?thesis by metis
qed

lemma hex_fixed_not_nul: "CHR 0x00 \<notin> set (hex_fixed k n)"
proof (induction k arbitrary: n)
  case 0
  then show ?case by simp
next
  case (Suc k)
  from Suc [of "n div 16"] hex_digit_not_nul [of n] show ?case by simp
qed

lemma strlen_no_nul: "CHR 0x00 \<notin> set t \<Longrightarrow> strlen t = length t"
proof -
  assume "CHR 0x00 \<notin> set t"
  then have "takeWhile (\<lambda>c. c \<noteq> CHR 0x00) t = t" by (intro takeWhile_eq_all_conv [THEN iffD2]) auto
  then show ?thesis by (simp only: strlen_def)
qed

lemma gen_session_id_cstr: "cstr (gen_session_id k r) = gen_session_id k r"
  using hex_fixed_not_nul by (intro cstr_id strlen_no_nul) (simp add: gen_session_id_def)

text \<open>With memory to spare nothing is left out.\<close>

lemma prime_one_total:
  assumes "wf_entry e" and "s_mem s = []"
  shows "\<exists>s'. prime_one env s e = (xErrno_Ok, s') \<and> s_mem s' = []"
proof -
  obtain a' where push: "msg_push [] (env_wall env (s_trace s)) (history_arr s) = (True, a', [])"
    using msg_push_none by blast
  show ?thesis
    using assms push
    by (cases "m_kind e")
      (auto simp: wf_entry_defs prime_one_def ai_history_append_text_def ai_history_append_thinking_def
        ai_history_append_tool_use_def ai_history_append_tool_result_def turn_buf_append_text_def
        turn_buf_append_thinking_def turn_buf_append_tool_use_def turn_buf_append_tool_result_def
        dup_output_def dup_cstr_def dup_bytes_def hist_put_def Let_def split: option.splits)
qed

lemma prime_entries_total:
  assumes "\<forall>e \<in> set es. wf_entry e" and "s_mem s = []"
  shows "fst (prime_entries env s es) = length es"
  using assms
proof (induction es arbitrary: s)
  case Nil
  then show ?case by simp
next
  case (Cons e es)
  obtain s1 where one: "prime_one env s e = (xErrno_Ok, s1)" "s_mem s1 = []"
    using prime_one_total [of e s env] Cons.prems by auto
  have "fst (prime_entries env s1 es) = length es" using Cons one(2) by simp
  with one(1) show ?case by (cases "prime_entries env s1 es") simp
qed

lemma prime_session_total:
  assumes "\<forall>e \<in> set es. wf_entry e" and "s_mem s = []" and "history s = []"
  shows "history (prime_session env es s) = map (restamp (env_wall env (s_trace s))) es"
proof -
  obtain n s1 where p: "prime_entries env s es = (n, s1)" by fastforce
  then have n: "n = length es" using prime_entries_total [OF assms(1,2), of env] by simp
  have "map (primed_entry now) es = map (restamp now) es" for now
    using assms(1) by (simp add: primed_entry_wf)
  with prime_entries_history [OF p] n assms(3) p show ?thesis by (simp add: prime_session_def)
qed

lemma session_create_fresh:
  assumes "xAgentSessionCreate m ag conf = (Some s, m')"
  shows "history s = []" "persisted_prefix s = 0" "s_trace s = []" "s_mem s = m'"
    "memory s = sc_memory conf" "session_id s = sc_session_id conf"
    "session_id_copy s = sc_session_id_copy conf" "s_query s = None"
  using assms
  by (auto simp: xAgentSessionCreate_def session_update_overhead_tokens_def xArrayCreate_def Let_def
      split: prod.splits if_splits option.splits)

lemma session_create_total: "\<exists>s. xAgentSessionCreate [] ag conf = (Some s, s_mem s) \<and> s_mem s = []"
  by (cases "sc_model conf"; cases "ag_model ag")
    (auto simp: xAgentSessionCreate_def session_update_overhead_tokens_def xArrayCreate_def dup_cstr_def
      dup_bytes_def Let_def)

lemma create_session_restores:
  assumes "ag_memory ag" and "sc_session_id conf = Some k"
    and "\<forall>e \<in> set (env_retrieve env k None). wf_entry e"
  shows "\<exists>s ag'. xAgentCreateSession env r stack [] ag conf = (Some s, ag', s_mem s) \<and>
    history s = map (restamp (env_wall env [])) (env_retrieve env k None) \<and>
    persisted_prefix s = length (env_retrieve env k None) \<and> session_id s = Some k"
proof -
  define eff where "eff = conf\<lparr>sc_session_id := Some k, sc_session_id_copy := Some (cstr k), sc_memory := True\<rparr>"
  obtain s0 where s0: "xAgentSessionCreate [] ag eff = (Some s0, s_mem s0)" "s_mem s0 = []"
    using session_create_total by blast
  note fresh = session_create_fresh [OF s0(1)]
  define s where "s = prime_session env (env_retrieve env k None) s0"
  have d: "dup_cstr [] (Some k) = (Some (cstr k), [])" by (simp add: dup_cstr_def dup_bytes_def cstr_def)
  have "xAgentCreateSession env r stack [] ag conf = (Some s, ag, s_mem s)"
    using assms(1,2) s0
    by (simp add: xAgentCreateSession_def choose_session_id_def d eff_def [symmetric] s_def Let_def)
  moreover have "history s = map (restamp (env_wall env [])) (env_retrieve env k None)"
    using prime_session_total [OF assms(3) s0(2) fresh(1)] fresh(3) by (simp add: s_def)
  moreover have "persisted_prefix s = length (history s)"
    using prime_session_prefix(1) [OF fresh(1,2)] by (simp add: s_def)
  moreover have "session_id s = Some k"
    using prime_session_id [of env "env_retrieve env k None" s0] fresh(6) by (simp add: s_def eff_def)
  ultimately show ?thesis by simp
qed

lemma create_session_generated:
  assumes "ag_memory ag" and "sc_session_id conf = None"
    and "xAgentCreateSession env r stack [] ag conf = (Some s, ag', m')"
  shows "session_id s = Some stack \<and>
    session_id_copy s = Some (gen_session_id (ag_session_seq ag + 1) r) \<and>
    memory_hits env ag' msg s = env_retrieve env stack (Some msg)"
proof -
  define k where "k = gen_session_id (ag_session_seq ag + 1) r"
  define ag1 where "ag1 = ag\<lparr>ag_session_seq := ag_session_seq ag + 1\<rparr>"
  define eff where "eff = conf\<lparr>sc_session_id := Some k, sc_session_id_copy := Some (cstr k), sc_memory := True\<rparr>"
  have ch: "choose_session_id r ag conf = (Some k, True, ag1)"
    using assms(1,2) by (simp add: choose_session_id_def Let_def k_def ag1_def)
  have d: "dup_cstr [] (Some k) = (Some (cstr k), [])" by (simp add: dup_cstr_def dup_bytes_def cstr_def)
  have ag1: "ag_memory ag1" using assms(1) by (simp add: ag1_def)
  obtain s0 where s0: "xAgentSessionCreate [] ag1 eff = (Some s0, s_mem s0)"
    using session_create_total by blast
  note fresh = session_create_fresh [OF s0]
  have s: "s = (prime_session env (env_retrieve env k None) s0)\<lparr>session_id := Some stack\<rparr>" "ag' = ag1"
    using assms(3) by (simp_all add: xAgentCreateSession_def ch d ag1 eff_def [symmetric] s0 Let_def)
  have "session_id_copy s = Some k"
    using prime_session_prefix(5) [OF fresh(1,2)] fresh(7) gen_session_id_cstr
    by (simp add: s eff_def k_def)
  then show ?thesis using ag1 by (simp add: s k_def memory_hits_def)
qed

text \<open>A session created by an agent with a store: nothing of it has to be stored again.\<close>

lemma create_session_primed:
  assumes "xAgentCreateSession env r stack m ag conf = (Some s, ag', m')" and "ag_memory ag"
  shows "persisted_prefix s = length (history s)" and "s_trace s = []" and "memory s"
proof -
  obtain k g ag1 where c: "choose_session_id r ag conf = (Some k, g, ag1)" and ag1: "ag_memory ag1"
    using assms(2) by (cases "choose_session_id r ag conf")
      (auto simp: choose_session_id_def Let_def split: if_splits)
  obtain copied m1 where d: "dup_cstr m (Some k) = (copied, m1)" by fastforce
  define eff where "eff = conf\<lparr>sc_session_id := Some k, sc_session_id_copy := copied, sc_memory := True\<rparr>"
  obtain s0 m2 where s0: "xAgentSessionCreate m1 ag1 eff = (Some s0, m2)"
    using assms(1) by (auto simp: xAgentCreateSession_def c ag1 d eff_def split: prod.splits option.splits)
  define s1 where "s1 = prime_session env (env_retrieve env k None) s0"
  have s: "s = (if g then s1\<lparr>session_id := Some stack\<rparr> else s1)"
    using assms(1) s0 by (auto simp: xAgentCreateSession_def c ag1 d eff_def s1_def Let_def)
  note fresh = session_create_fresh [OF s0]
  note primed = prime_session_prefix [OF fresh(1,2), where env = env and es = "env_retrieve env k None"]
  show "persisted_prefix s = length (history s)" using primed(1) by (simp add: s s1_def)
  show "s_trace s = []" using primed(2) fresh(3) by (simp add: s s1_def)
  show "memory s" using primed(4) fresh(5) by (simp add: s s1_def eff_def)
qed

lemma destroy_stored:
  assumes "persisted_prefix s \<le> length (history s)"
  shows "stored (xAgentSessionDestroy s) = stored s @
    (if memory s \<and> session_id_copy s \<noteq> None then drop (persisted_prefix s) (history s) else [])"
  using assms
  by (auto simp: xAgentSessionDestroy_def destroy_query_def session_sidecar_cleanup_def memory_append_def
      semit_def stored_def Let_def split: option.splits)

end
