(* ===== verification/Resume.thy ===== *)
theory Resume
  imports Agent
begin

text \<open>
  What a session stores over its life when it is never compacted: nothing before it is destroyed,
  and then exactly what was added to the entries it was created with.
\<close>

section \<open>What the operations leave to the store\<close>

definition durable :: "xAgentSession \<Rightarrow> nat \<times> xAgentSessionMsg list \<times> bool \<times> string option" where
  "durable s = (persisted_prefix s, stored s, memory s, session_id_copy s)"

lemma durable_update [simp]:
  "durable (s\<lparr>s_query := q\<rparr>) = durable s" "durable (s\<lparr>s_mem := m\<rparr>) = durable s"
  "durable (s\<lparr>history_arr := a\<rparr>) = durable s" "durable (s\<lparr>delta_entries := n\<rparr>) = durable s"
  "durable (s\<lparr>compacting := c\<rparr>) = durable s" "durable (s\<lparr>budget := b\<rparr>) = durable s"
  "durable (s\<lparr>provider_override := p\<rparr>) = durable s" "durable (s\<lparr>s_model := md\<rparr>) = durable s"
  "durable (s\<lparr>overhead_tokens := n\<rparr>) = durable s" "durable (s\<lparr>pending_text := t\<rparr>) = durable s"
  "durable (s\<lparr>last_compact_history_len := n\<rparr>) = durable s" "durable (s\<lparr>last_gate_total := n\<rparr>) = durable s"
  "durable (s\<lparr>compact_start_idx := n\<rparr>) = durable s" "durable (s\<lparr>compact_end_idx := n\<rparr>) = durable s"
  "durable (s\<lparr>known_prompt_tokens := i\<rparr>) = durable s"
  "durable (s\<lparr>last_first_round_prompt_tokens := i\<rparr>) = durable s"
  by (simp_all add: durable_def stored_def)

lemma durable_semit: "appended ev = [] \<Longrightarrow> durable (semit ev s) = durable s"
  by (simp add: durable_def stored_def semit_def)

lemma durable_events [simp]:
  "appended ev = [] \<Longrightarrow> durable (sfire cb ev s) = durable s"
  "appended ev = [] \<Longrightarrow> durable (budget_event ev s) = durable s"
  by (simp_all add: sfire_def budget_event_def durable_semit)

lemma durable_sidecar [simp]: "durable (session_sidecar_cleanup s) = durable s"
  by (simp add: session_sidecar_cleanup_def durable_def stored_def)

lemma durable_rollback [simp]: "durable (rollback n s) = durable s"
  by (simp add: rollback_pop_to)

lemma durable_overhead [simp]: "durable (session_update_overhead_tokens t s) = durable s"
  by (simp add: session_update_overhead_tokens_def)

lemma durable_create: "create_query s conf = (oq, s') \<Longrightarrow> durable s' = durable s"
  by (auto simp: create_query_def split: create_result.splits prod.splits)

lemma durable_run: "run_query env msgs q s = (rc, s') \<Longrightarrow> durable s' = durable s"
  by (auto simp: run_query_def split: prod.splits)

lemma durable_view: "sess_input_view_build s hits n = (rc, view, mt, s') \<Longrightarrow> durable s' = durable s"
  by (auto simp: sess_input_view_build_def Let_def split: prod.splits if_splits)

lemma durable_append: "history_append_user_msg env s msg = (rc, s') \<Longrightarrow> durable s' = durable s"
  by (metis durable_update(2,3) history_append_user_msg_cases(1))

lemma durable_trim: "session_trim_consumed_tool_results s = (n, freed, s') \<Longrightarrow> durable s' = durable s"
  by (auto simp: session_trim_consumed_tool_results_def Let_def split: prod.splits if_splits)

lemma durable_gate_pass [simp]: "durable (gate_pass est s) = durable s"
  by (simp add: gate_pass_def Let_def)

lemma durable_save_pending [simp]: "durable (save_pending msg s) = durable s"
  by (simp add: save_pending_def split: prod.split)

lemma durable_destroy_query [simp]: "durable (destroy_query s) = durable s"
  by (simp add: destroy_query_def)

lemma durable_launch: "compact_launch env ag msg st en s = (rc, s') \<Longrightarrow> durable s' = durable s"
  by (auto simp: compact_launch_def Let_def split: prod.splits option.splits if_splits
      dest!: durable_view durable_create durable_run)

lemma durable_enforce: "session_enforce_budget env ag msg s = (rc, s') \<Longrightarrow> durable s' = durable s"
  by (auto simp: session_enforce_budget_def Let_def split: prod.splits option.splits if_splits
      dest!: durable_trim durable_launch)

lemma durable_start: "session_start env ag msg hits s = (rc, s') \<Longrightarrow> durable s' = durable s"
  by (auto simp: session_start_def Let_def split: prod.splits option.splits if_splits
      dest!: durable_append durable_view durable_create durable_run)

lemma durable_input: "durable (snd (xAgentSessionInput env ag msg s)) = durable s"
  by (auto simp: xAgentSessionInput_def split: prod.splits dest!: durable_enforce durable_start)
    (metis durable_start snd_conv surj_pair)

lemma durable_forward: "durable (fold sess_forward evs s) = durable s"
proof (induction evs arbitrary: s)
  case Nil
  then show ?case by simp
next
  case (Cons ev evs)
  have "durable (sess_forward ev s) = durable s" by (cases ev) simp_all
  with Cons show ?case by simp
qed

lemma durable_run_done: "durable (run_done q reason u s) = durable s"
  by (simp add: run_done_def Let_def split: prod.split)

section \<open>A life without compaction\<close>

inductive uncompacted :: "senv \<Rightarrow> xAgent \<Rightarrow> xAgentSession \<Rightarrow> xAgentSession \<Rightarrow> bool" for env ag where
  unc_refl: "\<not> compacting s \<Longrightarrow> uncompacted env ag s s"
| unc_step: "uncompacted env ag s s1 \<Longrightarrow> session_moves env ag s1 s2 \<Longrightarrow> \<not> compacting s2 \<Longrightarrow>
    uncompacted env ag s s2"

definition grown :: "xAgentSession \<Rightarrow> xAgentSession \<Rightarrow> bool" where
  "grown s s' \<longleftrightarrow> durable s' = durable s \<and>
     (\<exists>es new. history s' = es @ new \<and> trim_related (history s) es)"

lemma grown_refl [simp]: "grown s s"
  unfolding grown_def by (intro conjI refl exI [of _ "history s"] exI [of _ "[]"]) simp_all

lemma trimmed_to_trans: "trimmed_to a b \<Longrightarrow> trimmed_to b c \<Longrightarrow> trimmed_to a c"
  by (auto simp: trimmed_to_def trim_entry_not_trimmable)

lemma trim_related_trans: "trim_related a b \<Longrightarrow> trim_related b c \<Longrightarrow> trim_related a c"
  by (rule list_all2_trans [where ?P1.0 = trimmed_to]) (auto intro: trimmed_to_trans)

lemma grown_trans: "grown a b \<Longrightarrow> grown b c \<Longrightarrow> grown a c"
proof -
  assume ab: "grown a b" and bc: "grown b c"
  obtain es new where b: "history b = es @ new" "trim_related (history a) es" using ab by (auto simp: grown_def)
  obtain fs new' where c: "history c = fs @ new'" "trim_related (es @ new) fs"
    using bc b(1) by (auto simp: grown_def)
  from c(2) obtain us vs where "fs = us @ vs" "trim_related es us"
    by (auto simp: list_all2_append1)
  with b(2) c(1) have "history c = us @ (vs @ new') \<and> trim_related (history a) us"
    by (auto intro: trim_related_trans)
  then show "grown a c" using ab bc by (auto simp: grown_def)
qed

lemma grown_same: "durable s' = durable s \<Longrightarrow> history s' = history s \<Longrightarrow> grown s s'"
  unfolding grown_def by (intro conjI exI [of _ "history s"] exI [of _ "[]"]) simp_all

lemma grown_input: "grown s (snd (xAgentSessionInput env ag msg s))"
proof (cases "idle s")
  case False
  then show ?thesis by (simp add: input_busy)
next
  case True
  obtain rc s' where i: "xAgentSessionInput env ag msg s = (rc, s')" by fastforce
  have "\<exists>es new. history s' = es @ new \<and> trim_related (history s) es"
  proof (cases "rc = xErrno_Ok")
    case True
    with input_cases(1) [OF i \<open>idle s\<close>] show ?thesis by blast
  next
    case False
    with input_cases(3) [OF i \<open>idle s\<close>] have "history s' = history s' @ [] \<and> trim_related (history s) (history s')"
      by simp
    then show ?thesis by blast
  qed
  then show ?thesis using durable_input [of env ag msg s] i by (simp add: grown_def)
qed

lemma grown_query_step:
  assumes "\<not> compacting s"
  shows "grown s (session_query_step env ag inp s)"
proof (cases "s_query s")
  case None
  then show ?thesis by (simp add: session_query_step_def)
next
  case (Some q)
  define q' where "q' = query_step (env_query env) (q\<lparr>q_mem := s_mem s\<rparr>) inp"
  define s1 where "s1 = fold sess_forward (drop (length (trace q)) (trace q'))
    (s\<lparr>s_query := Some q', s_mem := q_mem q'\<rparr>)"
  have s1: "grown s s1" "\<not> compacting s1"
    using assms by (simp_all add: grown_same s1_def durable_forward forward_frame)
  have done_case: "grown s1 (sess_fwd_on_done env ag q' reason u s1)" for reason u
  proof -
    obtain k where "history (run_done q' reason u s1) = history s1 @ take k (elems (produced_arr q'))"
      using run_done_history by blast
    then have "grown s1 (run_done q' reason u s1)"
      unfolding grown_def durable_run_done by (intro conjI refl exI) (assumption, rule trim_related_refl)
    then show ?thesis using s1(2) by (simp add: sess_fwd_on_done_def)
  qed
  have "session_query_step env ag inp s = (case done_event (drop (length (trace q)) (trace q')) of
      None \<Rightarrow> s1 | Some (reason, u) \<Rightarrow> sess_fwd_on_done env ag q' reason u s1)"
    by (simp only: session_query_step_def Some Let_def q'_def s1_def option.case)
  then show ?thesis
    using s1(1) done_case by (auto split: option.split intro: grown_trans)
qed

lemma grown_moves: "session_moves env ag s s' \<Longrightarrow> \<not> compacting s \<Longrightarrow> grown s s'"
proof (elim session_moves_cases)
  fix mid
  assume "s' = snd (xAgentSessionSetModel ag s mid)"
  then show "grown s s'"
    by (auto simp: xAgentSessionSetModel_def Let_def grown_same split: option.split prod.split)
qed (simp_all add: grown_input grown_query_step, simp_all add: grown_same xAgentSessionCancel_def
    xAgentSessionSetProvider_def xAgentSessionSetContextWindow_def xAgentSessionSetBudget_def)

lemma grown_uncompacted: "uncompacted env ag s s' \<Longrightarrow> grown s s' \<and> \<not> compacting s'"
  by (induction rule: uncompacted.induct) (auto intro: grown_trans grown_moves)

text \<open>Destroying stores what lies behind the entries the session began with.\<close>

lemma destroy_stores_new:
  assumes "grown s s'" and "persisted_prefix s = length (history s)" and "memory s"
    and "session_id_copy s \<noteq> None"
  shows "\<exists>es new. history s' = es @ new \<and> trim_related (history s) es \<and>
    stored (xAgentSessionDestroy s') = stored s @ new"
proof -
  obtain es new where h: "history s' = es @ new" "trim_related (history s) es"
    using assms(1) by (auto simp: grown_def)
  have d: "persisted_prefix s' = length es" "stored s' = stored s" "memory s'" "session_id_copy s' \<noteq> None"
    using assms trim_related_length [OF h(2)] by (auto simp: grown_def durable_def)
  have "stored (xAgentSessionDestroy s') = stored s @ new"
    using destroy_stored [of s'] d h(1) by simp
  with h show ?thesis by blast
qed

end
