(* ===== verification/Fifo.thy ===== *)
theory Fifo
  imports Prelude
begin

text \<open>
  The contract the byte buffers share: a state that holds a sequence of bytes, a write that may
  accept only a part of what it is given, and a read that hands out and removes the oldest ones.
  What a client relies on is conservation: over any sequence of writes and reads every accepted
  byte comes out exactly once and in order.
\<close>

datatype 'a fifo_op = Put "'a list" | Get nat

text \<open>The bytes accepted and the bytes handed out by a sequence of operations.\<close>

fun fifo_run ::
  "('a list \<Rightarrow> 's \<Rightarrow> nat \<times> 's) \<Rightarrow> (nat \<Rightarrow> 's \<Rightarrow> 'a list \<times> 's) \<Rightarrow> 'a fifo_op list \<Rightarrow> 's \<Rightarrow>
   'a list \<times> 'a list \<times> 's" where
  "fifo_run put get [] s = ([], [], s)"
| "fifo_run put get (Put xs # ops) s =
     (case put xs s of (n, s1) \<Rightarrow>
        case fifo_run put get ops s1 of (into, out, s2) \<Rightarrow> (take n xs @ into, out, s2))"
| "fifo_run put get (Get k # ops) s =
     (case get k s of (ys, s1) \<Rightarrow>
        case fifo_run put get ops s1 of (into, out, s2) \<Rightarrow> (into, ys @ out, s2))"

locale fifo =
  fixes valid :: "'s \<Rightarrow> bool"
    and contents :: "'s \<Rightarrow> 'a list"
    and put :: "'a list \<Rightarrow> 's \<Rightarrow> nat \<times> 's"
    and get :: "nat \<Rightarrow> 's \<Rightarrow> 'a list \<times> 's"
  assumes put_contents: "valid s \<Longrightarrow> put xs s = (n, s') \<Longrightarrow>
      valid s' \<and> n \<le> length xs \<and> contents s' = contents s @ take n xs"
    and get_contents: "valid s \<Longrightarrow> get k s = (ys, s') \<Longrightarrow>
      valid s' \<and> ys = take k (contents s) \<and> contents s' = drop k (contents s)"
begin

lemma run_conserves:
  assumes "valid s" and "fifo_run put get ops s = (into, out, s')"
  shows "valid s' \<and> contents s @ into = out @ contents s'"
  using assms
proof (induction ops arbitrary: s into out s')
  case Nil
  then show ?case by simp
next
  case (Cons op ops)
  show ?case
  proof (cases op)
    case (Put xs)
    obtain n s1 where p: "put xs s = (n, s1)" by fastforce
    obtain i o' s2 where r: "fifo_run put get ops s1 = (i, o', s2)" by (metis prod_cases3)
    note p' = put_contents [OF Cons.prems(1) p]
    have "valid s2 \<and> contents s1 @ i = o' @ contents s2"
      using Cons.IH [OF _ r] p' by simp
    with Cons.prems(2) Put p r p' show ?thesis by auto
  next
    case (Get k)
    obtain ys s1 where g: "get k s = (ys, s1)" by fastforce
    obtain i o' s2 where r: "fifo_run put get ops s1 = (i, o', s2)" by (metis prod_cases3)
    note g' = get_contents [OF Cons.prems(1) g]
    have "valid s2 \<and> contents s1 @ i = o' @ contents s2"
      using Cons.IH [OF _ r] g' by simp
    moreover have "contents s = ys @ contents s1" using g' by simp
    ultimately show ?thesis using Cons.prems(2) Get g r by auto
  qed
qed

end

end
