(* ===== verification/Buf.thy ===== *)
theory Buf
  imports Fifo
begin

text \<open>
  \<^verbatim>\<open>libx/x/buf/buf.c\<close>: the linear byte buffer. \<open>bdata\<close> is the part of the data area in front of
  \<^verbatim>\<open>wpos\<close>, so \<^verbatim>\<open>wpos\<close> is its length; what lies behind it is never read.
\<close>

section \<open>State and growth\<close>

record 'a xBuffer =
  rpos :: nat
  bcap :: nat
  bdata :: "'a list"

abbreviation wpos :: "'a xBuffer \<Rightarrow> nat" where
  "wpos b \<equiv> length (bdata b)"

definition BUF_MIN_CAP :: nat where
  "BUF_MIN_CAP = 64"

text \<open>\<^verbatim>\<open>while (cap < needed) cap *= 2\<close>\<close>

function buf_double :: "nat \<Rightarrow> nat \<Rightarrow> nat" where
  "buf_double c needed = (if 0 < c \<and> c < needed then buf_double (2 * c) needed else c)"
  by pat_completeness auto
termination
  by (relation "measure (\<lambda>(c, needed). needed - c)") auto

declare buf_double.simps [simp del]

definition buf_next_cap :: "nat \<Rightarrow> nat \<Rightarrow> nat" where
  "buf_next_cap current needed =
     (let c = (if current \<noteq> 0 then current else BUF_MIN_CAP)
      in if SIZE_MAX div 2 < needed then SIZE_MAX else buf_double c needed)"

text \<open>Sliding the unread bytes to the front.\<close>

definition slide :: "'a xBuffer \<Rightarrow> 'a xBuffer" where
  "slide b = b\<lparr>rpos := 0, bdata := drop (rpos b) (bdata b)\<rparr>"

definition buf_grow :: "allocs \<Rightarrow> 'a xBuffer \<Rightarrow> nat \<Rightarrow> xErrno \<times> 'a xBuffer \<times> allocs" where
  "buf_grow m b needed =
     (if needed \<le> bcap b then (xErrno_Ok, b, m)
      else if 0 < rpos b \<and> size_add (wpos b - rpos b) needed \<le> bcap b then (xErrno_Ok, slide b, m)
      else let newcap = buf_next_cap (bcap b) needed; (ok, m') = draw m
           in if ok then (xErrno_Ok, b\<lparr>bcap := newcap\<rparr>, m') else (xErrno_NoMemory, b, m'))"

section \<open>Operations\<close>

definition xBufferCreate :: "allocs \<Rightarrow> nat \<Rightarrow> 'a xBuffer option \<times> allocs" where
  "xBufferCreate m initial_cap =
     (let c = (if initial_cap = 0 then BUF_MIN_CAP else initial_cap); (ok, m') = draw m
      in (if ok then Some \<lparr>rpos = 0, bcap = c, bdata = []\<rparr> else None, m'))"

definition xBufferReset :: "'a xBuffer \<Rightarrow> 'a xBuffer" where
  "xBufferReset b = b\<lparr>rpos := 0, bdata := []\<rparr>"

definition xBufferAppend :: "allocs \<Rightarrow> 'a xBuffer \<Rightarrow> 'a list \<Rightarrow> xErrno \<times> 'a xBuffer \<times> allocs" where
  "xBufferAppend m b chunk =
     (if chunk = [] then (xErrno_Ok, b, m)
      else case buf_grow m b (size_add (wpos b) (length chunk)) of (err, b', m') \<Rightarrow>
        if err \<noteq> xErrno_Ok then (err, b, m')
        else (xErrno_Ok, b'\<lparr>bdata := bdata b' @ chunk\<rparr>, m'))"

definition xBufferReserve :: "allocs \<Rightarrow> 'a xBuffer \<Rightarrow> nat \<Rightarrow> xErrno \<times> 'a xBuffer \<times> allocs" where
  "xBufferReserve m b additional =
     (let b1 = (if 0 < rpos b then slide b else b) in buf_grow m b1 (size_add (wpos b1) additional))"

text \<open>\<^verbatim>\<open>xBufferData\<close> and \<^verbatim>\<open>xBufferLen\<close> in one: the unread bytes.\<close>

definition xBufferData :: "'a xBuffer \<Rightarrow> 'a list" where
  "xBufferData b = drop (rpos b) (bdata b)"

definition xBufferLen :: "'a xBuffer \<Rightarrow> nat" where
  "xBufferLen b = wpos b - rpos b"

definition xBufferCap :: "'a xBuffer \<Rightarrow> nat" where
  "xBufferCap b = bcap b"

definition xBufferWritable :: "'a xBuffer \<Rightarrow> nat" where
  "xBufferWritable b = bcap b - wpos b"

definition xBufferConsume :: "'a xBuffer \<Rightarrow> nat \<Rightarrow> 'a xBuffer" where
  "xBufferConsume b n =
     (if wpos b - rpos b \<le> n then b\<lparr>rpos := 0, bdata := []\<rparr> else b\<lparr>rpos := rpos b + n\<rparr>)"

definition xBufferCompact :: "'a xBuffer \<Rightarrow> 'a xBuffer" where
  "xBufferCompact b = (if rpos b = 0 then b else slide b)"

text \<open>
  The descriptor reads: \<open>input\<close> gives what \<^verbatim>\<open>read\<close> delivers for a request of that many bytes, None
  for an error. The result is \<^verbatim>\<open>-1\<close> or the count.
\<close>

definition xBufferReadFd ::
  "allocs \<Rightarrow> (nat \<Rightarrow> 'a list option) \<Rightarrow> 'a xBuffer \<Rightarrow> int \<times> 'a xBuffer \<times> allocs" where
  "xBufferReadFd m input b =
     (case (if xBufferWritable b < 4096 then xBufferReserve m b 4096 else (xErrno_Ok, b, m)) of
        (err, b1, m1) \<Rightarrow>
          if err \<noteq> xErrno_Ok then (-1, b1, m1)
          else case input (bcap b1 - wpos b1) of
              None \<Rightarrow> (-1, b1, m1)
            | Some chunk \<Rightarrow> (int (length chunk), b1\<lparr>bdata := bdata b1 @ chunk\<rparr>, m1))"

text \<open>\<open>output\<close> is how many of the offered bytes \<^verbatim>\<open>write\<close> takes, None for an error.\<close>

definition xBufferWriteFd :: "('a list \<Rightarrow> nat option) \<Rightarrow> 'a xBuffer \<Rightarrow> int \<times> 'a xBuffer" where
  "xBufferWriteFd output b =
     (if wpos b - rpos b = 0 then (0, b)
      else case output (xBufferData b) of
          None \<Rightarrow> (-1, b)
        | Some n \<Rightarrow> (int n, if 0 < n then xBufferConsume b n else b))"

section \<open>The state stays inside the allocation\<close>

definition buf_ok :: "'a xBuffer \<Rightarrow> bool" where
  "buf_ok b \<longleftrightarrow> rpos b \<le> wpos b \<and> wpos b \<le> bcap b \<and> bcap b < SIZE_LIM"

lemma buf_double_ge: "0 < c \<Longrightarrow> needed \<le> buf_double c needed"
  by (induction c needed rule: buf_double.induct) (subst buf_double.simps, auto)

lemma buf_double_less: "c < SIZE_LIM \<Longrightarrow> needed \<le> SIZE_MAX div 2 \<Longrightarrow> buf_double c needed < SIZE_LIM"
  by (induction c needed rule: buf_double.induct)
    (subst buf_double.simps, auto simp: SIZE_LIM_def SIZE_MAX_def)

lemma buf_next_cap_bounds:
  assumes "needed < SIZE_LIM" and "current < SIZE_LIM"
  shows "needed \<le> buf_next_cap current needed" and "buf_next_cap current needed < SIZE_LIM"
  using assms buf_double_ge buf_double_less
  by (auto simp: buf_next_cap_def Let_def BUF_MIN_CAP_def SIZE_LIM_def SIZE_MAX_def)

text \<open>
  The request is the whole size behind the growth, so it exceeds the capacity already; adding the
  unread bytes to it cannot fit either, and the branch that slides is never taken.
\<close>

lemma buf_grow_never_slides:
  assumes "buf_ok b" and "needed < SIZE_LIM" and "wpos b - rpos b + needed < SIZE_LIM"
    and "buf_grow m b needed = (e, b', m')"
  shows "rpos b' = rpos b" and "bdata b' = bdata b"
    and "e = xErrno_Ok \<Longrightarrow> needed \<le> bcap b' \<and> bcap b \<le> bcap b' \<and> bcap b' < SIZE_LIM"
    and "e \<noteq> xErrno_Ok \<Longrightarrow> b' = b \<and> e = xErrno_NoMemory"
proof -
  have nc: "needed \<le> buf_next_cap (bcap b) needed" "buf_next_cap (bcap b) needed < SIZE_LIM"
    using assms(1,2) by (auto simp: buf_ok_def intro: buf_next_cap_bounds)
  show "rpos b' = rpos b" "bdata b' = bdata b"
    "e = xErrno_Ok \<Longrightarrow> needed \<le> bcap b' \<and> bcap b \<le> bcap b' \<and> bcap b' < SIZE_LIM"
    "e \<noteq> xErrno_Ok \<Longrightarrow> b' = b \<and> e = xErrno_NoMemory"
    using assms nc
    by (auto simp: buf_grow_def buf_ok_def size_add_small Let_def split: prod.splits if_splits)
qed

lemma append_ok:
  assumes "buf_ok b" and "2 * (wpos b + length chunk) < SIZE_LIM"
    and "xBufferAppend m b chunk = (e, b', m')"
  shows "buf_ok b'" and "xBufferData b' = xBufferData b @ (if e = xErrno_Ok then chunk else [])"
proof -
  have small: "wpos b + length chunk < SIZE_LIM" "wpos b - rpos b + (wpos b + length chunk) < SIZE_LIM"
    using assms(2) by simp_all
  obtain e1 b1 m1 where g: "buf_grow m b (wpos b + length chunk) = (e1, b1, m1)" by (metis prod_cases3)
  note grown = buf_grow_never_slides [OF assms(1) small g]
  show "buf_ok b'" "xBufferData b' = xBufferData b @ (if e = xErrno_Ok then chunk else [])"
    using assms(1,3) grown g small(1)
    by (auto simp: xBufferAppend_def size_add_small buf_ok_def xBufferData_def split: if_splits)
qed

lemma consume_ok: "buf_ok b \<Longrightarrow> buf_ok (xBufferConsume b n)"
  by (auto simp: buf_ok_def xBufferConsume_def)

lemma consume_data: "buf_ok b \<Longrightarrow> xBufferData (xBufferConsume b n) = drop n (xBufferData b)"
  by (auto simp: buf_ok_def xBufferConsume_def xBufferData_def add.commute)

lemma slide_ok: "buf_ok b \<Longrightarrow> buf_ok (slide b)" "xBufferData (slide b) = xBufferData b"
  by (auto simp: buf_ok_def slide_def xBufferData_def)

lemma reserve_ok:
  assumes "buf_ok b" and "2 * (wpos b + n) < SIZE_LIM" and "xBufferReserve m b n = (e, b', m')"
  shows "buf_ok b' \<and> xBufferData b' = xBufferData b \<and> (e = xErrno_Ok \<longrightarrow> n \<le> xBufferWritable b')"
proof -
  define b1 where "b1 = (if 0 < rpos b then slide b else b)"
  have ok: "buf_ok b1" "xBufferData b1 = xBufferData b" "wpos b1 \<le> wpos b"
    using assms(1) slide_ok by (auto simp: b1_def slide_def)
  then have small: "wpos b1 + n < SIZE_LIM" "wpos b1 - rpos b1 + (wpos b1 + n) < SIZE_LIM"
    using assms(2) by simp_all
  have g: "buf_grow m b1 (wpos b1 + n) = (e, b', m')"
    using assms(3) small(1) by (simp add: xBufferReserve_def b1_def [symmetric] size_add_small Let_def)
  note grown = buf_grow_never_slides [OF ok(1) small g]
  show ?thesis
    using grown ok by (cases "e = xErrno_Ok") (auto simp: buf_ok_def xBufferData_def xBufferWritable_def)
qed

section \<open>The buffer is a queue of bytes\<close>

text \<open>
  Writes are all or nothing. The state carries the allocator; the bound keeps the sizes in range
  and is checked here on the request, as the process could not hold more bytes than that.
\<close>

definition buf_put :: "'a list \<Rightarrow> 'a xBuffer \<times> allocs \<Rightarrow> nat \<times> 'a xBuffer \<times> allocs" where
  "buf_put xs s =
     (case s of (b, m) \<Rightarrow>
        if SIZE_LIM \<le> 2 * (wpos b + length xs) then (0, s)
        else case xBufferAppend m b xs of (e, b', m') \<Rightarrow>
          (if e = xErrno_Ok then length xs else 0, b', m'))"

definition buf_get :: "nat \<Rightarrow> 'a xBuffer \<times> allocs \<Rightarrow> 'a list \<times> 'a xBuffer \<times> allocs" where
  "buf_get k s = (case s of (b, m) \<Rightarrow> (take k (xBufferData b), xBufferConsume b k, m))"

interpretation linear: fifo "\<lambda>s. buf_ok (fst s)" "\<lambda>s. xBufferData (fst s)" buf_put buf_get
proof unfold_locales
  fix s s' :: "'a xBuffer \<times> allocs" and xs :: "'a list" and n :: nat
  assume ok: "buf_ok (fst s)" and p: "buf_put xs s = (n, s')"
  obtain b m where s: "s = (b, m)" by fastforce
  obtain e b' m' where a: "xBufferAppend m b xs = (e, b', m')" by (metis prod_cases3)
  show "buf_ok (fst s') \<and> n \<le> length xs \<and> xBufferData (fst s') = xBufferData (fst s) @ take n xs"
    using ok p a append_ok [of b xs m e b' m'] by (auto simp: buf_put_def s split: if_splits)
next
  fix s s' :: "'a xBuffer \<times> allocs" and ys :: "'a list" and k :: nat
  assume "buf_ok (fst s)" and "buf_get k s = (ys, s')"
  then show "buf_ok (fst s') \<and> ys = take k (xBufferData (fst s)) \<and> xBufferData (fst s') = drop k (xBufferData (fst s))"
    by (cases s) (auto simp: buf_get_def consume_ok consume_data)
qed

section \<open>Promises of the buffer\<close>

lemma create_buf_ok:
  assumes "xBufferCreate m c = (Some b, m')" and "c < SIZE_LIM"
  shows "buf_ok b" and "xBufferData b = []"
  using assms
  by (auto simp: xBufferCreate_def buf_ok_def xBufferData_def BUF_MIN_CAP_def SIZE_LIM_def
      split: prod.splits if_splits)

text \<open>
  The linear buffer is a first-in first-out queue that grows: over any sequence of appends
  (all or nothing, whichever allocations fail) and consumes, the bytes accepted are those consumed
  followed by the unread ones, and the unread ones are inside the allocation.
\<close>

theorem buf_is_queue:
  assumes "xBufferCreate m c = (Some b, m')" and "c < SIZE_LIM"
    and "fifo_run buf_put buf_get ops (b, m') = (into, out, b1, m1)"
  shows "into = out @ xBufferData b1 \<and> rpos b1 \<le> wpos b1 \<and> wpos b1 \<le> bcap b1"
proof -
  note c = create_buf_ok [OF assms(1,2)]
  from linear.run_conserves [OF _ assms(3)] c show ?thesis by (auto simp: buf_ok_def)
qed

theorem buf_is_queue_witness:
  "[1..<5] @ [5..<80] = fst (snd (fifo_run buf_put buf_get [Put [1..<5], Put [9..<11], Put [5..<80], Get 4]
     (\<lparr>rpos = 0, bcap = 2, bdata = []\<rparr>, [True, False]))) @
   xBufferData (fst (snd (snd (fifo_run buf_put buf_get [Put [1..<5], Put [9..<11], Put [5..<80], Get 4]
     (\<lparr>rpos = 0, bcap = 2, bdata = []\<rparr>, [True, False])))))"
proof -
  have c: "xBufferCreate [True, True, False] 2 = (Some (\<lparr>rpos = 0, bcap = 2, bdata = []\<rparr> :: nat xBuffer), [True, False])"
    by (simp add: xBufferCreate_def)
  have small: "(2::nat) < SIZE_LIM" by (simp add: SIZE_LIM_def)
  have "[1..<5] @ [5..<80] = fst (fifo_run buf_put buf_get [Put [1..<5], Put [9..<11], Put [5..<80], Get 4]
     (\<lparr>rpos = 0, bcap = 2, bdata = []\<rparr>, [True, False]))"
    by code_simp
  then show ?thesis
    using buf_is_queue [OF c small, of "[Put [1..<5], Put [9..<11], Put [5..<80], Get 4]"]
    by (metis prod.collapse)
qed

text \<open>
  Reserving leaves the unread bytes as they are, keeps the state inside the allocation and, when
  it succeeds, makes room for the requested bytes; the growth step it shares with append never moves
  the bytes, for any valid state and size: its compacting branch cannot be taken.
\<close>

theorem buf_reserve_room:
  assumes "buf_ok b" and "2 * (wpos b + n) < SIZE_LIM" and "xBufferReserve m b n = (e, b', m')"
    and "buf_grow m b (wpos b + n) = (e2, b2, m2)"
  shows "buf_ok b' \<and> xBufferData b' = xBufferData b \<and> (e = xErrno_Ok \<longrightarrow> n \<le> xBufferWritable b') \<and>
    (e \<noteq> xErrno_Ok \<longrightarrow> e = xErrno_NoMemory) \<and> rpos b2 = rpos b \<and> bdata b2 = bdata b"
proof -
  have small: "wpos b + n < SIZE_LIM" "wpos b - rpos b + (wpos b + n) < SIZE_LIM" using assms(2) by simp_all
  have "e \<noteq> xErrno_Ok \<longrightarrow> e = xErrno_NoMemory"
    using assms(3) by (auto simp: xBufferReserve_def buf_grow_def Let_def split: prod.splits if_splits)
  then show ?thesis
    using reserve_ok [OF assms(1-3)] buf_grow_never_slides(1,2) [OF assms(1) small assms(4)] by simp
qed

definition buf_example :: "nat xBuffer" where
  "buf_example = \<lparr>rpos = 1, bcap = 3, bdata = [7, 8, 9]\<rparr>"

theorem buf_reserve_room_witness:
  "xBufferData (fst (snd (xBufferReserve [] buf_example 5))) = xBufferData buf_example \<and>
   bdata (fst (snd (buf_grow [] buf_example (wpos buf_example + 5)))) = bdata buf_example"
proof -
  obtain e b' m' where r: "xBufferReserve [] buf_example 5 = (e, b', m')" by (metis prod_cases3)
  obtain e2 b2 m2 where g: "buf_grow [] buf_example (wpos buf_example + 5) = (e2, b2, m2)" by (metis prod_cases3)
  have "buf_ok buf_example" and "2 * (wpos buf_example + 5) < SIZE_LIM"
    by (simp_all add: buf_example_def buf_ok_def SIZE_LIM_def)
  from buf_reserve_room [OF this r g] show ?thesis by (simp add: r g)
qed

end
