(* ===== verification/Ring.thy ===== *)
theory Ring
  imports Fifo
begin

text \<open>
  \<^verbatim>\<open>libx/x/buf/ring.c\<close>: the fixed-size ring buffer. The cursors are 64-bit words that only grow,
  wrapping at \<^verbatim>\<open>SIZE_MAX\<close>; positions are the cursors masked with \<open>cap - 1\<close>.
\<close>

unbundle bit_operations_syntax

type_synonym size_t = "64 word"

section \<open>The capacity: the next power of two\<close>

text \<open>\<^verbatim>\<open>v |= v >> k\<close> for the powers of two up to half the width.\<close>

definition spread :: "nat \<Rightarrow> size_t \<Rightarrow> size_t" where
  "spread k v = v OR drop_bit k v"

lemma unat_two_power: "k < 64 \<Longrightarrow> unat (2 ^ k :: size_t) = 2 ^ k"
proof -
  assume "k < 64"
  then have "(2::nat) ^ k < 2 ^ 64" by (intro power_strict_increasing) simp_all
  then have "unat (of_nat (2 ^ k) :: size_t) = 2 ^ k" by (subst unat_of_nat) simp
  then show ?thesis by simp
qed

definition next_pow2 :: "size_t \<Rightarrow> size_t" where
  "next_pow2 v0 =
     (let v = (if v0 < 16 then 16 else v0)
      in if 2 ^ 63 < v then 2 ^ 63
         else spread 32 (spread 16 (spread 8 (spread 4 (spread 2 (spread 1 (v - 1)))))) + 1)"

text \<open>
  \<open>highset n h v\<close>: \<open>h\<close> is the highest bit of \<open>v\<close> and the \<open>n\<close> bits from there down are set. A step
  doubles \<open>n\<close>.
\<close>

definition highset :: "nat \<Rightarrow> nat \<Rightarrow> size_t \<Rightarrow> bool" where
  "highset n h v \<longleftrightarrow> (\<forall>i. bit v i \<longrightarrow> i \<le> h) \<and> (\<forall>i. i \<le> h \<longrightarrow> h < i + n \<longrightarrow> bit v i)"

lemma highset_spread:
  assumes "highset n h v" and "k \<le> n"
  shows "highset (n + k) h (spread k v)"
  unfolding highset_def
proof (intro conjI allI impI)
  fix i assume "bit (spread k v) i"
  with assms(1) have "i \<le> h \<or> k + i \<le> h"
    by (auto simp: highset_def spread_def bit_or_iff bit_drop_bit_eq)
  then show "i \<le> h" by linarith
next
  fix i assume i: "i \<le> h" "h < i + (n + k)"
  show "bit (spread k v) i"
  proof (cases "h < i + n")
    case True
    with assms(1) i show ?thesis by (simp add: highset_def spread_def bit_or_iff)
  next
    case False
    with i assms(2) have "k + i \<le> h" "h < k + i + n" by linarith+
    with assms(1) show ?thesis by (simp add: highset_def spread_def bit_or_iff bit_drop_bit_eq)
  qed
qed

lemma highset_start:
  assumes "v \<noteq> 0"
  shows "\<exists>h < 64. highset 1 h v"
proof -
  have ne: "\<exists>i. bit v i"
  proof (rule ccontr)
    assume "\<nexists>i. bit v i"
    then have "v = 0" by (intro bit_eqI) simp
    with assms show False by simp
  qed
  define h where "h = (GREATEST i. bit v i)"
  have bound: "\<And>i. bit v i \<Longrightarrow> i \<le> 64" using bit_imp_le_length [of v] by fastforce
  have "bit v h" unfolding h_def using ne bound by (metis GreatestI_nat)
  moreover have "i \<le> h" if "bit v i" for i
    unfolding h_def using that bound by (intro Greatest_le_nat)
  ultimately have "highset 1 h v" by (auto simp: highset_def dest: le_antisym)
  moreover have "h < 64" using bit_imp_le_length [OF \<open>bit v h\<close>] by simp
  ultimately show ?thesis by blast
qed

lemma highset_all: "highset 64 h v \<Longrightarrow> h < 64 \<Longrightarrow> v = mask (Suc h)"
  by (rule bit_eqI) (auto simp: highset_def bit_mask_iff less_Suc_eq_le)

lemma spread_all:
  assumes "v \<noteq> 0"
  shows "\<exists>h < 64. bit v h \<and> (\<forall>i. bit v i \<longrightarrow> i \<le> h) \<and>
    spread 32 (spread 16 (spread 8 (spread 4 (spread 2 (spread 1 v))))) = mask (Suc h)"
proof -
  obtain h where h: "h < 64" "highset 1 h v" using highset_start [OF assms] by blast
  have "highset 2 h (spread 1 v)" using highset_spread [OF h(2), of 1] by (metis one_add_one order_refl)
  then have "highset 4 h (spread 2 (spread 1 v))" using highset_spread [of 2 h _ 2] by simp
  then have "highset 8 h (spread 4 (spread 2 (spread 1 v)))" using highset_spread [of 4 h _ 4] by simp
  then have "highset 16 h (spread 8 (spread 4 (spread 2 (spread 1 v))))" using highset_spread [of 8 h _ 8] by simp
  then have "highset 32 h (spread 16 (spread 8 (spread 4 (spread 2 (spread 1 v)))))"
    using highset_spread [of 16 h _ 16] by simp
  then have "highset 64 h (spread 32 (spread 16 (spread 8 (spread 4 (spread 2 (spread 1 v))))))"
    using highset_spread [of 32 h _ 32] by simp
  from highset_all [OF this h(1)] h show ?thesis by (auto simp: highset_def)
qed

text \<open>The highest bit bounds the value from both sides.\<close>

lemma highest_bit_bounds:
  fixes v :: size_t
  assumes "bit v h" and "\<forall>i. bit v i \<longrightarrow> i \<le> h"
  shows "2 ^ h \<le> unat v" and "unat v < 2 ^ Suc h"
proof -
  have "bit (unat v) h" using assms(1) by (simp add: bit_unsigned_iff)
  then show "2 ^ h \<le> unat v" by (metis bit_iff_odd div_less dvd_0_right not_le)
  have "take_bit (Suc h) (unat v) = unat v"
    using assms(2) by (intro bit_eqI) (auto simp: bit_take_bit_iff bit_unsigned_iff less_Suc_eq_le)
  then show "unat v < 2 ^ Suc h" by (metis take_bit_nat_less_exp)
qed

lemma next_pow2_spec:
  assumes "v0 \<le> 2 ^ 63"
  shows "\<exists>k. 4 \<le> k \<and> k \<le> 63 \<and> unat (next_pow2 v0) = 2 ^ k \<and> unat v0 \<le> 2 ^ k \<and>
    (k = 4 \<or> 2 ^ (k - 1) < unat v0)"
proof -
  define v :: size_t where "v = (if v0 < 16 then 16 else v0)"
  have v: "unat v = max 16 (unat v0)" "unat v \<le> 2 ^ 63"
    using assms by (auto simp: v_def word_less_nat_alt word_le_nat_alt max_def)
  have pos: "unat (v - 1) = unat v - 1" using v(1) by (subst unat_minus_one) auto
  have "unat (v - 1) \<noteq> 0" using pos v(1) by simp
  then have "v - 1 \<noteq> 0" by (metis unat_0)
  from spread_all [OF this] obtain h where h: "h < 64" "bit (v - 1) h" "\<forall>i. bit (v - 1) i \<longrightarrow> i \<le> h"
    and s: "spread 32 (spread 16 (spread 8 (spread 4 (spread 2 (spread 1 (v - 1)))))) = mask (Suc h)"
    by blast
  note b = highest_bit_bounds [OF h(2,3)]
  have "(2::nat) ^ h < 2 ^ 63" using b(1) v(2) pos v(1) by simp
  then have h63: "h < 63" by (rule power_less_imp_less_exp [rotated]) simp
  have "(2::nat) ^ 3 < 2 ^ Suc h" using b(2) pos v(1) by simp
  then have "3 < Suc h" by (rule power_less_imp_less_exp [rotated]) simp
  then have h3: "3 \<le> h" by simp
  have "mask (Suc h) + 1 = (2 ^ Suc h :: size_t)" by (simp add: mask_eq_decr_exp)
  moreover have "\<not> 2 ^ 63 < v" using v(2) by (simp add: word_less_nat_alt)
  then have "next_pow2 v0 = mask (Suc h) + 1"
    by (simp only: next_pow2_def v_def [symmetric] Let_def if_False s)
  ultimately have n: "next_pow2 v0 = 2 ^ Suc h" by simp
  have "unat (2 ^ Suc h :: size_t) = 2 ^ Suc h" using h63 by (intro unat_two_power) simp
  moreover have "unat v0 \<le> 2 ^ Suc h" using b(2) pos v(1) by simp
  moreover have "Suc h = 4 \<or> 2 ^ h < unat v0"
  proof (cases "unat v0 \<le> 16")
    case True
    then have "unat v = 16" using v(1) by simp
    with b(1) pos have "(2::nat) ^ h < 2 ^ 4" by simp
    then have "h < 4" by (rule power_less_imp_less_exp [rotated]) simp
    with h3 show ?thesis by linarith
  next
    case False
    then have "unat v = unat v0" using v(1) by simp
    with b(1) pos False have "2 ^ h < unat v0" by linarith
    then show ?thesis ..
  qed
  ultimately show ?thesis using h3 h63 n by (intro exI [of _ "Suc h"]) auto
qed

section \<open>State and operations\<close>

text \<open>\<open>ring_data\<close> has one element per byte of the allocation.\<close>

record 'a xRingBuffer =
  ring_cap :: size_t
  ring_mask :: size_t
  ring_head :: size_t
  ring_tail :: size_t
  ring_data :: "'a list"

text \<open>\<open>junk\<close> is what \<^verbatim>\<open>malloc\<close> leaves in a byte.\<close>

definition xRingBufferCreate :: "allocs \<Rightarrow> 'a \<Rightarrow> size_t \<Rightarrow> 'a xRingBuffer option \<times> allocs" where
  "xRingBufferCreate m junk min_cap =
     (if min_cap = 0 then (None, m)
      else let c = next_pow2 min_cap; (ok, m') = draw m
           in (if ok then Some \<lparr>ring_cap = c, ring_mask = c - 1, ring_head = 0, ring_tail = 0,
                                ring_data = replicate (unat c) junk\<rparr> else None, m'))"

definition xRingBufferReset :: "'a xRingBuffer \<Rightarrow> 'a xRingBuffer" where
  "xRingBufferReset r = r\<lparr>ring_head := 0, ring_tail := 0\<rparr>"

definition xRingBufferLen :: "'a xRingBuffer \<Rightarrow> size_t" where
  "xRingBufferLen r = ring_head r - ring_tail r"

definition xRingBufferWritable :: "'a xRingBuffer \<Rightarrow> size_t" where
  "xRingBufferWritable r = ring_cap r - (ring_head r - ring_tail r)"

definition xRingBufferEmpty :: "'a xRingBuffer \<Rightarrow> bool" where
  "xRingBufferEmpty r \<longleftrightarrow> ring_head r = ring_tail r"

definition xRingBufferFull :: "'a xRingBuffer \<Rightarrow> bool" where
  "xRingBufferFull r \<longleftrightarrow> ring_head r - ring_tail r = ring_cap r"

text \<open>\<^verbatim>\<open>memcpy (data + pos, xs, length xs)\<close>\<close>

definition overwrite :: "nat \<Rightarrow> 'a list \<Rightarrow> 'a list \<Rightarrow> 'a list" where
  "overwrite pos xs ys = take pos ys @ xs @ drop (pos + length xs) ys"

definition xRingBufferWrite :: "'a list \<Rightarrow> 'a xRingBuffer \<Rightarrow> nat \<times> 'a xRingBuffer" where
  "xRingBufferWrite chunk r =
     (let writable = unat (xRingBufferWritable r);
          len = (if writable < length chunk then writable else length chunk);
          xs = take len chunk;
          pos = unat (ring_head r AND ring_mask r);
          first = unat (ring_cap r) - pos
      in if len = 0 then (0, r)
         else (len, r\<lparr>ring_data := (if len \<le> first then overwrite pos xs (ring_data r)
                                    else overwrite 0 (drop first xs)
                                           (overwrite pos (take first xs) (ring_data r))),
                      ring_head := ring_head r + of_nat len\<rparr>))"

text \<open>\<^verbatim>\<open>ring_copy_out\<close>: the bytes copied; their number is the result.\<close>

definition ring_copy_out :: "'a xRingBuffer \<Rightarrow> nat \<Rightarrow> 'a list" where
  "ring_copy_out r n =
     (let readable = unat (xRingBufferLen r);
          len = (if readable < n then readable else n);
          pos = unat (ring_tail r AND ring_mask r);
          first = unat (ring_cap r) - pos
      in if len = 0 then []
         else if len \<le> first then take len (drop pos (ring_data r))
         else take first (drop pos (ring_data r)) @ take (len - first) (ring_data r))"

definition xRingBufferRead :: "nat \<Rightarrow> 'a xRingBuffer \<Rightarrow> 'a list \<times> 'a xRingBuffer" where
  "xRingBufferRead n r =
     (let out = ring_copy_out r n in (out, r\<lparr>ring_tail := ring_tail r + of_nat (length out)\<rparr>))"

definition xRingBufferPeek :: "nat \<Rightarrow> 'a xRingBuffer \<Rightarrow> 'a list" where
  "xRingBufferPeek n r = ring_copy_out r n"

definition xRingBufferDiscard :: "nat \<Rightarrow> 'a xRingBuffer \<Rightarrow> nat \<times> 'a xRingBuffer" where
  "xRingBufferDiscard n r =
     (let readable = unat (xRingBufferLen r); k = (if readable < n then readable else n)
      in (k, r\<lparr>ring_tail := ring_tail r + of_nat k\<rparr>))"

text \<open>The segments handed to \<^verbatim>\<open>readv\<close> and \<^verbatim>\<open>writev\<close>: positions and lengths.\<close>

definition ring_segments :: "'a xRingBuffer \<Rightarrow> size_t \<Rightarrow> nat \<Rightarrow> (nat \<times> nat) list" where
  "ring_segments r cursor n =
     (let pos = unat (cursor AND ring_mask r); first = unat (ring_cap r) - pos
      in if n = 0 then [] else if n \<le> first then [(pos, n)] else [(pos, first), (0, n - first)])"

definition xRingBufferReadIov :: "'a xRingBuffer \<Rightarrow> (nat \<times> nat) list" where
  "xRingBufferReadIov r = ring_segments r (ring_tail r) (unat (xRingBufferLen r))"

definition xRingBufferWriteIov :: "'a xRingBuffer \<Rightarrow> (nat \<times> nat) list" where
  "xRingBufferWriteIov r = ring_segments r (ring_head r) (unat (xRingBufferWritable r))"

section \<open>The ring holds a queue\<close>

text \<open>
  The invariant: the capacity is a power of two the data area has, the mask belongs to it, and the
  cursors are at most the capacity apart. The bytes in the ring are those at the masked positions
  from the tail on.
\<close>

definition ring_ok :: "'a xRingBuffer \<Rightarrow> bool" where
  "ring_ok r \<longleftrightarrow> (\<exists>k \<le> 63. unat (ring_cap r) = 2 ^ k) \<and> ring_mask r = ring_cap r - 1 \<and>
     length (ring_data r) = unat (ring_cap r) \<and> unat (ring_head r - ring_tail r) \<le> unat (ring_cap r)"

definition ring_bytes :: "'a xRingBuffer \<Rightarrow> 'a list" where
  "ring_bytes r = map (\<lambda>i. ring_data r ! ((unat (ring_tail r) + i) mod unat (ring_cap r)))
     [0..<unat (ring_head r - ring_tail r)]"

lemma ring_position:
  assumes "ring_ok r"
  shows "unat (w AND ring_mask r) = unat w mod unat (ring_cap r)"
proof -
  from assms obtain k where k: "k \<le> 63" "unat (ring_cap r) = 2 ^ k" by (auto simp: ring_ok_def)
  then have "unat (ring_cap r) = unat (2 ^ k :: size_t)" by (simp add: unat_two_power)
  then have "ring_cap r = 2 ^ k" by (simp only: word_unat_eq_iff)
  then have "ring_mask r = mask k" using assms by (simp add: ring_ok_def mask_eq_decr_exp)
  then have "w AND ring_mask r = take_bit k w" by (simp add: take_bit_eq_mask)
  then have "unat (w AND ring_mask r) = take_bit k (unat w)" by (simp only: unsigned_take_bit_eq)
  then show ?thesis by (simp only: k(2) take_bit_eq_mod)
qed

lemma ring_cursor:
  fixes w :: size_t
  assumes "ring_ok r"
  shows "unat (w + of_nat n) mod unat (ring_cap r) = (unat w + n) mod unat (ring_cap r)"
proof -
  from assms obtain k where k: "k \<le> 63" "unat (ring_cap r) = 2 ^ k" by (auto simp: ring_ok_def)
  have "(2::nat) ^ k dvd 2 ^ 64" using k(1) by (intro le_imp_power_dvd) simp
  then show ?thesis
    by (simp add: unat_word_ariths k(2) unat_of_nat mod_mod_cancel mod_simps)
qed

lemma ring_head_position:
  assumes "ring_ok r"
  shows "unat (ring_head r) mod unat (ring_cap r)
    = (unat (ring_tail r) + unat (ring_head r - ring_tail r)) mod unat (ring_cap r)"
proof -
  have "ring_head r = ring_tail r + of_nat (unat (ring_head r - ring_tail r))" by simp
  with ring_cursor [OF assms, of "ring_tail r" "unat (ring_head r - ring_tail r)"] show ?thesis by metis
qed

lemma ring_cap_pos: "ring_ok r \<Longrightarrow> 0 < unat (ring_cap r)"
  by (auto simp: ring_ok_def)

lemma length_ring_bytes [simp]: "length (ring_bytes r) = unat (ring_head r - ring_tail r)"
  by (simp add: ring_bytes_def)

text \<open>Reading around the end: two pieces are one walk with the index taken modulo the length.\<close>

lemma wrapped_slice:
  assumes "pos < length xs" and "n \<le> length xs"
  shows "(if n \<le> length xs - pos then take n (drop pos xs)
      else take (length xs - pos) (drop pos xs) @ take (n - (length xs - pos)) xs)
    = map (\<lambda>i. xs ! ((pos + i) mod length xs)) [0..<n]"
proof (rule nth_equalityI)
  show "length (if n \<le> length xs - pos then take n (drop pos xs)
      else take (length xs - pos) (drop pos xs) @ take (n - (length xs - pos)) xs)
    = length (map (\<lambda>i. xs ! ((pos + i) mod length xs)) [0..<n])"
    using assms by auto
next
  fix i
  assume "i < length (if n \<le> length xs - pos then take n (drop pos xs)
      else take (length xs - pos) (drop pos xs) @ take (n - (length xs - pos)) xs)"
  then have i: "i < n" using assms by (auto split: if_splits)
  have wrap: "(pos + i) mod length xs = pos + i - length xs" if "length xs \<le> pos + i"
    using that assms i by (simp add: mod_if)
  show "(if n \<le> length xs - pos then take n (drop pos xs)
      else take (length xs - pos) (drop pos xs) @ take (n - (length xs - pos)) xs) ! i
    = map (\<lambda>i. xs ! ((pos + i) mod length xs)) [0..<n] ! i"
    using assms i wrap by (cases "pos + i < length xs") (auto simp: nth_append not_less add.commute)
qed

lemma take_upt_min: "take n [0..<k] = [0..<min n k]"
  by (cases "n \<le> k") (simp_all add: min_def)

lemma ring_copy_out_bytes:
  assumes "ring_ok r"
  shows "ring_copy_out r n = take n (ring_bytes r)"
proof -
  define c where "c = unat (ring_cap r)"
  define len where "len = min n (unat (ring_head r - ring_tail r))"
  define pos where "pos = unat (ring_tail r) mod c"
  have c: "length (ring_data r) = c" "unat (ring_head r - ring_tail r) \<le> c" "pos < c"
    using assms ring_cap_pos [OF assms] by (auto simp: ring_ok_def c_def pos_def)
  have "ring_copy_out r n = (if len \<le> c - pos then take len (drop pos (ring_data r))
      else take (c - pos) (drop pos (ring_data r)) @ take (len - (c - pos)) (ring_data r))"
    using ring_position [OF assms] c(3)
    by (auto simp: ring_copy_out_def xRingBufferLen_def Let_def len_def min_def pos_def c_def)
  also have "\<dots> = map (\<lambda>i. ring_data r ! ((pos + i) mod c)) [0..<len]"
    by (rule wrapped_slice [of pos "ring_data r" len, unfolded c(1), OF c(3)]) (use c(2) in \<open>simp add: len_def\<close>)
  also have "\<dots> = take n (ring_bytes r)"
    by (simp add: ring_bytes_def len_def pos_def c_def take_map mod_simps take_upt_min)
  finally show ?thesis .
qed

text \<open>Writing around the end: position \<open>(pos + j) mod length\<close> receives byte \<open>j\<close>, the others keep theirs.\<close>

definition ring_store :: "nat \<Rightarrow> 'a list \<Rightarrow> 'a list \<Rightarrow> 'a list" where
  "ring_store pos xs ys =
     (let first = length ys - pos
      in if length xs \<le> first then overwrite pos xs ys
         else overwrite 0 (drop first xs) (overwrite pos (take first xs) ys))"

lemma length_overwrite: "pos + length xs \<le> length ys \<Longrightarrow> length (overwrite pos xs ys) = length ys"
  by (simp add: overwrite_def)

lemma nth_overwrite:
  "pos + length xs \<le> length ys \<Longrightarrow> i < length ys \<Longrightarrow>
   overwrite pos xs ys ! i = (if pos \<le> i \<and> i < pos + length xs then xs ! (i - pos) else ys ! i)"
  by (auto simp: overwrite_def nth_append min_def)

lemma ring_store_length:
  assumes "pos < length ys" and "length xs \<le> length ys"
  shows "length (ring_store pos xs ys) = length ys"
  using assms by (auto simp: ring_store_def Let_def length_overwrite)

lemma ring_store_new:
  assumes "pos < length ys" and "length xs \<le> length ys" and "j < length xs"
  shows "ring_store pos xs ys ! ((pos + j) mod length ys) = xs ! j"
proof (cases "pos + j < length ys")
  case True
  with assms show ?thesis
    by (auto simp: ring_store_def Let_def nth_overwrite length_overwrite)
next
  case False
  then have "(pos + j) mod length ys = pos + j - length ys" using assms by (simp add: mod_if)
  with False assms show ?thesis
    by (auto simp: ring_store_def Let_def nth_overwrite length_overwrite)
qed

lemma ring_store_old:
  assumes "pos < length ys" and "length xs + d \<le> length ys" and "j < d"
    and "start = (pos + (length ys - d)) mod length ys"
  shows "ring_store pos xs ys ! ((start + j) mod length ys) = ys ! ((start + j) mod length ys)"
proof -
  define i where "i = (start + j) mod length ys"
  have "0 < length ys" using assms(1) by linarith
  then have i: "i < length ys" by (simp only: i_def mod_less_divisor)
  have i_eq: "i = (pos + (length ys - d) + j) mod length ys" by (simp add: i_def assms(4) mod_simps)
  have range: "length xs \<le> length ys - d + j" "length ys - d + j < length ys" using assms(2,3) by linarith+
  show ?thesis
  proof (cases "pos + (length ys - d) + j < length ys")
    case True
    then have "i = pos + (length ys - d) + j" by (simp add: i_eq)
    with range i assms show ?thesis
      unfolding i_def [symmetric]
      by (auto simp: ring_store_def Let_def nth_overwrite length_overwrite)
  next
    case False
    then have "i = pos + (length ys - d) + j - length ys"
      using assms(1) range by (simp add: i_eq mod_if)
    with False range i assms show ?thesis
      unfolding i_def [symmetric]
      by (auto simp: ring_store_def Let_def nth_overwrite length_overwrite)
  qed
qed

lemma ring_write_bytes:
  assumes "ring_ok r" and "xRingBufferWrite chunk r = (n, r')"
  shows "ring_ok r'" and "n = min (length chunk) (unat (ring_cap r) - length (ring_bytes r))"
    and "ring_bytes r' = ring_bytes r @ take n chunk"
proof -
  define c where "c = unat (ring_cap r)"
  define d where "d = unat (ring_head r - ring_tail r)"
  define pos where "pos = unat (ring_head r) mod c"
  define start where "start = unat (ring_tail r) mod c"
  have c: "length (ring_data r) = c" "d \<le> c" "0 < c"
    using assms(1) ring_cap_pos [OF assms(1)] by (auto simp: ring_ok_def c_def d_def)
  have pos: "pos < c" "pos = unat (ring_head r AND ring_mask r)"
    using c(3) ring_position [OF assms(1)] by (auto simp: pos_def c_def)
  have writable: "unat (xRingBufferWritable r) = c - d"
    using c(2) by (simp add: xRingBufferWritable_def c_def d_def unat_sub word_le_nat_alt)
  define len where "len = min (length chunk) (c - d)"
  have room: "length (take len chunk) + d \<le> c"
  proof -
    have "length (take len chunk) \<le> c - d" by (simp add: len_def)
    with c(2) show ?thesis by linarith
  qed
  have len: "(if c - d < length chunk then c - d else length chunk) = len" by (simp add: len_def)
  have xs_len: "length (take len chunk) = len" by (simp add: len_def)
  have "(n, r') = (if len = 0 then (0, r)
      else (len, r\<lparr>ring_data := ring_store pos (take len chunk) (ring_data r),
                   ring_head := ring_head r + of_nat len\<rparr>))"
    unfolding assms(2) [symmetric] xRingBufferWrite_def Let_def writable pos(2) [symmetric]
      c_def [symmetric] len ring_store_def c(1) xs_len
    by (rule refl)
  then have n_len: "n = len" and r': "r' = (if len = 0 then r
      else r\<lparr>ring_data := ring_store pos (take len chunk) (ring_data r),
             ring_head := ring_head r + of_nat len\<rparr>)"
    by (auto split: if_splits)
  show n: "n = min (length chunk) (unat (ring_cap r) - length (ring_bytes r))"
    by (simp add: n_len len_def c_def d_def)
  have dist: "unat (ring_head r + of_nat len - ring_tail r) = d + len"
  proof -
    have shift: "ring_head r + of_nat len - ring_tail r = ring_head r - ring_tail r + of_nat len" by simp
    have "d + len < 2 ^ 64"
    proof -
      have "d + len \<le> c" using room c(2) by (simp add: len_def)
      moreover obtain k where "k \<le> 63" "c = 2 ^ k" using assms(1) by (auto simp: ring_ok_def c_def)
      then have "c \<le> 2 ^ 63" by (simp only: power_increasing)
      ultimately show ?thesis by simp
    qed
    moreover have "unat (ring_head r - ring_tail r + of_nat len) = (d + len) mod 2 ^ 64"
      unfolding d_def unat_word_ariths(1) [of "ring_head r - ring_tail r"] unat_of_nat
      by (simp add: mod_simps)
    ultimately show ?thesis unfolding shift by simp
  qed
  show "ring_ok r'"
    using assms(1) dist room c pos(1)
    by (auto simp: r' ring_ok_def ring_store_length c_def d_def len_def)
  show "ring_bytes r' = ring_bytes r @ take n chunk"
  proof (cases "len = 0")
    case True
    then show ?thesis by (simp add: r' n_len)
  next
    case False
    define xs where "xs = take len chunk"
    have xs: "length xs = len" "length xs + d \<le> c" using room by (simp_all add: xs_def len_def)
    have start_pos: "start = (pos + (length (ring_data r) - d)) mod length (ring_data r)"
    proof -
      have "(pos + (c - d)) mod c = (unat (ring_tail r) + d + (c - d)) mod c"
        using ring_head_position [OF assms(1)] by (simp add: pos_def c_def d_def mod_simps)
      also have "\<dots> = start" using c(2) by (simp add: start_def)
      finally show ?thesis by (simp add: c(1))
    qed
    have old: "ring_store pos xs (ring_data r) ! ((start + j) mod c) = ring_data r ! ((start + j) mod c)"
      if "j < d" for j
      using ring_store_old [of pos "ring_data r" xs d j start] that xs(2) start_pos pos(1) c(1) by simp
    have new: "ring_store pos xs (ring_data r) ! ((start + (d + j)) mod c) = xs ! j" if "j < len" for j
    proof -
      have "(start + (d + j)) mod c = (pos + j) mod c"
        using ring_head_position [OF assms(1)]
        by (simp add: start_def pos_def c_def d_def mod_simps add.assoc)
      with ring_store_new [of pos "ring_data r" xs j] that xs pos(1) c(1,2) show ?thesis by simp
    qed
    have nth: "ring_bytes r' ! i = ring_store pos xs (ring_data r) ! ((start + i) mod c)" if "i < d + len" for i
      using False dist that by (simp add: ring_bytes_def r' xs_def c_def start_def mod_simps)
    have "ring_bytes r' = ring_bytes r @ xs"
    proof (rule nth_equalityI)
      show "length (ring_bytes r') = length (ring_bytes r @ xs)"
        using dist False xs(1) by (simp add: r' d_def)
    next
      fix i assume "i < length (ring_bytes r')"
      then have i: "i < d + len" using dist False by (simp add: r')
      show "ring_bytes r' ! i = (ring_bytes r @ xs) ! i"
      proof (cases "i < d")
        case True
        with nth [OF i] old [OF True] show ?thesis
          by (simp add: nth_append ring_bytes_def d_def start_def c_def mod_simps)
      next
        case False
        with nth [OF i] new [of "i - d"] i show ?thesis by (simp add: nth_append d_def)
      qed
    qed
    then show ?thesis by (simp add: n_len xs_def)
  qed
qed

lemma ring_read_bytes:
  assumes "ring_ok r" and "xRingBufferRead n r = (out, r')"
  shows "ring_ok r'" and "out = take n (ring_bytes r)" and "ring_bytes r' = drop n (ring_bytes r)"
proof -
  define c where "c = unat (ring_cap r)"
  define d where "d = unat (ring_head r - ring_tail r)"
  define k where "k = min n d"
  show out: "out = take n (ring_bytes r)"
    using assms by (auto simp: xRingBufferRead_def Let_def ring_copy_out_bytes)
  then have "length out = k" by (simp add: k_def d_def min.commute)
  then have r': "r' = r\<lparr>ring_tail := ring_tail r + of_nat k\<rparr>"
    using assms out by (auto simp: xRingBufferRead_def Let_def ring_copy_out_bytes)
  have dist: "unat (ring_head r - (ring_tail r + of_nat k)) = d - k"
  proof -
    have "of_nat k \<le> ring_head r - ring_tail r"
      by (simp add: word_le_nat_alt unat_of_nat k_def d_def)
    moreover have "unat (of_nat k :: size_t) = k"
    proof -
      have "d < 2 ^ 64" unfolding d_def using unsigned_less [of "ring_head r - ring_tail r", where 'a = nat] by simp
      then have "k < 2 ^ 64" by (simp add: k_def min_def)
      then show ?thesis by (simp add: unat_of_nat)
    qed
    ultimately have "unat (ring_head r - ring_tail r - of_nat k) = d - k"
      by (simp add: unat_sub d_def)
    then show ?thesis by (simp add: diff_diff_eq)
  qed
  show "ring_ok r'" using assms(1) dist by (auto simp: ring_ok_def r' d_def)
  have position: "(unat (ring_tail r + of_nat k) + i) mod c = (unat (ring_tail r) + (k + i)) mod c" for i
  proof -
    have "unat (ring_tail r + of_nat k) mod c = (unat (ring_tail r) + k) mod c"
      using ring_cursor [OF assms(1), of "ring_tail r" k] by (simp add: c_def)
    then have "(unat (ring_tail r + of_nat k) mod c + i) mod c = ((unat (ring_tail r) + k) mod c + i) mod c"
      by simp
    then show ?thesis by (simp only: mod_add_left_eq add.assoc)
  qed
  show "ring_bytes r' = drop n (ring_bytes r)"
  proof (rule nth_equalityI)
    show "length (ring_bytes r') = length (drop n (ring_bytes r))"
      using dist by (simp add: r' k_def d_def min_def)
  next
    fix i assume "i < length (ring_bytes r')"
    then have i: "i < d - k" using dist by (simp add: r')
    then have "k = n" by (auto simp: k_def min_def split: if_splits)
    have "ring_bytes r' ! i = ring_data r ! ((unat (ring_tail r + of_nat k) + i) mod c)"
      using i dist by (simp add: ring_bytes_def r' c_def)
    also have "\<dots> = ring_bytes r ! (k + i)"
    proof -
      have "k + i < d" using i by simp
      then show ?thesis unfolding position by (simp add: ring_bytes_def c_def d_def)
    qed
    also have "\<dots> = drop n (ring_bytes r) ! i"
      using i \<open>k = n\<close> by (simp add: ring_bytes_def d_def)
    finally show "ring_bytes r' ! i = drop n (ring_bytes r) ! i" .
  qed
qed

lemma ring_create_ok:
  assumes "min_cap \<le> 2 ^ 63" and "xRingBufferCreate m junk min_cap = (Some r, m')"
  shows "ring_ok r" and "ring_bytes r = []" and "unat min_cap \<le> unat (ring_cap r)"
proof -
  obtain k where k: "k \<le> 63" "unat (next_pow2 min_cap) = 2 ^ k" "unat min_cap \<le> 2 ^ k"
    using next_pow2_spec [OF assms(1)] by auto
  have r: "r = \<lparr>ring_cap = next_pow2 min_cap, ring_mask = next_pow2 min_cap - 1, ring_head = 0,
      ring_tail = 0, ring_data = replicate (unat (next_pow2 min_cap)) junk\<rparr>"
    using assms(2) by (auto simp: xRingBufferCreate_def Let_def split: prod.splits if_splits)
  show "ring_ok r" "ring_bytes r = []" "unat min_cap \<le> unat (ring_cap r)"
    using k by (auto simp: r ring_ok_def ring_bytes_def)
qed

interpretation ring: fifo ring_ok ring_bytes xRingBufferWrite xRingBufferRead
proof unfold_locales
  fix r r' :: "'a xRingBuffer" and xs :: "'a list" and n :: nat
  assume ok: "ring_ok r" and w: "xRingBufferWrite xs r = (n, r')"
  show "ring_ok r' \<and> n \<le> length xs \<and> ring_bytes r' = ring_bytes r @ take n xs"
    using ring_write_bytes [OF ok w] by simp
next
  fix r r' :: "'a xRingBuffer" and ys :: "'a list" and k :: nat
  assume ok: "ring_ok r" and g: "xRingBufferRead k r = (ys, r')"
  show "ring_ok r' \<and> ys = take k (ring_bytes r) \<and> ring_bytes r' = drop k (ring_bytes r)"
    using ring_read_bytes [OF ok g] by simp
qed

lemma ring_peek_discard:
  assumes "ring_ok r"
  shows "xRingBufferPeek k r = fst (xRingBufferRead k r) \<and>
    xRingBufferDiscard k r = (length (xRingBufferPeek k r), snd (xRingBufferRead k r))"
proof -
  have "(if unat (xRingBufferLen r) < k then unat (xRingBufferLen r) else k) = length (take k (ring_bytes r))"
    by (simp add: xRingBufferLen_def min_def)
  then show ?thesis
    using ring_copy_out_bytes [OF assms]
    by (simp add: xRingBufferPeek_def xRingBufferRead_def xRingBufferDiscard_def Let_def)
qed

section \<open>Promises of the ring\<close>

text \<open>
  C20. A ring created for at least the requested capacity is a bounded first-in first-out queue:
  after any sequence of writes and reads, with the cursors wrapping and the bytes stored around the
  end of the area, what was accepted is what was handed out followed by what is still inside, and
  never more than the capacity is inside.
\<close>

theorem ring_is_queue:
  assumes "min_cap \<le> 2 ^ 63" and "xRingBufferCreate m junk min_cap = (Some r, m')"
    and "fifo_run xRingBufferWrite xRingBufferRead ops r = (into, out, r')"
  shows "into = out @ ring_bytes r' \<and> unat min_cap \<le> unat (ring_cap r) \<and>
    unat (xRingBufferLen r') = length (ring_bytes r') \<and> length (ring_bytes r') \<le> unat (ring_cap r')"
proof -
  note c = ring_create_ok [OF assms(1,2)]
  from ring.run_conserves [OF c(1) assms(3)] c show ?thesis
    by (auto simp: ring_ok_def xRingBufferLen_def)
qed

definition ring_example :: "nat xRingBuffer" where
  "ring_example = \<lparr>ring_cap = 16, ring_mask = 15, ring_head = 0, ring_tail = 0, ring_data = replicate 16 0\<rparr>"

lemma ring_example_bound: "(10::size_t) \<le> 2 ^ 63"
  by code_simp

lemma ring_example_created: "xRingBufferCreate [] 0 10 = (Some ring_example, [])"
  by code_simp

theorem ring_is_queue_witness:
  "fst (fifo_run xRingBufferWrite xRingBufferRead
     [Put [1..<13], Get 8, Put [20..<32], Get 14] ring_example) =
   fst (snd (fifo_run xRingBufferWrite xRingBufferRead
     [Put [1..<13], Get 8, Put [20..<32], Get 14] ring_example)) @
   ring_bytes (snd (snd (fifo_run xRingBufferWrite xRingBufferRead
     [Put [1..<13], Get 8, Put [20..<32], Get 14] ring_example)))"
  using ring_is_queue [OF _ ring_example_created, of "[Put [1..<13], Get 8, Put [20..<32], Get 14]"]
  by (metis prod.collapse ring_example_bound)

text \<open>
  A write takes as many bytes as there is room for and no more; peeking shows what a read
  would hand out, and discarding skips exactly that.
\<close>

theorem ring_write_partial:
  assumes "ring_ok r" and "xRingBufferWrite xs r = (n, r')"
  shows "n = min (length xs) (unat (xRingBufferWritable r)) \<and>
    ring_bytes r' = ring_bytes r @ take n xs \<and>
    xRingBufferPeek k r' = fst (xRingBufferRead k r') \<and>
    snd (xRingBufferDiscard k r') = snd (xRingBufferRead k r') \<and>
    fst (xRingBufferDiscard k r') = length (xRingBufferPeek k r')"
proof -
  note w = ring_write_bytes [OF assms]
  have "unat (xRingBufferWritable r) = unat (ring_cap r) - length (ring_bytes r)"
    using assms(1) by (simp add: ring_ok_def xRingBufferWritable_def unat_sub word_le_nat_alt)
  then show ?thesis
    using w(2,3) ring_peek_discard [OF w(1), of k] by simp
qed

theorem ring_write_partial_witness:
  "fst (xRingBufferWrite [1..<41] ring_example) = 16"
proof -
  have "ring_ok ring_example"
    by (rule ring_create_ok(1) [OF ring_example_bound ring_example_created])
  moreover have "xRingBufferWrite [1..<41] ring_example
    = (fst (xRingBufferWrite [1..<41] ring_example), snd (xRingBufferWrite [1..<41] ring_example))"
    by simp
  ultimately have "fst (xRingBufferWrite [1..<41] ring_example)
      = min (length [1..<41]) (unat (xRingBufferWritable ring_example))"
    using ring_write_partial by blast
  moreover have "min (length [1..<41]) (unat (xRingBufferWritable ring_example)) = 16" by code_simp
  ultimately show ?thesis by simp
qed

end
