(* ===== verification/Heap.thy ===== *)
theory Heap
  imports Prelude "HOL-Library.Multiset"
begin

text \<open>
  \<^verbatim>\<open>libx/x/base/heap.c\<close>: the binary min-heap of pointers. The comparison is the caller's; the index
  callback tells an element where it is, and \<open>hidx\<close> is what the elements were told last. Every user
  of the heap stores the index in the element, so the callback is that store.
\<close>

text \<open>An element that occurs once in a union is in one part only.\<close>

lemma in_one_part:
  assumes "i \<in># A" and "count (A + B) i \<le> 1"
  shows "i \<notin># B"
proof -
  have "0 < count A i" using assms(1) by (simp only: count_greater_zero_iff)
  then have "count B i = 0" using assms(2) unfolding count_union by linarith
  then show ?thesis by (simp only: not_in_iff)
qed

section \<open>State and operations\<close>

text \<open>\<open>hdata\<close> is the used part of the array, so \<^verbatim>\<open>size\<close> is its length.\<close>

record 'e xHeap =
  hdata :: "'e list"
  hcap :: nat
  hidx :: "'e \<Rightarrow> nat"

abbreviation hsize :: "'e xHeap \<Rightarrow> nat" where
  "hsize h \<equiv> length (hdata h)"

type_synonym 'e cmp = "'e \<Rightarrow> 'e \<Rightarrow> int"

definition HEAP_DEFAULT_CAP :: nat where
  "HEAP_DEFAULT_CAP = 16"

definition swap :: "'e xHeap \<Rightarrow> nat \<Rightarrow> nat \<Rightarrow> 'e xHeap" where
  "swap h i j = h\<lparr>hdata := (hdata h)[i := hdata h ! j, j := hdata h ! i],
     hidx := (hidx h)(hdata h ! j := i, hdata h ! i := j)\<rparr>"

function sift_up :: "'e cmp \<Rightarrow> 'e xHeap \<Rightarrow> nat \<Rightarrow> 'e xHeap" where
  "sift_up cmp h i =
     (if 0 < i
      then if 0 \<le> cmp (hdata h ! i) (hdata h ! ((i - 1) div 2)) then h
           else sift_up cmp (swap h i ((i - 1) div 2)) ((i - 1) div 2)
      else h)"
  by pat_completeness auto
termination
  by (relation "measure (\<lambda>(cmp, h, i). i)") auto

declare sift_up.simps [simp del]

text \<open>The smallest of position \<open>i\<close> and its children, the way the code compares them.\<close>

definition smallest :: "'e cmp \<Rightarrow> 'e xHeap \<Rightarrow> nat \<Rightarrow> nat" where
  "smallest cmp h i =
     (let l = 2 * i + 1; r = 2 * i + 2;
          s = (if l < hsize h \<and> cmp (hdata h ! l) (hdata h ! i) < 0 then l else i)
      in if r < hsize h \<and> cmp (hdata h ! r) (hdata h ! s) < 0 then r else s)"

lemma smallest_cases:
  "smallest cmp h i = i \<or> (smallest cmp h i \<in> {2 * i + 1, 2 * i + 2} \<and> smallest cmp h i < hsize h)"
  by (simp add: smallest_def Let_def)

lemma hsize_swap [simp]: "hsize (swap h i j) = hsize h"
  by (simp add: swap_def)

function sift_down :: "'e cmp \<Rightarrow> 'e xHeap \<Rightarrow> nat \<Rightarrow> 'e xHeap" where
  "sift_down cmp h i =
     (let s = smallest cmp h i in if s = i then h else sift_down cmp (swap h i s) s)"
  by pat_completeness auto
termination
proof (relation "measure (\<lambda>(cmp, h, i). hsize h - i)", simp)
  fix cmp :: "'e cmp" and h :: "'e xHeap" and i s
  assume "s = smallest cmp h i" and "s \<noteq> i"
  with smallest_cases [of cmp h i] show "((cmp, swap h i s, s), cmp, h, i) \<in> measure (\<lambda>(cmp, h, i). hsize h - i)"
    by auto
qed

declare sift_down.simps [simp del]

definition ensure_cap :: "allocs \<Rightarrow> 'e xHeap \<Rightarrow> bool \<times> 'e xHeap \<times> allocs" where
  "ensure_cap m h =
     (if hsize h < hcap h then (True, h, m)
      else let new_cap = (if hcap h \<noteq> 0 then hcap h * 2 else HEAP_DEFAULT_CAP); (ok, m') = draw m
           in if ok then (True, h\<lparr>hcap := new_cap\<rparr>, m') else (False, h, m'))"

text \<open>\<open>ix\<close> is what the elements hold as their index before they are pushed.\<close>

definition xHeapCreate :: "allocs \<Rightarrow> ('e \<Rightarrow> nat) \<Rightarrow> nat \<Rightarrow> 'e xHeap option \<times> allocs" where
  "xHeapCreate m ix c =
     (let (ok1, m1) = draw m
      in if \<not> ok1 then (None, m1)
         else let (ok2, m2) = draw m1
              in (if ok2 then Some \<lparr>hdata = [], hcap = (if c \<noteq> 0 then c else HEAP_DEFAULT_CAP), hidx = ix\<rparr>
                  else None, m2))"

definition xHeapPush :: "'e cmp \<Rightarrow> allocs \<Rightarrow> 'e xHeap \<Rightarrow> 'e \<Rightarrow> xErrno \<times> 'e xHeap \<times> allocs" where
  "xHeapPush cmp m h e =
     (case ensure_cap m h of (ok, h1, m1) \<Rightarrow>
        if \<not> ok then (xErrno_NoMemory, h1, m1)
        else let i = hsize h1; h2 = h1\<lparr>hdata := hdata h1 @ [e], hidx := (hidx h1)(e := i)\<rparr>
             in (xErrno_Ok, sift_up cmp h2 i, m1))"

definition xHeapPeek :: "'e xHeap \<Rightarrow> 'e option" where
  "xHeapPeek h = (if hdata h = [] then None else Some (hdata h ! 0))"

text \<open>Taking the last element of the array out and putting it at position \<open>i\<close>.\<close>

definition fill_from_last :: "'e xHeap \<Rightarrow> nat \<Rightarrow> 'e xHeap" where
  "fill_from_last h i = h\<lparr>hdata := (butlast (hdata h))[i := last (hdata h)],
     hidx := (hidx h)(last (hdata h) := i)\<rparr>"

definition xHeapPop :: "'e cmp \<Rightarrow> 'e xHeap \<Rightarrow> 'e option \<times> 'e xHeap" where
  "xHeapPop cmp h =
     (if hdata h = [] then (None, h)
      else (Some (hdata h ! 0),
            if 1 < hsize h then sift_down cmp (fill_from_last h 0) 0 else h\<lparr>hdata := []\<rparr>))"

definition xHeapRemove :: "'e cmp \<Rightarrow> 'e xHeap \<Rightarrow> nat \<Rightarrow> 'e option \<times> 'e xHeap" where
  "xHeapRemove cmp h i =
     (if hsize h \<le> i then (None, h)
      else (Some (hdata h ! i),
            if i = hsize h - 1 then h\<lparr>hdata := butlast (hdata h)\<rparr>
            else sift_down cmp (sift_up cmp (fill_from_last h i) i) i))"

definition xHeapUpdate :: "'e cmp \<Rightarrow> 'e xHeap \<Rightarrow> nat \<Rightarrow> xErrno \<times> 'e xHeap" where
  "xHeapUpdate cmp h i =
     (if hsize h \<le> i then (xErrno_InvalidArg, h)
      else (xErrno_Ok, sift_down cmp (sift_up cmp h i) i))"

definition xHeapSize :: "'e xHeap \<Rightarrow> nat" where
  "xHeapSize h = hsize h"

section \<open>What does not depend on the order\<close>

text \<open>Every element is where it was told it is, and none is there twice.\<close>

definition placed :: "'e xHeap \<Rightarrow> bool" where
  "placed h \<longleftrightarrow> distinct (hdata h) \<and> (\<forall>i < hsize h. hidx h (hdata h ! i) = i)"

text \<open>\<open>same_elems\<close>: a rearrangement that keeps the elements, and the indices of the others.\<close>

definition same_elems :: "'e xHeap \<Rightarrow> 'e xHeap \<Rightarrow> bool" where
  "same_elems h h' \<longleftrightarrow> mset (hdata h') = mset (hdata h) \<and> hcap h' = hcap h \<and>
     (\<forall>e. e \<notin> set (hdata h) \<longrightarrow> hidx h' e = hidx h e) \<and> (placed h \<longrightarrow> placed h')"

lemma same_elems_refl [simp]: "same_elems h h"
  by (simp add: same_elems_def)

lemma same_elems_trans: "same_elems a b \<Longrightarrow> same_elems b c \<Longrightarrow> same_elems a c"
  unfolding same_elems_def by (metis mset_eq_setD)

lemma same_elems_size: "same_elems h h' \<Longrightarrow> hsize h' = hsize h"
  by (metis same_elems_def size_mset)

lemma same_elems_swap:
  assumes "i < hsize h" and "j < hsize h" and "i \<noteq> j"
  shows "same_elems h (swap h i j)"
proof -
  have "mset (hdata (swap h i j)) = mset (hdata h)"
    using assms mset_swap [of j "hdata h" i] by (simp add: swap_def)
  moreover have "placed (swap h i j)" if p: "placed h"
  proof -
    have d: "distinct (hdata (swap h i j))"
      using \<open>mset (hdata (swap h i j)) = mset (hdata h)\<close> p by (metis mset_eq_imp_distinct_iff placed_def)
    have "hidx (swap h i j) (hdata (swap h i j) ! k) = k" if "k < hsize h" for k
      using that p assms by (auto simp: swap_def placed_def nth_list_update nth_eq_iff_index_eq)
    with d show ?thesis by (simp add: placed_def)
  qed
  moreover have "hidx (swap h i j) e = hidx h e" if "e \<notin> set (hdata h)" for e
    using that assms by (auto simp: swap_def)
  ultimately show ?thesis by (simp add: same_elems_def swap_def)
qed

lemma same_elems_sift_up: "i < hsize h \<Longrightarrow> same_elems h (sift_up cmp h i)"
proof (induction cmp h i rule: sift_up.induct)
  case (1 cmp h i)
  show ?case
  proof (cases "0 < i \<and> \<not> 0 \<le> cmp (hdata h ! i) (hdata h ! ((i - 1) div 2))")
    case False
    then show ?thesis by (subst sift_up.simps) auto
  next
    case True
    have "same_elems h (swap h i ((i - 1) div 2))"
      using True 1(2) by (intro same_elems_swap) auto
    moreover have "same_elems (swap h i ((i - 1) div 2)) (sift_up cmp (swap h i ((i - 1) div 2)) ((i - 1) div 2))"
      using True 1 by auto
    ultimately show ?thesis using True by (subst sift_up.simps) (auto intro: same_elems_trans)
  qed
qed

lemma same_elems_sift_down: "i < hsize h \<Longrightarrow> same_elems h (sift_down cmp h i)"
proof (induction cmp h i rule: sift_down.induct)
  case (1 cmp h i)
  define s where "s = smallest cmp h i"
  show ?case
  proof (cases "s = i")
    case True
    then show ?thesis by (subst sift_down.simps) (simp add: s_def Let_def)
  next
    case False
    then have s: "s < hsize h" using smallest_cases [of cmp h i] by (auto simp: s_def)
    have "same_elems h (swap h i s)" using 1(2) s False by (intro same_elems_swap) auto
    moreover have "same_elems (swap h i s) (sift_down cmp (swap h i s) s)"
      using 1(1) [OF s_def False] s by simp
    ultimately show ?thesis
      using False by (subst sift_down.simps) (auto simp: s_def [symmetric] Let_def intro: same_elems_trans)
  qed
qed

text \<open>Moving the last element to position \<open>i\<close> takes the element there out.\<close>

lemma fill_from_last:
  assumes "Suc i < hsize h"
  shows "mset (hdata (fill_from_last h i)) = mset (hdata h) - {#hdata h ! i#}"
    and "placed h \<Longrightarrow> placed (fill_from_last h i)"
    and "hcap (fill_from_last h i) = hcap h" and "hsize (fill_from_last h i) = hsize h - 1"
    and "\<forall>e. e \<notin> set (hdata h) \<longrightarrow> hidx (fill_from_last h i) e = hidx h e"
    and "placed h \<Longrightarrow> hidx (fill_from_last h i) (hdata h ! i) = i"
proof -
  obtain ys y where xs: "hdata h = ys @ [y]" using assms by (cases "hdata h" rule: rev_cases) auto
  have i: "i < length ys" using assms by (simp add: xs)
  show ms: "mset (hdata (fill_from_last h i)) = mset (hdata h) - {#hdata h ! i#}"
    using i mset_update [OF i, of y] by (simp add: fill_from_last_def xs nth_append)
  show "hcap (fill_from_last h i) = hcap h" "hsize (fill_from_last h i) = hsize h - 1"
    "\<forall>e. e \<notin> set (hdata h) \<longrightarrow> hidx (fill_from_last h i) e = hidx h e"
    by (simp_all add: fill_from_last_def xs)
  assume p: "placed h"
  then have d: "distinct ys" "y \<notin> set ys" by (simp_all add: placed_def xs)
  have at: "hidx h (ys ! k) = k" if "k < length ys" for k
    using p that unfolding placed_def xs by (metis length_append_singleton less_SucI nth_append)
  have "hidx (fill_from_last h i) (hdata (fill_from_last h i) ! k) = k" if "k < length ys" for k
  proof (cases "k = i")
    case True
    with i show ?thesis by (simp add: fill_from_last_def xs)
  next
    case False
    with that d(2) have "ys ! k \<noteq> y" by (auto dest: nth_mem)
    with False at [OF that] show ?thesis by (simp add: fill_from_last_def xs)
  qed
  moreover have "distinct (hdata (fill_from_last h i))"
    using d by (simp add: fill_from_last_def xs distinct_list_update)
  ultimately show "placed (fill_from_last h i)"
    by (simp add: placed_def fill_from_last_def xs)
  show "hidx (fill_from_last h i) (hdata h ! i) = i"
    using at [OF i] d(2) i by (auto simp: fill_from_last_def xs nth_append)
qed

lemma pop_shrinks: "xHeapPop cmp h = (Some x, h') \<Longrightarrow> hsize h' < hsize h"
proof -
  assume p: "xHeapPop cmp h = (Some x, h')"
  show "hsize h' < hsize h"
  proof (cases "1 < hsize h")
    case True
    then have "h' = sift_down cmp (fill_from_last h 0) 0" using p by (auto simp: xHeapPop_def split: if_splits)
    moreover have "hsize (fill_from_last h 0) = hsize h - 1" by (simp add: fill_from_last_def)
    ultimately show ?thesis
      using True same_elems_size [OF same_elems_sift_down [of 0 "fill_from_last h 0"]] by simp
  next
    case False
    with p show ?thesis by (auto simp: xHeapPop_def split: if_splits)
  qed
qed

section \<open>The order\<close>

definition parent :: "nat \<Rightarrow> nat" where
  "parent j = (j - 1) div 2"

lemma parent_less: "0 < j \<Longrightarrow> parent j < j"
  by (auto simp: parent_def)

lemma parent_children: "0 < j \<Longrightarrow> parent j = i \<longleftrightarrow> j = 2 * i + 1 \<or> j = 2 * i + 2"
  by (auto simp: parent_def)

text \<open>The heap property, and its two versions with one position \<open>i\<close> left out: on the way up and down.\<close>

definition ordered :: "'e cmp \<Rightarrow> 'e list \<Rightarrow> bool" where
  "ordered cmp xs \<longleftrightarrow> (\<forall>j. 0 < j \<longrightarrow> j < length xs \<longrightarrow> cmp (xs ! parent j) (xs ! j) \<le> 0)"

definition skips :: "'e cmp \<Rightarrow> 'e list \<Rightarrow> nat \<Rightarrow> bool" where
  "skips cmp xs i \<longleftrightarrow>
     (\<forall>j. 0 < j \<longrightarrow> j < length xs \<longrightarrow> parent j = i \<longrightarrow> 0 < i \<longrightarrow> cmp (xs ! parent i) (xs ! j) \<le> 0)"

definition ordered_up :: "'e cmp \<Rightarrow> 'e list \<Rightarrow> nat \<Rightarrow> bool" where
  "ordered_up cmp xs i \<longleftrightarrow> skips cmp xs i \<and>
     (\<forall>j. 0 < j \<longrightarrow> j < length xs \<longrightarrow> j \<noteq> i \<longrightarrow> cmp (xs ! parent j) (xs ! j) \<le> 0)"

definition ordered_down :: "'e cmp \<Rightarrow> 'e list \<Rightarrow> nat \<Rightarrow> bool" where
  "ordered_down cmp xs i \<longleftrightarrow> skips cmp xs i \<and>
     (\<forall>j. 0 < j \<longrightarrow> j < length xs \<longrightarrow> parent j \<noteq> i \<longrightarrow> cmp (xs ! parent j) (xs ! j) \<le> 0)"

text \<open>Only the pairs at \<open>i\<close> are unknown.\<close>

definition ordered_but :: "'e cmp \<Rightarrow> 'e list \<Rightarrow> nat \<Rightarrow> bool" where
  "ordered_but cmp xs i \<longleftrightarrow> skips cmp xs i \<and>
     (\<forall>j. 0 < j \<longrightarrow> j < length xs \<longrightarrow> j \<noteq> i \<longrightarrow> parent j \<noteq> i \<longrightarrow> cmp (xs ! parent j) (xs ! j) \<le> 0)"

text \<open>Only the comparisons between the elements matter.\<close>

lemma ordered_cong:
  assumes "ordered cmp xs" and "\<And>a b. a \<in> set xs \<Longrightarrow> b \<in> set xs \<Longrightarrow> cmp' a b = cmp a b"
  shows "ordered cmp' xs"
  unfolding ordered_def
proof (intro allI impI)
  fix j assume j: "0 < j" "j < length xs"
  have "parent j < length xs" using parent_less [OF j(1)] j(2) by simp
  then show "cmp' (xs ! parent j) (xs ! j) \<le> 0"
    using assms(1) assms(2) [of "xs ! parent j" "xs ! j"] j by (simp add: ordered_def)
qed

locale heap_order =
  fixes cmp :: "'e cmp"
  assumes sign: "cmp a b < 0 \<longleftrightarrow> 0 < cmp b a"
    and trans: "cmp a b \<le> 0 \<Longrightarrow> cmp b c \<le> 0 \<Longrightarrow> cmp a c \<le> 0"
begin

lemma le_refl: "cmp a a \<le> 0"
  using sign [of a a] by linarith

lemma not_less: "\<not> cmp a b < 0 \<Longrightarrow> cmp b a \<le> 0"
  using sign [of a b] by linarith

lemma less_le: "cmp a b < 0 \<Longrightarrow> cmp a b \<le> 0"
  by simp

lemma ge_le: "0 \<le> cmp a b \<Longrightarrow> cmp b a \<le> 0"
  using sign [of a b] by linarith

lemma up_step:
  assumes "ordered_up cmp (hdata h) i" and "0 < i" and "i < hsize h"
    and "cmp (hdata h ! i) (hdata h ! parent i) < 0"
  shows "ordered_up cmp (hdata (swap h i (parent i))) (parent i)"
proof -
  define xs where "xs = hdata h"
  define p where "p = parent i"
  have p: "p < i" "p < length xs" "i < length xs"
    using assms(2,3) parent_less by (auto simp: p_def xs_def intro: less_trans)
  have sw: "hdata (swap h i p) = xs[i := xs ! p, p := xs ! i]"
    by (simp add: swap_def xs_def p_def)
  have near: "cmp (xs ! parent j) (xs ! j) \<le> 0" if "0 < j" "j < length xs" "j \<noteq> i" for j
    using assms(1) that by (simp add: ordered_up_def xs_def)
  have far: "cmp (xs ! p) (xs ! j) \<le> 0" if "0 < j" "j < length xs" "parent j = i" for j
    using assms(1,2) that by (simp add: ordered_up_def skips_def xs_def p_def)
  have less: "cmp (xs ! i) (xs ! p) \<le> 0" using assms(4) by (simp add: xs_def p_def)
  show ?thesis
    unfolding p_def [symmetric] sw ordered_up_def skips_def
  proof (intro conjI allI impI)
    fix j assume j: "0 < j" "j < length (xs[i := xs ! p, p := xs ! i])" "parent j = p" "0 < p"
    have pp: "parent p < p" using j(4) by (rule parent_less)
    have "cmp (xs ! parent p) (xs ! p) \<le> 0" using near [of p] j(4) p by simp
    moreover have "cmp (xs ! p) (xs ! j) \<le> 0" if "j \<noteq> i" using near [of j] that j by simp
    moreover have "j \<noteq> p" using parent_less [OF j(1)] j(3) by simp
    ultimately show "cmp (xs[i := xs ! p, p := xs ! i] ! parent p) (xs[i := xs ! p, p := xs ! i] ! j) \<le> 0"
      using j pp p by (cases "j = i") (auto intro: trans)
  next
    fix j assume j: "0 < j" "j < length (xs[i := xs ! p, p := xs ! i])" "j \<noteq> p"
    have pj: "parent j < j" using j(1) by (rule parent_less)
    show "cmp (xs[i := xs ! p, p := xs ! i] ! parent j) (xs[i := xs ! p, p := xs ! i] ! j) \<le> 0"
    proof (cases "j = i")
      case True
      then show ?thesis using less p by (simp add: p_def)
    next
      case False
      consider "parent j = i" | "parent j = p" | "parent j \<noteq> i" "parent j \<noteq> p" by blast
      then show ?thesis
      proof cases
        case 1
        with far [of j] j False p show ?thesis by simp
      next
        case 2
        with near [of j] less j False p show ?thesis by (auto intro: trans)
      next
        case 3
        with near [of j] j False p show ?thesis by simp
      qed
    qed
  qed
qed

lemma sift_up_orders:
  "ordered_up cmp (hdata h) i \<Longrightarrow> i < hsize h \<Longrightarrow> ordered cmp (hdata (sift_up cmp h i))"
proof (induction i arbitrary: h rule: less_induct)
  case (less i)
  show ?case
  proof (cases "0 < i \<and> cmp (hdata h ! i) (hdata h ! parent i) < 0")
    case True
    then have "ordered cmp (hdata (sift_up cmp (swap h i (parent i)) (parent i)))"
      using less up_step [of h i] parent_less [of i] by simp
    with True show ?thesis by (subst sift_up.simps) (simp add: parent_def)
  next
    case False
    then have "sift_up cmp h i = h" by (subst sift_up.simps) (auto simp: parent_def)
    moreover have "cmp (hdata h ! parent i) (hdata h ! i) \<le> 0" if "0 < i"
      using False that by (intro not_less) simp
    ultimately show ?thesis using less(2) by (auto simp: ordered_up_def ordered_def)
  qed
qed

lemma smallest_le:
  assumes "parent j = i" and "0 < j" and "j < hsize h"
  shows "cmp (hdata h ! smallest cmp h i) (hdata h ! j) \<le> 0"
    and "cmp (hdata h ! smallest cmp h i) (hdata h ! i) \<le> 0"
proof -
  define l where "l = 2 * i + 1"
  define s where "s = (if l < hsize h \<and> cmp (hdata h ! l) (hdata h ! i) < 0 then l else i)"
  have s: "cmp (hdata h ! s) (hdata h ! i) \<le> 0" "l < hsize h \<Longrightarrow> cmp (hdata h ! s) (hdata h ! l) \<le> 0"
    using le_refl not_less [of "hdata h ! l" "hdata h ! i"] by (auto simp: s_def)
  have eq: "smallest cmp h i = (if 2 * i + 2 < hsize h \<and> cmp (hdata h ! (2 * i + 2)) (hdata h ! s) < 0
      then 2 * i + 2 else s)"
    by (simp only: smallest_def Let_def s_def l_def)
  have below: "cmp (hdata h ! smallest cmp h i) (hdata h ! s) \<le> 0"
    using le_refl by (simp add: eq)
  show "cmp (hdata h ! smallest cmp h i) (hdata h ! i) \<le> 0" by (rule trans [OF below s(1)])
  from assms(1,2) have "j = l \<or> j = 2 * i + 2" by (simp add: parent_children l_def)
  then show "cmp (hdata h ! smallest cmp h i) (hdata h ! j) \<le> 0"
  proof
    assume "j = l"
    with s(2) assms(3) have "cmp (hdata h ! s) (hdata h ! j) \<le> 0" by simp
    with below show ?thesis by (rule trans)
  next
    assume "j = 2 * i + 2"
    then show ?thesis using assms(3) not_less [of "hdata h ! j" "hdata h ! s"] le_refl by (auto simp: eq)
  qed
qed

lemma down_step:
  assumes "ordered_down cmp (hdata h) i" and "i < hsize h" and "smallest cmp h i = s" and "s \<noteq> i"
  shows "ordered_down cmp (hdata (swap h i s)) s"
proof -
  define xs where "xs = hdata h"
  have s: "s < length xs" "parent s = i" "0 < s" "i < length xs" "i < s"
    using smallest_cases [of cmp h i] assms(2-4) by (auto simp: xs_def parent_def)
  have sw: "hdata (swap h i s) = xs[i := xs ! s, s := xs ! i]" by (simp add: swap_def xs_def)
  have near: "cmp (xs ! parent j) (xs ! j) \<le> 0" if "0 < j" "j < length xs" "parent j \<noteq> i" for j
    using assms(1) that by (simp add: ordered_down_def xs_def)
  have far: "cmp (xs ! parent i) (xs ! j) \<le> 0" if "0 < j" "j < length xs" "parent j = i" "0 < i" for j
    using assms(1) that by (simp add: ordered_down_def skips_def xs_def)
  have min: "cmp (xs ! s) (xs ! j) \<le> 0" if "parent j = i" "0 < j" "j < length xs" for j
    using smallest_le(1) [of j i h] that assms(3) by (simp add: xs_def)
  have less: "cmp (xs ! s) (xs ! i) \<le> 0"
    using smallest_le(2) [of s i h] s assms(3) by (simp add: xs_def)
  show ?thesis
    unfolding ordered_down_def skips_def sw
  proof (intro conjI allI impI)
    fix j assume j: "0 < j" "j < length (xs[i := xs ! s, s := xs ! i])" "parent j = s" "0 < s"
    have "cmp (xs ! s) (xs ! j) \<le> 0" using near [of j] j s by simp
    moreover have "j \<noteq> s" "j \<noteq> i" using parent_less [OF j(1)] j(3) s by auto
    ultimately show "cmp (xs[i := xs ! s, s := xs ! i] ! parent s) (xs[i := xs ! s, s := xs ! i] ! j) \<le> 0"
      using s j by simp
  next
    fix j assume j: "0 < j" "j < length (xs[i := xs ! s, s := xs ! i])" "parent j \<noteq> s"
    have pj: "parent j < j" using j(1) by (rule parent_less)
    consider "j = s" | "j = i" | "parent j = i" "j \<noteq> s" | "parent j \<noteq> i" "j \<noteq> s" "j \<noteq> i" by blast
    then show "cmp (xs[i := xs ! s, s := xs ! i] ! parent j) (xs[i := xs ! s, s := xs ! i] ! j) \<le> 0"
    proof cases
      case 1
      with less s show ?thesis by simp
    next
      case 2
      with far [of s] s j pj show ?thesis by simp
    next
      case 3
      with min [of j] j s pj show ?thesis by simp
    next
      case 4
      with near [of j] j s show ?thesis by simp
    qed
  qed
qed

lemma sift_down_orders:
  "ordered_down cmp (hdata h) i \<Longrightarrow> i < hsize h \<Longrightarrow> ordered cmp (hdata (sift_down cmp h i))"
proof (induction "hsize h - i" arbitrary: h i rule: less_induct)
  case less
  define s where "s = smallest cmp h i"
  show ?case
  proof (cases "s = i")
    case True
    then have "sift_down cmp h i = h" by (subst sift_down.simps) (simp add: s_def Let_def)
    moreover have "cmp (hdata h ! parent j) (hdata h ! j) \<le> 0" if "0 < j" "j < hsize h" "parent j = i" for j
      using smallest_le(1) [OF that(3,1,2)] True that by (simp add: s_def)
    ultimately show ?thesis using less(2) by (auto simp: ordered_down_def ordered_def)
  next
    case False
    have s: "s < hsize h" "i < s" using smallest_cases [of cmp h i] False by (auto simp: s_def)
    have "ordered cmp (hdata (sift_down cmp (swap h i s) s))"
      using less(1) [of "swap h i s" s] s down_step [OF less(2,3) s_def [symmetric] False] by simp
    then show ?thesis using False by (subst sift_down.simps) (simp add: s_def [symmetric] Let_def)
  qed
qed

lemma ordered_sift_down_id: "ordered cmp (hdata h) \<Longrightarrow> sift_down cmp h i = h"
proof -
  assume o: "ordered cmp (hdata h)"
  have "\<not> cmp (hdata h ! j) (hdata h ! i) < 0" if "0 < j" "parent j = i" "j < hsize h" for j
    using o that sign [of "hdata h ! j" "hdata h ! i"] unfolding ordered_def by (metis linorder_not_less)
  from this [of "2 * i + 1"] this [of "2 * i + 2"] have "smallest cmp h i = i"
    by (simp add: smallest_def Let_def parent_def)
  then show ?thesis by (subst sift_down.simps) (simp add: Let_def)
qed

text \<open>Restoring the order around one position, as removal and update do.\<close>

lemma fix_at:
  assumes "ordered_but cmp (hdata h) i" and "i < hsize h"
  shows "ordered cmp (hdata (sift_down cmp (sift_up cmp h i) i))"
proof (cases "0 < i \<and> cmp (hdata h ! i) (hdata h ! parent i) < 0")
  case True
  have "cmp (hdata h ! parent j) (hdata h ! j) \<le> 0" if "0 < j" "j < hsize h" "j \<noteq> i" for j
  proof (cases "parent j = i")
    case False
    with that assms(1) show ?thesis by (simp add: ordered_but_def)
  next
    case up: True
    have "cmp (hdata h ! parent i) (hdata h ! j) \<le> 0"
      using assms(1) up that True by (simp add: ordered_but_def skips_def)
    moreover have "cmp (hdata h ! i) (hdata h ! parent i) \<le> 0" using True by simp
    ultimately have "cmp (hdata h ! i) (hdata h ! j) \<le> 0"
      using trans [of "hdata h ! i" "hdata h ! parent i" "hdata h ! j"] by simp
    with up show ?thesis by simp
  qed
  then have "ordered_up cmp (hdata h) i" using assms(1) by (simp add: ordered_up_def ordered_but_def)
  from sift_up_orders [OF this assms(2)] show ?thesis by (simp add: ordered_sift_down_id)
next
  case False
  then have up: "sift_up cmp h i = h" by (subst sift_up.simps) (auto simp: parent_def)
  have "cmp (hdata h ! parent j) (hdata h ! j) \<le> 0" if "0 < j" "j < hsize h" "parent j \<noteq> i" for j
    using that assms(1) False not_less [of "hdata h ! i" "hdata h ! parent i"]
    by (cases "j = i") (auto simp: ordered_but_def)
  then have "ordered_down cmp (hdata h) i" using assms(1) by (simp add: ordered_down_def ordered_but_def)
  from sift_down_orders [OF this assms(2)] show ?thesis by (simp add: up)
qed

text \<open>The root is a minimum.\<close>

lemma root_minimal: "ordered cmp xs \<Longrightarrow> i < length xs \<Longrightarrow> cmp (xs ! 0) (xs ! i) \<le> 0"
proof (induction i rule: less_induct)
  case (less i)
  show ?case
  proof (cases "i = 0")
    case True
    then show ?thesis by (simp add: le_refl)
  next
    case False
    then have "parent i < i" by (intro parent_less) simp
    with less have "cmp (xs ! 0) (xs ! parent i) \<le> 0" by simp
    moreover have "cmp (xs ! parent i) (xs ! i) \<le> 0" using less(2,3) False by (simp add: ordered_def)
    ultimately show ?thesis by (rule trans)
  qed
qed

definition heap_ok :: "'e xHeap \<Rightarrow> bool" where
  "heap_ok h \<longleftrightarrow> placed h \<and> ordered cmp (hdata h)"

lemma same_elems_ok: "same_elems h h' \<Longrightarrow> placed h \<Longrightarrow> ordered cmp (hdata h') \<Longrightarrow> heap_ok h'"
  by (simp add: same_elems_def heap_ok_def)

lemma push_ok:
  assumes "heap_ok h" and "e \<notin> set (hdata h)" and "xHeapPush cmp m h e = (rc, h', m')"
  shows "heap_ok h'" and "rc = xErrno_Ok \<Longrightarrow> mset (hdata h') = add_mset e (mset (hdata h))"
    and "rc \<noteq> xErrno_Ok \<Longrightarrow> rc = xErrno_NoMemory \<and> h' = h"
    and "x \<notin> set (hdata h) \<Longrightarrow> x \<noteq> e \<Longrightarrow> hidx h' x = hidx h x"
proof -
  obtain ok h1 m1 where c: "ensure_cap m h = (ok, h1, m1)" by (metis prod_cases3)
  then have h1: "hdata h1 = hdata h" "hidx h1 = hidx h" "\<not> ok \<longrightarrow> h1 = h"
    by (auto simp: ensure_cap_def Let_def split: prod.splits if_splits)
  define h2 where "h2 = h1\<lparr>hdata := hdata h1 @ [e], hidx := (hidx h1)(e := hsize h1)\<rparr>"
  have p2: "placed h2"
    using assms(1,2) unfolding h2_def placed_def heap_ok_def
    by (auto simp: h1(1,2) nth_append less_Suc_eq dest: nth_mem)
  have "cmp (hdata h2 ! parent j) (hdata h2 ! j) \<le> 0" if "0 < j" "j < hsize h" for j
    using assms(1) that parent_less [OF that(1)]
    by (simp add: h2_def h1(1) heap_ok_def ordered_def nth_append)
  moreover have "parent j \<noteq> hsize h" if "0 < j" "j < hsize h2" for j
    using parent_less [OF that(1)] that(2) by (simp add: h2_def h1(1))
  ultimately have "ordered_up cmp (hdata h2) (hsize h)"
    by (simp add: ordered_up_def skips_def h2_def h1(1) less_Suc_eq)
  then have o: "ordered cmp (hdata (sift_up cmp h2 (hsize h)))"
    by (rule sift_up_orders) (simp add: h2_def h1(1))
  have s: "same_elems h2 (sift_up cmp h2 (hsize h))"
    by (rule same_elems_sift_up) (simp add: h2_def h1(1))
  have r: "(rc, h') = (if \<not> ok then (xErrno_NoMemory, h1) else (xErrno_Ok, sift_up cmp h2 (hsize h)))"
    using assms(3) c h1(1) by (auto simp: xHeapPush_def Let_def h2_def)
  show "heap_ok h'" using r assms(1) h1(3) same_elems_ok [OF s p2 o] by (cases ok) simp_all
  show "rc = xErrno_Ok \<Longrightarrow> mset (hdata h') = add_mset e (mset (hdata h))"
    using r s by (cases ok) (simp_all add: same_elems_def h2_def h1(1))
  show "rc \<noteq> xErrno_Ok \<Longrightarrow> rc = xErrno_NoMemory \<and> h' = h" using r h1(3) by (cases ok) simp_all
  show "x \<notin> set (hdata h) \<Longrightarrow> x \<noteq> e \<Longrightarrow> hidx h' x = hidx h x"
    using r s h1(3) by (cases ok) (simp_all add: same_elems_def h2_def h1(1,2))
qed

lemma remove_ok:
  assumes "heap_ok h" and "i < hsize h" and "xHeapRemove cmp h i = (r, h')"
  shows "heap_ok h'" and "r = Some (hdata h ! i)"
    and "mset (hdata h') = mset (hdata h) - {#hdata h ! i#}"
    and "x \<notin> set (hdata h') \<Longrightarrow> hidx h' x = hidx h x" and "hcap h' = hcap h"
proof -
  show r: "r = Some (hdata h ! i)" using assms(2,3) by (simp add: xHeapRemove_def split: if_splits)
  have p: "placed h" and o: "ordered cmp (hdata h)" using assms(1) by (simp_all add: heap_ok_def)
  have "heap_ok h' \<and> mset (hdata h') = mset (hdata h) - {#hdata h ! i#} \<and> hcap h' = hcap h \<and>
    (x \<notin> set (hdata h') \<longrightarrow> hidx h' x = hidx h x)"
  proof (cases "i = hsize h - 1")
    case True
    then have h': "h' = h\<lparr>hdata := butlast (hdata h)\<rparr>" using assms(2,3) by (simp add: xHeapRemove_def)
    obtain ys y where xs: "hdata h = ys @ [y]" using assms(2) by (cases "hdata h" rule: rev_cases) auto
    have "hidx h (ys ! k) = k" if "k < length ys" for k
      using p that unfolding placed_def xs by (metis length_append_singleton less_SucI nth_append)
    then have "placed h'" using p by (simp add: h' xs placed_def)
    moreover have "ordered cmp ys"
      unfolding ordered_def
    proof (intro allI impI)
      fix j assume j: "0 < j" "j < length ys"
      from parent_less [OF j(1)] j have "parent j < length ys" by simp
      with o j show "cmp (ys ! parent j) (ys ! j) \<le> 0"
        unfolding ordered_def xs by (metis length_append_singleton less_SucI nth_append)
    qed
    ultimately show ?thesis using True by (simp add: heap_ok_def h' xs)
  next
    case False
    then have si: "Suc i < hsize h" using assms(2) by linarith
    define h1 where "h1 = fill_from_last h i"
    note f = fill_from_last [OF si, folded h1_def]
    have h': "h' = sift_down cmp (sift_up cmp h1 i) i"
      using False assms(2,3) by (simp add: xHeapRemove_def h1_def)
    have i1: "i < hsize h1" using f(4) si by simp
    have keep: "hdata h1 ! k = hdata h ! k" if "k < hsize h1" "k \<noteq> i" for k
      using that by (simp add: h1_def fill_from_last_def nth_butlast)
    have le: "cmp (hdata h ! parent k) (hdata h ! k) \<le> 0" if "0 < k" "k < hsize h1" for k
      using o that f(4) by (simp add: ordered_def)
    have skip: "skips cmp (hdata h1) i"
      unfolding skips_def
    proof (intro allI impI)
      fix j assume j: "0 < j" "j < hsize h1" "parent j = i" "0 < i"
      have "j \<noteq> i" "parent i < hsize h1" "parent i \<noteq> i"
        using parent_less [OF j(1)] parent_less [OF j(4)] j i1 by auto
      with keep [of j] keep [of "parent i"] le [of j] le [of i] j i1
      show "cmp (hdata h1 ! parent i) (hdata h1 ! j) \<le> 0"
        using trans [of "hdata h ! parent i" "hdata h ! i" "hdata h ! j"] by simp
    qed
    have "ordered_but cmp (hdata h1) i"
      unfolding ordered_but_def
    proof (intro conjI allI impI skip)
      fix j assume j: "0 < j" "j < hsize h1" "j \<noteq> i" "parent j \<noteq> i"
      have "parent j < hsize h1" using parent_less [OF j(1)] j(2) by simp
      with keep [of j] keep [of "parent j"] le [of j] j
      show "cmp (hdata h1 ! parent j) (hdata h1 ! j) \<le> 0" by simp
    qed
    from fix_at [OF this i1] have ord: "ordered cmp (hdata h')" by (simp add: h')
    have up: "same_elems h1 (sift_up cmp h1 i)" by (rule same_elems_sift_up [OF i1])
    have "i < hsize (sift_up cmp h1 i)" using i1 same_elems_size [OF up] by simp
    from same_elems_trans [OF up same_elems_sift_down [OF this]] have s: "same_elems h1 h'" by (simp add: h')
    have ms: "mset (hdata h') = mset (hdata h) - {#hdata h ! i#}" using s f(1) by (simp add: same_elems_def)
    have "hidx h' x = hidx h x" if x: "x \<notin> set (hdata h')"
    proof -
      have "x \<notin> set (hdata h1)" using s x by (metis same_elems_def mset_eq_setD)
      with s have "hidx h' x = hidx h1 x" by (simp add: same_elems_def)
      moreover have "hidx h1 x = hidx h x"
      proof (cases "x \<in> set (hdata h)")
        case False
        with f(5) show ?thesis by simp
      next
        case True
        have "x = hdata h ! i"
        proof (rule ccontr)
          assume "x \<noteq> hdata h ! i"
          then have "x \<in># mset (hdata h) - {#hdata h ! i#}"
            using True by (metis in_diff_count count_single count_greater_zero_iff set_mset_mset)
          with f(1) \<open>x \<notin> set (hdata h1)\<close> show False by (metis set_mset_mset)
        qed
        with f(6) [OF p] p assms(2) show ?thesis by (simp add: placed_def)
      qed
      ultimately show ?thesis by simp
    qed
    then show ?thesis using same_elems_ok [OF s f(2) [OF p] ord] ms s f(3) by (simp add: same_elems_def)
  qed
  then show "heap_ok h'" "mset (hdata h') = mset (hdata h) - {#hdata h ! i#}"
    "x \<notin> set (hdata h') \<Longrightarrow> hidx h' x = hidx h x" "hcap h' = hcap h" by blast+
qed

text \<open>Popping is removing at position 0.\<close>

lemma pop_remove: "ordered cmp (hdata h) \<Longrightarrow> xHeapPop cmp h = xHeapRemove cmp h 0"
proof -
  have "sift_up cmp k 0 = k" for k by (subst sift_up.simps) simp
  moreover have "butlast xs = []" if "length xs \<le> 1" for xs :: "'e list"
    using that by (cases xs) auto
  ultimately show ?thesis by (auto simp: xHeapPop_def xHeapRemove_def)
qed

lemma pop_ok:
  assumes "heap_ok h" and "hdata h \<noteq> []" and "xHeapPop cmp h = (r, h')"
  shows "heap_ok h'" and "r = Some (hdata h ! 0)" and "\<forall>y \<in> set (hdata h). cmp (hdata h ! 0) y \<le> 0"
    and "mset (hdata h') = mset (hdata h) - {#hdata h ! 0#}"
    and "x \<notin> set (hdata h') \<Longrightarrow> hidx h' x = hidx h x"
proof -
  have o: "ordered cmp (hdata h)" using assms(1) by (simp add: heap_ok_def)
  have "xHeapRemove cmp h 0 = (r, h')" and n: "0 < hsize h"
    using assms(2,3) pop_remove [OF o] by simp_all
  note r = remove_ok [OF assms(1) n this(1)]
  show "heap_ok h'" "r = Some (hdata h ! 0)" "mset (hdata h') = mset (hdata h) - {#hdata h ! 0#}"
    "x \<notin> set (hdata h') \<Longrightarrow> hidx h' x = hidx h x"
    using r by simp_all
  show "\<forall>y \<in> set (hdata h). cmp (hdata h ! 0) y \<le> 0"
    using root_minimal [OF o] by (auto simp: in_set_conv_nth)
qed

lemma update_ok:
  assumes "placed h" and "ordered_but cmp (hdata h) i" and "i < hsize h" and "xHeapUpdate cmp h i = (rc, h')"
  shows "heap_ok h' \<and> mset (hdata h') = mset (hdata h) \<and> rc = xErrno_Ok"
proof -
  have h': "h' = sift_down cmp (sift_up cmp h i) i" "rc = xErrno_Ok"
    using assms(3,4) by (simp_all add: xHeapUpdate_def)
  have up: "same_elems h (sift_up cmp h i)" by (rule same_elems_sift_up [OF assms(3)])
  have "i < hsize (sift_up cmp h i)" using assms(3) same_elems_size [OF up] by simp
  from same_elems_trans [OF up same_elems_sift_down [OF this]] have s: "same_elems h h'" by (simp add: h')
  from same_elems_ok [OF s assms(1)] fix_at [OF assms(2,3)] s h' show ?thesis by (simp add: same_elems_def)
qed

end

section \<open>The heap sorts\<close>

fun push_all :: "'e cmp \<Rightarrow> allocs \<Rightarrow> 'e xHeap \<Rightarrow> 'e list \<Rightarrow> 'e xHeap" where
  "push_all cmp m h [] = h"
| "push_all cmp m h (e # es) = (case xHeapPush cmp m h e of (rc, h', m') \<Rightarrow> push_all cmp m' h' es)"

function pop_all :: "'e cmp \<Rightarrow> 'e xHeap \<Rightarrow> 'e list" where
  "pop_all cmp h = (case xHeapPop cmp h of (None, h') \<Rightarrow> [] | (Some e, h') \<Rightarrow> e # pop_all cmp h')"
  by pat_completeness auto
termination
  by (relation "measure (\<lambda>(cmp, h). hsize h)") (auto dest: pop_shrinks [OF sym])

declare pop_all.simps [simp del]

context heap_order
begin

lemma push_all_ok:
  "heap_ok h \<Longrightarrow> distinct (es @ hdata h) \<Longrightarrow>
   heap_ok (push_all cmp [] h es) \<and> mset (hdata (push_all cmp [] h es)) = mset (hdata h) + mset es"
proof (induction es arbitrary: h)
  case Nil
  then show ?case by simp
next
  case (Cons e es)
  obtain rc h' m' where p: "xHeapPush cmp [] h e = (rc, h', m')" by (metis prod_cases3)
  then have rc: "rc = xErrno_Ok" "m' = []"
    by (auto simp: xHeapPush_def ensure_cap_def Let_def split: if_splits)
  have "e \<notin> set (hdata h)" using Cons.prems by simp
  note push = push_ok [OF Cons.prems(1) this p]
  have "set (hdata h') = insert e (set (hdata h))"
    using push(2) [OF rc(1)] by (metis set_mset_add_mset_insert set_mset_mset)
  moreover have "distinct (hdata h')" using push(1) by (simp add: heap_ok_def placed_def)
  ultimately have "distinct (es @ hdata h')" using Cons.prems(2) by auto
  with Cons.IH [OF push(1)] push(2) [OF rc(1)] show ?case by (simp add: p rc)
qed

lemma pop_all_sorted:
  "heap_ok h \<Longrightarrow> mset (pop_all cmp h) = mset (hdata h) \<and> sorted_wrt (\<lambda>a b. cmp a b \<le> 0) (pop_all cmp h)"
proof (induction "hsize h" arbitrary: h rule: less_induct)
  case less
  show ?case
  proof (cases "hdata h = []")
    case True
    then show ?thesis by (subst (1 2) pop_all.simps) (simp add: xHeapPop_def)
  next
    case False
    obtain r h' where p: "xHeapPop cmp h = (r, h')" by fastforce
    note pop = pop_ok [OF less(2) False p]
    have "hsize h' < hsize h" using p pop(2) pop_shrinks by metis
    note ih = less(1) [OF this pop(1)]
    have "set (pop_all cmp h') \<subseteq> set (hdata h)"
      using ih pop(4) by (metis set_mset_mset set_mset_mono diff_subset_eq_self)
    moreover have "hdata h ! 0 \<in># mset (hdata h)" using False by simp
    moreover have "pop_all cmp h = hdata h ! 0 # pop_all cmp h'"
      by (subst pop_all.simps) (simp add: p pop(2))
    ultimately show ?thesis using ih pop(3,4) by (auto simp: subset_iff)
  qed
qed

end

text \<open>
  C30. Elements pushed in any order come out again all, each once, in the order of the comparison,
  for every comparison that is a total preorder.
\<close>

theorem heap_sorts:
  assumes "heap_order cmp" and "distinct es" and "xHeapCreate m ix c = (Some h, m')"
  shows "mset (pop_all cmp (push_all cmp [] h es)) = mset es \<and>
    sorted_wrt (\<lambda>a b. cmp a b \<le> 0) (pop_all cmp (push_all cmp [] h es))"
proof -
  have h: "hdata h = []" using assms(3) by (auto simp: xHeapCreate_def Let_def split: prod.splits if_splits)
  then have "heap_order.heap_ok cmp h"
    by (simp add: heap_order.heap_ok_def [OF assms(1)] placed_def ordered_def)
  note p = heap_order.push_all_ok [OF assms(1) this, of es]
  with heap_order.pop_all_sorted [OF assms(1), of "push_all cmp [] h es"] assms(2) h show ?thesis by simp
qed

definition ex_cmp :: "nat cmp" where
  "ex_cmp a b = int a - int b"

theorem heap_sorts_witness:
  "mset (pop_all ex_cmp (push_all ex_cmp [] \<lparr>hdata = [], hcap = 2, hidx = (\<lambda>_. 0)\<rparr> [3, 1, 2])) = mset [3, 1, 2] \<and>
   pop_all ex_cmp (push_all ex_cmp [] \<lparr>hdata = [], hcap = 2, hidx = (\<lambda>_. 0)\<rparr> [3, 1, 2]) = [1, 2, 3]"
proof
  have o: "heap_order ex_cmp" by unfold_locales (simp_all add: ex_cmp_def)
  have c: "xHeapCreate [] (\<lambda>_. 0) 2 = (Some \<lparr>hdata = [], hcap = 2, hidx = (\<lambda>_. 0)\<rparr> :: nat xHeap option, [])"
    by (simp add: xHeapCreate_def)
  have d: "distinct [3, 1, 2 :: nat]" by simp
  show "mset (pop_all ex_cmp (push_all ex_cmp [] \<lparr>hdata = [], hcap = 2, hidx = (\<lambda>_. 0)\<rparr> [3, 1, 2])) = mset [3, 1, 2]"
    using heap_sorts [OF o d c] ..
  show "pop_all ex_cmp (push_all ex_cmp [] \<lparr>hdata = [], hcap = 2, hidx = (\<lambda>_. 0)\<rparr> [3, 1, 2]) = [1, 2, 3]"
    by code_simp
qed

end
