(* ===== verification/Timer.thy ===== *)
theory Timer
  imports Heap "HOL-Library.Word"
begin

text \<open>
  \<^verbatim>\<open>libx/x/base/timer.c\<close>: the monotonic timer with its own thread. Tasks are named by numbers that
  are not used again; \<open>tm_live\<close> says which of them are allocated from the slab, and reading or
  freeing one that is not is recorded as an event. A task's \<^verbatim>\<open>heap_idx\<close> is the heap's \<open>hidx\<close>.
  The steps are the critical sections of the mutex, and the calls between them: the thread pops a
  task with the lock held and fires it without, so the other threads' calls can come in between.
\<close>

section \<open>State\<close>

definition TIMER_INVALID_IDX :: nat where
  "TIMER_INVALID_IDX = SIZE_MAX"

text \<open>Callbacks and arguments are numbers.\<close>

record xTimerTask =
  tt_deadline :: "64 word"
  tt_fn :: nat
  tt_arg :: nat
  tt_cancelled :: bool

datatype tevent = Tev_run nat nat nat | Tev_use_after_free nat

text \<open>
  \<open>tm_group\<close>: push mode. \<open>tm_firing\<close>: the task the thread has popped and not handed on yet.
  \<open>tm_submitted\<close>: the tasks the workers of the group still have to run. \<open>tm_next\<close>: the next
  name of a task.
\<close>

record xTimer =
  tm_heap :: "nat xHeap"
  tm_group :: bool
  tm_mq :: "nat list"
  tm_tasks :: "nat \<Rightarrow> xTimerTask"
  tm_live :: "nat \<Rightarrow> bool"
  tm_next :: nat
  tm_firing :: "nat option"
  tm_submitted :: "nat list"
  tm_stopped :: bool
  tm_mem :: allocs
  tm_trace :: "tevent list"

definition cmp_task :: "(nat \<Rightarrow> 64 word) \<Rightarrow> nat cmp" where
  "cmp_task dl a b = (if dl a < dl b then - 1 else if dl b < dl a then 1 else 0)"

interpretation task: heap_order "cmp_task dl" for dl
  by unfold_locales (auto simp: cmp_task_def split: if_splits)

abbreviation deadline :: "xTimer \<Rightarrow> nat \<Rightarrow> 64 word" where
  "deadline t i \<equiv> tt_deadline (tm_tasks t i)"

definition set_idx :: "nat \<Rightarrow> nat \<Rightarrow> nat xHeap \<Rightarrow> nat xHeap" where
  "set_idx i k h = h\<lparr>hidx := (hidx h)(i := k)\<rparr>"

text \<open>Reading a task, and giving its memory back.\<close>

definition touch :: "nat \<Rightarrow> xTimer \<Rightarrow> xTimer" where
  "touch i t = (if tm_live t i then t else t\<lparr>tm_trace := tm_trace t @ [Tev_use_after_free i]\<rparr>)"

definition slab_free :: "nat \<Rightarrow> xTimer \<Rightarrow> xTimer" where
  "slab_free i t = (touch i t)\<lparr>tm_live := (tm_live t)(i := False)\<rparr>"

section \<open>The callers' operations\<close>

definition xTimerCreate :: "allocs \<Rightarrow> bool \<Rightarrow> bool \<Rightarrow> xTimer option \<times> allocs" where
  "xTimerCreate m push thread_ok =
     (let (ok1, m1) = draw m
      in if \<not> ok1 then (None, m1)
         else case xHeapCreate m1 (\<lambda>_. 0) 0 of
             (None, m2) \<Rightarrow> (None, m2)
           | (Some h, m2) \<Rightarrow>
               let (ok3, m3) = draw m2
               in (if ok3 \<and> thread_ok
                   then Some \<lparr>tm_heap = h, tm_group = push, tm_mq = [],
                     tm_tasks = (\<lambda>_. \<lparr>tt_deadline = 0, tt_fn = 0, tt_arg = 0, tt_cancelled = False\<rparr>),
                     tm_live = (\<lambda>_. False), tm_next = 0, tm_firing = None, tm_submitted = [],
                     tm_stopped = False, tm_mem = m3, tm_trace = []\<rparr>
                   else None, m3))"

text \<open>The callback is given as None when the caller passes NULL.\<close>

definition submit :: "nat option \<Rightarrow> nat \<Rightarrow> 64 word \<Rightarrow> xTimer \<Rightarrow> nat option \<times> xTimer" where
  "submit fn arg abs_ms t =
     (case fn of
        None \<Rightarrow> (None, t)
      | Some f \<Rightarrow>
          let (ok, m) = draw (tm_mem t); i = tm_next t
          in if \<not> ok then (None, t\<lparr>tm_mem := m\<rparr>)
             else let tasks = (tm_tasks t)(i := \<lparr>tt_deadline = abs_ms, tt_fn = f, tt_arg = arg, tt_cancelled = False\<rparr>);
                      t1 = t\<lparr>tm_tasks := tasks, tm_live := (tm_live t)(i := True), tm_next := Suc i\<rparr>
                  in case xHeapPush (cmp_task (\<lambda>k. tt_deadline (tasks k))) m (set_idx i TIMER_INVALID_IDX (tm_heap t)) i of
                       (err, h, m') \<Rightarrow>
                         let t2 = t1\<lparr>tm_heap := h, tm_mem := m'\<rparr>
                         in if err \<noteq> xErrno_Ok then (None, slab_free i t2) else (Some i, t2))"

definition xTimerSubmitAfter :: "64 word \<Rightarrow> nat option \<Rightarrow> nat \<Rightarrow> 64 word \<Rightarrow> xTimer \<Rightarrow> nat option \<times> xTimer" where
  "xTimerSubmitAfter now fn arg delay_ms t = submit fn arg (now + delay_ms) t"

definition xTimerSubmitAt :: "nat option \<Rightarrow> nat \<Rightarrow> 64 word \<Rightarrow> xTimer \<Rightarrow> nat option \<times> xTimer" where
  "xTimerSubmitAt fn arg abs_ms t = submit fn arg abs_ms t"

definition xTimerCancel :: "nat \<Rightarrow> xTimer \<Rightarrow> xErrno \<times> xTimer" where
  "xTimerCancel i t =
     (let t1 = touch i t
      in if tt_cancelled (tm_tasks t1 i) \<or> hidx (tm_heap t1) i = TIMER_INVALID_IDX then (xErrno_Cancelled, t1)
         else case xHeapRemove (cmp_task (deadline t1)) (tm_heap t1) (hidx (tm_heap t1) i) of
           (removed, h) \<Rightarrow>
             (xErrno_Ok, slab_free i (t1\<lparr>tm_heap := set_idx i TIMER_INVALID_IDX h,
                tm_tasks := (tm_tasks t1)(i := (tm_tasks t1 i)\<lparr>tt_cancelled := True\<rparr>)\<rparr>)))"

text \<open>One round of \<^verbatim>\<open>xTimerPoll\<close>: take the oldest expired task, run it, free it.\<close>

definition run_task :: "nat \<Rightarrow> xTimer \<Rightarrow> xTimer" where
  "run_task i t =
     (let t1 = touch i t
      in slab_free i (t1\<lparr>tm_trace := tm_trace t1 @ [Tev_run i (tt_fn (tm_tasks t1 i)) (tt_arg (tm_tasks t1 i))]\<rparr>))"

definition poll_one :: "xTimer \<Rightarrow> xTimer" where
  "poll_one t = (case tm_mq t of [] \<Rightarrow> t | i # rest \<Rightarrow> run_task i (t\<lparr>tm_mq := rest\<rparr>))"

lemma poll_one_mq: "tm_mq (poll_one t) = tl (tm_mq t)"
  by (simp add: poll_one_def run_task_def slab_free_def touch_def Let_def split: list.split)

text \<open>The loop, when the callbacks leave the queue alone; the count is its result.\<close>

function poll_loop :: "xTimer \<Rightarrow> nat \<times> xTimer" where
  "poll_loop t =
     (if tm_mq t = [] then (0, t) else case poll_loop (poll_one t) of (n, t') \<Rightarrow> (Suc n, t'))"
  by pat_completeness auto
termination
  by (relation "measure (\<lambda>t. length (tm_mq t))") (simp_all add: poll_one_mq)

declare poll_loop.simps [simp del]

definition xTimerPoll :: "xTimer \<Rightarrow> nat \<times> xTimer" where
  "xTimerPoll t = (if tm_group t then (0, t) else poll_loop t)"

section \<open>The thread and the workers\<close>

text \<open>The part of the loop that holds the lock: \<open>now\<close> is what the clock shows there.\<close>

definition expire :: "64 word \<Rightarrow> xTimer \<Rightarrow> xTimer" where
  "expire now t =
     (case (tm_firing t, xHeapPeek (tm_heap t)) of
        (None, Some tp) \<Rightarrow>
          if \<not> tm_stopped t \<and> deadline t tp \<le> now
          then t\<lparr>tm_heap := snd (xHeapPop (cmp_task (deadline t)) (tm_heap t)), tm_firing := Some tp\<rparr>
          else t
      | _ \<Rightarrow> t)"

text \<open>\<^verbatim>\<open>fire\<close>, without the lock: \<open>accepted\<close> is whether the group takes the task.\<close>

definition fire :: "bool \<Rightarrow> xTimer \<Rightarrow> xTimer" where
  "fire accepted t =
     (case tm_firing t of
        None \<Rightarrow> t
      | Some i \<Rightarrow>
          let t1 = (touch i t)\<lparr>tm_firing := None\<rparr>
          in if tt_cancelled (tm_tasks t1 i) then slab_free i t1
             else if tm_group t1
               then if accepted then t1\<lparr>tm_submitted := tm_submitted t1 @ [i]\<rparr> else slab_free i t1
               else t1\<lparr>tm_mq := tm_mq t1 @ [i]\<rparr>)"

definition dispatch_wrapper :: "nat \<Rightarrow> xTimer \<Rightarrow> xTimer" where
  "dispatch_wrapper i t =
     (if i \<in> set (tm_submitted t) then run_task i (t\<lparr>tm_submitted := remove1 i (tm_submitted t)\<rparr>) else t)"

text \<open>The drain loops of the thread and of \<^verbatim>\<open>xTimerDestroy\<close>.\<close>

function drain_heap :: "xTimer \<Rightarrow> xTimer" where
  "drain_heap t =
     (case xHeapPop (cmp_task (deadline t)) (tm_heap t) of
        (None, h) \<Rightarrow> t
      | (Some i, h) \<Rightarrow> drain_heap (slab_free i (t\<lparr>tm_heap := h\<rparr>)))"
  by pat_completeness auto
termination
  by (relation "measure (\<lambda>t. hsize (tm_heap t))")
    (auto simp: slab_free_def touch_def dest: pop_shrinks [OF sym])

declare drain_heap.simps [simp del]

definition xTimerDestroy :: "bool \<Rightarrow> xTimer \<Rightarrow> xTimer" where
  "xTimerDestroy accepted t =
     (let t1 = drain_heap (fire accepted (t\<lparr>tm_stopped := True\<rparr>))
      in if tm_group t1 then t1 else fold slab_free (tm_mq t1) (t1\<lparr>tm_mq := []\<rparr>))"

section \<open>What is where\<close>

text \<open>The tasks in the heap, with the thread, in the queue and with the workers.\<close>

definition owned :: "xTimer \<Rightarrow> nat multiset" where
  "owned t = mset (hdata (tm_heap t)) + (case tm_firing t of None \<Rightarrow> {#} | Some i \<Rightarrow> {#i#})
     + mset (tm_mq t) + mset (tm_submitted t)"

fun ran :: "tevent list \<Rightarrow> nat multiset" where
  "ran [] = {#}"
| "ran (Tev_run i f a # evs) = add_mset i (ran evs)"
| "ran (Tev_use_after_free i # evs) = ran evs"

lemma ran_append [simp]: "ran (xs @ ys) = ran xs + ran ys"
  by (induction xs rule: ran.induct) simp_all

definition no_misuse :: "tevent list \<Rightarrow> bool" where
  "no_misuse evs \<longleftrightarrow> list_all (\<lambda>ev. case ev of Tev_run i f a \<Rightarrow> True | Tev_use_after_free i \<Rightarrow> False) evs"

lemma no_misuse_append [simp]: "no_misuse (xs @ ys) \<longleftrightarrow> no_misuse xs \<and> no_misuse ys"
  by (simp add: no_misuse_def)

text \<open>
  Every allocated task is in exactly one place and not cancelled, nothing else is anywhere, what ran
  was freed, and nothing freed was used.
\<close>

definition timer_ok :: "xTimer \<Rightarrow> bool" where
  "timer_ok t \<longleftrightarrow> task.heap_ok (deadline t) (tm_heap t) \<and>
     (\<forall>i. count (owned t) i = of_bool (tm_live t i)) \<and>
     (\<forall>i. tm_live t i \<longrightarrow> i < tm_next t \<and> \<not> tt_cancelled (tm_tasks t i)) \<and>
     (\<forall>i. count (ran (tm_trace t)) i + of_bool (tm_live t i) \<le> (1::nat)) \<and>
     (\<forall>i. tm_next t \<le> i \<longrightarrow> count (ran (tm_trace t)) i = 0) \<and> no_misuse (tm_trace t)"

lemma timer_okD:
  assumes "timer_ok t"
  shows "task.heap_ok (deadline t) (tm_heap t)" and "count (owned t) i = of_bool (tm_live t i)"
    and "tm_live t i \<Longrightarrow> i < tm_next t \<and> \<not> tt_cancelled (tm_tasks t i)"
    and "count (ran (tm_trace t)) i + of_bool (tm_live t i) \<le> (1::nat)"
    and "tm_next t \<le> i \<Longrightarrow> count (ran (tm_trace t)) i = 0" and "no_misuse (tm_trace t)"
  using assms by (simp_all add: timer_ok_def)

lemma owned_live: "timer_ok t \<Longrightarrow> i \<in># owned t \<longleftrightarrow> tm_live t i"
  using timer_okD(2) [of t i] count_greater_zero_iff [of "owned t" i] by (cases "tm_live t i") simp_all

lemma live_touch [simp]: "tm_live t i \<Longrightarrow> touch i t = t"
  by (simp add: touch_def)

lemma heap_live: "timer_ok t \<Longrightarrow> i \<in> set (hdata (tm_heap t)) \<Longrightarrow> tm_live t i"
  using owned_live [of t i] by (simp add: owned_def)

text \<open>The heap order does not depend on tasks that are not in the heap.\<close>

lemma heap_ok_cong:
  assumes "task.heap_ok dl h" and "\<And>i. i \<in> set (hdata h) \<Longrightarrow> dl' i = dl i"
  shows "task.heap_ok dl' h"
  using assms ordered_cong [of "cmp_task dl" "hdata h" "cmp_task dl'"]
  by (simp add: task.heap_ok_def cmp_task_def)

text \<open>Rewriting the index of a task that is not in the heap.\<close>

lemma heap_ok_set_idx: "task.heap_ok dl h \<Longrightarrow> i \<notin> set (hdata h) \<Longrightarrow> task.heap_ok dl (set_idx i k h)"
  by (auto simp: task.heap_ok_def placed_def set_idx_def)

lemma ok_create:
  "xTimerCreate m push thread_ok = (Some t, m') \<Longrightarrow> timer_ok t \<and> tm_mem t = m'"
  by (auto simp: xTimerCreate_def xHeapCreate_def Let_def timer_ok_def task.heap_ok_def placed_def ordered_def
      owned_def no_misuse_def split: prod.splits if_splits)

text \<open>A step that only moves tasks between the places.\<close>

lemma ok_move:
  assumes "timer_ok t" and "task.heap_ok (deadline t) (tm_heap t')" and "owned t' = owned t"
    and "tm_tasks t' = tm_tasks t" and "tm_live t' = tm_live t" and "tm_next t' = tm_next t"
    and "tm_trace t' = tm_trace t"
  shows "timer_ok t'"
  using assms by (simp add: timer_ok_def)

text \<open>A step that takes a task out and frees it, running it or not.\<close>

lemma ok_release:
  assumes "timer_ok t" and "task.heap_ok (deadline t') (tm_heap t')" and "owned t = add_mset i (owned t')"
    and "\<And>j. j \<noteq> i \<Longrightarrow> tm_tasks t' j = tm_tasks t j" and "tm_live t' = (tm_live t)(i := False)"
    and "tm_next t' = tm_next t" and "tm_trace t' = tm_trace t \<or> (\<exists>f a. tm_trace t' = tm_trace t @ [Tev_run i f a])"
  shows "timer_ok t'"
proof -
  have c: "count (owned t') j = of_bool (tm_live t' j)" for j
    using timer_okD(2) [OF assms(1), of j] assms(3,5) by (cases "tm_live t j") (auto split: if_splits)
  have l: "tm_live t i" using owned_live [OF assms(1), of i] assms(3) by simp
  have r: "count (ran (tm_trace t')) j + of_bool (tm_live t' j) \<le> (1::nat)" for j
    using timer_okD(4) [OF assms(1), of j] assms(5,7) l by (auto split: if_splits)
  have n: "count (ran (tm_trace t')) j = 0" if "tm_next t' \<le> j" for j
    using timer_okD(5) [OF assms(1), of j] timer_okD(3) [OF assms(1) l] that assms(6,7) by auto
  have m: "no_misuse (tm_trace t')"
    using timer_okD(6) [OF assms(1)] assms(7) by (auto simp: no_misuse_def)
  show ?thesis
    using assms(1,2,4-6) c r n m by (simp add: timer_ok_def)
qed

section \<open>The steps keep it\<close>

lemma ok_submit: "timer_ok t \<Longrightarrow> timer_ok (snd (submit fn arg abs_ms t))"
proof -
  assume ok: "timer_ok t"
  define i where "i = tm_next t"
  have fresh: "\<not> tm_live t i" using timer_okD(3) [OF ok, of i] by (auto simp: i_def)
  then have out: "i \<notin> set (hdata (tm_heap t))" using heap_live [OF ok] by blast
  show ?thesis
  proof (cases "fn = None \<or> \<not> fst (draw (tm_mem t))")
    case True
    then have "\<exists>m. snd (submit fn arg abs_ms t) = t\<lparr>tm_mem := m\<rparr>"
      by (cases fn) (auto simp: submit_def Let_def split: prod.split intro: exI [of _ "tm_mem t"])
    then obtain m where "snd (submit fn arg abs_ms t) = t\<lparr>tm_mem := m\<rparr>" by blast
    with ok show ?thesis by (simp add: timer_ok_def owned_def)
  next
    case False
    then obtain f m where f: "fn = Some f" and d: "draw (tm_mem t) = (True, m)"
      by (cases "draw (tm_mem t)") auto
    define tasks where
      "tasks = (tm_tasks t)(i := \<lparr>tt_deadline = abs_ms, tt_fn = f, tt_arg = arg, tt_cancelled = False\<rparr>)"
    define dl where "dl = (\<lambda>k. tt_deadline (tasks k))"
    define h0 where "h0 = set_idx i TIMER_INVALID_IDX (tm_heap t)"
    have h0: "task.heap_ok dl h0" "i \<notin> set (hdata h0)"
    proof -
      have "task.heap_ok dl (tm_heap t)"
        by (rule heap_ok_cong [OF timer_okD(1) [OF ok]]) (use out in \<open>auto simp: dl_def tasks_def\<close>)
      then show "task.heap_ok dl h0" unfolding h0_def by (rule heap_ok_set_idx [OF _ out])
      show "i \<notin> set (hdata h0)" using out by (simp add: h0_def set_idx_def)
    qed
    obtain err h m' where p: "xHeapPush (cmp_task dl) m h0 i = (err, h, m')" by (metis prod_cases3)
    note push = task.push_ok [OF h0 p]
    define t2 where "t2 = t\<lparr>tm_tasks := tasks, tm_live := (tm_live t)(i := True), tm_next := Suc i,
      tm_heap := h, tm_mem := m'\<rparr>"
    have eq: "snd (submit fn arg abs_ms t) = (if err \<noteq> xErrno_Ok then slab_free i t2 else t2)"
      using p by (simp add: submit_def f d Let_def i_def [symmetric] tasks_def [symmetric] dl_def [symmetric]
          h0_def [symmetric] t2_def)
    have rest: "\<forall>k. count (ran (tm_trace t)) k + of_bool (tm_live t k) \<le> (1::nat)" "no_misuse (tm_trace t)"
      "\<forall>k. i \<le> k \<longrightarrow> count (ran (tm_trace t)) k = 0"
      using ok by (simp_all add: timer_ok_def i_def)
    have live: "\<forall>k. (tm_live t k \<or> k = i) \<longrightarrow> k < Suc i \<and> \<not> tt_cancelled (tasks k)"
      using timer_okD(3) [OF ok] by (auto simp: tasks_def i_def less_Suc_eq)
    have dlt: "deadline t2 = dl" by (simp add: t2_def dl_def)
    show ?thesis
    proof (cases "err = xErrno_Ok")
      case True
      have "count (owned t2) k = of_bool (tm_live t2 k)" for k
        using timer_okD(2) [OF ok, of k] push(2) [OF True] fresh
        by (auto simp: owned_def t2_def h0_def set_idx_def)
      moreover have "count (ran (tm_trace t2)) k + of_bool (tm_live t2 k) \<le> (1::nat)" for k
        using rest(1,3) by (auto simp: t2_def)
      ultimately have "timer_ok t2"
        using push(1) live rest(2,3) unfolding timer_ok_def dlt by (auto simp: t2_def)
      with True eq show ?thesis by simp
    next
      case False
      have h: "h = h0" using push(3) [OF False] by simp
      have "count (owned (slab_free i t2)) k = of_bool (tm_live (slab_free i t2) k)" for k
        using timer_okD(2) [OF ok, of k] fresh
        by (auto simp: owned_def t2_def h h0_def set_idx_def slab_free_def touch_def)
      moreover have "deadline (slab_free i t2) = dl" by (simp add: t2_def dl_def slab_free_def touch_def)
      ultimately have "timer_ok (slab_free i t2)"
        using push(1) live rest fresh unfolding timer_ok_def
        by (auto simp: t2_def slab_free_def touch_def)
      with False eq show ?thesis by simp
    qed
  qed
qed

lemma ok_cancel: "timer_ok t \<Longrightarrow> i \<in> set (hdata (tm_heap t)) \<Longrightarrow> timer_ok (snd (xTimerCancel i t))"
proof -
  assume ok: "timer_ok t" and i: "i \<in> set (hdata (tm_heap t))"
  define k where "k = hidx (tm_heap t) i"
  have l: "tm_live t i" by (rule heap_live [OF ok i])
  have k: "k < hsize (tm_heap t)" "hdata (tm_heap t) ! k = i"
    using timer_okD(1) [OF ok] i by (auto simp: task.heap_ok_def placed_def k_def in_set_conv_nth)
  obtain r h where rm: "xHeapRemove (cmp_task (deadline t)) (tm_heap t) k = (r, h)" by fastforce
  note rem = task.remove_ok [OF timer_okD(1) [OF ok] k(1) rm]
  define t' where "t' = (t\<lparr>tm_heap := set_idx i TIMER_INVALID_IDX h,
      tm_tasks := (tm_tasks t)(i := (tm_tasks t i)\<lparr>tt_cancelled := True\<rparr>), tm_live := (tm_live t)(i := False)\<rparr>)"
  have out: "i \<notin> set (hdata h)"
  proof -
    have "count (mset (hdata (tm_heap t))) i \<le> 1"
      using timer_okD(1) [OF ok] by (simp add: task.heap_ok_def placed_def distinct_count_atmost_1)
    then have "count (mset (hdata h)) i = 0" using rem(3) k(2) by simp
    then show ?thesis by (simp add: count_eq_zero_iff)
  qed
  have dl: "deadline t' = deadline t" by (rule ext) (simp add: t'_def)
  have "timer_ok t'"
  proof (rule ok_release [OF ok])
    show "task.heap_ok (deadline t') (tm_heap t')"
      unfolding dl using heap_ok_set_idx [OF rem(1) out] by (simp add: t'_def)
    show "owned t = add_mset i (owned t')"
      using rem(3) k(2) i by (simp add: owned_def t'_def set_idx_def)
  qed (simp_all add: t'_def)
  moreover have "snd (xTimerCancel i t) = t \<or> snd (xTimerCancel i t) = t'"
    using rm l by (auto simp: xTimerCancel_def slab_free_def t'_def k_def Let_def)
  ultimately show ?thesis using ok by auto
qed

lemma ok_expire: "timer_ok t \<Longrightarrow> timer_ok (expire now t)"
proof -
  assume ok: "timer_ok t"
  show ?thesis
  proof (cases "tm_firing t = None \<and> hdata (tm_heap t) \<noteq> []")
    case False
    then have "expire now t = t" by (auto simp: expire_def xHeapPeek_def split: option.split)
    with ok show ?thesis by simp
  next
    case True
    obtain r h where p: "xHeapPop (cmp_task (deadline t)) (tm_heap t) = (r, h)" by fastforce
    have ne: "hdata (tm_heap t) \<noteq> []" using True by simp
    note pop = task.pop_ok [OF timer_okD(1) [OF ok] ne p]
    define t' where "t' = t\<lparr>tm_heap := h, tm_firing := Some (hdata (tm_heap t) ! 0)\<rparr>"
    have "timer_ok t'"
    proof (rule ok_move [OF ok])
      show "task.heap_ok (deadline t) (tm_heap t')" using pop(1) by (simp add: t'_def)
      have "hdata (tm_heap t) ! 0 \<in># mset (hdata (tm_heap t))" using ne by simp
      then show "owned t' = owned t" using pop(4) True by (simp add: owned_def t'_def)
    qed (simp_all add: t'_def)
    moreover have "expire now t = t \<or> expire now t = t'"
      using True p by (auto simp: expire_def xHeapPeek_def t'_def)
    ultimately show ?thesis using ok by auto
  qed
qed

lemma ok_fire: "timer_ok t \<Longrightarrow> timer_ok (fire accepted t)"
proof -
  assume ok: "timer_ok t"
  show ?thesis
  proof (cases "tm_firing t")
    case None
    with ok show ?thesis by (simp add: fire_def)
  next
    case (Some i)
    have l: "tm_live t i" using owned_live [OF ok, of i] Some by (simp add: owned_def)
    have c: "\<not> tt_cancelled (tm_tasks t i)" using timer_okD(3) [OF ok l] by simp
    consider "tm_group t" "\<not> accepted" | "tm_group t" "accepted" | "\<not> tm_group t" by blast
    then show ?thesis
    proof cases
      case 1
      have "timer_ok (t\<lparr>tm_firing := None, tm_live := (tm_live t)(i := False)\<rparr>)"
        by (rule ok_release [OF ok, of _ i]) (use timer_okD(1) [OF ok] in \<open>simp_all add: owned_def Some\<close>)
      with 1 show ?thesis using l c Some by (simp add: fire_def Let_def slab_free_def touch_def)
    next
      case 2
      have "timer_ok (t\<lparr>tm_firing := None, tm_submitted := tm_submitted t @ [i]\<rparr>)"
        by (rule ok_move [OF ok]) (use timer_okD(1) [OF ok] in \<open>simp_all add: owned_def Some\<close>)
      with 2 show ?thesis using l c Some by (simp add: fire_def Let_def)
    next
      case 3
      have "timer_ok (t\<lparr>tm_firing := None, tm_mq := tm_mq t @ [i]\<rparr>)"
        by (rule ok_move [OF ok]) (use timer_okD(1) [OF ok] in \<open>simp_all add: owned_def Some\<close>)
      with 3 show ?thesis using l c Some by (simp add: fire_def Let_def)
    qed
  qed
qed

lemma run_task_live: "tm_live t i \<Longrightarrow> run_task i t = t\<lparr>tm_live := (tm_live t)(i := False),
    tm_trace := tm_trace t @ [Tev_run i (tt_fn (tm_tasks t i)) (tt_arg (tm_tasks t i))]\<rparr>"
  by (simp add: run_task_def slab_free_def touch_def Let_def)

lemma ok_poll_one: "timer_ok t \<Longrightarrow> timer_ok (poll_one t)"
proof (cases "tm_mq t")
  case Nil
  assume "timer_ok t"
  with Nil show ?thesis by (simp add: poll_one_def)
next
  case (Cons i rest)
  assume ok: "timer_ok t"
  have l: "tm_live t i" using owned_live [OF ok, of i] Cons by (simp add: owned_def)
  show ?thesis
    unfolding poll_one_def Cons list.case
    by (rule ok_release [OF ok, of _ i])
      (use timer_okD(1) [OF ok] l in \<open>simp_all add: owned_def Cons run_task_live\<close>)
qed

lemma ok_worker: "timer_ok t \<Longrightarrow> timer_ok (dispatch_wrapper i t)"
proof -
  assume ok: "timer_ok t"
  show ?thesis
  proof (cases "i \<in> set (tm_submitted t)")
    case False
    with ok show ?thesis by (simp add: dispatch_wrapper_def)
  next
    case True
    have l: "tm_live t i" using owned_live [OF ok, of i] True by (simp add: owned_def)
    show ?thesis
      unfolding dispatch_wrapper_def
      by (rule ok_release [OF ok, of _ i])
        (use timer_okD(1) [OF ok] l True in \<open>simp_all add: owned_def run_task_live\<close>)
  qed
qed

text \<open>Destruction: what is pending or queued is freed without having run.\<close>

lemma ok_drain_heap: "timer_ok t \<Longrightarrow> timer_ok (drain_heap t)"
proof (induction t rule: drain_heap.induct)
  case (1 t)
  obtain r h where p: "xHeapPop (cmp_task (deadline t)) (tm_heap t) = (r, h)" by fastforce
  show ?case
  proof (cases r)
    case None
    with 1(2) p show ?thesis by (simp add: drain_heap.simps [of t])
  next
    case (Some i)
    have ne: "hdata (tm_heap t) \<noteq> []" using p Some by (auto simp: xHeapPop_def)
    note pop = task.pop_ok [OF timer_okD(1) [OF 1(2)] ne p]
    have i: "i = hdata (tm_heap t) ! 0" using pop(2) Some by simp
    have l: "tm_live t i" using ne by (simp add: i heap_live [OF 1(2)])
    have "hdata (tm_heap t) ! 0 \<in># mset (hdata (tm_heap t))" using ne by simp
    then have "timer_ok (t\<lparr>tm_heap := h, tm_live := (tm_live t)(i := False)\<rparr>)"
      by (intro ok_release [OF 1(2), of _ i]) (use pop(1,4) in \<open>simp_all add: owned_def i\<close>)
    then have "timer_ok (slab_free i (t\<lparr>tm_heap := h\<rparr>))" using l by (simp add: slab_free_def touch_def)
    from 1(1) [OF p [symmetric] Some this] show ?thesis using p Some by (simp add: drain_heap.simps [of t])
  qed
qed

lemma ok_free_queue: "timer_ok (t\<lparr>tm_mq := is\<rparr>) \<Longrightarrow> timer_ok (fold slab_free is (t\<lparr>tm_mq := []\<rparr>))"
proof (induction "is" arbitrary: t)
  case (Cons i rest)
  let ?t = "t\<lparr>tm_live := (tm_live t)(i := False)\<rparr>"
  have l: "tm_live t i" using owned_live [OF Cons.prems, of i] by (simp add: owned_def)
  have "timer_ok (?t\<lparr>tm_mq := rest\<rparr>)"
    by (rule ok_release [OF Cons.prems, of _ i]) (use timer_okD(1) [OF Cons.prems] in \<open>simp_all add: owned_def\<close>)
  moreover have "slab_free i (t\<lparr>tm_mq := []\<rparr>) = ?t\<lparr>tm_mq := []\<rparr>" using l by (simp add: slab_free_def touch_def)
  ultimately show ?case using Cons.IH by simp
qed simp

lemma ok_destroy: "timer_ok t \<Longrightarrow> timer_ok (xTimerDestroy accepted t)"
proof -
  assume ok: "timer_ok t"
  have "timer_ok (t\<lparr>tm_stopped := True\<rparr>)"
    by (rule ok_move [OF ok]) (use timer_okD(1) [OF ok] in \<open>simp_all add: owned_def\<close>)
  then have "timer_ok (drain_heap (fire accepted (t\<lparr>tm_stopped := True\<rparr>)))" by (intro ok_drain_heap ok_fire)
  then show ?thesis unfolding xTimerDestroy_def Let_def by (auto intro!: ok_free_queue)
qed

text \<open>
  The runs of a timer whose callers cancel only what has not expired. The thread's two sections and
  the other threads' calls interleave freely. Destruction may come at any point; what may follow it
  in the program is only the workers, and more is allowed here.
\<close>

inductive timer_moves :: "xTimer \<Rightarrow> xTimer \<Rightarrow> bool" where
  tmove_submit: "timer_moves t (snd (submit fn arg abs_ms t))"
| tmove_cancel: "i \<in> set (hdata (tm_heap t)) \<Longrightarrow> timer_moves t (snd (xTimerCancel i t))"
| tmove_expire: "timer_moves t (expire now t)"
| tmove_fire: "timer_moves t (fire accepted t)"
| tmove_poll: "timer_moves t (poll_one t)"
| tmove_worker: "timer_moves t (dispatch_wrapper i t)"
| tmove_destroy: "timer_moves t (xTimerDestroy accepted t)"

inductive timer_reaches :: "xTimer \<Rightarrow> xTimer \<Rightarrow> bool" where
  treach_refl: "timer_reaches t t"
| treach_step: "timer_reaches t t1 \<Longrightarrow> timer_moves t1 t2 \<Longrightarrow> timer_reaches t t2"

inductive_cases timer_moves_cases: "timer_moves t t'"

lemma ok_moves: "timer_moves t t' \<Longrightarrow> timer_ok t \<Longrightarrow> timer_ok t'"
  by (erule timer_moves_cases) (simp_all add: ok_submit ok_cancel ok_expire ok_fire ok_poll_one ok_worker ok_destroy)

lemma ok_reaches: "timer_reaches t t' \<Longrightarrow> timer_ok t \<Longrightarrow> timer_ok t'"
  by (induction rule: timer_reaches.induct) (auto intro: ok_moves)

section \<open>Freed tasks never run\<close>

text \<open>A name that was given away and is not allocated is never allocated again and never runs.\<close>

definition gone :: "nat \<Rightarrow> nat \<Rightarrow> xTimer \<Rightarrow> bool" where
  "gone i n t \<longleftrightarrow> i < tm_next t \<and> \<not> tm_live t i \<and> count (ran (tm_trace t)) i = n"

lemma ran_touch [simp]: "ran (tm_trace (touch i t)) = ran (tm_trace t)"
  by (simp add: touch_def)

lemma touch_fields [simp]: "tm_next (touch i t) = tm_next t" "tm_live (touch i t) = tm_live t"
  "tm_heap (touch i t) = tm_heap t" "tm_tasks (touch i t) = tm_tasks t" "tm_group (touch i t) = tm_group t"
  by (simp_all add: touch_def)

lemma gone_slab_free: "gone i n t \<Longrightarrow> gone i n (slab_free j t)"
  by (simp add: gone_def slab_free_def)

lemma gone_fold_free: "gone i n t \<Longrightarrow> gone i n (fold slab_free js t)"
  by (induction js arbitrary: t) (simp_all add: gone_slab_free)

lemma gone_run_task: "gone i n t \<Longrightarrow> tm_live t j \<Longrightarrow> gone i n (run_task j t)"
  by (cases "i = j") (simp_all add: gone_def run_task_live)

lemma gone_submit: "gone i n t \<Longrightarrow> gone i n (snd (submit fn arg abs_ms t))"
  by (auto simp: gone_def submit_def Let_def slab_free_def split: option.split prod.split)

lemma gone_cancel: "gone i n t \<Longrightarrow> gone i n (snd (xTimerCancel j t))"
  by (auto simp: gone_def xTimerCancel_def Let_def slab_free_def split: prod.split)

lemma gone_fire: "gone i n t \<Longrightarrow> gone i n (fire accepted t)"
  by (auto simp: gone_def fire_def Let_def slab_free_def split: option.split)

lemma gone_drain_heap: "gone i n t \<Longrightarrow> gone i n (drain_heap t)"
proof (induction t rule: drain_heap.induct)
  case (1 t)
  obtain r h where p: "xHeapPop (cmp_task (deadline t)) (tm_heap t) = (r, h)" by fastforce
  show ?case
  proof (cases r)
    case None
    with 1(2) p show ?thesis by (simp add: drain_heap.simps [of t])
  next
    case (Some j)
    have "gone i n (t\<lparr>tm_heap := h\<rparr>)" using 1(2) by (simp add: gone_def)
    from 1(1) [OF p [symmetric] Some gone_slab_free [OF this]] show ?thesis using p Some by (simp add: drain_heap.simps [of t])
  qed
qed

lemma gone_destroy: "gone i n t \<Longrightarrow> gone i n (xTimerDestroy accepted t)"
proof -
  assume "gone i n t"
  then have "gone i n (t\<lparr>tm_stopped := True\<rparr>)" by (simp add: gone_def)
  then have g: "gone i n (drain_heap (fire accepted (t\<lparr>tm_stopped := True\<rparr>)))" (is "gone i n ?t")
    by (intro gone_drain_heap gone_fire)
  then have "gone i n (?t\<lparr>tm_mq := []\<rparr>)" by (simp add: gone_def)
  with g show ?thesis unfolding xTimerDestroy_def Let_def by (simp add: gone_fold_free)
qed

lemma gone_moves:
  assumes "timer_moves t t'" "timer_ok t" "gone i n t"
  shows "gone i n t'"
  using assms(1)
proof cases
  case (tmove_expire now)
  with assms(3) show ?thesis by (auto simp: gone_def expire_def split: option.split)
next
  case tmove_poll
  show ?thesis
  proof (cases "tm_mq t")
    case Nil with tmove_poll assms(3) show ?thesis by (simp add: poll_one_def)
  next
    case (Cons j rest)
    have "tm_live t j" using owned_live [OF assms(2), of j] Cons by (simp add: owned_def)
    moreover have "gone i n (t\<lparr>tm_mq := rest\<rparr>)" using assms(3) by (simp add: gone_def)
    ultimately show ?thesis by (simp add: tmove_poll poll_one_def Cons gone_run_task)
  qed
next
  case (tmove_worker j)
  show ?thesis
  proof (cases "j \<in> set (tm_submitted t)")
    case False with tmove_worker assms(3) show ?thesis by (simp add: dispatch_wrapper_def)
  next
    case True
    have "tm_live t j" using owned_live [OF assms(2), of j] True by (simp add: owned_def)
    moreover have "gone i n (t\<lparr>tm_submitted := remove1 j (tm_submitted t)\<rparr>)" using assms(3) by (simp add: gone_def)
    ultimately show ?thesis using True by (simp add: tmove_worker dispatch_wrapper_def gone_run_task)
  qed
qed (simp_all add: assms(3) gone_submit gone_cancel gone_fire gone_destroy)

lemma gone_reaches: "timer_reaches t t' \<Longrightarrow> timer_ok t \<Longrightarrow> gone i n t \<Longrightarrow> gone i n t'"
  by (induction rule: timer_reaches.induct) (auto intro: gone_moves ok_reaches)

lemma cancel_gone:
  assumes "timer_ok t" "i \<in> set (hdata (tm_heap t))" "hsize (tm_heap t) \<le> TIMER_INVALID_IDX"
  shows "fst (xTimerCancel i t) = xErrno_Ok" and "gone i 0 (snd (xTimerCancel i t))"
proof -
  have l: "tm_live t i" by (rule heap_live [OF assms(1,2)])
  have c: "\<not> tt_cancelled (tm_tasks t i)" "i < tm_next t" using timer_okD(3) [OF assms(1) l] by simp_all
  have "hidx (tm_heap t) i < hsize (tm_heap t)"
    using timer_okD(1) [OF assms(1)] assms(2) by (auto simp: task.heap_ok_def placed_def in_set_conv_nth)
  then have n: "hidx (tm_heap t) i \<noteq> TIMER_INVALID_IDX" using assms(3) by simp
  have r: "count (ran (tm_trace t)) i = 0" using timer_okD(4) [OF assms(1), of i] l by simp
  show "fst (xTimerCancel i t) = xErrno_Ok" "gone i 0 (snd (xTimerCancel i t))"
    using l c n r by (auto simp: xTimerCancel_def Let_def slab_free_def gone_def split: prod.split)
qed

section \<open>Promises of the timer\<close>

text \<open>
  C27. As long as callers cancel only tasks that have not expired, every submitted task runs at most
  once, no task is used or freed after it was freed, and cancelling a pending task succeeds and keeps
  it from ever running (a heap has fewer than SIZE_MAX tasks), for every interleaving of submits, cancels, expiries, hand-overs, polls,
  workers and the destruction, in push and in poll mode, and whichever allocations fail.
\<close>

theorem timer_runs_once:
  assumes "xTimerCreate m push ok = (Some t0, m')" and "timer_reaches t0 t"
  shows "count (ran (tm_trace t)) i \<le> 1 \<and> no_misuse (tm_trace t) \<and>
    (i \<in> set (hdata (tm_heap t)) \<and> hsize (tm_heap t) \<le> TIMER_INVALID_IDX \<longrightarrow> fst (xTimerCancel i t) = xErrno_Ok \<and>
      (\<forall>t'. timer_reaches (snd (xTimerCancel i t)) t' \<longrightarrow> count (ran (tm_trace t')) i = 0))"
proof -
  have ok: "timer_ok t" using ok_reaches [OF assms(2)] ok_create [OF assms(1)] by blast
  have "count (ran (tm_trace t')) i = 0"
    if i: "i \<in> set (hdata (tm_heap t))" "hsize (tm_heap t) \<le> TIMER_INVALID_IDX" and r: "timer_reaches (snd (xTimerCancel i t)) t'" for t'
    using gone_reaches [OF r ok_cancel [OF ok i(1)] cancel_gone(2) [OF ok i]] by (simp add: gone_def)
  with cancel_gone(1) [OF ok, of i] timer_okD(4) [OF ok, of i] timer_okD(6) [OF ok] show ?thesis by simp
qed

definition ex_timer :: xTimer where
  "ex_timer = the (fst (xTimerCreate [] False True))"

lemma ex_timer_created: "xTimerCreate [] False True = (Some ex_timer, [])"
  by (simp add: ex_timer_def xTimerCreate_def xHeapCreate_def)

text \<open>Three tasks with deadlines 30, 10 and 20.\<close>

definition ex_timer_three :: xTimer where
  "ex_timer_three = snd (submit (Some 7) 2 20 (snd (submit (Some 7) 1 10 (snd (submit (Some 7) 0 30 ex_timer)))))"

lemma ex_timer_three_reached: "timer_reaches ex_timer ex_timer_three"
  unfolding ex_timer_three_def by (intro treach_step [OF _ tmove_submit] treach_refl)

theorem timer_runs_once_witness:
  "fst (xTimerCancel 2 ex_timer_three) = xErrno_Ok \<and>
   count (ran (tm_trace (poll_one (fire True (expire 25 (snd (xTimerCancel 2 ex_timer_three))))))) 2 = 0 \<and>
   count (ran (tm_trace (poll_one (fire True (expire 15 ex_timer_three))))) 1 \<le> 1 \<and>
   ran (tm_trace (poll_one (fire True (expire 15 ex_timer_three)))) = {#1#}"
proof -
  have round: "timer_reaches t (poll_one (fire True (expire now t)))" for t now
    by (intro treach_step [OF _ tmove_poll] treach_step [OF _ tmove_fire] treach_step [OF _ tmove_expire] treach_refl)
  have m: "2 \<in> set (hdata (tm_heap ex_timer_three))" "hsize (tm_heap ex_timer_three) \<le> TIMER_INVALID_IDX" by code_simp+
  have "timer_reaches ex_timer (poll_one (fire True (expire 15 ex_timer_three)))"
    by (intro treach_step [OF _ tmove_poll] treach_step [OF _ tmove_fire] treach_step [OF _ tmove_expire]
        ex_timer_three_reached)
  note once = timer_runs_once [OF ex_timer_created this, of 1]
  have "tm_trace (poll_one (fire True (expire 15 ex_timer_three))) = [Tev_run 1 7 1]" by code_simp
  then show ?thesis
    using once timer_runs_once [OF ex_timer_created ex_timer_three_reached, of 2] m round by simp
qed

text \<open>
  The thread takes a task only when it is due, and then one with the earliest deadline of all
  pending ones; a due task is taken whenever there is one.
\<close>

theorem timer_earliest_first:
  assumes "xTimerCreate m push ok = (Some t0, m')" and "timer_reaches t0 t"
    and "tm_firing t = None" and "\<not> tm_stopped t"
  shows "(case tm_firing (expire now t) of
      Some i \<Rightarrow> i \<in> set (hdata (tm_heap t)) \<and> deadline t i \<le> now \<and>
        list_all (\<lambda>j. deadline t i \<le> deadline t j) (hdata (tm_heap t))
    | None \<Rightarrow> list_all (\<lambda>j. now < deadline t j) (hdata (tm_heap t)))"
proof (cases "hdata (tm_heap t) = []")
  case True
  with assms(3) show ?thesis by (simp add: expire_def xHeapPeek_def)
next
  case False
  define i where "i = hdata (tm_heap t) ! 0"
  have ok: "timer_ok t" using ok_reaches [OF assms(2)] ok_create [OF assms(1)] by blast
  obtain r h where p: "xHeapPop (cmp_task (deadline t)) (tm_heap t) = (r, h)" by fastforce
  have "\<forall>y \<in> set (hdata (tm_heap t)). cmp_task (deadline t) i y \<le> 0"
    unfolding i_def by (rule task.pop_ok(3) [OF timer_okD(1) [OF ok] False p])
  then have min: "deadline t i \<le> deadline t y" if "y \<in> set (hdata (tm_heap t))" for y
    using that by (fastforce simp: cmp_task_def split: if_splits)
  have "i \<in> set (hdata (tm_heap t))" using False by (simp add: i_def)
  then show ?thesis
    using assms(3,4) False min
    by (auto simp: expire_def xHeapPeek_def i_def [symmetric] list_all_iff not_le intro: less_le_trans)
qed

theorem timer_earliest_first_witness:
  "tm_firing (expire 15 ex_timer_three) = Some 1 \<and>
   list_all (\<lambda>j. deadline ex_timer_three 1 \<le> deadline ex_timer_three j) (hdata (tm_heap ex_timer_three))"
proof -
  have s: "tm_firing ex_timer_three = None" "\<not> tm_stopped ex_timer_three" by code_simp+
  have f: "tm_firing (expire 15 ex_timer_three) = Some 1" by code_simp
  from timer_earliest_first [OF ex_timer_created ex_timer_three_reached s, of 15] f show ?thesis by simp
qed

text \<open>
  C29. Cancelling a task that has expired, in poll mode and with another task pending, reports
  success and breaks the timer: the earliest pending task is taken out of the heap although nobody
  cancelled it and will never run, and the expired task is freed while it still waits in the queue
  for the next poll. The interface promises a no-op.
\<close>

theorem timer_cancel_expired:
  assumes "xTimerCreate m push ok = (Some t0, m')" and "timer_reaches t0 t"
    and "\<not> tm_group t" and "tm_firing t = None" and "\<not> tm_stopped t"
    and "hdata (tm_heap t) = a # rest" and "rest \<noteq> []" and "deadline t a \<le> now"
    and "xTimerCancel a (fire accepted (expire now t)) = (rc, t')"
  shows "rc = xErrno_Ok \<and> a \<in> set (tm_mq t') \<and> \<not> tm_live t' a \<and>
    (\<exists>b. b \<in> set rest \<and> list_all (\<lambda>c. deadline t b \<le> deadline t c) rest \<and>
       mset (hdata (tm_heap t')) = mset rest - {#b#} \<and> tm_live t' b \<and> b \<notin># owned t')"
proof -
  have ok: "timer_ok t" using ok_reaches [OF assms(2)] ok_create [OF assms(1)] by blast
  have placed: "placed (tm_heap t)" using timer_okD(1) [OF ok] by (simp add: task.heap_ok_def)
  have dist: "distinct (a # rest)" using placed assms(6) by (simp add: placed_def)
  have a0: "hidx (tm_heap t) a = 0" using placed assms(6) unfolding placed_def by (metis length_greater_0_conv list.discI nth_Cons_0)
  obtain r h where p: "xHeapPop (cmp_task (deadline t)) (tm_heap t) = (r, h)" by fastforce
  note pop = task.pop_ok [OF timer_okD(1) [OF ok] _ p]
  have h: "task.heap_ok (deadline t) h" "mset (hdata h) = mset rest"
    using pop(1,4) assms(6) by simp_all
  have seth: "set (hdata h) = set rest" using h(2) by (rule mset_eq_setD)
  have ha: "hidx h a = 0" using pop(5) [of a] a0 assms(6) dist seth by simp
  have la: "tm_live t a" using heap_live [OF ok, of a] assms(6) by simp
  have ca: "\<not> tt_cancelled (tm_tasks t a)" using timer_okD(3) [OF ok la] by simp
  define t1 where "t1 = t\<lparr>tm_heap := h, tm_mq := tm_mq t @ [a]\<rparr>"
  have "expire now t = t\<lparr>tm_heap := h, tm_firing := Some a\<rparr>"
    using assms(4-6,8) p by (simp add: expire_def xHeapPeek_def)
  then have t1: "fire accepted (expire now t) = t1"
    using assms(3,4) la ca by (simp add: fire_def t1_def touch_def)
  obtain r2 h2 where rm: "xHeapRemove (cmp_task (deadline t)) h 0 = (r2, h2)" by fastforce
  have n: "0 < hsize h" using h(2) assms(7) by (metis length_greater_0_conv mset_zero_iff_right mset.simps(1))
  note rem = task.remove_ok [OF h(1) n rm]
  define b where "b = hdata h ! 0"
  have t': "rc = xErrno_Ok \<and> t' = t1\<lparr>tm_heap := set_idx a TIMER_INVALID_IDX h2,
      tm_tasks := (tm_tasks t)(a := (tm_tasks t a)\<lparr>tt_cancelled := True\<rparr>), tm_live := (tm_live t)(a := False)\<rparr>"
    using assms(9) la ca ha rm
    by (auto simp: t1 xTimerCancel_def t1_def slab_free_def touch_def TIMER_INVALID_IDX_def SIZE_MAX_def)
  have b: "b \<in> set rest" using n seth by (auto simp: b_def)
  have min: "list_all (\<lambda>c. deadline t b \<le> deadline t c) rest"
  proof -
    have "\<forall>c \<in> set (hdata h). cmp_task (deadline t) b c \<le> 0"
      using task.root_minimal h(1) by (auto simp: b_def task.heap_ok_def in_set_conv_nth)
    then show ?thesis unfolding seth by (fastforce simp: list_all_iff cmp_task_def split: if_splits)
  qed
  have lb: "tm_live t b" using heap_live [OF ok, of b] b assms(6) by simp
  have ba: "b \<noteq> a" using b dist by auto
  have "count (owned t) b = 1" using timer_okD(2) [OF ok, of b] lb by simp
  moreover have "count (mset rest) b = 1" using b dist distinct_count_atmost_1 [of rest] by auto
  ultimately have "count (owned t') b = 0"
    using t' rem(3) h(2) assms(4,6) ba by (simp add: owned_def t1_def set_idx_def b_def)
  then have out: "b \<notin># owned t'" by (simp add: count_eq_zero_iff)
  show ?thesis
    using t' b min lb ba out rem(3) h(2)
    by (auto simp: t1_def set_idx_def b_def [symmetric])
qed

theorem timer_cancel_expired_witness:
  "fst (xTimerCancel 1 (fire True (expire 15 ex_timer_three))) = xErrno_Ok \<and>
   tm_trace (poll_one (snd (xTimerCancel 1 (fire True (expire 15 ex_timer_three)))))
     = [Tev_use_after_free 1, Tev_run 1 7 1, Tev_use_after_free 1]"
proof
  have s: "\<not> tm_group ex_timer_three" "tm_firing ex_timer_three = None" "\<not> tm_stopped ex_timer_three"
    "hdata (tm_heap ex_timer_three) = 1 # [0, 2]" "[0, 2 :: nat] \<noteq> []" "deadline ex_timer_three 1 \<le> 15"
    by code_simp+
  show "fst (xTimerCancel 1 (fire True (expire 15 ex_timer_three))) = xErrno_Ok"
    using timer_cancel_expired [OF ex_timer_created ex_timer_three_reached s prod.collapse [symmetric]] ..
  show "tm_trace (poll_one (snd (xTimerCancel 1 (fire True (expire 15 ex_timer_three)))))
     = [Tev_use_after_free 1, Tev_run 1 7 1, Tev_use_after_free 1]"
    by code_simp
qed

end
