(* ===== verification/EventTimer.thy ===== *)
theory EventTimer
  imports Heap "HOL-Library.Word"
begin

text \<open>
  The timers of the event loop: \<^verbatim>\<open>libx/x/base/event_timer.c\<close>, \<^verbatim>\<open>loop_fire_expired_timers\<close> of
  \<^verbatim>\<open>event_private.c\<close> and the timer free list of \<^verbatim>\<open>event_private.h\<close>. A structure is named by a number
  and used again through the free list, as the code does.
\<close>

section \<open>State\<close>

definition EVENT_TIMER_INVALID_IDX :: nat where
  "EVENT_TIMER_INVALID_IDX = SIZE_MAX"

definition EVENT_TIMER_POOL_MAX :: nat where
  "EVENT_TIMER_POOL_MAX = 256"

record xEventTimer =
  et_deadline :: "64 word"
  et_fn :: nat
  et_arg :: nat
  et_fired :: bool

text \<open>
  \<open>el_batch\<close>: the popped timers whose callbacks are still to be called, \<open>el_called\<close>: those already
  called, both local to \<^verbatim>\<open>loop_fire_expired_timers\<close>. \<open>el_trace\<close>: the callbacks called.
\<close>

record xEventTimers =
  el_heap :: "nat xHeap"
  el_timers :: "nat \<Rightarrow> xEventTimer"
  el_freelist :: "nat list"
  el_next :: nat
  el_batch :: "nat list"
  el_called :: "nat list"
  el_mem :: allocs
  el_trace :: "(nat \<times> nat) list"

definition event_timer_cmp :: "(nat \<Rightarrow> 64 word) \<Rightarrow> nat cmp" where
  "event_timer_cmp dl a b = (if dl a < dl b then - 1 else if dl b < dl a then 1 else 0)"

interpretation evt: heap_order "event_timer_cmp dl" for dl
  by unfold_locales (auto simp: event_timer_cmp_def split: if_splits)

abbreviation et_due :: "xEventTimers \<Rightarrow> nat \<Rightarrow> 64 word" where
  "et_due l i \<equiv> et_deadline (el_timers l i)"

definition event_timer_set_idx :: "nat \<Rightarrow> nat \<Rightarrow> nat xHeap \<Rightarrow> nat xHeap" where
  "event_timer_set_idx i k h = h\<lparr>hidx := (hidx h)(i := k)\<rparr>"

definition zero_timer :: xEventTimer where
  "zero_timer = \<lparr>et_deadline = 0, et_fn = 0, et_arg = 0, et_fired = False\<rparr>"

section \<open>The free list\<close>

definition event_timer_alloc :: "xEventTimers \<Rightarrow> nat option \<times> xEventTimers" where
  "event_timer_alloc l =
     (case el_freelist l of
        i # rest \<Rightarrow> (Some i, l\<lparr>el_freelist := rest, el_timers := (el_timers l)(i := zero_timer),
                       el_heap := event_timer_set_idx i 0 (el_heap l)\<rparr>)
      | [] \<Rightarrow>
          let (ok, m) = draw (el_mem l); i = el_next l
          in if ok then (Some i, l\<lparr>el_mem := m, el_next := Suc i, el_timers := (el_timers l)(i := zero_timer),
                           el_heap := event_timer_set_idx i 0 (el_heap l)\<rparr>)
             else (None, l\<lparr>el_mem := m\<rparr>))"

definition event_timer_free :: "nat \<Rightarrow> xEventTimers \<Rightarrow> xEventTimers" where
  "event_timer_free i l =
     (if length (el_freelist l) < EVENT_TIMER_POOL_MAX then l\<lparr>el_freelist := i # el_freelist l\<rparr> else l)"

section \<open>The API\<close>

definition submit_timer :: "nat option \<Rightarrow> nat \<Rightarrow> 64 word \<Rightarrow> xEventTimers \<Rightarrow> nat option \<times> xEventTimers" where
  "submit_timer fn arg abs_ms l =
     (case fn of
        None \<Rightarrow> (None, l)
      | Some f \<Rightarrow>
          (case event_timer_alloc l of
             (None, l1) \<Rightarrow> (None, l1)
           | (Some i, l1) \<Rightarrow>
               let timers = (el_timers l1)(i := \<lparr>et_deadline = abs_ms, et_fn = f, et_arg = arg, et_fired = False\<rparr>)
               in case xHeapPush (event_timer_cmp (\<lambda>k. et_deadline (timers k))) (el_mem l1)
                    (event_timer_set_idx i EVENT_TIMER_INVALID_IDX (el_heap l1)) i of
                    (err, h, m) \<Rightarrow>
                      let l2 = l1\<lparr>el_timers := timers, el_heap := h, el_mem := m\<rparr>
                      in if err \<noteq> xErrno_Ok then (None, event_timer_free i l2) else (Some i, l2)))"

definition xEventLoopTimerAfter ::
  "64 word \<Rightarrow> nat option \<Rightarrow> nat \<Rightarrow> 64 word \<Rightarrow> xEventTimers \<Rightarrow> nat option \<times> xEventTimers" where
  "xEventLoopTimerAfter now fn arg delay_ms l = submit_timer fn arg (now + delay_ms) l"

definition xEventLoopTimerAt :: "nat option \<Rightarrow> nat \<Rightarrow> 64 word \<Rightarrow> xEventTimers \<Rightarrow> nat option \<times> xEventTimers" where
  "xEventLoopTimerAt fn arg abs_ms l = submit_timer fn arg abs_ms l"

definition xEventLoopTimerCancel :: "nat \<Rightarrow> xEventTimers \<Rightarrow> xErrno \<times> xEventTimers" where
  "xEventLoopTimerCancel i l =
     (if et_fired (el_timers l i) \<or> hidx (el_heap l) i = EVENT_TIMER_INVALID_IDX then (xErrno_InvalidState, l)
      else case xHeapRemove (event_timer_cmp (et_due l)) (el_heap l) (hidx (el_heap l) i) of
        (removed, h) \<Rightarrow>
          (xErrno_Ok, event_timer_free i (l\<lparr>el_heap := event_timer_set_idx i EVENT_TIMER_INVALID_IDX h\<rparr>)))"

section \<open>Firing\<close>

text \<open>
  The loop that holds the lock: \<open>c\<close> is the capacity of the batch. A failed growth leaves it after
  the timer has been popped.
\<close>

definition pop_fired :: "xEventTimers \<Rightarrow> nat \<Rightarrow> xEventTimers" where
  "pop_fired l i = l\<lparr>el_heap := snd (xHeapPop (event_timer_cmp (et_due l)) (el_heap l)),
     el_timers := (el_timers l)(i := (el_timers l i)\<lparr>et_fired := True\<rparr>)\<rparr>"

lemma pop_fired_less:
  assumes "xHeapPeek (el_heap l) = Some i"
  shows "hsize (el_heap (pop_fired l i)) < hsize (el_heap l)"
proof -
  obtain r h where p: "xHeapPop (event_timer_cmp (et_due l)) (el_heap l) = (r, h)" by fastforce
  with assms have "r = Some i" by (auto simp: xHeapPeek_def xHeapPop_def split: if_splits)
  with p pop_shrinks show ?thesis by (auto simp: pop_fired_def)
qed

function collect :: "64 word \<Rightarrow> nat \<Rightarrow> xEventTimers \<Rightarrow> xEventTimers" where
  "collect now c l =
     (case xHeapPeek (el_heap l) of
        None \<Rightarrow> l
      | Some i \<Rightarrow>
          if now < et_due l i then l
          else let l1 = pop_fired l i
               in if length (el_batch l1) = c
                  then let (ok, m) = draw (el_mem l1); l2 = l1\<lparr>el_mem := m\<rparr>
                       in if ok then collect now (c * 2) (l2\<lparr>el_batch := el_batch l2 @ [i]\<rparr>) else l2
                  else collect now c (l1\<lparr>el_batch := el_batch l1 @ [i]\<rparr>))"
  by pat_completeness auto
termination
  by (relation "measure (\<lambda>(now, c, l). hsize (el_heap l))") (auto simp: pop_fired_less)

declare collect.simps [simp del]

definition collect_expired :: "64 word \<Rightarrow> xEventTimers \<Rightarrow> xEventTimers" where
  "collect_expired now l = collect now 128 (l\<lparr>el_batch := [], el_called := []\<rparr>)"

text \<open>One callback, without the lock, and the return of the structures.\<close>

definition call_next :: "xEventTimers \<Rightarrow> xEventTimers" where
  "call_next l =
     (case el_batch l of
        [] \<Rightarrow> l
      | i # rest \<Rightarrow> l\<lparr>el_batch := rest, el_called := el_called l @ [i],
                      el_trace := el_trace l @ [(et_fn (el_timers l i), et_arg (el_timers l i))]\<rparr>)"

definition recycle :: "xEventTimers \<Rightarrow> xEventTimers" where
  "recycle l = (if el_batch l = [] then fold event_timer_free (el_called l) (l\<lparr>el_called := []\<rparr>) else l)"

text \<open>The whole function when no callback touches the timers.\<close>

definition loop_fire_expired_timers :: "64 word \<Rightarrow> xEventTimers \<Rightarrow> nat \<times> xEventTimers" where
  "loop_fire_expired_timers now l =
     (let l1 = collect_expired now l
      in (length (el_batch l1), recycle ((call_next ^^ length (el_batch l1)) l1)))"

section \<open>The invariant\<close>

text \<open>
  A structure is in at most one place; the timers in the heap have not fired, those of the batch
  have. A structure in none of the places has been lost or given back to the allocator.
\<close>

definition places :: "xEventTimers \<Rightarrow> nat multiset" where
  "places l = mset (hdata (el_heap l)) + mset (el_batch l) + mset (el_called l) + mset (el_freelist l)"

definition el_ok :: "xEventTimers \<Rightarrow> bool" where
  "el_ok l \<longleftrightarrow> evt.heap_ok (et_due l) (el_heap l) \<and> (\<forall>i. count (places l) i \<le> 1) \<and>
     (\<forall>i. i \<in># places l \<longrightarrow> i < el_next l) \<and>
     (\<forall>i \<in> set (hdata (el_heap l)). \<not> et_fired (el_timers l i)) \<and>
     (\<forall>i \<in> set (el_batch l) \<union> set (el_called l). et_fired (el_timers l i))"

lemma el_okD:
  assumes "el_ok l"
  shows "evt.heap_ok (et_due l) (el_heap l)" and "count (places l) i \<le> 1"
    and "i \<in># places l \<Longrightarrow> i < el_next l"
    and "i \<in> set (hdata (el_heap l)) \<Longrightarrow> \<not> et_fired (el_timers l i)"
    and "i \<in> set (el_batch l) \<union> set (el_called l) \<Longrightarrow> et_fired (el_timers l i)"
  using assms unfolding el_ok_def by blast+

lemma evt_ok_cong:
  assumes "evt.heap_ok dl h" and "\<And>i. i \<in> set (hdata h) \<Longrightarrow> dl' i = dl i"
  shows "evt.heap_ok dl' h"
  using assms ordered_cong [of "event_timer_cmp dl" "hdata h" "event_timer_cmp dl'"]
  by (simp add: evt.heap_ok_def event_timer_cmp_def)

lemma evt_ok_set_idx:
  "evt.heap_ok dl h \<Longrightarrow> i \<notin> set (hdata h) \<Longrightarrow> evt.heap_ok dl (event_timer_set_idx i k h)"
  by (auto simp: evt.heap_ok_def placed_def event_timer_set_idx_def)

text \<open>A place is left by taking out, entered by putting in.\<close>

lemma el_ok_shrink:
  assumes "el_ok l" and "evt.heap_ok (et_due l') (el_heap l')" and "places l' \<subseteq># places l"
    and "set (hdata (el_heap l')) \<subseteq> set (hdata (el_heap l))" and "el_next l \<le> el_next l'"
    and "\<And>i. i \<in># places l' \<Longrightarrow> i \<notin> set (el_batch l') \<union> set (el_called l') \<Longrightarrow> et_fired (el_timers l' i) = et_fired (el_timers l i)"
    and "\<forall>i \<in> set (el_batch l') \<union> set (el_called l'). et_fired (el_timers l' i)"
  shows "el_ok l'"
proof -
  have c: "count (places l') i \<le> 1" for i
    using mset_subset_eq_count [OF assms(3), of i] el_okD(2) [OF assms(1), of i] by simp
  have n: "i < el_next l'" if "i \<in># places l'" for i
    using mset_subset_eqD [OF assms(3) that] el_okD(3) [OF assms(1), of i] assms(5) by simp
  have f: "\<not> et_fired (el_timers l' i)" if i: "i \<in> set (hdata (el_heap l'))" for i
  proof -
    have "i \<notin># mset (el_batch l') + mset (el_called l') + mset (el_freelist l')"
      by (rule in_one_part [of _ "mset (hdata (el_heap l'))"]) (use i c [of i] in \<open>simp_all add: places_def ac_simps\<close>)
    then have "i \<notin> set (el_batch l') \<union> set (el_called l')" by simp
    moreover have "i \<in># places l'" using i by (simp add: places_def)
    ultimately show ?thesis using assms(4,6) i el_okD(4) [OF assms(1), of i] by auto
  qed
  from assms(2,7) c n f show ?thesis by (simp add: el_ok_def)
qed

text \<open>Popping one due timer.\<close>

lemma pop_fired_ok:
  assumes "el_ok l" and "xHeapPeek (el_heap l) = Some i"
  shows "evt.heap_ok (et_due (pop_fired l i)) (el_heap (pop_fired l i))"
    and "et_due (pop_fired l i) = et_due l"
    and "mset (hdata (el_heap l)) = add_mset i (mset (hdata (el_heap (pop_fired l i))))"
    and "\<forall>y \<in> set (hdata (el_heap l)). et_due l i \<le> et_due l y"
proof -
  have ne: "hdata (el_heap l) \<noteq> []" and i: "i = hdata (el_heap l) ! 0"
    using assms(2) by (auto simp: xHeapPeek_def split: if_splits)
  obtain r h where p: "xHeapPop (event_timer_cmp (et_due l)) (el_heap l) = (r, h)" by fastforce
  note pop = evt.pop_ok [OF el_okD(1) [OF assms(1)] ne p]
  show dl: "et_due (pop_fired l i) = et_due l" by (rule ext) (simp add: pop_fired_def)
  show "evt.heap_ok (et_due (pop_fired l i)) (el_heap (pop_fired l i))"
    unfolding dl using pop(1) p by (simp add: pop_fired_def)
  have "i \<in># mset (hdata (el_heap l))" using ne by (simp add: i)
  then show "mset (hdata (el_heap l)) = add_mset i (mset (hdata (el_heap (pop_fired l i))))"
    using pop(4) p by (simp add: pop_fired_def i)
  show "\<forall>y \<in> set (hdata (el_heap l)). et_due l i \<le> et_due l y"
    using pop(3) by (fastforce simp: i event_timer_cmp_def split: if_splits)
qed

text \<open>A popped timer that enters the batch, and one that is lost.\<close>

lemma el_ok_pop_fired:
  assumes "el_ok l" and "xHeapPeek (el_heap l) = Some i"
  shows "el_ok (pop_fired l i\<lparr>el_mem := m\<rparr>)" and "el_ok (pop_fired l i\<lparr>el_mem := m, el_batch := el_batch l @ [i]\<rparr>)"
proof -
  note p = pop_fired_ok [OF assms]
  have sub: "set (hdata (el_heap (pop_fired l i))) \<subseteq> set (hdata (el_heap l))"
    using p(3) by (metis set_mset_add_mset_insert set_mset_mset subset_insertI)
  have f: "et_fired (el_timers (pop_fired l i) j) = (j = i \<or> et_fired (el_timers l j))" for j
    by (simp add: pop_fired_def)
  have same: "el_batch (pop_fired l i) = el_batch l" "el_called (pop_fired l i) = el_called l"
    "el_freelist (pop_fired l i) = el_freelist l" "el_next (pop_fired l i) = el_next l"
    by (simp_all add: pop_fired_def)
  have batch: "\<forall>j \<in> set (el_batch l) \<union> set (el_called l). et_fired (el_timers (pop_fired l i) j)"
    using el_okD(5) [OF assms(1)] f by blast
  have once: "i \<notin># mset (hdata (el_heap (pop_fired l i))) + mset (el_freelist l)"
  proof -
    have "count (places l) i \<le> 1" by (rule el_okD(2) [OF assms(1)])
    then have "count (mset (hdata (el_heap (pop_fired l i))) + mset (el_freelist l)) i = 0"
      using p(3) by (simp add: places_def)
    then show ?thesis by (simp only: not_in_iff)
  qed
  show "el_ok (pop_fired l i\<lparr>el_mem := m\<rparr>)"
    by (rule el_ok_shrink [OF assms(1)])
      (use p sub batch once in \<open>auto simp: places_def same f\<close>)
  show "el_ok (pop_fired l i\<lparr>el_mem := m, el_batch := el_batch l @ [i]\<rparr>)"
    by (rule el_ok_shrink [OF assms(1)])
      (use p sub batch once in \<open>auto simp: places_def same f\<close>)
qed

section \<open>Collecting\<close>

text \<open>Whatever allocations fail, the invariant is kept.\<close>

lemma el_ok_collect: "el_ok l \<Longrightarrow> el_ok (collect now c l)"
proof (induction now c l rule: collect.induct)
  case (1 now c l)
  show ?case
  proof (cases "xHeapPeek (el_heap l)")
    case None
    with 1(3) show ?thesis by (subst collect.simps) simp
  next
    case (Some i)
    note ok = el_ok_pop_fired [OF 1(3) Some]
    have same: "el_batch (pop_fired l i) = el_batch l" "el_mem (pop_fired l i) = el_mem l"
      by (simp_all add: pop_fired_def)
    obtain b m where d: "draw (el_mem l) = (b, m)" by fastforce
    have "pop_fired l i\<lparr>el_mem := el_mem (pop_fired l i)\<rparr> = pop_fired l i" by simp
    then have ok': "el_ok (pop_fired l i\<lparr>el_batch := el_batch l @ [i]\<rparr>)"
      using ok(2) [of "el_mem (pop_fired l i)"] by simp
    show ?thesis
    proof (cases "now < et_due l i")
      case True
      with 1(3) Some show ?thesis by (subst collect.simps) simp
    next
      case False
      show ?thesis
        using 1(1) [OF Some False refl _ d [symmetric, folded same(2)] refl] 1(2) [OF Some False refl]
          ok ok' Some False d same
        by (subst collect.simps) (auto simp: Let_def)
    qed
  qed
qed

text \<open>
  With memory to spare the batch gets exactly the due timers, earliest first, and the heap keeps the
  others.
\<close>

lemma collect_all:
  assumes "el_ok l" and "el_mem l = []"
  shows "\<exists>due. el_batch (collect now c l) = el_batch l @ due \<and>
    mset (hdata (el_heap l)) = mset due + mset (hdata (el_heap (collect now c l))) \<and>
    (\<forall>i \<in> set due. et_due l i \<le> now) \<and> (\<forall>i \<in> set (hdata (el_heap (collect now c l))). now < et_due l i) \<and>
    sorted_wrt (\<lambda>i j. et_due l i \<le> et_due l j) due \<and> et_due (collect now c l) = et_due l \<and>
    el_mem (collect now c l) = [] \<and> el_called (collect now c l) = el_called l \<and>
    el_freelist (collect now c l) = el_freelist l \<and> el_trace (collect now c l) = el_trace l"
  using assms
proof (induction now c l rule: collect.induct)
  case (1 now c l)
  show ?case
  proof (cases "xHeapPeek (el_heap l)")
    case None
    then have "collect now c l = l" by (subst collect.simps) simp
    moreover have "hdata (el_heap l) = []" using None by (simp add: xHeapPeek_def split: if_splits)
    ultimately show ?thesis using 1(4) by simp
  next
    case (Some i)
    note p = pop_fired_ok [OF 1(3) Some]
    show ?thesis
    proof (cases "now < et_due l i")
      case True
      then have "collect now c l = l" using Some by (subst collect.simps) simp
      moreover have "\<forall>j \<in> set (hdata (el_heap l)). now < et_due l j" using True p(4) by (auto intro: less_le_trans)
      ultimately show ?thesis using 1(4) by simp
    next
      case False
      define l1 where "l1 = pop_fired l i\<lparr>el_mem := [], el_batch := el_batch l @ [i]\<rparr>"
      have same: "el_batch (pop_fired l i) = el_batch l" "el_mem (pop_fired l i) = []"
        using 1(4) by (simp_all add: pop_fired_def)
      have alt: "pop_fired l i\<lparr>el_batch := el_batch l @ [i]\<rparr> = l1"
        using same(2) by (simp add: l1_def)
      define c' where "c' = (if length (el_batch l) = c then c * 2 else c)"
      have step: "collect now c l = collect now c' l1"
      proof (cases "length (el_batch l) = c")
        case True
        with Some False same show ?thesis by (subst collect.simps) (simp add: Let_def l1_def c'_def)
      next
        case other: False
        with Some False same alt show ?thesis by (subst collect.simps) (simp add: Let_def c'_def)
      qed
      have ok: "el_ok l1" unfolding l1_def by (rule el_ok_pop_fired(2) [OF 1(3) Some])
      have l1: "el_mem l1 = []" "et_due l1 = et_due l" "el_heap l1 = el_heap (pop_fired l i)"
        "el_called l1 = el_called l" "el_freelist l1 = el_freelist l" "el_trace l1 = el_trace l"
        "el_batch l1 = el_batch l @ [i]"
        using p(2) by (simp_all add: l1_def) (simp_all add: pop_fired_def)
      have due_at: "et_due l1 j = et_due l j" for j using l1(2) by metis
      have ih: "\<exists>due. el_batch (collect now c' l1) = el_batch l1 @ due \<and>
          mset (hdata (el_heap l1)) = mset due + mset (hdata (el_heap (collect now c' l1))) \<and>
          (\<forall>i \<in> set due. et_due l1 i \<le> now) \<and> (\<forall>i \<in> set (hdata (el_heap (collect now c' l1))). now < et_due l1 i) \<and>
          sorted_wrt (\<lambda>i j. et_due l1 i \<le> et_due l1 j) due \<and> et_due (collect now c' l1) = et_due l1 \<and>
          el_mem (collect now c' l1) = [] \<and> el_called (collect now c' l1) = el_called l1 \<and>
          el_freelist (collect now c' l1) = el_freelist l1 \<and> el_trace (collect now c' l1) = el_trace l1"
      proof (cases "length (el_batch l) = c")
        case True
        have "el_ok (pop_fired l i\<lparr>el_mem := [], el_batch := el_batch (pop_fired l i\<lparr>el_mem := []\<rparr>) @ [i]\<rparr>)"
          using ok same by (simp add: l1_def)
        with 1(1) [OF Some False refl, of "(True, [])" True "[]" "pop_fired l i\<lparr>el_mem := []\<rparr>"] True same l1(1)
        show ?thesis by (simp add: l1_def c'_def)
      next
        case False2: False
        with 1(2) [OF Some False refl] same ok alt l1(1) show ?thesis by (simp add: c'_def)
      qed
      then obtain due where due: "el_batch (collect now c' l1) = el_batch l @ i # due"
          "mset (hdata (el_heap (pop_fired l i))) = mset due + mset (hdata (el_heap (collect now c' l1)))"
          "\<forall>j \<in> set due. et_due l j \<le> now" "\<forall>j \<in> set (hdata (el_heap (collect now c' l1))). now < et_due l j"
          "sorted_wrt (\<lambda>i j. et_due l i \<le> et_due l j) due" "et_due (collect now c' l1) = et_due l"
          "el_mem (collect now c' l1) = []" "el_called (collect now c' l1) = el_called l"
          "el_freelist (collect now c' l1) = el_freelist l" "el_trace (collect now c' l1) = el_trace l"
        using due_at unfolding l1 by auto
      have "set due \<subseteq> set (hdata (el_heap l))"
        using p(3) due(2) by (metis mset_subset_eq_add_left set_mset_mono set_mset_mset set_mset_add_mset_insert subset_insertI2)
      then have "\<forall>j \<in> set due. et_due l i \<le> et_due l j" using p(4) by blast
      then show ?thesis
        unfolding step using due p(3) False by (intro exI [of _ "i # due"]) auto
    qed
  qed
qed

section \<open>The other operations\<close>

lemma el_ok_alloc:
  assumes "el_ok l" and "event_timer_alloc l = (Some i, l')"
  shows "el_ok l'" and "i \<notin># places l'" and "i < el_next l'"
proof -
  have out: "i \<notin> set (hdata (el_heap l)) \<and> i \<notin> set (el_batch l) \<and> i \<notin> set (el_called l) \<and>
    places l = places l' + (if el_freelist l = [] then {#} else {#i#}) \<and> i < el_next l' \<and> i \<notin># places l'"
  proof (cases "el_freelist l")
    case Nil
    then have i: "i = el_next l" "places l' = places l" "el_next l' = Suc i"
      using assms(2) by (auto simp: event_timer_alloc_def places_def event_timer_set_idx_def Let_def
          split: prod.splits if_splits)
    then have "i \<notin># places l" using el_okD(3) [OF assms(1), of i] by auto
    then show ?thesis using i Nil by (auto simp: places_def)
  next
    case (Cons j rest)
    then have i: "j = i" "places l = add_mset i (places l')" "el_next l' = el_next l"
      using assms(2) by (auto simp: event_timer_alloc_def places_def event_timer_set_idx_def)
    have "i \<notin># places l'"
      by (rule in_one_part [of _ "{#i#}"]) (use el_okD(2) [OF assms(1), of i] i in simp_all)
    moreover have "i < el_next l'" using el_okD(3) [OF assms(1), of i] i by simp
    moreover have "i \<notin> set (hdata (el_heap l')) \<union> set (el_batch l') \<union> set (el_called l')"
      using \<open>i \<notin># places l'\<close> by (simp add: places_def)
    moreover have "hdata (el_heap l') = hdata (el_heap l)" "el_batch l' = el_batch l" "el_called l' = el_called l"
      using assms(2) Cons by (auto simp: event_timer_alloc_def event_timer_set_idx_def)
    ultimately show ?thesis using i Cons by simp
  qed
  have l': "hdata (el_heap l') = hdata (el_heap l)" "el_batch l' = el_batch l" "el_called l' = el_called l"
    "el_next l \<le> el_next l'" "el_heap l' = event_timer_set_idx i 0 (el_heap l)"
    "\<And>j. j \<noteq> i \<Longrightarrow> el_timers l' j = el_timers l j"
    using assms(2) by (auto simp: event_timer_alloc_def event_timer_set_idx_def Let_def
        split: list.splits prod.splits if_splits)
  show "el_ok l'"
  proof (rule el_ok_shrink [OF assms(1)])
    have "evt.heap_ok (et_due l') (el_heap l)"
    proof (rule evt_ok_cong [OF el_okD(1) [OF assms(1)]])
      fix j assume "j \<in> set (hdata (el_heap l))"
      with out have "j \<noteq> i" by auto
      then show "et_due l' j = et_due l j" by (simp add: l'(6))
    qed
    then show "evt.heap_ok (et_due l') (el_heap l')" unfolding l'(5) using out by (intro evt_ok_set_idx) simp_all
    show "\<forall>j \<in> set (el_batch l') \<union> set (el_called l'). et_fired (el_timers l' j)"
    proof
      fix j assume j: "j \<in> set (el_batch l') \<union> set (el_called l')"
      with out have "j \<noteq> i" by (auto simp: l'(2,3))
      with el_okD(5) [OF assms(1), of j] j show "et_fired (el_timers l' j)" by (simp add: l'(2,3,6))
    qed
    show "et_fired (el_timers l' j) = et_fired (el_timers l j)" if "j \<in># places l'" for j
    proof -
      from that out have "j \<noteq> i" by auto
      then show ?thesis by (simp add: l'(6))
    qed
    show "places l' \<subseteq># places l" using out by simp
  qed (simp_all add: l' event_timer_set_idx_def)
  from out show "i \<notin># places l'" "i < el_next l'" by simp_all
qed

lemma el_ok_free: "el_ok l \<Longrightarrow> i \<notin># places l \<Longrightarrow> i < el_next l \<Longrightarrow> el_ok (event_timer_free i l)"
proof -
  assume ok: "el_ok l" and i: "i \<notin># places l" "i < el_next l"
  define l' where "l' = l\<lparr>el_freelist := i # el_freelist l\<rparr>"
  have pl: "places l' = add_mset i (places l)" by (simp add: places_def l'_def)
  have "count (places l') j \<le> 1" for j
    using el_okD(2) [OF ok, of j] i(1) by (cases "j = i") (simp_all add: pl not_in_iff)
  moreover have "j < el_next l'" if "j \<in># places l'" for j
    using that el_okD(3) [OF ok, of j] i(2) by (cases "j = i") (simp_all add: pl, simp_all add: l'_def)
  ultimately have "el_ok l'" using ok by (simp add: el_ok_def) (simp add: l'_def)
  with ok show "el_ok (event_timer_free i l)" by (simp add: event_timer_free_def l'_def)
qed

lemma el_ok_submit: "el_ok l \<Longrightarrow> el_ok (snd (submit_timer fn arg abs_ms l))"
proof -
  assume ok: "el_ok l"
  obtain o1 l1 where a: "event_timer_alloc l = (o1, l1)" by fastforce
  show ?thesis
  proof (cases "fn = None \<or> o1 = None")
    case True
    then have "\<exists>m. snd (submit_timer fn arg abs_ms l) = l\<lparr>el_mem := m\<rparr>"
      using a by (cases fn) (auto simp: submit_timer_def event_timer_alloc_def Let_def
          split: list.splits prod.splits if_splits intro: exI [of _ "el_mem l"])
    then obtain m where "snd (submit_timer fn arg abs_ms l) = l\<lparr>el_mem := m\<rparr>" by blast
    with ok show ?thesis by (simp add: el_ok_def places_def)
  next
    case False
    then obtain f i where f: "fn = Some f" "o1 = Some i" by auto
    note al = el_ok_alloc [OF ok a [unfolded f(2)]]
    define timers where
      "timers = (el_timers l1)(i := \<lparr>et_deadline = abs_ms, et_fn = f, et_arg = arg, et_fired = False\<rparr>)"
    define dl where "dl = (\<lambda>k. et_deadline (timers k))"
    define h0 where "h0 = event_timer_set_idx i EVENT_TIMER_INVALID_IDX (el_heap l1)"
    have out: "i \<notin> set (hdata (el_heap l1))" "i \<notin> set (el_batch l1) \<union> set (el_called l1)"
      using al(2) by (simp_all add: places_def)
    have h0: "evt.heap_ok dl h0" "i \<notin> set (hdata h0)"
    proof -
      have "evt.heap_ok dl (el_heap l1)"
        by (rule evt_ok_cong [OF el_okD(1) [OF al(1)]]) (use out in \<open>auto simp: dl_def timers_def\<close>)
      then show "evt.heap_ok dl h0" unfolding h0_def using out(1) by (rule evt_ok_set_idx)
      show "i \<notin> set (hdata h0)" using out by (simp add: h0_def event_timer_set_idx_def)
    qed
    obtain err h m where p: "xHeapPush (event_timer_cmp dl) (el_mem l1) h0 i = (err, h, m)" by (metis prod_cases3)
    note push = evt.push_ok [OF h0 p]
    define l2 where "l2 = l1\<lparr>el_timers := timers, el_heap := h, el_mem := m\<rparr>"
    have eq: "snd (submit_timer fn arg abs_ms l) = (if err \<noteq> xErrno_Ok then event_timer_free i l2 else l2)"
      using p unfolding dl_def h0_def timers_def l2_def
      by (simp add: submit_timer_def f(1) a [unfolded f(2)] Let_def)
    have dl: "et_due l2 = dl" by (rule ext) (simp add: l2_def dl_def)
    have b: "\<forall>j \<in> set (el_batch l2) \<union> set (el_called l2). et_fired (el_timers l2 j)"
      using el_okD(5) [OF al(1)] out(2) by (auto simp: l2_def timers_def)
    show ?thesis
    proof (cases "err = xErrno_Ok")
      case False
      have h: "h = h0" using push(3) [OF False] by simp
      have pl: "places l2 = places l1" by (simp add: places_def l2_def h h0_def event_timer_set_idx_def)
      have "el_ok l2"
      proof (rule el_ok_shrink [OF al(1)])
        show "evt.heap_ok (et_due l2) (el_heap l2)" unfolding dl using push(1) by (simp add: l2_def)
        show "et_fired (el_timers l2 j) = et_fired (el_timers l1 j)" if "j \<in># places l2" for j
        proof -
          have "j \<noteq> i" using that al(2) pl by auto
          then show ?thesis by (simp add: l2_def timers_def)
        qed
        show "places l2 \<subseteq># places l1" by (simp add: pl)
      qed (use b in \<open>simp_all add: l2_def h h0_def event_timer_set_idx_def\<close>)
      then have "el_ok (event_timer_free i l2)"
        using al(2,3) pl by (intro el_ok_free) (simp_all add: l2_def)
      with False eq show ?thesis by simp
    next
      case True
      have hm: "mset (hdata h) = add_mset i (mset (hdata (el_heap l1)))"
        using push(2) [OF True] by (simp add: h0_def event_timer_set_idx_def)
      then have pl: "places l2 = add_mset i (places l1)" by (simp add: places_def l2_def)
      have "count (places l2) j \<le> 1" for j
        using el_okD(2) [OF al(1), of j] al(2) by (auto simp: pl not_in_iff)
      moreover have "j < el_next l2" if "j \<in># places l2" for j
        using that el_okD(3) [OF al(1), of j] al(3) by (auto simp: pl, auto simp: l2_def)
      moreover have "\<not> et_fired (el_timers l2 j)" if "j \<in> set (hdata (el_heap l2))" for j
      proof -
        have "j = i \<or> j \<in> set (hdata (el_heap l1))"
          using that hm by (metis (no_types) l2_def xEventTimers.select_convs(1) xEventTimers.surjective
              xEventTimers.update_convs(1,2,7) insert_iff set_mset_add_mset_insert set_mset_mset)
        then show ?thesis using el_okD(4) [OF al(1), of j] by (auto simp: l2_def timers_def)
      qed
      ultimately have "el_ok l2" using push(1) b by (auto simp: el_ok_def dl, simp add: l2_def)
      with True eq show ?thesis by simp
    qed
  qed
qed

lemma el_ok_cancel: "el_ok l \<Longrightarrow> i \<in># places l - mset (el_freelist l) \<Longrightarrow> el_ok (snd (xEventLoopTimerCancel i l))"
proof -
  assume ok: "el_ok l" and i: "i \<in># places l - mset (el_freelist l)"
  show ?thesis
  proof (cases "i \<in> set (hdata (el_heap l))")
    case False
    then have "et_fired (el_timers l i)"
      using i el_okD(5) [OF ok, of i] by (auto simp: places_def)
    with ok show ?thesis by (simp add: xEventLoopTimerCancel_def)
  next
    case True
    define k where "k = hidx (el_heap l) i"
    have k: "k < hsize (el_heap l)" "hdata (el_heap l) ! k = i"
      using el_okD(1) [OF ok] True by (auto simp: evt.heap_ok_def placed_def k_def in_set_conv_nth)
    obtain r h where rm: "xHeapRemove (event_timer_cmp (et_due l)) (el_heap l) k = (r, h)" by fastforce
    note rem = evt.remove_ok [OF el_okD(1) [OF ok] k(1) rm]
    define l' where "l' = l\<lparr>el_heap := event_timer_set_idx i EVENT_TIMER_INVALID_IDX h\<rparr>"
    have hm: "mset (hdata (el_heap l)) = add_mset i (mset (hdata h))" using rem(3) k(2) True by simp
    then have pl: "places l = {#i#} + places l'" by (simp add: places_def l'_def event_timer_set_idx_def)
    have out: "i \<notin># places l'"
      by (rule in_one_part [of _ "{#i#}"]) (use el_okD(2) [OF ok, of i] pl in simp_all)
    then have oh: "i \<notin> set (hdata h)" by (simp add: places_def l'_def event_timer_set_idx_def)
    have sub: "set (hdata h) \<subseteq> set (hdata (el_heap l))"
      using hm by (metis set_mset_add_mset_insert set_mset_mset subset_insertI)
    have dl: "et_due l' = et_due l" by (rule ext) (simp add: l'_def)
    have "el_ok l'"
      by (rule el_ok_shrink [OF ok])
        (use evt_ok_set_idx [OF rem(1) oh] pl sub el_okD(5) [OF ok] in
          \<open>auto simp: dl, auto simp: l'_def event_timer_set_idx_def\<close>)
    moreover have "i < el_next l'" using el_okD(3) [OF ok, of i] pl by (simp add: l'_def)
    ultimately have "el_ok (event_timer_free i l')" using out by (intro el_ok_free)
    moreover have "snd (xEventLoopTimerCancel i l) = l \<or> snd (xEventLoopTimerCancel i l) = event_timer_free i l'"
      using rm by (auto simp: xEventLoopTimerCancel_def k_def l'_def)
    ultimately show ?thesis using ok by auto
  qed
qed

lemma el_ok_call_next: "el_ok l \<Longrightarrow> el_ok (call_next l)"
proof (cases "el_batch l")
  case Nil
  then show "el_ok l \<Longrightarrow> ?thesis" by (simp add: call_next_def)
next
  case (Cons i rest)
  assume ok: "el_ok l"
  show ?thesis
    by (rule el_ok_shrink [OF ok])
      (use el_okD(1,5) [OF ok] in \<open>simp_all add: call_next_def Cons places_def\<close>)
qed

lemma el_ok_recycle: "el_ok l \<Longrightarrow> el_ok (recycle l)"
proof -
  have "el_ok (fold event_timer_free js (l\<lparr>el_called := []\<rparr>))"
    if "el_ok (l\<lparr>el_called := js\<rparr>)" "el_batch l = []" for js l
    using that
  proof (induction js arbitrary: l)
    case Nil
    then show ?case by simp
  next
    case (Cons i js)
    define l1 where "l1 = event_timer_free i (l\<lparr>el_called := js\<rparr>)"
    have pl: "places (l\<lparr>el_called := i # js\<rparr>) = {#i#} + places (l\<lparr>el_called := js\<rparr>)" by (simp add: places_def)
    have rest: "el_ok (l\<lparr>el_called := js\<rparr>)"
      by (rule el_ok_shrink [OF Cons.prems(1)]) (use el_okD(1,5) [OF Cons.prems(1)] in \<open>simp_all add: pl\<close>)
    moreover have "i \<notin># places (l\<lparr>el_called := js\<rparr>)"
      by (rule in_one_part [of _ "{#i#}"]) (use el_okD(2) [OF Cons.prems(1), of i] pl in simp_all)
    moreover have "i < el_next (l\<lparr>el_called := js\<rparr>)" using el_okD(3) [OF Cons.prems(1), of i] pl by simp
    ultimately have "el_ok l1" unfolding l1_def by (rule el_ok_free)
    moreover have "l1 = (event_timer_free i (l\<lparr>el_called := []\<rparr>))\<lparr>el_called := js\<rparr>" "el_batch l1 = []"
      using Cons.prems(2) by (simp_all add: l1_def event_timer_free_def)
    ultimately have "el_ok (fold event_timer_free js ((event_timer_free i (l\<lparr>el_called := []\<rparr>))\<lparr>el_called := []\<rparr>))"
      using Cons.prems(2) by (intro Cons.IH) (simp_all add: event_timer_free_def)
    moreover have "(event_timer_free i (l\<lparr>el_called := []\<rparr>))\<lparr>el_called := []\<rparr> = event_timer_free i (l\<lparr>el_called := []\<rparr>)"
      by (simp add: event_timer_free_def)
    ultimately show ?case by simp
  qed
  from this [where l = l and js = "el_called l"] show "el_ok l \<Longrightarrow> el_ok (recycle l)" by (simp add: recycle_def)
qed

text \<open>
  The runs of the loop's timers: callers cancel handles they still hold, callbacks run between the
  two critical sections of the firing function and may submit and cancel.
\<close>

definition no_timers :: "allocs \<Rightarrow> xEventTimers" where
  "no_timers m = \<lparr>el_heap = \<lparr>hdata = [], hcap = HEAP_DEFAULT_CAP, hidx = (\<lambda>_. 0)\<rparr>,
     el_timers = (\<lambda>_. zero_timer), el_freelist = [], el_next = 0, el_batch = [], el_called = [],
     el_mem = m, el_trace = []\<rparr>"

inductive el_moves :: "xEventTimers \<Rightarrow> xEventTimers \<Rightarrow> bool" where
  elm_submit: "el_moves l (snd (submit_timer fn arg abs_ms l))"
| elm_cancel: "i \<in># places l - mset (el_freelist l) \<Longrightarrow> el_moves l (snd (xEventLoopTimerCancel i l))"
| elm_collect: "el_batch l = [] \<Longrightarrow> el_called l = [] \<Longrightarrow> el_moves l (collect_expired now l)"
| elm_call: "el_moves l (call_next l)"
| elm_recycle: "el_moves l (recycle l)"

inductive el_reaches :: "xEventTimers \<Rightarrow> xEventTimers \<Rightarrow> bool" where
  elr_refl: "el_reaches l l"
| elr_step: "el_reaches l l1 \<Longrightarrow> el_moves l1 l2 \<Longrightarrow> el_reaches l l2"

inductive_cases el_moves_cases: "el_moves l l'"

lemma el_ok_moves: "el_moves l l' \<Longrightarrow> el_ok l \<Longrightarrow> el_ok l'"
proof (erule el_moves_cases)
  fix now
  assume "el_ok l" "l' = collect_expired now l" "el_batch l = []" "el_called l = []"
  moreover from this have "l\<lparr>el_batch := [], el_called := []\<rparr> = l" by simp
  ultimately show "el_ok l'" by (simp add: collect_expired_def el_ok_collect)
qed (simp_all add: el_ok_submit el_ok_cancel el_ok_call_next el_ok_recycle)

lemma el_ok_start: "el_ok (no_timers m)"
  by (simp add: el_ok_def no_timers_def places_def evt.heap_ok_def placed_def ordered_def)

lemma el_ok_reaches: "el_reaches l l' \<Longrightarrow> el_ok l \<Longrightarrow> el_ok l'"
  by (induction rule: el_reaches.induct) (auto intro: el_ok_moves)

section \<open>Promises of the loop's timers\<close>

lemma free_keeps:
  "el_heap (event_timer_free i l) = el_heap l" "el_trace (event_timer_free i l) = el_trace l"
  "el_timers (event_timer_free i l) = el_timers l"
  by (simp_all add: event_timer_free_def)

lemma fold_free_keeps:
  "el_heap (fold event_timer_free js l) = el_heap l \<and> el_trace (fold event_timer_free js l) = el_trace l"
  by (induction js arbitrary: l) (simp_all add: free_keeps)

lemma recycle_keeps: "el_heap (recycle l) = el_heap l" "el_trace (recycle l) = el_trace l"
  by (simp_all add: recycle_def fold_free_keeps)

lemma call_all:
  "el_batch l = is1 \<Longrightarrow> el_heap ((call_next ^^ length is1) l) = el_heap l \<and>
   el_trace ((call_next ^^ length is1) l) =
     el_trace l @ map (\<lambda>i. (et_fn (el_timers l i), et_arg (el_timers l i))) is1"
proof (induction is1 arbitrary: l)
  case Nil
  then show ?case by simp
next
  case (Cons i js)
  define l1 where "l1 = call_next l"
  have l1: "el_batch l1 = js" "el_heap l1 = el_heap l" "el_timers l1 = el_timers l"
    "el_trace l1 = el_trace l @ [(et_fn (el_timers l i), et_arg (el_timers l i))]"
    using Cons.prems by (simp_all add: l1_def call_next_def)
  have "(call_next ^^ length (i # js)) l = (call_next ^^ length js) l1"
    by (simp add: l1_def funpow_swap1)
  with Cons.IH [OF l1(1)] l1 show ?case by simp
qed

text \<open>A firing writes only the flag of a timer.\<close>

lemma collect_calls:
  "et_fn (el_timers (collect now c l) i) = et_fn (el_timers l i) \<and>
   et_arg (el_timers (collect now c l) i) = et_arg (el_timers l i)"
proof (induction now c l rule: collect.induct)
  case (1 now c l)
  have one: "et_fn (el_timers (pop_fired l k) i) = et_fn (el_timers l i)"
    "et_arg (el_timers (pop_fired l k) i) = et_arg (el_timers l i)" for k
    by (simp_all add: pop_fired_def)
  from 1 show ?case
    by (subst (1 2) collect.simps) (auto simp: Let_def one split: option.split prod.split)
qed

text \<open>
  With memory to spare, one firing of the loop calls the callbacks of exactly the timers that
  are due, each once and the earliest first, returns their number, and leaves the others pending;
  handles of timers it is calling cannot be cancelled any more.
\<close>

theorem event_timers_fire_due:
  assumes "el_reaches (no_timers m) l" and "el_batch l = []" and "el_called l = []" and "el_mem l = []"
    and "loop_fire_expired_timers now l = (n, l')"
  shows "\<exists>due. n = length due \<and>
    el_trace l' = el_trace l @ map (\<lambda>i. (et_fn (el_timers l i), et_arg (el_timers l i))) due \<and>
    mset (hdata (el_heap l)) = mset due + mset (hdata (el_heap l')) \<and>
    (\<forall>i \<in> set due. et_due l i \<le> now) \<and> (\<forall>i \<in> set (hdata (el_heap l')). now < et_due l i) \<and>
    sorted_wrt (\<lambda>i j. et_due l i \<le> et_due l j) due \<and>
    (\<forall>i \<in> set due. xEventLoopTimerCancel i (collect_expired now l) = (xErrno_InvalidState, collect_expired now l))"
proof -
  have ok: "el_ok l" by (rule el_ok_reaches [OF assms(1) el_ok_start])
  have same: "l\<lparr>el_batch := [], el_called := []\<rparr> = l" using assms(2,3) by simp
  define l1 where "l1 = collect now 128 l"
  have c: "collect_expired now l = l1" by (simp add: collect_expired_def same l1_def)
  obtain due where due: "el_batch l1 = due"
      "mset (hdata (el_heap l)) = mset due + mset (hdata (el_heap l1))"
      "\<forall>i \<in> set due. et_due l i \<le> now" "\<forall>i \<in> set (hdata (el_heap l1)). now < et_due l i"
      "sorted_wrt (\<lambda>i j. et_due l i \<le> et_due l j) due" "el_trace l1 = el_trace l"
    using collect_all [OF ok assms(4), of now 128] assms(2) unfolding l1_def by auto
  note calls = call_all [OF due(1)]
  have l': "n = length due" "el_heap l' = el_heap l1"
    "el_trace l' = el_trace l @ map (\<lambda>i. (et_fn (el_timers l i), et_arg (el_timers l i))) due"
    using assms(5) calls due(1,6) collect_calls [of now 128 l]
    by (auto simp: loop_fire_expired_timers_def c Let_def recycle_keeps l1_def)
  have "el_ok l1" unfolding l1_def by (rule el_ok_collect [OF ok])
  then have "et_fired (el_timers l1 i)" if "i \<in> set due" for i
    using that el_okD(5) [of l1 i] due(1) by simp
  then have "\<forall>i \<in> set due. xEventLoopTimerCancel i l1 = (xErrno_InvalidState, l1)"
    by (simp add: xEventLoopTimerCancel_def)
  with due l' show ?thesis by (intro exI [of _ due]) (simp add: c)
qed

definition ex_loop :: xEventTimers where
  "ex_loop = snd (submit_timer (Some 2) 0 20 (snd (submit_timer (Some 1) 0 5 (no_timers []))))"

theorem event_timers_fire_due_witness:
  "\<exists>due. fst (loop_fire_expired_timers 9 ex_loop) = length due \<and> list_all (\<lambda>i. et_due ex_loop i \<le> 9) due \<and>
     mset (hdata (el_heap ex_loop)) = mset due + mset (hdata (el_heap (snd (loop_fire_expired_timers 9 ex_loop))))"
proof -
  have r: "el_reaches (no_timers []) ex_loop"
    unfolding ex_loop_def by (intro elr_step [OF _ elm_submit] elr_refl)
  have "el_batch ex_loop = []" by code_simp
  moreover have "el_called ex_loop = []" by code_simp
  moreover have "el_mem ex_loop = []" by code_simp
  ultimately show ?thesis
    using event_timers_fire_due [OF r _ _ _ prod.collapse [symmetric], of 9] by (auto simp: list_all_iff)
qed

lemma peek_some: "j \<in> set (hdata h) \<Longrightarrow> \<exists>i. xHeapPeek h = Some i"
  by (cases "hdata h") (simp_all add: xHeapPeek_def)

lemma collect_fails:
  assumes "el_ok l" and "el_mem l = False # m" and "length (el_batch l) \<le> c"
    and "c < length (el_batch l) + length (filter (\<lambda>i. et_due l i \<le> now) (hdata (el_heap l)))"
  shows "\<exists>i \<in> set (hdata (el_heap l)). et_due l i \<le> now \<and> i \<notin># places (collect now c l) \<and>
    et_fired (el_timers (collect now c l) i) \<and> length (el_batch (collect now c l)) = c"
  using assms
proof (induction "c - length (el_batch l)" arbitrary: l)
  case (0 l)
  then have full: "length (el_batch l) = c" by simp
  with 0(5) have "filter (\<lambda>i. et_due l i \<le> now) (hdata (el_heap l)) \<noteq> []" by auto
  then obtain j where j: "j \<in> set (hdata (el_heap l))" "et_due l j \<le> now" by (auto simp: filter_empty_conv)
  obtain i where i: "xHeapPeek (el_heap l) = Some i" using peek_some [OF j(1)] by blast
  note p = pop_fired_ok [OF 0(2) i]
  have due: "et_due l i \<le> now" using p(4) j by (auto intro: order_trans)
  have mem: "el_mem (pop_fired l i) = False # m" "el_batch (pop_fired l i) = el_batch l"
    "el_called (pop_fired l i) = el_called l" "el_freelist (pop_fired l i) = el_freelist l"
    using 0(3) by (simp_all add: pop_fired_def)
  have eq: "collect now c l = pop_fired l i\<lparr>el_mem := m\<rparr>"
    using i due full mem by (subst collect.simps) (simp add: Let_def)
  have pl: "places l = {#i#} + places (pop_fired l i\<lparr>el_mem := m\<rparr>)"
    using p(3) by (simp add: places_def mem)
  have "i \<notin># places (collect now c l)"
    unfolding eq by (rule in_one_part [of _ "{#i#}"]) (use el_okD(2) [OF 0(2), of i] pl in simp_all)
  moreover have "i \<in> set (hdata (el_heap l))" using p(3) by (metis union_single_eq_member set_mset_mset)
  moreover have "et_fired (el_timers (collect now c l) i)" by (simp add: eq pop_fired_def)
  moreover have "length (el_batch (collect now c l)) = c" by (simp add: eq mem full)
  ultimately show ?case using due by blast
next
  case (Suc k l)
  from Suc.prems(4) Suc.hyps(2) have "filter (\<lambda>i. et_due l i \<le> now) (hdata (el_heap l)) \<noteq> []" by auto
  then obtain j where j: "j \<in> set (hdata (el_heap l))" "et_due l j \<le> now" by (auto simp: filter_empty_conv)
  obtain i where i: "xHeapPeek (el_heap l) = Some i" using peek_some [OF j(1)] by blast
  note p = pop_fired_ok [OF Suc.prems(1) i]
  have due: "et_due l i \<le> now" using p(4) j by (auto intro: order_trans)
  define l1 where "l1 = pop_fired l i\<lparr>el_mem := False # m, el_batch := el_batch l @ [i]\<rparr>"
  have mem: "el_mem (pop_fired l i) = False # m" "el_batch (pop_fired l i) = el_batch l"
    using Suc.prems(2) by (simp_all add: pop_fired_def)
  have l1: "pop_fired l i\<lparr>el_batch := el_batch l @ [i]\<rparr> = l1" using mem(1) by (simp add: l1_def)
  have eq: "collect now c l = collect now c l1"
    using i due Suc.hyps(2) mem l1 by (subst collect.simps) (auto simp: Let_def)
  have dl: "et_due l1 = et_due l" using p(2) by (simp add: l1_def)
  then have dl': "et_due l1 j = et_due l j" for j by metis
  have hm: "mset (hdata (el_heap l)) = add_mset i (mset (hdata (el_heap l1)))" using p(3) by (simp add: l1_def)
  have "mset (filter (\<lambda>i. et_due l i \<le> now) (hdata (el_heap l)))
      = add_mset i (mset (filter (\<lambda>i. et_due l i \<le> now) (hdata (el_heap l1))))"
    using hm due by simp
  then have n: "length (filter (\<lambda>i. et_due l i \<le> now) (hdata (el_heap l)))
      = Suc (length (filter (\<lambda>i. et_due l i \<le> now) (hdata (el_heap l1))))"
    by (metis size_add_mset size_mset)
  have "\<exists>i \<in> set (hdata (el_heap l1)). et_due l1 i \<le> now \<and> i \<notin># places (collect now c l1) \<and>
    et_fired (el_timers (collect now c l1) i) \<and> length (el_batch (collect now c l1)) = c"
  proof (rule Suc.hyps(1))
    show "el_ok l1" unfolding l1_def by (rule el_ok_pop_fired(2) [OF Suc.prems(1) i])
    show "k = c - length (el_batch l1)" using Suc.hyps(2) by (simp add: l1_def)
    show "length (el_batch l1) \<le> c" using Suc.hyps(2) by (simp add: l1_def)
    show "c < length (el_batch l1) + length (filter (\<lambda>i. et_due l1 i \<le> now) (hdata (el_heap l1)))"
      using Suc.prems(4) n by (simp add: dl') (simp add: l1_def)
  qed (simp add: l1_def)
  moreover have "set (hdata (el_heap l1)) \<subseteq> set (hdata (el_heap l))"
    using hm by (metis set_mset_add_mset_insert set_mset_mset subset_insertI)
  ultimately show ?case unfolding eq dl' by blast
qed

text \<open>
  When more than 128 timers are due at once and the batch cannot grow, a due timer is lost: it
  has been popped and marked as fired, and it is neither called nor in the heap nor on the free list.
  The comment promises a retry.
\<close>

theorem event_timers_lose_one:
  assumes "el_ok l" and "el_batch l = []" and "el_called l = []" and "el_mem l = False # m"
    and "128 < length (filter (\<lambda>i. et_due l i \<le> now) (hdata (el_heap l)))"
  shows "\<exists>i \<in> set (hdata (el_heap l)). et_due l i \<le> now \<and> i \<notin># places (collect_expired now l) \<and>
    et_fired (el_timers (collect_expired now l) i) \<and> length (el_batch (collect_expired now l)) = 128"
proof -
  have "l\<lparr>el_batch := [], el_called := []\<rparr> = l" using assms(2,3) by simp
  with collect_fails [OF assms(1,4), of 128 now] assms(2,5) show ?thesis by (simp add: collect_expired_def)
qed

definition ex_crowd :: xEventTimers where
  "ex_crowd = (no_timers [False])\<lparr>el_heap := \<lparr>hdata = [0..<129], hcap = 256, hidx = id\<rparr>, el_next := 129\<rparr>"

theorem event_timers_lose_one_witness:
  "\<exists>i. i < 129 \<and> i \<notin># places (collect_expired 1 ex_crowd) \<and> et_fired (el_timers (collect_expired 1 ex_crowd) i)"
proof -
  have due: "et_due ex_crowd i = 0" for i by (simp add: ex_crowd_def no_timers_def zero_timer_def)
  have "count (mset [0..<129]) i \<le> 1" for i :: nat
    by (rule distinct_count_atmost_1 [THEN iffD1, THEN spec, THEN eq_refl, THEN order_trans]) simp_all
  then have "el_ok ex_crowd"
    by (simp add: el_ok_def evt.heap_ok_def placed_def ordered_def event_timer_cmp_def due places_def)
      (simp add: ex_crowd_def no_timers_def zero_timer_def)
  moreover have "el_batch ex_crowd = []" "el_called ex_crowd = []" "el_mem ex_crowd = False # []"
    "128 < length (filter (\<lambda>i. et_due ex_crowd i \<le> 1) (hdata (el_heap ex_crowd)))"
    by (simp_all add: due, simp_all add: ex_crowd_def no_timers_def)
  ultimately have "\<exists>i \<in> set (hdata (el_heap ex_crowd)). et_due ex_crowd i \<le> 1 \<and>
      i \<notin># places (collect_expired 1 ex_crowd) \<and> et_fired (el_timers (collect_expired 1 ex_crowd) i) \<and>
      length (el_batch (collect_expired 1 ex_crowd)) = 128"
    by (rule event_timers_lose_one)
  moreover have "hdata (el_heap ex_crowd) = [0..<129]" by (simp add: ex_crowd_def)
  ultimately show ?thesis by auto
qed

end
