(* ===== verification/Sse.thy ===== *)
theory Sse
  imports Buf Message
begin

text \<open>
  \<^verbatim>\<open>libx/x/http/sse.c\<close>: the incremental parser of Server-Sent Events, over the linear buffer of
  \<open>Buf\<close>, and its description as a function of the whole stream.
\<close>

section \<open>State\<close>

record xSseEvent =
  ev_event :: string
  ev_data :: string
  ev_id :: "string option"
  ev_retry :: int

text \<open>
  \<open>sse_trace\<close>: the events handed to the callback. The strings are what the allocation holds in front
  of its terminator.
\<close>

record xSseParser =
  sse_buf :: "char xBuffer option"
  sse_pos :: nat
  sse_error :: bool
  sse_event_type :: "string option"
  sse_data :: "string option"
  sse_id :: "string option"
  sse_retry :: int
  sse_mem :: allocs
  sse_trace :: "xSseEvent list"

definition LF :: char where "LF = CHR 0x0A"

definition CR :: char where "CR = CHR 0x0D"

definition sse_parser_init :: "allocs \<Rightarrow> xSseParser" where
  "sse_parser_init m =
     (case xBufferCreate m 4096 of
        (b, m') \<Rightarrow> \<lparr>sse_buf = b, sse_pos = 0, sse_error = False, sse_event_type = None, sse_data = None,
                    sse_id = None, sse_retry = -1, sse_mem = m', sse_trace = []\<rparr>)"

definition sse_parser_reset_event :: "xSseParser \<Rightarrow> xSseParser" where
  "sse_parser_reset_event p = p\<lparr>sse_event_type := None, sse_data := None\<rparr>"

section \<open>Lines and fields\<close>

fun find_line_end :: "string \<Rightarrow> nat option" where
  "find_line_end [] = None"
| "find_line_end (c # cs) = (if c = LF \<or> c = CR then Some 0 else map_option Suc (find_line_end cs))"

text \<open>\<^verbatim>\<open>strndup (value, value_len)\<close>\<close>

definition sse_strndup :: "string \<Rightarrow> xSseParser \<Rightarrow> string option \<times> xSseParser" where
  "sse_strndup v p = (let (ok, m) = draw (sse_mem p) in (if ok then Some (cstr v) else None, p\<lparr>sse_mem := m\<rparr>))"

text \<open>
  \<^verbatim>\<open>atoi\<close> of a string of digits, as the common C libraries compute it: \<^verbatim>\<open>strtol\<close>, which stops at the
  largest \<^verbatim>\<open>long\<close>, converted to \<^verbatim>\<open>int\<close>. The standard leaves the result of an overflow open.
\<close>

definition digits_value :: "string \<Rightarrow> nat" where
  "digits_value ds = foldl (\<lambda>n c. 10 * n + (of_char c - 48)) 0 ds"

definition atoi_digits :: "string \<Rightarrow> int" where
  "atoi_digits ds = signed_take_bit 31 (min (int (digits_value ds)) (2 ^ 63 - 1))"

definition all_digits :: "string \<Rightarrow> bool" where
  "all_digits v \<longleftrightarrow> list_all (\<lambda>c. 48 \<le> (of_char c :: nat) \<and> (of_char c :: nat) \<le> 57) v"

text \<open>The field name is compared as a C string; the value is what follows the colon and one space.\<close>

definition field_name :: "string \<Rightarrow> string" where
  "field_name line = cstr (takeWhile (\<lambda>c. c \<noteq> CHR '':'') line)"

definition field_value :: "string \<Rightarrow> string" where
  "field_value line =
     (let v = drop 1 (dropWhile (\<lambda>c. c \<noteq> CHR '':'') line)
      in if v \<noteq> [] \<and> hd v = CHR '' '' then tl v else v)"

definition parse_sse_field :: "string \<Rightarrow> xSseParser \<Rightarrow> xSseParser" where
  "parse_sse_field line p =
     (let name = field_name line; v = field_value line
      in if line \<noteq> [] \<and> hd line = CHR '':'' then p
         else if name = ''event'' then (case sse_strndup v p of (t, p') \<Rightarrow> p'\<lparr>sse_event_type := t\<rparr>)
         else if name = ''data'' then
           (case sse_data p of
              Some d \<Rightarrow>
                let (ok, m) = draw (sse_mem p)
                in p\<lparr>sse_mem := m, sse_data := (if ok then Some (cstr d @ [LF] @ v) else Some d)\<rparr>
            | None \<Rightarrow> (case sse_strndup v p of (t, p') \<Rightarrow> p'\<lparr>sse_data := t\<rparr>))
         else if name = ''id'' then
           (if v \<noteq> [] \<and> strlen v = length v
            then (case sse_strndup v p of (t, p') \<Rightarrow> p'\<lparr>sse_id := t\<rparr>) else p)
         else if name = ''retry'' then
           (if all_digits v \<and> v \<noteq> [] then p\<lparr>sse_retry := atoi_digits v\<rparr> else p)
         else p)"

section \<open>Feeding\<close>

text \<open>
  What the callback sees is the C string of \<^verbatim>\<open>data\<close>. \<open>on_event\<close> is the callback: it may decide by
  everything it was handed before.
\<close>

definition current_event :: "string \<Rightarrow> xSseParser \<Rightarrow> xSseEvent" where
  "current_event d p = \<lparr>ev_event = (case sse_event_type p of None \<Rightarrow> ''message'' | Some t \<Rightarrow> t),
     ev_data = cstr d, ev_id = sse_id p, ev_retry = sse_retry p\<rparr>"

definition dispatch :: "(xSseEvent list \<Rightarrow> xSseEvent \<Rightarrow> int) \<Rightarrow> xSseParser \<Rightarrow> int \<times> xSseParser" where
  "dispatch on_event p =
     (case sse_data p of
        None \<Rightarrow> (0, p)
      | Some d \<Rightarrow>
          let ev = current_event d p
          in (on_event (sse_trace p) ev, sse_parser_reset_event (p\<lparr>sse_trace := sse_trace p @ [ev]\<rparr>)))"

text \<open>Past the line of length \<open>n\<close> and its terminator; \<^verbatim>\<open>\r\n\<close> counts as one.\<close>

definition skip_line :: "nat \<Rightarrow> string \<Rightarrow> string" where
  "skip_line n rest =
     (let after = drop (n + 1) rest
      in if rest ! n = CR \<and> after \<noteq> [] \<and> hd after = LF then tl after else after)"

lemma find_line_end_less: "find_line_end xs = Some n \<Longrightarrow> n < length xs"
  by (induction xs arbitrary: n) (auto split: if_splits)

lemma skip_line_less: "find_line_end xs = Some n \<Longrightarrow> length (skip_line n xs) < length xs"
  using find_line_end_less [of xs n] by (auto simp: skip_line_def Let_def)

text \<open>
  The loop over the unread bytes \<open>rest\<close> of a buffer with \<open>buf_len\<close> of them. A callback that asks to
  close leaves it at once.
\<close>

function feed_loop ::
  "(xSseEvent list \<Rightarrow> xSseEvent \<Rightarrow> int) \<Rightarrow> nat \<Rightarrow> string \<Rightarrow> xSseParser \<Rightarrow> int \<times> xSseParser" where
  "feed_loop on_event buf_len rest p =
     (case find_line_end rest of
        None \<Rightarrow> (0, p)
      | Some n \<Rightarrow>
          let line = take n rest; (ok, m) = draw (sse_mem p); rest' = skip_line n rest;
              p1 = p\<lparr>sse_mem := m, sse_pos := buf_len - length rest'\<rparr>
          in if n = 0 then
               case dispatch on_event p1 of (r, p2) \<Rightarrow>
                 if r \<noteq> 0 then (r, p2) else feed_loop on_event buf_len rest' p2
             else feed_loop on_event buf_len rest' (if ok then parse_sse_field line p1 else p1))"
  by pat_completeness auto
termination
  by (relation "measure (\<lambda>(f, buf_len, rest, p). length rest)") (auto simp: skip_line_less)

declare feed_loop.simps [simp del]

definition sse_parser_feed ::
  "(xSseEvent list \<Rightarrow> xSseEvent \<Rightarrow> int) \<Rightarrow> string \<Rightarrow> xSseParser \<Rightarrow> int \<times> xSseParser" where
  "sse_parser_feed on_event chunk p =
     (if sse_error p then (-1, p)
      else case sse_buf p of
          None \<Rightarrow> (-1, p\<lparr>sse_error := True\<rparr>)
        | Some b \<Rightarrow>
            (case xBufferAppend (sse_mem p) b chunk of (e, b1, m) \<Rightarrow>
               if e \<noteq> xErrno_Ok then (-1, p\<lparr>sse_error := True, sse_buf := Some b1, sse_mem := m\<rparr>)
               else let unread = xBufferData b1;
                        (r, p1) = feed_loop on_event (length unread) (drop (sse_pos p) unread)
                                    (p\<lparr>sse_buf := Some b1, sse_mem := m\<rparr>)
                    in if r \<noteq> 0 then (r, p1)
                       else if 0 < sse_pos p1
                         then (0, p1\<lparr>sse_buf := Some (xBufferConsume b1 (sse_pos p1)), sse_pos := 0\<rparr>)
                         else (0, p1)))"

text \<open>The result tells the transfer to go on or to stop.\<close>

definition sse_write_callback ::
  "(xSseEvent list \<Rightarrow> xSseEvent \<Rightarrow> int) \<Rightarrow> string \<Rightarrow> xSseParser \<Rightarrow> nat \<times> xSseParser" where
  "sse_write_callback on_event chunk p =
     (case sse_parser_feed on_event chunk p of (r, p') \<Rightarrow> (if r \<noteq> 0 then 0 else length chunk, p'))"

section \<open>The stream\<close>

text \<open>The complete lines of a stream, and what follows the last one.\<close>

function sse_split :: "string \<Rightarrow> string list \<times> string" where
  "sse_split xs =
     (case find_line_end xs of
        None \<Rightarrow> ([], xs)
      | Some n \<Rightarrow> (case sse_split (skip_line n xs) of (ls, r) \<Rightarrow> (take n xs # ls, r)))"
  by pat_completeness auto
termination
  by (relation "measure length") (auto simp: skip_line_less)

declare sse_split.simps [simp del]

text \<open>What a line does to the fields, memory and callback permitting.\<close>

definition line_step :: "string \<Rightarrow> xSseParser \<Rightarrow> xSseParser" where
  "line_step line p = (if line = [] then snd (dispatch (\<lambda>_ _. 0) p) else parse_sse_field line p)"

definition sse_fields :: "xSseParser \<Rightarrow>
    string option \<times> string option \<times> string option \<times> int \<times> xSseEvent list" where
  "sse_fields p = (sse_event_type p, sse_data p, sse_id p, sse_retry p, sse_trace p)"

definition unread :: "xSseParser \<Rightarrow> string" where
  "unread p = (case sse_buf p of None \<Rightarrow> [] | Some b \<Rightarrow> xBufferData b)"

section \<open>Splitting a stream\<close>

lemma find_line_end_append: "find_line_end xs = Some n \<Longrightarrow> find_line_end (xs @ ys) = Some n"
  by (induction xs arbitrary: n) (auto split: if_splits)

text \<open>A place to cut a stream: not between a carriage return and its line feed.\<close>

definition cut_ok :: "string \<Rightarrow> string \<Rightarrow> bool" where
  "cut_ok xs ys \<longleftrightarrow> \<not> (xs \<noteq> [] \<and> last xs = CR \<and> ys \<noteq> [] \<and> hd ys = LF)"

lemma skip_line_append:
  assumes "find_line_end xs = Some n" and "cut_ok xs ys"
  shows "skip_line n (xs @ ys) = skip_line n xs @ ys"
    and "skip_line n xs = [] \<or> last (skip_line n xs) = last xs"
proof -
  have n: "n < length xs" by (rule find_line_end_less [OF assms(1)])
  define after where "after = drop (n + 1) xs"
  have nth: "(xs @ ys) ! n = xs ! n" using n by (simp add: nth_append)
  have dr: "drop (n + 1) (xs @ ys) = after @ ys" using n by (simp add: after_def)
  have "last xs = CR" if "xs ! n = CR" "after = []"
  proof -
    have "length xs = Suc n" using n that(2) by (simp add: after_def)
    then have "last xs = xs ! n" by (metis last_conv_nth diff_Suc_1 list.size(3) nat.distinct(1))
    with that(1) show ?thesis by simp
  qed
  moreover have "xs \<noteq> []" using n by auto
  ultimately show "skip_line n (xs @ ys) = skip_line n xs @ ys"
    using assms(2) unfolding skip_line_def Let_def nth dr after_def [symmetric] by (cases after) (auto simp: cut_ok_def)
  have "skip_line n xs = after \<or> skip_line n xs = tl after" by (auto simp: skip_line_def after_def Let_def)
  moreover have "after = [] \<or> last after = last xs"
    by (cases "Suc n < length xs") (simp_all add: after_def last_drop)
  ultimately show "skip_line n xs = [] \<or> last (skip_line n xs) = last xs"
    using last_tl [of after] by (cases "tl after = []") auto
qed

text \<open>Splitting goes on where it stopped, unless the cut is inside a line end.\<close>

lemma sse_split_append:
  assumes "cut_ok xs ys"
  shows "sse_split (xs @ ys) =
    (fst (sse_split xs) @ fst (sse_split (snd (sse_split xs) @ ys)), snd (sse_split (snd (sse_split xs) @ ys)))"
  using assms
proof (induction xs rule: sse_split.induct)
  case (1 xs)
  show ?case
  proof (cases "find_line_end xs")
    case None
    then have "sse_split xs = ([], xs)" by (subst sse_split.simps) simp
    then show ?thesis by simp
  next
    case (Some n)
    note sk = skip_line_append [OF Some 1(2)]
    have n: "n < length xs" by (rule find_line_end_less [OF Some])
    have "xs \<noteq> []" using n by auto
    then have "cut_ok (skip_line n xs) ys" using sk(2) 1(2) by (auto simp: cut_ok_def)
    note ih = 1(1) [OF Some this]
    have l: "sse_split (xs @ ys) = (take n xs # fst (sse_split (skip_line n xs @ ys)), snd (sse_split (skip_line n xs @ ys)))"
      using find_line_end_append [OF Some, of ys] sk(1) n
      by (subst sse_split.simps) (simp add: split_beta)
    have r: "sse_split xs = (take n xs # fst (sse_split (skip_line n xs)), snd (sse_split (skip_line n xs)))"
      by (subst sse_split.simps) (simp add: Some split_beta)
    show ?thesis unfolding l r ih by simp
  qed
qed

lemma sse_split_rest: "find_line_end (snd (sse_split xs)) = None"
proof (induction xs rule: sse_split.induct)
  case (1 xs)
  show ?case
  proof (cases "find_line_end xs")
    case None
    then show ?thesis by (subst sse_split.simps) simp
  next
    case (Some n)
    with 1 show ?thesis by (subst sse_split.simps) (simp add: split_beta)
  qed
qed

lemma sse_split_suffix: "\<exists>zs. xs = zs @ snd (sse_split xs)"
proof (induction xs rule: sse_split.induct)
  case (1 xs)
  show ?case
  proof (cases "find_line_end xs")
    case None
    then show ?thesis by (subst sse_split.simps) simp
  next
    case (Some n)
    obtain zs where z: "skip_line n xs = zs @ snd (sse_split (skip_line n xs))" using 1 [OF Some] by blast
    have "\<exists>us. xs = us @ skip_line n xs"
    proof -
      define after where "after = drop (n + 1) xs"
      have "skip_line n xs = after \<or> (after \<noteq> [] \<and> skip_line n xs = tl after)"
        by (auto simp: skip_line_def after_def Let_def)
      moreover have "xs = take (n + 1) xs @ after" by (simp add: after_def)
      moreover have "after \<noteq> [] \<Longrightarrow> after = [hd after] @ tl after" by simp
      ultimately show ?thesis by (metis append.assoc)
    qed
    then obtain us where "xs = us @ skip_line n xs" by blast
    with z have "xs = (us @ zs) @ snd (sse_split (skip_line n xs))" by (metis append.assoc)
    moreover have "snd (sse_split xs) = snd (sse_split (skip_line n xs))"
      using Some by (subst sse_split.simps) (simp add: split_beta)
    ultimately show ?thesis by (intro exI [of _ "us @ zs"]) simp
  qed
qed

text \<open>The lines once more, read off the stream byte by byte, as the specification has them.\<close>

definition add_char :: "char \<Rightarrow> string list \<times> string \<Rightarrow> string list \<times> string" where
  "add_char c = (\<lambda>(ls, r). case ls of [] \<Rightarrow> ([], c # r) | l # ls' \<Rightarrow> ((c # l) # ls', r))"

definition end_line :: "string list \<times> string \<Rightarrow> string list \<times> string" where
  "end_line = (\<lambda>(ls, r). ([] # ls, r))"

fun stream_lines :: "string \<Rightarrow> string list \<times> string" where
  "stream_lines [] = ([], [])"
| "stream_lines [c] = (if c = CR \<or> c = LF then ([[]], []) else ([], [c]))"
| "stream_lines (c # d # cs) =
     (if c = CR \<and> d = LF then end_line (stream_lines cs)
      else if c = CR \<or> c = LF then end_line (stream_lines (d # cs))
      else add_char c (stream_lines (d # cs)))"

lemma CR_LF [simp]: "CR \<noteq> LF" "LF \<noteq> CR"
  by (simp_all add: CR_def LF_def)

lemma split_terminator:
  "c = LF \<or> c = CR \<Longrightarrow> sse_split (c # cs) = end_line (sse_split (if c = CR \<and> cs \<noteq> [] \<and> hd cs = LF then tl cs else cs))"
  by (subst sse_split.simps) (simp add: skip_line_def end_line_def Let_def split_beta)

lemma split_other: "c \<noteq> LF \<Longrightarrow> c \<noteq> CR \<Longrightarrow> sse_split (c # cs) = add_char c (sse_split cs)"
  by (subst (1 2) sse_split.simps) (simp add: skip_line_def add_char_def Let_def split_beta split: option.split)

lemma split_empty: "sse_split [] = ([], [])"
  by (subst sse_split.simps) simp

lemma sse_split_lines: "sse_split xs = stream_lines xs"
proof (induction xs rule: stream_lines.induct)
  case (2 c)
  then show ?case using split_terminator [of c "[]"] split_other [of c "[]"]
    by (auto simp: split_empty end_line_def add_char_def)
next
  case (3 c d cs)
  then show ?case using split_terminator [of c "d # cs"] split_other [of c "d # cs"] by auto
qed (simp add: split_empty)

section \<open>The parser computes the stream's meaning\<close>

text \<open>Lines change the fields only, and allocate nothing when memory is to spare.\<close>

definition same_rest :: "xSseParser \<Rightarrow> xSseParser \<Rightarrow> bool" where
  "same_rest p p' \<longleftrightarrow> sse_buf p' = sse_buf p \<and> sse_error p' = sse_error p \<and> (sse_mem p = [] \<longrightarrow> sse_mem p' = [])"

lemma line_step_same: "same_rest p (line_step line p) \<and> sse_pos (line_step line p) = sse_pos p"
  by (auto simp: same_rest_def line_step_def dispatch_def parse_sse_field_def sse_strndup_def
      sse_parser_reset_event_def Let_def split: option.splits prod.splits)

text \<open>Lines do not look at the position.\<close>

lemma line_step_pos: "sse_mem p = [] \<Longrightarrow> line_step line (p\<lparr>sse_pos := k, sse_mem := []\<rparr>) = (line_step line p)\<lparr>sse_pos := k\<rparr>"
  by (auto simp: line_step_def dispatch_def parse_sse_field_def sse_strndup_def current_event_def
      sse_parser_reset_event_def Let_def split: option.splits prod.splits)

lemma fold_line_step_pos:
  "sse_mem p = [] \<Longrightarrow> fold line_step ls (p\<lparr>sse_pos := k\<rparr>) = (fold line_step ls p)\<lparr>sse_pos := k\<rparr>"
proof (induction ls arbitrary: p)
  case Nil
  then show ?case by simp
next
  case (Cons l ls)
  have "p\<lparr>sse_pos := k, sse_mem := []\<rparr> = p\<lparr>sse_pos := k\<rparr>" using Cons.prems by simp
  then have "line_step l (p\<lparr>sse_pos := k\<rparr>) = (line_step l p)\<lparr>sse_pos := k\<rparr>"
    using line_step_pos [OF Cons.prems, of l k] by simp
  moreover have "sse_mem (line_step l p) = []" using line_step_same [of p l] Cons.prems by (simp add: same_rest_def)
  ultimately show ?case using Cons.IH by simp
qed

lemma feed_loop_lines:
  assumes "sse_mem p = []" and "length rest \<le> buf_len"
  shows "feed_loop (\<lambda>_ _. 0) buf_len rest p =
    (0, (fold line_step (fst (sse_split rest)) p)
          \<lparr>sse_pos := (if fst (sse_split rest) = [] then sse_pos p else buf_len - length (snd (sse_split rest)))\<rparr>)"
  using assms
proof (induction rest arbitrary: p rule: sse_split.induct)
  case (1 rest)
  show ?case
  proof (cases "find_line_end rest")
    case None
    then have "sse_split rest = ([], rest)" by (subst sse_split.simps) simp
    moreover have "feed_loop (\<lambda>_ _. 0) buf_len rest p = (0, p)" using None by (subst feed_loop.simps) simp
    ultimately show ?thesis by simp
  next
    case (Some n)
    define rest' where "rest' = skip_line n rest"
    define line where "line = take n rest"
    define p1 where "p1 = p\<lparr>sse_pos := buf_len - length rest'\<rparr>"
    have n: "n < length rest" by (rule find_line_end_less [OF Some])
    have le: "length rest' \<le> buf_len" using skip_line_less [OF Some] 1(3) by (simp add: rest'_def)
    have mem: "sse_mem p1 = []" using 1(2) by (simp add: p1_def)
    have p1: "p\<lparr>sse_mem := [], sse_pos := buf_len - length rest'\<rparr> = p1" using 1(2) by (simp add: p1_def)
    have step: "feed_loop (\<lambda>_ _. 0) buf_len rest p = feed_loop (\<lambda>_ _. 0) buf_len rest' (line_step line p1)"
    proof (cases "n = 0")
      case True
      obtain r p2 where d: "dispatch (\<lambda>_ _. 0) p1 = (r, p2)" by fastforce
      then have "r = 0" by (auto simp: dispatch_def Let_def split: option.splits)
      have r0: "skip_line 0 rest = rest'" "line = []" using True by (simp_all add: rest'_def line_def)
      with True Some d \<open>r = 0\<close> p1 show ?thesis
        by (subst feed_loop.simps) (simp add: 1(2) Let_def r0 line_step_def)
    next
      case False
      with n have "line \<noteq> []" by (auto simp: line_def)
      with False Some show ?thesis
        by (subst feed_loop.simps) (simp add: 1(2) Let_def p1 rest'_def [symmetric] line_def [symmetric] line_step_def)
    qed
    have m2: "sse_mem (line_step line p1) = []" using line_step_same [of p1 line] mem by (simp add: same_rest_def)
    have pos2: "sse_pos (line_step line p1) = buf_len - length rest'"
      using line_step_same [of p1 line] by (simp add: p1_def)
    have sp: "sse_split rest = (line # fst (sse_split rest'), snd (sse_split rest'))"
      by (subst sse_split.simps) (simp add: Some split_beta rest'_def line_def)
    have empty: "fst (sse_split rest') = [] \<Longrightarrow> snd (sse_split rest') = rest'"
      by (subst sse_split.simps, subst (asm) sse_split.simps) (auto split: option.splits prod.splits)
    have ls1: "line_step line p1 = (line_step line p)\<lparr>sse_pos := buf_len - length rest'\<rparr>"
    proof -
      have "p\<lparr>sse_pos := buf_len - length rest', sse_mem := []\<rparr> = p1" using 1(2) by (simp add: p1_def)
      with line_step_pos [OF 1(2), of line "buf_len - length rest'"] show ?thesis by metis
    qed
    have mls: "sse_mem (line_step line p) = []" using line_step_same [of p line] 1(2) by (simp add: same_rest_def)
    show ?thesis
      unfolding step using 1(1) [OF Some, folded rest'_def, OF m2 le]
      by (auto simp: sp pos2 empty ls1 fold_line_step_pos [OF mls])
  qed
qed

text \<open>Nor at the buffer.\<close>

lemma line_step_buf: "sse_mem p = [] \<Longrightarrow> line_step line (p\<lparr>sse_buf := b, sse_mem := []\<rparr>) = (line_step line p)\<lparr>sse_buf := b\<rparr>"
  by (auto simp: line_step_def dispatch_def parse_sse_field_def sse_strndup_def current_event_def
      sse_parser_reset_event_def Let_def split: option.splits prod.splits)

lemma fold_line_step_same:
  "sse_mem p = [] \<Longrightarrow> sse_mem (fold line_step ls p) = [] \<and> sse_error (fold line_step ls p) = sse_error p \<and>
   sse_buf (fold line_step ls p) = sse_buf p \<and> sse_pos (fold line_step ls p) = sse_pos p"
proof (induction ls arbitrary: p)
  case Nil
  then show ?case by simp
next
  case (Cons l ls)
  with line_step_same [of p l] Cons.IH [of "line_step l p"] show ?case by (simp add: same_rest_def)
qed

lemma fold_line_step_buf:
  "sse_mem p = [] \<Longrightarrow> fold line_step ls (p\<lparr>sse_buf := b\<rparr>) = (fold line_step ls p)\<lparr>sse_buf := b\<rparr>"
proof (induction ls arbitrary: p)
  case Nil
  then show ?case by simp
next
  case (Cons l ls)
  have "p\<lparr>sse_buf := b, sse_mem := []\<rparr> = p\<lparr>sse_buf := b\<rparr>" using Cons.prems by simp
  with line_step_buf [OF Cons.prems, of l b] have "line_step l (p\<lparr>sse_buf := b\<rparr>) = (line_step l p)\<lparr>sse_buf := b\<rparr>"
    by metis
  moreover have "sse_mem (line_step l p) = []" using line_step_same [of p l] Cons.prems by (simp add: same_rest_def)
  ultimately show ?case using Cons.IH by simp
qed

text \<open>The parser after a stream: the fields its lines leave, and the bytes behind the last line.\<close>

definition parsed :: "xSseParser \<Rightarrow> string \<Rightarrow> xSseParser \<Rightarrow> bool" where
  "parsed p0 xs p \<longleftrightarrow> (\<exists>b. p = (fold line_step (fst (sse_split xs)) p0)\<lparr>sse_buf := Some b\<rparr> \<and>
     buf_ok b \<and> xBufferData b = snd (sse_split xs) \<and> wpos b \<le> length xs)"

lemma append_total:
  assumes "buf_ok b" and "2 * (wpos b + length chunk) < SIZE_LIM"
  shows "\<exists>b'. xBufferAppend [] b chunk = (xErrno_Ok, b', []) \<and> buf_ok b' \<and>
    xBufferData b' = xBufferData b @ chunk \<and> wpos b' = wpos b + length chunk"
proof -
  obtain e b' m' where a: "xBufferAppend [] b chunk = (e, b', m')" by (metis prod_cases3)
  obtain e1 b1 m1 where g: "buf_grow [] b (wpos b + length chunk) = (e1, b1, m1)" by (metis prod_cases3)
  have small: "wpos b + length chunk < SIZE_LIM" "wpos b - rpos b + (wpos b + length chunk) < SIZE_LIM"
    using assms(2) by simp_all
  have ok: "e1 = xErrno_Ok" "m1 = []" using g by (auto simp: buf_grow_def Let_def split: if_splits)
  have "bdata b1 = bdata b" using buf_grow_never_slides(2) [OF assms(1) small g] .
  then have "e = xErrno_Ok" "m' = []" "wpos b' = wpos b + length chunk"
    using a g ok small(1) by (auto simp: xBufferAppend_def size_add_small split: if_splits)
  with a append_ok [OF assms a] show ?thesis by simp
qed

lemma feed_parsed:
  assumes "parsed p0 xs p" and "sse_mem p0 = []" and "sse_pos p0 = 0" and "\<not> sse_error p0"
    and "cut_ok xs chunk" and "2 * (length xs + length chunk) < SIZE_LIM"
  shows "fst (sse_parser_feed (\<lambda>_ _. 0) chunk p) = 0"
    and "parsed p0 (xs @ chunk) (snd (sse_parser_feed (\<lambda>_ _. 0) chunk p))"
proof -
  define ls where "ls = fst (sse_split xs)"
  define r where "r = snd (sse_split xs)"
  obtain b where p: "p = (fold line_step ls p0)\<lparr>sse_buf := Some b\<rparr>" and b: "buf_ok b" "xBufferData b = r"
      "wpos b \<le> length xs"
    using assms(1) by (auto simp: parsed_def ls_def r_def)
  note same = fold_line_step_same [OF assms(2), of ls]
  have pf: "sse_mem p = []" "\<not> sse_error p" "sse_pos p = 0" "sse_buf p = Some b"
    using same assms(3,4) by (simp_all add: p)
  have "2 * (wpos b + length chunk) < SIZE_LIM" using b(3) assms(6) by simp
  from append_total [OF b(1) this] obtain b1 where b1: "xBufferAppend [] b chunk = (xErrno_Ok, b1, [])"
    "buf_ok b1" "xBufferData b1 = r @ chunk" "wpos b1 = wpos b + length chunk"
    using b(2) by auto
  define ls' where "ls' = fst (sse_split (r @ chunk))"
  define r' where "r' = snd (sse_split (r @ chunk))"
  define p1 where "p1 = p\<lparr>sse_buf := Some b1\<rparr>"
  define k where "k = (if ls' = [] then 0 else length (r @ chunk) - length r')"
  have p1: "p\<lparr>sse_buf := Some b1, sse_mem := []\<rparr> = p1" "sse_mem p1 = []" "sse_pos p1 = 0"
    using pf by (simp_all add: p1_def)
  have loop: "feed_loop (\<lambda>_ _. 0) (length (r @ chunk)) (r @ chunk) p1 = (0, (fold line_step ls' p1)\<lparr>sse_pos := k\<rparr>)"
    using feed_loop_lines [OF p1(2), of "r @ chunk" "length (r @ chunk)"] p1(3)
    by (simp add: ls'_def r'_def k_def)
  have fold1: "fold line_step ls' p1 = (fold line_step (ls @ ls') p0)\<lparr>sse_buf := Some b1\<rparr>"
    using fold_line_step_buf [of "fold line_step ls p0" ls' "Some b1"] same by (simp add: p1_def p)
  define q where "q = fold line_step (ls @ ls') p0"
  have q: "sse_pos q = 0" using fold_line_step_same [OF assms(2), of "ls @ ls'"] assms(3) by (simp add: q_def)
  have qf: "fold line_step ls' (fold line_step ls p0) = q" by (simp add: q_def)
  define b2 where "b2 = (if 0 < k then xBufferConsume b1 k else b1)"
  have feed: "sse_parser_feed (\<lambda>_ _. 0) chunk p = (0, q\<lparr>sse_buf := Some b2\<rparr>)"
  proof (cases "0 < k")
    case True
    have "q\<lparr>sse_buf := Some b2, sse_pos := 0\<rparr> = q\<lparr>sse_buf := Some b2\<rparr>" using q by simp
    with True loop fold1 pf b1(1,3) p1(1) show ?thesis
      by (simp add: sse_parser_feed_def qf b2_def)
  next
    case False
    have "q\<lparr>sse_buf := Some b2, sse_pos := 0\<rparr> = q\<lparr>sse_buf := Some b2\<rparr>" using q by simp
    with False q loop fold1 pf b1(1,3) p1(1) show ?thesis
      by (simp add: sse_parser_feed_def qf b2_def)
  qed
  obtain zs where zs: "r @ chunk = zs @ r'" using sse_split_suffix [of "r @ chunk"] by (auto simp: r'_def)
  have nolines: "r' = r @ chunk" if "ls' = []"
  proof -
    have "find_line_end (r @ chunk) = None"
    proof (rule ccontr)
      assume "find_line_end (r @ chunk) \<noteq> None"
      then obtain n where "find_line_end (r @ chunk) = Some n" by auto
      then have "ls' \<noteq> []" unfolding ls'_def by (subst sse_split.simps) (simp add: split_beta)
      with that show False by simp
    qed
    then show ?thesis unfolding r'_def by (subst sse_split.simps) simp
  qed
  have "xBufferData b2 = drop k (r @ chunk)" using consume_data [OF b1(2), of k] b1(3) by (simp add: b2_def)
  also have "\<dots> = r'" using zs nolines by (auto simp: k_def)
  finally have data: "xBufferData b2 = r'" .
  have okb: "buf_ok b2" "wpos b2 \<le> wpos b1"
    using consume_ok [OF b1(2), of k] b1(2) by (auto simp: b2_def xBufferConsume_def)
  have whole: "sse_split (xs @ chunk) = (ls @ ls', r')"
    using sse_split_append [OF assms(5)] by (simp add: ls_def r_def ls'_def r'_def)
  show "fst (sse_parser_feed (\<lambda>_ _. 0) chunk p) = 0" by (simp add: feed)
  show "parsed p0 (xs @ chunk) (snd (sse_parser_feed (\<lambda>_ _. 0) chunk p))"
    unfolding parsed_def feed whole
    using data okb b1(4) b(3) by (intro exI [of _ b2]) (simp add: q_def)
qed

definition feed_all :: "string list \<Rightarrow> xSseParser \<Rightarrow> xSseParser" where
  "feed_all chunks p = fold (\<lambda>chunk p. snd (sse_parser_feed (\<lambda>_ _. 0) chunk p)) chunks p"

fun cuts_ok :: "string \<Rightarrow> string list \<Rightarrow> bool" where
  "cuts_ok before [] \<longleftrightarrow> True"
| "cuts_ok before (chunk # chunks) \<longleftrightarrow> cut_ok before chunk \<and> cuts_ok (before @ chunk) chunks"

lemma cuts_ok_snoc: "cuts_ok before (chunks @ [chunk]) \<longleftrightarrow> cuts_ok before chunks \<and> cut_ok (before @ concat chunks) chunk"
  by (induction chunks arbitrary: before) auto

lemma feed_all_parsed:
  assumes "cuts_ok [] chunks" and "2 * length (concat chunks) < SIZE_LIM"
    and "sse_mem p0 = []" and "sse_pos p0 = 0" and "\<not> sse_error p0"
    and "sse_buf p0 = Some b0" and "buf_ok b0" and "bdata b0 = []"
  shows "parsed p0 (concat chunks) (feed_all chunks p0)"
  using assms(1,2)
proof (induction chunks rule: rev_induct)
  case Nil
  have "p0\<lparr>sse_buf := Some b0\<rparr> = p0" using assms(6) by simp
  moreover have "sse_split [] = ([], [])" by (subst sse_split.simps) simp
  ultimately show ?case
    using assms(7,8) by (simp add: feed_all_def parsed_def xBufferData_def exI [of _ b0])
next
  case (snoc chunk chunks)
  have ih: "parsed p0 (concat chunks) (feed_all chunks p0)" "cut_ok (concat chunks) chunk"
    using snoc by (simp_all add: cuts_ok_snoc)
  have "2 * (length (concat chunks) + length chunk) < SIZE_LIM" using snoc.prems(2) by simp
  from feed_parsed(2) [OF ih(1) assms(3-5) ih(2) this] show ?case by (simp add: feed_all_def)
qed

section \<open>Promises of the parser\<close>

definition ex_sse :: xSseParser where
  "ex_sse = sse_parser_init []"

lemma ex_sse_fields:
  "sse_mem ex_sse = []" "sse_pos ex_sse = 0" "\<not> sse_error ex_sse"
  "sse_buf ex_sse = Some \<lparr>rpos = 0, bcap = 4096, bdata = []\<rparr>"
  by (simp_all add: ex_sse_def sse_parser_init_def xBufferCreate_def)

text \<open>
  C35. The parser is incremental: fed a stream in any chunks, with memory to spare and a callback that
  never closes, it has dispatched exactly the events, and holds exactly the fields and unread bytes,
  that the lines of the whole stream give (each ended by a line feed, a carriage return or both) - unless a
  chunk ends between a carriage return and its line feed. Chunks may end in a carriage return that is a
  line end of its own.
\<close>

theorem sse_chunks_irrelevant:
  assumes "cuts_ok [] chunks" and "2 * length (concat chunks) < SIZE_LIM"
  shows "sse_fields (feed_all chunks (sse_parser_init []))
      = sse_fields (fold line_step (fst (stream_lines (concat chunks))) (sse_parser_init [])) \<and>
    unread (feed_all chunks (sse_parser_init [])) = snd (stream_lines (concat chunks))"
proof -
  have "buf_ok (\<lparr>rpos = 0, bcap = 4096, bdata = []\<rparr> :: char xBuffer)" by (simp add: buf_ok_def SIZE_LIM_def)
  from feed_all_parsed [OF assms ex_sse_fields this] have "parsed ex_sse (concat chunks) (feed_all chunks ex_sse)"
    by simp
  then obtain b where "feed_all chunks ex_sse = (fold line_step (fst (sse_split (concat chunks))) ex_sse)\<lparr>sse_buf := Some b\<rparr>"
    "xBufferData b = snd (sse_split (concat chunks))"
    by (auto simp: parsed_def)
  then show ?thesis by (simp add: ex_sse_def sse_fields_def unread_def sse_split_lines)
qed

theorem sse_chunks_irrelevant_witness:
  "sse_fields (feed_all [''da'', ''ta: hello'' @ [CR], ''data: '', ''you'' @ [CR, LF, LF] @ ''da''] (sse_parser_init []))
     = (None, None, None, -1, [\<lparr>ev_event = ''message'', ev_data = ''hello'' @ [LF] @ ''you'', ev_id = None, ev_retry = -1\<rparr>])"
proof -
  define cs where "cs = [''da'', ''ta: hello'' @ [CR], ''data: '', ''you'' @ [CR, LF, LF] @ ''da'']"
  have "cuts_ok [] cs" unfolding cs_def by code_simp
  moreover have "2 * length (concat cs) < SIZE_LIM" unfolding cs_def by (simp add: SIZE_LIM_def)
  ultimately have
    "sse_fields (feed_all cs (sse_parser_init [])) = sse_fields (fold line_step (fst (stream_lines (concat cs))) (sse_parser_init []))"
    using sse_chunks_irrelevant by blast
  moreover have "sse_fields (fold line_step (fst (stream_lines (concat cs))) (sse_parser_init []))
      = (None, None, None, -1, [\<lparr>ev_event = ''message'', ev_data = ''hello'' @ [LF] @ ''you'', ev_id = None, ev_retry = -1\<rparr>])"
    unfolding cs_def by code_simp
  ultimately show ?thesis unfolding cs_def by simp
qed

text \<open>
  A chunk that ends between the carriage return and the line feed of a line end is parsed
  differently: the line feed counts as an empty line, and the event is dispatched before its second
  data line.
\<close>

theorem sse_split_line_end:
  "sse_trace (feed_all [''data: a'' @ [CR, LF] @ ''data: b'' @ [CR, LF, CR, LF]] (sse_parser_init [])) =
     [\<lparr>ev_event = ''message'', ev_data = ''a'' @ [LF] @ ''b'', ev_id = None, ev_retry = -1\<rparr>] \<and>
   sse_trace (feed_all [''data: a'' @ [CR], [LF] @ ''data: b'' @ [CR, LF, CR, LF]] (sse_parser_init [])) =
     [\<lparr>ev_event = ''message'', ev_data = ''a'', ev_id = None, ev_retry = -1\<rparr>,
      \<lparr>ev_event = ''message'', ev_data = ''b'', ev_id = None, ev_retry = -1\<rparr>]"
  by (rule conjI; code_simp)

end
