(* ===== verification/Codec.thy ===== *)
theory Codec
  imports Prelude
begin

text \<open>
  \<^verbatim>\<open>libx/x/base/hex.c\<close> and \<^verbatim>\<open>libx/x/base/base64.c\<close>, and the contract of an encoding: what was
  encoded decodes to itself.
\<close>

unbundle bit_operations_syntax

type_synonym bytes = "8 word list"

text \<open>
  The caller passes a destination and its capacity; \<open>None\<close> stands for a NULL pointer. The result is
  None for \<^verbatim>\<open>-1\<close>, else what has been written in front of the terminator; its length is what
  \<^verbatim>\<open>*dst_len\<close> becomes.
\<close>

locale codec =
  fixes enc :: "bytes option \<Rightarrow> nat option \<Rightarrow> string option"
    and dec :: "string option \<Rightarrow> nat option \<Rightarrow> bytes option"
    and enc_len :: "nat \<Rightarrow> nat"
    and fits :: "bytes \<Rightarrow> bool"
  assumes enc_ok: "fits xs \<Longrightarrow> enc_len (length xs) < c \<Longrightarrow>
      \<exists>t. enc (Some xs) (Some c) = Some t \<and> length t = enc_len (length xs)"
    and dec_enc: "fits xs \<Longrightarrow> enc (Some xs) (Some c) = Some t \<Longrightarrow> length xs \<le> k \<Longrightarrow>
      dec (Some t) (Some k) = Some xs"
begin

text \<open>Two inputs with the same encoding are equal.\<close>

lemma enc_inj: "fits xs \<Longrightarrow> fits ys \<Longrightarrow> enc (Some xs) (Some c) = Some t \<Longrightarrow> enc (Some ys) (Some d) = Some t \<Longrightarrow> xs = ys"
  using dec_enc [of xs c t "max (length xs) (length ys)"] dec_enc [of ys d t "max (length xs) (length ys)"] by simp

end

section \<open>Hexadecimal\<close>

definition code :: "char \<Rightarrow> nat" where
  "code c = of_char c"

definition hex_val :: "char \<Rightarrow> int" where
  "hex_val c =
     (if code (CHR ''0'') \<le> code c \<and> code c \<le> code (CHR ''9'') then int (code c) - int (code (CHR ''0''))
      else if code (CHR ''a'') \<le> code c \<and> code c \<le> code (CHR ''f'') then int (code c) - int (code (CHR ''a'')) + 10
      else if code (CHR ''A'') \<le> code c \<and> code c \<le> code (CHR ''F'') then int (code c) - int (code (CHR ''A'')) + 10
      else -1)"

definition kHexDigits :: string where
  "kHexDigits = ''0123456789abcdef''"

definition hex_byte :: "8 word \<Rightarrow> string" where
  "hex_byte b = [kHexDigits ! unat (drop_bit 4 b AND 0x0F), kHexDigits ! unat (b AND 0x0F)]"

definition xHexEncode :: "bytes option \<Rightarrow> nat option \<Rightarrow> string option" where
  "xHexEncode src dst =
     (case dst of
        None \<Rightarrow> None
      | Some dst_len \<Rightarrow>
          (case src of
             None \<Rightarrow> if dst_len < 1 then None else Some ''''
           | Some xs \<Rightarrow>
               if dst_len < size_add (size_mul (length xs) 2) 1 then None
               else Some (concat (map hex_byte xs))))"

text \<open>The loop over the pairs of digits; \<^verbatim>\<open>(uint8_t)((hi << 4) | lo)\<close> is the byte.\<close>

fun hex_pairs :: "string \<Rightarrow> bytes option" where
  "hex_pairs (h # l # rest) =
     (if hex_val h < 0 \<or> hex_val l < 0 then None
      else map_option (\<lambda>bs. word_of_int (push_bit 4 (hex_val h) OR hex_val l) # bs) (hex_pairs rest))"
| "hex_pairs _ = Some []"

definition xHexDecode :: "string option \<Rightarrow> nat option \<Rightarrow> bytes option" where
  "xHexDecode src dst =
     (case (src, dst) of
        (Some t, Some dst_len) \<Rightarrow>
          if length t = 0 then Some []
          else if length t mod 2 \<noteq> 0 then None
          else if dst_len < length t div 2 then None
          else hex_pairs t
      | _ \<Rightarrow> None)"

lemma map_nth_value: "map f xs = map g [0..<length xs] \<Longrightarrow> n < length xs \<Longrightarrow> f (xs ! n) = g n"
  by (metis (no_types, lifting) add_0 diff_zero length_map length_upt nth_map nth_upt)

lemma hex_digit_values: "map hex_val kHexDigits = map int [0..<16]"
  by (simp add: kHexDigits_def hex_val_def code_def upt_rec)

lemma hex_digit_val: "n < 16 \<Longrightarrow> hex_val (kHexDigits ! n) = int n"
proof -
  assume n: "n < 16"
  have l: "length kHexDigits = 16" by (simp add: kHexDigits_def)
  show ?thesis by (rule map_nth_value) (simp_all only: l hex_digit_values n)
qed

lemma low_nibble: "w AND 0x0F = take_bit 4 (w :: 8 word)"
  by (simp add: take_bit_eq_mask mask_eq_exp_minus_1)

lemma low_nibble_less: "unat (take_bit 4 w :: 8 word) < 16"
  using take_bit_nat_less_exp [of 4 "unat w"] by (simp add: unsigned_take_bit_eq)

lemma hex_join: "word_of_int (push_bit 4 (uint (take_bit 4 (drop_bit 4 b))) OR uint (take_bit 4 b)) = (b :: 8 word)"
  by (rule bit_word_eqI) (auto simp: bit_simps)

lemma hex_pairs_byte: "hex_pairs (hex_byte b @ t) = map_option (\<lambda>bs. b # bs) (hex_pairs t)"
  by (simp add: hex_byte_def low_nibble hex_digit_val low_nibble_less hex_join)

lemma hex_pairs_encode: "hex_pairs (concat (map hex_byte xs)) = Some xs"
  by (induction xs) (simp_all add: hex_pairs_byte)

lemma length_hex: "length (concat (map hex_byte xs)) = 2 * length xs"
  by (induction xs) (simp_all add: hex_byte_def)

interpretation hex: codec xHexEncode xHexDecode "\<lambda>n. 2 * n" "\<lambda>xs. 2 * length xs + 1 < SIZE_LIM"
proof unfold_locales
  fix xs :: bytes and c :: nat
  assume "2 * length xs + 1 < SIZE_LIM" and "2 * length xs < c"
  then show "\<exists>t. xHexEncode (Some xs) (Some c) = Some t \<and> length t = 2 * length xs"
    by (simp add: xHexEncode_def length_hex size_mul_small size_add_small)
next
  fix xs :: bytes and c k :: nat and t
  assume "2 * length xs + 1 < SIZE_LIM" and e: "xHexEncode (Some xs) (Some c) = Some t" and k: "length xs \<le> k"
  from e have "t = concat (map hex_byte xs)" by (simp add: xHexEncode_def split: if_splits)
  then show "xHexDecode (Some t) (Some k) = Some xs"
    using k by (cases "xs = []") (simp_all add: xHexDecode_def length_hex hex_pairs_encode)
qed

section \<open>Base64\<close>

definition kAlphabet :: string where
  "kAlphabet = ''ABCDEFGHIJKLMNOPQRSTUVWXYZabcdefghijklmnopqrstuvwxyz0123456789+/''"

definition base64_val :: "char \<Rightarrow> int" where
  "base64_val c =
     (if code (CHR ''A'') \<le> code c \<and> code c \<le> code (CHR ''Z'') then int (code c) - int (code (CHR ''A''))
      else if code (CHR ''a'') \<le> code c \<and> code c \<le> code (CHR ''z'') then int (code c) - int (code (CHR ''a'')) + 26
      else if code (CHR ''0'') \<le> code c \<and> code c \<le> code (CHR ''9'') then int (code c) - int (code (CHR ''0'')) + 52
      else if c = CHR ''+'' \<or> c = CHR ''-'' then 62
      else if c = CHR ''/'' \<or> c = CHR ''_'' then 63
      else -1)"

text \<open>The groups of the encoder: three bytes, or the one or two that remain.\<close>

definition sextet :: "nat \<Rightarrow> char" where
  "sextet v = kAlphabet ! v"

fun base64_groups :: "bytes \<Rightarrow> string" where
  "base64_groups (a # b # c # rest) =
     [sextet (unat (drop_bit 2 a)),
      sextet (push_bit 4 (unat (a AND 0x03)) OR unat (drop_bit 4 b AND 0x0F)),
      sextet (push_bit 2 (unat (b AND 0x0F)) OR unat (drop_bit 6 c AND 0x03)),
      sextet (unat (c AND 0x3F))] @ base64_groups rest"
| "base64_groups [a] =
     [sextet (unat (drop_bit 2 a)), sextet (push_bit 4 (unat (a AND 0x03))), CHR ''='', CHR ''='']"
| "base64_groups [a, b] =
     [sextet (unat (drop_bit 2 a)),
      sextet (push_bit 4 (unat (a AND 0x03)) OR unat (drop_bit 4 b AND 0x0F)),
      sextet (push_bit 2 (unat (b AND 0x0F))), CHR ''='']"
| "base64_groups [] = []"

definition base64_need :: "nat \<Rightarrow> nat" where
  "base64_need n = size_mul (size_add n 2 div 3) 4"

definition xBase64Encode :: "bytes option \<Rightarrow> nat option \<Rightarrow> string option" where
  "xBase64Encode src dst =
     (case dst of
        None \<Rightarrow> None
      | Some dst_len \<Rightarrow>
          (case src of
             None \<Rightarrow> if dst_len < 1 then None else Some ''''
           | Some xs \<Rightarrow>
               if dst_len < size_add (base64_need (length xs)) 1 then None
               else Some (base64_groups xs)))"

text \<open>
  The validating pass: None for a character outside the alphabet or behind a padding; else the
  number of padding characters.
\<close>

fun base64_check :: "bool \<Rightarrow> nat \<Rightarrow> string \<Rightarrow> nat option" where
  "base64_check got_pad pad_count [] = Some pad_count"
| "base64_check got_pad pad_count (c # cs) =
     (if c = CHR ''='' then base64_check True (Suc pad_count) cs
      else if got_pad then None
      else if base64_val c < 0 then None
      else base64_check got_pad pad_count cs)"

text \<open>
  The bytes of four sextets, \<open>out\<close> being written already and \<open>need\<close> the number to write in all.
\<close>

definition base64_emit :: "nat \<Rightarrow> nat \<Rightarrow> int \<Rightarrow> int \<Rightarrow> int \<Rightarrow> int \<Rightarrow> bytes" where
  "base64_emit need out v0 v1 v2 v3 =
     (let first = [word_of_int (push_bit 2 v0 OR drop_bit 4 v1)];
          second = (if Suc out < need then [word_of_int (push_bit 4 (v1 AND 0x0F) OR drop_bit 2 v2)] else []);
          third = (if Suc out + length second < need then [word_of_int (push_bit 6 (v2 AND 0x03) OR v3)] else [])
      in first @ second @ third)"

fun base64_loop :: "nat \<Rightarrow> nat \<Rightarrow> int list \<Rightarrow> bytes" where
  "base64_loop need out (v0 # v1 # v2 # v3 # rest) =
     (let bs = base64_emit need out v0 v1 v2 v3 in bs @ base64_loop need (out + length bs) rest)"
| "base64_loop need out [v0] = base64_emit need out v0 0 0 0"
| "base64_loop need out [v0, v1] = base64_emit need out v0 v1 0 0"
| "base64_loop need out [v0, v1, v2] = base64_emit need out v0 v1 v2 0"
| "base64_loop need out [] = []"

definition xBase64Decode :: "string option \<Rightarrow> nat option \<Rightarrow> bytes option" where
  "xBase64Decode src dst =
     (case (src, dst) of
        (Some t, Some dst_len) \<Rightarrow>
          if length t = 0 then Some []
          else (case base64_check False 0 t of
                  None \<Rightarrow> None
                | Some pad_count \<Rightarrow>
                    if 2 < pad_count then None
                    else let content_len = length t - pad_count; need = size_mul content_len 3 div 4
                         in if content_len mod 4 = 1 then None
                            else if dst_len < need then None
                            else Some (base64_loop need 0 (map base64_val (take content_len t))))
      | _ \<Rightarrow> None)"

text \<open>The alphabet and its inverse.\<close>

lemma alphabet_values: "map base64_val kAlphabet = map int [0..<64]"
  by (simp add: kAlphabet_def base64_val_def code_def upt_rec)

lemma sextet_val: "v < 64 \<Longrightarrow> base64_val (sextet v) = int v"
proof -
  assume v: "v < 64"
  have l: "length kAlphabet = 64" by (simp add: kAlphabet_def)
  show ?thesis unfolding sextet_def by (rule map_nth_value) (simp_all only: l alphabet_values v)
qed

lemma pad_val: "base64_val (CHR ''='') = -1"
  by (simp add: base64_val_def code_def)

lemma sextet_not_pad: "v < 64 \<Longrightarrow> sextet v \<noteq> CHR ''=''"
  using sextet_val [of v] pad_val by auto

text \<open>The values behind the characters of an encoding.\<close>

fun sextets :: "bytes \<Rightarrow> nat list" where
  "sextets (a # b # c # rest) =
     [unat (drop_bit 2 a), push_bit 4 (unat (take_bit 2 a)) OR unat (take_bit 4 (drop_bit 4 b)),
      push_bit 2 (unat (take_bit 4 b)) OR unat (take_bit 2 (drop_bit 6 c)), unat (take_bit 6 c)] @ sextets rest"
| "sextets [a] = [unat (drop_bit 2 a), push_bit 4 (unat (take_bit 2 a))]"
| "sextets [a, b] =
     [unat (drop_bit 2 a), push_bit 4 (unat (take_bit 2 a)) OR unat (take_bit 4 (drop_bit 4 b)),
      push_bit 2 (unat (take_bit 4 b))]"
| "sextets [] = []"

definition pads :: "bytes \<Rightarrow> nat" where
  "pads xs = (3 - length xs mod 3) mod 3"

lemma pads_cases: "pads (a # b # c # xs) = pads xs" "pads [] = 0" "pads [a] = 2" "pads [a, b] = 1"
proof -
  have "Suc (Suc (Suc n)) mod 3 = n mod 3" for n :: nat by presburger
  then show "pads (a # b # c # xs) = pads xs" by (simp only: pads_def list.size add_Suc_right add_0_right Suc_eq_plus1 [symmetric])
qed (simp_all add: pads_def)

lemma masks:
  "w AND 0x03 = take_bit 2 (w :: 8 word)" "w AND 0x3F = take_bit 6 (w :: 8 word)"
  by (simp_all add: take_bit_eq_mask mask_eq_exp_minus_1)

lemma groups_sextets: "base64_groups xs = map sextet (sextets xs) @ replicate (pads xs) (CHR ''='')"
proof (induction xs rule: base64_groups.induct)
  case (1 a b c rest)
  then show ?case by (simp add: low_nibble masks pads_cases)
qed (simp_all add: low_nibble masks pads_cases eval_nat_numeral)

text \<open>A value whose bits are all below 6 is a sextet.\<close>

lemma bits_less: "(\<And>n. bit v n \<Longrightarrow> n < k) \<Longrightarrow> (v :: nat) < 2 ^ k"
proof -
  assume b: "\<And>n. bit v n \<Longrightarrow> n < k"
  have "take_bit k v = v" by (rule bit_eqI) (auto simp: bit_take_bit_iff dest: b)
  then show ?thesis by (metis take_bit_nat_less_exp)
qed

lemma bits_above: "(v :: nat) < 2 ^ k \<Longrightarrow> k \<le> n \<Longrightarrow> \<not> bit v n"
  by (metis bit_take_bit_iff linorder_not_less take_bit_nat_eq_self)

lemma bit_byte: "bit (w :: 8 word) n \<Longrightarrow> n < 8"
  using bit_imp_le_length [of w n] by simp

lemma bit_upper: "bit (w :: 8 word) (Suc (Suc n)) \<Longrightarrow> n < 6"
  using bit_byte [of w "Suc (Suc n)"] by simp

lemma sextets_less: "\<forall>v \<in> set (sextets xs). v < 64"
proof -
  have l: "v < 64" if "\<And>n. bit v n \<Longrightarrow> n < 6" for v :: nat
    using bits_less [OF that] by simp
  show ?thesis
    by (induction xs rule: sextets.induct)
      (auto simp: bit_simps dest: bit_upper intro!: l)
qed

lemma length_sextets:
  "length (sextets xs) * 3 div 4 = length xs" "length (sextets xs) mod 4 \<noteq> 1"
  "length (sextets xs) = 0 \<longleftrightarrow> xs = []" "length (sextets xs) + pads xs = (length xs + 2) div 3 * 4"
proof -
  have "\<exists>k. (length xs = 3 * k \<and> length (sextets xs) = 4 * k) \<or>
    (length xs = 3 * k + 1 \<and> length (sextets xs) = 4 * k + 2) \<or>
    (length xs = 3 * k + 2 \<and> length (sextets xs) = 4 * k + 3)"
    by (induction xs rule: sextets.induct) (auto, presburger+)
  then obtain k where k: "(length xs = 3 * k \<and> length (sextets xs) = 4 * k) \<or>
    (length xs = 3 * k + 1 \<and> length (sextets xs) = 4 * k + 2) \<or>
    (length xs = 3 * k + 2 \<and> length (sextets xs) = 4 * k + 3)" ..
  have n: "4 * k * 3 div 4 = 3 * k" "(4 * k + 2) * 3 div 4 = 3 * k + 1" "(4 * k + 3) * 3 div 4 = 3 * k + 2"
    by presburger+
  have m: "4 * k mod 4 = 0" "(4 * k + 2) mod 4 = 2" "(4 * k + 3) mod 4 = 3" by presburger+
  have t: "3 * k mod 3 = 0" "(3 * k + 1) mod 3 = 1" "(3 * k + 2) mod 3 = 2" by presburger+
  have u: "(3 * k + 2) div 3 = k" "(3 * k + 1 + 2) div 3 = k + 1" "(3 * k + 2 + 2) div 3 = k + 1" by presburger+
  show "length (sextets xs) * 3 div 4 = length xs" using k n by (elim disjE conjE) (simp_all only:)
  have "length (sextets xs) mod 4 = 0 \<or> length (sextets xs) mod 4 = 2 \<or> length (sextets xs) mod 4 = 3"
    using k m by metis
  then show "length (sextets xs) mod 4 \<noteq> 1" by linarith
  show "length (sextets xs) = 0 \<longleftrightarrow> xs = []" using k by (cases xs) auto
  show "length (sextets xs) + pads xs = (length xs + 2) div 3 * 4"
    using k t u unfolding pads_def by (elim disjE conjE) simp_all
qed

text \<open>The emitted bytes: the bits of the sextets in their places.\<close>

lemma int_masks: "v AND 0x0F = take_bit 4 (v :: int)" "v AND 0x03 = take_bit 2 (v :: int)"
  by (simp_all add: take_bit_eq_mask mask_eq_exp_minus_1)

lemma below_8: "n < LENGTH(8) \<Longrightarrow> n \<in> {0, 1, 2, 3, 4, 5, 6, 7}"
  by (auto simp: less_Suc_eq numeral_eq_Suc)

lemma join_first:
  assumes "m < 16"
  shows "word_of_int (push_bit 2 (uint (drop_bit 2 a)) OR drop_bit 4 (int (push_bit 4 (unat (take_bit 2 a)) OR m))) = (a :: 8 word)"
proof (rule bit_word_eqI)
  fix n assume n: "n < LENGTH(8)"
  have "\<not> bit m (4 + n)" using assms bits_above [of m 4 "4 + n"] by simp
  then show "bit (word_of_int (push_bit 2 (uint (drop_bit 2 a)) OR
      drop_bit 4 (int (push_bit 4 (unat (take_bit 2 a)) OR m))) :: 8 word) n = bit a n"
    using below_8 [OF n] by (auto simp: bit_simps, simp_all add: numeral_2_eq_2 numeral_3_eq_3)
qed

lemma join_second:
  assumes "m < 4"
  shows "word_of_int (push_bit 4 (take_bit 4 (int (push_bit 4 k OR unat (take_bit 4 (drop_bit 4 b)))))
    OR drop_bit 2 (int (push_bit 2 (unat (take_bit 4 b)) OR m))) = (b :: 8 word)"
proof (rule bit_word_eqI)
  fix n assume n: "n < LENGTH(8)"
  have "\<not> bit m (2 + n)" using assms bits_above [of m 2 "2 + n"] by simp
  then show "bit (word_of_int (push_bit 4 (take_bit 4 (int (push_bit 4 k OR unat (take_bit 4 (drop_bit 4 b)))))
    OR drop_bit 2 (int (push_bit 2 (unat (take_bit 4 b)) OR m))) :: 8 word) n = bit b n"
    using below_8 [OF n] by (auto simp: bit_simps)
qed

lemma join_third:
  "word_of_int (push_bit 6 (take_bit 2 (int (push_bit 2 k OR unat (take_bit 2 (drop_bit 6 c)))))
    OR uint (take_bit 6 c)) = (c :: 8 word)"
proof (rule bit_word_eqI)
  fix n assume n: "n < LENGTH(8)"
  show "bit (word_of_int (push_bit 6 (take_bit 2 (int (push_bit 2 k OR unat (take_bit 2 (drop_bit 6 c)))))
    OR uint (take_bit 6 c)) :: 8 word) n = bit c n"
    using below_8 [OF n] by (auto simp: bit_simps)
qed

lemma take_less: "unat (take_bit 4 w :: 8 word) < 16" "unat (take_bit 2 w :: 8 word) < 4"
  using take_bit_nat_less_exp [of 4 "unat w"] take_bit_nat_less_exp [of 2 "unat w"]
  by (simp_all add: unsigned_take_bit_eq)

lemma loop_sextets: "base64_loop (out + length xs) out (map int (sextets xs)) = xs"
proof (induction xs arbitrary: out rule: sextets.induct)
  case (1 a b c rest)
  from 1 [of "Suc (Suc (Suc out))"] show ?case
    by (simp add: base64_emit_def Let_def int_masks join_first join_second join_third take_less)
next
  case (2 a)
  then show ?case using join_first [of 0 a] by (simp add: base64_emit_def Let_def)
next
  case (3 a b)
  then show ?case
    using join_second [of 0 _ b] by (simp add: base64_emit_def Let_def int_masks join_first take_less)
next
  case 4
  then show ?case by simp
qed

lemma check_sextets:
  "\<forall>v \<in> set vs. v < 64 \<Longrightarrow> base64_check False 0 (map sextet vs @ replicate p (CHR ''='')) = Some p"
proof (induction vs)
  case Nil
  have "base64_check g n (replicate p (CHR ''='')) = Some (n + p)" for g n
    by (induction p arbitrary: g n) simp_all
  then show ?case by simp
next
  case (Cons v vs)
  then show ?case by (simp add: sextet_not_pad sextet_val)
qed

lemma values_sextets: "\<forall>v \<in> set vs. v < 64 \<Longrightarrow> map (base64_val \<circ> sextet) vs = map int vs"
  by (induction vs) (simp_all add: sextet_val)

interpretation base64: codec xBase64Encode xBase64Decode "\<lambda>n. (n + 2) div 3 * 4" "\<lambda>xs. 4 * (length xs + 3) < SIZE_LIM"
proof unfold_locales
  fix xs :: bytes and c :: nat
  assume small: "4 * (length xs + 3) < SIZE_LIM" and c: "(length xs + 2) div 3 * 4 < c"
  have "base64_need (length xs) = (length xs + 2) div 3 * 4"
    "size_add ((length xs + 2) div 3 * 4) 1 = (length xs + 2) div 3 * 4 + 1"
    using small by (simp_all add: base64_need_def size_add_small size_mul_small)
  then show "\<exists>t. xBase64Encode (Some xs) (Some c) = Some t \<and> length t = (length xs + 2) div 3 * 4"
    using c length_sextets(4) [of xs] by (simp add: xBase64Encode_def groups_sextets)
next
  fix xs :: bytes and c k :: nat and t
  assume small: "4 * (length xs + 3) < SIZE_LIM" and e: "xBase64Encode (Some xs) (Some c) = Some t" and k: "length xs \<le> k"
  have t: "t = map sextet (sextets xs) @ replicate (pads xs) (CHR ''='')"
    using e by (simp add: xBase64Encode_def groups_sextets split: if_splits)
  show "xBase64Decode (Some t) (Some k) = Some xs"
  proof (cases "xs = []")
    case True
    then show ?thesis by (simp add: t xBase64Decode_def pads_cases)
  next
    case False
    have p: "pads xs \<le> 2" by (simp add: pads_def)
    have n: "length (sextets xs) \<noteq> 0" using False length_sextets(3) [of xs] by simp
    have "length (sextets xs) * 3 < SIZE_LIM"
    proof -
      define q where "q = (length xs + 2) div 3"
      have "q * 3 \<le> length xs + 2" unfolding q_def by (rule div_times_less_eq_dividend)
      moreover have "length (sextets xs) + pads xs = q * 4" using length_sextets(4) [of xs] by (simp only: q_def)
      ultimately have "length (sextets xs) * 3 \<le> 4 * (length xs + 3)" by arith
      then show ?thesis using small by (rule le_less_trans)
    qed
    then have "size_mul (length (sextets xs)) 3 div 4 = length xs"
      using length_sextets(1) [of xs] by (simp add: size_mul_small)
    then show ?thesis
      using n p k length_sextets(2) [of xs] loop_sextets [of 0 xs] check_sextets [OF sextets_less, of xs "pads xs"]
        values_sextets [OF sextets_less, of xs]
      by (simp add: t xBase64Decode_def Let_def del: map_eq_conv)
  qed
qed

section \<open>Promises of the encodings\<close>

text \<open>
  Hexadecimal: with room for two digits per byte and the terminator, encoding succeeds with
  exactly that length, and decoding gives the bytes back.
\<close>

theorem hex_roundtrip:
  assumes "2 * length xs + 1 < SIZE_LIM" and "2 * length xs < c" and "length xs \<le> k"
  shows "\<exists>t. xHexEncode (Some xs) (Some c) = Some t \<and> length t = 2 * length xs \<and>
    xHexDecode (Some t) (Some k) = Some xs"
  using hex.enc_ok [OF assms(1,2)] hex.dec_enc [OF assms(1) _ assms(3), of c] by blast

theorem hex_roundtrip_witness:
  "\<exists>t. xHexEncode (Some [0, 0xAB, 255]) (Some 7) = Some t \<and> length t = 6 \<and>
    xHexDecode (Some t) (Some 3) = Some [0, 0xAB, 255]"
  using hex_roundtrip [of "[0, 0xAB, 255]" 7 3] by (simp add: SIZE_LIM_def)

text \<open>
  C37. Base64: with room for four characters per three bytes, padding included, and the terminator,
  encoding succeeds with exactly that length, and decoding gives the bytes back, for every length
  modulo three.
\<close>

theorem base64_roundtrip:
  assumes "4 * (length xs + 3) < SIZE_LIM" and "(length xs + 2) div 3 * 4 < c" and "length xs \<le> k"
  shows "\<exists>t. xBase64Encode (Some xs) (Some c) = Some t \<and> length t = (length xs + 2) div 3 * 4 \<and>
    xBase64Decode (Some t) (Some k) = Some xs"
  using base64.enc_ok [OF assms(1,2)] base64.dec_enc [OF assms(1) _ assms(3), of c] by blast

theorem base64_roundtrip_witness:
  "\<exists>t. xBase64Encode (Some [1, 2, 3, 250]) (Some 9) = Some t \<and> length t = 8 \<and>
    xBase64Decode (Some t) (Some 4) = Some [1, 2, 3, 250]"
  using base64_roundtrip [of "[1, 2, 3, 250]" 9 4] by (simp add: SIZE_LIM_def)

end
