(* ===== verification/Utf8.thy ===== *)
theory Utf8
  imports Prelude
begin

text \<open>
  \<^verbatim>\<open>libx/x/base/utf8.c\<close>: UTF-8 validation with a table-driven automaton, and the language it
  accepts.
\<close>

unbundle bit_operations_syntax

section \<open>The automaton\<close>

definition utf8_classes :: "nat list" where
  "utf8_classes =
    [0, 0, 0, 0, 0, 0, 0, 0, 0, 0, 0, 0, 0, 0, 0, 0, 0, 0, 0, 0, 0, 0, 0, 0, 0, 0, 0, 0, 0, 0, 0, 0,
     0, 0, 0, 0, 0, 0, 0, 0, 0, 0, 0, 0, 0, 0, 0, 0, 0, 0, 0, 0, 0, 0, 0, 0, 0, 0, 0, 0, 0, 0, 0, 0,
     0, 0, 0, 0, 0, 0, 0, 0, 0, 0, 0, 0, 0, 0, 0, 0, 0, 0, 0, 0, 0, 0, 0, 0, 0, 0, 0, 0, 0, 0, 0, 0,
     0, 0, 0, 0, 0, 0, 0, 0, 0, 0, 0, 0, 0, 0, 0, 0, 0, 0, 0, 0, 0, 0, 0, 0, 0, 0, 0, 0, 0, 0, 0, 0,
     1, 1, 1, 1, 1, 1, 1, 1, 1, 1, 1, 1, 1, 1, 1, 1, 9, 9, 9, 9, 9, 9, 9, 9, 9, 9, 9, 9, 9, 9, 9, 9,
     7, 7, 7, 7, 7, 7, 7, 7, 7, 7, 7, 7, 7, 7, 7, 7, 7, 7, 7, 7, 7, 7, 7, 7, 7, 7, 7, 7, 7, 7, 7, 7,
     8, 8, 2, 2, 2, 2, 2, 2, 2, 2, 2, 2, 2, 2, 2, 2, 2, 2, 2, 2, 2, 2, 2, 2, 2, 2, 2, 2, 2, 2, 2, 2,
     10, 3, 3, 3, 3, 3, 3, 3, 3, 3, 3, 3, 3, 4, 3, 3, 11, 6, 6, 6, 5, 8, 8, 8, 8, 8, 8, 8, 8, 8, 8, 8]"

definition utf8_transitions :: "nat list" where
  "utf8_transitions =
    [0, 12, 24, 36, 60, 96, 84, 12, 12, 12, 48, 72,
     12, 12, 12, 12, 12, 12, 12, 12, 12, 12, 12, 12,
     12, 0, 12, 12, 12, 12, 12, 0, 12, 0, 12, 12,
     12, 24, 12, 12, 12, 12, 12, 24, 12, 24, 12, 12,
     12, 12, 12, 12, 12, 12, 12, 24, 12, 12, 12, 12,
     12, 24, 12, 12, 12, 12, 12, 12, 12, 24, 12, 12,
     12, 12, 12, 12, 12, 12, 12, 12, 12, 36, 12, 12,
     12, 36, 12, 12, 12, 12, 12, 36, 12, 36, 12, 12,
     12, 36, 12, 12, 12, 12, 12, 12, 12, 12, 12, 12]"

definition utf8d :: "nat list" where
  "utf8d = utf8_classes @ utf8_transitions"

definition UTF8_ACCEPT :: nat where "UTF8_ACCEPT = 0"

definition UTF8_REJECT :: nat where "UTF8_REJECT = 12"

definition utf8_next :: "nat \<Rightarrow> 8 word \<Rightarrow> nat" where
  "utf8_next state b = utf8d ! (256 + state + utf8d ! unat b)"

text \<open>The loop: \<open>p\<close> bytes have been read, \<open>last_accept\<close> is where the last complete sequence ended.\<close>

fun utf8_dfa :: "nat \<Rightarrow> nat \<Rightarrow> nat \<Rightarrow> 8 word list \<Rightarrow> nat" where
  "utf8_dfa state last_accept p [] = last_accept"
| "utf8_dfa state last_accept p (b # bs) =
     (let s = utf8_next state b
      in if s = UTF8_ACCEPT then utf8_dfa s (Suc p) (Suc p) bs
         else if s = UTF8_REJECT then last_accept
         else utf8_dfa s last_accept (Suc p) bs)"

text \<open>
  The fast path skips eight bytes at a time while the top bits of all eight are clear: the test of
  the 64-bit word they form against \<^verbatim>\<open>0x8080808080808080\<close>, byte by byte.
\<close>

function utf8_skip_ascii :: "8 word list \<Rightarrow> nat" where
  "utf8_skip_ascii xs =
     (if 8 \<le> length xs \<and> list_all (\<lambda>b. b AND 0x80 = 0) (take 8 xs)
      then 8 + utf8_skip_ascii (drop 8 xs) else 0)"
  by pat_completeness auto
termination
  by (relation "measure length") auto

declare utf8_skip_ascii.simps [simp del]

definition xUtf8ValidPrefix :: "8 word list option \<Rightarrow> nat" where
  "xUtf8ValidPrefix data =
     (case data of
        None \<Rightarrow> 0
      | Some xs \<Rightarrow>
          if length xs = 0 then 0
          else let n = utf8_skip_ascii xs in utf8_dfa UTF8_ACCEPT n n (drop n xs))"

text \<open>The length is the caller's, also for a NULL pointer.\<close>

definition xValidateUtf8 :: "8 word list option \<Rightarrow> nat \<Rightarrow> bool" where
  "xValidateUtf8 data len \<longleftrightarrow> (if len = 0 then True else xUtf8ValidPrefix (map_option (take len) data) = len)"

section \<open>The language\<close>

definition byte_in :: "8 word \<Rightarrow> nat \<Rightarrow> nat \<Rightarrow> bool" where
  "byte_in b lo hi \<longleftrightarrow> lo \<le> unat b \<and> unat b \<le> hi"

abbreviation continuation :: "8 word \<Rightarrow> bool" where
  "continuation b \<equiv> byte_in b 0x80 0xBF"

text \<open>The well-formed sequences of UTF-8, from the table of the standard.\<close>

fun utf8_seq :: "8 word list \<Rightarrow> bool" where
  "utf8_seq [a] \<longleftrightarrow> byte_in a 0 0x7F"
| "utf8_seq [a, b] \<longleftrightarrow> byte_in a 0xC2 0xDF \<and> continuation b"
| "utf8_seq [a, b, c] \<longleftrightarrow> continuation c \<and>
     (byte_in a 0xE0 0xE0 \<and> byte_in b 0xA0 0xBF \<or> byte_in a 0xE1 0xEC \<and> continuation b \<or>
      byte_in a 0xED 0xED \<and> byte_in b 0x80 0x9F \<or> byte_in a 0xEE 0xEF \<and> continuation b)"
| "utf8_seq [a, b, c, d] \<longleftrightarrow> continuation c \<and> continuation d \<and>
     (byte_in a 0xF0 0xF0 \<and> byte_in b 0x90 0xBF \<or> byte_in a 0xF1 0xF3 \<and> continuation b \<or>
      byte_in a 0xF4 0xF4 \<and> byte_in b 0x80 0x8F)"
| "utf8_seq _ \<longleftrightarrow> False"

text \<open>The code points U+20000 to U+3FFFF: \<^verbatim>\<open>F0\<close> and a second byte from \<^verbatim>\<open>A0\<close> on.\<close>

definition plane_2_3 :: "8 word list \<Rightarrow> bool" where
  "plane_2_3 s \<longleftrightarrow> utf8_seq s \<and> length s = 4 \<and> byte_in (s ! 0) 0xF0 0xF0 \<and> byte_in (s ! 1) 0xA0 0xBF"

section \<open>The tables, range by range\<close>

definition byte_class :: "nat \<Rightarrow> nat" where
  "byte_class n =
     (if n < 0x80 then 0 else if n < 0x90 then 1 else if n < 0xA0 then 9 else if n < 0xC0 then 7
      else if n < 0xC2 then 8 else if n < 0xE0 then 2 else if n = 0xE0 then 10 else if n = 0xED then 4
      else if n < 0xF0 then 3 else if n = 0xF0 then 11 else if n < 0xF4 then 6 else if n = 0xF4 then 5 else 8)"

lemma classes_eq: "utf8_classes = map byte_class [0..<256]"
  by code_simp

lemma class_of: "utf8d ! unat (b :: 8 word) = byte_class (unat b)"
proof -
  have "unat b < 256" using unsigned_less [of b, where 'a = nat] by simp
  then show ?thesis by (simp add: utf8d_def classes_eq nth_append)
qed

lemma transition: "utf8d ! (256 + n) = utf8_transitions ! n"
  by (simp add: utf8d_def classes_eq nth_append)

lemma next_eq: "utf8_next s b = utf8_transitions ! (s + byte_class (unat b))"
  using transition [of "s + byte_class (unat b)"] by (simp add: utf8_next_def class_of add.assoc)

text \<open>The states after a lead byte, by what they still accept.\<close>

lemma next_accept: "utf8_next 0 b =
  (if byte_in b 0 0x7F then 0 else if byte_in b 0xC2 0xDF then 24 else if byte_in b 0xE0 0xE0 then 48
   else if byte_in b 0xED 0xED then 60 else if byte_in b 0xE1 0xEF then 36 else if byte_in b 0xF0 0xF0 then 72
   else if byte_in b 0xF1 0xF3 then 84 else if byte_in b 0xF4 0xF4 then 96 else 12)"
  unfolding next_eq byte_class_def byte_in_def utf8_transitions_def by auto

lemma next_continuation:
  "utf8_next 24 b = (if continuation b then 0 else 12)"
  "utf8_next 36 b = (if continuation b then 24 else 12)"
  "utf8_next 48 b = (if byte_in b 0xA0 0xBF then 24 else 12)"
  "utf8_next 60 b = (if byte_in b 0x80 0x9F then 24 else 12)"
  "utf8_next 72 b = (if byte_in b 0x90 0x9F then 36 else 12)"
  "utf8_next 84 b = (if continuation b then 36 else 12)"
  "utf8_next 96 b = (if byte_in b 0x80 0x8F then 36 else 12)"
  unfolding next_eq byte_class_def byte_in_def utf8_transitions_def by auto

section \<open>Sequences the automaton accepts\<close>

text \<open>How many bytes it takes to come back to the accepting state, if they are there.\<close>

fun completes :: "nat \<Rightarrow> 8 word list \<Rightarrow> nat option" where
  "completes state [] = None"
| "completes state (b # bs) =
     (let s = utf8_next state b
      in if s = UTF8_ACCEPT then Some 1 else if s = UTF8_REJECT then None else map_option Suc (completes s bs))"

lemma dfa_completes:
  "utf8_dfa state last_accept p xs =
    (case completes state xs of None \<Rightarrow> last_accept
     | Some n \<Rightarrow> utf8_dfa UTF8_ACCEPT (p + n) (p + n) (drop n xs))"
  by (induction xs arbitrary: state p) (auto simp: Let_def split: option.split)

lemma completes_continuation:
  "completes 24 (b # bs) = (if continuation b then Some 1 else None)"
  "completes 36 (b # bs) = (if continuation b then map_option Suc (completes 24 bs) else None)"
  "completes 48 (b # bs) = (if byte_in b 0xA0 0xBF then map_option Suc (completes 24 bs) else None)"
  "completes 60 (b # bs) = (if byte_in b 0x80 0x9F then map_option Suc (completes 24 bs) else None)"
  "completes 72 (b # bs) = (if byte_in b 0x90 0x9F then map_option Suc (completes 36 bs) else None)"
  "completes 84 (b # bs) = (if continuation b then map_option Suc (completes 36 bs) else None)"
  "completes 96 (b # bs) = (if byte_in b 0x80 0x8F then map_option Suc (completes 36 bs) else None)"
  by (simp_all add: next_continuation UTF8_ACCEPT_def UTF8_REJECT_def)

declare completes.simps(2) [simp del]

lemma completes_lead:
  "completes 0 (b # bs) =
    (if byte_in b 0 0x7F then Some 1
     else if byte_in b 0xC2 0xDF then map_option Suc (completes 24 bs)
     else if byte_in b 0xE0 0xE0 then map_option Suc (completes 48 bs)
     else if byte_in b 0xED 0xED then map_option Suc (completes 60 bs)
     else if byte_in b 0xE1 0xEF then map_option Suc (completes 36 bs)
     else if byte_in b 0xF0 0xF0 then map_option Suc (completes 72 bs)
     else if byte_in b 0xF1 0xF3 then map_option Suc (completes 84 bs)
     else if byte_in b 0xF4 0xF4 then map_option Suc (completes 96 bs) else None)"
  by (simp add: completes.simps(2) next_accept UTF8_ACCEPT_def UTF8_REJECT_def)

definition accepted :: "8 word list \<Rightarrow> bool" where
  "accepted q \<longleftrightarrow> utf8_seq q \<and> \<not> plane_2_3 q"

text \<open>The automaton stops exactly behind an accepted sequence.\<close>

lemma lead_rules:
  "byte_in b 0 0x7F \<Longrightarrow> completes 0 (b # bs) = Some 1"
  "byte_in b 0xC2 0xDF \<Longrightarrow> completes 0 (b # bs) = map_option Suc (completes 24 bs)"
  "byte_in b 0xE0 0xE0 \<Longrightarrow> completes 0 (b # bs) = map_option Suc (completes 48 bs)"
  "byte_in b 0xE1 0xEC \<Longrightarrow> completes 0 (b # bs) = map_option Suc (completes 36 bs)"
  "byte_in b 0xED 0xED \<Longrightarrow> completes 0 (b # bs) = map_option Suc (completes 60 bs)"
  "byte_in b 0xEE 0xEF \<Longrightarrow> completes 0 (b # bs) = map_option Suc (completes 36 bs)"
  "byte_in b 0xF0 0xF0 \<Longrightarrow> completes 0 (b # bs) = map_option Suc (completes 72 bs)"
  "byte_in b 0xF1 0xF3 \<Longrightarrow> completes 0 (b # bs) = map_option Suc (completes 84 bs)"
  "byte_in b 0xF4 0xF4 \<Longrightarrow> completes 0 (b # bs) = map_option Suc (completes 96 bs)"
  by (simp_all add: completes_lead byte_in_def)

lemma accepted_completes: "accepted q \<Longrightarrow> completes 0 (q @ ys) = Some (length q)"
proof -
  assume q: "accepted q"
  have len: "length q \<in> {1, 2, 3, 4}"
    using q by (cases q rule: utf8_seq.cases) (auto simp: accepted_def)
  then consider a where "q = [a]" | a b where "q = [a, b]" | a b c where "q = [a, b, c]"
    | a b c d where "q = [a, b, c, d]"
    by (auto simp: numeral_eq_Suc length_Suc_conv)
  then show ?thesis
  proof cases
    case 1
    with q show ?thesis by (simp add: accepted_def lead_rules)
  next
    case 2
    with q show ?thesis by (simp add: accepted_def lead_rules completes_continuation)
  next
    case (3 a b c)
    then have "byte_in a 0xE0 0xE0 \<and> byte_in b 0xA0 0xBF \<or> byte_in a 0xE1 0xEC \<and> continuation b \<or>
      byte_in a 0xED 0xED \<and> byte_in b 0x80 0x9F \<or> byte_in a 0xEE 0xEF \<and> continuation b"
      and "continuation c" using q by (simp_all add: accepted_def)
    with 3 show ?thesis by (elim disjE conjE) (simp_all add: lead_rules completes_continuation)
  next
    case (4 a b c d)
    then have "byte_in a 0xF0 0xF0 \<and> byte_in b 0x90 0xBF \<or> byte_in a 0xF1 0xF3 \<and> continuation b \<or>
      byte_in a 0xF4 0xF4 \<and> byte_in b 0x80 0x8F"
      and "continuation c" "continuation d" and "\<not> (byte_in a 0xF0 0xF0 \<and> byte_in b 0xA0 0xBF)"
      using q by (auto simp: accepted_def plane_2_3_def)
    moreover from this have "byte_in a 0xF0 0xF0 \<Longrightarrow> byte_in b 0x90 0xBF \<Longrightarrow> byte_in b 0x90 0x9F"
      by (simp add: byte_in_def)
    ultimately show ?thesis using 4 by (elim disjE conjE) (simp_all add: lead_rules completes_continuation)
  qed
qed

text \<open>And only behind one.\<close>

lemma continuations_taken:
  "completes 24 xs = Some n \<Longrightarrow> \<exists>b bs. xs = b # bs \<and> continuation b \<and> n = 1"
  "completes 36 xs = Some n \<Longrightarrow> \<exists>b c bs. xs = b # c # bs \<and> continuation b \<and> continuation c \<and> n = 2"
proof -
  show one: "\<exists>b bs. xs = b # bs \<and> continuation b \<and> n = 1" if "completes 24 xs = Some n" for xs n
    using that by (cases xs) (auto simp: completes_continuation split: if_splits)
  show "\<exists>b c bs. xs = b # c # bs \<and> continuation b \<and> continuation c \<and> n = 2" if "completes 36 xs = Some n"
    using that by (cases xs) (auto simp: completes_continuation split: if_splits dest!: one)
qed

lemma later_taken:
  "completes 48 xs = Some n \<Longrightarrow> \<exists>b c bs. xs = b # c # bs \<and> byte_in b 0xA0 0xBF \<and> continuation c \<and> n = 2"
  "completes 60 xs = Some n \<Longrightarrow> \<exists>b c bs. xs = b # c # bs \<and> byte_in b 0x80 0x9F \<and> continuation c \<and> n = 2"
  "completes 72 xs = Some n \<Longrightarrow>
    \<exists>b c d bs. xs = b # c # d # bs \<and> byte_in b 0x90 0x9F \<and> continuation c \<and> continuation d \<and> n = 3"
  "completes 84 xs = Some n \<Longrightarrow>
    \<exists>b c d bs. xs = b # c # d # bs \<and> continuation b \<and> continuation c \<and> continuation d \<and> n = 3"
  "completes 96 xs = Some n \<Longrightarrow>
    \<exists>b c d bs. xs = b # c # d # bs \<and> byte_in b 0x80 0x8F \<and> continuation c \<and> continuation d \<and> n = 3"
  by (cases xs; auto simp: completes_continuation(3-7) split: if_splits dest!: continuations_taken)+

lemma completes_accepted: "completes 0 xs = Some n \<Longrightarrow> accepted (take n xs) \<and> 0 < n \<and> n \<le> length xs"
proof -
  assume c: "completes 0 xs = Some n"
  obtain a as where xs: "xs = a # as" using c by (cases xs) auto
  note c = c [unfolded xs completes_lead]
  consider "byte_in a 0 0x7F" | "byte_in a 0xC2 0xDF" | "byte_in a 0xE0 0xE0" | "byte_in a 0xE1 0xEC"
    | "byte_in a 0xED 0xED" | "byte_in a 0xEE 0xEF" | "byte_in a 0xF0 0xF0" | "byte_in a 0xF1 0xF3" | "byte_in a 0xF4 0xF4"
    using c unfolding byte_in_def by (fastforce split: if_splits)
  then show ?thesis
  proof cases
    case 1
    with \<open>completes 0 xs = Some n\<close> show ?thesis
      by (auto simp: xs lead_rules accepted_def plane_2_3_def)
  next
    case 2
    with \<open>completes 0 xs = Some n\<close> show ?thesis
      by (auto simp: xs lead_rules accepted_def plane_2_3_def dest!: continuations_taken)
  next
    case 3
    with \<open>completes 0 xs = Some n\<close> show ?thesis
      by (auto simp: xs lead_rules accepted_def plane_2_3_def dest!: later_taken)
  next
    case 4
    with \<open>completes 0 xs = Some n\<close> show ?thesis
      by (auto simp: xs lead_rules accepted_def plane_2_3_def dest!: continuations_taken)
  next
    case 5
    with \<open>completes 0 xs = Some n\<close> show ?thesis
      by (auto simp: xs lead_rules accepted_def plane_2_3_def dest!: later_taken)
  next
    case 6
    with \<open>completes 0 xs = Some n\<close> show ?thesis
      by (auto simp: xs lead_rules accepted_def plane_2_3_def dest!: continuations_taken)
  next
    case 7
    with \<open>completes 0 xs = Some n\<close> obtain b c d bs where
      "as = b # c # d # bs" "byte_in b 0x90 0x9F" "continuation c" "continuation d" "n = 4"
      by (auto simp: xs lead_rules dest!: later_taken)
    moreover from this have "byte_in b 0x90 0xBF" "\<not> byte_in b 0xA0 0xBF" by (simp_all add: byte_in_def)
    ultimately show ?thesis using 7 by (simp add: xs accepted_def plane_2_3_def)
  next
    case 8
    with \<open>completes 0 xs = Some n\<close> have "\<not> byte_in a 0xF0 0xF0" by (simp add: byte_in_def)
    with 8 \<open>completes 0 xs = Some n\<close> show ?thesis
      by (auto simp: xs lead_rules accepted_def plane_2_3_def dest!: later_taken)
  next
    case 9
    then have "\<not> byte_in a 0xF0 0xF0" by (simp add: byte_in_def)
    with 9 \<open>completes 0 xs = Some n\<close> show ?thesis
      by (auto simp: xs lead_rules accepted_def plane_2_3_def dest!: later_taken)
  qed
qed


section \<open>The routine finds the longest accepted prefix\<close>

lemma ascii_byte: "(b :: 8 word) AND 0x80 = 0 \<longleftrightarrow> byte_in b 0 0x7F"
proof -
  have b: "unat b < 256" using unsigned_less [of b, where 'a = nat] by simp
  have "b AND 0x80 = 0 \<longleftrightarrow> \<not> bit b 7"
    using and_exp_eq_0_iff_not_bit [of b 7] by simp
  also have "\<dots> \<longleftrightarrow> \<not> bit (unat b) 7"
    using bit_unsigned_iff [of b 7, where 'a = nat] by simp
  also have "\<dots> \<longleftrightarrow> even (unat b div 2 ^ 7)"
    unfolding bit_iff_odd by blast
  also have "(2 :: nat) ^ 7 = 128" by simp
  also have "unat b div 128 = (if unat b < 128 then 0 else 1)"
    using b by (auto intro: div_nat_eqI)
  also have "even (if unat b < 128 then 0 else 1 :: nat) \<longleftrightarrow> unat b < 128" by simp
  finally show ?thesis by (auto simp: byte_in_def)
qed

lemma accepted_not_Nil [simp]: "\<not> accepted []"
  by (simp add: accepted_def)

lemma accepted_single: "byte_in b 0 0x7F \<Longrightarrow> accepted [b]"
  by (simp add: accepted_def plane_2_3_def)

lemma dfa_accepted:
  "list_all accepted ss \<Longrightarrow>
    utf8_dfa UTF8_ACCEPT p p (concat ss @ ys) = utf8_dfa UTF8_ACCEPT (p + length (concat ss)) (p + length (concat ss)) ys"
proof (induction ss arbitrary: p)
  case (Cons q ss)
  then have "completes UTF8_ACCEPT (q @ concat ss @ ys) = Some (length q)"
    by (simp add: accepted_completes UTF8_ACCEPT_def)
  with Cons show ?case by (simp add: dfa_completes [where xs = "q @ _"] add.assoc)
qed simp

lemma skip_ascii:
  "utf8_skip_ascii xs \<le> length xs \<and> list_all (\<lambda>b. byte_in b 0 0x7F) (take (utf8_skip_ascii xs) xs)"
proof (induction xs rule: utf8_skip_ascii.induct)
  case (1 xs)
  show ?case
  proof (cases "8 \<le> length xs \<and> list_all (\<lambda>b. b AND 0x80 = 0) (take 8 xs)")
    case True
    with 1 show ?thesis
      by (subst (1 2) utf8_skip_ascii.simps) (auto simp: take_add ascii_byte)
  next
    case False
    then show ?thesis by (subst (1 2) utf8_skip_ascii.simps) auto
  qed
qed

text \<open>The fast path makes no difference: the automaton from the first byte on gives the same.\<close>

lemma prefix_dfa: "xUtf8ValidPrefix (Some xs) = utf8_dfa UTF8_ACCEPT 0 0 xs"
proof -
  define n where "n = utf8_skip_ascii xs"
  define ss where "ss = map (\<lambda>b. [b]) (take n xs)"
  have n: "n \<le> length xs" "list_all (\<lambda>b. byte_in b 0 0x7F) (take n xs)"
    using skip_ascii [of xs] by (simp_all add: n_def)
  have ss: "concat ss = take n xs" by (simp add: ss_def)
  have "list_all accepted ss"
    using n(2) by (auto simp: ss_def list_all_iff accepted_single)
  from dfa_accepted [OF this, of 0 "drop n xs"] n(1)
  have "utf8_dfa UTF8_ACCEPT 0 0 xs = utf8_dfa UTF8_ACCEPT n n (drop n xs)"
    by (simp add: ss min_absorb2)
  then show ?thesis using n(1) by (auto simp: xUtf8ValidPrefix_def n_def Let_def)
qed

lemma dfa_prefix:
  "\<exists>ss rest. list_all accepted ss \<and> xs = concat ss @ rest \<and> completes UTF8_ACCEPT rest = None \<and>
     utf8_dfa UTF8_ACCEPT p p xs = p + length (concat ss)"
proof (induction "length xs" arbitrary: xs p rule: less_induct)
  case less
  show ?case
  proof (cases "completes UTF8_ACCEPT xs")
    case None
    then have "utf8_dfa UTF8_ACCEPT p p xs = p" by (simp add: dfa_completes)
    with None show ?thesis by (intro exI [of _ "[]"] exI [of _ xs]) simp
  next
    case (Some n)
    then have n: "accepted (take n xs)" "0 < n" "n \<le> length xs"
      using completes_accepted [of xs n] by (simp_all add: UTF8_ACCEPT_def)
    then have "length (drop n xs) < length xs" by simp
    from less [OF this, of "p + n"] obtain ss rest where
      ss: "list_all accepted ss" "drop n xs = concat ss @ rest" "completes UTF8_ACCEPT rest = None"
        "utf8_dfa UTF8_ACCEPT (p + n) (p + n) (drop n xs) = p + n + length (concat ss)"
      by blast
    have "xs = concat (take n xs # ss) @ rest"
      using ss(2) append_take_drop_id [of n xs] by simp
    moreover have "utf8_dfa UTF8_ACCEPT p p xs = p + length (concat (take n xs # ss))"
      using ss(4) Some n(3) by (subst dfa_completes) simp
    ultimately show ?thesis using ss(1,3) n(1) by (intro exI [of _ "take n xs # ss"] exI [of _ rest]) simp
  qed
qed

lemma accepted_dfa_None: "completes UTF8_ACCEPT rest = None \<Longrightarrow> \<not> (\<exists>q ys. accepted q \<and> rest = q @ ys)"
  using accepted_completes by (auto simp: UTF8_ACCEPT_def)

text \<open>
  C38. The valid prefix is a row of accepted sequences behind which no accepted sequence follows, so
  validation accepts exactly the concatenations of accepted sequences: the eight-byte fast path
  changes nothing. Accepted are the well-formed sequences of UTF-8 except those of U+20000 to
  U+3FFFF (planes 2 and 3), such as F0 A0 80 80, which the transition table refuses.
\<close>

theorem utf8_valid_prefix:
  "(\<exists>ss rest. list_all accepted ss \<and> xs = concat ss @ rest \<and>
      xUtf8ValidPrefix (Some xs) = length (concat ss) \<and> \<not> (\<exists>q ys. accepted q \<and> rest = q @ ys)) \<and>
   (xValidateUtf8 (Some xs) (length xs) \<longleftrightarrow> (\<exists>ss. list_all accepted ss \<and> xs = concat ss)) \<and>
   (accepted q \<longleftrightarrow> utf8_seq q \<and> \<not> plane_2_3 q) \<and>
   utf8_seq [0xF0, 0xA0, 0x80, 0x80] \<and> \<not> xValidateUtf8 (Some [0xF0, 0xA0, 0x80, 0x80]) 4"
proof (intro conjI)
  obtain ss rest where ss: "list_all accepted ss" "xs = concat ss @ rest" "completes UTF8_ACCEPT rest = None"
    and n: "xUtf8ValidPrefix (Some xs) = length (concat ss)"
    using dfa_prefix [of xs 0] by (auto simp: prefix_dfa)
  then show "\<exists>ss rest. list_all accepted ss \<and> xs = concat ss @ rest \<and>
      xUtf8ValidPrefix (Some xs) = length (concat ss) \<and> \<not> (\<exists>q ys. accepted q \<and> rest = q @ ys)"
    using accepted_dfa_None by blast
  have "xValidateUtf8 (Some xs) (length xs) \<longleftrightarrow> rest = []"
    using ss(2) n by (auto simp: xValidateUtf8_def)
  also have "\<dots> \<longleftrightarrow> (\<exists>ss. list_all accepted ss \<and> xs = concat ss)"
  proof
    assume "\<exists>ss. list_all accepted ss \<and> xs = concat ss"
    then obtain us where us: "list_all accepted us" "xs = concat us" by blast
    from dfa_accepted [OF us(1), of 0 "[]"] us(2) n have "length xs = length (concat ss)"
      by (simp add: prefix_dfa)
    with ss(2) show "rest = []" by simp
  qed (use ss in auto)
  finally show "xValidateUtf8 (Some xs) (length xs) \<longleftrightarrow> (\<exists>ss. list_all accepted ss \<and> xs = concat ss)" .
  show "accepted q \<longleftrightarrow> utf8_seq q \<and> \<not> plane_2_3 q" by (simp add: accepted_def)
  show "utf8_seq [0xF0, 0xA0, 0x80, 0x80]" by (simp add: byte_in_def)
  have "utf8_dfa UTF8_ACCEPT 0 0 [0xF0, 0xA0, 0x80, 0x80] = 0"
    by (simp add: dfa_completes completes_lead completes_continuation byte_in_def UTF8_ACCEPT_def)
  then show "\<not> xValidateUtf8 (Some [0xF0, 0xA0, 0x80, 0x80]) 4"
    by (simp add: xValidateUtf8_def prefix_dfa)
qed

end
