(* ===== verification/MapSpec.thy ===== *)
theory MapSpec
  imports Prelude "HOL-Library.Multiset"
begin

text \<open>
  What the three backends of \<^verbatim>\<open>libx/x/base/map.c\<close> share: the built-in key functions, the
  association a map stands for, and the interface of a backend with what follows from it for a
  client. Keys are compared by a caller's function; a value is a pointer that may be NULL.
\<close>

unbundle bit_operations_syntax

section \<open>Keys\<close>

locale keyed =
  fixes hash :: "'k \<Rightarrow> 64 word" and eq :: "'k \<Rightarrow> 'k \<Rightarrow> bool"
  assumes eq_refl [simp]: "eq k k"
    and eq_sym: "eq k l \<Longrightarrow> eq l k"
    and eq_trans: "eq k l \<Longrightarrow> eq l r \<Longrightarrow> eq k r"
    and eq_hash: "eq k l \<Longrightarrow> hash k = hash l"

text \<open>FNV-1a over the bytes of a string, and the finalizer of splitmix64.\<close>

definition xMapStrHash :: "string \<Rightarrow> 64 word" where
  "xMapStrHash s = fold (\<lambda>c h. (h XOR word_of_nat (of_char c)) * 1099511628211) s 14695981039346656037"

definition xMapStrEq :: "string \<Rightarrow> string \<Rightarrow> bool" where
  "xMapStrEq a b \<longleftrightarrow> a = b"

definition xMapIntHash :: "64 word \<Rightarrow> 64 word" where
  "xMapIntHash key =
     (let x = key XOR drop_bit 30 key; x = x * 0xbf58476d1ce4e5b9;
          x = x XOR drop_bit 27 x; x = x * 0x94d049bb133111eb
      in x XOR drop_bit 31 x)"

definition xMapIntEq :: "64 word \<Rightarrow> 64 word \<Rightarrow> bool" where
  "xMapIntEq a b \<longleftrightarrow> a = b"

interpretation str_keys: keyed xMapStrHash xMapStrEq
  by unfold_locales (simp_all add: xMapStrEq_def)

interpretation int_keys: keyed xMapIntHash xMapIntEq
  by unfold_locales (simp_all add: xMapIntEq_def)

section \<open>Associations\<close>

fun assoc_find :: "('k \<Rightarrow> 'k \<Rightarrow> bool) \<Rightarrow> ('k \<times> 'v) list \<Rightarrow> 'k \<Rightarrow> 'v option" where
  "assoc_find eq [] key = None"
| "assoc_find eq ((k, v) # ps) key = (if eq k key then Some v else assoc_find eq ps key)"

definition drop_key :: "('k \<Rightarrow> 'k \<Rightarrow> bool) \<Rightarrow> 'k \<Rightarrow> ('k \<times> 'v) list \<Rightarrow> ('k \<times> 'v) list" where
  "drop_key eq key = filter (\<lambda>p. \<not> eq (fst p) key)"

definition keys_distinct :: "('k \<Rightarrow> 'k \<Rightarrow> bool) \<Rightarrow> ('k \<times> 'v) list \<Rightarrow> bool" where
  "keys_distinct eq = sorted_wrt (\<lambda>p q. \<not> eq (fst p) (fst q))"

text \<open>A NULL value looks like a missing key.\<close>

definition value_of :: "'v option option \<Rightarrow> 'v option" where
  "value_of x = (case x of None \<Rightarrow> None | Some v \<Rightarrow> v)"

lemma value_of_simps [simp]: "value_of None = None" "value_of (Some v) = v"
  by (simp_all add: value_of_def)

lemma assoc_find_append: "assoc_find eq (ps @ qs) key = (case assoc_find eq ps key of None \<Rightarrow> assoc_find eq qs key | r \<Rightarrow> r)"
  by (induction ps) auto

lemma assoc_find_None: "assoc_find eq ps key = None \<longleftrightarrow> (\<forall>p \<in> set ps. \<not> eq (fst p) key)"
  by (induction ps) (auto split: if_splits)

lemma assoc_find_Some: "assoc_find eq ps key = Some v \<Longrightarrow> \<exists>k. (k, v) \<in> set ps \<and> eq k key"
  by (induction ps) (auto split: if_splits)

lemma assoc_find_mid:
  "assoc_find eq us key = None \<Longrightarrow> assoc_find eq vs key = None \<Longrightarrow> assoc_find eq (us @ ps @ vs) key = assoc_find eq ps key"
  by (simp add: assoc_find_append split: option.split)

lemma drop_key_absent: "assoc_find eq ps key = None \<Longrightarrow> drop_key eq key ps = ps"
  unfolding assoc_find_None drop_key_def by simp

context keyed
begin

lemma assoc_find_in:
  assumes "keys_distinct eq ps" and "(k, v) \<in> set ps" and "eq k key"
  shows "assoc_find eq ps key = Some v"
  using assms
proof (induction ps)
  case (Cons p ps)
  show ?case
  proof (cases "p = (k, v)")
    case False
    with Cons.prems have "(k, v) \<in> set ps" "\<not> eq (fst p) k" by (auto simp: keys_distinct_def)
    moreover from this Cons.prems(3) have "\<not> eq (fst p) key" using eq_sym eq_trans by blast
    ultimately show ?thesis using Cons by (cases p) (auto simp: keys_distinct_def)
  qed (use Cons.prems in auto)
qed simp

lemma assoc_find_iff:
  "keys_distinct eq ps \<Longrightarrow> assoc_find eq ps key = Some v \<longleftrightarrow> (\<exists>k. (k, v) \<in> set ps \<and> eq k key)"
  by (rule iffI) (erule assoc_find_Some, elim exE conjE, rule assoc_find_in)

lemma eq_swap: "eq k l = eq l k"
  by (rule iffI) (erule eq_sym)+

lemma eq_subst: "eq k l \<Longrightarrow> eq k r = eq l r"
  by (rule iffI) (erule eq_trans [OF eq_sym], assumption, erule eq_trans, assumption)

lemma keys_distinct_split:
  "keys_distinct eq (ps @ p # qs) \<longleftrightarrow> keys_distinct eq (ps @ qs) \<and> (\<forall>q \<in> set (ps @ qs). \<not> eq (fst q) (fst p))"
  unfolding keys_distinct_def sorted_wrt_append using eq_sym by auto

lemma keys_distinct_mset:
  "keys_distinct eq ps \<Longrightarrow> mset ps = mset qs \<Longrightarrow> keys_distinct eq qs"
proof (induction ps arbitrary: qs)
  case (Cons p ps)
  from Cons.prems(2) obtain as bs where qs: "qs = as @ p # bs"
    by (metis in_set_conv_decomp list.set_intros(1) mset_eq_setD)
  with Cons.prems(2) have "mset ps = mset (as @ bs)" by simp
  with Cons.IH Cons.prems(1) have "keys_distinct eq (as @ bs)" by (auto simp: keys_distinct_def)
  moreover have "\<forall>q \<in> set (as @ bs). \<not> eq (fst q) (fst p)"
    using Cons.prems(1) \<open>mset ps = mset (as @ bs)\<close> eq_sym
    by (metis keys_distinct_def mset_eq_setD sorted_wrt.simps(2))
  ultimately show ?case unfolding qs keys_distinct_split by blast
qed (simp add: keys_distinct_def)

lemma assoc_find_mset:
  assumes "keys_distinct eq ps" and "mset ps = mset qs"
  shows "assoc_find eq qs = assoc_find eq ps"
proof
  fix key
  have "assoc_find eq qs key = Some v \<longleftrightarrow> assoc_find eq ps key = Some v" for v
    using assoc_find_iff keys_distinct_mset [OF assms] assms by (metis mset_eq_setD)
  then show "assoc_find eq qs key = assoc_find eq ps key" by (metis option.exhaust)
qed

lemma drop_key_distinct: "keys_distinct eq ps \<Longrightarrow> keys_distinct eq (drop_key eq key ps)"
  unfolding keys_distinct_def drop_key_def by (rule sorted_wrt_filter)

lemma drop_key_find: "assoc_find eq (drop_key eq key ps) l = (if eq l key then None else assoc_find eq ps l)"
proof (induction ps)
  case (Cons p ps)
  have "eq l key \<Longrightarrow> eq (fst p) l \<Longrightarrow> eq (fst p) key" and "eq (fst p) l \<Longrightarrow> eq (fst p) key \<Longrightarrow> eq l key"
    using eq_sym eq_trans by blast+
  then show ?case using Cons by (cases p) (auto simp: drop_key_def)
qed (simp add: drop_key_def)

text \<open>Deleting a key that is there takes one pair away.\<close>

lemma drop_key_split:
  assumes "keys_distinct eq (ps @ (k, v) # qs)" and "eq k key"
  shows "drop_key eq key (ps @ (k, v) # qs) = ps @ qs"
proof -
  have "\<not> eq (fst q) key" if "q \<in> set (ps @ qs)" for q
    using assms that eq_sym eq_trans unfolding keys_distinct_split by (metis fst_conv)
  then show ?thesis using assms(2) by (simp add: drop_key_def)
qed

lemma pairs_value:
  assumes "keys_distinct eq (us @ (k, w) # vs)" and "eq k key"
  shows "keys_distinct eq (us @ (k, v) # vs)"
    "mset (us @ (k, v) # vs) = add_mset (k, v) (mset (drop_key eq key (us @ (k, w) # vs)))"
proof -
  show "keys_distinct eq (us @ (k, v) # vs)" using assms(1) unfolding keys_distinct_split fst_conv .
  show "mset (us @ (k, v) # vs) = add_mset (k, v) (mset (drop_key eq key (us @ (k, w) # vs)))"
    using drop_key_split [OF assms] by simp
qed

lemma pairs_add:
  assumes "keys_distinct eq (us @ vs)" and "assoc_find eq (us @ vs) key = None"
  shows "keys_distinct eq (us @ (key, v) # vs)"
    "mset (us @ (key, v) # vs) = add_mset (key, v) (mset (drop_key eq key (us @ vs)))"
  using assms drop_key_absent [OF assms(2)] unfolding keys_distinct_split assoc_find_None by simp_all

lemma pairs_del:
  assumes "keys_distinct eq (us @ (k, w) # vs)" and "eq k key"
  shows "keys_distinct eq (us @ vs)" "mset (us @ vs) = mset (drop_key eq key (us @ (k, w) # vs))"
  using drop_key_split [OF assms] assms(1) unfolding keys_distinct_split by simp_all

lemma put_distinct:
  "keys_distinct eq ps \<Longrightarrow> eq k0 key \<Longrightarrow> keys_distinct eq ((k0, v) # drop_key eq key ps)"
  using drop_key_distinct [of ps key]
  by (simp add: keys_distinct_def drop_key_def eq_subst [of k0 key] eq_swap [of key])

lemma put_find:
  "eq k0 key \<Longrightarrow>
    assoc_find eq ((k0, v) # drop_key eq key ps) = (\<lambda>l. if eq l key then Some v else assoc_find eq ps l)"
  by (simp add: fun_eq_iff drop_key_find eq_subst [of k0 key] eq_swap [of key])

end

text \<open>
  Iteration calls a function on each pair until it says to stop, threading what the callback keeps.
\<close>

fun visit :: "('p \<Rightarrow> 'a \<Rightarrow> bool \<times> 'a) \<Rightarrow> 'p list \<Rightarrow> 'a \<Rightarrow> bool \<times> 'a" where
  "visit fn [] a = (True, a)"
| "visit fn (p # ps) a = (case fn p a of (go, a') \<Rightarrow> if go then visit fn ps a' else (False, a'))"

lemma visit_append: "visit fn (ps @ qs) a = (case visit fn ps a of (go, a') \<Rightarrow> if go then visit fn qs a' else (False, a'))"
  by (induction ps arbitrary: a) (auto split: prod.split)

abbreviation collect_pairs :: "'p \<Rightarrow> 'p list \<Rightarrow> bool \<times> 'p list" where
  "collect_pairs \<equiv> \<lambda>p acc. (True, acc @ [p])"

lemma visit_all [simp]: "visit (\<lambda>p acc. (True, acc @ [p])) ps acc = (True, acc @ ps)"
  by (induction ps arbitrary: acc) simp_all

text \<open>\<^verbatim>\<open>calloc (n, size)\<close> fails when the product overflows.\<close>

definition calloc :: "allocs \<Rightarrow> nat \<Rightarrow> nat \<Rightarrow> bool \<times> allocs" where
  "calloc m n sz = (case draw m of (ok, m') \<Rightarrow> (ok \<and> n * sz < SIZE_LIM, m'))"

section \<open>Tables\<close>

text \<open>The index a hash has in a table: \<^verbatim>\<open>hash & (cap - 1)\<close>.\<close>

definition table_idx :: "nat \<Rightarrow> 64 word \<Rightarrow> nat" where
  "table_idx cap h = unat (h AND word_of_nat (cap - 1))"

lemma table_idx_less: "0 < cap \<Longrightarrow> cap \<le> 2 ^ 64 \<Longrightarrow> table_idx cap h < cap"
proof -
  assume cap: "0 < cap" "cap \<le> 2 ^ 64"
  have "h AND word_of_nat (cap - 1) \<le> word_of_nat (cap - 1)" by (rule word_and_le1)
  then have "table_idx cap h \<le> unat (word_of_nat (cap - 1) :: 64 word)"
    unfolding table_idx_def by (rule word_le_nat_alt [THEN iffD1])
  also have "\<dots> \<le> cap - 1" by (simp add: unat_of_nat)
  finally show ?thesis using cap(1) by linarith
qed

section \<open>The interface\<close>

text \<open>
  \<open>pairs\<close> lists the contents in the order of iteration. A failing \<open>set_op\<close> changes nothing but
  perhaps that order; None says that an operation does not return, or reads through a NULL pointer.
\<close>

locale map_backend = keyed hash eq
  for hash :: "'k \<Rightarrow> 64 word" and eq :: "'k \<Rightarrow> 'k \<Rightarrow> bool" +
  fixes map_ok :: "'s \<Rightarrow> bool" and pairs :: "'s \<Rightarrow> ('k \<times> 'v option) list"
    and set_op :: "allocs \<Rightarrow> 'k \<Rightarrow> 'v option \<Rightarrow> 's \<Rightarrow> (xErrno \<times> 's \<times> allocs) option"
    and get_op :: "'k \<Rightarrow> 's \<Rightarrow> 'v option" and del_op :: "'k \<Rightarrow> 's \<Rightarrow> ('v option \<times> 's) option"
    and len_op :: "'s \<Rightarrow> nat" and iter_op :: "'s \<Rightarrow> ('k \<times> 'v option) list"
  assumes distinct_law: "map_ok s \<Longrightarrow> keys_distinct eq (pairs s)"
    and set_law: "map_ok s \<Longrightarrow> \<exists>e s' m'. set_op m key v s = Some (e, s', m') \<and> map_ok s' \<and>
      (if e = xErrno_Ok then \<exists>k0. eq k0 key \<and> mset (pairs s') = add_mset (k0, v) (mset (drop_key eq key (pairs s)))
       else mset (pairs s') = mset (pairs s))"
    and get_law: "map_ok s \<Longrightarrow> get_op key s = value_of (assoc_find eq (pairs s) key)"
    and del_law: "map_ok s \<Longrightarrow> \<exists>r s'. del_op key s = Some (r, s') \<and>
      map_ok s' \<and> r = value_of (assoc_find eq (pairs s) key) \<and> mset (pairs s') = mset (drop_key eq key (pairs s))"
    and len_law: "map_ok s \<Longrightarrow> len_op s = length (pairs s)"
    and iter_law: "map_ok s \<Longrightarrow> iter_op s = pairs s"

text \<open>What a client does and sees, and the function that explains it.\<close>

datatype ('k, 'v) map_op = Op_set 'k "'v option" | Op_get 'k | Op_del 'k | Op_len | Op_iterate

datatype ('k, 'v) map_res =
  Res_set xErrno | Res_val "'v option" | Res_len nat | Res_pairs "('k \<times> 'v option) list"

fun map_run ::
  "(allocs \<Rightarrow> 'k \<Rightarrow> 'v option \<Rightarrow> 's \<Rightarrow> (xErrno \<times> 's \<times> allocs) option) \<Rightarrow> ('k \<Rightarrow> 's \<Rightarrow> 'v option) \<Rightarrow>
   ('k \<Rightarrow> 's \<Rightarrow> ('v option \<times> 's) option) \<Rightarrow> ('s \<Rightarrow> nat) \<Rightarrow> ('s \<Rightarrow> ('k \<times> 'v option) list) \<Rightarrow>
   allocs \<Rightarrow> ('k, 'v) map_op list \<Rightarrow> 's \<Rightarrow> ('k, 'v) map_res list option" where
  "map_run set_op get_op del_op len_op iter_op m [] s = Some []"
| "map_run set_op get_op del_op len_op iter_op m (Op_set k v # ops) s =
     (case set_op m k v s of
        None \<Rightarrow> None
      | Some (e, s', m') \<Rightarrow> map_option ((#) (Res_set e)) (map_run set_op get_op del_op len_op iter_op m' ops s'))"
| "map_run set_op get_op del_op len_op iter_op m (Op_get k # ops) s =
     map_option ((#) (Res_val (get_op k s))) (map_run set_op get_op del_op len_op iter_op m ops s)"
| "map_run set_op get_op del_op len_op iter_op m (Op_del k # ops) s =
     (case del_op k s of
        None \<Rightarrow> None
      | Some (r, s') \<Rightarrow> map_option ((#) (Res_val r)) (map_run set_op get_op del_op len_op iter_op m ops s'))"
| "map_run set_op get_op del_op len_op iter_op m (Op_len # ops) s =
     map_option ((#) (Res_len (len_op s))) (map_run set_op get_op del_op len_op iter_op m ops s)"
| "map_run set_op get_op del_op len_op iter_op m (Op_iterate # ops) s =
     map_option ((#) (Res_pairs (iter_op s))) (map_run set_op get_op del_op len_op iter_op m ops s)"

text \<open>\<open>n\<close> counts the keys, and an iteration visits each of them once; a set that reports an error has not happened.\<close>

fun explained ::
  "('k \<Rightarrow> 'k \<Rightarrow> bool) \<Rightarrow> ('k \<Rightarrow> 'v option option) \<Rightarrow> nat \<Rightarrow> ('k, 'v) map_op list \<Rightarrow> ('k, 'v) map_res list \<Rightarrow> bool" where
  "explained eq f n [] [] \<longleftrightarrow> True"
| "explained eq f n (Op_set k v # ops) (Res_set e # rs) \<longleftrightarrow>
     (if e = xErrno_Ok
      then explained eq (\<lambda>l. if eq l k then Some v else f l) (if f k = None then Suc n else n) ops rs
      else explained eq f n ops rs)"
| "explained eq f n (Op_get k # ops) (Res_val x # rs) \<longleftrightarrow> x = value_of (f k) \<and> explained eq f n ops rs"
| "explained eq f n (Op_del k # ops) (Res_val x # rs) \<longleftrightarrow>
     x = value_of (f k) \<and>
     explained eq (\<lambda>l. if eq l k then None else f l) (if f k = None then n else n - 1) ops rs"
| "explained eq f n (Op_len # ops) (Res_len k # rs) \<longleftrightarrow> k = n \<and> explained eq f n ops rs"
| "explained eq f n (Op_iterate # ops) (Res_pairs ps # rs) \<longleftrightarrow>
     keys_distinct eq ps \<and> assoc_find eq ps = f \<and> length ps = n \<and> explained eq f n ops rs"
| "explained eq f n _ _ \<longleftrightarrow> False"

context map_backend
begin

lemma length_drop_key:
  assumes "keys_distinct eq ps"
  shows "length (drop_key eq key ps) = (if assoc_find eq ps key = None then length ps else length ps - 1)"
proof (cases "assoc_find eq ps key")
  case None
  then show ?thesis by (simp add: drop_key_absent)
next
  case (Some v)
  then obtain k as bs where "eq k key" "ps = as @ (k, v) # bs"
    by (metis assoc_find_Some in_set_conv_decomp)
  with drop_key_split assms Some show ?thesis by fastforce
qed

lemma set_ok:
  assumes "map_ok s"
  obtains e s' m' where "set_op m key v s = Some (e, s', m')" "map_ok s'"
    "if e = xErrno_Ok
     then assoc_find eq (pairs s') = (\<lambda>l. if eq l key then Some v else assoc_find eq (pairs s) l) \<and>
       len_op s' = (if assoc_find eq (pairs s) key = None then Suc (len_op s) else len_op s)
     else assoc_find eq (pairs s') = assoc_find eq (pairs s) \<and> len_op s' = len_op s"
proof -
  obtain e s' m' where s': "set_op m key v s = Some (e, s', m')" "map_ok s'"
    and ps: "if e = xErrno_Ok
      then \<exists>k0. eq k0 key \<and> mset (pairs s') = add_mset (k0, v) (mset (drop_key eq key (pairs s)))
      else mset (pairs s') = mset (pairs s)"
    using set_law [OF assms, of m key v] by blast
  note d = distinct_law [OF assms]
  show thesis
  proof (cases "e = xErrno_Ok")
    case True
    with ps obtain k0 where k0: "eq k0 key" "mset ((k0, v) # drop_key eq key (pairs s)) = mset (pairs s')" by auto
    have "assoc_find eq (pairs s') = (\<lambda>l. if eq l key then Some v else assoc_find eq (pairs s) l)"
      using assoc_find_mset [OF put_distinct [OF d k0(1)] k0(2)] put_find [OF k0(1)] by simp
    moreover have "len_op s' = (if assoc_find eq (pairs s) key = None then Suc (len_op s) else len_op s)"
    proof -
      have "assoc_find eq (pairs s) key \<noteq> None \<Longrightarrow> 0 < length (pairs s)" by (cases "pairs s") auto
      moreover have "length (pairs s') = Suc (length (drop_key eq key (pairs s)))"
        using k0(2) by (metis length_Cons size_mset)
      ultimately show ?thesis
        using length_drop_key [OF d, of key] by (auto simp: len_law assms s'(2))
    qed
    ultimately show thesis using that [OF s'] True by simp
  next
    case False
    with ps have m: "mset (pairs s) = mset (pairs s')" by simp
    then have "length (pairs s') = length (pairs s)" by (metis size_mset)
    with that [OF s'] False assoc_find_mset [OF d m] show thesis by (simp add: len_law assms s'(2))
  qed
qed

lemma del_ok:
  assumes "map_ok s" and "del_op key s = Some (r, s')"
  shows "map_ok s'" "r = value_of (assoc_find eq (pairs s) key)"
    "assoc_find eq (pairs s') = (\<lambda>l. if eq l key then None else assoc_find eq (pairs s) l)"
    "len_op s' = (if assoc_find eq (pairs s) key = None then len_op s else len_op s - 1)"
proof -
  note d = distinct_law [OF assms(1)]
  show ok: "map_ok s'" "r = value_of (assoc_find eq (pairs s) key)"
    using del_law [OF assms(1), of key] assms(2) by auto
  have m: "mset (drop_key eq key (pairs s)) = mset (pairs s')" using del_law [OF assms(1), of key] assms(2) by auto
  show "assoc_find eq (pairs s') = (\<lambda>l. if eq l key then None else assoc_find eq (pairs s) l)"
    using assoc_find_mset [OF drop_key_distinct [OF d] m] by (simp add: drop_key_find fun_eq_iff)
  show "len_op s' = (if assoc_find eq (pairs s) key = None then len_op s else len_op s - 1)"
    using length_drop_key [OF d, of key] m ok(1) assms(1) by (metis len_law size_mset)
qed

text \<open>Every run of operations returns and is what the association explains.\<close>

theorem run_explained:
  "map_ok s \<Longrightarrow> \<exists>rs. map_run set_op get_op del_op len_op iter_op m ops s = Some rs \<and>
     explained eq (assoc_find eq (pairs s)) (len_op s) ops rs"
proof (induction ops arbitrary: s m)
  case (Cons op ops)
  show ?case
  proof (cases op)
    case (Op_set k v)
    obtain e s' m' where s': "set_op m k v s = Some (e, s', m')" "map_ok s'"
      and f: "if e = xErrno_Ok
       then assoc_find eq (pairs s') = (\<lambda>l. if eq l k then Some v else assoc_find eq (pairs s) l) \<and>
         len_op s' = (if assoc_find eq (pairs s) k = None then Suc (len_op s) else len_op s)
       else assoc_find eq (pairs s') = assoc_find eq (pairs s) \<and> len_op s' = len_op s"
      by (rule set_ok [OF Cons.prems, of m k v])
    from Cons.IH [OF s'(2), of m'] f show ?thesis by (auto simp: Op_set s'(1) split: if_splits)
  next
    case (Op_del k)
    obtain r s' where s': "del_op k s = Some (r, s')" using del_law [OF Cons.prems, of k] by blast
    note d = del_ok [OF Cons.prems s']
    from Cons.IH [OF d(1), of m] d(2-4) show ?thesis by (auto simp: Op_del s' split: if_splits)
  next
    case (Op_get k)
    from Cons.IH [OF Cons.prems, of m] get_law [OF Cons.prems, of k] show ?thesis by (auto simp: Op_get)
  next
    case Op_len
    from Cons.IH [OF Cons.prems, of m] show ?thesis by (auto simp: Op_len)
  next
    case Op_iterate
    from Cons.IH [OF Cons.prems, of m] distinct_law [OF Cons.prems] show ?thesis
      by (auto simp: Op_iterate iter_law [OF Cons.prems] len_law [OF Cons.prems])
  qed
qed simp

end

end
