(* ===== verification/MapHash.thy ===== *)
theory MapHash
  imports MapSpec
begin

text \<open>
  \<^verbatim>\<open>libx/x/base/map_hash.c\<close>: the separate-chaining backend. A bucket is the list of its entries; an
  entry of the slab pool is one allocation.
\<close>

section \<open>State\<close>

record ('k, 'v) xMapHash =
  mh_buckets :: "('k \<times> 'v option) list list"
  mh_size :: nat
  mh_cap :: nat

definition bucket_idx :: "('k \<Rightarrow> 64 word) \<Rightarrow> ('k, 'v) xMapHash \<Rightarrow> 'k \<Rightarrow> nat" where
  "bucket_idx hash h key = table_idx (mh_cap h) (hash key)"

definition relink ::
  "('k \<Rightarrow> 64 word) \<Rightarrow> nat \<Rightarrow> 'k \<times> 'v option \<Rightarrow> ('k \<times> 'v option) list list \<Rightarrow> ('k \<times> 'v option) list list" where
  "relink hash new_cap e new =
     (let idx = table_idx new_cap (hash (fst e)) in new[idx := e # new ! idx])"

definition hash_resize :: "('k \<Rightarrow> 64 word) \<Rightarrow> allocs \<Rightarrow> ('k, 'v) xMapHash \<Rightarrow> xErrno \<times> ('k, 'v) xMapHash \<times> allocs" where
  "hash_resize hash m h =
     (let new_cap = mh_cap h * 2; (ok, m') = calloc m new_cap 8
      in if \<not> ok then (xErrno_NoMemory, h, m')
         else (xErrno_Ok, h\<lparr>mh_buckets := fold (\<lambda>chain new. fold (relink hash new_cap) chain new)
                              (mh_buckets h) (replicate new_cap []), mh_cap := new_cap\<rparr>, m'))"

section \<open>Operations\<close>

fun chain_put :: "('k \<Rightarrow> 'k \<Rightarrow> bool) \<Rightarrow> 'k \<Rightarrow> 'v option \<Rightarrow> ('k \<times> 'v option) list \<Rightarrow> ('k \<times> 'v option) list option" where
  "chain_put eq key val [] = None"
| "chain_put eq key val ((k, v) # es) =
     (if eq k key then Some ((k, val) # es) else map_option ((#) (k, v)) (chain_put eq key val es))"

definition hash_set ::
  "('k \<Rightarrow> 64 word) \<Rightarrow> ('k \<Rightarrow> 'k \<Rightarrow> bool) \<Rightarrow> allocs \<Rightarrow> 'k \<Rightarrow> 'v option \<Rightarrow> ('k, 'v) xMapHash \<Rightarrow>
   xErrno \<times> ('k, 'v) xMapHash \<times> allocs" where
  "hash_set hash eq m key val h =
     (let idx = bucket_idx hash h key
      in case chain_put eq key val (mh_buckets h ! idx) of
           Some chain \<Rightarrow> (xErrno_Ok, h\<lparr>mh_buckets := (mh_buckets h)[idx := chain]\<rparr>, m)
         | None \<Rightarrow>
             let (err, h1, m1) =
               (if mh_cap h * 3 div 4 < mh_size h + 1 then hash_resize hash m h else (xErrno_Ok, h, m))
             in if err \<noteq> xErrno_Ok then (err, h1, m1)
                else let idx = bucket_idx hash h1 key; (ok, m2) = draw m1
                     in if \<not> ok then (xErrno_NoMemory, h1, m2)
                        else (xErrno_Ok, h1\<lparr>mh_buckets := (mh_buckets h1)[idx := (key, val) # mh_buckets h1 ! idx],
                                mh_size := mh_size h1 + 1\<rparr>, m2))"

definition hash_get :: "('k \<Rightarrow> 64 word) \<Rightarrow> ('k \<Rightarrow> 'k \<Rightarrow> bool) \<Rightarrow> 'k \<Rightarrow> ('k, 'v) xMapHash \<Rightarrow> 'v option" where
  "hash_get hash eq key h = value_of (assoc_find eq (mh_buckets h ! bucket_idx hash h key) key)"

fun chain_del :: "('k \<Rightarrow> 'k \<Rightarrow> bool) \<Rightarrow> 'k \<Rightarrow> ('k \<times> 'v option) list \<Rightarrow> ('v option \<times> ('k \<times> 'v option) list) option" where
  "chain_del eq key [] = None"
| "chain_del eq key ((k, v) # es) =
     (if eq k key then Some (v, es) else map_option (\<lambda>(r, rest). (r, (k, v) # rest)) (chain_del eq key es))"

definition hash_del :: "('k \<Rightarrow> 64 word) \<Rightarrow> ('k \<Rightarrow> 'k \<Rightarrow> bool) \<Rightarrow> 'k \<Rightarrow> ('k, 'v) xMapHash \<Rightarrow> 'v option \<times> ('k, 'v) xMapHash" where
  "hash_del hash eq key h =
     (let idx = bucket_idx hash h key
      in case chain_del eq key (mh_buckets h ! idx) of
           None \<Rightarrow> (None, h)
         | Some (val, chain) \<Rightarrow> (val, h\<lparr>mh_buckets := (mh_buckets h)[idx := chain], mh_size := mh_size h - 1\<rparr>))"

definition hash_len :: "('k, 'v) xMapHash \<Rightarrow> nat" where
  "hash_len h = mh_size h"

definition hash_iterate :: "('k \<times> 'v option \<Rightarrow> 'a \<Rightarrow> bool \<times> 'a) \<Rightarrow> ('k, 'v) xMapHash \<Rightarrow> 'a \<Rightarrow> 'a" where
  "hash_iterate fn h a = snd (visit fn (concat (mh_buckets h)) a)"

text \<open>
  One allocation holds the structure (56 bytes) and the buckets (8 bytes each). Its size is computed in
  \<^verbatim>\<open>size_t\<close> and wraps, so a table may own fewer buckets than its capacity says.
\<close>

definition hash_bytes :: "nat \<Rightarrow> nat" where
  "hash_bytes cap = size_add 56 (size_mul cap 8)"

definition xMapHashCreate :: "allocs \<Rightarrow> nat \<Rightarrow> ('k, 'v) xMapHash option \<times> allocs" where
  "xMapHashCreate m cap =
     (let (ok, m1) = draw m
      in if \<not> ok then (None, m1)
         else let (ok2, m2) = draw m1
              in if \<not> ok2 then (None, m2)
                 else (Some \<lparr>mh_buckets = replicate (min cap ((hash_bytes cap - 56) div 8)) [], mh_size = 0, mh_cap = cap\<rparr>, m2))"

lemma hash_buckets: "cap < 2 ^ 59 \<Longrightarrow> min cap ((hash_bytes cap - 56) div 8) = cap"
  by (simp add: hash_bytes_def size_add_def size_mul_def SIZE_LIM_def)

section \<open>The invariant\<close>

text \<open>Every entry is in the bucket of its hash, and no key is there twice.\<close>

definition hash_ok :: "('k \<Rightarrow> 64 word) \<Rightarrow> ('k \<Rightarrow> 'k \<Rightarrow> bool) \<Rightarrow> ('k, 'v) xMapHash \<Rightarrow> bool" where
  "hash_ok hash eq h \<longleftrightarrow> 0 < mh_cap h \<and> mh_cap h \<le> 2 ^ 64 \<and> length (mh_buckets h) = mh_cap h \<and>
     (\<forall>i < mh_cap h. \<forall>e \<in> set (mh_buckets h ! i). table_idx (mh_cap h) (hash (fst e)) = i) \<and>
     keys_distinct eq (concat (mh_buckets h)) \<and> mh_size h = length (concat (mh_buckets h))"

abbreviation hash_pairs :: "('k, 'v) xMapHash \<Rightarrow> ('k \<times> 'v option) list" where
  "hash_pairs h \<equiv> concat (mh_buckets h)"

lemma hash_okD:
  assumes "hash_ok hash eq h"
  shows "0 < mh_cap h" "mh_cap h \<le> 2 ^ 64" "length (mh_buckets h) = mh_cap h"
    "i < mh_cap h \<Longrightarrow> e \<in> set (mh_buckets h ! i) \<Longrightarrow> table_idx (mh_cap h) (hash (fst e)) = i"
    "keys_distinct eq (hash_pairs h)" "mh_size h = length (hash_pairs h)" "bucket_idx hash h key < mh_cap h"
  using assms by (auto simp: hash_ok_def bucket_idx_def table_idx_less)

lemma concat_update:
  "i < length bs \<Longrightarrow> mset (concat (bs[i := c])) + mset (bs ! i) = mset (concat bs) + mset c"
  by (subst (2) id_take_nth_drop [of i bs]) (simp_all add: upd_conv_take_nth_drop)

lemma concat_split:
  "i < length bs \<Longrightarrow> concat bs = concat (take i bs) @ bs ! i @ concat (drop (Suc i) bs)"
  by (subst id_take_nth_drop [of i bs]) simp_all

definition well_hashed :: "('k \<Rightarrow> 64 word) \<Rightarrow> nat \<Rightarrow> ('k \<times> 'v option) list list \<Rightarrow> bool" where
  "well_hashed hash cap bs \<longleftrightarrow> length bs = cap \<and>
     (\<forall>i < cap. \<forall>e \<in> set (bs ! i). table_idx cap (hash (fst e)) = i)"

lemma well_hashed_relink:
  assumes "0 < cap" "cap \<le> 2 ^ 64" "well_hashed hash cap bs"
  shows "well_hashed hash cap (relink hash cap p bs)"
    "mset (concat (relink hash cap p bs)) = add_mset p (mset (concat bs))"
proof -
  let ?i = "table_idx cap (hash (fst p))"
  have i: "?i < length bs" using assms by (simp add: well_hashed_def table_idx_less)
  then show "well_hashed hash cap (relink hash cap p bs)"
    using assms(3) by (auto simp: well_hashed_def relink_def Let_def nth_list_update)
  from concat_update [OF i, of "p # bs ! ?i"]
  show "mset (concat (relink hash cap p bs)) = add_mset p (mset (concat bs))"
    by (simp add: relink_def Let_def)
qed

lemma well_hashed_fold:
  assumes "0 < cap" "cap \<le> 2 ^ 64"
  shows "well_hashed hash cap bs \<Longrightarrow> well_hashed hash cap (fold (relink hash cap) es bs) \<and>
    mset (concat (fold (relink hash cap) es bs)) = mset es + mset (concat bs)"
  by (induction es arbitrary: bs) (simp_all add: well_hashed_relink [OF assms])

lemma fold_fold: "fold (\<lambda>c. fold f c) cs x = fold f (concat cs) x"
  by (induction cs arbitrary: x) simp_all

context keyed
begin

lemma pairs_find:
  assumes "hash_ok hash eq h"
  shows "assoc_find eq (hash_pairs h) key = assoc_find eq (mh_buckets h ! bucket_idx hash h key) key"
proof -
  let ?i = "bucket_idx hash h key"
  note ok = hash_okD [OF assms]
  have "assoc_find eq (mh_buckets h ! j) key = None" if "j < mh_cap h" "j \<noteq> ?i" for j
    using that ok(4) [of j] eq_hash by (fastforce simp: assoc_find_None bucket_idx_def)
  then have none: "assoc_find eq (concat bs) key = None"
    if "\<And>c. c \<in> set bs \<Longrightarrow> \<exists>j. j < mh_cap h \<and> j \<noteq> ?i \<and> c = mh_buckets h ! j" for bs
    using that unfolding assoc_find_None by (metis UN_E set_concat)
  have "assoc_find eq (concat (take ?i (mh_buckets h))) key = None"
    by (rule none) (use ok(3) in \<open>auto simp: in_set_conv_nth\<close>)
  moreover have "assoc_find eq (concat (drop (Suc ?i) (mh_buckets h))) key = None"
  proof (rule none)
    fix c assume "c \<in> set (drop (Suc ?i) (mh_buckets h))"
    then obtain j where "j < mh_cap h - Suc ?i" "c = mh_buckets h ! (Suc ?i + j)"
      using ok(3) ok(7) [of key] by (auto simp: in_set_conv_nth)
    then show "\<exists>j. j < mh_cap h \<and> j \<noteq> ?i \<and> c = mh_buckets h ! j"
      by (intro exI [of _ "Suc ?i + j"]) auto
  qed
  ultimately show ?thesis
    using concat_split [of ?i "mh_buckets h"] ok(3,7) by (simp add: assoc_find_append split: option.split)
qed

lemma hash_resize_ok:
  assumes "hash_ok hash eq h" and "hash_resize hash m h = (err, h', m')"
  shows "hash_ok hash eq h' \<and> mset (hash_pairs h') = mset (hash_pairs h) \<and> mh_size h' = mh_size h"
proof (cases "err = xErrno_Ok")
  case False
  with assms show ?thesis by (auto simp: hash_resize_def Let_def split: prod.splits if_splits)
next
  case True
  let ?cap = "mh_cap h * 2"
  note ok = hash_okD [OF assms(1)]
  from True assms(2) have h': "h' = h\<lparr>mh_buckets := fold (relink hash ?cap) (hash_pairs h) (replicate ?cap []), mh_cap := ?cap\<rparr>"
    and "?cap * 8 < SIZE_LIM"
    by (auto simp: hash_resize_def Let_def calloc_def fold_fold split: prod.splits if_splits)
  then have cap: "0 < ?cap" "?cap \<le> 2 ^ 64" using ok(1) by (simp_all add: SIZE_LIM_def)
  have "well_hashed hash ?cap (replicate ?cap [])" by (simp add: well_hashed_def)
  note new = well_hashed_fold [OF cap this, of "hash_pairs h"]
  have "concat (replicate n []) = []" for n by (induction n) simp_all
  with new have m: "mset (hash_pairs h') = mset (hash_pairs h)" by (simp add: h')
  moreover have "length (hash_pairs h') = length (hash_pairs h)" using m by (metis size_mset)
  moreover have "hash_ok hash eq h'"
    using cap new keys_distinct_mset [OF ok(5) m [symmetric]] ok(6) \<open>length (hash_pairs h') = _\<close>
    by (simp add: hash_ok_def well_hashed_def h')
  ultimately show ?thesis by (simp add: h')
qed

lemma chain_put_find: "chain_put eq key val es = None \<longleftrightarrow> assoc_find eq es key = None"
  by (induction es) (auto split: if_splits)

lemma chain_put_split:
  "chain_put eq key val es = Some es' \<Longrightarrow>
    \<exists>as k v bs. es = as @ (k, v) # bs \<and> eq k key \<and> es' = as @ (k, val) # bs"
proof (induction es arbitrary: es')
  case (Cons e es)
  obtain k v where e: "e = (k, v)" by fastforce
  show ?case
  proof (cases "eq k key")
    case True
    with Cons.prems show ?thesis by (intro exI [of _ "[]"] exI [of _ k] exI [of _ v] exI [of _ es]) (simp add: e)
  next
    case False
    with Cons.prems obtain es1 where "chain_put eq key val es = Some es1" "es' = (k, v) # es1" by (auto simp: e)
    with Cons.IH show ?thesis by (metis append_Cons e)
  qed
qed simp

lemma chain_del_None: "chain_del eq key es = None \<longleftrightarrow> assoc_find eq es key = None"
  by (induction es) (auto split: if_splits)

lemma chain_del_split:
  "chain_del eq key es = Some (r, es') \<Longrightarrow>
    assoc_find eq es key = Some r \<and> (\<exists>as k bs. es = as @ (k, r) # bs \<and> eq k key \<and> es' = as @ bs)"
proof (induction es arbitrary: es')
  case (Cons e es)
  obtain k v where e: "e = (k, v)" by fastforce
  show ?case
  proof (cases "eq k key")
    case True
    with Cons.prems show ?thesis by (auto simp: e intro: exI [of _ "[]"])
  next
    case False
    with Cons.prems obtain es1 where "chain_del eq key es = Some (r, es1)" "es' = (k, v) # es1" by (auto simp: e)
    with Cons.IH False show ?thesis by (simp add: e) (metis append_Cons)
  qed
qed simp

text \<open>One bucket replaced: the invariant needs the entries of the new chain in the right place.\<close>

lemma hash_ok_chain:
  assumes "hash_ok hash eq h" and "i < mh_cap h"
    and "\<forall>e \<in> set c. table_idx (mh_cap h) (hash (fst e)) = i"
    and "keys_distinct eq (concat ((mh_buckets h)[i := c]))" and "n = length (concat ((mh_buckets h)[i := c]))"
  shows "hash_ok hash eq (h\<lparr>mh_buckets := (mh_buckets h)[i := c], mh_size := n\<rparr>)"
  using assms by (auto simp: hash_ok_def nth_list_update)

lemma bucket_pairs:
  assumes "hash_ok hash eq h" and "i < mh_cap h" and "mh_buckets h ! i = as @ bs"
  obtains us vs where "hash_pairs h = us @ as @ bs @ vs" "\<And>c. concat ((mh_buckets h)[i := c]) = us @ c @ vs"
proof
  note ok = hash_okD [OF assms(1)]
  show "hash_pairs h = concat (take i (mh_buckets h)) @ as @ bs @ concat (drop (Suc i) (mh_buckets h))"
    using concat_split [of i "mh_buckets h"] ok(3) assms(2,3) by simp
  show "concat ((mh_buckets h)[i := c]) = concat (take i (mh_buckets h)) @ c @ concat (drop (Suc i) (mh_buckets h))" for c
    using ok(3) assms(2) by (simp add: upd_conv_take_nth_drop)
qed

lemma hash_set_ok:
  assumes ok: "hash_ok hash eq h" and set: "hash_set hash eq m key v h = (e, h', m')"
  shows "hash_ok hash eq h' \<and>
    (if e = xErrno_Ok then \<exists>k0. eq k0 key \<and> mset (hash_pairs h') = add_mset (k0, v) (mset (drop_key eq key (hash_pairs h)))
     else mset (hash_pairs h') = mset (hash_pairs h))"
proof (cases "chain_put eq key v (mh_buckets h ! bucket_idx hash h key)")
  case (Some chain)
  let ?i = "bucket_idx hash h key"
  from Some set have h': "e = xErrno_Ok" "h' = h\<lparr>mh_buckets := (mh_buckets h)[?i := chain]\<rparr>"
    by (simp_all add: hash_set_def Let_def)
  obtain as k w bs where old: "mh_buckets h ! ?i = as @ (k, w) # bs" and k: "eq k key"
    and new: "chain = as @ (k, v) # bs"
    using chain_put_split [OF Some] by blast
  obtain us vs where p: "hash_pairs h = us @ as @ (k, w) # bs @ vs"
    and c: "\<And>c. concat ((mh_buckets h)[?i := c]) = us @ c @ vs"
    using bucket_pairs [OF ok hash_okD(7) [OF ok] old] by auto
  have d: "keys_distinct eq ((us @ as) @ (k, w) # bs @ vs)" using hash_okD(5) [OF ok] p by simp
  then have "keys_distinct eq ((us @ as) @ (k, v) # bs @ vs)" unfolding keys_distinct_split fst_conv .
  moreover have "\<forall>e \<in> set (mh_buckets h ! ?i). table_idx (mh_cap h) (hash (fst e)) = ?i"
    using hash_okD(4) [OF ok hash_okD(7) [OF ok, of key]] by blast
  ultimately have "hash_ok hash eq (h\<lparr>mh_buckets := (mh_buckets h)[?i := chain], mh_size := mh_size h\<rparr>)"
    using hash_okD(6) [OF ok]
    by (intro hash_ok_chain [OF ok hash_okD(7) [OF ok]]) (auto simp: c new old p)
  moreover have "mset (hash_pairs h') = add_mset (k, v) (mset (drop_key eq key (hash_pairs h)))"
    using drop_key_split [OF d k] by (simp add: h' c new p)
  ultimately show ?thesis using h' k by auto
next
  case None
  then have absent: "assoc_find eq (hash_pairs h) key = None"
    by (simp add: chain_put_find pairs_find [OF ok])
  obtain err h1 m1 where grow: "(if mh_cap h * 3 div 4 < mh_size h + 1 then hash_resize hash m h
      else (xErrno_Ok, h, m)) = (err, h1, m1)"
    by (metis prod_cases3)
  then have h1: "hash_ok hash eq h1" "mset (hash_pairs h1) = mset (hash_pairs h)"
    using ok hash_resize_ok [OF ok] by (auto split: if_splits)
  obtain ok2 m2 where dr: "draw m1 = (ok2, m2)" by fastforce
  show ?thesis
  proof (cases "err = xErrno_Ok \<and> ok2")
    case False
    then show ?thesis using set None grow dr h1 by (auto simp: hash_set_def split: if_splits)
  next
    case True
    let ?i = "bucket_idx hash h1 key" and ?c = "(key, v) # mh_buckets h1 ! bucket_idx hash h1 key"
    from True set None grow dr have h': "e = xErrno_Ok"
      "h' = h1\<lparr>mh_buckets := (mh_buckets h1)[?i := ?c], mh_size := mh_size h1 + 1\<rparr>"
      by (simp_all add: hash_set_def Let_def)
    obtain us vs where p: "hash_pairs h1 = us @ mh_buckets h1 ! ?i @ vs"
      and c: "\<And>c. concat ((mh_buckets h1)[?i := c]) = us @ c @ vs"
      using bucket_pairs [OF h1(1) hash_okD(7) [OF h1(1)], of key "[]" "mh_buckets h1 ! bucket_idx hash h1 key"] by auto
    have "\<not> eq (fst q) key" if "q \<in> set (hash_pairs h1)" for q
      using absent that h1(2) unfolding assoc_find_None by (metis mset_eq_setD)
    then have "keys_distinct eq (us @ (key, v) # mh_buckets h1 ! ?i @ vs)"
      using hash_okD(5) [OF h1(1)] unfolding keys_distinct_split p by simp
    moreover have "\<forall>e \<in> set ?c. table_idx (mh_cap h1) (hash (fst e)) = ?i"
      using hash_okD(4) [OF h1(1) hash_okD(7) [OF h1(1), of key]] by (auto simp: bucket_idx_def)
    ultimately have "hash_ok hash eq h'"
      unfolding h' using hash_okD(6) [OF h1(1)] p
      by (intro hash_ok_chain [OF h1(1) hash_okD(7) [OF h1(1)]]) (simp_all add: c)
    moreover have "mset (hash_pairs h') = add_mset (key, v) (mset (hash_pairs h1))"
      by (simp add: h' c p)
    ultimately show ?thesis
      using h1(2) h'(1) absent by (auto simp: drop_key_absent)
  qed
qed

lemma hash_del_ok:
  assumes ok: "hash_ok hash eq h" and del: "hash_del hash eq key h = (r, h')"
  shows "hash_ok hash eq h' \<and> r = value_of (assoc_find eq (hash_pairs h) key) \<and>
    mset (hash_pairs h') = mset (drop_key eq key (hash_pairs h))"
proof (cases "chain_del eq key (mh_buckets h ! bucket_idx hash h key)")
  case None
  then have "assoc_find eq (hash_pairs h) key = None" by (simp add: chain_del_None pairs_find [OF ok])
  with None del ok show ?thesis by (simp add: hash_del_def Let_def drop_key_absent)
next
  case (Some rc)
  let ?i = "bucket_idx hash h key"
  obtain chain where rc: "rc = (r, chain)"
    and h': "h' = h\<lparr>mh_buckets := (mh_buckets h)[?i := chain], mh_size := mh_size h - 1\<rparr>"
    using Some del by (auto simp: hash_del_def Let_def split: prod.splits)
  from chain_del_split [OF Some [unfolded rc]] obtain as k bs where
    f: "assoc_find eq (mh_buckets h ! ?i) key = Some r" and k: "eq k key"
    and old: "mh_buckets h ! ?i = as @ (k, r) # bs" and new: "chain = as @ bs"
    by blast
  obtain us vs where p: "hash_pairs h = us @ as @ (k, r) # bs @ vs"
    and c: "\<And>c. concat ((mh_buckets h)[?i := c]) = us @ c @ vs"
    using bucket_pairs [OF ok hash_okD(7) [OF ok] old] by auto
  have d: "keys_distinct eq ((us @ as) @ (k, r) # bs @ vs)" using hash_okD(5) [OF ok] p by simp
  then have "keys_distinct eq (us @ as @ bs @ vs)" unfolding keys_distinct_split by simp
  then have "hash_ok hash eq h'"
    unfolding h' using hash_okD(4) [OF ok hash_okD(7) [OF ok, of key]] hash_okD(6) [OF ok]
    by (intro hash_ok_chain [OF ok hash_okD(7) [OF ok]]) (auto simp: c new old p)
  moreover have "mset (hash_pairs h') = mset (drop_key eq key (hash_pairs h))"
    using drop_key_split [OF d k] by (simp add: h' c new p)
  ultimately show ?thesis using f by (simp add: pairs_find [OF ok])
qed

lemma hash_ok_create: "xMapHashCreate m cap = (Some h, m') \<Longrightarrow> 0 < cap \<Longrightarrow> cap < 2 ^ 59 \<Longrightarrow>
  hash_ok hash eq h \<and> hash_pairs h = [] \<and> hash_len h = 0"
  by (auto simp: xMapHashCreate_def hash_buckets hash_ok_def keys_distinct_def hash_len_def Let_def split: prod.splits if_splits)

end

sublocale keyed \<subseteq> hash_map: map_backend hash eq "hash_ok hash eq" hash_pairs
    "\<lambda>m key v h. Some (hash_set hash eq m key v h)" "hash_get hash eq" "\<lambda>key h. Some (hash_del hash eq key h)" hash_len
    "\<lambda>h. hash_iterate collect_pairs h []"
proof
  fix h m key v
  assume ok: "hash_ok hash eq h"
  obtain e h' m' where "hash_set hash eq m key v h = (e, h', m')" by (metis prod_cases3)
  with hash_set_ok [OF ok this] show "\<exists>e h' m'. Some (hash_set hash eq m key v h) = Some (e, h', m') \<and> hash_ok hash eq h' \<and>
      (if e = xErrno_Ok then \<exists>k0. eq k0 key \<and> mset (hash_pairs h') = add_mset (k0, v) (mset (drop_key eq key (hash_pairs h)))
       else mset (hash_pairs h') = mset (hash_pairs h))"
    by blast
next
  fix h key
  assume ok: "hash_ok hash eq h"
  obtain r h' where "hash_del hash eq key h = (r, h')" by fastforce
  with hash_del_ok [OF ok this] show "\<exists>r h'. Some (hash_del hash eq key h) = Some (r, h') \<and> hash_ok hash eq h' \<and>
      r = value_of (assoc_find eq (hash_pairs h) key) \<and> mset (hash_pairs h') = mset (drop_key eq key (hash_pairs h))"
    by blast
qed (simp_all add: hash_okD(5) hash_okD(6) hash_get_def hash_len_def hash_iterate_def pairs_find)

end
