(* ===== verification/MapFlat.thy ===== *)
theory MapFlat
  imports MapHash
begin

text \<open>
  \<^verbatim>\<open>libx/x/base/map_flat.c\<close>: the open-addressing backend, with linear probing and tombstones. The
  search for a free slot during a resize is a loop that may run forever; it is a partial function,
  and None is a call that does not return.
\<close>

unbundle bit_operations_syntax

section \<open>State\<close>

datatype ('k, 'v) xMapFlatSlot = SLOT_EMPTY | SLOT_OCCUPIED 'k "'v option" | SLOT_TOMBSTONE

record ('k, 'v) xMapFlat =
  mf_slots :: "('k, 'v) xMapFlatSlot list"
  mf_size :: nat
  mf_cap :: nat

fun occupied :: "('k, 'v) xMapFlatSlot \<Rightarrow> bool" where
  "occupied (SLOT_OCCUPIED k v) \<longleftrightarrow> True"
| "occupied _ \<longleftrightarrow> False"

definition slot_idx :: "('k \<Rightarrow> 64 word) \<Rightarrow> ('k, 'v) xMapFlat \<Rightarrow> 'k \<Rightarrow> nat" where
  "slot_idx hash f key = table_idx (mf_cap f) (hash key)"

partial_function (option) find_free :: "('k, 'v) xMapFlatSlot list \<Rightarrow> nat \<Rightarrow> nat \<Rightarrow> nat option" where
  "find_free new new_cap idx =
     (if occupied (new ! idx) then find_free new new_cap ((idx + 1) AND (new_cap - 1)) else Some idx)"

fun rehash :: "('k \<Rightarrow> 64 word) \<Rightarrow> nat \<Rightarrow> ('k, 'v) xMapFlatSlot list \<Rightarrow> ('k, 'v) xMapFlatSlot list \<Rightarrow>
    ('k, 'v) xMapFlatSlot list option" where
  "rehash hash new_cap [] new = Some new"
| "rehash hash new_cap (SLOT_OCCUPIED k v # old) new =
     (case find_free new new_cap (table_idx new_cap (hash k)) of
        None \<Rightarrow> None
      | Some idx \<Rightarrow> rehash hash new_cap old (new[idx := SLOT_OCCUPIED k v]))"
| "rehash hash new_cap (_ # old) new = rehash hash new_cap old new"

definition flat_resize ::
  "('k \<Rightarrow> 64 word) \<Rightarrow> allocs \<Rightarrow> ('k, 'v) xMapFlat \<Rightarrow> (xErrno \<times> ('k, 'v) xMapFlat \<times> allocs) option" where
  "flat_resize hash m f =
     (let new_cap = mf_cap f * 2; (ok, m') = calloc m new_cap 24
      in if \<not> ok then Some (xErrno_NoMemory, f, m')
         else case rehash hash new_cap (mf_slots f) (replicate new_cap SLOT_EMPTY) of
                None \<Rightarrow> None
              | Some new \<Rightarrow> Some (xErrno_Ok, f\<lparr>mf_slots := new, mf_cap := new_cap\<rparr>, m'))"

section \<open>Operations\<close>

text \<open>The indices a loop over \<open>i\<close> looks at.\<close>

definition probe :: "nat \<Rightarrow> nat \<Rightarrow> nat list" where
  "probe idx cap = map (\<lambda>i. (idx + i) AND (cap - 1)) [0..<cap]"

fun set_loop ::
  "('k \<Rightarrow> 'k \<Rightarrow> bool) \<Rightarrow> 'k \<Rightarrow> 'v option \<Rightarrow> ('k, 'v) xMapFlat \<Rightarrow> nat option \<Rightarrow> nat list \<Rightarrow>
   xErrno \<times> ('k, 'v) xMapFlat" where
  "set_loop eq key val f tombstone [] = (xErrno_NoMemory, f)"
| "set_loop eq key val f tombstone (cur # rest) =
     (case mf_slots f ! cur of
        SLOT_EMPTY \<Rightarrow>
          let ins = (case tombstone of Some t \<Rightarrow> t | None \<Rightarrow> cur)
          in (xErrno_Ok, f\<lparr>mf_slots := (mf_slots f)[ins := SLOT_OCCUPIED key val], mf_size := mf_size f + 1\<rparr>)
      | SLOT_TOMBSTONE \<Rightarrow> set_loop eq key val f (if tombstone = None then Some cur else tombstone) rest
      | SLOT_OCCUPIED k v \<Rightarrow>
          if eq k key then (xErrno_Ok, f\<lparr>mf_slots := (mf_slots f)[cur := SLOT_OCCUPIED k val]\<rparr>)
          else set_loop eq key val f tombstone rest)"

definition flat_set ::
  "('k \<Rightarrow> 64 word) \<Rightarrow> ('k \<Rightarrow> 'k \<Rightarrow> bool) \<Rightarrow> allocs \<Rightarrow> 'k \<Rightarrow> 'v option \<Rightarrow> ('k, 'v) xMapFlat \<Rightarrow>
   (xErrno \<times> ('k, 'v) xMapFlat \<times> allocs) option" where
  "flat_set hash eq m key val f =
     (case (if mf_cap f * 7 < (mf_size f + 1) * 10 then flat_resize hash m f else Some (xErrno_Ok, f, m)) of
        None \<Rightarrow> None
      | Some (err, f1, m1) \<Rightarrow>
          if err \<noteq> xErrno_Ok then Some (err, f1, m1)
          else case set_loop eq key val f1 None (probe (slot_idx hash f1 key) (mf_cap f1)) of
            (e, f2) \<Rightarrow> Some (e, f2, m1))"

fun get_loop :: "('k \<Rightarrow> 'k \<Rightarrow> bool) \<Rightarrow> 'k \<Rightarrow> ('k, 'v) xMapFlatSlot list \<Rightarrow> nat list \<Rightarrow> 'v option" where
  "get_loop eq key slots [] = None"
| "get_loop eq key slots (cur # rest) =
     (case slots ! cur of
        SLOT_EMPTY \<Rightarrow> None
      | SLOT_TOMBSTONE \<Rightarrow> get_loop eq key slots rest
      | SLOT_OCCUPIED k v \<Rightarrow> if eq k key then v else get_loop eq key slots rest)"

definition flat_get :: "('k \<Rightarrow> 64 word) \<Rightarrow> ('k \<Rightarrow> 'k \<Rightarrow> bool) \<Rightarrow> 'k \<Rightarrow> ('k, 'v) xMapFlat \<Rightarrow> 'v option" where
  "flat_get hash eq key f = get_loop eq key (mf_slots f) (probe (slot_idx hash f key) (mf_cap f))"

fun del_loop :: "('k \<Rightarrow> 'k \<Rightarrow> bool) \<Rightarrow> 'k \<Rightarrow> ('k, 'v) xMapFlat \<Rightarrow> nat list \<Rightarrow> 'v option \<times> ('k, 'v) xMapFlat" where
  "del_loop eq key f [] = (None, f)"
| "del_loop eq key f (cur # rest) =
     (case mf_slots f ! cur of
        SLOT_EMPTY \<Rightarrow> (None, f)
      | SLOT_TOMBSTONE \<Rightarrow> del_loop eq key f rest
      | SLOT_OCCUPIED k v \<Rightarrow>
          if eq k key then (v, f\<lparr>mf_slots := (mf_slots f)[cur := SLOT_TOMBSTONE], mf_size := mf_size f - 1\<rparr>)
          else del_loop eq key f rest)"

definition flat_del :: "('k \<Rightarrow> 64 word) \<Rightarrow> ('k \<Rightarrow> 'k \<Rightarrow> bool) \<Rightarrow> 'k \<Rightarrow> ('k, 'v) xMapFlat \<Rightarrow> 'v option \<times> ('k, 'v) xMapFlat" where
  "flat_del hash eq key f = del_loop eq key f (probe (slot_idx hash f key) (mf_cap f))"

definition flat_len :: "('k, 'v) xMapFlat \<Rightarrow> nat" where
  "flat_len f = mf_size f"

fun slot_pair :: "('k, 'v) xMapFlatSlot \<Rightarrow> ('k \<times> 'v option) list" where
  "slot_pair (SLOT_OCCUPIED k v) = [(k, v)]"
| "slot_pair _ = []"

abbreviation flat_pairs :: "('k, 'v) xMapFlat \<Rightarrow> ('k \<times> 'v option) list" where
  "flat_pairs f \<equiv> concat (map slot_pair (mf_slots f))"

definition flat_iterate :: "('k \<times> 'v option \<Rightarrow> 'a \<Rightarrow> bool \<times> 'a) \<Rightarrow> ('k, 'v) xMapFlat \<Rightarrow> 'a \<Rightarrow> 'a" where
  "flat_iterate fn f a = snd (visit fn (flat_pairs f) a)"

text \<open>
  One allocation holds the structure (48 bytes) and the slots (24 bytes each). Its size is computed in
  \<^verbatim>\<open>size_t\<close> and wraps, so a table may own fewer slots than its capacity says.
\<close>

definition flat_bytes :: "nat \<Rightarrow> nat" where
  "flat_bytes cap = size_add 48 (size_mul cap 24)"

definition xMapFlatCreate :: "allocs \<Rightarrow> nat \<Rightarrow> ('k, 'v) xMapFlat option \<times> allocs" where
  "xMapFlatCreate m cap =
     (case draw m of (ok, m') \<Rightarrow>
        (if ok then Some \<lparr>mf_slots = replicate (min cap ((flat_bytes cap - 48) div 24)) SLOT_EMPTY, mf_size = 0, mf_cap = cap\<rparr> else None, m'))"

text \<open>A search that only meets occupied slots never ends.\<close>

lemma find_free_stuck:
  assumes "\<And>i. i \<in> S \<Longrightarrow> occupied (new ! i) \<and> (i + 1) AND (cap - 1) \<in> S" and "idx \<in> S"
  shows "find_free new cap idx = None"
proof (rule ccontr)
  assume "find_free new cap idx \<noteq> None"
  then obtain r where "find_free new cap idx = Some r" by blast
  then have "\<not> (new = new \<and> cap = cap \<and> idx \<in> S)"
  proof (rule find_free.raw_induct [of "\<lambda>new' cap' idx' r. \<not> (new' = new \<and> cap' = cap \<and> idx' \<in> S)", rotated])
    fix f new' cap' idx' y
    assume IH: "\<And>new' cap' idx' y. f new' cap' idx' = Some y \<Longrightarrow> \<not> (new' = new \<and> cap' = cap \<and> idx' \<in> S)"
      and run: "(if occupied (new' ! idx') then f new' cap' (idx' + 1 AND cap' - 1) else Some idx') = Some y"
    show "\<not> (new' = new \<and> cap' = cap \<and> idx' \<in> S)"
      using assms(1) [of idx'] run IH [of new' cap' "idx' + 1 AND cap' - 1" y] by (auto split: if_splits)
  qed
  with assms(2) show False by blast
qed

lemma flat_slots: "cap < 2 ^ 59 \<Longrightarrow> min cap ((flat_bytes cap - 48) div 24) = cap"
  by (simp add: flat_bytes_def size_add_def size_mul_def SIZE_LIM_def)

section \<open>Probing in a table whose capacity is a power of two\<close>

definition pow2 :: "nat \<Rightarrow> bool" where
  "pow2 cap \<longleftrightarrow> (\<exists>n \<le> 64. cap = 2 ^ n)"

lemma and_mask_mod: "pow2 cap \<Longrightarrow> x AND (cap - 1) = x mod cap"
  by (auto simp: pow2_def take_bit_eq_mod [symmetric] take_bit_eq_mask mask_eq_exp_minus_1)

lemma pow2_pos: "pow2 cap \<Longrightarrow> 0 < cap \<and> cap \<le> 2 ^ 64"
  using power_increasing [of _ 64 "2 :: nat"] by (auto simp: pow2_def)

lemma pow2_idx: "pow2 cap \<Longrightarrow> table_idx cap h < cap"
  using pow2_pos table_idx_less by blast

lemma probe_mod: "pow2 cap \<Longrightarrow> probe idx cap = map (\<lambda>i. (idx + i) mod cap) [0..<cap]"
  by (simp add: probe_def and_mask_mod [simplified])

lemma probe_reaches: "pow2 cap \<Longrightarrow> j < cap \<Longrightarrow> \<exists>d < cap. j = (idx + d) mod cap"
proof -
  assume "pow2 cap" "j < cap"
  let ?d = "(j + (cap - idx mod cap)) mod cap"
  have "(idx + ?d) mod cap = (idx mod cap + (j + (cap - idx mod cap))) mod cap" by (simp add: mod_simps)
  also have "idx mod cap + (j + (cap - idx mod cap)) = j + cap"
    using mod_less_divisor [of cap idx] \<open>j < cap\<close> by linarith
  finally show ?thesis using \<open>j < cap\<close> by (intro exI [of _ ?d]) simp
qed

text \<open>\<open>reached slots cap idx j\<close>: probing from \<open>idx\<close> comes to \<open>j\<close> before an empty slot.\<close>

definition reached :: "('k, 'v) xMapFlatSlot list \<Rightarrow> nat \<Rightarrow> nat \<Rightarrow> bool" where
  "reached slots idx j \<longleftrightarrow> (\<exists>d < length slots. j = (idx + d) mod length slots \<and>
     (\<forall>i < d. slots ! ((idx + i) mod length slots) \<noteq> SLOT_EMPTY))"

lemma reached_update:
  assumes "reached slots idx j" and "s = SLOT_EMPTY \<Longrightarrow> slots ! p = SLOT_EMPTY"
  shows "reached (slots[p := s]) idx j"
proof -
  have "slots[p := s] ! i \<noteq> SLOT_EMPTY" if "slots ! i \<noteq> SLOT_EMPTY" for i
    using that assms(2) by (cases "p < length slots"; cases "p = i") (auto simp: list_update_beyond)
  with assms(1) show ?thesis unfolding reached_def length_list_update by blast
qed

text \<open>A table: its entries are where probing from their hash finds them, and no key is there twice.\<close>

definition table_ok :: "('k \<Rightarrow> 64 word) \<Rightarrow> ('k \<Rightarrow> 'k \<Rightarrow> bool) \<Rightarrow> ('k, 'v) xMapFlatSlot list \<Rightarrow> bool" where
  "table_ok hash eq slots \<longleftrightarrow> pow2 (length slots) \<and> keys_distinct eq (concat (map slot_pair slots)) \<and>
     (\<forall>j < length slots. \<forall>k v. slots ! j = SLOT_OCCUPIED k v \<longrightarrow> reached slots (table_idx (length slots) (hash k)) j)"

definition flat_ok :: "('k \<Rightarrow> 64 word) \<Rightarrow> ('k \<Rightarrow> 'k \<Rightarrow> bool) \<Rightarrow> ('k, 'v) xMapFlat \<Rightarrow> bool" where
  "flat_ok hash eq f \<longleftrightarrow> table_ok hash eq (mf_slots f) \<and> mf_cap f = length (mf_slots f) \<and>
     mf_size f = length (flat_pairs f) \<and> mf_size f * 10 \<le> mf_cap f * 7"

lemma slot_split:
  assumes "j < length slots"
  obtains us vs where "concat (map slot_pair slots) = us @ slot_pair (slots ! j) @ vs"
    "\<And>s. concat (map slot_pair (slots[j := s])) = us @ slot_pair s @ vs"
proof
  show "concat (map slot_pair slots) = concat (map slot_pair (take j slots)) @ slot_pair (slots ! j) @
      concat (map slot_pair (drop (Suc j) slots))"
    by (subst id_take_nth_drop [OF assms]) simp
  show "concat (map slot_pair (slots[j := s])) = concat (map slot_pair (take j slots)) @ slot_pair s @
      concat (map slot_pair (drop (Suc j) slots))" for s
    using assms by (simp add: upd_conv_take_nth_drop)
qed

lemma not_occupied_pair: "\<not> occupied s \<longleftrightarrow> slot_pair s = []"
  by (cases s) simp_all

context keyed
begin

lemma table_put:
  assumes ok: "table_ok hash eq slots" and j: "j < length slots" "\<not> occupied (slots ! j)"
    and reach: "reached slots (table_idx (length slots) (hash key)) j"
    and absent: "assoc_find eq (concat (map slot_pair slots)) key = None"
  shows "table_ok hash eq (slots[j := SLOT_OCCUPIED key v])"
    "mset (concat (map slot_pair (slots[j := SLOT_OCCUPIED key v]))) = add_mset (key, v) (mset (concat (map slot_pair slots)))"
proof -
  obtain us vs where p: "concat (map slot_pair slots) = us @ slot_pair (slots ! j) @ vs"
    and c: "\<And>s. concat (map slot_pair (slots[j := s])) = us @ slot_pair s @ vs"
    using slot_split [OF j(1)] by blast
  have none: "slot_pair (slots ! j) = []" using j(2) by (simp add: not_occupied_pair)
  show "mset (concat (map slot_pair (slots[j := SLOT_OCCUPIED key v]))) = add_mset (key, v) (mset (concat (map slot_pair slots)))"
    by (simp add: p c none)
  have "keys_distinct eq (us @ (key, v) # vs)"
    using ok absent unfolding keys_distinct_split assoc_find_None table_ok_def p none by simp
  moreover have "reached (slots[j := SLOT_OCCUPIED key v]) (table_idx (length slots) (hash k)) i"
    if "i < length slots" "slots[j := SLOT_OCCUPIED key v] ! i = SLOT_OCCUPIED k w" for i k w
  proof (rule reached_update)
    show "reached slots (table_idx (length slots) (hash k)) i"
      using that reach ok j(1) by (cases "i = j") (auto simp: table_ok_def)
  qed simp
  ultimately show "table_ok hash eq (slots[j := SLOT_OCCUPIED key v])"
    using ok by (simp add: table_ok_def c)
qed

text \<open>Replacing the value of an entry, and deleting one.\<close>

lemma table_value:
  assumes ok: "table_ok hash eq slots" and j: "j < length slots" "slots ! j = SLOT_OCCUPIED k w" and k: "eq k key"
  shows "table_ok hash eq (slots[j := SLOT_OCCUPIED k v])"
    "mset (concat (map slot_pair (slots[j := SLOT_OCCUPIED k v]))) =
      add_mset (k, v) (mset (drop_key eq key (concat (map slot_pair slots))))"
proof -
  obtain us vs where p: "concat (map slot_pair slots) = us @ slot_pair (slots ! j) @ vs"
    and c: "\<And>s. concat (map slot_pair (slots[j := s])) = us @ slot_pair s @ vs"
    using slot_split [OF j(1)] by blast
  have d: "keys_distinct eq (us @ (k, w) # vs)" using ok p j(2) by (simp add: table_ok_def)
  show "mset (concat (map slot_pair (slots[j := SLOT_OCCUPIED k v]))) =
      add_mset (k, v) (mset (drop_key eq key (concat (map slot_pair slots))))"
    using drop_key_split [OF d k] by (simp add: p c j(2))
  have "keys_distinct eq (us @ (k, v) # vs)" using d unfolding keys_distinct_split fst_conv .
  moreover have "reached (slots[j := SLOT_OCCUPIED k v]) (table_idx (length slots) (hash l)) i"
    if "i < length slots" "slots[j := SLOT_OCCUPIED k v] ! i = SLOT_OCCUPIED l w'" for i l w'
    using that ok j by (intro reached_update) (cases "i = j"; auto simp: table_ok_def)+
  ultimately show "table_ok hash eq (slots[j := SLOT_OCCUPIED k v])"
    using ok by (simp add: table_ok_def c)
qed

lemma table_del:
  assumes ok: "table_ok hash eq slots" and j: "j < length slots" "slots ! j = SLOT_OCCUPIED k w" and k: "eq k key"
  shows "table_ok hash eq (slots[j := SLOT_TOMBSTONE])"
    "mset (concat (map slot_pair (slots[j := SLOT_TOMBSTONE]))) = mset (drop_key eq key (concat (map slot_pair slots)))"
    "length (concat (map slot_pair slots)) = Suc (length (concat (map slot_pair (slots[j := SLOT_TOMBSTONE]))))"
proof -
  obtain us vs where p: "concat (map slot_pair slots) = us @ slot_pair (slots ! j) @ vs"
    and c: "\<And>s. concat (map slot_pair (slots[j := s])) = us @ slot_pair s @ vs"
    using slot_split [OF j(1)] by blast
  have d: "keys_distinct eq (us @ (k, w) # vs)" using ok p j(2) by (simp add: table_ok_def)
  show "mset (concat (map slot_pair (slots[j := SLOT_TOMBSTONE]))) = mset (drop_key eq key (concat (map slot_pair slots)))"
    using drop_key_split [OF d k] by (simp add: p c j(2))
  show "length (concat (map slot_pair slots)) = Suc (length (concat (map slot_pair (slots[j := SLOT_TOMBSTONE]))))"
    by (simp add: p c j(2))
  have "keys_distinct eq (us @ vs)" using d unfolding keys_distinct_split by blast
  moreover have "reached (slots[j := SLOT_TOMBSTONE]) (table_idx (length slots) (hash l)) i"
    if "i < length slots" "slots[j := SLOT_TOMBSTONE] ! i = SLOT_OCCUPIED l w'" for i l w'
    using that ok j by (intro reached_update) (cases "i = j"; auto simp: table_ok_def)+
  ultimately show "table_ok hash eq (slots[j := SLOT_TOMBSTONE])"
    using ok by (simp add: table_ok_def c)
qed

section \<open>Searching\<close>

text \<open>Where a search for the key ends: at its entry, or nowhere.\<close>

primrec hit :: "('k, 'v) xMapFlatSlot list \<Rightarrow> 'k \<Rightarrow> nat list \<Rightarrow> nat option" where
  "hit slots key [] = None"
| "hit slots key (c # cs) =
     (case slots ! c of
        SLOT_EMPTY \<Rightarrow> None
      | SLOT_TOMBSTONE \<Rightarrow> hit slots key cs
      | SLOT_OCCUPIED k v \<Rightarrow> if eq k key then Some c else hit slots key cs)"

lemma hit_Some: "hit slots key cs = Some c \<Longrightarrow> c \<in> set cs \<and> (\<exists>k v. slots ! c = SLOT_OCCUPIED k v \<and> eq k key)"
  by (induction cs) (auto split: xMapFlatSlot.splits if_splits)

lemma hit_before:
  "slots ! c = SLOT_OCCUPIED k v \<Longrightarrow> eq k key \<Longrightarrow> \<forall>p \<in> set ps. slots ! p \<noteq> SLOT_EMPTY \<Longrightarrow>
    hit slots key (ps @ c # qs) \<noteq> None"
  by (induction ps) (auto split: xMapFlatSlot.split)

lemma get_loop_hit:
  "get_loop eq key slots cs = (case hit slots key cs of None \<Rightarrow> None
    | Some c \<Rightarrow> value_of (assoc_find eq (slot_pair (slots ! c)) key))"
  by (induction cs) (auto split: xMapFlatSlot.split option.split)

lemma del_loop_hit:
  "del_loop eq key f cs = (case hit (mf_slots f) key cs of None \<Rightarrow> (None, f)
    | Some c \<Rightarrow> (value_of (assoc_find eq (slot_pair (mf_slots f ! c)) key),
        f\<lparr>mf_slots := (mf_slots f)[c := SLOT_TOMBSTONE], mf_size := mf_size f - 1\<rparr>))"
  by (induction cs) (auto split: xMapFlatSlot.split option.split)

lemma probe_set: "pow2 cap \<Longrightarrow> set (probe idx cap) \<subseteq> {..<cap}"
  using pow2_pos by (auto simp: probe_mod)

lemma hit_iff:
  assumes ok: "table_ok hash eq slots" and ps_def: "ps = probe (table_idx (length slots) (hash key)) (length slots)"
  shows "hit slots key ps = None \<longleftrightarrow> assoc_find eq (concat (map slot_pair slots)) key = None"
    "hit slots key ps = Some c \<Longrightarrow> c < length slots \<and> (\<exists>k v. slots ! c = SLOT_OCCUPIED k v \<and> eq k key \<and>
       assoc_find eq (concat (map slot_pair slots)) key = Some v)"
proof -
  have pow: "pow2 (length slots)" using ok by (simp add: table_ok_def)
  have found: "c < length slots \<and> (\<exists>k v. slots ! c = SLOT_OCCUPIED k v \<and> eq k key \<and>
       assoc_find eq (concat (map slot_pair slots)) key = Some v)" if h: "hit slots key ps = Some c" for c
  proof -
    obtain k v where c: "c \<in> set ps" "slots ! c = SLOT_OCCUPIED k v" "eq k key" using hit_Some [OF h] by blast
    then have l: "c < length slots" using probe_set [OF pow] by (auto simp: ps_def)
    moreover have "(k, v) \<in> set (concat (map slot_pair slots))"
      using c(2) l by (auto simp: in_set_conv_nth intro!: bexI [of _ "slots ! c"])
    then have "assoc_find eq (concat (map slot_pair slots)) key = Some v"
      using ok c(3) by (intro assoc_find_in) (simp_all add: table_ok_def)
    ultimately show ?thesis using c by blast
  qed
  then show "hit slots key ps = Some c \<Longrightarrow> c < length slots \<and> (\<exists>k v. slots ! c = SLOT_OCCUPIED k v \<and> eq k key \<and>
       assoc_find eq (concat (map slot_pair slots)) key = Some v)" by blast
  show "hit slots key ps = None \<longleftrightarrow> assoc_find eq (concat (map slot_pair slots)) key = None"
  proof
    assume none: "hit slots key ps = None"
    show "assoc_find eq (concat (map slot_pair slots)) key = None"
    proof (rule ccontr)
      assume "assoc_find eq (concat (map slot_pair slots)) key \<noteq> None"
      then obtain k v where "(k, v) \<in> set (concat (map slot_pair slots))" and k: "eq k key"
        using assoc_find_Some by fastforce
      then obtain s where s: "s \<in> set slots" "(k, v) \<in> set (slot_pair s)" by auto
      from s(2) have "s = SLOT_OCCUPIED k v" by (cases s) simp_all
      with s(1) obtain j where j: "j < length slots" "slots ! j = SLOT_OCCUPIED k v"
        unfolding in_set_conv_nth by blast
      with ok have "reached slots (table_idx (length slots) (hash key)) j"
        using eq_hash [OF k] by (auto simp: table_ok_def)
      then obtain d where d: "d < length slots" "j = (table_idx (length slots) (hash key) + d) mod length slots"
          "\<forall>i < d. slots ! ((table_idx (length slots) (hash key) + i) mod length slots) \<noteq> SLOT_EMPTY"
        unfolding reached_def by blast
      let ?f = "\<lambda>i. (table_idx (length slots) (hash key) + i) mod length slots"
      have "[0..<length slots] = [0..<d] @ d # [Suc d..<length slots]"
        using d(1) upt_add_eq_append [of 0 d "length slots - d"] by (simp add: upt_conv_Cons)
      then have "ps = map ?f [0..<d] @ j # map ?f [Suc d..<length slots]"
        by (simp add: ps_def probe_mod [OF pow] d(2))
      moreover have "\<forall>p \<in> set (map ?f [0..<d]). slots ! p \<noteq> SLOT_EMPTY" using d(3) by simp
      ultimately show False using hit_before [OF j(2) k] none by metis
    qed
  next
    assume "assoc_find eq (concat (map slot_pair slots)) key = None"
    with found show "hit slots key ps = None" by (cases "hit slots key ps") auto
  qed
qed

section \<open>The resize\<close>

text \<open>Among fewer entries than slots, the search for a free slot ends.\<close>

lemma find_free_at:
  assumes "pow2 cap" and "\<not> occupied (new ! ((idx + d) mod cap))"
    and "\<forall>i < d. occupied (new ! ((idx + i) mod cap))" and "idx < cap"
  shows "find_free new cap idx = Some ((idx + d) mod cap)"
  using assms(2-4)
proof (induction d arbitrary: idx)
  case 0
  then show ?case by (subst find_free.simps) simp
next
  case (Suc d)
  have "occupied (new ! idx)" using Suc.prems(2) [rule_format, of 0] Suc.prems(3) by simp
  then have "find_free new cap idx = find_free new cap ((idx + 1) mod cap)"
    by (subst find_free.simps) (simp add: and_mask_mod [OF assms(1), simplified])
  also have "\<dots> = Some (((idx + 1) mod cap + d) mod cap)"
  proof (rule Suc.IH)
    show "\<forall>i < d. occupied (new ! (((idx + 1) mod cap + i) mod cap))"
      using Suc.prems(2) by (auto simp: mod_simps dest: spec [of _ "Suc _"])
  qed (use Suc.prems pow2_pos [OF assms(1)] in \<open>simp_all add: mod_simps\<close>)
  finally show ?case by (simp add: mod_simps)
qed

lemma pairs_length: "length (concat (map slot_pair slots)) = length (filter occupied slots)"
proof (induction slots)
  case (Cons s slots)
  then show ?case by (cases s) simp_all
qed simp

lemma find_free_reaches:
  assumes pow: "pow2 (length new)" and room: "length (concat (map slot_pair new)) < length new" and "idx < length new"
  obtains j where "find_free new (length new) idx = Some j" "j < length new" "\<not> occupied (new ! j)"
    "reached new idx j"
proof -
  let ?at = "\<lambda>d. (idx + d) mod length new"
  have "\<not> list_all occupied new"
  proof
    assume "list_all occupied new"
    then have "filter occupied new = new" by (simp add: list_all_iff)
    with room show False by (simp add: pairs_length)
  qed
  then obtain p where "p < length new" "\<not> occupied (new ! p)" by (auto simp: list_all_length)
  then obtain d0 where d0: "d0 < length new" "\<not> occupied (new ! ?at d0)" using probe_reaches [OF pow] by metis
  define d where "d = (LEAST d. \<not> occupied (new ! ?at d))"
  have d: "\<not> occupied (new ! ?at d)" unfolding d_def using d0(2) by (rule LeastI)
  have before: "occupied (new ! ?at i)" if "i < d" for i using not_less_Least [of i] that unfolding d_def by blast
  have "d \<le> d0" unfolding d_def using d0(2) by (rule Least_le)
  then have l: "d < length new" using d0(1) by simp
  have "find_free new (length new) idx = Some (?at d)"
    by (rule find_free_at [OF pow d _ assms(3)]) (simp add: before)
  moreover have "reached new idx (?at d)"
    unfolding reached_def using l before by (fastforce elim: occupied.elims)
  moreover have "?at d < length new" using assms(3) by (intro mod_less_divisor) linarith
  ultimately show thesis using that d by blast
qed

lemma rehash_ok:
  assumes "table_ok hash eq new" and "keys_distinct eq (concat (map slot_pair old) @ concat (map slot_pair new))"
    and "length (concat (map slot_pair old)) + length (concat (map slot_pair new)) < length new"
  shows "\<exists>new'. rehash hash (length new) old new = Some new' \<and> table_ok hash eq new' \<and> length new' = length new \<and>
    mset (concat (map slot_pair new')) = mset (concat (map slot_pair old)) + mset (concat (map slot_pair new))"
  using assms
proof (induction old arbitrary: new)
  case (Cons s old)
  show ?case
  proof (cases s)
    case (SLOT_OCCUPIED k v)
    have pow: "pow2 (length new)" using Cons.prems(1) by (simp add: table_ok_def)
    have room: "length (concat (map slot_pair new)) < length new" using Cons.prems(3) by simp
    obtain j where j: "find_free new (length new) (table_idx (length new) (hash k)) = Some j" "j < length new"
      "\<not> occupied (new ! j)" "reached new (table_idx (length new) (hash k)) j"
      by (rule find_free_reaches [OF pow room pow2_idx [OF pow]])
    have d0: "keys_distinct eq ([] @ (k, v) # concat (map slot_pair old) @ concat (map slot_pair new))"
      using Cons.prems(2) by (simp add: SLOT_OCCUPIED)
    then have absent: "assoc_find eq (concat (map slot_pair new)) k = None"
      unfolding keys_distinct_split assoc_find_None by simp
    note put = table_put [OF Cons.prems(1) j(2-4) absent, of v]
    let ?new = "new[j := SLOT_OCCUPIED k v]"
    have "keys_distinct eq (concat (map slot_pair old) @ (k, v) # concat (map slot_pair new))"
      using d0 [unfolded keys_distinct_split] unfolding keys_distinct_split by simp
    moreover have "mset (concat (map slot_pair old) @ (k, v) # concat (map slot_pair new)) =
        mset (concat (map slot_pair old) @ concat (map slot_pair ?new))"
      using put(2) by simp
    ultimately have "keys_distinct eq (concat (map slot_pair old) @ concat (map slot_pair ?new))"
      by (rule keys_distinct_mset)
    moreover have "length (concat (map slot_pair old)) + length (concat (map slot_pair ?new)) < length ?new"
      using Cons.prems(3) put(2) [THEN arg_cong, of size] by (simp add: SLOT_OCCUPIED)
    ultimately obtain new' where "rehash hash (length ?new) old ?new = Some new'" "table_ok hash eq new'"
      "length new' = length ?new"
      "mset (concat (map slot_pair new')) = mset (concat (map slot_pair old)) + mset (concat (map slot_pair ?new))"
      using Cons.IH [OF put(1)] by blast
    with put(2) j(1) show ?thesis by (simp add: SLOT_OCCUPIED)
  qed (use Cons in simp_all)
qed simp

lemma pow2_double: "pow2 cap \<Longrightarrow> cap * 2 < 2 ^ 64 \<Longrightarrow> pow2 (cap * 2)"
proof -
  assume "pow2 cap" "cap * 2 < 2 ^ 64"
  then obtain n where n: "cap = 2 ^ n" by (auto simp: pow2_def)
  then have "(2 :: nat) ^ Suc n < 2 ^ 64" using \<open>cap * 2 < 2 ^ 64\<close> by simp
  then have "Suc n \<le> 64" using power_strict_increasing_iff [of "2 :: nat" "Suc n" 64] by linarith
  with n show ?thesis unfolding pow2_def by (intro exI [of _ "Suc n"]) simp
qed

lemma empty_table: "pow2 cap \<Longrightarrow> table_ok hash eq (replicate cap SLOT_EMPTY)"
  by (simp add: table_ok_def keys_distinct_def concat_replicate_trivial)

lemma flat_resize_ok:
  assumes ok: "flat_ok hash eq f"
  shows "\<exists>e f' m'. flat_resize hash m f = Some (e, f', m') \<and> flat_ok hash eq f' \<and>
    mset (flat_pairs f') = mset (flat_pairs f) \<and> mf_size f' = mf_size f \<and>
    (if e = xErrno_Ok then mf_cap f' = mf_cap f * 2 else f' = f)"
proof -
  let ?cap = "mf_cap f * 2"
  obtain cl m' where cl: "calloc m ?cap 24 = (cl, m')" by fastforce
  show ?thesis
  proof (cases cl)
    case False
    with cl ok show ?thesis by (simp add: flat_resize_def Let_def)
  next
    case True
    with cl have "?cap * 24 < 2 ^ 64" by (auto simp: calloc_def SIZE_LIM_def split: prod.splits)
    moreover have "pow2 (mf_cap f)" using ok by (simp add: flat_ok_def table_ok_def)
    ultimately have pow: "pow2 ?cap" by (intro pow2_double) auto
    have empty: "concat (map slot_pair (replicate ?cap SLOT_EMPTY)) = ([] :: ('k \<times> 'c option) list)"
      by (simp add: concat_replicate_trivial)
    have room: "mf_size f < ?cap" using ok pow2_pos [OF pow] unfolding flat_ok_def by linarith
    obtain new where new: "rehash hash ?cap (mf_slots f) (replicate ?cap SLOT_EMPTY) = Some new" "table_ok hash eq new"
      "length new = ?cap" "mset (concat (map slot_pair new)) = mset (flat_pairs f)"
      using rehash_ok [OF empty_table [OF pow], of "mf_slots f"] room ok
      by (auto simp: flat_ok_def table_ok_def concat_replicate_trivial)
    then have "length (concat (map slot_pair new)) = mf_size f"
      using ok by (metis flat_ok_def size_mset)
    then show ?thesis
      using new True cl ok by (auto simp: flat_resize_def Let_def flat_ok_def)
  qed
qed

section \<open>Setting and deleting\<close>

text \<open>Where the loop puts a key it does not find.\<close>

lemma set_loop_hit:
  "hit (mf_slots f) key cs = Some c \<Longrightarrow>
    \<exists>k w. mf_slots f ! c = SLOT_OCCUPIED k w \<and>
      set_loop eq key v f t cs = (xErrno_Ok, f\<lparr>mf_slots := (mf_slots f)[c := SLOT_OCCUPIED k v]\<rparr>)"
  by (induction cs arbitrary: t) (auto split: xMapFlatSlot.splits if_splits)

definition free_at :: "('k, 'v) xMapFlatSlot list \<Rightarrow> nat list \<Rightarrow> nat \<Rightarrow> bool" where
  "free_at slots cs ins \<longleftrightarrow> (\<exists>as bs. cs = as @ ins # bs \<and> \<not> occupied (slots ! ins) \<and>
     (\<forall>a \<in> set as. slots ! a \<noteq> SLOT_EMPTY))"

lemma free_at_here: "\<not> occupied (slots ! c) \<Longrightarrow> free_at slots (c # cs) c"
  unfolding free_at_def by (intro exI [of _ "[]"] exI [of _ cs]) simp

lemma free_at_later: "slots ! c \<noteq> SLOT_EMPTY \<Longrightarrow> free_at slots cs i \<Longrightarrow> free_at slots (c # cs) i"
  unfolding free_at_def by (metis append_Cons set_ConsD)

definition put_at :: "'k \<Rightarrow> 'v option \<Rightarrow> ('k, 'v) xMapFlat \<Rightarrow> nat \<Rightarrow> ('k, 'v) xMapFlat" where
  "put_at key v f i = f\<lparr>mf_slots := (mf_slots f)[i := SLOT_OCCUPIED key v], mf_size := mf_size f + 1\<rparr>"

lemma set_loop_miss:
  assumes "hit (mf_slots f) key cs = None"
  shows "set_loop eq key v f t cs = (xErrno_NoMemory, f) \<and> (\<forall>c \<in> set cs. mf_slots f ! c \<noteq> SLOT_EMPTY) \<or>
    (\<exists>ins. set_loop eq key v f t cs = (xErrno_Ok, put_at key v f ins) \<and>
      (t = Some ins \<or> t = None \<and> free_at (mf_slots f) cs ins))"
  using assms
proof (induction cs arbitrary: t)
  case (Cons c cs)
  show ?case
  proof (cases "mf_slots f ! c")
    case SLOT_EMPTY
    then have "set_loop eq key v f t (c # cs) = (xErrno_Ok, put_at key v f (case t of Some i \<Rightarrow> i | None \<Rightarrow> c))"
      by (simp add: put_at_def Let_def)
    moreover have "free_at (mf_slots f) (c # cs) c" using SLOT_EMPTY by (simp add: free_at_here)
    ultimately show ?thesis by (cases t) (simp_all del: set_loop.simps, blast)
  next
    case (SLOT_OCCUPIED k w)
    with Cons.prems have h: "hit (mf_slots f) key cs = None" and "\<not> eq k key" by (auto split: if_splits)
    then have "set_loop eq key v f t (c # cs) = set_loop eq key v f t cs" using SLOT_OCCUPIED by simp
    with Cons.IH [OF h, of t] SLOT_OCCUPIED show ?thesis using free_at_later [of "mf_slots f" c cs] by auto
  next
    case SLOT_TOMBSTONE
    with Cons.prems have "hit (mf_slots f) key cs = None" by simp
    note ih = Cons.IH [OF this, of "if t = None then Some c else t"]
    have "free_at (mf_slots f) (c # cs) c" using SLOT_TOMBSTONE by (simp add: free_at_here)
    with ih SLOT_TOMBSTONE show ?thesis by (cases t) auto
  qed
qed simp

text \<open>The loop in a table with no pending resize.\<close>

lemma set_loop_ok:
  assumes ok: "flat_ok hash eq f" and room: "(mf_size f + 1) * 10 \<le> mf_cap f * 7"
    and loop: "set_loop eq key v f None (probe (slot_idx hash f key) (mf_cap f)) = (e, f')"
  shows "flat_ok hash eq f' \<and>
    (if e = xErrno_Ok then \<exists>k0. eq k0 key \<and> mset (flat_pairs f') = add_mset (k0, v) (mset (drop_key eq key (flat_pairs f)))
     else f' = f)"
proof -
  let ?ps = "probe (slot_idx hash f key) (mf_cap f)"
  have t: "table_ok hash eq (mf_slots f)" and cap: "mf_cap f = length (mf_slots f)"
    and sz: "mf_size f = length (flat_pairs f)"
    using ok by (simp_all add: flat_ok_def)
  have pow: "pow2 (length (mf_slots f))" using t by (simp add: table_ok_def)
  have ps: "?ps = probe (table_idx (length (mf_slots f)) (hash key)) (length (mf_slots f))"
    by (simp add: slot_idx_def cap)
  show ?thesis
  proof (cases "hit (mf_slots f) key ?ps")
    case (Some c)
    from hit_iff(2) [OF t ps Some] obtain k w where c: "c < length (mf_slots f)" "mf_slots f ! c = SLOT_OCCUPIED k w" "eq k key"
      and found: "assoc_find eq (flat_pairs f) key = Some w" by blast
    from set_loop_hit [OF Some, of v None] loop c(2) have e: "e = xErrno_Ok"
      "f' = f\<lparr>mf_slots := (mf_slots f)[c := SLOT_OCCUPIED k v]\<rparr>" by auto
    note val = table_value [OF t c, of v]
    have "Suc (length (drop_key eq key (flat_pairs f))) = length (flat_pairs f)"
      using found hash_map.length_drop_key [of "flat_pairs f" key] t by (cases "flat_pairs f") (auto simp: table_ok_def)
    then have "length (flat_pairs f') = length (flat_pairs f)"
      using val(2) [THEN arg_cong, of size] by (simp add: e)
    with val e c(3) ok show ?thesis by (auto simp: flat_ok_def)
  next
    case None
    have absent: "assoc_find eq (flat_pairs f) key = None" using hit_iff(1) [OF t ps] None by simp
    show ?thesis
    proof (cases "e = xErrno_Ok")
      case False
      with set_loop_miss [OF None, of v None] loop ok show ?thesis by auto
    next
      case True
      with set_loop_miss [OF None, of v None] loop obtain ins as bs where
        f': "f' = f\<lparr>mf_slots := (mf_slots f)[ins := SLOT_OCCUPIED key v], mf_size := mf_size f + 1\<rparr>"
        and at: "?ps = as @ ins # bs" "\<not> occupied (mf_slots f ! ins)" "\<forall>a \<in> set as. mf_slots f ! a \<noteq> SLOT_EMPTY"
        by (auto simp: put_at_def free_at_def)
      have "ins \<in> set ?ps" using at(1) by simp
      then have ins: "ins < length (mf_slots f)"
        using probe_set [OF pow, of "table_idx (length (mf_slots f)) (hash key)"] unfolding ps by auto
      have "reached (mf_slots f) (table_idx (length (mf_slots f)) (hash key)) ins"
        unfolding reached_def
      proof (intro exI conjI)
        have len: "length ?ps = length (mf_slots f)" by (simp add: cap probe_def)
        then show d: "length as < length (mf_slots f)" using at(1) by simp
        have nth: "?ps ! i = (table_idx (length (mf_slots f)) (hash key) + i) mod length (mf_slots f)"
          if "i < length (mf_slots f)" for i
          using that by (simp add: ps probe_mod [OF pow])
        show "ins = (table_idx (length (mf_slots f)) (hash key) + length as) mod length (mf_slots f)"
          using nth [OF d] at(1) by simp
        show "\<forall>i < length as. mf_slots f ! ((table_idx (length (mf_slots f)) (hash key) + i) mod length (mf_slots f)) \<noteq> SLOT_EMPTY"
          using nth at(1,3) d by (metis less_trans nth_append nth_mem)
      qed
      note put = table_put [OF t ins at(2) this absent, of v]
      have "flat_ok hash eq f'"
        using put(1) put(2) [THEN arg_cong, of size] cap sz room by (simp add: flat_ok_def f')
      moreover have "mset (flat_pairs f') = add_mset (key, v) (mset (drop_key eq key (flat_pairs f)))"
        using put(2) by (simp add: f' drop_key_absent [OF absent])
      ultimately show ?thesis using True by auto
    qed
  qed
qed

lemma flat_set_ok:
  assumes ok: "flat_ok hash eq f"
  shows "\<exists>e f' m'. flat_set hash eq m key v f = Some (e, f', m') \<and> flat_ok hash eq f' \<and>
    (if e = xErrno_Ok then \<exists>k0. eq k0 key \<and> mset (flat_pairs f') = add_mset (k0, v) (mset (drop_key eq key (flat_pairs f)))
     else mset (flat_pairs f') = mset (flat_pairs f))"
proof -
  have drop: "mset (drop_key eq key qs) = mset (drop_key eq key ps)" if "mset qs = mset ps" for ps qs :: "('k \<times> 'c option) list"
    using that by (simp add: drop_key_def)
  obtain err f1 m1 where grow: "(if mf_cap f * 7 < (mf_size f + 1) * 10 then flat_resize hash m f
      else Some (xErrno_Ok, f, m)) = Some (err, f1, m1)" and f1: "flat_ok hash eq f1"
      "mset (flat_pairs f1) = mset (flat_pairs f)"
      "err = xErrno_Ok \<Longrightarrow> (mf_size f1 + 1) * 10 \<le> mf_cap f1 * 7"
  proof (cases "mf_cap f * 7 < (mf_size f + 1) * 10")
    case True
    obtain e f' m' where r: "flat_resize hash m f = Some (e, f', m')" "flat_ok hash eq f'"
      "mset (flat_pairs f') = mset (flat_pairs f)" "mf_size f' = mf_size f"
      "if e = xErrno_Ok then mf_cap f' = mf_cap f * 2 else f' = f"
      using flat_resize_ok [OF ok, of m] by blast
    have "(mf_size f' + 1) * 10 \<le> mf_cap f' * 7" if "e = xErrno_Ok"
    proof -
      have "0 < mf_cap f" "mf_size f * 10 \<le> mf_cap f * 7"
        using ok pow2_pos by (auto simp: flat_ok_def table_ok_def)
      moreover have "mf_cap f = 1 \<Longrightarrow> mf_size f = 0" using calculation(2) by simp
      ultimately show ?thesis using r(4,5) that by (cases "mf_cap f = 1") auto
    qed
    with True r that show thesis by simp
  next
    case False
    with ok that show thesis by simp
  qed
  show ?thesis
  proof (cases "err = xErrno_Ok")
    case False
    with grow f1 show ?thesis by (auto simp: flat_set_def)
  next
    case True
    obtain e f2 where loop: "set_loop eq key v f1 None (probe (slot_idx hash f1 key) (mf_cap f1)) = (e, f2)" by fastforce
    from set_loop_ok [OF f1(1) f1(3) [OF True] loop] f1(2) drop [OF f1(2)] True grow loop
    show ?thesis by (auto simp: flat_set_def)
  qed
qed

lemma flat_get_ok: "flat_ok hash eq f \<Longrightarrow> flat_get hash eq key f = value_of (assoc_find eq (flat_pairs f) key)"
proof -
  assume ok: "flat_ok hash eq f"
  then have t: "table_ok hash eq (mf_slots f)" and cap: "mf_cap f = length (mf_slots f)" by (simp_all add: flat_ok_def)
  show ?thesis
    using hit_iff(1) [OF t refl, of key] hit_iff(2) [OF t refl, of key]
    by (fastforce simp: flat_get_def slot_idx_def cap get_loop_hit split: option.split)
qed

lemma flat_del_ok:
  assumes ok: "flat_ok hash eq f" and del: "flat_del hash eq key f = (r, f')"
  shows "flat_ok hash eq f' \<and> r = value_of (assoc_find eq (flat_pairs f) key) \<and>
    mset (flat_pairs f') = mset (drop_key eq key (flat_pairs f))"
proof -
  have t: "table_ok hash eq (mf_slots f)" and cap: "mf_cap f = length (mf_slots f)"
    using ok by (simp_all add: flat_ok_def)
  let ?ps = "probe (table_idx (length (mf_slots f)) (hash key)) (length (mf_slots f))"
  show ?thesis
  proof (cases "hit (mf_slots f) key ?ps")
    case None
    with hit_iff(1) [OF t refl, of key] del ok show ?thesis
      by (simp add: flat_del_def slot_idx_def cap del_loop_hit drop_key_absent)
  next
    case (Some c)
    from hit_iff(2) [OF t refl Some] obtain k v where c: "c < length (mf_slots f)" "mf_slots f ! c = SLOT_OCCUPIED k v" "eq k key"
      and v: "assoc_find eq (flat_pairs f) key = Some v" by blast
    note d = table_del [OF t c]
    show ?thesis
      using Some del ok c v d by (auto simp: flat_del_def slot_idx_def cap del_loop_hit flat_ok_def)
  qed
qed

lemma flat_ok_create:
  "xMapFlatCreate m cap = (Some f, m') \<Longrightarrow> pow2 cap \<Longrightarrow> cap < 2 ^ 59 \<Longrightarrow> flat_ok hash eq f \<and> flat_pairs f = [] \<and> flat_len f = 0"
  by (auto simp: xMapFlatCreate_def flat_slots flat_ok_def flat_len_def empty_table concat_replicate_trivial
      split: prod.splits if_splits)

end

sublocale keyed \<subseteq> flat_map: map_backend hash eq "flat_ok hash eq" flat_pairs
    "flat_set hash eq" "flat_get hash eq" "\<lambda>key f. Some (flat_del hash eq key f)" flat_len
    "\<lambda>f. flat_iterate collect_pairs f []"
proof
  fix f key
  assume ok: "flat_ok hash eq f"
  obtain r f' where "flat_del hash eq key f = (r, f')" by fastforce
  with flat_del_ok [OF ok this] show "\<exists>r f'. Some (flat_del hash eq key f) = Some (r, f') \<and> flat_ok hash eq f' \<and>
      r = value_of (assoc_find eq (flat_pairs f) key) \<and> mset (flat_pairs f') = mset (drop_key eq key (flat_pairs f))"
    by blast
next
  fix f m key v
  assume "flat_ok hash eq f"
  then show "\<exists>e f' m'. flat_set hash eq m key v f = Some (e, f', m') \<and> flat_ok hash eq f' \<and>
      (if e = xErrno_Ok then \<exists>k0. eq k0 key \<and> mset (flat_pairs f') = add_mset (k0, v) (mset (drop_key eq key (flat_pairs f)))
       else mset (flat_pairs f') = mset (flat_pairs f))"
    by (rule flat_set_ok)
qed (simp_all add: flat_get_ok flat_iterate_def, simp_all add: flat_ok_def table_ok_def flat_len_def)

section \<open>The search for a free slot ends\<close>

text \<open>
  C15. A resize of the open-addressing backend returns: although its search for a free slot has no
  bound of its own, in a table whose capacity is a power of two and whose load is at most seven
  tenths every entry finds one, and the doubled table holds the same entries, each where probing
  finds it. (For other capacities it may never return.)
\<close>

theorem flat_resize_returns:
  assumes "keyed hash eq" and "flat_ok hash eq f"
  shows "\<exists>e f' m'. flat_resize hash m f = Some (e, f', m') \<and> flat_ok hash eq f' \<and>
    mset (flat_pairs f') = mset (flat_pairs f) \<and> (if e = xErrno_Ok then mf_cap f' = mf_cap f * 2 else f' = f)"
  using keyed.flat_resize_ok [OF assms, of m] by blast

theorem flat_resize_returns_witness:
  "\<exists>f'. flat_resize (\<lambda>k. k) [] \<lparr>mf_slots = [SLOT_TOMBSTONE, SLOT_OCCUPIED (3 :: 64 word) (Some True)], mf_size = 1, mf_cap = 2\<rparr>
     = Some (xErrno_Ok, f', []) \<and> mf_cap f' = 4"
proof -
  let ?f = "\<lparr>mf_slots = [SLOT_TOMBSTONE, SLOT_OCCUPIED (3 :: 64 word) (Some True)], mf_size = 1, mf_cap = 2\<rparr>"
  have k: "keyed (\<lambda>k. k :: 64 word) (=)" by unfold_locales simp_all
  have p: "pow2 2" unfolding pow2_def by (intro exI [of _ 1]) simp
  have "reached [SLOT_TOMBSTONE, SLOT_OCCUPIED (3 :: 64 word) (Some True)] (table_idx 2 3) 1"
    unfolding reached_def by (intro exI [of _ 0]) (simp add: table_idx_def)
  with p have "flat_ok (\<lambda>k. k) (=) ?f"
    by (auto simp: flat_ok_def table_ok_def keys_distinct_def less_Suc_eq numeral_2_eq_2)
  from flat_resize_returns [OF k this, of "[]"] obtain e f' m' where r: "flat_resize (\<lambda>k. k) [] ?f = Some (e, f', m')"
    "if e = xErrno_Ok then mf_cap f' = mf_cap ?f * 2 else f' = ?f" by blast
  moreover from r(1) have "e = xErrno_Ok \<and> m' = []"
    by (auto simp: flat_resize_def Let_def calloc_def SIZE_LIM_def split: option.splits)
  ultimately show ?thesis by auto
qed

end
