(* ===== verification/MapTree.thy ===== *)
theory MapTree
  imports MapHash
begin

text \<open>
  \<^verbatim>\<open>libx/x/base/map_tree.c\<close>: the red-black backend, ordered by hash, with a chain of colliding keys at
  each node. A node together with the chain of its parents is a zipper: the subtree at the node and
  the frames on the way up. Reading a field through a NULL pointer is None.
\<close>

section \<open>State\<close>

datatype xRBColor = RB_BLACK | RB_RED

record ('k, 'v) tree_data =
  tn_hash :: "64 word"
  tn_key :: 'k
  tn_val :: "'v option"
  tn_overflow :: "('k \<times> 'v option) list"

datatype 'd xTreeNode = NULL | Node xRBColor "'d xTreeNode" 'd "'d xTreeNode"

text \<open>A frame: the colour and data of the parent and the sibling; the name says which child we are.\<close>

datatype 'd tree_frame = Is_left xRBColor 'd "'d xTreeNode" | Is_right "'d xTreeNode" xRBColor 'd

type_synonym 'd tree_path = "'d tree_frame list"

record ('k, 'v) xMapTree =
  mt_root :: "('k, 'v) tree_data xTreeNode"
  mt_size :: nat

fun fill :: "'d xTreeNode \<Rightarrow> 'd tree_frame \<Rightarrow> 'd xTreeNode" where
  "fill t (Is_left c d r) = Node c t d r"
| "fill t (Is_right l c d) = Node c l d t"

fun plug :: "'d xTreeNode \<Rightarrow> 'd tree_path \<Rightarrow> 'd xTreeNode" where
  "plug t [] = t"
| "plug t (f # fs) = plug (fill t f) fs"

fun color_of :: "'d xTreeNode \<Rightarrow> xRBColor" where
  "color_of NULL = RB_BLACK"
| "color_of (Node c l d r) = c"

fun frame_color :: "'d tree_frame \<Rightarrow> xRBColor" where
  "frame_color (Is_left c d r) = c"
| "frame_color (Is_right l c d) = c"

fun paint :: "xRBColor \<Rightarrow> 'd xTreeNode \<Rightarrow> 'd xTreeNode" where
  "paint c NULL = NULL"
| "paint c (Node _ l d r) = Node c l d r"

section \<open>Rotation\<close>

text \<open>A rotation moves the nodes with their colours; it reads the child that comes up.\<close>

fun rotate_left :: "'d xTreeNode \<Rightarrow> 'd xTreeNode option" where
  "rotate_left (Node c a x (Node d b y e)) = Some (Node d (Node c a x b) y e)"
| "rotate_left _ = None"

fun rotate_right :: "'d xTreeNode \<Rightarrow> 'd xTreeNode option" where
  "rotate_right (Node c (Node d a x b) y e) = Some (Node d a x (Node c b y e))"
| "rotate_right _ = None"

section \<open>Insertion\<close>

text \<open>
  One red parent with its parent: the first three cases and their mirror images. Left is a recoloured
  grandparent to go on from, Right the subtree with which the loop ends.
\<close>

fun insert_step :: "'d xTreeNode \<Rightarrow> 'd tree_frame \<Rightarrow> 'd tree_frame \<Rightarrow> ('d xTreeNode + 'd xTreeNode) option" where
  "insert_step z p (Is_left gc g y) =
     (if color_of y = RB_RED then Some (Inl (Node RB_RED (paint RB_BLACK (fill z p)) g (paint RB_BLACK y)))
      else case (case p of Is_right _ _ _ \<Rightarrow> rotate_left (fill z p) | Is_left _ _ _ \<Rightarrow> Some (fill z p)) of
             None \<Rightarrow> None
           | Some q \<Rightarrow> map_option Inr (rotate_right (Node RB_RED (paint RB_BLACK q) g y)))"
| "insert_step z p (Is_right y gc g) =
     (if color_of y = RB_RED then Some (Inl (Node RB_RED (paint RB_BLACK y) g (paint RB_BLACK (fill z p))))
      else case (case p of Is_left _ _ _ \<Rightarrow> rotate_right (fill z p) | Is_right _ _ _ \<Rightarrow> Some (fill z p)) of
             None \<Rightarrow> None
           | Some q \<Rightarrow> map_option Inr (rotate_left (Node RB_RED y g (paint RB_BLACK q))))"

fun insert_fixup :: "'d xTreeNode \<Rightarrow> 'd tree_path \<Rightarrow> 'd xTreeNode option" where
  "insert_fixup z [] = Some (paint RB_BLACK z)"
| "insert_fixup z [p] = (if frame_color p = RB_RED then None else Some (paint RB_BLACK (fill z p)))"
| "insert_fixup z (p # g # up) =
     (if frame_color p = RB_RED
      then case insert_step z p g of
             None \<Rightarrow> None
           | Some (Inl z') \<Rightarrow> insert_fixup z' up
           | Some (Inr t) \<Rightarrow> Some (paint RB_BLACK (plug t up))
      else Some (paint RB_BLACK (plug z (p # g # up))))"

section \<open>Deletion\<close>

text \<open>
  One round of \<^verbatim>\<open>delete_fixup\<close> at a left child \<open>x\<close> of a parent with colour \<open>c\<close>, data \<open>p\<close> and right child
  \<open>w\<close>, after the first case. The second case goes on from the parent; the others end the loop.
\<close>

fun delete_left :: "'d xTreeNode \<Rightarrow> xRBColor \<Rightarrow> 'd \<Rightarrow> 'd xTreeNode \<Rightarrow> ('d xTreeNode + 'd xTreeNode) option" where
  "delete_left x c p NULL = None"
| "delete_left x c p (Node wc wl w wr) =
     (if color_of wl = RB_BLACK \<and> color_of wr = RB_BLACK then Some (Inl (Node c x p (Node RB_RED wl w wr)))
      else case (if color_of wr = RB_BLACK then rotate_right (Node RB_RED (paint RB_BLACK wl) w wr)
                 else Some (Node wc wl w wr)) of
             None \<Rightarrow> None
           | Some NULL \<Rightarrow> None
           | Some (Node _ vl v vr) \<Rightarrow>
               map_option Inr (rotate_left (Node RB_BLACK x p (Node c vl v (paint RB_BLACK vr)))))"

fun delete_right :: "'d xTreeNode \<Rightarrow> xRBColor \<Rightarrow> 'd \<Rightarrow> 'd xTreeNode \<Rightarrow> ('d xTreeNode + 'd xTreeNode) option" where
  "delete_right x c p NULL = None"
| "delete_right x c p (Node wc wl w wr) =
     (if color_of wr = RB_BLACK \<and> color_of wl = RB_BLACK then Some (Inl (Node c (Node RB_RED wl w wr) p x))
      else case (if color_of wl = RB_BLACK then rotate_left (Node RB_RED wl w (paint RB_BLACK wr))
                 else Some (Node wc wl w wr)) of
             None \<Rightarrow> None
           | Some NULL \<Rightarrow> None
           | Some (Node _ vl v vr) \<Rightarrow>
               map_option Inr (rotate_right (Node RB_BLACK (Node c (paint RB_BLACK vl) v vr) p x)))"

text \<open>
  The first case rotates a red sibling up and leaves \<open>x\<close> with a red parent, so the round that
  follows either ends the loop or stops at that parent. What is left of the frames comes back.
\<close>

fun delete_step :: "'d xTreeNode \<Rightarrow> 'd tree_frame \<Rightarrow> (('d xTreeNode + 'd xTreeNode) \<times> 'd tree_path) option" where
  "delete_step x (Is_left c p (Node RB_RED wl w wr)) =
     map_option (\<lambda>r. (r, [Is_left RB_BLACK w wr])) (delete_left x RB_RED p wl)"
| "delete_step x (Is_left c p w) = map_option (\<lambda>r. (r, [])) (delete_left x c p w)"
| "delete_step x (Is_right (Node RB_RED wl w wr) c p) =
     map_option (\<lambda>r. (r, [Is_right wl RB_BLACK w])) (delete_right x RB_RED p wr)"
| "delete_step x (Is_right w c p) = map_option (\<lambda>r. (r, [])) (delete_right x c p w)"

lemma delete_left_red: "delete_left x RB_RED p w = Some (Inl t) \<Longrightarrow> color_of t = RB_RED"
  by (cases w) (auto split: if_splits option.splits xTreeNode.splits)

lemma delete_right_red: "delete_right x RB_RED p w = Some (Inl t) \<Longrightarrow> color_of t = RB_RED"
  by (cases w) (auto split: if_splits option.splits xTreeNode.splits)

lemma delete_step_again:
  "delete_step x f = Some (Inl t, fs) \<Longrightarrow> fs = [] \<or> length fs = 1 \<and> color_of t = RB_RED"
  by (induction x f rule: delete_step.induct) (auto dest: delete_left_red delete_right_red)

function delete_fixup :: "'d xTreeNode \<Rightarrow> 'd tree_path \<Rightarrow> 'd xTreeNode option" where
  "delete_fixup x path =
     (if path = [] \<or> color_of x = RB_RED then Some (plug (paint RB_BLACK x) path)
      else case delete_step x (hd path) of
             None \<Rightarrow> None
           | Some (Inl x', fs) \<Rightarrow> delete_fixup x' (fs @ tl path)
           | Some (Inr t, fs) \<Rightarrow> Some (paint RB_BLACK (plug t (fs @ tl path))))"
  by pat_completeness auto
termination
proof (relation "measure (\<lambda>(x, path). if color_of x = RB_RED then 0 else Suc (length path))", goal_cases)
  case (2 x path r x' fs t)
  then show ?case by (cases path) (auto dest!: delete_step_again)
qed simp

declare delete_fixup.simps [simp del]

text \<open>
  The successor: the path from it up to the right child of the removed node, nearest first.
\<close>

fun tree_min :: "xRBColor \<Rightarrow> 'd xTreeNode \<Rightarrow> 'd \<Rightarrow> 'd xTreeNode \<Rightarrow> 'd tree_path \<Rightarrow> xRBColor \<times> 'd \<times> 'd xTreeNode \<times> 'd tree_path" where
  "tree_min c NULL d r fs = (c, d, r, fs)"
| "tree_min c (Node lc ll l lr) d r fs = tree_min lc ll l lr (Is_left c d r # fs)"

text \<open>
  Unlinking the node with colour \<open>c\<close> and children \<open>l\<close> and \<open>r\<close> at the end of a path: the colour that
  leaves, the subtree that takes its place, and the path to it.
\<close>

fun unlink :: "xRBColor \<Rightarrow> 'd xTreeNode \<Rightarrow> 'd xTreeNode \<Rightarrow> 'd tree_path \<Rightarrow> xRBColor \<times> 'd xTreeNode \<times> 'd tree_path" where
  "unlink c NULL r path = (c, r, path)"
| "unlink c l NULL path = (c, l, path)"
| "unlink c l (Node rc rl rd rr) path =
     (case tree_min rc rl rd rr [] of (y_orig, y, x, fs) \<Rightarrow> (y_orig, x, fs @ Is_right l c y # path))"

section \<open>Operations\<close>

fun locate :: "64 word \<Rightarrow> ('k, 'v) tree_data xTreeNode \<Rightarrow> ('k, 'v) tree_data tree_path \<Rightarrow>
    ('k, 'v) tree_data xTreeNode \<times> ('k, 'v) tree_data tree_path" where
  "locate h NULL path = (NULL, path)"
| "locate h (Node c l d r) path =
     (if h < tn_hash d then locate h l (Is_left c d r # path)
      else if tn_hash d < h then locate h r (Is_right l c d # path)
      else (Node c l d r, path))"

fun find_node :: "64 word \<Rightarrow> ('k, 'v) tree_data xTreeNode \<Rightarrow> ('k, 'v) tree_data option" where
  "find_node h NULL = None"
| "find_node h (Node c l d r) =
     (if h < tn_hash d then find_node h l else if tn_hash d < h then find_node h r else Some d)"

definition tree_set ::
  "('k \<Rightarrow> 64 word) \<Rightarrow> ('k \<Rightarrow> 'k \<Rightarrow> bool) \<Rightarrow> allocs \<Rightarrow> 'k \<Rightarrow> 'v option \<Rightarrow> ('k, 'v) xMapTree \<Rightarrow>
   (xErrno \<times> ('k, 'v) xMapTree \<times> allocs) option" where
  "tree_set hash eq m key val t =
     (case locate (hash key) (mt_root t) [] of
        (Node c l d r, path) \<Rightarrow>
          if eq (tn_key d) key
          then Some (xErrno_Ok, t\<lparr>mt_root := plug (Node c l (d\<lparr>tn_val := val\<rparr>) r) path\<rparr>, m)
          else (case chain_put eq key val (tn_overflow d) of
                  Some o' \<Rightarrow> Some (xErrno_Ok, t\<lparr>mt_root := plug (Node c l (d\<lparr>tn_overflow := o'\<rparr>) r) path\<rparr>, m)
                | None \<Rightarrow>
                    let (ok, m') = draw m
                    in if \<not> ok then Some (xErrno_NoMemory, t, m')
                       else Some (xErrno_Ok,
                         t\<lparr>mt_root := plug (Node c l (d\<lparr>tn_overflow := (key, val) # tn_overflow d\<rparr>) r) path,
                           mt_size := mt_size t + 1\<rparr>, m'))
      | (NULL, path) \<Rightarrow>
          let (ok, m') = draw m
          in if \<not> ok then Some (xErrno_NoMemory, t, m')
             else map_option (\<lambda>root. (xErrno_Ok, t\<lparr>mt_root := root, mt_size := mt_size t + 1\<rparr>, m'))
               (insert_fixup (Node RB_RED NULL
                 \<lparr>tn_hash = hash key, tn_key = key, tn_val = val, tn_overflow = []\<rparr> NULL) path))"

definition tree_get :: "('k \<Rightarrow> 64 word) \<Rightarrow> ('k \<Rightarrow> 'k \<Rightarrow> bool) \<Rightarrow> 'k \<Rightarrow> ('k, 'v) xMapTree \<Rightarrow> 'v option" where
  "tree_get hash eq key t =
     (case find_node (hash key) (mt_root t) of
        None \<Rightarrow> None
      | Some d \<Rightarrow> if eq (tn_key d) key then tn_val d else value_of (assoc_find eq (tn_overflow d) key))"

definition tree_del ::
  "('k \<Rightarrow> 64 word) \<Rightarrow> ('k \<Rightarrow> 'k \<Rightarrow> bool) \<Rightarrow> 'k \<Rightarrow> ('k, 'v) xMapTree \<Rightarrow> ('v option \<times> ('k, 'v) xMapTree) option" where
  "tree_del hash eq key t =
     (case locate (hash key) (mt_root t) [] of
        (NULL, path) \<Rightarrow> Some (None, t)
      | (Node c l d r, path) \<Rightarrow>
          if \<not> eq (tn_key d) key
          then (case chain_del eq key (tn_overflow d) of
                  None \<Rightarrow> Some (None, t)
                | Some (val, o') \<Rightarrow>
                    Some (val, t\<lparr>mt_root := plug (Node c l (d\<lparr>tn_overflow := o'\<rparr>) r) path, mt_size := mt_size t - 1\<rparr>))
          else (case tn_overflow d of
                  (k, v) # o' \<Rightarrow>
                    Some (tn_val d, t\<lparr>mt_root := plug (Node c l (d\<lparr>tn_key := k, tn_val := v, tn_overflow := o'\<rparr>) r) path,
                      mt_size := mt_size t - 1\<rparr>)
                | [] \<Rightarrow>
                    (case unlink c l r path of
                       (y_orig, x, xpath) \<Rightarrow>
                         map_option (\<lambda>root. (tn_val d, t\<lparr>mt_root := root, mt_size := mt_size t - 1\<rparr>))
                           (if y_orig = RB_BLACK then delete_fixup x xpath else Some (plug x xpath)))))"

definition tree_len :: "('k, 'v) xMapTree \<Rightarrow> nat" where
  "tree_len t = mt_size t"

fun iterate_subtree ::
  "('k \<times> 'v option \<Rightarrow> 'a \<Rightarrow> bool \<times> 'a) \<Rightarrow> ('k, 'v) tree_data xTreeNode \<Rightarrow> 'a \<Rightarrow> bool \<times> 'a" where
  "iterate_subtree fn NULL a = (True, a)"
| "iterate_subtree fn (Node c l d r) a =
     (case iterate_subtree fn l a of (go, a) \<Rightarrow>
        if \<not> go then (False, a)
        else case fn (tn_key d, tn_val d) a of (go, a) \<Rightarrow>
          if \<not> go then (False, a)
          else case visit fn (tn_overflow d) a of (go, a) \<Rightarrow>
            if \<not> go then (False, a) else iterate_subtree fn r a)"

definition tree_iterate :: "('k \<times> 'v option \<Rightarrow> 'a \<Rightarrow> bool \<times> 'a) \<Rightarrow> ('k, 'v) xMapTree \<Rightarrow> 'a \<Rightarrow> 'a" where
  "tree_iterate fn t a = snd (iterate_subtree fn (mt_root t) a)"

definition xMapTreeCreate :: "allocs \<Rightarrow> ('k, 'v) xMapTree option \<times> allocs" where
  "xMapTreeCreate m =
     (let (ok, m1) = draw m
      in if \<not> ok then (None, m1)
         else let (node_pool, m2) = draw m1; (overflow_pool, m3) = draw m2
              in (if node_pool \<and> overflow_pool then Some \<lparr>mt_root = NULL, mt_size = 0\<rparr> else None, m3))"

section \<open>Contents\<close>

fun inorder :: "'d xTreeNode \<Rightarrow> 'd list" where
  "inorder NULL = []"
| "inorder (Node c l d r) = inorder l @ d # inorder r"

fun before :: "'d tree_path \<Rightarrow> 'd list" where
  "before [] = []"
| "before (Is_left c d r # fs) = before fs"
| "before (Is_right l c d # fs) = before fs @ inorder l @ [d]"

fun behind :: "'d tree_path \<Rightarrow> 'd list" where
  "behind [] = []"
| "behind (Is_left c d r # fs) = d # inorder r @ behind fs"
| "behind (Is_right l c d # fs) = behind fs"

lemma inorder_plug: "inorder (plug t fs) = before fs @ inorder t @ behind fs"
proof (induction fs arbitrary: t)
  case (Cons f fs)
  then show ?case by (cases f) simp_all
qed simp

lemma around_append:
  "before (fs @ gs) = before gs @ before fs" "behind (fs @ gs) = behind fs @ behind gs"
proof -
  show "before (fs @ gs) = before gs @ before fs"
    by (induction fs rule: before.induct) simp_all
  show "behind (fs @ gs) = behind fs @ behind gs"
    by (induction fs rule: behind.induct) simp_all
qed

lemma inorder_paint [simp]: "inorder (paint c t) = inorder t"
  by (cases t) simp_all

lemma inorder_rotate:
  "rotate_left t = Some t' \<Longrightarrow> inorder t' = inorder t"
  "rotate_right t = Some t' \<Longrightarrow> inorder t' = inorder t"
  by (cases t rule: rotate_left.cases; auto) (cases t rule: rotate_right.cases; auto)

lemma inorder_insert_step:
  "insert_step z p g = Some r \<Longrightarrow>
    inorder (case r of Inl t \<Rightarrow> t | Inr t \<Rightarrow> t) = inorder (fill (fill z p) g)"
  by (cases g; cases p)
    (auto dest!: inorder_rotate split: if_splits option.splits)

lemma inorder_insert_fixup: "insert_fixup z path = Some t \<Longrightarrow> inorder t = inorder (plug z path)"
proof (induction z path rule: insert_fixup.induct)
  case (3 z p g up)
  then show ?case
    by (auto simp: inorder_plug dest!: inorder_insert_step split: if_splits option.splits sum.splits)
qed (auto split: if_splits)

lemma inorder_delete_left:
  "delete_left x c p w = Some r \<Longrightarrow> inorder (case r of Inl t \<Rightarrow> t | Inr t \<Rightarrow> t) = inorder x @ p # inorder w"
  by (cases w) (auto dest!: inorder_rotate split: if_splits option.splits xTreeNode.splits)

lemma inorder_delete_right:
  "delete_right x c p w = Some r \<Longrightarrow> inorder (case r of Inl t \<Rightarrow> t | Inr t \<Rightarrow> t) = inorder w @ p # inorder x"
  by (cases w) (auto dest!: inorder_rotate split: if_splits option.splits xTreeNode.splits)

lemma inorder_delete_step:
  "delete_step x f = Some (r, fs) \<Longrightarrow>
    inorder (plug (case r of Inl t \<Rightarrow> t | Inr t \<Rightarrow> t) fs) = inorder (fill x f)"
  by (induction x f rule: delete_step.induct)
    (auto dest!: inorder_delete_left inorder_delete_right simp del: delete_left.simps delete_right.simps)

lemma inorder_delete_fixup: "delete_fixup x path = Some t \<Longrightarrow> inorder t = inorder (plug x path)"
proof (induction x path rule: delete_fixup.induct)
  case (1 x path)
  show ?case
  proof (cases "path = [] \<or> color_of x = RB_RED")
    case True
    with 1(2) show ?thesis by (auto simp: delete_fixup.simps [of x path] inorder_plug)
  next
    case False
    then obtain f up where path: "path = f # up" by (cases path) auto
    with False 1(2) obtain r fs where step: "delete_step x f = Some (r, fs)"
      by (cases "delete_step x f") (auto simp: path delete_fixup.simps [of x "f # up"])
    note in_step = inorder_delete_step [OF step]
    show ?thesis
    proof (cases r)
      case (Inl x')
      have "inorder t = inorder (plug x' (fs @ tl path))"
        by (rule 1(1)) (use False step path 1(2) Inl in \<open>auto simp: delete_fixup.simps [of x "f # up"]\<close>)
      then show ?thesis using in_step by (simp add: path Inl inorder_plug around_append)
    next
      case (Inr t')
      then have "inorder t = inorder (plug t' (fs @ up))"
        using 1(2) False step path by (auto simp: delete_fixup.simps [of x "f # up"])
      then show ?thesis using in_step by (simp add: path Inr inorder_plug around_append)
    qed
  qed
qed

lemma inorder_tree_min:
  "tree_min c l d r fs = (y_orig, y, x, gs) \<Longrightarrow>
    before gs = before fs \<and> y # inorder x @ behind gs = inorder l @ d # inorder r @ behind fs"
  by (induction c l d r fs rule: tree_min.induct) auto

lemma inorder_unlink:
  "unlink c l r path = (y_orig, x, xpath) \<Longrightarrow>
    before xpath @ inorder x @ behind xpath = before path @ inorder l @ inorder r @ behind path"
proof (induction c l r path rule: unlink.induct)
  case (3 c lc ll ld lr rc rl rd rr path)
  obtain yc y z fs where m: "tree_min rc rl rd rr [] = (yc, y, z, fs)" by (metis prod_cases4)
  with 3 have "x = z" "xpath = fs @ Is_right (Node lc ll ld lr) c y # path" by simp_all
  with inorder_tree_min [OF m] show ?case by (simp add: around_append)
qed auto

section \<open>Balance\<close>

fun bheight :: "'d xTreeNode \<Rightarrow> nat" where
  "bheight NULL = 0"
| "bheight (Node c l d r) = (if c = RB_BLACK then Suc (bheight l) else bheight l)"

text \<open>Equal black heights, and no red node with a red child.\<close>

fun balanced :: "'d xTreeNode \<Rightarrow> bool" where
  "balanced NULL \<longleftrightarrow> True"
| "balanced (Node c l d r) \<longleftrightarrow> balanced l \<and> balanced r \<and> bheight l = bheight r \<and>
     (c = RB_RED \<longrightarrow> color_of l = RB_BLACK \<and> color_of r = RB_BLACK)"

fun top_black :: "'d tree_path \<Rightarrow> bool" where
  "top_black [] \<longleftrightarrow> True"
| "top_black (f # fs) \<longleftrightarrow> frame_color f = RB_BLACK"

text \<open>A path around a subtree of black height \<open>n\<close>; a red frame is not the last one.\<close>

fun around :: "'d tree_path \<Rightarrow> nat \<Rightarrow> bool" where
  "around [] n \<longleftrightarrow> True"
| "around (Is_left c d r # fs) n \<longleftrightarrow> balanced r \<and> bheight r = n \<and>
     (c = RB_RED \<longrightarrow> color_of r = RB_BLACK \<and> fs \<noteq> [] \<and> top_black fs) \<and>
     around fs (if c = RB_BLACK then Suc n else n)"
| "around (Is_right l c d # fs) n \<longleftrightarrow> balanced l \<and> bheight l = n \<and>
     (c = RB_RED \<longrightarrow> color_of l = RB_BLACK \<and> fs \<noteq> [] \<and> top_black fs) \<and>
     around fs (if c = RB_BLACK then Suc n else n)"

definition red_black :: "'d xTreeNode \<Rightarrow> bool" where
  "red_black t \<longleftrightarrow> balanced t \<and> color_of t = RB_BLACK"

lemma not_red [simp]: "c \<noteq> RB_RED \<longleftrightarrow> c = RB_BLACK" "c \<noteq> RB_BLACK \<longleftrightarrow> c = RB_RED"
  by (cases c; simp)+

lemma bheight_paint [simp]:
  "bheight (paint RB_BLACK t) = (if color_of t = RB_RED then Suc (bheight t) else bheight t)"
  by (cases t) simp_all

lemma balanced_paint [simp]: "balanced t \<Longrightarrow> balanced (paint RB_BLACK t)"
  by (cases t) simp_all

lemma color_paint [simp]: "color_of (paint RB_BLACK t) = RB_BLACK"
  by (cases t) simp_all

lemma red_black_paint: "balanced t \<Longrightarrow> red_black (paint RB_BLACK t)"
  by (simp add: red_black_def)

lemma balanced_plug:
  "around fs n \<Longrightarrow> balanced t \<Longrightarrow> bheight t = n \<Longrightarrow> top_black fs \<or> color_of t = RB_BLACK \<Longrightarrow>
    balanced (plug t fs) \<and> (fs \<noteq> [] \<longrightarrow> color_of (plug t fs) = RB_BLACK)"
proof (induction fs arbitrary: t n)
  case (Cons f fs)
  have "around fs (bheight (fill t f)) \<and> balanced (fill t f) \<and>
      (top_black fs \<or> color_of (fill t f) = RB_BLACK) \<and> (fs = [] \<longrightarrow> color_of (fill t f) = RB_BLACK)"
    using Cons.prems by (cases f) (auto split: if_splits)
  with Cons.IH [of "bheight (fill t f)" "fill t f"] show ?case by (cases fs) auto
qed simp

lemma locate_around:
  "locate h t path = (u, fs) \<Longrightarrow> around path (bheight t) \<Longrightarrow> balanced t \<Longrightarrow>
    top_black path \<or> color_of t = RB_BLACK \<Longrightarrow> path = [] \<longrightarrow> color_of t = RB_BLACK \<Longrightarrow>
    around fs (bheight u) \<and> balanced u \<and> (top_black fs \<or> color_of u = RB_BLACK) \<and> (fs = [] \<longrightarrow> color_of u = RB_BLACK)"
proof (induction h t path arbitrary: u fs rule: locate.induct)
  case (2 h c l d r path)
  then show ?case by (auto split: if_splits)
qed auto

lemma plug_locate: "locate h t path = (u, fs) \<Longrightarrow> plug u fs = plug t path"
  by (induction h t path rule: locate.induct) (auto split: if_splits)

subsection \<open>Insertion\<close>

lemma insert_step_ok:
  assumes "balanced z" "color_of z = RB_RED" "frame_color p = RB_RED" "around (p # g # up) (bheight z)"
  shows "(\<exists>z'. insert_step z p g = Some (Inl z') \<and> balanced z' \<and> color_of z' = RB_RED \<and> around up (bheight z')) \<or>
    (\<exists>t. insert_step z p g = Some (Inr t) \<and> balanced t \<and> color_of t = RB_BLACK \<and> around up (bheight t))"
proof -
  obtain zl zd zr where z: "z = Node RB_RED zl zd zr" using assms(2) by (cases z) auto
  show ?thesis
    using assms by (cases g; cases p) (auto simp: z)
qed

lemma insert_fixup_ok:
  "balanced z \<Longrightarrow> color_of z = RB_RED \<Longrightarrow> around path (bheight z) \<Longrightarrow>
    \<exists>t. insert_fixup z path = Some t \<and> red_black t"
proof (induction z path rule: insert_fixup.induct)
  case (1 z)
  then show ?case by (simp add: red_black_paint)
next
  case (2 z p)
  then have "frame_color p = RB_BLACK" by (cases p) auto
  moreover from this 2 balanced_plug [of "[p]" "bheight z" z] have "balanced (fill z p)" by simp
  ultimately show ?case by (simp add: red_black_paint)
next
  case (3 z p g up)
  show ?case
  proof (cases "frame_color p = RB_RED")
    case False
    with 3(2-) balanced_plug [of "p # g # up" "bheight z" z] show ?thesis by (auto intro: red_black_paint)
  next
    case True
    from insert_step_ok [OF 3(2,3) True 3(4)] show ?thesis
    proof (elim disjE exE conjE)
      fix z' assume "insert_step z p g = Some (Inl z')" "balanced z'" "color_of z' = RB_RED" "around up (bheight z')"
      with 3(1) True show ?thesis by simp
    next
      fix t assume t: "insert_step z p g = Some (Inr t)" "balanced t" "color_of t = RB_BLACK" "around up (bheight t)"
      with balanced_plug [OF t(4,2)] True show ?thesis by (auto intro: red_black_paint)
    qed
  qed
qed

subsection \<open>Deletion\<close>

text \<open>The place of \<open>x\<close> wants one more black node than \<open>x\<close> has.\<close>

lemma delete_left_ok:
  assumes "balanced x" "color_of x = RB_BLACK" "balanced w" "bheight w = Suc (bheight x)" "color_of w = RB_BLACK"
  shows "(\<exists>t. delete_left x c p w = Some (Inl t) \<and> balanced (paint RB_BLACK t) \<and> color_of t = c \<and>
      bheight t = (if c = RB_BLACK then Suc (bheight x) else bheight x)) \<or>
    (\<exists>t. delete_left x c p w = Some (Inr t) \<and> balanced t \<and> color_of t = c \<and>
      bheight t = (if c = RB_BLACK then Suc (Suc (bheight x)) else Suc (bheight x)))"
proof -
  obtain wl wd wr where w: "w = Node RB_BLACK wl wd wr" using assms(4,5) by (cases w) auto
  show ?thesis
    using assms
    by (cases c; cases wl; cases wr; cases "color_of wl"; cases "color_of wr")
      (auto simp: w)
qed

lemma delete_right_ok:
  assumes "balanced x" "color_of x = RB_BLACK" "balanced w" "bheight w = Suc (bheight x)" "color_of w = RB_BLACK"
  shows "(\<exists>t. delete_right x c p w = Some (Inl t) \<and> balanced (paint RB_BLACK t) \<and> color_of t = c \<and>
      bheight t = (if c = RB_BLACK then Suc (bheight x) else bheight x)) \<or>
    (\<exists>t. delete_right x c p w = Some (Inr t) \<and> balanced t \<and> color_of t = c \<and>
      bheight t = (if c = RB_BLACK then Suc (Suc (bheight x)) else Suc (bheight x)))"
proof -
  obtain wl wd wr where w: "w = Node RB_BLACK wl wd wr" using assms(4,5) by (cases w) auto
  show ?thesis
    using assms
    by (cases c; cases wl; cases wr; cases "color_of wl"; cases "color_of wr")
      (auto simp: w)
qed

text \<open>
  What a round leaves: a smaller problem of the same kind, or a subtree that closes the gap.
\<close>

lemma delete_step_ok:
  assumes x: "balanced x" "color_of x = RB_BLACK" and path: "around (f # up) (Suc (bheight x))"
  shows "(\<exists>t fs. delete_step x f = Some (Inl t, fs) \<and> balanced (paint RB_BLACK t) \<and>
      around (fs @ up) (Suc (bheight t))) \<or>
    (\<exists>t fs. delete_step x f = Some (Inr t, fs) \<and> balanced t \<and> around (fs @ up) (bheight t) \<and>
      (top_black (fs @ up) \<or> color_of t = RB_BLACK))"
proof (cases f)
  case (Is_left c p w)
  with path have w: "balanced w" "bheight w = Suc (bheight x)" by simp_all
  show ?thesis
  proof (cases "color_of w")
    case RB_BLACK
    then have "delete_step x f = map_option (\<lambda>r. (r, [])) (delete_left x c p w)"
      by (cases w; cases "color_of w") (auto simp: Is_left)
    with delete_left_ok [OF x w RB_BLACK, of c p] path show ?thesis
      by (cases c) (auto simp: Is_left)
  next
    case RB_RED
    then obtain wl wd wr where w': "w = Node RB_RED wl wd wr" by (cases w) auto
    with w have "balanced wl" "bheight wl = Suc (bheight x)" "color_of wl = RB_BLACK" by simp_all
    with delete_left_ok [OF x this, of RB_RED p] path w show ?thesis
      by (auto simp: Is_left w')
  qed
next
  case (Is_right w c p)
  with path have w: "balanced w" "bheight w = Suc (bheight x)" by simp_all
  show ?thesis
  proof (cases "color_of w")
    case RB_BLACK
    then have "delete_step x f = map_option (\<lambda>r. (r, [])) (delete_right x c p w)"
      by (cases w; cases "color_of w") (auto simp: Is_right)
    with delete_right_ok [OF x w RB_BLACK, of c p] path show ?thesis
      by (cases c) (auto simp: Is_right)
  next
    case RB_RED
    then obtain wl wd wr where w': "w = Node RB_RED wl wd wr" by (cases w) auto
    with w have "balanced wr" "bheight wr = Suc (bheight x)" "color_of wr = RB_BLACK" by simp_all
    with delete_right_ok [OF x this, of RB_RED p] path w show ?thesis
      by (auto simp: Is_right w')
  qed
qed

lemma delete_fixup_ok:
  "balanced (paint RB_BLACK x) \<Longrightarrow> around path (Suc (bheight x)) \<Longrightarrow> \<exists>t. delete_fixup x path = Some t \<and> red_black t"
proof (induction x path rule: delete_fixup.induct)
  case (1 x path)
  show ?case
  proof (cases "path = [] \<or> color_of x = RB_RED")
    case True
    then have "path = [] \<or> bheight (paint RB_BLACK x) = Suc (bheight x)" by auto
    with 1(2,3) balanced_plug [of path "Suc (bheight x)" "paint RB_BLACK x"] True
    show ?thesis by (cases "path = []") (auto simp: delete_fixup.simps [of x path] delete_fixup.simps [of x "[]"] red_black_def)
  next
    case False
    then obtain f up where path: "path = f # up" by (cases path) auto
    have x: "balanced x" "color_of x = RB_BLACK" using 1(2) False by (cases x; simp)+
    from delete_step_ok [OF x 1(3) [unfolded path]] consider
      (again) t fs where "delete_step x f = Some (Inl t, fs)" "balanced (paint RB_BLACK t)" "around (fs @ up) (Suc (bheight t))"
    | (ends) t fs where "delete_step x f = Some (Inr t, fs)" "balanced t" "around (fs @ up) (bheight t)"
        "top_black (fs @ up) \<or> color_of t = RB_BLACK"
      by blast
    then show ?thesis
    proof cases
      case t: (again t fs)
      have "\<exists>u. delete_fixup t (fs @ tl path) = Some u \<and> red_black u"
        by (rule 1(1)) (use t False path in auto)
      with t(1) False path show ?thesis by (simp add: delete_fixup.simps [of x "f # up"])
    next
      case t: (ends t fs)
      with balanced_plug [OF t(3,2) refl t(4)] False path show ?thesis
        by (simp add: delete_fixup.simps [of x "f # up"] red_black_paint)
    qed
  qed
qed

text \<open>Unlinking a node of a balanced tree.\<close>

lemma tree_min_append:
  "tree_min c l d r (fs @ gs) = (case tree_min c l d r fs of (a, b, e, hs) \<Rightarrow> (a, b, e, hs @ gs))"
  by (induction c l d r fs rule: tree_min.induct) simp_all

lemma tree_min_ok:
  assumes "tree_min c l d r fs = (y_orig, y, x, gs)"
    and "balanced (Node c l d r)" "around fs (bheight (Node c l d r))" "fs \<noteq> []" "top_black fs \<or> c = RB_BLACK"
  shows "balanced x \<and> gs \<noteq> [] \<and> around gs (if y_orig = RB_BLACK then Suc (bheight x) else bheight x) \<and>
    (y_orig = RB_RED \<longrightarrow> color_of x = RB_BLACK \<and> top_black gs)"
  using assms
proof (induction c l d r fs rule: tree_min.induct)
  case (1 c d r fs)
  then show ?case by auto
next
  case (2 c lc ll l lr d r fs)
  from 2(2) have m: "tree_min lc ll l lr (Is_left c d r # fs) = (y_orig, y, x, gs)" by simp
  show ?case
    by (rule 2(1) [OF m]) (use 2(3-) in \<open>auto split: if_splits\<close>)
qed

lemma unlink_ok:
  assumes "unlink c l r path = (y_orig, x, xpath)" and "around path (bheight (Node c l d r))"
    and "balanced (Node c l d r)" "top_black path \<or> c = RB_BLACK" "path = [] \<longrightarrow> c = RB_BLACK"
  shows "balanced x \<and> around xpath (if y_orig = RB_BLACK then Suc (bheight x) else bheight x) \<and>
    (y_orig = RB_RED \<longrightarrow> color_of x = RB_BLACK \<and> top_black xpath \<and> xpath \<noteq> [])"
  using assms
proof (induction c l r path rule: unlink.induct)
  case (1 c r path)
  then show ?case by auto
next
  case (2 c lc ll ld lr path)
  then show ?case by (auto split: if_splits)
next
  case (3 c lc ll ld lr rc rl rd rr path)
  let ?l = "Node lc ll ld lr"
  obtain y z fs where m: "tree_min rc rl rd rr [] = (y_orig, y, z, fs)" and x: "x = z" "xpath = fs @ Is_right ?l c y # path"
    using 3(1) by (auto split: prod.splits)
  have m': "tree_min rc rl rd rr (Is_right ?l c y # path) = (y_orig, y, x, xpath)"
    using m tree_min_append [of rc rl rd rr "[]" "Is_right ?l c y # path"] by (simp add: x)
  have bal: "balanced (Node rc rl rd rr)" and top: "top_black (Is_right ?l c y # path) \<or> rc = RB_BLACK"
    using 3(3) by (auto simp: x)
  have "around (Is_right ?l c y # path) (bheight (Node rc rl rd rr))"
    using 3(2-5) by (auto split: if_splits)
  from tree_min_ok [OF m' bal this _ top] show ?case by blast
qed

section \<open>The invariant\<close>

definition node_pairs :: "('k, 'v) tree_data \<Rightarrow> ('k \<times> 'v option) list" where
  "node_pairs d = (tn_key d, tn_val d) # tn_overflow d"

abbreviation tree_pairs :: "('k, 'v) xMapTree \<Rightarrow> ('k \<times> 'v option) list" where
  "tree_pairs t \<equiv> concat (map node_pairs (inorder (mt_root t)))"

lemma iterate_pairs: "iterate_subtree fn t a = visit fn (concat (map node_pairs (inorder t))) a"
  by (induction t arbitrary: a) (auto simp: visit_append node_pairs_def split: prod.split)

definition nodes_ok :: "('k \<Rightarrow> 64 word) \<Rightarrow> ('k \<Rightarrow> 'k \<Rightarrow> bool) \<Rightarrow> ('k, 'v) tree_data list \<Rightarrow> bool" where
  "nodes_ok hash eq ds \<longleftrightarrow> sorted_wrt (\<lambda>d e. tn_hash d < tn_hash e) ds \<and>
     (\<forall>d \<in> set ds. \<forall>p \<in> set (node_pairs d). hash (fst p) = tn_hash d) \<and>
     keys_distinct eq (concat (map node_pairs ds))"

definition tree_ok :: "('k \<Rightarrow> 64 word) \<Rightarrow> ('k \<Rightarrow> 'k \<Rightarrow> bool) \<Rightarrow> ('k, 'v) xMapTree \<Rightarrow> bool" where
  "tree_ok hash eq t \<longleftrightarrow> red_black (mt_root t) \<and> nodes_ok hash eq (inorder (mt_root t)) \<and>
     mt_size t = length (tree_pairs t)"

lemma locate_found:
  "locate h t path = (Node c l d r, fs) \<Longrightarrow> tn_hash d = h"
  by (induction h t path rule: locate.induct) (auto split: if_splits)

lemma locate_gap:
  "locate h t path = (NULL, fs) \<Longrightarrow> sorted_wrt (\<lambda>d e. tn_hash d < tn_hash e) (inorder t) \<Longrightarrow>
    \<forall>d \<in> set (before path). tn_hash d < h \<Longrightarrow> \<forall>d \<in> set (behind path). h < tn_hash d \<Longrightarrow>
    (\<forall>d \<in> set (before fs). tn_hash d < h) \<and> (\<forall>d \<in> set (behind fs). h < tn_hash d)"
proof (induction h t path rule: locate.induct)
  case (2 h c l d r path)
  consider "h < tn_hash d" | "tn_hash d < h" | "h = tn_hash d" by fastforce
  then show ?case
  proof cases
    case 1
    with 2(3-) show ?thesis
      by (intro 2(1)) (auto simp: sorted_wrt_append intro: less_trans)
  next
    case 2
    with "2.prems" less_not_sym [OF 2] show ?thesis
      by (intro "2.IH"(2)) (auto simp: sorted_wrt_append intro: less_trans)
  next
    case 3
    with "2.prems" show ?thesis by simp
  qed
qed auto

lemma find_locate: "find_node h t = (case locate h t path of (NULL, fs) \<Rightarrow> None | (Node c l d r, fs) \<Rightarrow> Some d)"
  by (induction h t path rule: locate.induct) auto

text \<open>What \<open>locate\<close> tells about the list of nodes.\<close>

lemma located:
  assumes "tree_ok hash eq t" and "locate h (mt_root t) [] = (u, path)"
  shows "inorder (mt_root t) = before path @ inorder u @ behind path"
    "around path (bheight u)" "balanced u" "top_black path \<or> color_of u = RB_BLACK"
    "path = [] \<longrightarrow> color_of u = RB_BLACK"
proof -
  show "inorder (mt_root t) = before path @ inorder u @ behind path"
    using plug_locate [OF assms(2)] inorder_plug [of u path] by simp
  show "around path (bheight u)" "balanced u" "top_black path \<or> color_of u = RB_BLACK"
    "path = [] \<longrightarrow> color_of u = RB_BLACK"
    using locate_around [OF assms(2)] assms(1) by (auto simp: tree_ok_def red_black_def)
qed

context keyed
begin

text \<open>Replacing the data of a node keeps the shape; what is left is the list of pairs.\<close>

lemma node_replaced:
  assumes ok: "tree_ok hash eq t" and loc: "locate h (mt_root t) [] = (Node c l d r, path)"
    and d': "tn_hash d' = tn_hash d" "\<forall>p \<in> set (node_pairs d'). hash (fst p) = tn_hash d"
    and us: "us = concat (map node_pairs (before path @ inorder l))"
    and vs: "vs = concat (map node_pairs (inorder r @ behind path))"
    and new: "t' = t\<lparr>mt_root := plug (Node c l d' r) path, mt_size := n\<rparr>"
    and dist: "keys_distinct eq (us @ node_pairs d' @ vs)" and n: "n = length (us @ node_pairs d' @ vs)"
  shows "tree_ok hash eq t'" "tree_pairs t' = us @ node_pairs d' @ vs"
proof -
  note l = located [OF ok loc]
  show ps: "tree_pairs t' = us @ node_pairs d' @ vs" by (simp add: new inorder_plug us vs)
  have "balanced (plug (Node c l d' r) path) \<and> (path \<noteq> [] \<longrightarrow> color_of (plug (Node c l d' r) path) = RB_BLACK)"
    by (rule balanced_plug) (use l(2-4) in auto)
  then have "red_black (mt_root t')" using l(5) by (cases "path = []") (auto simp: new red_black_def)
  moreover have "nodes_ok hash eq (inorder (mt_root t'))"
    using ok d' dist ps l(1) by (auto simp: tree_ok_def nodes_ok_def new inorder_plug sorted_wrt_append)
  ultimately show "tree_ok hash eq t'" using n ps by (simp add: tree_ok_def new)
qed

lemma node_pairs_of:
  assumes "tree_ok hash eq t" and "locate h (mt_root t) [] = (Node c l d r, path)"
  shows "tree_pairs t = concat (map node_pairs (before path @ inorder l)) @ node_pairs d @
      concat (map node_pairs (inorder r @ behind path))"
  using located(1) [OF assms] by simp

lemma other_hash: "e \<in> set ds \<Longrightarrow> nodes_ok hash eq ds \<Longrightarrow> tn_hash e \<noteq> hash key \<Longrightarrow> assoc_find eq (node_pairs e) key = None"
  unfolding assoc_find_None nodes_ok_def using eq_hash by metis

lemma tree_find:
  assumes ok: "tree_ok hash eq t"
  shows "assoc_find eq (tree_pairs t) key =
    (case find_node (hash key) (mt_root t) of None \<Rightarrow> None | Some d \<Rightarrow> assoc_find eq (node_pairs d) key)"
proof -
  have nodes: "nodes_ok hash eq (inorder (mt_root t))" using ok by (simp add: tree_ok_def)
  then have sorted: "sorted_wrt (\<lambda>d e. tn_hash d < tn_hash e) (inorder (mt_root t))" by (simp add: nodes_ok_def)
  have none: "assoc_find eq (concat (map node_pairs ds)) key = None"
    if "set ds \<subseteq> set (inorder (mt_root t))" "\<forall>e \<in> set ds. tn_hash e \<noteq> hash key" for ds
  proof -
    have "assoc_find eq (node_pairs e) key = None" if "e \<in> set ds" for e
      using that \<open>set ds \<subseteq> _\<close> \<open>\<forall>e \<in> set ds. _\<close> other_hash [OF _ nodes] by blast
    then show ?thesis unfolding assoc_find_None set_concat set_map by blast
  qed
  obtain u path where loc: "locate (hash key) (mt_root t) [] = (u, path)" by fastforce
  note l = located(1) [OF ok loc]
  show ?thesis
  proof (cases u)
    case NULL
    with loc have "(\<forall>d \<in> set (before path). tn_hash d < hash key) \<and> (\<forall>d \<in> set (behind path). hash key < tn_hash d)"
      using locate_gap [OF _ sorted] by force
    then have "\<forall>e \<in> set (inorder (mt_root t)). tn_hash e \<noteq> hash key" using l NULL by auto
    with none [of "inorder (mt_root t)"] NULL loc show ?thesis by (simp add: find_locate [of _ _ "[]"])
  next
    case (Node c ll d r)
    with loc have h: "tn_hash d = hash key" by (auto dest: locate_found)
    have "\<forall>e \<in> set (before path @ inorder ll). tn_hash e < hash key"
      "\<forall>e \<in> set (inorder r @ behind path). hash key < tn_hash e"
      using sorted h unfolding l Node by (auto simp: sorted_wrt_append)
    then have "\<forall>e \<in> set (before path @ inorder ll). tn_hash e \<noteq> hash key"
      "\<forall>e \<in> set (inorder r @ behind path). tn_hash e \<noteq> hash key"
      by (metis less_irrefl)+
    then have "assoc_find eq (concat (map node_pairs (before path @ inorder ll))) key = None"
      "assoc_find eq (concat (map node_pairs (inorder r @ behind path))) key = None"
      by (intro none; auto simp: l Node)+
    then have "assoc_find eq (tree_pairs t) key = assoc_find eq (node_pairs d) key"
      unfolding node_pairs_of [OF ok loc [unfolded Node]] by (rule assoc_find_mid)
    then show ?thesis by (simp add: find_locate [of _ _ "[]"] loc Node)
  qed
qed

text \<open>A key whose hash a node has.\<close>

lemma tree_node_ok:
  assumes ok: "tree_ok hash eq t" and loc: "locate (hash key) (mt_root t) [] = (Node c l d r, path)"
    and d': "tn_hash d' = tn_hash d" "\<forall>p \<in> set (node_pairs d'). hash (fst p) = tn_hash d"
    and new: "t' = t\<lparr>mt_root := plug (Node c l d' r) path, mt_size := n\<rparr>"
    and pairs: "\<And>us vs. tree_pairs t = us @ node_pairs d @ vs \<Longrightarrow> keys_distinct eq (us @ node_pairs d @ vs) \<Longrightarrow>
      keys_distinct eq (us @ node_pairs d' @ vs) \<and> P (us @ node_pairs d @ vs) (us @ node_pairs d' @ vs)"
    and n: "n + length (node_pairs d) = mt_size t + length (node_pairs d')"
  shows "tree_ok hash eq t' \<and> P (tree_pairs t) (tree_pairs t')"
proof -
  define us where "us = concat (map node_pairs (before path @ inorder l))"
  define vs where "vs = concat (map node_pairs (inorder r @ behind path))"
  have old: "tree_pairs t = us @ node_pairs d @ vs" unfolding us_def vs_def by (rule node_pairs_of [OF ok loc])
  have "keys_distinct eq (tree_pairs t)" and sz: "mt_size t = length (tree_pairs t)"
    using ok by (simp_all add: tree_ok_def nodes_ok_def)
  then have dist: "keys_distinct eq (us @ node_pairs d' @ vs)" "P (us @ node_pairs d @ vs) (us @ node_pairs d' @ vs)"
    using pairs [OF old] unfolding old by blast+
  have n': "n = length (us @ node_pairs d' @ vs)" using n sz unfolding old by simp
  note r = node_replaced [OF ok loc d' us_def vs_def new dist(1) n']
  show ?thesis using r(1) dist(2) unfolding r(2) old by blast
qed

lemma node_hash: "tree_ok hash eq t \<Longrightarrow> locate h (mt_root t) [] = (Node c l d r, path) \<Longrightarrow>
    \<forall>p \<in> set (node_pairs d). hash (fst p) = tn_hash d"
proof -
  assume ok: "tree_ok hash eq t" and loc: "locate h (mt_root t) [] = (Node c l d r, path)"
  have "d \<in> set (inorder (mt_root t))" by (simp add: located(1) [OF ok loc])
  with ok show ?thesis by (simp add: tree_ok_def nodes_ok_def)
qed

lemma tree_set_found:
  assumes ok: "tree_ok hash eq t" and loc: "locate (hash key) (mt_root t) [] = (Node c l d r, path)"
  shows "\<exists>e t' m'. tree_set hash eq m key v t = Some (e, t', m') \<and> tree_ok hash eq t' \<and>
    (if e = xErrno_Ok then \<exists>k0. eq k0 key \<and> mset (tree_pairs t') = add_mset (k0, v) (mset (drop_key eq key (tree_pairs t)))
     else t' = t)"
proof -
  let ?put = "\<lambda>k0 ps qs. mset qs = add_mset (k0, v) (mset (drop_key eq key ps))"
  have h: "tn_hash d = hash key" using locate_found [OF loc] by simp
  note hashes = node_hash [OF ok loc, unfolded node_pairs_def]
  show ?thesis
  proof (cases "eq (tn_key d) key")
    case True
    let ?d = "d\<lparr>tn_val := v\<rparr>"
    have "tree_ok hash eq (t\<lparr>mt_root := plug (Node c l ?d r) path, mt_size := mt_size t\<rparr>) \<and>
        ?put (tn_key d) (tree_pairs t) (tree_pairs (t\<lparr>mt_root := plug (Node c l ?d r) path, mt_size := mt_size t\<rparr>))"
    proof (rule tree_node_ok [OF ok loc _ _ refl])
      show "\<forall>p \<in> set (node_pairs ?d). hash (fst p) = tn_hash d" using hashes by (auto simp: node_pairs_def)
      show "keys_distinct eq (us @ node_pairs ?d @ vs) \<and> ?put (tn_key d) (us @ node_pairs d @ vs) (us @ node_pairs ?d @ vs)"
        if "tree_pairs t = us @ node_pairs d @ vs" "keys_distinct eq (us @ node_pairs d @ vs)" for us vs
        using pairs_value [of us "tn_key d" "tn_val d" "tn_overflow d @ vs" key v] that True by (simp add: node_pairs_def)
    qed (simp_all add: node_pairs_def)
    with True loc show ?thesis by (auto simp: tree_set_def)
  next
    case False
    show ?thesis
    proof (cases "chain_put eq key v (tn_overflow d)")
      case (Some o')
      obtain as k w bs where o1: "tn_overflow d = as @ (k, w) # bs" and k: "eq k key" and o2: "o' = as @ (k, v) # bs"
        using chain_put_split [OF Some] by blast
      let ?d = "d\<lparr>tn_overflow := o'\<rparr>"
      have "tree_ok hash eq (t\<lparr>mt_root := plug (Node c l ?d r) path, mt_size := mt_size t\<rparr>) \<and>
          ?put k (tree_pairs t) (tree_pairs (t\<lparr>mt_root := plug (Node c l ?d r) path, mt_size := mt_size t\<rparr>))"
      proof (rule tree_node_ok [OF ok loc _ _ refl])
        show "\<forall>p \<in> set (node_pairs ?d). hash (fst p) = tn_hash d" using hashes by (auto simp: node_pairs_def o1 o2)
        show "keys_distinct eq (us @ node_pairs ?d @ vs) \<and> ?put k (us @ node_pairs d @ vs) (us @ node_pairs ?d @ vs)"
          if "tree_pairs t = us @ node_pairs d @ vs" "keys_distinct eq (us @ node_pairs d @ vs)" for us vs
          using pairs_value [of "us @ (tn_key d, tn_val d) # as" k w "bs @ vs" key v] that k by (simp add: node_pairs_def o1 o2)
      qed (simp_all add: node_pairs_def o1 o2)
      with False Some loc k show ?thesis by (auto simp: tree_set_def)
    next
      case None
      obtain al m' where dr: "draw m = (al, m')" by fastforce
      let ?d = "d\<lparr>tn_overflow := (key, v) # tn_overflow d\<rparr>"
      have "find_node (hash key) (mt_root t) = Some d" by (simp add: find_locate [of _ _ "[]"] loc)
      then have absent: "assoc_find eq (tree_pairs t) key = None"
        using False None by (simp add: tree_find [OF ok] node_pairs_def chain_put_find)
      have "tree_ok hash eq (t\<lparr>mt_root := plug (Node c l ?d r) path, mt_size := mt_size t + 1\<rparr>) \<and>
          ?put key (tree_pairs t) (tree_pairs (t\<lparr>mt_root := plug (Node c l ?d r) path, mt_size := mt_size t + 1\<rparr>))"
      proof (rule tree_node_ok [OF ok loc _ _ refl])
        show "\<forall>p \<in> set (node_pairs ?d). hash (fst p) = tn_hash d" using hashes h by (auto simp: node_pairs_def)
        show "keys_distinct eq (us @ node_pairs ?d @ vs) \<and> ?put key (us @ node_pairs d @ vs) (us @ node_pairs ?d @ vs)"
          if "tree_pairs t = us @ node_pairs d @ vs" "keys_distinct eq (us @ node_pairs d @ vs)" for us vs
          using pairs_add [of "us @ [(tn_key d, tn_val d)]" "tn_overflow d @ vs" key v] that absent
          by (simp add: node_pairs_def)
      qed (simp_all add: node_pairs_def)
      with False None loc dr absent ok show ?thesis by (cases al) (auto simp: tree_set_def)
    qed
  qed
qed

text \<open>A key with a new hash.\<close>

lemma tree_set_new:
  assumes ok: "tree_ok hash eq t" and loc: "locate (hash key) (mt_root t) [] = (NULL, path)"
  shows "\<exists>e t' m'. tree_set hash eq m key v t = Some (e, t', m') \<and> tree_ok hash eq t' \<and>
    (if e = xErrno_Ok then \<exists>k0. eq k0 key \<and> mset (tree_pairs t') = add_mset (k0, v) (mset (drop_key eq key (tree_pairs t)))
     else t' = t)"
proof -
  obtain al m' where dr: "draw m = (al, m')" by fastforce
  define d where "d = \<lparr>tn_hash = hash key, tn_key = key, tn_val = v, tn_overflow = []\<rparr>"
  note l = located [OF ok loc]
  have "around path (bheight (Node RB_RED NULL d NULL))" using l(2) by simp
  from insert_fixup_ok [OF _ _ this] obtain root where fx: "insert_fixup (Node RB_RED NULL d NULL) path = Some root"
    "red_black root" by auto
  let ?t = "t\<lparr>mt_root := root, mt_size := mt_size t + 1\<rparr>"
  have in_root: "inorder root = before path @ d # behind path"
    using inorder_insert_fixup [OF fx(1)] by (simp add: inorder_plug)
  have nodes: "nodes_ok hash eq (before path @ behind path)" using ok l(1) by (simp add: tree_ok_def)
  then have sorted: "sorted_wrt (\<lambda>d e. tn_hash d < tn_hash e) (before path @ behind path)" by (simp add: nodes_ok_def)
  have gap: "\<forall>e \<in> set (before path). tn_hash e < hash key" "\<forall>e \<in> set (behind path). hash key < tn_hash e"
    using locate_gap [OF loc] sorted l(1) by simp_all
  have "find_node (hash key) (mt_root t) = None" by (simp add: find_locate [of _ _ "[]"] loc)
  then have absent: "assoc_find eq (tree_pairs t) key = None" by (simp add: tree_find [OF ok])
  define us where "us = concat (map node_pairs (before path))"
  define vs where "vs = concat (map node_pairs (behind path))"
  have old: "tree_pairs t = us @ vs" by (simp add: l(1) us_def vs_def)
  have new: "tree_pairs ?t = us @ (key, v) # vs" by (simp add: in_root us_def vs_def d_def node_pairs_def)
  have "keys_distinct eq (us @ vs)" using ok unfolding tree_ok_def nodes_ok_def old by blast
  note add = pairs_add [OF this absent [unfolded old], of v]
  have "sorted_wrt (\<lambda>d e. tn_hash d < tn_hash e) (before path @ d # behind path)"
    using sorted gap by (auto simp: sorted_wrt_append d_def)
  moreover have "\<forall>e \<in> set (before path @ d # behind path). \<forall>p \<in> set (node_pairs e). hash (fst p) = tn_hash e"
    using nodes by (auto simp: nodes_ok_def d_def node_pairs_def)
  moreover have "keys_distinct eq (concat (map node_pairs (inorder root)))" using add(1) new by simp
  ultimately have "nodes_ok hash eq (inorder root)" unfolding in_root nodes_ok_def by simp
  moreover have "mt_size t = length (us @ vs)" using ok unfolding tree_ok_def old by blast
  ultimately have ok': "tree_ok hash eq ?t" using fx(2) new by (simp add: tree_ok_def)
  have "mset (tree_pairs ?t) = add_mset (key, v) (mset (drop_key eq key (tree_pairs t)))"
    unfolding new old by (rule add(2))
  then have ps: "\<exists>k0. eq k0 key \<and> mset (tree_pairs ?t) = add_mset (k0, v) (mset (drop_key eq key (tree_pairs t)))"
    using eq_refl by blast
  have "tree_set hash eq m key v t = Some (if al then (xErrno_Ok, ?t, m') else (xErrno_NoMemory, t, m'))"
    using dr fx(1) by (simp add: tree_set_def loc d_def)
  then show ?thesis
  proof (cases al)
    case True
    then show ?thesis using \<open>tree_set hash eq m key v t = _\<close> ok' ps
      by (intro exI [of _ xErrno_Ok] exI [of _ ?t] exI [of _ m']) simp
  next
    case False
    then show ?thesis using \<open>tree_set hash eq m key v t = _\<close> ok by simp
  qed
qed

lemma tree_set_ok:
  assumes "tree_ok hash eq t"
  shows "\<exists>e t' m'. tree_set hash eq m key v t = Some (e, t', m') \<and> tree_ok hash eq t' \<and>
    (if e = xErrno_Ok then \<exists>k0. eq k0 key \<and> mset (tree_pairs t') = add_mset (k0, v) (mset (drop_key eq key (tree_pairs t)))
     else mset (tree_pairs t') = mset (tree_pairs t))"
proof -
  obtain u path where loc: "locate (hash key) (mt_root t) [] = (u, path)" by fastforce
  have "\<exists>e t' m'. tree_set hash eq m key v t = Some (e, t', m') \<and> tree_ok hash eq t' \<and>
    (if e = xErrno_Ok then \<exists>k0. eq k0 key \<and> mset (tree_pairs t') = add_mset (k0, v) (mset (drop_key eq key (tree_pairs t)))
     else t' = t)"
    using tree_set_found [OF assms] tree_set_new [OF assms] loc by (cases u) blast+
  then show ?thesis by (metis (full_types))
qed

lemma tree_get_ok: "tree_ok hash eq t \<Longrightarrow> tree_get hash eq key t = value_of (assoc_find eq (tree_pairs t) key)"
  by (simp add: tree_find tree_get_def node_pairs_def split: option.split)

text \<open>Deleting from a chain, promoting its head, or unlinking the node.\<close>

lemma tree_del_unlink:
  assumes ok: "tree_ok hash eq t" and loc: "locate (hash key) (mt_root t) [] = (Node c l d r, path)"
    and k: "eq (tn_key d) key" and o: "tn_overflow d = []"
  shows "\<exists>t'. tree_del hash eq key t = Some (tn_val d, t') \<and> tree_ok hash eq t' \<and>
    mset (tree_pairs t') = mset (drop_key eq key (tree_pairs t))"
proof -
  note lo = located [OF ok loc]
  obtain y_orig x xpath where un: "unlink c l r path = (y_orig, x, xpath)" by (metis prod_cases3)
  have x: "balanced x" "around xpath (if y_orig = RB_BLACK then Suc (bheight x) else bheight x)"
    "y_orig = RB_RED \<Longrightarrow> color_of x = RB_BLACK \<and> top_black xpath \<and> xpath \<noteq> []"
    using unlink_ok [OF un, of d] lo(2-5) by auto
  obtain root where root: "(if y_orig = RB_BLACK then delete_fixup x xpath else Some (plug x xpath)) = Some root"
    "red_black root" "inorder root = before path @ inorder l @ inorder r @ behind path"
  proof (cases y_orig)
    case RB_BLACK
    with delete_fixup_ok [of x xpath] x(1,2) obtain root where "delete_fixup x xpath = Some root" "red_black root" by auto
    moreover from this have "inorder root = before path @ inorder l @ inorder r @ behind path"
      using inorder_delete_fixup [of x xpath root] inorder_unlink [OF un] by (simp add: inorder_plug)
    ultimately show thesis using that RB_BLACK by simp
  next
    case RB_RED
    then have "red_black (plug x xpath)"
      using balanced_plug [of xpath "bheight x" x] x by (simp add: red_black_def)
    moreover have "inorder (plug x xpath) = before path @ inorder l @ inorder r @ behind path"
      using inorder_unlink [OF un] by (simp add: inorder_plug)
    ultimately show thesis using that RB_RED by simp
  qed
  let ?t = "t\<lparr>mt_root := root, mt_size := mt_size t - 1\<rparr>"
  define us where "us = concat (map node_pairs (before path @ inorder l))"
  define vs where "vs = concat (map node_pairs (inorder r @ behind path))"
  have old: "tree_pairs t = us @ (tn_key d, tn_val d) # vs"
    using node_pairs_of [OF ok loc] by (simp add: us_def vs_def node_pairs_def o)
  have new: "tree_pairs ?t = us @ vs" by (simp add: root(3) us_def vs_def)
  have "keys_distinct eq (us @ (tn_key d, tn_val d) # vs)" using ok unfolding tree_ok_def nodes_ok_def old by blast
  note del = pairs_del [OF this k]
  have "nodes_ok hash eq (inorder (mt_root t))" using ok by (simp add: tree_ok_def)
  then have "nodes_ok hash eq (inorder root)"
    using del(1) new unfolding lo(1) by (auto simp: nodes_ok_def root(3) sorted_wrt_append)
  moreover have "mt_size t = length (us @ (tn_key d, tn_val d) # vs)" using ok unfolding tree_ok_def old by blast
  ultimately have "tree_ok hash eq ?t" using root(2) new by (simp add: tree_ok_def)
  moreover have "mset (tree_pairs ?t) = mset (drop_key eq key (tree_pairs t))" unfolding new old by (rule del(2))
  moreover have "tree_del hash eq key t = Some (tn_val d, ?t)" using root(1) by (simp add: tree_del_def loc k o un)
  ultimately show ?thesis by blast
qed

lemma tree_del_ok:
  assumes ok: "tree_ok hash eq t"
  shows "\<exists>r t'. tree_del hash eq key t = Some (r, t') \<and> tree_ok hash eq t' \<and>
    r = value_of (assoc_find eq (tree_pairs t) key) \<and> mset (tree_pairs t') = mset (drop_key eq key (tree_pairs t))"
proof -
  obtain u path where loc0: "locate (hash key) (mt_root t) [] = (u, path)" by fastforce
  show ?thesis
  proof (cases u)
    case NULL
    then have "assoc_find eq (tree_pairs t) key = None"
      by (simp add: tree_find [OF ok] find_locate [of _ _ "[]"] loc0)
    with NULL loc0 ok show ?thesis by (simp add: tree_del_def drop_key_absent)
  next
    case (Node c l d r)
    note loc = loc0 [unfolded Node]
    have find: "assoc_find eq (tree_pairs t) key = assoc_find eq (node_pairs d) key"
      by (simp add: tree_find [OF ok] find_locate [of _ _ "[]"] loc)
    note hashes = node_hash [OF ok loc, unfolded node_pairs_def]
    let ?gone = "\<lambda>ps qs. mset qs = mset (drop_key eq key ps)"
    show ?thesis
    proof (cases "eq (tn_key d) key")
      case False
      show ?thesis
      proof (cases "chain_del eq key (tn_overflow d)")
        case None
        with False find have "assoc_find eq (tree_pairs t) key = None" by (simp add: node_pairs_def chain_del_None)
        with None False loc ok show ?thesis by (simp add: tree_del_def drop_key_absent)
      next
        case (Some vo)
        obtain v o' where vo: "vo = (v, o')" by fastforce
        from chain_del_split [OF Some [unfolded vo]] obtain as k bs where f: "assoc_find eq (tn_overflow d) key = Some v"
          and o1: "tn_overflow d = as @ (k, v) # bs" and k: "eq k key" and o2: "o' = as @ bs" by blast
        let ?d = "d\<lparr>tn_overflow := o'\<rparr>"
        have "mt_size t = length (tree_pairs t)" using ok by (simp add: tree_ok_def)
        then have pos: "0 < mt_size t" using node_pairs_of [OF ok loc] by (simp add: node_pairs_def)
        have "tree_ok hash eq (t\<lparr>mt_root := plug (Node c l ?d r) path, mt_size := mt_size t - 1\<rparr>) \<and>
            ?gone (tree_pairs t) (tree_pairs (t\<lparr>mt_root := plug (Node c l ?d r) path, mt_size := mt_size t - 1\<rparr>))"
        proof (rule tree_node_ok [OF ok loc _ _ refl])
          show "\<forall>p \<in> set (node_pairs ?d). hash (fst p) = tn_hash d" using hashes by (auto simp: node_pairs_def o1 o2)
          show "keys_distinct eq (us @ node_pairs ?d @ vs) \<and> ?gone (us @ node_pairs d @ vs) (us @ node_pairs ?d @ vs)"
            if "tree_pairs t = us @ node_pairs d @ vs" "keys_distinct eq (us @ node_pairs d @ vs)" for us vs
            using pairs_del [of "us @ (tn_key d, tn_val d) # as" k v "bs @ vs" key] that k by (simp add: node_pairs_def o1 o2)
        qed (use pos in \<open>simp_all add: node_pairs_def o1 o2\<close>)
        with False Some vo loc f find show ?thesis by (simp add: tree_del_def node_pairs_def)
      qed
    next
      case True
      show ?thesis
      proof (cases "tn_overflow d")
        case Nil
        with tree_del_unlink [OF ok loc True Nil] find True show ?thesis by (simp add: node_pairs_def)
      next
        case (Cons kv o')
        obtain k v where kv: "kv = (k, v)" by fastforce
        let ?d = "d\<lparr>tn_key := k, tn_val := v, tn_overflow := o'\<rparr>"
        have "mt_size t = length (tree_pairs t)" using ok by (simp add: tree_ok_def)
        then have pos: "0 < mt_size t" using node_pairs_of [OF ok loc] by (simp add: node_pairs_def)
        have "tree_ok hash eq (t\<lparr>mt_root := plug (Node c l ?d r) path, mt_size := mt_size t - 1\<rparr>) \<and>
            ?gone (tree_pairs t) (tree_pairs (t\<lparr>mt_root := plug (Node c l ?d r) path, mt_size := mt_size t - 1\<rparr>))"
        proof (rule tree_node_ok [OF ok loc _ _ refl])
          show "\<forall>p \<in> set (node_pairs ?d). hash (fst p) = tn_hash d" using hashes by (auto simp: node_pairs_def Cons kv)
          show "keys_distinct eq (us @ node_pairs ?d @ vs) \<and> ?gone (us @ node_pairs d @ vs) (us @ node_pairs ?d @ vs)"
            if "tree_pairs t = us @ node_pairs d @ vs" "keys_distinct eq (us @ node_pairs d @ vs)" for us vs
            using pairs_del [of us "tn_key d" "tn_val d" "tn_overflow d @ vs" key] that True by (simp add: node_pairs_def Cons kv)
        qed (use pos in \<open>simp_all add: node_pairs_def Cons kv\<close>)
        with True Cons kv loc find show ?thesis by (simp add: tree_del_def node_pairs_def)
      qed
    qed
  qed
qed

lemma tree_ok_create: "xMapTreeCreate m = (Some t, m') \<Longrightarrow> tree_ok hash eq t \<and> tree_pairs t = [] \<and> tree_len t = 0"
  by (auto simp: xMapTreeCreate_def tree_ok_def red_black_def nodes_ok_def keys_distinct_def tree_len_def Let_def
      split: prod.splits if_splits)

end

sublocale keyed \<subseteq> tree_map: map_backend hash eq "tree_ok hash eq" tree_pairs
    "tree_set hash eq" "tree_get hash eq" "tree_del hash eq" tree_len
    "\<lambda>t. tree_iterate collect_pairs t []"
proof
  fix t m key v
  assume "tree_ok hash eq t"
  then show "\<exists>e t' m'. tree_set hash eq m key v t = Some (e, t', m') \<and> tree_ok hash eq t' \<and>
      (if e = xErrno_Ok then \<exists>k0. eq k0 key \<and> mset (tree_pairs t') = add_mset (k0, v) (mset (drop_key eq key (tree_pairs t)))
       else mset (tree_pairs t') = mset (tree_pairs t))"
    by (rule tree_set_ok)
next
  fix t key
  assume "tree_ok hash eq t"
  then show "\<exists>r t'. tree_del hash eq key t = Some (r, t') \<and> tree_ok hash eq t' \<and>
      r = value_of (assoc_find eq (tree_pairs t) key) \<and> mset (tree_pairs t') = mset (drop_key eq key (tree_pairs t))"
    by (rule tree_del_ok)
qed (simp_all add: tree_get_ok tree_iterate_def iterate_pairs, simp_all add: tree_ok_def nodes_ok_def tree_len_def)

section \<open>Depth\<close>

fun depth :: "'d xTreeNode \<Rightarrow> nat" where
  "depth NULL = 0"
| "depth (Node c l d r) = Suc (max (depth l) (depth r))"

lemma depth_bheight: "balanced t \<Longrightarrow> depth t \<le> 2 * bheight t + (if color_of t = RB_RED then 1 else 0)"
proof (induction t)
  case (Node c l d r)
  then show ?case by (cases c) (auto split: if_splits)
qed simp

lemma bheight_nodes: "balanced t \<Longrightarrow> 2 ^ bheight t \<le> length (inorder t) + 1"
proof (induction t)
  case (Node c l d r)
  then have "2 ^ bheight l \<le> length (inorder l) + 1" "2 ^ bheight r \<le> length (inorder r) + 1" "bheight l = bheight r"
    by simp_all
  then show ?case by (cases c) simp_all
qed simp

lemma nodes_pairs: "length ds \<le> length (concat (map node_pairs ds))"
  by (induction ds) (simp_all add: node_pairs_def)

lemma tree_depth: "tree_ok hash eq t \<Longrightarrow> 2 ^ depth (mt_root t) \<le> (mt_size t + 1) ^ 2"
proof -
  assume ok: "tree_ok hash eq t"
  let ?b = "bheight (mt_root t)"
  have "depth (mt_root t) \<le> 2 * ?b"
    using ok depth_bheight [of "mt_root t"] by (simp add: tree_ok_def red_black_def)
  then have "(2 :: nat) ^ depth (mt_root t) \<le> 2 ^ (2 * ?b)" by (simp add: power_increasing)
  also have "\<dots> = (2 ^ ?b) ^ 2" by (simp add: power_mult mult.commute)
  also have "2 ^ ?b \<le> mt_size t + 1"
    using ok bheight_nodes [of "mt_root t"] nodes_pairs [of "inorder (mt_root t)"]
    by (simp add: tree_ok_def red_black_def)
  then have "((2 :: nat) ^ ?b) ^ 2 \<le> (mt_size t + 1) ^ 2" by (rule power_mono) simp
  finally show ?thesis .
qed

section \<open>Promises of the tree\<close>

text \<open>
  C22. The red-black backend stays a red-black tree ordered by hash: from a tree that is one, a set
  and a deletion read no NULL pointer, return, and leave one; and such a tree with \<open>n\<close> keys is at most
  \<open>2 * log2 (n + 1)\<close> deep.
\<close>

theorem tree_balanced:
  assumes "keyed hash eq" and "tree_ok hash eq t"
  shows "2 ^ depth (mt_root t) \<le> (mt_size t + 1) ^ 2 \<and>
    (\<exists>e t' m'. tree_set hash eq m key v t = Some (e, t', m') \<and> tree_ok hash eq t') \<and>
    (\<exists>r t'. tree_del hash eq key t = Some (r, t') \<and> tree_ok hash eq t')"
  using tree_depth [OF assms(2)] keyed.tree_set_ok [OF assms, of m key v] keyed.tree_del_ok [OF assms, of key] by blast

definition ex_node :: "64 word \<Rightarrow> (64 word, bool) tree_data" where
  "ex_node k = \<lparr>tn_hash = k, tn_key = k, tn_val = Some True, tn_overflow = []\<rparr>"

definition ex_tree :: "(64 word, bool) xMapTree" where
  "ex_tree = \<lparr>mt_root = Node RB_BLACK (Node RB_RED NULL (ex_node 1) NULL) (ex_node 2) (Node RB_RED NULL (ex_node 3) NULL),
     mt_size = 3\<rparr>"

theorem tree_balanced_witness:
  "2 ^ depth (mt_root ex_tree) \<le> (mt_size ex_tree + 1) ^ 2 \<and>
   map_option fst (tree_del (\<lambda>k. k) (=) 2 ex_tree) = Some (Some True)"
proof
  have k: "keyed (\<lambda>k. k :: 64 word) (=)" by unfold_locales simp_all
  have "tree_ok (\<lambda>k. k) (=) ex_tree"
    by (simp add: ex_tree_def ex_node_def tree_ok_def nodes_ok_def red_black_def node_pairs_def keys_distinct_def)
  from tree_balanced [OF k this] show "2 ^ depth (mt_root ex_tree) \<le> (mt_size ex_tree + 1) ^ 2" by blast
  show "map_option fst (tree_del (\<lambda>k. k) (=) 2 ex_tree) = Some (Some True)" by code_simp
qed

end
