(* ===== verification/Maps.thy ===== *)
theory Maps
  imports MapHash MapFlat MapTree
begin

text \<open>
  \<^verbatim>\<open>libx/x/base/map.c\<close>: the map type in front of the three backends, and what it promises. The key
  functions are stored in a map when it is created; here they are arguments of the operations.
\<close>

section \<open>The front\<close>

datatype xMapType = xMapType_Hash | xMapType_Flat | xMapType_Tree

datatype ('k, 'v) xMap = Map_hash "('k, 'v) xMapHash" | Map_flat "('k, 'v) xMapFlat" | Map_tree "('k, 'v) xMapTree"

definition MAP_DEFAULT_CAP :: nat where
  "MAP_DEFAULT_CAP = 16"

definition xMapCreate :: "allocs \<Rightarrow> xMapType \<Rightarrow> nat \<Rightarrow> ('k, 'v) xMap option \<times> allocs" where
  "xMapCreate m type cap =
     (let cap = (if cap = 0 then MAP_DEFAULT_CAP else cap)
      in case type of
           xMapType_Hash \<Rightarrow> (case xMapHashCreate m cap of (s, m') \<Rightarrow> (map_option Map_hash s, m'))
         | xMapType_Flat \<Rightarrow> (case xMapFlatCreate m cap of (s, m') \<Rightarrow> (map_option Map_flat s, m'))
         | xMapType_Tree \<Rightarrow> (case xMapTreeCreate m of (s, m') \<Rightarrow> (map_option Map_tree s, m')))"

fun xMapSet ::
  "('k \<Rightarrow> 64 word) \<Rightarrow> ('k \<Rightarrow> 'k \<Rightarrow> bool) \<Rightarrow> allocs \<Rightarrow> 'k \<Rightarrow> 'v option \<Rightarrow> ('k, 'v) xMap \<Rightarrow>
   (xErrno \<times> ('k, 'v) xMap \<times> allocs) option" where
  "xMapSet hash eq m key val (Map_hash h) = (case hash_set hash eq m key val h of (e, h', m') \<Rightarrow> Some (e, Map_hash h', m'))"
| "xMapSet hash eq m key val (Map_flat f) = map_option (\<lambda>(e, f', m'). (e, Map_flat f', m')) (flat_set hash eq m key val f)"
| "xMapSet hash eq m key val (Map_tree t) = map_option (\<lambda>(e, t', m'). (e, Map_tree t', m')) (tree_set hash eq m key val t)"

fun xMapGet :: "('k \<Rightarrow> 64 word) \<Rightarrow> ('k \<Rightarrow> 'k \<Rightarrow> bool) \<Rightarrow> 'k \<Rightarrow> ('k, 'v) xMap \<Rightarrow> 'v option" where
  "xMapGet hash eq key (Map_hash h) = hash_get hash eq key h"
| "xMapGet hash eq key (Map_flat f) = flat_get hash eq key f"
| "xMapGet hash eq key (Map_tree t) = tree_get hash eq key t"

fun xMapDel :: "('k \<Rightarrow> 64 word) \<Rightarrow> ('k \<Rightarrow> 'k \<Rightarrow> bool) \<Rightarrow> 'k \<Rightarrow> ('k, 'v) xMap \<Rightarrow> ('v option \<times> ('k, 'v) xMap) option" where
  "xMapDel hash eq key (Map_hash h) = (case hash_del hash eq key h of (r, h') \<Rightarrow> Some (r, Map_hash h'))"
| "xMapDel hash eq key (Map_flat f) = (case flat_del hash eq key f of (r, f') \<Rightarrow> Some (r, Map_flat f'))"
| "xMapDel hash eq key (Map_tree t) = map_option (\<lambda>(r, t'). (r, Map_tree t')) (tree_del hash eq key t)"

fun xMapLen :: "('k, 'v) xMap \<Rightarrow> nat" where
  "xMapLen (Map_hash h) = hash_len h"
| "xMapLen (Map_flat f) = flat_len f"
| "xMapLen (Map_tree t) = tree_len t"

fun xMapIterate :: "('k \<times> 'v option \<Rightarrow> 'a \<Rightarrow> bool \<times> 'a) \<Rightarrow> ('k, 'v) xMap \<Rightarrow> 'a \<Rightarrow> 'a" where
  "xMapIterate fn (Map_hash h) a = hash_iterate fn h a"
| "xMapIterate fn (Map_flat f) a = flat_iterate fn f a"
| "xMapIterate fn (Map_tree t) a = tree_iterate fn t a"

section \<open>A backend like the others\<close>

fun map_ok :: "('k \<Rightarrow> 64 word) \<Rightarrow> ('k \<Rightarrow> 'k \<Rightarrow> bool) \<Rightarrow> ('k, 'v) xMap \<Rightarrow> bool" where
  "map_ok hash eq (Map_hash h) \<longleftrightarrow> hash_ok hash eq h"
| "map_ok hash eq (Map_flat f) \<longleftrightarrow> flat_ok hash eq f"
| "map_ok hash eq (Map_tree t) \<longleftrightarrow> tree_ok hash eq t"

fun map_pairs :: "('k, 'v) xMap \<Rightarrow> ('k \<times> 'v option) list" where
  "map_pairs (Map_hash h) = hash_pairs h"
| "map_pairs (Map_flat f) = flat_pairs f"
| "map_pairs (Map_tree t) = tree_pairs t"

sublocale keyed \<subseteq> any_map: map_backend hash eq "map_ok hash eq" map_pairs
    "xMapSet hash eq" "xMapGet hash eq" "xMapDel hash eq" xMapLen
    "\<lambda>s. xMapIterate collect_pairs s []"
proof
  fix s assume "map_ok hash eq s"
  then show "keys_distinct eq (map_pairs s)" "xMapLen s = length (map_pairs s)"
    "xMapIterate collect_pairs s [] = map_pairs s"
    by (cases s; simp add: hash_map.distinct_law flat_map.distinct_law tree_map.distinct_law
        hash_map.len_law flat_map.len_law tree_map.len_law hash_map.iter_law flat_map.iter_law tree_map.iter_law)+
next
  fix s key assume "map_ok hash eq s"
  then show "xMapGet hash eq key s = value_of (assoc_find eq (map_pairs s) key)"
    by (cases s) (simp_all add: hash_map.get_law flat_map.get_law tree_map.get_law)
next
  fix s m key v assume "map_ok hash eq s"
  then show "\<exists>e s' m'. xMapSet hash eq m key v s = Some (e, s', m') \<and> map_ok hash eq s' \<and>
      (if e = xErrno_Ok then \<exists>k0. eq k0 key \<and> mset (map_pairs s') = add_mset (k0, v) (mset (drop_key eq key (map_pairs s)))
       else mset (map_pairs s') = mset (map_pairs s))"
  proof (cases s)
    case (Map_hash h)
    obtain e h' m' where r: "hash_set hash eq m key v h = (e, h', m')" by (metis prod_cases3)
    then show ?thesis using hash_set_ok [OF _ r] \<open>map_ok hash eq s\<close> by (auto simp: Map_hash)
  next
    case (Map_flat f)
    with \<open>map_ok hash eq s\<close> flat_set_ok [of f m key v] show ?thesis by fastforce
  next
    case (Map_tree t)
    with \<open>map_ok hash eq s\<close> tree_set_ok [of t m key v] show ?thesis by fastforce
  qed
next
  fix s key assume "map_ok hash eq s"
  then show "\<exists>r s'. xMapDel hash eq key s = Some (r, s') \<and> map_ok hash eq s' \<and>
      r = value_of (assoc_find eq (map_pairs s) key) \<and> mset (map_pairs s') = mset (drop_key eq key (map_pairs s))"
  proof (cases s)
    case (Map_hash h)
    obtain r h' where r: "hash_del hash eq key h = (r, h')" by fastforce
    then show ?thesis using hash_del_ok [OF _ r] \<open>map_ok hash eq s\<close> by (simp add: Map_hash)
  next
    case (Map_flat f)
    obtain r f' where r: "flat_del hash eq key f = (r, f')" by fastforce
    then show ?thesis using flat_del_ok [OF _ r] \<open>map_ok hash eq s\<close> by (simp add: Map_flat)
  next
    case (Map_tree t)
    with \<open>map_ok hash eq s\<close> tree_del_ok [of t key] show ?thesis by fastforce
  qed
qed


text \<open>A new map is empty.\<close>

context keyed
begin

lemma map_ok_create:
  assumes "xMapCreate m type cap = (Some s, m')" and "cap < 2 ^ 59" and "type = xMapType_Flat \<Longrightarrow> cap = 0 \<or> pow2 cap"
  shows "map_ok hash eq s \<and> map_pairs s = [] \<and> xMapLen s = 0"
proof -
  define n where "n = (if cap = 0 then MAP_DEFAULT_CAP else cap)"
  have n: "0 < n" "n < 2 ^ 59" using assms(2) by (simp_all add: n_def MAP_DEFAULT_CAP_def)
  have pow: "pow2 n" if "type = xMapType_Flat"
  proof -
    have "pow2 16" unfolding pow2_def by (intro exI [of _ 4]) simp
    then show ?thesis using assms(3) [OF that] by (auto simp: n_def MAP_DEFAULT_CAP_def)
  qed
  show ?thesis
  proof (cases type)
    case xMapType_Hash
    then obtain h where "xMapHashCreate m n = (Some h, m')" "s = Map_hash h"
      using assms(1) by (auto simp: xMapCreate_def n_def [symmetric] Let_def split: prod.splits)
    with hash_ok_create n show ?thesis by fastforce
  next
    case xMapType_Flat
    then obtain f where "xMapFlatCreate m n = (Some f, m')" "s = Map_flat f"
      using assms(1) by (auto simp: xMapCreate_def n_def [symmetric] Let_def split: prod.splits)
    with flat_ok_create n(2) pow [OF xMapType_Flat] show ?thesis by fastforce
  next
    case xMapType_Tree
    then obtain t where "xMapTreeCreate m = (Some t, m')" "s = Map_tree t"
      using assms(1) by (auto simp: xMapCreate_def Let_def split: prod.splits)
    with tree_ok_create show ?thesis by fastforce
  qed
qed

lemmas maps_run = any_map.run_explained

end

section \<open>Promises of the maps\<close>

text \<open>
  C39. Each of the three backends (chained hash table, open addressing with a capacity that is a power
  of two, red-black tree), created with a capacity below 2^59, from which the size of the allocation
  could wrap, refines a finite map, for every hash function, every pattern of failing
  allocations and every sequence of operations: no operation fails to return or reads through a NULL
  pointer, a set that reports an error changes nothing, a lookup or deletion returns what was set
  last for an equal key, the length counts the keys, and an iteration visits each of them once.
\<close>

theorem maps_explained:
  assumes "keyed hash eq" and "xMapCreate m type cap = (Some s, m')" and "cap < 2 ^ 59"
    and "type = xMapType_Flat \<Longrightarrow> cap = 0 \<or> pow2 cap"
  shows "\<exists>rs. map_run (xMapSet hash eq) (xMapGet hash eq) (xMapDel hash eq) xMapLen (\<lambda>s. xMapIterate collect_pairs s [])
      m1 ops s = Some rs \<and> explained eq (\<lambda>_. None) 0 ops rs"
proof -
  note made = keyed.map_ok_create [OF assms]
  then have "assoc_find eq (map_pairs s) = (\<lambda>_. None)" "xMapLen s = 0" by (simp_all add: fun_eq_iff)
  with keyed.maps_run [OF assms(1), of s m1 ops] made show ?thesis by simp
qed

theorem maps_explained_witness:
  "\<exists>s rs. fst (xMapCreate [] xMapType_Tree 0) = Some s \<and>
     map_run (xMapSet xMapIntHash xMapIntEq) (xMapGet xMapIntHash xMapIntEq) (xMapDel xMapIntHash xMapIntEq) xMapLen
       (\<lambda>s. xMapIterate collect_pairs s []) [] [Op_set 1 (Some True), Op_set 2 None, Op_del 1, Op_len] s = Some rs \<and>
     explained xMapIntEq (\<lambda>_. None) 0 [Op_set 1 (Some True), Op_set 2 None, Op_del 1, Op_len] rs"
proof -
  obtain s m' where s: "xMapCreate [] xMapType_Tree 0 = (Some (s :: (64 word, bool) xMap), m')"
    by (simp add: xMapCreate_def xMapTreeCreate_def)
  have "(0 :: nat) < 2 ^ 59" "xMapType_Tree = xMapType_Flat \<Longrightarrow> (0 :: nat) = 0 \<or> pow2 0" by simp_all
  from maps_explained [OF int_keys.keyed_axioms s this] s show ?thesis by force
qed

text \<open>
  A table of the open-addressing backend refuses a new key as out of memory although no
  allocation failed and there is room, whenever probing for the key meets no empty slot. Two ways
  lead there: keys set and deleted again until every slot holds a tombstone, since a resize is
  triggered by entries only and a tombstone is taken only on the way to an empty slot; and a capacity that
  is no power of two, of which the mask reaches only a part.
\<close>

theorem flat_refuses:
  assumes "mf_size f * 10 + 10 \<le> mf_cap f * 7"
    and "\<forall>c \<in> set (probe (slot_idx hash f key) (mf_cap f)). mf_slots f ! c \<noteq> SLOT_EMPTY"
    and "assoc_find eq (flat_pairs f) key = None"
    and "\<forall>c \<in> set (probe (slot_idx hash f key) (mf_cap f)). c < length (mf_slots f)"
  shows "xMapSet hash eq m key v (Map_flat f) = Some (xErrno_NoMemory, Map_flat f, m)"
proof -
  have "mf_slots f ! c \<noteq> SLOT_OCCUPIED k w \<or> \<not> eq k key" if "c < length (mf_slots f)" for c k w
  proof (rule ccontr)
    assume "\<not> (mf_slots f ! c \<noteq> SLOT_OCCUPIED k w \<or> \<not> eq k key)"
    with nth_mem [OF that] have "SLOT_OCCUPIED k w \<in> set (mf_slots f)" "eq k key" by auto
    then have "(k, w) \<in> set (flat_pairs f)" by force
    with \<open>eq k key\<close> assms(3) show False unfolding assoc_find_None by fastforce
  qed
  then have "set_loop eq key v f t cs = (xErrno_NoMemory, f)"
    if "\<forall>c \<in> set cs. mf_slots f ! c \<noteq> SLOT_EMPTY \<and> c < length (mf_slots f)" for t cs
    using that by (induction cs arbitrary: t) (auto split: xMapFlatSlot.split)
  with assms(1,2,4) show ?thesis by (simp add: flat_set_def)
qed

text \<open>Two keys set and deleted in a table of capacity two, and four keys in one of capacity ten.\<close>

definition ex_flat :: "nat \<Rightarrow> 64 word list \<Rightarrow> (64 word, bool) xMapFlat" where
  "ex_flat cap ks = fold (\<lambda>k f. fst (snd (the (flat_set (\<lambda>k. k) (=) [] k (Some True) f)))) ks
     (the (fst (xMapFlatCreate [] cap)))"

theorem flat_refuses_witness:
  "xMapSet (\<lambda>k. k) (=) [] 3 None (Map_flat (snd (flat_del (\<lambda>k. k) (=) 1 (fst (snd (the (flat_set (\<lambda>k. k) (=) [] 1 None
      (snd (flat_del (\<lambda>k. k) (=) 0 (ex_flat 2 [0]))))))))))
     = Some (xErrno_NoMemory, Map_flat \<lparr>mf_slots = [SLOT_TOMBSTONE, SLOT_TOMBSTONE], mf_size = 0, mf_cap = 2\<rparr>, [])"
proof -
  have s: "snd (flat_del (\<lambda>k. k) (=) 1 (fst (snd (the (flat_set (\<lambda>k. k) (=) [] 1 None
      (snd (flat_del (\<lambda>k. k) (=) 0 (ex_flat 2 [0])))))))) =
    \<lparr>mf_slots = [SLOT_TOMBSTONE, SLOT_TOMBSTONE], mf_size = 0, mf_cap = 2\<rparr>"
    by code_simp
  have "probe (slot_idx (\<lambda>k. k) \<lparr>mf_slots = [SLOT_TOMBSTONE, SLOT_TOMBSTONE :: (64 word, bool) xMapFlatSlot],
      mf_size = 0, mf_cap = 2\<rparr> 3) 2 = [1, 0]"
    by code_simp
  then show ?thesis unfolding s by (intro flat_refuses) simp_all
qed

text \<open>
  A capacity that is no power of two makes the resize hang: five keys with the hash zero in a table of
  capacity seven. The resize gives it 14 slots, and the mask 13 leads the search from slot 0 to slot 1 and back.
\<close>

definition ex_seven :: "(nat, bool) xMapFlat" where
  "ex_seven = fold (\<lambda>k f. fst (snd (the (flat_set (\<lambda>_. 0) (=) [] k (Some True) f)))) [1, 2, 3, 4] (the (fst (xMapFlatCreate [] 7)))"

lemma ex_seven_state: "ex_seven = \<lparr>mf_slots = [SLOT_OCCUPIED 1 (Some True), SLOT_EMPTY, SLOT_OCCUPIED 2 (Some True), SLOT_EMPTY,
    SLOT_OCCUPIED 3 (Some True), SLOT_EMPTY, SLOT_OCCUPIED 4 (Some True)], mf_size = 4, mf_cap = 7\<rparr>"
  by code_simp

theorem flat_seven_hangs: "xMapSet (\<lambda>_. 0) (=) [] 5 v (Map_flat ex_seven) = None"
proof -
  define e :: "(nat, bool) xMapFlatSlot list" where "e = replicate 14 SLOT_EMPTY"
  let ?e1 = "e[0 := SLOT_OCCUPIED 1 (Some True)]"
  let ?e2 = "?e1[1 := SLOT_OCCUPIED 2 (Some True)]"
  have three: "find_free ?e2 14 0 = None"
  proof (rule find_free_stuck [of "{0, 1}"])
    fix i :: nat assume "i \<in> {0, 1}"
    moreover have "Suc (Suc 0) AND 13 = 0" by code_simp
    ultimately show "occupied (?e2 ! i) \<and> (i + 1) AND (14 - 1) \<in> {0, 1}" by (auto simp: e_def)
  qed simp
  have one: "find_free e 14 0 = Some 0"
    by (subst find_free.simps) (simp add: e_def)
  have two: "find_free ?e1 14 0 = Some 1"
    by (subst find_free.simps, subst find_free.simps) (simp add: e_def)
  have "rehash (\<lambda>_. 0) 14 (mf_slots ex_seven) e = None"
    by (simp add: ex_seven_state table_idx_def one two three del: One_nat_def)
  then show ?thesis
    by (simp add: flat_set_def flat_resize_def calloc_def SIZE_LIM_def ex_seven_state e_def)
qed

text \<open>A capacity of 2^61 wraps the size of the allocation: no slot and no bucket belongs to the table.\<close>

theorem create_wraps:
  "xMapFlatCreate [] (2 ^ 61) = (Some \<lparr>mf_slots = [], mf_size = 0, mf_cap = 2 ^ 61\<rparr>, [])"
  "xMapHashCreate [] (2 ^ 61) = (Some \<lparr>mh_buckets = [], mh_size = 0, mh_cap = 2 ^ 61\<rparr>, [])"
  by (simp_all add: xMapFlatCreate_def flat_bytes_def xMapHashCreate_def hash_bytes_def size_add_def size_mul_def SIZE_LIM_def)

end
