(* ===== verification/Digest.thy ===== *)
theory Digest
  imports Prelude
begin

text \<open>
  What the three built-in hash functions of \<^verbatim>\<open>libx/x/crypto\<close> (\<^verbatim>\<open>md5.c\<close>,
  \<^verbatim>\<open>sha1_builtin.c\<close>, \<^verbatim>\<open>sha256_builtin.c\<close>) have in common. The files repeat the same
  buffering code around their own compression function: a context of chaining words, a
  counter and a 64-byte buffer, an update that completes the pending block, compresses the
  full blocks straight from the input and keeps the rest, and a final step that pads. The
  model has this code once, with the compression function as an argument.

  The locale \<open>block_hash\<close> states what that code needs of an algorithm; inside it a context is
  related to the message it has absorbed, however that message was cut into pieces, and the
  final step is shown to compress the padded message of the standards.
\<close>

unbundle bit_operations_syntax

type_synonym octets = "8 word list"

text \<open>\<^verbatim>\<open>xMd5Builtin_\<close>, \<^verbatim>\<open>xSha1Builtin_\<close>, \<^verbatim>\<open>xSha256Builtin_\<close>: they differ in the length of the state.\<close>

record digest_ctx =
  h_state :: "32 word list"
  h_count :: "64 word"
  h_buffer :: octets

text \<open>\<^verbatim>\<open>memcpy (ys + pos, xs, length xs)\<close>.\<close>

definition store_at :: "nat \<Rightarrow> 'a list \<Rightarrow> 'a list \<Rightarrow> 'a list" where
  "store_at pos xs ys = take pos ys @ xs @ drop (pos + length xs) ys"

section \<open>Update\<close>

text \<open>The loop over the full blocks of the input: the chaining words and what is left.\<close>

function feed_blocks ::
  "('s \<Rightarrow> octets \<Rightarrow> 's) \<Rightarrow> 's \<Rightarrow> octets \<Rightarrow> 's \<times> octets" where
  "feed_blocks tr s d =
     (if 64 \<le> length d then feed_blocks tr (tr s (take 64 d)) (drop 64 d) else (s, d))"
  by pat_completeness auto
termination by (relation "measure (\<lambda>(tr, s, d). length d)") auto

declare feed_blocks.simps [simp del]

text \<open>
  Completing a partial block: \<open>Inl\<close> when the input does not even fill it, \<open>Inr\<close> with the rest
  of the input otherwise.
\<close>

definition fill_partial ::
  "(32 word list \<Rightarrow> octets \<Rightarrow> 32 word list) \<Rightarrow> nat \<Rightarrow> digest_ctx \<Rightarrow> octets
   \<Rightarrow> digest_ctx + digest_ctx \<times> octets" where
  "fill_partial tr used c d =
     (if 0 < used then
        (let space = 64 - used in
         if length d < space then Inl (c\<lparr>h_buffer := store_at used d (h_buffer c)\<rparr>)
         else (let b = store_at used (take space d) (h_buffer c) in
               Inr (c\<lparr>h_buffer := b, h_state := tr (h_state c) b\<rparr>, drop space d)))
      else Inr (c, d))"

definition block_update ::
  "(32 word list \<Rightarrow> octets \<Rightarrow> 32 word list) \<Rightarrow> nat \<Rightarrow> digest_ctx \<Rightarrow> octets \<Rightarrow> digest_ctx" where
  "block_update tr used c d =
     (case fill_partial tr used c d of
        Inl c1 \<Rightarrow> c1
      | Inr (c1, rest) \<Rightarrow>
          (case feed_blocks tr (h_state c1) rest of
             (s, left) \<Rightarrow>
               c1\<lparr>h_state := s,
                  h_buffer := (if 0 < length left then store_at 0 left (h_buffer c1)
                               else h_buffer c1)\<rparr>))"

section \<open>Final\<close>

text \<open>
  Padding: the byte \<open>0x80\<close>, an extra block when the length no longer fits, zeros up to offset
  56, the eight length bytes. The result is the chaining words after the last block.
\<close>

definition block_final ::
  "(32 word list \<Rightarrow> octets \<Rightarrow> 32 word list) \<Rightarrow> nat \<Rightarrow> octets \<Rightarrow> digest_ctx \<Rightarrow> 32 word list" where
  "block_final tr used len c =
     (let b = (h_buffer c)[used := 0x80];
          u = used + 1;
          (s, b, u) = (if 56 < u then
                         (let b1 = store_at u (replicate (64 - u) 0) b
                          in (tr (h_state c) b1, b1, 0))
                       else (h_state c, b, u));
          b = store_at u (replicate (56 - u) 0) b
      in tr s (store_at 56 len b))"

text \<open>The eight bytes of a counter, as \<^verbatim>\<open>md5.c\<close> and as the SHA files store them.\<close>

definition le64 :: "64 word \<Rightarrow> octets" where
  "le64 n = [ucast n, ucast (drop_bit 8 n), ucast (drop_bit 16 n), ucast (drop_bit 24 n),
             ucast (drop_bit 32 n), ucast (drop_bit 40 n), ucast (drop_bit 48 n),
             ucast (drop_bit 56 n)]"

definition be64 :: "64 word \<Rightarrow> octets" where
  "be64 n = [ucast (drop_bit 56 n), ucast (drop_bit 48 n), ucast (drop_bit 40 n),
             ucast (drop_bit 32 n), ucast (drop_bit 24 n), ucast (drop_bit 16 n),
             ucast (drop_bit 8 n), ucast n]"

text \<open>Big-endian words, \<^verbatim>\<open>put_be32\<close> and \<^verbatim>\<open>get_be32\<close> of both SHA files.\<close>

definition put_be32 :: "32 word \<Rightarrow> octets" where
  "put_be32 v = [ucast (drop_bit 24 v), ucast (drop_bit 16 v), ucast (drop_bit 8 v), ucast v]"

definition get_be32 :: "octets \<Rightarrow> nat \<Rightarrow> 32 word" where
  "get_be32 p i = push_bit 24 (ucast (p ! i)) OR push_bit 16 (ucast (p ! (i + 1)))
                  OR push_bit 8 (ucast (p ! (i + 2))) OR ucast (p ! (i + 3))"

text \<open>
  The entry points refuse a null context, input or digest pointer, which are \<open>None\<close> here;
  a final step clears the context, \<open>zero\<close>, and returns the digest.
\<close>

definition hash_update ::
  "(digest_ctx \<Rightarrow> octets \<Rightarrow> digest_ctx) \<Rightarrow> digest_ctx option \<Rightarrow> octets option
   \<Rightarrow> xErrno \<times> digest_ctx option" where
  "hash_update upd ctx data =
     (case (ctx, data) of
        (Some c, Some d) \<Rightarrow> (xErrno_Ok, Some (upd c d))
      | _ \<Rightarrow> (xErrno_InvalidArg, ctx))"

definition hash_final ::
  "(digest_ctx \<Rightarrow> octets) \<Rightarrow> digest_ctx \<Rightarrow> digest_ctx option \<Rightarrow> bool
   \<Rightarrow> xErrno \<times> digest_ctx option \<times> octets option" where
  "hash_final fin zero ctx want =
     (case ctx of
        Some c \<Rightarrow> if want then (xErrno_Ok, Some zero, Some (fin c))
                  else (xErrno_InvalidArg, ctx, None)
      | None \<Rightarrow> (xErrno_InvalidArg, ctx, None))"

section \<open>Blocks of a message\<close>

lemma feed_short: "length d < 64 \<Longrightarrow> feed_blocks tr s d = (s, d)"
  by (subst feed_blocks.simps) simp

lemma feed_block: "length b = 64 \<Longrightarrow> feed_blocks tr s (b @ d) = feed_blocks tr (tr s b) d"
  by (subst feed_blocks.simps) simp

lemma feed_left_short: "length (snd (feed_blocks tr s d)) < 64"
proof (induction tr s d rule: feed_blocks.induct)
  case (1 tr s d)
  then show ?case by (subst feed_blocks.simps) simp
qed

lemma feed_left_length: "length (snd (feed_blocks tr s d)) = length d mod 64"
proof (induction tr s d rule: feed_blocks.induct)
  case (1 tr s d)
  show ?case
  proof (cases "64 \<le> length d")
    case True
    with 1 have "length (snd (feed_blocks tr s d)) = (length d - 64) mod 64"
      by (subst feed_blocks.simps) simp
    with True show ?thesis by (simp add: le_mod_geq)
  qed (simp add: feed_short)
qed

text \<open>Feeding a message in two pieces: the second starts with what the first left over.\<close>

lemma feed_append:
  "feed_blocks tr s (m @ d) =
   (case feed_blocks tr s m of (s1, left) \<Rightarrow> feed_blocks tr s1 (left @ d))"
proof (induction tr s m rule: feed_blocks.induct)
  case (1 tr s m)
  show ?case
  proof (cases "64 \<le> length m")
    case True
    have "feed_blocks tr s (m @ d) = feed_blocks tr (tr s (take 64 m)) (drop 64 m @ d)"
      using True feed_block [of "take 64 m" tr s "drop 64 m @ d"]
      by (simp add: append_assoc [symmetric] del: append_assoc)
    with True 1 show ?thesis by (subst (2) feed_blocks.simps) simp
  qed (simp add: feed_short)
qed

lemma feed_full: "length b = 64 \<Longrightarrow> feed_blocks tr s b = (tr s b, [])"
  using feed_block [of b tr s "[]"] by (simp add: feed_short)

lemma feed_full2:
  "length b = 64 \<Longrightarrow> length b' = 64 \<Longrightarrow> feed_blocks tr s (b @ b') = (tr (tr s b) b', [])"
  by (simp add: feed_block feed_full)

lemma length_store_at: "pos + length xs \<le> length ys \<Longrightarrow> length (store_at pos xs ys) = length ys"
  by (simp add: store_at_def)

lemma take_store_at:
  "pos + length xs \<le> length ys \<Longrightarrow> take (pos + length xs) (store_at pos xs ys) = take pos ys @ xs"
  by (simp add: store_at_def)

lemma store_at_all: "pos + length xs = length ys \<Longrightarrow> store_at pos xs ys = take pos ys @ xs"
  by (simp add: store_at_def)

text \<open>
  The construction of RFC 1321, RFC 3174 and FIPS 180-4, as the standards write it: append the
  bit 1, zeros up to eight bytes short of a block, the length; fold the compression function
  over the 64-byte blocks.
\<close>

function blocks64 :: "octets \<Rightarrow> octets list" where
  "blocks64 d = (if d = [] then [] else take 64 d # blocks64 (drop 64 d))"
  by pat_completeness auto
termination by (relation "measure length") auto

declare blocks64.simps [simp del]

definition pad_message :: "octets \<Rightarrow> octets \<Rightarrow> octets" where
  "pad_message len m = m @ 0x80 # replicate ((119 - length m mod 64) mod 64) 0 @ len"

definition merkle_damgard ::
  "('s \<Rightarrow> octets \<Rightarrow> 's) \<Rightarrow> 's \<Rightarrow> octets \<Rightarrow> octets \<Rightarrow> 's" where
  "merkle_damgard tr iv len m = foldl tr iv (blocks64 (pad_message len m))"

lemma blocks64_Nil [simp]: "blocks64 [] = []"
  by (subst blocks64.simps) simp

lemma feed_blocks64: "64 dvd length d \<Longrightarrow> feed_blocks tr s d = (foldl tr s (blocks64 d), [])"
proof (induction tr s d rule: feed_blocks.induct)
  case (1 tr s d)
  show ?case
  proof (cases "64 \<le> length d")
    case True
    with 1 have "feed_blocks tr (tr s (take 64 d)) (drop 64 d)
        = (foldl tr (tr s (take 64 d)) (blocks64 (drop 64 d)), [])" by simp
    with True show ?thesis by (subst feed_blocks.simps, subst blocks64.simps) auto
  next
    case False
    with 1 have "d = []" by (cases d) (auto dest: dvd_imp_le)
    then show ?thesis by (simp add: feed_short)
  qed
qed

lemma pad_length:
  fixes u :: nat
  shows "55 < u \<Longrightarrow> u < 64 \<Longrightarrow> (119 - u) mod 64 = (63 - u) + 56"
    and "u \<le> 55 \<Longrightarrow> (119 - u) mod 64 = 55 - u"
  by (simp_all add: le_mod_geq)

lemma pad_message_blocks:
  assumes "length len = 8"
  shows "64 dvd length (pad_message len m)"
proof -
  define q r where "q = length m div 64" and "r = length m mod 64"
  have m: "length m = 64 * q + r" and r: "r < 64" by (simp_all add: q_def r_def)
  have "length m + (119 - r) mod 64 + 9 = 64 * (if 55 < r then q + 2 else q + 1)"
    using r pad_length [of r] by (simp add: m)
  then have "64 dvd length m + (119 - r) mod 64 + 9" by (metis dvd_triv_left)
  then show ?thesis by (simp add: pad_message_def assms r_def add.commute add.left_commute)
qed

section \<open>A hash function over such a context\<close>

locale block_hash =
  fixes tr :: "32 word list \<Rightarrow> octets \<Rightarrow> 32 word list"
    and iv :: "32 word list"
    and unit :: "64 word"
    and used_of :: "64 word \<Rightarrow> nat"
    and len_bytes :: "64 word \<Rightarrow> octets"
  assumes used_count: "used_of (of_nat n * unit) = n mod 64"
    and length_len_bytes: "length (len_bytes w) = 8"
begin

text \<open>The context has taken in \<open>m\<close>.\<close>

definition absorbed :: "octets \<Rightarrow> digest_ctx \<Rightarrow> bool" where
  "absorbed m c \<longleftrightarrow> h_count c = of_nat (length m) * unit \<and> length (h_buffer c) = 64
     \<and> h_state c = fst (feed_blocks tr iv m)
     \<and> take (length m mod 64) (h_buffer c) = snd (feed_blocks tr iv m)"

definition padded :: "octets \<Rightarrow> octets" where
  "padded m = pad_message (len_bytes (of_nat (length m) * unit)) m"

definition digest_words :: "octets \<Rightarrow> 32 word list" where
  "digest_words m = merkle_damgard tr iv (len_bytes (of_nat (length m) * unit)) m"

definition update :: "digest_ctx \<Rightarrow> octets \<Rightarrow> digest_ctx" where
  "update c d = block_update tr (used_of (h_count c))
                  (c\<lparr>h_count := h_count c + of_nat (length d) * unit\<rparr>) d"

definition final_words :: "digest_ctx \<Rightarrow> 32 word list" where
  "final_words c = block_final tr (used_of (h_count c)) (len_bytes (h_count c)) c"

lemma digest_words_fed: "digest_words m = fst (feed_blocks tr iv (padded m))"
  by (simp add: digest_words_def merkle_damgard_def padded_def feed_blocks64
      pad_message_blocks length_len_bytes)

lemma absorbed_used: "absorbed m c \<Longrightarrow> used_of (h_count c) = length m mod 64"
  by (simp add: absorbed_def used_count)

lemma absorbed_init:
  "length b = 64 \<Longrightarrow> absorbed [] \<lparr>h_state = iv, h_count = 0, h_buffer = b\<rparr>"
  by (simp add: absorbed_def feed_short)

text \<open>One update extends the absorbed message.\<close>

lemma absorbed_update:
  assumes "absorbed m c"
  shows "absorbed (m @ d) (update c d)"
proof -
  let ?u = "length m mod 64"
  let ?c = "c\<lparr>h_count := h_count c + of_nat (length d) * unit\<rparr>"
  define s where "s = fst (feed_blocks tr iv m)"
  define left where "left = snd (feed_blocks tr iv m)"
  have fm: "feed_blocks tr iv m = (s, left)" by (simp add: s_def left_def)
  have len: "length left = ?u" using feed_left_length [of tr iv m] by (simp add: left_def)
  have a: "h_state c = s" "take ?u (h_buffer c) = left" "length (h_buffer c) = 64"
    "h_count c = of_nat (length m) * unit"
    using assms by (auto simp: absorbed_def s_def left_def)
  have count: "h_count c + of_nat (length d) * unit = of_nat (length (m @ d)) * unit"
    by (simp add: a(4) algebra_simps)
  have feed: "feed_blocks tr iv (m @ d) = feed_blocks tr s (left @ d)"
    by (subst feed_append) (simp add: fm)
  have upd: "update c d = block_update tr ?u ?c d"
    using absorbed_used [OF assms] by (simp add: update_def)
  have lmod: "length (m @ d) mod 64 = (?u + length d) mod 64"
    by (simp add: mod_add_left_eq)
  show ?thesis
  proof (cases "0 < ?u \<and> length d < 64 - ?u")
    case True
    then have sum: "?u + length d < 64" by linarith
    then have short: "length (left @ d) < 64" by (simp add: len)
    from sum have small: "length (m @ d) mod 64 = ?u + length d" unfolding lmod by (rule mod_less)
    have "update c d = ?c\<lparr>h_buffer := store_at ?u d (h_buffer c)\<rparr>"
      using True by (simp add: upd block_update_def fill_partial_def)
    moreover have "take (?u + length d) (store_at ?u d (h_buffer c)) = left @ d"
      using sum by (simp add: take_store_at a)
    moreover have "length (store_at ?u d (h_buffer c)) = 64"
      using sum a(3) by (simp add: length_store_at)
    moreover have "h_count (update c d) = of_nat (length (m @ d)) * unit"
      using calculation(1) count by simp
    ultimately show ?thesis
      by (simp add: absorbed_def feed feed_short [OF short] small a(1) del: length_append)
  next
    case False
    obtain c1 rest where fp: "fill_partial tr ?u ?c d = Inr (c1, rest)"
      and c1: "h_count c1 = of_nat (length (m @ d)) * unit" "length (h_buffer c1) = 64"
      and rest: "feed_blocks tr s (left @ d) = feed_blocks tr (h_state c1) rest"
    proof (cases "0 < ?u")
      case True
      with False have enough: "64 - ?u \<le> length d" by simp
      let ?b = "store_at ?u (take (64 - ?u) d) (h_buffer c)"
      have b: "?b = left @ take (64 - ?u) d" using enough a by (simp add: store_at_all)
      have "left @ d = ?b @ drop (64 - ?u) d" by (simp add: b)
      moreover have "length ?b = 64" using enough len by (simp add: b)
      ultimately have "feed_blocks tr s (left @ d) = feed_blocks tr (tr s ?b) (drop (64 - ?u) d)"
        by (simp add: feed_block)
      with True enough \<open>length ?b = 64\<close> show ?thesis
        by (intro that [of "?c\<lparr>h_buffer := ?b, h_state := tr s ?b\<rparr>" "drop (64 - ?u) d"])
           (simp_all add: fill_partial_def a(1) count Let_def del: length_append)
    next
      case no: False
      with len have "left = []" by simp
      with no show ?thesis
        by (intro that [of ?c d]) (simp_all add: fill_partial_def a(1-3) count del: length_append)
    qed
    obtain s2 l2 where f2: "feed_blocks tr (h_state c1) rest = (s2, l2)" by fastforce
    have l2: "length l2 = length (m @ d) mod 64"
      using feed_left_length [of tr iv "m @ d"] feed rest f2 by (simp del: length_append)
    have "length l2 \<le> 64" using feed_left_short [of tr "h_state c1" rest] f2 by simp
    then have "take (length l2) (store_at 0 l2 (h_buffer c1)) = l2"
      "length (store_at 0 l2 (h_buffer c1)) = 64"
      using c1 take_store_at [of 0 l2 "h_buffer c1"] by (simp_all add: length_store_at)
    then show ?thesis
      using c1 by (simp add: absorbed_def upd block_update_def fp f2 feed rest l2 [symmetric]
          del: length_append)
  qed
qed

lemma absorbed_updates: "absorbed m c \<Longrightarrow> absorbed (m @ concat ds) (foldl update c ds)"
proof (induction ds arbitrary: m c)
  case (Cons d ds)
  then show ?case using absorbed_update [of m c d] by fastforce
qed simp

text \<open>The final step compresses the padded message.\<close>

lemma final_digest:
  assumes "absorbed m c"
  shows "final_words c = digest_words m"
proof -
  let ?u = "length m mod 64"
  let ?len = "len_bytes (of_nat (length m) * unit)"
  define s where "s = fst (feed_blocks tr iv m)"
  define left where "left = snd (feed_blocks tr iv m)"
  have fm: "feed_blocks tr iv m = (s, left)" by (simp add: s_def left_def)
  have u: "?u < 64" by simp
  have len: "length left = ?u" using feed_left_length [of tr iv m] by (simp add: left_def)
  have a: "h_state c = s" "take ?u (h_buffer c) = left" "length (h_buffer c) = 64"
    "h_count c = of_nat (length m) * unit"
    using assms by (auto simp: absorbed_def s_def left_def)
  have fin: "final_words c = block_final tr ?u ?len c"
    using absorbed_used [OF assms] a(4) by (simp add: final_words_def)
  have mark: "take (?u + 1) ((h_buffer c)[?u := 0x80]) = left @ [0x80]"
    using u a by (simp add: take_Suc_conv_app_nth)
  have dw: "digest_words m = fst (feed_blocks tr s
      (left @ 0x80 # replicate ((119 - ?u) mod 64) 0 @ ?len))"
    unfolding digest_words_fed padded_def pad_message_def by (subst feed_append) (simp add: fm)
  show ?thesis
  proof (cases "56 < ?u + 1")
    case True
    let ?b1 = "(left @ 0x80 # replicate (63 - ?u) 0) :: octets"
    have "store_at (?u + 1) (replicate (64 - (?u + 1)) 0) ((h_buffer c)[?u := 0x80])
        = take (?u + 1) ((h_buffer c)[?u := 0x80]) @ replicate (64 - (?u + 1)) 0"
      using u a(3) by (intro store_at_all) simp
    then have b1: "store_at (?u + 1) (replicate (64 - (?u + 1)) 0) ((h_buffer c)[?u := 0x80]) = ?b1"
      unfolding mark by simp
    have l1: "length ?b1 = 64" using len u by simp
    have z: "store_at 0 (replicate 56 0) ?b1 = replicate 56 0 @ drop 56 ?b1" for b :: octets
      by (simp add: store_at_def)
    have "store_at 56 ?len (store_at 0 (replicate 56 0) ?b1)
        = take 56 (store_at 0 (replicate 56 0) ?b1) @ ?len"
      using l1 len u by (intro store_at_all) (simp add: length_len_bytes store_at_def)
    then have b2: "store_at 56 ?len (store_at 0 (replicate 56 0) ?b1) = replicate 56 0 @ ?len"
      unfolding z by simp
    have "final_words c = tr (tr s ?b1) (replicate 56 0 @ ?len)"
      using True b1 b2 by (simp add: fin block_final_def Let_def a(1))
    moreover have pad: "(119 - ?u) mod 64 = (63 - ?u) + 56"
      using True u by (intro pad_length) simp_all
    have "left @ 0x80 # replicate ((119 - ?u) mod 64) 0 @ ?len
        = ?b1 @ (replicate 56 0 @ ?len)"
      by (simp only: pad replicate_add append_assoc append_Cons)
    moreover have "feed_blocks tr s (?b1 @ (replicate 56 0 @ ?len))
        = (tr (tr s ?b1) (replicate 56 0 @ ?len), [])"
      by (rule feed_full2 [OF l1]) (simp add: length_len_bytes)
    ultimately show ?thesis by (simp only: dw fst_conv)
  next
    case False
    let ?b = "(left @ 0x80 # replicate (55 - ?u) 0) :: octets"
    let ?c1 = "(h_buffer c)[?u := 0x80]"
    have "take 56 (store_at (?u + 1) (replicate (56 - (?u + 1)) 0) ?c1)
        = take (?u + 1 + length (replicate (56 - (?u + 1)) (0 :: 8 word)))
            (store_at (?u + 1) (replicate (56 - (?u + 1)) 0) ?c1)"
      using False by simp
    also have "\<dots> = take (?u + 1) ?c1 @ replicate (56 - (?u + 1)) 0"
      using False a(3) by (intro take_store_at) simp
    also have "\<dots> = ?b" unfolding mark by simp
    finally have b: "take 56 (store_at (?u + 1) (replicate (56 - (?u + 1)) 0) ?c1) = ?b" .
    have "store_at 56 ?len (store_at (?u + 1) (replicate (56 - (?u + 1)) 0) ?c1) = ?b @ ?len"
      unfolding b [symmetric] using False a(3)
      by (intro store_at_all) (simp add: length_len_bytes length_store_at)
    then have "final_words c = tr s (?b @ ?len)"
      using False by (simp add: fin block_final_def Let_def a(1))
    moreover have "(119 - ?u) mod 64 = 55 - ?u" using False by (intro pad_length) simp_all
    then have "left @ 0x80 # replicate ((119 - ?u) mod 64) 0 @ ?len = ?b @ ?len" by simp
    moreover have "feed_blocks tr s (?b @ ?len) = (tr s (?b @ ?len), [])"
      using False len by (intro feed_full) (simp add: length_len_bytes)
    ultimately show ?thesis by (simp only: dw fst_conv)
  qed
qed

text \<open>A message hashed in pieces, however it is cut.\<close>

lemma pieces_digest:
  "length b = 64 \<Longrightarrow>
   final_words (foldl update \<lparr>h_state = iv, h_count = 0, h_buffer = b\<rparr> ds)
   = digest_words (concat ds)"
  using absorbed_updates [OF absorbed_init] by (intro final_digest) fastforce

end

end
