(* ===== verification/Hashes.thy ===== *)
theory Hashes
  imports Digest
begin

text \<open>
  \<^verbatim>\<open>md5.c\<close>, \<^verbatim>\<open>sha1_builtin.c\<close> and \<^verbatim>\<open>sha256_builtin.c\<close>: the compression functions with
  their tables, and the entry points over the buffering code of \<open>Digest\<close>. The three are
  interpretations of \<open>block_hash\<close>. MD5 counts bytes, the other two count bits; both counters
  wrap at 64 bits, which the position in the buffer survives because 64 and 512 divide $2^{64}$.
\<close>

definition rotl32 :: "32 word \<Rightarrow> nat \<Rightarrow> 32 word" where
  "rotl32 x n = push_bit n x OR drop_bit (32 - n) x"

definition rotr32 :: "32 word \<Rightarrow> nat \<Rightarrow> 32 word" where
  "rotr32 x n = drop_bit n x OR push_bit (32 - n) x"

section \<open>MD5\<close>

definition md5_F :: "32 word \<Rightarrow> 32 word \<Rightarrow> 32 word \<Rightarrow> 32 word" where
  "md5_F x y z = (x AND y) OR (NOT x AND z)"

definition md5_G :: "32 word \<Rightarrow> 32 word \<Rightarrow> 32 word \<Rightarrow> 32 word" where
  "md5_G x y z = (x AND z) OR (y AND NOT z)"

definition md5_H :: "32 word \<Rightarrow> 32 word \<Rightarrow> 32 word \<Rightarrow> 32 word" where
  "md5_H x y z = x XOR y XOR z"

definition md5_I :: "32 word \<Rightarrow> 32 word \<Rightarrow> 32 word \<Rightarrow> 32 word" where
  "md5_I x y z = y XOR (x OR NOT z)"

definition md5_T :: "32 word list" where
  "md5_T =
    [0xd76aa478, 0xe8c7b756, 0x242070db, 0xc1bdceee, 0xf57c0faf, 0x4787c62a, 0xa8304613, 0xfd469501,
     0x698098d8, 0x8b44f7af, 0xffff5bb1, 0x895cd7be, 0x6b901122, 0xfd987193, 0xa679438e, 0x49b40821,
     0xf61e2562, 0xc040b340, 0x265e5a51, 0xe9b6c7aa, 0xd62f105d, 0x02441453, 0xd8a1e681, 0xe7d3fbc8,
     0x21e1cde6, 0xc33707d6, 0xf4d50d87, 0x455a14ed, 0xa9e3e905, 0xfcefa3f8, 0x676f02d9, 0x8d2a4c8a,
     0xfffa3942, 0x8771f681, 0x6d9d6122, 0xfde5380c, 0xa4beea44, 0x4bdecfa9, 0xf6bb4b60, 0xbebfbc70,
     0x289b7ec6, 0xeaa127fa, 0xd4ef3085, 0x04881d05, 0xd9d4d039, 0xe6db99e5, 0x1fa27cf8, 0xc4ac5665,
     0xf4292244, 0x432aff97, 0xab9423a7, 0xfc93a039, 0x655b59c3, 0x8f0ccc92, 0xffeff47d, 0x85845dd1,
     0x6fa87e4f, 0xfe2ce6e0, 0xa3014314, 0x4e0811a1, 0xf7537e82, 0xbd3af235, 0x2ad7d2bb, 0xeb86d391]"

definition md5_s :: "nat list" where
  "md5_s =
    [7, 12, 17, 22, 7, 12, 17, 22, 7, 12, 17, 22, 7, 12, 17, 22,
     5, 9, 14, 20, 5, 9, 14, 20, 5, 9, 14, 20, 5, 9, 14, 20,
     4, 11, 16, 23, 4, 11, 16, 23, 4, 11, 16, 23, 4, 11, 16, 23,
     6, 10, 15, 21, 6, 10, 15, 21, 6, 10, 15, 21, 6, 10, 15, 21]"

text \<open>The sixteen little-endian words of a block.\<close>

definition md5_M :: "octets \<Rightarrow> 32 word list" where
  "md5_M block = map (\<lambda>i. ucast (block ! (i * 4 + 0)) OR push_bit 8 (ucast (block ! (i * 4 + 1)))
                       OR push_bit 16 (ucast (block ! (i * 4 + 2)))
                       OR push_bit 24 (ucast (block ! (i * 4 + 3)))) [0..<16]"

type_synonym four = "32 word \<times> 32 word \<times> 32 word \<times> 32 word"

definition md5_round :: "32 word list \<Rightarrow> nat \<Rightarrow> four \<Rightarrow> four" where
  "md5_round M i = (\<lambda>(a, b, c, d).
     let (f, g) = (if i < 16 then (md5_F b c d, i)
                   else if i < 32 then (md5_G b c d, (5 * i + 1) mod 16)
                   else if i < 48 then (md5_H b c d, (3 * i + 5) mod 16)
                   else (md5_I b c d, (7 * i) mod 16))
     in (d, b + rotl32 (a + f + md5_T ! i + M ! g) (md5_s ! i), b, c))"

definition md5_transform :: "32 word list \<Rightarrow> octets \<Rightarrow> 32 word list" where
  "md5_transform s block =
     (case fold (md5_round (md5_M block)) [0..<64] (s ! 0, s ! 1, s ! 2, s ! 3) of
        (a, b, c, d) \<Rightarrow> [s ! 0 + a, s ! 1 + b, s ! 2 + c, s ! 3 + d])"

definition md5_iv :: "32 word list" where
  "md5_iv = [0x67452301, 0xefcdab89, 0x98badcfe, 0x10325476]"

text \<open>\<^verbatim>\<open>memset (impl, 0, sizeof (*impl))\<close>, for a state of \<open>n\<close> words.\<close>

definition zero_ctx :: "nat \<Rightarrow> digest_ctx" where
  "zero_ctx n = \<lparr>h_state = replicate n 0, h_count = 0, h_buffer = replicate 64 0\<rparr>"

definition xMd5Init :: "digest_ctx option \<Rightarrow> xErrno \<times> digest_ctx option" where
  "xMd5Init ctx = (case ctx of None \<Rightarrow> (xErrno_InvalidArg, None)
                   | Some c \<Rightarrow> (xErrno_Ok, Some ((zero_ctx 4)\<lparr>h_state := md5_iv\<rparr>)))"

text \<open>The offset in the buffer is \<^verbatim>\<open>count % 64\<close>; the counter grows by the length in bytes.\<close>

definition md5_used :: "64 word \<Rightarrow> nat" where
  "md5_used n = unat n mod 64"

definition md5_update :: "digest_ctx \<Rightarrow> octets \<Rightarrow> digest_ctx" where
  "md5_update c d = block_update md5_transform (md5_used (h_count c))
                      (c\<lparr>h_count := h_count c + of_nat (length d)\<rparr>) d"

definition xMd5Update ::
  "digest_ctx option \<Rightarrow> octets option \<Rightarrow> xErrno \<times> digest_ctx option" where
  "xMd5Update = hash_update md5_update"

definition md5_out :: "32 word list \<Rightarrow> octets" where
  "md5_out s = concat (map (\<lambda>j. [ucast (s ! j), ucast (drop_bit 8 (s ! j)),
                                 ucast (drop_bit 16 (s ! j)), ucast (drop_bit 24 (s ! j))])
                           [0..<4])"

definition md5_final :: "digest_ctx \<Rightarrow> octets" where
  "md5_final c = md5_out (block_final md5_transform (md5_used (h_count c)) (le64 (h_count c * 8)) c)"

definition xMd5Final ::
  "digest_ctx option \<Rightarrow> bool \<Rightarrow> xErrno \<times> digest_ctx option \<times> octets option" where
  "xMd5Final = hash_final md5_final (zero_ctx 4)"

section \<open>SHA-1\<close>

definition sha1_schedule :: "octets \<Rightarrow> 32 word list" where
  "sha1_schedule block =
     fold (\<lambda>i w. w @ [rotl32 (w ! (i - 3) XOR w ! (i - 8) XOR w ! (i - 14) XOR w ! (i - 16)) 1])
       [16..<80] (map (\<lambda>i. get_be32 block (i * 4)) [0..<16])"

type_synonym five = "32 word \<times> 32 word \<times> 32 word \<times> 32 word \<times> 32 word"

definition sha1_round :: "32 word list \<Rightarrow> nat \<Rightarrow> five \<Rightarrow> five" where
  "sha1_round w i = (\<lambda>(a, b, c, d, e).
     let (f, k) = (if i < 20 then ((b AND c) OR (NOT b AND d), 0x5A827999)
                   else if i < 40 then (b XOR c XOR d, 0x6ED9EBA1)
                   else if i < 60 then ((b AND c) OR (b AND d) OR (c AND d), 0x8F1BBCDC)
                   else (b XOR c XOR d, 0xCA62C1D6))
     in (rotl32 a 5 + f + e + k + w ! i, a, rotl32 b 30, c, d))"

definition sha1_transform :: "32 word list \<Rightarrow> octets \<Rightarrow> 32 word list" where
  "sha1_transform s block =
     (case fold (sha1_round (sha1_schedule block)) [0..<80] (s ! 0, s ! 1, s ! 2, s ! 3, s ! 4) of
        (a, b, c, d, e) \<Rightarrow> [s ! 0 + a, s ! 1 + b, s ! 2 + c, s ! 3 + d, s ! 4 + e])"

definition sha1_iv :: "32 word list" where
  "sha1_iv = [0x67452301, 0xEFCDAB89, 0x98BADCFE, 0x10325476, 0xC3D2E1F0]"

definition xSha1Init :: "digest_ctx option \<Rightarrow> xErrno \<times> digest_ctx option" where
  "xSha1Init ctx = (case ctx of None \<Rightarrow> (xErrno_InvalidArg, None)
                    | Some c \<Rightarrow> (xErrno_Ok, Some ((zero_ctx 5)\<lparr>h_state := sha1_iv\<rparr>)))"

text \<open>The SHA files count bits: the offset is \<^verbatim>\<open>(count / 8) % 64\<close>.\<close>

definition sha_used :: "64 word \<Rightarrow> nat" where
  "sha_used n = unat n div 8 mod 64"

definition sha1_update :: "digest_ctx \<Rightarrow> octets \<Rightarrow> digest_ctx" where
  "sha1_update c d = block_update sha1_transform (sha_used (h_count c))
                       (c\<lparr>h_count := h_count c + of_nat (length d) * 8\<rparr>) d"

definition xSha1Update ::
  "digest_ctx option \<Rightarrow> octets option \<Rightarrow> xErrno \<times> digest_ctx option" where
  "xSha1Update = hash_update sha1_update"

definition sha1_final :: "digest_ctx \<Rightarrow> octets" where
  "sha1_final c =
     (let s = block_final sha1_transform (sha_used (h_count c)) (be64 (h_count c)) c
      in concat (map (\<lambda>i. put_be32 (s ! i)) [0..<5]))"

definition xSha1Final ::
  "digest_ctx option \<Rightarrow> bool \<Rightarrow> xErrno \<times> digest_ctx option \<times> octets option" where
  "xSha1Final = hash_final sha1_final (zero_ctx 5)"

section \<open>SHA-256\<close>

definition Ch :: "32 word \<Rightarrow> 32 word \<Rightarrow> 32 word \<Rightarrow> 32 word" where
  "Ch x y z = (x AND y) XOR (NOT x AND z)"

definition Maj :: "32 word \<Rightarrow> 32 word \<Rightarrow> 32 word \<Rightarrow> 32 word" where
  "Maj x y z = (x AND y) XOR (x AND z) XOR (y AND z)"

definition Sigma0 :: "32 word \<Rightarrow> 32 word" where
  "Sigma0 x = rotr32 x 2 XOR rotr32 x 13 XOR rotr32 x 22"

definition Sigma1 :: "32 word \<Rightarrow> 32 word" where
  "Sigma1 x = rotr32 x 6 XOR rotr32 x 11 XOR rotr32 x 25"

definition sigma0 :: "32 word \<Rightarrow> 32 word" where
  "sigma0 x = rotr32 x 7 XOR rotr32 x 18 XOR drop_bit 3 x"

definition sigma1 :: "32 word \<Rightarrow> 32 word" where
  "sigma1 x = rotr32 x 17 XOR rotr32 x 19 XOR drop_bit 10 x"

definition sha256_K :: "32 word list" where
  "sha256_K =
    [0x428a2f98, 0x71374491, 0xb5c0fbcf, 0xe9b5dba5, 0x3956c25b, 0x59f111f1, 0x923f82a4, 0xab1c5ed5,
     0xd807aa98, 0x12835b01, 0x243185be, 0x550c7dc3, 0x72be5d74, 0x80deb1fe, 0x9bdc06a7, 0xc19bf174,
     0xe49b69c1, 0xefbe4786, 0x0fc19dc6, 0x240ca1cc, 0x2de92c6f, 0x4a7484aa, 0x5cb0a9dc, 0x76f988da,
     0x983e5152, 0xa831c66d, 0xb00327c8, 0xbf597fc7, 0xc6e00bf3, 0xd5a79147, 0x06ca6351, 0x14292967,
     0x27b70a85, 0x2e1b2138, 0x4d2c6dfc, 0x53380d13, 0x650a7354, 0x766a0abb, 0x81c2c92e, 0x92722c85,
     0xa2bfe8a1, 0xa81a664b, 0xc24b8b70, 0xc76c51a3, 0xd192e819, 0xd6990624, 0xf40e3585, 0x106aa070,
     0x19a4c116, 0x1e376c08, 0x2748774c, 0x34b0bcb5, 0x391c0cb3, 0x4ed8aa4a, 0x5b9cca4f, 0x682e6ff3,
     0x748f82ee, 0x78a5636f, 0x84c87814, 0x8cc70208, 0x90befffa, 0xa4506ceb, 0xbef9a3f7, 0xc67178f2]"

definition sha256_schedule :: "octets \<Rightarrow> 32 word list" where
  "sha256_schedule block =
     fold (\<lambda>i w. w @ [sigma1 (w ! (i - 2)) + w ! (i - 7) + sigma0 (w ! (i - 15)) + w ! (i - 16)])
       [16..<64] (map (\<lambda>i. get_be32 block (i * 4)) [0..<16])"

type_synonym eight = "32 word \<times> 32 word \<times> 32 word \<times> 32 word
                      \<times> 32 word \<times> 32 word \<times> 32 word \<times> 32 word"

definition sha256_round :: "32 word list \<Rightarrow> nat \<Rightarrow> eight \<Rightarrow> eight" where
  "sha256_round w i = (\<lambda>(a, b, c, d, e, f, g, h).
     let t1 = h + Sigma1 e + Ch e f g + sha256_K ! i + w ! i;
         t2 = Sigma0 a + Maj a b c
     in (t1 + t2, a, b, c, d + t1, e, f, g))"

definition sha256_transform :: "32 word list \<Rightarrow> octets \<Rightarrow> 32 word list" where
  "sha256_transform s block =
     (case fold (sha256_round (sha256_schedule block)) [0..<64]
             (s ! 0, s ! 1, s ! 2, s ! 3, s ! 4, s ! 5, s ! 6, s ! 7) of
        (a, b, c, d, e, f, g, h) \<Rightarrow>
          [s ! 0 + a, s ! 1 + b, s ! 2 + c, s ! 3 + d, s ! 4 + e, s ! 5 + f, s ! 6 + g, s ! 7 + h])"

definition sha256_iv :: "32 word list" where
  "sha256_iv = [0x6a09e667, 0xbb67ae85, 0x3c6ef372, 0xa54ff53a,
                0x510e527f, 0x9b05688c, 0x1f83d9ab, 0x5be0cd19]"

definition xSha256Init :: "digest_ctx option \<Rightarrow> xErrno \<times> digest_ctx option" where
  "xSha256Init ctx = (case ctx of None \<Rightarrow> (xErrno_InvalidArg, None)
                      | Some c \<Rightarrow> (xErrno_Ok, Some ((zero_ctx 8)\<lparr>h_state := sha256_iv\<rparr>)))"

definition sha256_update :: "digest_ctx \<Rightarrow> octets \<Rightarrow> digest_ctx" where
  "sha256_update c d = block_update sha256_transform (sha_used (h_count c))
                         (c\<lparr>h_count := h_count c + of_nat (length d) * 8\<rparr>) d"

definition xSha256Update ::
  "digest_ctx option \<Rightarrow> octets option \<Rightarrow> xErrno \<times> digest_ctx option" where
  "xSha256Update = hash_update sha256_update"

definition sha256_final :: "digest_ctx \<Rightarrow> octets" where
  "sha256_final c =
     (let s = block_final sha256_transform (sha_used (h_count c)) (be64 (h_count c)) c
      in concat (map (\<lambda>i. put_be32 (s ! i)) [0..<8]))"

definition xSha256Final ::
  "digest_ctx option \<Rightarrow> bool \<Rightarrow> xErrno \<times> digest_ctx option \<times> octets option" where
  "xSha256Final = hash_final sha256_final (zero_ctx 8)"

section \<open>One-shot hashing\<close>

text \<open>\<^verbatim>\<open>xMd5\<close>, \<^verbatim>\<open>xSha1\<close> and \<^verbatim>\<open>xSha256\<close> run the three steps on a context of their own, \<open>junk\<close>.\<close>

definition one_shot ::
  "(digest_ctx option \<Rightarrow> xErrno \<times> digest_ctx option)
   \<Rightarrow> (digest_ctx option \<Rightarrow> octets option \<Rightarrow> xErrno \<times> digest_ctx option)
   \<Rightarrow> (digest_ctx option \<Rightarrow> bool \<Rightarrow> xErrno \<times> digest_ctx option \<times> octets option)
   \<Rightarrow> digest_ctx \<Rightarrow> octets option \<Rightarrow> bool \<Rightarrow> xErrno \<times> octets option" where
  "one_shot init upd fin junk data want =
     (if data = None \<or> \<not> want then (xErrno_InvalidArg, None)
      else
        (case init (Some junk) of (e1, c1) \<Rightarrow>
         if e1 \<noteq> xErrno_Ok then (e1, None)
         else
           (case upd c1 data of (e2, c2) \<Rightarrow>
            if e2 \<noteq> xErrno_Ok then (e2, None)
            else (case fin c2 want of (e3, _, out) \<Rightarrow> (e3, out)))))"

definition xMd5 :: "digest_ctx \<Rightarrow> octets option \<Rightarrow> bool \<Rightarrow> xErrno \<times> octets option" where
  "xMd5 = one_shot xMd5Init xMd5Update xMd5Final"

definition xSha1 :: "digest_ctx \<Rightarrow> octets option \<Rightarrow> bool \<Rightarrow> xErrno \<times> octets option" where
  "xSha1 = one_shot xSha1Init xSha1Update xSha1Final"

definition xSha256 :: "digest_ctx \<Rightarrow> octets option \<Rightarrow> bool \<Rightarrow> xErrno \<times> octets option" where
  "xSha256 = one_shot xSha256Init xSha256Update xSha256Final"

section \<open>The three as block hashes\<close>

lemma md5_used_count: "md5_used (of_nat n) = n mod 64"
  by (simp add: md5_used_def unat_of_nat mod_mod_cancel)

text \<open>The counter in bits: reduced modulo $2^{64}$, the bytes modulo $2^{61}$ remain.\<close>

lemma sha_used_count: "sha_used (of_nat n * 8) = n mod 64"
proof -
  have "(of_nat n * 8 :: 64 word) = of_nat (8 * n)" by (simp add: mult.commute)
  then have "unat (of_nat n * 8 :: 64 word) = 8 * n mod 2 ^ 64" by (simp only: unat_of_nat) simp
  also have "\<dots> = 8 * (n mod 2 ^ 61)"
    using mult_mod_right [of 8 n "2 ^ 61"] by simp
  finally show ?thesis by (simp add: sha_used_def mod_mod_cancel)
qed

interpretation md5: block_hash md5_transform md5_iv 1 md5_used "\<lambda>n. le64 (n * 8)"
  by unfold_locales (simp_all add: md5_used_count le64_def)

interpretation sha1: block_hash sha1_transform sha1_iv 8 sha_used be64
  by unfold_locales (simp_all add: sha_used_count be64_def)

interpretation sha256: block_hash sha256_transform sha256_iv 8 sha_used be64
  by unfold_locales (simp_all add: sha_used_count be64_def)

text \<open>The functions of the standards: RFC 1321, RFC 3174, FIPS 180-4.\<close>

definition MD5 :: "octets \<Rightarrow> octets" where
  "MD5 m = concat (map (\<lambda>w. rev (put_be32 w))
             (merkle_damgard md5_transform md5_iv (le64 (of_nat (length m) * 8)) m))"

definition SHA1 :: "octets \<Rightarrow> octets" where
  "SHA1 m = concat (map put_be32
             (merkle_damgard sha1_transform sha1_iv (be64 (of_nat (length m) * 8)) m))"

definition SHA256 :: "octets \<Rightarrow> octets" where
  "SHA256 m = concat (map put_be32
               (merkle_damgard sha256_transform sha256_iv (be64 (of_nat (length m) * 8)) m))"

lemma length_merkle_damgard:
  assumes "length iv = n" "\<And>s b. length (tr s b) = n"
  shows "length (merkle_damgard tr iv len m) = n"
proof -
  have "length (foldl tr s bs) = n" if "length s = n" for s bs
    using that by (induction bs arbitrary: s) (simp_all add: assms(2))
  then show ?thesis by (simp add: merkle_damgard_def assms(1))
qed

lemma length_transforms [simp]:
  "length (md5_transform s b) = 4" "length (sha1_transform s b) = 5"
  "length (sha256_transform s b) = 8"
  by (simp_all add: md5_transform_def sha1_transform_def sha256_transform_def split: prod.splits)

lemma length_ivs [simp]: "length md5_iv = 4" "length sha1_iv = 5" "length sha256_iv = 8"
  by (simp_all add: md5_iv_def sha1_iv_def sha256_iv_def)

lemma length_concat_const: "(\<And>x. length (f x) = n) \<Longrightarrow> length (concat (map f xs)) = n * length xs"
  by (induction xs) simp_all

lemma length_digests: "length (MD5 m) = 16" "length (SHA1 m) = 20" "length (SHA256 m) = 32"
  by (simp_all add: MD5_def SHA1_def SHA256_def put_be32_def length_concat_const [where n = 4]
      length_merkle_damgard [where n = 4] length_merkle_damgard [where n = 5]
      length_merkle_damgard [where n = 8])

lemma map_words: "length s = n \<Longrightarrow> map (\<lambda>i. f (s ! i)) [0..<n] = map f s"
  by (rule nth_equalityI) simp_all

text \<open>The steps of the code are the steps of the locale.\<close>

lemma update_steps:
  "md5_update = md5.update" "sha1_update = sha1.update" "sha256_update = sha256.update"
  by (auto intro!: ext simp: md5_update_def sha1_update_def sha256_update_def
      md5.update_def sha1.update_def sha256.update_def)

lemma md5_final_digest: "md5.absorbed m c \<Longrightarrow> md5_final c = MD5 m"
  using md5.final_digest [of m c] length_merkle_damgard [of md5_iv 4 md5_transform]
  by (simp add: md5_final_def md5.final_words_def md5.digest_words_def MD5_def md5_out_def
      map_words [where f = "\<lambda>w. [ucast w, ucast (drop_bit 8 w), ucast (drop_bit 16 w), ucast (drop_bit 24 w)]"]
      put_be32_def)

lemma sha1_final_digest: "sha1.absorbed m c \<Longrightarrow> sha1_final c = SHA1 m"
  using sha1.final_digest [of m c] length_merkle_damgard [of sha1_iv 5 sha1_transform]
  by (simp add: sha1_final_def sha1.final_words_def sha1.digest_words_def SHA1_def map_words)

lemma sha256_final_digest: "sha256.absorbed m c \<Longrightarrow> sha256_final c = SHA256 m"
  using sha256.final_digest [of m c] length_merkle_damgard [of sha256_iv 8 sha256_transform]
  by (simp add: sha256_final_def sha256.final_words_def sha256.digest_words_def SHA256_def map_words)

text \<open>A fresh context, pieces of input one after the other, the final step.\<close>

definition hash_stream ::
  "(digest_ctx option \<Rightarrow> xErrno \<times> digest_ctx option)
   \<Rightarrow> (digest_ctx option \<Rightarrow> octets option \<Rightarrow> xErrno \<times> digest_ctx option)
   \<Rightarrow> (digest_ctx option \<Rightarrow> bool \<Rightarrow> xErrno \<times> digest_ctx option \<times> octets option)
   \<Rightarrow> digest_ctx \<Rightarrow> octets list \<Rightarrow> xErrno \<times> digest_ctx option \<times> octets option" where
  "hash_stream init upd fin junk ds =
     fin (foldl (\<lambda>c d. snd (upd c (Some d))) (snd (init (Some junk))) ds) True"

lemma foldl_hash_update:
  "foldl (\<lambda>c d. snd (hash_update upd c (Some d))) (Some c) ds = Some (foldl upd c ds)"
  by (induction ds arbitrary: c) (simp_all add: hash_update_def)

lemmas start_defs = xMd5Init_def xSha1Init_def xSha256Init_def zero_ctx_def

lemma streams:
  "hash_stream xMd5Init xMd5Update xMd5Final junk ds
   = (xErrno_Ok, Some (zero_ctx 4), Some (MD5 (concat ds)))"
  "hash_stream xSha1Init xSha1Update xSha1Final junk ds
   = (xErrno_Ok, Some (zero_ctx 5), Some (SHA1 (concat ds)))"
  "hash_stream xSha256Init xSha256Update xSha256Final junk ds
   = (xErrno_Ok, Some (zero_ctx 8), Some (SHA256 (concat ds)))"
  using md5.absorbed_updates [OF md5.absorbed_init [of "replicate 64 0"], of ds]
    sha1.absorbed_updates [OF sha1.absorbed_init [of "replicate 64 0"], of ds]
    sha256.absorbed_updates [OF sha256.absorbed_init [of "replicate 64 0"], of ds]
  by (simp_all add: hash_stream_def start_defs xMd5Update_def xSha1Update_def xSha256Update_def
      foldl_hash_update xMd5Final_def xSha1Final_def xSha256Final_def hash_final_def update_steps
      md5_final_digest sha1_final_digest sha256_final_digest)

lemma one_shot_stream:
  assumes "\<And>j. init (Some j) = (xErrno_Ok, Some c0)"
    and "\<And>c d. upd (Some c) (Some d) = (xErrno_Ok, Some (f c d))"
  shows "one_shot init upd fin junk (Some d) True
       = (case hash_stream init upd fin junk [d] of (e, _, out) \<Rightarrow> (e, out))"
  by (simp add: one_shot_def hash_stream_def assms)

lemma one_shots:
  "xMd5 junk (Some d) True = (xErrno_Ok, Some (MD5 d))"
  "xSha1 junk (Some d) True = (xErrno_Ok, Some (SHA1 d))"
  "xSha256 junk (Some d) True = (xErrno_Ok, Some (SHA256 d))"
  using streams [of junk "[d]"] one_shot_stream
  by (simp_all add: xMd5_def xSha1_def xSha256_def one_shot_stream start_defs hash_update_def
      xMd5Update_def xSha1Update_def xSha256Update_def)

section \<open>Properties\<close>

text \<open>
  Hashing in pieces: for MD5, SHA-1 and SHA-256, whatever the context holds at first and
  however the message is cut into updates (empty ones, ones that end inside a block, ones that
  span many blocks; also when the 64-bit counter wraps), every step succeeds, the final digest
  is that of the padded message folded block by block, and the context is cleared. The
  one-shot functions return the same digest, and refuse a null input or output.
\<close>

theorem hashes_in_pieces:
  "hash_stream xMd5Init xMd5Update xMd5Final junk ds
     = (xErrno_Ok, Some (zero_ctx 4), Some (MD5 (concat ds)))
   \<and> hash_stream xSha1Init xSha1Update xSha1Final junk ds
     = (xErrno_Ok, Some (zero_ctx 5), Some (SHA1 (concat ds)))
   \<and> hash_stream xSha256Init xSha256Update xSha256Final junk ds
     = (xErrno_Ok, Some (zero_ctx 8), Some (SHA256 (concat ds)))
   \<and> (\<forall>d want.
        xMd5 junk d want = (case (d, want) of (Some m, True) \<Rightarrow> (xErrno_Ok, Some (MD5 m))
                            | _ \<Rightarrow> (xErrno_InvalidArg, None))
      \<and> xSha1 junk d want = (case (d, want) of (Some m, True) \<Rightarrow> (xErrno_Ok, Some (SHA1 m))
                             | _ \<Rightarrow> (xErrno_InvalidArg, None))
      \<and> xSha256 junk d want = (case (d, want) of (Some m, True) \<Rightarrow> (xErrno_Ok, Some (SHA256 m))
                               | _ \<Rightarrow> (xErrno_InvalidArg, None)))"
proof -
  have "xMd5 junk d want = (case (d, want) of (Some m, True) \<Rightarrow> (xErrno_Ok, Some (MD5 m))
                            | _ \<Rightarrow> (xErrno_InvalidArg, None))"
    "xSha1 junk d want = (case (d, want) of (Some m, True) \<Rightarrow> (xErrno_Ok, Some (SHA1 m))
                          | _ \<Rightarrow> (xErrno_InvalidArg, None))"
    "xSha256 junk d want = (case (d, want) of (Some m, True) \<Rightarrow> (xErrno_Ok, Some (SHA256 m))
                            | _ \<Rightarrow> (xErrno_InvalidArg, None))" for d want
    by (cases d; cases want; simp add: one_shots;
        simp add: xMd5_def xSha1_def xSha256_def one_shot_def)+
  then show ?thesis using streams by simp
qed

end
