(* ===== verification/Hmac.thy ===== *)
theory Hmac
  imports Hashes
begin

text \<open>
  \<^verbatim>\<open>crypto/hmac.c\<close> over the vtable of \<^verbatim>\<open>hash_private.h\<close>, and the vtables and wrappers of
  \<^verbatim>\<open>hmac_md5.c\<close>, \<^verbatim>\<open>hmac_sha1.c\<close> and \<^verbatim>\<open>hmac_sha256.c\<close>. The generic code knows a hash only
  through three functions that may each fail; the model keeps them as fields of a record, with
  the errors they return. The locale \<open>hash_contract\<close> says what a well-behaved vtable does, the
  three built-in ones are its interpretations, and the HMAC theorems are proved in it once.
\<close>

section \<open>The vtable\<close>

text \<open>
  \<^verbatim>\<open>'c\<close> is the type of the context buffer. The final function returns the bytes it writes at
  the digest pointer, \<open>None\<close> when it writes none.
\<close>

record 'c xHashVtable =
  digest_size :: nat
  block_size :: nat
  ctx_size :: nat
  vt_init :: "'c \<Rightarrow> xErrno \<times> 'c"
  vt_update :: "'c \<Rightarrow> octets \<Rightarrow> xErrno \<times> 'c"
  vt_final :: "'c \<Rightarrow> xErrno \<times> 'c \<times> octets option"

definition HMAC_MAX_BLOCK_SIZE :: nat where
  "HMAC_MAX_BLOCK_SIZE = 128"

definition HMAC_MAX_DIGEST_SIZE :: nat where
  "HMAC_MAX_DIGEST_SIZE = 64"

definition HMAC_MAX_CTX_SIZE :: nat where
  "HMAC_MAX_CTX_SIZE = 256"

record 'c xHmacState =
  hs_hash :: "'c xHashVtable option"
  hs_opad :: octets
  hs_inner :: 'c

text \<open>
  \<^verbatim>\<open>memset (st, 0, sizeof (*st))\<close>; \<open>z\<close> is the context buffer of zero bytes.
\<close>

definition hmac_zero :: "'c \<Rightarrow> 'c xHmacState" where
  "hmac_zero z = \<lparr>hs_hash = None, hs_opad = replicate HMAC_MAX_BLOCK_SIZE 0, hs_inner = z\<rparr>"

section \<open>Operations\<close>

text \<open>The digest of the final call is discarded, so the call shows only in the cleared state.\<close>

definition hmac_cleanup :: "'c \<Rightarrow> 'c xHmacState \<Rightarrow> 'c xHmacState" where
  "hmac_cleanup z st = (case hs_hash st of None \<Rightarrow> st | Some h \<Rightarrow> hmac_zero z)"

text \<open>
  The normalised key: hashed when it is longer than a block, filled up with zeros. \<open>Inl\<close> is an
  early return with its error.
\<close>

definition hmac_key ::
  "'c \<Rightarrow> 'c xHashVtable \<Rightarrow> 'c xHmacState \<Rightarrow> octets
   \<Rightarrow> xErrno \<times> 'c xHmacState + octets \<times> 'c xHmacState" where
  "hmac_key z h st key =
     (let k = replicate (block_size h) 0 in
      if block_size h < length key then
        (case vt_init h (hs_inner st) of (e1, c1) \<Rightarrow>
         if e1 \<noteq> xErrno_Ok then Inl (e1, st\<lparr>hs_inner := c1\<rparr>)
         else
           (case vt_update h c1 key of (e2, c2) \<Rightarrow>
            if e2 \<noteq> xErrno_Ok then Inl (e2, hmac_cleanup z (st\<lparr>hs_inner := c2\<rparr>))
            else
              (case vt_final h c2 of (e3, c3, out) \<Rightarrow>
               if e3 \<noteq> xErrno_Ok then Inl (e3, hmac_cleanup z (st\<lparr>hs_inner := c3\<rparr>))
               else Inr (store_at 0 (case out of None \<Rightarrow> [] | Some d \<Rightarrow> d) k, st\<lparr>hs_inner := c3\<rparr>))))
      else Inr (store_at 0 key k, st))"

definition xHmacInit ::
  "'c \<Rightarrow> 'c xHmacState option \<Rightarrow> 'c xHashVtable option \<Rightarrow> octets option
   \<Rightarrow> xErrno \<times> 'c xHmacState option" where
  "xHmacInit z ctx hash key_ptr =
     (case (ctx, hash, key_ptr) of
        (Some _, Some h, Some key) \<Rightarrow>
          if HMAC_MAX_BLOCK_SIZE < block_size h then (xErrno_InvalidArg, ctx)
          else if HMAC_MAX_DIGEST_SIZE < digest_size h then (xErrno_InvalidArg, ctx)
          else if HMAC_MAX_CTX_SIZE < ctx_size h then (xErrno_InvalidArg, ctx)
          else
            (case hmac_key z h ((hmac_zero z)\<lparr>hs_hash := Some h\<rparr>) key of
               Inl (e, st) \<Rightarrow> (e, Some st)
             | Inr (k, st) \<Rightarrow>
                 let ipad = map (\<lambda>i. k ! i XOR 0x36) [0..<block_size h];
                     opad = map (\<lambda>i. k ! i XOR 0x5C) [0..<block_size h];
                     st1 = st\<lparr>hs_opad := store_at 0 opad (hs_opad st)\<rparr>
                 in (case vt_init h (hs_inner st1) of (e1, c1) \<Rightarrow>
                     if e1 \<noteq> xErrno_Ok then (e1, Some (st1\<lparr>hs_inner := c1\<rparr>))
                     else
                       (case vt_update h c1 ipad of (e2, c2) \<Rightarrow>
                        if e2 \<noteq> xErrno_Ok then (e2, Some (hmac_cleanup z (st1\<lparr>hs_inner := c2\<rparr>)))
                        else (xErrno_Ok, Some (st1\<lparr>hs_inner := c2\<rparr>)))))
      | _ \<Rightarrow> (xErrno_InvalidArg, ctx))"

definition xHmacUpdate ::
  "'c xHmacState option \<Rightarrow> octets option \<Rightarrow> xErrno \<times> 'c xHmacState option" where
  "xHmacUpdate ctx data =
     (case (ctx, data) of
        (Some st, Some d) \<Rightarrow>
          (case hs_hash st of
             None \<Rightarrow> (xErrno_InvalidArg, ctx)
           | Some h \<Rightarrow> (case vt_update h (hs_inner st) d of
                         (e, c) \<Rightarrow> (e, Some (st\<lparr>hs_inner := c\<rparr>))))
      | _ \<Rightarrow> (xErrno_InvalidArg, ctx))"

definition xHmacFinal ::
  "'c \<Rightarrow> 'c xHmacState option \<Rightarrow> bool \<Rightarrow> xErrno \<times> 'c xHmacState option \<times> octets option" where
  "xHmacFinal z ctx want =
     (case ctx of
        None \<Rightarrow> (xErrno_InvalidArg, ctx, None)
      | Some st \<Rightarrow>
          (case hs_hash st of
             None \<Rightarrow> (xErrno_InvalidArg, ctx, None)
           | Some h \<Rightarrow>
               if \<not> want then (xErrno_InvalidArg, Some (hmac_cleanup z st), None)
               else
                 (case vt_final h (hs_inner st) of (e1, c1, inner) \<Rightarrow>
                  if e1 \<noteq> xErrno_Ok then (e1, Some (st\<lparr>hs_inner := c1\<rparr>), None)
                  else
                    (case vt_init h c1 of (e2, c2) \<Rightarrow>
                     if e2 \<noteq> xErrno_Ok then (e2, Some (st\<lparr>hs_inner := c2\<rparr>), None)
                     else
                       (case vt_update h c2 (take (block_size h) (hs_opad st)) of (e3, c3) \<Rightarrow>
                        if e3 \<noteq> xErrno_Ok
                        then (e3, Some (hmac_cleanup z (st\<lparr>hs_inner := c3\<rparr>)), None)
                        else
                          (case vt_update h c3
                                  (take (digest_size h) (case inner of None \<Rightarrow> [] | Some d \<Rightarrow> d))
                           of (e4, c4) \<Rightarrow>
                           if e4 \<noteq> xErrno_Ok
                           then (e4, Some (hmac_cleanup z (st\<lparr>hs_inner := c4\<rparr>)), None)
                           else (case vt_final h c4 of
                                   (e5, c5, out) \<Rightarrow> (e5, Some (hmac_zero z), out))))))))"

text \<open>The one-shot function; \<open>junk\<close> is the context on its stack, returned as the function leaves it.\<close>

definition xHmac ::
  "'c \<Rightarrow> 'c xHmacState \<Rightarrow> 'c xHashVtable option \<Rightarrow> octets option \<Rightarrow> octets option \<Rightarrow> bool
   \<Rightarrow> xErrno \<times> 'c xHmacState option \<times> octets option" where
  "xHmac z junk hash key data want =
     (if data = None then (xErrno_InvalidArg, Some junk, None)
      else
        (case xHmacInit z (Some junk) hash key of (e1, c1) \<Rightarrow>
         if e1 \<noteq> xErrno_Ok then (e1, c1, None)
         else
           (case xHmacUpdate c1 data of (e2, c2) \<Rightarrow>
            if e2 \<noteq> xErrno_Ok then (e2, map_option (hmac_cleanup z) c2, None)
            else
              (case xHmacFinal z c2 want of (e3, c3, out) \<Rightarrow>
               (e3, if e3 \<noteq> xErrno_Ok then map_option (hmac_cleanup z) c3 else c3, out)))))"

section \<open>The built-in vtables\<close>

definition xHashVtableMd5 :: "digest_ctx xHashVtable" where
  "xHashVtableMd5 =
     \<lparr>digest_size = 16, block_size = 64, ctx_size = 128,
      vt_init = (\<lambda>c. case xMd5Init (Some c) of (e, c1) \<Rightarrow> (e, the c1)),
      vt_update = (\<lambda>c d. case xMd5Update (Some c) (Some d) of (e, c1) \<Rightarrow> (e, the c1)),
      vt_final = (\<lambda>c. case xMd5Final (Some c) True of (e, c1, out) \<Rightarrow> (e, the c1, out))\<rparr>"

definition xHashVtableSha1 :: "digest_ctx xHashVtable" where
  "xHashVtableSha1 =
     \<lparr>digest_size = 20, block_size = 64, ctx_size = 128,
      vt_init = (\<lambda>c. case xSha1Init (Some c) of (e, c1) \<Rightarrow> (e, the c1)),
      vt_update = (\<lambda>c d. case xSha1Update (Some c) (Some d) of (e, c1) \<Rightarrow> (e, the c1)),
      vt_final = (\<lambda>c. case xSha1Final (Some c) True of (e, c1, out) \<Rightarrow> (e, the c1, out))\<rparr>"

definition xHashVtableSha256 :: "digest_ctx xHashVtable" where
  "xHashVtableSha256 =
     \<lparr>digest_size = 32, block_size = 64, ctx_size = 128,
      vt_init = (\<lambda>c. case xSha256Init (Some c) of (e, c1) \<Rightarrow> (e, the c1)),
      vt_update = (\<lambda>c d. case xSha256Update (Some c) (Some d) of (e, c1) \<Rightarrow> (e, the c1)),
      vt_final = (\<lambda>c. case xSha256Final (Some c) True of (e, c1, out) \<Rightarrow> (e, the c1, out))\<rparr>"

text \<open>\<open>z0\<close> is the zeroed 256-byte context area of the HMAC state, seen as a context.\<close>

definition z0 :: digest_ctx where
  "z0 = zero_ctx 0"

definition xHmacMd5 ::
  "digest_ctx xHmacState \<Rightarrow> octets option \<Rightarrow> octets option \<Rightarrow> bool
   \<Rightarrow> xErrno \<times> digest_ctx xHmacState option \<times> octets option" where
  "xHmacMd5 junk key data want = xHmac z0 junk (Some xHashVtableMd5) key data want"

definition xHmacSha1 ::
  "digest_ctx xHmacState \<Rightarrow> octets option \<Rightarrow> octets option \<Rightarrow> bool
   \<Rightarrow> xErrno \<times> digest_ctx xHmacState option \<times> octets option" where
  "xHmacSha1 junk key data want = xHmac z0 junk (Some xHashVtableSha1) key data want"

definition xHmacSha256 ::
  "digest_ctx xHmacState \<Rightarrow> octets option \<Rightarrow> octets option \<Rightarrow> bool
   \<Rightarrow> xErrno \<times> digest_ctx xHmacState option \<times> octets option" where
  "xHmacSha256 junk key data want = xHmac z0 junk (Some xHashVtableSha256) key data want"

section \<open>RFC 2104\<close>

definition hmac_block_key :: "(octets \<Rightarrow> octets) \<Rightarrow> nat \<Rightarrow> octets \<Rightarrow> octets" where
  "hmac_block_key H B key =
     (let k = (if B < length key then H key else key) in k @ replicate (B - length k) 0)"

definition HMAC :: "(octets \<Rightarrow> octets) \<Rightarrow> nat \<Rightarrow> octets \<Rightarrow> octets \<Rightarrow> octets" where
  "HMAC H B key data =
     (let k = hmac_block_key H B key
      in H (map (\<lambda>b. b XOR 0x5C) k @ H (map (\<lambda>b. b XOR 0x36) k @ data)))"

text \<open>An initialised state, pieces of data one after the other, the final step.\<close>

definition hmac_stream ::
  "'c \<Rightarrow> 'c xHmacState \<Rightarrow> 'c xHashVtable \<Rightarrow> octets \<Rightarrow> octets list
   \<Rightarrow> xErrno \<times> 'c xHmacState option \<times> octets option" where
  "hmac_stream z junk h key ds =
     xHmacFinal z (foldl (\<lambda>c d. snd (xHmacUpdate c (Some d)))
                     (snd (xHmacInit z (Some junk) (Some h) (Some key))) ds) True"

section \<open>A hash that keeps its contract\<close>

locale hash_contract =
  fixes h :: "'c xHashVtable"
    and absorbed :: "octets \<Rightarrow> 'c \<Rightarrow> bool"
    and H :: "octets \<Rightarrow> octets"
  assumes init_ok: "\<exists>c1. vt_init h c = (xErrno_Ok, c1) \<and> absorbed [] c1"
    and update_ok: "absorbed m c \<Longrightarrow> \<exists>c1. vt_update h c d = (xErrno_Ok, c1) \<and> absorbed (m @ d) c1"
    and final_ok: "absorbed m c \<Longrightarrow> \<exists>c1. vt_final h c = (xErrno_Ok, c1, Some (H m))"
    and length_H: "length (H m) = digest_size h"
    and sizes: "digest_size h \<le> block_size h" "block_size h \<le> HMAC_MAX_BLOCK_SIZE"
      "digest_size h \<le> HMAC_MAX_DIGEST_SIZE" "ctx_size h \<le> HMAC_MAX_CTX_SIZE"
begin

definition B :: nat where
  "B = block_size h"

definition primed :: "octets \<Rightarrow> octets \<Rightarrow> 'c xHmacState \<Rightarrow> bool" where
  "primed key data st \<longleftrightarrow> hs_hash st = Some h
     \<and> take B (hs_opad st) = map (\<lambda>b. b XOR 0x5C) (hmac_block_key H B key)
     \<and> absorbed (map (\<lambda>b. b XOR 0x36) (hmac_block_key H B key) @ data) (hs_inner st)"

lemma length_block_key: "length (hmac_block_key H B key) = B"
  using sizes(1) by (auto simp: hmac_block_key_def Let_def B_def length_H)

lemma key_normalised:
  "\<exists>c. hmac_key z h st key = Inr (hmac_block_key H B key, st\<lparr>hs_inner := c\<rparr>)"
proof (cases "B < length key")
  case True
  obtain c1 where c1: "vt_init h (hs_inner st) = (xErrno_Ok, c1)" "absorbed [] c1"
    using init_ok by blast
  obtain c2 where c2: "vt_update h c1 key = (xErrno_Ok, c2)" "absorbed key c2"
    using update_ok [OF c1(2), of key] by auto
  obtain c3 where c3: "vt_final h c2 = (xErrno_Ok, c3, Some (H key))"
    using final_ok [OF c2(2)] by blast
  from True have "hmac_key z h st key = Inr (hmac_block_key H B key, st\<lparr>hs_inner := c3\<rparr>)"
    by (simp add: hmac_key_def B_def c1 c2 c3 hmac_block_key_def store_at_def Let_def)
  then show ?thesis by blast
next
  case False
  then have "hmac_key z h st key = Inr (hmac_block_key H B key, st\<lparr>hs_inner := hs_inner st\<rparr>)"
    by (simp add: hmac_key_def B_def hmac_block_key_def store_at_def)
  then show ?thesis by blast
qed

lemma init_primes:
  "\<exists>st. xHmacInit z (Some junk) (Some h) (Some key) = (xErrno_Ok, Some st) \<and> primed key [] st"
proof -
  let ?k = "hmac_block_key H B key"
  let ?ipad = "map (\<lambda>b. b XOR 0x36) ?k" and ?opad = "map (\<lambda>b. b XOR 0x5C) ?k"
  obtain c where c: "hmac_key z h ((hmac_zero z)\<lparr>hs_hash := Some h\<rparr>) key
      = Inr (?k, ((hmac_zero z)\<lparr>hs_hash := Some h\<rparr>)\<lparr>hs_inner := c\<rparr>)"
    using key_normalised by blast
  obtain c1 where c1: "vt_init h c = (xErrno_Ok, c1)" "absorbed [] c1"
    using init_ok by blast
  obtain c2 where c2: "vt_update h c1 ?ipad = (xErrno_Ok, c2)" "absorbed ?ipad c2"
    using update_ok [OF c1(2), of ?ipad] by auto
  have pads: "map (\<lambda>i. ?k ! i XOR x) [0..<block_size h] = map (\<lambda>b. b XOR x) ?k" for x
    using map_words [OF length_block_key, of "\<lambda>b. b XOR x" key] by (simp add: B_def)
  have "take B (store_at 0 ?opad (replicate HMAC_MAX_BLOCK_SIZE 0)) = ?opad"
    using take_store_at [of 0 ?opad "replicate HMAC_MAX_BLOCK_SIZE 0"] sizes(2) length_block_key [of key]
    by (simp add: B_def)
  then show ?thesis
    using c c1 c2 sizes
    by (simp add: xHmacInit_def pads primed_def Let_def hmac_zero_def)
qed

lemma update_primed:
  assumes "primed key data st"
  shows "\<exists>st1. xHmacUpdate (Some st) (Some d) = (xErrno_Ok, Some st1) \<and> primed key (data @ d) st1"
proof -
  have "absorbed (map (\<lambda>b. b XOR 0x36) (hmac_block_key H B key) @ data) (hs_inner st)"
    using assms by (simp add: primed_def)
  then obtain c where "vt_update h (hs_inner st) d = (xErrno_Ok, c)"
    "absorbed ((map (\<lambda>b. b XOR 0x36) (hmac_block_key H B key) @ data) @ d) c"
    using update_ok by blast
  then show ?thesis using assms by (simp add: primed_def xHmacUpdate_def)
qed

lemma updates_primed:
  "primed key data st \<Longrightarrow>
   \<exists>st1. foldl (\<lambda>c d. snd (xHmacUpdate c (Some d))) (Some st) ds = Some st1
         \<and> primed key (data @ concat ds) st1"
proof (induction ds arbitrary: data st)
  case (Cons d ds)
  then obtain st1 where "xHmacUpdate (Some st) (Some d) = (xErrno_Ok, Some st1)"
    "primed key (data @ d) st1" using update_primed by blast
  with Cons.IH [of "data @ d" st1] show ?case by simp
qed simp

lemma final_primed:
  assumes "primed key data st"
  shows "xHmacFinal z (Some st) True = (xErrno_Ok, Some (hmac_zero z), Some (HMAC H B key data))"
proof -
  let ?k = "hmac_block_key H B key"
  let ?opad = "map (\<lambda>b. b XOR 0x5C) ?k"
  let ?inner = "H (map (\<lambda>b. b XOR 0x36) ?k @ data)"
  have st: "hs_hash st = Some h" "take (block_size h) (hs_opad st) = ?opad"
    "absorbed (map (\<lambda>b. b XOR 0x36) ?k @ data) (hs_inner st)"
    using assms by (simp_all add: primed_def B_def)
  obtain c1 where c1: "vt_final h (hs_inner st) = (xErrno_Ok, c1, Some ?inner)"
    using final_ok [OF st(3)] by blast
  obtain c2 where c2: "vt_init h c1 = (xErrno_Ok, c2)" "absorbed [] c2" using init_ok by blast
  obtain c3 where c3: "vt_update h c2 ?opad = (xErrno_Ok, c3)" "absorbed ?opad c3"
    using update_ok [OF c2(2), of ?opad] by auto
  obtain c4 where c4: "vt_update h c3 ?inner = (xErrno_Ok, c4)" "absorbed (?opad @ ?inner) c4"
    using update_ok [OF c3(2)] by blast
  obtain c5 where c5: "vt_final h c4 = (xErrno_Ok, c5, Some (H (?opad @ ?inner)))"
    using final_ok [OF c4(2)] by blast
  show ?thesis
    using length_H by (simp add: xHmacFinal_def st c1 c2 c3 c4 c5 HMAC_def Let_def)
qed

lemma stream_rfc2104:
  "hmac_stream z junk h key ds
   = (xErrno_Ok, Some (hmac_zero z), Some (HMAC H B key (concat ds)))"
proof -
  obtain st where st: "xHmacInit z (Some junk) (Some h) (Some key) = (xErrno_Ok, Some st)"
    "primed key [] st" using init_primes by blast
  obtain st1 where "foldl (\<lambda>c d. snd (xHmacUpdate c (Some d))) (Some st) ds = Some st1"
    "primed key (concat ds) st1" using updates_primed [OF st(2), of ds] by auto
  then show ?thesis by (simp add: hmac_stream_def st final_primed)
qed

lemma one_shot_rfc2104:
  "xHmac z junk (Some h) (Some key) (Some data) True
   = (xErrno_Ok, Some (hmac_zero z), Some (HMAC H B key data))"
proof -
  obtain st where st: "xHmacInit z (Some junk) (Some h) (Some key) = (xErrno_Ok, Some st)"
    "primed key [] st" using init_primes by blast
  obtain st1 where "xHmacUpdate (Some st) (Some data) = (xErrno_Ok, Some st1)"
    "primed key data st1" using update_primed [OF st(2), of data] by auto
  then show ?thesis by (simp add: xHmac_def st final_primed)
qed

end

section \<open>The built-in hashes keep the contract\<close>

lemmas vt_defs = xHashVtableMd5_def xHashVtableSha1_def xHashVtableSha256_def
  HMAC_MAX_BLOCK_SIZE_def HMAC_MAX_DIGEST_SIZE_def HMAC_MAX_CTX_SIZE_def
  hash_update_def hash_final_def start_defs update_steps length_digests

interpretation hmac_md5: hash_contract xHashVtableMd5 md5.absorbed MD5
  by unfold_locales
     (auto simp: vt_defs xMd5Update_def xMd5Final_def md5_final_digest
       intro: md5.absorbed_update md5.absorbed_init)

interpretation hmac_sha1: hash_contract xHashVtableSha1 sha1.absorbed SHA1
  by unfold_locales
     (auto simp: vt_defs xSha1Update_def xSha1Final_def sha1_final_digest
       intro: sha1.absorbed_update sha1.absorbed_init)

interpretation hmac_sha256: hash_contract xHashVtableSha256 sha256.absorbed SHA256
  by unfold_locales
     (auto simp: vt_defs xSha256Update_def xSha256Final_def sha256_final_digest
       intro: sha256.absorbed_update sha256.absorbed_init)

lemma block_sizes: "hmac_md5.B = 64" "hmac_sha1.B = 64" "hmac_sha256.B = 64"
  unfolding hmac_md5.B_def hmac_sha1.B_def hmac_sha256.B_def by (simp_all add: vt_defs)

section \<open>Clearing the state\<close>

text \<open>
  Whatever the functions of a vtable return: once the state is initialised, a final step that
  succeeds clears it, and where it fails the cleanup does.
\<close>

lemma hmac_cleanup_zero: "hs_hash st \<noteq> None \<Longrightarrow> hmac_cleanup z st = hmac_zero z"
  by (auto simp: hmac_cleanup_def)

lemma hmac_cleanup_idem [simp]: "hmac_cleanup z (hmac_zero z) = hmac_zero z"
  by (simp add: hmac_cleanup_def hmac_zero_def)

lemma final_clears:
  assumes "hs_hash st = Some h" "xHmacFinal z (Some st) want = (e, c, out)"
  shows "\<exists>st1. c = Some st1 \<and> hmac_cleanup z st1 = hmac_zero z \<and> (e = xErrno_Ok \<longrightarrow> st1 = hmac_zero z)"
  using assms
  by (auto simp: xHmacFinal_def hmac_cleanup_zero split: if_splits prod.splits)

lemma init_ok_hash:
  assumes "xHmacInit z ctx hash key = (xErrno_Ok, c)"
  shows "\<exists>st h. c = Some st \<and> hs_hash st = Some h"
  using assms
  by (auto simp: xHmacInit_def hmac_key_def Let_def split: option.splits if_splits prod.splits sum.splits)

section \<open>Properties\<close>

text \<open>
  C18. HMAC over each built-in hash is the function of RFC 2104: for every key (shorter than a
  block, as long, or longer and therefore hashed first) and every way of cutting the data into
  updates, the stream ends with success, the digest of the whole data and a cleared state; the
  one-shot wrappers return the same digest.
\<close>

theorem hmac_rfc2104:
  "hmac_stream z0 junk xHashVtableMd5 key ds
     = (xErrno_Ok, Some (hmac_zero z0), Some (HMAC MD5 64 key (concat ds)))
   \<and> hmac_stream z0 junk xHashVtableSha1 key ds
     = (xErrno_Ok, Some (hmac_zero z0), Some (HMAC SHA1 64 key (concat ds)))
   \<and> hmac_stream z0 junk xHashVtableSha256 key ds
     = (xErrno_Ok, Some (hmac_zero z0), Some (HMAC SHA256 64 key (concat ds)))
   \<and> xHmacMd5 junk (Some key) (Some d) True
     = (xErrno_Ok, Some (hmac_zero z0), Some (HMAC MD5 64 key d))
   \<and> xHmacSha1 junk (Some key) (Some d) True
     = (xErrno_Ok, Some (hmac_zero z0), Some (HMAC SHA1 64 key d))
   \<and> xHmacSha256 junk (Some key) (Some d) True
     = (xErrno_Ok, Some (hmac_zero z0), Some (HMAC SHA256 64 key d))"
  using hmac_md5.stream_rfc2104 hmac_sha1.stream_rfc2104 hmac_sha256.stream_rfc2104
    hmac_md5.one_shot_rfc2104 hmac_sha1.one_shot_rfc2104 hmac_sha256.one_shot_rfc2104
  by (simp add: block_sizes xHmacMd5_def xHmacSha1_def xHmacSha256_def)

text \<open>
  C19. Key material does not outlive a one-shot call: for every vtable, whatever errors its
  functions return and whatever digests they write, once \<^verbatim>\<open>xHmacInit\<close> has succeeded the state
  on the stack is all zero when \<^verbatim>\<open>xHmac\<close> returns, on the paths where an update or a final step
  fails or the digest pointer is null as on the successful one.
\<close>

theorem hmac_state_cleared:
  assumes init: "fst (xHmacInit z (Some junk) hash key) = xErrno_Ok"
    and run: "xHmac z junk hash key (Some d) want = (e, c, out)"
  shows "c = Some (hmac_zero z)"
proof -
  obtain st h where st: "xHmacInit z (Some junk) hash key = (xErrno_Ok, Some st)"
    "hs_hash st = Some h"
    using init init_ok_hash [of z "Some junk" hash key] by (metis prod.collapse)
  obtain e2 ctx where u: "vt_update h (hs_inner st) d = (e2, ctx)" by fastforce
  let ?st2 = "st\<lparr>hs_inner := ctx\<rparr>"
  have u2: "xHmacUpdate (Some st) (Some d) = (e2, Some ?st2)"
    by (simp add: xHmacUpdate_def st u)
  show ?thesis
  proof (cases "e2 = xErrno_Ok")
    case True
    obtain e3 c3 out3 where f: "xHmacFinal z (Some ?st2) want = (e3, c3, out3)"
      by (metis prod.collapse)
    show ?thesis
      using final_clears [OF _ f] run st(2) by (auto simp: xHmac_def st(1) u2 True f split: if_splits)
  qed (use run st in \<open>auto simp: xHmac_def u2 hmac_cleanup_zero\<close>)
qed

theorem hmac_state_cleared_witness:
  "(case xHmac z0 (hmac_zero z0) (Some xHashVtableMd5) (Some [1]) (Some [2]) False of
      (e, c, out) \<Rightarrow> c) = Some (hmac_zero z0)"
proof -
  obtain e c out where r: "xHmac z0 (hmac_zero z0) (Some xHashVtableMd5) (Some [1]) (Some [2]) False
      = (e, c, out)" by (metis prod.collapse)
  have "fst (xHmacInit z0 (Some (hmac_zero z0)) (Some xHashVtableMd5) (Some [1])) = xErrno_Ok"
    using hmac_md5.init_primes [of z0 "hmac_zero z0" "[1]"] by auto
  from hmac_state_cleared [OF this r] show ?thesis by (simp add: r)
qed

end
