(* ===== verification/Crc32.thy ===== *)
theory Crc32
  imports Digest
begin

text \<open>
  \<^verbatim>\<open>crypto/crc32.c\<close>: the lookup table and the byte-at-a-time loop, compared with the shift
  register that takes one bit of the message at a time.
\<close>

definition crc_poly :: "32 word" where
  "crc_poly = 0xEDB88320"

text \<open>One step of the register: shift right, and subtract the polynomial when a bit falls out.\<close>

definition crc_step :: "32 word \<Rightarrow> 32 word" where
  "crc_step crc = (if crc AND 1 \<noteq> 0 then drop_bit 1 crc XOR crc_poly else drop_bit 1 crc)"

definition crc32_compute_entry :: "32 word \<Rightarrow> 32 word" where
  "crc32_compute_entry index = (crc_step ^^ 8) index"

text \<open>
  The table is a static, filled by the first call; \<open>None\<close> is the state in which
  \<^verbatim>\<open>crc32_table_initialized\<close> is 0.
\<close>

type_synonym crc_table = "32 word list option"

definition crc32_init_table :: "crc_table \<Rightarrow> crc_table" where
  "crc32_init_table t =
     (case t of Some _ \<Rightarrow> t
      | None \<Rightarrow> Some (map (\<lambda>i. crc32_compute_entry (of_nat i)) [0..<256]))"

definition xCrc32 :: "crc_table \<Rightarrow> octets \<Rightarrow> 32 word \<times> crc_table" where
  "xCrc32 t0 data =
     (let t = crc32_init_table t0;
          crc = fold (\<lambda>b crc. the t ! unat ((crc XOR ucast b) AND 0xFF) XOR drop_bit 8 crc)
                  data 0xFFFFFFFF
      in (crc XOR 0xFFFFFFFF, t))"

section \<open>The shift register\<close>

text \<open>
  The reference: the bits of each byte, least significant first, go one by one into the
  register. A bit is added to the lowest position before the step.
\<close>

definition crc_bit :: "bool \<Rightarrow> 32 word \<Rightarrow> 32 word" where
  "crc_bit b crc = crc_step (crc XOR (if b then 1 else 0))"

definition message_bits :: "octets \<Rightarrow> bool list" where
  "message_bits data = concat (map (\<lambda>b. map (bit b) [0..<8]) data)"

definition crc_register :: "octets \<Rightarrow> 32 word" where
  "crc_register data = fold crc_bit (message_bits data) 0xFFFFFFFF XOR 0xFFFFFFFF"

text \<open>The table an initialised process holds.\<close>

definition crc_table_ok :: "crc_table \<Rightarrow> bool" where
  "crc_table_ok t \<longleftrightarrow> t = None \<or> t = Some (map (\<lambda>i. crc32_compute_entry (of_nat i)) [0..<256])"

text \<open>A step is linear over exclusive or.\<close>

lemma and_one_bit: "(x AND 1 \<noteq> 0) = bit x 0" for x :: "32 word"
  by (simp add: and_one_eq bit_0 odd_iff_mod_2_eq_one)

lemma crc_step_bit:
  "crc_step x = drop_bit 1 x XOR (if bit x 0 then crc_poly else 0)"
  by (simp add: crc_step_def and_one_bit)

lemma crc_step_xor: "crc_step (x XOR y) = crc_step x XOR crc_step y"
  by (cases "bit x 0"; cases "bit y 0")
     (simp_all add: crc_step_bit bit_xor_iff drop_bit_xor ac_simps)

lemma crc_steps_xor: "(crc_step ^^ n) (x XOR y) = (crc_step ^^ n) x XOR (crc_step ^^ n) y"
  by (induction n) (simp_all add: crc_step_xor)

text \<open>A value whose low \<open>n\<close> bits are zero is only shifted by \<open>n\<close> steps.\<close>

lemma crc_steps_shift:
  "\<forall>i<n. \<not> bit x i \<Longrightarrow> (crc_step ^^ n) x = drop_bit n x"
proof (induction n)
  case (Suc n)
  then have "(crc_step ^^ n) x = drop_bit n x" by simp
  moreover have "\<not> bit (drop_bit n x) 0" using Suc.prems by (simp add: bit_drop_bit_eq)
  then have "crc_step (drop_bit n x) = drop_bit (Suc n) x"
    by (simp add: crc_step_bit drop_bit_drop_bit)
  ultimately show ?case by simp
qed simp

lemma low_bits_split: "x = take_bit 8 x XOR push_bit 8 (drop_bit 8 x)" for x :: "32 word"
  by (rule bit_word_eqI) (auto simp: bit_xor_iff bit_take_bit_iff bit_push_bit_iff bit_drop_bit_eq)

lemma crc_eight: "(crc_step ^^ 8) x = (crc_step ^^ 8) (take_bit 8 x) XOR drop_bit 8 x"
proof -
  have "(crc_step ^^ 8) (push_bit 8 (drop_bit 8 x)) = drop_bit 8 (push_bit 8 (drop_bit 8 x))"
    by (intro crc_steps_shift) (simp add: bit_push_bit_iff)
  also have "\<dots> = drop_bit 8 x"
    by (rule bit_word_eqI) (auto simp: bit_push_bit_iff bit_drop_bit_eq dest: bit_imp_le_length)
  finally show ?thesis by (subst low_bits_split) (simp only: crc_steps_xor)
qed

lemma crc_steps_bit: "n < 32 \<Longrightarrow> (crc_step ^^ n) (2 ^ n) = 1"
proof -
  assume n: "n < 32"
  then have "(crc_step ^^ n) (2 ^ n) = drop_bit n (2 ^ n)"
    by (intro crc_steps_shift) (simp add: bit_exp_iff)
  also have "\<dots> = 1"
    using n by (intro bit_word_eqI) (auto simp: bit_drop_bit_eq bit_exp_iff bit_1_iff)
  finally show ?thesis .
qed

text \<open>The bits of a byte one by one, and the byte at once followed by as many steps.\<close>

lemma take_bit_Suc_xor:
  "ucast (take_bit (Suc n) b) = (ucast (take_bit n b) :: 32 word)
     XOR (if bit b n then push_bit n 1 else 0)" for b :: "8 word"
  by (rule bit_word_eqI)
     (auto simp: bit_xor_iff bit_take_bit_iff bit_ucast_iff bit_push_bit_iff bit_exp_iff less_Suc_eq
       dest: bit_imp_le_length)

lemma crc_bits_steps:
  fixes b :: "8 word"
  assumes "n \<le> 8"
  shows "fold crc_bit (map (bit b) [0..<n]) crc = (crc_step ^^ n) (crc XOR ucast (take_bit n b))"
  using assms
proof (induction n)
  case (Suc n)
  have "(crc_step ^^ n) (if bit b n then push_bit n 1 else 0) = (if bit b n then 1 else 0)"
    using Suc.prems crc_steps_bit [of n] crc_steps_shift [of n 0] by simp
  then have "(crc_step ^^ n) (crc XOR ucast (take_bit (Suc n) b))
      = (crc_step ^^ n) (crc XOR ucast (take_bit n b)) XOR (if bit b n then 1 else 0)"
    by (simp only: take_bit_Suc_xor xor.assoc [symmetric] crc_steps_xor)
  with Suc show ?case by (simp add: crc_bit_def)
qed simp

lemma crc_byte: "fold crc_bit (map (bit b) [0..<8]) crc = (crc_step ^^ 8) (crc XOR ucast b)"
  for b :: "8 word"
  using crc_bits_steps [of 8 b crc] by (simp add: take_bit_word_eq_self)

lemma and_255: "x AND 0xFF = take_bit 8 x" for x :: "32 word"
  by (simp add: take_bit_eq_mask mask_eq_exp_minus_1)

lemma table_step:
  "map (\<lambda>i. crc32_compute_entry (of_nat i)) [0..<256] ! unat ((crc XOR ucast b) AND 0xFF)
     XOR drop_bit 8 crc = fold crc_bit (map (bit b) [0..<8]) crc" for b :: "8 word"
proof -
  let ?x = "crc XOR ucast b" and ?i = "unat ((crc XOR ucast b) AND 0xFF)"
  have "?i < 256" using take_bit_nat_less_exp [of 8 "unat ?x"] 
    by (simp only: and_255 unsigned_take_bit_eq) simp
  then have "map (\<lambda>i. crc32_compute_entry (of_nat i)) [0..<256] ! ?i = (crc_step ^^ 8) (take_bit 8 ?x)"
    by (simp add: crc32_compute_entry_def and_255)
  moreover have "drop_bit 8 ?x = drop_bit 8 crc"
    by (rule bit_word_eqI) (auto simp: bit_xor_iff bit_ucast_iff bit_drop_bit_eq dest: bit_imp_le_length)
  ultimately show ?thesis by (simp only: crc_byte crc_eight [of ?x])
qed

lemma crc_loop:
  "fold (\<lambda>b crc. map (\<lambda>i. crc32_compute_entry (of_nat i)) [0..<256]
                   ! unat ((crc XOR ucast b) AND 0xFF) XOR drop_bit 8 crc) data crc
   = fold crc_bit (message_bits data) crc"
proof (induction data arbitrary: crc)
  case (Cons b data)
  then show ?case by (simp only: fold_Cons_rev table_step message_bits_def fold_append concat.simps list.map o_def
    fold_simps)
qed (simp add: message_bits_def)

section \<open>Properties\<close>

text \<open>
  C24. The table-driven checksum is the checksum of the shift register that takes the message
  bit by bit, whether or not an earlier call has filled the table; the table is filled after
  the call and stays as it is.
\<close>

theorem crc32_shift_register:
  "xCrc32 None data = (crc_register data, crc32_init_table None)
   \<and> xCrc32 (crc32_init_table None) data = xCrc32 None data"
  by (simp add: xCrc32_def crc32_init_table_def crc_loop crc_register_def Let_def)

end
