(* ===== verification/IoBuf.thy ===== *)
theory IoBuf
  imports Prelude
begin

text \<open>
  \<^verbatim>\<open>libx/x/buf/io.c\<close>: the block-chain buffer. A buffer is an array of references into blocks of
  \<open>XIOBUFFER_BLOCK_SIZE\<close> bytes; blocks carry a reference count and are shared between buffers
  (\<^verbatim>\<open>xIOBufferCut\<close> splits a reference without copying), so the model has an explicit store of
  blocks, and every operation takes and returns it. Released blocks go to a pool from which
  later ones are taken.

  The pool is a lock-free stack; the model takes its operations one at a time. A buffer pointer
  is never null here: the guards for that return at once. IoStore holds the invariant of the
  store and what each operation does to the bytes of a buffer, IoQueue the programs over several
  buffers and the properties.
\<close>

section \<open>Blocks\<close>

definition XIOBUFFER_BLOCK_SIZE :: nat where
  "XIOBUFFER_BLOCK_SIZE = 8192"

definition XIOBUFFER_INLINE_REFS :: nat where
  "XIOBUFFER_INLINE_REFS = 8"

record 'a xIOBlock =
  blk_refs :: nat
  blk_size :: nat
  blk_data :: "'a list"

text \<open>
  The memory: the block at an address, the pool with its head first, the next address
  \<^verbatim>\<open>malloc\<close> returns, the addresses given back with \<^verbatim>\<open>free\<close>, the outcomes of the allocations
  to come. The bytes of a block nobody has written are whatever \<open>mem_block\<close> has there.
\<close>

record 'a io_mem =
  mem_block :: "nat \<Rightarrow> 'a xIOBlock"
  mem_pool :: "nat list"
  mem_next :: nat
  mem_freed :: "nat list"
  mem_allocs :: allocs

definition pool_push :: "nat \<Rightarrow> 'a io_mem \<Rightarrow> 'a io_mem" where
  "pool_push b m = m\<lparr>mem_pool := b # mem_pool m\<rparr>"

definition pool_pop :: "'a io_mem \<Rightarrow> nat option \<times> 'a io_mem" where
  "pool_pop m = (case mem_pool m of [] \<Rightarrow> (None, m) | b # bs \<Rightarrow> (Some b, m\<lparr>mem_pool := bs\<rparr>))"

definition mem_draw :: "'a io_mem \<Rightarrow> bool \<times> 'a io_mem" where
  "mem_draw m = (case draw (mem_allocs m) of (ok, as) \<Rightarrow> (ok, m\<lparr>mem_allocs := as\<rparr>))"

definition mem_malloc :: "'a io_mem \<Rightarrow> nat option \<times> 'a io_mem" where
  "mem_malloc m = (case mem_draw m of
      (ok, m1) \<Rightarrow> if ok then (Some (mem_next m1), m1\<lparr>mem_next := mem_next m1 + 1\<rparr>) else (None, m1))"

definition set_block :: "nat \<Rightarrow> ('a xIOBlock \<Rightarrow> 'a xIOBlock) \<Rightarrow> 'a io_mem \<Rightarrow> 'a io_mem" where
  "set_block b f m = m\<lparr>mem_block := (mem_block m)(b := f (mem_block m b))\<rparr>"

definition xIOBlockAcquire :: "'a io_mem \<Rightarrow> nat option \<times> 'a io_mem" where
  "xIOBlockAcquire m =
     (case (case pool_pop m of (Some b, m1) \<Rightarrow> (Some b, m1) | (None, m1) \<Rightarrow> mem_malloc m1) of
        (None, m2) \<Rightarrow> (None, m2)
      | (Some b, m2) \<Rightarrow> (Some b, set_block b (\<lambda>k. k\<lparr>blk_refs := 1, blk_size := 0\<rparr>) m2))"

definition xIOBlockRetain :: "nat \<Rightarrow> 'a io_mem \<Rightarrow> 'a io_mem" where
  "xIOBlockRetain b m = set_block b (\<lambda>k. k\<lparr>blk_refs := blk_refs k + 1\<rparr>) m"

definition xIOBlockRelease :: "nat \<Rightarrow> 'a io_mem \<Rightarrow> 'a io_mem" where
  "xIOBlockRelease b m =
     (let m1 = set_block b (\<lambda>k. k\<lparr>blk_refs := blk_refs k - 1\<rparr>) m
      in if blk_refs (mem_block m1 b) = 0 then pool_push b m1 else m1)"

fun xIOBlockPoolWarmup :: "nat \<Rightarrow> 'a io_mem \<Rightarrow> xErrno \<times> 'a io_mem" where
  "xIOBlockPoolWarmup 0 m = (xErrno_Ok, m)"
| "xIOBlockPoolWarmup (Suc n) m =
     (case mem_malloc m of
        (None, m1) \<Rightarrow> (xErrno_NoMemory, m1)
      | (Some b, m1) \<Rightarrow>
          xIOBlockPoolWarmup n (pool_push b (set_block b (\<lambda>k. k\<lparr>blk_refs := 0\<rparr>) m1)))"

definition xIOBlockPoolDrain :: "'a io_mem \<Rightarrow> 'a io_mem" where
  "xIOBlockPoolDrain m = m\<lparr>mem_freed := mem_pool m @ mem_freed m, mem_pool := []\<rparr>"

section \<open>References\<close>

record xIOBufferRef =
  ref_block :: nat
  ref_offset :: nat
  ref_length :: nat

text \<open>
  \<open>io_inline\<close> tells whether \<^verbatim>\<open>refs\<close> points at the inline array; \<^verbatim>\<open>nrefs\<close> is the length of the list.
\<close>

record xIOBuffer =
  io_refs :: "xIOBufferRef list"
  io_inline :: bool
  io_cap :: nat
  io_nbytes :: nat

text \<open>\<^verbatim>\<open>while (newcap < needed) newcap *= 2\<close>\<close>

function ref_cap :: "nat \<Rightarrow> nat \<Rightarrow> nat" where
  "ref_cap c needed = (if 0 < c \<and> c < needed then ref_cap (c * 2) needed else c)"
  by pat_completeness auto
termination by (relation "measure (\<lambda>(c, needed). needed - c)") auto

declare ref_cap.simps [simp del]

definition iobuf_grow_refs ::
  "'a io_mem \<Rightarrow> xIOBuffer \<Rightarrow> nat \<Rightarrow> xErrno \<times> 'a io_mem \<times> xIOBuffer" where
  "iobuf_grow_refs m io needed =
     (if needed \<le> io_cap io then (xErrno_Ok, m, io)
      else
        let newcap = ref_cap (if io_cap io \<noteq> 0 then io_cap io * 2 else XIOBUFFER_INLINE_REFS) needed;
            (ok, m1) = mem_draw m
        in if ok then (xErrno_Ok, m1, io\<lparr>io_inline := False, io_cap := newcap\<rparr>)
           else (xErrno_NoMemory, m1, io))"

definition iobuf_push_ref ::
  "'a io_mem \<Rightarrow> xIOBuffer \<Rightarrow> xIOBufferRef \<Rightarrow> bool \<Rightarrow> xErrno \<times> 'a io_mem \<times> xIOBuffer" where
  "iobuf_push_ref m io r adjust_nbytes =
     (if ref_length r = 0 then (xErrno_Ok, m, io)
      else
        (case iobuf_grow_refs m io (length (io_refs io) + 1) of (err, m1, io1) \<Rightarrow>
         if err \<noteq> xErrno_Ok then (err, m1, io1)
         else (xErrno_Ok, m1, io1\<lparr>io_refs := io_refs io1 @ [r],
                                 io_nbytes := (if adjust_nbytes then io_nbytes io1 + ref_length r
                                               else io_nbytes io1)\<rparr>)))"

section \<open>Lifecycle and queries\<close>

definition xIOBufferInit :: xIOBuffer where
  "xIOBufferInit =
     \<lparr>io_refs = [], io_inline = True, io_cap = XIOBUFFER_INLINE_REFS, io_nbytes = 0\<rparr>"

definition release_refs :: "xIOBufferRef list \<Rightarrow> 'a io_mem \<Rightarrow> 'a io_mem" where
  "release_refs rs m = fold (\<lambda>r. xIOBlockRelease (ref_block r)) rs m"

definition xIOBufferDeinit :: "'a io_mem \<Rightarrow> xIOBuffer \<Rightarrow> 'a io_mem \<times> xIOBuffer" where
  "xIOBufferDeinit m io = (release_refs (io_refs io) m, xIOBufferInit)"

definition xIOBufferReset :: "'a io_mem \<Rightarrow> xIOBuffer \<Rightarrow> 'a io_mem \<times> xIOBuffer" where
  "xIOBufferReset m io = (release_refs (io_refs io) m, io\<lparr>io_refs := [], io_nbytes := 0\<rparr>)"

definition xIOBufferLen :: "xIOBuffer \<Rightarrow> nat" where
  "xIOBufferLen io = io_nbytes io"

definition xIOBufferEmpty :: "xIOBuffer \<Rightarrow> bool" where
  "xIOBufferEmpty io \<longleftrightarrow> io_nbytes io = 0"

definition xIOBufferRefCount :: "xIOBuffer \<Rightarrow> nat" where
  "xIOBufferRefCount io = length (io_refs io)"

section \<open>Append\<close>

text \<open>\<^verbatim>\<open>memcpy\<close> to an offset of a block.\<close>

definition write_block :: "nat \<Rightarrow> nat \<Rightarrow> 'a list \<Rightarrow> 'a io_mem \<Rightarrow> 'a io_mem" where
  "write_block b pos xs =
     set_block b (\<lambda>k. k\<lparr>blk_data := take pos (blk_data k) @ xs @ drop (pos + length xs) (blk_data k)\<rparr>)"

definition ref_end :: "xIOBufferRef \<Rightarrow> nat" where
  "ref_end r = ref_offset r + ref_length r"

text \<open>Filling the room behind the last reference: what is left of the input.\<close>

definition fill_tail ::
  "'a io_mem \<Rightarrow> xIOBuffer \<Rightarrow> 'a list \<Rightarrow> 'a io_mem \<times> xIOBuffer \<times> 'a list" where
  "fill_tail m io src =
     (if io_refs io = [] then (m, io, src)
      else
        let tail = last (io_refs io); avail = XIOBUFFER_BLOCK_SIZE - ref_end tail in
        if 0 < avail then
          let chunk = take avail src in
          (write_block (ref_block tail) (ref_end tail) chunk m,
           io\<lparr>io_refs := butlast (io_refs io) @ [tail\<lparr>ref_length := ref_length tail + length chunk\<rparr>],
              io_nbytes := io_nbytes io + length chunk\<rparr>,
           drop avail src)
        else (m, io, src))"

text \<open>New blocks for the rest.\<close>

function append_blocks ::
  "'a io_mem \<Rightarrow> xIOBuffer \<Rightarrow> 'a list \<Rightarrow> xErrno \<times> 'a io_mem \<times> xIOBuffer" where
  "append_blocks m io src =
     (if src = [] then (xErrno_Ok, m, io)
      else
        (case xIOBlockAcquire m of
           (None, m1) \<Rightarrow> (xErrno_NoMemory, m1, io)
         | (Some b, m1) \<Rightarrow>
             (let chunk = take XIOBUFFER_BLOCK_SIZE src;
                  m2 = set_block b (\<lambda>k. k\<lparr>blk_size := length chunk\<rparr>) (write_block b 0 chunk m1)
              in (case iobuf_push_ref m2 io
                         \<lparr>ref_block = b, ref_offset = 0, ref_length = length chunk\<rparr> True of
                    (err, m3, io1) \<Rightarrow>
                      if err \<noteq> xErrno_Ok then (err, xIOBlockRelease b m3, io1)
                      else append_blocks m3 io1 (drop XIOBUFFER_BLOCK_SIZE src)))))"
  by pat_completeness auto
termination
  by (relation "measure (\<lambda>(m, io, src). length src)") (auto simp: XIOBUFFER_BLOCK_SIZE_def)

declare append_blocks.simps [simp del]

definition xIOBufferAppend ::
  "'a io_mem \<Rightarrow> xIOBuffer \<Rightarrow> 'a list \<Rightarrow> xErrno \<times> 'a io_mem \<times> xIOBuffer" where
  "xIOBufferAppend m io data =
     (if data = [] then (xErrno_Ok, m, io)
      else (case fill_tail m io data of (m1, io1, rest) \<Rightarrow> append_blocks m1 io1 rest))"

definition xIOBufferAppendIOBuffer ::
  "'a io_mem \<Rightarrow> xIOBuffer \<Rightarrow> xIOBuffer \<Rightarrow> xErrno \<times> 'a io_mem \<times> xIOBuffer \<times> xIOBuffer" where
  "xIOBufferAppendIOBuffer m io other =
     (if io_refs other = [] then (xErrno_Ok, m, io, other)
      else
        (case iobuf_grow_refs m io (length (io_refs io) + length (io_refs other)) of
           (err, m1, io1) \<Rightarrow>
             if err \<noteq> xErrno_Ok then (err, m1, io1, other)
             else (xErrno_Ok, m1,
                   io1\<lparr>io_refs := io_refs io1 @ io_refs other,
                       io_nbytes := io_nbytes io1 + io_nbytes other\<rparr>,
                   other\<lparr>io_refs := [], io_nbytes := 0\<rparr>)))"

section \<open>Read, consume, cut\<close>

definition ref_bytes :: "'a io_mem \<Rightarrow> xIOBufferRef \<Rightarrow> 'a list" where
  "ref_bytes m r = take (ref_length r) (drop (ref_offset r) (blk_data (mem_block m (ref_block r))))"

definition ref_advance :: "nat \<Rightarrow> xIOBufferRef \<Rightarrow> xIOBufferRef" where
  "ref_advance n r = r\<lparr>ref_offset := ref_offset r + n, ref_length := ref_length r - n\<rparr>"

text \<open>
  The loop of \<^verbatim>\<open>xIOBufferRead\<close>: \<open>k\<close> bytes are still wanted; the result is what was copied and
  the references left after the shift.
\<close>

fun read_refs ::
  "'a io_mem \<Rightarrow> xIOBufferRef list \<Rightarrow> nat \<Rightarrow> 'a list \<times> 'a io_mem \<times> xIOBufferRef list" where
  "read_refs m [] k = ([], m, [])"
| "read_refs m (r # rs) k =
     (if k = 0 then ([], m, r # rs)
      else
        let chunk = min (ref_length r) k; d = take chunk (ref_bytes m r) in
        if chunk = ref_length r then
          (case read_refs (xIOBlockRelease (ref_block r) m) rs (k - chunk) of
             (d1, m1, rs1) \<Rightarrow> (d @ d1, m1, rs1))
        else (d, m, ref_advance chunk r # rs))"

definition xIOBufferRead ::
  "'a io_mem \<Rightarrow> xIOBuffer \<Rightarrow> nat \<Rightarrow> 'a list \<times> 'a io_mem \<times> xIOBuffer" where
  "xIOBufferRead m io len =
     (if len = 0 then ([], m, io)
      else (case read_refs m (io_refs io) (min len (io_nbytes io)) of
              (d, m1, rs) \<Rightarrow> (d, m1, io\<lparr>io_refs := rs, io_nbytes := io_nbytes io - length d\<rparr>)))"

fun consume_refs ::
  "'a io_mem \<Rightarrow> xIOBufferRef list \<Rightarrow> nat \<Rightarrow> nat \<times> 'a io_mem \<times> xIOBufferRef list" where
  "consume_refs m [] k = (0, m, [])"
| "consume_refs m (r # rs) k =
     (if k = 0 then (0, m, r # rs)
      else if ref_length r \<le> k then
        (case consume_refs (xIOBlockRelease (ref_block r) m) rs (k - ref_length r) of
           (t, m1, rs1) \<Rightarrow> (ref_length r + t, m1, rs1))
      else (k, m, ref_advance k r # rs))"

definition xIOBufferConsume ::
  "'a io_mem \<Rightarrow> xIOBuffer \<Rightarrow> nat \<Rightarrow> nat \<times> 'a io_mem \<times> xIOBuffer" where
  "xIOBufferConsume m io n =
     (if n = 0 then (0, m, io)
      else (case consume_refs m (io_refs io) (min n (io_nbytes io)) of
              (t, m1, rs) \<Rightarrow> (t, m1, io\<lparr>io_refs := rs, io_nbytes := io_nbytes io - t\<rparr>)))"

text \<open>
  The loop of \<^verbatim>\<open>xIOBufferCut\<close>: whole references move to \<open>dst\<close>, the last one is split and its
  block shared; a failed push ends the loop.
\<close>

fun cut_refs ::
  "'a io_mem \<Rightarrow> xIOBufferRef list \<Rightarrow> xIOBuffer \<Rightarrow> nat
   \<Rightarrow> nat \<times> 'a io_mem \<times> xIOBufferRef list \<times> xIOBuffer" where
  "cut_refs m [] dst k = (0, m, [], dst)"
| "cut_refs m (r # rs) dst k =
     (if k = 0 then (0, m, r # rs, dst)
      else if ref_length r \<le> k then
        (case iobuf_push_ref m dst r False of (err, m1, dst1) \<Rightarrow>
         if err \<noteq> xErrno_Ok then (0, m1, r # rs, dst1)
         else (case cut_refs m1 rs dst1 (k - ref_length r) of
                 (t, m2, rs2, dst2) \<Rightarrow> (ref_length r + t, m2, rs2, dst2)))
      else
        (case iobuf_push_ref (xIOBlockRetain (ref_block r) m) dst (r\<lparr>ref_length := k\<rparr>) False of
           (err, m1, dst1) \<Rightarrow>
             if err \<noteq> xErrno_Ok then (0, xIOBlockRelease (ref_block r) m1, r # rs, dst1)
             else (k, m1, ref_advance k r # rs, dst1)))"

definition xIOBufferCut ::
  "'a io_mem \<Rightarrow> xIOBuffer \<Rightarrow> xIOBuffer \<Rightarrow> nat \<Rightarrow> nat \<times> 'a io_mem \<times> xIOBuffer \<times> xIOBuffer" where
  "xIOBufferCut m io dst n =
     (if n = 0 then (0, m, io, dst)
      else (case cut_refs m (io_refs io) dst (min n (io_nbytes io)) of
              (t, m1, rs, dst1) \<Rightarrow>
                (t, m1, io\<lparr>io_refs := rs, io_nbytes := io_nbytes io - t\<rparr>,
                 dst1\<lparr>io_nbytes := io_nbytes dst1 + t\<rparr>)))"

section \<open>Linearize and transfer\<close>

definition xIOBufferCopyTo :: "'a io_mem \<Rightarrow> xIOBuffer \<Rightarrow> 'a list" where
  "xIOBufferCopyTo m io = concat (map (ref_bytes m) (io_refs io))"

text \<open>The vector of at most \<open>max_iov\<close> pieces, with their bytes.\<close>

definition xIOBufferReadIov :: "'a io_mem \<Rightarrow> xIOBuffer \<Rightarrow> nat \<Rightarrow> 'a list list" where
  "xIOBufferReadIov m io max_iov =
     map (ref_bytes m) (take max_iov (filter (\<lambda>r. ref_length r \<noteq> 0) (io_refs io)))"

text \<open>
  \<^verbatim>\<open>xIOBufferReadFd\<close> and \<^verbatim>\<open>xIOBufferReadWith\<close>: \<open>input room\<close> is what the descriptor or the callback
  answers when offered that much room, an error or end of file (\<open>Inl\<close> its result, not
  positive) or the bytes it writes. The result is the count or the error.
\<close>

definition xIOBufferReadWith ::
  "'a io_mem \<Rightarrow> xIOBuffer \<Rightarrow> (nat \<Rightarrow> int + 'a list) \<Rightarrow> int \<times> 'a io_mem \<times> xIOBuffer" where
  "xIOBufferReadWith m io input =
     (let avail = (if io_refs io = [] then 0
                   else XIOBUFFER_BLOCK_SIZE - ref_end (last (io_refs io)))
      in if 0 < avail then
           (case input avail of
              Inl n \<Rightarrow> (n, m, io)
            | Inr xs \<Rightarrow> (case fill_tail m io xs of (m1, io1, _) \<Rightarrow> (int (length xs), m1, io1)))
         else
           (case xIOBlockAcquire m of
              (None, m1) \<Rightarrow> (-1, m1, io)
            | (Some b, m1) \<Rightarrow>
                (case input XIOBUFFER_BLOCK_SIZE of
                   Inl n \<Rightarrow> (n, xIOBlockRelease b m1, io)
                 | Inr xs \<Rightarrow>
                     (case iobuf_push_ref
                             (set_block b (\<lambda>k. k\<lparr>blk_size := length xs\<rparr>) (write_block b 0 xs m1)) io
                             \<lparr>ref_block = b, ref_offset = 0, ref_length = length xs\<rparr> True of
                        (err, m2, io1) \<Rightarrow>
                          if err \<noteq> xErrno_Ok then (-1, xIOBlockRelease b m2, io1)
                          else (int (length xs), m2, io1)))))"

text \<open>The writing side offers at most 64 pieces and consumes what was taken.\<close>

definition xIOBufferWriteWith ::
  "'a io_mem \<Rightarrow> xIOBuffer \<Rightarrow> ('a list list \<Rightarrow> int) \<Rightarrow> int \<times> 'a io_mem \<times> xIOBuffer" where
  "xIOBufferWriteWith m io output =
     (let iov = xIOBufferReadIov m io 64 in
      if iov = [] then (0, m, io)
      else
        (let n = output iov in
         if 0 < n then (case xIOBufferConsume m io (nat n) of (_, m1, io1) \<Rightarrow> (n, m1, io1))
         else (n, m, io)))"

end
