(* ===== verification/IoStore.thy ===== *)
theory IoStore
  imports IoBuf "HOL-Library.Multiset"
begin

text \<open>
  What the operations of \<^verbatim>\<open>buf/io.c\<close> do. The invariant of the store counts, for every block, the
  references that name it, over all buffers together; the abstract view of a buffer is the list of
  bytes its references name, and an operation is compared with the operation on that list, for
  every pattern of allocation failures.
\<close>

section \<open>The invariant of the store\<close>

text \<open>How many references of \<open>M\<close> cover a byte of a block, and how many name the block.\<close>

definition covers :: "nat \<Rightarrow> nat \<Rightarrow> xIOBufferRef \<Rightarrow> bool" where
  "covers b p r \<longleftrightarrow> ref_block r = b \<and> ref_offset r \<le> p \<and> p < ref_end r"

definition cover :: "xIOBufferRef multiset \<Rightarrow> nat \<Rightarrow> nat \<Rightarrow> nat" where
  "cover M b p = size (filter_mset (covers b p) M)"

definition refs_to :: "xIOBufferRef multiset \<Rightarrow> nat \<Rightarrow> nat" where
  "refs_to M b = size (filter_mset (\<lambda>r. ref_block r = b) M)"

text \<open>
  \<open>M\<close> are the references of all buffers, \<open>H\<close> the counts a running operation holds on top: a
  block is in the pool, or freed, or its count is the number of references to it, which is
  positive (nothing leaks); no byte belongs to two references.
\<close>

definition live :: "'a io_mem \<Rightarrow> nat \<Rightarrow> bool" where
  "live m b \<longleftrightarrow> b < mem_next m \<and> b \<notin> set (mem_pool m) \<and> b \<notin> set (mem_freed m)"

definition ref_ok :: "'a io_mem \<Rightarrow> xIOBufferRef \<Rightarrow> bool" where
  "ref_ok m r \<longleftrightarrow> 0 < ref_length r \<and> ref_end r \<le> XIOBUFFER_BLOCK_SIZE \<and> live m (ref_block r)"

definition pool_ok :: "'a io_mem \<Rightarrow> bool" where
  "pool_ok m \<longleftrightarrow> distinct (mem_pool m @ mem_freed m)
     \<and> (\<forall>b\<in>set (mem_pool m) \<union> set (mem_freed m). b < mem_next m)"

definition counts_ok :: "'a io_mem \<Rightarrow> xIOBufferRef multiset \<Rightarrow> nat multiset \<Rightarrow> bool" where
  "counts_ok m M H \<longleftrightarrow>
     (\<forall>b. live m b \<longrightarrow> blk_refs (mem_block m b) = refs_to M b + count H b
                     \<and> 0 < refs_to M b + count H b)"

definition disjoint :: "xIOBufferRef multiset \<Rightarrow> bool" where
  "disjoint M \<longleftrightarrow> (\<forall>b p. cover M b p \<le> 1)"

definition mem_ok :: "'a io_mem \<Rightarrow> xIOBufferRef multiset \<Rightarrow> nat multiset \<Rightarrow> bool" where
  "mem_ok m M H \<longleftrightarrow>
     (\<forall>b. length (blk_data (mem_block m b)) = XIOBUFFER_BLOCK_SIZE)
   \<and> pool_ok m \<and> (\<forall>r\<in>#M. ref_ok m r) \<and> (\<forall>b\<in>#H. live m b) \<and> counts_ok m M H \<and> disjoint M"

lemma cover_simps [simp]:
  "cover {#} b p = 0" "cover (M + N) b p = cover M b p + cover N b p"
  "cover (add_mset r M) b p = (if covers b p r then 1 else 0) + cover M b p"
  by (simp_all add: cover_def)

lemma refs_to_simps [simp]:
  "refs_to {#} b = 0" "refs_to (M + N) b = refs_to M b + refs_to N b"
  "refs_to (add_mset r M) b = (if ref_block r = b then 1 else 0) + refs_to M b"
  by (simp_all add: refs_to_def)

lemma refs_to_zero: "refs_to M b = 0 \<longleftrightarrow> (\<forall>r\<in>#M. ref_block r \<noteq> b)"
  by (auto simp: refs_to_def filter_mset_eq_conv)

lemma cover_zero: "cover M b p = 0 \<longleftrightarrow> (\<forall>r\<in>#M. \<not> covers b p r)"
  by (auto simp: cover_def filter_mset_eq_conv)

text \<open>The steps the operations are made of.\<close>

lemma disjoint_drop: "disjoint (add_mset r M) \<Longrightarrow> disjoint M"
  unfolding disjoint_def by (metis add_leD2 cover_simps(3))

lemma disjoint_mono: "disjoint M \<Longrightarrow> (\<And>b p. cover N b p \<le> cover M b p) \<Longrightarrow> disjoint N"
  unfolding disjoint_def by (meson order_trans)

lemma ref_ok_live: "(\<And>b. live m b \<longleftrightarrow> live m1 b) \<Longrightarrow> ref_ok m r \<longleftrightarrow> ref_ok m1 r"
  by (simp add: ref_ok_def)

lemma live_set_block [simp]: "live (set_block b f m) c \<longleftrightarrow> live m c"
  by (simp add: live_def set_block_def)

lemma pool_ok_set_block [simp]: "pool_ok (set_block b f m) \<longleftrightarrow> pool_ok m"
  by (simp add: pool_ok_def set_block_def)

lemma ref_ok_set_block [simp]: "ref_ok (set_block b f m) r \<longleftrightarrow> ref_ok m r"
  by (simp add: ref_ok_def)

lemma mem_block_set_block [simp]:
  "mem_block (set_block b f m) c = (if c = b then f (mem_block m b) else mem_block m c)"
  by (simp add: set_block_def)

lemma live_pool_push [simp]: "live (pool_push b m) c \<longleftrightarrow> live m c \<and> c \<noteq> b"
  by (auto simp: live_def pool_push_def)

lemma mem_block_pool_push [simp]: "mem_block (pool_push b m) = mem_block m"
  by (simp add: pool_push_def)

lemma pool_ok_push: "pool_ok m \<Longrightarrow> live m b \<Longrightarrow> pool_ok (pool_push b m)"
  by (auto simp: pool_ok_def pool_push_def live_def)

text \<open>Releasing one held count.\<close>

lemma mem_ok_release:
  assumes "mem_ok m M (add_mset b H)"
  shows "mem_ok (xIOBlockRelease b m) M H"
proof (cases "refs_to M b + count H b")
  case 0
  with assms have z: "blk_refs (mem_block m b) = Suc 0" "live m b"
    by (auto simp: mem_ok_def counts_ok_def)
  let ?m = "pool_push b (set_block b (\<lambda>k. k\<lparr>blk_refs := blk_refs k - 1\<rparr>) m)"
  from 0 have none: "\<forall>r\<in>#M. ref_block r \<noteq> b" "b \<notin># H"
    by (auto simp: refs_to_zero [symmetric] not_in_iff)
  have m1: "xIOBlockRelease b m = ?m" using z by (simp add: xIOBlockRelease_def Let_def)
  have "pool_ok ?m" using assms z by (simp add: mem_ok_def pool_ok_push)
  moreover have "\<forall>r\<in>#M. ref_ok ?m r" using assms none by (simp add: mem_ok_def ref_ok_def)
  moreover have "\<forall>c\<in>#H. live ?m c" using assms none by (auto simp: mem_ok_def)
  moreover have "counts_ok ?m M H" using assms by (auto simp: mem_ok_def counts_ok_def)
  ultimately show ?thesis using assms unfolding m1 by (simp add: mem_ok_def)
next
  case (Suc n)
  with assms have z: "blk_refs (mem_block m b) = Suc (Suc n)" "live m b"
    by (auto simp: mem_ok_def counts_ok_def)
  let ?m = "set_block b (\<lambda>k. k\<lparr>blk_refs := blk_refs k - 1\<rparr>) m"
  have m1: "xIOBlockRelease b m = ?m" using z by (simp add: xIOBlockRelease_def Let_def)
  have "counts_ok ?m M H"
    using assms z Suc
    by (auto simp: mem_ok_def counts_ok_def simp del: count_greater_zero_iff add_gr_0)
  with assms show ?thesis unfolding m1 by (auto simp: mem_ok_def)
qed

lemma release_data [simp]: "blk_data (mem_block (xIOBlockRelease b m) c) = blk_data (mem_block m c)"
  by (simp add: xIOBlockRelease_def Let_def)

lemma mem_ok_retain:
  assumes "mem_ok m M H" "live m b"
  shows "mem_ok (xIOBlockRetain b m) M (add_mset b H)"
proof -
  have "counts_ok (xIOBlockRetain b m) M (add_mset b H)"
    using assms by (auto simp: mem_ok_def counts_ok_def xIOBlockRetain_def)
  with assms show ?thesis by (simp add: mem_ok_def xIOBlockRetain_def)
qed

lemma retain_data [simp]: "blk_data (mem_block (xIOBlockRetain b m) c) = blk_data (mem_block m c)"
  by (simp add: xIOBlockRetain_def)

text \<open>A reference dropped leaves its count behind.\<close>

lemma counts_ref_held:
  "counts_ok m (add_mset r M) H \<longleftrightarrow> counts_ok m M (add_mset (ref_block r) H)"
  by (simp add: counts_ok_def add.assoc)

lemma mem_ok_drop_ref: "mem_ok m (add_mset r M) H \<Longrightarrow> mem_ok m M (add_mset (ref_block r) H)"
  using disjoint_drop [of r M] by (simp add: mem_ok_def ref_ok_def counts_ref_held)

text \<open>A held count becomes a reference to bytes no other one covers.\<close>

lemma mem_ok_add_ref:
  assumes "mem_ok m M (add_mset (ref_block r) H)"
    and "0 < ref_length r" "ref_end r \<le> XIOBUFFER_BLOCK_SIZE"
    and "\<And>p. covers (ref_block r) p r \<Longrightarrow> cover M (ref_block r) p = 0"
  shows "mem_ok m (add_mset r M) H"
proof -
  have "cover (add_mset r M) b p \<le> 1" for b p
    using assms(1,4) by (cases "covers b p r") (auto simp: mem_ok_def disjoint_def covers_def)
  with assms show ?thesis by (simp add: mem_ok_def ref_ok_def counts_ref_held disjoint_def del: cover_simps)
qed

text \<open>A reference that moves its start or end inwards.\<close>

lemma mem_ok_shrink:
  assumes "mem_ok m (add_mset r M) H" "ref_block q = ref_block r"
    and "ref_offset r \<le> ref_offset q" "ref_end q \<le> ref_end r" "0 < ref_length q"
  shows "mem_ok m (add_mset q M) H"
proof -
  have "covers b p r" if "covers b p q" for b p
    using that assms(2-4) unfolding covers_def by simp
  then have "cover (add_mset q M) b p \<le> cover (add_mset r M) b p" for b p by simp
  moreover have "disjoint (add_mset r M)" using assms(1) by (simp add: mem_ok_def)
  ultimately have "disjoint (add_mset q M)" using disjoint_mono by blast
  with assms show ?thesis by (simp add: mem_ok_def ref_ok_def counts_ref_held)
qed

text \<open>A reference cut in two, with one more count.\<close>

lemma mem_ok_split:
  assumes "mem_ok m (add_mset r M) (add_mset (ref_block r) H)" "0 < k" "k < ref_length r"
  shows "mem_ok m (add_mset (ref_advance k r) (add_mset (r\<lparr>ref_length := k\<rparr>) M)) H"
proof -
  let ?a = "r\<lparr>ref_length := k\<rparr>" and ?b = "ref_advance k r"
  have "covers b p r" "\<not> covers b p ?b" if "covers b p ?a" for b p
    using that assms(3) by (auto simp: covers_def ref_end_def ref_advance_def)
  moreover have "covers b p r" if "covers b p ?b" for b p
    using that assms(3) by (auto simp: covers_def ref_end_def ref_advance_def)
  ultimately have "cover (add_mset ?a (add_mset ?b M)) b p \<le> cover (add_mset r M) b p" for b p
    by simp
  moreover have "disjoint (add_mset r M)" using assms(1) by (simp add: mem_ok_def)
  ultimately have "disjoint (add_mset ?a (add_mset ?b M))" using disjoint_mono by blast
  then have "disjoint (add_mset ?b (add_mset ?a M))" by (simp add: add_mset_commute)
  with assms show ?thesis
    by (simp add: mem_ok_def ref_ok_def counts_ref_held ref_advance_def ref_end_def)
qed

text \<open>Memory whose allocation oracle alone differs.\<close>

lemma mem_draw_simps [simp]:
  "mem_block (snd (mem_draw m)) = mem_block m" "mem_pool (snd (mem_draw m)) = mem_pool m"
  "mem_next (snd (mem_draw m)) = mem_next m" "mem_freed (snd (mem_draw m)) = mem_freed m"
  by (simp_all add: mem_draw_def split: prod.splits)

lemma mem_ok_draw: "mem_ok m M H \<Longrightarrow> mem_ok (snd (mem_draw m)) M H"
  by (simp add: mem_ok_def live_def ref_ok_def pool_ok_def counts_ok_def)

text \<open>A block from the pool or from \<^verbatim>\<open>malloc\<close> is referenced by nobody.\<close>

lemma acquire_fresh:
  assumes ok: "mem_ok m M H" and acq: "xIOBlockAcquire m = (Some b, m1)"
  shows "mem_ok m1 M (add_mset b H)" "refs_to M b = 0"
    "blk_data (mem_block m1 c) = blk_data (mem_block m c)"
proof -
  define f where "f = (\<lambda>k :: 'a xIOBlock. k\<lparr>blk_refs := 1, blk_size := 0\<rparr>)"
  obtain m2 where m1: "m1 = set_block b f m2" and m2: "mem_block m2 = mem_block m"
    "pool_ok m2" "\<And>c. live m2 c \<longleftrightarrow> live m c \<or> c = b" and nl: "\<not> live m b"
  proof (cases "mem_pool m")
    case Nil
    with acq have "m1 = set_block b f ((snd (mem_draw m))\<lparr>mem_next := mem_next m + 1\<rparr>)"
      "b = mem_next m"
      by (auto simp: xIOBlockAcquire_def pool_pop_def mem_malloc_def mem_draw_def f_def
          split: prod.splits if_splits option.splits)
    with ok Nil that [of "(snd (mem_draw m))\<lparr>mem_next := mem_next m + 1\<rparr>"] show ?thesis
      by (auto simp: mem_ok_def pool_ok_def live_def less_Suc_eq)
  next
    case (Cons p bs)
    with acq have "m1 = set_block b f (m\<lparr>mem_pool := bs\<rparr>)" "b = p"
      by (auto simp: xIOBlockAcquire_def pool_pop_def f_def)
    with ok Cons that [of "m\<lparr>mem_pool := bs\<rparr>"] show ?thesis
      by (auto simp: mem_ok_def pool_ok_def live_def)
  qed
  from nl ok show r0: "refs_to M b = 0" by (auto simp: refs_to_zero mem_ok_def ref_ok_def)
  from nl ok have h0: "count H b = 0" by (auto simp: mem_ok_def count_eq_zero_iff)
  show "blk_data (mem_block m1 c) = blk_data (mem_block m c)" for c
    by (simp add: m1 m2 f_def)
  moreover have "counts_ok m1 M (add_mset b H)"
    using ok r0 h0 by (auto simp: mem_ok_def counts_ok_def m1 m2 f_def)
  ultimately show "mem_ok m1 M (add_mset b H)"
    using ok m2 by (simp add: mem_ok_def m1 ref_ok_def)
qed

lemma acquire_fails:
  assumes "mem_ok m M H" "xIOBlockAcquire m = (None, m1)"
  shows "mem_ok m1 M H" "blk_data (mem_block m1 c) = blk_data (mem_block m c)"
proof -
  have "m1 = snd (mem_draw m)"
    using assms(2) by (auto simp: xIOBlockAcquire_def pool_pop_def mem_malloc_def mem_draw_def
        split: list.splits prod.splits if_splits option.splits)
  with assms show "mem_ok m1 M H" "blk_data (mem_block m1 c) = blk_data (mem_block m c)"
    by (simp_all add: mem_ok_draw)
qed

section \<open>Bytes of references\<close>

definition same_data :: "'a io_mem \<Rightarrow> 'a io_mem \<Rightarrow> bool" where
  "same_data m m1 \<longleftrightarrow> (\<forall>b. blk_data (mem_block m1 b) = blk_data (mem_block m b))"

definition refs_len :: "xIOBufferRef list \<Rightarrow> nat" where
  "refs_len rs = sum_list (map ref_length rs)"

definition refs_bytes :: "'a io_mem \<Rightarrow> xIOBufferRef list \<Rightarrow> 'a list" where
  "refs_bytes m rs = concat (map (ref_bytes m) rs)"

lemma refs_len_simps [simp]:
  "refs_len [] = 0" "refs_len (r # rs) = ref_length r + refs_len rs"
  "refs_len (rs @ qs) = refs_len rs + refs_len qs"
  by (simp_all add: refs_len_def)

lemma refs_bytes_simps [simp]:
  "refs_bytes m [] = []" "refs_bytes m (r # rs) = ref_bytes m r @ refs_bytes m rs"
  "refs_bytes m (rs @ qs) = refs_bytes m rs @ refs_bytes m qs"
  by (simp_all add: refs_bytes_def)

lemma same_data_refl [simp]: "same_data m m"
  by (simp add: same_data_def)

lemma same_data_trans [trans]: "same_data m m1 \<Longrightarrow> same_data m1 m2 \<Longrightarrow> same_data m m2"
  by (simp add: same_data_def)

lemma same_data_steps [simp]:
  "same_data m (xIOBlockRelease b m)" "same_data m (xIOBlockRetain b m)"
  "same_data m (snd (mem_draw m))"
  by (simp_all add: same_data_def)

lemma same_data_bytes: "same_data m m1 \<Longrightarrow> ref_bytes m1 = ref_bytes m"
  by (intro ext) (simp add: same_data_def ref_bytes_def)

lemma same_data_refs: "same_data m m1 \<Longrightarrow> refs_bytes m1 = refs_bytes m"
  by (intro ext) (simp add: refs_bytes_def same_data_bytes)

lemma length_ref_bytes:
  "mem_ok m M H \<Longrightarrow> r \<in># M \<Longrightarrow> length (ref_bytes m r) = ref_length r"
  by (auto simp: mem_ok_def ref_ok_def ref_bytes_def ref_end_def)

lemma length_refs_bytes:
  "mem_ok m M H \<Longrightarrow> set rs \<subseteq> set_mset M \<Longrightarrow> length (refs_bytes m rs) = refs_len rs"
  by (induction rs) (auto simp: length_ref_bytes)

lemma ref_bytes_advance: "ref_bytes m (ref_advance k r) = drop k (ref_bytes m r)"
  by (simp add: ref_bytes_def ref_advance_def drop_take add.commute)

lemma ref_bytes_take: "k \<le> ref_length r \<Longrightarrow> ref_bytes m (r\<lparr>ref_length := k\<rparr>) = take k (ref_bytes m r)"
  by (simp add: ref_bytes_def min_def)

lemma ref_end_advance: "k \<le> ref_length r \<Longrightarrow> ref_end (ref_advance k r) = ref_end r"
  by (simp add: ref_end_def ref_advance_def)

lemma ref_advance_simps [simp]:
  "ref_block (ref_advance k r) = ref_block r" "ref_length (ref_advance k r) = ref_length r - k"
  "ref_offset (ref_advance k r) = ref_offset r + k"
  by (simp_all add: ref_advance_def)

section \<open>Reading and consuming\<close>

lemma read_refs_ok:
  assumes "mem_ok m (mset rs + R) H" "k \<le> refs_len rs"
  shows "case read_refs m rs k of (d, m1, rs1) \<Rightarrow>
           mem_ok m1 (mset rs1 + R) H \<and> same_data m m1 \<and> d = take k (refs_bytes m rs)
         \<and> refs_bytes m rs1 = drop k (refs_bytes m rs) \<and> refs_len rs1 = refs_len rs - k"
  using assms
proof (induction rs arbitrary: m k)
  case (Cons r rs)
  have len: "length (ref_bytes m r) = ref_length r"
    using Cons.prems(1) by (rule length_ref_bytes) simp
  consider "k = 0" | "k \<noteq> 0" "ref_length r \<le> k" | "k \<noteq> 0" "k < ref_length r" by linarith
  then show ?case
  proof cases
    case 1
    with Cons.prems show ?thesis by simp
  next
    case 2
    let ?m = "xIOBlockRelease (ref_block r) m"
    have "mem_ok ?m (mset rs + R) H"
      using Cons.prems(1) by (intro mem_ok_release mem_ok_drop_ref) simp
    moreover have "k - ref_length r \<le> refs_len rs" using Cons.prems(2) by simp
    ultimately
    obtain d m1 rs1 where rr: "read_refs ?m rs (k - ref_length r) = (d, m1, rs1)"
      and ih: "mem_ok m1 (mset rs1 + R) H" "same_data ?m m1"
      "d = take (k - ref_length r) (refs_bytes ?m rs)"
      "refs_bytes ?m rs1 = drop (k - ref_length r) (refs_bytes ?m rs)"
      "refs_len rs1 = refs_len rs - (k - ref_length r)"
      using Cons.IH [of ?m "k - ref_length r"] by (auto split: prod.splits)
    have b: "refs_bytes ?m = refs_bytes m" by (rule same_data_refs) simp
    have "same_data m m1" using ih(2) by (rule same_data_trans [OF same_data_steps(1)])
    with 2 ih rr len show ?thesis by (simp add: b min_def)
  next
    case 3
    have "mem_ok m (mset (ref_advance k r # rs) + R) H"
      using Cons.prems(1) 3 mem_ok_shrink [of m r "mset rs + R" H "ref_advance k r"]
      by (simp add: ref_end_advance)
    with 3 len show ?thesis by (simp add: min_def ref_bytes_advance)
  qed
qed simp

lemma consume_read_refs:
  assumes "\<forall>r\<in>set rs. length (ref_bytes m r) = ref_length r"
  shows "consume_refs m rs k = (case read_refs m rs k of (d, m1, rs1) \<Rightarrow> (length d, m1, rs1))"
  using assms
proof (induction rs arbitrary: m k)
  case (Cons r rs)
  have "ref_bytes (xIOBlockRelease (ref_block r) m) = ref_bytes m"
    by (rule same_data_bytes) simp
  with Cons.prems Cons.IH [of "xIOBlockRelease (ref_block r) m" "k - ref_length r"] show ?case
    by (auto simp: min_def split: prod.splits)
qed simp

section \<open>Pushing references\<close>

lemma grow_refs_cases:
  assumes "iobuf_grow_refs m io n = (err, m1, io1)"
  shows "(m1 = m \<or> m1 = snd (mem_draw m)) \<and> io_refs io1 = io_refs io \<and> io_nbytes io1 = io_nbytes io
     \<and> (err = xErrno_Ok \<or> err = xErrno_NoMemory) \<and> (mem_allocs m = [] \<longrightarrow> err = xErrno_Ok)"
  using assms by (auto simp: iobuf_grow_refs_def mem_draw_def Let_def split: if_splits prod.splits)

lemma draw_allocs: "mem_allocs m = [] \<Longrightarrow> mem_allocs (snd (mem_draw m)) = []"
  by (simp add: mem_draw_def)

lemma push_ref_cases:
  assumes "iobuf_push_ref m io r adj = (err, m1, io1)" "0 < ref_length r"
  shows "m1 = m \<or> m1 = snd (mem_draw m)"
    and "mem_allocs m = [] \<longrightarrow> err = xErrno_Ok"
    and "err = xErrno_Ok \<and> io_refs io1 = io_refs io @ [r]
           \<and> io_nbytes io1 = io_nbytes io + (if adj then ref_length r else 0)
         \<or> err = xErrno_NoMemory \<and> io_refs io1 = io_refs io \<and> io_nbytes io1 = io_nbytes io"
proof -
  obtain e m2 io2 where g: "iobuf_grow_refs m io (length (io_refs io) + 1) = (e, m2, io2)"
    by (metis prod.collapse)
  note c = grow_refs_cases [OF g]
  from assms g c show "m1 = m \<or> m1 = snd (mem_draw m)" "mem_allocs m = [] \<longrightarrow> err = xErrno_Ok"
    "err = xErrno_Ok \<and> io_refs io1 = io_refs io @ [r]
           \<and> io_nbytes io1 = io_nbytes io + (if adj then ref_length r else 0)
         \<or> err = xErrno_NoMemory \<and> io_refs io1 = io_refs io \<and> io_nbytes io1 = io_nbytes io"
    by (auto simp: iobuf_push_ref_def split: if_splits)
qed

lemma draw_or_same:
  assumes "m1 = m \<or> m1 = snd (mem_draw m)"
  shows "mem_ok m M H \<Longrightarrow> mem_ok m1 M H" "same_data m m1" "mem_allocs m = [] \<Longrightarrow> mem_allocs m1 = []"
  using assms by (auto simp: mem_ok_draw draw_allocs)

section \<open>Cutting\<close>

lemma refcount_allocs [simp]:
  "mem_allocs (xIOBlockRetain b m) = mem_allocs m" "mem_allocs (xIOBlockRelease b m) = mem_allocs m"
  by (simp_all add: xIOBlockRetain_def xIOBlockRelease_def set_block_def pool_push_def Let_def)

lemma cut_refs_ok:
  assumes "mem_ok m (mset rs + (mset (io_refs dst) + R)) {#}" "k \<le> refs_len rs"
  shows "case cut_refs m rs dst k of (t, m1, rs1, dst1) \<Rightarrow>
           mem_ok m1 (mset rs1 + (mset (io_refs dst1) + R)) {#} \<and> same_data m m1 \<and> t \<le> k
         \<and> (mem_allocs m = [] \<longrightarrow> t = k)
         \<and> refs_bytes m (io_refs dst1) = refs_bytes m (io_refs dst) @ take t (refs_bytes m rs)
         \<and> refs_bytes m rs1 = drop t (refs_bytes m rs)
         \<and> refs_len rs1 = refs_len rs - t \<and> refs_len (io_refs dst1) = refs_len (io_refs dst) + t
         \<and> io_nbytes dst1 = io_nbytes dst"
  using assms
proof (induction rs arbitrary: m dst k)
  case (Cons r rs)
  have len: "length (ref_bytes m r) = ref_length r"
    using Cons.prems(1) by (rule length_ref_bytes) simp
  have pos: "0 < ref_length r" using Cons.prems(1) by (simp add: mem_ok_def ref_ok_def)
  consider "k = 0" | "k \<noteq> 0" "ref_length r \<le> k" | "k \<noteq> 0" "k < ref_length r" by linarith
  then show ?case
  proof cases
    case 1
    with Cons.prems show ?thesis by simp
  next
    case 2
    obtain err m1 dst1 where push: "iobuf_push_ref m dst r False = (err, m1, dst1)"
      by (metis prod.collapse)
    note p = push_ref_cases [OF push pos] and d = draw_or_same [OF push_ref_cases(1) [OF push pos]]
    have b: "refs_bytes m1 = refs_bytes m" "ref_bytes m1 = ref_bytes m"
      using d(2) by (simp_all add: same_data_refs same_data_bytes)
    show ?thesis
    proof (cases "err = xErrno_Ok")
      case True
      with p(3) have dst1: "io_refs dst1 = io_refs dst @ [r]" "io_nbytes dst1 = io_nbytes dst"
        by auto
      have "mem_ok m1 (mset rs + (mset (io_refs dst1) + R)) {#}"
        using d(1) [OF Cons.prems(1)] by (simp add: dst1)
      moreover have "k - ref_length r \<le> refs_len rs" using Cons.prems(2) by simp
      ultimately
      obtain t m2 rs2 dst2 where cc: "cut_refs m1 rs dst1 (k - ref_length r) = (t, m2, rs2, dst2)"
        and ih: "mem_ok m2 (mset rs2 + (mset (io_refs dst2) + R)) {#}" "same_data m1 m2"
        "t \<le> k - ref_length r" "mem_allocs m1 = [] \<longrightarrow> t = k - ref_length r"
        "refs_bytes m1 (io_refs dst2) = refs_bytes m1 (io_refs dst1) @ take t (refs_bytes m1 rs)"
        "refs_bytes m1 rs2 = drop t (refs_bytes m1 rs)" "refs_len rs2 = refs_len rs - t"
        "refs_len (io_refs dst2) = refs_len (io_refs dst1) + t" "io_nbytes dst2 = io_nbytes dst1"
        using Cons.IH [of m1 dst1 "k - ref_length r"] by (auto split: prod.splits)
      have "same_data m m2" using d(2) ih(2) by (rule same_data_trans)
      with 2 True ih push cc len d(3) dst1 show ?thesis by (simp add: b)
    next
      case False
      with p(3) have "io_refs dst1 = io_refs dst" "io_nbytes dst1 = io_nbytes dst" by auto
      with 2 False push p(2) d(2) d(1) [OF Cons.prems(1)] show ?thesis by simp
    qed
  next
    case 3
    let ?m = "xIOBlockRetain (ref_block r) m" and ?q = "r\<lparr>ref_length := k\<rparr>"
    have q: "0 < ref_length ?q" using 3 by simp
    obtain err m1 dst1 where push: "iobuf_push_ref ?m dst ?q False = (err, m1, dst1)"
      by (metis prod.collapse)
    note p = push_ref_cases [OF push q] and d = draw_or_same [OF push_ref_cases(1) [OF push q]]
    have live: "live m (ref_block r)" using Cons.prems(1) by (simp add: mem_ok_def ref_ok_def)
    have held: "mem_ok m1 (mset (r # rs) + (mset (io_refs dst) + R)) {#ref_block r#}"
      using mem_ok_retain [OF Cons.prems(1) live] by (intro d(1)) simp
    have sd: "same_data m m1" using d(2) by (rule same_data_trans [OF same_data_steps(2)])
    show ?thesis
    proof (cases "err = xErrno_Ok")
      case True
      with p(3) have dst1: "io_refs dst1 = io_refs dst @ [?q]" "io_nbytes dst1 = io_nbytes dst"
        by auto
      have "mem_ok m1 (mset (ref_advance k r # rs) + (mset (io_refs dst1) + R)) {#}"
        using mem_ok_split [of m1 r "mset rs + (mset (io_refs dst) + R)" "{#}" k] held 3
        by (simp add: dst1 add_mset_commute)
      with 3 True push dst1 sd len show ?thesis
        by (simp add: ref_bytes_take ref_bytes_advance add_mset_commute)
    next
      case False
      with p(3) have dst1: "io_refs dst1 = io_refs dst" "io_nbytes dst1 = io_nbytes dst" by auto
      have "mem_ok (xIOBlockRelease (ref_block r) m1) (mset (r # rs) + (mset (io_refs dst) + R)) {#}"
        using held by (intro mem_ok_release) simp
      moreover have "same_data m (xIOBlockRelease (ref_block r) m1)"
        using sd same_data_steps(1) by (rule same_data_trans)
      ultimately show ?thesis using 3 False push dst1 p(2) by simp
    qed
  qed
qed simp

section \<open>Appending\<close>

text \<open>
  The room behind the last reference is free: no other reference to that block, of any
  buffer, reaches beyond it. The code does not check this.
\<close>

definition tail_clear :: "xIOBufferRef multiset \<Rightarrow> xIOBuffer \<Rightarrow> bool" where
  "tail_clear M io \<longleftrightarrow>
     (io_refs io \<noteq> [] \<longrightarrow>
        (\<forall>r\<in>#M. ref_block r = ref_block (last (io_refs io)) \<longrightarrow> ref_end r \<le> ref_end (last (io_refs io))))"

lemma write_block_data [simp]:
  "blk_refs (mem_block (write_block b pos xs m) c) = blk_refs (mem_block m c)"
  "mem_allocs (write_block b pos xs m) = mem_allocs m" "live (write_block b pos xs m) c = live m c"
  "pool_ok (write_block b pos xs m) = pool_ok m" "ref_ok (write_block b pos xs m) r = ref_ok m r"
  by (simp_all add: write_block_def, simp add: set_block_def)

lemma mem_ok_write:
  assumes "mem_ok m M H" "pos + length xs \<le> XIOBUFFER_BLOCK_SIZE"
  shows "mem_ok (write_block b pos xs m) M H"
proof -
  have "length (blk_data (mem_block (write_block b pos xs m) c)) = XIOBUFFER_BLOCK_SIZE" for c
    using assms by (simp add: mem_ok_def write_block_def)
  with assms(1) show ?thesis by (simp add: mem_ok_def counts_ok_def)
qed

lemma mem_ok_size [simp]: "mem_ok (set_block b (\<lambda>k. k\<lparr>blk_size := n\<rparr>) m) M H \<longleftrightarrow> mem_ok m M H"
proof -
  have "blk_refs (mem_block (set_block b (\<lambda>k. k\<lparr>blk_size := n\<rparr>) m) c) = blk_refs (mem_block m c)"
    "blk_data (mem_block (set_block b (\<lambda>k. k\<lparr>blk_size := n\<rparr>) m) c) = blk_data (mem_block m c)" for c
    by simp_all
  then show ?thesis by (simp add: mem_ok_def counts_ok_def del: mem_block_set_block)
qed

lemma ref_bytes_alt:
  "ref_bytes m r = drop (ref_offset r) (take (ref_end r) (blk_data (mem_block m (ref_block r))))"
  by (simp add: ref_bytes_def drop_take ref_end_def)

text \<open>A write outside the range of a reference leaves its bytes alone.\<close>

lemma write_ref_bytes:
  assumes ok: "mem_ok m M H" and len: "pos + length xs \<le> XIOBUFFER_BLOCK_SIZE"
    and r: "ref_end r \<le> XIOBUFFER_BLOCK_SIZE"
    and out: "ref_block r = b \<Longrightarrow> ref_end r \<le> pos \<or> pos + length xs \<le> ref_offset r"
  shows "ref_bytes (write_block b pos xs m) r = ref_bytes m r"
proof (cases "ref_block r = b")
  case True
  let ?d = "blk_data (mem_block m b)"
  have d: "length ?d = XIOBUFFER_BLOCK_SIZE" using ok by (simp add: mem_ok_def)
  from True out consider "ref_end r \<le> pos" | "pos + length xs \<le> ref_offset r" by blast
  then show ?thesis
  proof cases
    case 1
    with len d have "take (ref_end r) (take pos ?d @ xs @ drop (pos + length xs) ?d) = take (ref_end r) ?d"
      by simp
    then show ?thesis using True by (simp add: ref_bytes_alt write_block_def)
  next
    case 2
    with len d have "drop (ref_offset r) (take pos ?d @ xs @ drop (pos + length xs) ?d) = drop (ref_offset r) ?d"
      by simp
    then show ?thesis using True by (simp add: ref_bytes_def write_block_def)
  qed
qed (simp add: ref_bytes_def write_block_def)

text \<open>A reference whose range ends with what has been written.\<close>

lemma write_ref_extend:
  assumes ok: "mem_ok m M H" and len: "ref_end r + length xs \<le> XIOBUFFER_BLOCK_SIZE"
  shows "ref_bytes (write_block (ref_block r) (ref_end r) xs m)
           (r\<lparr>ref_length := ref_length r + length xs\<rparr>) = ref_bytes m r @ xs"
proof -
  let ?d = "blk_data (mem_block m (ref_block r))"
  have d: "length ?d = XIOBUFFER_BLOCK_SIZE" using ok by (simp add: mem_ok_def)
  have front: "drop (ref_offset r) (take (ref_end r) ?d) = ref_bytes m r"
    by (simp add: ref_bytes_def drop_take ref_end_def)
  have l: "length (ref_bytes m r) = ref_length r"
    using d len by (simp add: ref_bytes_def ref_end_def)
  have "length (take (ref_end r) ?d) = ref_end r" "ref_offset r \<le> ref_end r"
    using d len by (simp_all add: ref_end_def)
  then have all: "drop (ref_offset r) (take (ref_end r) ?d @ xs @ drop (ref_end r + length xs) ?d)
      = ref_bytes m r @ xs @ drop (ref_end r + length xs) ?d"
    by (simp only: drop_append front) simp
  have "ref_bytes (write_block (ref_block r) (ref_end r) xs m)
      (r\<lparr>ref_length := ref_length r + length xs\<rparr>)
    = take (ref_length r + length xs)
        (drop (ref_offset r) (take (ref_end r) ?d @ xs @ drop (ref_end r + length xs) ?d))"
    by (simp add: ref_bytes_def write_block_def)
  then show ?thesis by (simp only: all) (simp add: l)
qed

text \<open>No block is shared more than it was, and none that was not shared is shared now.\<close>

definition shares_no_more :: "xIOBufferRef multiset \<Rightarrow> xIOBufferRef multiset \<Rightarrow> bool" where
  "shares_no_more M N \<longleftrightarrow> (\<forall>b. refs_to N b \<le> max 1 (refs_to M b))"

lemma shares_refl [simp]: "shares_no_more M M"
  by (simp add: shares_no_more_def)

lemma shares_trans [trans]: "shares_no_more M N \<Longrightarrow> shares_no_more N K \<Longrightarrow> shares_no_more M K"
  unfolding shares_no_more_def by (meson max.absorb_iff2 max.boundedI max.cobounded1 order_trans)

lemma fill_tail_ok:
  assumes ok: "mem_ok m (mset (io_refs io) + R) {#}" and clear: "tail_clear (mset (io_refs io) + R) io"
    and src: "src \<noteq> []" and fill: "fill_tail m io src = (m1, io1, rest)"
  shows "mem_ok m1 (mset (io_refs io1) + R) {#}"
    and "\<exists>n \<le> length src. rest = drop n src
           \<and> refs_bytes m1 (io_refs io1) = refs_bytes m (io_refs io) @ take n src
           \<and> refs_len (io_refs io1) = refs_len (io_refs io) + n \<and> io_nbytes io1 = io_nbytes io + n"
    and "\<forall>r\<in>#R. ref_bytes m1 r = ref_bytes m r"
    and "mem_allocs m1 = mem_allocs m"
    and "shares_no_more (mset (io_refs io) + R) (mset (io_refs io1) + R)"
proof -
  have all: "mem_ok m1 (mset (io_refs io1) + R) {#} \<and> (\<exists>n \<le> length src. rest = drop n src
           \<and> refs_bytes m1 (io_refs io1) = refs_bytes m (io_refs io) @ take n src
           \<and> refs_len (io_refs io1) = refs_len (io_refs io) + n \<and> io_nbytes io1 = io_nbytes io + n)
     \<and> (\<forall>r\<in>#R. ref_bytes m1 r = ref_bytes m r) \<and> mem_allocs m1 = mem_allocs m
     \<and> shares_no_more (mset (io_refs io) + R) (mset (io_refs io1) + R)"
  proof (cases "io_refs io = [] \<or> XIOBUFFER_BLOCK_SIZE \<le> ref_end (last (io_refs io))")
    case True
    with fill have "m1 = m" "io1 = io" "rest = src" by (auto simp: fill_tail_def Let_def split: if_splits)
    with ok show ?thesis by auto
  next
    case False
    then obtain front t where refs: "io_refs io = front @ [t]" by (metis rev_exhaust)
    let ?avail = "XIOBUFFER_BLOCK_SIZE - ref_end t"
    let ?chunk = "take ?avail src"
    let ?t = "t\<lparr>ref_length := ref_length t + length ?chunk\<rparr>"
    let ?M = "mset front + R"
    from False refs have room: "ref_end t < XIOBUFFER_BLOCK_SIZE" by simp
    then have len: "ref_end t + length ?chunk \<le> XIOBUFFER_BLOCK_SIZE" by simp
    from fill refs room have m1: "m1 = write_block (ref_block t) (ref_end t) ?chunk m"
      and io1: "io1 = io\<lparr>io_refs := front @ [?t], io_nbytes := io_nbytes io + length ?chunk\<rparr>"
      and rest: "rest = drop ?avail src"
      by (simp_all add: fill_tail_def Let_def)
    from ok refs have okt: "mem_ok m (add_mset t ?M) {#}" by simp
    have behind: "ref_end r \<le> ref_end t" if "r \<in># ?M" "ref_block r = ref_block t" for r
      using clear that by (auto simp: tail_clear_def refs)
    have apart: "ref_end r \<le> ref_offset t \<or> ref_block r \<noteq> ref_block t" if rM: "r \<in># ?M" for r
    proof (rule ccontr)
      assume "\<not> (ref_end r \<le> ref_offset t \<or> ref_block r \<noteq> ref_block t)"
      then have b: "ref_block r = ref_block t" "ref_offset t < ref_end r" by auto
      let ?p = "max (ref_offset t) (ref_offset r)"
      have l: "0 < ref_length r" "0 < ref_length t"
        using okt that by (auto simp: mem_ok_def ref_ok_def)
      have cr: "covers (ref_block t) ?p r" using b l by (simp add: covers_def ref_end_def)
      have ct: "covers (ref_block t) ?p t"
        using b l behind [OF that b(1)] by (auto simp: covers_def ref_end_def max_def)
      obtain N where N: "?M = add_mset r N" using rM by (rule mset_add)
      have "cover (add_mset t ?M) (ref_block t) ?p = Suc (Suc (cover N (ref_block t) ?p))"
        unfolding N using cr ct by simp
      moreover have "cover (add_mset t ?M) (ref_block t) ?p \<le> 1"
        using okt by (simp add: mem_ok_def disjoint_def del: cover_simps)
      ultimately show False by linarith
    qed
    have others: "ref_bytes m1 r = ref_bytes m r" if "r \<in># ?M" for r
      unfolding m1 using okt len
    proof (rule write_ref_bytes)
      show "ref_end r \<le> XIOBUFFER_BLOCK_SIZE" using okt that by (auto simp: mem_ok_def ref_ok_def)
      show "ref_end r \<le> ref_end t \<or> ref_end t + length ?chunk \<le> ref_offset r"
        if "ref_block r = ref_block t" using behind that \<open>r \<in># ?M\<close> by blast
    qed
    have "mem_ok m1 (add_mset ?t ?M) {#}"
    proof (rule mem_ok_add_ref)
      show "mem_ok m1 ?M (add_mset (ref_block ?t) {#})"
        unfolding m1 using mem_ok_drop_ref [OF okt] len by (simp add: mem_ok_write)
      show "0 < ref_length ?t" using okt by (simp add: mem_ok_def ref_ok_def)
      show "ref_end ?t \<le> XIOBUFFER_BLOCK_SIZE" using len by (simp add: ref_end_def)
      show "cover ?M (ref_block ?t) p = 0" if "covers (ref_block ?t) p ?t" for p
        unfolding cover_zero
      proof
        fix r assume r: "r \<in># ?M"
        from that have "ref_offset t \<le> p" by (simp add: covers_def)
        with apart [OF r] show "\<not> covers (ref_block ?t) p r" by (auto simp: covers_def)
      qed
    qed
    moreover have fr: "refs_bytes m1 front = refs_bytes m front"
      using others by (simp add: refs_bytes_def cong: map_cong)
    moreover have "ref_bytes m1 ?t = ref_bytes m t @ ?chunk"
      unfolding m1 by (rule write_ref_extend [OF okt len])
    moreover have "rest = drop (length ?chunk) src" unfolding rest by (cases "?avail \<le> length src") simp_all
    moreover have "?chunk = take (length ?chunk) src" by (cases "?avail \<le> length src") simp_all
    moreover have "length ?chunk \<le> length src" by simp
    ultimately have "\<exists>n \<le> length src. rest = drop n src
           \<and> refs_bytes m1 (io_refs io1) = refs_bytes m (io_refs io) @ take n src
           \<and> refs_len (io_refs io1) = refs_len (io_refs io) + n \<and> io_nbytes io1 = io_nbytes io + n"
      by (intro exI [of _ "length ?chunk"]) (simp add: io1 refs)
    with \<open>mem_ok m1 (add_mset ?t ?M) {#}\<close> others show ?thesis
      by (simp add: io1 m1 refs shares_no_more_def)
  qed
  then show "mem_ok m1 (mset (io_refs io1) + R) {#}"
    "\<exists>n \<le> length src. rest = drop n src
           \<and> refs_bytes m1 (io_refs io1) = refs_bytes m (io_refs io) @ take n src
           \<and> refs_len (io_refs io1) = refs_len (io_refs io) + n \<and> io_nbytes io1 = io_nbytes io + n"
    "\<forall>r\<in>#R. ref_bytes m1 r = ref_bytes m r" "mem_allocs m1 = mem_allocs m"
    "shares_no_more (mset (io_refs io) + R) (mset (io_refs io1) + R)"
    by blast+
qed

text \<open>New blocks: each takes a piece of the input until an allocation fails.\<close>

definition io_appended ::
  "'a io_mem \<Rightarrow> xIOBuffer \<Rightarrow> 'a list \<Rightarrow> xErrno \<Rightarrow> 'a io_mem \<Rightarrow> xIOBuffer \<Rightarrow> xIOBufferRef multiset \<Rightarrow> bool"
  where
  "io_appended m io src err m1 io1 R \<longleftrightarrow>
     mem_ok m1 (mset (io_refs io1) + R) {#}
   \<and> (\<exists>n \<le> length src. refs_bytes m1 (io_refs io1) = refs_bytes m (io_refs io) @ take n src
        \<and> (err = xErrno_Ok \<longleftrightarrow> n = length src)
        \<and> refs_len (io_refs io1) = refs_len (io_refs io) + n \<and> io_nbytes io1 = io_nbytes io + n)
   \<and> (\<forall>r\<in>#R. ref_bytes m1 r = ref_bytes m r)
   \<and> (err = xErrno_Ok \<or> err = xErrno_NoMemory) \<and> (mem_allocs m = [] \<longrightarrow> err = xErrno_Ok)
   \<and> shares_no_more (mset (io_refs io) + R) (mset (io_refs io1) + R)"

lemma io_appended_none:
  assumes "mem_ok m (mset (io_refs io) + R) {#}" "mem_ok m1 (mset (io_refs io) + R) {#}"
    "same_data m m1" "src \<noteq> []" "mem_allocs m \<noteq> []" "io_refs io1 = io_refs io" "io_nbytes io1 = io_nbytes io"
  shows "io_appended m io src xErrno_NoMemory m1 io1 R"
  using assms by (auto simp: io_appended_def same_data_bytes same_data_refs intro: exI [of _ 0])

lemma acquire_allocs:
  "mem_allocs m = [] \<Longrightarrow> \<exists>b m1. xIOBlockAcquire m = (Some b, m1) \<and> mem_allocs m1 = []"
  by (auto simp: xIOBlockAcquire_def pool_pop_def mem_malloc_def mem_draw_def set_block_def
      split: list.splits)

text \<open>A fresh block filled and pushed.\<close>

lemma push_block_ok:
  assumes ok: "mem_ok m (mset (io_refs io) + R) {#}" and acq: "xIOBlockAcquire m = (Some b, m1)"
    and xs: "0 < length xs" "length xs \<le> XIOBUFFER_BLOCK_SIZE"
    and push: "iobuf_push_ref (set_block b (\<lambda>k. k\<lparr>blk_size := length xs\<rparr>) (write_block b 0 xs m1)) io
                 \<lparr>ref_block = b, ref_offset = 0, ref_length = length xs\<rparr> True = (err, m3, io1)"
  shows "err = xErrno_Ok \<Longrightarrow> mem_ok m3 (mset (io_refs io1) + R) {#}
           \<and> refs_bytes m3 (io_refs io1) = refs_bytes m (io_refs io) @ xs
           \<and> refs_len (io_refs io1) = refs_len (io_refs io) + length xs
           \<and> io_nbytes io1 = io_nbytes io + length xs"
    and "err \<noteq> xErrno_Ok \<Longrightarrow> err = xErrno_NoMemory \<and> io_refs io1 = io_refs io
           \<and> io_nbytes io1 = io_nbytes io
           \<and> mem_ok (xIOBlockRelease b m3) (mset (io_refs io) + R) {#}
           \<and> refs_bytes (xIOBlockRelease b m3) (io_refs io) = refs_bytes m (io_refs io)
           \<and> (\<forall>r\<in>#R. ref_bytes (xIOBlockRelease b m3) r = ref_bytes m r)"
    and "\<forall>r\<in>#R. ref_bytes m3 r = ref_bytes m r"
    and "mem_allocs m = [] \<longrightarrow> err = xErrno_Ok \<and> mem_allocs m3 = []"
    and "shares_no_more (mset (io_refs io) + R) (mset (io_refs io1) + R)"
proof -
  let ?M = "mset (io_refs io) + R"
  let ?r = "\<lparr>ref_block = b, ref_offset = 0, ref_length = length xs\<rparr>"
  define m2 where "m2 = set_block b (\<lambda>k. k\<lparr>blk_size := length xs\<rparr>) (write_block b 0 xs m1)"
  note f = acquire_fresh [OF ok acq]
  have r: "0 < ref_length ?r" using xs by simp
  note p = push_ref_cases [OF push [folded m2_def] r]
    and d = draw_or_same [OF push_ref_cases(1) [OF push [folded m2_def] r]]
  have sd1: "same_data m m1" using f(3) by (simp add: same_data_def)
  have ok2: "mem_ok m2 ?M {#b#}"
    using mem_ok_write [OF f(1), of 0 xs b] xs by (simp add: m2_def)
  then have ok3: "mem_ok m3 ?M {#b#}" by (rule d(1))
  have same2: "ref_bytes m2 r = ref_bytes m r" if "ref_block r \<noteq> b" for r
    using that by (simp add: m2_def ref_bytes_def write_block_def f(3))
  have not_b: "ref_block r \<noteq> b" if "r \<in># ?M" for r using f(2) that by (auto simp: refs_to_zero)
  have bytes: "ref_bytes m3 r = ref_bytes m r" if "r \<in># ?M" for r
    using same2 not_b that same_data_bytes [OF d(2)] by simp
  then have refs: "refs_bytes m3 (io_refs io) = refs_bytes m (io_refs io)"
    by (simp add: refs_bytes_def cong: map_cong)
  have "length (blk_data (mem_block m1 b)) = XIOBUFFER_BLOCK_SIZE"
    using f(1) by (simp add: mem_ok_def)
  then have rb: "ref_bytes m3 ?r = xs"
    using same_data_bytes [OF d(2)] by (simp add: ref_bytes_def m2_def write_block_def)
  show "\<forall>r\<in>#R. ref_bytes m3 r = ref_bytes m r" using bytes by simp
  obtain b' m1' where "mem_allocs m = [] \<longrightarrow> xIOBlockAcquire m = (Some b', m1') \<and> mem_allocs m1' = []"
    using acquire_allocs by blast
  then show "mem_allocs m = [] \<longrightarrow> err = xErrno_Ok \<and> mem_allocs m3 = []"
    using acq p(2) d(3) by (simp add: m2_def set_block_def write_block_def)
  show "shares_no_more ?M (mset (io_refs io1) + R)"
    using p(3) f(2) by (auto simp: shares_no_more_def)
  show "mem_ok m3 (mset (io_refs io1) + R) {#}
           \<and> refs_bytes m3 (io_refs io1) = refs_bytes m (io_refs io) @ xs
           \<and> refs_len (io_refs io1) = refs_len (io_refs io) + length xs
           \<and> io_nbytes io1 = io_nbytes io + length xs" if "err = xErrno_Ok"
  proof -
    have io1: "io_refs io1 = io_refs io @ [?r]" "io_nbytes io1 = io_nbytes io + length xs"
      using p(3) that by auto
    have "cover ?M b q = 0" for q using not_b by (auto simp: cover_zero covers_def)
    then have "mem_ok m3 (add_mset ?r ?M) {#}"
      using ok3 xs by (intro mem_ok_add_ref) (simp_all add: ref_end_def)
    with refs rb show ?thesis by (simp add: io1)
  qed
  show "err = xErrno_NoMemory \<and> io_refs io1 = io_refs io \<and> io_nbytes io1 = io_nbytes io
           \<and> mem_ok (xIOBlockRelease b m3) ?M {#}
           \<and> refs_bytes (xIOBlockRelease b m3) (io_refs io) = refs_bytes m (io_refs io)
           \<and> (\<forall>r\<in>#R. ref_bytes (xIOBlockRelease b m3) r = ref_bytes m r)"
    if "err \<noteq> xErrno_Ok"
    using p(3) that mem_ok_release [OF ok3] refs bytes
      same_data_refs [OF same_data_steps(1) [of m3 b]] same_data_bytes [OF same_data_steps(1) [of m3 b]]
    by auto
qed

lemma append_blocks_ok:
  "mem_ok m (mset (io_refs io) + R) {#} \<Longrightarrow>
   case append_blocks m io src of (err, m1, io1) \<Rightarrow> io_appended m io src err m1 io1 R"
proof (induction m io src rule: append_blocks.induct)
  case (1 m io src)
  show ?case
  proof (cases "src = []")
    case True
    with 1 show ?thesis by (simp add: append_blocks.simps [of m io] io_appended_def)
  next
    case ne: False
    show ?thesis
    proof (cases "xIOBlockAcquire m")
      case (Pair bo m1)
      show ?thesis
      proof (cases bo)
        case None
        have "mem_allocs m \<noteq> []" using acquire_allocs [of m] Pair None by auto
        moreover have "same_data m m1"
          using acquire_fails(2) [OF "1.prems"] Pair None by (simp add: same_data_def)
        ultimately show ?thesis
          using ne Pair None acquire_fails(1) [OF "1.prems"] "1.prems"
          by (simp add: append_blocks.simps [of m io] io_appended_none)
      next
        case (Some b)
        let ?chunk = "take XIOBUFFER_BLOCK_SIZE src"
        let ?m2 = "set_block b (\<lambda>k. k\<lparr>blk_size := length ?chunk\<rparr>) (write_block b 0 ?chunk m1)"
        let ?r = "\<lparr>ref_block = b, ref_offset = 0, ref_length = length ?chunk\<rparr>"
        have acq: "xIOBlockAcquire m = (Some b, m1)" using Pair Some by simp
        have chunk: "0 < length ?chunk" "length ?chunk \<le> XIOBUFFER_BLOCK_SIZE"
          using ne by (simp_all add: XIOBUFFER_BLOCK_SIZE_def)
        obtain err m3 io1 where push: "iobuf_push_ref ?m2 io ?r True = (err, m3, io1)"
          by (metis prod.collapse)
        note p = push_block_ok [OF "1.prems" acq chunk push]
        show ?thesis
        proof (cases "err = xErrno_Ok")
          case True
          note ok = p(1) [OF True]
          obtain e2 m4 io2 where rest:
            "append_blocks m3 io1 (drop XIOBUFFER_BLOCK_SIZE src) = (e2, m4, io2)"
            by (metis prod.collapse)
          have eq: "append_blocks m io src = (e2, m4, io2)"
            using ne acq push True rest by (subst append_blocks.simps) (simp add: Let_def)
          have "io_appended m3 io1 (drop XIOBUFFER_BLOCK_SIZE src) e2 m4 io2 R"
            using "1.IH" [OF ne acq [symmetric] refl refl refl push [symmetric]] True ok rest by simp
          then obtain n where n: "n \<le> length src - XIOBUFFER_BLOCK_SIZE"
            "refs_bytes m4 (io_refs io2) = refs_bytes m3 (io_refs io1) @ take n (drop XIOBUFFER_BLOCK_SIZE src)"
            "e2 = xErrno_Ok \<longleftrightarrow> n = length src - XIOBUFFER_BLOCK_SIZE"
            "refs_len (io_refs io2) = refs_len (io_refs io1) + n" "io_nbytes io2 = io_nbytes io1 + n"
            and a: "mem_ok m4 (mset (io_refs io2) + R) {#}" "\<forall>r\<in>#R. ref_bytes m4 r = ref_bytes m3 r"
            "e2 = xErrno_Ok \<or> e2 = xErrno_NoMemory" "mem_allocs m3 = [] \<longrightarrow> e2 = xErrno_Ok"
            "shares_no_more (mset (io_refs io1) + R) (mset (io_refs io2) + R)"
            by (auto simp: io_appended_def)
          let ?n = "length ?chunk + n"
          have "take ?n src = ?chunk @ take n (drop XIOBUFFER_BLOCK_SIZE src)"
            by (cases "XIOBUFFER_BLOCK_SIZE \<le> length src") (auto simp: take_add min_def)
          moreover have "?n \<le> length src" "?n = length src \<longleftrightarrow> n = length src - XIOBUFFER_BLOCK_SIZE"
            using n(1) by auto
          ultimately have "\<exists>n \<le> length src.
              refs_bytes m4 (io_refs io2) = refs_bytes m (io_refs io) @ take n src
              \<and> (e2 = xErrno_Ok \<longleftrightarrow> n = length src)
              \<and> refs_len (io_refs io2) = refs_len (io_refs io) + n \<and> io_nbytes io2 = io_nbytes io + n"
            using n ok by (intro exI [of _ ?n]) simp
          moreover have "shares_no_more (mset (io_refs io) + R) (mset (io_refs io2) + R)"
            using p(5) a(5) by (rule shares_trans)
          ultimately show ?thesis using a ok p(3,4) unfolding eq by (simp add: io_appended_def)
        next
          case False
          note bad = p(2) [OF False]
          have eq: "append_blocks m io src = (err, xIOBlockRelease b m3, io1)"
            using ne acq push False by (subst append_blocks.simps) (simp add: Let_def)
          have "mem_allocs m \<noteq> []" using p(4) False by blast
          with bad ne show ?thesis
            unfolding eq by (auto simp: io_appended_def intro: exI [of _ 0])
        qed
      qed
    qed
  qed
qed

lemma io_append_ok:
  assumes ok: "mem_ok m (mset (io_refs io) + R) {#}" and clear: "tail_clear (mset (io_refs io) + R) io"
    and run: "xIOBufferAppend m io data = (err, m1, io1)"
  shows "io_appended m io data err m1 io1 R"
proof (cases "data = []")
  case True
  with assms show ?thesis by (simp add: xIOBufferAppend_def io_appended_def)
next
  case False
  obtain m2 io2 rest where fill: "fill_tail m io data = (m2, io2, rest)" by (metis prod.collapse)
  note f = fill_tail_ok [OF ok clear False fill]
  from run False fill have "append_blocks m2 io2 rest = (err, m1, io1)"
    by (simp add: xIOBufferAppend_def)
  with append_blocks_ok [OF f(1), of rest] have a: "io_appended m2 io2 rest err m1 io1 R" by simp
  obtain n where n: "n \<le> length data" "rest = drop n data"
    "refs_bytes m2 (io_refs io2) = refs_bytes m (io_refs io) @ take n data"
    "refs_len (io_refs io2) = refs_len (io_refs io) + n" "io_nbytes io2 = io_nbytes io + n"
    using f(2) by blast
  obtain k where k: "k \<le> length rest"
    "refs_bytes m1 (io_refs io1) = refs_bytes m2 (io_refs io2) @ take k rest"
    "err = xErrno_Ok \<longleftrightarrow> k = length rest"
    "refs_len (io_refs io1) = refs_len (io_refs io2) + k" "io_nbytes io1 = io_nbytes io2 + k"
    using a unfolding io_appended_def by blast
  have "\<exists>n \<le> length data. refs_bytes m1 (io_refs io1) = refs_bytes m (io_refs io) @ take n data
      \<and> (err = xErrno_Ok \<longleftrightarrow> n = length data)
      \<and> refs_len (io_refs io1) = refs_len (io_refs io) + n \<and> io_nbytes io1 = io_nbytes io + n"
    using n k by (intro exI [of _ "n + k"]) (auto simp: take_add)
  moreover have "shares_no_more (mset (io_refs io) + R) (mset (io_refs io1) + R)"
    using f(5) a unfolding io_appended_def by (blast intro: shares_trans)
  ultimately show ?thesis using a f(3,4) unfolding io_appended_def by simp
qed

end
