(* ===== verification/IoQueue.thy ===== *)
theory IoQueue
  imports IoStore
begin

text \<open>
  Programs over several buffers that share blocks of one store (\<^verbatim>\<open>buf/io.c\<close>): each buffer is a byte
  queue of its own as long as no append writes into a byte another reference holds, which only a
  cut can bring about.
\<close>

section \<open>The operations on a family of buffers\<close>

text \<open>
  Several buffers over one store. \<open>all_refs\<close> are their references together, \<open>world_ok\<close> the
  invariant of the store for them with the cached byte counts right.
\<close>

definition all_refs :: "xIOBuffer list \<Rightarrow> xIOBufferRef multiset" where
  "all_refs bs = mset (concat (map io_refs bs))"

definition world_ok :: "'a io_mem \<Rightarrow> xIOBuffer list \<Rightarrow> bool" where
  "world_ok m bs \<longleftrightarrow> mem_ok m (all_refs bs) {#} \<and> (\<forall>io\<in>set bs. io_nbytes io = refs_len (io_refs io))"

text \<open>The bytes each buffer holds.\<close>

definition io_contents :: "'a io_mem \<Rightarrow> xIOBuffer list \<Rightarrow> 'a list list" where
  "io_contents m bs = map (xIOBufferCopyTo m) bs"

lemma copy_refs: "xIOBufferCopyTo m io = refs_bytes m (io_refs io)"
  by (simp add: xIOBufferCopyTo_def refs_bytes_def)

text \<open>\<open>R\<close> are the references of the buffers other than the \<open>i\<close>th (and the \<open>j\<close>th).\<close>

definition focus :: "xIOBuffer list \<Rightarrow> nat \<Rightarrow> xIOBufferRef multiset \<Rightarrow> bool" where
  "focus bs i R \<longleftrightarrow> i < length bs \<and> all_refs bs = mset (io_refs (bs ! i)) + R
     \<and> (\<forall>x. all_refs (bs[i := x]) = mset (io_refs x) + R)
     \<and> (\<forall>j < length bs. j \<noteq> i \<longrightarrow> set (io_refs (bs ! j)) \<subseteq> set_mset R)"

definition focus2 :: "xIOBuffer list \<Rightarrow> nat \<Rightarrow> nat \<Rightarrow> xIOBufferRef multiset \<Rightarrow> bool" where
  "focus2 bs i j R \<longleftrightarrow> i < length bs \<and> j < length bs \<and> i \<noteq> j
     \<and> all_refs bs = mset (io_refs (bs ! i)) + (mset (io_refs (bs ! j)) + R)
     \<and> (\<forall>x y. all_refs (bs[i := x, j := y]) = mset (io_refs x) + (mset (io_refs y) + R))
     \<and> (\<forall>k < length bs. k \<noteq> i \<longrightarrow> k \<noteq> j \<longrightarrow> set (io_refs (bs ! k)) \<subseteq> set_mset R)"

lemma world_focus:
  assumes "i < length bs"
  obtains R where "focus bs i R"
proof
  let ?R = "all_refs (take i bs) + all_refs (drop (Suc i) bs)"
  have a: "all_refs (bs[i := x]) = mset (io_refs x) + ?R" for x
    using assms by (simp add: all_refs_def upd_conv_take_nth_drop ac_simps)
  have b: "all_refs bs = mset (io_refs (bs ! i)) + ?R"
    using assms by (subst (1) id_take_nth_drop [OF assms]) (simp add: all_refs_def ac_simps)
  have c: "set (io_refs (bs ! j)) \<subseteq> set_mset ?R" if "j < length bs" "j \<noteq> i" for j
  proof (cases "j < i")
    case True
    then have "bs ! j \<in> set (take i bs)" using assms by (metis in_set_conv_nth length_take min_less_iff_conj nth_take that(1))
    then show ?thesis by (auto simp: all_refs_def)
  next
    case False
    then have "bs ! j = drop (Suc i) bs ! (j - Suc i)" "j - Suc i < length (drop (Suc i) bs)"
      using that by auto
    then have "bs ! j \<in> set (drop (Suc i) bs)" by (metis nth_mem)
    then show ?thesis by (auto simp: all_refs_def)
  qed
  show "focus bs i ?R" using assms a b c by (simp add: focus_def)
qed

lemma world_focus2:
  assumes "i < length bs" "j < length bs" "i \<noteq> j"
  obtains R where "focus2 bs i j R"
proof -
  let ?e = "xIOBufferInit"
  obtain S where S: "focus bs i S" using world_focus [OF assms(1)] .
  have "j < length (bs[i := ?e])" using assms by simp
  then obtain R where R: "focus (bs[i := ?e]) j R" using world_focus by blast
  have e: "all_refs (bs[i := ?e]) = S" using S by (simp add: focus_def xIOBufferInit_def)
  have S_eq: "S = mset (io_refs (bs ! j)) + R"
    using R assms(3) e by (simp add: focus_def)
  have both: "all_refs (bs[i := x, j := y]) = mset (io_refs x) + (mset (io_refs y) + R)" for x y
  proof -
    have "i < length (bs[j := y])" using assms by simp
    then obtain T where T: "focus (bs[j := y]) i T" using world_focus by blast
    have "all_refs (bs[j := y, i := ?e]) = T" using T by (simp add: focus_def xIOBufferInit_def)
    moreover have "all_refs (bs[i := ?e, j := y]) = mset (io_refs y) + R" using R by (simp add: focus_def)
    ultimately have "T = mset (io_refs y) + R" using assms(3) by (simp add: list_update_swap)
    moreover have "all_refs (bs[j := y, i := x]) = mset (io_refs x) + T" using T by (simp add: focus_def)
    ultimately show ?thesis using assms(3) by (simp add: list_update_swap)
  qed
  have "focus2 bs i j R"
    unfolding focus2_def
  proof (intro conjI allI impI)
    show "all_refs bs = mset (io_refs (bs ! i)) + (mset (io_refs (bs ! j)) + R)"
      using S by (simp add: focus_def S_eq)
    show "set (io_refs (bs ! k)) \<subseteq> set_mset R" if "k < length bs" "k \<noteq> i" "k \<noteq> j" for k
      using R that unfolding focus_def by (metis length_list_update nth_list_update_neq)
  qed (use assms both in auto)
  then show thesis by (rule that)
qed

text \<open>An operation on one buffer, or on two, that leaves the bytes of the others alone.\<close>

lemma bytes_frame:
  "set rs \<subseteq> set_mset R \<Longrightarrow> \<forall>r\<in>#R. ref_bytes m1 r = ref_bytes m r \<Longrightarrow> refs_bytes m1 rs = refs_bytes m rs"
  by (auto simp: refs_bytes_def intro!: arg_cong [of _ _ concat] map_cong)

lemma world_step1:
  assumes "world_ok m bs" and R: "focus bs i R"
    and ok: "mem_ok m1 (mset (io_refs io) + R) {#}" "io_nbytes io = refs_len (io_refs io)"
    and same: "\<forall>r\<in>#R. ref_bytes m1 r = ref_bytes m r"
  shows "world_ok m1 (bs[i := io])"
    "io_contents m1 (bs[i := io]) = (io_contents m bs)[i := refs_bytes m1 (io_refs io)]"
proof -
  show "world_ok m1 (bs[i := io])"
    using assms by (auto simp: world_ok_def focus_def dest: set_update_subset_insert [THEN subsetD])
  show "io_contents m1 (bs[i := io]) = (io_contents m bs)[i := refs_bytes m1 (io_refs io)]"
    using R bytes_frame [OF _ same]
    by (intro nth_equalityI) (auto simp: io_contents_def copy_refs nth_list_update focus_def)
qed

lemma world_step2:
  assumes "world_ok m bs" and R: "focus2 bs i j R"
    and ok: "mem_ok m1 (mset (io_refs io) + (mset (io_refs dst) + R)) {#}"
      "io_nbytes io = refs_len (io_refs io)" "io_nbytes dst = refs_len (io_refs dst)"
    and same: "same_data m m1"
  shows "world_ok m1 (bs[i := io, j := dst])"
    "io_contents m1 (bs[i := io, j := dst])
     = (io_contents m bs)[i := refs_bytes m (io_refs io), j := refs_bytes m (io_refs dst)]"
proof -
  show "world_ok m1 (bs[i := io, j := dst])"
    using assms by (auto simp: world_ok_def focus2_def dest!: set_update_subset_insert [THEN subsetD])
  show "io_contents m1 (bs[i := io, j := dst])
     = (io_contents m bs)[i := refs_bytes m (io_refs io), j := refs_bytes m (io_refs dst)]"
    using R same_data_refs [OF same]
    by (intro nth_equalityI) (auto simp: io_contents_def copy_refs nth_list_update focus2_def)
qed

datatype 'a io_op =
    Op_Append nat "'a list" | Op_Read nat nat | Op_Consume nat nat
  | Op_Cut nat nat nat | Op_Move nat nat | Op_Reset nat | Op_Deinit nat

datatype 'a io_res = Res_err xErrno | Res_n nat | Res_bytes "'a list" | Res_unit

fun io_exec :: "'a io_op \<Rightarrow> 'a io_mem \<times> xIOBuffer list \<Rightarrow> 'a io_res \<times> 'a io_mem \<times> xIOBuffer list" where
  "io_exec (Op_Append i d) (m, bs) =
     (case xIOBufferAppend m (bs ! i) d of (e, m1, io) \<Rightarrow> (Res_err e, m1, bs[i := io]))"
| "io_exec (Op_Read i n) (m, bs) =
     (case xIOBufferRead m (bs ! i) n of (d, m1, io) \<Rightarrow> (Res_bytes d, m1, bs[i := io]))"
| "io_exec (Op_Consume i n) (m, bs) =
     (case xIOBufferConsume m (bs ! i) n of (t, m1, io) \<Rightarrow> (Res_n t, m1, bs[i := io]))"
| "io_exec (Op_Cut i j n) (m, bs) =
     (case xIOBufferCut m (bs ! i) (bs ! j) n of (t, m1, io, dst) \<Rightarrow> (Res_n t, m1, bs[i := io, j := dst]))"
| "io_exec (Op_Move i j) (m, bs) =
     (case xIOBufferAppendIOBuffer m (bs ! i) (bs ! j) of
        (e, m1, io, other) \<Rightarrow> (Res_err e, m1, bs[i := io, j := other]))"
| "io_exec (Op_Reset i) (m, bs) =
     (case xIOBufferReset m (bs ! i) of (m1, io) \<Rightarrow> (Res_unit, m1, bs[i := io]))"
| "io_exec (Op_Deinit i) (m, bs) =
     (case xIOBufferDeinit m (bs ! i) of (m1, io) \<Rightarrow> (Res_unit, m1, bs[i := io]))"

text \<open>
  The abstract operations on queues of bytes: \<open>full\<close> says that no allocation can fail. A failed
  append may have taken a prefix, a failed cut may have moved a prefix.
\<close>

fun io_spec :: "bool \<Rightarrow> 'a io_op \<Rightarrow> 'a list list \<Rightarrow> 'a io_res \<Rightarrow> 'a list list \<Rightarrow> bool" where
  "io_spec full (Op_Append i d) qs res qs1 \<longleftrightarrow>
     (\<exists>n \<le> length d. \<exists>e. res = Res_err e \<and> qs1 = qs[i := qs ! i @ take n d]
        \<and> (e = xErrno_Ok \<and> n = length d \<or> e = xErrno_NoMemory \<and> n < length d \<and> \<not> full))"
| "io_spec full (Op_Read i n) qs res qs1 \<longleftrightarrow>
     res = Res_bytes (take n (qs ! i)) \<and> qs1 = qs[i := drop n (qs ! i)]"
| "io_spec full (Op_Consume i n) qs res qs1 \<longleftrightarrow>
     res = Res_n (min n (length (qs ! i))) \<and> qs1 = qs[i := drop n (qs ! i)]"
| "io_spec full (Op_Cut i j n) qs res qs1 \<longleftrightarrow>
     (\<exists>t \<le> min n (length (qs ! i)). res = Res_n t \<and> (full \<longrightarrow> t = min n (length (qs ! i)))
        \<and> qs1 = qs[i := drop t (qs ! i), j := qs ! j @ take t (qs ! i)])"
| "io_spec full (Op_Move i j) qs res qs1 \<longleftrightarrow>
     res = Res_err xErrno_Ok \<and> qs1 = qs[i := qs ! i @ qs ! j, j := []]
   \<or> res = Res_err xErrno_NoMemory \<and> qs1 = qs \<and> \<not> full"
| "io_spec full (Op_Reset i) qs res qs1 \<longleftrightarrow> res = Res_unit \<and> qs1 = qs[i := []]"
| "io_spec full (Op_Deinit i) qs res qs1 \<longleftrightarrow> res = Res_unit \<and> qs1 = qs[i := []]"

text \<open>
  What a caller must keep to: buffers that exist, two different ones for the operations on two,
  and an append only where the room behind the last reference is free.
\<close>

fun io_pre :: "'a io_op \<Rightarrow> xIOBuffer list \<Rightarrow> bool" where
  "io_pre (Op_Append i d) bs \<longleftrightarrow> i < length bs \<and> tail_clear (all_refs bs) (bs ! i)"
| "io_pre (Op_Read i n) bs \<longleftrightarrow> i < length bs"
| "io_pre (Op_Consume i n) bs \<longleftrightarrow> i < length bs"
| "io_pre (Op_Cut i j n) bs \<longleftrightarrow> i < length bs \<and> j < length bs \<and> i \<noteq> j"
| "io_pre (Op_Move i j) bs \<longleftrightarrow> i < length bs \<and> j < length bs \<and> i \<noteq> j"
| "io_pre (Op_Reset i) bs \<longleftrightarrow> i < length bs"
| "io_pre (Op_Deinit i) bs \<longleftrightarrow> i < length bs"

lemma read_ok:
  assumes ok: "mem_ok m (mset (io_refs io) + R) {#}" and nb: "io_nbytes io = refs_len (io_refs io)"
    and run: "xIOBufferRead m io n = (d, m1, io1)"
  shows "mem_ok m1 (mset (io_refs io1) + R) {#}" "same_data m m1"
    "d = take n (refs_bytes m (io_refs io))" "refs_bytes m (io_refs io1) = drop n (refs_bytes m (io_refs io))"
    "io_nbytes io1 = refs_len (io_refs io1)"
proof -
  have len: "length (refs_bytes m (io_refs io)) = refs_len (io_refs io)"
    using ok by (rule length_refs_bytes) simp
  have "mem_ok m1 (mset (io_refs io1) + R) {#} \<and> same_data m m1
     \<and> d = take n (refs_bytes m (io_refs io)) \<and> refs_bytes m (io_refs io1) = drop n (refs_bytes m (io_refs io))
     \<and> io_nbytes io1 = refs_len (io_refs io1)"
  proof (cases "n = 0")
    case True
    with assms show ?thesis by (simp add: xIOBufferRead_def)
  next
    case False
    then obtain rs where rr: "read_refs m (io_refs io) (min n (io_nbytes io)) = (d, m1, rs)"
      and io1: "io1 = io\<lparr>io_refs := rs, io_nbytes := io_nbytes io - length d\<rparr>"
      using run by (auto simp: xIOBufferRead_def split: prod.splits)
    with read_refs_ok [OF ok, of "min n (io_nbytes io)"] nb len
    show ?thesis by (auto simp: min_def)
  qed
  then show "mem_ok m1 (mset (io_refs io1) + R) {#}" "same_data m m1"
    "d = take n (refs_bytes m (io_refs io))" "refs_bytes m (io_refs io1) = drop n (refs_bytes m (io_refs io))"
    "io_nbytes io1 = refs_len (io_refs io1)" by blast+
qed

lemma consume_is_read:
  assumes "mem_ok m (mset (io_refs io) + R) H"
  shows "xIOBufferConsume m io n = (case xIOBufferRead m io n of (d, m1, io1) \<Rightarrow> (length d, m1, io1))"
  using assms by (auto simp: xIOBufferConsume_def xIOBufferRead_def length_ref_bytes
      consume_read_refs split: prod.splits)

lemma release_refs_ok:
  "mem_ok m (mset rs + R) {#} \<Longrightarrow> mem_ok (release_refs rs m) R {#} \<and> same_data m (release_refs rs m)"
proof (induction rs arbitrary: m)
  case (Cons r rs)
  let ?m = "xIOBlockRelease (ref_block r) m"
  have "mem_ok ?m (mset rs + R) {#}"
    using Cons.prems by (intro mem_ok_release mem_ok_drop_ref) simp
  with Cons.IH [of ?m] same_data_trans [OF same_data_steps(1)] show ?case
    by (fastforce simp: release_refs_def)
qed (simp add: release_refs_def)

lemma io_contents_nth: "i < length bs \<Longrightarrow> io_contents m bs ! i = refs_bytes m (io_refs (bs ! i))"
  by (simp add: io_contents_def copy_refs)

lemma world_len:
  "world_ok m bs \<Longrightarrow> i < length bs \<Longrightarrow> io_nbytes (bs ! i) = refs_len (io_refs (bs ! i))"
  by (simp add: world_ok_def)

lemma same_data_ball: "same_data m m1 \<Longrightarrow> \<forall>r\<in>#R. ref_bytes m1 r = ref_bytes m r"
  by (simp add: same_data_bytes)

lemma exec_append:
  assumes w: "world_ok m bs" and pre: "io_pre (Op_Append i d) bs"
    and run: "io_exec (Op_Append i d) (m, bs) = (res, m1, bs1)"
  shows "world_ok m1 bs1 \<and> io_spec (mem_allocs m = []) (Op_Append i d) (io_contents m bs) res (io_contents m1 bs1)
    \<and> shares_no_more (all_refs bs) (all_refs bs1)"
proof -
  from pre have i: "i < length bs" and clear: "tail_clear (all_refs bs) (bs ! i)" by simp_all
  obtain e io where ap: "xIOBufferAppend m (bs ! i) d = (e, m1, io)" and res: "res = Res_err e"
    and bs1: "bs1 = bs[i := io]" using run by (auto split: prod.splits)
  obtain R where F: "focus bs i R" using world_focus [OF i] .
  then have R: "all_refs bs = mset (io_refs (bs ! i)) + R"
    "all_refs (bs[i := io]) = mset (io_refs io) + R" by (simp_all add: focus_def)
  have ok: "mem_ok m (mset (io_refs (bs ! i)) + R) {#}" using w R(1) by (simp add: world_ok_def)
  have a: "io_appended m (bs ! i) d e m1 io R" using io_append_ok [OF ok _ ap] clear R(1) by simp
  then obtain n where n: "n \<le> length d"
    "refs_bytes m1 (io_refs io) = refs_bytes m (io_refs (bs ! i)) @ take n d"
    "e = xErrno_Ok \<longleftrightarrow> n = length d"
    "refs_len (io_refs io) = refs_len (io_refs (bs ! i)) + n" "io_nbytes io = io_nbytes (bs ! i) + n"
    unfolding io_appended_def by blast
  have nb: "io_nbytes io = refs_len (io_refs io)" using n world_len [OF w i] by simp
  from a have "mem_ok m1 (mset (io_refs io) + R) {#}" "\<forall>r\<in>#R. ref_bytes m1 r = ref_bytes m r"
    unfolding io_appended_def by blast+
  note st = world_step1 [OF w F this(1) nb this(2)]
  have "io_spec (mem_allocs m = []) (Op_Append i d) (io_contents m bs) res (io_contents m1 bs1)"
  proof -
    have "e = xErrno_Ok \<and> n = length d \<or> e = xErrno_NoMemory \<and> n < length d \<and> mem_allocs m \<noteq> []"
      using a n(1,3) unfolding io_appended_def by auto
    then show ?thesis using n(1,2) st(2) i res bs1 by (auto simp: io_contents_nth)
  qed
  moreover have "shares_no_more (all_refs bs) (all_refs bs1)"
    using a by (simp add: io_appended_def R bs1)
  ultimately show ?thesis using st(1) bs1 by simp
qed

lemma read_refs_share:
  "read_refs m rs k = (d, m1, rs1) \<Longrightarrow> refs_to (mset rs1) b \<le> refs_to (mset rs) b"
proof (induction rs arbitrary: m k d m1 rs1)
  case (Cons r rs)
  show ?case
  proof (cases "k \<noteq> 0 \<and> ref_length r \<le> k")
    case True
    then obtain d2 where
      "read_refs (xIOBlockRelease (ref_block r) m) rs (k - ref_length r) = (d2, m1, rs1)"
      using Cons.prems by (auto simp: Let_def min_def split: prod.splits)
    from Cons.IH [OF this] show ?thesis by simp
  next
    case False
    with Cons.prems show ?thesis by (auto simp: Let_def min_def split: if_splits)
  qed
qed simp

lemma shares_mono: "(\<And>b. refs_to N b \<le> refs_to M b) \<Longrightarrow> shares_no_more M N"
  by (simp add: shares_no_more_def le_max_iff_disj)

lemma exec_read:
  assumes w: "world_ok m bs" and pre: "i < length bs"
    and run: "xIOBufferRead m (bs ! i) n = (d, m1, io)"
  shows "world_ok m1 (bs[i := io]) \<and> d = take n (io_contents m bs ! i)
    \<and> io_contents m1 (bs[i := io]) = (io_contents m bs)[i := drop n (io_contents m bs ! i)]
    \<and> shares_no_more (all_refs bs) (all_refs (bs[i := io]))"
proof -
  obtain R where F: "focus bs i R" using world_focus [OF pre] .
  then have R: "all_refs bs = mset (io_refs (bs ! i)) + R"
    "all_refs (bs[i := io]) = mset (io_refs io) + R" by (simp_all add: focus_def)
  have ok: "mem_ok m (mset (io_refs (bs ! i)) + R) {#}" using w R(1) by (simp add: world_ok_def)
  note r = read_ok [OF ok world_len [OF w pre] run]
  have "refs_to (mset (io_refs io)) b \<le> refs_to (mset (io_refs (bs ! i))) b" for b
    using run by (auto simp: xIOBufferRead_def split: if_splits prod.splits dest: read_refs_share)
  then have "shares_no_more (all_refs bs) (all_refs (bs[i := io]))"
    by (intro shares_mono) (simp add: R)
  with world_step1 [OF w F r(1) r(5) same_data_ball [OF r(2)]] r(3,4) pre same_data_refs [OF r(2)]
  show ?thesis by (simp add: io_contents_nth)
qed

lemma exec_consume:
  assumes w: "world_ok m bs" and pre: "i < length bs"
    and run: "xIOBufferConsume m (bs ! i) n = (t, m1, io)"
  shows "world_ok m1 (bs[i := io]) \<and> t = min n (length (io_contents m bs ! i))
    \<and> io_contents m1 (bs[i := io]) = (io_contents m bs)[i := drop n (io_contents m bs ! i)]
    \<and> shares_no_more (all_refs bs) (all_refs (bs[i := io]))"
proof -
  obtain R where F: "focus bs i R" using world_focus [OF pre] .
  then have "mem_ok m (mset (io_refs (bs ! i)) + R) {#}"
    using w by (simp add: world_ok_def focus_def)
  from consume_is_read [OF this, of n] run obtain d where
    "xIOBufferRead m (bs ! i) n = (d, m1, io)" "t = length d" by (auto split: prod.splits)
  with exec_read [OF w pre this(1)] show ?thesis by (simp add: min.commute)
qed

lemma exec_cut:
  assumes w: "world_ok m bs" and pre: "i < length bs" "j < length bs" "i \<noteq> j"
    and run: "xIOBufferCut m (bs ! i) (bs ! j) n = (t, m1, io, dst)"
  shows "world_ok m1 (bs[i := io, j := dst])
    \<and> io_spec (mem_allocs m = []) (Op_Cut i j n) (io_contents m bs) (Res_n t) (io_contents m1 (bs[i := io, j := dst]))"
proof -
  obtain R where F: "focus2 bs i j R" using world_focus2 [OF pre] .
  let ?a = "bs ! i" and ?b = "bs ! j"
  have ok: "mem_ok m (mset (io_refs ?a) + (mset (io_refs ?b) + R)) {#}"
    using w F by (simp add: world_ok_def focus2_def)
  have len: "length (refs_bytes m (io_refs ?a)) = refs_len (io_refs ?a)"
    using ok by (rule length_refs_bytes) simp
  note nb = world_len [OF w pre(1)] world_len [OF w pre(2)]
  have all: "mem_ok m1 (mset (io_refs io) + (mset (io_refs dst) + R)) {#} \<and> same_data m m1
     \<and> t \<le> min n (refs_len (io_refs ?a)) \<and> (mem_allocs m = [] \<longrightarrow> t = min n (refs_len (io_refs ?a)))
     \<and> refs_bytes m (io_refs dst) = refs_bytes m (io_refs ?b) @ take t (refs_bytes m (io_refs ?a))
     \<and> refs_bytes m (io_refs io) = drop t (refs_bytes m (io_refs ?a))
     \<and> io_nbytes io = refs_len (io_refs io) \<and> io_nbytes dst = refs_len (io_refs dst)"
  proof (cases "n = 0")
    case True
    with run ok nb show ?thesis by (simp add: xIOBufferCut_def)
  next
    case False
    then obtain rs dst1 where
      cc: "cut_refs m (io_refs ?a) ?b (min n (io_nbytes ?a)) = (t, m1, rs, dst1)"
      and io: "io = ?a\<lparr>io_refs := rs, io_nbytes := io_nbytes ?a - t\<rparr>"
      and dst: "dst = dst1\<lparr>io_nbytes := io_nbytes dst1 + t\<rparr>"
      using run by (auto simp: xIOBufferCut_def split: prod.splits)
    from cut_refs_ok [OF ok, of "min n (io_nbytes ?a)"] cc nb
    show ?thesis by (simp add: io dst)
  qed
  then have st: "mem_ok m1 (mset (io_refs io) + (mset (io_refs dst) + R)) {#}" "same_data m m1"
    "io_nbytes io = refs_len (io_refs io)" "io_nbytes dst = refs_len (io_refs dst)" by blast+
  note st2 = world_step2 [OF w F st(1,3,4,2)]
  have "io_spec (mem_allocs m = []) (Op_Cut i j n) (io_contents m bs) (Res_n t) (io_contents m1 (bs[i := io, j := dst]))"
    using all len pre st2(2) by (auto simp: io_contents_nth)
  with st2(1) show ?thesis by simp
qed

lemma exec_move:
  assumes w: "world_ok m bs" and pre: "i < length bs" "j < length bs" "i \<noteq> j"
    and run: "xIOBufferAppendIOBuffer m (bs ! i) (bs ! j) = (e, m1, io, dst)"
  shows "world_ok m1 (bs[i := io, j := dst])
    \<and> io_spec (mem_allocs m = []) (Op_Move i j) (io_contents m bs) (Res_err e) (io_contents m1 (bs[i := io, j := dst]))
    \<and> shares_no_more (all_refs bs) (all_refs (bs[i := io, j := dst]))"
proof -
  obtain R where F: "focus2 bs i j R" using world_focus2 [OF pre] .
  let ?a = "bs ! i" and ?b = "bs ! j"
  have ok: "mem_ok m (mset (io_refs ?a) + (mset (io_refs ?b) + R)) {#}"
    using w F by (simp add: world_ok_def focus2_def)
  note nb = world_len [OF w pre(1)] world_len [OF w pre(2)]
  have all: "(m1 = m \<or> m1 = snd (mem_draw m))
     \<and> (e = xErrno_Ok \<and> io_refs io = io_refs ?a @ io_refs ?b \<and> io_refs dst = []
          \<and> io_nbytes io = io_nbytes ?a + io_nbytes ?b \<and> io_nbytes dst = 0
        \<or> e = xErrno_NoMemory \<and> mem_allocs m \<noteq> [] \<and> io_refs io = io_refs ?a \<and> io_refs dst = io_refs ?b
          \<and> io_nbytes io = io_nbytes ?a \<and> io_nbytes dst = io_nbytes ?b)"
  proof (cases "io_refs ?b = []")
    case True
    with run nb show ?thesis by (auto simp: xIOBufferAppendIOBuffer_def)
  next
    case False
    obtain e2 m2 io2 where g: "iobuf_grow_refs m ?a (length (io_refs ?a) + length (io_refs ?b)) = (e2, m2, io2)"
      by (metis prod.collapse)
    from grow_refs_cases [OF g] g run False show ?thesis
      by (auto simp: xIOBufferAppendIOBuffer_def split: if_splits)
  qed
  then have d: "m1 = m \<or> m1 = snd (mem_draw m)" by blast
  have ok1: "mem_ok m1 (mset (io_refs io) + (mset (io_refs dst) + R)) {#}"
    using draw_or_same(1) [OF d ok] all by (auto simp: ac_simps)
  have nb1: "io_nbytes io = refs_len (io_refs io)" "io_nbytes dst = refs_len (io_refs dst)"
    using all nb by auto
  note st = world_step2 [OF w F ok1 nb1 draw_or_same(2) [OF d]]
  have "io_spec (mem_allocs m = []) (Op_Move i j) (io_contents m bs) (Res_err e) (io_contents m1 (bs[i := io, j := dst]))"
    using all st(2) pre by (auto simp: io_contents_nth [symmetric])
  moreover have "shares_no_more (all_refs bs) (all_refs (bs[i := io, j := dst]))"
    using F all by (auto simp: focus2_def ac_simps)
  ultimately show ?thesis using st(1) by simp
qed

lemma exec_clear:
  assumes w: "world_ok m bs" and pre: "i < length bs" and io: "io_refs io = []" "io_nbytes io = 0"
  shows "world_ok (release_refs (io_refs (bs ! i)) m) (bs[i := io])
    \<and> io_contents (release_refs (io_refs (bs ! i)) m) (bs[i := io]) = (io_contents m bs)[i := []]
    \<and> shares_no_more (all_refs bs) (all_refs (bs[i := io]))"
proof -
  obtain R where F: "focus bs i R" using world_focus [OF pre] .
  then have "mem_ok m (mset (io_refs (bs ! i)) + R) {#}"
    using w by (simp add: world_ok_def focus_def)
  note r = release_refs_ok [OF this]
  from r have ok: "mem_ok (release_refs (io_refs (bs ! i)) m) (mset (io_refs io) + R) {#}"
    by (simp add: io)
  from r have same: "\<forall>q\<in>#R. ref_bytes (release_refs (io_refs (bs ! i)) m) q = ref_bytes m q"
    by (intro same_data_ball) blast
  have "shares_no_more (all_refs bs) (all_refs (bs[i := io]))"
    using F io by (intro shares_mono) (simp add: focus_def)
  with world_step1 [OF w F ok _ same] show ?thesis by (simp add: io)
qed

text \<open>One operation: the invariant, the queue operation, and who shares blocks with whom.\<close>

lemma exec_ok:
  assumes w: "world_ok m bs" and pre: "io_pre op bs" and run: "io_exec op (m, bs) = (res, m1, bs1)"
  shows "world_ok m1 bs1 \<and> io_spec (mem_allocs m = []) op (io_contents m bs) res (io_contents m1 bs1)"
    and "(\<forall>i j n. op \<noteq> Op_Cut i j n) \<Longrightarrow> shares_no_more (all_refs bs) (all_refs bs1)"
proof -
  have "world_ok m1 bs1 \<and> io_spec (mem_allocs m = []) op (io_contents m bs) res (io_contents m1 bs1)
      \<and> ((\<forall>i j n. op \<noteq> Op_Cut i j n) \<longrightarrow> shares_no_more (all_refs bs) (all_refs bs1))"
  proof (cases op)
    case (Op_Append i d)
    with exec_append [OF w, of i d] pre run show ?thesis by blast
  next
    case (Op_Read i n)
    with exec_read [OF w] pre run show ?thesis by (auto split: prod.splits)
  next
    case (Op_Consume i n)
    with exec_consume [OF w] pre run show ?thesis by (auto split: prod.splits)
  next
    case (Op_Cut i j n)
    then obtain t io dst where "xIOBufferCut m (bs ! i) (bs ! j) n = (t, m1, io, dst)"
      "res = Res_n t" "bs1 = bs[i := io, j := dst]" using run by (auto split: prod.splits)
    with exec_cut [OF w _ _ _ this(1)] pre Op_Cut show ?thesis by simp
  next
    case (Op_Move i j)
    then obtain e io dst where "xIOBufferAppendIOBuffer m (bs ! i) (bs ! j) = (e, m1, io, dst)"
      "res = Res_err e" "bs1 = bs[i := io, j := dst]" using run by (auto split: prod.splits)
    with exec_move [OF w _ _ _ this(1)] pre Op_Move show ?thesis by simp
  next
    case (Op_Reset i)
    with exec_clear [OF w, of i "(bs ! i)\<lparr>io_refs := [], io_nbytes := 0\<rparr>"] pre run
    show ?thesis by (auto simp: xIOBufferReset_def)
  next
    case (Op_Deinit i)
    with exec_clear [OF w, of i xIOBufferInit] pre run
    show ?thesis by (auto simp: xIOBufferDeinit_def xIOBufferInit_def)
  qed
  then show "world_ok m1 bs1 \<and> io_spec (mem_allocs m = []) op (io_contents m bs) res (io_contents m1 bs1)"
    "(\<forall>i j n. op \<noteq> Op_Cut i j n) \<Longrightarrow> shares_no_more (all_refs bs) (all_refs bs1)" by blast+
qed

section \<open>Programs\<close>

fun io_run :: "'a io_op list \<Rightarrow> 'a io_mem \<times> xIOBuffer list \<Rightarrow> 'a io_res list \<times> 'a io_mem \<times> xIOBuffer list" where
  "io_run [] w = ([], w)"
| "io_run (op # ops) w =
     (case io_exec op w of (r, w1) \<Rightarrow> (case io_run ops w1 of (rs, w2) \<Rightarrow> (r # rs, w2)))"

text \<open>Every operation of the program meets its precondition when it runs.\<close>

fun io_safe :: "'a io_op list \<Rightarrow> 'a io_mem \<times> xIOBuffer list \<Rightarrow> bool" where
  "io_safe [] w \<longleftrightarrow> True"
| "io_safe (op # ops) w \<longleftrightarrow> io_pre op (snd w) \<and> io_safe ops (snd (io_exec op w))"

text \<open>A run of the queues that explains the results.\<close>

inductive queue_run :: "'a io_op list \<Rightarrow> 'a list list \<Rightarrow> 'a io_res list \<Rightarrow> 'a list list \<Rightarrow> bool" where
  queue_done: "queue_run [] qs [] qs"
| queue_step: "io_spec False op qs r qs1 \<Longrightarrow> queue_run ops qs1 rs qs2 \<Longrightarrow> queue_run (op # ops) qs (r # rs) qs2"

lemma io_spec_full: "io_spec full op qs r qs1 \<Longrightarrow> io_spec False op qs r qs1"
  by (cases op) auto

definition unshared :: "xIOBuffer list \<Rightarrow> bool" where
  "unshared bs \<longleftrightarrow> (\<forall>b. refs_to (all_refs bs) b \<le> 1)"

lemma unshared_step: "shares_no_more (all_refs bs) (all_refs bs1) \<Longrightarrow> unshared bs \<Longrightarrow> unshared bs1"
  unfolding unshared_def shares_no_more_def by (metis max.absorb1)

lemma length_exec: "length (snd (snd (io_exec op (m, bs)))) = length bs"
  by (cases op) (auto split: prod.splits)

text \<open>Where no block is shared the room behind the last reference is free.\<close>

lemma unshared_clear:
  assumes "unshared bs" "i < length bs"
  shows "tail_clear (all_refs bs) (bs ! i)"
  unfolding tail_clear_def
proof (intro impI ballI)
  let ?t = "last (io_refs (bs ! i))"
  fix r assume ne: "io_refs (bs ! i) \<noteq> []" and r: "r \<in># all_refs bs" "ref_block r = ref_block ?t"
  have "bs ! i \<in> set bs" "?t \<in> set (io_refs (bs ! i))" using assms(2) ne by simp_all
  then have t: "?t \<in># all_refs bs" by (auto simp: all_refs_def)
  have "r = ?t"
  proof (rule ccontr)
    assume "r \<noteq> ?t"
    obtain N where N: "all_refs bs = add_mset r N" using r(1) by (rule mset_add)
    with t \<open>r \<noteq> ?t\<close> have "?t \<in># N" by simp
    then obtain K where K: "N = add_mset ?t K" by (rule mset_add)
    have "refs_to (all_refs bs) (ref_block ?t) = Suc (Suc (refs_to K (ref_block ?t)))"
      unfolding N K using r(2) by simp
    moreover have "refs_to (all_refs bs) (ref_block ?t) \<le> 1" using assms(1) by (simp add: unshared_def)
    ultimately show False by linarith
  qed
  then show "ref_end r \<le> ref_end ?t" by simp
qed

text \<open>A program on \<open>n\<close> buffers that never cuts; the conditions can be read off its text.\<close>

fun io_plain :: "nat \<Rightarrow> 'a io_op \<Rightarrow> bool" where
  "io_plain n (Op_Append i d) \<longleftrightarrow> i < n"
| "io_plain n (Op_Read i k) \<longleftrightarrow> i < n"
| "io_plain n (Op_Consume i k) \<longleftrightarrow> i < n"
| "io_plain n (Op_Cut i j k) \<longleftrightarrow> False"
| "io_plain n (Op_Move i j) \<longleftrightarrow> i < n \<and> j < n \<and> i \<noteq> j"
| "io_plain n (Op_Reset i) \<longleftrightarrow> i < n"
| "io_plain n (Op_Deinit i) \<longleftrightarrow> i < n"

lemma plain_pre: "io_plain (length bs) op \<Longrightarrow> unshared bs \<Longrightarrow> io_pre op bs"
  by (cases op) (simp_all add: unshared_clear)

lemma plain_safe:
  "world_ok m bs \<Longrightarrow> unshared bs \<Longrightarrow> list_all (io_plain (length bs)) ops \<Longrightarrow> io_safe ops (m, bs)"
proof (induction ops arbitrary: m bs)
  case (Cons op ops)
  then have pre: "io_pre op bs" by (simp add: plain_pre)
  obtain r m1 bs1 where ex: "io_exec op (m, bs) = (r, m1, bs1)" by (metis prod.collapse)
  note ok = exec_ok [OF Cons.prems(1) pre ex]
  from Cons.prems(3) have nc: "\<forall>i j n. op \<noteq> Op_Cut i j n" by auto
  have len: "length bs1 = length bs" using length_exec [of op m bs] ex by simp
  have "unshared bs1" using ok(2) [OF nc] Cons.prems(2) by (rule unshared_step)
  with Cons.IH [of m1 bs1] ok(1) Cons.prems(3) have "io_safe ops (m1, bs1)" by (simp add: len)
  with pre ex show ?case by simp
qed simp

lemma run_ok:
  "world_ok m bs \<Longrightarrow> io_safe ops (m, bs) \<Longrightarrow> io_run ops (m, bs) = (rs, m1, bs1) \<Longrightarrow>
   world_ok m1 bs1 \<and> queue_run ops (io_contents m bs) rs (io_contents m1 bs1)"
proof (induction ops arbitrary: m bs rs)
  case Nil
  then show ?case by (simp add: queue_done)
next
  case (Cons op ops)
  obtain r m2 bs2 where ex: "io_exec op (m, bs) = (r, m2, bs2)" by (metis prod.collapse)
  obtain rs2 where rest: "io_run ops (m2, bs2) = (rs2, m1, bs1)" and rs: "rs = r # rs2"
    using Cons.prems(3) ex by (auto split: prod.splits)
  from Cons.prems(2) ex have pre: "io_pre op bs" "io_safe ops (m2, bs2)" by simp_all
  note ok = exec_ok(1) [OF Cons.prems(1) pre(1) ex]
  from Cons.IH [OF _ pre(2) rest] ok have "world_ok m1 bs1" "queue_run ops (io_contents m2 bs2) rs2 (io_contents m1 bs1)"
    by blast+
  with ok io_spec_full queue_step show ?case unfolding rs by blast
qed

text \<open>A memory nothing has been allocated from, and the buffers as initialised.\<close>

definition fresh_mem :: "'a \<Rightarrow> allocs \<Rightarrow> 'a io_mem" where
  "fresh_mem x as = \<lparr>mem_block = (\<lambda>_. \<lparr>blk_refs = 0, blk_size = 0,
                                       blk_data = replicate XIOBUFFER_BLOCK_SIZE x\<rparr>),
                    mem_pool = [], mem_next = 0, mem_freed = [], mem_allocs = as\<rparr>"

lemma fresh_ok: "world_ok (fresh_mem x as) (replicate n xIOBufferInit)"
  by (auto simp: world_ok_def mem_ok_def fresh_mem_def pool_ok_def counts_ok_def disjoint_def live_def
      all_refs_def xIOBufferInit_def)

lemma fresh_unshared: "unshared (replicate n xIOBufferInit)"
  by (simp add: unshared_def all_refs_def xIOBufferInit_def)

lemma fresh_io_contents: "io_contents m (replicate n xIOBufferInit) = replicate n []"
  by (simp add: io_contents_def copy_refs xIOBufferInit_def)

section \<open>Receiving\<close>

text \<open>
  What a descriptor or a callback delivers is io_appended, the result is its length; an error, or
  a failed allocation, leaves the bytes of all buffers as they were.
\<close>

lemma read_with_ok:
  assumes ok: "mem_ok m (mset (io_refs io) + R) {#}" and clear: "tail_clear (mset (io_refs io) + R) io"
    and input: "\<And>room. input room = Inl e \<and> e \<le> 0 \<or> (\<exists>xs. input room = Inr xs \<and> xs \<noteq> [] \<and> length xs \<le> room)"
    and run: "xIOBufferReadWith m io input = (n, m1, io1)"
  shows "\<exists>xs. refs_bytes m1 (io_refs io1) = refs_bytes m (io_refs io) @ xs
    \<and> mem_ok m1 (mset (io_refs io1) + R) {#} \<and> (\<forall>r\<in>#R. ref_bytes m1 r = ref_bytes m r)
    \<and> io_nbytes io1 = io_nbytes io + length xs \<and> (xs = [] \<and> n \<le> 0 \<or> n = int (length xs))"
proof (cases "io_refs io = [] \<or> XIOBUFFER_BLOCK_SIZE \<le> ref_end (last (io_refs io))")
  case False
  let ?avail = "XIOBUFFER_BLOCK_SIZE - ref_end (last (io_refs io))"
  from False have av: "0 < ?avail" by simp
  consider "input ?avail = Inl e" "e \<le> 0" | xs where "input ?avail = Inr xs" "xs \<noteq> []" "length xs \<le> ?avail"
    using input by blast
  then show ?thesis
  proof cases
    case 1
    with run False av ok show ?thesis by (auto simp: xIOBufferReadWith_def Let_def)
  next
    case (2 xs)
    obtain m2 io2 rest where fill: "fill_tail m io xs = (m2, io2, rest)" by (metis prod.collapse)
    have eq: "rest = []" "m1 = m2" "io1 = io2" "n = int (length xs)"
      using run False av 2 fill by (auto simp: xIOBufferReadWith_def Let_def fill_tail_def)
    note f = fill_tail_ok [OF ok clear 2(2) fill]
    from f(2) obtain k where "k \<le> length xs" "rest = drop k xs"
      "refs_bytes m2 (io_refs io2) = refs_bytes m (io_refs io) @ take k xs" "io_nbytes io2 = io_nbytes io + k"
      by blast
    with f(1,3) eq show ?thesis by (intro exI [of _ xs]) simp
  qed
next
  case True
  show ?thesis
  proof (cases "fst (xIOBlockAcquire m)")
    case None
    then have acq: "xIOBlockAcquire m = (None, snd (xIOBlockAcquire m))" by (metis prod.collapse)
    have "n = -1" "m1 = snd (xIOBlockAcquire m)" "io1 = io"
      using run True None by (auto simp: xIOBufferReadWith_def Let_def split: prod.splits if_splits)
    moreover have "same_data m (snd (xIOBlockAcquire m))"
      using acquire_fails(2) [OF ok acq] by (simp add: same_data_def)
    ultimately show ?thesis
      using acquire_fails(1) [OF ok acq]
      by (intro exI [of _ "[]"]) (simp add: same_data_refs same_data_bytes)
  next
    case (Some b)
    then obtain m2 where acq: "xIOBlockAcquire m = (Some b, m2)" by (metis prod.collapse)
    note fresh = acquire_fresh [OF ok acq]
    have sd: "same_data m m2" using fresh(3) by (simp add: same_data_def)
    consider "input XIOBUFFER_BLOCK_SIZE = Inl e" "e \<le> 0"
      | xs where "input XIOBUFFER_BLOCK_SIZE = Inr xs" "xs \<noteq> []" "length xs \<le> XIOBUFFER_BLOCK_SIZE"
      using input by blast
    then show ?thesis
    proof cases
      case 1
      have eq: "n = e" "m1 = xIOBlockRelease b m2" "io1 = io"
        using run True acq 1 by (auto simp: xIOBufferReadWith_def Let_def split: if_splits)
      have "same_data m m1" unfolding eq using sd same_data_steps(1) by (rule same_data_trans)
      with mem_ok_release [OF fresh(1)] 1 show ?thesis
        by (intro exI [of _ "[]"]) (simp add: eq same_data_refs same_data_bytes)
    next
      case (2 xs)
      let ?m3 = "set_block b (\<lambda>k. k\<lparr>blk_size := length xs\<rparr>) (write_block b 0 xs m2)"
      obtain err m3 io2 where push: "iobuf_push_ref ?m3 io
          \<lparr>ref_block = b, ref_offset = 0, ref_length = length xs\<rparr> True = (err, m3, io2)"
        by (metis prod.collapse)
      from 2 have len: "0 < length xs" by simp
      note p = push_block_ok [OF ok acq len 2(3) push]
      show ?thesis
      proof (cases "err = xErrno_Ok")
        case ok: True
        have "n = int (length xs)" "m1 = m3" "io1 = io2"
          using run True acq 2 push ok by (auto simp: xIOBufferReadWith_def Let_def split: if_splits)
        with p(1) [OF ok] p(3) show ?thesis by (intro exI [of _ xs]) simp
      next
        case bad: False
        have "n = -1" "m1 = xIOBlockRelease b m3" "io1 = io2"
          using run True acq 2 push bad by (auto simp: xIOBufferReadWith_def Let_def split: if_splits)
        with p(2) [OF bad] show ?thesis by (intro exI [of _ "[]"]) simp
      qed
    qed
  qed
qed

section \<open>Properties\<close>

text \<open>
  C21. Queues over shared blocks: for every program of appends, reads, consumes, cuts, moves,
  resets and deinitialisations on any number of buffers, under every pattern of allocation
  failures, the results are those of byte queues (a failed append keeps a prefix, a failed cut
  moves a prefix), and the store keeps its invariant: every block is pooled, freed or counted
  exactly by its references, no byte belongs to two references, and the cached lengths are
  right. The program must append only where the room behind the last reference is free.
\<close>

theorem iobuf_refines_queues:
  assumes "world_ok m bs" "io_safe ops (m, bs)" "io_run ops (m, bs) = (rs, m1, bs1)"
  shows "world_ok m1 bs1 \<and> queue_run ops (io_contents m bs) rs (io_contents m1 bs1)"
  using run_ok [OF assms] .

theorem iobuf_refines_queues_witness:
  "\<exists>rs m1 bs1. io_run [Op_Append 0 [1, 2], Op_Cut 0 1 1] (fresh_mem (0 :: nat) [], replicate 2 xIOBufferInit)
       = (rs, m1, bs1)
     \<and> queue_run [Op_Append 0 [1, 2], Op_Cut 0 1 1] [[], []] rs (io_contents m1 bs1)"
proof -
  let ?w = "(fresh_mem (0 :: nat) [], replicate 2 xIOBufferInit)"
  let ?ops = "[Op_Append 0 [1, 2], Op_Cut 0 1 1] :: nat io_op list"
  obtain rs m1 bs1 where run: "io_run ?ops ?w = (rs, m1, bs1)" by (metis prod.collapse)
  have "tail_clear (all_refs (snd ?w)) (snd ?w ! 0)"
    using fresh_unshared by (intro unshared_clear) simp_all
  then have pre: "io_pre (hd ?ops) (snd ?w)" by simp
  obtain r m2 bs2 where ex: "io_exec (hd ?ops) ?w = (r, m2, bs2)" by (metis prod.collapse)
  have "length bs2 = 2" using length_exec [of "hd ?ops" "fst ?w" "snd ?w"] ex by simp
  then have "io_safe ?ops ?w" using pre ex by simp
  from iobuf_refines_queues [OF fresh_ok this run]
  have "queue_run ?ops (replicate 2 []) rs (io_contents m1 bs1)" by (simp only: fresh_io_contents)
  moreover have "replicate 2 [] = [[], [] :: nat list]" by (simp add: numeral_2_eq_2)
  ultimately show ?thesis using run by metis
qed

text \<open>
  Without a cut the condition on appends always holds: a program on freshly initialised
  buffers that does not call \<^verbatim>\<open>xIOBufferCut\<close> never writes into a byte another reference holds,
  and its results are those of byte queues.
\<close>

theorem iobuf_without_cut:
  assumes "list_all (io_plain n) ops"
    and "io_run ops (fresh_mem x as, replicate n xIOBufferInit) = (rs, m1, bs1)"
  shows "io_safe ops (fresh_mem x as, replicate n xIOBufferInit) \<and> world_ok m1 bs1
    \<and> queue_run ops (replicate n []) rs (io_contents m1 bs1)"
proof -
  have safe: "io_safe ops (fresh_mem x as, replicate n xIOBufferInit)"
    using assms(1) by (intro plain_safe) (simp_all add: fresh_ok fresh_unshared)
  from run_ok [OF fresh_ok safe assms(2)] safe show ?thesis by (simp add: fresh_io_contents)
qed

theorem iobuf_without_cut_witness:
  "\<exists>rs m1 bs1. io_run [Op_Append 0 [1, 2], Op_Move 1 0, Op_Read 1 1]
       (fresh_mem (0 :: nat) [True, False], replicate 2 xIOBufferInit) = (rs, m1, bs1)
     \<and> queue_run [Op_Append 0 [1, 2], Op_Move 1 0, Op_Read 1 1] [[], []] rs (io_contents m1 bs1)"
proof -
  let ?w = "(fresh_mem (0 :: nat) [True, False], replicate 2 xIOBufferInit)"
  let ?ops = "[Op_Append 0 [1, 2], Op_Move 1 0, Op_Read 1 1] :: nat io_op list"
  obtain rs m1 bs1 where run: "io_run ?ops ?w = (rs, m1, bs1)" by (metis prod.collapse)
  have "list_all (io_plain 2) ?ops" by simp
  from iobuf_without_cut [OF this run] have "queue_run ?ops (replicate 2 []) rs (io_contents m1 bs1)"
    by blast
  moreover have "replicate 2 [] = [[], [] :: nat list]" by (simp add: numeral_2_eq_2)
  ultimately show ?thesis using run by metis
qed

text \<open>
  C31. A cut hands out a buffer whose next append overwrites the other one: when \<open>k\<close> bytes are
  cut off a buffer that holds \<open>xs\<close> in one block and \<open>d\<close> is then io_appended to the buffer they
  went to, the bytes of \<open>d\<close> are written over the ones the first buffer still holds, because the
  two references share the block and the append takes the room behind the shorter one for free.
\<close>

theorem iobuf_cut_then_append:
  assumes "0 < k" "k < length xs" "length xs \<le> XIOBUFFER_BLOCK_SIZE"
    and "d \<noteq> []" "k + length d \<le> XIOBUFFER_BLOCK_SIZE"
    and "io_run [Op_Append 0 xs, Op_Cut 0 1 k, Op_Append 1 d]
           (fresh_mem x [], [xIOBufferInit, xIOBufferInit]) = (rs, m1, bs1)"
  shows "rs = [Res_err xErrno_Ok, Res_n k, Res_err xErrno_Ok]
    \<and> io_contents m1 bs1 = [take (length xs - k) (d @ drop (k + length d) xs), take k xs @ d]"
proof -
  let ?B = XIOBUFFER_BLOCK_SIZE
  define D where "D = xs @ drop (length xs) (replicate ?B x)"
  define mem where "mem = (\<lambda>n sz data. \<lparr>mem_block = (\<lambda>b. if b = 0 then \<lparr>blk_refs = n, blk_size = sz, blk_data = data\<rparr>
      else \<lparr>blk_refs = 0, blk_size = 0, blk_data = replicate ?B x\<rparr>),
    mem_pool = [], mem_next = 1, mem_freed = [], mem_allocs = []\<rparr> :: 'a io_mem)"
  define io where "io = (\<lambda>off len. \<lparr>io_refs = [\<lparr>ref_block = 0, ref_offset = off, ref_length = len\<rparr>],
    io_inline = True, io_cap = 8, io_nbytes = len\<rparr>)"
  note defs = set_block_def write_block_def Let_def ref_end_def mem_def io_def
    iobuf_push_ref_def iobuf_grow_refs_def
  have xs: "xs \<noteq> []" "k < ?B" using assms(1,2,3) by auto
  have a1: "xIOBufferAppend (fresh_mem x []) xIOBufferInit xs
      = (xErrno_Ok, mem 1 (length xs) D, io 0 (length xs))"
    using xs(1) assms(3)
    by (simp add: xIOBufferAppend_def fill_tail_def append_blocks.simps [of _ _ xs]
        append_blocks.simps [of _ _ "[]"] xIOBufferInit_def XIOBUFFER_INLINE_REFS_def
        xIOBlockAcquire_def pool_pop_def mem_malloc_def mem_draw_def fresh_mem_def D_def defs fun_eq_iff)
  have a2: "xIOBufferCut (mem 1 (length xs) D) (io 0 (length xs)) xIOBufferInit k
      = (k, mem 2 (length xs) D, io k (length xs - k), io 0 k)"
    using assms(1,2)
    by (simp add: xIOBufferCut_def xIOBlockRetain_def xIOBufferInit_def XIOBUFFER_INLINE_REFS_def
        ref_advance_def defs fun_eq_iff)
  have a3: "xIOBufferAppend (mem 2 (length xs) D) (io 0 k) d
      = (xErrno_Ok, mem 2 (length xs) (take k D @ d @ drop (k + length d) D), io 0 (k + length d))"
    using assms(4,5) xs(2)
    by (simp add: xIOBufferAppend_def fill_tail_def append_blocks.simps [of _ _ "[]"] defs fun_eq_iff)
  have run: "rs = [Res_err xErrno_Ok, Res_n k, Res_err xErrno_Ok]"
    "m1 = mem 2 (length xs) (take k D @ d @ drop (k + length d) D)"
    "bs1 = [io k (length xs - k), io 0 (k + length d)]"
    using assms(6) by (simp_all add: a1 a2 [unfolded One_nat_def] a3)
  have "take k D = take k xs" using assms(2) by (simp add: D_def)
  moreover have "take (length xs - k) (d @ drop (k + length d) D)
      = take (length xs - k) (d @ drop (k + length d) xs)"
    by (cases "k + length d \<le> length xs") (simp_all add: D_def)
  ultimately show ?thesis
    using run(1) assms(2) by (simp add: run(2,3) io_contents_def xIOBufferCopyTo_def ref_bytes_def mem_def io_def)
qed

theorem iobuf_cut_then_append_witness:
  "\<exists>rs m1 bs1. io_run [Op_Append 0 [1, 2, 3, 4], Op_Cut 0 1 2, Op_Append 1 [9]]
       (fresh_mem (0 :: nat) [], [xIOBufferInit, xIOBufferInit]) = (rs, m1, bs1)
     \<and> io_contents m1 bs1 = [[9, 4], [1, 2, 9]]"
proof -
  obtain rs m1 bs1 where run: "io_run [Op_Append 0 [1, 2, 3, 4], Op_Cut 0 1 2, Op_Append 1 [9]]
      (fresh_mem (0 :: nat) [], [xIOBufferInit, xIOBufferInit]) = (rs, m1, bs1)" by (metis prod.collapse)
  have "io_contents m1 bs1 = [take (length [1, 2, 3, 4 :: nat] - 2) ([9] @ drop (2 + length [9 :: nat]) [1, 2, 3, 4]),
      take 2 [1, 2, 3, 4] @ [9]]"
    using iobuf_cut_then_append [OF _ _ _ _ _ run] by (simp add: XIOBUFFER_BLOCK_SIZE_def)
  with run show ?thesis by simp
qed

end
