(* ===== verification/WsFrame.thy ===== *)
theory WsFrame
  imports IoQueue Digest
begin

text \<open>
  \<^verbatim>\<open>http/ws_frame.c\<close>: the WebSocket frame parser and encoder. The parser takes what the I/O buffer
  holds, keeps its phase across calls and returns whether it needs more bytes. It uses the
  buffer through four operations, and \<^verbatim>\<open>malloc\<close> for the payload: the model takes these as a
  record of functions, the locale \<open>byte_queue\<close> states what they do in terms of a list of bytes,
  and the operations of IoBuf are its interpretation. So every fact about the parser is proved
  for lists and holds for the block-chain buffer.
\<close>

section \<open>What the parser needs of a buffer\<close>

record 's byte_source =
  src_len :: "'s \<Rightarrow> nat"
  src_peek :: "nat \<Rightarrow> 's \<Rightarrow> octets option"
  src_consume :: "nat \<Rightarrow> 's \<Rightarrow> 's"
  src_read :: "nat \<Rightarrow> 's \<Rightarrow> octets \<times> 's"
  src_malloc :: "'s \<Rightarrow> bool \<times> 's"

text \<open>A list of bytes and the outcomes of the allocations to come.\<close>

definition list_source :: "(octets \<times> allocs) byte_source" where
  "list_source =
     \<lparr>src_len = (\<lambda>(xs, as). length xs),
      src_peek = (\<lambda>n (xs, as). if length xs < n then None else Some (take n xs)),
      src_consume = (\<lambda>n (xs, as). (drop n xs, as)),
      src_read = (\<lambda>n (xs, as). (take n xs, (drop n xs, as))),
      src_malloc = (\<lambda>(xs, as). case draw as of (ok, as1) \<Rightarrow> (ok, (xs, as1)))\<rparr>"

text \<open>\<^verbatim>\<open>io_peek\<close>: copying from the references without consuming.\<close>

fun peek_refs :: "'a io_mem \<Rightarrow> xIOBufferRef list \<Rightarrow> nat \<Rightarrow> 'a list" where
  "peek_refs m [] k = []"
| "peek_refs m (r # rs) k =
     (if k = 0 then []
      else let t = min (ref_length r) k in take t (ref_bytes m r) @ peek_refs m rs (k - t))"

definition io_peek :: "'a io_mem \<Rightarrow> xIOBuffer \<Rightarrow> nat \<Rightarrow> 'a list option" where
  "io_peek m io n = (if xIOBufferLen io < n then None else Some (peek_refs m (io_refs io) n))"

definition io_source :: "(8 word io_mem \<times> xIOBuffer) byte_source" where
  "io_source =
     \<lparr>src_len = (\<lambda>(m, io). xIOBufferLen io),
      src_peek = (\<lambda>n (m, io). io_peek m io n),
      src_consume = (\<lambda>n (m, io). case xIOBufferConsume m io n of (_, m1, io1) \<Rightarrow> (m1, io1)),
      src_read = (\<lambda>n (m, io). case xIOBufferRead m io n of (d, m1, io1) \<Rightarrow> (d, (m1, io1))),
      src_malloc = (\<lambda>(m, io). case mem_draw m of (ok, m1) \<Rightarrow> (ok, (m1, io)))\<rparr>"

section \<open>Frames and the parser\<close>

datatype xWsFrameResult = xWsFrameResult_Ok | xWsFrameResult_NeedMore | xWsFrameResult_Error

text \<open>
  \<open>ws_payload\<close> is the part of the payload buffer that has been written, None before it is
  allocated.
\<close>

record xWsFrame =
  ws_fin :: "8 word"
  ws_rsv1 :: "8 word"
  ws_opcode :: "8 word"
  ws_masked :: "8 word"
  ws_key :: octets
  ws_payload_len :: "64 word"
  ws_payload :: "octets option"

datatype xWsFrameParserPhase =
    xWsFrameParserPhase_Header | xWsFrameParserPhase_Len16 | xWsFrameParserPhase_Len64
  | xWsFrameParserPhase_Mask | xWsFrameParserPhase_Payload

record xWsFrameParser =
  ws_phase :: xWsFrameParserPhase
  ws_frame :: xWsFrame
  ws_payload_read :: nat
  ws_expect_masked :: int
  ws_allow_rsv1 :: int

definition is_control_opcode :: "8 word \<Rightarrow> bool" where
  "is_control_opcode opcode \<longleftrightarrow> 0x8 \<le> opcode"

text \<open>Four bytes at a time, then the rest by index.\<close>

fun unmask_payload :: "octets \<Rightarrow> octets \<Rightarrow> octets" where
  "unmask_payload key (a # b # c # d # rest) =
     (a XOR key ! 0) # (b XOR key ! 1) # (c XOR key ! 2) # (d XOR key ! 3) # unmask_payload key rest"
| "unmask_payload key rest = map (\<lambda>i. rest ! i XOR key ! (i mod 4)) [0..<length rest]"

definition ws_zero_frame :: xWsFrame where
  "ws_zero_frame = \<lparr>ws_fin = 0, ws_rsv1 = 0, ws_opcode = 0, ws_masked = 0, ws_key = [0, 0, 0, 0],
                    ws_payload_len = 0, ws_payload = None\<rparr>"

definition xWsFrameParserInit :: "int \<Rightarrow> xWsFrameParser" where
  "xWsFrameParserInit expect_masked =
     \<lparr>ws_phase = xWsFrameParserPhase_Header, ws_frame = ws_zero_frame, ws_payload_read = 0,
      ws_expect_masked = expect_masked, ws_allow_rsv1 = 0\<rparr>"

definition xWsFrameParserReset :: "xWsFrameParser \<Rightarrow> xWsFrameParser" where
  "xWsFrameParserReset p =
     p\<lparr>ws_phase := xWsFrameParserPhase_Header, ws_payload_read := 0, ws_frame := ws_zero_frame\<rparr>"

text \<open>
  The phases in their order. \<open>Inl\<close> is a return of \<^verbatim>\<open>xWsFrameParse\<close>, \<open>Inr\<close> goes on to the next phase.
\<close>

type_synonym 's ws_ret = "xWsFrameResult \<times> xWsFrameParser \<times> 's"

definition ws_after_len :: "xWsFrame \<Rightarrow> xWsFrameParserPhase" where
  "ws_after_len f = (if ws_masked f \<noteq> 0 then xWsFrameParserPhase_Mask else xWsFrameParserPhase_Payload)"

definition ws_header ::
  "'s byte_source \<Rightarrow> xWsFrameParser \<Rightarrow> 's \<Rightarrow> 's ws_ret + xWsFrameParser \<times> 's" where
  "ws_header src p s =
     (if ws_phase p \<noteq> xWsFrameParserPhase_Header then Inr (p, s)
      else
        (case src_peek src 2 s of
           None \<Rightarrow> Inl (xWsFrameResult_NeedMore, p, s)
         | Some hdr \<Rightarrow>
             let h0 = hdr ! 0; h1 = hdr ! 1;
                 f = (ws_frame p)\<lparr>ws_fin := drop_bit 7 h0 AND 1, ws_rsv1 := drop_bit 6 h0 AND 1,
                                  ws_opcode := h0 AND 0x0F, ws_masked := drop_bit 7 h1 AND 1\<rparr>;
                 p1 = p\<lparr>ws_frame := f\<rparr>;
                 len7 = h1 AND 0x7F
             in if h0 AND 0x30 \<noteq> 0 then Inl (xWsFrameResult_Error, p1, s)
                else if ws_rsv1 f \<noteq> 0 \<and> (ws_allow_rsv1 p = 0 \<or> is_control_opcode (ws_opcode f))
                then Inl (xWsFrameResult_Error, p1, s)
                else if uint (ws_masked f) \<noteq> ws_expect_masked p then Inl (xWsFrameResult_Error, p1, s)
                else
                  let s1 = src_consume src 2 s;
                      p2 = (if len7 < 126
                            then p1\<lparr>ws_frame := f\<lparr>ws_payload_len := ucast len7\<rparr>,
                                    ws_phase := ws_after_len f\<rparr>
                            else if len7 = 126 then p1\<lparr>ws_phase := xWsFrameParserPhase_Len16\<rparr>
                            else p1\<lparr>ws_phase := xWsFrameParserPhase_Len64\<rparr>)
                  in if is_control_opcode (ws_opcode f) \<and> (ws_fin f = 0 \<or> 126 \<le> len7)
                     then Inl (xWsFrameResult_Error, p2, s1)
                     else Inr (p2, s1)))"

definition ws_len16 ::
  "'s byte_source \<Rightarrow> xWsFrameParser \<Rightarrow> 's \<Rightarrow> 's ws_ret + xWsFrameParser \<times> 's" where
  "ws_len16 src p s =
     (if ws_phase p \<noteq> xWsFrameParserPhase_Len16 then Inr (p, s)
      else
        (case src_peek src 2 s of
           None \<Rightarrow> Inl (xWsFrameResult_NeedMore, p, s)
         | Some b \<Rightarrow>
             Inr (p\<lparr>ws_frame := (ws_frame p)\<lparr>ws_payload_len := push_bit 8 (ucast (b ! 0)) OR ucast (b ! 1)\<rparr>,
                    ws_phase := ws_after_len (ws_frame p)\<rparr>, src_consume src 2 s)))"

definition ws_len64 ::
  "'s byte_source \<Rightarrow> xWsFrameParser \<Rightarrow> 's \<Rightarrow> 's ws_ret + xWsFrameParser \<times> 's" where
  "ws_len64 src p s =
     (if ws_phase p \<noteq> xWsFrameParserPhase_Len64 then Inr (p, s)
      else
        (case src_peek src 8 s of
           None \<Rightarrow> Inl (xWsFrameResult_NeedMore, p, s)
         | Some b \<Rightarrow>
             let n = fold (\<lambda>i n. push_bit 8 n OR ucast (b ! i)) [0..<8] (0 :: 64 word);
                 p1 = p\<lparr>ws_frame := (ws_frame p)\<lparr>ws_payload_len := n\<rparr>\<rparr>
             in if drop_bit 63 n \<noteq> 0 then Inl (xWsFrameResult_Error, p1, s)
                else Inr (p1\<lparr>ws_phase := ws_after_len (ws_frame p)\<rparr>, src_consume src 8 s)))"

definition ws_mask ::
  "'s byte_source \<Rightarrow> xWsFrameParser \<Rightarrow> 's \<Rightarrow> 's ws_ret + xWsFrameParser \<times> 's" where
  "ws_mask src p s =
     (if ws_phase p \<noteq> xWsFrameParserPhase_Mask then Inr (p, s)
      else
        (case src_peek src 4 s of
           None \<Rightarrow> Inl (xWsFrameResult_NeedMore, p, s)
         | Some b \<Rightarrow> Inr (p\<lparr>ws_frame := (ws_frame p)\<lparr>ws_key := b\<rparr>,
                           ws_phase := xWsFrameParserPhase_Payload\<rparr>, src_consume src 4 s)))"

text \<open>The label \<^verbatim>\<open>done\<close>.\<close>

definition ws_done :: "xWsFrameParser \<Rightarrow> 's \<Rightarrow> 's ws_ret" where
  "ws_done p s =
     (if is_control_opcode (ws_opcode (ws_frame p)) \<and> 125 < ws_payload_len (ws_frame p)
      then (xWsFrameResult_Error, p\<lparr>ws_frame := (ws_frame p)\<lparr>ws_payload := None\<rparr>\<rparr>, s)
      else (xWsFrameResult_Ok, p, s))"

definition WS_MAX_FRAME :: nat where
  "WS_MAX_FRAME = 16 * 1024 * 1024"

text \<open>The payload buffer, on first entry: \<open>Inl\<close> when it is too big or cannot be allocated.\<close>

definition ws_alloc ::
  "'s byte_source \<Rightarrow> xWsFrameParser \<Rightarrow> 's \<Rightarrow> 's ws_ret + xWsFrameParser \<times> 's" where
  "ws_alloc src p s =
     (let f = ws_frame p in
      if ws_payload f \<noteq> None then Inr (p, s)
      else if WS_MAX_FRAME < unat (ws_payload_len f) then Inl (xWsFrameResult_Error, p, s)
      else
        (case src_malloc src s of
           (ok, s1) \<Rightarrow>
             if \<not> ok then Inl (xWsFrameResult_Error, p, s1)
             else Inr (p\<lparr>ws_frame := f\<lparr>ws_payload := Some []\<rparr>, ws_payload_read := 0\<rparr>, s1)))"

text \<open>Reading what there is, up to the length of the payload.\<close>

definition ws_fill :: "'s byte_source \<Rightarrow> xWsFrameParser \<Rightarrow> 's \<Rightarrow> xWsFrameParser \<times> 's" where
  "ws_fill src p s =
     (let f = ws_frame p;
          remaining = unat (ws_payload_len f) - ws_payload_read p;
          t = min (src_len src s) remaining
      in if 0 < t then
           (case src_read src t s of
              (d, s1) \<Rightarrow>
                (p\<lparr>ws_frame := f\<lparr>ws_payload := map_option (store_at (ws_payload_read p) d) (ws_payload f)\<rparr>,
                   ws_payload_read := ws_payload_read p + t\<rparr>, s1))
         else (p, s))"

definition ws_unmask :: "xWsFrame \<Rightarrow> xWsFrame" where
  "ws_unmask f =
     (if ws_masked f \<noteq> 0 then f\<lparr>ws_payload := map_option (unmask_payload (ws_key f)) (ws_payload f)\<rparr>
      else f)"

definition ws_body :: "'s byte_source \<Rightarrow> xWsFrameParser \<Rightarrow> 's \<Rightarrow> 's ws_ret" where
  "ws_body src p s =
     (if ws_phase p \<noteq> xWsFrameParserPhase_Payload then (xWsFrameResult_NeedMore, p, s)
      else if ws_payload_len (ws_frame p) = 0
      then ws_done (p\<lparr>ws_frame := (ws_frame p)\<lparr>ws_payload := None\<rparr>\<rparr>) s
      else
        (case ws_alloc src p s of
           Inl r \<Rightarrow> r
         | Inr (p1, s1) \<Rightarrow>
             (case ws_fill src p1 s1 of
                (p2, s2) \<Rightarrow>
                  if ws_payload_read p2 < unat (ws_payload_len (ws_frame p2))
                  then (xWsFrameResult_NeedMore, p2, s2)
                  else ws_done (p2\<lparr>ws_frame := ws_unmask (ws_frame p2)\<rparr>) s2)))"

definition ws_parse :: "'s byte_source \<Rightarrow> xWsFrameParser \<Rightarrow> 's \<Rightarrow> 's ws_ret" where
  "ws_parse src p s =
     (case ws_header src p s of Inl r \<Rightarrow> r | Inr (p1, s1) \<Rightarrow>
     (case ws_len16 src p1 s1 of Inl r \<Rightarrow> r | Inr (p2, s2) \<Rightarrow>
     (case ws_len64 src p2 s2 of Inl r \<Rightarrow> r | Inr (p3, s3) \<Rightarrow>
     (case ws_mask src p3 s3 of Inl r \<Rightarrow> r | Inr (p4, s4) \<Rightarrow>
      ws_body src p4 s4))))"

definition xWsFrameParse ::
  "xWsFrameParser \<Rightarrow> 8 word io_mem \<times> xIOBuffer \<Rightarrow> (8 word io_mem \<times> xIOBuffer) ws_ret" where
  "xWsFrameParse = ws_parse io_source"

section \<open>The encoder\<close>

text \<open>
  The header. \<open>key\<close> are the four bytes of \<^verbatim>\<open>ws_random_bytes\<close>, used when \<open>masked\<close> is not 0.
\<close>

definition ws_hdr :: "8 word \<Rightarrow> 8 word \<Rightarrow> 8 word \<Rightarrow> nat \<Rightarrow> int \<Rightarrow> octets \<Rightarrow> octets" where
  "ws_hdr fin rsv1 opcode payload_len masked key =
     (let h0 = (if fin \<noteq> 0 then 0x80 else 0x00) OR (if rsv1 \<noteq> 0 then 0x40 else 0x00) OR (opcode AND 0x0F);
          mask_bit = (if masked \<noteq> 0 then 0x80 else 0x00);
          n = (of_nat payload_len :: 64 word)
      in h0 # (if payload_len < 126 then [mask_bit OR ucast n]
               else if payload_len \<le> 0xFFFF then [mask_bit OR 126, ucast (drop_bit 8 n), ucast n]
               else (mask_bit OR 127) # map (\<lambda>i. ucast (drop_bit (56 - i * 8) n)) [0..<8])
            @ (if masked \<noteq> 0 then key else []))"

definition xWsFrameEncodeEx ::
  "8 word io_mem \<Rightarrow> xIOBuffer \<Rightarrow> 8 word \<Rightarrow> 8 word \<Rightarrow> 8 word \<Rightarrow> octets option \<Rightarrow> nat \<Rightarrow> int \<Rightarrow> octets
   \<Rightarrow> int \<times> 8 word io_mem \<times> xIOBuffer" where
  "xWsFrameEncodeEx m io fin rsv1 opcode payload payload_len masked key =
     (case xIOBufferAppend m io (ws_hdr fin rsv1 opcode payload_len masked key) of
        (e1, m1, io1) \<Rightarrow>
          if e1 \<noteq> xErrno_Ok then (-1, m1, io1)
          else
            (case payload of
               Some d \<Rightarrow>
                 if 0 < payload_len then
                   (if masked \<noteq> 0 then
                      (case mem_draw m1 of
                         (ok, m2) \<Rightarrow>
                           if \<not> ok then (-1, m2, io1)
                           else (case xIOBufferAppend m2 io1 (unmask_payload key (take payload_len d)) of
                                   (e2, m3, io2) \<Rightarrow> (if e2 \<noteq> xErrno_Ok then -1 else 0, m3, io2)))
                    else
                      (case xIOBufferAppend m1 io1 (take payload_len d) of
                         (e2, m3, io2) \<Rightarrow> (if e2 \<noteq> xErrno_Ok then -1 else 0, m3, io2)))
                 else (0, m1, io1)
             | None \<Rightarrow> (0, m1, io1)))"

definition xWsFrameEncode ::
  "8 word io_mem \<Rightarrow> xIOBuffer \<Rightarrow> 8 word \<Rightarrow> 8 word \<Rightarrow> octets option \<Rightarrow> nat \<Rightarrow> int \<Rightarrow> octets
   \<Rightarrow> int \<times> 8 word io_mem \<times> xIOBuffer" where
  "xWsFrameEncode m io fin opcode payload payload_len masked key =
     xWsFrameEncodeEx m io fin 0 opcode payload payload_len masked key"

definition XWS_OPCODE_CLOSE :: "8 word" where
  "XWS_OPCODE_CLOSE = 0x8"

text \<open>\<open>junk\<close> is what the allocated payload holds where no reason is copied.\<close>

definition xWsFrameEncodeClose ::
  "8 word io_mem \<Rightarrow> xIOBuffer \<Rightarrow> 16 word \<Rightarrow> octets option \<Rightarrow> nat \<Rightarrow> int \<Rightarrow> octets \<Rightarrow> octets
   \<Rightarrow> int \<times> 8 word io_mem \<times> xIOBuffer" where
  "xWsFrameEncodeClose m io code reason len masked key junk =
     (case mem_draw m of
        (ok, m1) \<Rightarrow>
          if \<not> ok then (-1, m1, io)
          else
            let body = (case reason of Some r \<Rightarrow> take len r | None \<Rightarrow> take len junk);
                payload = ucast (drop_bit 8 code) # ucast code # body
            in xWsFrameEncode m1 io 1 XWS_OPCODE_CLOSE (Some payload) (2 + len) masked key)"

section \<open>The interface and its instances\<close>

text \<open>The operations of a source, through the list of its bytes.\<close>

locale byte_queue =
  fixes src :: "'s byte_source"
    and inv :: "'s \<Rightarrow> bool"
    and view :: "'s \<Rightarrow> octets \<times> allocs"
  assumes len_view: "inv s \<Longrightarrow> src_len src s = src_len list_source (view s)"
    and peek_view: "inv s \<Longrightarrow> src_peek src n s = src_peek list_source n (view s)"
    and consume_view: "inv s \<Longrightarrow> inv (src_consume src n s)
          \<and> view (src_consume src n s) = src_consume list_source n (view s)"
    and read_view: "inv s \<Longrightarrow> src_read src n s = (d, s1) \<Longrightarrow> inv s1
          \<and> src_read list_source n (view s) = (d, view s1)"
    and malloc_view: "inv s \<Longrightarrow> src_malloc src s = (ok, s1) \<Longrightarrow> inv s1
          \<and> src_malloc list_source (view s) = (ok, view s1)"
begin

definition view_ret :: "'s ws_ret \<Rightarrow> (octets \<times> allocs) ws_ret" where
  "view_ret = (\<lambda>(r, p, s). (r, p, view s))"

text \<open>A phase on the source and on the list.\<close>

definition agrees :: "'s ws_ret + xWsFrameParser \<times> 's
    \<Rightarrow> (octets \<times> allocs) ws_ret + xWsFrameParser \<times> (octets \<times> allocs) \<Rightarrow> bool" where
  "agrees x y \<longleftrightarrow>
     (case x of
        Inl (r, p, s) \<Rightarrow> inv s \<and> y = Inl (r, p, view s)
      | Inr (p, s) \<Rightarrow> inv s \<and> y = Inr (p, view s))"

lemma agrees_intros:
  "inv s \<Longrightarrow> agrees (Inl (r, p, s)) (Inl (r, p, view s))"
  "inv s \<Longrightarrow> agrees (Inr (p, s)) (Inr (p, view s))"
  by (simp_all add: agrees_def)

lemma header_agrees: "inv s \<Longrightarrow> agrees (ws_header src p s) (ws_header list_source p (view s))"
  using consume_view [of s 2]
  by (simp add: ws_header_def peek_view agrees_intros Let_def split: option.split)
     (auto simp: agrees_def)

lemma len16_agrees: "inv s \<Longrightarrow> agrees (ws_len16 src p s) (ws_len16 list_source p (view s))"
  using consume_view [of s 2]
  by (simp add: ws_len16_def peek_view agrees_def split: option.split)

lemma len64_agrees: "inv s \<Longrightarrow> agrees (ws_len64 src p s) (ws_len64 list_source p (view s))"
  using consume_view [of s 8]
  by (simp add: ws_len64_def peek_view agrees_def Let_def split: option.split)

lemma mask_agrees: "inv s \<Longrightarrow> agrees (ws_mask src p s) (ws_mask list_source p (view s))"
  using consume_view [of s 4]
  by (simp add: ws_mask_def peek_view agrees_def split: option.split)

lemma alloc_agrees: "inv s \<Longrightarrow> agrees (ws_alloc src p s) (ws_alloc list_source p (view s))"
  by (cases "src_malloc src s") (auto simp: ws_alloc_def agrees_def Let_def dest: malloc_view)

lemma fill_agrees:
  assumes "inv s" "ws_fill src p s = (p1, s1)"
  shows "inv s1 \<and> ws_fill list_source p (view s) = (p1, view s1)"
proof -
  let ?t = "min (src_len src s) (unat (ws_payload_len (ws_frame p)) - ws_payload_read p)"
  obtain d s2 where r: "src_read src ?t s = (d, s2)" by (metis prod.collapse)
  from read_view [OF assms(1) r] r len_view [OF assms(1)] assms show ?thesis
    by (auto simp: ws_fill_def Let_def split: if_splits)
qed

lemma body_agrees:
  assumes "inv s" "ws_body src p s = (r, p1, s1)"
  shows "inv s1 \<and> ws_body list_source p (view s) = (r, p1, view s1)"
proof (cases "ws_phase p \<noteq> xWsFrameParserPhase_Payload \<or> ws_payload_len (ws_frame p) = 0")
  case True
  with assms show ?thesis by (auto simp: ws_body_def ws_done_def split: if_splits)
next
  case False
  show ?thesis
  proof (cases "ws_alloc src p s")
    case (Inl x)
    with alloc_agrees [OF assms(1), of p] False assms(2) show ?thesis
      by (cases x) (simp add: ws_body_def agrees_def)
  next
    case (Inr x)
    obtain p2 s2 where x: "x = (p2, s2)" by fastforce
    obtain p3 s3 where f: "ws_fill src p2 s2 = (p3, s3)" by fastforce
    from alloc_agrees [OF assms(1), of p] Inr x
    have a: "inv s2" "ws_alloc list_source p (view s) = Inr (p2, view s2)" by (simp_all add: agrees_def)
    from fill_agrees [OF a(1) f] a f x Inr False assms(2) show ?thesis
      by (auto simp: ws_body_def ws_done_def split: if_splits)
  qed
qed

lemma agrees_Inl: "agrees (Inl (r, p, s)) y \<Longrightarrow> inv s \<and> y = Inl (r, p, view s)"
  by (simp add: agrees_def)

lemma agrees_Inr: "agrees (Inr (p, s)) y \<Longrightarrow> inv s \<and> y = Inr (p, view s)"
  by (simp add: agrees_def)

lemma chain_agrees:
  assumes "agrees x y"
    and "\<And>p s. inv s \<Longrightarrow> inv (snd (snd (k (p, s)))) \<and> l (p, view s) = view_ret (k (p, s))"
  shows "inv (snd (snd (case x of Inl r \<Rightarrow> r | Inr q \<Rightarrow> k q)))
    \<and> (case y of Inl r \<Rightarrow> r | Inr q \<Rightarrow> l q) = view_ret (case x of Inl r \<Rightarrow> r | Inr q \<Rightarrow> k q)"
proof (cases x)
  case (Inl q)
  with assms(1) show ?thesis by (auto simp: agrees_def view_ret_def)
next
  case (Inr q)
  obtain p s where q: "q = (p, s)" by fastforce
  with assms(1) Inr have "inv s" "y = Inr (p, view s)" by (simp_all add: agrees_def)
  with assms(2) [of s p] Inr q show ?thesis by simp
qed

text \<open>One call of the parser.\<close>

lemma parse_agrees:
  assumes "inv s"
  shows "inv (snd (snd (ws_parse src p s))) \<and> ws_parse list_source p (view s) = view_ret (ws_parse src p s)"
proof -
  have body: "inv s \<Longrightarrow> inv (snd (snd (ws_body src p s)))
      \<and> ws_body list_source p (view s) = view_ret (ws_body src p s)" for p s
    using body_agrees [of s p] by (cases "ws_body src p s") (auto simp: view_ret_def)
  show ?thesis
    unfolding ws_parse_def
    by (intro chain_agrees header_agrees len16_agrees len64_agrees mask_agrees assms)
       (auto intro!: chain_agrees header_agrees len16_agrees len64_agrees mask_agrees body)
qed

end

text \<open>The block-chain buffer, next to any other references \<open>R\<close> into its blocks.\<close>

definition io_inv :: "xIOBufferRef multiset \<Rightarrow> 8 word io_mem \<times> xIOBuffer \<Rightarrow> bool" where
  "io_inv R = (\<lambda>(m, io). mem_ok m (mset (io_refs io) + R) {#} \<and> io_nbytes io = refs_len (io_refs io))"

definition io_view :: "8 word io_mem \<times> xIOBuffer \<Rightarrow> octets \<times> allocs" where
  "io_view = (\<lambda>(m, io). (xIOBufferCopyTo m io, mem_allocs m))"

lemma peek_refs_take:
  assumes "\<forall>r\<in>set rs. length (ref_bytes m r) = ref_length r"
  shows "peek_refs m rs k = take k (refs_bytes m rs)"
  using assms by (induction rs arbitrary: k) (auto simp: min_def Let_def)

lemma read_refs_allocs: "read_refs m rs k = (d, m1, rs1) \<Longrightarrow> mem_allocs m1 = mem_allocs m"
proof (induction rs arbitrary: m k d m1 rs1)
  case (Cons r rs)
  then show ?case
    using Cons.IH [of "xIOBlockRelease (ref_block r) m"]
    by (fastforce simp: Let_def split: if_splits prod.splits)
qed simp

lemma io_facts:
  assumes "io_inv R (m, io)"
  shows "mem_ok m (mset (io_refs io) + R) {#}" "io_nbytes io = refs_len (io_refs io)"
    "length (refs_bytes m (io_refs io)) = refs_len (io_refs io)"
    "\<forall>r\<in>set (io_refs io). length (ref_bytes m r) = ref_length r"
proof -
  from assms show ok: "mem_ok m (mset (io_refs io) + R) {#}" and "io_nbytes io = refs_len (io_refs io)"
    by (simp_all add: io_inv_def)
  show "length (refs_bytes m (io_refs io)) = refs_len (io_refs io)"
    using ok by (rule length_refs_bytes) simp
  show "\<forall>r\<in>set (io_refs io). length (ref_bytes m r) = ref_length r"
    using length_ref_bytes [OF ok] by simp
qed

lemma io_read_view:
  assumes "io_inv R (m, io)" "xIOBufferRead m io n = (d, m1, io1)"
  shows "io_inv R (m1, io1)" "d = take n (fst (io_view (m, io)))"
    "io_view (m1, io1) = (drop n (fst (io_view (m, io))), snd (io_view (m, io)))"
proof -
  note r = read_ok [OF io_facts(1,2) [OF assms(1)] assms(2)]
  show "io_inv R (m1, io1)" using r by (simp add: io_inv_def)
  show "d = take n (fst (io_view (m, io)))" using r(3) by (simp add: io_view_def copy_refs)
  have "mem_allocs m1 = mem_allocs m"
    using assms(2) by (auto simp: xIOBufferRead_def split: if_splits prod.splits dest: read_refs_allocs)
  then show "io_view (m1, io1) = (drop n (fst (io_view (m, io))), snd (io_view (m, io)))"
    using r(4) same_data_refs [OF r(2)] by (simp add: io_view_def copy_refs)
qed

lemma io_consume_view:
  assumes "io_inv R (m, io)" "xIOBufferConsume m io n = (t, m1, io1)"
  shows "io_inv R (m1, io1) \<and> io_view (m1, io1) = (drop n (fst (io_view (m, io))), snd (io_view (m, io)))"
proof -
  obtain d where "xIOBufferRead m io n = (d, m1, io1)"
    using consume_is_read [OF io_facts(1) [OF assms(1)], of n] assms(2) by (auto split: prod.splits)
  from io_read_view [OF assms(1) this] show ?thesis by simp
qed

lemma io_view_pair: "io_view (m, io) = (refs_bytes m (io_refs io), mem_allocs m)"
  by (simp add: io_view_def copy_refs)

interpretation io_queue: byte_queue io_source "io_inv R" io_view for R
proof
  fix s :: "8 word io_mem \<times> xIOBuffer" and n
  obtain m io where s: "s = (m, io)" by fastforce
  assume inv: "io_inv R s"
  note f = io_facts [OF inv [unfolded s]]
  show "src_len io_source s = src_len list_source (io_view s)"
    by (simp add: s io_source_def list_source_def io_view_pair xIOBufferLen_def f)
  show "src_peek io_source n s = src_peek list_source n (io_view s)"
    by (simp add: s io_source_def list_source_def io_view_pair io_peek_def xIOBufferLen_def f peek_refs_take)
  show "io_inv R (src_consume io_source n s)
      \<and> io_view (src_consume io_source n s) = src_consume list_source n (io_view s)"
    using io_consume_view [OF inv [unfolded s], of n]
    by (auto simp: s io_source_def list_source_def io_view_pair split: prod.splits)
next
  fix s s1 :: "8 word io_mem \<times> xIOBuffer" and n d
  obtain m io where s: "s = (m, io)" by fastforce
  obtain m1 io1 where s1: "s1 = (m1, io1)" by fastforce
  assume inv: "io_inv R s" and "src_read io_source n s = (d, s1)"
  then have "xIOBufferRead m io n = (d, m1, io1)"
    by (auto simp: s s1 io_source_def split: prod.splits)
  from io_read_view [OF inv [unfolded s] this] show "io_inv R s1
      \<and> src_read list_source n (io_view s) = (d, io_view s1)"
    by (simp add: s s1 list_source_def io_view_pair)
next
  fix s s1 :: "8 word io_mem \<times> xIOBuffer" and ok
  obtain m io where s: "s = (m, io)" by fastforce
  assume inv: "io_inv R s" and m: "src_malloc io_source s = (ok, s1)"
  then have "s1 = (snd (mem_draw m), io)" "ok = fst (draw (mem_allocs m))"
    "mem_allocs (snd (mem_draw m)) = snd (draw (mem_allocs m))"
    by (auto simp: s io_source_def mem_draw_def split: prod.splits)
  moreover have "refs_bytes (snd (mem_draw m)) = refs_bytes m" by (rule same_data_refs) simp
  ultimately show "io_inv R s1 \<and> src_malloc list_source (io_view s) = (ok, io_view s1)"
    using inv by (simp add: s io_inv_def mem_ok_draw list_source_def io_view_pair
        split: prod.splits)
qed

end
