(* ===== verification/WsProps.thy ===== *)
theory WsProps
  imports WsFrame
begin

text \<open>
  The frame parser and encoder of \<^verbatim>\<open>http/ws_frame.c\<close> over lists of bytes: feeding it in pieces, the
  frame it returns for what the encoder writes. The interpretation of WsFrame carries both over to
  the block-chain buffer.
\<close>

section \<open>Feeding the parser piece by piece\<close>

abbreviation LS :: "(octets \<times> allocs) byte_source" where
  "LS \<equiv> list_source"

text \<open>The payload buffer is filled as far as the parser has read.\<close>

definition ws_ok :: "xWsFrameParser \<Rightarrow> bool" where
  "ws_ok p \<longleftrightarrow> (\<forall>b. ws_payload (ws_frame p) = Some b \<longrightarrow> length b = ws_payload_read p)"

text \<open>More bytes behind what a phase was given change nothing but what is left.\<close>

definition ws_more :: "octets \<Rightarrow> octets \<times> allocs \<Rightarrow> octets \<times> allocs" where
  "ws_more b = (\<lambda>(xs, as). (xs @ b, as))"

definition ws_extends :: "octets \<Rightarrow> (octets \<times> allocs) ws_ret + xWsFrameParser \<times> (octets \<times> allocs)
    \<Rightarrow> (octets \<times> allocs) ws_ret + xWsFrameParser \<times> (octets \<times> allocs) \<Rightarrow> bool" where
  "ws_extends b x y \<longleftrightarrow>
     (case x of
        Inl (r, p, s) \<Rightarrow> r \<noteq> xWsFrameResult_NeedMore \<longrightarrow> y = Inl (r, p, ws_more b s)
      | Inr (p, s) \<Rightarrow> y = Inr (p, ws_more b s))"

lemmas LS_defs = list_source_def ws_more_def ws_extends_def

lemma header_extends: "ws_extends b (ws_header LS p s) (ws_header LS p (ws_more b s))"
  by (cases s) (auto simp: ws_header_def LS_defs Let_def split: if_splits)

lemma len16_extends: "ws_extends b (ws_len16 LS p s) (ws_len16 LS p (ws_more b s))"
  by (cases s) (auto simp: ws_len16_def LS_defs split: if_splits)

lemma len64_extends: "ws_extends b (ws_len64 LS p s) (ws_len64 LS p (ws_more b s))"
  by (cases s) (auto simp: ws_len64_def LS_defs Let_def split: if_splits)

lemma mask_extends: "ws_extends b (ws_mask LS p s) (ws_mask LS p (ws_more b s))"
  by (cases s) (auto simp: ws_mask_def LS_defs split: if_splits)

lemma alloc_extends: "ws_extends b (ws_alloc LS p s) (ws_alloc LS p (ws_more b s))"
  by (cases s) (auto simp: ws_alloc_def LS_defs Let_def split: if_splits prod.splits)

text \<open>A phase that wants more has done nothing, and the parser is in it.\<close>

lemma needs_more:
  "ws_header LS p s = Inl (xWsFrameResult_NeedMore, p1, s1) \<Longrightarrow>
     p1 = p \<and> s1 = s \<and> ws_phase p = xWsFrameParserPhase_Header"
  "ws_len16 LS p s = Inl (xWsFrameResult_NeedMore, p1, s1) \<Longrightarrow>
     p1 = p \<and> s1 = s \<and> ws_phase p = xWsFrameParserPhase_Len16"
  "ws_len64 LS p s = Inl (xWsFrameResult_NeedMore, p1, s1) \<Longrightarrow>
     p1 = p \<and> s1 = s \<and> ws_phase p = xWsFrameParserPhase_Len64"
  "ws_mask LS p s = Inl (xWsFrameResult_NeedMore, p1, s1) \<Longrightarrow>
     p1 = p \<and> s1 = s \<and> ws_phase p = xWsFrameParserPhase_Mask"
  by (auto simp: ws_header_def ws_len16_def ws_len64_def ws_mask_def Let_def
      split: if_splits option.splits)

text \<open>The order of the phases, and what they leave alone.\<close>

lemma phase_order:
  "ws_header LS p s = Inr (p1, s1) \<Longrightarrow> ws_phase p1 \<noteq> xWsFrameParserPhase_Header"
  "ws_len16 LS p s = Inr (p1, s1) \<Longrightarrow> ws_phase p \<noteq> xWsFrameParserPhase_Header \<Longrightarrow>
     ws_phase p1 \<notin> {xWsFrameParserPhase_Header, xWsFrameParserPhase_Len16}"
  "ws_len64 LS p s = Inr (p1, s1) \<Longrightarrow> ws_phase p \<notin> {xWsFrameParserPhase_Header, xWsFrameParserPhase_Len16} \<Longrightarrow>
     ws_phase p1 \<in> {xWsFrameParserPhase_Mask, xWsFrameParserPhase_Payload}"
  "ws_mask LS p s = Inr (p1, s1) \<Longrightarrow> ws_phase p \<in> {xWsFrameParserPhase_Mask, xWsFrameParserPhase_Payload} \<Longrightarrow>
     ws_phase p1 = xWsFrameParserPhase_Payload"
  by (auto simp: ws_header_def ws_len16_def ws_len64_def ws_mask_def ws_after_len_def Let_def
      split: if_splits option.splits xWsFrameParserPhase.splits)
     (cases "ws_phase p"; auto)+

lemma phase_ok:
  "ws_header LS p s = Inr (p1, s1) \<Longrightarrow> ws_ok p \<Longrightarrow> ws_ok p1"
  "ws_len16 LS p s = Inr (p1, s1) \<Longrightarrow> ws_ok p \<Longrightarrow> ws_ok p1"
  "ws_len64 LS p s = Inr (p1, s1) \<Longrightarrow> ws_ok p \<Longrightarrow> ws_ok p1"
  "ws_mask LS p s = Inr (p1, s1) \<Longrightarrow> ws_ok p \<Longrightarrow> ws_ok p1"
  by (auto simp: ws_header_def ws_len16_def ws_len64_def ws_mask_def Let_def ws_ok_def
      split: if_splits option.splits)

text \<open>Reading into the payload, on a list.\<close>

lemma fill_list:
  assumes "ws_payload (ws_frame p) = Some buf" "length buf = ws_payload_read p"
  shows "ws_fill LS p (a, as) =
    (let rem = unat (ws_payload_len (ws_frame p)) - ws_payload_read p
     in (p\<lparr>ws_frame := (ws_frame p)\<lparr>ws_payload := Some (buf @ take rem a)\<rparr>,
           ws_payload_read := ws_payload_read p + min (length a) rem\<rparr>, (drop rem a, as)))"
proof -
  let ?rem = "unat (ws_payload_len (ws_frame p)) - ws_payload_read p"
  have "take (min (length a) ?rem) a = take ?rem a" "drop (min (length a) ?rem) a = drop ?rem a"
    by (simp_all add: min_def)
  moreover have "store_at (ws_payload_read p) d buf = buf @ d" for d
    using assms(2) by (simp add: store_at_def)
  moreover have "p\<lparr>ws_frame := (ws_frame p)\<lparr>ws_payload := Some buf\<rparr>, ws_payload_read := ws_payload_read p\<rparr> = p"
    using assms(1) by simp
  ultimately show ?thesis
    using assms by (cases "a = [] \<or> ?rem = 0") (auto simp: ws_fill_def list_source_def Let_def)
qed

text \<open>What follows the filling.\<close>

definition ws_tail :: "xWsFrameParser \<times> 's \<Rightarrow> 's ws_ret" where
  "ws_tail = (\<lambda>(p2, s2).
     if ws_payload_read p2 < unat (ws_payload_len (ws_frame p2))
     then (xWsFrameResult_NeedMore, p2, s2)
     else ws_done (p2\<lparr>ws_frame := ws_unmask (ws_frame p2)\<rparr>) s2)"

lemma body_tail:
  "ws_phase p = xWsFrameParserPhase_Payload \<Longrightarrow> ws_payload_len (ws_frame p) \<noteq> 0 \<Longrightarrow>
   ws_body src p s = (case ws_alloc src p s of Inl r \<Rightarrow> r | Inr (p1, s1) \<Rightarrow> ws_tail (ws_fill src p1 s1))"
  by (simp add: ws_body_def ws_tail_def split: sum.split prod.split)

lemma done_not_more: "fst (ws_done p s) \<noteq> xWsFrameResult_NeedMore"
  by (simp add: ws_done_def)

lemma alloc_some:
  assumes "ws_alloc LS p s = Inr (p1, s1)" "ws_ok p"
  shows "\<exists>buf. ws_payload (ws_frame p1) = Some buf \<and> length buf = ws_payload_read p1"
    "ws_phase p1 = ws_phase p" "ws_payload_len (ws_frame p1) = ws_payload_len (ws_frame p)"
  using assms by (auto simp: ws_alloc_def ws_ok_def Let_def split: if_splits prod.splits)

lemma body_more:
  assumes ph: "ws_phase p = xWsFrameParserPhase_Payload" and ok: "ws_ok p"
    and run: "ws_body LS p (a, as) = (r, p1, (a1, as1))"
  shows "r \<noteq> xWsFrameResult_NeedMore \<Longrightarrow> ws_body LS p (a @ b, as) = (r, p1, (a1 @ b, as1))"
    and "r = xWsFrameResult_NeedMore \<Longrightarrow> ws_phase p1 = xWsFrameParserPhase_Payload \<and> ws_ok p1
           \<and> ws_body LS p (a @ b, as) = ws_body LS p1 (a1 @ b, as1)"
proof -
  have "(r \<noteq> xWsFrameResult_NeedMore \<longrightarrow> ws_body LS p (a @ b, as) = (r, p1, (a1 @ b, as1)))
    \<and> (r = xWsFrameResult_NeedMore \<longrightarrow> ws_phase p1 = xWsFrameParserPhase_Payload \<and> ws_ok p1
           \<and> ws_body LS p (a @ b, as) = ws_body LS p1 (a1 @ b, as1))"
  proof (cases "ws_payload_len (ws_frame p) = 0")
    case True
    with run ph show ?thesis by (auto simp: ws_body_def ws_done_def split: if_splits)
  next
    case False
    note bt = body_tail [OF ph False]
    show ?thesis
    proof (cases "ws_alloc LS p (a, as)")
      case (Inl x)
      with run have x: "x = (r, p1, (a1, as1))" by (simp add: bt)
      moreover from Inl have "r \<noteq> xWsFrameResult_NeedMore"
        by (auto simp: x ws_alloc_def Let_def split: if_splits prod.splits)
      ultimately show ?thesis
        using alloc_extends [of b p "(a, as)"] Inl by (simp add: bt ws_extends_def ws_more_def)
    next
      case (Inr x)
      obtain p2 a2 as2 where x: "x = (p2, (a2, as2))" by (metis prod.collapse)
      have a2: "a2 = a" using Inr x
        by (auto simp: ws_alloc_def list_source_def Let_def split: if_splits prod.splits)
      have alb: "ws_alloc LS p (a @ b, as) = Inr (p2, (a @ b, as2))"
        using alloc_extends [of b p "(a, as)"] Inr x a2 by (simp add: ws_extends_def ws_more_def)
      note s = alloc_some [OF Inr [unfolded x] ok]
      obtain buf where buf: "ws_payload (ws_frame p2) = Some buf" "length buf = ws_payload_read p2"
        using s(1) by blast
      let ?n = "unat (ws_payload_len (ws_frame p2))"
      let ?rem = "?n - ws_payload_read p2"
      note fl = fill_list [OF buf]
      show ?thesis
      proof (cases "length a < ?rem")
        case False
        then have "take ?rem (a @ b) = take ?rem a" "drop ?rem (a @ b) = drop ?rem a @ b"
          "min (length (a @ b)) ?rem = ?rem" "min (length a) ?rem = ?rem" by simp_all
        with run Inr x a2 alb show ?thesis
          by (auto simp: bt fl Let_def ws_tail_def ws_done_def split: if_splits)
      next
        case True
        let ?p = "p2\<lparr>ws_frame := (ws_frame p2)\<lparr>ws_payload := Some (buf @ a)\<rparr>,
                     ws_payload_read := ws_payload_read p2 + length a\<rparr>"
        have need: "ws_payload_read p2 + length a < ?n" using True by linarith
        from True have "ws_fill LS p2 (a, as2) = (?p, ([], as2))" by (simp add: fl Let_def)
        then have res: "r = xWsFrameResult_NeedMore" "p1 = ?p" "a1 = []" "as1 = as2"
          using run Inr x a2 need by (auto simp: bt ws_tail_def)
        have php: "ws_phase ?p = xWsFrameParserPhase_Payload" using s(2) ph by simp
        have ne: "ws_payload_len (ws_frame ?p) \<noteq> 0" using s(3) False by simp
        have okp: "ws_ok ?p" using buf by (simp add: ws_ok_def)
        have buf2: "ws_payload (ws_frame ?p) = Some (buf @ a)" "length (buf @ a) = ws_payload_read ?p"
          using buf by simp_all
        have "ws_fill LS ?p (b, as2) = ws_fill LS p2 (a @ b, as2)"
          using True by (simp add: fl fill_list [OF buf2] Let_def min_def)
        then have "ws_body LS p (a @ b, as) = ws_body LS ?p (b, as2)"
          using alb by (simp add: bt body_tail [OF php ne] ws_alloc_def)
        with php okp show ?thesis by (simp add: res)
      qed
    qed
  qed
  then show "r \<noteq> xWsFrameResult_NeedMore \<Longrightarrow> ws_body LS p (a @ b, as) = (r, p1, (a1 @ b, as1))"
    "r = xWsFrameResult_NeedMore \<Longrightarrow> ws_phase p1 = xWsFrameParserPhase_Payload \<and> ws_ok p1
           \<and> ws_body LS p (a @ b, as) = ws_body LS p1 (a1 @ b, as1)" by blast+
qed

text \<open>
  A parser that can be resumed: with more bytes behind its input it returns the same result,
  and where it wanted more it returns what it returns when called again from where it stopped.
  The phases are put in front of one another.
\<close>

type_synonym ws_stage = "xWsFrameParser \<Rightarrow> octets \<times> allocs \<Rightarrow> (octets \<times> allocs) ws_ret"

definition resumes :: "xWsFrameParserPhase set \<Rightarrow> ws_stage \<Rightarrow> bool" where
  "resumes S k \<longleftrightarrow> (\<forall>p s r p1 s1 b. ws_ok p \<longrightarrow> ws_phase p \<in> S \<longrightarrow> k p s = (r, p1, s1) \<longrightarrow>
     (r \<noteq> xWsFrameResult_NeedMore \<longrightarrow> k p (ws_more b s) = (r, p1, ws_more b s1))
   \<and> (r = xWsFrameResult_NeedMore \<longrightarrow> ws_ok p1 \<and> ws_phase p1 \<in> S \<and> k p (ws_more b s) = k p1 (ws_more b s1)))"

lemma resumes_body: "resumes {xWsFrameParserPhase_Payload} (ws_body LS)"
  unfolding resumes_def
proof (intro allI impI)
  fix p s r p1 s1 b
  assume ok: "ws_ok p" and ph: "ws_phase p \<in> {xWsFrameParserPhase_Payload}"
    and run: "ws_body LS p s = (r, p1, s1)"
  obtain a as a1 as1 where s: "s = (a, as)" "s1 = (a1, as1)" by (cases s, cases s1)
  note b = body_more [OF _ ok run [unfolded s], of b]
  show "(r \<noteq> xWsFrameResult_NeedMore \<longrightarrow> ws_body LS p (ws_more b s) = (r, p1, ws_more b s1))
   \<and> (r = xWsFrameResult_NeedMore \<longrightarrow> ws_ok p1 \<and> ws_phase p1 \<in> {xWsFrameParserPhase_Payload}
        \<and> ws_body LS p (ws_more b s) = ws_body LS p1 (ws_more b s1))"
    using b ph by (simp add: s ws_more_def)
qed

lemma resumes_chain:
  fixes ph :: "xWsFrameParser \<Rightarrow> octets \<times> allocs \<Rightarrow> (octets \<times> allocs) ws_ret + xWsFrameParser \<times> (octets \<times> allocs)"
  assumes k: "resumes S k" and X: "X \<notin> S"
    and ext: "\<And>p s b. ws_extends b (ph p s) (ph p (ws_more b s))"
    and need: "\<And>p s p1 s1. ph p s = Inl (xWsFrameResult_NeedMore, p1, s1) \<Longrightarrow> p1 = p \<and> s1 = s \<and> ws_phase p = X"
    and skip: "\<And>p s. ws_phase p \<noteq> X \<Longrightarrow> ph p s = Inr (p, s)"
    and go: "\<And>p s p1 s1. ph p s = Inr (p1, s1) \<Longrightarrow> ws_phase p \<in> insert X S \<Longrightarrow> ws_phase p1 \<in> S"
    and ok: "\<And>p s p1 s1. ph p s = Inr (p1, s1) \<Longrightarrow> ws_ok p \<Longrightarrow> ws_ok p1"
  shows "resumes (insert X S) (\<lambda>p s. case ph p s of Inl r \<Rightarrow> r | Inr (p1, s1) \<Rightarrow> k p1 s1)"
  unfolding resumes_def
proof (intro allI impI)
  fix p s r p1 s1 b
  assume wf: "ws_ok p" and S: "ws_phase p \<in> insert X S"
    and run: "(case ph p s of Inl r \<Rightarrow> r | Inr (p1, s1) \<Rightarrow> k p1 s1) = (r, p1, s1)"
  let ?k = "\<lambda>p s. case ph p s of Inl r \<Rightarrow> r | Inr (p1, s1) \<Rightarrow> k p1 s1"
  show "(r \<noteq> xWsFrameResult_NeedMore \<longrightarrow> ?k p (ws_more b s) = (r, p1, ws_more b s1))
   \<and> (r = xWsFrameResult_NeedMore \<longrightarrow> ws_ok p1 \<and> ws_phase p1 \<in> insert X S \<and> ?k p (ws_more b s) = ?k p1 (ws_more b s1))"
  proof (cases "ph p s")
    case (Inl x)
    with run have x: "x = (r, p1, s1)" by simp
    show ?thesis
    proof (cases "r = xWsFrameResult_NeedMore")
      case True
      with need [of p s p1 s1] Inl x wf S show ?thesis by simp
    next
      case False
      with ext [of b p s] Inl x show ?thesis by (simp add: ws_extends_def)
    qed
  next
    case (Inr x)
    obtain q t where x: "x = (q, t)" by (cases x)
    have q: "ws_ok q" "ws_phase q \<in> S" using ok go Inr x wf S by blast+
    have kb: "?k p (ws_more b s) = k q (ws_more b t)"
      using ext [of b p s] Inr x by (simp add: ws_extends_def)
    have "k q t = (r, p1, s1)" using run Inr x by simp
    with k q have res: "(r \<noteq> xWsFrameResult_NeedMore \<longrightarrow> k q (ws_more b t) = (r, p1, ws_more b s1))
      \<and> (r = xWsFrameResult_NeedMore \<longrightarrow> ws_ok p1 \<and> ws_phase p1 \<in> S \<and> k q (ws_more b t) = k p1 (ws_more b s1))"
      unfolding resumes_def by blast
    have "?k p1 (ws_more b s1) = k p1 (ws_more b s1)" if "ws_phase p1 \<in> S"
    proof -
      from that X have "ws_phase p1 \<noteq> X" by blast
      then show ?thesis by (simp add: skip)
    qed
    with res show ?thesis unfolding kb by auto
  qed
qed

lemma all_phases:
  "insert xWsFrameParserPhase_Header (insert xWsFrameParserPhase_Len16 (insert xWsFrameParserPhase_Len64
     (insert xWsFrameParserPhase_Mask {xWsFrameParserPhase_Payload}))) = UNIV"
  using xWsFrameParserPhase.exhaust by blast

lemma phase_skip:
  "ws_phase p \<noteq> xWsFrameParserPhase_Header \<Longrightarrow> ws_header LS p s = Inr (p, s)"
  "ws_phase p \<noteq> xWsFrameParserPhase_Len16 \<Longrightarrow> ws_len16 LS p s = Inr (p, s)"
  "ws_phase p \<noteq> xWsFrameParserPhase_Len64 \<Longrightarrow> ws_len64 LS p s = Inr (p, s)"
  "ws_phase p \<noteq> xWsFrameParserPhase_Mask \<Longrightarrow> ws_mask LS p s = Inr (p, s)"
  by (simp_all add: ws_header_def ws_len16_def ws_len64_def ws_mask_def)

lemma resumes_parse: "resumes UNIV (ws_parse LS)"
proof -
  let ?H = xWsFrameParserPhase_Header and ?A = xWsFrameParserPhase_Len16
    and ?B = xWsFrameParserPhase_Len64 and ?M = xWsFrameParserPhase_Mask
    and ?P = xWsFrameParserPhase_Payload
  let ?k4 = "ws_body LS"
  let ?k3 = "\<lambda>p s. case ws_mask LS p s of Inl r \<Rightarrow> r | Inr (p1, s1) \<Rightarrow> ?k4 p1 s1"
  let ?k2 = "\<lambda>p s. case ws_len64 LS p s of Inl r \<Rightarrow> r | Inr (p1, s1) \<Rightarrow> ?k3 p1 s1"
  let ?k1 = "\<lambda>p s. case ws_len16 LS p s of Inl r \<Rightarrow> r | Inr (p1, s1) \<Rightarrow> ?k2 p1 s1"
  let ?k0 = "\<lambda>p s. case ws_header LS p s of Inl r \<Rightarrow> r | Inr (p1, s1) \<Rightarrow> ?k1 p1 s1"
  have r3: "resumes {?M, ?P} ?k3"
  proof (rule resumes_chain [OF resumes_body _ mask_extends needs_more(4) phase_skip(4) _ phase_ok(4)])
    show "ws_phase p1 \<in> {?P}" if "ws_mask LS p s = Inr (p1, s1)" "ws_phase p \<in> {?M, ?P}" for p s p1 s1
      using phase_order(4) [OF that(1)] that(2) by (cases "ws_phase p1") auto
  qed simp_all
  have r2: "resumes {?B, ?M, ?P} ?k2"
  proof (rule resumes_chain [OF r3 _ len64_extends needs_more(3) phase_skip(3) _ phase_ok(3)])
    show "ws_phase p1 \<in> {?M, ?P}" if "ws_len64 LS p s = Inr (p1, s1)" "ws_phase p \<in> {?B, ?M, ?P}" for p s p1 s1
      using phase_order(3) [OF that(1)] that(2) by (cases "ws_phase p1") auto
  qed simp_all
  have r1: "resumes {?A, ?B, ?M, ?P} ?k1"
  proof (rule resumes_chain [OF r2 _ len16_extends needs_more(2) phase_skip(2) _ phase_ok(2)])
    show "ws_phase p1 \<in> {?B, ?M, ?P}" if "ws_len16 LS p s = Inr (p1, s1)" "ws_phase p \<in> {?A, ?B, ?M, ?P}" for p s p1 s1
      using phase_order(2) [OF that(1)] that(2) by (cases "ws_phase p1") auto
  qed simp_all
  have r0: "resumes {?H, ?A, ?B, ?M, ?P} ?k0"
  proof (rule resumes_chain [OF r1 _ header_extends needs_more(1) phase_skip(1) _ phase_ok(1)])
    show "ws_phase p1 \<in> {?A, ?B, ?M, ?P}" if "ws_header LS p s = Inr (p1, s1)" "ws_phase p \<in> {?H, ?A, ?B, ?M, ?P}" for p s p1 s1
      using phase_order(1) [OF that(1)] that(2) by (cases "ws_phase p1") auto
  qed simp_all
  have "ws_parse LS = ?k0" by (intro ext) (simp add: ws_parse_def)
  with r0 show ?thesis by (simp only: all_phases)
qed

text \<open>
  The caller's loop: append what has arrived, parse, go on while the parser wants more. What
  arrives after the frame is complete stays in the buffer.
\<close>

fun ws_feed :: "xWsFrameParser \<Rightarrow> octets \<times> allocs \<Rightarrow> octets list \<Rightarrow> (octets \<times> allocs) ws_ret" where
  "ws_feed p s [] = ws_parse LS p s"
| "ws_feed p s (c # cs) =
     (case ws_parse LS p s of
        (r, p1, s1) \<Rightarrow>
          if r = xWsFrameResult_NeedMore then ws_feed p1 (ws_more c s1) cs
          else (r, p1, ws_more (concat (c # cs)) s1))"

lemma ws_more_more: "ws_more b (ws_more a s) = ws_more (a @ b) s"
  by (cases s) (simp add: ws_more_def)

lemma feed_whole: "ws_ok p \<Longrightarrow> ws_feed p s cs = ws_parse LS p (ws_more (concat cs) s)"
proof (induction cs arbitrary: p s)
  case Nil
  then show ?case by (cases s) (simp add: ws_more_def)
next
  case (Cons c cs)
  obtain r p1 s1 where run: "ws_parse LS p s = (r, p1, s1)" by (metis prod.collapse)
  have res: "(r \<noteq> xWsFrameResult_NeedMore \<longrightarrow> ws_parse LS p (ws_more b s) = (r, p1, ws_more b s1))
    \<and> (r = xWsFrameResult_NeedMore \<longrightarrow> ws_ok p1 \<and> ws_parse LS p (ws_more b s) = ws_parse LS p1 (ws_more b s1))" for b
    using resumes_parse Cons.prems run unfolding resumes_def by blast
  show ?case
  proof (cases "r = xWsFrameResult_NeedMore")
    case True
    with res Cons.IH [of p1 "ws_more c s1"] run show ?thesis by (simp add: ws_more_more)
  next
    case False
    with res [of "concat (c # cs)"] run show ?thesis by simp
  qed
qed

section \<open>Round trip\<close>

lemma unmask_index:
  "unmask_payload key d = map (\<lambda>i. d ! i XOR key ! (i mod 4)) [0..<length d]"
proof (induction key d rule: unmask_payload.induct)
  case (1 key a b c d rest)
  show ?case
  proof (rule nth_equalityI)
    fix i assume "i < length (unmask_payload key (a # b # c # d # rest))"
    then have i: "i < length rest + 4" using 1 by simp
    then have rhs: "map (\<lambda>i. (a # b # c # d # rest) ! i XOR key ! (i mod 4))
        [0..<length (a # b # c # d # rest)] ! i = (a # b # c # d # rest) ! i XOR key ! (i mod 4)"
      by (subst nth_map_upt) simp_all
    show "unmask_payload key (a # b # c # d # rest) ! i
        = map (\<lambda>i. (a # b # c # d # rest) ! i XOR key ! (i mod 4)) [0..<length (a # b # c # d # rest)] ! i"
    proof (cases "i < 4")
      case True
      then have "i = 0 \<or> i = 1 \<or> i = 2 \<or> i = 3" by linarith
      then show ?thesis unfolding rhs by (elim disjE) simp_all
    next
      case False
      define j where "j = i - 4"
      with False i have j: "i = Suc (Suc (Suc (Suc j)))" "j < length rest" by simp_all
      have "i mod 4 = j mod 4" using mod_add_self2 [of j 4] j(1) by simp
      then show ?thesis unfolding rhs using 1 j by simp
    qed
  qed (simp add: 1)
qed simp_all

lemma unmask_involution: "unmask_payload key (unmask_payload key d) = d"
  by (rule nth_equalityI) (simp_all add: unmask_index xor.assoc)

lemma length_unmask: "length (unmask_payload key d) = length d"
  by (simp add: unmask_index)

text \<open>Bits of the header.\<close>

lemma byte_join:
  fixes n :: "64 word"
  assumes "j \<le> 56"
  shows "push_bit 8 (drop_bit (j + 8) n) OR ucast (ucast (drop_bit j n) :: 8 word) = drop_bit j n"
proof (rule bit_word_eqI)
  fix i :: nat assume i: "i < LENGTH(64)"
  show "bit (push_bit 8 (drop_bit (j + 8) n) OR ucast (ucast (drop_bit j n) :: 8 word)) i = bit (drop_bit j n) i"
    using i by (cases "i < 8")
      (auto simp: bit_or_iff bit_push_bit_iff bit_drop_bit_eq bit_ucast_iff add.commute add.left_commute
        dest: bit_imp_le_length)
qed

lemma len64_bytes:
  fixes n :: "64 word"
  shows "fold (\<lambda>i m. push_bit 8 m OR ucast (map (\<lambda>i. ucast (drop_bit (56 - i * 8) n) :: 8 word) [0..<8] ! i))
           [0..<8] 0 = n"
proof -
  have step: "k \<le> 8 \<Longrightarrow> fold (\<lambda>i m. push_bit 8 m OR ucast (map (\<lambda>i. ucast (drop_bit (56 - i * 8) n) :: 8 word) [0..<8] ! i))
      [0..<k] 0 = drop_bit (64 - 8 * k) n" for k
  proof (induction k)
    case 0
    have "drop_bit 64 n = 0"
      by (rule bit_word_eqI) (auto simp: bit_drop_bit_eq dest: bit_imp_le_length)
    then show ?case by simp
  next
    case (Suc k)
    then have "push_bit 8 (drop_bit (64 - 8 * k) n) OR ucast (ucast (drop_bit (56 - k * 8) n) :: 8 word)
        = drop_bit (56 - k * 8) n"
      using byte_join [of "56 - k * 8" n] by (simp add: mult.commute)
    with Suc show ?case by (simp add: mult.commute)
  qed
  from step [of 8] show ?thesis by simp
qed

lemma len16_bytes:
  fixes n :: "64 word"
  assumes "unat n \<le> 0xFFFF"
  shows "push_bit 8 (ucast (ucast (drop_bit 8 n) :: 8 word)) OR ucast (ucast n :: 8 word) = n"
proof -
  have "unat (drop_bit 8 n) < 256" 
    using assms by (simp only: unat_drop_bit_eq) (simp add: drop_bit_eq_div)
  then have "ucast (ucast (drop_bit 8 n) :: 8 word) = drop_bit 8 n"
    by (simp add: word_unat_eq_iff unsigned_ucast_eq unsigned_take_bit_eq take_bit_nat_eq_self)
  then show ?thesis using byte_join [of 0 n] by simp
qed

text \<open>The bytes of a frame, as the encoder appends them.\<close>

definition ws_bytes :: "8 word \<Rightarrow> 8 word \<Rightarrow> 8 word \<Rightarrow> int \<Rightarrow> octets \<Rightarrow> octets \<Rightarrow> octets" where
  "ws_bytes fin rsv1 opcode masked key d =
     ws_hdr fin rsv1 opcode (length d) masked key @ (if masked \<noteq> 0 then unmask_payload key d else d)"

definition flag :: "bool \<Rightarrow> 8 word" where
  "flag b = (if b then 1 else 0)"

lemma first_byte:
  fixes opcode :: "8 word" and b c :: bool
  defines "h0 \<equiv> (if b then 0x80 else 0x00) OR (if c then 0x40 else 0x00) OR (opcode AND 0x0F)"
  shows "h0 AND 0x30 = 0" "drop_bit 7 h0 AND 1 = flag b" "drop_bit 6 h0 AND 1 = flag c"
    "h0 AND 0x0F = opcode AND 0x0F"
proof -
  have o: "(opcode AND 0x0F) AND 0x30 = 0" "drop_bit 7 (opcode AND 0x0F) = 0"
    "drop_bit 6 (opcode AND 0x0F) = 0" "(opcode AND 0x0F) AND 0x0F = opcode AND 0x0F"
    by (simp_all add: and.assoc drop_bit_and)
  show "h0 AND 0x30 = 0" "drop_bit 7 h0 AND 1 = flag b" "drop_bit 6 h0 AND 1 = flag c"
    "h0 AND 0x0F = opcode AND 0x0F"
    unfolding h0_def flag_def
    by (cases b; cases c; simp add: bit.conj_disj_distrib2 drop_bit_or o)+
qed

lemma second_byte:
  fixes l :: "8 word"
  assumes "l < 128"
  shows "drop_bit 7 ((if b then 0x80 else 0x00) OR l) AND 1 = flag b"
    "((if b then 0x80 else 0x00) OR l) AND 0x7F = l"
proof -
  have "unat l < 2 ^ 7" using assms by (simp add: word_less_nat_alt)
  then have t: "take_bit 7 l = l"
    by (simp add: word_unat_eq_iff unsigned_take_bit_eq take_bit_nat_eq_self)
  have m: "w AND 0x7F = take_bit 7 w" for w :: "8 word"
    by (simp add: take_bit_eq_mask mask_eq_exp_minus_1)
  have d: "drop_bit 7 l = 0" using t by (metis drop_bit_take_bit diff_self_eq_0 take_bit_0)
  show "drop_bit 7 ((if b then 0x80 else 0x00) OR l) AND 1 = flag b"
    by (simp add: flag_def drop_bit_or d)
  show "((if b then 0x80 else 0x00) OR l) AND 0x7F = l"
    using t by (simp add: bit.conj_disj_distrib2 m)
qed

text \<open>A parser waiting for a frame.\<close>

definition ws_ready :: "bool \<Rightarrow> xWsFrameParser \<Rightarrow> bool" where
  "ws_ready masked p \<longleftrightarrow> ws_phase p = xWsFrameParserPhase_Header \<and> ws_payload (ws_frame p) = None
     \<and> ws_expect_masked p = (if masked then 1 else 0)"

text \<open>What RFC 6455 asks of a frame, as far as the parser checks it.\<close>

definition ws_valid :: "xWsFrameParser \<Rightarrow> 8 word \<Rightarrow> 8 word \<Rightarrow> 8 word \<Rightarrow> nat \<Rightarrow> bool" where
  "ws_valid p fin rsv1 opcode n \<longleftrightarrow>
     opcode < 16 \<and> n \<le> WS_MAX_FRAME
   \<and> (rsv1 \<noteq> 0 \<longrightarrow> ws_allow_rsv1 p \<noteq> 0 \<and> \<not> is_control_opcode opcode)
   \<and> (is_control_opcode opcode \<longrightarrow> fin \<noteq> 0 \<and> n \<le> 125)"

lemma opcode_nibble: "opcode AND 0x0F = opcode" if "opcode < 16" for opcode :: "8 word"
proof -
  have "unat opcode < 2 ^ 4" using that by (simp add: word_less_nat_alt)
  then have "take_bit 4 opcode = opcode"
    by (simp add: word_unat_eq_iff unsigned_take_bit_eq take_bit_nat_eq_self)
  then show ?thesis by (simp add: take_bit_eq_mask mask_eq_exp_minus_1)
qed

text \<open>From the length on.\<close>

lemma rest_ok:
  assumes ph: "ws_phase p = ws_after_len (ws_frame p)" and none: "ws_payload (ws_frame p) = None"
    and m: "ws_masked (ws_frame p) = flag b" and n: "ws_payload_len (ws_frame p) = of_nat (length d)"
    and len: "length d \<le> WS_MAX_FRAME" and ctl: "is_control_opcode (ws_opcode (ws_frame p)) \<Longrightarrow> length d \<le> 125"
    and key: "length key = 4" and alloc: "d \<noteq> [] \<Longrightarrow> fst (draw as)"
  shows "\<exists>f pr. (case ws_len16 LS p ((if b then key @ unmask_payload key d else d) @ rest, as) of
             Inl r \<Rightarrow> r | Inr (p2, s2) \<Rightarrow>
           (case ws_len64 LS p2 s2 of Inl r \<Rightarrow> r | Inr (p3, s3) \<Rightarrow>
           (case ws_mask LS p3 s3 of Inl r \<Rightarrow> r | Inr (p4, s4) \<Rightarrow> ws_body LS p4 s4)))
       = (xWsFrameResult_Ok, p\<lparr>ws_frame := f, ws_phase := xWsFrameParserPhase_Payload, ws_payload_read := pr\<rparr>,
          (rest, if d = [] then as else snd (draw as)))
     \<and> ws_fin f = ws_fin (ws_frame p) \<and> ws_rsv1 f = ws_rsv1 (ws_frame p)
     \<and> ws_opcode f = ws_opcode (ws_frame p) \<and> ws_masked f = flag b
     \<and> ws_payload_len f = of_nat (length d) \<and> ws_payload f = (if d = [] then None else Some d)"
proof -
  have big: "length d < 2 ^ 64" using len by (simp add: WS_MAX_FRAME_def)
  then have un: "unat (of_nat (length d) :: 64 word) = length d" by (simp add: unat_of_nat)
  have zero: "(of_nat (length d) = (0 :: 64 word)) = (d = [])"
    by (simp only: word_unat_eq_iff un unat_0 length_0_conv)
  let ?q = "p\<lparr>ws_frame := (ws_frame p)\<lparr>ws_key := (if b then key else ws_key (ws_frame p))\<rparr>,
              ws_phase := xWsFrameParserPhase_Payload\<rparr>"
  let ?e = "if b then unmask_payload key d else d"
  have "(case ws_len16 LS p ((if b then key @ unmask_payload key d else d) @ rest, as) of
             Inl r \<Rightarrow> r | Inr (p2, s2) \<Rightarrow>
           (case ws_len64 LS p2 s2 of Inl r \<Rightarrow> r | Inr (p3, s3) \<Rightarrow>
           (case ws_mask LS p3 s3 of Inl r \<Rightarrow> r | Inr (p4, s4) \<Rightarrow> ws_body LS p4 s4)))
      = ws_body LS ?q (?e @ rest, as)"
  proof (cases b)
    case True
    with ph m have "ws_phase p = xWsFrameParserPhase_Mask" by (simp add: ws_after_len_def flag_def)
    with True key show ?thesis by (simp add: ws_len16_def ws_len64_def ws_mask_def list_source_def)
  next
    case False
    with ph m have "ws_phase p = xWsFrameParserPhase_Payload" by (simp add: ws_after_len_def flag_def)
    moreover from this False have q: "?q = p"
      by (intro xWsFrameParser.equality) simp_all
    ultimately show ?thesis
      unfolding q using False by (simp add: ws_len16_def ws_len64_def ws_mask_def)
  qed
  moreover have "\<exists>f pr. ws_body LS ?q (?e @ rest, as)
      = (xWsFrameResult_Ok, p\<lparr>ws_frame := f, ws_phase := xWsFrameParserPhase_Payload, ws_payload_read := pr\<rparr>,
          (rest, if d = [] then as else snd (draw as)))
     \<and> ws_fin f = ws_fin (ws_frame p) \<and> ws_rsv1 f = ws_rsv1 (ws_frame p)
     \<and> ws_opcode f = ws_opcode (ws_frame p) \<and> ws_masked f = flag b
     \<and> ws_payload_len f = of_nat (length d) \<and> ws_payload f = (if d = [] then None else Some d)"
  proof (cases "d = []")
    case True
    have "?e = []" using True by simp
    with True m n show ?thesis
      by (intro exI [of _ "(ws_frame ?q)\<lparr>ws_payload := None\<rparr>"] exI [of _ "ws_payload_read p"])
         (simp add: ws_body_def ws_done_def)
  next
    case False
    let ?a = "?q\<lparr>ws_frame := (ws_frame ?q)\<lparr>ws_payload := Some []\<rparr>, ws_payload_read := 0\<rparr>"
    have al: "ws_alloc LS ?q (?e @ rest, as) = Inr (?a, (?e @ rest, snd (draw as)))"
      using none n len un alloc [OF False]
      by (cases "draw as") (simp add: ws_alloc_def list_source_def Let_def)
    have le: "length ?e = length d" by (simp add: length_unmask)
    have fl: "ws_fill LS ?a (?e @ rest, snd (draw as))
        = (?a\<lparr>ws_frame := (ws_frame ?a)\<lparr>ws_payload := Some ?e\<rparr>, ws_payload_read := length d\<rparr>, (rest, snd (draw as)))"
      using le n un by (subst fill_list [of _ "[]"]) (simp_all add: Let_def)
    have ctl2: "\<not> (is_control_opcode (ws_opcode (ws_frame p)) \<and> 125 < (of_nat (length d) :: 64 word))"
      using ctl un by (auto simp: word_less_nat_alt)
    have tail: "ws_body LS ?q (?e @ rest, as)
        = ws_tail (?a\<lparr>ws_frame := (ws_frame ?a)\<lparr>ws_payload := Some ?e\<rparr>, ws_payload_read := length d\<rparr>, (rest, snd (draw as)))"
      using False zero n al fl by (subst body_tail) simp_all
    show ?thesis
      unfolding tail
      using False m n un ctl2
      by (intro exI [of _ "(ws_frame ?q)\<lparr>ws_payload := Some d\<rparr>"] exI [of _ "length d"])
         (cases b; simp add: ws_tail_def ws_done_def ws_unmask_def flag_def unmask_involution)
  qed
  ultimately show ?thesis by simp
qed

text \<open>The first two bytes of a frame.\<close>

definition ws_started :: "xWsFrameParser \<Rightarrow> 8 word \<Rightarrow> 8 word \<Rightarrow> 8 word \<Rightarrow> bool \<Rightarrow> xWsFrame" where
  "ws_started p fin rsv1 opcode b =
     (ws_frame p)\<lparr>ws_fin := flag (fin \<noteq> 0), ws_rsv1 := flag (rsv1 \<noteq> 0),
                  ws_opcode := opcode, ws_masked := flag b\<rparr>"

lemma header_fields:
  assumes "h0 AND 0x30 = 0" "drop_bit 7 h0 AND 1 = flag (fin \<noteq> 0)" "drop_bit 6 h0 AND 1 = flag (rsv1 \<noteq> 0)"
    "h0 AND 0x0F = opcode" "drop_bit 7 h1 AND 1 = flag b" "h1 AND 0x7F = l"
    and "ws_phase p = xWsFrameParserPhase_Header" "uint (flag b) = ws_expect_masked p"
    and "\<not> (flag (rsv1 \<noteq> 0) \<noteq> 0 \<and> (ws_allow_rsv1 p = 0 \<or> is_control_opcode opcode))"
    and "\<not> (is_control_opcode opcode \<and> (flag (fin \<noteq> 0) = 0 \<or> 126 \<le> l))"
  shows "ws_header LS p (h0 # h1 # xs, as)
    = Inr (let f = ws_started p fin rsv1 opcode b in
        if l < 126 then p\<lparr>ws_frame := f\<lparr>ws_payload_len := ucast l\<rparr>, ws_phase := ws_after_len f\<rparr>
        else p\<lparr>ws_frame := f, ws_phase := if l = 126 then xWsFrameParserPhase_Len16
                                         else xWsFrameParserPhase_Len64\<rparr>, (xs, as))"
  using assms by (simp add: ws_header_def list_source_def ws_started_def Let_def del: One_nat_def)

lemma header_ok:
  fixes l :: "8 word"
  assumes rd: "ws_ready b p" and l: "l < 128" and v: "ws_valid p fin rsv1 opcode n"
    and ctl: "is_control_opcode opcode \<Longrightarrow> l < 126"
  shows "ws_header LS p (((if fin \<noteq> 0 then 0x80 else 0x00) OR (if rsv1 \<noteq> 0 then 0x40 else 0x00) OR (opcode AND 0x0F))
            # ((if b then 0x80 else 0x00) OR l) # xs, as)
    = Inr (let f = ws_started p fin rsv1 opcode b in
        if l < 126 then p\<lparr>ws_frame := f\<lparr>ws_payload_len := ucast l\<rparr>, ws_phase := ws_after_len f\<rparr>
        else p\<lparr>ws_frame := f, ws_phase := if l = 126 then xWsFrameParserPhase_Len16
                                         else xWsFrameParserPhase_Len64\<rparr>, (xs, as))"
proof -
  have op: "opcode AND 0x0F = opcode" using v by (simp add: ws_valid_def opcode_nibble)
  note h0 = first_byte [of "fin \<noteq> 0" "rsv1 \<noteq> 0" opcode]
  note h1 = second_byte [OF l, of b]
  let ?h0 = "(if fin \<noteq> 0 then 0x80 else 0x00) OR (if rsv1 \<noteq> 0 then 0x40 else 0x00) OR (opcode AND 0x0F) :: 8 word"
  let ?h1 = "(if b then 0x80 else 0x00) OR l :: 8 word"
  have em: "uint (flag b) = ws_expect_masked p" using rd by (simp add: ws_ready_def flag_def)
  have rsv: "\<not> (flag (rsv1 \<noteq> 0) \<noteq> 0 \<and> (ws_allow_rsv1 p = 0 \<or> is_control_opcode opcode))"
    using v by (auto simp: ws_valid_def flag_def)
  have ctl2: "\<not> (is_control_opcode opcode \<and> (flag (fin \<noteq> 0) = 0 \<or> 126 \<le> l))"
    using v ctl by (auto simp: ws_valid_def flag_def not_le)
  have ph: "ws_phase p = xWsFrameParserPhase_Header" using rd by (simp add: ws_ready_def)
  show ?thesis
    using header_fields [OF h0(1,2,3) trans [OF h0(4) op] h1 ph em rsv ctl2] by (simp only: op)
qed

text \<open>The phases after the header.\<close>

definition ws_rest :: "xWsFrameParser \<Rightarrow> octets \<times> allocs \<Rightarrow> (octets \<times> allocs) ws_ret" where
  "ws_rest p s =
     (case ws_len16 LS p s of Inl r \<Rightarrow> r | Inr (p2, s2) \<Rightarrow>
     (case ws_len64 LS p2 s2 of Inl r \<Rightarrow> r | Inr (p3, s3) \<Rightarrow>
     (case ws_mask LS p3 s3 of Inl r \<Rightarrow> r | Inr (p4, s4) \<Rightarrow> ws_body LS p4 s4)))"

lemma parse_rest: "ws_header LS p s = Inr (p1, s1) \<Longrightarrow> ws_parse LS p s = ws_rest p1 s1"
  by (simp add: ws_parse_def ws_rest_def)

lemma after_len_phase:
  "ws_after_len f \<noteq> xWsFrameParserPhase_Len16" "ws_after_len f \<noteq> xWsFrameParserPhase_Len64"
  by (simp_all add: ws_after_len_def)

lemma rest_len16:
  assumes "ws_phase p = xWsFrameParserPhase_Len16" "unat n \<le> 0xFFFF"
  shows "ws_rest p (ucast (drop_bit 8 n) # ucast n # xs, as)
    = ws_rest (p\<lparr>ws_frame := (ws_frame p)\<lparr>ws_payload_len := n\<rparr>, ws_phase := ws_after_len (ws_frame p)\<rparr>) (xs, as)"
  using assms len16_bytes [of n]
  by (simp add: ws_rest_def ws_len16_def list_source_def after_len_phase)

lemma rest_len64:
  assumes "ws_phase p = xWsFrameParserPhase_Len64" "unat n < 2 ^ 63"
  shows "ws_rest p (map (\<lambda>i. ucast (drop_bit (56 - i * 8) n)) [0..<8] @ xs, as)
    = ws_rest (p\<lparr>ws_frame := (ws_frame p)\<lparr>ws_payload_len := n\<rparr>, ws_phase := ws_after_len (ws_frame p)\<rparr>) (xs, as)"
proof -
  let ?b = "map (\<lambda>i. ucast (drop_bit (56 - i * 8) n) :: 8 word) [0..<8]"
  have len: "length ?b = 8" by simp
  have "unat (drop_bit 63 n) = 0"
    using assms(2) by (simp only: unat_drop_bit_eq) (simp add: drop_bit_eq_div)
  then have top: "drop_bit 63 n = 0" by (simp add: word_unat_eq_iff)
  have val: "fold (\<lambda>i m. push_bit 8 m OR ucast (?b ! i)) [0..<8] (0 :: 64 word) = n"
    by (rule len64_bytes)
  have peek: "src_peek LS 8 (?b @ xs, as) = Some ?b" "src_consume LS 8 (?b @ xs, as) = (xs, as)"
    using len by (simp_all add: list_source_def del: upt_Suc list.map)
  have "ws_len16 LS p (?b @ xs, as) = Inr (p, (?b @ xs, as))"
    using assms(1) by (intro phase_skip) simp
  moreover have "ws_len64 LS p (?b @ xs, as)
      = Inr (p\<lparr>ws_frame := (ws_frame p)\<lparr>ws_payload_len := n\<rparr>, ws_phase := ws_after_len (ws_frame p)\<rparr>, (xs, as))"
    unfolding ws_len64_def peek using assms(1) val top peek(2)
    by (simp add: Let_def del: upt_Suc list.map upt_conv_Cons)
  ultimately show ?thesis
    by (simp add: ws_rest_def phase_skip after_len_phase del: upt_Suc list.map upt_conv_Cons)
qed

lemma parse_bytes:
  assumes rd: "ws_ready (masked \<noteq> 0) p" and v: "ws_valid p fin rsv1 opcode (length d)"
    and key: "length key = 4" and alloc: "d \<noteq> [] \<Longrightarrow> fst (draw as)"
  shows "\<exists>p1 f. ws_parse LS p (ws_bytes fin rsv1 opcode masked key d @ rest, as)
       = (xWsFrameResult_Ok, p1, (rest, if d = [] then as else snd (draw as)))
     \<and> ws_frame p1 = f
     \<and> ws_fin f = flag (fin \<noteq> 0) \<and> ws_rsv1 f = flag (rsv1 \<noteq> 0)
     \<and> ws_opcode f = opcode \<and> ws_masked f = flag (masked \<noteq> 0)
     \<and> ws_payload_len f = of_nat (length d) \<and> ws_payload f = (if d = [] then None else Some d)"
proof -
  let ?n = "of_nat (length d) :: 64 word"
  let ?b = "masked \<noteq> 0"
  let ?f = "ws_started p fin rsv1 opcode ?b"
  let ?e = "(if ?b then key @ unmask_payload key d else d) @ rest"
  let ?h0 = "(if fin \<noteq> 0 then 0x80 else 0x00) OR (if rsv1 \<noteq> 0 then 0x40 else 0x00) OR (opcode AND 0x0F) :: 8 word"
  let ?m = "(if ?b then 0x80 else 0x00) :: 8 word"
  have len: "length d \<le> WS_MAX_FRAME" using v by (simp add: ws_valid_def)
  then have un: "unat ?n = length d" by (simp add: unat_of_nat WS_MAX_FRAME_def)
  have ctl: "is_control_opcode opcode \<Longrightarrow> length d \<le> 125" using v by (simp add: ws_valid_def)
  have f: "ws_masked ?f = flag ?b" "ws_payload ?f = None" "ws_opcode ?f = opcode"
    "ws_fin ?f = flag (fin \<noteq> 0)" "ws_rsv1 ?f = flag (rsv1 \<noteq> 0)"
    using rd by (simp_all add: ws_started_def ws_ready_def)
  define q where "q = p\<lparr>ws_frame := ?f\<lparr>ws_payload_len := ?n\<rparr>, ws_phase := ws_after_len ?f\<rparr>"
  have q: "ws_phase q = ws_after_len (ws_frame q)" "ws_payload (ws_frame q) = None"
    "ws_masked (ws_frame q) = flag ?b" "ws_payload_len (ws_frame q) = ?n"
    "is_control_opcode (ws_opcode (ws_frame q)) \<Longrightarrow> length d \<le> 125"
    using f ctl by (simp_all add: q_def ws_after_len_def)
  have main: "ws_parse LS p (ws_bytes fin rsv1 opcode masked key d @ rest, as) = ws_rest q (?e, as)"
  proof -
    consider "length d < 126" | "126 \<le> length d" "length d \<le> 0xFFFF" | "0xFFFF < length d" by linarith
    then show ?thesis
    proof cases
      case 1
      let ?l = "ucast ?n :: 8 word"
      have ul: "unat ?l = length d"
        using 1 un by (simp add: unsigned_ucast_eq take_bit_nat_eq_self)
      have l: "?l < 128" "?l < 126" using 1 ul by (simp_all add: word_less_nat_alt)
      have wide: "ucast ?l = ?n" using 1 un ul by (simp add: word_unat_eq_iff unsigned_ucast_eq unsigned_take_bit_eq take_bit_nat_eq_self)
      have eq: "ws_bytes fin rsv1 opcode masked key d @ rest = ?h0 # (?m OR ?l) # ?e"
        using 1 by (simp add: ws_bytes_def ws_hdr_def Let_def)
      show ?thesis
        unfolding eq using header_ok [OF rd l(1) v, of ?e as] l(2) wide
        by (simp add: parse_rest q_def Let_def)
    next
      case 2
      have eq: "ws_bytes fin rsv1 opcode masked key d @ rest
          = ?h0 # (?m OR 126) # ucast (drop_bit 8 ?n) # ucast ?n # ?e"
        using 2 by (simp add: ws_bytes_def ws_hdr_def Let_def)
      have nc: "\<not> is_control_opcode opcode" using ctl 2 by fastforce
      let ?p1 = "p\<lparr>ws_frame := ?f, ws_phase := xWsFrameParserPhase_Len16\<rparr>"
      have "ws_header LS p (?h0 # (?m OR 126) # ucast (drop_bit 8 ?n) # ucast ?n # ?e, as)
          = Inr (?p1, (ucast (drop_bit 8 ?n) # ucast ?n # ?e, as))"
        using header_ok [OF rd _ v, of 126 "ucast (drop_bit 8 ?n) # ucast ?n # ?e" as] nc
        by (simp add: Let_def)
      then show ?thesis
        unfolding eq using rest_len16 [of ?p1 ?n ?e as] 2 un
        by (simp add: parse_rest q_def)
    next
      case 3
      let ?bs = "map (\<lambda>i. ucast (drop_bit (56 - i * 8) ?n) :: 8 word) [0..<8]"
      have eq: "ws_bytes fin rsv1 opcode masked key d @ rest = ?h0 # (?m OR 127) # ?bs @ ?e"
        using 3 by (simp add: ws_bytes_def ws_hdr_def Let_def del: upt_Suc list.map upt_conv_Cons)
      have nc: "\<not> is_control_opcode opcode" using ctl 3 by fastforce
      let ?p1 = "p\<lparr>ws_frame := ?f, ws_phase := xWsFrameParserPhase_Len64\<rparr>"
      have "ws_header LS p (?h0 # (?m OR 127) # ?bs @ ?e, as) = Inr (?p1, (?bs @ ?e, as))"
        using header_ok [OF rd _ v, of 127 "?bs @ ?e" as] nc
        by (simp add: Let_def del: upt_Suc list.map upt_conv_Cons)
      moreover have "unat ?n < 2 ^ 63" using len un by (simp add: WS_MAX_FRAME_def)
      ultimately show ?thesis
        unfolding eq using rest_len64 [of ?p1 ?n ?e as]
        by (simp add: parse_rest q_def del: upt_Suc list.map upt_conv_Cons)
    qed
  qed
  obtain g pr where r: "ws_rest q (?e, as)
      = (xWsFrameResult_Ok, q\<lparr>ws_frame := g, ws_phase := xWsFrameParserPhase_Payload, ws_payload_read := pr\<rparr>,
          (rest, if d = [] then as else snd (draw as)))"
    "ws_fin g = ws_fin (ws_frame q)" "ws_rsv1 g = ws_rsv1 (ws_frame q)"
    "ws_opcode g = ws_opcode (ws_frame q)" "ws_masked g = flag ?b"
    "ws_payload_len g = ?n" "ws_payload g = (if d = [] then None else Some d)"
    using rest_ok [OF q(1-4) len q(5) key alloc] unfolding ws_rest_def by blast
  with main f show ?thesis by (simp add: q_def)
qed

section \<open>The encoder on a buffer\<close>

text \<open>A buffer of its own, and allocations that succeed.\<close>

lemma append_alone:
  assumes w: "world_ok m [io]" "unshared [io]" and run: "xIOBufferAppend m io d = (e, m1, io1)"
    and full: "mem_allocs m = []"
  shows "e = xErrno_Ok" "world_ok m1 [io1]" "unshared [io1]" "xIOBufferCopyTo m1 io1 = xIOBufferCopyTo m io @ d"
proof -
  have pre: "io_pre (Op_Append 0 d) [io]" using unshared_clear [OF w(2), of 0] by simp
  have ex: "io_exec (Op_Append 0 d) (m, [io]) = (Res_err e, m1, [io1])" using run by simp
  note r = exec_ok [OF w(1) pre ex]
  then show "world_ok m1 [io1]" "unshared [io1]" using unshared_step [OF _ w(2)] by auto
  from r(1) full show "e = xErrno_Ok" "xIOBufferCopyTo m1 io1 = xIOBufferCopyTo m io @ d"
    by (auto simp: io_contents_def)
qed

lemma acquire_allocs_nil:
  "mem_allocs m = [] \<Longrightarrow> xIOBlockAcquire m = (b, m1) \<Longrightarrow> mem_allocs m1 = []"
  using acquire_allocs [of m] by auto

lemma push_allocs_nil:
  assumes "mem_allocs m = []" "iobuf_push_ref m io r adj = (e, m1, io1)"
  shows "mem_allocs m1 = []"
  using assms by (auto simp: iobuf_push_ref_def iobuf_grow_refs_def mem_draw_def Let_def
      split: if_splits prod.splits)

lemma append_blocks_allocs:
  "mem_allocs m = [] \<Longrightarrow> append_blocks m io src = (e, m1, io1) \<Longrightarrow> mem_allocs m1 = []"
proof (induction m io src rule: append_blocks.induct)
  case (1 m io src)
  show ?case
  proof (cases "src = []")
    case True
    with 1 show ?thesis by (simp add: append_blocks.simps [of m io])
  next
    case ne: False
    obtain b m2 where acq: "xIOBlockAcquire m = (Some b, m2)" "mem_allocs m2 = []"
      using acquire_allocs [OF "1.prems"(1)] by blast
    let ?chunk = "take XIOBUFFER_BLOCK_SIZE src"
    let ?m2 = "set_block b (\<lambda>k. k\<lparr>blk_size := length ?chunk\<rparr>) (write_block b 0 ?chunk m2)"
    let ?r = "\<lparr>ref_block = b, ref_offset = 0, ref_length = length ?chunk\<rparr>"
    obtain e3 m3 io3 where push: "iobuf_push_ref ?m2 io ?r True = (e3, m3, io3)" by (metis prod.collapse)
    have n3: "mem_allocs m3 = []"
      using push_allocs_nil [OF _ push] acq(2) by (simp add: set_block_def write_block_def)
    have "append_blocks m io src = (if e3 \<noteq> xErrno_Ok then (e3, xIOBlockRelease b m3, io3)
        else append_blocks m3 io3 (drop XIOBUFFER_BLOCK_SIZE src))"
      using ne acq(1) push by (subst append_blocks.simps) (simp add: Let_def)
    with "1.prems"(2) "1.IH" [OF ne acq(1) [symmetric] refl refl refl push [symmetric] _ _ n3] n3
    show ?thesis by (auto split: if_splits)
  qed
qed

lemma append_allocs_nil:
  assumes "mem_allocs m = []" "xIOBufferAppend m io d = (e, m1, io1)"
  shows "mem_allocs m1 = []"
proof -
  obtain m2 io2 rest where f: "fill_tail m io d = (m2, io2, rest)" by (metis prod.collapse)
  have "mem_allocs m2 = []"
    using f assms(1) by (auto simp: fill_tail_def Let_def split: if_splits)
  with assms f append_blocks_allocs [of m2 io2 rest] show ?thesis
    by (auto simp: xIOBufferAppend_def split: if_splits)
qed

lemma world_draw: "world_ok m bs \<Longrightarrow> world_ok (snd (mem_draw m)) bs"
  by (simp add: world_ok_def mem_ok_draw)

lemma copy_draw: "xIOBufferCopyTo (snd (mem_draw m)) io = xIOBufferCopyTo m io"
proof -
  have "refs_bytes (snd (mem_draw m)) = refs_bytes m" by (rule same_data_refs) simp
  then show ?thesis by (simp add: copy_refs)
qed

lemma encode_bytes:
  assumes w: "world_ok m [io]" "unshared [io]" and full: "mem_allocs m = []"
    and run: "xWsFrameEncodeEx m io fin rsv1 opcode (Some d) (length d) masked key = (rc, m1, io1)"
  shows "rc = 0" "world_ok m1 [io1]" "unshared [io1]" "mem_allocs m1 = []"
    "xIOBufferCopyTo m1 io1 = xIOBufferCopyTo m io @ ws_bytes fin rsv1 opcode masked key d"
proof -
  let ?hdr = "ws_hdr fin rsv1 opcode (length d) masked key"
  obtain e2 m2 io2 where ap: "xIOBufferAppend m io ?hdr = (e2, m2, io2)" by (metis prod.collapse)
  note a = append_alone [OF w ap full] and n2 = append_allocs_nil [OF full ap]
  define m3 where "m3 = (if masked \<noteq> 0 then snd (mem_draw m2) else m2)"
  define body where "body = (if masked \<noteq> 0 then unmask_payload key d else d)"
  have m3: "world_ok m3 [io2]" "mem_allocs m3 = []" "xIOBufferCopyTo m3 io2 = xIOBufferCopyTo m2 io2"
    using a(2) n2 by (simp_all add: m3_def world_draw draw_allocs copy_draw)
  obtain e4 m4 io4 where ap4: "xIOBufferAppend m3 io2 body = (e4, m4, io4)" by (metis prod.collapse)
  note b = append_alone [OF m3(1) a(3) ap4 m3(2)] and n4 = append_allocs_nil [OF m3(2) ap4]
  have ok: "fst (mem_draw m2)" using n2 by (simp add: mem_draw_def)
  have "rc = 0 \<and> world_ok m1 [io1] \<and> unshared [io1] \<and> mem_allocs m1 = []
    \<and> xIOBufferCopyTo m1 io1 = xIOBufferCopyTo m io @ ws_bytes fin rsv1 opcode masked key d"
  proof (cases "d = []")
    case True
    then have "rc = 0" "m1 = m2" "io1 = io2" using run ap a(1) by (simp_all add: xWsFrameEncodeEx_def)
    with a n2 True show ?thesis by (simp add: ws_bytes_def)
  next
    case False
    have "xWsFrameEncodeEx m io fin rsv1 opcode (Some d) (length d) masked key
        = (if e4 \<noteq> xErrno_Ok then -1 else 0, m4, io4)"
      using ap a(1) False ok ap4 unfolding m3_def body_def
      by (cases "masked = 0"; cases "mem_draw m2") (simp_all add: xWsFrameEncodeEx_def)
    with run b n4 a(4) m3(3) show ?thesis by (simp add: ws_bytes_def body_def)
  qed
  then show "rc = 0" "world_ok m1 [io1]" "unshared [io1]" "mem_allocs m1 = []"
    "xIOBufferCopyTo m1 io1 = xIOBufferCopyTo m io @ ws_bytes fin rsv1 opcode masked key d" by blast+
qed

lemma world_io_inv: "world_ok m [io] \<Longrightarrow> io_inv {#} (m, io)"
  by (simp add: world_ok_def io_inv_def all_refs_def)

lemma fresh_alone:
  "world_ok (fresh_mem x []) [xIOBufferInit]" "unshared [xIOBufferInit]"
  "mem_allocs (fresh_mem x []) = []" "xIOBufferCopyTo (fresh_mem x []) xIOBufferInit = []"
  using fresh_ok [of x "[]" 1] fresh_unshared [of 1]
  by (simp_all add: copy_refs xIOBufferInit_def fresh_mem_def)

section \<open>Properties\<close>

text \<open>
  C26. Round trip through a buffer: a frame encoded into an empty block-chain buffer, masked or
  not, of any of the three length forms, is what the parser of the other side returns from that
  buffer: the same flags, opcode and payload, with nothing left over, for every frame
  the parser admits: a payload of at most 16 MB, control frames final and of at most 125 bytes, the reserved
  bit only where it was negotiated. (The encoder also emits frames that the parser of the other side
  refuses.) No allocation fails.
\<close>

theorem ws_roundtrip:
  assumes "world_ok m [io]" "unshared [io]" "mem_allocs m = []" "xIOBufferCopyTo m io = []"
    and "length key = 4" "ws_ready (masked \<noteq> 0) p" "ws_valid p fin rsv1 opcode (length d)"
    and "xWsFrameEncodeEx m io fin rsv1 opcode (Some d) (length d) masked key = (rc, m1, io1)"
    and "xWsFrameParse p (m1, io1) = (r, p1, m2, io2)"
  shows "rc = 0 \<and> r = xWsFrameResult_Ok \<and> xIOBufferCopyTo m2 io2 = []
    \<and> ws_fin (ws_frame p1) = flag (fin \<noteq> 0) \<and> ws_rsv1 (ws_frame p1) = flag (rsv1 \<noteq> 0)
    \<and> ws_opcode (ws_frame p1) = opcode \<and> ws_masked (ws_frame p1) = flag (masked \<noteq> 0)
    \<and> unat (ws_payload_len (ws_frame p1)) = length d
    \<and> ws_payload (ws_frame p1) = (if d = [] then None else Some d)"
proof -
  note e = encode_bytes [OF assms(1-3,8)]
  obtain p2 where pb: "ws_parse LS p (ws_bytes fin rsv1 opcode masked key d @ [], [])
       = (xWsFrameResult_Ok, p2, ([], if d = [] then [] else snd (draw [])))"
    "ws_fin (ws_frame p2) = flag (fin \<noteq> 0)" "ws_rsv1 (ws_frame p2) = flag (rsv1 \<noteq> 0)"
    "ws_opcode (ws_frame p2) = opcode" "ws_masked (ws_frame p2) = flag (masked \<noteq> 0)"
    "ws_payload_len (ws_frame p2) = of_nat (length d)"
    "ws_payload (ws_frame p2) = (if d = [] then None else Some d)"
    using parse_bytes [OF assms(6,7,5), of "[]" "[]"] by auto
  have inv: "io_inv {#} (m1, io1)" using e(2) by (rule world_io_inv)
  have view: "io_view (m1, io1) = (ws_bytes fin rsv1 opcode masked key d @ [], [])"
    using e(4,5) assms(4) by (simp add: io_view_def)
  have "ws_parse LS p (io_view (m1, io1)) = (r, p1, io_view (m2, io2))"
    using io_queue.parse_agrees [OF inv, of p] assms(9) by (simp add: xWsFrameParse_def io_queue.view_ret_def)
  then have eq: "r = xWsFrameResult_Ok" "p1 = p2" "xIOBufferCopyTo m2 io2 = []"
    using pb(1) unfolding view by (simp_all add: io_view_def)
  have "unat (of_nat (length d) :: 64 word) = length d"
    using assms(7) by (simp add: ws_valid_def WS_MAX_FRAME_def unat_of_nat)
  with e(1) eq pb show ?thesis by simp
qed

theorem ws_roundtrip_witness:
  "\<exists>rc m1 io1 r p1 m2 io2.
     xWsFrameEncodeEx (fresh_mem 0 []) xIOBufferInit 1 0 2 (Some [7, 9]) 2 1 [1, 2, 3, 4] = (rc, m1, io1)
   \<and> xWsFrameParse (xWsFrameParserInit 1) (m1, io1) = (r, p1, m2, io2)
   \<and> rc = 0 \<and> r = xWsFrameResult_Ok \<and> ws_payload (ws_frame p1) = Some [7, 9]"
proof -
  let ?p = "xWsFrameParserInit 1"
  obtain rc m1 io1 where enc: "xWsFrameEncodeEx (fresh_mem 0 []) xIOBufferInit 1 0 2 (Some [7, 9])
      (length [7, 9 :: 8 word]) 1 [1, 2, 3, 4] = (rc, m1, io1)" by (metis prod.collapse)
  obtain r p1 m2 io2 where parse: "xWsFrameParse ?p (m1, io1) = (r, p1, m2, io2)" by (metis prod.collapse)
  have ready: "ws_ready ((1 :: int) \<noteq> 0) ?p"
    by (simp add: ws_ready_def xWsFrameParserInit_def ws_zero_frame_def)
  have valid: "ws_valid ?p 1 0 2 (length [7, 9 :: 8 word])"
    by (simp add: ws_valid_def is_control_opcode_def WS_MAX_FRAME_def)
  from ws_roundtrip [OF fresh_alone _ ready valid enc parse]
  have "rc = 0" "r = xWsFrameResult_Ok" "ws_payload (ws_frame p1) = Some [7, 9]" by simp_all
  with enc parse show ?thesis by (simp add: eval_nat_numeral)
qed

text \<open>
  The block structure of the buffer and the moments at which bytes arrive do not matter: one
  call of the parser on a buffer returns the result, the frame and the left-over bytes that the
  parser returns when the same bytes come in any pieces and it is called after each of them,
  whatever phase it is in, for every pattern of allocation failures.
\<close>

theorem ws_pieces:
  assumes "ws_ok p" "io_inv R s" "fst (io_view s) = concat cs"
    and "xWsFrameParse p s = (r, p1, s1)"
  shows "ws_feed p ([], snd (io_view s)) cs = (r, p1, io_view s1)"
proof -
  have "ws_parse LS p (io_view s) = (r, p1, io_view s1)"
    using io_queue.parse_agrees [OF assms(2), of p] assms(4)
    by (simp add: xWsFrameParse_def io_queue.view_ret_def)
  moreover have "ws_more (concat cs) ([], snd (io_view s)) = io_view s"
    using assms(3) by (simp add: ws_more_def) (metis prod.collapse)
  ultimately show ?thesis using feed_whole [OF assms(1)] by simp
qed

theorem ws_pieces_witness:
  "\<exists>e m io r p1 s1. xIOBufferAppend (fresh_mem 0 []) xIOBufferInit [0x81, 2, 104, 105] = (e, m, io)
     \<and> xWsFrameParse (xWsFrameParserInit 0) (m, io) = (r, p1, s1)
     \<and> ws_feed (xWsFrameParserInit 0) ([], mem_allocs m) [[0x81], [2, 104], [105]] = (r, p1, io_view s1)"
proof -
  let ?p = "xWsFrameParserInit 0"
  obtain e m io where ap: "xIOBufferAppend (fresh_mem 0 []) xIOBufferInit [0x81, 2, 104, 105 :: 8 word] = (e, m, io)"
    by (metis prod.collapse)
  note a = append_alone [OF fresh_alone(1,2) ap fresh_alone(3)]
  obtain r p1 s1 where parse: "xWsFrameParse ?p (m, io) = (r, p1, s1)" by (metis prod.collapse)
  have ok: "ws_ok ?p" by (simp add: ws_ok_def xWsFrameParserInit_def ws_zero_frame_def)
  have "fst (io_view (m, io)) = concat [[0x81], [2, 104], [105]]"
    using a(4) fresh_alone(4) [of "0 :: 8 word"] by (simp add: io_view_def)
  from ws_pieces [OF ok world_io_inv [OF a(2)] this parse]
  have "ws_feed ?p ([], mem_allocs m) [[0x81], [2, 104], [105]] = (r, p1, io_view s1)"
    by (simp add: io_view_def)
  with ap parse show ?thesis by blast
qed

end
