(* ===== verification/Stun.thy ===== *)
theory Stun
  imports Hmac Crc32
begin

text \<open>
  \<^verbatim>\<open>p2p/stun_msg.c\<close>, \<^verbatim>\<open>p2p/stun_attr.c\<close> and the byte-order helpers of \<^verbatim>\<open>p2p/ice_private.h\<close>: STUN
  messages (RFC 5389). A pointer into a byte buffer is the part of the buffer that starts there, so
  the distance of two pointers into one buffer is the difference of the lengths, and a read at
  \<open>p + i\<close> is the element \<open>i\<close>. Addresses are kept in host byte order. Integrity uses the HMAC of
  Hmac, the fingerprint the checksum of Crc32.
\<close>

section \<open>Constants and byte order\<close>

definition XSTUN_MAGIC_COOKIE :: "32 word" where "XSTUN_MAGIC_COOKIE = 0x2112A442"
definition XSTUN_HEADER_SIZE :: nat where "XSTUN_HEADER_SIZE = 20"
definition XSTUN_TXN_ID_SIZE :: nat where "XSTUN_TXN_ID_SIZE = 12"
definition XSTUN_ATTR_HEADER_SIZE :: nat where "XSTUN_ATTR_HEADER_SIZE = 4"
definition XSTUN_SHA1_DIGEST_SIZE :: nat where "XSTUN_SHA1_DIGEST_SIZE = 20"
definition XSTUN_FINGERPRINT_XOR :: "32 word" where "XSTUN_FINGERPRINT_XOR = 0x5354554E"

lemmas stun_sizes [simp] = XSTUN_HEADER_SIZE_def XSTUN_TXN_ID_SIZE_def XSTUN_ATTR_HEADER_SIZE_def
  XSTUN_SHA1_DIGEST_SIZE_def

definition XSTUN_ALIGN4 :: "nat \<Rightarrow> nat" where
  "XSTUN_ALIGN4 n = (n + 3) div 4 * 4"

definition xReadU16BE :: "octets \<Rightarrow> 16 word" where
  "xReadU16BE p = push_bit 8 (ucast (p ! 0)) OR ucast (p ! 1)"

definition xReadU32BE :: "octets \<Rightarrow> 32 word" where
  "xReadU32BE p = push_bit 24 (ucast (p ! 0)) OR push_bit 16 (ucast (p ! 1))
     OR push_bit 8 (ucast (p ! 2)) OR ucast (p ! 3)"

text \<open>What the writers store at their pointer.\<close>

definition xWriteU16BE :: "16 word \<Rightarrow> octets" where
  "xWriteU16BE v = [ucast (drop_bit 8 v), ucast v]"

definition xWriteU32BE :: "32 word \<Rightarrow> octets" where
  "xWriteU32BE v = [ucast (drop_bit 24 v), ucast (drop_bit 16 v), ucast (drop_bit 8 v), ucast v]"

definition xWriteU64BE :: "64 word \<Rightarrow> octets" where
  "xWriteU64BE v = xWriteU32BE (ucast (drop_bit 32 v)) @ xWriteU32BE (ucast v)"

section \<open>Messages\<close>

record xStunMsg =
  st_type :: "16 word"
  st_length :: "16 word"
  st_txn_id :: octets
  st_attrs :: "octets option"
  st_attrs_len :: "16 word"

definition xStunMsgInit :: "16 word \<Rightarrow> octets \<Rightarrow> xStunMsg" where
  "xStunMsgInit type txn_id = \<lparr>st_type = type, st_length = 0, st_txn_id = take XSTUN_TXN_ID_SIZE txn_id,
     st_attrs = None, st_attrs_len = 0\<rparr>"

text \<open>The result is -1, or the size of the message and the buffer as it is left.\<close>

definition xStunMsgEncode :: "xStunMsg option \<Rightarrow> octets option \<Rightarrow> nat \<Rightarrow> int \<times> octets option" where
  "xStunMsgEncode msg_ptr buf_ptr buf_len =
     (case (msg_ptr, buf_ptr) of
        (Some msg, Some buf) \<Rightarrow>
          (let n = unat (st_attrs_len msg); size = XSTUN_HEADER_SIZE + n in
           if buf_len < size then (-1, buf_ptr)
           else
             let b1 = store_at 0 (xWriteU16BE (st_type msg)) buf;
                 b2 = store_at 2 (xWriteU16BE (st_attrs_len msg)) b1;
                 b3 = store_at 4 (xWriteU32BE XSTUN_MAGIC_COOKIE) b2;
                 b4 = store_at 8 (st_txn_id msg) b3;
                 b5 = (case st_attrs msg of
                         Some a \<Rightarrow> if 0 < n then store_at XSTUN_HEADER_SIZE (take n a) b4 else b4
                       | None \<Rightarrow> b4)
             in (int size, Some b5))
      | _ \<Rightarrow> (-1, buf_ptr))"

definition xStunMsgDecode :: "xStunMsg option \<Rightarrow> octets option \<Rightarrow> nat \<Rightarrow> xErrno \<times> xStunMsg option" where
  "xStunMsgDecode msg_ptr buf_ptr buf_len =
     (case (msg_ptr, buf_ptr) of
        (Some msg, Some buf) \<Rightarrow>
          if buf_len < XSTUN_HEADER_SIZE then (xErrno_InvalidArg, msg_ptr)
          else if buf ! 0 AND 0xC0 \<noteq> 0 then (xErrno_InvalidArg, msg_ptr)
          else if xReadU32BE (drop 4 buf) \<noteq> XSTUN_MAGIC_COOKIE then (xErrno_InvalidArg, msg_ptr)
          else
            let m1 = msg\<lparr>st_type := xReadU16BE buf, st_length := xReadU16BE (drop 2 buf)\<rparr>;
                len = st_length m1
            in if buf_len < XSTUN_HEADER_SIZE + unat len then (xErrno_InvalidArg, Some m1)
               else (xErrno_Ok,
                     Some (m1\<lparr>st_txn_id := take XSTUN_TXN_ID_SIZE (drop 8 buf), st_attrs_len := len,
                              st_attrs := (if 0 < unat len then Some (drop XSTUN_HEADER_SIZE buf) else None)\<rparr>))
      | _ \<Rightarrow> (xErrno_InvalidArg, msg_ptr))"

definition xStunMsgIsStun :: "octets option \<Rightarrow> nat \<Rightarrow> bool" where
  "xStunMsgIsStun buf_ptr buf_len =
     (case buf_ptr of
        None \<Rightarrow> False
      | Some buf \<Rightarrow>
          \<not> buf_len < XSTUN_HEADER_SIZE \<and> \<not> (buf ! 0 AND 0xC0 \<noteq> 0)
          \<and> xReadU32BE (drop 4 buf) = XSTUN_MAGIC_COOKIE)"

definition XSTUN_MSG_CLASS :: "16 word \<Rightarrow> 16 word" where
  "XSTUN_MSG_CLASS type = drop_bit 4 (type AND 0x0010) OR drop_bit 7 (type AND 0x0100)"

definition XSTUN_MSG_METHOD :: "16 word \<Rightarrow> 16 word" where
  "XSTUN_MSG_METHOD type =
     (type AND 0x000F) OR drop_bit 1 (type AND 0x00E0) OR drop_bit 2 (type AND 0x3E00)"

section \<open>Writing attributes\<close>

text \<open>\<open>w_buf\<close> is the attribute area, behind the header of the message.\<close>

record xStunAttrWriter =
  w_buf :: octets
  w_cap :: nat
  w_pos :: nat

definition xStunAttrWriterInit :: "octets \<Rightarrow> nat \<Rightarrow> xStunAttrWriter" where
  "xStunAttrWriterInit buf c = \<lparr>w_buf = buf, w_cap = c, w_pos = 0\<rparr>"

definition attr_write_raw ::
  "xStunAttrWriter \<Rightarrow> 16 word \<Rightarrow> octets option \<Rightarrow> 16 word \<Rightarrow> xErrno \<times> xStunAttrWriter" where
  "attr_write_raw w type value_ptr value_len =
     (let n = unat value_len; padded = XSTUN_ALIGN4 n; size = XSTUN_ATTR_HEADER_SIZE + padded in
      if w_cap w < w_pos w + size then (xErrno_NoMemory, w)
      else
        let p = w_pos w;
            b1 = store_at p (xWriteU16BE type) (w_buf w);
            b2 = store_at (p + 2) (xWriteU16BE value_len) b1;
            b3 = (case value_ptr of
                    Some v \<Rightarrow> if 0 < n then store_at (p + XSTUN_ATTR_HEADER_SIZE) (take n v) b2 else b2
                  | None \<Rightarrow> b2);
            b4 = (if n < padded
                  then store_at (p + XSTUN_ATTR_HEADER_SIZE + n) (replicate (padded - n) 0) b3 else b3)
        in (xErrno_Ok, w\<lparr>w_buf := b4, w_pos := p + size\<rparr>))"

datatype sockaddr = sockaddr_in "16 word" "32 word" | sockaddr_in6 "16 word" octets | sockaddr_other

definition xor_key :: "octets \<Rightarrow> octets" where
  "xor_key txn_id = xWriteU32BE XSTUN_MAGIC_COOKIE @ take XSTUN_TXN_ID_SIZE txn_id"

definition port_mask :: "16 word" where
  "port_mask = ucast (drop_bit 16 XSTUN_MAGIC_COOKIE)"

definition encode_address ::
  "xStunAttrWriter \<Rightarrow> 16 word \<Rightarrow> sockaddr \<Rightarrow> bool \<Rightarrow> octets \<Rightarrow> xErrno \<times> xStunAttrWriter" where
  "encode_address w attr_type addr xor_encode txn_id =
     (case addr of
        sockaddr_in port0 ip0 \<Rightarrow>
          (let port = (if xor_encode then port0 XOR port_mask else port0);
               ip = (if xor_encode then ip0 XOR XSTUN_MAGIC_COOKIE else ip0)
           in attr_write_raw w attr_type (Some ([0, 0x01] @ xWriteU16BE port @ xWriteU32BE ip)) 8)
      | sockaddr_in6 port0 ip0 \<Rightarrow>
          (let port = (if xor_encode then port0 XOR port_mask else port0);
               ip = (if xor_encode then map2 (XOR) ip0 (xor_key txn_id) else ip0)
           in attr_write_raw w attr_type (Some ([0, 0x02] @ xWriteU16BE port @ ip)) 20)
      | sockaddr_other \<Rightarrow> (xErrno_InvalidArg, w))"

definition xStunAttrWriteXorMappedAddress :: "xStunAttrWriter \<Rightarrow> sockaddr \<Rightarrow> octets \<Rightarrow> xErrno \<times> xStunAttrWriter" where
  "xStunAttrWriteXorMappedAddress w addr txn_id = encode_address w 0x0020 addr True txn_id"

definition xStunAttrWriteMappedAddress :: "xStunAttrWriter \<Rightarrow> sockaddr \<Rightarrow> xErrno \<times> xStunAttrWriter" where
  "xStunAttrWriteMappedAddress w addr = encode_address w 0x0001 addr False []"

definition xStunAttrWriteXorPeerAddress :: "xStunAttrWriter \<Rightarrow> sockaddr \<Rightarrow> octets \<Rightarrow> xErrno \<times> xStunAttrWriter" where
  "xStunAttrWriteXorPeerAddress w addr txn_id = encode_address w 0x0012 addr True txn_id"

text \<open>Strings are their bytes without the terminating zero.\<close>

definition xStunAttrWriteUsername ::
  "xStunAttrWriter \<Rightarrow> octets option \<Rightarrow> octets option \<Rightarrow> xErrno \<times> xStunAttrWriter" where
  "xStunAttrWriteUsername w remote_ufrag local_ufrag =
     (case (remote_ufrag, local_ufrag) of
        (Some r, Some l) \<Rightarrow>
          (let value = r @ [58] @ l in
           if 256 < length value then (xErrno_NoMemory, w)
           else attr_write_raw w 0x0006 (Some value) (of_nat (length value)))
      | _ \<Rightarrow> (xErrno_InvalidArg, w))"

definition write_string :: "xStunAttrWriter \<Rightarrow> 16 word \<Rightarrow> octets option \<Rightarrow> xErrno \<times> xStunAttrWriter" where
  "write_string w type str =
     (case str of None \<Rightarrow> (xErrno_InvalidArg, w)
      | Some s \<Rightarrow> attr_write_raw w type (Some s) (of_nat (length s)))"

definition xStunAttrWriteRealm :: "xStunAttrWriter \<Rightarrow> octets option \<Rightarrow> xErrno \<times> xStunAttrWriter" where
  "xStunAttrWriteRealm w realm = write_string w 0x0014 realm"

definition xStunAttrWriteNonce :: "xStunAttrWriter \<Rightarrow> octets option \<Rightarrow> xErrno \<times> xStunAttrWriter" where
  "xStunAttrWriteNonce w nonce = write_string w 0x0015 nonce"

definition xStunAttrWriteSoftware :: "xStunAttrWriter \<Rightarrow> octets option \<Rightarrow> xErrno \<times> xStunAttrWriter" where
  "xStunAttrWriteSoftware w software = write_string w 0x8022 software"

text \<open>
  Integrity and fingerprint. The message buffer is the header \<open>hdr\<close> followed by the attribute area
  of the writer; its length field is set for the computation and restored, and the header is
  returned as it is left. What the stack of \<^verbatim>\<open>xHmacSha1\<close> held does not matter (Hmac).
\<close>

definition sha1_mac :: "octets \<Rightarrow> octets \<Rightarrow> octets" where
  "sha1_mac key data =
     (case xHmacSha1 (hmac_zero z0) (Some key) (Some data) True of
        (e, st, out) \<Rightarrow> (case out of Some d \<Rightarrow> d | None \<Rightarrow> []))"

definition set_length :: "16 word \<Rightarrow> octets \<Rightarrow> octets" where
  "set_length len hdr = store_at 2 (xWriteU16BE len) hdr"

definition xStunAttrWriteMessageIntegrity ::
  "xStunAttrWriter \<Rightarrow> octets option \<Rightarrow> octets option \<Rightarrow> xErrno \<times> xStunAttrWriter \<times> octets option" where
  "xStunAttrWriteMessageIntegrity w hdr_ptr key_ptr =
     (case (hdr_ptr, key_ptr) of
        (Some hdr, Some key) \<Rightarrow>
          (let mi_offset = w_pos w;
               orig_len = xReadU16BE (drop 2 hdr);
               h1 = set_length (of_nat (mi_offset + XSTUN_ATTR_HEADER_SIZE + XSTUN_SHA1_DIGEST_SIZE)) hdr;
               mac = sha1_mac key (take (XSTUN_HEADER_SIZE + mi_offset) (h1 @ w_buf w));
               h2 = set_length orig_len h1
           in (case attr_write_raw w 0x0008 (Some mac) (of_nat XSTUN_SHA1_DIGEST_SIZE) of
                 (e, w1) \<Rightarrow> (e, w1, Some h2)))
      | _ \<Rightarrow> (xErrno_InvalidArg, w, hdr_ptr))"

definition xStunAttrWriteFingerprint ::
  "crc_table \<Rightarrow> xStunAttrWriter \<Rightarrow> octets option \<Rightarrow> xErrno \<times> xStunAttrWriter \<times> octets option" where
  "xStunAttrWriteFingerprint t w hdr_ptr =
     (case hdr_ptr of
        None \<Rightarrow> (xErrno_InvalidArg, w, hdr_ptr)
      | Some hdr \<Rightarrow>
          (let fp_offset = w_pos w;
               orig_len = xReadU16BE (drop 2 hdr);
               h1 = set_length (of_nat (fp_offset + XSTUN_ATTR_HEADER_SIZE + 4)) hdr;
               crc = fst (xCrc32 t (take (XSTUN_HEADER_SIZE + fp_offset) (h1 @ w_buf w))) XOR XSTUN_FINGERPRINT_XOR;
               h2 = set_length orig_len h1
           in (case attr_write_raw w 0x8028 (Some (xWriteU32BE crc)) 4 of (e, w1) \<Rightarrow> (e, w1, Some h2))))"

definition xStunAttrWritePriority :: "xStunAttrWriter \<Rightarrow> 32 word \<Rightarrow> xErrno \<times> xStunAttrWriter" where
  "xStunAttrWritePriority w priority = attr_write_raw w 0x0024 (Some (xWriteU32BE priority)) 4"

definition xStunAttrWriteUseCandidate :: "xStunAttrWriter \<Rightarrow> xErrno \<times> xStunAttrWriter" where
  "xStunAttrWriteUseCandidate w = attr_write_raw w 0x0025 None 0"

definition xStunAttrWriteIceControlling :: "xStunAttrWriter \<Rightarrow> 64 word \<Rightarrow> xErrno \<times> xStunAttrWriter" where
  "xStunAttrWriteIceControlling w tie = attr_write_raw w 0x802A (Some (xWriteU64BE tie)) 8"

definition xStunAttrWriteIceControlled :: "xStunAttrWriter \<Rightarrow> 64 word \<Rightarrow> xErrno \<times> xStunAttrWriter" where
  "xStunAttrWriteIceControlled w tie = attr_write_raw w 0x8029 (Some (xWriteU64BE tie)) 8"

definition xStunAttrWriteLifetime :: "xStunAttrWriter \<Rightarrow> 32 word \<Rightarrow> xErrno \<times> xStunAttrWriter" where
  "xStunAttrWriteLifetime w lifetime = attr_write_raw w 0x000D (Some (xWriteU32BE lifetime)) 4"

definition xStunAttrWriteRequestedTransport :: "xStunAttrWriter \<Rightarrow> 32 word \<Rightarrow> xErrno \<times> xStunAttrWriter" where
  "xStunAttrWriteRequestedTransport w transport = attr_write_raw w 0x0019 (Some (xWriteU32BE transport)) 4"

definition xStunAttrWriteChannelNumber :: "xStunAttrWriter \<Rightarrow> 16 word \<Rightarrow> xErrno \<times> xStunAttrWriter" where
  "xStunAttrWriteChannelNumber w channel =
     attr_write_raw w 0x000C (Some (xWriteU16BE channel @ xWriteU16BE 0)) 4"

definition xStunAttrWriteData :: "xStunAttrWriter \<Rightarrow> octets \<Rightarrow> xErrno \<times> xStunAttrWriter" where
  "xStunAttrWriteData w data = attr_write_raw w 0x0013 (Some data) (of_nat (length data))"

text \<open>
  The size check of the error code is on the 16-bit length: the value is written to an array of 256
  bytes, and None is a write behind its end.
\<close>

definition xStunAttrWriteErrorCode ::
  "xStunAttrWriter \<Rightarrow> int \<Rightarrow> octets option \<Rightarrow> (xErrno \<times> xStunAttrWriter) option" where
  "xStunAttrWriteErrorCode w code reason =
     (if code < 300 \<or> 699 < code then Some (xErrno_InvalidArg, w)
      else
        let r = (case reason of Some s \<Rightarrow> s | None \<Rightarrow> []);
            value_len = of_nat (4 + length r) :: 16 word
        in if 256 < unat value_len then Some (xErrno_NoMemory, w)
           else if 256 < 4 + length r then None
           else Some (attr_write_raw w 0x0009
                  (Some ([0, 0, word_of_int (code div 100), word_of_int (code mod 100)] @ r)) value_len))"

text \<open>The caller's last step: the length of all attributes goes into the header.\<close>

definition finish_message :: "octets \<Rightarrow> xStunAttrWriter \<Rightarrow> octets" where
  "finish_message hdr w = set_length (of_nat (w_pos w)) hdr @ take (w_pos w) (w_buf w)"

section \<open>Reading attributes\<close>

record xStunAttrIter =
  it_data :: octets
  it_len :: nat
  it_pos :: nat

record xStunAttr =
  at_type :: "16 word"
  at_length :: "16 word"
  at_value :: octets

definition xStunAttrIterInit :: "xStunMsg \<Rightarrow> xStunAttrIter" where
  "xStunAttrIterInit msg = \<lparr>it_data = (case st_attrs msg of Some d \<Rightarrow> d | None \<Rightarrow> []),
     it_len = unat (st_attrs_len msg), it_pos = 0\<rparr>"

text \<open>None is the result false; callers do not look at the attribute then.\<close>

definition xStunAttrIterNext :: "xStunAttrIter \<Rightarrow> (xStunAttr \<times> xStunAttrIter) option" where
  "xStunAttrIterNext it =
     (if it_len it < it_pos it + XSTUN_ATTR_HEADER_SIZE then None
      else
        let p = drop (it_pos it) (it_data it);
            len = xReadU16BE (drop 2 p)
        in if it_len it < it_pos it + XSTUN_ATTR_HEADER_SIZE + unat len then None
           else Some (\<lparr>at_type = xReadU16BE p, at_length = len, at_value = drop XSTUN_ATTR_HEADER_SIZE p\<rparr>,
                      it\<lparr>it_pos := it_pos it + (XSTUN_ATTR_HEADER_SIZE + XSTUN_ALIGN4 (unat len))\<rparr>))"

text \<open>The loop of the callers over all attributes of a message.\<close>

function iterate_attrs :: "xStunAttrIter \<Rightarrow> xStunAttr list" where
  "iterate_attrs it =
     (case xStunAttrIterNext it of None \<Rightarrow> [] | Some (a, it1) \<Rightarrow> a # iterate_attrs it1)"
  by pat_completeness auto
termination
  by (relation "measure (\<lambda>it. it_len it + 4 - it_pos it)")
    (auto simp: xStunAttrIterNext_def Let_def split: if_splits)

declare iterate_attrs.simps [simp del]

text \<open>The transaction id may be null when decoding.\<close>

definition decode_address ::
  "xStunAttr option \<Rightarrow> bool \<Rightarrow> octets option \<Rightarrow> xErrno \<times> sockaddr" where
  "decode_address attr_ptr xor_decode txn_id =
     (case attr_ptr of
        None \<Rightarrow> (xErrno_InvalidArg, sockaddr_other)
      | Some attr \<Rightarrow>
          (let v = at_value attr; n = unat (at_length attr) in
           if n < 4 then (xErrno_InvalidArg, sockaddr_other)
           else if v ! 1 = 0x01 then
             (if n < 8 then (xErrno_InvalidArg, sockaddr_other)
              else let port = xReadU16BE (drop 2 v); ip = xReadU32BE (drop 4 v)
                   in (xErrno_Ok,
                       if xor_decode then sockaddr_in (port XOR port_mask) (ip XOR XSTUN_MAGIC_COOKIE)
                       else sockaddr_in port ip))
           else if v ! 1 = 0x02 then
             (if n < 20 then (xErrno_InvalidArg, sockaddr_other)
              else let port = xReadU16BE (drop 2 v);
                       port1 = (if xor_decode then port XOR port_mask else port);
                       ip = take 16 (drop 4 v)
                   in (xErrno_Ok,
                       sockaddr_in6 port1
                         (case (xor_decode, txn_id) of
                            (True, Some txn) \<Rightarrow> map2 (XOR) ip (xor_key txn) | _ \<Rightarrow> ip)))
           else (xErrno_InvalidArg, sockaddr_other)))"

definition xStunAttrDecodeXorMappedAddress :: "xStunAttr option \<Rightarrow> octets option \<Rightarrow> xErrno \<times> sockaddr" where
  "xStunAttrDecodeXorMappedAddress attr txn_id = decode_address attr True txn_id"

definition xStunAttrDecodeMappedAddress :: "xStunAttr option \<Rightarrow> xErrno \<times> sockaddr" where
  "xStunAttrDecodeMappedAddress attr = decode_address attr False None"

text \<open>The code and the reason with its length; None when the call is refused.\<close>

definition xStunAttrDecodeErrorCode :: "xStunAttr option \<Rightarrow> (int \<times> octets option) option" where
  "xStunAttrDecodeErrorCode attr_ptr =
     (case attr_ptr of
        None \<Rightarrow> None
      | Some attr \<Rightarrow>
          (let n = unat (at_length attr); v = at_value attr in
           if n < 4 then None
           else Some (int (unat ((v ! 2) AND 0x07)) * 100 + int (unat (v ! 3)),
                      if 4 < n then Some (take (n - 4) (drop 4 v)) else None)))"

text \<open>
  The message with the length field that covers it up to the attribute: what both checks hash.
  \<open>m\<close> is the outcome of the allocation of the copy.
\<close>

definition adjusted_copy :: "octets \<Rightarrow> nat \<Rightarrow> nat \<Rightarrow> octets" where
  "adjusted_copy msg_buf offset value_len =
     set_length (of_nat (offset - XSTUN_HEADER_SIZE + XSTUN_ATTR_HEADER_SIZE + value_len))
         (take XSTUN_HEADER_SIZE msg_buf)
       @ take (offset - XSTUN_HEADER_SIZE) (drop XSTUN_HEADER_SIZE msg_buf)"

definition attr_offset :: "octets \<Rightarrow> xStunAttr \<Rightarrow> nat" where
  "attr_offset msg_buf attr = length msg_buf - length (at_value attr) - XSTUN_ATTR_HEADER_SIZE"

definition xStunAttrVerifyMessageIntegrity ::
  "bool \<Rightarrow> octets option \<Rightarrow> xStunAttr option \<Rightarrow> octets option \<Rightarrow> xErrno" where
  "xStunAttrVerifyMessageIntegrity m msg_ptr attr_ptr key_ptr =
     (case (msg_ptr, attr_ptr, key_ptr) of
        (Some msg_buf, Some attr, Some key) \<Rightarrow>
          if unat (at_length attr) \<noteq> XSTUN_SHA1_DIGEST_SIZE then xErrno_InvalidArg
          else if \<not> m then xErrno_NoMemory
          else if sha1_mac key (adjusted_copy msg_buf (attr_offset msg_buf attr) XSTUN_SHA1_DIGEST_SIZE)
                  \<noteq> take XSTUN_SHA1_DIGEST_SIZE (at_value attr) then xErrno_InvalidArg
          else xErrno_Ok
      | _ \<Rightarrow> xErrno_InvalidArg)"

definition xStunAttrVerifyFingerprint :: "crc_table \<Rightarrow> bool \<Rightarrow> octets option \<Rightarrow> xStunAttr option \<Rightarrow> xErrno" where
  "xStunAttrVerifyFingerprint t m msg_ptr attr_ptr =
     (case (msg_ptr, attr_ptr) of
        (Some msg_buf, Some attr) \<Rightarrow>
          if unat (at_length attr) \<noteq> 4 then xErrno_InvalidArg
          else if \<not> m then xErrno_NoMemory
          else if fst (xCrc32 t (adjusted_copy msg_buf (attr_offset msg_buf attr) 4)) XOR XSTUN_FINGERPRINT_XOR
                  \<noteq> xReadU32BE (at_value attr) then xErrno_InvalidArg
          else xErrno_Ok
      | _ \<Rightarrow> xErrno_InvalidArg)"

section \<open>Byte order\<close>

lemma read16_write: "xReadU16BE (xWriteU16BE v @ r) = v"
proof (rule bit_word_eqI)
  fix i :: nat assume i: "i < LENGTH(16)"
  show "bit (xReadU16BE (xWriteU16BE v @ r)) i = bit v i"
    using i by (cases "i < 8")
      (auto simp: xReadU16BE_def xWriteU16BE_def bit_or_iff bit_push_bit_iff bit_drop_bit_eq bit_ucast_iff
        dest: bit_imp_le_length)
qed

lemma read32_write: "xReadU32BE (xWriteU32BE v @ r) = v"
proof (rule bit_word_eqI)
  fix i :: nat assume i: "i < LENGTH(32)"
  consider "i < 8" | "8 \<le> i" "i < 16" | "16 \<le> i" "i < 24" | "24 \<le> i" by linarith
  then show "bit (xReadU32BE (xWriteU32BE v @ r)) i = bit v i"
    using i by cases
      (auto simp: xReadU32BE_def xWriteU32BE_def bit_or_iff bit_push_bit_iff bit_drop_bit_eq bit_ucast_iff
        dest: bit_imp_le_length)
qed

lemma length_writes [simp]:
  "length (xWriteU16BE v) = 2" "length (xWriteU32BE d) = 4" "length (xWriteU64BE q) = 8"
  by (simp_all add: xWriteU16BE_def xWriteU32BE_def xWriteU64BE_def)

lemma align4: "n \<le> XSTUN_ALIGN4 n" "XSTUN_ALIGN4 n < n + 4" "XSTUN_ALIGN4 n mod 4 = 0"
  unfolding XSTUN_ALIGN4_def by simp_all


section \<open>The attribute area\<close>

text \<open>The bytes of an attribute, with its padding, and what the reader makes of them.\<close>

definition attr_bytes :: "16 word \<times> octets \<Rightarrow> octets" where
  "attr_bytes = (\<lambda>(t, v). xWriteU16BE t @ xWriteU16BE (of_nat (length v)) @ v
     @ replicate (XSTUN_ALIGN4 (length v) - length v) 0)"

definition attr_view :: "xStunAttr \<Rightarrow> 16 word \<times> octets" where
  "attr_view a = (at_type a, take (unat (at_length a)) (at_value a))"

fun write_attrs :: "xStunAttrWriter \<Rightarrow> (16 word \<times> octets) list \<Rightarrow> xErrno \<times> xStunAttrWriter" where
  "write_attrs w [] = (xErrno_Ok, w)"
| "write_attrs w ((t, v) # avs) =
     (case attr_write_raw w t (Some v) (of_nat (length v)) of
        (e, w1) \<Rightarrow> if e \<noteq> xErrno_Ok then (e, w1) else write_attrs w1 avs)"

text \<open>The area of a writer is as long as its capacity, and lengths fit the 16 bits of a header.\<close>

definition writer_ok :: "xStunAttrWriter \<Rightarrow> bool" where
  "writer_ok w \<longleftrightarrow> w_cap w \<le> length (w_buf w) \<and> w_pos w \<le> w_cap w \<and> w_cap w < 65536"

definition written :: "xStunAttrWriter \<Rightarrow> octets" where
  "written w = take (w_pos w) (w_buf w)"

lemma length_attr_bytes: "length (attr_bytes (t, v)) = 4 + XSTUN_ALIGN4 (length v)"
  using align4(1) [of "length v"] by (simp add: attr_bytes_def)

lemma store_at_append: "length a = i \<Longrightarrow> store_at (i + j) xs (a @ b) = a @ store_at j xs b"
  by (simp add: store_at_def)

lemma store_at_here: "store_at 0 xs b = xs @ drop (length xs) b"
  by (simp add: store_at_def)

lemma write_raw_ok:
  assumes ok: "writer_ok w" and run: "attr_write_raw w t vp n = (xErrno_Ok, w1)"
    and v: "vp = Some v \<and> n = of_nat (length v) \<and> length v < 65536 \<or> vp = None \<and> n = 0 \<and> v = []"
  shows "writer_ok w1" "written w1 = written w @ attr_bytes (t, v)"
    "w_cap w1 = w_cap w" "length (w_buf w1) = length (w_buf w)"
proof -
  have n: "unat n = length v" using v by (auto simp: unat_of_nat)
  let ?k = "XSTUN_ALIGN4 (length v)" and ?p = "w_pos w"
  have fits: "?p + (4 + ?k) \<le> w_cap w"
    using run by (auto simp: attr_write_raw_def n Let_def split: if_splits)
  define a where "a = take ?p (w_buf w)"
  define r where "r = drop ?p (w_buf w)"
  have a: "w_buf w = a @ r" "length a = ?p" "4 + ?k \<le> length r"
    using ok fits by (auto simp: a_def r_def writer_ok_def)
  have m: "n = of_nat (length v)" using v by auto
  have u: "unat (of_nat (length v) :: 16 word) = length v" using n unfolding m .
  have b3: "(case vp of Some u \<Rightarrow> if 0 < length v then store_at (?p + 4) (take (length v) u) b else b | None \<Rightarrow> b)
      = store_at (?p + 4) v b" for b :: octets
    using v by (auto simp: store_at_def)
  have pad: "length v \<le> ?k" by (rule align4)
  have w1: "w1 = w\<lparr>w_buf := a @ attr_bytes (t, v) @ drop (4 + ?k) r, w_pos := ?p + (4 + ?k)\<rparr>"
  proof -
    let ?n = "of_nat (length v) :: 16 word"
    have "store_at ?p (xWriteU16BE t) (a @ r) = a @ xWriteU16BE t @ drop 2 r"
      using store_at_append [of a ?p 0] a(2) by (simp add: store_at_here)
    moreover have "store_at (?p + 2) (xWriteU16BE ?n) (a @ xWriteU16BE t @ drop 2 r)
        = a @ xWriteU16BE t @ xWriteU16BE ?n @ drop 4 r"
      using store_at_append [of "a @ xWriteU16BE t" "?p + 2" 0] a(2) by (simp add: store_at_here)
    moreover have "store_at (?p + 4) v (a @ xWriteU16BE t @ xWriteU16BE ?n @ drop 4 r)
        = a @ xWriteU16BE t @ xWriteU16BE ?n @ v @ drop (4 + length v) r"
      using store_at_append [of "a @ xWriteU16BE t @ xWriteU16BE ?n" "?p + 4" 0] a(2)
      by (simp add: store_at_here add.commute)
    moreover have "store_at (?p + 4 + length v) (replicate (?k - length v) 0)
          (a @ xWriteU16BE t @ xWriteU16BE ?n @ v @ drop (4 + length v) r)
        = a @ xWriteU16BE t @ xWriteU16BE ?n @ v @ replicate (?k - length v) 0 @ drop (4 + ?k) r"
      using store_at_append [of "a @ xWriteU16BE t @ xWriteU16BE ?n @ v" "?p + 4 + length v" 0] a(2) pad
      by (simp add: store_at_here ac_simps)
    moreover have "\<not> length v < ?k \<Longrightarrow> ?k = length v" using pad by simp
    ultimately show ?thesis
      using run fits a(1) unfolding attr_write_raw_def m u Let_def stun_sizes b3
      by (auto simp: attr_bytes_def)
  qed
  have "length (attr_bytes (t, v)) = 4 + ?k" by (rule length_attr_bytes)
  then show "writer_ok w1" "written w1 = written w @ attr_bytes (t, v)"
    "w_cap w1 = w_cap w" "length (w_buf w1) = length (w_buf w)"
    using ok fits a by (simp_all add: w1 writer_ok_def written_def)
qed

lemma write_attrs_ok:
  "writer_ok w \<Longrightarrow> \<forall>(t, v)\<in>set avs. length v < 65536 \<Longrightarrow> write_attrs w avs = (xErrno_Ok, w1)
   \<Longrightarrow> writer_ok w1 \<and> written w1 = written w @ concat (map attr_bytes avs)
       \<and> w_cap w1 = w_cap w \<and> length (w_buf w1) = length (w_buf w)"
proof (induction w avs rule: write_attrs.induct)
  case (2 w t v avs)
  obtain e w2 where r: "attr_write_raw w t (Some v) (of_nat (length v)) = (e, w2)" by fastforce
  with 2(4) have e: "e = xErrno_Ok" "write_attrs w2 avs = (xErrno_Ok, w1)" by (auto split: if_splits)
  note raw = write_raw_ok [OF 2(2) r [unfolded e(1)], of v]
  have "length v < 65536" using 2(3) by simp
  then show ?case using "2.IH" [OF r [symmetric]] e raw 2(3) by simp
qed simp

text \<open>Reading an area written this way.\<close>

lemma next_attr:
  assumes "length v < 65536" "it_pos it = length a" "it_data it = a @ attr_bytes (t, v) @ r"
    "length a + length (attr_bytes (t, v)) \<le> it_len it"
  shows "xStunAttrIterNext it = Some (\<lparr>at_type = t, at_length = of_nat (length v),
      at_value = v @ replicate (XSTUN_ALIGN4 (length v) - length v) 0 @ r\<rparr>,
      it\<lparr>it_pos := length (a @ attr_bytes (t, v))\<rparr>)"
proof -
  have u: "unat (of_nat (length v) :: 16 word) = length v" using assms(1) by (simp add: unat_of_nat)
  have l: "xReadU16BE (drop 2 (drop (it_pos it) (it_data it))) = of_nat (length v)"
    using assms(2,3) by (simp add: attr_bytes_def read16_write)
  show ?thesis
    using assms align4(1) [of "length v"] unfolding xStunAttrIterNext_def l Let_def
    by (simp add: u length_attr_bytes) (simp add: attr_bytes_def read16_write)
qed

lemma iterate_bytes:
  "\<forall>(t, v)\<in>set avs. length v < 65536 \<Longrightarrow> it_pos it = length a
   \<Longrightarrow> it_data it = a @ concat (map attr_bytes avs) @ r
   \<Longrightarrow> it_len it = length (a @ concat (map attr_bytes avs))
   \<Longrightarrow> map attr_view (iterate_attrs it) = avs
     \<and> map at_length (iterate_attrs it) = map (\<lambda>(t, v). of_nat (length v)) avs
     \<and> (\<forall>i<length avs. at_value (iterate_attrs it ! i)
          = drop (length (concat (map attr_bytes (take i avs))) + 4) (concat (map attr_bytes avs) @ r))"
proof (induction avs arbitrary: it a)
  case Nil
  then have "xStunAttrIterNext it = None" by (simp add: xStunAttrIterNext_def)
  then show ?case by (simp add: iterate_attrs.simps [of it])
next
  case (Cons av avs)
  obtain t v where av: "av = (t, v)" by (cases av)
  have v: "length v < 65536" using Cons.prems(1) av by simp
  let ?it1 = "it\<lparr>it_pos := length (a @ attr_bytes (t, v))\<rparr>"
  let ?x = "\<lparr>at_type = t, at_length = of_nat (length v),
      at_value = v @ replicate (XSTUN_ALIGN4 (length v) - length v) 0 @ concat (map attr_bytes avs) @ r\<rparr> :: xStunAttr"
  have nx: "xStunAttrIterNext it = Some (?x, ?it1)"
    using next_attr [OF v, of it a t "concat (map attr_bytes avs) @ r"] Cons.prems av by simp
  have ih: "map attr_view (iterate_attrs ?it1) = avs
     \<and> map at_length (iterate_attrs ?it1) = map (\<lambda>(t, v). of_nat (length v)) avs
     \<and> (\<forall>i<length avs. at_value (iterate_attrs ?it1 ! i)
          = drop (length (concat (map attr_bytes (take i avs))) + 4) (concat (map attr_bytes avs) @ r))"
    using Cons.prems av by (intro Cons.IH [of _ "a @ attr_bytes (t, v)"]) simp_all
  have u: "unat (of_nat (length v) :: 16 word) = length v" using v by (simp add: unat_of_nat)
  have it: "iterate_attrs it = ?x # iterate_attrs ?it1" by (simp add: iterate_attrs.simps [of it] nx)
  have views: "map attr_view (iterate_attrs it) = av # avs"
    "map at_length (iterate_attrs it) = map (\<lambda>(t, v). of_nat (length v)) (av # avs)"
    using ih by (simp_all add: it attr_view_def av u)
  have vals: "at_value (iterate_attrs it ! i)
      = drop (length (concat (map attr_bytes (take i (av # avs)))) + 4) (concat (map attr_bytes (av # avs)) @ r)"
    if i: "i < length (av # avs)" for i
  proof (cases i)
    case 0
    then show ?thesis by (simp add: it av attr_bytes_def)
  next
    case (Suc j)
    then show ?thesis using ih i by (simp add: it av add.assoc)
  qed
  from views vals show ?case by blast
qed


lemma iterate_written:
  assumes "writer_ok w" "\<forall>(t, v)\<in>set avs. length v < 65536" "written w = concat (map attr_bytes avs)"
    and "st_attrs_len m = of_nat (w_pos w)" "0 < w_pos w \<Longrightarrow> st_attrs m = Some (written w @ r)"
  shows "map attr_view (iterate_attrs (xStunAttrIterInit m)) = avs"
    "map at_length (iterate_attrs (xStunAttrIterInit m)) = map (\<lambda>(t, v). of_nat (length v)) avs"
    "i < length avs \<Longrightarrow> at_value (iterate_attrs (xStunAttrIterInit m) ! i)
       = drop (length (concat (map attr_bytes (take i avs))) + 4) (written w @ r)"
proof -
  have l: "length (written w) = w_pos w" using assms(1) by (simp add: writer_ok_def written_def)
  have u: "unat (of_nat (w_pos w) :: 16 word) = w_pos w"
    using assms(1) by (simp add: writer_ok_def unat_of_nat)
  let ?it = "xStunAttrIterInit m"
  show "map attr_view (iterate_attrs ?it) = avs"
    "map at_length (iterate_attrs ?it) = map (\<lambda>(t, v). of_nat (length v)) avs"
    "i < length avs \<Longrightarrow> at_value (iterate_attrs ?it ! i)
       = drop (length (concat (map attr_bytes (take i avs))) + 4) (written w @ r)"
  proof (atomize (full), cases "w_pos w = 0")
    case True
    then have "avs = []"
      using l assms(3) length_attr_bytes by (cases avs) (force split: prod.splits)+
    moreover have "iterate_attrs ?it = []"
      using True assms(4) by (subst iterate_attrs.simps) (simp add: xStunAttrIterInit_def xStunAttrIterNext_def)
    ultimately show "map attr_view (iterate_attrs ?it) = avs
      \<and> map at_length (iterate_attrs ?it) = map (\<lambda>(t, v). of_nat (length v)) avs \<and> (i < length avs \<longrightarrow> at_value (iterate_attrs ?it ! i)
       = drop (length (concat (map attr_bytes (take i avs))) + 4) (written w @ r))" by simp
  next
    case False
    then have "?it = \<lparr>it_data = concat (map attr_bytes avs) @ r, it_len = length (concat (map attr_bytes avs)), it_pos = 0\<rparr>"
      using assms(3-5) l u by (simp add: xStunAttrIterInit_def)
    then show "map attr_view (iterate_attrs ?it) = avs
      \<and> map at_length (iterate_attrs ?it) = map (\<lambda>(t, v). of_nat (length v)) avs \<and> (i < length avs \<longrightarrow> at_value (iterate_attrs ?it ! i)
       = drop (length (concat (map attr_bytes (take i avs))) + 4) (written w @ r))"
      using iterate_bytes [OF assms(2), of ?it "[]" r] assms(3) by simp
  qed
qed

section \<open>The header\<close>

definition hdr_bytes :: "16 word \<Rightarrow> 16 word \<Rightarrow> octets \<Rightarrow> octets" where
  "hdr_bytes t len tid = xWriteU16BE t @ xWriteU16BE len @ xWriteU32BE XSTUN_MAGIC_COOKIE @ tid"

lemma length_hdr: "length tid = 12 \<Longrightarrow> length (hdr_bytes t len tid) = 20"
  by (simp add: hdr_bytes_def)

lemma stun_encode_bytes:
  assumes "length tid = 12" "buf_len \<le> length buf" "unat n \<le> length a"
    and run: "xStunMsgEncode (Some \<lparr>st_type = t, st_length = l, st_txn_id = tid, st_attrs = Some a, st_attrs_len = n\<rparr>)
        (Some buf) buf_len = (rc, out)" and "0 \<le> rc"
  shows "out = Some (hdr_bytes t n tid @ take (unat n) a @ drop (20 + unat n) buf)" "nat rc = 20 + unat n"
proof -
  have room: "20 + unat n \<le> length buf" "20 + unat n \<le> buf_len"
    using assms by (auto simp: xStunMsgEncode_def Let_def split: if_splits)
  have "store_at 8 tid (store_at 4 (xWriteU32BE XSTUN_MAGIC_COOKIE)
      (store_at 2 (xWriteU16BE n) (store_at 0 (xWriteU16BE t) buf))) = hdr_bytes t n tid @ drop 20 buf"
    using assms(1) room store_at_append [of "xWriteU16BE t" 2 0]
      store_at_append [of "xWriteU16BE t @ xWriteU16BE n" 4 0]
      store_at_append [of "xWriteU16BE t @ xWriteU16BE n @ xWriteU32BE XSTUN_MAGIC_COOKIE" 8 0]
    by (simp add: store_at_here hdr_bytes_def)
  moreover have "store_at 20 x (hdr_bytes t n tid @ drop 20 buf) = hdr_bytes t n tid @ x @ drop (20 + length x) buf" for x
    using store_at_append [of "hdr_bytes t n tid" 20 0] length_hdr [OF assms(1)] by (simp add: store_at_here add.commute)
  ultimately show "out = Some (hdr_bytes t n tid @ take (unat n) a @ drop (20 + unat n) buf)" "nat rc = 20 + unat n"
    using run assms(3) room by (auto simp: xStunMsgEncode_def Let_def min_def nat_add_distrib)
qed

text \<open>What the decoder accepts begins with a header, and a header whose type has two zero bits is accepted.\<close>

lemma top_bits: "ucast (drop_bit 8 t) AND (0xC0 :: 8 word) = 0 \<longleftrightarrow> t AND 0xC000 = 0" for t :: "16 word"
proof -
  let ?x = "ucast (drop_bit 8 t) AND (0xC0 :: 8 word)" and ?y = "t AND 0xC000"
  have hi: "bit ?x j = bit ?y (j + 8)" if "j < 8" for j
  proof -
    have "j \<in> {0, 1, 2, 3, 4, 5, 6, 7}" using that by auto
    then show ?thesis by (auto simp: bit_and_iff bit_ucast_iff bit_drop_bit_eq bit_numeral_simps)
  qed
  have lo: "\<not> bit ?y i" if "i < 8" for i
  proof -
    have "i \<in> {0, 1, 2, 3, 4, 5, 6, 7}" using that by auto
    then show ?thesis by (auto simp: bit_and_iff bit_numeral_simps)
  qed
  show ?thesis
  proof
    assume x: "?x = 0"
    show "?y = 0"
    proof (rule bit_word_eqI)
      fix i :: nat assume i: "i < LENGTH(16)"
      show "bit ?y i = bit (0 :: 16 word) i"
        using lo [of i] hi [of "i - 8"] i unfolding x by (cases "i < 8") simp_all
    qed
  next
    assume y: "?y = 0"
    show "?x = 0"
    proof (rule bit_word_eqI)
      fix i :: nat assume "i < LENGTH(8)"
      then show "bit ?x i = bit (0 :: 8 word) i" using hi [of i] unfolding y by simp
    qed
  qed
qed

lemma decode_hdr:
  assumes "length tid = 12" "unat n \<le> length b" "t AND 0xC000 = 0"
  shows "xStunMsgDecode (Some m0) (Some (hdr_bytes t n tid @ b)) (20 + unat n)
    = (xErrno_Ok, Some (m0\<lparr>st_type := t, st_length := n, st_txn_id := tid, st_attrs_len := n,
         st_attrs := (if 0 < unat n then Some b else None)\<rparr>))"
    "xStunMsgIsStun (Some (hdr_bytes t n tid @ b)) (20 + unat n)"
proof -
  let ?h = "hdr_bytes t n tid @ b"
  have "?h ! 0 = ucast (drop_bit 8 t)" by (simp add: hdr_bytes_def xWriteU16BE_def)
  then have z: "?h ! 0 AND 0xC0 = 0" using assms(3) by (simp add: top_bits)
  have r: "xReadU32BE (drop 4 ?h) = XSTUN_MAGIC_COOKIE" "xReadU16BE ?h = t" "xReadU16BE (drop 2 ?h) = n"
    by (simp_all add: hdr_bytes_def read16_write read32_write)
  have d: "drop 8 ?h = tid @ b" "drop 20 ?h = b"
    using assms(1) by (simp_all add: hdr_bytes_def)
  show "xStunMsgDecode (Some m0) (Some ?h) (20 + unat n)
    = (xErrno_Ok, Some (m0\<lparr>st_type := t, st_length := n, st_txn_id := tid, st_attrs_len := n,
         st_attrs := (if 0 < unat n then Some b else None)\<rparr>))"
    unfolding xStunMsgDecode_def by (simp add: z r d assms(1) del: drop_append)
  show "xStunMsgIsStun (Some ?h) (20 + unat n)"
    unfolding xStunMsgIsStun_def by (simp add: z r del: drop_append)
qed


section \<open>Integrity and fingerprint\<close>

lemma sha1_mac_rfc2104: "sha1_mac key data = HMAC SHA1 64 key data"
  using hmac_sha1.one_shot_rfc2104 [of z0 "hmac_zero z0" key data]
  by (simp add: sha1_mac_def xHmacSha1_def block_sizes)

lemma length_mac: "length (HMAC SHA1 64 key data) = 20"
  by (simp add: HMAC_def length_digests Let_def)

lemma crc_value: "crc_table_ok t \<Longrightarrow> fst (xCrc32 t data) = crc_register data"
  by (auto simp: crc_table_ok_def xCrc32_def crc32_init_table_def crc_loop crc_register_def Let_def)

lemma set_length_twice: "4 \<le> length h \<Longrightarrow> set_length l2 (set_length l1 h) = set_length l2 h"
  by (simp add: set_length_def store_at_def)

lemma write_read16: "2 \<le> length p \<Longrightarrow> xWriteU16BE (xReadU16BE p) = take 2 p"
proof -
  assume l: "2 \<le> length p"
  then obtain a b r where p: "p = a # b # r" by (metis Suc_le_length_iff numeral_2_eq_2)
  have "ucast (drop_bit 8 (push_bit 8 (ucast a) OR ucast b :: 16 word)) = a"
  proof (rule bit_word_eqI)
    fix i :: nat assume "i < LENGTH(8)"
    then show "bit (ucast (drop_bit 8 (push_bit 8 (ucast a) OR ucast b :: 16 word)) :: 8 word) i = bit a i"
      by (auto simp: bit_or_iff bit_push_bit_iff bit_drop_bit_eq bit_ucast_iff dest: bit_imp_le_length)
  qed
  moreover have "ucast (push_bit 8 (ucast a) OR ucast b :: 16 word) = b"
  proof (rule bit_word_eqI)
    fix i :: nat assume "i < LENGTH(8)"
    then show "bit (ucast (push_bit 8 (ucast a) OR ucast b :: 16 word) :: 8 word) i = bit b i"
      by (auto simp: bit_or_iff bit_push_bit_iff bit_ucast_iff)
  qed
  ultimately show ?thesis by (simp add: p xWriteU16BE_def xReadU16BE_def)
qed

lemma set_length_restore: "4 \<le> length h \<Longrightarrow> set_length (xReadU16BE (drop 2 h)) h = h"
proof -
  assume l: "4 \<le> length h"
  have "take 2 (drop 2 h) @ drop 4 h = drop 2 h"
    using append_take_drop_id [of 2 "drop 2 h"] by simp
  then have "take 2 h @ take 2 (drop 2 h) @ drop 4 h = h" by simp
  then show ?thesis using l by (simp add: set_length_def store_at_def write_read16)
qed

lemma length_set_length: "4 \<le> length h \<Longrightarrow> length (set_length l h) = length h"
  by (simp add: set_length_def store_at_def)

text \<open>The bytes both checks cover: the header with its length up to the attribute, and what is in front of it.\<close>

definition covered :: "octets \<Rightarrow> nat \<Rightarrow> octets \<Rightarrow> octets" where
  "covered hdr value_len before = set_length (of_nat (length before + 4 + value_len)) hdr @ before"

definition fingerprint :: "octets \<Rightarrow> 32 word" where
  "fingerprint data = crc_register data XOR XSTUN_FINGERPRINT_XOR"

lemma length_written: "writer_ok w \<Longrightarrow> length (written w) = w_pos w"
  by (simp add: writer_ok_def written_def)

lemma write_mi_ok:
  assumes ok: "writer_ok w" and h: "length hdr = 20"
    and run: "xStunAttrWriteMessageIntegrity w (Some hdr) (Some key) = (xErrno_Ok, w1, h1)"
  shows "writer_ok w1" "h1 = Some hdr"
    "written w1 = written w @ attr_bytes (0x0008, HMAC SHA1 64 key (covered hdr 20 (written w)))"
proof -
  let ?mac = "HMAC SHA1 64 key (covered hdr 20 (written w))"
  have "covered hdr 20 (written w)
      = take (20 + w_pos w) (set_length (of_nat (w_pos w + 4 + 20)) hdr @ w_buf w)"
    using h length_written [OF ok] by (simp add: covered_def written_def length_set_length)
  then have raw: "attr_write_raw w 0x0008 (Some ?mac) 20 = (xErrno_Ok, w1)" and "h1 = Some hdr"
    using run h by (auto simp: xStunAttrWriteMessageIntegrity_def sha1_mac_rfc2104 Let_def
        set_length_twice set_length_restore split: prod.splits)
  then show "writer_ok w1" "h1 = Some hdr" "written w1 = written w @ attr_bytes (0x0008, ?mac)"
    using write_raw_ok [OF ok raw, of ?mac] by (simp_all add: length_mac)
qed

lemma write_fp_ok:
  assumes ok: "writer_ok w" and h: "length hdr = 20" and t: "crc_table_ok t"
    and run: "xStunAttrWriteFingerprint t w (Some hdr) = (xErrno_Ok, w1, h1)"
  shows "writer_ok w1" "h1 = Some hdr"
    "written w1 = written w @ attr_bytes (0x8028, xWriteU32BE (fingerprint (covered hdr 4 (written w))))"
proof -
  let ?v = "xWriteU32BE (fingerprint (covered hdr 4 (written w)))"
  have "covered hdr 4 (written w)
      = take (20 + w_pos w) (set_length (of_nat (w_pos w + 4 + 4)) hdr @ w_buf w)"
    using h length_written [OF ok] by (simp add: covered_def written_def length_set_length)
  then have raw: "attr_write_raw w 0x8028 (Some ?v) 4 = (xErrno_Ok, w1)" and "h1 = Some hdr"
    using run h by (auto simp: xStunAttrWriteFingerprint_def crc_value [OF t] fingerprint_def Let_def
        set_length_twice set_length_restore split: prod.splits)
  then show "writer_ok w1" "h1 = Some hdr" "written w1 = written w @ attr_bytes (0x8028, ?v)"
    using write_raw_ok [OF ok raw, of ?v] by simp_all
qed

text \<open>What the checks compare, for an attribute with \<open>before\<close> in front of it and any bytes behind it.\<close>

lemma adjusted_covered:
  assumes "length hdr = 20" "msg = set_length l hdr @ before @ val4 @ value @ r" "length val4 = 4"
    "at_value a = value @ r"
  shows "adjusted_copy msg (attr_offset msg a) n = covered hdr n before"
proof -
  have "attr_offset msg a = 20 + length before"
    using assms by (simp add: attr_offset_def length_set_length)
  then show ?thesis
    using assms by (simp add: adjusted_copy_def covered_def length_set_length set_length_twice)
qed

lemma verify_mi:
  assumes "length hdr = 20" "msg = set_length l hdr @ before @ val4 @ mac @ r" "length val4 = 4"
    "at_value a = mac @ r" "at_length a = 20" "length mac = 20"
  shows "xStunAttrVerifyMessageIntegrity True (Some msg) (Some a) (Some key) = xErrno_Ok
    \<longleftrightarrow> mac = HMAC SHA1 64 key (covered hdr 20 before)"
  using adjusted_covered [OF assms(1-4), of 20] assms(4-6)
  by (auto simp: xStunAttrVerifyMessageIntegrity_def sha1_mac_rfc2104)

lemma verify_fp:
  assumes "length hdr = 20" "msg = set_length l hdr @ before @ val4 @ xWriteU32BE v @ r" "length val4 = 4"
    "at_value a = xWriteU32BE v @ r" "at_length a = 4" "crc_table_ok t"
  shows "xStunAttrVerifyFingerprint t True (Some msg) (Some a) = xErrno_Ok
    \<longleftrightarrow> v = fingerprint (covered hdr 4 before)"
  using adjusted_covered [OF assms(1-4), of 4] assms(4-6)
  by (auto simp: xStunAttrVerifyFingerprint_def crc_value fingerprint_def read32_write)


lemma finish_bytes:
  "writer_ok w \<Longrightarrow> length hdr = 20 \<Longrightarrow> finish_message hdr w = set_length (of_nat (w_pos w)) hdr @ written w"
  by (simp add: finish_message_def written_def)

lemma decode_finished:
  assumes "writer_ok w" "length hdr = 20" "0 < w_pos w"
    and "xStunMsgDecode (Some m0) (Some (finish_message hdr w)) n = (xErrno_Ok, Some m)"
  shows "st_attrs_len m = of_nat (w_pos w)" "st_attrs m = Some (written w)"
proof -
  let ?l = "of_nat (w_pos w) :: 16 word"
  have u: "unat ?l = w_pos w" using assms(1) by (simp add: writer_ok_def unat_of_nat)
  have "drop 2 (set_length ?l hdr @ written w) = xWriteU16BE ?l @ drop 4 hdr @ written w"
    using assms(2) by (simp add: set_length_def store_at_def)
  then have l: "xReadU16BE (drop 2 (set_length ?l hdr @ written w)) = ?l" by (simp add: read16_write)
  have d: "drop 20 (set_length ?l hdr @ written w) = written w" using assms(2) by (simp add: length_set_length)
  show "st_attrs_len m = ?l" "st_attrs m = Some (written w)"
    using assms(3,4) unfolding finish_bytes [OF assms(1,2)] xStunMsgDecode_def
    by (auto simp: l d u Let_def simp del: drop_append split: if_splits)
qed

lemma mi_total:
  "w_pos w + 24 \<le> w_cap w \<Longrightarrow> \<exists>b h. xStunAttrWriteMessageIntegrity w (Some hdr) (Some key)
     = (xErrno_Ok, w\<lparr>w_buf := b, w_pos := w_pos w + 24\<rparr>, h)"
  by (simp add: xStunAttrWriteMessageIntegrity_def attr_write_raw_def Let_def XSTUN_ALIGN4_def) blast

lemma fp_total:
  "w_pos w + 8 \<le> w_cap w \<Longrightarrow> \<exists>b h. xStunAttrWriteFingerprint t w (Some hdr)
     = (xErrno_Ok, w\<lparr>w_buf := b, w_pos := w_pos w + 8\<rparr>, h)"
  by (simp add: xStunAttrWriteFingerprint_def attr_write_raw_def Let_def XSTUN_ALIGN4_def) blast

lemma set_length_hdr: "set_length n (hdr_bytes t l tid) = hdr_bytes t n tid"
  using store_at_append [of "xWriteU16BE t" 2 0] by (simp add: set_length_def hdr_bytes_def store_at_here)

section \<open>Addresses\<close>

text \<open>An address attribute read back with the transaction id it was written with.\<close>

lemma map2_xor_twice: "length k = length x \<Longrightarrow> map2 (XOR) (map2 (XOR) x k) k = x" for x k :: octets
  by (induction x k rule: list_induct2') (simp_all add: xor.assoc)

lemma address_roundtrip:
  assumes ok: "writer_ok w" and txn: "length tid = 12" and six: "\<And>p b. addr = sockaddr_in6 p b \<Longrightarrow> length b = 16"
    and run: "encode_address w t addr xor_encode tid = (xErrno_Ok, w1)"
  shows "\<exists>v. written w1 = written w @ attr_bytes (t, v)
    \<and> (\<forall>a r. at_value a = v @ r \<and> at_length a = of_nat (length v)
         \<longrightarrow> decode_address (Some a) xor_encode (Some tid) = (xErrno_Ok, addr))"
proof (cases addr)
  case (sockaddr_in port ip)
  let ?v = "[0, 1] @ xWriteU16BE (if xor_encode then port XOR port_mask else port)
      @ xWriteU32BE (if xor_encode then ip XOR XSTUN_MAGIC_COOKIE else ip)"
  have raw: "attr_write_raw w t (Some ?v) 8 = (xErrno_Ok, w1)"
    using run by (simp add: encode_address_def sockaddr_in Let_def)
  have "decode_address (Some a) xor_encode (Some tid) = (xErrno_Ok, addr)"
    if "at_value a = ?v @ r" "at_length a = of_nat (length ?v)" for a r
    using that by (auto simp: decode_address_def sockaddr_in Let_def read16_write read32_write xor.assoc)
  then show ?thesis using write_raw_ok(2) [OF ok raw, of ?v] by (intro exI [of _ ?v]) auto
next
  case (sockaddr_in6 port ip)
  have l: "length ip = 16" using six sockaddr_in6 by simp
  let ?ip = "if xor_encode then map2 (XOR) ip (xor_key tid) else ip"
  let ?v = "[0, 2] @ xWriteU16BE (if xor_encode then port XOR port_mask else port) @ ?ip"
  have key: "length (xor_key tid) = 16" using txn by (simp add: xor_key_def)
  have lip: "length ?ip = 16" using l key by simp
  have raw: "attr_write_raw w t (Some ?v) 20 = (xErrno_Ok, w1)"
    using run by (simp add: encode_address_def sockaddr_in6 Let_def)
  have "decode_address (Some a) xor_encode (Some tid) = (xErrno_Ok, addr)"
    if "at_value a = ?v @ r" "at_length a = of_nat (length ?v)" for a r
  proof -
    have "take 16 (drop 4 (at_value a)) = ?ip" using that(1) lip by simp
    then show ?thesis
      using that key l by (auto simp: decode_address_def sockaddr_in6 Let_def read16_write xor.assoc map2_xor_twice)
  qed
  then show ?thesis using write_raw_ok(2) [OF ok raw, of ?v] lip by (intro exI [of _ ?v]) auto
next
  case sockaddr_other
  with run show ?thesis by (simp add: encode_address_def)
qed

section \<open>Properties\<close>

text \<open>
  C36. Round trip of a message: attributes written one after the other into an area, encoded with
  their message and decoded from the bytes, are the attributes that were written, in order, with
  their types and values whatever their lengths and padding; type and transaction id are the
  message's.
\<close>

theorem stun_roundtrip:
  assumes "writer_ok (xStunAttrWriterInit area c)" "\<forall>(t, v)\<in>set avs. length v < 65536"
    and "write_attrs (xStunAttrWriterInit area c) avs = (xErrno_Ok, w)"
    and "length tid = 12" "t AND 0xC000 = 0" "n \<le> length buf"
    and "xStunMsgEncode (Some \<lparr>st_type = t, st_length = l, st_txn_id = tid, st_attrs = Some (w_buf w),
           st_attrs_len = of_nat (w_pos w)\<rparr>) (Some buf) n = (rc, out)" "0 \<le> rc"
    and "xStunMsgDecode (Some m0) out (nat rc) = (e, m)"
  shows "xStunMsgIsStun out (nat rc) \<and> e = xErrno_Ok \<and> (case m of None \<Rightarrow> False
    | Some m \<Rightarrow> st_type m = t \<and> st_txn_id m = tid \<and> map attr_view (iterate_attrs (xStunAttrIterInit m)) = avs)"
proof -
  have w: "writer_ok w" "written w = concat (map attr_bytes avs)"
    using write_attrs_ok [OF assms(1-3)] by (simp_all add: written_def xStunAttrWriterInit_def)
  have u: "unat (of_nat (w_pos w) :: 16 word) = w_pos w" using w(1) by (simp add: writer_ok_def unat_of_nat)
  have le: "unat (of_nat (w_pos w) :: 16 word) \<le> length (w_buf w)" using w(1) u by (simp add: writer_ok_def)
  note enc = stun_encode_bytes [OF assms(4,6) le assms(7,8)]
  let ?b = "written w @ drop (20 + w_pos w) buf"
  have out: "out = Some (hdr_bytes t (of_nat (w_pos w)) tid @ ?b)" "nat rc = 20 + unat (of_nat (w_pos w) :: 16 word)"
    using enc by (simp_all add: u written_def)
  have le2: "unat (of_nat (w_pos w) :: 16 word) \<le> length ?b"
    using length_written [OF w(1)] by (simp add: u)
  note dec = decode_hdr(1) [OF assms(4) le2 assms(5), of m0] decode_hdr(2) [OF assms(4) le2 assms(5)]
  let ?m = "m0\<lparr>st_type := t, st_length := of_nat (w_pos w), st_txn_id := tid, st_attrs_len := of_nat (w_pos w),
      st_attrs := (if 0 < unat (of_nat (w_pos w) :: 16 word) then Some ?b else None)\<rparr>"
  have m: "e = xErrno_Ok" "m = Some ?m" using assms(9) dec(1) unfolding out by simp_all
  have "map attr_view (iterate_attrs (xStunAttrIterInit ?m)) = avs"
    by (rule iterate_written(1) [OF w(1) assms(2) w(2)]) (simp_all add: u)
  then show ?thesis using m dec(2) unfolding out by simp
qed


theorem stun_roundtrip_witness:
  "\<exists>w rc out e m.
     write_attrs (xStunAttrWriterInit (replicate 8 0) 8) [(0x0024, [0, 0, 1])] = (xErrno_Ok, w)
   \<and> xStunMsgEncode (Some \<lparr>st_type = 1, st_length = 0, st_txn_id = replicate 12 7, st_attrs = Some (w_buf w),
       st_attrs_len = of_nat (w_pos w)\<rparr>) (Some (replicate 28 0)) 28 = (rc, out)
   \<and> xStunMsgDecode (Some (xStunMsgInit 0 [])) out (nat rc) = (e, Some m)
   \<and> map attr_view (iterate_attrs (xStunAttrIterInit m)) = [(0x0024, [0, 0, 1])]"
proof -
  let ?avs = "[(0x0024, [0, 0, 1])] :: (16 word \<times> octets) list"
  have init: "writer_ok (xStunAttrWriterInit (replicate 8 0) 8)"
    by (simp add: writer_ok_def xStunAttrWriterInit_def)
  obtain b where w: "write_attrs (xStunAttrWriterInit (replicate 8 0) 8) ?avs
      = (xErrno_Ok, \<lparr>w_buf = b, w_cap = 8, w_pos = 8\<rparr>)"
    by (simp add: attr_write_raw_def Let_def XSTUN_ALIGN4_def xStunAttrWriterInit_def)
  let ?w = "\<lparr>w_buf = b, w_cap = 8, w_pos = 8\<rparr>"
  obtain rc out where enc: "xStunMsgEncode (Some \<lparr>st_type = 1, st_length = 0, st_txn_id = replicate 12 7,
      st_attrs = Some (w_buf ?w), st_attrs_len = of_nat (w_pos ?w)\<rparr>) (Some (replicate 28 0)) 28 = (rc, out)"
    by fastforce
  have rc: "0 \<le> rc" using enc by (auto simp: xStunMsgEncode_def Let_def)
  obtain e mo where dec: "xStunMsgDecode (Some (xStunMsgInit 0 [])) out (nat rc) = (e, mo)" by fastforce
  have r: "case mo of None \<Rightarrow> False
    | Some m \<Rightarrow> st_type m = 1 \<and> st_txn_id m = replicate 12 7 \<and> map attr_view (iterate_attrs (xStunAttrIterInit m)) = ?avs"
    using stun_roundtrip [OF init _ w _ _ _ enc rc dec] by simp
  then obtain m where "mo = Some m" by (cases mo) auto
  with r w enc dec show ?thesis by force
qed

text \<open>
  C6. A message finished with MESSAGE-INTEGRITY and FINGERPRINT and decoded again passes both checks,
  whatever attributes stand in front: the reader finds them at the end, the fingerprint is the
  CRC-32 of what precedes it and the integrity the HMAC-SHA1 of RFC 2104 over the header with its
  adjusted length and the attributes; another key passes exactly when its HMAC is the same.
\<close>

theorem stun_checks_verify:
  assumes "writer_ok (xStunAttrWriterInit area c)" "\<forall>(t, v)\<in>set avs. length v < 65536" "length hdr = 20"
    and "write_attrs (xStunAttrWriterInit area c) avs = (xErrno_Ok, w)"
    and "xStunAttrWriteMessageIntegrity w (Some hdr) (Some key) = (xErrno_Ok, w1, Some h1)"
    and "xStunAttrWriteFingerprint t1 w1 (Some h1) = (xErrno_Ok, w2, Some h2)" "crc_table_ok t1" "crc_table_ok t2"
    and "msg = finish_message h2 w2" "xStunMsgDecode (Some m0) (Some msg) (length msg) = (xErrno_Ok, Some m)"
  shows "\<exists>attrs ai af. iterate_attrs (xStunAttrIterInit m) = attrs @ [ai, af] \<and> map attr_view attrs = avs
    \<and> at_type ai = 0x0008 \<and> at_type af = 0x8028
    \<and> xStunAttrVerifyFingerprint t2 True (Some msg) (Some af) = xErrno_Ok
    \<and> (\<forall>k. xStunAttrVerifyMessageIntegrity True (Some msg) (Some ai) (Some k) = xErrno_Ok
         \<longleftrightarrow> HMAC SHA1 64 k (covered hdr 20 (concat (map attr_bytes avs)))
             = HMAC SHA1 64 key (covered hdr 20 (concat (map attr_bytes avs))))"
proof -
  define A where "A = concat (map attr_bytes avs)"
  define mac where "mac = HMAC SHA1 64 key (covered hdr 20 A)"
  define B where "B = A @ attr_bytes (0x0008, mac)"
  define f where "f = xWriteU32BE (fingerprint (covered hdr 4 B))"
  let ?avs = "avs @ [(0x0008, mac), (0x8028, f)]"
  have len: "length mac = 20" "length f = 4" by (simp_all add: mac_def f_def length_mac)
  have w: "writer_ok w" "written w = A"
    using write_attrs_ok [OF assms(1,2,4)] by (simp_all add: written_def xStunAttrWriterInit_def A_def)
  note mi = write_mi_ok [OF w(1) assms(3,5)]
  have h1: "h1 = hdr" and w1: "written w1 = B" using mi(2,3) w(2) by (simp_all add: B_def mac_def)
  note fp = write_fp_ok [OF mi(1) assms(3,7) assms(6) [unfolded h1]]
  have h2: "h2 = hdr" and wB: "written w2 = B @ attr_bytes (0x8028, f)"
    using fp(2,3) w1 by (simp_all add: f_def)
  have w2: "written w2 = concat (map attr_bytes ?avs)" by (simp add: wB B_def A_def)
  have pos: "0 < w_pos w2" using length_written [OF fp(1)] wB by (simp add: length_attr_bytes)
  note dec = decode_finished [OF fp(1) assms(3) pos assms(10) [unfolded assms(9) h2]]
  have short: "\<forall>(t, v)\<in>set ?avs. length v < 65536" using assms(2) by (auto simp: len)
  have dec2: "st_attrs m = Some (written w2 @ [])" using dec by simp
  note it0 = iterate_written [OF fp(1) short w2 dec(1) dec2]
  obtain attrs ai af where it: "iterate_attrs (xStunAttrIterInit m) = attrs @ [ai, af]" "map attr_view attrs = avs"
    "attr_view ai = (0x0008, mac)" "attr_view af = (0x8028, f)"
    using it0(1) by (auto simp: map_eq_append_conv map_eq_Cons_conv)
  have n: "length attrs = length avs" using arg_cong [OF it(2), of length] by simp
  have li: "at_length ai = 20" "at_length af = 4"
    using it0(2) n by (auto simp: it(1) len map_eq_append_conv)
  have bi: "attr_bytes (0x0008, mac) = (xWriteU16BE 0x0008 @ xWriteU16BE 20) @ mac"
    "attr_bytes (0x8028, f) = (xWriteU16BE 0x8028 @ xWriteU16BE 4) @ f"
    by (simp_all add: attr_bytes_def len XSTUN_ALIGN4_def)
  have vi: "at_value ai = mac @ attr_bytes (0x8028, f)"
    using it0(3) [of "length attrs"] wB by (simp add: it(1) n nth_append B_def bi A_def [symmetric])
  have vf: "at_value af = f @ []"
    using it0(3) [of "Suc (length attrs)"] wB
    by (simp add: it(1) n nth_append B_def bi A_def [symmetric])
  have msg: "msg = set_length (of_nat (w_pos w2)) hdr @ A @ (xWriteU16BE 0x0008 @ xWriteU16BE 20) @ mac
        @ attr_bytes (0x8028, f)"
      "msg = set_length (of_nat (w_pos w2)) hdr @ B @ (xWriteU16BE 0x8028 @ xWriteU16BE 4) @ f @ []"
    unfolding assms(9) h2 finish_bytes [OF fp(1) assms(3)] by (simp_all add: wB B_def bi)
  have "xStunAttrVerifyFingerprint t2 True (Some msg) (Some af) = xErrno_Ok"
    using verify_fp [OF assms(3) msg(2) [unfolded f_def] _ vf [unfolded f_def] li(2) assms(8)] by simp
  moreover have "xStunAttrVerifyMessageIntegrity True (Some msg) (Some ai) (Some k) = xErrno_Ok
      \<longleftrightarrow> HMAC SHA1 64 k (covered hdr 20 A) = mac" for k
    using verify_mi [OF assms(3) msg(1) _ vi li(1) len(1), of k] by auto
  moreover have "at_type ai = 0x0008 \<and> at_type af = 0x8028" using it(3,4) by (simp add: attr_view_def)
  ultimately show ?thesis using it(1,2) unfolding A_def [symmetric] mac_def [symmetric] by blast
qed


theorem stun_checks_verify_witness:
  "\<exists>w w1 h1 w2 h2 m ai. write_attrs (xStunAttrWriterInit (replicate 60 0) 60) [(0x0025, [])] = (xErrno_Ok, w)
   \<and> xStunAttrWriteMessageIntegrity w (Some (hdr_bytes 1 0 (replicate 12 7))) (Some [1]) = (xErrno_Ok, w1, Some h1)
   \<and> xStunAttrWriteFingerprint None w1 (Some h1) = (xErrno_Ok, w2, Some h2)
   \<and> xStunMsgDecode (Some (xStunMsgInit 0 [])) (Some (finish_message h2 w2)) (length (finish_message h2 w2)) = (xErrno_Ok, Some m)
   \<and> ai \<in> set (iterate_attrs (xStunAttrIterInit m)) \<and> at_type ai = 0x0008
   \<and> xStunAttrVerifyMessageIntegrity True (Some (finish_message h2 w2)) (Some ai) (Some [1]) = xErrno_Ok"
proof -
  let ?avs = "[(0x0025, [])] :: (16 word \<times> octets) list" and ?tid = "replicate 12 7 :: octets"
  let ?hdr = "hdr_bytes 1 0 ?tid"
  have hdr: "length ?hdr = 20" by (rule length_hdr) simp
  have init: "writer_ok (xStunAttrWriterInit (replicate 60 0) 60)"
    by (simp add: writer_ok_def xStunAttrWriterInit_def)
  obtain b where w: "write_attrs (xStunAttrWriterInit (replicate 60 0) 60) ?avs
      = (xErrno_Ok, \<lparr>w_buf = b, w_cap = 60, w_pos = 4\<rparr>)"
    by (simp add: attr_write_raw_def Let_def XSTUN_ALIGN4_def xStunAttrWriterInit_def)
  let ?w = "\<lparr>w_buf = b, w_cap = 60, w_pos = 4\<rparr>"
  have w0: "writer_ok ?w" using write_attrs_ok [OF init _ w] by simp
  obtain b1 h1 where mi: "xStunAttrWriteMessageIntegrity ?w (Some ?hdr) (Some [1])
      = (xErrno_Ok, ?w\<lparr>w_buf := b1, w_pos := 28\<rparr>, h1)"
    using mi_total [of ?w ?hdr "[1]"] by auto
  let ?w1 = "?w\<lparr>w_buf := b1, w_pos := 28\<rparr>"
  note mi_ok = write_mi_ok [OF w0 hdr mi]
  obtain b2 h2 where fp: "xStunAttrWriteFingerprint None ?w1 (Some ?hdr)
      = (xErrno_Ok, ?w1\<lparr>w_buf := b2, w_pos := 36\<rparr>, h2)"
    using fp_total [of ?w1 None ?hdr] by auto
  let ?w2 = "?w1\<lparr>w_buf := b2, w_pos := 36\<rparr>"
  have none: "crc_table_ok None" by (simp add: crc_table_ok_def)
  note fp_ok = write_fp_ok [OF mi_ok(1) hdr none fp]
  let ?msg = "finish_message ?hdr ?w2"
  have len: "length (written ?w2) = 36" using length_written [OF fp_ok(1)] by simp
  have msg: "?msg = hdr_bytes 1 36 ?tid @ written ?w2"
    using finish_bytes [OF fp_ok(1) hdr] by (simp add: set_length_hdr)
  have n: "length ?msg = 20 + unat (36 :: 16 word)"
    unfolding msg using len length_hdr [of ?tid 1 36] by simp
  obtain m where dec: "xStunMsgDecode (Some (xStunMsgInit 0 [])) (Some ?msg) (length ?msg) = (xErrno_Ok, Some m)"
    unfolding n unfolding msg using decode_hdr(1) [of ?tid 36 "written ?w2" 1 "xStunMsgInit 0 []"] len by simp
  have hh: "h1 = Some ?hdr" "h2 = Some ?hdr" using mi_ok(2) fp_ok(2) by simp_all
  note run = mi [unfolded hh] fp [unfolded hh]
  from stun_checks_verify [OF init _ hdr w run none none refl dec]
  obtain attrs ai af where it: "iterate_attrs (xStunAttrIterInit m) = attrs @ [ai, af]" and ai: "at_type ai = 0x0008"
    "xStunAttrVerifyMessageIntegrity True (Some ?msg) (Some ai) (Some [1]) = xErrno_Ok"
    by auto
  have "ai \<in> set (iterate_attrs (xStunAttrIterInit m))" by (simp add: it)
  with w run dec ai show ?thesis by blast
qed

end
