(* ===== verification/StunTxn.thy ===== *)
theory StunTxn
  imports Stun
begin

text \<open>
  \<^verbatim>\<open>p2p/stun_txn.c\<close>: STUN transactions with retransmission. The manager holds pointers to
  transactions; the model has an explicit memory of transactions, the list of those freed, and the
  timers the event loop has armed. Sent datagrams, timeouts, completions and uses of freed memory
  are recorded in a log. The outcome of \<^verbatim>\<open>send_fn\<close>, the random transaction id and the outcomes of
  the allocations and of the timer calls are inputs; a callback that calls the manager again is a
  later input.
\<close>

section \<open>State\<close>

definition XSTUN_TXN_MAX :: nat where "XSTUN_TXN_MAX = 32"
definition XSTUN_MAX_MSG_SIZE :: nat where "XSTUN_MAX_MSG_SIZE = 1280"
definition XSTUN_INITIAL_RTO_MS :: "32 word" where "XSTUN_INITIAL_RTO_MS = 500"
definition XSTUN_MAX_RETRANSMITS :: nat where "XSTUN_MAX_RETRANSMITS = 7"

text \<open>A context, the argument of the callback, is a number; the callback itself is whether there is one.\<close>

record xStunTxn =
  tx_id :: octets
  tx_msg_buf :: octets
  tx_msg_len :: nat
  tx_dest :: sockaddr
  tx_on_complete :: bool
  tx_ctx :: nat
  tx_timer :: "nat option"
  tx_retransmit_count :: nat
  tx_rto_ms :: "32 word"
  tx_cancelled :: bool

datatype txn_event =
    Ev_txn_send nat octets
  | Ev_txn_timeout nat
  | Ev_txn_complete nat nat "xStunMsg option"
  | Ev_txn_use_after_free nat

text \<open>A timer is its handle, the transaction it is armed for and its delay.\<close>

record xStunTxnMgr =
  mg_txns :: "nat list"
  mg_mem :: "nat \<Rightarrow> xStunTxn"
  mg_freed :: "nat list"
  mg_next :: nat
  mg_timers :: "(nat \<times> nat \<times> 32 word) list"
  mg_next_timer :: nat
  mg_allocs :: allocs
  mg_log :: "txn_event list"

definition txn_log :: "txn_event \<Rightarrow> xStunTxnMgr \<Rightarrow> xStunTxnMgr" where
  "txn_log ev w = w\<lparr>mg_log := mg_log w @ [ev]\<rparr>"

text \<open>Reading a transaction through its pointer; a use after free shows in the log.\<close>

definition touch_txn :: "nat \<Rightarrow> xStunTxnMgr \<Rightarrow> xStunTxnMgr" where
  "touch_txn a w = (if a \<in> set (mg_freed w) then txn_log (Ev_txn_use_after_free a) w else w)"

definition set_txn :: "nat \<Rightarrow> (xStunTxn \<Rightarrow> xStunTxn) \<Rightarrow> xStunTxnMgr \<Rightarrow> xStunTxnMgr" where
  "set_txn a f w = w\<lparr>mg_mem := (mg_mem w)(a := f (mg_mem w a))\<rparr>"

definition xStunTxnMgrInit :: "allocs \<Rightarrow> xStunTxnMgr" where
  "xStunTxnMgrInit as =
     \<lparr>mg_txns = [], mg_mem = (\<lambda>_. \<lparr>tx_id = [], tx_msg_buf = [], tx_msg_len = 0, tx_dest = sockaddr_other,
        tx_on_complete = False, tx_ctx = 0, tx_timer = None, tx_retransmit_count = 0, tx_rto_ms = 0, tx_cancelled = False\<rparr>),
      mg_freed = [], mg_next = 0, mg_timers = [], mg_next_timer = 0, mg_allocs = as, mg_log = []\<rparr>"

section \<open>Retransmission\<close>

text \<open>\<^verbatim>\<open>xEventLoopTimerAfter\<close> returns null when it cannot allocate the timer.\<close>

definition txn_schedule_retransmit :: "nat \<Rightarrow> xStunTxnMgr \<Rightarrow> xStunTxnMgr" where
  "txn_schedule_retransmit a w =
     (case draw (mg_allocs w) of
        (ok, as) \<Rightarrow>
          if ok then
            let h = mg_next_timer w in
            set_txn a (\<lambda>t. t\<lparr>tx_timer := Some h\<rparr>)
              (w\<lparr>mg_timers := (h, a, tx_rto_ms (mg_mem w a)) # mg_timers w, mg_next_timer := h + 1, mg_allocs := as\<rparr>)
          else set_txn a (\<lambda>t. t\<lparr>tx_timer := None\<rparr>) (w\<lparr>mg_allocs := as\<rparr>))"

text \<open>The callback, when there is one.\<close>

definition notify :: "nat \<Rightarrow> xStunMsg option \<Rightarrow> xStunTxnMgr \<Rightarrow> xStunTxnMgr" where
  "notify a msg w = (if tx_on_complete (mg_mem w a) then txn_log (Ev_txn_complete a (tx_ctx (mg_mem w a)) msg) w else w)"

definition txn_retransmit :: "nat \<Rightarrow> xStunTxnMgr \<Rightarrow> xStunTxnMgr" where
  "txn_retransmit a w0 =
     (let w = set_txn a (\<lambda>t. t\<lparr>tx_timer := None\<rparr>) (touch_txn a w0); t = mg_mem w a in
      if tx_cancelled t then w
      else if XSTUN_MAX_RETRANSMITS \<le> tx_retransmit_count t then
        notify a None (txn_log (Ev_txn_timeout a) (set_txn a (\<lambda>t. t\<lparr>tx_cancelled := True\<rparr>) w))
      else
        txn_schedule_retransmit a
          (set_txn a (\<lambda>t. t\<lparr>tx_retransmit_count := tx_retransmit_count t + 1, tx_rto_ms := tx_rto_ms t * 2\<rparr>)
            (txn_log (Ev_txn_send a (take (tx_msg_len t) (tx_msg_buf t))) w)))"

text \<open>The event loop takes an expired timer from its heap and calls it.\<close>

definition fire_timer :: "nat \<times> nat \<times> 32 word \<Rightarrow> xStunTxnMgr \<Rightarrow> xStunTxnMgr" where
  "fire_timer = (\<lambda>(h, a, d) w. txn_retransmit a (w\<lparr>mg_timers := filter (\<lambda>x. fst x \<noteq> h) (mg_timers w)\<rparr>))"

section \<open>The manager\<close>

definition cancel_timer :: "nat \<Rightarrow> xStunTxnMgr \<Rightarrow> xStunTxnMgr" where
  "cancel_timer a w =
     (case tx_timer (mg_mem w a) of
        None \<Rightarrow> w
      | Some h \<Rightarrow> set_txn a (\<lambda>t. t\<lparr>tx_timer := None\<rparr>)
                    (w\<lparr>mg_timers := filter (\<lambda>x. fst x \<noteq> h) (mg_timers w)\<rparr>))"

definition txn_free :: "nat \<Rightarrow> xStunTxnMgr \<Rightarrow> xStunTxnMgr" where
  "txn_free index w0 =
     (let a = mg_txns w0 ! index;
          w1 = cancel_timer a (touch_txn a w0);
          w2 = (if \<not> tx_cancelled (mg_mem w1 a) \<and> tx_on_complete (mg_mem w1 a)
                then notify a None (set_txn a (\<lambda>t. t\<lparr>tx_cancelled := True\<rparr>) w1) else w1);
          n = length (mg_txns w2) - 1;
          txns = (if index < n then (mg_txns w2)[index := mg_txns w2 ! n] else mg_txns w2)
      in w2\<lparr>mg_txns := take n txns, mg_freed := a # mg_freed w2\<rparr>)"

lemma length_set_txn [simp]: "mg_txns (set_txn a f w) = mg_txns w"
  by (simp add: set_txn_def)

lemma mg_txns_steps [simp]:
  "mg_txns (txn_log ev w) = mg_txns w" "mg_txns (touch_txn a w) = mg_txns w"
  "mg_txns (notify a m w) = mg_txns w" "mg_txns (cancel_timer a w) = mg_txns w"
  "mg_txns (txn_schedule_retransmit a w) = mg_txns w" "mg_txns (txn_retransmit a w) = mg_txns w"
  by (simp_all add: txn_log_def touch_txn_def notify_def cancel_timer_def txn_schedule_retransmit_def
      txn_retransmit_def Let_def split: option.split prod.split)

lemma length_txn_free: "mg_txns w \<noteq> [] \<Longrightarrow> length (mg_txns (txn_free i w)) < length (mg_txns w)"
  by (simp add: txn_free_def Let_def)

function xStunTxnMgrCancelAll :: "xStunTxnMgr \<Rightarrow> xStunTxnMgr" where
  "xStunTxnMgrCancelAll w = (if mg_txns w \<noteq> [] then xStunTxnMgrCancelAll (txn_free 0 w) else w)"
  by pat_completeness auto
termination by (relation "measure (\<lambda>w. length (mg_txns w))") (simp_all add: length_txn_free)

declare xStunTxnMgrCancelAll.simps [simp del]

definition xStunTxnMgrDestroy :: "xStunTxnMgr \<Rightarrow> xStunTxnMgr" where
  "xStunTxnMgrDestroy w = xStunTxnMgrCancelAll w"

text \<open>The search looks at the transactions up to the one it finds.\<close>

fun find_id :: "(nat \<Rightarrow> xStunTxn) \<Rightarrow> octets \<Rightarrow> nat list \<Rightarrow> nat option" where
  "find_id mem tid [] = None"
| "find_id mem tid (a # as) = (if tx_id (mem a) = tid then Some 0 else map_option Suc (find_id mem tid as))"

definition txn_find :: "octets \<Rightarrow> xStunTxnMgr \<Rightarrow> nat option \<times> xStunTxnMgr" where
  "txn_find tid w =
     (let r = find_id (mg_mem w) tid (mg_txns w);
          seen = (case r of None \<Rightarrow> mg_txns w | Some i \<Rightarrow> take (Suc i) (mg_txns w))
      in (r, fold touch_txn seen w))"

section \<open>Sending\<close>

definition sockaddr_len :: "sockaddr \<Rightarrow> nat" where
  "sockaddr_len addr = (case addr of sockaddr_in _ _ \<Rightarrow> 16 | sockaddr_in6 _ _ \<Rightarrow> 28 | sockaddr_other \<Rightarrow> 0)"

text \<open>
  The part both functions share, from the transaction with its message on: \<open>sent\<close> is what
  \<^verbatim>\<open>send_fn\<close> returns.
\<close>

definition start_txn ::
  "xErrno \<Rightarrow> octets \<Rightarrow> octets \<Rightarrow> nat \<Rightarrow> sockaddr \<Rightarrow> bool \<Rightarrow> nat \<Rightarrow> xStunTxnMgr \<Rightarrow> xErrno \<times> xStunTxnMgr" where
  "start_txn sent tid msg_buf msg_len dest cb ctx w =
     (if sockaddr_len dest = 0 then (xErrno_InvalidArg, w)
      else
        let a = mg_next w;
            t = \<lparr>tx_id = tid, tx_msg_buf = msg_buf, tx_msg_len = msg_len, tx_dest = dest, tx_on_complete = cb, tx_ctx = ctx,
                 tx_timer = None, tx_retransmit_count = 0, tx_rto_ms = XSTUN_INITIAL_RTO_MS, tx_cancelled = False\<rparr>;
            w1 = txn_log (Ev_txn_send a (take msg_len msg_buf)) (w\<lparr>mg_mem := (mg_mem w)(a := t), mg_next := a + 1\<rparr>)
        in if sent \<noteq> xErrno_Ok then (sent, w1\<lparr>mg_freed := a # mg_freed w1\<rparr>)
           else let w2 = txn_schedule_retransmit a w1
                in (xErrno_Ok, w2\<lparr>mg_txns := mg_txns w2 @ [a]\<rparr>))"

definition xStunTxnMgrSend ::
  "octets \<Rightarrow> xErrno \<Rightarrow> 16 word \<Rightarrow> octets option \<Rightarrow> 16 word \<Rightarrow> sockaddr option \<Rightarrow> bool \<Rightarrow> nat
   \<Rightarrow> xStunTxnMgr \<Rightarrow> xErrno \<times> xStunTxnMgr" where
  "xStunTxnMgrSend random sent msg_type attrs attrs_len dest_ptr cb ctx w =
     (case dest_ptr of
        None \<Rightarrow> (xErrno_InvalidArg, w)
      | Some dest \<Rightarrow>
          if XSTUN_TXN_MAX \<le> length (mg_txns w) then (xErrno_NoMemory, w)
          else
            (case draw (mg_allocs w) of
               (ok, as) \<Rightarrow>
                 let w1 = w\<lparr>mg_allocs := as\<rparr>; tid = take XSTUN_TXN_ID_SIZE random in
                 if \<not> ok then (xErrno_NoMemory, w1)
                 else
                   let msg = (xStunMsgInit msg_type tid)\<lparr>st_attrs := attrs, st_attrs_len := attrs_len\<rparr> in
                   (case xStunMsgEncode (Some msg) (Some (replicate XSTUN_MAX_MSG_SIZE 0)) XSTUN_MAX_MSG_SIZE of
                      (encoded, buf) \<Rightarrow>
                        if encoded < 0 then (xErrno_NoMemory, w1)
                        else start_txn sent tid (the buf) (nat encoded) dest cb ctx w1)))"

definition xStunTxnMgrSendRaw ::
  "xErrno \<Rightarrow> octets option \<Rightarrow> nat \<Rightarrow> sockaddr option \<Rightarrow> bool \<Rightarrow> nat \<Rightarrow> xStunTxnMgr \<Rightarrow> xErrno \<times> xStunTxnMgr" where
  "xStunTxnMgrSendRaw sent msg_ptr msg_len dest_ptr cb ctx w =
     (case (msg_ptr, dest_ptr) of
        (Some msg_buf, Some dest) \<Rightarrow>
          if msg_len < XSTUN_HEADER_SIZE \<or> XSTUN_MAX_MSG_SIZE < msg_len then (xErrno_InvalidArg, w)
          else if XSTUN_TXN_MAX \<le> length (mg_txns w) then (xErrno_NoMemory, w)
          else
            (case draw (mg_allocs w) of
               (ok, as) \<Rightarrow>
                 let w1 = w\<lparr>mg_allocs := as\<rparr> in
                 if \<not> ok then (xErrno_NoMemory, w1)
                 else start_txn sent (take XSTUN_TXN_ID_SIZE (drop 8 msg_buf))
                        (store_at 0 (take msg_len msg_buf) (replicate XSTUN_MAX_MSG_SIZE 0)) msg_len dest cb ctx w1)
      | _ \<Rightarrow> (xErrno_InvalidArg, w))"

section \<open>Responses\<close>

definition xStunTxnMgrOnResponse :: "xStunMsg option \<Rightarrow> xStunTxnMgr \<Rightarrow> bool \<times> xStunTxnMgr" where
  "xStunTxnMgrOnResponse msg_ptr w =
     (case msg_ptr of
        None \<Rightarrow> (False, w)
      | Some msg \<Rightarrow>
          (case txn_find (st_txn_id msg) w of
             (None, w1) \<Rightarrow> (False, w1)
           | (Some idx, w1) \<Rightarrow>
               let a = mg_txns w1 ! idx;
                   w2 = cancel_timer a w1;
                   cb = tx_on_complete (mg_mem w2 a); cb_arg = tx_ctx (mg_mem w2 a);
                   w3 = txn_free idx (set_txn a (\<lambda>t. t\<lparr>tx_cancelled := True\<rparr>) w2)
               in (True, if cb then txn_log (Ev_txn_complete a cb_arg (Some msg)) w3 else w3)))"

section \<open>Runs\<close>

text \<open>What can happen to a manager, one input at a time.\<close>

inductive txn_move :: "xStunTxnMgr \<Rightarrow> xStunTxnMgr \<Rightarrow> bool" where
  move_send: "txn_move w (snd (xStunTxnMgrSend random sent type attrs n dest cb ctx w))"
| move_send_raw: "txn_move w (snd (xStunTxnMgrSendRaw sent msg len dest cb ctx w))"
| move_timer: "x \<in> set (mg_timers w) \<Longrightarrow> txn_move w (fire_timer x w)"
| move_response: "txn_move w (snd (xStunTxnMgrOnResponse msg w))"
| move_cancel: "txn_move w (xStunTxnMgrCancelAll w)"

inductive txn_reaches :: "xStunTxnMgr \<Rightarrow> xStunTxnMgr \<Rightarrow> bool" where
  txn_here: "txn_reaches w w"
| txn_there: "txn_reaches w w1 \<Longrightarrow> txn_move w1 w2 \<Longrightarrow> txn_reaches w w2"

definition calls :: "nat \<Rightarrow> txn_event list \<Rightarrow> txn_event list" where
  "calls a log = filter (\<lambda>ev. \<exists>c m. ev = Ev_txn_complete a c m) log"

definition completions :: "nat \<Rightarrow> txn_event list \<Rightarrow> nat" where
  "completions a log = length (calls a log)"

text \<open>
  The invariant: the manager's transactions are distinct and live, a timer belongs to the
  transaction that holds its handle, no freed transaction was used, and the completions of a
  transaction are accounted for.
\<close>

definition mgr_shape :: "xStunTxnMgr \<Rightarrow> bool" where
  "mgr_shape w \<longleftrightarrow>
     distinct (mg_txns w) \<and> length (mg_txns w) \<le> XSTUN_TXN_MAX
   \<and> set (mg_txns w) \<inter> set (mg_freed w) = {}
   \<and> (\<forall>a\<in>set (mg_txns w) \<union> set (mg_freed w). a < mg_next w)
   \<and> (\<forall>x\<in>set (mg_timers w). fst x < mg_next_timer w \<and> fst (snd x) \<in> set (mg_txns w)
        \<and> tx_timer (mg_mem w (fst (snd x))) = Some (fst x))
   \<and> (\<forall>a\<in>set (mg_txns w). \<forall>h. tx_timer (mg_mem w a) = Some h \<longrightarrow> h < mg_next_timer w)
   \<and> (\<forall>a. Ev_txn_use_after_free a \<notin> set (mg_log w))"

definition timed_out :: "nat \<Rightarrow> txn_event list \<Rightarrow> bool" where
  "timed_out a log \<longleftrightarrow> Ev_txn_timeout a \<in> set log"

definition accounted :: "xStunTxnMgr \<Rightarrow> nat \<Rightarrow> bool" where
  "accounted w a \<longleftrightarrow>
     (a \<in> set (mg_txns w) \<longrightarrow> timed_out a (mg_log w) = tx_cancelled (mg_mem w a)
        \<and> calls a (mg_log w) = (if tx_cancelled (mg_mem w a) \<and> tx_on_complete (mg_mem w a)
             then [Ev_txn_complete a (tx_ctx (mg_mem w a)) None] else []))
   \<and> (a \<in> set (mg_freed w) \<longrightarrow> completions a (mg_log w) \<le> (if timed_out a (mg_log w) then 2 else 1))
   \<and> (a \<notin> set (mg_txns w) \<union> set (mg_freed w) \<longrightarrow> completions a (mg_log w) = 0 \<and> \<not> timed_out a (mg_log w))"

definition mgr_ok :: "xStunTxnMgr \<Rightarrow> bool" where
  "mgr_ok w \<longleftrightarrow> mgr_shape w \<and> (\<forall>a. accounted w a)"

section \<open>The invariant holds along every run\<close>

lemma calls_simps [simp]:
  "calls a [] = []" "calls a (log @ log') = calls a log @ calls a log'"
  "calls a (Ev_txn_send b d # log) = calls a log" "calls a (Ev_txn_timeout b # log) = calls a log"
  "calls a (Ev_txn_use_after_free b # log) = calls a log"
  "calls a (Ev_txn_complete b c m # log) = (if a = b then [Ev_txn_complete b c m] else []) @ calls a log"
  by (auto simp: calls_def)

lemma completions_simps [simp]:
  "completions a [] = 0" "completions a (log @ log') = completions a log + completions a log'"
  "completions a (Ev_txn_send b d # log) = completions a log" "completions a (Ev_txn_timeout b # log) = completions a log"
  "completions a (Ev_txn_use_after_free b # log) = completions a log"
  "completions a (Ev_txn_complete b c m # log) = (if a = b then 1 else 0) + completions a log"
  by (simp_all add: completions_def)

lemma touch_live: "a \<notin> set (mg_freed w) \<Longrightarrow> touch_txn a w = w"
  by (simp add: touch_txn_def)

lemma fold_touch_live: "set as \<inter> set (mg_freed w) = {} \<Longrightarrow> fold touch_txn as w = w"
  by (induction as) (auto simp: touch_live)

lemma timed_out_simps [simp]:
  "\<not> timed_out a []" "timed_out a (log @ log') = (timed_out a log \<or> timed_out a log')"
  "timed_out a (Ev_txn_send b d # log) = timed_out a log" "timed_out a (Ev_txn_timeout b # log) = (a = b \<or> timed_out a log)"
  "timed_out a (Ev_txn_use_after_free b # log) = timed_out a log" "timed_out a (Ev_txn_complete b c m # log) = timed_out a log"
  by (auto simp: timed_out_def)

lemmas txn_steps = txn_log_def set_txn_def notify_def

text \<open>A step that leaves what is recorded about a transaction as it was keeps its account.\<close>

lemma accounted_frame:
  assumes "accounted w a"
    and "a \<in> set (mg_txns w') \<Longrightarrow> a \<in> set (mg_txns w) \<and> tx_cancelled (mg_mem w' a) = tx_cancelled (mg_mem w a)
          \<and> tx_on_complete (mg_mem w' a) = tx_on_complete (mg_mem w a) \<and> tx_ctx (mg_mem w' a) = tx_ctx (mg_mem w a)"
    and "a \<in> set (mg_freed w') \<Longrightarrow> a \<in> set (mg_freed w) \<or> completions a (mg_log w) \<le> 1"
    and "a \<notin> set (mg_txns w') \<union> set (mg_freed w') \<Longrightarrow> a \<notin> set (mg_txns w) \<union> set (mg_freed w)"
    and "calls a (mg_log w') = calls a (mg_log w)" "timed_out a (mg_log w') = timed_out a (mg_log w)"
  shows "accounted w' a"
  using assms unfolding accounted_def completions_def by auto

lemma okD:
  assumes "mgr_ok w"
  shows "a \<in> set (mg_txns w) \<Longrightarrow> a \<notin> set (mg_freed w) \<and> a < mg_next w"
    "a \<in> set (mg_freed w) \<Longrightarrow> a < mg_next w"
    "x \<in> set (mg_timers w) \<Longrightarrow> fst (snd x) \<in> set (mg_txns w) \<and> tx_timer (mg_mem w (fst (snd x))) = Some (fst x)"
    "accounted w a"
  using assms unfolding mgr_ok_def mgr_shape_def by auto

text \<open>Arming a timer for a transaction of the manager that has none.\<close>

lemma schedule_cases:
  obtains h as where "txn_schedule_retransmit a w = set_txn a (\<lambda>t. t\<lparr>tx_timer := Some h\<rparr>)
      (w\<lparr>mg_timers := (h, a, tx_rto_ms (mg_mem w a)) # mg_timers w, mg_next_timer := Suc h, mg_allocs := as\<rparr>)"
    "h = mg_next_timer w"
  | as where "txn_schedule_retransmit a w = set_txn a (\<lambda>t. t\<lparr>tx_timer := None\<rparr>) (w\<lparr>mg_allocs := as\<rparr>)"
proof (cases "draw (mg_allocs w)")
  case (Pair ok as)
  then show ?thesis using that by (cases ok) (simp_all add: txn_schedule_retransmit_def Let_def)
qed

lemma ok_schedule:
  assumes ok: "mgr_ok w" and a: "a \<in> set (mg_txns w)" "\<forall>x\<in>set (mg_timers w). fst (snd x) \<noteq> a"
  shows "mgr_ok (txn_schedule_retransmit a w)"
proof (cases rule: schedule_cases [of a w])
  case (1 h as)
  have "mgr_shape (txn_schedule_retransmit a w)"
    using ok a unfolding mgr_ok_def mgr_shape_def 1 by (auto simp: set_txn_def less_Suc_eq)
  moreover have "accounted (txn_schedule_retransmit a w) b" for b
    using okD(4) [OF ok, of b] by (rule accounted_frame) (auto simp: 1 set_txn_def)
  ultimately show ?thesis by (simp add: mgr_ok_def)
next
  case (2 as)
  have "mgr_shape (txn_schedule_retransmit a w)"
    using ok a unfolding mgr_ok_def mgr_shape_def 2 by (auto simp: set_txn_def)
  moreover have "accounted (txn_schedule_retransmit a w) b" for b
    using okD(4) [OF ok, of b] by (rule accounted_frame) (auto simp: 2 set_txn_def)
  ultimately show ?thesis by (simp add: mgr_ok_def)
qed

text \<open>Taking the timers of a transaction away.\<close>

lemma ok_disarm:
  assumes ok: "mgr_ok w" and a: "a \<in> set (mg_txns w)" and h: "\<And>k. tx_timer (mg_mem w a) = Some k \<Longrightarrow> k = h"
  defines "w1 \<equiv> set_txn a (\<lambda>t. t\<lparr>tx_timer := None\<rparr>) (w\<lparr>mg_timers := filter (\<lambda>x. fst x \<noteq> h) (mg_timers w)\<rparr>)"
  shows "mgr_ok w1" "\<forall>x\<in>set (mg_timers w1). fst (snd x) \<noteq> a"
proof -
  show none: "\<forall>x\<in>set (mg_timers w1). fst (snd x) \<noteq> a"
    using okD(3) [OF ok] h by (fastforce simp: w1_def set_txn_def)
  have "mgr_shape w1"
    using ok none unfolding mgr_ok_def mgr_shape_def by (auto simp: w1_def set_txn_def)
  moreover have "accounted w1 b" for b
    using okD(4) [OF ok, of b] by (rule accounted_frame) (auto simp: w1_def set_txn_def)
  ultimately show "mgr_ok w1" by (simp add: mgr_ok_def)
qed

lemma txn_ok_fire:
  assumes ok: "mgr_ok w" and x: "x \<in> set (mg_timers w)"
  shows "mgr_ok (fire_timer x w)"
proof -
  obtain h a d where xx: "x = (h, a, d)" by (cases x)
  have a: "a \<in> set (mg_txns w)" "a \<notin> set (mg_freed w)" "tx_timer (mg_mem w a) = Some h"
    using okD(1,3) [OF ok] x unfolding xx by fastforce+
  define w0 where "w0 = w\<lparr>mg_timers := filter (\<lambda>x. fst x \<noteq> h) (mg_timers w)\<rparr>"
  define w1 where "w1 = set_txn a (\<lambda>t. t\<lparr>tx_timer := None\<rparr>) w0"
  have ok1: "mgr_ok w1" and none: "\<forall>x\<in>set (mg_timers w1). fst (snd x) \<noteq> a"
    using ok_disarm [OF ok a(1), of h] a(3) by (simp_all add: w1_def w0_def)
  have t: "touch_txn a w0 = w0" using a(2) by (simp add: touch_live w0_def)
  have a1: "a \<in> set (mg_txns w1)" using a by (simp add: w1_def w0_def set_txn_def)
  have run: "fire_timer x w = (let t = mg_mem w1 a in
      if tx_cancelled t then w1
      else if XSTUN_MAX_RETRANSMITS \<le> tx_retransmit_count t then
        notify a None (txn_log (Ev_txn_timeout a) (set_txn a (\<lambda>t. t\<lparr>tx_cancelled := True\<rparr>) w1))
      else txn_schedule_retransmit a
          (set_txn a (\<lambda>t. t\<lparr>tx_retransmit_count := tx_retransmit_count t + 1, tx_rto_ms := tx_rto_ms t * 2\<rparr>)
            (txn_log (Ev_txn_send a (take (tx_msg_len t) (tx_msg_buf t))) w1)))"
    by (simp add: xx fire_timer_def txn_retransmit_def t w1_def w0_def [symmetric] Let_def)
  consider "tx_cancelled (mg_mem w1 a)"
    | "\<not> tx_cancelled (mg_mem w1 a)" "XSTUN_MAX_RETRANSMITS \<le> tx_retransmit_count (mg_mem w1 a)"
    | "\<not> tx_cancelled (mg_mem w1 a)" "\<not> XSTUN_MAX_RETRANSMITS \<le> tx_retransmit_count (mg_mem w1 a)" by blast
  then show ?thesis
  proof cases
    case 1
    then show ?thesis using ok1 by (simp add: run Let_def)
  next
    case 2
    let ?w2 = "notify a None (txn_log (Ev_txn_timeout a) (set_txn a (\<lambda>t. t\<lparr>tx_cancelled := True\<rparr>) w1))"
    have "mgr_shape ?w2"
      using ok1 unfolding mgr_ok_def mgr_shape_def by (auto simp: txn_steps)
    moreover have "accounted ?w2 b" for b
    proof (cases "b = a")
      case True
      then show ?thesis
        using okD(4) [OF ok1, of a] okD(1) [OF ok1 a1] a1 2 by (simp add: accounted_def txn_steps)
    next
      case False
      show ?thesis using okD(4) [OF ok1, of b] by (rule accounted_frame) (use False in \<open>auto simp: txn_steps split: if_splits\<close>)
    qed
    ultimately show ?thesis using 2 by (simp add: mgr_ok_def run Let_def)
  next
    case 3
    let ?w2 = "set_txn a (\<lambda>t. t\<lparr>tx_retransmit_count := tx_retransmit_count t + 1, tx_rto_ms := tx_rto_ms t * 2\<rparr>)
          (txn_log (Ev_txn_send a (take (tx_msg_len (mg_mem w1 a)) (tx_msg_buf (mg_mem w1 a)))) w1)"
    have "mgr_shape ?w2"
      using ok1 unfolding mgr_ok_def mgr_shape_def by (auto simp: txn_steps)
    moreover have "accounted ?w2 b" for b
      using okD(4) [OF ok1, of b] by (rule accounted_frame) (auto simp: txn_steps)
    ultimately have "mgr_ok ?w2" by (simp add: mgr_ok_def)
    then have "mgr_ok (txn_schedule_retransmit a ?w2)"
      using a1 none by (intro ok_schedule) (auto simp: txn_steps)
    then show ?thesis using 3 by (simp add: run Let_def)
  qed
qed

lemma ok_start:
  assumes ok: "mgr_ok w" and room: "length (mg_txns w) < XSTUN_TXN_MAX"
  shows "mgr_ok (snd (start_txn sent tid buf n dest cb ctx w))"
proof (cases "sockaddr_len dest = 0")
  case True
  then show ?thesis using ok by (simp add: start_txn_def)
next
  case False
  let ?a = "mg_next w"
  let ?t = "\<lparr>tx_id = tid, tx_msg_buf = buf, tx_msg_len = n, tx_dest = dest, tx_on_complete = cb, tx_ctx = ctx,
      tx_timer = None, tx_retransmit_count = 0, tx_rto_ms = XSTUN_INITIAL_RTO_MS, tx_cancelled = False\<rparr>"
  define w1 where "w1 = txn_log (Ev_txn_send ?a (take n buf)) (w\<lparr>mg_mem := (mg_mem w)(?a := ?t), mg_next := ?a + 1\<rparr>)"
  have fresh: "?a \<notin> set (mg_txns w)" "?a \<notin> set (mg_freed w)" "\<forall>x\<in>set (mg_timers w). fst (snd x) \<noteq> ?a"
    using okD(1-3) [OF ok] by fastforce+
  have zero: "calls ?a (mg_log w) = []" "completions ?a (mg_log w) = 0" "\<not> timed_out ?a (mg_log w)"
    using okD(4) [OF ok, of ?a] fresh by (simp_all add: accounted_def completions_def)
  show ?thesis
  proof (cases "sent = xErrno_Ok")
    case True
    let ?w2 = "w1\<lparr>mg_txns := mg_txns w1 @ [?a]\<rparr>"
    have "mgr_shape ?w2"
      using ok fresh room unfolding mgr_ok_def mgr_shape_def by (auto simp: w1_def txn_log_def less_Suc_eq)
    moreover have "accounted ?w2 b" for b
    proof (cases "b = ?a")
      case True
      then show ?thesis using fresh zero by (simp add: accounted_def w1_def txn_log_def)
    next
      case False
      show ?thesis using okD(4) [OF ok, of b]
        by (rule accounted_frame) (use False in \<open>auto simp: w1_def txn_log_def\<close>)
    qed
    ultimately have "mgr_ok ?w2" by (simp add: mgr_ok_def)
    then have "mgr_ok (txn_schedule_retransmit ?a ?w2)"
      using fresh by (intro ok_schedule) (auto simp: w1_def txn_log_def)
    moreover have "txn_schedule_retransmit ?a ?w2
        = (let w2 = txn_schedule_retransmit ?a w1 in w2\<lparr>mg_txns := mg_txns w2 @ [?a]\<rparr>)"
      by (cases "draw (mg_allocs w1)") (simp add: txn_schedule_retransmit_def set_txn_def Let_def)
    ultimately show ?thesis
      using True False unfolding w1_def by (simp add: start_txn_def Let_def)
  next
    case sf: False
    let ?w2 = "w1\<lparr>mg_freed := ?a # mg_freed w1\<rparr>"
    have "mgr_shape ?w2"
      using ok fresh unfolding mgr_ok_def mgr_shape_def by (auto simp: w1_def txn_log_def less_Suc_eq)
    moreover have "accounted ?w2 b" for b
    proof (cases "b = ?a")
      case True
      then show ?thesis using fresh zero by (simp add: accounted_def w1_def txn_log_def)
    next
      case False
      show ?thesis using okD(4) [OF ok, of b]
        by (rule accounted_frame) (use False fresh in \<open>auto simp: w1_def txn_log_def\<close>)
    qed
    ultimately show ?thesis using False sf unfolding w1_def by (simp add: start_txn_def mgr_ok_def Let_def)
  qed
qed


text \<open>Freeing: the slot is filled with the last one, and the transaction is notified unless it was.\<close>

lemma removed_slot:
  assumes "distinct xs" "i < length xs"
  defines "n \<equiv> length xs - 1"
  defines "ys \<equiv> take n (if i < n then xs[i := xs ! n] else xs)"
  shows "distinct ys" "set ys = set xs - {xs ! i}" "length ys = n"
proof -
  obtain z zs where xs: "xs = zs @ [z]" using assms(2) by (cases xs rule: rev_cases) auto
  have n: "n = length zs" by (simp add: n_def xs)
  have "distinct ys \<and> set ys = set xs - {xs ! i}"
  proof (cases "i < length zs")
    case True
    then have ys: "ys = zs[i := z]" by (simp add: ys_def n xs nth_append list_update_append)
    have "z \<notin> set zs" "distinct zs" using assms(1) by (simp_all add: xs)
    then show ?thesis
      using True by (auto simp: ys xs nth_append set_update_distinct distinct_list_update)
  next
    case False
    then have "i = length zs" using assms(2) by (simp add: xs)
    then show ?thesis using assms(1) by (auto simp: ys_def n xs nth_append)
  qed
  then show "distinct ys" "set ys = set xs - {xs ! i}" by blast+
  show "length ys = n" by (simp add: ys_def n_def)
qed

lemma ok_cancel_timer:
  assumes "mgr_ok w" "a \<in> set (mg_txns w)"
  shows "mgr_ok (cancel_timer a w)" "\<forall>x\<in>set (mg_timers (cancel_timer a w)). fst (snd x) \<noteq> a"
    "tx_cancelled (mg_mem (cancel_timer a w) b) = tx_cancelled (mg_mem w b)"
    "tx_on_complete (mg_mem (cancel_timer a w) b) = tx_on_complete (mg_mem w b)"
    "tx_ctx (mg_mem (cancel_timer a w) b) = tx_ctx (mg_mem w b)"
    "mg_freed (cancel_timer a w) = mg_freed w" "mg_log (cancel_timer a w) = mg_log w"
    "tx_timer (mg_mem (cancel_timer a w) a) = None"
proof -
  show "mgr_ok (cancel_timer a w)" "\<forall>x\<in>set (mg_timers (cancel_timer a w)). fst (snd x) \<noteq> a"
    using ok_disarm [OF assms] okD(3) [OF assms(1)] assms(1)
    by (auto simp: cancel_timer_def split: option.split) fastforce
qed (auto simp: cancel_timer_def set_txn_def split: option.split)

definition drop_slot :: "nat \<Rightarrow> nat list \<Rightarrow> nat list" where
  "drop_slot i xs = take (length xs - 1) (if i < length xs - 1 then xs[i := xs ! (length xs - 1)] else xs)"

lemma ok_removed:
  assumes ok: "mgr_ok w" and i: "i < length (mg_txns w)" and a: "mg_txns w ! i = a"
    and none: "\<forall>x\<in>set (mg_timers w). fst (snd x) \<noteq> a" and evs: "evs = [] \<or> (\<exists>c m. evs = [Ev_txn_complete a c m])"
  shows "mgr_ok (w\<lparr>mg_mem := (mg_mem w)(a := t), mg_log := mg_log w @ evs,
    mg_txns := drop_slot i (mg_txns w), mg_freed := a # mg_freed w\<rparr>)" (is "mgr_ok ?w")
proof -
  have d: "distinct (mg_txns w)" and ain: "a \<in> set (mg_txns w)"
    using ok i a by (auto simp: mgr_ok_def mgr_shape_def)
  have rs: "distinct (drop_slot i (mg_txns w))" "set (drop_slot i (mg_txns w)) = set (mg_txns w) - {a}"
    "length (drop_slot i (mg_txns w)) = length (mg_txns w) - 1"
    using removed_slot [OF d i] unfolding a drop_slot_def by simp_all
  have rs_mem: "b \<in> set (drop_slot i (mg_txns w)) \<longleftrightarrow> b \<in> set (mg_txns w) \<and> b \<noteq> a" for b using rs(2) by auto
  have "mgr_shape ?w"
    using ok none rs ain evs unfolding mgr_ok_def mgr_shape_def by auto
  moreover have "accounted ?w b" for b
  proof (cases "b = a")
    case True
    have n: "completions a (mg_log w) \<le> (if timed_out a (mg_log w) then 1 else 0)" "a < mg_next w"
      using okD(4) [OF ok, of a] okD(1) [OF ok ain] ain by (simp_all add: accounted_def completions_def)
    show ?thesis
      using evs n by (elim disjE exE) (simp_all add: True accounted_def rs(2) split: if_splits)
  next
    case False
    have "accounted w b" by (rule okD(4) [OF ok])
    moreover have "calls b evs = []" "completions b evs = 0" "\<not> timed_out b evs" using evs False by auto
    ultimately show ?thesis using False by (simp add: accounted_def rs_mem)
  qed
  ultimately show ?thesis unfolding mgr_ok_def by blast
qed

lemma ok_txn_free:
  assumes ok: "mgr_ok w" and i: "i < length (mg_txns w)"
  shows "mgr_ok (txn_free i w)"
proof -
  let ?a = "mg_txns w ! i"
  have a: "?a \<in> set (mg_txns w)" "?a \<notin> set (mg_freed w)" using i okD(1) [OF ok] by auto
  define w1 where "w1 = cancel_timer ?a w"
  note c = ok_cancel_timer [OF ok a(1), folded w1_def]
  let ?nt = "\<not> tx_cancelled (mg_mem w1 ?a) \<and> tx_on_complete (mg_mem w1 ?a)"
  have w1: "mg_txns w1 = mg_txns w" by (simp add: w1_def)
  have eq: "txn_free i w = w1\<lparr>mg_mem := (mg_mem w1)(?a := if ?nt then (mg_mem w1 ?a)\<lparr>tx_cancelled := True\<rparr> else mg_mem w1 ?a),
      mg_log := mg_log w1 @ (if ?nt then [Ev_txn_complete ?a (tx_ctx (mg_mem w1 ?a)) None] else []),
      mg_txns := drop_slot i (mg_txns w1), mg_freed := ?a # mg_freed w1\<rparr>"
    using a(2) by (simp add: txn_free_def touch_live w1_def [symmetric] w1 Let_def txn_steps drop_slot_def)
  show ?thesis unfolding eq by (rule ok_removed [OF c(1) _ _ c(2)]) (use i w1 in auto)
qed

lemma ok_cancel_all: "mgr_ok w \<Longrightarrow> mgr_ok (xStunTxnMgrCancelAll w)"
proof (induction w rule: xStunTxnMgrCancelAll.induct)
  case (1 w)
  then show ?case
    using ok_txn_free [of w 0] by (subst xStunTxnMgrCancelAll.simps) auto
qed


lemma find_id_Some: "find_id mem tid xs = Some i \<Longrightarrow> i < length xs \<and> tx_id (mem (xs ! i)) = tid"
  by (induction xs arbitrary: i) (auto split: if_splits)

lemma txn_find_ok: "mgr_ok w \<Longrightarrow> txn_find tid w = (find_id (mg_mem w) tid (mg_txns w), w)"
  using okD(1) [of w] by (auto simp: txn_find_def Let_def split: option.split
      intro!: fold_touch_live dest: in_set_takeD)

text \<open>What a response does to the transaction in slot \<open>i\<close> that has its id.\<close>

lemma response_run:
  assumes ok: "mgr_ok w" and f: "find_id (mg_mem w) (st_txn_id msg) (mg_txns w) = Some i"
    and a: "a = mg_txns w ! i"
  defines "w1 \<equiv> cancel_timer a w"
  shows "xStunTxnMgrOnResponse (Some msg) w = (True, w1\<lparr>mg_mem := (mg_mem w1)(a := (mg_mem w1 a)\<lparr>tx_cancelled := True\<rparr>),
    mg_log := mg_log w1 @ (if tx_on_complete (mg_mem w a) then [Ev_txn_complete a (tx_ctx (mg_mem w a)) (Some msg)] else []),
    mg_txns := drop_slot i (mg_txns w1), mg_freed := a # mg_freed w1\<rparr>)"
proof -
  have i: "i < length (mg_txns w)" using find_id_Some [OF f] by simp
  then have ain: "a \<in> set (mg_txns w)" "a \<notin> set (mg_freed w)" using okD(1) [OF ok] by (auto simp: a)
  note c = ok_cancel_timer [OF ok ain(1), folded w1_def]
  define w2 where "w2 = set_txn a (\<lambda>t. t\<lparr>tx_cancelled := True\<rparr>) w1"
  have w2: "mg_txns w2 = mg_txns w" "tx_cancelled (mg_mem w2 a)" "mg_freed w2 = mg_freed w" "tx_timer (mg_mem w2 a) = None"
    using c(6,8) by (simp_all add: w2_def set_txn_def w1_def)
  then have "txn_free i w2 = w2\<lparr>mg_txns := drop_slot i (mg_txns w2), mg_freed := a # mg_freed w2\<rparr>"
    using ain a by (simp add: txn_free_def touch_live cancel_timer_def drop_slot_def Let_def)
  then show ?thesis
    using c(4,5) by (simp add: xStunTxnMgrOnResponse_def txn_find_ok [OF ok] f a [symmetric] w1_def [symmetric]
        w2_def [symmetric] Let_def) (simp add: w2_def set_txn_def txn_log_def)
qed

lemma ok_response:
  assumes ok: "mgr_ok w"
  shows "mgr_ok (snd (xStunTxnMgrOnResponse msg w))"
proof (cases msg)
  case None
  with ok show ?thesis by (simp add: xStunTxnMgrOnResponse_def)
next
  case (Some m)
  show ?thesis
  proof (cases "find_id (mg_mem w) (st_txn_id m) (mg_txns w)")
    case None
    with ok Some show ?thesis by (simp add: xStunTxnMgrOnResponse_def txn_find_ok)
  next
    case f: (Some i)
    let ?a = "mg_txns w ! i"
    have i: "i < length (mg_txns w)" using find_id_Some [OF f] by simp
    then have a: "?a \<in> set (mg_txns w)" by simp
    note c = ok_cancel_timer [OF ok a]
    show ?thesis
      using ok_removed [OF c(1) _ _ c(2), of i] i
      unfolding Some response_run [OF ok f refl] by auto
  qed
qed

lemma ok_allocs: "mgr_ok (w\<lparr>mg_allocs := as\<rparr>) = mgr_ok w"
  by (simp add: mgr_ok_def mgr_shape_def accounted_def)

lemma ok_send: "mgr_ok w \<Longrightarrow> mgr_ok (snd (xStunTxnMgrSend random sent type attrs n dest cb ctx w))"
  by (auto simp: xStunTxnMgrSend_def Let_def ok_allocs split: option.split prod.split intro!: ok_start)

lemma ok_send_raw: "mgr_ok w \<Longrightarrow> mgr_ok (snd (xStunTxnMgrSendRaw sent msg len dest cb ctx w))"
  by (auto simp: xStunTxnMgrSendRaw_def Let_def ok_allocs split: option.split prod.split intro!: ok_start)

lemma txn_ok_move: "txn_move w w1 \<Longrightarrow> mgr_ok w \<Longrightarrow> mgr_ok w1"
  by (induction rule: txn_move.induct) (simp_all add: ok_send ok_send_raw txn_ok_fire ok_response ok_cancel_all)

lemma ok_init: "mgr_ok (xStunTxnMgrInit as)"
  by (simp add: mgr_ok_def mgr_shape_def accounted_def xStunTxnMgrInit_def)

lemma txn_ok_reaches: "txn_reaches w w1 \<Longrightarrow> mgr_ok w \<Longrightarrow> mgr_ok w1"
  by (induction rule: txn_reaches.induct) (simp_all add: txn_ok_move)


section \<open>A request nobody answers\<close>

text \<open>The next timer of a transaction expires.\<close>

definition txn_expire :: "nat \<Rightarrow> xStunTxnMgr \<Rightarrow> xStunTxnMgr" where
  "txn_expire a w = (case find (\<lambda>x. fst (snd x) = a) (mg_timers w) of None \<Rightarrow> w | Some x \<Rightarrow> fire_timer x w)"

definition armed_delay :: "nat \<Rightarrow> xStunTxnMgr \<Rightarrow> 32 word option" where
  "armed_delay a w = map_option (snd \<circ> snd) (find (\<lambda>x. fst (snd x) = a) (mg_timers w))"

text \<open>After \<open>k\<close> retransmissions.\<close>

definition txn_waiting :: "nat \<Rightarrow> nat \<Rightarrow> octets \<Rightarrow> txn_event list \<Rightarrow> nat \<Rightarrow> xStunTxnMgr \<Rightarrow> bool" where
  "txn_waiting a c d log k w \<longleftrightarrow>
     mgr_ok w \<and> a \<in> set (mg_txns w) \<and> mg_allocs w = []
   \<and> (\<exists>h rest. mg_timers w = (h, a, 500 * 2 ^ k) # rest)
   \<and> (let t = mg_mem w a in \<not> tx_cancelled t \<and> tx_on_complete t \<and> tx_ctx t = c \<and> tx_retransmit_count t = k \<and> tx_rto_ms t = 500 * 2 ^ k
        \<and> take (tx_msg_len t) (tx_msg_buf t) = d)
   \<and> mg_log w = log @ replicate (Suc k) (Ev_txn_send a d)"

lemma waiting_fire:
  assumes "txn_waiting a c d log k w"
  shows "txn_expire a w = fire_timer (hd (mg_timers w)) w" "hd (mg_timers w) \<in> set (mg_timers w)"
    "fst (snd (hd (mg_timers w))) = a" "armed_delay a w = Some (500 * 2 ^ k)"
  using assms by (auto simp: txn_waiting_def txn_expire_def armed_delay_def)

lemma waiting_step:
  assumes k: "k < 7" and w: "txn_waiting a c d log k w"
  shows "txn_waiting a c d log (Suc k) (txn_expire a w)"
proof -
  have ok: "mgr_ok (txn_expire a w)"
    using w waiting_fire(1,2) [OF w] by (simp add: txn_ok_fire txn_waiting_def)
  obtain h rest where t: "mg_timers w = (h, a, 500 * 2 ^ k) # rest" using w by (auto simp: txn_waiting_def)
  have a: "a \<in> set (mg_txns w)" "a \<notin> set (mg_freed w)"
    using w okD(1) [of w a] by (auto simp: txn_waiting_def)
  have "txn_expire a w = fire_timer (h, a, 500 * 2 ^ k) w" using waiting_fire(1) [OF w] t by simp
  then show ?thesis
    using w k a ok unfolding txn_waiting_def
    by (simp add: fire_timer_def txn_retransmit_def touch_txn_def XSTUN_MAX_RETRANSMITS_def txn_schedule_retransmit_def
        set_txn_def txn_log_def Let_def replicate_append_same)
qed

lemma waiting_last:
  assumes w: "txn_waiting a c d log 7 w"
  shows "mg_log (txn_expire a w) = log @ replicate 8 (Ev_txn_send a d) @ [Ev_txn_timeout a, Ev_txn_complete a c None]"
    "mg_txns (txn_expire a w) = mg_txns w" "tx_cancelled (mg_mem (txn_expire a w) a)" "armed_delay a (txn_expire a w) = None"
    "tx_id (mg_mem (txn_expire a w) b) = tx_id (mg_mem w b)" "tx_on_complete (mg_mem (txn_expire a w) a)"
proof -
  obtain h rest where t: "mg_timers w = (h, a, 500 * 2 ^ 7) # rest" using w by (auto simp: txn_waiting_def)
  have ok: "mgr_ok w" and a: "a \<in> set (mg_txns w)" "a \<notin> set (mg_freed w)"
    using w okD(1) [of w a] by (auto simp: txn_waiting_def)
  have th: "tx_timer (mg_mem w a) = Some h" using okD(3) [OF ok, of "(h, a, 500 * 2 ^ 7)"] t by simp
  have gone: "x \<in> set (mg_timers w) \<Longrightarrow> fst (snd x) = a \<Longrightarrow> fst x = h" for x
    using okD(3) [OF ok, of x] th by auto
  have e: "txn_expire a w = fire_timer (h, a, 500 * 2 ^ 7) w" using waiting_fire(1) [OF w] t by simp
  have "find (\<lambda>x. fst (snd x) = a) (filter (\<lambda>x. fst x \<noteq> h) (mg_timers w)) = None"
    using gone by (auto simp: find_None_iff)
  then show "mg_log (txn_expire a w) = log @ replicate 8 (Ev_txn_send a d) @ [Ev_txn_timeout a, Ev_txn_complete a c None]"
    "mg_txns (txn_expire a w) = mg_txns w" "tx_cancelled (mg_mem (txn_expire a w) a)" "armed_delay a (txn_expire a w) = None"
    "tx_id (mg_mem (txn_expire a w) b) = tx_id (mg_mem w b)" "tx_on_complete (mg_mem (txn_expire a w) a)"
    using w a unfolding e txn_waiting_def armed_delay_def
    by (simp_all add: fire_timer_def txn_retransmit_def touch_txn_def XSTUN_MAX_RETRANSMITS_def
        set_txn_def txn_log_def notify_def Let_def)
qed

lemma waiting_iterate: "txn_waiting a c d log 0 w \<Longrightarrow> k \<le> 7 \<Longrightarrow> txn_waiting a c d log k ((txn_expire a ^^ k) w)"
  by (induction k) (simp_all add: waiting_step)

lemma send_raw_waits:
  assumes ok: "mgr_ok w" and full: "mg_allocs w = []"
    and run: "xStunTxnMgrSendRaw xErrno_Ok (Some msg) len (Some dest) True c w = (xErrno_Ok, w1)" and len: "len \<le> length msg"
  shows "txn_waiting (mg_next w) c (take len msg) (mg_log w) 0 w1" "mg_txns w1 = mg_txns w @ [mg_next w]"
    "tx_id (mg_mem w1 (mg_next w)) = take 12 (drop 8 msg)"
proof -
  have room: "20 \<le> len" "len \<le> XSTUN_MAX_MSG_SIZE" "length (mg_txns w) < XSTUN_TXN_MAX" "sockaddr_len dest \<noteq> 0"
    using run by (auto simp: xStunTxnMgrSendRaw_def full start_txn_def Let_def split: if_splits)
  have "mgr_ok w1" using ok_send_raw [OF ok, of xErrno_Ok "Some msg" len "Some dest" True c] run by simp
  then show "txn_waiting (mg_next w) c (take len msg) (mg_log w) 0 w1" "mg_txns w1 = mg_txns w @ [mg_next w]"
    "tx_id (mg_mem w1 (mg_next w)) = take 12 (drop 8 msg)"
    using run room len full
    by (auto simp: xStunTxnMgrSendRaw_def start_txn_def txn_waiting_def txn_schedule_retransmit_def
        set_txn_def txn_log_def store_at_def XSTUN_INITIAL_RTO_MS_def Let_def)
qed


section \<open>Properties\<close>

text \<open>
  C25. Along every sequence of sends, timer expiries, responses and cancellations, with any outcome of
  allocations, timers and sends: no freed transaction is used, every armed timer belongs to a live
  transaction in one of the at most 32 slots, and a transaction's callback is called at most once
  unless it had timed out, and at most twice then.
\<close>

theorem stun_txn_safe:
  assumes "txn_reaches (xStunTxnMgrInit as) w"
  shows "(\<forall>a. Ev_txn_use_after_free a \<notin> set (mg_log w))
    \<and> distinct (mg_txns w) \<and> length (mg_txns w) \<le> 32
    \<and> (\<forall>x\<in>set (mg_timers w). fst (snd x) \<in> set (mg_txns w) \<and> fst (snd x) \<notin> set (mg_freed w))
    \<and> (\<forall>a. completions a (mg_log w) \<le> (if timed_out a (mg_log w) then 2 else 1))"
proof -
  have ok: "mgr_ok w" using txn_ok_reaches [OF assms ok_init] .
  have "completions a (mg_log w) \<le> (if timed_out a (mg_log w) then 2 else 1)" for a
    using okD(4) [OF ok, of a] unfolding accounted_def completions_def
    by (cases "a \<in> set (mg_txns w)"; cases "a \<in> set (mg_freed w)") auto
  moreover have "mgr_shape w" using ok by (simp add: mgr_ok_def)
  ultimately show ?thesis using okD(1,3) [OF ok] by (auto simp: mgr_shape_def XSTUN_TXN_MAX_def)
qed

theorem stun_txn_safe_witness:
  "\<exists>w. txn_reaches (xStunTxnMgrInit [True]) w
     \<and> (\<forall>a. completions a (mg_log w) \<le> (if timed_out a (mg_log w) then 2 else 1))"
proof (intro exI conjI)
  let ?w = "snd (xStunTxnMgrSendRaw xErrno_Ok (Some (replicate 20 0)) 20 (Some (sockaddr_in 1 2)) True 9 (xStunTxnMgrInit [True]))"
  show r: "txn_reaches (xStunTxnMgrInit [True]) ?w" by (rule txn_there [OF txn_here move_send_raw])
  show "\<forall>a. completions a (mg_log ?w) \<le> (if timed_out a (mg_log ?w) then 2 else 1)"
    using stun_txn_safe [OF r] by blast
qed

text \<open>
  C28. A request that is accepted and never answered is sent eight times, the delays before the
  retransmissions and the timeout double from 500 ms to 64 s, then its callback is called once with
  no message; no timer is left, and it still occupies its slot.
\<close>

theorem stun_txn_unanswered:
  assumes "txn_reaches (xStunTxnMgrInit as) w" "mg_allocs w = []" "len \<le> length msg"
    and "xStunTxnMgrSendRaw xErrno_Ok (Some msg) len (Some dest) True c w = (xErrno_Ok, w1)" "a = mg_next w"
    and "w9 = (txn_expire a ^^ 8) w1"
  shows "(\<forall>k\<le>7. armed_delay a ((txn_expire a ^^ k) w1) = Some (500 * 2 ^ k)) \<and> armed_delay a w9 = None
    \<and> mg_log w9 = mg_log w @ replicate 8 (Ev_txn_send a (take len msg)) @ [Ev_txn_timeout a, Ev_txn_complete a c None]
    \<and> a \<in> set (mg_txns w9)"
proof -
  have ok: "mgr_ok w" using txn_ok_reaches [OF assms(1) ok_init] .
  note s = send_raw_waits [OF ok assms(2,4,3), folded assms(5)]
  have w: "txn_waiting a c (take len msg) (mg_log w) k ((txn_expire a ^^ k) w1)" if "k \<le> 7" for k
    using waiting_iterate [OF s(1) that] .
  note last = waiting_last [OF w [of 7, simplified]]
  have w9: "w9 = txn_expire a ((txn_expire a ^^ 7) w1)" unfolding assms(6) by (simp add: eval_nat_numeral)
  have "\<forall>k\<le>7. armed_delay a ((txn_expire a ^^ k) w1) = Some (500 * 2 ^ k)"
    using waiting_fire(4) [OF w] by blast
  moreover have "a \<in> set (mg_txns w9)" using last(2) w [of 7] by (simp add: w9 txn_waiting_def)
  ultimately show ?thesis using last(1,4) by (simp add: w9)
qed

theorem stun_txn_unanswered_witness:
  "\<exists>w1. xStunTxnMgrSendRaw xErrno_Ok (Some (replicate 20 0)) 20 (Some (sockaddr_in 1 2)) True 9 (xStunTxnMgrInit [])
      = (xErrno_Ok, w1)
    \<and> mg_log ((txn_expire 0 ^^ 8) w1) = replicate 8 (Ev_txn_send 0 (replicate 20 0)) @ [Ev_txn_timeout 0, Ev_txn_complete 0 9 None]"
proof -
  obtain w1 where send: "xStunTxnMgrSendRaw xErrno_Ok (Some (replicate 20 0)) 20 (Some (sockaddr_in 1 2)) True 9
      (xStunTxnMgrInit []) = (xErrno_Ok, w1)"
    by (simp add: xStunTxnMgrSendRaw_def start_txn_def xStunTxnMgrInit_def XSTUN_MAX_MSG_SIZE_def XSTUN_TXN_MAX_def
        sockaddr_len_def Let_def)
  have "mg_log ((txn_expire 0 ^^ 8) w1) = mg_log (xStunTxnMgrInit [])
      @ replicate 8 (Ev_txn_send 0 (take 20 (replicate 20 0))) @ [Ev_txn_timeout 0, Ev_txn_complete 0 9 None]"
    using stun_txn_unanswered [OF txn_here _ _ send _ refl, of 0] by (simp add: xStunTxnMgrInit_def)
  with send show ?thesis by (simp add: xStunTxnMgrInit_def)
qed

text \<open>
  C12. A response that arrives after the timeout completes the transaction a second time, and both
  completions hand the callback the same context: the timeout calls it and leaves the transaction in
  its slot, the response finds it there and calls it again. (\<^verbatim>\<open>on_check_response\<close> and
  \<^verbatim>\<open>on_srflx_response\<close> of \<^verbatim>\<open>ice_agent.c\<close> free the context whenever they are called.)
\<close>

theorem stun_txn_late_response:
  assumes "txn_reaches (xStunTxnMgrInit as) w" "a \<in> set (mg_txns w)" "timed_out a (mg_log w)"
    and "tx_on_complete (mg_mem w a)" "find_id (mg_mem w) (st_txn_id msg) (mg_txns w) = Some i" "mg_txns w ! i = a"
    and "xStunTxnMgrOnResponse (Some msg) w = (r, w1)"
  shows "r \<and> calls a (mg_log w) = [Ev_txn_complete a (tx_ctx (mg_mem w a)) None]
    \<and> mg_log w1 = mg_log w @ [Ev_txn_complete a (tx_ctx (mg_mem w a)) (Some msg)]
    \<and> completions a (mg_log w1) = 2"
proof -
  have ok: "mgr_ok w" using txn_ok_reaches [OF assms(1) ok_init] .
  have one: "calls a (mg_log w) = [Ev_txn_complete a (tx_ctx (mg_mem w a)) None]"
    using okD(4) [OF ok, of a] assms(2-4) by (simp add: accounted_def)
  have "mg_log w1 = mg_log w @ [Ev_txn_complete a (tx_ctx (mg_mem w a)) (Some msg)] \<and> r"
    using assms(7) ok_cancel_timer(7) [OF ok assms(2)] assms(4)
    unfolding response_run [OF ok assms(5) assms(6) [symmetric]] by auto
  with one show ?thesis by (simp add: completions_def)
qed

text \<open>A run that reaches such a state.\<close>

lemma expire_reaches:
  "txn_reaches w w1 \<Longrightarrow> txn_waiting a c d log 0 w1 \<Longrightarrow> k \<le> 8 \<Longrightarrow> txn_reaches w ((txn_expire a ^^ k) w1)"
proof (induction k)
  case (Suc k)
  then have r: "txn_reaches w ((txn_expire a ^^ k) w1)" and w: "txn_waiting a c d log k ((txn_expire a ^^ k) w1)"
    by (simp_all add: waiting_iterate)
  show ?case
    using txn_there [OF r move_timer [OF waiting_fire(2) [OF w]]] waiting_fire(1) [OF w] by simp
qed simp

lemma expire_keeps:
  "mg_txns ((txn_expire a ^^ k) w) = mg_txns w" "tx_id (mg_mem ((txn_expire a ^^ k) w) b) = tx_id (mg_mem w b)"
proof -
  have "tx_id (mg_mem (txn_schedule_retransmit c v) b) = tx_id (mg_mem v b)" for c v
    by (cases rule: schedule_cases [of c v]) (simp_all add: set_txn_def)
  then have "tx_id (mg_mem (txn_expire a v) b) = tx_id (mg_mem v b)" "mg_txns (txn_expire a v) = mg_txns v" for v
    by (simp_all add: txn_expire_def fire_timer_def txn_retransmit_def touch_txn_def notify_def set_txn_def txn_log_def
        Let_def split: option.split prod.split)
  then show "mg_txns ((txn_expire a ^^ k) w) = mg_txns w" "tx_id (mg_mem ((txn_expire a ^^ k) w) b) = tx_id (mg_mem w b)"
    by (induction k) simp_all
qed

theorem stun_txn_late_response_witness:
  "\<exists>w r w1. txn_reaches (xStunTxnMgrInit []) w
     \<and> xStunTxnMgrOnResponse (Some (xStunMsgInit 0x0101 (replicate 12 0))) w = (r, w1)
     \<and> completions 0 (mg_log w) = 1 \<and> completions 0 (mg_log w1) = 2"
proof -
  let ?i = "xStunTxnMgrInit []" and ?m = "xStunMsgInit 0x0101 (replicate 12 0)"
  obtain w1 where send: "xStunTxnMgrSendRaw xErrno_Ok (Some (replicate 20 0)) 20 (Some (sockaddr_in 1 2)) True 9 ?i
      = (xErrno_Ok, w1)"
    by (simp add: xStunTxnMgrSendRaw_def start_txn_def xStunTxnMgrInit_def XSTUN_MAX_MSG_SIZE_def XSTUN_TXN_MAX_def
        sockaddr_len_def Let_def)
  have n: "mg_next ?i = 0" "mg_allocs ?i = []" "mg_txns ?i = []" "mg_log ?i = []" by (simp_all add: xStunTxnMgrInit_def)
  have len: "20 \<le> length (replicate 20 (0 :: 8 word))" by simp
  note s = send_raw_waits [OF ok_init n(2) send len, unfolded n]
  let ?w = "(txn_expire 0 ^^ 8) w1"
  have "txn_reaches ?i w1" using txn_there [OF txn_here move_send_raw] send by (metis snd_conv)
  then have r: "txn_reaches ?i ?w" using expire_reaches s(1) by simp
  have w7: "txn_waiting 0 9 (take 20 (replicate 20 0)) [] 7 ((txn_expire 0 ^^ 7) w1)"
    using waiting_iterate [OF s(1)] by simp
  have w8: "?w = txn_expire 0 ((txn_expire 0 ^^ 7) w1)" by (simp add: eval_nat_numeral)
  note l = waiting_last [OF w7, folded w8]
  have ids: "tx_id (mg_mem ?w 0) = replicate 12 0 \<and> mg_txns ?w = [0]"
    using s(2,3) by (simp add: expire_keeps)
  obtain b w2 where resp: "xStunTxnMgrOnResponse (Some ?m) ?w = (b, w2)" by fastforce
  have "find_id (mg_mem ?w) (st_txn_id ?m) (mg_txns ?w) = Some 0"
    using ids by (simp add: xStunMsgInit_def)
  then have "completions 0 (mg_log ?w) = 1 \<and> completions 0 (mg_log w2) = 2"
    using stun_txn_late_response [OF r _ _ l(6) _ _ resp] ids l(1) by auto
  with r resp show ?thesis by blast
qed

end
