(* ===== verification/DataChannel.thy ===== *)
theory DataChannel
  imports Digest
begin

text \<open>
  \<^verbatim>\<open>p2p/datachannel.c\<close>: data channels over an SCTP transport (RFC 8832). A channel is named by its
  position in the manager's array, from which an entry is removed only when its creation fails. The
  transport is an input: the list \<open>m_results\<close> holds the outcomes of the sends to come. What is sent and what the host
  is told is kept in a log. A label or protocol is the C string in its array.
\<close>

unbundle bit_operations_syntax

section \<open>Constants and structures\<close>

definition XDC_MAX_LABEL_LEN :: nat where "XDC_MAX_LABEL_LEN = 256"
definition XDC_MAX_PROTOCOL_LEN :: nat where "XDC_MAX_PROTOCOL_LEN = 256"
definition XDC_MAX_CHANNELS :: nat where "XDC_MAX_CHANNELS = 64"
definition XDCEP_DATA_CHANNEL_OPEN :: "8 word" where "XDCEP_DATA_CHANNEL_OPEN = 0x03"
definition XDCEP_DATA_CHANNEL_ACK :: "8 word" where "XDCEP_DATA_CHANNEL_ACK = 0x02"
definition XDCEP_CHANNEL_RELIABLE :: "8 word" where "XDCEP_CHANNEL_RELIABLE = 0x00"
definition XDCEP_CHANNEL_RELIABLE_UNORDERED :: "8 word" where "XDCEP_CHANNEL_RELIABLE_UNORDERED = 0x80"
definition XDCEP_CHANNEL_PARTIAL_RTXS :: "8 word" where "XDCEP_CHANNEL_PARTIAL_RTXS = 0x01"
definition XDCEP_CHANNEL_PARTIAL_RTXS_UNORDERED :: "8 word" where "XDCEP_CHANNEL_PARTIAL_RTXS_UNORDERED = 0x81"
definition XDCEP_CHANNEL_PARTIAL_TIME :: "8 word" where "XDCEP_CHANNEL_PARTIAL_TIME = 0x02"
definition XDCEP_CHANNEL_PARTIAL_TIME_UNORDERED :: "8 word" where "XDCEP_CHANNEL_PARTIAL_TIME_UNORDERED = 0x82"
definition XSCTP_PPID_DCEP :: "32 word" where "XSCTP_PPID_DCEP = 50"
definition XSCTP_PPID_STRING :: "32 word" where "XSCTP_PPID_STRING = 51"
definition XSCTP_PPID_BINARY :: "32 word" where "XSCTP_PPID_BINARY = 53"
definition XSCTP_PPID_STRING_EMPTY :: "32 word" where "XSCTP_PPID_STRING_EMPTY = 56"
definition XSCTP_PPID_BINARY_EMPTY :: "32 word" where "XSCTP_PPID_BINARY_EMPTY = 57"

datatype xDataChannelState =
    xDataChannelState_Connecting | xDataChannelState_Open | xDataChannelState_Closing | xDataChannelState_Closed

datatype xDataChannelMsgType = xDataChannelMsgType_String | xDataChannelMsgType_Binary

record xDataChannelConf =
  dcf_label :: octets
  dcf_protocol :: octets
  dcf_ordered :: bool
  dcf_max_retransmits :: "16 word"
  dcf_max_packet_life_time :: "16 word"

record xDataChannel =
  ch_stream_id :: "16 word"
  ch_state :: xDataChannelState
  ch_conf :: xDataChannelConf
  ch_buffered_amount :: nat
  ch_low_threshold :: nat

datatype dc_event =
    D_sent "16 word" "32 word" octets bool
  | D_close_stream "16 word"
  | D_remote_open nat
  | D_open nat
  | D_message nat xDataChannelMsgType octets
  | D_closed nat
  | D_amount_low nat

record xDataChannelMgr =
  m_channels :: "xDataChannel list"
  m_next_stream_id :: "16 word"
  m_allocs :: allocs
  m_results :: "xErrno list"
  m_log :: "dc_event list"

section \<open>The control messages\<close>

definition channel_type :: "xDataChannelConf \<Rightarrow> 8 word" where
  "channel_type c = (if dcf_max_retransmits c > 0
     then (if dcf_ordered c then XDCEP_CHANNEL_PARTIAL_RTXS else XDCEP_CHANNEL_PARTIAL_RTXS_UNORDERED)
     else if dcf_max_packet_life_time c > 0
     then (if dcf_ordered c then XDCEP_CHANNEL_PARTIAL_TIME else XDCEP_CHANNEL_PARTIAL_TIME_UNORDERED)
     else (if dcf_ordered c then XDCEP_CHANNEL_RELIABLE else XDCEP_CHANNEL_RELIABLE_UNORDERED))"

definition reliability :: "xDataChannelConf \<Rightarrow> 32 word" where
  "reliability c = (if dcf_max_retransmits c > 0 then ucast (dcf_max_retransmits c)
     else if dcf_max_packet_life_time c > 0 then ucast (dcf_max_packet_life_time c) else 0)"

definition two_bytes :: "nat \<Rightarrow> octets" where
  "two_bytes n = [word_of_nat (n div 256), word_of_nat n]"

definition dcep_encode_open :: "xDataChannelConf \<Rightarrow> nat \<Rightarrow> octets option" where
  "dcep_encode_open conf cap = (let label_len = length (dcf_label conf); protocol_len = length (dcf_protocol conf) in
     if 12 + label_len + protocol_len > cap then None
     else Some ([XDCEP_DATA_CHANNEL_OPEN, channel_type conf, 0, 0] @ put_be32 (reliability conf) @
       two_bytes label_len @ two_bytes protocol_len @ dcf_label conf @ dcf_protocol conf))"

definition byte_pair :: "octets \<Rightarrow> nat \<Rightarrow> nat" where
  "byte_pair d i = unat (d ! i) * 256 + unat (d ! (i + 1))"

definition c_field :: "nat \<Rightarrow> nat \<Rightarrow> octets \<Rightarrow> octets" where
  "c_field n limit d = (if n > 0 \<and> n < limit then takeWhile (\<lambda>c. c \<noteq> 0) (take n d) else [])"

definition dcep_decode_open :: "octets \<Rightarrow> xErrno \<times> xDataChannelConf option" where
  "dcep_decode_open d = (if length d < 12 then (xErrno_InvalidArg, None)
     else if d ! 0 \<noteq> XDCEP_DATA_CHANNEL_OPEN then (xErrno_InvalidArg, None)
     else let ct = d ! 1; rel = get_be32 d 4; base_type = ct AND 0x7F;
              label_len = byte_pair d 8; proto_len = byte_pair d 10 in
       if 12 + label_len + proto_len > length d then (xErrno_InvalidArg, None)
       else (xErrno_Ok, Some \<lparr>dcf_label = c_field label_len XDC_MAX_LABEL_LEN (drop 12 d),
         dcf_protocol = c_field proto_len XDC_MAX_PROTOCOL_LEN (drop (12 + label_len) d),
         dcf_ordered = (ct AND 0x80 = 0),
         dcf_max_retransmits = (if base_type = 0x01 then ucast rel else 0),
         dcf_max_packet_life_time = (if base_type = 0x02 then ucast rel else 0)\<rparr>))"

definition dcep_encode_ack :: "nat \<Rightarrow> octets option" where
  "dcep_encode_ack cap = (if cap < 1 then None else Some [XDCEP_DATA_CHANNEL_ACK])"

section \<open>Manager\<close>

definition xDataChannelMgrCreate :: "bool \<Rightarrow> allocs \<Rightarrow> xErrno list \<Rightarrow> xDataChannelMgr option" where
  "xDataChannelMgrCreate has_sctp oracle results = (if \<not> has_sctp then None
     else (case draw oracle of (ok, rest) \<Rightarrow> if \<not> ok then None
       else Some \<lparr>m_channels = [], m_next_stream_id = 0, m_allocs = rest, m_results = results, m_log = []\<rparr>))"

definition dc_log :: "dc_event \<Rightarrow> xDataChannelMgr \<Rightarrow> xDataChannelMgr" where
  "dc_log e m = m\<lparr>m_log := m_log m @ [e]\<rparr>"

text \<open>\<^verbatim>\<open>xSctpTransportSend\<close>\<close>

definition sctp_send :: "16 word \<Rightarrow> 32 word \<Rightarrow> octets \<Rightarrow> bool \<Rightarrow> xDataChannelMgr \<Rightarrow> xErrno \<times> xDataChannelMgr" where
  "sctp_send sid ppid d ordered m = (case m_results m of
     [] \<Rightarrow> (xErrno_Ok, dc_log (D_sent sid ppid d ordered) m)
   | r # rs \<Rightarrow> (r, if r = xErrno_Ok then dc_log (D_sent sid ppid d ordered) (m\<lparr>m_results := rs\<rparr>) else m\<lparr>m_results := rs\<rparr>))"

definition find_channel :: "xDataChannelMgr \<Rightarrow> 16 word \<Rightarrow> nat option" where
  "find_channel m sid = find (\<lambda>i. ch_stream_id (m_channels m ! i) = sid) [0..<length (m_channels m)]"

definition set_state :: "nat \<Rightarrow> xDataChannelState \<Rightarrow> xDataChannelMgr \<Rightarrow> xDataChannelMgr" where
  "set_state i st m = m\<lparr>m_channels := (m_channels m)[i := (m_channels m ! i)\<lparr>ch_state := st\<rparr>]\<rparr>"

definition add_channel :: "16 word \<Rightarrow> xDataChannelConf \<Rightarrow> xDataChannelMgr \<Rightarrow> nat option \<times> xDataChannelMgr" where
  "add_channel sid conf m = (if length (m_channels m) \<ge> XDC_MAX_CHANNELS then (None, m)
     else (case draw (m_allocs m) of (ok, rest) \<Rightarrow> let m1 = m\<lparr>m_allocs := rest\<rparr> in
       if \<not> ok then (None, m1)
       else (Some (length (m_channels m1)), m1\<lparr>m_channels := m_channels m1 @
         [\<lparr>ch_stream_id = sid, ch_state = xDataChannelState_Connecting, ch_conf = conf,
           ch_buffered_amount = 0, ch_low_threshold = 0\<rparr>]\<rparr>)))"

definition on_remote_open :: "16 word \<Rightarrow> octets \<Rightarrow> xDataChannelMgr \<Rightarrow> xDataChannelMgr" where
  "on_remote_open sid d m = (case dcep_decode_open d of (err, conf) \<Rightarrow>
     if err \<noteq> xErrno_Ok then m
     else (case add_channel sid (the conf) m of
       (None, m1) \<Rightarrow> m1
     | (Some i, m1) \<Rightarrow> dc_log (D_open i) (dc_log (D_remote_open i)
         (set_state i xDataChannelState_Open (snd (sctp_send sid XSCTP_PPID_DCEP (the (dcep_encode_ack 1)) True m1))))))"

definition on_ack :: "16 word \<Rightarrow> xDataChannelMgr \<Rightarrow> xDataChannelMgr" where
  "on_ack sid m = (case find_channel m sid of
     Some i \<Rightarrow> if ch_state (m_channels m ! i) = xDataChannelState_Connecting
       then dc_log (D_open i) (set_state i xDataChannelState_Open m) else m
   | None \<Rightarrow> m)"

definition xDataChannelMgrOnData :: "16 word \<Rightarrow> 32 word \<Rightarrow> octets \<Rightarrow> xDataChannelMgr \<Rightarrow> xDataChannelMgr" where
  "xDataChannelMgrOnData sid ppid d m = (if ppid = XSCTP_PPID_DCEP then
       (if length d < 1 then m
        else if d ! 0 = XDCEP_DATA_CHANNEL_OPEN then on_remote_open sid d m
        else if d ! 0 = XDCEP_DATA_CHANNEL_ACK then on_ack sid m else m)
     else (case find_channel m sid of
         None \<Rightarrow> m
       | Some i \<Rightarrow> if ch_state (m_channels m ! i) \<noteq> xDataChannelState_Open then m
           else dc_log (D_message i (if ppid = XSCTP_PPID_STRING \<or> ppid = XSCTP_PPID_STRING_EMPTY
             then xDataChannelMsgType_String else xDataChannelMsgType_Binary) d) m))"

definition xDataChannelMgrOnStreamClose :: "16 word \<Rightarrow> xDataChannelMgr \<Rightarrow> xDataChannelMgr" where
  "xDataChannelMgrOnStreamClose sid m = (case find_channel m sid of None \<Rightarrow> m
     | Some i \<Rightarrow> dc_log (D_closed i) (set_state i xDataChannelState_Closed m))"

section \<open>Channels\<close>

definition xDataChannelCreate :: "xDataChannelConf \<Rightarrow> xDataChannelMgr \<Rightarrow> nat option \<times> xDataChannelMgr" where
  "xDataChannelCreate conf m = (let sid = m_next_stream_id m in
     (case add_channel sid conf (m\<lparr>m_next_stream_id := m_next_stream_id m + 2\<rparr>) of
       (None, m1) \<Rightarrow> (None, m1)
     | (Some i, m1) \<Rightarrow> (case dcep_encode_open conf 512 of
         None \<Rightarrow> (None, m1\<lparr>m_channels := butlast (m_channels m1)\<rparr>)
       | Some bs \<Rightarrow> (case sctp_send sid XSCTP_PPID_DCEP bs True m1 of (err, m2) \<Rightarrow>
           if err \<noteq> xErrno_Ok then (None, m2\<lparr>m_channels := butlast (m_channels m2)\<rparr>) else (Some i, m2)))))"

definition xDataChannelSendString :: "nat \<Rightarrow> octets \<Rightarrow> xDataChannelMgr \<Rightarrow> xErrno \<times> xDataChannelMgr" where
  "xDataChannelSendString i d m = (if ch_state (m_channels m ! i) \<noteq> xDataChannelState_Open then (xErrno_InvalidArg, m)
     else sctp_send (ch_stream_id (m_channels m ! i)) (if length d = 0 then XSCTP_PPID_STRING_EMPTY else XSCTP_PPID_STRING) d
       (dcf_ordered (ch_conf (m_channels m ! i))) m)"

definition xDataChannelSendBinary :: "nat \<Rightarrow> octets \<Rightarrow> xDataChannelMgr \<Rightarrow> xErrno \<times> xDataChannelMgr" where
  "xDataChannelSendBinary i d m = (if ch_state (m_channels m ! i) \<noteq> xDataChannelState_Open then (xErrno_InvalidArg, m)
     else (case sctp_send (ch_stream_id (m_channels m ! i)) (if length d = 0 then XSCTP_PPID_BINARY_EMPTY else XSCTP_PPID_BINARY) d
         (dcf_ordered (ch_conf (m_channels m ! i))) m of (err, m1) \<Rightarrow>
       (err, if err = xErrno_Ok
         then m1\<lparr>m_channels := (m_channels m1)[i := (m_channels m1 ! i)\<lparr>ch_buffered_amount := ch_buffered_amount (m_channels m1 ! i) + length d\<rparr>]\<rparr>
         else m1)))"

definition xDataChannelClose :: "nat \<Rightarrow> xDataChannelMgr \<Rightarrow> xDataChannelMgr" where
  "xDataChannelClose i m = (if ch_state (m_channels m ! i) = xDataChannelState_Closed then m
     else dc_log (D_close_stream (ch_stream_id (m_channels m ! i))) (set_state i xDataChannelState_Closing m))"

definition xDataChannelGetBufferedAmount :: "nat \<Rightarrow> xDataChannelMgr \<Rightarrow> nat" where
  "xDataChannelGetBufferedAmount i m = ch_buffered_amount (m_channels m ! i)"

definition xDataChannelSetBufferedAmountLowThreshold :: "nat \<Rightarrow> nat \<Rightarrow> xDataChannelMgr \<Rightarrow> xDataChannelMgr" where
  "xDataChannelSetBufferedAmountLowThreshold i t m =
     m\<lparr>m_channels := (m_channels m)[i := (m_channels m ! i)\<lparr>ch_low_threshold := t\<rparr>]\<rparr>"

text \<open>The loop over the channels: every open one is reset and told, whatever its threshold.\<close>

definition amount_low :: "nat \<Rightarrow> xDataChannelMgr \<Rightarrow> xDataChannelMgr" where
  "amount_low i m = (if ch_state (m_channels m ! i) \<noteq> xDataChannelState_Open then m
     else dc_log (D_amount_low i) (m\<lparr>m_channels := (m_channels m)[i := (m_channels m ! i)\<lparr>ch_buffered_amount := 0\<rparr>]\<rparr>))"

definition xDataChannelMgrOnBufferedAmountLow :: "xDataChannelMgr \<Rightarrow> xDataChannelMgr" where
  "xDataChannelMgrOnBufferedAmountLow m = fold amount_low [0..<length (m_channels m)] m"

section \<open>The control messages survive\<close>

definition same_reliability :: "xDataChannelConf \<Rightarrow> xDataChannelConf" where
  "same_reliability c = (if dcf_max_retransmits c > 0 then c\<lparr>dcf_max_packet_life_time := 0\<rparr> else c)"

lemma be32_roundtrip: "get_be32 (xs @ put_be32 v @ ys) (length xs) = v"
proof -
  have s: "(xs @ zs) ! (length xs + k) = zs ! k" for zs :: octets and k by (simp add: nth_append)
  have "get_be32 (put_be32 v @ ys) 0 = v"
  proof (rule bit_word_eqI)
    fix i :: nat assume i: "i < LENGTH(32)"
    consider "i < 8" | "8 \<le> i" "i < 16" | "16 \<le> i" "i < 24" | "24 \<le> i" by linarith
    then show "bit (get_be32 (put_be32 v @ ys) 0) i = bit v i"
      using i by cases (auto simp: get_be32_def put_be32_def bit_simps dest: bit_imp_le_length)
  qed
  then show ?thesis by (simp add: get_be32_def s [of _ 0, simplified] s [of _ 1, simplified] s [of _ 2, simplified] s [of _ 3] numeral_2_eq_2)
qed

lemma byte_pair_two: "n < 65536 \<Longrightarrow> byte_pair (xs @ two_bytes n @ ys) (length xs) = n"
proof -
  assume "n < 65536"
  then have "n div 256 < 256" by (simp add: div_less_iff_less_mult)
  then show ?thesis by (simp add: byte_pair_def two_bytes_def nth_append unat_of_nat take_bit_eq_mod)
qed

lemma be32_at: "length xs = n \<Longrightarrow> get_be32 (xs @ put_be32 v @ ys) n = v"
  using be32_roundtrip by blast

lemma byte_pair_at: "n < 65536 \<Longrightarrow> length xs = k \<Longrightarrow> byte_pair (xs @ two_bytes n @ ys) k = n"
  using byte_pair_two by blast

lemma channel_type_bits:
  "channel_type c AND 0x80 = 0 \<longleftrightarrow> dcf_ordered c"
  "channel_type c AND 0x7F = 1 \<longleftrightarrow> dcf_max_retransmits c > 0"
  "channel_type c AND 0x7F = 2 \<longleftrightarrow> dcf_max_retransmits c = 0 \<and> dcf_max_packet_life_time c > 0"
  by (auto simp: channel_type_def XDCEP_CHANNEL_PARTIAL_RTXS_def XDCEP_CHANNEL_PARTIAL_RTXS_UNORDERED_def
      XDCEP_CHANNEL_PARTIAL_TIME_def XDCEP_CHANNEL_PARTIAL_TIME_UNORDERED_def XDCEP_CHANNEL_RELIABLE_def
      XDCEP_CHANNEL_RELIABLE_UNORDERED_def word_gt_0)

lemma ucast_down_up: "(ucast (ucast (w :: 16 word) :: 32 word) :: 16 word) = w"
  by (rule bit_word_eqI) (auto simp: bit_ucast_iff)

lemma c_field_back: "0 \<notin> set l \<Longrightarrow> length l < limit \<Longrightarrow> c_field (length l) limit (l @ ys) = l"
  by (auto simp: c_field_def takeWhile_eq_all_conv)

lemma open_decoded:
  assumes "0 \<notin> set (dcf_label c)" "0 \<notin> set (dcf_protocol c)"
    and "length (dcf_label c) < XDC_MAX_LABEL_LEN" "length (dcf_protocol c) < XDC_MAX_PROTOCOL_LEN"
    and "12 + length (dcf_label c) + length (dcf_protocol c) \<le> cap"
  shows "\<exists>bs. dcep_encode_open c cap = Some bs \<and> length bs = 12 + length (dcf_label c) + length (dcf_protocol c) \<and>
    dcep_decode_open (bs @ ys) = (xErrno_Ok, Some (same_reliability c))"
proof -
  let ?l = "dcf_label c" and ?p = "dcf_protocol c"
  let ?h = "[XDCEP_DATA_CHANNEL_OPEN, channel_type c, 0, 0]"
  let ?bs = "?h @ put_be32 (reliability c) @ two_bytes (length ?l) @ two_bytes (length ?p) @ ?l @ ?p"
  have n: "length ?l < 256" "length ?p < 256" using assms(3,4) by (simp_all add: XDC_MAX_LABEL_LEN_def XDC_MAX_PROTOCOL_LEN_def)
  have len: "length (put_be32 v) = 4" "length (two_bytes k) = 2" for v k by (simp_all add: put_be32_def two_bytes_def)
  have rel: "get_be32 (?bs @ ys) 4 = reliability c"
    using be32_at [of ?h 4 "reliability c" "two_bytes (length ?l) @ two_bytes (length ?p) @ ?l @ ?p @ ys"] by simp
  have ll: "byte_pair (?bs @ ys) 8 = length ?l"
    using byte_pair_at [of "length ?l" "?h @ put_be32 (reliability c)" 8 "two_bytes (length ?p) @ ?l @ ?p @ ys"] n len by simp
  have pl: "byte_pair (?bs @ ys) 10 = length ?p"
    using byte_pair_at [of "length ?p" "?h @ put_be32 (reliability c) @ two_bytes (length ?l)" 10 "?l @ ?p @ ys"] n len by simp
  have tail: "drop 12 (?bs @ ys) = ?l @ ?p @ ys" using len by simp
  have "drop (12 + length ?l) (?bs @ ys) = drop (length ?l) (drop 12 (?bs @ ys))" by (simp only: drop_drop add.commute)
  then have tails: "drop 12 (?bs @ ys) = ?l @ ?p @ ys" "drop (12 + length ?l) (?bs @ ys) = ?p @ ys" unfolding tail by simp_all
  have first: "(?bs @ ys) ! 0 = XDCEP_DATA_CHANNEL_OPEN" "(?bs @ ys) ! 1 = channel_type c" by simp_all
  have size: "length (?bs @ ys) = 12 + length ?l + length ?p + length ys" using len by simp
  have small: "ucast (reliability c) = (if dcf_max_retransmits c > 0 then dcf_max_retransmits c else dcf_max_packet_life_time c)"
    by (auto simp: reliability_def ucast_down_up word_gt_0)
  have "dcep_decode_open (?bs @ ys) = (xErrno_Ok, Some (same_reliability c))"
    unfolding dcep_decode_open_def Let_def rel ll pl tails first size
    using c_field_back [OF assms(1,3), of "?p @ ys"] c_field_back [OF assms(2,4), of ys] channel_type_bits [of c]
      assms(1,2) by (auto simp: small same_reliability_def word_gt_0 intro: xDataChannelConf.equality)
  moreover have "dcep_encode_open c cap = Some ?bs" using assms(5) by (simp add: dcep_encode_open_def Let_def)
  moreover have "length ?bs = 12 + length ?l + length ?p" using len by simp
  ultimately show ?thesis by blast
qed

text \<open>
  The control message that opens a channel is read back by the peer: label, protocol, ordering and
  reliability are those of the channel, for every label and protocol that fits its field; where both limits of
  retransmission are set only the count survives, as RFC 8832 can carry one.
\<close>

theorem dcep_roundtrip:
  assumes "0 \<notin> set (dcf_label c)" "0 \<notin> set (dcf_protocol c)"
    and "length (dcf_label c) < XDC_MAX_LABEL_LEN" "length (dcf_protocol c) < XDC_MAX_PROTOCOL_LEN"
    and "12 + length (dcf_label c) + length (dcf_protocol c) \<le> cap"
  shows "\<exists>bs. dcep_encode_open c cap = Some bs \<and> length bs = 12 + length (dcf_label c) + length (dcf_protocol c) \<and>
    dcep_decode_open (bs @ ys) = (xErrno_Ok, Some (same_reliability c))"
  using assms by (rule open_decoded)

definition ex_channel_conf :: xDataChannelConf where
  "ex_channel_conf = \<lparr>dcf_label = [0x78], dcf_protocol = [], dcf_ordered = True, dcf_max_retransmits = 0, dcf_max_packet_life_time = 3\<rparr>"

theorem dcep_roundtrip_witness:
  "\<exists>bs. dcep_encode_open ex_channel_conf 512 = Some bs \<and> dcep_decode_open bs = (xErrno_Ok, Some (same_reliability ex_channel_conf))"
  using dcep_roundtrip [of ex_channel_conf 512 "[]"] by (auto simp: ex_channel_conf_def XDC_MAX_LABEL_LEN_def XDC_MAX_PROTOCOL_LEN_def)

section \<open>Runs of a manager\<close>

datatype dc_op =
    Op_create xDataChannelConf
  | Op_data "16 word" "32 word" octets
  | Op_stream_close "16 word"
  | Op_send_string nat octets
  | Op_send_binary nat octets
  | Op_close nat
  | Op_threshold nat nat
  | Op_amount_low

fun dc_step :: "dc_op \<Rightarrow> xDataChannelMgr \<Rightarrow> xDataChannelMgr" where
  "dc_step (Op_create c) m = snd (xDataChannelCreate c m)"
| "dc_step (Op_data sid ppid d) m = xDataChannelMgrOnData sid ppid d m"
| "dc_step (Op_stream_close sid) m = xDataChannelMgrOnStreamClose sid m"
| "dc_step (Op_send_string i d) m = snd (xDataChannelSendString i d m)"
| "dc_step (Op_send_binary i d) m = snd (xDataChannelSendBinary i d m)"
| "dc_step (Op_close i) m = xDataChannelClose i m"
| "dc_step (Op_threshold i t) m = xDataChannelSetBufferedAmountLowThreshold i t m"
| "dc_step Op_amount_low m = xDataChannelMgrOnBufferedAmountLow m"

text \<open>What a step may do: channels keep their streams, and a message goes to the first channel of a stream.\<close>

definition stream_ids :: "xDataChannelMgr \<Rightarrow> 16 word list" where
  "stream_ids m = map ch_stream_id (m_channels m)"

definition dc_extends :: "nat \<Rightarrow> xDataChannelMgr \<Rightarrow> xDataChannelMgr \<Rightarrow> bool" where
  "dc_extends j m m' \<longleftrightarrow> (\<exists>zs es. stream_ids m' = stream_ids m @ zs \<and> m_log m' = m_log m @ es \<and>
     (\<forall>t d. D_message j t d \<notin> set es))"

lemma dc_extends_refl: "dc_extends j m m"
  by (simp add: dc_extends_def)

lemma dc_extends_trans: "dc_extends j m m1 \<Longrightarrow> dc_extends j m1 m2 \<Longrightarrow> dc_extends j m m2"
  by (fastforce simp: dc_extends_def)

lemma extends_log: "(\<And>t d. e \<noteq> D_message j t d) \<Longrightarrow> dc_extends j m (dc_log e m)"
  by (auto simp: dc_extends_def dc_log_def stream_ids_def)

lemma map_update_same: "f y = f (xs ! i) \<Longrightarrow> map f (xs[i := y]) = map f xs"
  by (simp add: map_update list_update_same_conv) (metis list_update_beyond list_update_id map_update not_le)

lemma extends_update:
  "ch_stream_id y = ch_stream_id (m_channels m ! i) \<Longrightarrow> dc_extends j m (m\<lparr>m_channels := (m_channels m)[i := y]\<rparr>)"
  by (simp add: dc_extends_def stream_ids_def map_update_same)

lemma extends_set_state: "dc_extends j m (set_state i st m)"
  unfolding set_state_def by (rule extends_update) simp

lemma extends_send: "sctp_send sid ppid d o' m = (r, m') \<Longrightarrow> dc_extends j m m' \<and> m_channels m' = m_channels m"
  by (auto simp: sctp_send_def dc_extends_def stream_ids_def dc_log_def split: list.splits if_splits)

lemma extends_add: "add_channel sid c m = (r, m') \<Longrightarrow> dc_extends j m m' \<and>
    (r \<noteq> None \<longrightarrow> stream_ids m' = stream_ids m @ [sid] \<and> r = Some (length (m_channels m)) \<and> m_log m' = m_log m)"
  by (auto simp: add_channel_def dc_extends_def stream_ids_def Let_def split: prod.splits if_splits)

lemma first_channel:
  assumes "find_channel m sid = Some k" "i < j" "j < length (stream_ids m)" "stream_ids m ! i = stream_ids m ! j"
  shows "k \<noteq> j"
proof
  assume k: "k = j"
  have "find (\<lambda>i. ch_stream_id (m_channels m ! i) = sid) [0..<length (m_channels m)] = Some j"
    using assms(1) k by (simp add: find_channel_def)
  then obtain a where "a < length [0..<length (m_channels m)]" "[0..<length (m_channels m)] ! a = j"
    "ch_stream_id (m_channels m ! j) = sid" "\<forall>b<a. ch_stream_id (m_channels m ! ([0..<length (m_channels m)] ! b)) \<noteq> sid"
    by (auto simp: find_Some_iff)
  then show False using assms(2-4) by (auto simp: stream_ids_def)
qed

lemma step_extends:
  assumes "i < j" "j < length (stream_ids m)" "stream_ids m ! i = stream_ids m ! j"
  shows "dc_extends j m (dc_step op m)"
proof (cases op)
  case (Op_create c)
  obtain r m1 where a: "add_channel (m_next_stream_id m) c (m\<lparr>m_next_stream_id := m_next_stream_id m + 2\<rparr>) = (r, m1)" by fastforce
  note e = extends_add [OF a, of j]
  have m0: "dc_extends j m (m\<lparr>m_next_stream_id := m_next_stream_id m + 2\<rparr>)" by (simp add: dc_extends_def stream_ids_def)
  show ?thesis
  proof (cases r)
    case None
    then show ?thesis using Op_create a e m0 by (auto simp: xDataChannelCreate_def Let_def intro: dc_extends_trans)
  next
    case (Some k)
    then have m1: "stream_ids m1 = stream_ids m @ [m_next_stream_id m]" "m_log m1 = m_log m" using e by (simp_all add: stream_ids_def)
    have undo: "stream_ids (x\<lparr>m_channels := butlast (m_channels x)\<rparr>) = butlast (stream_ids x)" for x :: xDataChannelMgr
      by (simp add: stream_ids_def map_butlast)
    show ?thesis
    proof (cases "dcep_encode_open c 512")
      case None
      then show ?thesis using Op_create a Some m1 undo by (simp add: xDataChannelCreate_def Let_def dc_extends_def)
    next
      case enc: (Some bs)
      obtain err m2 where s: "sctp_send (m_next_stream_id m) XSCTP_PPID_DCEP bs True m1 = (err, m2)" by fastforce
      have m2: "stream_ids m2 = stream_ids m1" "dc_extends j m1 m2" using extends_send [OF s, of j] by (simp_all add: stream_ids_def)
      then obtain es where "m_log m2 = m_log m1 @ es" "\<forall>t d. D_message j t d \<notin> set es" by (auto simp: dc_extends_def)
      then show ?thesis using Op_create a Some enc s m1 m2(1) undo by (auto simp: xDataChannelCreate_def Let_def dc_extends_def)
    qed
  qed
next
  case (Op_data sid ppid d)
  have open_ext: "dc_extends j m (on_remote_open sid d m)"
  proof -
    obtain r m1 where a: "add_channel sid (the (snd (dcep_decode_open d))) m = (r, m1)" by fastforce
    obtain e m2 where s: "sctp_send sid XSCTP_PPID_DCEP (the (dcep_encode_ack 1)) True m1 = (e, m2)" by fastforce
    have m2: "dc_extends j m m1" "dc_extends j m m2" using extends_add [OF a, of j] extends_send [OF s, of j] dc_extends_trans by blast+
    have "dc_extends j m (dc_log (D_open k) (dc_log (D_remote_open k) (set_state k xDataChannelState_Open m2)))" for k
      by (rule dc_extends_trans [OF dc_extends_trans [OF dc_extends_trans [OF m2(2) extends_set_state] extends_log] extends_log]) simp_all
    then show ?thesis using a s m2(1) dc_extends_refl by (auto simp: on_remote_open_def split: prod.splits option.splits)
  qed
  have ack_ext: "dc_extends j m (on_ack sid m)"
  proof -
    have "dc_extends j m (dc_log (D_open k) (set_state k xDataChannelState_Open m))" for k
      by (rule dc_extends_trans [OF extends_set_state extends_log]) simp
    then show ?thesis using dc_extends_refl by (auto simp: on_ack_def split: option.splits)
  qed
  have "dc_extends j m (dc_log (D_message k t d) m)" if "find_channel m sid = Some k" for k t
    using first_channel [OF that assms] by (intro extends_log) simp
  then show ?thesis using Op_data open_ext ack_ext dc_extends_refl by (auto simp: xDataChannelMgrOnData_def split: option.splits)
next
  case (Op_stream_close sid)
  have "dc_extends j m (dc_log (D_closed k) (set_state k xDataChannelState_Closed m))" for k
    by (rule dc_extends_trans [OF extends_set_state extends_log]) simp
  then show ?thesis using Op_stream_close dc_extends_refl by (auto simp: xDataChannelMgrOnStreamClose_def split: option.splits)
next
  case (Op_send_string k d)
  then show ?thesis using dc_extends_refl extends_send by (auto simp: xDataChannelSendString_def) (metis prod.collapse)+
next
  case (Op_send_binary k d)
  obtain e m1 where s: "sctp_send (ch_stream_id (m_channels m ! k)) (if length d = 0 then XSCTP_PPID_BINARY_EMPTY else XSCTP_PPID_BINARY) d
      (dcf_ordered (ch_conf (m_channels m ! k))) m = (e, m1)" by fastforce
  have m1: "dc_extends j m m1" using extends_send [OF s] by simp
  have "dc_extends j m (m1\<lparr>m_channels := (m_channels m1)[k := (m_channels m1 ! k)\<lparr>ch_buffered_amount := b\<rparr>]\<rparr>)" for b
    by (rule dc_extends_trans [OF m1 extends_update]) simp
  then show ?thesis using Op_send_binary s m1 dc_extends_refl by (simp add: xDataChannelSendBinary_def)
next
  case (Op_close k)
  have "dc_extends j m (dc_log (D_close_stream a) (set_state k xDataChannelState_Closing m))" for a
    by (rule dc_extends_trans [OF extends_set_state extends_log]) simp
  then show ?thesis using Op_close dc_extends_refl by (simp add: xDataChannelClose_def)
next
  case (Op_threshold k t)
  then show ?thesis by (simp add: xDataChannelSetBufferedAmountLowThreshold_def extends_update)
next
  case Op_amount_low
  have one: "dc_extends j x (amount_low k x)" for k x
  proof -
    have "dc_extends j x (dc_log (D_amount_low k) (x\<lparr>m_channels := (m_channels x)[k := (m_channels x ! k)\<lparr>ch_buffered_amount := 0\<rparr>]\<rparr>))"
      by (rule dc_extends_trans [OF extends_update extends_log]) simp_all
    then show ?thesis using dc_extends_refl by (simp add: amount_low_def)
  qed
  have "dc_extends j x (fold amount_low ks x)" for ks x
    by (induction ks arbitrary: x) (auto intro: dc_extends_refl dc_extends_trans [OF one])
  then show ?thesis using Op_amount_low by (simp add: xDataChannelMgrOnBufferedAmountLow_def)
qed

lemma run_extends:
  assumes "i < j" "j < length (stream_ids m)" "stream_ids m ! i = stream_ids m ! j"
  shows "dc_extends j m (fold dc_step ops m)"
  using assms
proof (induction ops arbitrary: m)
  case (Cons op ops)
  note e = step_extends [OF Cons.prems, of op]
  then have "dc_extends j (dc_step op m) (fold dc_step ops (dc_step op m))"
    using Cons.prems by (intro Cons.IH) (auto simp: dc_extends_def nth_append)
  then show ?case using e by (auto intro: dc_extends_trans)
qed (simp add: dc_extends_refl)

text \<open>
  C34. Both peers number their channels from stream 0, although the comment says the parity depends on the DTLS
  role. When each opens its first channel, the peer's channel is added under the stream of the own one: it is
  announced as open, but whatever happens afterwards, no message is ever delivered to it, because every message of the
  stream goes to the first channel found.
\<close>

theorem dc_first_channels_collide:
  assumes "xDataChannelMgrCreate True [] [] = Some m0" "dcep_encode_open c 512 = Some bs"
    and "dcep_encode_open peer 512 = Some d" "dcep_decode_open d = (xErrno_Ok, Some conf)"
    and "m = xDataChannelMgrOnData 0 XSCTP_PPID_DCEP d (snd (xDataChannelCreate c m0))"
  shows "stream_ids m = [0, 0] \<and> ch_state (m_channels m ! 1) = xDataChannelState_Open \<and> D_open 1 \<in> set (m_log m) \<and>
    (\<forall>t x. D_message 1 t x \<notin> set (m_log (fold dc_step ops m)))"
proof -
  have "length d \<ge> 1" "d ! 0 = XDCEP_DATA_CHANNEL_OPEN"
    using assms(3) by (auto simp: dcep_encode_open_def Let_def split: if_splits)
  then have m: "stream_ids m = [0, 0]" "ch_state (m_channels m ! 1) = xDataChannelState_Open" "D_open 1 \<in> set (m_log m)"
    "\<forall>t x. D_message 1 t x \<notin> set (m_log m)"
    using assms(1,2,4,5)
    by (auto simp: xDataChannelMgrCreate_def xDataChannelCreate_def add_channel_def sctp_send_def dc_log_def xDataChannelMgrOnData_def
      on_remote_open_def set_state_def stream_ids_def XDC_MAX_CHANNELS_def Let_def)
  moreover have "dc_extends 1 m (fold dc_step ops m)" using m(1) by (intro run_extends [of 0]) simp_all
  ultimately show ?thesis by (auto simp: dc_extends_def)
qed

theorem dc_first_channels_collide_witness:
  "\<forall>t x. D_message 1 t x \<notin> set (m_log (fold dc_step [Op_data 0 XSCTP_PPID_BINARY [1, 2]]
     (xDataChannelMgrOnData 0 XSCTP_PPID_DCEP (the (dcep_encode_open ex_channel_conf 512))
       (snd (xDataChannelCreate ex_channel_conf (the (xDataChannelMgrCreate True [] [])))))))"
proof -
  obtain bs where "dcep_encode_open ex_channel_conf 512 = Some bs" "dcep_decode_open bs = (xErrno_Ok, Some (same_reliability ex_channel_conf))"
    using open_decoded [of ex_channel_conf 512 "[]"] by (auto simp: ex_channel_conf_def XDC_MAX_LABEL_LEN_def XDC_MAX_PROTOCOL_LEN_def)
  moreover obtain m0 where "xDataChannelMgrCreate True [] [] = Some m0" by (simp add: xDataChannelMgrCreate_def)
  ultimately show ?thesis using dc_first_channels_collide [of m0 ex_channel_conf bs ex_channel_conf bs "same_reliability ex_channel_conf" _ "[Op_data 0 XSCTP_PPID_BINARY [1, 2]]"]
    by simp
qed

end
