(* ===== verification/Bitmap.thy ===== *)
theory Bitmap
  imports Digest
begin

text \<open>
  \<^verbatim>\<open>base/bitmap.c\<close>: a bitmap over an array of bytes. Its \<^verbatim>\<open>uint32_t\<close> numbers are natural numbers with
  the wrap-around written out; a byte is an \<open>8 word\<close>. The abstract value of a bitmap is the set of
  the indices that are set, and every operation is one on that set.
\<close>

unbundle bit_operations_syntax

section \<open>Structure and helpers\<close>

record xBitmap =
  bm_data :: "octets option"
  nbits :: nat
  nbytes :: nat
  bm_owned :: bool

definition U32 :: nat where "U32 = 2 ^ 32"

definition bits_to_bytes :: "nat \<Rightarrow> nat" where
  "bits_to_bytes n = (n + 7) mod U32 div 8"

definition low_mask :: "nat \<Rightarrow> 8 word" where
  "low_mask tail = push_bit tail 1 - 1"

definition no_bitmap :: xBitmap where
  "no_bitmap = \<lparr>bm_data = None, nbits = 0, nbytes = 0, bm_owned = False\<rparr>"

definition change_byte :: "nat \<Rightarrow> (8 word \<Rightarrow> 8 word) \<Rightarrow> xBitmap \<Rightarrow> xBitmap" where
  "change_byte k f bm = (case bm_data bm of None \<Rightarrow> bm | Some d \<Rightarrow> bm\<lparr>bm_data := Some (d[k := f (d ! k)])\<rparr>)"

definition sanitise_tail :: "xBitmap \<Rightarrow> xBitmap" where
  "sanitise_tail bm = (let tail = nbits bm mod 8 in
     if tail \<noteq> 0 \<and> nbytes bm > 0 then change_byte (nbytes bm - 1) (\<lambda>b. b AND low_mask tail) bm else bm)"

section \<open>Lifecycle\<close>

definition xBitmapInit :: "nat \<Rightarrow> bool \<Rightarrow> xBitmap \<Rightarrow> xErrno \<times> xBitmap" where
  "xBitmapInit n ok bm = (if n = 0 then (xErrno_InvalidArg, bm)
     else if \<not> ok then (xErrno_NoMemory, bm)
     else (xErrno_Ok, \<lparr>bm_data = Some (replicate (bits_to_bytes n) 0), nbits = n,
       nbytes = bits_to_bytes n, bm_owned = True\<rparr>))"

definition xBitmapInitStatic :: "octets option \<Rightarrow> nat \<Rightarrow> nat \<Rightarrow> xBitmap \<Rightarrow> xErrno \<times> xBitmap" where
  "xBitmapInitStatic data len n bm = (if data = None \<or> n = 0 then (xErrno_InvalidArg, bm)
     else if len < bits_to_bytes n then (xErrno_InvalidArg, bm)
     else (xErrno_Ok, \<lparr>bm_data = data, nbits = n, nbytes = len, bm_owned = False\<rparr>))"

text \<open>The second component says whether the byte array is handed back to the allocator.\<close>

definition xBitmapFree :: "xBitmap \<Rightarrow> xBitmap \<times> bool" where
  "xBitmapFree bm = (no_bitmap, bm_owned bm \<and> bm_data bm \<noteq> None)"

section \<open>Single bits\<close>

definition xBitmapSet :: "nat \<Rightarrow> xBitmap \<Rightarrow> xBitmap" where
  "xBitmapSet i bm = (if i \<ge> nbits bm then bm
     else change_byte (i div 8) (\<lambda>b. b OR push_bit (i mod 8) 1) bm)"

definition xBitmapClear :: "nat \<Rightarrow> xBitmap \<Rightarrow> xBitmap" where
  "xBitmapClear i bm = (if i \<ge> nbits bm then bm
     else change_byte (i div 8) (\<lambda>b. b AND NOT (push_bit (i mod 8) 1)) bm)"

definition xBitmapTest :: "xBitmap \<Rightarrow> nat \<Rightarrow> bool" where
  "xBitmapTest bm i = (if i \<ge> nbits bm then False
     else (case bm_data bm of None \<Rightarrow> False | Some d \<Rightarrow> d ! (i div 8) AND push_bit (i mod 8) 1 \<noteq> 0))"

definition xBitmapToggle :: "nat \<Rightarrow> xBitmap \<Rightarrow> xBitmap" where
  "xBitmapToggle i bm = (if i \<ge> nbits bm then bm
     else change_byte (i div 8) (\<lambda>b. b XOR push_bit (i mod 8) 1) bm)"

section \<open>Bulk operations\<close>

definition xBitmapSetAll :: "xBitmap \<Rightarrow> xBitmap" where
  "xBitmapSetAll bm = (case bm_data bm of None \<Rightarrow> bm
     | Some d \<Rightarrow> sanitise_tail (bm\<lparr>bm_data := Some (replicate (nbytes bm) 0xFF)\<rparr>))"

definition xBitmapClearAll :: "xBitmap \<Rightarrow> xBitmap" where
  "xBitmapClearAll bm = (case bm_data bm of None \<Rightarrow> bm
     | Some d \<Rightarrow> bm\<lparr>bm_data := Some (replicate (nbytes bm) 0)\<rparr>)"

text \<open>Each turn clears the lowest bit that is set, so the value of the byte decreases.\<close>

lemma clear_lowest_less: "b \<noteq> 0 \<Longrightarrow> unat (b AND (b - 1) :: 8 word) < unat b"
  by (metis unat_minus_one unat_gt_0 diff_less less_numeral_extra(1) order_le_less_trans word_and_le1
    word_le_nat_alt)

function popcount_loop :: "8 word \<Rightarrow> nat \<Rightarrow> nat" where
  "popcount_loop b c = (if b = 0 then c else popcount_loop (b AND (b - 1)) (c + 1))"
  by auto

termination by (relation "measure (\<lambda>(b, c). unat b)") (auto simp: clear_lowest_less)

declare popcount_loop.simps [simp del]

definition popcount8 :: "8 word \<Rightarrow> nat" where
  "popcount8 b = popcount_loop b 0"

definition xBitmapCount :: "xBitmap \<Rightarrow> nat" where
  "xBitmapCount bm = (case bm_data bm of None \<Rightarrow> 0 | Some d \<Rightarrow>
     let count = fold (\<lambda>b c. (c + popcount8 b) mod U32) (take (nbytes bm) d) 0; tail = nbits bm mod 8 in
     if tail \<noteq> 0 then (count + U32 - popcount8 (d ! (nbytes bm - 1) AND NOT (low_mask tail))) mod U32
     else count)"

definition xBitmapFull :: "xBitmap \<Rightarrow> bool" where
  "xBitmapFull bm = (case bm_data bm of None \<Rightarrow> False | Some d \<Rightarrow>
     let tail = nbits bm mod 8 in
     list_all (\<lambda>b. b = 0xFF) (take (nbits bm div 8) d) \<and>
     (tail = 0 \<or> d ! (nbytes bm - 1) AND low_mask tail = low_mask tail))"

definition xBitmapEmpty :: "xBitmap \<Rightarrow> bool" where
  "xBitmapEmpty bm = (case bm_data bm of None \<Rightarrow> True | Some d \<Rightarrow>
     let tail = nbits bm mod 8 in
     list_all (\<lambda>b. b = 0) (take (nbits bm div 8) d) \<and>
     (tail = 0 \<or> d ! (nbytes bm - 1) AND low_mask tail = 0))"

definition xBitmapData :: "xBitmap \<Rightarrow> octets option \<times> nat" where
  "xBitmapData bm = (case bm_data bm of None \<Rightarrow> (None, 0) | Some d \<Rightarrow> (Some d, nbytes bm))"

section \<open>The set of indices\<close>

text \<open>
  A bitmap is well formed when its array has the bytes its bits need and no more. The bits of the
  last byte behind the end are clear.
\<close>

definition bm_wf :: "xBitmap \<Rightarrow> bool" where
  "bm_wf bm \<longleftrightarrow> (\<exists>d. bm_data bm = Some d \<and> length d = nbytes bm) \<and> 0 < nbits bm \<and> nbits bm + 7 < U32 \<and>
     nbytes bm = (nbits bm + 7) div 8"

definition members :: "xBitmap \<Rightarrow> nat set" where
  "members bm = {i. xBitmapTest bm i}"

abbreviation bit_at :: "octets \<Rightarrow> nat \<Rightarrow> bool" where
  "bit_at d i \<equiv> bit (d ! (i div 8)) (i mod 8)"

lemma test_bit:
  "bm_data bm = Some d \<Longrightarrow> xBitmapTest bm i \<longleftrightarrow> i < nbits bm \<and> bit_at d i"
  by (auto simp: xBitmapTest_def and_exp_eq_0_iff_not_bit)

lemma byte_in_range: "i < n \<Longrightarrow> i div 8 < (n + 7 :: nat) div 8"
  by linarith

lemma bm_wfE:
  assumes "bm_wf bm"
  obtains d where "bm_data bm = Some d" "length d = nbytes bm" "0 < nbits bm" "nbits bm + 7 < U32"
    "nbytes bm = (nbits bm + 7) div 8" "members bm = {i. i < nbits bm \<and> bit_at d i}"
    "\<And>i. i < nbits bm \<Longrightarrow> i div 8 < length d"
proof -
  from assms obtain d where d: "bm_data bm = Some d" "length d = nbytes bm" "0 < nbits bm"
    "nbits bm + 7 < U32" "nbytes bm = (nbits bm + 7) div 8" by (auto simp: bm_wf_def)
  then show ?thesis using that by (auto simp: members_def test_bit byte_in_range)
qed

lemma wf_init: "0 < n \<Longrightarrow> n + 7 < U32 \<Longrightarrow> bm_wf (snd (xBitmapInit n True bm))"
  by (simp add: xBitmapInit_def bm_wf_def bits_to_bytes_def)

lemma members_init:
  assumes "n + 7 < U32" "0 < n"
  shows "members (snd (xBitmapInit n True bm)) = {}"
proof -
  have "\<not> xBitmapTest (snd (xBitmapInit n True bm)) i" for i
  proof (cases "i < n")
    case True
    have "bits_to_bytes n = (n + 7) div 8" using assms by (simp add: bits_to_bytes_def)
    then have "replicate (bits_to_bytes n) (0 :: 8 word) ! (i div 8) = 0" using byte_in_range [OF True] by simp
    then show ?thesis using assms(2) by (simp add: xBitmapInit_def xBitmapTest_def)
  qed (use assms(2) in \<open>simp add: xBitmapInit_def xBitmapTest_def\<close>)
  then show ?thesis by (simp add: members_def)
qed

lemma change_byte_simps [simp]:
  "nbits (change_byte k f bm) = nbits bm" "nbytes (change_byte k f bm) = nbytes bm"
  "bm_data bm = Some d \<Longrightarrow> bm_data (change_byte k f bm) = Some (d[k := f (d ! k)])"
  by (auto simp: change_byte_def split: option.splits)

lemma wf_change [inv_intros]: "bm_wf bm \<Longrightarrow> bm_wf (change_byte k f bm)"
  by (auto simp: bm_wf_def)

lemma wf_set [inv_intros]: "bm_wf bm \<Longrightarrow> bm_wf (xBitmapSet i bm)"
  by (simp add: xBitmapSet_def wf_change)

lemma members_change:
  assumes "bm_wf bm" "i < nbits bm" and f: "\<And>k. k < 8 \<Longrightarrow> k \<noteq> i mod 8 \<Longrightarrow> bit (f b) k = bit b k"
    and b: "b = the (bm_data bm) ! (i div 8)"
  shows "members (change_byte (i div 8) f bm) = (if bit (f b) (i mod 8) then insert i (members bm) else members bm - {i})"
proof -
  obtain d where d: "bm_data bm = Some d" "length d = nbytes bm" "members bm = {i. i < nbits bm \<and> bit_at d i}"
    "\<And>i. i < nbits bm \<Longrightarrow> i div 8 < length d" by (rule bm_wfE [OF assms(1)]) blast
  have "bit_at (d[i div 8 := f b]) j \<longleftrightarrow> (if j = i then bit (f b) (i mod 8) else bit_at d j)"
    if "j < nbits bm" for j
  proof (cases "j div 8 = i div 8")
    case True
    then have "j = i \<or> j mod 8 \<noteq> i mod 8" by (metis div_mult_mod_eq)
    then show ?thesis using True d(4) [OF that] f [of "j mod 8"] b d(1) by auto
  qed auto
  then show ?thesis using assms(2) d(1,3) b by (auto simp: members_def test_bit split: if_splits)
qed

lemma members_set: "bm_wf bm \<Longrightarrow> members (xBitmapSet i bm) = (if i < nbits bm then insert i (members bm) else members bm)"
  by (auto simp: xBitmapSet_def members_change [where b = "the (bm_data bm) ! (i div 8)"] bit_simps)

lemma nbits_set [simp]: "nbits (xBitmapSet i bm) = nbits bm"
  by (simp add: xBitmapSet_def)

lemma members_clear: "bm_wf bm \<Longrightarrow> members (xBitmapClear i bm) = members bm - {i}"
proof (cases "i < nbits bm")
  case False
  then have "i \<notin> members bm" by (auto simp: members_def xBitmapTest_def)
  then show ?thesis using False by (simp add: xBitmapClear_def)
qed (auto simp: xBitmapClear_def members_change [where b = "the (bm_data bm) ! (i div 8)"] bit_simps)

lemma members_toggle:
  assumes "bm_wf bm"
  shows "members (xBitmapToggle i bm) =
    (if i < nbits bm then (if i \<in> members bm then members bm - {i} else insert i (members bm)) else members bm)"
proof -
  obtain d where "bm_data bm = Some d" by (rule bm_wfE [OF assms])
  then have "i < nbits bm \<Longrightarrow> bit (the (bm_data bm) ! (i div 8)) (i mod 8) \<longleftrightarrow> i \<in> members bm"
    by (simp add: members_def test_bit)
  then show ?thesis using assms
    by (auto simp: xBitmapToggle_def members_change [where b = "the (bm_data bm) ! (i div 8)"] bit_simps)
qed

section \<open>Counting\<close>

text \<open>\<open>n AND (n - 1)\<close> clears the lowest bit of \<open>n\<close>.\<close>

lemma clear_lowest: "0 < n \<Longrightarrow> \<exists>j. bit n j \<and> (\<forall>k. bit (n AND (n - 1)) k \<longleftrightarrow> bit n k \<and> k \<noteq> j)" for n :: nat
proof (induction n rule: less_induct)
  case (less n)
  show ?case
  proof (cases "even n")
    case True
    then obtain m where n: "n = 2 * m" by blast
    then have m: "0 < m" "m < n" "n - 1 = 1 + 2 * (m - 1)" using less.prems by auto
    obtain j where j: "bit m j" "\<And>k. bit (m AND (m - 1)) k \<longleftrightarrow> bit m k \<and> k \<noteq> j" using less.IH [OF m(2,1)] by blast
    have hi: "bit n k \<longleftrightarrow> 0 < k \<and> bit m (k - 1)" for k using n by (auto simp: bit_double_iff)
    have lo: "bit (n - 1) k \<longleftrightarrow> k = 0 \<or> bit (m - 1) (k - 1)" for k
      unfolding m(3) by (subst even_bit_succ_iff) (auto simp: bit_double_iff)
    show ?thesis
    proof (intro exI [of _ "Suc j"] conjI allI)
      show "bit n (Suc j)" using j(1) hi by simp
      show "bit (n AND (n - 1)) k \<longleftrightarrow> bit n k \<and> k \<noteq> Suc j" for k
        using j(2) [of "k - 1"] hi [of k] lo [of k] by (cases k) (auto simp: bit_and_iff)
    qed
  next
    case False
    then obtain m where n: "n = 1 + 2 * m" by (auto elim: oddE)
    have "bit n k \<longleftrightarrow> k = 0 \<or> bit (2 * m) k" for k unfolding n by (subst even_bit_succ_iff) auto
    moreover have "n - 1 = 2 * m" using n by simp
    ultimately show ?thesis by (intro exI [of _ 0]) (auto simp: bit_and_iff bit_double_iff)
  qed
qed

lemma clear_lowest_byte:
  fixes b :: "8 word"
  assumes "b \<noteq> 0"
  obtains j where "j < 8" "bit b j" "\<And>k. bit (b AND (b - 1)) k \<longleftrightarrow> bit b k \<and> k \<noteq> j"
proof -
  have n: "unat (b AND (b - 1)) = unat b AND (unat b - 1)" using assms by (simp add: unsigned_and_eq unat_minus_one)
  have un: "bit (unat w) k \<longleftrightarrow> bit w k" for w :: "8 word" and k by (simp add: bit_unsigned_iff)
  obtain j where "bit (unat b) j" "\<And>k. bit (unat b AND (unat b - 1)) k \<longleftrightarrow> bit (unat b) k \<and> k \<noteq> j"
    using clear_lowest [of "unat b"] assms by (auto simp: unat_gt_0)
  then have j: "bit b j" "bit (b AND (b - 1)) k \<longleftrightarrow> bit b k \<and> k \<noteq> j" for k using n un by metis+
  have "j < 8" using bit_imp_le_length [OF j(1)] by simp
  then show ?thesis using that j by blast
qed

lemma popcount_loop_card: "popcount_loop b c = c + card {k. k < 8 \<and> bit b k}"
proof (induction b c rule: popcount_loop.induct)
  case (1 b c)
  show ?case
  proof (cases "b = 0")
    case False
    obtain j where j: "j < 8" "bit b j" "\<And>k. bit (b AND (b - 1)) k \<longleftrightarrow> bit b k \<and> k \<noteq> j"
      using clear_lowest_byte [OF False] by metis
    have "{k. k < 8 \<and> bit (b AND (b - 1)) k} = {k. k < 8 \<and> bit b k} - {j}" using j(3) by auto
    then have "Suc (card {k. k < 8 \<and> bit (b AND (b - 1)) k}) = card {k. k < 8 \<and> bit b k}"
      using j(1,2) by (simp add: card_Suc_Diff1 del: card_Diff_insert)
    then show ?thesis using 1 [OF False] False by (subst popcount_loop.simps) simp
  qed (simp add: popcount_loop.simps)
qed

lemma popcount8_ones: "popcount8 b = card {k. k < 8 \<and> bit b k}"
  by (simp add: popcount8_def popcount_loop_card)

lemma card_byte_shift:
  "card {i. a \<le> i \<and> i < a + 8 \<and> P (i - a)} = card {k. k < 8 \<and> P k}" for a :: nat
proof -
  have "{i. a \<le> i \<and> i < a + 8 \<and> P (i - a)} = (\<lambda>k. a + k) ` {k. k < 8 \<and> P k}"
    by (auto simp: image_iff) (metis add_diff_inverse_nat add_less_cancel_left not_less)
  then show ?thesis by (simp add: card_image)
qed

lemma last_byte:
  fixes a :: nat
  assumes "8 * a \<le> i" "i < 8 * a + 8"
  shows "i div 8 = a \<and> i mod 8 = i - 8 * a"
proof -
  obtain r where r: "i = r + 8 * a" using assms(1) by (metis le_Suc_ex add.commute)
  then have "r < 8" using assms(2) by simp
  then show ?thesis unfolding r by simp
qed

text \<open>Splitting a set of indices at a bound that leaves one byte behind it.\<close>

lemma card_split_byte:
  fixes a m :: nat
  assumes "\<And>i. i < m \<Longrightarrow> P i \<longleftrightarrow> i < b \<and> Q i" "\<And>i. a \<le> i \<Longrightarrow> i < a + 8 \<Longrightarrow> P i \<longleftrightarrow> (i < b \<and> Q i) \<or> R (i - a)"
    and "m = a" and "\<And>i. a \<le> i \<Longrightarrow> i < b \<Longrightarrow> \<not> R (i - a)" and "b \<le> a + 8" "a \<le> b"
  shows "card {i. i < a + 8 \<and> P i} = card {i. i < b \<and> Q i} + card {k. k < 8 \<and> R k}"
proof -
  have "{i. i < a + 8 \<and> P i} = {i. i < b \<and> Q i} \<union> {i. a \<le> i \<and> i < a + 8 \<and> R (i - a)}"
  proof (rule set_eqI)
    fix i show "i \<in> {i. i < a + 8 \<and> P i} \<longleftrightarrow> i \<in> {i. i < b \<and> Q i} \<union> {i. a \<le> i \<and> i < a + 8 \<and> R (i - a)}"
      using assms(1) [of i] assms(2) [of i] assms(3-6) by (cases "i < a") auto
  qed
  moreover have "card ({i. i < b \<and> Q i} \<union> {i. a \<le> i \<and> i < a + 8 \<and> R (i - a)})
    = card {i. i < b \<and> Q i} + card {i. a \<le> i \<and> i < a + 8 \<and> R (i - a)}"
    using assms(4) by (intro card_Un_disjoint) auto
  ultimately show ?thesis by (simp add: card_byte_shift)
qed

lemma popcount_sum: "sum_list (map popcount8 d) = card {i. i < 8 * length d \<and> bit_at d i}"
proof (induction d rule: rev_induct)
  case (snoc b d)
  let ?a = "8 * length d"
  have "bit_at (d @ [b]) i \<longleftrightarrow> i < ?a \<and> bit_at d i" if "i < ?a" for i
  proof -
    have "i div 8 < length d" using that by linarith
    then show ?thesis using that by (simp add: nth_append)
  qed
  moreover have "bit_at (d @ [b]) i \<longleftrightarrow> (i < ?a \<and> bit_at d i) \<or> bit b (i - ?a)" if "?a \<le> i" "i < ?a + 8" for i
    using last_byte [OF that] that by simp
  ultimately have "card {i. i < ?a + 8 \<and> bit_at (d @ [b]) i} = card {i. i < ?a \<and> bit_at d i} + card {k. k < 8 \<and> bit b k}"
    by (intro card_split_byte [where m = ?a]) auto
  then show ?case using snoc by (simp add: popcount8_ones add.commute)
qed simp

lemma fold_count: "fold (\<lambda>b c. (c + popcount8 b) mod U32) d c mod U32 = (c + sum_list (map popcount8 d)) mod U32"
  by (induction d arbitrary: c) (simp_all add: mod_simps ac_simps)

lemma bit_low_mask: "k \<le> 8 \<Longrightarrow> bit (low_mask k) j \<longleftrightarrow> j < k"
  using bit_mask_iff [where 'a = "8 word", of k j] by (auto simp: low_mask_def mask_eq_exp_minus_1)

lemma bytes_partial: "n mod 8 \<noteq> 0 \<Longrightarrow> (n + 7) div 8 = n div 8 + 1" for n :: nat
  by presburger

lemma members_beyond:
  assumes "length d = (n + 7) div 8" and "n mod 8 = t" and "t \<noteq> 0"
  shows "card {i. i < 8 * length d \<and> bit_at d i} =
    card {i. i < n \<and> bit_at d i} + card {k. k < 8 \<and> bit (d ! (length d - 1)) k \<and> \<not> k < t}"
proof -
  let ?a = "8 * (length d - 1)"
  have t: "t < 8" "n = 8 * (n div 8) + t" using assms(2) by auto
  moreover have "length d = n div 8 + 1" using assms(1) t assms(3) by linarith
  ultimately have n: "n = ?a + t" "8 * length d = ?a + 8" "t < 8" by simp_all
  have last: "bit_at d i \<longleftrightarrow> bit (d ! (length d - 1)) (i - ?a)" if "?a \<le> i" "i < ?a + 8" for i
    using last_byte [OF that] by simp
  have "card {i. i < ?a + 8 \<and> bit_at d i} =
      card {i. i < n \<and> bit_at d i} + card {k. k < 8 \<and> (bit (d ! (length d - 1)) k \<and> \<not> k < t)}"
  proof (rule card_split_byte [where m = ?a])
    show "bit_at d i \<longleftrightarrow> i < n \<and> bit_at d i" if "i < ?a" for i using that n(1) by simp
    show "bit_at d i \<longleftrightarrow> (i < n \<and> bit_at d i) \<or> (bit (d ! (length d - 1)) (i - ?a) \<and> \<not> i - ?a < t)"
      if "?a \<le> i" "i < ?a + 8" for i using last [OF that] n(1) that by auto
  qed (use n in auto)
  then show ?thesis by (simp only: n(2))
qed

lemma count_members:
  assumes "bm_wf bm"
  shows "xBitmapCount bm = card (members bm)"
proof -
  obtain d where d: "bm_data bm = Some d" "length d = nbytes bm" "0 < nbits bm" "nbits bm + 7 < U32"
    "nbytes bm = (nbits bm + 7) div 8" "members bm = {i. i < nbits bm \<and> bit_at d i}"
    by (rule bm_wfE [OF assms])
  let ?s = "card {i. i < 8 * length d \<and> bit_at d i}" and ?t = "nbits bm mod 8"
  have small: "card {i. i < 8 * length d \<and> bit_at d i} \<le> card {..< 8 * length d}" by (rule card_mono) auto
  have len: "8 * length d < U32" using d(2,4,5) by linarith
  have "fold (\<lambda>b c. (c + popcount8 b) mod U32) d 0 mod U32 = ?s" using fold_count [of d 0] small len by (simp add: popcount_sum)
  moreover have "fold (\<lambda>b c. (c + popcount8 b) mod U32) d 0 < U32"
    by (cases d rule: rev_cases) (simp_all add: U32_def)
  ultimately have f: "fold (\<lambda>b c. (c + popcount8 b) mod U32) d 0 = ?s" by simp
  show ?thesis
  proof (cases "?t = 0")
    case True
    then have "8 * length d = nbits bm" using d(2,5) by presburger
    then show ?thesis using d True f by (simp add: xBitmapCount_def)
  next
    case False
    have "popcount8 (d ! (nbytes bm - 1) AND NOT (low_mask ?t)) = card {k. k < 8 \<and> bit (d ! (length d - 1)) k \<and> \<not> k < ?t}"
      using d(2) by (simp add: popcount8_ones bit_and_iff bit_not_iff bit_low_mask cong: conj_cong)
    moreover have "?s = card (members bm) + card {k. k < 8 \<and> bit (d ! (length d - 1)) k \<and> \<not> k < ?t}"
      using members_beyond [of d "nbits bm" ?t] d False by simp
    moreover have "?s + U32 - card {k. k < 8 \<and> bit (d ! (length d - 1)) k \<and> \<not> k < ?t} = card (members bm) + U32"
      using calculation(2) by simp
    moreover have "card (members bm) < U32" using calculation(2) small len by simp
    ultimately show ?thesis using d(1,2) False f by (simp add: xBitmapCount_def)
  qed
qed

section \<open>The operations on the set\<close>

lemma low_bits_eq: "b AND low_mask t = (if c then low_mask t else 0) \<longleftrightarrow> (\<forall>k<t. bit b k = c)" if "t \<le> 8"
proof -
  have "b AND low_mask t = (if c then low_mask t else 0) \<longleftrightarrow> (\<forall>k<8. bit (b AND low_mask t) k = (c \<and> k < t))"
    using that by (auto simp: bit_eq_iff bit_and_iff bit_low_mask dest: bit_imp_le_length)
  moreover have "(\<forall>k<8. bit (b AND low_mask t) k = (c \<and> k < t)) \<longleftrightarrow> (\<forall>k<t. bit b k = c)"
    unfolding bit_and_iff bit_low_mask [OF that] using that by (metis order_less_le_trans)
  ultimately show ?thesis by simp
qed

lemma byte_eq: "b = (if c then 0xFF else 0) \<longleftrightarrow> (\<forall>k<8. bit b k = c)" for b :: "8 word"
proof -
  have "bit (0xFF :: 8 word) k" if "k < 8" for k
    using that by (auto simp: less_Suc_eq eval_nat_numeral bit_0 bit_Suc)
  then show ?thesis by (auto simp: bit_eq_iff dest: bit_imp_le_length)
qed

text \<open>All bits have one value, byte by byte and in the rest of the last byte.\<close>

lemma all_bits:
  assumes "bm_wf bm" "bm_data bm = Some d"
  shows "(\<forall>i < nbits bm. bit_at d i = c) \<longleftrightarrow>
    list_all (\<lambda>b. b = (if c then 0xFF else 0)) (take (nbits bm div 8) d) \<and>
    (nbits bm mod 8 = 0 \<or> d ! (nbytes bm - 1) AND low_mask (nbits bm mod 8) = (if c then low_mask (nbits bm mod 8) else 0))"
    (is "?l \<longleftrightarrow> ?r1 \<and> ?r2")
proof -
  let ?q = "nbits bm div 8" and ?t = "nbits bm mod 8"
  have len: "length d = nbytes bm" "nbytes bm = (nbits bm + 7) div 8" using assms by (auto simp: bm_wf_def)
  have q: "?q \<le> length d" "nbits bm = 8 * ?q + ?t" "?t < 8" using len by auto
  have last: "?t \<noteq> 0 \<Longrightarrow> nbytes bm - 1 = ?q" unfolding len(2) using bytes_partial [of "nbits bm"] by simp
  have r1: "?r1 \<longleftrightarrow> (\<forall>j < ?q. \<forall>k<8. bit (d ! j) k = c)"
    using q(1) by (auto simp: list_all_length byte_eq min_def)
  have r2: "?r2 \<longleftrightarrow> (\<forall>k < ?t. bit (d ! ?q) k = c)" using last q(3) by (cases "?t = 0") (auto simp: low_bits_eq)
  show ?thesis unfolding r1 r2
  proof (rule iffI; intro conjI allI impI)
    fix j k assume l: "\<forall>i < nbits bm. bit_at d i = c" and "j < ?q" "k < (8 :: nat)"
    then have "8 * j + k < nbits bm" "(8 * j + k) div 8 = j" "(8 * j + k) mod 8 = k" by (linarith | simp)+
    then show "bit (d ! j) k = c" using l by metis
  next
    fix k assume l: "\<forall>i < nbits bm. bit_at d i = c" and "k < ?t"
    then have "8 * ?q + k < nbits bm" "(8 * ?q + k) div 8 = ?q" "(8 * ?q + k) mod 8 = k" using q(2,3) by (linarith | simp)+
    then show "bit (d ! ?q) k = c" using l by metis
  next
    fix i assume ab: "(\<forall>j < ?q. \<forall>k<8. bit (d ! j) k = c) \<and> (\<forall>k < ?t. bit (d ! ?q) k = c)" and "i < nbits bm"
    show "bit_at d i = c"
    proof (cases "i div 8 < ?q")
      case True then show ?thesis using ab by simp
    next
      case False
      then have "i div 8 = ?q" using \<open>i < nbits bm\<close> by linarith
      moreover from this have "i mod 8 < ?t" using \<open>i < nbits bm\<close> q(2) div_mult_mod_eq [of i 8] by linarith
      ultimately have "i div 8 = ?q" "i mod 8 < ?t" by simp_all
      then show ?thesis using ab by simp
    qed
  qed
qed

lemma all_members:
  assumes "bm_wf bm"
  shows "xBitmapFull bm \<longleftrightarrow> members bm = {..<nbits bm}" "xBitmapEmpty bm \<longleftrightarrow> members bm = {}"
proof -
  obtain d where d: "bm_data bm = Some d" "members bm = {i. i < nbits bm \<and> bit_at d i}"
    by (rule bm_wfE [OF assms]) blast
  have "xBitmapFull bm \<longleftrightarrow> (\<forall>i < nbits bm. bit_at d i = True)"
    unfolding all_bits [OF assms d(1)] by (simp add: xBitmapFull_def d(1) Let_def)
  then show "xBitmapFull bm \<longleftrightarrow> members bm = {..<nbits bm}" unfolding d(2) by auto
  have "xBitmapEmpty bm \<longleftrightarrow> (\<forall>i < nbits bm. bit_at d i = False)"
    unfolding all_bits [OF assms d(1)] by (simp add: xBitmapEmpty_def d(1) Let_def)
  then show "xBitmapEmpty bm \<longleftrightarrow> members bm = {}" unfolding d(2) by auto
qed

lemma members_set_all:
  assumes "bm_wf bm"
  shows "members (xBitmapSetAll bm) = {..<nbits bm}" "bm_wf (xBitmapSetAll bm)" "nbits (xBitmapSetAll bm) = nbits bm"
proof -
  obtain d where d: "bm_data bm = Some d" "length d = nbytes bm" "nbytes bm = (nbits bm + 7) div 8"
    "\<And>i. i < nbits bm \<Longrightarrow> i div 8 < length d" by (rule bm_wfE [OF assms]) blast
  let ?b = "bm\<lparr>bm_data := Some (replicate (nbytes bm) 0xFF)\<rparr>"
  have wf: "bm_wf ?b" using assms d(1) by (auto simp: bm_wf_def)
  then show "bm_wf (xBitmapSetAll bm)" "nbits (xBitmapSetAll bm) = nbits bm"
    using d(1) by (auto simp: xBitmapSetAll_def sanitise_tail_def Let_def intro: wf_change)
  have ff: "bit (0xFF :: 8 word) k" if "k < 8" for k using byte_eq [of "0xFF" True] that by simp
  have "xBitmapTest (xBitmapSetAll bm) i" if i: "i < nbits bm" for i
  proof -
    let ?t = "nbits bm mod 8" and ?d = "replicate (nbytes bm) (0xFF :: 8 word)"
    have k: "i div 8 < nbytes bm" using d(2,4) i by simp
    have "bit (?d[nbytes bm - 1 := ?d ! (nbytes bm - 1) AND low_mask ?t] ! (i div 8)) (i mod 8)" if t: "?t \<noteq> 0"
    proof (cases "i div 8 = nbytes bm - 1")
      case True
      then have "i mod 8 < ?t" using i t d(3) bytes_partial [OF t] by (metis add_diff_cancel_right' div_mult_mod_eq
            nat_add_left_cancel_less)
      then show ?thesis using True k ff [of "i mod 8"] by (simp add: bit_and_iff bit_low_mask)
    next
      case False
      then show ?thesis using k ff [of "i mod 8"] by simp
    qed
    then show ?thesis using i d(1) k ff [of "i mod 8"]
      by (auto simp: xBitmapSetAll_def sanitise_tail_def Let_def xBitmapTest_def and_exp_eq_0_iff_not_bit change_byte_def)
  qed
  then show "members (xBitmapSetAll bm) = {..<nbits bm}"
    using \<open>nbits (xBitmapSetAll bm) = nbits bm\<close> by (auto simp: members_def) (simp add: xBitmapTest_def split: if_splits)
qed

lemma members_clear_all:
  assumes "bm_wf bm"
  shows "members (xBitmapClearAll bm) = {}" "bm_wf (xBitmapClearAll bm)" "nbits (xBitmapClearAll bm) = nbits bm"
proof -
  obtain d where d: "bm_data bm = Some d" "length d = nbytes bm" "\<And>i. i < nbits bm \<Longrightarrow> i div 8 < length d"
    by (rule bm_wfE [OF assms]) blast
  then show "bm_wf (xBitmapClearAll bm)" "nbits (xBitmapClearAll bm) = nbits bm" "members (xBitmapClearAll bm) = {}"
    using assms by (auto simp: xBitmapClearAll_def bm_wf_def members_def xBitmapTest_def)
qed

text \<open>
  With a number of bits within seven of \<open>2 ^ 32\<close> the number of bytes wraps to zero while the bound
  of every access is still the number of bits.
\<close>

lemma init_wraps:
  "U32 \<le> n + 7 \<Longrightarrow> n < U32 \<Longrightarrow> fst (xBitmapInit n True bm) = xErrno_Ok \<and>
     bm_data (snd (xBitmapInit n True bm)) = Some [] \<and> nbits (snd (xBitmapInit n True bm)) = n"
  by (simp add: xBitmapInit_def bits_to_bytes_def U32_def mod_if)

section \<open>Properties\<close>

lemma init_shape: "fst (xBitmapInit n ok b) = xErrno_Ok \<longleftrightarrow> 0 < n \<and> ok"
  by (simp add: xBitmapInit_def)

text \<open>
  A bitmap is well formed from its creation on, for every number of bits whose bytes can be counted:
  no operation changes its sizes or the length of its array, so that every index below the number of bits
  names a byte of the array.
\<close>

theorem bitmap_well_formed:
  assumes "n + 7 < U32" "xBitmapInit n ok b = (xErrno_Ok, b0)" "bm_wf bm"
  shows "bm_wf b0 \<and> nbits b0 = n \<and>
    (\<forall>f \<in> {xBitmapSet i, xBitmapClear i, xBitmapToggle i, xBitmapSetAll, xBitmapClearAll}. bm_wf (f bm) \<and> nbits (f bm) = nbits bm) \<and>
    (\<forall>j < nbits bm. j div 8 < length (the (bm_data bm)))"
proof -
  have "0 < n" "ok" using init_shape [of n ok b] assms(2) by simp_all
  then have "bm_wf b0" "nbits b0 = n" using wf_init [of n b] assms(1,2) by (auto simp: xBitmapInit_def)
  moreover have "\<forall>j < nbits bm. j div 8 < length (the (bm_data bm))" using bm_wfE [OF assms(3)] by (metis option.sel)
  ultimately show ?thesis using assms(3) members_set_all members_clear_all
    by (auto simp: xBitmapSet_def xBitmapClear_def xBitmapToggle_def intro: wf_change)
qed

theorem bitmap_well_formed_witness:
  "bm_wf (snd (xBitmapInit 11 True no_bitmap))"
  using bitmap_well_formed [of 11 True no_bitmap "snd (xBitmapInit 11 True no_bitmap)" "snd (xBitmapInit 5 True no_bitmap)"]
    wf_init [of 5 no_bitmap] by (simp add: xBitmapInit_def U32_def)

text \<open>
  C33. A well-formed bitmap is the set of the indices it holds: every operation is the set operation it is named
  after, the count is the cardinality, and the tests for full and empty compare with all indices and with none.
\<close>

theorem bitmap_is_set:
  assumes "bm_wf bm"
  shows "(xBitmapTest bm i \<longleftrightarrow> i \<in> members bm) \<and>
    members (xBitmapSet i bm) = members bm \<union> {i} \<inter> {..<nbits bm} \<and>
    members (xBitmapClear i bm) = members bm - {i} \<and>
    members (xBitmapToggle i bm) = (if i \<in> members bm then members bm - {i} else members bm \<union> {i} \<inter> {..<nbits bm}) \<and>
    members (xBitmapSetAll bm) = {..<nbits bm} \<and> members (xBitmapClearAll bm) = {} \<and>
    xBitmapCount bm = card (members bm) \<and>
    (xBitmapFull bm \<longleftrightarrow> members bm = {..<nbits bm}) \<and> (xBitmapEmpty bm \<longleftrightarrow> members bm = {})"
proof -
  have bound: "i \<in> members bm \<Longrightarrow> i < nbits bm" by (auto simp: members_def xBitmapTest_def split: if_splits)
  show ?thesis
  proof (intro conjI)
    show "xBitmapTest bm i \<longleftrightarrow> i \<in> members bm" by (simp add: members_def)
    show "members (xBitmapSet i bm) = members bm \<union> {i} \<inter> {..<nbits bm}" by (auto simp: members_set [OF assms])
    show "members (xBitmapToggle i bm) = (if i \<in> members bm then members bm - {i} else members bm \<union> {i} \<inter> {..<nbits bm})"
      using bound by (auto simp: members_toggle [OF assms])
  qed (simp_all add: members_clear [OF assms] members_set_all [OF assms] members_clear_all [OF assms] count_members [OF assms] all_members [OF assms])
qed

theorem bitmap_is_set_witness:
  "xBitmapCount (snd (xBitmapInit 11 True no_bitmap)) = card (members (snd (xBitmapInit 11 True no_bitmap)))"
  using bitmap_is_set [of "snd (xBitmapInit 11 True no_bitmap)" 0] wf_init [of 11 no_bitmap] by (simp add: U32_def)

end
