(* ===== verification/XferVfs.thy ===== *)
theory XferVfs
  imports Bitmap Hashes
begin

text \<open>
  The storage of a file transfer: the interface \<^verbatim>\<open>xTransferVfs\<close> of \<^verbatim>\<open>fer/xfer_vfs.h\<close>, its default
  implementation \<^verbatim>\<open>fer/xfer_vfs_posix.c\<close>, the saved bitmaps and the file hash of \<^verbatim>\<open>fer/xfer.c\<close>.
  The C library's files are a map from paths to bytes with a table of open streams; a stream names
  its file by path, and every access seeks first, so positions are not kept. A list says which of the
  calls to come fail, and after how many bytes. The interface is a record of functions over the state;
  what the transfer relies on is the locale \<open>file_store\<close>.
\<close>

section \<open>Files of the C library\<close>

type_synonym path = octets

datatype fmode = M_rb | M_wb | M_rpb

record disk =
  files :: "path \<Rightarrow> octets option"
  streams :: "nat \<Rightarrow> path option"
  next_stream :: nat
  io_faults :: "nat option list"

definition io_draw :: "'a disk_scheme \<Rightarrow> nat option \<times> 'a disk_scheme" where
  "io_draw d = (case io_faults d of [] \<Rightarrow> (None, d) | f # fs \<Rightarrow> (f, d\<lparr>io_faults := fs\<rparr>))"

definition add_stream :: "path \<Rightarrow> 'a disk_scheme \<Rightarrow> nat option \<times> 'a disk_scheme" where
  "add_stream p d = (Some (next_stream d),
     d\<lparr>streams := (streams d)(next_stream d \<mapsto> p), next_stream := next_stream d + 1\<rparr>)"

definition fopen :: "path \<Rightarrow> fmode \<Rightarrow> 'a disk_scheme \<Rightarrow> nat option \<times> 'a disk_scheme" where
  "fopen p m d = (case io_draw d of
     (Some k, d1) \<Rightarrow> (None, d1)
   | (None, d1) \<Rightarrow>
       if m = M_wb then add_stream p (d1\<lparr>files := (files d1)(p \<mapsto> [])\<rparr>)
       else if files d1 p = None then (None, d1) else add_stream p d1)"

definition fclose :: "nat \<Rightarrow> 'a disk_scheme \<Rightarrow> 'a disk_scheme" where
  "fclose h d = d\<lparr>streams := (streams d)(h := None)\<rparr>"

definition stream_file :: "nat \<Rightarrow> 'a disk_scheme \<Rightarrow> (path \<times> octets) option" where
  "stream_file h d = (case streams d h of None \<Rightarrow> None
     | Some p \<Rightarrow> (case files d p of None \<Rightarrow> None | Some c \<Rightarrow> Some (p, c)))"

text \<open>A write behind the end fills the gap with zeros; writing nothing changes nothing.\<close>

definition write_at :: "nat \<Rightarrow> octets \<Rightarrow> octets \<Rightarrow> octets" where
  "write_at off bs c = (if bs = [] then c
     else take off c @ replicate (off - length c) 0 @ bs @ drop (off + length bs) c)"

definition put_bytes :: "nat \<Rightarrow> octets \<Rightarrow> nat \<Rightarrow> 'a disk_scheme \<Rightarrow> nat \<times> 'a disk_scheme" where
  "put_bytes h bs off d = (case io_draw d of (f, d1) \<Rightarrow> (case stream_file h d1 of
     None \<Rightarrow> (0, d1)
   | Some (p, c) \<Rightarrow> let n = (case f of None \<Rightarrow> length bs | Some k \<Rightarrow> min k (length bs)) in
       (n, d1\<lparr>files := (files d1)(p \<mapsto> write_at off (take n bs) c)\<rparr>)))"

text \<open>None is a read that ends in an error.\<close>

definition get_bytes :: "nat \<Rightarrow> nat \<Rightarrow> nat \<Rightarrow> 'a disk_scheme \<Rightarrow> octets option \<times> 'a disk_scheme" where
  "get_bytes h n off d = (case io_draw d of
     (Some k, d1) \<Rightarrow> (None, d1)
   | (None, d1) \<Rightarrow> (case stream_file h d1 of None \<Rightarrow> (None, d1) | Some (p, c) \<Rightarrow> (Some (take n (drop off c)), d1)))"

section \<open>The interface and its default implementation\<close>

record 'w xTransferVfs =
  vfs_open :: "path \<Rightarrow> fmode \<Rightarrow> 'w \<Rightarrow> nat option \<times> 'w"
  vfs_pread :: "nat \<Rightarrow> nat \<Rightarrow> nat \<Rightarrow> 'w \<Rightarrow> xErrno \<times> octets \<times> 'w"
  vfs_pwrite :: "nat \<Rightarrow> octets \<Rightarrow> nat \<Rightarrow> 'w \<Rightarrow> xErrno \<times> nat \<times> 'w"
  vfs_size :: "nat \<Rightarrow> 'w \<Rightarrow> xErrno \<times> nat \<times> 'w"
  vfs_truncate :: "(nat \<Rightarrow> nat \<Rightarrow> 'w \<Rightarrow> xErrno \<times> 'w) option"
  vfs_flush :: "nat \<Rightarrow> 'w \<Rightarrow> xErrno \<times> 'w"
  vfs_close :: "nat \<Rightarrow> 'w \<Rightarrow> 'w"
  vfs_rename :: "(path \<Rightarrow> path \<Rightarrow> 'w \<Rightarrow> xErrno \<times> 'w) option"
  vfs_remove :: "(path \<Rightarrow> 'w \<Rightarrow> xErrno \<times> 'w) option"

definition FSEEK_LIM :: nat where "FSEEK_LIM = 2 ^ 63"

definition posix_open :: "path \<Rightarrow> fmode \<Rightarrow> 'a disk_scheme \<Rightarrow> nat option \<times> 'a disk_scheme" where
  "posix_open path mode d = fopen path mode d"

definition posix_pread ::
  "nat \<Rightarrow> nat \<Rightarrow> nat \<Rightarrow> 'a disk_scheme \<Rightarrow> xErrno \<times> octets \<times> 'a disk_scheme" where
  "posix_pread h len off d = (if off \<ge> FSEEK_LIM then (xErrno_SysError, [], d)
     else (case get_bytes h len off d of
       (None, d1) \<Rightarrow> (xErrno_SysError, [], d1) | (Some bs, d1) \<Rightarrow> (xErrno_Ok, bs, d1)))"

definition posix_pwrite ::
  "nat \<Rightarrow> octets \<Rightarrow> nat \<Rightarrow> 'a disk_scheme \<Rightarrow> xErrno \<times> nat \<times> 'a disk_scheme" where
  "posix_pwrite h bs off d = (if off \<ge> FSEEK_LIM then (xErrno_SysError, 0, d)
     else (case put_bytes h bs off d of (n, d1) \<Rightarrow>
       (if n = length bs then xErrno_Ok else xErrno_SysError, n, d1)))"

definition posix_size :: "nat \<Rightarrow> 'a disk_scheme \<Rightarrow> xErrno \<times> nat \<times> 'a disk_scheme" where
  "posix_size h d = (case io_draw d of
     (Some k, d1) \<Rightarrow> (xErrno_SysError, 0, d1)
   | (None, d1) \<Rightarrow> (case stream_file h d1 of None \<Rightarrow> (xErrno_SysError, 0, d1) | Some (p, c) \<Rightarrow> (xErrno_Ok, length c, d1)))"

text \<open>The result of the seek is not looked at: when it fails the byte goes to the start of the new file.\<close>

definition posix_truncate :: "nat \<Rightarrow> nat \<Rightarrow> 'a disk_scheme \<Rightarrow> xErrno \<times> 'a disk_scheme" where
  "posix_truncate h n d = (if n > 0
     then (xErrno_Ok, snd (put_bytes h [0] (if n - 1 \<ge> FSEEK_LIM then 0 else n - 1) d))
     else (xErrno_Ok, d))"

definition posix_flush :: "nat \<Rightarrow> 'a disk_scheme \<Rightarrow> xErrno \<times> 'a disk_scheme" where
  "posix_flush h d = (case io_draw d of (f, d1) \<Rightarrow> (if f = None then xErrno_Ok else xErrno_SysError, d1))"

definition posix_close :: "nat \<Rightarrow> 'a disk_scheme \<Rightarrow> 'a disk_scheme" where
  "posix_close h d = fclose h d"

definition posix_rename :: "path \<Rightarrow> path \<Rightarrow> 'a disk_scheme \<Rightarrow> xErrno \<times> 'a disk_scheme" where
  "posix_rename source target d = (case io_draw d of
     (Some k, d1) \<Rightarrow> (xErrno_SysError, d1)
   | (None, d1) \<Rightarrow> (case files d1 source of
       None \<Rightarrow> (xErrno_SysError, d1)
     | Some c \<Rightarrow> (xErrno_Ok, if source = target then d1
         else d1\<lparr>files := (files d1)(target \<mapsto> c, source := None)\<rparr>)))"

definition posix_remove :: "path \<Rightarrow> 'a disk_scheme \<Rightarrow> xErrno \<times> 'a disk_scheme" where
  "posix_remove p d = (case io_draw d of
     (Some k, d1) \<Rightarrow> (xErrno_SysError, d1)
   | (None, d1) \<Rightarrow> if files d1 p = None then (xErrno_SysError, d1)
       else (xErrno_Ok, d1\<lparr>files := (files d1)(p := None)\<rparr>))"

definition xTransferPosixVfs :: "'a disk_scheme xTransferVfs" where
  "xTransferPosixVfs = \<lparr>vfs_open = posix_open, vfs_pread = posix_pread, vfs_pwrite = posix_pwrite,
     vfs_size = posix_size, vfs_truncate = Some posix_truncate, vfs_flush = posix_flush,
     vfs_close = posix_close, vfs_rename = Some posix_rename, vfs_remove = Some posix_remove\<rparr>"

section \<open>The hash of a file\<close>

text \<open>
  The loop ends when a read returns nothing. An implementation of the interface that always returns
  bytes keeps it going for ever; then the result is None.
\<close>

partial_function (option) sha1_loop ::
  "'w xTransferVfs \<Rightarrow> nat \<Rightarrow> digest_ctx \<Rightarrow> nat \<Rightarrow> 'w \<Rightarrow> (xErrno \<times> digest_ctx \<times> 'w) option" where
  "sha1_loop vfs h ctx offset w = (case vfs_pread vfs h 65536 offset w of (err, bs, w1) \<Rightarrow>
     if err \<noteq> xErrno_Ok then Some (err, ctx, w1)
     else if length bs = 0 then Some (xErrno_Ok, ctx, w1)
     else sha1_loop vfs h (sha1_update ctx bs) ((offset + length bs) mod 2 ^ 64) w1)"

definition sha1_new :: digest_ctx where
  "sha1_new = (zero_ctx 5)\<lparr>h_state := sha1_iv\<rparr>"

definition xfer_compute_file_sha1 ::
  "'w xTransferVfs \<Rightarrow> path \<Rightarrow> 'w \<Rightarrow> (xErrno \<times> octets \<times> 'w) option" where
  "xfer_compute_file_sha1 vfs p w = (case vfs_open vfs p M_rb w of
     (None, w1) \<Rightarrow> Some (xErrno_SysError, [], w1)
   | (Some h, w1) \<Rightarrow> (case sha1_loop vfs h sha1_new 0 w1 of
       None \<Rightarrow> None
     | Some (err, ctx, w2) \<Rightarrow>
         if err \<noteq> xErrno_Ok then Some (err, [], vfs_close vfs h w2)
         else Some (xErrno_Ok, sha1_final ctx, vfs_close vfs h w2)))"

section \<open>Saved bitmaps\<close>

definition bitmap_header :: "nat \<Rightarrow> octets" where
  "bitmap_header n = [word_of_nat (n div 2 ^ 24), word_of_nat (n div 2 ^ 16), word_of_nat (n div 2 ^ 8), word_of_nat n]"

definition xfer_bitmap_save :: "xBitmap \<Rightarrow> nat \<Rightarrow> path \<Rightarrow> 'a disk_scheme \<Rightarrow> xErrno \<times> 'a disk_scheme" where
  "xfer_bitmap_save bm total_chunks p d = (case fopen p M_wb d of
     (None, d1) \<Rightarrow> (xErrno_SysError, d1)
   | (Some h, d1) \<Rightarrow> (case put_bytes h (bitmap_header total_chunks) 0 d1 of (n, d2) \<Rightarrow>
       if n \<noteq> 4 then (xErrno_SysError, fclose h d2)
       else (case xBitmapData bm of
         (Some bs, len) \<Rightarrow> if len > 0 then (case put_bytes h (take len bs) 4 d2 of (n2, d3) \<Rightarrow>
             if n2 \<noteq> len then (xErrno_SysError, fclose h d3) else (xErrno_Ok, fclose h d3))
           else (xErrno_Ok, fclose h d2)
       | (None, len) \<Rightarrow> (xErrno_Ok, fclose h d2))))"

definition header_value :: "octets \<Rightarrow> nat" where
  "header_value b = unat (b ! 0) * 2 ^ 24 + unat (b ! 1) * 2 ^ 16 + unat (b ! 2) * 2 ^ 8 + unat (b ! 3)"

text \<open>
  The results are the code, the bitmap, the number of chunks it was saved for, and the state; the
  bitmap passed in is overwritten without being freed, and \<open>ok\<close> says whether the new one can be allocated.
\<close>

definition xfer_bitmap_load ::
  "bool \<Rightarrow> xBitmap \<Rightarrow> nat \<Rightarrow> path \<Rightarrow> 'a disk_scheme \<Rightarrow> xErrno \<times> xBitmap \<times> nat \<times> 'a disk_scheme" where
  "xfer_bitmap_load ok bm saved p d = (case fopen p M_rb d of
     (None, d1) \<Rightarrow> (xErrno_NotFound, bm, saved, d1)
   | (Some h, d1) \<Rightarrow> (case get_bytes h 4 0 d1 of
       (None, d2) \<Rightarrow> (xErrno_SysError, bm, saved, fclose h d2)
     | (Some hdr, d2) \<Rightarrow>
       if length hdr \<noteq> 4 then (xErrno_SysError, bm, saved, fclose h d2)
       else let t = header_value hdr in
         if t = 0 then (xErrno_InvalidArg, bm, t, fclose h d2)
         else (case xBitmapInit t ok bm of (err, bm1) \<Rightarrow>
           if err \<noteq> xErrno_Ok then (err, bm1, t, fclose h d2)
           else (case get_bytes h (nbytes bm1) 4 d2 of
             (None, d3) \<Rightarrow> (xErrno_SysError, fst (xBitmapFree bm1), t, fclose h d3)
           | (Some bs, d3) \<Rightarrow>
               if length bs \<noteq> nbytes bm1 then (xErrno_SysError, fst (xBitmapFree bm1), t, fclose h d3)
               else (xErrno_Ok, bm1\<lparr>bm_data := Some bs\<rparr>, t, fclose h d3)))))"


section \<open>What the transfer relies on\<close>

text \<open>
  From a sound state on nothing fails; \<open>stored\<close> are the files and \<open>opened\<close> the open handles. Saving a
  bitmap goes past the interface and touches no other file.
\<close>

locale file_store =
  fixes vfs :: "'a disk_scheme xTransferVfs"
    and stored :: "'a disk_scheme \<Rightarrow> path \<Rightarrow> octets option"
    and opened :: "'a disk_scheme \<Rightarrow> nat \<Rightarrow> path option"
    and sound :: "'a disk_scheme \<Rightarrow> bool"
  assumes open_old: "sound w \<Longrightarrow> stored w p = Some c \<Longrightarrow> m \<noteq> M_wb \<Longrightarrow> vfs_open vfs p m w = (r, w')
      \<Longrightarrow> \<exists>h. r = Some h \<and> opened w h = None \<and> opened w' = (opened w)(h \<mapsto> p) \<and> stored w' = stored w \<and> sound w'"
    and open_missing: "sound w \<Longrightarrow> stored w p = None \<Longrightarrow> m \<noteq> M_wb \<Longrightarrow> vfs_open vfs p m w = (r, w')
      \<Longrightarrow> r = None \<and> opened w' = opened w \<and> stored w' = stored w \<and> sound w'"
    and open_new: "sound w \<Longrightarrow> vfs_open vfs p M_wb w = (r, w')
      \<Longrightarrow> \<exists>h. r = Some h \<and> opened w h = None \<and> opened w' = (opened w)(h \<mapsto> p) \<and> stored w' = (stored w)(p \<mapsto> []) \<and> sound w'"
    and pread: "sound w \<Longrightarrow> opened w h = Some p \<Longrightarrow> stored w p = Some c \<Longrightarrow> off < FSEEK_LIM \<Longrightarrow> vfs_pread vfs h n off w = (e, bs, w')
      \<Longrightarrow> e = xErrno_Ok \<and> bs = take n (drop off c) \<and> opened w' = opened w \<and> stored w' = stored w \<and> sound w'"
    and pwrite: "sound w \<Longrightarrow> opened w h = Some p \<Longrightarrow> stored w p = Some c \<Longrightarrow> off < FSEEK_LIM \<Longrightarrow> vfs_pwrite vfs h bs off w = (e, n, w')
      \<Longrightarrow> e = xErrno_Ok \<and> n = length bs \<and> opened w' = opened w \<and> stored w' = (stored w)(p \<mapsto> write_at off bs c) \<and> sound w'"
    and truncate: "sound w \<Longrightarrow> opened w h = Some p \<Longrightarrow> stored w p = Some [] \<Longrightarrow> vfs_truncate vfs = Some t \<Longrightarrow> 0 < n \<Longrightarrow> n \<le> FSEEK_LIM
      \<Longrightarrow> t h n w = (e, w') \<Longrightarrow> opened w' = opened w \<and> stored w' = (stored w)(p \<mapsto> replicate n 0) \<and> sound w'"
    and flush: "sound w \<Longrightarrow> vfs_flush vfs h w = (e, w') \<Longrightarrow> opened w' = opened w \<and> stored w' = stored w \<and> sound w'"
    and close: "sound w \<Longrightarrow> vfs_close vfs h w = w' \<Longrightarrow> opened w' = (opened w)(h := None) \<and> stored w' = stored w \<and> sound w'"
    and rename: "sound w \<Longrightarrow> vfs_rename vfs = Some rn \<Longrightarrow> stored w p = Some c \<Longrightarrow> p \<noteq> q \<Longrightarrow> rn p q w = (e, w')
      \<Longrightarrow> e = xErrno_Ok \<and> opened w' = opened w \<and> stored w' = (stored w)(q \<mapsto> c, p := None) \<and> sound w'"
    and remove: "sound w \<Longrightarrow> vfs_remove vfs = Some rm \<Longrightarrow> rm p w = (e, w')
      \<Longrightarrow> opened w' = opened w \<and> (\<forall>q. q \<noteq> p \<longrightarrow> stored w' q = stored w q) \<and> sound w'"
    and bitmap_save: "sound w \<Longrightarrow> xfer_bitmap_save bm n p w = (e, w')
      \<Longrightarrow> (\<forall>q. q \<noteq> p \<longrightarrow> stored w' q = stored w q) \<and> (\<forall>h q. opened w h = Some q \<longrightarrow> opened w' h = Some q) \<and> sound w'"
    and bitmap_load: "sound w \<Longrightarrow> xfer_bitmap_load ok bm n p w = (e, bm', n', w')
      \<Longrightarrow> stored w' = stored w \<and> (\<forall>h q. opened w h = Some q \<longrightarrow> opened w' h = Some q) \<and> sound w'"
begin

text \<open>The hash of a stored file is its SHA-1 value, and computing it ends.\<close>

lemma sha1_loop_reads:
  assumes "sound w" "opened w h = Some p" "stored w p = Some c" "length c < FSEEK_LIM"
    and "off \<le> length c" and "sha1.absorbed (take off c) ctx"
  shows "\<exists>ctx' w'. sha1_loop vfs h ctx off w = Some (xErrno_Ok, ctx', w') \<and> sha1.absorbed c ctx' \<and>
    sound w' \<and> opened w' = opened w \<and> stored w' = stored w"
  using assms
proof (induction "length c - off" arbitrary: off ctx w rule: less_induct)
  case less
  obtain e bs w1 where r: "vfs_pread vfs h 65536 off w = (e, bs, w1)" by (metis prod_cases3)
  note p = pread [OF less.prems(1-3) _ r]
  have off: "off < FSEEK_LIM" using less.prems(4,5) by simp
  note p = p [OF off]
  show ?case
  proof (cases "off = length c")
    case True
    then show ?thesis using p r less.prems(6) by (subst sha1_loop.simps) simp
  next
    case False
    let ?off = "(off + length bs) mod 2 ^ 64"
    have bs: "bs \<noteq> []" "length bs \<le> length c - off" "take (off + length bs) c = take off c @ bs"
      using p False less.prems(5) by (auto simp: take_add min_def)
    have o: "?off = off + length bs" using bs(2) less.prems(4,5) by (simp add: FSEEK_LIM_def)
    have "sha1.absorbed (take ?off c) (sha1_update ctx bs)"
      unfolding o bs(3) using less.prems(6) by (simp add: update_steps(2) sha1.absorbed_update)
    moreover have "length c - ?off < length c - off" "?off \<le> length c" 
      unfolding o using bs(1,2) False less.prems(5) length_greater_0_conv [of bs] by linarith+
    ultimately obtain ctx' w' where "sha1_loop vfs h (sha1_update ctx bs) ?off w1 = Some (xErrno_Ok, ctx', w')"
      "sha1.absorbed c ctx'" "sound w'" "opened w' = opened w1" "stored w' = stored w1"
      using less.hyps [of ?off w1 "sha1_update ctx bs"] p less.prems(2-4) by metis
    then show ?thesis using p r bs(1) by (subst sha1_loop.simps) simp
  qed
qed

lemma compute_file_sha1:
  assumes "sound w" "stored w p = Some c" "length c < FSEEK_LIM"
  shows "\<exists>w'. xfer_compute_file_sha1 vfs p w = Some (xErrno_Ok, SHA1 c, w') \<and> sound w' \<and>
    opened w' = opened w \<and> stored w' = stored w"
proof -
  obtain r w1 where o: "vfs_open vfs p M_rb w = (r, w1)" by fastforce
  obtain h where h: "r = Some h" "opened w h = None" "opened w1 = (opened w)(h \<mapsto> p)" "stored w1 = stored w" "sound w1"
    using open_old [OF assms(1,2) _ o] by auto
  have "sha1.absorbed (take 0 c) sha1_new"
    using sha1.absorbed_init [of "replicate 64 0"] by (simp add: sha1_new_def zero_ctx_def)
  then obtain ctx w2 where l: "sha1_loop vfs h sha1_new 0 w1 = Some (xErrno_Ok, ctx, w2)" "sha1.absorbed c ctx"
    "sound w2" "opened w2 = opened w1" "stored w2 = stored w1"
    using sha1_loop_reads [of w1 h p c 0 sha1_new] h assms(2,3) by auto
  have "opened (vfs_close vfs h w2) = (opened w2)(h := None)" "stored (vfs_close vfs h w2) = stored w2" "sound (vfs_close vfs h w2)"
    using close [OF l(3)] by auto
  moreover have "((opened w)(h \<mapsto> p))(h := None) = opened w" using h(2) by auto
  ultimately show ?thesis using o h l sha1_final_digest [OF l(2)] by (simp add: xfer_compute_file_sha1_def)
qed

end

text \<open>The streams of the C library keep the contract while no call is marked to fail.\<close>

definition disk_sound :: "'a disk_scheme \<Rightarrow> bool" where
  "disk_sound d \<longleftrightarrow> io_faults d = [] \<and> (\<forall>h \<ge> next_stream d. streams d h = None)"

lemma io_draw_sound [simp]: "io_faults d = [] \<Longrightarrow> io_draw d = (None, d)"
  by (simp add: io_draw_def)

lemma fopen_sound:
  assumes "disk_sound w" "fopen p m w = (r, w')" "m = M_wb \<or> files w p \<noteq> None"
  shows "r = Some (next_stream w)" "streams w (next_stream w) = None"
    "streams w' = (streams w)(next_stream w \<mapsto> p)" "files w' = (if m = M_wb then (files w)(p \<mapsto> []) else files w)"
    "disk_sound w'"
  using assms by (auto simp: fopen_def disk_sound_def add_stream_def split: if_splits)

lemma bytes_sound:
  assumes "disk_sound w"
  shows "streams w h = Some p \<Longrightarrow> files w p = Some c \<Longrightarrow> get_bytes h n off w = (Some (take n (drop off c)), w)"
    "streams w h = Some p \<Longrightarrow> files w p = Some c \<Longrightarrow>
      put_bytes h bs off w = (length bs, w\<lparr>files := (files w)(p \<mapsto> write_at off bs c)\<rparr>)"
  using assms by (auto simp: get_bytes_def put_bytes_def disk_sound_def stream_file_def)

lemma sound_files [simp]: "disk_sound (w\<lparr>files := F\<rparr>) = disk_sound w"
  by (simp add: disk_sound_def)

lemma fclose_sound [simp]:
  "disk_sound w \<Longrightarrow> disk_sound (fclose h w)" "streams (fclose h w) = (streams w)(h := None)" "files (fclose h w) = files w"
  by (auto simp: fclose_def disk_sound_def)

lemma bitmap_save_sound:
  assumes "disk_sound w" "xfer_bitmap_save bm n p w = (e, w')"
  shows "(\<forall>q. q \<noteq> p \<longrightarrow> files w' q = files w q) \<and> streams w' = streams w \<and> disk_sound w'"
proof -
  obtain r w1 where o: "fopen p M_wb w = (r, w1)" by fastforce
  let ?h = "next_stream w"
  note f = fopen_sound [OF assms(1) o]
  have w1: "r = Some ?h" "streams w ?h = None" "streams w1 = (streams w)(?h \<mapsto> p)" "files w1 = (files w)(p \<mapsto> [])" "disk_sound w1"
    using f by simp_all
  have c: "((streams w)(?h \<mapsto> p))(?h := None) = streams w" using w1(2) by auto
  obtain b len where d: "xBitmapData bm = (b, len)" by fastforce
  show ?thesis
  proof (cases b)
    case None
    then show ?thesis using assms(2) o w1 c d bytes_sound(2) [OF w1(5)]
      by (auto simp: xfer_bitmap_save_def bitmap_header_def)
  next
    case (Some bs)
    then show ?thesis using assms(2) o w1 c d bytes_sound(2) [OF w1(5)]
      by (auto simp: xfer_bitmap_save_def bitmap_header_def bytes_sound(2) split: if_splits prod.splits)
  qed
qed

lemma bitmap_load_sound:
  assumes "disk_sound w" "xfer_bitmap_load ok bm n p w = (e, bm', n', w')"
  shows "files w' = files w \<and> streams w' = streams w \<and> disk_sound w'"
proof (cases "files w p")
  case None
  then show ?thesis using assms by (auto simp: xfer_bitmap_load_def fopen_def disk_sound_def)
next
  case (Some c)
  obtain r w1 where o: "fopen p M_rb w = (r, w1)" by fastforce
  let ?h = "next_stream w"
  have w1: "r = Some ?h" "streams w ?h = None" "streams w1 = (streams w)(?h \<mapsto> p)" "files w1 = files w" "disk_sound w1"
    using fopen_sound [OF assms(1) o] Some by simp_all
  have c: "((streams w)(?h \<mapsto> p))(?h := None) = streams w" using w1(2) by auto
  have g: "get_bytes ?h n off w1 = (Some (take n (drop off c)), w1)" for n off
    using bytes_sound(1) [OF w1(5)] w1 Some by simp
  show ?thesis using assms(2) o w1 c by (auto simp: xfer_bitmap_load_def g Let_def split: if_splits prod.splits)
qed

interpretation posix: file_store "xTransferPosixVfs :: 'a disk_scheme xTransferVfs" files streams disk_sound
proof
  note ops = xTransferPosixVfs_def posix_open_def posix_pread_def posix_pwrite_def posix_truncate_def posix_flush_def
    posix_close_def posix_rename_def posix_remove_def FSEEK_LIM_def
  fix w w' :: "'a disk_scheme"
  assume w: "disk_sound w"
  then have faults: "io_faults w = []" by (simp add: disk_sound_def)
  show "\<exists>h. r = Some h \<and> streams w h = None \<and> streams w' = (streams w)(h \<mapsto> p) \<and> files w' = files w \<and> disk_sound w'"
    if "files w p = Some c" "m \<noteq> M_wb" "vfs_open xTransferPosixVfs p m w = (r, w')" for p c m r
    using fopen_sound [OF w, of p m r w'] that by (auto simp: ops)
  show "r = None \<and> streams w' = streams w \<and> files w' = files w \<and> disk_sound w'"
    if "files w p = None" "m \<noteq> M_wb" "vfs_open xTransferPosixVfs p m w = (r, w')" for p m r
    using that w faults by (auto simp: ops fopen_def)
  show "\<exists>h. r = Some h \<and> streams w h = None \<and> streams w' = (streams w)(h \<mapsto> p) \<and> files w' = (files w)(p \<mapsto> []) \<and> disk_sound w'"
    if "vfs_open xTransferPosixVfs p M_wb w = (r, w')" for p r
    using fopen_sound [OF w, of p M_wb r w'] that by (auto simp: ops)
  show "e = xErrno_Ok \<and> bs = take n (drop off c) \<and> streams w' = streams w \<and> files w' = files w \<and> disk_sound w'"
    if "streams w h = Some p" "files w p = Some c" "off < FSEEK_LIM" "vfs_pread xTransferPosixVfs h n off w = (e, bs, w')"
    for h p c off n e bs using that w by (auto simp: ops bytes_sound(1) [OF w])
  show "e = xErrno_Ok \<and> n = length bs \<and> streams w' = streams w \<and> files w' = (files w)(p \<mapsto> write_at off bs c) \<and> disk_sound w'"
    if "streams w h = Some p" "files w p = Some c" "off < FSEEK_LIM" "vfs_pwrite xTransferPosixVfs h bs off w = (e, n, w')"
    for h p c off n e bs using that w by (auto simp: ops bytes_sound(2) [OF w])
  show "streams w' = streams w \<and> files w' = (files w)(p \<mapsto> replicate n 0) \<and> disk_sound w'"
    if "streams w h = Some p" "files w p = Some []" "vfs_truncate xTransferPosixVfs = Some t" "0 < n" "n \<le> FSEEK_LIM" "t h n w = (e, w')"
    for h p t n e using that w
    by (auto simp: ops bytes_sound(2) [OF w] write_at_def replicate_append_same simp flip: replicate_Suc)
  show "streams w' = streams w \<and> files w' = files w \<and> disk_sound w'" if "vfs_flush xTransferPosixVfs h w = (e, w')" for h e
    using that w faults by (auto simp: ops)
  show "streams w' = (streams w)(h := None) \<and> files w' = files w \<and> disk_sound w'" if "vfs_close xTransferPosixVfs h w = w'" for h
    using that w by (auto simp: ops)
  show "e = xErrno_Ok \<and> streams w' = streams w \<and> files w' = (files w)(q \<mapsto> c, p := None) \<and> disk_sound w'"
    if "vfs_rename xTransferPosixVfs = Some rn" "files w p = Some c" "p \<noteq> q" "rn p q w = (e, w')" for rn p q c e
    using that w faults by (auto simp: ops)
  show "streams w' = streams w \<and> (\<forall>q. q \<noteq> p \<longrightarrow> files w' q = files w q) \<and> disk_sound w'"
    if "vfs_remove xTransferPosixVfs = Some rm" "rm p w = (e, w')" for rm p e
    using that w faults by (auto simp: ops split: if_splits)
  show "(\<forall>q. q \<noteq> p \<longrightarrow> files w' q = files w q) \<and> (\<forall>h q. streams w h = Some q \<longrightarrow> streams w' h = Some q) \<and> disk_sound w'"
    if "xfer_bitmap_save bm n p w = (e, w')" for bm n p e using bitmap_save_sound [OF w that] by simp
  show "files w' = files w \<and> (\<forall>h q. streams w h = Some q \<longrightarrow> streams w' h = Some q) \<and> disk_sound w'"
    if "xfer_bitmap_load ok bm n p w = (e, bm', n', w')" for ok bm n p e bm' n' using bitmap_load_sound [OF w that] by simp
qed

end
