(* ===== verification/XferProtocol.thy ===== *)
theory XferProtocol
  imports Digest
begin

text \<open>
  \<^verbatim>\<open>fer/xfer_protocol.c\<close>: the messages of a file transfer. An encoder takes the capacity of its
  buffer, or None for a NULL one, and yields the code and the bytes it writes; a decoder takes the bytes
  behind the type byte. Sums of an \<^verbatim>\<open>int\<close> constant and a \<^verbatim>\<open>uint32_t\<close> are taken modulo \<open>2 ^ 32\<close>, as C takes
  them before it widens the result.
\<close>

unbundle bit_operations_syntax

section \<open>Constants and byte order\<close>

definition XFER_MSG_FILE_META :: "8 word" where "XFER_MSG_FILE_META = 0x01"
definition XFER_MSG_FILE_CHUNK :: "8 word" where "XFER_MSG_FILE_CHUNK = 0x02"
definition XFER_MSG_FILE_DONE :: "8 word" where "XFER_MSG_FILE_DONE = 0x03"
definition XFER_MSG_ACK :: "8 word" where "XFER_MSG_ACK = 0x04"
definition XFER_MSG_FILE_RESUME :: "8 word" where "XFER_MSG_FILE_RESUME = 0x07"
definition XFER_SHA1_SIZE :: nat where "XFER_SHA1_SIZE = 20"

definition put_u16 :: "16 word \<Rightarrow> octets" where
  "put_u16 v = [ucast (drop_bit 8 v), ucast v]"

definition get_u16 :: "octets \<Rightarrow> nat \<Rightarrow> 16 word" where
  "get_u16 p i = push_bit 8 (ucast (p ! i)) OR ucast (p ! (i + 1))"

definition put_u32 :: "32 word \<Rightarrow> octets" where
  "put_u32 v = [ucast (drop_bit 24 v), ucast (drop_bit 16 v), ucast (drop_bit 8 v), ucast v]"

definition get_u32 :: "octets \<Rightarrow> nat \<Rightarrow> 32 word" where
  "get_u32 p i = push_bit 24 (ucast (p ! i)) OR push_bit 16 (ucast (p ! (i + 1)))
     OR push_bit 8 (ucast (p ! (i + 2))) OR ucast (p ! (i + 3))"

definition put_u64 :: "64 word \<Rightarrow> octets" where
  "put_u64 v = put_u32 (ucast (drop_bit 32 v)) @ put_u32 (ucast (v AND 0xFFFFFFFF))"

definition get_u64 :: "octets \<Rightarrow> nat \<Rightarrow> 64 word" where
  "get_u64 p i = push_bit 32 (ucast (get_u32 p i)) OR ucast (get_u32 p (i + 4))"

section \<open>Messages\<close>

record xTransferFileMeta =
  fm_filename :: octets
  fm_filename_len :: "16 word"
  fm_file_size :: "64 word"
  fm_chunk_size :: "32 word"
  fm_sha1 :: octets

record xTransferFileDone =
  fd_total_chunks :: "32 word"
  fd_sha1 :: octets

text \<open>A pointer into the message is the rest of the message.\<close>

record xTransferFileResume =
  fr_total_chunks :: "32 word"
  fr_bitmap :: "octets option"
  fr_bitmap_len :: "32 word"

section \<open>FILE_META\<close>

definition xTransferEncodeFileMeta :: "xTransferFileMeta option \<Rightarrow> nat option \<Rightarrow> xErrno \<times> octets" where
  "xTransferEncodeFileMeta meta buf = (case (meta, buf) of
     (Some m, Some cap) \<Rightarrow>
       if cap < 1 + 2 + unat (fm_filename_len m) + 8 + 4 + XFER_SHA1_SIZE then (xErrno_InvalidArg, [])
       else (xErrno_Ok, [XFER_MSG_FILE_META] @ put_u16 (fm_filename_len m) @
         take (unat (fm_filename_len m)) (fm_filename m) @ put_u64 (fm_file_size m) @
         put_u32 (fm_chunk_size m) @ take XFER_SHA1_SIZE (fm_sha1 m))
   | _ \<Rightarrow> (xErrno_InvalidArg, []))"

definition xTransferDecodeFileMeta ::
  "octets option \<Rightarrow> xTransferFileMeta \<Rightarrow> xErrno \<times> xTransferFileMeta" where
  "xTransferDecodeFileMeta data m = (case data of None \<Rightarrow> (xErrno_InvalidArg, m)
   | Some p \<Rightarrow>
     if length p < 34 then (xErrno_InvalidArg, m)
     else let name_len = get_u16 p 0; n = unat name_len in
       if n > 255 \<or> length p < 2 + n + 8 + 4 + XFER_SHA1_SIZE then (xErrno_InvalidArg, m)
       else (xErrno_Ok, m\<lparr>fm_filename := (store_at 0 (take n (drop 2 p)) (fm_filename m))[n := 0],
         fm_filename_len := name_len, fm_file_size := get_u64 p (2 + n),
         fm_chunk_size := get_u32 p (2 + n + 8), fm_sha1 := take XFER_SHA1_SIZE (drop (2 + n + 8 + 4) p)\<rparr>))"

section \<open>FILE_CHUNK\<close>

definition xTransferEncodeChunkHeader :: "32 word \<Rightarrow> nat option \<Rightarrow> xErrno \<times> octets" where
  "xTransferEncodeChunkHeader chunk_id buf = (case buf of
     Some cap \<Rightarrow> if cap < 5 then (xErrno_InvalidArg, []) else (xErrno_Ok, [XFER_MSG_FILE_CHUNK] @ put_u32 chunk_id)
   | None \<Rightarrow> (xErrno_InvalidArg, []))"

text \<open>The results are the index, the payload, and its length as a \<^verbatim>\<open>uint32_t\<close>.\<close>

definition xTransferDecodeChunkHeader :: "octets option \<Rightarrow> xErrno \<times> 32 word \<times> octets \<times> 32 word" where
  "xTransferDecodeChunkHeader data = (case data of
     Some p \<Rightarrow> if length p < 4 then (xErrno_InvalidArg, 0, [], 0)
       else (xErrno_Ok, get_u32 p 0, drop 4 p, word_of_nat (length p - 4))
   | None \<Rightarrow> (xErrno_InvalidArg, 0, [], 0))"

section \<open>FILE_DONE\<close>

definition xTransferEncodeFileDone :: "xTransferFileDone option \<Rightarrow> nat option \<Rightarrow> xErrno \<times> octets" where
  "xTransferEncodeFileDone done buf = (case (done, buf) of
     (Some d, Some cap) \<Rightarrow> if cap < 1 + 4 + XFER_SHA1_SIZE then (xErrno_InvalidArg, [])
       else (xErrno_Ok, [XFER_MSG_FILE_DONE] @ put_u32 (fd_total_chunks d) @ take XFER_SHA1_SIZE (fd_sha1 d))
   | _ \<Rightarrow> (xErrno_InvalidArg, []))"

definition xTransferDecodeFileDone ::
  "octets option \<Rightarrow> xTransferFileDone \<Rightarrow> xErrno \<times> xTransferFileDone" where
  "xTransferDecodeFileDone data d = (case data of
     Some p \<Rightarrow> if length p < 24 then (xErrno_InvalidArg, d)
       else (xErrno_Ok, d\<lparr>fd_total_chunks := get_u32 p 0, fd_sha1 := take XFER_SHA1_SIZE (drop 4 p)\<rparr>)
   | None \<Rightarrow> (xErrno_InvalidArg, d))"

section \<open>FILE_RESUME\<close>

definition resume_needed :: "nat \<Rightarrow> nat \<Rightarrow> nat" where
  "resume_needed fixed bitmap_len = (fixed + bitmap_len) mod 2 ^ 32"

definition xTransferEncodeFileResume :: "xTransferFileResume option \<Rightarrow> nat option \<Rightarrow> xErrno \<times> octets" where
  "xTransferEncodeFileResume resume buf = (case (resume, buf) of
     (Some r, Some cap) \<Rightarrow>
       if fr_bitmap r = None \<and> fr_bitmap_len r > 0 then (xErrno_InvalidArg, [])
       else if cap < resume_needed 9 (unat (fr_bitmap_len r)) then (xErrno_InvalidArg, [])
       else (xErrno_Ok, [XFER_MSG_FILE_RESUME] @ put_u32 (fr_total_chunks r) @ put_u32 (fr_bitmap_len r) @
         (case fr_bitmap r of None \<Rightarrow> [] | Some b \<Rightarrow> take (unat (fr_bitmap_len r)) b))
   | _ \<Rightarrow> (xErrno_InvalidArg, []))"

text \<open>The two counts are stored before the length of the message is checked.\<close>

definition xTransferDecodeFileResume ::
  "octets option \<Rightarrow> xTransferFileResume \<Rightarrow> xErrno \<times> xTransferFileResume" where
  "xTransferDecodeFileResume data r = (case data of
     Some p \<Rightarrow> if length p < 8 then (xErrno_InvalidArg, r)
       else let r1 = r\<lparr>fr_total_chunks := get_u32 p 0, fr_bitmap_len := get_u32 p 4\<rparr> in
         if length p < resume_needed 8 (unat (fr_bitmap_len r1)) then (xErrno_InvalidArg, r1)
         else (xErrno_Ok, r1\<lparr>fr_bitmap := if fr_bitmap_len r1 > 0 then Some (drop 8 p) else None\<rparr>)
   | None \<Rightarrow> (xErrno_InvalidArg, r))"

section \<open>FILE_ACK\<close>

definition xTransferEncodeFileAck :: "8 word option \<Rightarrow> nat option \<Rightarrow> xErrno \<times> octets" where
  "xTransferEncodeFileAck ack buf = (case (ack, buf) of
     (Some status, Some cap) \<Rightarrow> if cap < 1 + 1 then (xErrno_InvalidArg, []) else (xErrno_Ok, [XFER_MSG_ACK, status])
   | _ \<Rightarrow> (xErrno_InvalidArg, []))"

definition xTransferDecodeFileAck :: "octets option \<Rightarrow> 8 word \<Rightarrow> xErrno \<times> 8 word" where
  "xTransferDecodeFileAck data ack = (case data of
     Some p \<Rightarrow> if length p < 1 then (xErrno_InvalidArg, ack) else (xErrno_Ok, p ! 0)
   | None \<Rightarrow> (xErrno_InvalidArg, ack))"

section \<open>Byte order\<close>

lemma length_puts [simp]: "length (put_u16 a) = 2" "length (put_u32 b) = 4" "length (put_u64 c) = 8"
  by (simp_all add: put_u16_def put_u32_def put_u64_def)

lemma nth_skip: "length xs = n \<Longrightarrow> n \<le> i \<Longrightarrow> (xs @ ys) ! i = ys ! (i - n)"
  by (simp add: nth_append)

lemma get_put_u16 [simp]: "get_u16 (put_u16 v @ ys) 0 = v"
  by (rule bit_word_eqI) (auto simp: get_u16_def put_u16_def bit_simps)

lemma get_put_u32 [simp]: "get_u32 (put_u32 v @ ys) 0 = v"
proof (rule bit_word_eqI)
  fix i :: nat assume i: "i < LENGTH(32)"
  consider "i < 8" | "8 \<le> i" "i < 16" | "16 \<le> i" "i < 24" | "24 \<le> i" by linarith
  then show "bit (get_u32 (put_u32 v @ ys) 0) i = bit v i"
    using i by cases (auto simp: get_u32_def put_u32_def bit_simps dest: bit_imp_le_length)
qed

lemma get_u32_skip: "length xs = n \<Longrightarrow> get_u32 (xs @ ys) (n + i) = get_u32 ys i"
  by (simp add: get_u32_def nth_append add.assoc flip: add_Suc_right)

lemma get_u64_skip: "length xs = n \<Longrightarrow> get_u64 (xs @ ys) (n + i) = get_u64 ys i"
  by (simp add: get_u64_def get_u32_skip add.assoc)

lemma get_put_u64 [simp]: "get_u64 (put_u64 v @ ys) 0 = v"
proof -
  have "get_u32 (put_u64 v @ ys) 0 = ucast (drop_bit 32 v)" by (simp add: put_u64_def)
  moreover have "get_u32 (put_u64 v @ ys) 4 = ucast v"
  proof -
    have "ucast (v AND 0xFFFFFFFF) = (ucast v :: 32 word)"
    proof -
      have m: "(0xFFFFFFFF :: 64 word) = mask 32" by (simp add: mask_eq_exp_minus_1)
      have "bit (v AND 0xFFFFFFFF) n \<longleftrightarrow> bit v n" if "n < 32" for n
        unfolding m using that by (simp only: bit_and_iff bit_mask_iff) auto
      then show ?thesis by (intro bit_word_eqI) (auto simp: bit_ucast_iff)
    qed
    then show ?thesis using get_u32_skip [of "put_u32 (ucast (drop_bit 32 v))" 4 "put_u32 (ucast v) @ ys" 0]
      by (simp add: put_u64_def)
  qed
  ultimately have "get_u64 (put_u64 v @ ys) 0 = push_bit 32 (ucast (ucast (drop_bit 32 v) :: 32 word)) OR ucast (ucast v :: 32 word)"
    by (simp add: get_u64_def)
  also have "\<dots> = v"
  proof (rule bit_word_eqI)
    fix i :: nat assume "i < LENGTH(64)"
    then show "bit (push_bit 32 (ucast (ucast (drop_bit 32 v) :: 32 word)) OR ucast (ucast v :: 32 word) :: 64 word) i = bit v i"
      by (cases "i < 32") (auto simp: bit_simps dest: bit_imp_le_length)
  qed
  finally show ?thesis .
qed

section \<open>Round trips\<close>

lemma meta_roundtrip:
  assumes "unat (fm_filename_len m) \<le> 255" "unat (fm_filename_len m) \<le> length (fm_filename m)"
    and "length (fm_sha1 m) = 20" and "35 + unat (fm_filename_len m) \<le> cap"
    and "length (fm_filename old) = 256"
    and "xTransferEncodeFileMeta (Some m) (Some cap) = (e, bs)"
    and "xTransferDecodeFileMeta (Some (tl bs)) old = (e', m')"
  shows "e = xErrno_Ok" "length bs = 35 + unat (fm_filename_len m)" "hd bs = XFER_MSG_FILE_META" "e' = xErrno_Ok"
    "take (unat (fm_filename_len m)) (fm_filename m') = take (unat (fm_filename_len m)) (fm_filename m)"
    "fm_filename m' ! unat (fm_filename_len m) = 0" "length (fm_filename m') = 256"
    "fm_filename_len m' = fm_filename_len m" "fm_file_size m' = fm_file_size m" "fm_chunk_size m' = fm_chunk_size m"
    "fm_sha1 m' = fm_sha1 m"
proof -
  let ?n = "unat (fm_filename_len m)" and ?f = "take (unat (fm_filename_len m)) (fm_filename m)"
  let ?r = "put_u64 (fm_file_size m) @ put_u32 (fm_chunk_size m) @ fm_sha1 m"
  have bs: "e = xErrno_Ok" "bs = XFER_MSG_FILE_META # put_u16 (fm_filename_len m) @ ?f @ ?r"
    using assms(3,4,6) by (auto simp: xTransferEncodeFileMeta_def XFER_SHA1_SIZE_def)
  have f: "length ?f = ?n" using assms(2) by simp
  show len: "e = xErrno_Ok" "length bs = 35 + ?n" "hd bs = XFER_MSG_FILE_META" using bs f assms(3) by simp_all
  let ?p = "put_u16 (fm_filename_len m) @ ?f @ ?r"
  have p: "get_u16 ?p 0 = fm_filename_len m" "take ?n (drop 2 ?p) = ?f" using assms(2) by simp_all
  have q: "get_u64 ?p (2 + ?n) = fm_file_size m" "get_u32 ?p (2 + ?n + 8) = fm_chunk_size m"
    "drop (2 + ?n + 8 + 4) ?p = fm_sha1 m"
    using get_u64_skip [of "put_u16 (fm_filename_len m) @ ?f" "2 + ?n" ?r 0]
      get_u32_skip [of "put_u16 (fm_filename_len m) @ ?f @ put_u64 (fm_file_size m)" "2 + ?n + 8" "put_u32 (fm_chunk_size m) @ fm_sha1 m" 0] f
    by simp_all
  have "length ?p = 34 + ?n" using f assms(3) by simp
  then have "e' = xErrno_Ok \<and> m' = old\<lparr>fm_filename := (store_at 0 ?f (fm_filename old))[?n := 0],
      fm_filename_len := fm_filename_len m, fm_file_size := fm_file_size m, fm_chunk_size := fm_chunk_size m, fm_sha1 := fm_sha1 m\<rparr>"
    using assms(1,3,7) p q bs(2) by (simp add: xTransferDecodeFileMeta_def XFER_SHA1_SIZE_def Let_def del: append_assoc take_append drop_append)
  moreover have "length (store_at 0 ?f (fm_filename old)) = 256" using f assms(1,5) by (simp add: store_at_def)
  moreover have "take ?n (store_at 0 ?f (fm_filename old)) = ?f" using f by (simp add: store_at_def)
  ultimately show "e' = xErrno_Ok" "take ?n (fm_filename m') = ?f" "fm_filename m' ! ?n = 0" "length (fm_filename m') = 256"
    "fm_filename_len m' = fm_filename_len m" "fm_file_size m' = fm_file_size m" "fm_chunk_size m' = fm_chunk_size m"
    "fm_sha1 m' = fm_sha1 m" using assms(1) by simp_all
qed

lemma chunk_roundtrip:
  assumes "xTransferEncodeChunkHeader k (Some cap) = (xErrno_Ok, bs)" and "length d < 2 ^ 32"
  shows "length bs = 5" "hd bs = XFER_MSG_FILE_CHUNK"
    "xTransferDecodeChunkHeader (Some (tl bs @ d)) = (xErrno_Ok, k, d, word_of_nat (length d))"
  using assms by (auto simp: xTransferEncodeChunkHeader_def xTransferDecodeChunkHeader_def split: if_splits)

lemma done_roundtrip:
  assumes "length (fd_sha1 d) = 20" and "xTransferEncodeFileDone (Some d) (Some cap) = (xErrno_Ok, bs)"
  shows "length bs = 25" "hd bs = XFER_MSG_FILE_DONE" "xTransferDecodeFileDone (Some (tl bs)) d0 = (xErrno_Ok, d)"
  using assms by (auto simp: xTransferEncodeFileDone_def xTransferDecodeFileDone_def XFER_SHA1_SIZE_def split: if_splits)

lemma ack_roundtrip:
  assumes "xTransferEncodeFileAck (Some a) (Some cap) = (xErrno_Ok, bs)"
  shows "length bs = 2" "hd bs = XFER_MSG_ACK" "xTransferDecodeFileAck (Some (tl bs)) a0 = (xErrno_Ok, a)"
  using assms by (auto simp: xTransferEncodeFileAck_def xTransferDecodeFileAck_def split: if_splits)

lemma resume_roundtrip:
  assumes "fr_bitmap r = Some b" "length b = unat (fr_bitmap_len r)" "b \<noteq> []" "length b + 9 < 2 ^ 32"
    and "xTransferEncodeFileResume (Some r) (Some cap) = (xErrno_Ok, bs)"
  shows "length bs = 9 + length b" "hd bs = XFER_MSG_FILE_RESUME" "xTransferDecodeFileResume (Some (tl bs)) r0 = (xErrno_Ok, r)"
proof -
  have bs: "bs = XFER_MSG_FILE_RESUME # put_u32 (fr_total_chunks r) @ put_u32 (fr_bitmap_len r) @ b"
    using assms by (auto simp: xTransferEncodeFileResume_def split: if_splits)
  have pos: "fr_bitmap_len r > 0" using assms(2,3) by (metis length_0_conv unat_gt_0 word_gt_0_no word_neq_0_conv unat_0)
  have g: "get_u32 (put_u32 (fr_total_chunks r) @ put_u32 (fr_bitmap_len r) @ b) 4 = fr_bitmap_len r"
    using get_u32_skip [of "put_u32 (fr_total_chunks r)" 4 "put_u32 (fr_bitmap_len r) @ b" 0] by simp
  show "length bs = 9 + length b" "hd bs = XFER_MSG_FILE_RESUME" using bs by simp_all
  show "xTransferDecodeFileResume (Some (tl bs)) r0 = (xErrno_Ok, r)"
    using bs pos g assms(1,2,4) by (simp add: xTransferDecodeFileResume_def resume_needed_def Let_def)
qed

text \<open>
  C32. Every message survives its encoding: decoding the bytes behind the type byte gives back the name, the sizes and
  the digest of FILE_META, the index and the payload of a chunk, FILE_DONE, the bitmap of FILE_RESUME and the status of
  an acknowledgement, for names of at most 255 bytes, digests of 20 bytes, payloads below 2^32 bytes and non-empty
  bitmaps whose length plus 9 is below 2^32.
\<close>

theorem xfer_roundtrip:
  assumes meta: "length (fm_filename m) = 256" "unat (fm_filename_len m) \<le> 255" "length (fm_sha1 m) = 20"
    and payload: "length p < 2 ^ 32" and digest: "length (fd_sha1 d) = 20"
    and bitmap: "fr_bitmap r = Some b" "length b = unat (fr_bitmap_len r)" "b \<noteq> []" "length b + 9 < 2 ^ 32"
  shows "(\<exists>m'. xTransferDecodeFileMeta (Some (tl (snd (xTransferEncodeFileMeta (Some m) (Some 512))))) m = (xErrno_Ok, m') \<and>
      take (unat (fm_filename_len m)) (fm_filename m') = take (unat (fm_filename_len m)) (fm_filename m) \<and>
      m'\<lparr>fm_filename := fm_filename m\<rparr> = m) \<and>
    xTransferDecodeChunkHeader (Some (tl (snd (xTransferEncodeChunkHeader k (Some 5)) @ p))) = (xErrno_Ok, k, p, word_of_nat (length p)) \<and>
    xTransferDecodeFileDone (Some (tl (snd (xTransferEncodeFileDone (Some d) (Some 64))))) d0 = (xErrno_Ok, d) \<and>
    xTransferDecodeFileResume (Some (tl (snd (xTransferEncodeFileResume (Some r) (Some (9 + length b)))))) r0 = (xErrno_Ok, r) \<and>
    xTransferDecodeFileAck (Some (tl (snd (xTransferEncodeFileAck (Some a) (Some 4))))) a0 = (xErrno_Ok, a)"
proof (intro conjI)
  obtain e bs e' m' where enc: "xTransferEncodeFileMeta (Some m) (Some 512) = (e, bs)"
    and dec: "xTransferDecodeFileMeta (Some (tl bs)) m = (e', m')" by fastforce
  have len: "unat (fm_filename_len m) \<le> length (fm_filename m)" "35 + unat (fm_filename_len m) \<le> 512" using meta by simp_all
  note t = meta_roundtrip [OF meta(2) len(1) meta(3) len(2) meta(1) enc dec]
  have "m'\<lparr>fm_filename := fm_filename m\<rparr> = m" using t(8-11) by (cases m', cases m) simp
  then show "\<exists>m'. xTransferDecodeFileMeta (Some (tl (snd (xTransferEncodeFileMeta (Some m) (Some 512))))) m = (xErrno_Ok, m') \<and>
      take (unat (fm_filename_len m)) (fm_filename m') = take (unat (fm_filename_len m)) (fm_filename m) \<and>
      m'\<lparr>fm_filename := fm_filename m\<rparr> = m" using enc dec t(4,5) by simp
  show "xTransferDecodeChunkHeader (Some (tl (snd (xTransferEncodeChunkHeader k (Some 5)) @ p))) = (xErrno_Ok, k, p, word_of_nat (length p))"
    using chunk_roundtrip [of k 5 "XFER_MSG_FILE_CHUNK # put_u32 k"] payload by (simp add: xTransferEncodeChunkHeader_def)
  show "xTransferDecodeFileDone (Some (tl (snd (xTransferEncodeFileDone (Some d) (Some 64))))) d0 = (xErrno_Ok, d)"
    using digest by (simp add: xTransferEncodeFileDone_def xTransferDecodeFileDone_def XFER_SHA1_SIZE_def)
  have "resume_needed 9 (length b) = 9 + length b" using bitmap(4) by (simp add: resume_needed_def)
  then have "fst (xTransferEncodeFileResume (Some r) (Some (9 + length b))) = xErrno_Ok"
    using bitmap(1,2) by (simp add: xTransferEncodeFileResume_def)
  then show "xTransferDecodeFileResume (Some (tl (snd (xTransferEncodeFileResume (Some r) (Some (9 + length b)))))) r0 = (xErrno_Ok, r)"
    using resume_roundtrip(3) [OF bitmap] by (metis prod.collapse)
  show "xTransferDecodeFileAck (Some (tl (snd (xTransferEncodeFileAck (Some a) (Some 4))))) a0 = (xErrno_Ok, a)"
    by (simp add: xTransferEncodeFileAck_def xTransferDecodeFileAck_def)
qed

theorem xfer_roundtrip_witness:
  "xTransferDecodeFileDone (Some (tl (snd (xTransferEncodeFileDone (Some \<lparr>fd_total_chunks = 9, fd_sha1 = replicate 20 7\<rparr>) (Some 64)))))
     \<lparr>fd_total_chunks = 0, fd_sha1 = []\<rparr> = (xErrno_Ok, \<lparr>fd_total_chunks = 9, fd_sha1 = replicate 20 7\<rparr>)"
  using xfer_roundtrip [of "\<lparr>fm_filename = replicate 256 1, fm_filename_len = 3, fm_file_size = 4, fm_chunk_size = 5,
      fm_sha1 = replicate 20 6\<rparr>" "[1]" "\<lparr>fd_total_chunks = 9, fd_sha1 = replicate 20 7\<rparr>"
      "\<lparr>fr_total_chunks = 9, fr_bitmap = Some [1, 1], fr_bitmap_len = 2\<rparr>" "[1, 1]" 0 "\<lparr>fd_total_chunks = 0, fd_sha1 = []\<rparr>"]
  by simp

end
