(* ===== verification/Xfer.thy ===== *)
theory Xfer
  imports XferVfs XferProtocol
begin

text \<open>
  File transfer: \<^verbatim>\<open>fer/xfer.c\<close>, \<^verbatim>\<open>fer/xfer_sender.c\<close> and \<^verbatim>\<open>fer/xfer_receiver.c\<close> with the structure of
  \<^verbatim>\<open>fer/xfer_private.h\<close>. A handler maps a transfer and the state of the storage to both; it yields None
  where the C function does not return or its behaviour is undefined (a division by zero, a copy from
  behind the end of a message). The data channel belongs to the peer connection: the outcomes of
  the sends to come and the buffered amounts it will report are lists in the transfer, and what
  was sent is kept in \<open>x_out\<close>. What the host is told is kept in \<open>x_trace\<close>.
\<close>

section \<open>State\<close>

definition XFER_SEND_HIGH_WATER_MARK :: nat where "XFER_SEND_HIGH_WATER_MARK = 256 * 1024"
definition XFER_BITMAP_PERSIST_INTERVAL :: nat where "XFER_BITMAP_PERSIST_INTERVAL = 32"
definition XFER_DEFAULT_CHUNK_SIZE :: nat where "XFER_DEFAULT_CHUNK_SIZE = 64 * 1024"
definition XFER_MAX_FILENAME_LEN :: nat where "XFER_MAX_FILENAME_LEN = 256"

datatype xTransferState =
    xTransferState_Idle | xTransferState_WaitingPeer | xTransferState_Connecting
  | xTransferState_Transferring | xTransferState_Done | xTransferState_Failed

datatype xTransferRole = xTransferRole_Sender | xTransferRole_Receiver

datatype xfer_event =
    Xf_state xTransferState
  | Xf_error xErrno
  | Xf_progress nat nat
  | Xf_file_meta octets nat

record xTransfer =
  x_state :: xTransferState
  x_role :: xTransferRole
  x_pc :: bool
  x_dc :: bool
  send_handle :: "nat option"
  send_filepath :: path
  send_filename :: octets
  send_filesize :: nat
  send_chunk_size :: nat
  send_total_chunks :: nat
  send_next_chunk :: nat
  send_sha1 :: octets
  send_resume_bitmap :: xBitmap
  send_has_resume :: bool
  send_waiting_resume :: bool
  recv_handle :: "nat option"
  recv_dest_dir :: path
  recv_filepath :: path
  recv_filename :: octets
  recv_filesize :: nat
  recv_chunk_size :: nat
  recv_total_chunks :: nat
  recv_chunks_received :: nat
  recv_bytes_received :: nat
  recv_sha1 :: octets
  recv_bitmap :: xBitmap
  recv_bitmap_path :: path
  send_paused :: bool
  send_waiting_ack :: bool
  x_timers :: nat
  x_allocs :: allocs
  dc_results :: "xErrno list"
  dc_buffered :: "nat list"
  x_out :: "octets list"
  x_trace :: "xfer_event list"

section \<open>Shared helpers\<close>

definition xfer_set_state :: "xTransferState \<Rightarrow> xTransfer \<Rightarrow> xTransfer" where
  "xfer_set_state st x = x\<lparr>x_state := st, x_trace := x_trace x @ [Xf_state st]\<rparr>"

definition xfer_report_error :: "xErrno \<Rightarrow> xTransfer \<Rightarrow> xTransfer" where
  "xfer_report_error e x = xfer_set_state xTransferState_Failed (x\<lparr>x_trace := x_trace x @ [Xf_error e]\<rparr>)"

definition xfer_report_progress :: "nat \<Rightarrow> nat \<Rightarrow> xTransfer \<Rightarrow> xTransfer" where
  "xfer_report_progress transferred all x = x\<lparr>x_trace := x_trace x @ [Xf_progress transferred all]\<rparr>"

definition x_malloc :: "xTransfer \<Rightarrow> bool \<times> xTransfer" where
  "x_malloc x = (case draw (x_allocs x) of (ok, oracle') \<Rightarrow> (ok, x\<lparr>x_allocs := oracle'\<rparr>))"

text \<open>\<^verbatim>\<open>xDataChannelSendBinary\<close>: a send that succeeds puts the message on the channel.\<close>

definition dc_send :: "octets \<Rightarrow> xTransfer \<Rightarrow> xErrno \<times> xTransfer" where
  "dc_send bs x = (if \<not> x_dc x then (xErrno_InvalidArg, x)
     else (case dc_results x of
       [] \<Rightarrow> (xErrno_Ok, x\<lparr>x_out := x_out x @ [bs]\<rparr>)
     | r # rs \<Rightarrow> (r, if r = xErrno_Ok then x\<lparr>dc_results := rs, x_out := x_out x @ [bs]\<rparr> else x\<lparr>dc_results := rs\<rparr>)))"

definition dc_amount :: "xTransfer \<Rightarrow> nat \<times> xTransfer" where
  "dc_amount x = (if \<not> x_dc x then (0, x)
     else (case dc_buffered x of [] \<Rightarrow> (0, x) | b # bs \<Rightarrow> (b, x\<lparr>dc_buffered := bs\<rparr>)))"

definition c_str :: "octets \<Rightarrow> octets" where
  "c_str s = takeWhile (\<lambda>c. c \<noteq> 0) s"

definition str_bytes :: "string \<Rightarrow> octets" where
  "str_bytes s = map of_char s"

text \<open>\<^verbatim>\<open>snprintf (path, 1024, "%s/%s<suffix>", dir, name)\<close>\<close>

definition xfer_path :: "path \<Rightarrow> octets \<Rightarrow> string \<Rightarrow> path" where
  "xfer_path dir name suffix = take 1023 (c_str dir @ [0x2F] @ c_str name @ str_bytes suffix)"

section \<open>Sender\<close>

function skip_received :: "xBitmap \<Rightarrow> nat \<Rightarrow> nat \<Rightarrow> nat" where
  "skip_received bm total_chunks k = (if k < total_chunks \<and> xBitmapTest bm k
     then skip_received bm total_chunks (k + 1) else k)"
  by auto

termination by (relation "measure (\<lambda>(bm, n, k). n - k)") auto

declare skip_received.simps [simp del]

definition sender_finish :: "'w xTransferVfs \<Rightarrow> xTransfer \<Rightarrow> 'w \<Rightarrow> (xTransfer \<times> 'w) option" where
  "sender_finish vfs x w = (case xfer_compute_file_sha1 vfs (send_filepath x) w of
     None \<Rightarrow> None
   | Some (err, digest, w1) \<Rightarrow>
       if err \<noteq> xErrno_Ok then Some (xfer_report_error xErrno_SysError x, w1)
       else let x1 = x\<lparr>send_sha1 := digest\<rparr> in
         (case xTransferEncodeFileDone (Some \<lparr>fd_total_chunks = word_of_nat (send_total_chunks x1), fd_sha1 = send_sha1 x1\<rparr>) (Some 64) of
           (err2, bs) \<Rightarrow> if err2 \<noteq> xErrno_Ok then Some (xfer_report_error xErrno_Unknown x1, w1)
             else Some ((snd (dc_send bs x1))\<lparr>send_waiting_ack := True\<rparr>, w1)))"

text \<open>Once a chunk is sent, a timer of 0 ms schedules the next; that it could not be armed is not noticed.\<close>

definition sender_chunk :: "'w xTransferVfs \<Rightarrow> xTransfer \<Rightarrow> 'w \<Rightarrow> xTransfer \<times> 'w" where
  "sender_chunk vfs x w = (let offset = send_next_chunk x * send_chunk_size x in (case x_malloc x of (ok, x1) \<Rightarrow>
     if \<not> ok then (xfer_report_error xErrno_NoMemory x1, w)
     else (case vfs_pread vfs (the (send_handle x1)) (send_chunk_size x1) offset w of (rerr, bs, w1) \<Rightarrow>
       if rerr \<noteq> xErrno_Ok \<or> (length bs = 0 \<and> offset < send_filesize x1) then (xfer_report_error xErrno_SysError x1, w1)
       else (case dc_send (snd (xTransferEncodeChunkHeader (word_of_nat (send_next_chunk x1)) (Some 5)) @ bs) x1 of (err, x2) \<Rightarrow>
         if err = xErrno_Again then (x2\<lparr>send_paused := True\<rparr>, w1)
         else if err \<noteq> xErrno_Ok then (xfer_report_error err x2, w1)
         else let x3 = x2\<lparr>send_next_chunk := send_next_chunk x2 + 1\<rparr>;
                  done_bytes = (send_next_chunk x3 - 1) * send_chunk_size x3 + length bs;
                  x4 = xfer_report_progress (min done_bytes (send_filesize x3)) (send_filesize x3) x3 in
           (case x_malloc x4 of (armed, x5) \<Rightarrow> (if armed then x5\<lparr>x_timers := x_timers x5 + 1\<rparr> else x5, w1))))))"

definition sender_send_next_chunk :: "'w xTransferVfs \<Rightarrow> xTransfer \<Rightarrow> 'w \<Rightarrow> (xTransfer \<times> 'w) option" where
  "sender_send_next_chunk vfs x w =
     (let x1 = (if send_has_resume x
                then x\<lparr>send_next_chunk := skip_received (send_resume_bitmap x) (send_total_chunks x) (send_next_chunk x)\<rparr> else x) in
      if send_next_chunk x1 \<ge> send_total_chunks x1 then sender_finish vfs x1 w
      else (case dc_amount x1 of (buffered, x2) \<Rightarrow>
        if buffered > XFER_SEND_HIGH_WATER_MARK then Some (x2\<lparr>send_paused := True\<rparr>, w)
        else Some (sender_chunk vfs x2 w)))"

definition sender_schedule_next :: "'w xTransferVfs \<Rightarrow> xTransfer \<Rightarrow> 'w \<Rightarrow> (xTransfer \<times> 'w) option" where
  "sender_schedule_next vfs x w = sender_send_next_chunk vfs (x\<lparr>x_timers := x_timers x - 1\<rparr>) w"

definition sender_on_buffered_amount_low :: "'w xTransferVfs \<Rightarrow> xTransfer \<Rightarrow> 'w \<Rightarrow> (xTransfer \<times> 'w) option" where
  "sender_on_buffered_amount_low vfs x w = (if \<not> send_paused x then Some (x, w)
     else sender_send_next_chunk vfs (x\<lparr>send_paused := False\<rparr>) w)"

definition sender_ack :: "octets \<Rightarrow> xTransfer \<Rightarrow> xTransfer" where
  "sender_ack payload x = (if \<not> send_waiting_ack x then x
     else let x1 = x\<lparr>send_waiting_ack := False\<rparr> in
       (case xTransferDecodeFileAck (Some payload) 0 of (err, status) \<Rightarrow>
         if err \<noteq> xErrno_Ok then xfer_report_error xErrno_InvalidArg x1
         else if status = 0 then xfer_set_state xTransferState_Done x1
         else xfer_report_error xErrno_Unknown x1))"

definition no_resume :: xTransferFileResume where
  "no_resume = \<lparr>fr_total_chunks = 0, fr_bitmap = None, fr_bitmap_len = 0\<rparr>"

text \<open>The copy reads \<open>copy_len\<close> bytes of the message, whatever its length.\<close>

definition sender_load_bitmap :: "octets \<Rightarrow> nat \<Rightarrow> xTransfer \<Rightarrow> (bool \<times> xTransfer) option" where
  "sender_load_bitmap bytes len x = (case x_malloc x of (ok, x1) \<Rightarrow>
     (case xBitmapInit (send_total_chunks x1) ok (send_resume_bitmap x1) of (err, bm) \<Rightarrow>
       if err \<noteq> xErrno_Ok then Some (False, xfer_report_error err (x1\<lparr>send_resume_bitmap := bm\<rparr>))
       else let copy_len = min len (nbytes bm) in
         if length bytes < copy_len then None
         else Some (True, x1\<lparr>send_resume_bitmap := bm\<lparr>bm_data := Some (store_at 0 (take copy_len bytes) (the (bm_data bm)))\<rparr>,
           send_has_resume := True\<rparr>)))"

definition sender_resume :: "'w xTransferVfs \<Rightarrow> octets \<Rightarrow> xTransfer \<Rightarrow> 'w \<Rightarrow> (xTransfer \<times> 'w) option" where
  "sender_resume vfs payload x w = (case xTransferDecodeFileResume (Some payload) no_resume of (err, r) \<Rightarrow>
     if err \<noteq> xErrno_Ok then Some (xfer_report_error xErrno_InvalidArg x, w)
     else if unat (fr_total_chunks r) \<noteq> send_total_chunks x then Some (xfer_report_error xErrno_InvalidArg x, w)
     else (case (case fr_bitmap r of
              Some bytes \<Rightarrow> if fr_bitmap_len r > 0 then sender_load_bitmap bytes (unat (fr_bitmap_len r)) x else Some (True, x)
            | None \<Rightarrow> Some (True, x)) of
         None \<Rightarrow> None
       | Some (False, x1) \<Rightarrow> Some (x1, w)
       | Some (True, x1) \<Rightarrow> if send_waiting_resume x1
           then sender_send_next_chunk vfs (x1\<lparr>send_waiting_resume := False\<rparr>) w else Some (x1, w)))"

definition sender_on_dc_message :: "'w xTransferVfs \<Rightarrow> octets \<Rightarrow> xTransfer \<Rightarrow> 'w \<Rightarrow> (xTransfer \<times> 'w) option" where
  "sender_on_dc_message vfs data x w = (case data of [] \<Rightarrow> Some (x, w) | msg_type # payload \<Rightarrow>
     if msg_type = XFER_MSG_ACK then Some (sender_ack payload x, w)
     else if msg_type = XFER_MSG_FILE_RESUME then sender_resume vfs payload x w
     else Some (x, w))"

definition sender_on_dc_open :: "xTransfer \<Rightarrow> xTransfer" where
  "sender_on_dc_open x =
     (let x1 = xfer_set_state xTransferState_Transferring (x\<lparr>x_dc := True\<rparr>);
          name_len = min 255 (length (c_str (send_filename x1))) in
      (case xTransferEncodeFileMeta (Some \<lparr>fm_filename = send_filename x1, fm_filename_len = word_of_nat name_len,
           fm_file_size = word_of_nat (send_filesize x1), fm_chunk_size = word_of_nat (send_chunk_size x1),
           fm_sha1 = send_sha1 x1\<rparr>) (Some 512) of (err, bs) \<Rightarrow>
        if err \<noteq> xErrno_Ok then xfer_report_error xErrno_Unknown x1
        else (snd (dc_send bs x1))\<lparr>send_waiting_resume := True\<rparr>))"

section \<open>Receiver\<close>

definition chunk_count :: "nat \<Rightarrow> nat \<Rightarrow> nat" where
  "chunk_count filesize chunk_size = (filesize + chunk_size - 1) mod 2 ^ 64 div chunk_size mod 2 ^ 32"

text \<open>
  The saved bitmap is taken when it is for the same number of chunks and the partial file can be
  opened. The first component says whether the transfer is resumed.
\<close>

definition receiver_try_resume ::
  "('a disk_scheme) xTransferVfs \<Rightarrow> xTransfer \<Rightarrow> 'a disk_scheme \<Rightarrow> bool \<times> xTransfer \<times> 'a disk_scheme" where
  "receiver_try_resume vfs x w = (case x_malloc x of (ok, x1) \<Rightarrow>
     (case xfer_bitmap_load ok (recv_bitmap x1) 0 (recv_bitmap_path x1) w of (bm_err, bm, saved_total, w1) \<Rightarrow>
       let x2 = x1\<lparr>recv_bitmap := bm\<rparr> in
       if bm_err = xErrno_Ok \<and> saved_total = recv_total_chunks x2
       then (case vfs_open vfs (recv_filepath x2) M_rpb w1 of (h, w2) \<Rightarrow>
         let x3 = x2\<lparr>recv_handle := h\<rparr> in
         if h = None then (False, x3\<lparr>recv_bitmap := fst (xBitmapFree bm)\<rparr>, w2)
         else let n = xBitmapCount bm in
           (True, x3\<lparr>recv_chunks_received := n,
              recv_bytes_received := min (n * recv_chunk_size x3 mod 2 ^ 64) (recv_filesize x3)\<rparr>, w2))
       else if bm_err = xErrno_Ok then (False, x2\<lparr>recv_bitmap := fst (xBitmapFree bm)\<rparr>, w1)
       else (False, x2, w1)))"

definition receiver_allocate :: "'w xTransferVfs \<Rightarrow> nat \<Rightarrow> nat \<Rightarrow> 'w \<Rightarrow> 'w" where
  "receiver_allocate vfs h filesize w = (case vfs_truncate vfs of None \<Rightarrow> w
     | Some tr \<Rightarrow> if filesize > 0 then snd (tr h filesize w) else w)"

text \<open>A new bitmap and a new partial file of the final size, opened for writing anywhere.\<close>

definition receiver_fresh ::
  "'w xTransferVfs \<Rightarrow> xTransfer \<Rightarrow> 'w \<Rightarrow> bool \<times> xTransfer \<times> 'w" where
  "receiver_fresh vfs x w = (case x_malloc x of (ok, x1) \<Rightarrow>
     (case xBitmapInit (recv_total_chunks x1) ok (recv_bitmap x1) of (err, bm) \<Rightarrow>
       if err \<noteq> xErrno_Ok then (False, xfer_report_error err (x1\<lparr>recv_bitmap := bm\<rparr>), w)
       else let x2 = x1\<lparr>recv_bitmap := bm\<rparr> in
         (case vfs_open vfs (recv_filepath x2) M_wb w of
           (None, w1) \<Rightarrow> (False, xfer_report_error xErrno_SysError (x2\<lparr>recv_handle := None\<rparr>), w1)
         | (Some h, w1) \<Rightarrow>
             (case vfs_open vfs (recv_filepath x2) M_rpb
                (vfs_close vfs h (receiver_allocate vfs h (recv_filesize x2) w1)) of (h2, w3) \<Rightarrow>
               let x3 = x2\<lparr>recv_handle := h2\<rparr> in
               if h2 = None then (False, xfer_report_error xErrno_SysError x3, w3) else (True, x3, w3)))))"

definition receiver_send_resume :: "xTransfer \<Rightarrow> bool \<times> xTransfer" where
  "receiver_send_resume x = (case xBitmapData (recv_bitmap x) of (bytes, bm_nbytes) \<Rightarrow>
     (case x_malloc x of (ok, x1) \<Rightarrow>
       if \<not> ok then (False, xfer_report_error xErrno_NoMemory x1)
       else (case xTransferEncodeFileResume (Some \<lparr>fr_total_chunks = word_of_nat (recv_total_chunks x1), fr_bitmap = bytes,
                fr_bitmap_len = word_of_nat bm_nbytes\<rparr>) (Some (resume_needed 9 bm_nbytes)) of (err, bs) \<Rightarrow>
         if err \<noteq> xErrno_Ok then (False, xfer_report_error xErrno_Unknown x1)
         else (True, snd (dc_send bs x1)))))"

definition no_meta :: xTransferFileMeta where
  "no_meta = \<lparr>fm_filename = replicate 256 0, fm_filename_len = 0, fm_file_size = 0, fm_chunk_size = 0,
     fm_sha1 = replicate 20 0\<rparr>"

definition receiver_store_meta :: "xTransferFileMeta \<Rightarrow> xTransfer \<Rightarrow> xTransfer" where
  "receiver_store_meta m x = (let filesize = unat (fm_file_size m); chunk_size = unat (fm_chunk_size m);
       name = take (unat (fm_filename_len m)) (fm_filename m) in
     x\<lparr>recv_filename := name, recv_filesize := filesize, recv_chunk_size := chunk_size,
       recv_total_chunks := chunk_count filesize chunk_size, recv_sha1 := fm_sha1 m,
       x_trace := x_trace x @ [Xf_file_meta name filesize],
       recv_filepath := xfer_path (recv_dest_dir x) name ''.part'',
       recv_bitmap_path := xfer_path (recv_dest_dir x) name ''.bitmap''\<rparr>)"

definition receiver_begin ::
  "('a disk_scheme) xTransferVfs \<Rightarrow> xTransfer \<Rightarrow> 'a disk_scheme \<Rightarrow> xTransfer \<times> 'a disk_scheme" where
  "receiver_begin vfs x w = (case receiver_try_resume vfs x w of (resumed, x1, w1) \<Rightarrow>
     (case (if resumed then (True, x1, w1) else receiver_fresh vfs x1 w1) of (ready, x2, w2) \<Rightarrow>
       if \<not> ready then (x2, w2)
       else (case receiver_send_resume x2 of (sent, x3) \<Rightarrow>
         if \<not> sent then (x3, w2)
         else (xfer_set_state xTransferState_Transferring x3,
               snd (xfer_bitmap_save (recv_bitmap x3) (recv_total_chunks x3) (recv_bitmap_path x3) w2)))))"

definition receiver_meta ::
  "('a disk_scheme) xTransferVfs \<Rightarrow> octets \<Rightarrow> xTransfer \<Rightarrow> 'a disk_scheme \<Rightarrow> (xTransfer \<times> 'a disk_scheme) option" where
  "receiver_meta vfs payload x w = (case xTransferDecodeFileMeta (Some payload) no_meta of (err, m) \<Rightarrow>
     if err \<noteq> xErrno_Ok then Some (xfer_report_error xErrno_InvalidArg x, w)
     else if fm_chunk_size m = 0 then None
     else Some (receiver_begin vfs (receiver_store_meta m x) w))"

definition receiver_accept_chunk ::
  "nat \<Rightarrow> nat \<Rightarrow> xTransfer \<Rightarrow> 'a disk_scheme \<Rightarrow> xTransfer \<times> 'a disk_scheme" where
  "receiver_accept_chunk chunk_id len x w =
     (let x1 = x\<lparr>recv_bitmap := xBitmapSet chunk_id (recv_bitmap x),
            recv_chunks_received := (recv_chunks_received x + 1) mod 2 ^ 32,
            recv_bytes_received := (recv_bytes_received x + len) mod 2 ^ 64\<rparr>;
          w1 = (if recv_chunks_received x1 mod XFER_BITMAP_PERSIST_INTERVAL = 0
                then snd (xfer_bitmap_save (recv_bitmap x1) (recv_total_chunks x1) (recv_bitmap_path x1) w) else w) in
      (xfer_report_progress (recv_bytes_received x1) (recv_filesize x1) x1, w1))"

definition receiver_chunk ::
  "('a disk_scheme) xTransferVfs \<Rightarrow> octets \<Rightarrow> xTransfer \<Rightarrow> 'a disk_scheme \<Rightarrow> xTransfer \<times> 'a disk_scheme" where
  "receiver_chunk vfs payload x w = (case xTransferDecodeChunkHeader (Some payload) of (err, cid, bytes, blen) \<Rightarrow>
     let chunk_id = unat cid; len = unat blen in
     if err \<noteq> xErrno_Ok then (xfer_report_error xErrno_InvalidArg x, w)
     else if xBitmapTest (recv_bitmap x) chunk_id then (x, w)
     else (case recv_handle x of
       None \<Rightarrow> receiver_accept_chunk chunk_id len x w
     | Some h \<Rightarrow> (case vfs_pwrite vfs h (take len bytes) (chunk_id * recv_chunk_size x) w of (werr, written, w1) \<Rightarrow>
         if werr \<noteq> xErrno_Ok \<or> written \<noteq> len then (xfer_report_error xErrno_SysError x, w1)
         else receiver_accept_chunk chunk_id len x w1)))"

definition send_ack :: "8 word \<Rightarrow> xTransfer \<Rightarrow> xTransfer" where
  "send_ack status x = snd (dc_send (snd (xTransferEncodeFileAck (Some status) (Some 4))) x)"

definition receiver_flush ::
  "('a disk_scheme) xTransferVfs \<Rightarrow> xTransfer \<Rightarrow> 'a disk_scheme \<Rightarrow> xTransfer \<times> 'a disk_scheme" where
  "receiver_flush vfs x w = (case (case recv_handle x of None \<Rightarrow> (x, w)
       | Some h \<Rightarrow> (x\<lparr>recv_handle := None\<rparr>, vfs_close vfs h (snd (vfs_flush vfs h w)))) of (x1, w1) \<Rightarrow>
     (x1, snd (xfer_bitmap_save (recv_bitmap x1) (recv_total_chunks x1) (recv_bitmap_path x1) w1)))"

definition receiver_complete ::
  "('a disk_scheme) xTransferVfs \<Rightarrow> xTransfer \<Rightarrow> 'a disk_scheme \<Rightarrow> xTransfer \<times> 'a disk_scheme" where
  "receiver_complete vfs x w =
     (let w1 = (case vfs_rename vfs of None \<Rightarrow> w
                | Some rn \<Rightarrow> snd (rn (recv_filepath x) (xfer_path (recv_dest_dir x) (recv_filename x) []) w));
          w2 = (case vfs_remove vfs of None \<Rightarrow> w1 | Some rm \<Rightarrow> snd (rm (recv_bitmap_path x) w1)) in
      (xfer_set_state xTransferState_Done (x\<lparr>recv_bitmap := fst (xBitmapFree (recv_bitmap x))\<rparr>), w2))"

definition receiver_done ::
  "('a disk_scheme) xTransferVfs \<Rightarrow> octets \<Rightarrow> xTransfer \<Rightarrow> 'a disk_scheme \<Rightarrow> (xTransfer \<times> 'a disk_scheme) option" where
  "receiver_done vfs payload x w =
     (case xTransferDecodeFileDone (Some payload) \<lparr>fd_total_chunks = 0, fd_sha1 = []\<rparr> of (err, d) \<Rightarrow>
       if err \<noteq> xErrno_Ok then Some (xfer_report_error xErrno_InvalidArg x, w)
       else (case receiver_flush vfs x w of (x1, w1) \<Rightarrow>
         (case xfer_compute_file_sha1 vfs (recv_filepath x1) w1 of
           None \<Rightarrow> None
         | Some (herr, computed, w2) \<Rightarrow>
             if herr \<noteq> xErrno_Ok then Some (xfer_report_error xErrno_SysError (send_ack 1 x1), w2)
             else if computed \<noteq> fd_sha1 d then Some (xfer_report_error xErrno_Unknown (send_ack 1 x1), w2)
             else Some (receiver_complete vfs (send_ack 0 x1) w2))))"

definition receiver_on_dc_message ::
  "('a disk_scheme) xTransferVfs \<Rightarrow> octets \<Rightarrow> xTransfer \<Rightarrow> 'a disk_scheme \<Rightarrow> (xTransfer \<times> 'a disk_scheme) option" where
  "receiver_on_dc_message vfs data x w = (case data of [] \<Rightarrow> Some (x, w) | msg_type # payload \<Rightarrow>
     if msg_type = XFER_MSG_FILE_META then receiver_meta vfs payload x w
     else if msg_type = XFER_MSG_FILE_CHUNK then Some (receiver_chunk vfs payload x w)
     else if msg_type = XFER_MSG_FILE_DONE then receiver_done vfs payload x w
     else Some (x, w))"

section \<open>Life of a transfer\<close>

definition xTransferCreate :: "allocs \<Rightarrow> xTransfer option" where
  "xTransferCreate oracle = (case draw oracle of (ok, oracle') \<Rightarrow> if \<not> ok then None
     else Some \<lparr>x_state = xTransferState_Idle, x_role = xTransferRole_Sender, x_pc = False, x_dc = False,
       send_handle = None, send_filepath = [], send_filename = [], send_filesize = 0,
       send_chunk_size = XFER_DEFAULT_CHUNK_SIZE, send_total_chunks = 0, send_next_chunk = 0,
       send_sha1 = replicate 20 0, send_resume_bitmap = no_bitmap, send_has_resume = False,
       send_waiting_resume = False, recv_handle = None, recv_dest_dir = [], recv_filepath = [],
       recv_filename = [], recv_filesize = 0, recv_chunk_size = 0, recv_total_chunks = 0,
       recv_chunks_received = 0, recv_bytes_received = 0, recv_sha1 = replicate 20 0,
       recv_bitmap = no_bitmap, recv_bitmap_path = [], send_paused = False, send_waiting_ack = False,
       x_timers = 0, x_allocs = oracle', dc_results = [], dc_buffered = [], x_out = [], x_trace = []\<rparr>)"

definition basename_of :: "octets \<Rightarrow> octets" where
  "basename_of p = rev (takeWhile (\<lambda>c. c \<noteq> 0x2F) (rev p))"

text \<open>
  \<open>pc\<close> says whether the peer connection can be created, \<open>dc\<close> whether its channel exists at once, and
  \<open>sig\<close> is the outcome of connecting to the signalling server.
\<close>

definition xTransferSendFile ::
  "'w xTransferVfs \<Rightarrow> path \<Rightarrow> bool \<Rightarrow> bool \<Rightarrow> xErrno \<Rightarrow> xTransfer \<Rightarrow> 'w \<Rightarrow> xErrno \<times> xTransfer \<times> 'w" where
  "xTransferSendFile vfs filepath pc dc sig x w = (if x_state x \<noteq> xTransferState_Idle then (xErrno_InvalidState, x, w)
     else let x1 = x\<lparr>x_role := xTransferRole_Sender, send_filepath := take 511 filepath,
                     send_filename := take (XFER_MAX_FILENAME_LEN - 1) (basename_of filepath)\<rparr> in
       (case vfs_open vfs filepath M_rb w of
         (None, w1) \<Rightarrow> (xErrno_SysError, xfer_report_error xErrno_SysError (x1\<lparr>send_handle := None\<rparr>), w1)
       | (Some h, w1) \<Rightarrow> (case vfs_size vfs h w1 of (err, fsize, w2) \<Rightarrow>
           if err \<noteq> xErrno_Ok
           then (xErrno_SysError, xfer_report_error xErrno_SysError (x1\<lparr>send_handle := None\<rparr>), vfs_close vfs h w2)
           else let x2 = x1\<lparr>send_handle := Some h, send_filesize := fsize,
                    send_total_chunks := chunk_count fsize (send_chunk_size x1), send_next_chunk := 0,
                    send_sha1 := replicate 20 0, x_pc := pc\<rparr> in
             if \<not> pc then (xErrno_Unknown, xfer_report_error xErrno_Unknown x2, w2)
             else let x3 = xfer_set_state xTransferState_WaitingPeer (x2\<lparr>x_dc := dc\<rparr>) in
               if sig \<noteq> xErrno_Ok then (sig, xfer_report_error sig x3, w2) else (xErrno_Ok, x3, w2))))"

definition xTransferRecvFile :: "path \<Rightarrow> bool \<Rightarrow> xErrno \<Rightarrow> xTransfer \<Rightarrow> xErrno \<times> xTransfer" where
  "xTransferRecvFile dest_dir pc sig x = (if x_state x \<noteq> xTransferState_Idle then (xErrno_InvalidState, x)
     else let x1 = x\<lparr>x_role := xTransferRole_Receiver, recv_dest_dir := take 511 dest_dir, x_pc := pc\<rparr> in
       if \<not> pc then (xErrno_Unknown, xfer_report_error xErrno_Unknown x1)
       else let x2 = xfer_set_state xTransferState_WaitingPeer x1 in
         if sig \<noteq> xErrno_Ok then (sig, xfer_report_error sig x2) else (xErrno_Ok, x2))"

definition on_pc_datachannel :: "xTransfer \<Rightarrow> xTransfer" where
  "on_pc_datachannel x = x\<lparr>x_dc := True\<rparr>"

datatype xPeerConnectionState =
    xPeerConnectionState_New | xPeerConnectionState_Connecting | xPeerConnectionState_Connected
  | xPeerConnectionState_Disconnected | xPeerConnectionState_Failed | xPeerConnectionState_Closed

definition on_pc_state_change :: "xPeerConnectionState \<Rightarrow> xTransfer \<Rightarrow> xTransfer" where
  "on_pc_state_change st x = (case st of
     xPeerConnectionState_Connecting \<Rightarrow> xfer_set_state xTransferState_Connecting x
   | xPeerConnectionState_Failed \<Rightarrow> xfer_report_error xErrno_Unknown x
   | xPeerConnectionState_Disconnected \<Rightarrow>
       (if x_state x \<noteq> xTransferState_Done \<and> x_state x \<noteq> xTransferState_Failed then xfer_report_error xErrno_Unknown x else x)
   | xPeerConnectionState_Closed \<Rightarrow>
       (if x_state x \<noteq> xTransferState_Done \<and> x_state x \<noteq> xTransferState_Failed then xfer_report_error xErrno_Unknown x else x)
   | _ \<Rightarrow> x)"

definition xTransferCancel :: "xTransfer \<Rightarrow> xTransfer" where
  "xTransferCancel x = (if x_state x = xTransferState_Done \<or> x_state x = xTransferState_Failed then x
     else xfer_set_state xTransferState_Failed (x\<lparr>x_dc := False\<rparr>))"

definition close_handle :: "'w xTransferVfs \<Rightarrow> nat option \<Rightarrow> 'w \<Rightarrow> 'w" where
  "close_handle vfs h w = (case h of None \<Rightarrow> w | Some a \<Rightarrow> vfs_close vfs a w)"

text \<open>
  What destroying a transfer leaves: the storage, and the timers that still hold its address.
\<close>

definition xTransferDestroy :: "'w xTransferVfs \<Rightarrow> xTransfer \<Rightarrow> 'w \<Rightarrow> nat \<times> 'w" where
  "xTransferDestroy vfs x w = (x_timers x, close_handle vfs (recv_handle x) (close_handle vfs (send_handle x) w))"

end
