(* ===== verification/XferRun.thy ===== *)
theory XferRun
  imports Xfer
begin

text \<open>
  A sender and a receiver joined by an ordered, reliable channel: every interleaving of the sender's
  timer, its channel draining, and the delivery of messages in both directions.
\<close>

section \<open>The linked transfers\<close>

record ('w, 'v) xlink =
  l_sender :: xTransfer
  l_sw :: 'w
  l_receiver :: xTransfer
  l_rw :: 'v
  l_delivered :: nat
  l_answered :: nat

inductive xlink_step ::
  "'a disk_scheme xTransferVfs \<Rightarrow> 'b disk_scheme xTransferVfs \<Rightarrow>
   ('a disk_scheme, 'b disk_scheme) xlink \<Rightarrow> ('a disk_scheme, 'b disk_scheme) xlink \<Rightarrow> bool" for sv rv where
  step_timer: "x_timers (l_sender l) > 0 \<Longrightarrow> sender_schedule_next sv (l_sender l) (l_sw l) = Some (s, sw)
    \<Longrightarrow> xlink_step sv rv l (l\<lparr>l_sender := s, l_sw := sw\<rparr>)"
| step_low: "send_paused (l_sender l) \<Longrightarrow> sender_on_buffered_amount_low sv (l_sender l) (l_sw l) = Some (s, sw)
    \<Longrightarrow> xlink_step sv rv l (l\<lparr>l_sender := s, l_sw := sw\<rparr>)"
| step_forward: "l_delivered l < length (x_out (l_sender l))
    \<Longrightarrow> receiver_on_dc_message rv (x_out (l_sender l) ! l_delivered l) (l_receiver l) (l_rw l) = Some (r, rw)
    \<Longrightarrow> xlink_step sv rv l (l\<lparr>l_receiver := r, l_rw := rw, l_delivered := l_delivered l + 1\<rparr>)"
| step_back: "l_answered l < length (x_out (l_receiver l))
    \<Longrightarrow> sender_on_dc_message sv (x_out (l_receiver l) ! l_answered l) (l_sender l) (l_sw l) = Some (s, sw)
    \<Longrightarrow> xlink_step sv rv l (l\<lparr>l_sender := s, l_sw := sw, l_answered := l_answered l + 1\<rparr>)"

inductive_cases xlink_stepE: "xlink_step sv rv l l'"

text \<open>What every step brings nearer to its end, the most significant first.\<close>

definition xlink_order :: "(('w, 'v) xlink \<times> ('w, 'v) xlink) set" where
  "xlink_order = measures [\<lambda>l. 2 - l_answered l, \<lambda>l. if send_waiting_ack (l_sender l) then 0 else 1,
     \<lambda>l. send_total_chunks (l_sender l) - send_next_chunk (l_sender l), \<lambda>l. length (dc_buffered (l_sender l)),
     \<lambda>l. length (x_out (l_sender l)) - l_delivered l]"

section \<open>Chunks of a file\<close>

abbreviation CS :: nat where "CS \<equiv> 65536"

definition file_chunks :: "octets \<Rightarrow> nat" where
  "file_chunks F = (length F + CS - 1) div CS"

definition chunk_of :: "octets \<Rightarrow> nat \<Rightarrow> octets" where
  "chunk_of F k = take CS (drop (k * CS) F)"

definition sizes_fit :: "octets \<Rightarrow> bool" where
  "sizes_fit F \<longleftrightarrow> F \<noteq> [] \<and> file_chunks F + 7 < U32"

text \<open>A partial file agrees with the source on the chunks that are marked.\<close>

definition part_agrees :: "octets \<Rightarrow> nat set \<Rightarrow> octets \<Rightarrow> bool" where
  "part_agrees F M c \<longleftrightarrow> length c \<le> length F \<and>
     (\<forall>i < length F. i div CS \<in> M \<longrightarrow> i < length c \<and> c ! i = F ! i)"

lemma length_chunk_of: "length (chunk_of F k) = min CS (length F - k * CS)"
  by (simp add: chunk_of_def min.commute)

lemma chunk_index: "i < length F \<Longrightarrow> i div CS < file_chunks F"
proof -
  assume "i < length F"
  then have "i div CS \<le> (length F - 1) div CS" by (intro div_le_mono) simp
  moreover have "length F + CS - 1 = (length F - 1) + CS" using \<open>i < length F\<close> by simp
  then have "file_chunks F = (length F - 1) div CS + 1" unfolding file_chunks_def by (simp del: add_diff_assoc2)
  ultimately show ?thesis by simp
qed

lemma chunk_nonempty: "k < file_chunks F \<Longrightarrow> k * CS < length F"
proof -
  assume "k < file_chunks F"
  then have "(k + 1) * CS \<le> length F + CS - 1" unfolding file_chunks_def
    by (metis Suc_eq_plus1 Suc_leI less_eq_div_iff_mult_less_eq zero_less_numeral)
  then show ?thesis by simp
qed

lemma length_write_at: "length (write_at off bs c) = (if bs = [] then length c else max (length c) (off + length bs))"
  by (auto simp: write_at_def max_def min_def)

lemma nth_write_at:
  "write_at off bs c ! i = (if off \<le> i \<and> i < off + length bs then bs ! (i - off) else c ! i)"
  if "i < length c \<or> off \<le> i \<and> i < off + length bs"
  using that by (auto simp: write_at_def nth_append min_def not_less)

lemma agrees_write:
  assumes "part_agrees F M c" "k < file_chunks F"
  shows "part_agrees F (insert k M) (write_at (k * CS) (chunk_of F k) c)"
proof -
  have len: "k * CS + length (chunk_of F k) \<le> length F" "chunk_of F k \<noteq> []"
    using chunk_nonempty [OF assms(2)] by (auto simp: length_chunk_of chunk_of_def)
  let ?c = "write_at (k * CS) (chunk_of F k) c"
  have "i < length ?c \<and> ?c ! i = F ! i" if i: "i < length F" "i div CS \<in> insert k M" for i
  proof (cases "i div CS = k")
    case True
    have "i - k * CS < CS" using True mod_less_divisor [of CS i] by (simp add: minus_div_mult_eq_mod)
    moreover have "k * CS \<le> i" using True by (metis div_times_less_eq_dividend)
    ultimately have "k * CS \<le> i" "i < k * CS + length (chunk_of F k)" using i(1) by (auto simp: length_chunk_of)
    then show ?thesis using len(2) i(1) by (simp add: nth_write_at length_write_at) (simp add: chunk_of_def)
  next
    case False
    then have c: "i < length c" "c ! i = F ! i" using assms(1) i by (auto simp: part_agrees_def)
    have "\<not> (k * CS \<le> i \<and> i < k * CS + length (chunk_of F k))"
    proof
      assume "k * CS \<le> i \<and> i < k * CS + length (chunk_of F k)"
      then have "k * CS \<le> i" "i < Suc k * CS" by (auto simp: length_chunk_of)
      then show False using False by (metis div_nat_eqI mult.commute)
    qed
    then show ?thesis using c by (auto simp: nth_write_at length_write_at)
  qed
  then show ?thesis using assms(1) len by (auto simp: part_agrees_def length_write_at)
qed

lemma agrees_all:
  assumes "part_agrees F M c" "{..<file_chunks F} \<subseteq> M"
  shows "c = F"
proof -
  have i: "i < length c \<and> c ! i = F ! i" if "i < length F" for i
    using assms chunk_index [OF that] that by (auto simp: part_agrees_def)
  have "length c = length F"
  proof (rule ccontr)
    assume "length c \<noteq> length F"
    then have "length c < length F" using assms(1) by (simp add: part_agrees_def)
    then show False using i [of "length c"] by simp
  qed
  then show ?thesis using i by (intro nth_equalityI) auto
qed

section \<open>The contract of a pair\<close>

text \<open>The messages the sender of the file \<open>F\<close> puts on the channel.\<close>

definition chunk_msg :: "octets \<Rightarrow> nat \<Rightarrow> octets" where
  "chunk_msg F k = [XFER_MSG_FILE_CHUNK] @ put_u32 (word_of_nat k) @ chunk_of F k"

definition done_msg :: "octets \<Rightarrow> octets" where
  "done_msg F = [XFER_MSG_FILE_DONE] @ put_u32 (word_of_nat (file_chunks F)) @ SHA1 F"

definition ack_msg :: octets where
  "ack_msg = [XFER_MSG_ACK, 0]"

text \<open>The identifiers sent once the next to look at is \<open>k\<close> and the receiver had \<open>B\<close>.\<close>

definition sent_ids :: "nat set \<Rightarrow> nat \<Rightarrow> nat list" where
  "sent_ids B k = filter (\<lambda>i. i \<notin> B) [0..<k]"

lemma sizes: "sizes_fit F \<Longrightarrow> 0 < file_chunks F \<and> file_chunks F < 2 ^ 32 \<and> file_chunks F + 7 < U32 \<and> length F < 2 ^ 48"
proof -
  assume a: "sizes_fit F"
  then have "length F \<le> file_chunks F * CS"
    using chunk_index [of "length F - 1" F] by (auto simp: sizes_fit_def div_less_iff_less_mult)
  then show ?thesis using a chunk_index [of 0 F] by (auto simp: sizes_fit_def U32_def)
qed

lemma count_chunks: "sizes_fit F \<Longrightarrow> chunk_count (length F) CS = file_chunks F"
  using sizes [of F] by (simp add: chunk_count_def file_chunks_def)

lemma skip_ids:
  "k \<le> n \<Longrightarrow> k \<le> skip_received bm n k \<and> skip_received bm n k \<le> n \<and>
     sent_ids (members bm) (skip_received bm n k) = sent_ids (members bm) k \<and>
     (skip_received bm n k < n \<longrightarrow> skip_received bm n k \<notin> members bm)"
proof (induction bm n k rule: skip_received.induct)
  case (1 bm n k)
  then show ?case by (subst (1 2 3 4 5) skip_received.simps) (auto simp: members_def sent_ids_def)
qed

locale xfer_pair =
  S: file_store sv sstored sopened ssound + R: file_store rv rstored ropened rsound
  for sv :: "'a disk_scheme xTransferVfs" and sstored sopened ssound
    and rv :: "'b disk_scheme xTransferVfs" and rstored ropened rsound +
  fixes F :: octets and src :: path and dir :: path and name :: octets
  assumes fits: "sizes_fit F" and renames: "vfs_rename rv \<noteq> None"
    and names: "length name \<le> 255" "length dir \<le> 511"
begin

abbreviation "n \<equiv> file_chunks F"

definition sender_base :: "xTransfer \<Rightarrow> 'a disk_scheme \<Rightarrow> bool" where
  "sender_base s w \<longleftrightarrow> ssound w \<and> sstored w src = Some F \<and>
     (\<exists>h. send_handle s = Some h \<and> sopened w h = Some src) \<and> send_filepath s = src \<and>
     send_filesize s = length F \<and> send_chunk_size s = CS \<and> send_total_chunks s = n \<and>
     x_allocs s = [] \<and> dc_results s = [] \<and> x_dc s"

text \<open>The sender has sent what comes before \<open>send_next_chunk\<close> and goes on: by its timer or when the channel drains.\<close>

definition sending :: "xBitmap \<Rightarrow> xTransfer \<Rightarrow> bool" where
  "sending bm s \<longleftrightarrow> send_has_resume s \<and> send_resume_bitmap s = bm \<and> \<not> send_waiting_resume s \<and>
     \<not> send_waiting_ack s \<and> send_next_chunk s \<le> n \<and>
     (\<exists>m. x_out s = m # map (chunk_msg F) (sent_ids (members bm) (send_next_chunk s)))"

definition at_rest :: "xTransfer \<Rightarrow> bool" where
  "at_rest s \<longleftrightarrow> x_timers s = 0 \<and> \<not> send_paused s"

definition all_sent :: "xBitmap \<Rightarrow> xTransfer \<Rightarrow> bool" where
  "all_sent bm s \<longleftrightarrow> send_waiting_ack s \<and> \<not> send_waiting_resume s \<and> at_rest s \<and>
     (\<exists>m. x_out s = m # map (chunk_msg F) (sent_ids (members bm) n) @ [done_msg F])"

lemma chunk_header:
  "snd (xTransferEncodeChunkHeader (word_of_nat k) (Some 5)) @ chunk_of F k = chunk_msg F k"
  by (simp add: xTransferEncodeChunkHeader_def chunk_msg_def)

lemma send_one:
  assumes "sender_base s w" "send_next_chunk s < n" "send_next_chunk s \<notin> members bm" "sending bm s" "at_rest s"
  shows "\<exists>s' w'. sender_chunk sv s w = (s', w') \<and> sender_base s' w' \<and> sending bm s' \<and>
    x_timers s' = 1 \<and> \<not> send_paused s' \<and> send_next_chunk s' = send_next_chunk s + 1 \<and>
    dc_buffered s' = dc_buffered s"
proof -
  let ?k = "send_next_chunk s"
  obtain h where h: "send_handle s = Some h" "sopened w h = Some src" using assms(1) by (auto simp: sender_base_def)
  have b: "ssound w" "sstored w src = Some F" "send_chunk_size s = CS" "x_allocs s = []" "dc_results s = []" "x_dc s"
    using assms(1) by (simp_all add: sender_base_def)
  obtain e bs w1 where r: "vfs_pread sv h CS (?k * CS) w = (e, bs, w1)" by (metis prod_cases3)
  have off: "?k * CS < length F" by (rule chunk_nonempty [OF assms(2)])
  then have "?k * CS < FSEEK_LIM" using sizes [OF fits] by (simp add: FSEEK_LIM_def)
  from S.pread [OF b(1) h(2) b(2) this r]
  have p: "e = xErrno_Ok" "bs = chunk_of F ?k" "sopened w1 = sopened w" "sstored w1 = sstored w" "ssound w1"
    by (simp_all add: chunk_of_def)
  have "bs \<noteq> []" using off p(2) by (auto simp: chunk_of_def)
  then show ?thesis using assms b h r p chunk_header [of ?k]
    by (auto simp: sender_chunk_def x_malloc_def dc_send_def Let_def xfer_report_progress_def sender_base_def
      sending_def at_rest_def sent_ids_def)
qed

lemma send_done:
  assumes "sender_base s w" "send_next_chunk s = n" "sending bm s" "at_rest s"
  shows "\<exists>s' w'. sender_finish sv s w = Some (s', w') \<and> sender_base s' w' \<and> all_sent bm s' \<and>
    dc_buffered s' = dc_buffered s \<and> send_next_chunk s' = n"
proof -
  have b: "ssound w" "sstored w src = Some F" "send_filepath s = src" "dc_results s = []" "x_dc s" "send_total_chunks s = n"
    using assms(1) by (simp_all add: sender_base_def)
  have "length F < FSEEK_LIM" using sizes [OF fits] by (simp add: FSEEK_LIM_def)
  from S.compute_file_sha1 [OF b(1,2) this]
  obtain w1 where "xfer_compute_file_sha1 sv src w = Some (xErrno_Ok, SHA1 F, w1)" "ssound w1" "sopened w1 = sopened w" "sstored w1 = sstored w"
    by auto
  then show ?thesis using assms b
    by (auto simp: sender_finish_def Let_def dc_send_def xTransferEncodeFileDone_def XFER_SHA1_SIZE_def done_msg_def
      length_digests sender_base_def all_sent_def sending_def at_rest_def)
qed

text \<open>One turn of the sender: it sends the next missing chunk, pauses, or announces the end.\<close>

lemma send_next:
  assumes "sender_base s w" "sending bm s" "at_rest s"
  shows "\<exists>s' w'. sender_send_next_chunk sv s w = Some (s', w') \<and> sender_base s' w' \<and>
    (all_sent bm s' \<or>
     sending bm s' \<and> x_timers s' = 1 \<and> \<not> send_paused s' \<and> send_next_chunk s < send_next_chunk s' \<and> length (dc_buffered s') \<le> length (dc_buffered s) \<or>
     sending bm s' \<and> x_timers s' = 0 \<and> send_paused s' \<and> send_next_chunk s \<le> send_next_chunk s' \<and> length (dc_buffered s') < length (dc_buffered s))"
proof -
  let ?k = "skip_received bm n (send_next_chunk s)" and ?s = "s\<lparr>send_next_chunk := skip_received bm n (send_next_chunk s)\<rparr>"
  have k: "send_next_chunk s \<le> ?k" "?k \<le> n" "sent_ids (members bm) ?k = sent_ids (members bm) (send_next_chunk s)"
    "?k < n \<longrightarrow> ?k \<notin> members bm"
    using skip_ids [of "send_next_chunk s" n bm] assms(2) by (auto simp: sending_def)
  have s: "sender_base ?s w" "sending bm ?s" "at_rest ?s" using assms k by (auto simp: sender_base_def sending_def at_rest_def)
  have run: "sender_send_next_chunk sv s w = (if n \<le> ?k then sender_finish sv ?s w
      else (case dc_amount ?s of (buffered, x2) \<Rightarrow>
        if buffered > XFER_SEND_HIGH_WATER_MARK then Some (x2\<lparr>send_paused := True\<rparr>, w) else Some (sender_chunk sv x2 w)))"
    using assms(1,2) by (simp add: sender_send_next_chunk_def sending_def sender_base_def)
  show ?thesis
  proof (cases "n \<le> ?k")
    case True
    then show ?thesis using send_done [OF s(1) _ s(2,3)] k(2) run by auto
  next
    case False
    obtain b x2 where a: "dc_amount ?s = (b, x2)" by fastforce
    have x2: "x2 = ?s \<and> b = 0 \<or> (\<exists>bs. x2 = ?s\<lparr>dc_buffered := bs\<rparr> \<and> length bs < length (dc_buffered s))"
      using a s(1) by (auto simp: dc_amount_def sender_base_def split: list.splits)
    have q: "sender_base x2 w" "sending bm x2" "at_rest x2" "send_next_chunk x2 = ?k" "length (dc_buffered x2) \<le> length (dc_buffered s)"
      using x2 s by (auto simp: sender_base_def sending_def at_rest_def)
    show ?thesis
    proof (cases "b > XFER_SEND_HIGH_WATER_MARK")
      case True
      then have "length (dc_buffered x2) < length (dc_buffered s)" using x2 by auto
      then show ?thesis using True False run a q k(1)
        by (auto simp: sender_base_def sending_def at_rest_def)
    next
      case b: False
      show ?thesis using send_one [OF q(1) _ _ q(2,3)] False b run a q k(1,4) by (auto simp: not_le)
    qed
  qed
qed

text \<open>What the sender does with the bitmap of the receiver.\<close>

definition resume_msg :: "xBitmap \<Rightarrow> octets" where
  "resume_msg bm = [XFER_MSG_FILE_RESUME] @ put_u32 (word_of_nat n) @ put_u32 (word_of_nat (nbytes bm)) @ the (bm_data bm)"

definition waiting_meta :: "xTransfer \<Rightarrow> bool" where
  "waiting_meta s \<longleftrightarrow> send_waiting_resume s \<and> \<not> send_waiting_ack s \<and> at_rest s \<and> send_next_chunk s = 0 \<and>
     \<not> send_has_resume s \<and> length (x_out s) = 1"

lemma start_sending:
  assumes "sender_base s w" "waiting_meta s" "bm_wf bm" "nbits bm = n" "bm_owned bm"
  shows "\<exists>s1. sender_on_dc_message sv (resume_msg bm) s w = sender_send_next_chunk sv s1 w \<and>
    sender_base s1 w \<and> sending bm s1 \<and> at_rest s1 \<and> dc_buffered s1 = dc_buffered s \<and> send_next_chunk s1 = 0"
proof -
  obtain d where d: "bm_data bm = Some d" "length d = nbytes bm" "nbytes bm = (nbits bm + 7) div 8" "nbits bm + 7 < U32" "0 < nbits bm"
    by (rule bm_wfE [OF assms(3)]) blast
  have len: "d \<noteq> []" "length d + 9 < 2 ^ 32" "unat (word_of_nat (length d) :: 32 word) = length d"
    using d by (auto simp: U32_def unat_of_nat take_bit_nat_eq_self_iff)
  let ?r = "\<lparr>fr_total_chunks = word_of_nat n, fr_bitmap = Some d, fr_bitmap_len = word_of_nat (length d)\<rparr>"
  have enc: "xTransferEncodeFileResume (Some ?r) (Some (length d + 9)) = (xErrno_Ok, resume_msg bm)"
    using d(1,2) len by (simp add: xTransferEncodeFileResume_def resume_needed_def resume_msg_def)
  have dec: "xTransferDecodeFileResume (Some (tl (resume_msg bm))) no_resume = (xErrno_Ok, ?r)"
    using resume_roundtrip(3) [OF _ _ _ _ enc, of d] len by simp
  have n: "unat (word_of_nat n :: 32 word) = n" using sizes [OF fits] by (simp add: unat_of_nat take_bit_nat_eq_self_iff)
  have pos: "(word_of_nat (length d) :: 32 word) > 0" using len(1,3) by (metis length_0_conv unat_0 word_gt_0)
  have init: "xBitmapInit n True (send_resume_bitmap s) =
      (xErrno_Ok, \<lparr>bm_data = Some (replicate (length d) 0), nbits = n, nbytes = length d, bm_owned = True\<rparr>)"
    using d assms(4) by (simp add: xBitmapInit_def bits_to_bytes_def)
  have load: "sender_load_bitmap d (length d) s = Some (True, s\<lparr>send_resume_bitmap := bm, send_has_resume := True\<rparr>)"
    using assms(1,4,5) d init by (cases bm) (auto simp: sender_load_bitmap_def x_malloc_def sender_base_def Let_def store_at_def)
  let ?s = "s\<lparr>send_resume_bitmap := bm, send_has_resume := True, send_waiting_resume := False\<rparr>"
  have m: "resume_msg bm = XFER_MSG_FILE_RESUME # tl (resume_msg bm)" "XFER_MSG_FILE_RESUME \<noteq> XFER_MSG_ACK"
    by (simp_all add: resume_msg_def XFER_MSG_FILE_RESUME_def XFER_MSG_ACK_def)
  have "sender_on_dc_message sv (resume_msg bm) s w = sender_send_next_chunk sv ?s w"
    using assms(1,2) dec n pos load len(3) m(2)
    by (subst m(1)) (simp add: sender_on_dc_message_def sender_resume_def sender_base_def waiting_meta_def)
  moreover have "sender_base ?s w" "sending bm ?s" "at_rest ?s" "dc_buffered ?s = dc_buffered s" "send_next_chunk ?s = 0"
    using assms(1,2) by (auto simp: sender_base_def waiting_meta_def sending_def at_rest_def sent_ids_def length_Suc_conv)
  ultimately show ?thesis by blast
qed

subsection \<open>The receiver\<close>

abbreviation "part \<equiv> xfer_path dir name ''.part''"
abbreviation "bitmap \<equiv> xfer_path dir name ''.bitmap''"
abbreviation "final \<equiv> xfer_path dir name []"

lemma length_c_str: "length (c_str s) \<le> length s"
  by (simp add: c_str_def length_takeWhile_le)

lemma paths: "part \<noteq> bitmap" "part \<noteq> final" "bitmap \<noteq> final"
proof -
  have "length (xfer_path dir name s) = length (c_str dir) + 1 + length (c_str name) + length s" if "length s \<le> 7" for s
    using names length_c_str [of name] length_c_str [of dir] that by (simp add: xfer_path_def str_bytes_def)
  then have "length part \<noteq> length bitmap" "length part \<noteq> length final" "length bitmap \<noteq> length final" by simp_all
  then show "part \<noteq> bitmap" "part \<noteq> final" "bitmap \<noteq> final" by auto
qed

definition recv_base :: "xTransfer \<Rightarrow> bool" where
  "recv_base r \<longleftrightarrow> x_dc r \<and> x_allocs r = [] \<and> dc_results r = [] \<and> recv_dest_dir r = dir \<and> recv_filename r = name \<and>
     recv_filepath r = part \<and> recv_bitmap_path r = bitmap \<and> recv_total_chunks r = n \<and> recv_chunk_size r = CS \<and>
     recv_filesize r = length F"

definition recv_ready :: "xTransfer \<Rightarrow> 'b disk_scheme \<Rightarrow> nat set \<Rightarrow> bool" where
  "recv_ready r w M \<longleftrightarrow> recv_base r \<and> rsound w \<and>
     (\<exists>h c. recv_handle r = Some h \<and> ropened w h = Some part \<and> rstored w part = Some c \<and> part_agrees F M c) \<and>
     bm_wf (recv_bitmap r) \<and> nbits (recv_bitmap r) = n \<and> members (recv_bitmap r) = M"

lemma save_keeps:
  assumes "rsound w" "xfer_bitmap_save bm k bitmap w = (e, w')"
  shows "rsound w'" "rstored w' part = rstored w part" "rstored w' final = rstored w final"
    "ropened w h = Some q \<Longrightarrow> ropened w' h = Some q"
  using R.bitmap_save [OF assms] paths by auto

lemma chunk_id: "k < n \<Longrightarrow> unat (word_of_nat k :: 32 word) = k"
  using sizes [OF fits] by (simp add: unat_of_nat take_bit_nat_eq_self_iff)

lemma decode_chunk:
  assumes "k < n"
  shows "xTransferDecodeChunkHeader (Some (tl (chunk_msg F k))) = (xErrno_Ok, word_of_nat k, chunk_of F k, word_of_nat (length (chunk_of F k)))"
    "unat (word_of_nat (length (chunk_of F k)) :: 32 word) = length (chunk_of F k)"
    "chunk_msg F k = XFER_MSG_FILE_CHUNK # tl (chunk_msg F k)"
proof -
  have len: "length (chunk_of F k) < 2 ^ 32" by (simp add: length_chunk_of)
  show "xTransferDecodeChunkHeader (Some (tl (chunk_msg F k))) = (xErrno_Ok, word_of_nat k, chunk_of F k, word_of_nat (length (chunk_of F k)))"
    by (simp add: chunk_msg_def xTransferDecodeChunkHeader_def)
  show "unat (word_of_nat (length (chunk_of F k)) :: 32 word) = length (chunk_of F k)"
    using len by (simp add: unat_of_nat take_bit_nat_eq_self_iff)
  show "chunk_msg F k = XFER_MSG_FILE_CHUNK # tl (chunk_msg F k)" by (simp add: chunk_msg_def)
qed

lemma msg_types: "XFER_MSG_FILE_CHUNK \<noteq> XFER_MSG_FILE_META" "XFER_MSG_FILE_DONE \<noteq> XFER_MSG_FILE_META"
  "XFER_MSG_FILE_DONE \<noteq> XFER_MSG_FILE_CHUNK"
  by (simp_all add: XFER_MSG_FILE_CHUNK_def XFER_MSG_FILE_META_def XFER_MSG_FILE_DONE_def)

lemma accept_chunk:
  assumes "recv_base r" "rsound w" "recv_handle r = Some h" "ropened w h = Some part" "rstored w part = Some c"
    and "part_agrees F (insert k M) c" "bm_wf (recv_bitmap r)" "nbits (recv_bitmap r) = n" "members (recv_bitmap r) = M" "k < n"
    and "receiver_accept_chunk k len r w = (r', w')"
  shows "recv_ready r' w' (insert k M)" "x_out r' = x_out r"
proof -
  let ?bm = "xBitmapSet k (recv_bitmap r)"
  have bm: "bm_wf ?bm" "nbits ?bm = n" "members ?bm = insert k M"
    using assms by (simp_all add: wf_set members_set)
  have w': "rsound w' \<and> rstored w' part = Some c \<and> ropened w' h = Some part"
  proof (cases "(recv_chunks_received r + 1) mod 2 ^ 32 mod XFER_BITMAP_PERSIST_INTERVAL = 0")
    case True
    obtain e w1 where s: "xfer_bitmap_save ?bm n bitmap w = (e, w1)" by fastforce
    then have "w' = w1" using assms(1,11) True by (auto simp: receiver_accept_chunk_def recv_base_def Let_def)
    then show ?thesis using save_keeps [OF assms(2) s] assms(4,5) by simp
  next
    case False
    then have "w' = w" using assms(11) by (auto simp: receiver_accept_chunk_def Let_def)
    then show ?thesis using assms(2,4,5) by simp
  qed
  have "recv_base r'" "recv_handle r' = Some h" "recv_bitmap r' = ?bm" "x_out r' = x_out r"
    using assms(1,3,11) by (auto simp: receiver_accept_chunk_def Let_def xfer_report_progress_def recv_base_def)
  then show "recv_ready r' w' (insert k M)" "x_out r' = x_out r" using bm w' assms(6) by (auto simp: recv_ready_def)
qed

lemma recv_chunk:
  assumes "recv_ready r w M" "k < n"
  shows "\<exists>r' w'. receiver_on_dc_message rv (chunk_msg F k) r w = Some (r', w') \<and> recv_ready r' w' (insert k M) \<and> x_out r' = x_out r"
proof -
  obtain h c where h: "recv_handle r = Some h" "ropened w h = Some part" "rstored w part = Some c" "part_agrees F M c"
    using assms(1) by (auto simp: recv_ready_def)
  have b: "recv_base r" "rsound w" "bm_wf (recv_bitmap r)" "nbits (recv_bitmap r) = n" "members (recv_bitmap r) = M"
    using assms(1) by (simp_all add: recv_ready_def)
  note m = decode_chunk [OF assms(2)]
  have msg: "receiver_on_dc_message rv (chunk_msg F k) r w = Some (receiver_chunk rv (tl (chunk_msg F k)) r w)"
    by (subst m(3)) (simp add: receiver_on_dc_message_def msg_types)
  show ?thesis
  proof (cases "k \<in> M")
    case True
    then have "xBitmapTest (recv_bitmap r) k" using b(5) by (auto simp: members_def)
    then show ?thesis using msg m(1) assms(1) True chunk_id [OF assms(2)] by (simp add: receiver_chunk_def insert_absorb)
  next
    case False
    then have t: "\<not> xBitmapTest (recv_bitmap r) k" using b(5) by (auto simp: members_def)
    obtain e len w1 where p: "vfs_pwrite rv h (chunk_of F k) (k * CS) w = (e, len, w1)" by (metis prod_cases3)
    have "k * CS < FSEEK_LIM" using chunk_nonempty [OF assms(2)] sizes [OF fits] by (simp add: FSEEK_LIM_def)
    from R.pwrite [OF b(2) h(2,3) this p]
    have w1: "e = xErrno_Ok" "len = length (chunk_of F k)" "ropened w1 = ropened w"
      "rstored w1 = (rstored w)(part \<mapsto> write_at (k * CS) (chunk_of F k) c)" "rsound w1" by simp_all
    obtain r' w' where a: "receiver_accept_chunk k (length (chunk_of F k)) r w1 = (r', w')" by fastforce
    have "receiver_chunk rv (tl (chunk_msg F k)) r w = (r', w')"
      using m(1,2) t h(1) p w1(1,2) a chunk_id [OF assms(2)] b(1) by (simp add: receiver_chunk_def recv_base_def)
    moreover have "recv_ready r' w' (insert k M)" "x_out r' = x_out r"
      using accept_chunk [OF b(1) w1(5) h(1) _ _ agrees_write [OF h(4) assms(2)] b(3-5) assms(2) a] w1(3,4) h(2) by simp_all
    ultimately show ?thesis using msg by simp
  qed
qed

text \<open>When the end arrives with every chunk marked, the file is complete and gets its name.\<close>

lemma recv_done:
  assumes "recv_ready r w M" "{..<n} \<subseteq> M"
  shows "\<exists>r' w'. receiver_on_dc_message rv (done_msg F) r w = Some (r', w') \<and> x_state r' = xTransferState_Done \<and>
    x_out r' = x_out r @ [ack_msg] \<and> rstored w' final = Some F \<and> rstored w' part = None"
proof -
  obtain h c where h: "recv_handle r = Some h" "ropened w h = Some part" "rstored w part = Some c" "part_agrees F M c"
    using assms(1) by (auto simp: recv_ready_def)
  have b: "recv_base r" "rsound w" using assms(1) by (simp_all add: recv_ready_def)
  have c: "c = F" by (rule agrees_all [OF h(4) assms(2)])
  obtain e1 wf where f: "vfs_flush rv h w = (e1, wf)" by fastforce
  have wf: "rstored wf = rstored w" "rsound wf" using R.flush [OF b(2) f] by simp_all
  let ?wc = "vfs_close rv h wf" and ?r = "r\<lparr>recv_handle := None\<rparr>"
  have wc: "rstored ?wc = rstored w" "rsound ?wc" using R.close [OF wf(2)] wf(1) by simp_all
  obtain e2 w1 where s: "xfer_bitmap_save (recv_bitmap r) n bitmap ?wc = (e2, w1)" by fastforce
  have w1: "rsound w1" "rstored w1 part = Some F" using save_keeps [OF wc(2) s] wc(1) h(3) c by simp_all
  have flush: "receiver_flush rv r w = (?r, w1)" using h(1) f s b(1) by (simp add: receiver_flush_def recv_base_def)
  have "length F < FSEEK_LIM" using sizes [OF fits] by (simp add: FSEEK_LIM_def)
  from R.compute_file_sha1 [OF w1 this]
  obtain w2 where sha: "xfer_compute_file_sha1 rv part w1 = Some (xErrno_Ok, SHA1 F, w2)" "rsound w2" "rstored w2 = rstored w1" by auto
  obtain rn where rn: "vfs_rename rv = Some rn" using renames by auto
  obtain e3 w3 where r3: "rn part final w2 = (e3, w3)" by fastforce
  have w3: "rstored w3 = (rstored w2)(final \<mapsto> F, part := None)" "rsound w3"
    using R.rename [OF sha(2) rn _ paths(2) r3, of F] sha(3) w1(2) by simp_all
  let ?w4 = "case vfs_remove rv of None \<Rightarrow> w3 | Some rm \<Rightarrow> snd (rm bitmap w3)"
  have w4: "rstored ?w4 final = Some F" "rstored ?w4 part = None"
  proof -
    have "(\<forall>q. q \<noteq> bitmap \<longrightarrow> rstored ?w4 q = rstored w3 q)"
    proof (cases "vfs_remove rv")
      case (Some rm)
      obtain e4 w4 where "rm bitmap w3 = (e4, w4)" by fastforce
      then show ?thesis using R.remove [OF w3(2) Some] Some by auto
    qed simp
    then show "rstored ?w4 final = Some F" "rstored ?w4 part = None" using w3(1) paths by simp_all
  qed
  have ack: "send_ack 0 ?r = ?r\<lparr>x_out := x_out r @ [ack_msg]\<rparr>"
    using b(1) by (simp add: send_ack_def xTransferEncodeFileAck_def dc_send_def recv_base_def ack_msg_def)
  have comp: "receiver_complete rv (send_ack 0 ?r) w2 =
      (xfer_set_state xTransferState_Done (?r\<lparr>x_out := x_out r @ [ack_msg], recv_bitmap := fst (xBitmapFree (recv_bitmap r))\<rparr>), ?w4)"
    using rn r3 b(1) unfolding ack by (simp add: receiver_complete_def recv_base_def Let_def split: option.split)
  have dec: "xTransferDecodeFileDone (Some (tl (done_msg F))) \<lparr>fd_total_chunks = 0, fd_sha1 = []\<rparr> =
      (xErrno_Ok, \<lparr>fd_total_chunks = word_of_nat n, fd_sha1 = SHA1 F\<rparr>)"
    by (simp add: done_msg_def xTransferDecodeFileDone_def length_digests XFER_SHA1_SIZE_def)
  have "receiver_on_dc_message rv (done_msg F) r w = receiver_done rv (tl (done_msg F)) r w"
    by (simp add: receiver_on_dc_message_def done_msg_def msg_types)
  also have "\<dots> = Some (receiver_complete rv (send_ack 0 ?r) w2)"
    using dec flush sha(1) b(1) by (simp add: receiver_done_def recv_base_def)
  finally show ?thesis unfolding comp using w4 by (simp add: xfer_set_state_def)
qed

text \<open>The announcement of the file, and a receiver that has not seen it.\<close>

definition is_meta :: "octets \<Rightarrow> bool" where
  "is_meta bs \<longleftrightarrow> (\<exists>m cap. xTransferEncodeFileMeta (Some m) (Some cap) = (xErrno_Ok, bs) \<and>
     unat (fm_filename_len m) = length name \<and> take (length name) (fm_filename m) = name \<and>
     fm_file_size m = word_of_nat (length F) \<and> fm_chunk_size m = word_of_nat CS \<and> length (fm_sha1 m) = 20)"

text \<open>
  A saved bitmap for this number of chunks describes a partial file that agrees with the source.
\<close>

definition resumable :: "'b disk_scheme \<Rightarrow> bool" where
  "resumable w \<longleftrightarrow> (\<forall>bm w1 c. xfer_bitmap_load True no_bitmap 0 bitmap w = (xErrno_Ok, bm, n, w1) \<longrightarrow>
     rstored w part = Some c \<longrightarrow> part_agrees F (members bm) c)"

definition recv_start :: "xTransfer \<Rightarrow> 'b disk_scheme \<Rightarrow> bool" where
  "recv_start r w \<longleftrightarrow> x_dc r \<and> x_allocs r = [] \<and> dc_results r = [] \<and> recv_dest_dir r = dir \<and>
     recv_bitmap r = no_bitmap \<and> x_out r = [] \<and> rsound w \<and> resumable w"

lemma meta_decoded:
  assumes "is_meta bs"
  obtains m where "xTransferDecodeFileMeta (Some (tl bs)) no_meta = (xErrno_Ok, m)" "bs = XFER_MSG_FILE_META # tl bs"
    "take (unat (fm_filename_len m)) (fm_filename m) = name" "unat (fm_file_size m) = length F" "unat (fm_chunk_size m) = CS"
proof -
  obtain m cap where m: "xTransferEncodeFileMeta (Some m) (Some cap) = (xErrno_Ok, bs)"
    "unat (fm_filename_len m) = length name" "take (length name) (fm_filename m) = name"
    "fm_file_size m = word_of_nat (length F)" "fm_chunk_size m = word_of_nat CS" "length (fm_sha1 m) = 20"
    using assms by (auto simp: is_meta_def)
  obtain e' m' where d: "xTransferDecodeFileMeta (Some (tl bs)) no_meta = (e', m')" by fastforce
  have cap: "35 + unat (fm_filename_len m) \<le> cap" using m(1) by (auto simp: xTransferEncodeFileMeta_def XFER_SHA1_SIZE_def split: if_splits)
  have len: "unat (fm_filename_len m) \<le> length (fm_filename m)" using m(2,3) by (metis length_take min.cobounded1)
  note r = meta_roundtrip [OF _ len m(6) cap _ m(1) d]
  have small: "unat (fm_filename_len m) \<le> 255" "length (fm_filename no_meta) = 256" using m(2) names by (simp_all add: no_meta_def)
  note r = r [OF small]
  have "bs \<noteq> []" using r(2) by auto
  then have "bs = XFER_MSG_FILE_META # tl bs" using r(3) by (metis list.collapse)
  moreover have "unat (fm_file_size m') = length F" using r(9) m(4) sizes [OF fits] by (simp add: unat_of_nat take_bit_nat_eq_self_iff)
  moreover have "unat (fm_chunk_size m') = CS" using r(10) m(5) by simp
  moreover have "take (unat (fm_filename_len m')) (fm_filename m') = name" using r(5,8) m(2,3) by simp
  ultimately show ?thesis using d r(4) that by blast
qed

lemma load_wf:
  assumes "xfer_bitmap_load True bm 0 p w = (xErrno_Ok, bm', n, w1)"
  shows "bm_wf bm'" "nbits bm' = n" "bm_owned bm'"
proof -
  obtain b where "xBitmapInit n True bm = (xErrno_Ok, b)" "bm_data bm' = bm_data bm'"
    "\<exists>bs. bm' = b\<lparr>bm_data := Some bs\<rparr> \<and> length bs = nbytes b"
    using assms by (auto simp: xfer_bitmap_load_def Let_def split: option.splits prod.splits if_splits)
  then show "bm_wf bm'" "nbits bm' = n" "bm_owned bm'"
    using sizes [OF fits] by (auto simp: xBitmapInit_def bm_wf_def bits_to_bytes_def split: if_splits)
qed

lemma agrees_empty: "length c \<le> length F \<Longrightarrow> part_agrees F {} c"
  by (simp add: part_agrees_def)

lemma fresh_ready:
  assumes "recv_base r" "rsound w" "x_out r = []"
  shows "\<exists>r' w'. receiver_fresh rv r w = (True, r', w') \<and> recv_ready r' w' {} \<and> x_out r' = [] \<and> bm_owned (recv_bitmap r')"
proof -
  have n: "0 < n" "n + 7 < U32" using sizes [OF fits] by simp_all
  obtain bm where i: "xBitmapInit n True (recv_bitmap r) = (xErrno_Ok, bm)" "bm_owned bm" "nbits bm = n" using n(1) by (simp add: xBitmapInit_def)
  have bm: "bm_wf bm" "members bm = {}" using wf_init [OF n, of "recv_bitmap r"] members_init [OF n(2,1), of "recv_bitmap r"] i(1) by simp_all
  obtain o1 w1 where op: "vfs_open rv part M_wb w = (o1, w1)" by fastforce
  obtain h where h: "o1 = Some h" "ropened w1 h = Some part" "rstored w1 part = Some []" "rsound w1"
    using R.open_new [OF assms(2) op] by auto
  let ?w2 = "receiver_allocate rv h (length F) w1"
  have w2: "rsound ?w2 \<and> (\<exists>c. rstored ?w2 part = Some c \<and> length c \<le> length F)"
  proof (cases "vfs_truncate rv")
    case (Some tr)
    obtain e w3 where t: "tr h (length F) w1 = (e, w3)" by fastforce
    have "0 < length F" "length F \<le> FSEEK_LIM" using fits sizes [OF fits] by (simp_all add: sizes_fit_def FSEEK_LIM_def)
    from R.truncate [OF h(4,2,3) Some this t] show ?thesis using Some t fits by (simp add: sizes_fit_def receiver_allocate_def)
  qed (use h in \<open>simp add: receiver_allocate_def\<close>)
  then obtain c where c: "rstored ?w2 part = Some c" "length c \<le> length F" "rsound ?w2" by blast
  have w3: "rsound (vfs_close rv h ?w2)" "rstored (vfs_close rv h ?w2) part = Some c" using R.close [OF c(3)] c(1) by simp_all
  obtain o2 w4 where o2: "vfs_open rv part M_rpb (vfs_close rv h ?w2) = (o2, w4)" by fastforce
  obtain h2 where h2: "o2 = Some h2" "ropened w4 h2 = Some part" "rstored w4 part = Some c" "rsound w4"
    using R.open_old [OF w3 _ o2] w3(2) by auto
  let ?r = "r\<lparr>recv_bitmap := bm, recv_handle := Some h2\<rparr>"
  have "receiver_fresh rv r w = (True, ?r, w4)"
    using assms(1) i(1) op h(1) o2 h2(1) by (cases r) (simp add: receiver_fresh_def x_malloc_def recv_base_def Let_def)
  moreover have "recv_ready ?r w4 {}" using assms(1) h2 bm i(3) agrees_empty [OF c(2)] by (auto simp: recv_ready_def recv_base_def)
  ultimately show ?thesis using assms(3) i(2) by auto
qed

lemma try_resume:
  assumes "recv_base r" "rsound w" "resumable w" "recv_bitmap r = no_bitmap" "x_out r = []"
  shows "\<exists>b r' w'. receiver_try_resume rv r w = (b, r', w') \<and> x_out r' = [] \<and>
    (if b then recv_ready r' w' (members (recv_bitmap r')) \<and> bm_owned (recv_bitmap r') else recv_base r' \<and> rsound w')"
proof -
  obtain e bm t w1 where l: "xfer_bitmap_load True no_bitmap 0 bitmap w = (e, bm, t, w1)" by (metis prod_cases4)
  have w1: "rsound w1" "rstored w1 = rstored w" using R.bitmap_load [OF assms(2) l] by simp_all
  obtain o1 w2 where o: "vfs_open rv part M_rpb w1 = (o1, w2)" by fastforce
  have "x_malloc r = (True, r)" using assms(1) by (cases r) (simp add: x_malloc_def recv_base_def)
  then have run: "receiver_try_resume rv r w =
      (if e = xErrno_Ok \<and> t = n
       then (if o1 = None then (False, r\<lparr>recv_handle := o1, recv_bitmap := fst (xBitmapFree bm)\<rparr>, w2)
         else (True, r\<lparr>recv_bitmap := bm, recv_handle := o1, recv_chunks_received := xBitmapCount bm,
                 recv_bytes_received := min (xBitmapCount bm * CS mod 2 ^ 64) (length F)\<rparr>, w2))
       else (False, r\<lparr>recv_bitmap := if e = xErrno_Ok then fst (xBitmapFree bm) else bm\<rparr>, w1))"
    using assms(1,4) l o by (cases r) (auto simp: receiver_try_resume_def recv_base_def Let_def)
  show ?thesis
  proof (cases "e = xErrno_Ok \<and> t = n")
    case False
    then show ?thesis using run assms(1,5) w1(1) by (auto simp: recv_base_def Let_def)
  next
    case True
    then have l: "xfer_bitmap_load True no_bitmap 0 bitmap w = (xErrno_Ok, bm, n, w1)" using l by simp
    note bm = load_wf [OF l]
    show ?thesis
    proof (cases "rstored w1 part")
      case None
      then have "o1 = None" "rsound w2" using R.open_missing [OF w1(1) None _ o] by simp_all
      then show ?thesis using run True o assms(1,5) by (auto simp: recv_base_def Let_def)
    next
      case (Some c)
      then obtain h where h: "o1 = Some h" "ropened w2 h = Some part" "rstored w2 part = Some c" "rsound w2"
        using R.open_old [OF w1(1) Some _ o] by auto
      have "part_agrees F (members bm) c" using assms(3) l Some w1(2) by (simp add: resumable_def)
      then show ?thesis using run True o h assms(1,5) bm by (auto simp: recv_base_def recv_ready_def Let_def)
    qed
  qed
qed

lemma answer_meta:
  assumes "recv_ready r w B" "x_out r = []"
  shows "\<exists>r'. receiver_send_resume r = (True, r') \<and> recv_ready r' w B \<and> x_out r' = [resume_msg (recv_bitmap r')] \<and>
    recv_bitmap r' = recv_bitmap r"
proof -
  have b: "recv_base r" "bm_wf (recv_bitmap r)" "nbits (recv_bitmap r) = n" using assms(1) by (simp_all add: recv_ready_def)
  obtain d where d: "bm_data (recv_bitmap r) = Some d" "length d = nbytes (recv_bitmap r)" "nbytes (recv_bitmap r) = (n + 7) div 8" "n + 7 < U32"
    using b(3) by (rule_tac bm_wfE [OF b(2)]) simp
  have "unat (word_of_nat (nbytes (recv_bitmap r)) :: 32 word) = nbytes (recv_bitmap r)"
    using d(3,4) by (simp add: unat_of_nat take_bit_nat_eq_self_iff U32_def)
  then have "receiver_send_resume r = (True, r\<lparr>x_out := [resume_msg (recv_bitmap r)]\<rparr>)"
    using b(1) d assms(2) by (cases r) (simp add: receiver_send_resume_def xBitmapData_def x_malloc_def xTransferEncodeFileResume_def
        dc_send_def resume_msg_def recv_base_def)
  moreover have "recv_ready (r\<lparr>x_out := [resume_msg (recv_bitmap r)]\<rparr>) w B" using assms(1) by (auto simp: recv_ready_def recv_base_def)
  ultimately show ?thesis by auto
qed

lemma recv_meta:
  assumes "recv_start r w" "is_meta bs"
  shows "\<exists>r' w'. receiver_on_dc_message rv bs r w = Some (r', w') \<and> recv_ready r' w' (members (recv_bitmap r')) \<and>
    bm_owned (recv_bitmap r') \<and> x_out r' = [resume_msg (recv_bitmap r')] \<and> x_state r' = xTransferState_Transferring"
proof -
  obtain m where m: "xTransferDecodeFileMeta (Some (tl bs)) no_meta = (xErrno_Ok, m)" "bs = XFER_MSG_FILE_META # tl bs"
    "take (unat (fm_filename_len m)) (fm_filename m) = name" "unat (fm_file_size m) = length F" "unat (fm_chunk_size m) = CS"
    by (rule meta_decoded [OF assms(2)])
  let ?r = "receiver_store_meta m r"
  have base: "recv_base ?r" "recv_bitmap ?r = no_bitmap" "x_out ?r = []" and w: "rsound w" "resumable w"
    using assms(1) m(3-5) count_chunks [OF fits] by (simp_all add: recv_start_def recv_base_def receiver_store_meta_def Let_def)
  have "fm_chunk_size m \<noteq> 0" using m(5) by auto
  then have run: "receiver_on_dc_message rv bs r w = Some (receiver_begin rv ?r w)"
    using m(1) by (subst m(2)) (simp add: receiver_on_dc_message_def receiver_meta_def)
  obtain b r1 w1 where t: "receiver_try_resume rv ?r w = (b, r1, w1)" "x_out r1 = []"
    "if b then recv_ready r1 w1 (members (recv_bitmap r1)) \<and> bm_owned (recv_bitmap r1) else recv_base r1 \<and> rsound w1"
    using try_resume [OF base(1) w base(2,3)] by blast
  obtain r2 w2 where r2: "(if b then (True, r1, w1) else receiver_fresh rv r1 w1) = (True, r2, w2)"
    "recv_ready r2 w2 (members (recv_bitmap r2))" "x_out r2 = []" "bm_owned (recv_bitmap r2)"
  proof (cases b)
    case True then show ?thesis using t that by simp
  next
    case False
    then obtain r2 w2 where "receiver_fresh rv r1 w1 = (True, r2, w2)" "recv_ready r2 w2 {}" "x_out r2 = []" "bm_owned (recv_bitmap r2)"
      using fresh_ready t(2,3) by metis
    then show ?thesis using False that by (simp add: recv_ready_def)
  qed
  obtain r3 where r3: "receiver_send_resume r2 = (True, r3)" "recv_ready r3 w2 (members (recv_bitmap r2))"
    "x_out r3 = [resume_msg (recv_bitmap r3)]" "recv_bitmap r3 = recv_bitmap r2"
    using answer_meta [OF r2(2,3)] by blast
  have base3: "recv_base r3" "rsound w2" using r3(2) by (simp_all add: recv_ready_def)
  obtain e w3 where s: "xfer_bitmap_save (recv_bitmap r3) n bitmap w2 = (e, w3)" by fastforce
  have w3: "rsound w3" "rstored w3 part = rstored w2 part" "\<And>h q. ropened w2 h = Some q \<Longrightarrow> ropened w3 h = Some q"
    using save_keeps [OF base3(2) s] by simp_all
  have "receiver_begin rv ?r w = (xfer_set_state xTransferState_Transferring r3, w3)"
    using t(1) r2(1) r3(1) s base3(1) by (simp add: receiver_begin_def recv_base_def)
  moreover have "recv_ready (xfer_set_state xTransferState_Transferring r3) w3 (members (recv_bitmap r2))"
    using r3(2) w3 by (auto simp: recv_ready_def recv_base_def xfer_set_state_def)
  ultimately show ?thesis using run r3(3,4) r2(4) by (simp add: xfer_set_state_def)
qed

subsection \<open>The run\<close>


subsection \<open>The run\<close>

text \<open>
  The phases of a run: the announcement is on its way; the answer is; chunks are sent and delivered;
  all is sent; the acknowledgement is on its way; both are done.
\<close>

definition phase_meta where
  "phase_meta l \<longleftrightarrow> sender_base (l_sender l) (l_sw l) \<and> waiting_meta (l_sender l) \<and> (\<exists>m. x_out (l_sender l) = [m] \<and> is_meta m) \<and>
     recv_start (l_receiver l) (l_rw l) \<and> l_delivered l = 0 \<and> l_answered l = 0"

definition phase_resume where
  "phase_resume l \<longleftrightarrow> sender_base (l_sender l) (l_sw l) \<and> waiting_meta (l_sender l) \<and>
     recv_ready (l_receiver l) (l_rw l) (members (recv_bitmap (l_receiver l))) \<and> bm_owned (recv_bitmap (l_receiver l)) \<and>
     x_out (l_receiver l) = [resume_msg (recv_bitmap (l_receiver l))] \<and> l_delivered l = 1 \<and> l_answered l = 0"

definition received where
  "received bm ids l \<longleftrightarrow> recv_ready (l_receiver l) (l_rw l) (members bm \<union> set (take (l_delivered l - 1) ids)) \<and>
     length (x_out (l_receiver l)) = 1 \<and> l_answered l = 1 \<and> 1 \<le> l_delivered l \<and> l_delivered l \<le> 1 + length ids"

definition phase_run where
  "phase_run bm l \<longleftrightarrow> sender_base (l_sender l) (l_sw l) \<and> sending bm (l_sender l) \<and>
     (x_timers (l_sender l) = 1 \<and> \<not> send_paused (l_sender l) \<or> x_timers (l_sender l) = 0 \<and> send_paused (l_sender l)) \<and>
     received bm (sent_ids (members bm) (send_next_chunk (l_sender l))) l"

definition phase_tail where
  "phase_tail bm l \<longleftrightarrow> sender_base (l_sender l) (l_sw l) \<and> all_sent bm (l_sender l) \<and> received bm (sent_ids (members bm) n) l"

definition phase_ack where
  "phase_ack l \<longleftrightarrow> send_waiting_ack (l_sender l) \<and> at_rest (l_sender l) \<and> l_delivered l = length (x_out (l_sender l)) \<and>
     l_answered l = 1 \<and> (\<exists>a. x_out (l_receiver l) = [a, ack_msg]) \<and> x_state (l_receiver l) = xTransferState_Done \<and>
     rstored (l_rw l) final = Some F \<and> rstored (l_rw l) part = None"

definition phase_over where
  "phase_over l \<longleftrightarrow> x_state (l_sender l) = xTransferState_Done \<and> at_rest (l_sender l) \<and> l_delivered l = length (x_out (l_sender l)) \<and>
     l_answered l = 2 \<and> length (x_out (l_receiver l)) = 2 \<and> x_state (l_receiver l) = xTransferState_Done \<and>
     rstored (l_rw l) final = Some F \<and> rstored (l_rw l) part = None"

definition xfer_ok where
  "xfer_ok l \<longleftrightarrow> phase_meta l \<or> phase_resume l \<or> (\<exists>bm. phase_run bm l) \<or> (\<exists>bm. phase_tail bm l) \<or> phase_ack l \<or> phase_over l"

lemma turn_phase:
  assumes "sender_base s w" "sending bm s" "at_rest s" and r: "received bm (sent_ids (members bm) (send_next_chunk s)) l"
    and run: "sender_send_next_chunk sv s w = Some (s', w')"
  shows "phase_run bm (l\<lparr>l_sender := s', l_sw := w'\<rparr>) \<and> send_total_chunks s' = n \<and>
      (send_next_chunk s < send_next_chunk s' \<or> send_next_chunk s \<le> send_next_chunk s' \<and> length (dc_buffered s') < length (dc_buffered s)) \<and>
      send_next_chunk s' \<le> n \<and> \<not> send_waiting_ack s' \<or>
    phase_tail bm (l\<lparr>l_sender := s', l_sw := w'\<rparr>) \<and> send_waiting_ack s'"
proof -
  have ids: "\<exists>zs. sent_ids (members bm) k' = sent_ids (members bm) k @ zs" if k: "k \<le> k'" for k k'
  proof -
    obtain j where "k' = k + j" using le_Suc_ex [OF k] by blast
    then show ?thesis using upt_add_eq_append [of 0 k j] by (simp add: sent_ids_def)
  qed
  have more: "received bm (sent_ids (members bm) k') (l\<lparr>l_sender := s', l_sw := w'\<rparr>)" if k: "send_next_chunk s \<le> k'" for k'
  proof -
    obtain zs where zs: "sent_ids (members bm) k' = sent_ids (members bm) (send_next_chunk s) @ zs" using ids [OF k] by blast
    have "l_delivered l - 1 - length (sent_ids (members bm) (send_next_chunk s)) = 0" using r by (simp add: received_def)
    then show ?thesis unfolding zs using r by (simp add: received_def)
  qed
  have n: "send_next_chunk s \<le> n" using assms(2) by (simp add: sending_def)
  have s': "sender_base s' w'" "send_total_chunks s' = n" "sending bm s' \<Longrightarrow> send_next_chunk s' \<le> n \<and> \<not> send_waiting_ack s'"
    using send_next [OF assms(1-3)] run by (auto simp: sender_base_def sending_def)
  from send_next [OF assms(1-3)] run consider
    (finished) "all_sent bm s'" | (sent) "sending bm s'" "x_timers s' = 1" "\<not> send_paused s'" "send_next_chunk s < send_next_chunk s'"
    | (paused) "sending bm s'" "x_timers s' = 0" "send_paused s'" "send_next_chunk s \<le> send_next_chunk s'"
        "length (dc_buffered s') < length (dc_buffered s)" by auto
  then show ?thesis
  proof cases
    case finished
    then show ?thesis using more [OF n] s'(1) by (simp add: phase_tail_def all_sent_def)
  next
    case sent
    then show ?thesis using more [of "send_next_chunk s'"] s' by (simp add: phase_run_def)
  next
    case paused
    then show ?thesis using more [of "send_next_chunk s'"] s' by (simp add: phase_run_def)
  qed
qed

lemma delivered_id:
  assumes "received bm ids l" "l_delivered l \<le> length ids"
  shows "insert (ids ! (l_delivered l - 1)) (members bm \<union> set (take (l_delivered l - 1) ids)) = members bm \<union> set (take (l_delivered l) ids)"
proof -
  have d: "l_delivered l = Suc (l_delivered l - 1)" "l_delivered l - 1 < length ids" using assms by (auto simp: received_def)
  have "take (l_delivered l) ids = take (l_delivered l - 1) ids @ [ids ! (l_delivered l - 1)]"
    using take_Suc_conv_app_nth [OF d(2)] by (simp only: d(1) [symmetric])
  then show ?thesis by auto
qed

lemma deliver_chunk:
  assumes "received bm ids l" "l_delivered l \<le> length ids" "set ids \<subseteq> {..<n}"
    and "receiver_on_dc_message rv (chunk_msg F (ids ! (l_delivered l - 1))) (l_receiver l) (l_rw l) = Some (r, w)"
  shows "received bm ids (l\<lparr>l_receiver := r, l_rw := w, l_delivered := l_delivered l + 1\<rparr>)"
proof -
  have "l_delivered l - 1 < length ids" using assms(1,2) by (auto simp: received_def)
  then have k: "ids ! (l_delivered l - 1) < n" using assms(3) by (meson lessThan_iff nth_mem subsetD)
  have "recv_ready (l_receiver l) (l_rw l) (members bm \<union> set (take (l_delivered l - 1) ids))" using assms(1) by (simp add: received_def)
  from recv_chunk [OF this k] assms(4)
  have "recv_ready r w (insert (ids ! (l_delivered l - 1)) (members bm \<union> set (take (l_delivered l - 1) ids)))"
    "x_out r = x_out (l_receiver l)" by simp_all
  then show ?thesis using assms(1,2) delivered_id [OF assms(1,2)] by (simp add: received_def)
qed

lemma sent_ids_range: "k \<le> n \<Longrightarrow> set (sent_ids B k) \<subseteq> {..<n}"
  by (auto simp: sent_ids_def)

lemma not_resting_back: "received bm ids l \<Longrightarrow> \<not> l_answered l < length (x_out (l_receiver l))"
  by (simp add: received_def)

text \<open>Every step stays in the phases and brings the end nearer.\<close>

lemma rest_no_turn:
  assumes "xlink_step sv rv l l'" "at_rest (l_sender l)"
  obtains (forward) r rw where "l_delivered l < length (x_out (l_sender l))"
      "receiver_on_dc_message rv (x_out (l_sender l) ! l_delivered l) (l_receiver l) (l_rw l) = Some (r, rw)"
      "l' = l\<lparr>l_receiver := r, l_rw := rw, l_delivered := l_delivered l + 1\<rparr>"
    | (reply) s sw where "l_answered l < length (x_out (l_receiver l))"
      "sender_on_dc_message sv (x_out (l_receiver l) ! l_answered l) (l_sender l) (l_sw l) = Some (s, sw)"
      "l' = l\<lparr>l_sender := s, l_sw := sw, l_answered := l_answered l + 1\<rparr>"
  using assms by (auto simp: at_rest_def elim: xlink_stepE)

lemma step_meta:
  assumes "phase_meta l" "xlink_step sv rv l l'"
  shows "phase_resume l' \<and> (l', l) \<in> xlink_order"
proof -
  obtain m where m: "x_out (l_sender l) = [m]" "is_meta m" "recv_start (l_receiver l) (l_rw l)"
    using assms(1) by (auto simp: phase_meta_def)
  have rest: "at_rest (l_sender l)" using assms(1) by (simp add: phase_meta_def waiting_meta_def)
  from assms(2) rest show ?thesis
  proof (cases rule: rest_no_turn)
    case (forward r rw)
    then show ?thesis using assms(1) m recv_meta [OF m(3,2)]
      by (auto simp: phase_meta_def phase_resume_def xlink_order_def)
  next
    case reply
    then show ?thesis using m assms(1) by (simp add: phase_meta_def recv_start_def)
  qed
qed

lemma step_resume:
  assumes "phase_resume l" "xlink_step sv rv l l'"
  shows "((\<exists>bm. phase_run bm l') \<or> (\<exists>bm. phase_tail bm l')) \<and> (l', l) \<in> xlink_order"
proof -
  let ?bm = "recv_bitmap (l_receiver l)"
  have p: "sender_base (l_sender l) (l_sw l)" "waiting_meta (l_sender l)" "recv_ready (l_receiver l) (l_rw l) (members ?bm)"
    "bm_owned ?bm" "x_out (l_receiver l) = [resume_msg ?bm]" "l_delivered l = 1" "l_answered l = 0"
    using assms(1) by (simp_all add: phase_resume_def)
  have bm: "bm_wf ?bm" "nbits ?bm = n" using p(3) by (simp_all add: recv_ready_def)
  have rest: "at_rest (l_sender l)" using p(2) by (simp add: waiting_meta_def)
  from assms(2) rest show ?thesis
  proof (cases rule: rest_no_turn)
    case forward
    then show ?thesis using p(2,6) by (simp add: waiting_meta_def)
  next
    case (reply s sw)
    obtain s1 where s1: "sender_on_dc_message sv (resume_msg ?bm) (l_sender l) (l_sw l) = sender_send_next_chunk sv s1 (l_sw l)"
      "sender_base s1 (l_sw l)" "sending ?bm s1" "at_rest s1" "send_next_chunk s1 = 0"
      using start_sending [OF p(1,2) bm p(4)] by blast
    let ?l = "l\<lparr>l_answered := 1\<rparr>"
    have r: "received ?bm (sent_ids (members ?bm) (send_next_chunk s1)) ?l"
      using p(3,5,6) s1(5) by (simp add: received_def)
    have "sender_send_next_chunk sv s1 (l_sw l) = Some (s, sw)" using reply(2) p(5,7) s1(1) by simp
    from turn_phase [OF s1(2-4) r this]
    have "phase_run ?bm (?l\<lparr>l_sender := s, l_sw := sw\<rparr>) \<or> phase_tail ?bm (?l\<lparr>l_sender := s, l_sw := sw\<rparr>)" by auto
    moreover have "l' = ?l\<lparr>l_sender := s, l_sw := sw\<rparr>" using reply(3) p(7) by simp
    ultimately show ?thesis using p(7) by (auto simp: xlink_order_def)
  qed
qed

lemma step_run:
  assumes "phase_run bm l" "xlink_step sv rv l l'"
  shows "(phase_run bm l' \<or> phase_tail bm l') \<and> (l', l) \<in> xlink_order"
proof -
  let ?s = "l_sender l" and ?ids = "sent_ids (members bm) (send_next_chunk (l_sender l))"
  have p: "sender_base ?s (l_sw l)" "sending bm ?s" "received bm ?ids l"
    "x_timers ?s = 1 \<and> \<not> send_paused ?s \<or> x_timers ?s = 0 \<and> send_paused ?s" using assms(1) by (simp_all add: phase_run_def)
  have n: "send_total_chunks ?s = n" "send_next_chunk ?s \<le> n" "\<not> send_waiting_ack ?s" using p(1,2) by (simp_all add: sender_base_def sending_def)
  have turn: "(phase_run bm l' \<or> phase_tail bm l') \<and> (l', l) \<in> xlink_order"
    if s1: "sender_base s1 (l_sw l)" "sending bm s1" "at_rest s1" "send_next_chunk s1 = send_next_chunk ?s" "dc_buffered s1 = dc_buffered ?s"
      and run: "sender_send_next_chunk sv s1 (l_sw l) = Some (s, sw)" and l': "l' = l\<lparr>l_sender := s, l_sw := sw\<rparr>" for s1 s sw
  proof -
    have r: "received bm (sent_ids (members bm) (send_next_chunk s1)) l" using p(3) s1(4) by simp
    from turn_phase [OF s1(1-3) r run] show ?thesis using n unfolding s1(4,5) l' by (auto simp: xlink_order_def)
  qed
  from assms(2) show ?thesis
  proof (cases rule: xlink_step.cases)
    case (step_timer s sw)
    then show ?thesis using p(1,2,4)
      by (intro turn [of "?s\<lparr>x_timers := x_timers ?s - 1\<rparr>" s sw]) (auto simp: sender_schedule_next_def sender_base_def sending_def at_rest_def)
  next
    case (step_low s sw)
    then show ?thesis using p(1,2,4)
      by (intro turn [of "?s\<lparr>send_paused := False\<rparr>" s sw]) (auto simp: sender_on_buffered_amount_low_def sender_base_def sending_def at_rest_def)
  next
    case (step_forward r rw)
    obtain m where m: "x_out ?s = m # map (chunk_msg F) ?ids" using p(2) by (auto simp: sending_def)
    have d: "1 \<le> l_delivered l" "l_delivered l \<le> length ?ids" using p(3) step_forward(2) m by (auto simp: received_def)
    then have "x_out ?s ! l_delivered l = chunk_msg F (?ids ! (l_delivered l - 1))" unfolding m by (simp add: nth_Cons')
    then have "received bm ?ids l'"
      using deliver_chunk [OF p(3) d(2) sent_ids_range [OF n(2)]] step_forward(1,3) by simp
    then show ?thesis using p step_forward(1,2) by (simp add: phase_run_def xlink_order_def)
  next
    case step_back
    then show ?thesis using not_resting_back [OF p(3)] by simp
  qed
qed

lemma step_tail:
  assumes "phase_tail bm l" "xlink_step sv rv l l'"
  shows "(phase_tail bm l' \<or> phase_ack l') \<and> (l', l) \<in> xlink_order"
proof -
  let ?s = "l_sender l" and ?ids = "sent_ids (members bm) n"
  have p: "sender_base ?s (l_sw l)" "all_sent bm ?s" "received bm ?ids l" using assms(1) by (simp_all add: phase_tail_def)
  have rest: "at_rest ?s" using p(2) by (simp add: all_sent_def)
  obtain m where m: "x_out ?s = m # map (chunk_msg F) ?ids @ [done_msg F]" using p(2) by (auto simp: all_sent_def)
  from assms(2) rest show ?thesis
  proof (cases rule: rest_no_turn)
    case (forward r rw)
    show ?thesis
    proof (cases "l_delivered l \<le> length ?ids")
      case True
      then have "x_out ?s ! l_delivered l = chunk_msg F (?ids ! (l_delivered l - 1))"
        using p(3) unfolding m by (auto simp: nth_Cons' nth_append received_def)
      then have "received bm ?ids l'" using deliver_chunk [OF p(3) True sent_ids_range] forward(2,3) by simp
      then show ?thesis using p forward(1,3) by (auto simp: phase_tail_def xlink_order_def)
    next
      case False
      then have d: "l_delivered l = 1 + length ?ids" using p(3) by (simp add: received_def)
      then have "x_out ?s ! l_delivered l = done_msg F" unfolding m by (simp add: nth_append)
      moreover have "recv_ready (l_receiver l) (l_rw l) (members bm \<union> set ?ids)" using p(3) d by (simp add: received_def)
      moreover have "{..<n} \<subseteq> members bm \<union> set ?ids" by (auto simp: sent_ids_def)
      ultimately have r: "x_state r = xTransferState_Done" "x_out r = x_out (l_receiver l) @ [ack_msg]"
        "rstored rw final = Some F" "rstored rw part = None" using recv_done forward(2) by fastforce+
      have "\<exists>a. x_out (l_receiver l) = [a]" using p(3) by (auto simp: received_def length_Suc_conv)
      then have "phase_ack l'" using r p(2,3) forward(3) d m rest by (auto simp: phase_ack_def all_sent_def received_def)
      then show ?thesis using forward(1,3) by (auto simp: xlink_order_def)
    qed
  next
    case reply
    then show ?thesis using not_resting_back [OF p(3)] by simp
  qed
qed

lemma step_ack:
  assumes "phase_ack l" "xlink_step sv rv l l'"
  shows "phase_over l' \<and> (l', l) \<in> xlink_order"
proof -
  have p: "send_waiting_ack (l_sender l)" "at_rest (l_sender l)" "l_answered l = 1" "l_delivered l = length (x_out (l_sender l))"
    using assms(1) by (simp_all add: phase_ack_def)
  obtain a where a: "x_out (l_receiver l) = [a, ack_msg]" using assms(1) by (auto simp: phase_ack_def)
  from assms(2) p(2) show ?thesis
  proof (cases rule: rest_no_turn)
    case forward
    then show ?thesis using p(4) by simp
  next
    case (reply s sw)
    have "sender_on_dc_message sv ack_msg (l_sender l) (l_sw l) =
        Some (xfer_set_state xTransferState_Done ((l_sender l)\<lparr>send_waiting_ack := False\<rparr>), l_sw l)"
      using p(1) by (simp add: sender_on_dc_message_def ack_msg_def sender_ack_def xTransferDecodeFileAck_def)
    then have "s = xfer_set_state xTransferState_Done ((l_sender l)\<lparr>send_waiting_ack := False\<rparr>)" using reply(2) a p(3) by simp
    then show ?thesis using assms(1) reply(3) a p by (auto simp: phase_ack_def phase_over_def xfer_set_state_def at_rest_def xlink_order_def)
  qed
qed

lemma step_over: "phase_over l \<Longrightarrow> \<not> xlink_step sv rv l l'"
  by (auto simp: phase_over_def at_rest_def elim!: xlink_stepE)

lemma step_ok: "xfer_ok l \<Longrightarrow> xlink_step sv rv l l' \<Longrightarrow> xfer_ok l' \<and> (l', l) \<in> xlink_order"
  unfolding xfer_ok_def using step_meta step_resume step_run step_tail step_ack step_over by meson

text \<open>Only a finished run has no next step.\<close>

lemma ok_progress:
  assumes "xfer_ok l" "\<not> phase_over l"
  shows "\<exists>l'. xlink_step sv rv l l'"
proof -
  have forward: "\<exists>l'. xlink_step sv rv l l'"
    if "l_delivered l < length (x_out (l_sender l))"
      "\<exists>r rw. receiver_on_dc_message rv (x_out (l_sender l) ! l_delivered l) (l_receiver l) (l_rw l) = Some (r, rw)"
    using that xlink_step.step_forward by blast
  have reply: "\<exists>l'. xlink_step sv rv l l'"
    if "l_answered l < length (x_out (l_receiver l))"
      "\<exists>s sw. sender_on_dc_message sv (x_out (l_receiver l) ! l_answered l) (l_sender l) (l_sw l) = Some (s, sw)"
    using that xlink_step.step_back by blast
  from assms consider (meta) "phase_meta l" | (resume) "phase_resume l" | (run) bm where "phase_run bm l"
    | (tail) bm where "phase_tail bm l" | (ack) "phase_ack l" by (auto simp: xfer_ok_def)
  then show ?thesis
  proof cases
    case meta
    then obtain m where "x_out (l_sender l) = [m]" "is_meta m" "recv_start (l_receiver l) (l_rw l)" "l_delivered l = 0"
      by (auto simp: phase_meta_def)
    then show ?thesis using recv_meta by (intro forward) fastforce+
  next
    case resume
    let ?bm = "recv_bitmap (l_receiver l)"
    have p: "sender_base (l_sender l) (l_sw l)" "waiting_meta (l_sender l)" "bm_wf ?bm" "nbits ?bm = n" "bm_owned ?bm"
      "x_out (l_receiver l) = [resume_msg ?bm]" "l_answered l = 0" using resume by (auto simp: phase_resume_def recv_ready_def)
    then show ?thesis using start_sending [OF p(1-5)] send_next by (intro reply) fastforce+
  next
    case (run bm)
    let ?s = "l_sender l"
    have p: "sender_base ?s (l_sw l)" "sending bm ?s" "x_timers ?s = 1 \<and> \<not> send_paused ?s \<or> x_timers ?s = 0 \<and> send_paused ?s"
      using run by (auto simp: phase_run_def)
    show ?thesis
    proof (cases "send_paused ?s")
      case True
      have "\<exists>s sw. sender_send_next_chunk sv (?s\<lparr>send_paused := False\<rparr>) (l_sw l) = Some (s, sw)"
        using send_next [of "?s\<lparr>send_paused := False\<rparr>" "l_sw l" bm] p True by (auto simp: sender_base_def sending_def at_rest_def)
      then show ?thesis using True xlink_step.step_low [of l sv] by (auto simp: sender_on_buffered_amount_low_def)
    next
      case False
      have "\<exists>s sw. sender_send_next_chunk sv (?s\<lparr>x_timers := x_timers ?s - 1\<rparr>) (l_sw l) = Some (s, sw)"
        using send_next [of "?s\<lparr>x_timers := x_timers ?s - 1\<rparr>" "l_sw l" bm] p False by (auto simp: sender_base_def sending_def at_rest_def)
      then show ?thesis using False p(3) xlink_step.step_timer [of l sv] by (auto simp: sender_schedule_next_def)
    qed
  next
    case (tail bm)
    let ?ids = "sent_ids (members bm) n"
    obtain m where m: "x_out (l_sender l) = m # map (chunk_msg F) ?ids @ [done_msg F]" and r: "received bm ?ids l"
      using tail by (auto simp: phase_tail_def all_sent_def)
    have ready: "recv_ready (l_receiver l) (l_rw l) (members bm \<union> set (take (l_delivered l - 1) ?ids))" using r by (simp add: received_def)
    show ?thesis
    proof (cases "l_delivered l \<le> length ?ids")
      case True
      then have lt: "l_delivered l - 1 < length ?ids" using r by (auto simp: received_def)
      then have "x_out (l_sender l) ! l_delivered l = chunk_msg F (?ids ! (l_delivered l - 1))"
        using r True unfolding m by (auto simp: nth_Cons' nth_append received_def)
      moreover have "?ids ! (l_delivered l - 1) < n" using lt sent_ids_range [of n] nth_mem by blast
      ultimately show ?thesis using recv_chunk [OF ready] True m by (intro forward) fastforce+
    next
      case False
      then have d: "l_delivered l = 1 + length ?ids" using r by (simp add: received_def)
      then have "x_out (l_sender l) ! l_delivered l = done_msg F" unfolding m by (simp add: nth_append)
      moreover have "recv_ready (l_receiver l) (l_rw l) (members bm \<union> set ?ids)" using ready d by simp
      moreover have "{..<n} \<subseteq> members bm \<union> set ?ids" by (auto simp: sent_ids_def)
      ultimately show ?thesis using recv_done d m by (intro forward) fastforce+
    qed
  next
    case ack
    then show ?thesis
      by (intro reply) (auto simp: phase_ack_def sender_on_dc_message_def ack_msg_def sender_ack_def)
  qed
qed

lemma wf_order: "wf xlink_order"
  by (simp add: xlink_order_def)

text \<open>Along every interleaving: the invariant, no infinite run, and the end.\<close>

lemma ok_reached: "(xlink_step sv rv)\<^sup>*\<^sup>* l l' \<Longrightarrow> xfer_ok l \<Longrightarrow> xfer_ok l'"
  by (induction rule: rtranclp_induct) (auto dest: step_ok)

lemma ok_ends:
  assumes "xfer_ok l"
  shows "\<exists>l'. (xlink_step sv rv)\<^sup>*\<^sup>* l l' \<and> phase_over l'"
  using assms
proof (induction l rule: wf_induct_rule [OF wf_order])
  case (1 l)
  show ?case
  proof (cases "phase_over l")
    case False
    then obtain l1 where "xlink_step sv rv l l1" using ok_progress [OF 1(2)] by blast
    then show ?thesis using 1 step_ok by (meson converse_rtranclp_into_rtranclp)
  qed blast
qed

end

end
