(* ===== verification/XferProps.thy ===== *)
theory XferProps
  imports XferRun
begin

text \<open>
  What a file transfer over the default storage guarantees, and where it does not.
\<close>

section \<open>Two transfers over the default storage\<close>

definition fit :: "octets \<Rightarrow> octets" where
  "fit F = (if sizes_fit F then F else [0])"

lemma sizes_fit_fit: "sizes_fit (fit F)"
  by (simp add: fit_def sizes_fit_def file_chunks_def U32_def)

definition sent_name :: "path \<Rightarrow> octets" where
  "sent_name src = c_str (take 255 (basename_of src))"

lemma length_sent_name: "length (sent_name src) \<le> 255"
  unfolding sent_name_def c_str_def by (rule order_trans [OF length_takeWhile_le]) simp

interpretation pair: xfer_pair "xTransferPosixVfs :: 'a disk_scheme xTransferVfs" files streams disk_sound
  "xTransferPosixVfs :: 'b disk_scheme xTransferVfs" files streams disk_sound "fit F" src "take 511 dir" "sent_name src"
  for F src dir
  by unfold_locales (auto simp: sizes_fit_fit length_sent_name xTransferPosixVfs_def)

text \<open>
  A sender of the file at \<open>src\<close> and a receiver into the directory \<open>dir\<close>, with their channel open; \<open>amounts\<close>
  are the buffered amounts the channel will report.
\<close>

definition xfer_link ::
  "path \<Rightarrow> path \<Rightarrow> nat list \<Rightarrow> 'a disk_scheme \<Rightarrow> 'b disk_scheme \<Rightarrow> ('a disk_scheme, 'b disk_scheme) xlink option" where
  "xfer_link src dir amounts w v = (case (xTransferCreate [], xTransferCreate []) of
     (Some x, Some y) \<Rightarrow> (case xTransferSendFile xTransferPosixVfs src True True xErrno_Ok x w of (e, s, sw) \<Rightarrow>
       (case xTransferRecvFile dir True xErrno_Ok y of (e2, r) \<Rightarrow>
         if e = xErrno_Ok \<and> e2 = xErrno_Ok
         then Some \<lparr>l_sender = sender_on_dc_open (s\<lparr>dc_buffered := amounts\<rparr>), l_sw = sw,
           l_receiver = on_pc_datachannel r, l_rw = v, l_delivered = 0, l_answered = 0\<rparr>
         else None))
   | _ \<Rightarrow> None)"

text \<open>What is left of an earlier attempt is of the same file.\<close>

definition earlier_ok :: "path \<Rightarrow> octets \<Rightarrow> octets \<Rightarrow> 'b disk_scheme \<Rightarrow> bool" where
  "earlier_ok dir name F v \<longleftrightarrow> (\<forall>bm v1 c.
     xfer_bitmap_load True no_bitmap 0 (xfer_path dir name ''.bitmap'') v = (xErrno_Ok, bm, file_chunks F, v1) \<longrightarrow>
     files v (xfer_path dir name ''.part'') = Some c \<longrightarrow> part_agrees F (members bm) c)"

definition xfer_delivered :: "path \<Rightarrow> octets \<Rightarrow> octets \<Rightarrow> ('a disk_scheme, 'b disk_scheme) xlink \<Rightarrow> bool" where
  "xfer_delivered dir name F l \<longleftrightarrow> x_state (l_sender l) = xTransferState_Done \<and> x_state (l_receiver l) = xTransferState_Done \<and>
     files (l_rw l) (xfer_path dir name []) = Some F \<and> files (l_rw l) (xfer_path dir name ''.part'') = None"

lemma take_c_str: "take (length (c_str s)) s = c_str s"
  unfolding c_str_def by (rule takeWhile_eq_take [symmetric])

lemma link_starts:
  assumes "xfer_link src dir amounts w v = Some l" "disk_sound w" "disk_sound v" "files w src = Some F"
    and "length src \<le> 511" "sizes_fit F" "earlier_ok (take 511 dir) (sent_name src) F v"
  shows "pair.phase_meta F src dir l"
proof -
  have F: "fit F = F" using assms(6) by (simp add: fit_def)
  let ?h = "next_stream w"
  let ?w = "w\<lparr>streams := (streams w)(?h \<mapsto> src), next_stream := ?h + 1\<rparr>"
  have sound: "disk_sound ?w" and faults: "io_faults w = []" using assms(2) by (auto simp: disk_sound_def)
  have op: "vfs_open xTransferPosixVfs src M_rb w = (Some ?h, ?w)"
    using assms(4) faults by (simp add: xTransferPosixVfs_def posix_open_def fopen_def add_stream_def)
  have sz: "vfs_size xTransferPosixVfs ?h ?w = (xErrno_Ok, length F, ?w)"
    using assms(4) faults by (simp add: xTransferPosixVfs_def posix_size_def stream_file_def)
  have n: "chunk_count (length F) XFER_DEFAULT_CHUNK_SIZE = file_chunks F"
    using count_chunks [OF assms(6)] by (simp add: XFER_DEFAULT_CHUNK_SIZE_def)
  let ?name = "take 255 (basename_of src)"
  have len: "min 255 (length (c_str ?name)) = length (sent_name src)" using length_sent_name [of src] by (simp add: sent_name_def)
  have n16: "unat (word_of_nat (length (sent_name src)) :: 16 word) = length (sent_name src)"
    using length_sent_name [of src] by (simp add: unat_of_nat take_bit_nat_eq_self_iff)
  let ?m = "\<lparr>fm_filename = ?name, fm_filename_len = word_of_nat (length (sent_name src)), fm_file_size = word_of_nat (length F),
    fm_chunk_size = word_of_nat XFER_DEFAULT_CHUNK_SIZE, fm_sha1 = replicate 20 0\<rparr>"
  obtain bs where bs: "xTransferEncodeFileMeta (Some ?m) (Some 512) = (xErrno_Ok, bs)"
    using n16 length_sent_name [of src] by (simp add: xTransferEncodeFileMeta_def XFER_SHA1_SIZE_def)
  have meta: "pair.is_meta F src bs"
    unfolding pair.is_meta_def using bs n16 
    by (intro exI [of _ ?m] exI [of _ 512]) (simp add: sent_name_def take_c_str F XFER_DEFAULT_CHUNK_SIZE_def del: take_take)
  have l: "l_sw l = ?w" "l_rw l = v" "l_delivered l = 0" "l_answered l = 0" "pair.sender_base F src (l_sender l) ?w"
    "pair.waiting_meta (l_sender l)" "x_out (l_sender l) = [bs]"
    unfolding pair.sender_base_def pair.waiting_meta_def pair.at_rest_def unfolding F
    using assms(1,4,5) op sz bs n len sound
    by (auto simp: xfer_link_def xTransferCreate_def xTransferSendFile_def xTransferRecvFile_def xfer_set_state_def Let_def
      sender_on_dc_open_def dc_send_def XFER_MAX_FILENAME_LEN_def XFER_DEFAULT_CHUNK_SIZE_def)
  have r: "pair.recv_start F dir src (l_receiver l) v"
    unfolding pair.recv_start_def pair.resumable_def unfolding F
    using assms(1,3,7) op sz
    by (auto simp: xfer_link_def xTransferCreate_def xTransferSendFile_def xTransferRecvFile_def xfer_set_state_def Let_def
      earlier_ok_def on_pc_datachannel_def)
  show ?thesis using l r meta by (auto simp: pair.phase_meta_def)
qed

section \<open>Delivery\<close>

text \<open>
  C2. From a sender of a non-empty file whose chunk count fits, and a receiver whose left-overs, if any, are of the
  same file, over storage that does not fail and a channel that delivers in order and refuses no send, every
  interleaving can be continued to the end, no step takes it away from there, and wherever no step is possible
  both report success and the receiver has exactly the sender's bytes under the final name: whatever chunks an earlier
  attempt left, and whatever amounts of buffered data make the sender pause between chunks. (A refused FILE_META,
  FILE_RESUME, FILE_DONE or acknowledgement is lost, and both sides wait for ever: the code ignores these results.)
\<close>

theorem xfer_delivers:
  fixes w :: "'a disk_scheme" and v :: "'b disk_scheme"
  assumes "xfer_link src dir amounts w v = Some l0" "disk_sound w" "disk_sound v" "files w src = Some F"
    and "length src \<le> 511" "sizes_fit F" "earlier_ok (take 511 dir) (sent_name src) F v"
    and "(xlink_step xTransferPosixVfs xTransferPosixVfs)\<^sup>*\<^sup>* l0 l"
  shows "(\<exists>l'. (xlink_step xTransferPosixVfs xTransferPosixVfs)\<^sup>*\<^sup>* l l' \<and> xfer_delivered (take 511 dir) (sent_name src) F l')
    \<and> ((\<forall>l'. \<not> xlink_step xTransferPosixVfs xTransferPosixVfs l l') \<longrightarrow> xfer_delivered (take 511 dir) (sent_name src) F l)
    \<and> (\<forall>l'. xlink_step xTransferPosixVfs xTransferPosixVfs l l' \<longrightarrow> (l', l) \<in> xlink_order) \<and> wf (xlink_order :: (('a disk_scheme, 'b disk_scheme) xlink \<times> _) set)"
proof -
  have F: "fit F = F" using assms(6) by (simp add: fit_def)
  have ok: "pair.xfer_ok F src dir l"
    using pair.ok_reached [OF assms(8)] link_starts [OF assms(1-7)] by (auto simp: pair.xfer_ok_def)
  have over: "xfer_delivered (take 511 dir) (sent_name src) F l'" if "pair.phase_over F dir src l'"
    for l' :: "('a disk_scheme, 'b disk_scheme) xlink"
    using that unfolding pair.phase_over_def xfer_delivered_def unfolding F by simp
  show ?thesis
  proof (intro conjI)
    show "wf (xlink_order :: (('a disk_scheme, 'b disk_scheme) xlink \<times> _) set)" by (simp add: xlink_order_def)
  qed (use pair.ok_ends [OF ok] pair.ok_progress [OF ok] pair.step_ok [OF ok] over in blast)+
qed

definition ex_disk :: "(path \<Rightarrow> octets option) \<Rightarrow> disk" where
  "ex_disk F = \<lparr>files = F, streams = (\<lambda>h. None), next_stream = 0, io_faults = []\<rparr>"

definition ex_source :: disk where "ex_source = ex_disk [[0x61] \<mapsto> [1, 2, 3]]"
definition ex_target :: disk where "ex_target = ex_disk (\<lambda>p. None)"

lemma ex_fits: "sizes_fit [1, 2, 3]"
  by (simp add: sizes_fit_def file_chunks_def U32_def)

theorem xfer_delivers_witness:
  "\<exists>l0 l'. xfer_link [0x61] [0x64] [1000000] ex_source ex_target = Some l0 \<and>
     (xlink_step xTransferPosixVfs xTransferPosixVfs)\<^sup>*\<^sup>* l0 l' \<and> xfer_delivered [0x64] [0x61] [1, 2, 3] l'"
proof -
  have w: "disk_sound ex_source" "disk_sound ex_target" "files ex_source [0x61] = Some [1, 2, 3]"
    by (simp_all add: disk_sound_def ex_source_def ex_target_def ex_disk_def)
  have name: "sent_name [0x61] = [0x61]" by code_simp
  obtain l0 where l0: "xfer_link [0x61] [0x64] [1000000] ex_source ex_target = Some l0"
  proof -
    have "xfer_link [0x61] [0x64] [1000000] ex_source ex_target \<noteq> None"
      by (simp add: xfer_link_def xTransferCreate_def xTransferSendFile_def xTransferRecvFile_def Let_def xTransferPosixVfs_def
        posix_open_def posix_size_def fopen_def io_draw_def add_stream_def stream_file_def ex_source_def ex_disk_def)
    then show ?thesis using that by auto
  qed
  have "earlier_ok (take 511 [0x64]) (sent_name [0x61]) [1, 2, 3] ex_target"
    by (simp add: earlier_ok_def ex_target_def ex_disk_def)
  from xfer_delivers [OF l0 w _ ex_fits this rtranclp.rtrancl_refl] show ?thesis
    using l0 by (auto simp: name)
qed

section \<open>Nothing is reported done that was not verified\<close>

text \<open>A file of the C library is read to its end or to an error, whichever calls fail.\<close>

lemma posix_pread_cases:
  assumes "posix_pread h n off d = (e, bs, d')"
  shows "files d' = files d \<and> streams d' = streams d \<and>
    (e = xErrno_Ok \<longrightarrow> off < FSEEK_LIM \<and> (\<exists>p c. streams d h = Some p \<and> files d p = Some c \<and> bs = take n (drop off c)))"
  using assms by (auto simp: posix_pread_def get_bytes_def io_draw_def stream_file_def split: if_splits list.splits option.splits)

lemma posix_sha1_loop:
  assumes "streams d h = Some p" "files d p = Some c" "off \<le> length c" "sha1.absorbed (take off c) ctx"
  shows "\<exists>e ctx' d'. sha1_loop xTransferPosixVfs h ctx off d = Some (e, ctx', d') \<and> files d' = files d \<and> streams d' = streams d \<and>
    (e = xErrno_Ok \<longrightarrow> sha1.absorbed c ctx')"
  using assms
proof (induction "length c - off" arbitrary: off ctx d rule: less_induct)
  case less
  obtain e bs d1 where r: "vfs_pread xTransferPosixVfs h 65536 off d = (e, bs, d1)" by (metis prod_cases3)
  then have "posix_pread h 65536 off d = (e, bs, d1)" by (simp add: xTransferPosixVfs_def)
  note p = posix_pread_cases [OF this]
  show ?case
  proof (cases "e = xErrno_Ok \<and> bs \<noteq> []")
    case False
    then show ?thesis using p r less.prems by (subst sha1_loop.simps) auto
  next
    case True
    let ?off = "(off + length bs) mod 2 ^ 64"
    have off: "off < FSEEK_LIM" and bs: "bs = take 65536 (drop off c)" "bs \<noteq> []" using p True less.prems(1,2) by auto
    have len: "length bs \<le> 65536" "length bs \<le> length c - off" "take (off + length bs) c = take off c @ bs"
      using bs(1) by (auto simp: take_add min_def)
    have o: "?off = off + length bs" using len(1) off by (simp add: FSEEK_LIM_def)
    have "sha1.absorbed (take ?off c) (sha1_update ctx bs)"
      unfolding o len(3) using less.prems(4) by (simp add: update_steps(2) sha1.absorbed_update)
    moreover have "length c - ?off < length c - off" "?off \<le> length c"
      unfolding o using bs(2) len(2) less.prems(3) length_greater_0_conv [of bs] by linarith+
    ultimately obtain e' ctx' d' where "sha1_loop xTransferPosixVfs h (sha1_update ctx bs) ?off d1 = Some (e', ctx', d')"
      "files d' = files d1" "streams d' = streams d1" "e' = xErrno_Ok \<longrightarrow> sha1.absorbed c ctx'"
      using less.hyps [of ?off d1 "sha1_update ctx bs"] p less.prems(1,2) by metis
    then show ?thesis using p r True by (subst sha1_loop.simps) auto
  qed
qed

lemma posix_sha1:
  "\<exists>e dg d'. xfer_compute_file_sha1 xTransferPosixVfs p d = Some (e, dg, d') \<and> files d' = files d \<and>
     (e = xErrno_Ok \<longrightarrow> (\<exists>c. files d p = Some c \<and> dg = SHA1 c))"
proof -
  obtain r d1 where o: "vfs_open xTransferPosixVfs p M_rb d = (r, d1)" by fastforce
  then have f: "fopen p M_rb d = (r, d1)" by (simp add: xTransferPosixVfs_def posix_open_def)
  then have d1: "files d1 = files d" by (auto simp: fopen_def io_draw_def add_stream_def split: list.splits option.splits if_splits)
  show ?thesis
  proof (cases r)
    case None
    then show ?thesis using o d1 by (auto simp: xfer_compute_file_sha1_def)
  next
    case (Some h)
    then obtain c where c: "files d p = Some c" "streams d1 h = Some p"
      using f by (auto simp: fopen_def io_draw_def add_stream_def split: list.splits option.splits if_splits)
    have "sha1.absorbed (take 0 c) sha1_new"
      using sha1.absorbed_init [of "replicate 64 0"] by (simp add: sha1_new_def zero_ctx_def)
    then obtain e ctx d2 where l: "sha1_loop xTransferPosixVfs h sha1_new 0 d1 = Some (e, ctx, d2)" "files d2 = files d1"
      "e = xErrno_Ok \<longrightarrow> sha1.absorbed c ctx"
      using posix_sha1_loop [of d1 h p c 0 sha1_new] c d1 by auto
    have "files (vfs_close xTransferPosixVfs h d2) = files d2" by (simp add: xTransferPosixVfs_def posix_close_def fclose_def)
    then show ?thesis using o Some l d1 c(1) by (auto simp: xfer_compute_file_sha1_def sha1_final_digest)
  qed
qed

text \<open>
  C5. Whatever the peer sends and whichever calls of the storage fail, handling FILE_DONE returns, and a
  receiver that then reports success has computed, over the bytes that lie in its partial file, the digest
  the sender announced; it has acknowledged with status 0. Nothing is verified about the rename that follows.
\<close>

theorem xfer_done_verified:
  fixes v :: "'a disk_scheme"
  assumes "x_state r \<noteq> xTransferState_Done" and "24 \<le> length payload"
  shows "\<exists>r' v'. receiver_done xTransferPosixVfs payload r v = Some (r', v') \<and>
    (x_state r' = xTransferState_Done \<longrightarrow>
      (\<exists>c. files (snd (receiver_flush xTransferPosixVfs r v)) (recv_filepath r) = Some c \<and> SHA1 c = take 20 (drop 4 payload)))"
proof -
  obtain r1 v1 where f: "receiver_flush xTransferPosixVfs r v = (r1, v1)" by fastforce
  have r1: "recv_filepath r1 = recv_filepath r" "x_state r1 = x_state r"
    using f by (auto simp: receiver_flush_def split: option.splits)
  obtain e dg v2 where s: "xfer_compute_file_sha1 xTransferPosixVfs (recv_filepath r1) v1 = Some (e, dg, v2)"
    "e = xErrno_Ok \<longrightarrow> (\<exists>c. files v1 (recv_filepath r1) = Some c \<and> dg = SHA1 c)"
    using posix_sha1 [of "recv_filepath r1" v1] by blast
  have "xTransferDecodeFileDone (Some payload) \<lparr>fd_total_chunks = 0, fd_sha1 = []\<rparr> =
      (xErrno_Ok, \<lparr>fd_total_chunks = get_u32 payload 0, fd_sha1 = take 20 (drop 4 payload)\<rparr>)"
    using assms(2) by (simp add: xTransferDecodeFileDone_def XFER_SHA1_SIZE_def)
  then show ?thesis using f s r1
    by (auto simp: receiver_done_def xfer_report_error_def xfer_set_state_def)
qed

definition ex_done :: octets where
  "ex_done = [0, 0, 0, 1] @ replicate 20 0"

theorem xfer_done_verified_witness:
  "\<exists>r' v'. receiver_done xTransferPosixVfs ex_done (the (xTransferCreate [])) (ex_source\<lparr>io_faults := [None, Some 3]\<rparr>) = Some (r', v') \<and>
     (x_state r' = xTransferState_Done \<longrightarrow> (\<exists>c. files (snd (receiver_flush xTransferPosixVfs (the (xTransferCreate []))
        (ex_source\<lparr>io_faults := [None, Some 3]\<rparr>))) (recv_filepath (the (xTransferCreate []))) = Some c \<and> SHA1 c = take 20 (drop 4 ex_done)))"
  by (rule xfer_done_verified) (simp_all add: xTransferCreate_def ex_done_def)

section \<open>A saved bitmap is read again\<close>

lemma header_roundtrip:
  assumes "n < U32"
  shows "header_value (bitmap_header n) = n"
proof -
  define a b c where abc: "a = n div 256" "b = a div 256" "c = b div 256"
  have d: "n div 2 ^ 8 = a" "n div 2 ^ 16 = b" "n div 2 ^ 24 = c" by (simp_all add: abc div_mult2_eq [symmetric])
  have "c < 256" using assms d(3) by (simp add: U32_def div_less_iff_less_mult flip: d(3))
  moreover have "unat (word_of_nat k :: 8 word) = k mod 256" for k by (simp add: unat_of_nat take_bit_eq_mod)
  ultimately have "header_value (bitmap_header n) = c * 2 ^ 24 + b mod 256 * 2 ^ 16 + a mod 256 * 2 ^ 8 + n mod 256"
    by (simp add: header_value_def bitmap_header_def d [simplified])
  also have "\<dots> = n"
    using div_mult_mod_eq [of n 256] div_mult_mod_eq [of a 256] div_mult_mod_eq [of b 256] unfolding abc [symmetric] by simp
  finally show ?thesis .
qed

definition bitmap_file :: "xBitmap \<Rightarrow> octets" where
  "bitmap_file bm = bitmap_header (nbits bm) @ the (bm_data bm)"

lemma bitmap_saved:
  assumes "disk_sound d" "bm_wf bm" "xfer_bitmap_save bm (nbits bm) p d = (e, d')"
  shows "e = xErrno_Ok" "files d' p = Some (bitmap_file bm)" "disk_sound d'"
proof -
  obtain bs where bs: "bm_data bm = Some bs" "length bs = nbytes bm" "0 < nbits bm" "nbytes bm = (nbits bm + 7) div 8"
    by (rule bm_wfE [OF assms(2)]) blast
  have pos: "0 < nbytes bm" using bs(3,4) by simp
  let ?h = "next_stream d" and ?hdr = "bitmap_header (nbits bm)"
  obtain o1 d1 where o: "fopen p M_wb d = (o1, d1)" by fastforce
  note f = fopen_sound [OF assms(1) o]
  have d1: "o1 = Some ?h" "streams d1 ?h = Some p" "files d1 p = Some []" "disk_sound d1" using f by simp_all
  have w: "write_at 0 ?hdr [] = ?hdr" "write_at 4 bs ?hdr = ?hdr @ bs" using bs(2) pos by (auto simp: write_at_def bitmap_header_def)
  let ?d2 = "d1\<lparr>files := (files d1)(p \<mapsto> ?hdr)\<rparr>" and ?d3 = "d1\<lparr>files := (files d1)(p \<mapsto> ?hdr @ bs)\<rparr>"
  have p1: "put_bytes ?h ?hdr 0 d1 = (4, ?d2)" using bytes_sound(2) [OF d1(4,2,3), of ?hdr 0] w(1) by (simp add: bitmap_header_def)
  have "put_bytes ?h bs 4 ?d2 = (length bs, ?d3)"
    using bytes_sound(2) [of ?d2 ?h p ?hdr bs 4] d1(2,4) w(2) by simp
  then have "e = xErrno_Ok" "d' = fclose ?h ?d3"
    using assms(3) o d1(1) p1 bs(1,2) pos by (auto simp: xfer_bitmap_save_def xBitmapData_def)
  then show "e = xErrno_Ok" "files d' p = Some (bitmap_file bm)" "disk_sound d'" using d1(4) bs(1) by (simp_all add: bitmap_file_def)
qed

lemma bitmap_loaded:
  assumes "disk_sound d" "bm_wf bm" "bm_owned bm" "files d p = Some (bitmap_file bm)"
  shows "\<exists>d'. xfer_bitmap_load True b 0 p d = (xErrno_Ok, bm, nbits bm, d') \<and> files d' = files d \<and> disk_sound d'"
proof -
  obtain bs where bs: "bm_data bm = Some bs" "length bs = nbytes bm" "0 < nbits bm" "nbits bm + 7 < U32" "nbytes bm = (nbits bm + 7) div 8"
    by (rule bm_wfE [OF assms(2)]) blast
  let ?h = "next_stream d" and ?hdr = "bitmap_header (nbits bm)"
  obtain o1 d1 where o: "fopen p M_rb d = (o1, d1)" by fastforce
  have d1: "o1 = Some ?h" "streams d1 = (streams d)(?h \<mapsto> p)" "files d1 = files d" "disk_sound d1"
    using fopen_sound [OF assms(1) o] assms(4) by simp_all
  have g: "get_bytes ?h k off d1 = (Some (take k (drop off (?hdr @ bs))), d1)" for k off
    using bytes_sound(1) [OF d1(4)] d1(2,3) assms(4) bs(1) by (simp add: bitmap_file_def)
  have hdr: "length ?hdr = 4" "header_value ?hdr = nbits bm" using header_roundtrip [of "nbits bm"] bs(4) by (simp_all add: bitmap_header_def)
  have init: "xBitmapInit (nbits bm) True b = (xErrno_Ok, \<lparr>bm_data = Some (replicate (nbytes bm) 0), nbits = nbits bm, nbytes = nbytes bm, bm_owned = True\<rparr>)"
    using bs(3-5) by (simp add: xBitmapInit_def bits_to_bytes_def)
  have "xfer_bitmap_load True b 0 p d = (xErrno_Ok, bm, nbits bm, fclose ?h d1)"
    using o d1(1) g hdr init bs(1-3) assms(3) by (cases bm) (simp add: xfer_bitmap_load_def Let_def)
  then show ?thesis using d1(3,4) by simp
qed

section \<open>A transfer that failed to verify cannot be repeated\<close>

text \<open>
  C9. When the digest of a completely received file is wrong, the receiver fails but keeps the partial
  file and a saved bitmap in which every chunk is marked. The next transfer of that name and size resumes from
  them: the receiver asks for no chunk, so no later attempt can repair the file. The resume feature is
  meant for chunks that are right.
\<close>

theorem xfer_retry_asks_nothing:
  fixes v :: "'a disk_scheme"
  assumes "disk_sound v" and "recv_handle r = Some h" "streams v h = Some (recv_filepath r)" "files v (recv_filepath r) = Some c"
    and "length c < FSEEK_LIM" and "bm_wf (recv_bitmap r)" "bm_owned (recv_bitmap r)" "nbits (recv_bitmap r) = recv_total_chunks r"
    and "xBitmapFull (recv_bitmap r)" and "recv_filepath r \<noteq> recv_bitmap_path r"
    and "24 \<le> length payload" "SHA1 c \<noteq> take 20 (drop 4 payload)"
    and "x_allocs y = []" "recv_filepath y = recv_filepath r" "recv_bitmap_path y = recv_bitmap_path r"
      "recv_total_chunks y = recv_total_chunks r"
  shows "\<exists>r' v' y' v''. receiver_done xTransferPosixVfs payload r v = Some (r', v') \<and> x_state r' = xTransferState_Failed \<and>
    receiver_try_resume xTransferPosixVfs y v' = (True, y', v'') \<and> files v'' (recv_filepath y) = Some c \<and>
    (\<forall>i < recv_total_chunks y. xBitmapTest (recv_bitmap y') i)"
proof -
  let ?p = "recv_filepath r" and ?b = "recv_bitmap_path r" and ?bm = "recv_bitmap r"
  let ?v1 = "vfs_close xTransferPosixVfs h (snd (vfs_flush xTransferPosixVfs h v))"
  have v1: "disk_sound ?v1" "files ?v1 = files v"
    using assms(1) by (simp_all add: xTransferPosixVfs_def posix_close_def posix_flush_def disk_sound_def [of v])
  obtain e v2 where s: "xfer_bitmap_save ?bm (nbits ?bm) ?b ?v1 = (e, v2)" by fastforce
  have v2: "disk_sound v2" "files v2 ?p = Some c" using bitmap_save_sound [OF v1(1) s] v1(2) assms(4,10) by auto
  have saved: "files v2 ?b = Some (bitmap_file ?bm)" using bitmap_saved [OF v1(1) assms(6) s] by simp
  have flush: "receiver_flush xTransferPosixVfs r v = (r\<lparr>recv_handle := None\<rparr>, v2)"
    using assms(2,8) s by (simp add: receiver_flush_def)
  obtain v3 where sha: "xfer_compute_file_sha1 xTransferPosixVfs ?p v2 = Some (xErrno_Ok, SHA1 c, v3)" "disk_sound v3"
    "streams v3 = streams v2" "files v3 = files v2" using posix.compute_file_sha1 [OF v2 assms(5)] by blast
  have dec: "xTransferDecodeFileDone (Some payload) \<lparr>fd_total_chunks = 0, fd_sha1 = []\<rparr> =
      (xErrno_Ok, \<lparr>fd_total_chunks = get_u32 payload 0, fd_sha1 = take 20 (drop 4 payload)\<rparr>)"
    using assms(11) by (simp add: xTransferDecodeFileDone_def XFER_SHA1_SIZE_def)
  have run: "receiver_done xTransferPosixVfs payload r v = Some (xfer_report_error xErrno_Unknown (send_ack 1 (r\<lparr>recv_handle := None\<rparr>)), v3)"
    using dec flush sha(1) assms(12) by (simp add: receiver_done_def)
  obtain v4 where l: "xfer_bitmap_load True (recv_bitmap y) 0 ?b v3 = (xErrno_Ok, ?bm, nbits ?bm, v4)" "files v4 = files v3" "disk_sound v4"
    using bitmap_loaded [OF sha(2) assms(6,7)] saved sha(4) by auto
  obtain o5 v5 where o: "vfs_open xTransferPosixVfs ?p M_rpb v4 = (o5, v5)" by fastforce
  obtain h5 where h5: "o5 = Some h5" "files v5 = files v4" using posix.open_old [OF l(3) _ _ o, of c] l(2) sha(4) v2(2) by auto
  have "x_malloc y = (True, y)" using assms(13) by (cases y) (simp add: x_malloc_def)
  then have "\<exists>y'. receiver_try_resume xTransferPosixVfs y v3 = (True, y', v5) \<and> recv_bitmap y' = ?bm"
    using l(1) o h5(1) assms(8,14-16) by (simp add: receiver_try_resume_def Let_def)
  moreover have "xBitmapTest ?bm i" if "i < recv_total_chunks y" for i
    using all_members(1) [OF assms(6)] assms(8,9,16) that by (auto simp: members_def)
  ultimately show ?thesis using run h5(2) l(2) sha(4) v2(2) assms(14) by (auto simp: xfer_report_error_def xfer_set_state_def)
qed

definition ex_receiver :: xTransfer where
  "ex_receiver = (the (xTransferCreate []))\<lparr>recv_handle := Some 0, recv_filepath := [1], recv_bitmap_path := [2],
     recv_chunk_size := 4, recv_filesize := 4, recv_total_chunks := 1,
     recv_bitmap := \<lparr>bm_data = Some [1], nbits = 1, nbytes = 1, bm_owned = True\<rparr>\<rparr>"

definition ex_received :: disk where
  "ex_received = (ex_disk [[1] \<mapsto> [7]])\<lparr>streams := [0 \<mapsto> [1]], next_stream := 1\<rparr>"

lemma ex_received_sound: "disk_sound ex_received" "streams ex_received 0 = Some [1]" "files ex_received [1] = Some [7]"
  by (auto simp: ex_received_def ex_disk_def disk_sound_def)

theorem xfer_retry_asks_nothing_witness:
  "\<exists>payload r' v' y' v''. receiver_done xTransferPosixVfs payload ex_receiver ex_received = Some (r', v') \<and>
     x_state r' = xTransferState_Failed \<and> receiver_try_resume xTransferPosixVfs ex_receiver v' = (True, y', v'') \<and>
     xBitmapTest (recv_bitmap y') 0"
proof -
  define dg :: octets where "dg = (if SHA1 [7] = replicate 20 0 then replicate 20 1 else replicate 20 0)"
  have dg: "length dg = 20" "SHA1 [7] \<noteq> dg" by (auto simp: dg_def)
  have full: "xBitmapFull (recv_bitmap ex_receiver)" by code_simp
  have r: "recv_handle ex_receiver = Some 0" "recv_filepath ex_receiver = [1]" "bm_wf (recv_bitmap ex_receiver)"
    "bm_owned (recv_bitmap ex_receiver)" "nbits (recv_bitmap ex_receiver) = recv_total_chunks ex_receiver"
    "recv_filepath ex_receiver \<noteq> recv_bitmap_path ex_receiver" "x_allocs ex_receiver = []" "recv_total_chunks ex_receiver = 1"
    by (simp_all add: ex_receiver_def xTransferCreate_def bm_wf_def U32_def)
  have p: "24 \<le> length ([0, 0, 0, 1] @ dg)" "SHA1 [7] \<noteq> take 20 (drop 4 ([0, 0, 0, 1] @ dg))" "length ([7] :: octets) < FSEEK_LIM"
    using dg by (simp_all add: FSEEK_LIM_def)
  have v: "streams ex_received 0 = Some (recv_filepath ex_receiver)" "files ex_received (recv_filepath ex_receiver) = Some [7]"
    using ex_received_sound r(2) by simp_all
  obtain r' v' y' v'' where "receiver_done xTransferPosixVfs ([0, 0, 0, 1] @ dg) ex_receiver ex_received = Some (r', v')"
    "x_state r' = xTransferState_Failed" "receiver_try_resume xTransferPosixVfs ex_receiver v' = (True, y', v'')"
    "\<forall>i < recv_total_chunks ex_receiver. xBitmapTest (recv_bitmap y') i"
    using xfer_retry_asks_nothing [OF ex_received_sound(1) r(1) v p(3) r(3-5) full r(6) p(1,2) r(7) refl refl refl] by blast
  then show ?thesis using r(8) by (intro exI conjI) auto
qed

section \<open>Messages of a hostile peer\<close>

text \<open>
  C10. The handlers trust three numbers of the peer. A chunk size of zero in FILE_META stops the receiver with a
  division by zero. A FILE_RESUME of nine bytes that announces \<open>2 ^ 32 - 1\<close> bytes of bitmap passes the decoder,
  because the sum of the lengths wraps, and the sender copies from behind the end of the message. A chunk whose index is
  beyond the number of chunks is written all the same, as far behind the end of the file as the index says. Each of
  them should be refused as an invalid argument.
\<close>

theorem xfer_hostile_messages:
  fixes v :: "'a disk_scheme"
  assumes "xTransferDecodeFileMeta (Some m) no_meta = (xErrno_Ok, meta)" "fm_chunk_size meta = 0"
    and "0 < send_total_chunks s" "send_total_chunks s + 7 < U32" "x_allocs s = []"
    and "disk_sound v" "recv_handle r = Some h" "streams v h = Some p" "files v p = Some c" "d \<noteq> []" "length d < 2 ^ 32"
    and "nbits (recv_bitmap r) \<le> unat k" "length c \<le> unat k * recv_chunk_size r" "unat k * recv_chunk_size r < FSEEK_LIM"
    and "recv_bitmap_path r \<noteq> p"
  shows "receiver_on_dc_message xTransferPosixVfs ([XFER_MSG_FILE_META] @ m) r v = None \<and>
    sender_on_dc_message xTransferPosixVfs ([XFER_MSG_FILE_RESUME] @ put_u32 (word_of_nat (send_total_chunks s)) @ put_u32 0xFFFFFFFF) s w = None \<and>
    (\<exists>r' v'. receiver_on_dc_message xTransferPosixVfs ([XFER_MSG_FILE_CHUNK] @ put_u32 k @ d) r v = Some (r', v') \<and>
      x_state r' = x_state r \<and> recv_bitmap r' = recv_bitmap r \<and>
      files v' p = Some (c @ replicate (unat k * recv_chunk_size r - length c) 0 @ d))"
proof (intro conjI)
  show "receiver_on_dc_message xTransferPosixVfs ([XFER_MSG_FILE_META] @ m) r v = None"
    using assms(1,2) by (simp add: receiver_on_dc_message_def receiver_meta_def)
next
  let ?n = "send_total_chunks s"
  have n: "unat (word_of_nat ?n :: 32 word) = ?n" using assms(4) by (simp add: unat_of_nat take_bit_nat_eq_self_iff U32_def)
  have g: "get_u32 (put_u32 (word_of_nat ?n) @ put_u32 0xFFFFFFFF) 4 = 0xFFFFFFFF"
    using get_u32_skip [of "put_u32 (word_of_nat ?n)" 4 "put_u32 0xFFFFFFFF" 0] get_put_u32 [of "0xFFFFFFFF" "[]"] by simp
  have dec: "xTransferDecodeFileResume (Some (put_u32 (word_of_nat ?n) @ put_u32 0xFFFFFFFF)) no_resume =
      (xErrno_Ok, \<lparr>fr_total_chunks = word_of_nat ?n, fr_bitmap = Some [], fr_bitmap_len = 0xFFFFFFFF\<rparr>)"
    using g by (simp add: xTransferDecodeFileResume_def resume_needed_def no_resume_def Let_def)
  have "0 < (?n + 7) div 8" "(?n + 7) div 8 < U32" using assms(3,4) by (simp_all add: U32_def)
  then have "sender_load_bitmap [] 4294967295 s = None"
    using assms(3-5) by (simp add: sender_load_bitmap_def x_malloc_def xBitmapInit_def bits_to_bytes_def Let_def)
  moreover have "XFER_MSG_FILE_RESUME \<noteq> XFER_MSG_ACK" by (simp add: XFER_MSG_FILE_RESUME_def XFER_MSG_ACK_def)
  ultimately show "sender_on_dc_message xTransferPosixVfs ([XFER_MSG_FILE_RESUME] @ put_u32 (word_of_nat ?n) @ put_u32 0xFFFFFFFF) s w = None"
    using dec n by (simp add: sender_on_dc_message_def sender_resume_def)
next
  let ?off = "unat k * recv_chunk_size r"
  have dec: "xTransferDecodeChunkHeader (Some (put_u32 k @ d)) = (xErrno_Ok, k, d, word_of_nat (length d))"
    "unat (word_of_nat (length d) :: 32 word) = length d"
    using assms(11) by (simp_all add: xTransferDecodeChunkHeader_def unat_of_nat take_bit_nat_eq_self_iff)
  obtain e n v1 where w: "vfs_pwrite xTransferPosixVfs h d ?off v = (e, n, v1)" by (metis prod_cases3)
  note p = posix.pwrite [OF assms(6,8,9,14) w]
  have test: "\<not> xBitmapTest (recv_bitmap r) (unat k)" "xBitmapSet (unat k) (recv_bitmap r) = recv_bitmap r"
    using assms(12) by (simp_all add: xBitmapTest_def xBitmapSet_def)
  obtain r' v' where a: "receiver_accept_chunk (unat k) (length d) r v1 = (r', v')" by fastforce
  have "x_state r' = x_state r \<and> recv_bitmap r' = recv_bitmap r"
    using a test(2) by (auto simp: receiver_accept_chunk_def Let_def xfer_report_progress_def)
  moreover have "files v' p = files v1 p"
    using a p bitmap_save_sound [of v1 "recv_bitmap r" "recv_total_chunks r" "recv_bitmap_path r"] assms(15) test(2)
    by (auto simp: receiver_accept_chunk_def Let_def split: if_splits) (metis prod.collapse)
  moreover have "write_at ?off d c = c @ replicate (?off - length c) 0 @ d"
    using assms(10,13) by (simp add: write_at_def)
  moreover have "receiver_on_dc_message xTransferPosixVfs ([XFER_MSG_FILE_CHUNK] @ put_u32 k @ d) r v = Some (r', v')"
    using dec w p test(1) a assms(7)
    by (simp add: receiver_on_dc_message_def receiver_chunk_def XFER_MSG_FILE_CHUNK_def XFER_MSG_FILE_META_def)
  ultimately show "\<exists>r' v'. receiver_on_dc_message xTransferPosixVfs ([XFER_MSG_FILE_CHUNK] @ put_u32 k @ d) r v = Some (r', v') \<and>
      x_state r' = x_state r \<and> recv_bitmap r' = recv_bitmap r \<and> files v' p = Some (c @ replicate (?off - length c) 0 @ d)"
    using p by auto
qed

definition ex_meta :: octets where
  "ex_meta = [0, 0] @ replicate 32 0"

theorem xfer_hostile_messages_witness:
  "receiver_on_dc_message xTransferPosixVfs (XFER_MSG_FILE_META # ex_meta) ex_receiver ex_received = None"
proof -
  obtain meta where m: "xTransferDecodeFileMeta (Some ex_meta) no_meta = (xErrno_Ok, meta)" "fm_chunk_size meta = 0"
    by (simp add: xTransferDecodeFileMeta_def ex_meta_def no_meta_def XFER_SHA1_SIZE_def get_u16_def get_u32_def get_u64_def Let_def eval_nat_numeral)
  let ?s = "(the (xTransferCreate []))\<lparr>send_total_chunks := 9\<rparr>"
  have s: "0 < send_total_chunks ?s" "send_total_chunks ?s + 7 < U32" "x_allocs ?s = []"
    by (simp_all add: xTransferCreate_def U32_def)
  have r: "recv_handle ex_receiver = Some 0" "nbits (recv_bitmap ex_receiver) \<le> unat (3 :: 32 word)"
    "length ([7] :: octets) \<le> unat (3 :: 32 word) * recv_chunk_size ex_receiver"
    "unat (3 :: 32 word) * recv_chunk_size ex_receiver < FSEEK_LIM" "recv_bitmap_path ex_receiver \<noteq> [1]"
    by (simp_all add: ex_receiver_def xTransferCreate_def FSEEK_LIM_def)
  have d: "[5] \<noteq> ([] :: octets)" "length ([5] :: octets) < 2 ^ 32" by simp_all
  from xfer_hostile_messages [OF m s ex_received_sound(1) r(1) ex_received_sound(2,3) d r(2-5), of ex_received]
  show ?thesis by simp
qed

end
