(* ===== verification/Spec2Isabelle.thy ===== *)
theory Spec2Isabelle
  imports Examples Sidecar Resume Buf Ring Timer EventTimer Sse Codec Utf8 Maps Hmac Crc32 WsProps StunTxn DataChannel XferProps
begin

text \<open>
  A verification development for the C library \<^verbatim>\<open>libx\<close> (\<^verbatim>\<open>src/libx/x\<close>), the library under the
  command line tool and the C++ layer of this repository.

  \<^bold>\<open>The program and its parts.\<close> An agent (\<^verbatim>\<open>agent/agent.c\<close>) chooses a provider and creates
  sessions. A session (\<^verbatim>\<open>agent/session.c\<close>) keeps a rolling conversation, estimates its size
  (\<^verbatim>\<open>agent/budget.c\<close>), trims or compacts it when it no longer fits, hands what falls out to a memory
  store, and runs one query per input. A query (\<^verbatim>\<open>agent/query.c\<close>) is the loop between a provider and
  the tools: it submits a round, collects text and tool calls, invokes or confirms tools, appends
  their results and submits again. The conversation lives in growable arrays (\<^verbatim>\<open>base/array.c\<close>). Below
  them are the containers, codecs and timers of \<^verbatim>\<open>base/\<close> and \<^verbatim>\<open>buf/\<close> and the event-stream parser of
  \<^verbatim>\<open>http/\<close> through which a provider's answer arrives. Apart from the agent, a file transfer (\<^verbatim>\<open>fer/\<close>) sends a
  file in chunks over a data channel of \<^verbatim>\<open>p2p/\<close>, which finds its path between the peers by STUN messages.

  \<^bold>\<open>Theories and sources.\<close>
  \<^item> Prelude: error codes (\<^verbatim>\<open>base/error.h\<close>), the allocation oracle, \<open>size_t\<close> arithmetic, decimals.
  \<^item> XArray: \<^verbatim>\<open>base/array.c\<close>; the locale \<open>growable\<close> is what its clients rely on.
  \<^item> Message: the entries and turn buffers of \<^verbatim>\<open>query.c\<close> and \<^verbatim>\<open>turn_private.h\<close>, and both passes of the
    message builder; View: its lemmas.
  \<^item> Budget: \<^verbatim>\<open>agent/budget.c\<close>.
  \<^item> Query: \<^verbatim>\<open>agent/query.c\<close>, one definition per function; the provider, the tools and the host are the
    record \<open>qenv\<close>. QueryLoop: what an operation may change, the end of a run, the turn limit;
    QueryBalance: every submitted round answers its tool calls; QueryFacts: usage, confirmations.
  \<^item> Model: \<^verbatim>\<open>agent/model.c\<close>, \<^verbatim>\<open>agent/tool.c\<close>; the locale \<open>id_table\<close>.
  \<^item> Session: \<^verbatim>\<open>agent/session.c\<close>; BudgetGate: trimming and the range of a compaction; SessionInv: the
    invariant of a session along all its moves, and what each operation does to the conversation.
  \<^item> Sidecar: the sidecar part of \<^verbatim>\<open>session.c\<close>; Agent: \<^verbatim>\<open>agent/agent.c\<close>; Resume: the life of a session that is
    never compacted.
  \<^item> Examples: concrete worlds the witnesses evaluate.
  \<^item> Fifo: the locale \<open>fifo\<close>, the contract of a byte queue; Buf (\<^verbatim>\<open>buf/buf.c\<close>) and Ring (\<^verbatim>\<open>buf/ring.c\<close>) are
    interpretations of it.
  \<^item> Heap: \<^verbatim>\<open>base/heap.c\<close>, verified once in the locale \<open>heap_order\<close> over the comparison; Timer
    (\<^verbatim>\<open>base/timer.c\<close>) and EventTimer (\<^verbatim>\<open>base/event_timer.c\<close>, timer part of \<^verbatim>\<open>base/event_private.c\<close>) interpret it
    for their deadlines.
  \<^item> Sse: the parser of \<^verbatim>\<open>http/sse.c\<close>, on top of Buf.
  \<^item> Codec: \<^verbatim>\<open>base/hex.c\<close> and \<^verbatim>\<open>base/base64.c\<close>, two interpretations of the locale \<open>codec\<close>.
  \<^item> Utf8: \<^verbatim>\<open>base/utf8.c\<close>.
  \<^item> MapSpec: key functions of \<^verbatim>\<open>base/map.c\<close>, associations, and the locale \<open>map_backend\<close>, the contract of a
    backend; MapHash (\<^verbatim>\<open>base/map_hash.c\<close>), MapFlat (\<^verbatim>\<open>base/map_flat.c\<close>) and MapTree (\<^verbatim>\<open>base/map_tree.c\<close>, a
    red-black tree as a zipper) are instances for every pair of key functions of the locale \<open>keyed\<close>; Maps:
    the dispatch of \<^verbatim>\<open>base/map.c\<close>, again an instance.
  \<^item> Digest: the block buffering and padding the three hash files share, with the locale \<open>block_hash\<close>; Hashes:
    \<^verbatim>\<open>crypto/md5.c\<close>, \<^verbatim>\<open>crypto/sha1_builtin.c\<close>, \<^verbatim>\<open>crypto/sha256_builtin.c\<close>, its three interpretations; Hmac:
    \<^verbatim>\<open>crypto/hmac.c\<close> over any vtable, with the locale \<open>hash_contract\<close> and the built-in vtables as
    interpretations; Crc32: \<^verbatim>\<open>crypto/crc32.c\<close>.
  \<^item> IoBuf: the block-chain buffer of \<^verbatim>\<open>buf/io.c\<close> over a store of shared blocks; IoStore: the invariant of
    the store; IoQueue: programs over several buffers.
  \<^item> WsFrame: \<^verbatim>\<open>http/ws_frame.c\<close> over the locale \<open>byte_queue\<close>, with the I/O buffer as interpretation;
    WsProps: its properties.
  \<^item> Stun: \<^verbatim>\<open>p2p/stun_msg.c\<close> and \<^verbatim>\<open>p2p/stun_attr.c\<close>, on top of Hmac and Crc32; StunTxn: \<^verbatim>\<open>p2p/stun_txn.c\<close>.
  \<^item> DataChannel: \<^verbatim>\<open>p2p/datachannel.c\<close>, the channels a file transfer runs over.
  \<^item> Bitmap: \<^verbatim>\<open>base/bitmap.c\<close>. XferProtocol: \<^verbatim>\<open>fer/xfer_protocol.c\<close>. XferVfs: the storage interface
    \<^verbatim>\<open>fer/xfer_vfs.h\<close> as the locale \<open>file_store\<close>, with \<^verbatim>\<open>fer/xfer_vfs_posix.c\<close> as interpretation, saved
    bitmaps and file hashes. Xfer: \<^verbatim>\<open>fer/xfer.c\<close>, \<^verbatim>\<open>fer/xfer_sender.c\<close>, \<^verbatim>\<open>fer/xfer_receiver.c\<close>. XferRun: a sender and a
    receiver joined by an ordered channel as a step relation, with the phases of a run in the locale
    \<open>xfer_pair\<close>; XferProps: its properties over the default storage.

  \<^bold>\<open>How code becomes definitions.\<close> A C structure is a record whose fields keep their names (with a
  prefix where records would clash), an enumeration a datatype. A function is a definition of the
  same name from the old state to the result and the new state; its early returns are the branches
  of its conditionals. A pointer that may be NULL is an option. Allocation is an oracle: a list that
  says which of the allocations to come fail, drawn from in the order the code allocates, so that a
  theorem without a hypothesis on it covers every pattern of failure. A session and its query draw
  from one oracle. Callbacks of the host, answers of providers, clocks and descriptors are parameters
  of the definitions that use them; what was called is recorded in a trace. Loops are structural
  recursions, or functions with a termination proof by a measure; the one loop that a caller's storage can
  keep going for ever is a partial function into an option. No fuel is used.

  \<^bold>\<open>Assumptions.\<close> Sizes are natural numbers; where a caller's argument can leave the range of
  \<^verbatim>\<open>size_t\<close> the wrap-around is written out, and a hypothesis below \<open>SIZE_LIM\<close> says where it cannot
  happen. Handles of the timers in Timer are never reused, which makes a use after free visible;
  EventTimer reuses structures through the free list as the code does. A callback that runs while a
  query or a session is on the stack is a separate input after it, except where the code provides for
  a synchronous answer (\<open>env_confirm\<close>). What lies in memory behind the last entry of a history
  (\<open>env_beyond\<close>) and in a dead stack slot (Agent) is arbitrary. Each critical section of Timer and EventTimer is one
  step; the steps of different threads interleave freely.

  \<^bold>\<open>What is shown.\<close> C1, C3, C4, C7, C8 and C11: runs of the tool loop (one end, the turn limit, answered
  calls, the message builder, confirmations). C2, C5, C9, C10 and C32: file transfers (delivery along every
  interleaving, verification, and where they fail); C33: bitmaps; C34: data channels. C13, C14, C16, C17 and C23:
  sessions (input, compaction, persistence, resumption); the defects of compaction, resumption and
  the sidecar are lemmas of this file. C6, C12, C25, C28 and C36: STUN messages and transactions. C18, C19
  and C24: HMAC and checksum. C20, C21 and C31: the byte buffers refine queues, and where the shared blocks
  of \<^verbatim>\<open>buf/io.c\<close> do not. C26: WebSocket frames. C27, C29 and C30: the heap and the timers. C35, C37 and C38:
  the stream parser and the codecs. C15, C22 and C39: the maps. Where a property describes a
  defect, its text says what the code promises instead.

  \<^bold>\<open>Not modelled.\<close> Everything that is chiefly system calls or calls into libraries outside this
  repository: sockets, TLS, DNS, processes, terminals, threads and event back ends, the HTTP server
  and client (curl, nghttp2, llhttp), JSON (cJSON), the JavaScript engine, and the ICE, DTLS and SCTP
  layers of \<^verbatim>\<open>p2p/\<close>, of which the data channels see the outcome of a send. The C++ wrapper \<^verbatim>\<open>libx++\<close> and the command line tool are other languages. Not yet
  modelled, though pure: base58,
  URLs, the line editor's text buffers.
\<close>

section \<open>Runs of the provider and tool loop\<close>

text \<open>
  C1. A query reports the end of its run at most once, whatever the provider, the tools and the
  host do, in whatever order, and whichever allocations fail.
\<close>

theorem query_done_once:
  assumes "xAgentQueryCreate m conf = (Create_ok q, m')"
    and "xAgentQueryRun env msgs q = (rc, q1)"
  shows "length (filter is_done (trace (query_run env q1 ins))) \<le> 1"
proof -
  have "n_done (trace q1) + of_bool (running q1) \<le> (1::nat)"
    by (rule run_done_budget [OF assms])
  with extends_run [of q1 env ins] show ?thesis
    by (auto simp: extends_def)
qed

theorem query_done_once_witness:
  "length (filter is_done (trace (query_run ex_env (ex_started 4) ex_inputs))) \<le> 1 \<and>
   length (filter is_done (trace (query_run ex_env (ex_started 4) ex_inputs))) = 1"
proof
  show "length (filter is_done (trace (query_run ex_env (ex_started 4) ex_inputs))) \<le> 1"
    by (rule query_done_once [OF ex_create ex_start])
  show "length (filter is_done (trace (query_run ex_env (ex_started 4) ex_inputs))) = 1"
    by code_simp
qed

text \<open>
  C3. A run submits at most as many rounds as its turn limit (16 when none is configured), as
  long as the host does not answer a confirmation from inside the callback; allocations may
  fail and inputs may come in any order.
\<close>

theorem query_turn_limit:
  assumes "xAgentQueryCreate m conf = (Create_ok q, m')"
    and "xAgentQueryRun env msgs q = (xErrno_Ok, q1)" and "\<And>tr. env_confirm env tr = None"
  shows "int (length (filter is_submit (trace (query_run env q1 ins))))
      \<le> (if 0 < qc_max_turns conf then qc_max_turns conf else 16)"
proof -
  note start = run_turn_ok [OF assms(1,2)]
  have "turn (query_run env q1 ins) = int (n_submit (trace (query_run env q1 ins)))"
    using extends_run [of q1 env ins] start by (auto simp: extends_def)
  moreover have "turn_limit (query_run env q1 ins) = (if 0 < qc_max_turns conf then qc_max_turns conf else 16)"
    using extends_run [of q1 env ins] start(3)
    by (simp add: turn_limit_def extends_def same_conf_def XAGENT_SESSION_DEFAULT_MAX_TURNS_def)
  ultimately show ?thesis
    using turn_ok_run [OF start(1) assms(3), of ins] by (simp add: turn_ok_def)
qed

theorem query_turn_limit_witness:
  "int (length (filter is_submit (trace (query_run ex_env (ex_started 2) (concat (replicate 5
      [ex_call ''a'' ''run'' ''now'', ex_round])))))) \<le> 2 \<and>
   length (filter is_submit (trace (query_run ex_env (ex_started 2) (concat (replicate 5
      [ex_call ''a'' ''run'' ''now'', ex_round]))))) = 2"
proof
  show "int (length (filter is_submit (trace (query_run ex_env (ex_started 2) (concat (replicate 5
      [ex_call ''a'' ''run'' ''now'', ex_round])))))) \<le> 2"
    using query_turn_limit [OF ex_create ex_start_ok [of 2] ex_no_confirm, of "concat (replicate 5
      [ex_call ''a'' ''run'' ''now'', ex_round])"] by (simp add: ex_conf_def)
  show "length (filter is_submit (trace (query_run ex_env (ex_started 2) (concat (replicate 5
      [ex_call ''a'' ''run'' ''now'', ex_round]))))) = 2"
    by code_simp
qed

text \<open>
  C4. Every round a run submits carries an answer to each tool call in it and no answer without
  a call (as multisets of ids), provided the conversation the run starts from does: no
  allocation fails, confirmations are answered later, and the provider reports a round done only
  while no tool call is outstanding. Cancellation, rejections, unknown tools, failing handlers
  and asynchronous completions in any order are covered.
\<close>

theorem query_submits_answered:
  assumes "xAgentQueryCreate [] conf = (Create_ok q, m')"
    and "xAgentQueryRun env msgs q = (xErrno_Ok, q1)" and "all_answered msgs"
    and "\<And>tr. env_confirm env tr = None" and "query_reaches env q1 q2"
  shows "list_all submit_ok (trace q2)"
  by (rule submits_answered [OF sound_reaches [OF assms(5) sound_run [OF assms(1-3)] assms(4)]])

theorem query_submits_answered_witness:
  "list_all submit_ok (trace (on_provider_done ex_env xAgentProviderStop_ToolUse xErrno_Ok None ''''
      (on_provider_tool_call (xAgentContent_ToolUse (Some ''a'') (Some ''run'') None) (ex_started 4))))"
proof (rule query_submits_answered [OF ex_create ex_start_ok _ ex_no_confirm])
  show "all_answered [user_says ''hi'']"
    by (simp add: all_answered_def call_ids_def answer_ids_def user_says_def)
  have "elems (async_pending_arr (on_provider_tool_call (xAgentContent_ToolUse (Some ''a'') (Some ''run'') None)
      (ex_started 4))) = []"
    by code_simp
  then show "query_reaches ex_env (ex_started 4)
      (on_provider_done ex_env xAgentProviderStop_ToolUse xErrno_Ok None ''''
        (on_provider_tool_call (xAgentContent_ToolUse (Some ''a'') (Some ''run'') None) (ex_started 4)))"
    by (intro reach_step [OF reach_step [OF reach_refl move_tool_call] move_done])
qed

text \<open>
  The usage of a run after any reports: the largest known prompt count, and the sums of the
  known completion and total counts; a field no round reported stays unknown.
\<close>

theorem query_usage:
  assumes "usage q = unknown_usage"
  shows "usage (fold (\<lambda>u q. usage_accumulate (Some u) q) us q) =
    \<lparr>prompt_tokens = max_known (map prompt_tokens us),
     completion_tokens = sum_known (map completion_tokens us),
     total_tokens = sum_known (map total_tokens us)\<rparr>"
  by (simp add: usage_fold assms unknown_usage_def fold_max_all fold_add_all)

theorem query_usage_witness:
  "usage (fold (\<lambda>u q. usage_accumulate (Some u) q)
     [\<lparr>prompt_tokens = 7, completion_tokens = -1, total_tokens = -1\<rparr>,
      \<lparr>prompt_tokens = 9, completion_tokens = 4, total_tokens = -1\<rparr>] (ex_query 1)) =
   \<lparr>prompt_tokens = 9, completion_tokens = 4, total_tokens = -1\<rparr>"
  using query_usage [of "ex_query 1" "[\<lparr>prompt_tokens = 7, completion_tokens = -1, total_tokens = -1\<rparr>,
      \<lparr>prompt_tokens = 9, completion_tokens = 4, total_tokens = -1\<rparr>]"]
  by (simp add: ex_query_def fresh_query_def max_known_def sum_known_def known_def)

text \<open>
  C7. The two passes of the message builders agree on the sizes, every entry becomes exactly
  one block in order, and no two neighbouring messages are the assistant's.
\<close>

theorem view_two_passes:
  "view_count es = (length (fold_entries es), length es) \<and>
   concat (map contents (fold_entries es)) = map entry_block es \<and>
   no_adjacent_assistant (fold_entries es)"
  using view_count_fold [of es] by (simp add: fold_entries_blocks fold_entries_no_adjacent)

text \<open>
  C8. The first answer to a confirmation frees its resolver, so a second answer through the same
  handle reads freed memory, although the interface promises a silent no-op.
\<close>

theorem resolve_twice:
  assumes "resolvers q h = Some r" and "\<not> r_done r"
  shows "xAgentToolConfirmResolve env h d' reason' (xAgentToolConfirmResolve env h d reason q) =
    emit (Ev_use_after_free h) (xAgentToolConfirmResolve env h d reason q)"
  using resolve_frees [OF assms] by (simp add: xAgentToolConfirmResolve_def [of env h d' reason'])

theorem resolve_twice_witness:
  "xAgentToolConfirmResolve ex_env 0 xAgentToolDecision_Reject None
     (xAgentToolConfirmResolve ex_env 0 xAgentToolDecision_Allow None ex_waiting) =
   emit (Ev_use_after_free 0) (xAgentToolConfirmResolve ex_env 0 xAgentToolDecision_Allow None ex_waiting)"
  by (rule resolve_twice [OF ex_waiting_resolver(1,2)])

text \<open>
  C11. A run that only waits for the host and is then cancelled never ends: whatever sequence of
  inputs follows - answers to its confirmations, repeated or not, through any of its handles,
  further cancels, late chunks and tool calls of the provider, completions of tools that are not
  outstanding - it still runs, its outstanding calls are the ones it had, and no further end has
  been reported. (A waiting run has no round in flight, so the provider has no end of a round
  left to report, and none of its outstanding tools has been started.)
\<close>

theorem cancel_waiting_stuck:
  assumes "waiting q" and "late_inputs env (call_of q) (outstanding_id q) (xAgentQueryCancel q) q'"
  shows "running q' \<and> async_pending_arr q' = async_pending_arr q \<and>
    length (filter is_done (trace q')) = length (filter is_done (trace q))"
  using late_keeps_waiting [OF assms(2) cancelled_waits [OF assms(1)]] by (simp add: waits_cancelled_def)

theorem cancel_waiting_stuck_witness:
  "running (xAgentQueryCancel (xAgentToolConfirmResolve ex_env 0 xAgentToolDecision_Allow None
    (xAgentToolConfirmResolve ex_env 0 xAgentToolDecision_Reject None (xAgentQueryCancel ex_waiting))))"
proof -
  have "call_of ex_waiting 0" unfolding call_of_def using ex_waiting_waiting(2,3) by blast
  then have "late_inputs ex_env (call_of ex_waiting) (outstanding_id ex_waiting) (xAgentQueryCancel ex_waiting)
      (xAgentQueryCancel (xAgentToolConfirmResolve ex_env 0 xAgentToolDecision_Allow None
        (xAgentToolConfirmResolve ex_env 0 xAgentToolDecision_Reject None (xAgentQueryCancel ex_waiting))))"
    by (intro late_inputs.intros)
  from cancel_waiting_stuck [OF ex_waiting_waiting(1) this] show ?thesis by blast
qed

text \<open>
  A host that answers from inside the callback makes one batch of calls submit two follow-up
  rounds, and the calls of the batch behind the answered one are neither run nor answered.
\<close>

theorem sync_confirm_double_submit:
  "length (filter is_submit (trace (query_run ex_env_sync (ex_started 4)
     [ex_call ''a'' ''rm'' ''now'', ex_call ''b'' ''run'' ''now'', ex_round]))) = 3 \<and>
   list_all (\<lambda>ev. case ev of Ev_invoke n i g \<Rightarrow> i = ''a'' | _ \<Rightarrow> True)
     (trace (query_run ex_env_sync (ex_started 4)
       [ex_call ''a'' ''rm'' ''now'', ex_call ''b'' ''run'' ''now'', ex_round])) \<and>
   elems (async_pending_arr (query_run ex_env_sync (ex_started 4)
     [ex_call ''a'' ''rm'' ''now'', ex_call ''b'' ''run'' ''now'', ex_round])) = []"
  by code_simp

section \<open>The session\<close>



text \<open>
  A refused input leaves the conversation as it was, up to tool results trimmed by the gate
  (and exactly as it was when the budget is disabled); the session is idle again, or a
  compaction of the range the configuration asks for is in flight.
\<close>

theorem input_refused:
  assumes "s_query s = None" and "\<not> compacting s"
    and "xAgentSessionInput env ag msg s = (rc, s')" and "rc \<noteq> xErrno_Ok"
  shows "trim_related (history s) (history s') \<and>
    (policy (budget s) = xAgentBudgetPolicy_Disabled \<longrightarrow> history s' = history s \<and> idle s') \<and>
    (idle s' \<or> (rc = xErrno_Busy \<and> compacting s' \<and> s_query s' \<noteq> None \<and>
       compact_range (budget s) (history s') = Some (compact_start_idx s', compact_end_idx s')))"
proof -
  have idle: "idle s" using assms(1,2) by (simp add: idle_def)
  note c = input_cases [OF assms(3) idle]
  have "history s' = history s \<and> idle s'" if "policy (budget s) = xAgentBudgetPolicy_Disabled"
  proof -
    have "session_enforce_budget env ag msg s = (xErrno_Ok, s)"
      using that by (simp add: session_enforce_budget_def)
    then have "session_start env ag msg (memory_hits env ag msg s) s = (rc, s')"
      using assms(3) idle by (simp add: xAgentSessionInput_def idle_def)
    from session_start_cases(2) [OF this idle assms(4)] show ?thesis .
  qed
  with c(3,4) assms(4) show ?thesis by blast
qed

theorem input_refused_witness:
  "history (snd (xAgentSessionInput ex_senv_down ex_agent (user_says ''x'') (ex_session ex_disabled))) = [] \<and>
   idle (snd (xAgentSessionInput ex_senv_down ex_agent (user_says ''x'') (ex_session ex_disabled)))"
proof -
  have s: "s_query (ex_session ex_disabled) = None" "\<not> compacting (ex_session ex_disabled)"
    "history (ex_session ex_disabled) = []" "policy (budget (ex_session ex_disabled)) = xAgentBudgetPolicy_Disabled"
    using ex_session_state by (simp_all add: ex_disabled_def ex_budget_def)
  have r: "fst (xAgentSessionInput ex_senv_down ex_agent (user_says ''x'') (ex_session ex_disabled)) = xErrno_SysError"
    by code_simp
  have "xAgentSessionInput ex_senv_down ex_agent (user_says ''x'') (ex_session ex_disabled) =
    (xErrno_SysError, snd (xAgentSessionInput ex_senv_down ex_agent (user_says ''x'') (ex_session ex_disabled)))"
    by (rule prod_eqI) (simp_all add: r)
  from input_refused [OF s(1,2) this] s(3,4) show ?thesis by simp
qed

text \<open>
  C14. In every reachable state of a session that is compacting, a query that produced a summary
  replaces exactly the user turns between the preserved head and the preserved tail by that one
  entry: the head and tail keep the configured number of user turns, nothing else moves, and the
  insertion cannot fail.
\<close>

theorem compaction_splices:
  assumes "xAgentSessionCreate m ag conf = (Some s0, m')" and "session_reaches env ag s0 s"
    and "compacting s" and "conf_ok (budget s)" and "length (history s) < SIZE_LIM"
    and "summary_text (s_mem s) (elems (produced_arr q)) = (Some (t, n), m'')"
  shows "\<exists>st en now. st < en \<and> en \<le> length (history s) \<and>
    history (compact_finish env q s) = take st (history s) @ [summary_entry now t n] @ drop en (history s) \<and>
    is_user (history s ! st) \<and>
    user_count (take st (history s)) = context_preserve_head_turns (budget s) \<and>
    user_count (drop en (history s)) = context_preserve_tail_turns (budget s) \<and>
    idle (compact_finish env q s) \<and> known_prompt_tokens (compact_finish env q s) = -1"
proof -
  have inv: "session_inv s" using inv_reaches [OF assms(2)] inv_create [OF assms(1)] by blast
  with assms(3) have range: "compact_range (budget s) (history s) = Some (compact_start_idx s, compact_end_idx s)"
    by (simp add: session_inv_def)
  have room: "length (history s) \<le> cap (history_arr s)"
    using inv cap_ok_less [OF _ assms(5)] by (simp add: session_inv_def)
  note fin = compact_finish_some [OF assms(6) range assms(5) room, of env]
  note r = compact_range_Some [OF range assms(4,5)]
  from fin(1) fin(2) r compact_finish_idle show ?thesis by blast
qed

theorem compaction_splices_witness:
  "\<exists>st en now. st < en \<and> en \<le> length (history ex_compacting) \<and>
    history (compact_finish ex_senv ex_summary ex_compacting) =
      take st (history ex_compacting) @ [summary_entry now ''[summary] sum'' 13] @ drop en (history ex_compacting) \<and>
    is_user (history ex_compacting ! st) \<and>
    user_count (take st (history ex_compacting)) = context_preserve_head_turns (budget ex_compacting) \<and>
    user_count (drop en (history ex_compacting)) = context_preserve_tail_turns (budget ex_compacting) \<and>
    idle (compact_finish ex_senv ex_summary ex_compacting) \<and>
    known_prompt_tokens (compact_finish ex_senv ex_summary ex_compacting) = -1"
  by (rule compaction_splices [OF ex_created ex_compacting_reached ex_compacting_state ex_summary_text])

text \<open>
  A compaction that yields no summary (an empty answer, a provider error, no memory for the
  text) leaves the history, its bookkeeping and the persisted prefix untouched and the session
  idle.
\<close>

theorem compaction_without_summary:
  assumes "summary_text (s_mem s) (elems (produced_arr q)) = (None, m)"
  shows "history_arr (compact_finish env q s) = history_arr s \<and>
    known_prompt_tokens (compact_finish env q s) = known_prompt_tokens s \<and>
    delta_entries (compact_finish env q s) = delta_entries s \<and>
    persisted_prefix (compact_finish env q s) = persisted_prefix s \<and> idle (compact_finish env q s)"
  using compact_finish_none [OF assms, of env] compact_finish_idle by simp

theorem compaction_without_summary_witness:
  "history_arr (compact_finish ex_senv (ex_query 1) ex_compacting) = history_arr ex_compacting"
proof -
  have "summary_text (s_mem ex_compacting) (elems (produced_arr (ex_query 1))) = (None, s_mem ex_compacting)"
    by (simp add: ex_query_def fresh_query_def summary_text_def produced_total_def)
  from compaction_without_summary [OF this] show ?thesis by blast
qed

text \<open>
  C16. A compaction keeps the log answered: if before every user turn and at the end each tool
  call has its result, the same holds after the summary replaced a range that begins and ends at
  user turns. No call is separated from its result.
\<close>

theorem compaction_keeps_answered:
  assumes "answered_log es" and "compact_range b es = Some (st, en)" and "conf_ok b"
    and "length es < SIZE_LIM"
  shows "answered_log (take st es @ [summary_entry now t n] @ drop en es)"
proof -
  note r = compact_range_Some [OF assms(2-4)]
  have "boundary es st" using r(1-3) by (simp add: boundary_def)
  moreover have "boundary es en" using r(2,6) by (auto simp: boundary_def)
  ultimately show ?thesis using assms(1) r(1) by (intro answered_splice)
qed

theorem compaction_keeps_answered_witness:
  "answered_log (take 2 (history ex_three) @ [summary_entry 0 ''s'' 1] @ drop 4 (history ex_three))"
proof (rule compaction_keeps_answered)
  show "compact_range ex_summarize (history ex_three) = Some (2, 4)" by code_simp
  show "conf_ok ex_summarize" and "length (history ex_three) < SIZE_LIM"
    by (simp add: conf_ok_def ex_summarize_def ex_budget_def SIZE_LIM_def, code_simp)
  have "list_all (\<lambda>e. \<not> is_use e \<and> \<not> is_result e) (history ex_three)" by code_simp
  then have "use_ids (take i (history ex_three)) = {#}" "result_ids (take i (history ex_three)) = {#}" for i
    by (auto simp: use_ids_def result_ids_def list_all_iff filter_empty_conv dest: in_set_takeD)
  then show "answered_log (history ex_three)" by (simp add: answered_log_def)
qed

text \<open>
  Trimming only rewrites outputs of tool results: every entry keeps its role, kind, text and
  ids, so the same calls stay answered; with memory available a second pass trims nothing. The
  marker fits its buffer for every length.
\<close>

theorem trim_outputs_only:
  assumes "s_mem s = []" and "session_trim_consumed_tool_results s = (n, freed, s')"
  shows "trim_related (history s) (history s') \<and>
    use_ids (history s') = use_ids (history s) \<and> result_ids (history s') = result_ids (history s) \<and>
    session_trim_consumed_tool_results s' = (0, 0, s') \<and>
    (\<forall>k < SIZE_LIM. length (trim_marker k) < 96)"
  using trim_session(1) [OF assms(2)] trim_related_ids [OF trim_session(1) [OF assms(2)]]
    trim_session_idempotent(2) [OF assms] marker_length by blast

theorem trim_outputs_only_witness:
  "session_trim_consumed_tool_results (snd (snd (session_trim_consumed_tool_results ex_tool_session)))
     = (0, 0, snd (snd (session_trim_consumed_tool_results ex_tool_session))) \<and>
   fst (session_trim_consumed_tool_results ex_tool_session) = 1"
proof
  have "s_mem ex_tool_session = []" by code_simp
  moreover have "session_trim_consumed_tool_results ex_tool_session =
    (fst (session_trim_consumed_tool_results ex_tool_session),
     fst (snd (session_trim_consumed_tool_results ex_tool_session)),
     snd (snd (session_trim_consumed_tool_results ex_tool_session)))" by simp
  ultimately show "session_trim_consumed_tool_results (snd (snd (session_trim_consumed_tool_results ex_tool_session)))
     = (0, 0, snd (snd (session_trim_consumed_tool_results ex_tool_session)))"
    using trim_outputs_only by blast
  show "fst (session_trim_consumed_tool_results ex_tool_session) = 1" by code_simp
qed

section \<open>Persistence\<close>

text \<open>
  C17. When the persisted prefix ends inside the compacted range, the splice stores exactly the
  entries of the range that are not stored yet, then the summary, and the new prefix leaves
  exactly the entries behind the range to be stored: nothing is lost and nothing stored twice.
\<close>

theorem splice_persists_exactly:
  assumes "compact_start_idx s < compact_end_idx s" and "compact_end_idx s \<le> length (history s)"
    and "length (history s) < SIZE_LIM" and "length (history s) \<le> cap (history_arr s)"
    and "memory s" and "session_id_copy s \<noteq> None"
    and "compact_start_idx s \<le> persisted_prefix s" and "persisted_prefix s \<le> compact_end_idx s"
    and "compact_splice env t n s = (ok, s')"
  shows "\<exists>now. stored s' = stored s
      @ drop (persisted_prefix s) (take (compact_end_idx s) (history s)) @ [summary_entry now t n] \<and>
    drop (persisted_prefix s') (history s') = drop (compact_end_idx s) (history s)"
proof -
  have "take (compact_end_idx s - (if compact_start_idx s < persisted_prefix s
        then min (persisted_prefix s) (compact_end_idx s) else compact_start_idx s))
      (drop (if compact_start_idx s < persisted_prefix s
        then min (persisted_prefix s) (compact_end_idx s) else compact_start_idx s) (history s))
    = drop (persisted_prefix s) (take (compact_end_idx s) (history s))"
    using assms(7,8) by (auto simp: drop_take min_def)
  with compact_splice_stored [OF refl refl assms(1-6,9)] compact_splice_prefix(1) [OF refl refl assms(1-4,9,8)]
  show ?thesis by (auto simp: Let_def)
qed

theorem splice_persists_exactly_witness:
  "\<exists>now. stored (snd (compact_splice ex_senv ''s'' 1 (ex_primed 3))) = stored (ex_primed 3)
      @ drop 3 (take 4 (history (ex_primed 3))) @ [summary_entry now ''s'' 1] \<and>
    drop (persisted_prefix (snd (compact_splice ex_senv ''s'' 1 (ex_primed 3))))
      (history (snd (compact_splice ex_senv ''s'' 1 (ex_primed 3)))) = drop 4 (history (ex_primed 3))"
  using splice_persists_exactly [of "ex_primed 3" ex_senv "''s''" 1 "fst (compact_splice ex_senv ''s'' 1 (ex_primed 3))"
      "snd (compact_splice ex_senv ''s'' 1 (ex_primed 3))"] ex_primed_state [of 3]
  by (simp add: ex_primed_fields six_less)

text \<open>
  When the prefix ends before the range (in particular when nothing is persisted and a head
  is preserved), the head entries behind the prefix are not stored, yet the new prefix covers
  them: they never reach the store.
\<close>

theorem splice_loses_head:
  assumes "compact_start_idx s < compact_end_idx s" and "compact_end_idx s \<le> length (history s)"
    and "length (history s) < SIZE_LIM" and "length (history s) \<le> cap (history_arr s)"
    and "memory s" and "session_id_copy s \<noteq> None" and "persisted_prefix s < compact_start_idx s"
    and "compact_splice env t n s = (ok, s')"
  shows "\<exists>now. stored s' = stored s
      @ drop (compact_start_idx s) (take (compact_end_idx s) (history s)) @ [summary_entry now t n] \<and>
    drop (persisted_prefix s') (history s') = drop (compact_end_idx s) (history s)"
proof -
  have "persisted_prefix s \<le> compact_end_idx s" using assms(1,7) by simp
  from compact_splice_stored [OF refl refl assms(1-6,8)]
    compact_splice_prefix(1) [OF refl refl assms(1-4,8) this] assms(7)
  show ?thesis by (auto simp: Let_def drop_take)
qed

theorem splice_loses_head_witness:
  "\<exists>now. stored (snd (compact_splice ex_senv ''s'' 1 (ex_primed 0))) = stored (ex_primed 0)
      @ drop 2 (take 4 (history (ex_primed 0))) @ [summary_entry now ''s'' 1] \<and>
    drop (persisted_prefix (snd (compact_splice ex_senv ''s'' 1 (ex_primed 0))))
      (history (snd (compact_splice ex_senv ''s'' 1 (ex_primed 0)))) = drop 4 (history (ex_primed 0))"
  using splice_loses_head [of "ex_primed 0" ex_senv "''s''" 1 "fst (compact_splice ex_senv ''s'' 1 (ex_primed 0))"
      "snd (compact_splice ex_senv ''s'' 1 (ex_primed 0))"] ex_primed_state [of 0]
  by (simp add: ex_primed_fields six_less)

text \<open>
  When the prefix ends behind the range (a session primed with more than it compacts), the
  new prefix is one entry short, so the last primed entry is stored a second time.
\<close>

theorem splice_stores_twice:
  assumes "compact_start_idx s < compact_end_idx s" and "compact_end_idx s \<le> length (history s)"
    and "length (history s) < SIZE_LIM" and "length (history s) \<le> cap (history_arr s)"
    and "compact_end_idx s < persisted_prefix s" and "compact_splice env t n s = (ok, s')"
  shows "drop (persisted_prefix s') (history s') = drop (persisted_prefix s - 1) (history s)"
  by (rule compact_splice_prefix(2) [OF refl refl assms(1-4,6,5)])

theorem splice_stores_twice_witness:
  "drop (persisted_prefix (snd (compact_splice ex_senv ''s'' 1 (ex_primed 6))))
     (history (snd (compact_splice ex_senv ''s'' 1 (ex_primed 6)))) = drop 5 (history (ex_primed 6)) \<and>
   length (drop 5 (history (ex_primed 6))) = 1"
  using splice_stores_twice [of "ex_primed 6" ex_senv "''s''" 1 "fst (compact_splice ex_senv ''s'' 1 (ex_primed 6))"
      "snd (compact_splice ex_senv ''s'' 1 (ex_primed 6))"] ex_primed_state [of 6]
  by (simp add: ex_primed_fields six_less)

text \<open>
  Two refused inputs on a fresh session leave no history but two counted entries: the next
  incremental estimate reads entries behind the end of the history.
\<close>

theorem refused_input_leaves_count:
  "history (snd (xAgentSessionInput ex_senv_down ex_agent (user_says ''y'')
     (snd (xAgentSessionInput ex_senv_down ex_agent (user_says ''x'') (ex_session ex_disabled))))) = [] \<and>
   delta_entries (snd (xAgentSessionInput ex_senv_down ex_agent (user_says ''y'')
     (snd (xAgentSessionInput ex_senv_down ex_agent (user_says ''x'') (ex_session ex_disabled))))) = 2"
  by (rule conjI; code_simp)

text \<open>
  A finished run hands everything it produced to the history in order, however it ended (an
  allocation failure cuts the tail off), and leaves the session idle and its sidecar cleaned up.
\<close>

theorem run_done_merges:
  assumes "\<not> compacting s"
  shows "\<exists>k \<le> length (elems (produced_arr q)).
      history (sess_fwd_on_done env ag q reason u s) = history s @ take k (elems (produced_arr q)) \<and>
      (s_mem s = [] \<longrightarrow> k = length (elems (produced_arr q))) \<and>
      idle (sess_fwd_on_done env ag q reason u s) \<and> sidecar (sess_fwd_on_done env ag q reason u s) = None"
proof -
  obtain k where "k \<le> length (elems (produced_arr q))"
    "history (run_done q reason u s) = history s @ take k (elems (produced_arr q))"
    "s_mem s = [] \<longrightarrow> k = length (elems (produced_arr q))" "sidecar (run_done q reason u s) = None"
    using run_done_history [of q reason u s] by blast
  with assms show ?thesis by (auto simp: sess_fwd_on_done_def run_done_frame)
qed

theorem run_done_merges_witness:
  "idle (sess_fwd_on_done ex_senv ex_agent (ex_query 1) xAgentDoneReason_Completed None ex_three)"
  using run_done_merges [of ex_three "ex_query 1" ex_senv ex_agent xAgentDoneReason_Completed None] ex_three_idle
  by (auto simp: idle_def)

section \<open>Sessions that resume\<close>

definition ex_store_env :: senv where
  "ex_store_env = ex_senv\<lparr>env_retrieve := (\<lambda>i q. if i = ''s1'' then [text_entry 5 xAgentRole_User (Some ''hi'') 2] else [])\<rparr>"

definition ex_store_agent :: xAgent where
  "ex_store_agent = ex_agent\<lparr>ag_memory := True\<rparr>"

definition ex_named :: xAgentSessionConf where
  "ex_named = (ex_sconf ex_disabled)\<lparr>sc_session_id := Some ''s1''\<rparr>"

definition ex_unnamed :: xAgentSessionConf where
  "ex_unnamed = (ex_sconf ex_disabled)\<lparr>sc_session_id := None\<rparr>"

definition ex_resumed :: xAgentSession where
  "ex_resumed = the (fst (xAgentCreateSession ex_store_env 7 ''junk'' [] ex_store_agent ex_named))"

lemma ex_resumed_created:
  "\<exists>ag' m'. xAgentCreateSession ex_store_env 7 ''junk'' [] ex_store_agent ex_named = (Some ex_resumed, ag', m')"
proof -
  have "fst (xAgentCreateSession ex_store_env 7 ''junk'' [] ex_store_agent ex_named) \<noteq> None" by code_simp
  then show ?thesis
    by (cases "xAgentCreateSession ex_store_env 7 ''junk'' [] ex_store_agent ex_named") (auto simp: ex_resumed_def)
qed

text \<open>
  C23. A session created from a memory store and never compacted stores, when it is destroyed,
  exactly the entries the conversation added to the ones it was primed with, each once and in
  order, whatever inputs, runs, failures and settings came in between; nothing goes to the store
  before.
\<close>

theorem resume_stores_once:
  assumes "xAgentCreateSession env r stack m ag conf = (Some s, ag', m')" and "ag_memory ag"
    and "session_id_copy s \<noteq> None" and "uncompacted env ag1 s s'"
  shows "stored s' = [] \<and> (\<exists>es new. history s' = es @ new \<and> trim_related (history s) es \<and>
    stored (xAgentSessionDestroy s') = new)"
proof -
  note c = create_session_primed [OF assms(1,2)]
  have g: "grown s s'" using grown_uncompacted [OF assms(4)] ..
  have "stored s = []" using c(2) by (simp add: stored_def)
  with destroy_stores_new [OF g c(1,3) assms(3)] g show ?thesis by (auto simp: grown_def durable_def)
qed

theorem resume_stores_once_witness:
  "\<exists>es new. history (snd (xAgentSessionInput ex_store_env ex_store_agent (user_says ''again'') ex_resumed)) = es @ new \<and>
     trim_related (history ex_resumed) es \<and>
     stored (xAgentSessionDestroy
       (snd (xAgentSessionInput ex_store_env ex_store_agent (user_says ''again'') ex_resumed))) = new"
proof -
  obtain ag' m' where c: "xAgentCreateSession ex_store_env 7 ''junk'' [] ex_store_agent ex_named = (Some ex_resumed, ag', m')"
    using ex_resumed_created by blast
  have mem: "ag_memory ex_store_agent" by code_simp
  have sid: "session_id_copy ex_resumed \<noteq> None" by code_simp
  have start: "\<not> compacting ex_resumed" by code_simp
  have after: "\<not> compacting (snd (xAgentSessionInput ex_store_env ex_store_agent (user_says ''again'') ex_resumed))"
    by code_simp
  from resume_stores_once [OF c mem sid unc_step [OF unc_refl [OF start] smove_input after]] show ?thesis ..
qed

text \<open>
  Resuming restores: with memory to spare, a session created under an id the store knows holds
  exactly the stored entries, in order, with new time stamps, and counts all of them as persisted.
\<close>

theorem resume_restores:
  assumes "ag_memory ag" and "sc_session_id conf = Some k"
    and "\<forall>e \<in> set (env_retrieve env k None). wf_entry e"
  shows "\<exists>s ag'. xAgentCreateSession env r stack [] ag conf = (Some s, ag', s_mem s) \<and>
    history s = map (restamp (env_wall env [])) (env_retrieve env k None) \<and>
    persisted_prefix s = length (env_retrieve env k None) \<and> session_id s = Some k"
  by (rule create_session_restores [OF assms])

theorem resume_restores_witness:
  "history ex_resumed = [restamp (env_wall ex_store_env []) (text_entry 5 xAgentRole_User (Some ''hi'') 2)]"
proof -
  have m: "ag_memory ex_store_agent" "sc_session_id ex_named = Some ''s1''"
    by (simp_all add: ex_store_agent_def ex_named_def)
  have r: "env_retrieve ex_store_env ''s1'' None = [text_entry 5 xAgentRole_User (Some ''hi'') 2]"
    by (simp add: ex_store_env_def)
  then have "\<forall>e \<in> set (env_retrieve ex_store_env ''s1'' None). wf_entry e"
    by (simp add: wf_entry_defs text_entry_def zero_msg_def or_empty_def)
  from resume_restores [OF m this, of 7 "''junk''"] show ?thesis
    by (auto simp: r ex_resumed_def)
qed

text \<open>
  A session created without an id by an agent with a store keeps a pointer to the generated
  id on the stack of the function that made it: afterwards its id is whatever that place holds,
  and its lookups go to the store under that name, while its own entries are stored under the
  generated one.
\<close>

theorem generated_id_dangles:
  assumes "ag_memory ag" and "sc_session_id conf = None"
    and "xAgentCreateSession env r stack [] ag conf = (Some s, ag', m')"
  shows "session_id s = Some stack \<and>
    session_id_copy s = Some (gen_session_id (ag_session_seq ag + 1) r) \<and>
    memory_hits env ag' msg s = env_retrieve env stack (Some msg)"
  by (rule create_session_generated [OF assms])

theorem generated_id_dangles_witness:
  "session_id (the (fst (xAgentCreateSession ex_store_env 7 ''junk'' [] ex_store_agent ex_unnamed))) = Some ''junk''"
proof -
  have m: "ag_memory ex_store_agent" "sc_session_id ex_unnamed = None"
    by (simp_all add: ex_store_agent_def ex_unnamed_def)
  have "fst (xAgentCreateSession ex_store_env 7 ''junk'' [] ex_store_agent ex_unnamed) \<noteq> None"
    by code_simp
  then obtain s ag' m' where
    "xAgentCreateSession ex_store_env 7 ''junk'' [] ex_store_agent ex_unnamed = (Some s, ag', m')"
    by (metis prod_cases3 fst_conv not_None_eq)
  from generated_id_dangles [OF m this] this show ?thesis by simp
qed

text \<open>
  The idle timer never starts a sidecar: whatever the session, the tool output and the
  provider, it leaves everything but itself and the allocator as it was. The query it creates is
  refused, because the run it is to watch is still the session's query.
\<close>

theorem sidecar_never_starts:
  "\<exists>m. session_sidecar_idle_timer_cb env ag rest s = s\<lparr>sidecar_idle_timer := False, s_mem := m\<rparr>"
  by (rule idle_timer_nothing)

end
